(* ===== verification/Prelude.thy ===== *)
theory Prelude
  imports Main "HOL-Library.Word" "HOL-Library.Signed_Division"
begin

unbundle bit_operations_syntax

text \<open>
  Shared vocabulary of the development: the C integer types as words, the limits of
  \<^verbatim>\<open>limits.h\<close> for the LP64 host the compiler is built on, reads of NUL-terminated
  character buffers, and the generic lemmas the component theories share.
\<close>

section \<open>Machine integers\<close>

text \<open>
  A C \<^verbatim>\<open>long long\<close> and a \<^verbatim>\<open>uint64_t\<close> are both a \<open>64 word\<close>: a cast between them is
  the identity, \<open>sint\<close> is the signed and \<open>uint\<close> the unsigned reading. Object sizes, offsets and
  counters of C type \<^verbatim>\<open>int\<close> are mathematical \<open>int\<close>s; where the source guards against
  overflow the guard is modelled and the bound is proved.
\<close>

type_synonym u8 = "8 word"
type_synonym u32 = "32 word"
type_synonym i64 = "64 word"

definition INT_MAX :: int where "INT_MAX = 2147483647"
definition UINT_MAX :: int where "UINT_MAX = 4294967295"
definition LLONG_MIN :: int where "LLONG_MIN = - 9223372036854775808"
definition LLONG_MAX :: int where "LLONG_MAX = 9223372036854775807"
definition ULLONG_MAX :: int where "ULLONG_MAX = 18446744073709551615"

text \<open>On the LP64 hosts the Makefile targets, \<^verbatim>\<open>long\<close> is as wide as \<^verbatim>\<open>long long\<close>.\<close>

abbreviation LONG_MAX :: int where "LONG_MAX \<equiv> LLONG_MAX"
abbreviation ULONG_MAX :: int where "ULONG_MAX \<equiv> ULLONG_MAX"

lemmas limit_defs = INT_MAX_def UINT_MAX_def LLONG_MIN_def LLONG_MAX_def ULLONG_MAX_def

text \<open>The value of a C relational or logical operator.\<close>

definition c_bool :: "bool \<Rightarrow> i64" where
  "c_bool b = (if b then 1 else 0)"

text \<open>
  Signed 64-bit arithmetic. The mathematical result is computed on \<open>int\<close>; C leaves an overflow
  undefined, which is the value \<open>None\<close> here.
\<close>

definition in_i64 :: "int \<Rightarrow> bool" where
  "in_i64 n \<longleftrightarrow> LLONG_MIN \<le> n \<and> n \<le> LLONG_MAX"

definition i64_checked :: "int \<Rightarrow> i64 option" where
  "i64_checked n = (if in_i64 n then Some (word_of_int n) else None)"

lemma sint_i64_bounds: "LLONG_MIN \<le> sint (x :: i64)" "sint (x :: i64) \<le> LLONG_MAX"
  using sint_ge [of x] sint_lt [of x] by (simp_all add: limit_defs)

lemma in_i64_sint [simp]: "in_i64 (sint (x :: i64))"
  by (simp add: in_i64_def sint_i64_bounds)

lemma sint_word_of_int_i64: "in_i64 n \<Longrightarrow> sint (word_of_int n :: i64) = n"
  by (simp add: in_i64_def limit_defs signed_of_int signed_take_bit_int_eq_self)

lemma i64_checked_Some: "i64_checked n = Some w \<longleftrightarrow> in_i64 n \<and> w = word_of_int n"
  by (auto simp: i64_checked_def)

lemma i64_checked_sint: "i64_checked n = Some w \<Longrightarrow> sint w = n"
  by (auto simp: i64_checked_Some sint_word_of_int_i64)

section \<open>Outcomes\<close>

text \<open>
  The result of a computation on host integers: a value, a refusal (the function returns its
  failure flag), or behaviour C leaves undefined (signed overflow, a trapping division).
\<close>

datatype 'a outcome = Value 'a | Refused | Undefined

primrec outcome_bind :: "'a outcome \<Rightarrow> ('a \<Rightarrow> 'b outcome) \<Rightarrow> 'b outcome" where
  "outcome_bind (Value x) f = f x"
| "outcome_bind Refused f = Refused"
| "outcome_bind Undefined f = Undefined"

text \<open>A call whose failure flag is passed on, and a host operation that may be undefined.\<close>

definition or_refuse :: "'a option \<Rightarrow> 'a outcome" where
  "or_refuse x = (case x of None \<Rightarrow> Refused | Some v \<Rightarrow> Value v)"

definition or_undefined :: "'a option \<Rightarrow> 'a outcome" where
  "or_undefined x = (case x of None \<Rightarrow> Undefined | Some v \<Rightarrow> Value v)"

lemma or_refuse_simps [simp]:
  "or_refuse None = Refused" "or_refuse (Some v) = Value v" "or_refuse x \<noteq> Undefined"
  by (cases x; simp add: or_refuse_def)+

lemma or_undefined_simps [simp]:
  "or_undefined None = Undefined" "or_undefined (Some v) = Value v"
  by (simp_all add: or_undefined_def)

lemma or_undefined_checked [simp]: "in_i64 n \<Longrightarrow> or_undefined (i64_checked n) = Value (word_of_int n)"
  by (simp add: i64_checked_def)

lemma outcome_bind_Undefined_iff:
  "outcome_bind m f = Undefined \<longleftrightarrow> m = Undefined \<or> (\<exists>x. m = Value x \<and> f x = Undefined)"
  by (cases m) auto

lemma outcome_bind_ValueE:
  assumes "outcome_bind m f = Value y"
  obtains x where "m = Value x" "f x = Value y"
  using assms by (cases m) auto

section \<open>Optional results\<close>

text \<open>
  A C function that returns a success flag and fills an out-parameter is modelled as a function
  into \<open>option\<close>: \<open>None\<close> for the flag 0.
\<close>

named_theorems result_simps \<open>unfolding of the success flag of an operation\<close>

lemma if_None_Some [result_simps]:
  "(if b then None else Some x) = Some y \<longleftrightarrow> \<not> b \<and> x = y"
  "(if b then Some x else None) = Some y \<longleftrightarrow> b \<and> x = y"
  by auto

lemma if_None_bind [result_simps]:
  "(if b then None else m) = Some y \<longleftrightarrow> \<not> b \<and> m = Some y"
  "(if b then m else None) = Some y \<longleftrightarrow> b \<and> m = Some y"
  by auto

text \<open>A guard that returned early did not hold when the call succeeded.\<close>

lemma guard_passed:
  assumes "(if b then None else m) = Some y"
  shows "\<not> b" "m = Some y"
  using assms by (simp_all split: if_splits)

section \<open>NUL-terminated buffers\<close>

text \<open>
  A \<^verbatim>\<open>char *\<close> cursor into a NUL-terminated buffer is the list of the bytes from the cursor up
  to the terminator. \<open>at p i\<close> is \<^verbatim>\<open>p[i]\<close>: the terminating NUL at the end.
\<close>

definition at :: "char list \<Rightarrow> nat \<Rightarrow> char" where
  "at p i = (if i < length p then p ! i else CHR 0x00)"

lemma at_Nil [simp]: "at [] i = CHR 0x00"
  by (simp add: at_def)

lemma at_Cons_0 [simp]: "at (c # p) 0 = c"
  by (simp add: at_def)

lemma at_Cons_Suc [simp]: "at (c # p) (Suc i) = at p i"
  by (simp add: at_def)

lemma at_Cons_numeral [simp]: "at (c # p) (numeral k) = at p (pred_numeral k)"
  by (simp add: numeral_eq_Suc)

lemma at_Cons_1 [simp]: "at (c # p) 1 = at p 0"
  by (simp add: One_nat_def)

lemma at_nonzero_length: "at p i \<noteq> CHR 0x00 \<Longrightarrow> i < length p"
  by (auto simp: at_def split: if_splits)

text \<open>The value of a byte, and a byte from a value.\<close>

abbreviation byte :: "char \<Rightarrow> nat" where
  "byte c \<equiv> of_char c"

lemma byte_less [simp]: "byte c < 256"
  by (metis of_char_mod_256 mod_less_divisor zero_less_numeral)

end
