(* ===== verification/TargetInfo.thy ===== *)
theory TargetInfo
  imports Prelude
begin

text \<open>
  Target description: \<^verbatim>\<open>src/target_info.h\<close> and \<^verbatim>\<open>src/target_info.c\<close>. A data layout gives
  the size and alignment of every scalar of the target; a target adds the calling convention. A
  pointer argument that may be NULL is an \<open>option\<close>, and every query checks it as the code does.
\<close>

section \<open>Data\<close>

datatype ag_target_scalar_kind_t =
    AG_TARGET_SCALAR_CHAR
  | AG_TARGET_SCALAR_SHORT
  | AG_TARGET_SCALAR_INT
  | AG_TARGET_SCALAR_LONG
  | AG_TARGET_SCALAR_LONG_LONG
  | AG_TARGET_SCALAR_FLOAT
  | AG_TARGET_SCALAR_DOUBLE
  | AG_TARGET_SCALAR_LONG_DOUBLE
  | AG_TARGET_SCALAR_FLOAT_COMPLEX
  | AG_TARGET_SCALAR_DOUBLE_COMPLEX
  | AG_TARGET_SCALAR_LONG_DOUBLE_COMPLEX
  | AG_TARGET_SCALAR_COUNT

record ag_target_scalar_layout_t =
  scalar_size :: int
  scalar_alignment :: int

datatype ag_target_call_abi_t =
    AG_TARGET_CALL_ABI_INVALID
  | AG_TARGET_CALL_ABI_AAPCS64
  | AG_TARGET_CALL_ABI_WASM32

record ag_data_layout_t =
  pointer_size :: int
  pointer_alignment :: int
  atomic_promoted_max_size :: int
  atomic_max_alignment :: int
  scalar_layouts :: "ag_target_scalar_kind_t \<Rightarrow> ag_target_scalar_layout_t"

record ag_target_info_t =
  target_data_layout :: ag_data_layout_t
  target_call_abi :: ag_target_call_abi_t

text \<open>The indices \<^verbatim>\<open>0 <= kind < AG_TARGET_SCALAR_COUNT\<close> the loops of the code run over.\<close>

definition scalar_kinds :: "ag_target_scalar_kind_t list" where
  "scalar_kinds =
    [AG_TARGET_SCALAR_CHAR, AG_TARGET_SCALAR_SHORT, AG_TARGET_SCALAR_INT,
     AG_TARGET_SCALAR_LONG, AG_TARGET_SCALAR_LONG_LONG, AG_TARGET_SCALAR_FLOAT,
     AG_TARGET_SCALAR_DOUBLE, AG_TARGET_SCALAR_LONG_DOUBLE,
     AG_TARGET_SCALAR_FLOAT_COMPLEX, AG_TARGET_SCALAR_DOUBLE_COMPLEX,
     AG_TARGET_SCALAR_LONG_DOUBLE_COMPLEX]"

lemma in_scalar_kinds: "k \<in> set scalar_kinds \<longleftrightarrow> k \<noteq> AG_TARGET_SCALAR_COUNT"
  by (cases k) (simp_all add: scalar_kinds_def)

section \<open>The targets\<close>

fun standard_scalar :: "ag_target_scalar_kind_t \<Rightarrow> ag_target_scalar_layout_t" where
  "standard_scalar AG_TARGET_SCALAR_CHAR = \<lparr>scalar_size = 1, scalar_alignment = 1\<rparr>"
| "standard_scalar AG_TARGET_SCALAR_SHORT = \<lparr>scalar_size = 2, scalar_alignment = 2\<rparr>"
| "standard_scalar AG_TARGET_SCALAR_INT = \<lparr>scalar_size = 4, scalar_alignment = 4\<rparr>"
| "standard_scalar AG_TARGET_SCALAR_LONG = \<lparr>scalar_size = 8, scalar_alignment = 8\<rparr>"
| "standard_scalar AG_TARGET_SCALAR_LONG_LONG = \<lparr>scalar_size = 8, scalar_alignment = 8\<rparr>"
| "standard_scalar AG_TARGET_SCALAR_FLOAT = \<lparr>scalar_size = 4, scalar_alignment = 4\<rparr>"
| "standard_scalar AG_TARGET_SCALAR_DOUBLE = \<lparr>scalar_size = 8, scalar_alignment = 8\<rparr>"
| "standard_scalar AG_TARGET_SCALAR_LONG_DOUBLE = \<lparr>scalar_size = 8, scalar_alignment = 8\<rparr>"
| "standard_scalar AG_TARGET_SCALAR_FLOAT_COMPLEX = \<lparr>scalar_size = 8, scalar_alignment = 8\<rparr>"
| "standard_scalar AG_TARGET_SCALAR_DOUBLE_COMPLEX = \<lparr>scalar_size = 16, scalar_alignment = 8\<rparr>"
| "standard_scalar AG_TARGET_SCALAR_LONG_DOUBLE_COMPLEX =
     \<lparr>scalar_size = 16, scalar_alignment = 8\<rparr>"
| "standard_scalar AG_TARGET_SCALAR_COUNT = \<lparr>scalar_size = 0, scalar_alignment = 0\<rparr>"

definition standard_target :: ag_target_info_t where
  "standard_target =
    \<lparr>target_data_layout =
       \<lparr>pointer_size = 8, pointer_alignment = 8, atomic_promoted_max_size = 16,
        atomic_max_alignment = 16, scalar_layouts = standard_scalar\<rparr>,
     target_call_abi = AG_TARGET_CALL_ABI_AAPCS64\<rparr>"

definition ag_target_info_host :: ag_target_info_t where
  "ag_target_info_host = standard_target"

definition ag_target_info_wasm32 :: ag_target_info_t where
  "ag_target_info_wasm32 =
    (let target = standard_target in
     target\<lparr>target_data_layout := (target_data_layout target)
              \<lparr>pointer_size := 4, pointer_alignment := 4, atomic_max_alignment := 8\<rparr>,
            target_call_abi := AG_TARGET_CALL_ABI_WASM32\<rparr>)"

section \<open>Queries\<close>

fun ag_data_layout_is_valid :: "ag_data_layout_t option \<Rightarrow> bool" where
  "ag_data_layout_is_valid None = False"
| "ag_data_layout_is_valid (Some layout) =
    (if pointer_size layout \<le> 0 \<or> pointer_alignment layout \<le> 0 \<or>
        atomic_promoted_max_size layout \<le> 0 \<or> atomic_max_alignment layout \<le> 0 \<or>
        atomic_max_alignment layout > atomic_promoted_max_size layout
     then False
     else list_all (\<lambda>kind. \<not> (scalar_size (scalar_layouts layout kind) \<le> 0 \<or>
                              scalar_alignment (scalar_layouts layout kind) \<le> 0)) scalar_kinds)"

fun ag_target_info_is_valid :: "ag_target_info_t option \<Rightarrow> bool" where
  "ag_target_info_is_valid None = False"
| "ag_target_info_is_valid (Some target) =
    (ag_data_layout_is_valid (Some (target_data_layout target)) \<and>
     (target_call_abi target = AG_TARGET_CALL_ABI_AAPCS64 \<or>
      target_call_abi target = AG_TARGET_CALL_ABI_WASM32))"

fun ag_target_info_data_layout :: "ag_target_info_t option \<Rightarrow> ag_data_layout_t option" where
  "ag_target_info_data_layout None = None"
| "ag_target_info_data_layout (Some target) =
    (if ag_data_layout_is_valid (Some (target_data_layout target)) then Some (target_data_layout target)
     else None)"

fun ag_data_layout_pointer_size :: "ag_data_layout_t option \<Rightarrow> int" where
  "ag_data_layout_pointer_size None = 0"
| "ag_data_layout_pointer_size (Some layout) =
    (if pointer_size layout > 0 then pointer_size layout else 0)"

fun ag_data_layout_pointer_alignment :: "ag_data_layout_t option \<Rightarrow> int" where
  "ag_data_layout_pointer_alignment None = 0"
| "ag_data_layout_pointer_alignment (Some layout) =
    (if pointer_alignment layout > 0 then pointer_alignment layout else 0)"

fun ag_data_layout_atomic_promoted_max_size :: "ag_data_layout_t option \<Rightarrow> int" where
  "ag_data_layout_atomic_promoted_max_size None = 0"
| "ag_data_layout_atomic_promoted_max_size (Some layout) =
    (if atomic_promoted_max_size layout > 0 then atomic_promoted_max_size layout else 0)"

fun ag_data_layout_atomic_max_alignment :: "ag_data_layout_t option \<Rightarrow> int" where
  "ag_data_layout_atomic_max_alignment None = 0"
| "ag_data_layout_atomic_max_alignment (Some layout) =
    (if atomic_max_alignment layout > 0 then atomic_max_alignment layout else 0)"

fun ag_data_layout_scalar_size ::
  "ag_data_layout_t option \<Rightarrow> ag_target_scalar_kind_t \<Rightarrow> int" where
  "ag_data_layout_scalar_size layout AG_TARGET_SCALAR_COUNT = 0"
| "ag_data_layout_scalar_size None kind = 0"
| "ag_data_layout_scalar_size (Some layout) kind =
    (if scalar_size (scalar_layouts layout kind) > 0 then scalar_size (scalar_layouts layout kind) else 0)"

fun ag_data_layout_scalar_alignment ::
  "ag_data_layout_t option \<Rightarrow> ag_target_scalar_kind_t \<Rightarrow> int" where
  "ag_data_layout_scalar_alignment layout AG_TARGET_SCALAR_COUNT = 0"
| "ag_data_layout_scalar_alignment None kind = 0"
| "ag_data_layout_scalar_alignment (Some layout) kind =
    (if scalar_alignment (scalar_layouts layout kind) > 0 then scalar_alignment (scalar_layouts layout kind)
     else 0)"

definition ag_data_layout_equal ::
  "ag_data_layout_t option \<Rightarrow> ag_data_layout_t option \<Rightarrow> bool" where
  "ag_data_layout_equal lhs rhs =
    (if \<not> ag_data_layout_is_valid lhs \<or> \<not> ag_data_layout_is_valid rhs \<or>
        ag_data_layout_pointer_size lhs \<noteq> ag_data_layout_pointer_size rhs \<or>
        ag_data_layout_pointer_alignment lhs \<noteq> ag_data_layout_pointer_alignment rhs \<or>
        ag_data_layout_atomic_promoted_max_size lhs \<noteq>
          ag_data_layout_atomic_promoted_max_size rhs \<or>
        ag_data_layout_atomic_max_alignment lhs \<noteq> ag_data_layout_atomic_max_alignment rhs
     then False
     else list_all (\<lambda>kind.
            \<not> (ag_data_layout_scalar_size lhs kind \<noteq> ag_data_layout_scalar_size rhs kind \<or>
               ag_data_layout_scalar_alignment lhs kind \<noteq>
                 ag_data_layout_scalar_alignment rhs kind)) scalar_kinds)"

fun ag_target_info_call_abi :: "ag_target_info_t option \<Rightarrow> ag_target_call_abi_t" where
  "ag_target_info_call_abi None = AG_TARGET_CALL_ABI_INVALID"
| "ag_target_info_call_abi (Some target) =
    (if target_call_abi target = AG_TARGET_CALL_ABI_AAPCS64 \<or>
        target_call_abi target = AG_TARGET_CALL_ABI_WASM32
     then target_call_abi target else AG_TARGET_CALL_ABI_INVALID)"

definition ag_target_info_equal ::
  "ag_target_info_t option \<Rightarrow> ag_target_info_t option \<Rightarrow> bool" where
  "ag_target_info_equal lhs rhs =
    (if \<not> ag_target_info_is_valid lhs \<or> \<not> ag_target_info_is_valid rhs then False
     else ag_target_info_call_abi lhs = ag_target_info_call_abi rhs \<and>
          ag_data_layout_equal (map_option target_data_layout lhs) (map_option target_data_layout rhs))"

section \<open>Facts\<close>

lemma valid_layout_some: "ag_data_layout_is_valid l \<Longrightarrow> \<exists>d. l = Some d"
  by (cases l) auto

lemma scalar_size_pos:
  assumes "ag_data_layout_is_valid l" "k \<noteq> AG_TARGET_SCALAR_COUNT"
  shows "ag_data_layout_scalar_size l k > 0" "ag_data_layout_scalar_alignment l k > 0"
proof -
  obtain d where d: "l = Some d"
    using assms(1) valid_layout_some by blast
  have "list_all (\<lambda>k. scalar_size (scalar_layouts d k) > 0 \<and> scalar_alignment (scalar_layouts d k) > 0)
          scalar_kinds"
    using assms(1) by (auto simp: d list_all_iff not_le split: if_splits)
  moreover have "k \<in> set scalar_kinds"
    using assms(2) by (simp add: in_scalar_kinds)
  ultimately have "scalar_size (scalar_layouts d k) > 0 \<and> scalar_alignment (scalar_layouts d k) > 0"
    by (simp add: list_all_iff)
  then show "ag_data_layout_scalar_size l k > 0" "ag_data_layout_scalar_alignment l k > 0"
    using assms(2) by (cases k; simp add: d)+
qed

lemma pointer_size_pos:
  "ag_data_layout_is_valid l \<Longrightarrow> ag_data_layout_pointer_size l > 0"
  "ag_data_layout_is_valid l \<Longrightarrow> ag_data_layout_pointer_alignment l > 0"
  by (cases l; auto split: if_splits)+

lemma host_valid [simp]: "ag_target_info_is_valid (Some ag_target_info_host)"
  by (simp add: ag_target_info_host_def standard_target_def scalar_kinds_def)

lemma wasm32_valid [simp]: "ag_target_info_is_valid (Some ag_target_info_wasm32)"
  by (simp add: ag_target_info_wasm32_def standard_target_def scalar_kinds_def)

lemma layout_equal_iff:
  "ag_data_layout_equal l r \<longleftrightarrow>
     ag_data_layout_is_valid l \<and> ag_data_layout_is_valid r \<and>
     ag_data_layout_pointer_size l = ag_data_layout_pointer_size r \<and>
     ag_data_layout_pointer_alignment l = ag_data_layout_pointer_alignment r \<and>
     ag_data_layout_atomic_promoted_max_size l = ag_data_layout_atomic_promoted_max_size r \<and>
     ag_data_layout_atomic_max_alignment l = ag_data_layout_atomic_max_alignment r \<and>
     (\<forall>k. ag_data_layout_scalar_size l k = ag_data_layout_scalar_size r k \<and>
          ag_data_layout_scalar_alignment l k = ag_data_layout_scalar_alignment r k)"
proof -
  have all: "list_all P scalar_kinds \<longleftrightarrow> (\<forall>k. P k)" if "P AG_TARGET_SCALAR_COUNT" for P
    using that by (auto simp: list_all_iff in_scalar_kinds)
  show ?thesis
    unfolding ag_data_layout_equal_def by (subst all) auto
qed

lemma layout_equal_refl: "ag_data_layout_is_valid l \<Longrightarrow> ag_data_layout_equal l l"
  by (simp add: layout_equal_iff)

lemma layout_equal_sym: "ag_data_layout_equal l r \<Longrightarrow> ag_data_layout_equal r l"
  by (simp add: layout_equal_iff)

lemma layout_equal_trans:
  "ag_data_layout_equal l m \<Longrightarrow> ag_data_layout_equal m r \<Longrightarrow> ag_data_layout_equal l r"
  by (simp add: layout_equal_iff)

end
