(* ===== verification/IntegerConversion.thy ===== *)
theory IntegerConversion
  imports TargetInfo
begin

text \<open>
  Type shapes and integer conversions: \<^verbatim>\<open>src/type_system/type_ids.h\<close>,
  \<^verbatim>\<open>src/type_system/type_shape.h\<close> and \<^verbatim>\<open>src/type_system/integer_conversion.c\<close>. A shape
  describes one node of an interned C type; an integer conversion is the rank and signedness that
  the integer promotions and the usual arithmetic conversions of C11 6.3.1 work on.
\<close>

section \<open>Type shapes\<close>

type_synonym psx_type_id_t = nat
type_synonym psx_record_id_t = nat
type_synonym psx_decl_id_t = nat
type_synonym psx_type_qualifiers_t = u32

abbreviation (input) PSX_TYPE_ID_INVALID :: psx_type_id_t where "PSX_TYPE_ID_INVALID \<equiv> 0"
abbreviation (input) PSX_RECORD_ID_INVALID :: psx_record_id_t where "PSX_RECORD_ID_INVALID \<equiv> 0"
abbreviation (input) PSX_DECL_ID_INVALID :: psx_decl_id_t where "PSX_DECL_ID_INVALID \<equiv> 0"

abbreviation (input) PSX_TYPE_QUALIFIER_NONE :: psx_type_qualifiers_t where
  "PSX_TYPE_QUALIFIER_NONE \<equiv> 0"
abbreviation (input) PSX_TYPE_QUALIFIER_CONST :: psx_type_qualifiers_t where
  "PSX_TYPE_QUALIFIER_CONST \<equiv> 1"
abbreviation (input) PSX_TYPE_QUALIFIER_VOLATILE :: psx_type_qualifiers_t where
  "PSX_TYPE_QUALIFIER_VOLATILE \<equiv> 2"
abbreviation (input) PSX_TYPE_QUALIFIER_ATOMIC :: psx_type_qualifiers_t where
  "PSX_TYPE_QUALIFIER_ATOMIC \<equiv> 4"
abbreviation (input) PSX_TYPE_QUALIFIER_RESTRICT :: psx_type_qualifiers_t where
  "PSX_TYPE_QUALIFIER_RESTRICT \<equiv> 8"

record psx_qual_type_t =
  qt_type_id :: psx_type_id_t
  qt_qualifiers :: psx_type_qualifiers_t

datatype psx_type_kind_t =
    PSX_TYPE_INVALID
  | PSX_TYPE_VOID
  | PSX_TYPE_BOOL
  | PSX_TYPE_INTEGER
  | PSX_TYPE_FLOAT
  | PSX_TYPE_POINTER
  | PSX_TYPE_ARRAY
  | PSX_TYPE_FUNCTION
  | PSX_TYPE_STRUCT
  | PSX_TYPE_UNION
  | PSX_TYPE_COMPLEX

datatype psx_integer_kind_t =
    PSX_INTEGER_KIND_NONE
  | PSX_INTEGER_KIND_BOOL
  | PSX_INTEGER_KIND_CHAR
  | PSX_INTEGER_KIND_SHORT
  | PSX_INTEGER_KIND_INT
  | PSX_INTEGER_KIND_LONG
  | PSX_INTEGER_KIND_LONG_LONG
  | PSX_INTEGER_KIND_ENUM

datatype psx_floating_kind_t =
    PSX_FLOATING_KIND_NONE
  | PSX_FLOATING_KIND_FLOAT
  | PSX_FLOATING_KIND_DOUBLE
  | PSX_FLOATING_KIND_LONG_DOUBLE

text \<open>The code compares integer kinds with \<^verbatim>\<open><\<close>, in the order of the enumerators.\<close>

primrec integer_kind_index :: "psx_integer_kind_t \<Rightarrow> nat" where
  "integer_kind_index PSX_INTEGER_KIND_NONE = 0"
| "integer_kind_index PSX_INTEGER_KIND_BOOL = 1"
| "integer_kind_index PSX_INTEGER_KIND_CHAR = 2"
| "integer_kind_index PSX_INTEGER_KIND_SHORT = 3"
| "integer_kind_index PSX_INTEGER_KIND_INT = 4"
| "integer_kind_index PSX_INTEGER_KIND_LONG = 5"
| "integer_kind_index PSX_INTEGER_KIND_LONG_LONG = 6"
| "integer_kind_index PSX_INTEGER_KIND_ENUM = 7"

lemma integer_kind_index_inject: "integer_kind_index a = integer_kind_index b \<Longrightarrow> a = b"
  by (cases a; cases b) simp_all

instantiation psx_integer_kind_t :: linorder
begin

definition less_eq_psx_integer_kind_t :: "psx_integer_kind_t \<Rightarrow> psx_integer_kind_t \<Rightarrow> bool" where
  "less_eq_psx_integer_kind_t a b \<longleftrightarrow> integer_kind_index a \<le> integer_kind_index b"

definition less_psx_integer_kind_t :: "psx_integer_kind_t \<Rightarrow> psx_integer_kind_t \<Rightarrow> bool" where
  "less_psx_integer_kind_t a b \<longleftrightarrow> integer_kind_index a < integer_kind_index b"

instance
  by standard
    (auto simp: less_eq_psx_integer_kind_t_def less_psx_integer_kind_t_def
          dest: integer_kind_index_inject)

end

record psx_type_shape_t =
  shape_kind :: psx_type_kind_t
  shape_array_len :: int
  shape_integer_kind :: psx_integer_kind_t
  shape_floating_kind :: psx_floating_kind_t
  shape_record_id :: psx_record_id_t
  shape_record_tag_name :: "string option"
  shape_enum_tag_name :: "string option"
  shape_enum_decl_id :: psx_decl_id_t
  shape_parameter_count :: int
  shape_is_unsigned :: bool
  shape_is_plain_char :: bool
  shape_is_vla :: bool
  shape_has_function_prototype :: bool
  shape_is_variadic_function :: bool

text \<open>The zero-initialised shape \<^verbatim>\<open>(psx_type_shape_t){0}\<close>.\<close>

definition zero_shape :: psx_type_shape_t where
  "zero_shape =
    \<lparr>shape_kind = PSX_TYPE_INVALID, shape_array_len = 0,
     shape_integer_kind = PSX_INTEGER_KIND_NONE, shape_floating_kind = PSX_FLOATING_KIND_NONE,
     shape_record_id = 0, shape_record_tag_name = None, shape_enum_tag_name = None,
     shape_enum_decl_id = 0, shape_parameter_count = 0, shape_is_unsigned = False,
     shape_is_plain_char = False, shape_is_vla = False,
     shape_has_function_prototype = False, shape_is_variadic_function = False\<rparr>"

definition psx_type_kind_is_scalar :: "psx_type_kind_t \<Rightarrow> bool" where
  "psx_type_kind_is_scalar k \<longleftrightarrow>
     k = PSX_TYPE_BOOL \<or> k = PSX_TYPE_INTEGER \<or> k = PSX_TYPE_FLOAT \<or>
     k = PSX_TYPE_COMPLEX \<or> k = PSX_TYPE_POINTER"

definition psx_type_kind_is_aggregate :: "psx_type_kind_t \<Rightarrow> bool" where
  "psx_type_kind_is_aggregate k \<longleftrightarrow> k = PSX_TYPE_STRUCT \<or> k = PSX_TYPE_UNION"

section \<open>Integer conversions\<close>

record psx_integer_conversion_t =
  conv_rank :: int
  conv_is_unsigned :: bool
  conv_is_integer :: bool

definition zero_conversion :: psx_integer_conversion_t where
  "zero_conversion = \<lparr>conv_rank = 0, conv_is_unsigned = False, conv_is_integer = False\<rparr>"

definition scalar_kind_for_rank :: "int \<Rightarrow> ag_target_scalar_kind_t" where
  "scalar_kind_for_rank rank =
    (if rank \<ge> 5 then AG_TARGET_SCALAR_LONG_LONG
     else if rank = 4 then AG_TARGET_SCALAR_LONG
     else if rank = 2 then AG_TARGET_SCALAR_SHORT
     else if rank = 1 then AG_TARGET_SCALAR_CHAR
     else AG_TARGET_SCALAR_INT)"

definition integer_size_for_rank :: "int \<Rightarrow> ag_data_layout_t option \<Rightarrow> int" where
  "integer_size_for_rank rank data_layout =
     ag_data_layout_scalar_size data_layout (scalar_kind_for_rank rank)"

fun psx_integer_conversion_from_shape ::
  "psx_type_shape_t option \<Rightarrow> psx_integer_conversion_t" where
  "psx_integer_conversion_from_shape None = zero_conversion"
| "psx_integer_conversion_from_shape (Some shape) =
    (if shape_kind shape \<noteq> PSX_TYPE_BOOL \<and> shape_kind shape \<noteq> PSX_TYPE_INTEGER
     then zero_conversion
     else let result = zero_conversion
                \<lparr>conv_is_integer := True, conv_is_unsigned := shape_is_unsigned shape\<rparr>
          in if shape_kind shape = PSX_TYPE_BOOL then result
             else if shape_is_plain_char shape then result\<lparr>conv_rank := 1\<rparr>
             else (case shape_integer_kind shape of
                     PSX_INTEGER_KIND_CHAR \<Rightarrow> result\<lparr>conv_rank := 1\<rparr>
                   | PSX_INTEGER_KIND_SHORT \<Rightarrow> result\<lparr>conv_rank := 2\<rparr>
                   | PSX_INTEGER_KIND_INT \<Rightarrow> result\<lparr>conv_rank := 3\<rparr>
                   | PSX_INTEGER_KIND_ENUM \<Rightarrow> result\<lparr>conv_rank := 3\<rparr>
                   | PSX_INTEGER_KIND_LONG \<Rightarrow> result\<lparr>conv_rank := 4\<rparr>
                   | PSX_INTEGER_KIND_LONG_LONG \<Rightarrow> result\<lparr>conv_rank := 5\<rparr>
                   | _ \<Rightarrow> result\<lparr>conv_is_integer := False\<rparr>))"

definition psx_integer_conversion_size_for_data_layout ::
  "psx_integer_conversion_t \<Rightarrow> ag_data_layout_t option \<Rightarrow> int" where
  "psx_integer_conversion_size_for_data_layout type data_layout =
    (if \<not> conv_is_integer type \<or> \<not> ag_data_layout_is_valid data_layout then 0
     else integer_size_for_rank (conv_rank type) data_layout)"

definition psx_integer_promotion_for_data_layout ::
  "psx_integer_conversion_t \<Rightarrow> ag_data_layout_t option \<Rightarrow> psx_integer_conversion_t" where
  "psx_integer_promotion_for_data_layout type data_layout =
    (if \<not> conv_is_integer type \<or> \<not> ag_data_layout_is_valid data_layout then zero_conversion
     else type
       \<lparr>conv_rank := (if conv_rank type < 3 then 3 else conv_rank type),
        conv_is_unsigned :=
          (if conv_rank type \<ge> 3 then conv_is_unsigned type
           else conv_is_unsigned type \<and>
                psx_integer_conversion_size_for_data_layout type data_layout \<ge>
                  integer_size_for_rank 3 data_layout)\<rparr>)"

definition psx_usual_integer_conversion_for_data_layout ::
  "psx_integer_conversion_t \<Rightarrow> psx_integer_conversion_t \<Rightarrow> ag_data_layout_t option \<Rightarrow>
   psx_integer_conversion_t" where
  "psx_usual_integer_conversion_for_data_layout lhs0 rhs0 data_layout =
    (let lhs = psx_integer_promotion_for_data_layout lhs0 data_layout;
         rhs = psx_integer_promotion_for_data_layout rhs0 data_layout
     in if \<not> conv_is_integer lhs \<or> \<not> conv_is_integer rhs then zero_conversion
        else let result = zero_conversion
                   \<lparr>conv_rank := (if conv_rank lhs > conv_rank rhs then conv_rank lhs
                                  else conv_rank rhs),
                    conv_is_integer := True\<rparr>
             in if conv_is_unsigned lhs = conv_is_unsigned rhs
                then result\<lparr>conv_is_unsigned := conv_is_unsigned lhs\<rparr>
                else let unsigned_type = (if conv_is_unsigned lhs then lhs else rhs);
                         signed_type = (if conv_is_unsigned lhs then rhs else lhs)
                     in if conv_rank unsigned_type \<ge> conv_rank signed_type
                        then result\<lparr>conv_is_unsigned := True\<rparr>
                        else if integer_size_for_rank (conv_rank signed_type) data_layout >
                                integer_size_for_rank (conv_rank unsigned_type) data_layout
                        then result
                        else result\<lparr>conv_rank := conv_rank signed_type,
                                    conv_is_unsigned := True\<rparr>)"

section \<open>The values of a converted type\<close>

text \<open>
  The reading of C11 6.2.6.2: a type of \<open>n\<close> value bits holds \<open>0 .. 2^n - 1\<close> when unsigned and
  \<open>-2^(n-1) .. 2^(n-1) - 1\<close> when signed (two's complement).
\<close>

definition conv_bits :: "psx_integer_conversion_t \<Rightarrow> ag_data_layout_t option \<Rightarrow> nat" where
  "conv_bits c l = nat (psx_integer_conversion_size_for_data_layout c l * 8)"

definition conv_holds :: "psx_integer_conversion_t \<Rightarrow> ag_data_layout_t option \<Rightarrow> int \<Rightarrow> bool" where
  "conv_holds c l n \<longleftrightarrow>
     (if conv_is_unsigned c then 0 \<le> n \<and> n < 2 ^ conv_bits c l
      else - (2 ^ (conv_bits c l - 1)) \<le> n \<and> n < 2 ^ (conv_bits c l - 1))"

text \<open>
  The C standard orders the sizes of the standard integer types by rank (6.2.5p8). A layout
  described by the target table satisfies it; it is the hypothesis of value preservation.
\<close>

definition layout_ranks_ordered :: "ag_data_layout_t option \<Rightarrow> bool" where
  "layout_ranks_ordered l \<longleftrightarrow>
     integer_size_for_rank 1 l \<le> integer_size_for_rank 2 l \<and>
     integer_size_for_rank 2 l \<le> integer_size_for_rank 3 l \<and>
     integer_size_for_rank 3 l \<le> integer_size_for_rank 4 l \<and>
     integer_size_for_rank 4 l \<le> integer_size_for_rank 5 l"

lemma conversion_size_pos:
  "conv_is_integer c \<Longrightarrow> ag_data_layout_is_valid l \<Longrightarrow>
   psx_integer_conversion_size_for_data_layout c l > 0"
  by (auto simp: psx_integer_conversion_size_for_data_layout_def integer_size_for_rank_def
        scalar_kind_for_rank_def intro: scalar_size_pos)

lemma from_shape_rank:
  "conv_is_integer (psx_integer_conversion_from_shape s) \<Longrightarrow>
   0 \<le> conv_rank (psx_integer_conversion_from_shape s) \<and>
   conv_rank (psx_integer_conversion_from_shape s) \<le> 5"
  by (cases s)
    (auto simp: zero_conversion_def Let_def split: if_splits psx_integer_kind_t.splits)

lemma promotion_simps:
  assumes "conv_is_integer c" "ag_data_layout_is_valid l"
  shows "conv_is_integer (psx_integer_promotion_for_data_layout c l)"
    and "conv_rank (psx_integer_promotion_for_data_layout c l) = max 3 (conv_rank c)"
  using assms by (simp_all add: psx_integer_promotion_for_data_layout_def)

lemma promotion_idempotent:
  "psx_integer_promotion_for_data_layout (psx_integer_promotion_for_data_layout c l) l =
   psx_integer_promotion_for_data_layout c l"
  by (auto simp: psx_integer_promotion_for_data_layout_def zero_conversion_def)

text \<open>The sizes of two ranks are ordered as the ranks are, from \<open>int\<close> on.\<close>

lemma integer_size_mono:
  "layout_ranks_ordered l \<Longrightarrow> 3 \<le> r \<Longrightarrow> r \<le> s \<Longrightarrow>
   integer_size_for_rank r l \<le> integer_size_for_rank s l"
  by (auto simp: layout_ranks_ordered_def integer_size_for_rank_def scalar_kind_for_rank_def)

lemma conv_holds_wider:
  assumes "conv_holds a l v" "conv_bits a l \<le> conv_bits b l" "0 < conv_bits a l"
    and "conv_is_unsigned a = conv_is_unsigned b \<or> conv_is_unsigned b \<and> 0 \<le> v \<or>
         conv_is_unsigned a \<and> conv_bits a l < conv_bits b l"
  shows "conv_holds b l v"
proof -
  have p: "(2 :: int) ^ m \<le> 2 ^ n" if "m \<le> n" for m n :: nat
    using that by (intro power_increasing) auto
  let ?a = "conv_bits a l" and ?b = "conv_bits b l"
  have ps: "(2 :: int) ^ ?a \<le> 2 ^ ?b" "(2 :: int) ^ (?a - 1) \<le> 2 ^ (?b - 1)"
      "(2 :: int) ^ (?a - 1) \<le> 2 ^ ?b" "?a < ?b \<Longrightarrow> (2 :: int) ^ ?a \<le> 2 ^ (?b - 1)"
    using assms(2,3) by (intro p; linarith)+
  have pos: "(0 :: int) < 2 ^ (?b - 1)" by simp
  show ?thesis
    using assms(1,4) ps pos unfolding conv_holds_def
    by (auto split: if_splits simp: not_less simp del: power_increasing_iff One_nat_def)
qed

lemma conv_bits_eq:
  "conv_is_integer c \<Longrightarrow> ag_data_layout_is_valid l \<Longrightarrow>
   conv_bits c l = nat (integer_size_for_rank (conv_rank c) l * 8)"
  by (simp add: conv_bits_def psx_integer_conversion_size_for_data_layout_def)

lemma conv_bits_pos:
  "conv_is_integer c \<Longrightarrow> ag_data_layout_is_valid l \<Longrightarrow> 0 < conv_bits c l"
  using conversion_size_pos [of c l] by (simp add: conv_bits_def)

lemma usual_conversion_commutes_aux:
  "psx_usual_integer_conversion_for_data_layout a b l =
   psx_usual_integer_conversion_for_data_layout b a l"
  by (auto simp: psx_usual_integer_conversion_for_data_layout_def Let_def max_def)

text \<open>The converted type has the greater rank and is never smaller than a promoted operand.\<close>

lemma usual_conversion_cases:
  assumes "conv_is_integer a" "conv_is_integer b" "ag_data_layout_is_valid l"
  defines "c \<equiv> psx_usual_integer_conversion_for_data_layout a b l"
    and "p \<equiv> psx_integer_promotion_for_data_layout a l"
    and "q \<equiv> psx_integer_promotion_for_data_layout b l"
  shows "conv_is_integer c" "conv_rank c = max (conv_rank p) (conv_rank q)"
    and "\<not> conv_is_unsigned c \<Longrightarrow>
           \<not> conv_is_unsigned p \<or> conv_bits p l < conv_bits c l"
proof -
  have i: "conv_is_integer p" "conv_is_integer q"
    using assms by (simp_all add: promotion_simps)
  show c: "conv_is_integer c" "conv_rank c = max (conv_rank p) (conv_rank q)"
    using i unfolding c_def p_def q_def
    by (auto simp: psx_usual_integer_conversion_for_data_layout_def Let_def zero_conversion_def)
  have pos: "integer_size_for_rank (conv_rank p) l > 0"
    using conversion_size_pos [OF i(1) assms(3)] i(1) assms(3)
    by (simp add: psx_integer_conversion_size_for_data_layout_def)
  show "\<not> conv_is_unsigned p \<or> conv_bits p l < conv_bits c l" if "\<not> conv_is_unsigned c"
  proof (rule ccontr)
    assume n: "\<not> ?thesis"
    then have u: "conv_is_unsigned p" by simp
    have "integer_size_for_rank (conv_rank q) l > integer_size_for_rank (conv_rank p) l \<and>
          conv_rank q > conv_rank p"
      using that u i
      unfolding c_def psx_usual_integer_conversion_for_data_layout_def Let_def
        p_def [symmetric] q_def [symmetric]
      by (auto simp: zero_conversion_def split: if_splits)
    then have "conv_bits p l < conv_bits c l"
      using c i assms(3) pos by (simp add: conv_bits_eq)
    then show False using n by simp
  qed
qed

lemma usual_conversion_preserves_aux:
  assumes "conv_is_integer a" "conv_is_integer b" "ag_data_layout_is_valid l"
    and "layout_ranks_ordered l"
    and "conv_holds (psx_integer_promotion_for_data_layout a l) l v"
    and "conv_is_unsigned (psx_usual_integer_conversion_for_data_layout a b l) \<longrightarrow> 0 \<le> v"
  shows "conv_holds (psx_usual_integer_conversion_for_data_layout a b l) l v"
proof (rule conv_holds_wider [OF assms(5)])
  let ?p = "psx_integer_promotion_for_data_layout a l"
  let ?c = "psx_usual_integer_conversion_for_data_layout a b l"
  have i: "conv_is_integer ?p" "conv_is_integer ?c" "3 \<le> conv_rank ?p"
      "conv_rank ?p \<le> conv_rank ?c"
    using assms by (simp_all add: promotion_simps usual_conversion_cases)
  show "0 < conv_bits ?p l" using i assms(3) by (simp add: conv_bits_pos)
  show "conv_bits ?p l \<le> conv_bits ?c l"
    using integer_size_mono [OF assms(4) i(3,4)] i assms(3) by (simp add: conv_bits_eq)
  show "conv_is_unsigned ?p = conv_is_unsigned ?c \<or> conv_is_unsigned ?c \<and> 0 \<le> v \<or>
      conv_is_unsigned ?p \<and> conv_bits ?p l < conv_bits ?c l"
    using usual_conversion_cases(3) [OF assms(1-3)] assms(6) by blast
qed

text \<open>The promotion keeps every value of the source type (C11 6.3.1.1p2).\<close>

lemma promotion_preserves_aux:
  assumes "conv_is_integer a" "ag_data_layout_is_valid l" "layout_ranks_ordered l"
    and "1 \<le> conv_rank a" "conv_holds a l v"
  shows "conv_holds (psx_integer_promotion_for_data_layout a l) l v"
proof (rule conv_holds_wider [OF assms(5)])
  let ?p = "psx_integer_promotion_for_data_layout a l"
  have le: "integer_size_for_rank (conv_rank a) l \<le> integer_size_for_rank (max 3 (conv_rank a)) l"
    using assms(3,4)
    by (auto simp: layout_ranks_ordered_def integer_size_for_rank_def scalar_kind_for_rank_def
          max_def)
  have i: "conv_is_integer ?p" "conv_rank ?p = max 3 (conv_rank a)"
    using assms by (simp_all add: promotion_simps)
  show "0 < conv_bits a l" using assms by (simp add: conv_bits_pos)
  show "conv_bits a l \<le> conv_bits ?p l"
    using le i assms by (simp add: conv_bits_eq)
  show "conv_is_unsigned a = conv_is_unsigned ?p \<or> conv_is_unsigned ?p \<and> 0 \<le> v \<or>
      conv_is_unsigned a \<and> conv_bits a l < conv_bits ?p l"
  proof (cases "conv_is_unsigned a \<and> \<not> conv_is_unsigned ?p")
    case True
    then have "integer_size_for_rank (conv_rank a) l < integer_size_for_rank 3 l \<and> conv_rank a < 3"
      using assms(1,2)
      by (auto simp: psx_integer_promotion_for_data_layout_def
            psx_integer_conversion_size_for_data_layout_def split: if_splits)
    then show ?thesis
      using True i assms conv_bits_pos [OF assms(1,2)] by (simp add: conv_bits_eq max_def)
  next
    case False
    then show ?thesis
      using assms(1,2) by (auto simp: psx_integer_promotion_for_data_layout_def split: if_splits)
  qed
qed

lemma host_ranks_ordered:
  "layout_ranks_ordered (Some (target_data_layout ag_target_info_host))"
  "layout_ranks_ordered (Some (target_data_layout ag_target_info_wasm32))"
  by code_simp+

lemma host_layout_valid:
  "ag_data_layout_is_valid (Some (target_data_layout ag_target_info_host))"
  "ag_data_layout_is_valid (Some (target_data_layout ag_target_info_wasm32))"
  by code_simp+

text \<open>
  The rule of C11 6.3.1.8 for promoted operands. \<open>represents s u\<close>: the type \<open>s\<close> can represent all
  values of the type \<open>u\<close>. The common type is unsigned when both are, or when the unsigned one has at
  least the rank of the signed one or values the signed one cannot represent.
\<close>

definition represents ::
  "ag_data_layout_t option \<Rightarrow> psx_integer_conversion_t \<Rightarrow> psx_integer_conversion_t \<Rightarrow> bool" where
  "represents l s u \<longleftrightarrow> (\<forall>v. conv_holds u l v \<longrightarrow> conv_holds s l v)"

definition c11_common_type ::
  "ag_data_layout_t option \<Rightarrow> psx_integer_conversion_t \<Rightarrow> psx_integer_conversion_t \<Rightarrow>
   psx_integer_conversion_t" where
  "c11_common_type l p q =
    \<lparr>conv_rank = max (conv_rank p) (conv_rank q),
     conv_is_unsigned =
       (if conv_is_unsigned p = conv_is_unsigned q then conv_is_unsigned p
        else let u = (if conv_is_unsigned p then p else q); s = (if conv_is_unsigned p then q else p)
             in conv_rank s \<le> conv_rank u \<or> \<not> represents l s u),
     conv_is_integer = True\<rparr>"

lemma represents_iff:
  assumes "conv_is_unsigned u" "\<not> conv_is_unsigned s" "0 < conv_bits s l"
  shows "represents l s u \<longleftrightarrow> conv_bits u l < conv_bits s l"
proof
  assume "represents l s u"
  moreover have "conv_holds u l (2 ^ conv_bits u l - 1)" using assms(1) by (simp add: conv_holds_def)
  ultimately have "conv_holds s l (2 ^ conv_bits u l - 1)" by (simp add: represents_def)
  then have "(2 :: int) ^ conv_bits u l - 1 < 2 ^ (conv_bits s l - 1)"
    using assms(2) unfolding conv_holds_def by simp
  then have "(2 :: int) ^ conv_bits u l \<le> 2 ^ (conv_bits s l - 1)" by linarith
  then have "conv_bits u l \<le> conv_bits s l - 1" by (rule power_le_imp_le_exp [rotated]) simp
  then show "conv_bits u l < conv_bits s l" using assms(3) by simp
next
  assume "conv_bits u l < conv_bits s l"
  then have b: "(2 :: int) ^ conv_bits u l \<le> 2 ^ (conv_bits s l - 1)" by (intro power_increasing) auto
  have "conv_holds s l v" if "conv_holds u l v" for v
  proof -
    have v: "0 \<le> v" "v < 2 ^ conv_bits u l" using that assms(1) by (simp_all add: conv_holds_def)
    have "- (2 ^ (conv_bits s l - 1)) \<le> (0 :: int)" by simp
    then have "- (2 ^ (conv_bits s l - 1)) \<le> v" "v < 2 ^ (conv_bits s l - 1)" using v b by linarith+
    then show ?thesis using assms(2) by (simp add: conv_holds_def)
  qed
  then show "represents l s u" by (simp add: represents_def)
qed

lemma usual_conversion_common:
  assumes "conv_is_integer a" "conv_is_integer b" "ag_data_layout_is_valid l"
  shows "psx_usual_integer_conversion_for_data_layout a b l =
    c11_common_type l (psx_integer_promotion_for_data_layout a l) (psx_integer_promotion_for_data_layout b l)"
proof -
  let ?p = "psx_integer_promotion_for_data_layout a l"
  let ?q = "psx_integer_promotion_for_data_layout b l"
  have i: "conv_is_integer ?p" "conv_is_integer ?q" using assms by (simp_all add: promotion_simps)
  have bits: "conv_bits u l < conv_bits s l \<longleftrightarrow>
      integer_size_for_rank (conv_rank u) l < integer_size_for_rank (conv_rank s) l"
    if "conv_is_integer u" "conv_is_integer s" for u s
    using conversion_size_pos [OF that(2) assms(3)] that assms(3)
    by (simp add: conv_bits_eq psx_integer_conversion_size_for_data_layout_def)
  have r: "represents l s u \<longleftrightarrow> integer_size_for_rank (conv_rank u) l < integer_size_for_rank (conv_rank s) l"
    if "conv_is_integer u" "conv_is_integer s" "conv_is_unsigned u" "\<not> conv_is_unsigned s" for u s
    using represents_iff [OF that(3,4) conv_bits_pos [OF that(2) assms(3)]] bits that by simp
  show ?thesis
    using i r [of ?p ?q] r [of ?q ?p]
    by (auto simp: psx_usual_integer_conversion_for_data_layout_def c11_common_type_def Let_def
        zero_conversion_def max_def)
qed

text \<open>
  C4. The usual arithmetic conversions are those of C11 6.3.1.8: on a valid layout the common type has
  the greater rank of the promoted operands and is unsigned exactly when the standard says so, the
  order of the operands does not matter, and on a layout whose types are ordered by size the
  common type represents every value of a promoted operand, except the negative ones when it is unsigned.
\<close>

theorem usual_conversion_preserves_values:
  assumes "conv_is_integer a" "conv_is_integer b" "ag_data_layout_is_valid l"
  shows "let c = psx_usual_integer_conversion_for_data_layout a b l;
      p = psx_integer_promotion_for_data_layout a l; q = psx_integer_promotion_for_data_layout b l
    in c = c11_common_type l p q \<and> psx_usual_integer_conversion_for_data_layout b a l = c \<and>
       (layout_ranks_ordered l \<longrightarrow>
         (\<forall>v. (conv_holds p l v \<or> conv_holds q l v) \<and> (conv_is_unsigned c \<longrightarrow> 0 \<le> v) \<longrightarrow> conv_holds c l v))"
proof -
  let ?c = "psx_usual_integer_conversion_for_data_layout a b l"
  note sym = usual_conversion_commutes_aux [of b a l]
  have left: "conv_holds ?c l v"
    if "layout_ranks_ordered l" "conv_holds (psx_integer_promotion_for_data_layout a l) l v"
      "conv_is_unsigned ?c \<longrightarrow> 0 \<le> v" for v
    by (rule usual_conversion_preserves_aux [OF assms that])
  have right: "conv_holds ?c l v"
    if "layout_ranks_ordered l" "conv_holds (psx_integer_promotion_for_data_layout b l) l v"
      "conv_is_unsigned ?c \<longrightarrow> 0 \<le> v" for v
    using usual_conversion_preserves_aux [OF assms(2,1,3) that(1,2), unfolded sym] that(3) by simp
  show ?thesis
    unfolding Let_def using left right sym usual_conversion_common [OF assms] by blast
qed

lemma usual_conversion_preserves_values_witness:
  "let u = \<lparr>conv_rank = 3, conv_is_unsigned = True, conv_is_integer = True\<rparr>;
       s = \<lparr>conv_rank = 4, conv_is_unsigned = False, conv_is_integer = True\<rparr>;
       l = Some (target_data_layout ag_target_info_host)
   in psx_usual_integer_conversion_for_data_layout u s l = c11_common_type l u s \<and>
      conv_holds (psx_usual_integer_conversion_for_data_layout u s l) l 4294967295"
proof -
  let ?u = "\<lparr>conv_rank = 3, conv_is_unsigned = True, conv_is_integer = True\<rparr>"
  let ?s = "\<lparr>conv_rank = 4, conv_is_unsigned = False, conv_is_integer = True\<rparr>"
  let ?l = "Some (target_data_layout ag_target_info_host)"
  have p: "psx_integer_promotion_for_data_layout ?u ?l = ?u" "psx_integer_promotion_for_data_layout ?s ?l = ?s"
      "conv_holds ?u ?l 4294967295" "conv_is_integer ?u" "conv_is_integer ?s"
    by code_simp+
  note c = usual_conversion_preserves_values [OF p(4,5) host_layout_valid(1), unfolded Let_def p(1,2)]
  have "(0 :: int) \<le> 4294967295" by simp
  with c host_ranks_ordered(1) p(3) show ?thesis unfolding Let_def by blast
qed

text \<open>
  The integer promotions preserve values: on such a layout every value of an integer type of
  rank at least that of \<^verbatim>\<open>char\<close> is a value of the promoted type (C11 6.3.1.1p2), and promoting
  twice changes nothing.
\<close>

theorem promotion_preserves_values:
  assumes "conv_is_integer a" "ag_data_layout_is_valid l" "layout_ranks_ordered l"
    and "1 \<le> conv_rank a" "conv_holds a l v"
  shows "conv_holds (psx_integer_promotion_for_data_layout a l) l v \<and>
         psx_integer_promotion_for_data_layout (psx_integer_promotion_for_data_layout a l) l =
         psx_integer_promotion_for_data_layout a l"
  using promotion_preserves_aux [OF assms] promotion_idempotent [of a l] by simp

lemma promotion_preserves_values_witness:
  "conv_holds (psx_integer_promotion_for_data_layout
      \<lparr>conv_rank = 2, conv_is_unsigned = True, conv_is_integer = True\<rparr>
      (Some (target_data_layout ag_target_info_host)))
    (Some (target_data_layout ag_target_info_host)) 65535"
  by (rule promotion_preserves_values [THEN conjunct1]) code_simp+

end
