(* ===== verification/ConstantEvaluation.thy ===== *)
theory ConstantEvaluation
  imports IntegerConversion
begin

text \<open>
  Integer constant evaluation: \<^verbatim>\<open>src/semantic/integer_constant_evaluation.c\<close>. A constant is a
  C \<^verbatim>\<open>long long\<close> on the host, here an \<open>i64\<close>. The typed evaluator normalises the operands to the
  converted type, checks for overflow before it computes and normalises the result. Every signed
  operation of the host is modelled with its undefined cases, so that "the evaluator never runs
  into undefined behaviour" is a statement about the guards of the code. The floating cast
  (\<^verbatim>\<open>psx_normalize_floating_constant_cast\<close>) is not modelled.
\<close>

section \<open>Operations\<close>

text \<open>
  The syntax node kinds of \<^verbatim>\<open>src/parser/syntax_node_kind.h\<close> the evaluator distinguishes;
  \<open>ND_OTHER n\<close> is every other enumerator, by its value.
\<close>

datatype psx_syntax_node_kind_t =
    ND_ADD | ND_SUB | ND_MUL | ND_DIV | ND_MOD
  | ND_EQ | ND_NE | ND_LT | ND_LE | ND_GT | ND_GE
  | ND_BITAND | ND_BITXOR | ND_BITOR | ND_SHL | ND_SHR | ND_LOGAND | ND_LOGOR
  | ND_OTHER int

datatype psx_integer_constant_operation_t =
    PSX_INTEGER_CONSTANT_OP_INVALID
  | PSX_INTEGER_CONSTANT_OP_UNARY_PLUS
  | PSX_INTEGER_CONSTANT_OP_NEGATE
  | PSX_INTEGER_CONSTANT_OP_LOGICAL_NOT
  | PSX_INTEGER_CONSTANT_OP_BITWISE_NOT
  | PSX_INTEGER_CONSTANT_OP_ADD
  | PSX_INTEGER_CONSTANT_OP_SUB
  | PSX_INTEGER_CONSTANT_OP_MUL
  | PSX_INTEGER_CONSTANT_OP_DIV
  | PSX_INTEGER_CONSTANT_OP_MOD
  | PSX_INTEGER_CONSTANT_OP_SHL
  | PSX_INTEGER_CONSTANT_OP_SHR
  | PSX_INTEGER_CONSTANT_OP_BITAND
  | PSX_INTEGER_CONSTANT_OP_BITXOR
  | PSX_INTEGER_CONSTANT_OP_BITOR
  | PSX_INTEGER_CONSTANT_OP_EQ
  | PSX_INTEGER_CONSTANT_OP_NE
  | PSX_INTEGER_CONSTANT_OP_LT
  | PSX_INTEGER_CONSTANT_OP_LE
  | PSX_INTEGER_CONSTANT_OP_GT
  | PSX_INTEGER_CONSTANT_OP_GE
  | PSX_INTEGER_CONSTANT_OP_LOGAND
  | PSX_INTEGER_CONSTANT_OP_LOGOR
  | PSX_INTEGER_CONSTANT_OP_COMMA

section \<open>Casts\<close>

fun integer_cast_width :: "psx_type_shape_t option \<Rightarrow> int" where
  "integer_cast_width None = 0"
| "integer_cast_width (Some type) =
    (if shape_kind type \<noteq> PSX_TYPE_INTEGER then 0
     else case shape_integer_kind type of
            PSX_INTEGER_KIND_CHAR \<Rightarrow> 1
          | PSX_INTEGER_KIND_SHORT \<Rightarrow> 2
          | PSX_INTEGER_KIND_INT \<Rightarrow> 4
          | PSX_INTEGER_KIND_ENUM \<Rightarrow> 4
          | PSX_INTEGER_KIND_LONG_LONG \<Rightarrow> 8
          | PSX_INTEGER_KIND_BOOL \<Rightarrow> 0
          | PSX_INTEGER_KIND_LONG \<Rightarrow> 0
          | PSX_INTEGER_KIND_NONE \<Rightarrow> 0)"

definition psx_normalize_integer_constant_cast ::
  "psx_type_shape_t option \<Rightarrow> i64 \<Rightarrow> i64 option" where
  "psx_normalize_integer_constant_cast target operand =
    (case target of
       None \<Rightarrow> None
     | Some type \<Rightarrow>
         if shape_kind type = PSX_TYPE_BOOL then Some (c_bool (operand \<noteq> 0))
         else if shape_kind type \<noteq> PSX_TYPE_INTEGER then None
         else let bits = integer_cast_width target * 8
              in if bits \<le> 0 \<or> bits \<ge> 64 then Some operand
                 else let mask = push_bit (nat bits) 1 - 1;
                          normalized = operand AND mask
                      in Some (if \<not> shape_is_unsigned type \<and>
                                  normalized AND push_bit (nat (bits - 1)) 1 \<noteq> 0
                               then normalized OR NOT mask else normalized))"

section \<open>The untyped evaluator\<close>

text \<open>Signed division and remainder of C: truncation towards zero.\<close>

definition c_div :: "i64 \<Rightarrow> i64 \<Rightarrow> i64 outcome" where
  "c_div a b = (if b = 0 then Undefined else or_undefined (i64_checked (sint a sdiv sint b)))"

definition c_mod :: "i64 \<Rightarrow> i64 \<Rightarrow> i64 outcome" where
  "c_mod a b =
    (if b = 0 \<or> \<not> in_i64 (sint a sdiv sint b) then Undefined
     else or_undefined (i64_checked (sint a smod sint b)))"

text \<open>
  C11 6.5.7p4: a left shift of a negative value, or one whose result does not fit, is undefined.
  A right shift of a negative value is implementation-defined; every supported host shifts
  arithmetically.
\<close>

definition c_shl :: "i64 \<Rightarrow> nat \<Rightarrow> i64 outcome" where
  "c_shl a n = (if sint a < 0 then Undefined else or_undefined (i64_checked (sint a * 2 ^ n)))"

definition psx_apply_integer_constant_binary ::
  "psx_syntax_node_kind_t \<Rightarrow> i64 \<Rightarrow> i64 \<Rightarrow> i64 outcome" where
  "psx_apply_integer_constant_binary operation lhs rhs =
    (case operation of
       ND_ADD \<Rightarrow> or_undefined (i64_checked (sint lhs + sint rhs))
     | ND_SUB \<Rightarrow> or_undefined (i64_checked (sint lhs - sint rhs))
     | ND_MUL \<Rightarrow> or_undefined (i64_checked (sint lhs * sint rhs))
     | ND_DIV \<Rightarrow> if rhs = 0 then Refused else c_div lhs rhs
     | ND_MOD \<Rightarrow> if rhs = 0 then Refused else c_mod lhs rhs
     | ND_SHL \<Rightarrow> if sint rhs < 0 \<or> sint rhs \<ge> 64 then Refused else c_shl lhs (nat (sint rhs))
     | ND_SHR \<Rightarrow> if sint rhs < 0 \<or> sint rhs \<ge> 64 then Refused
                else Value (signed_drop_bit (nat (sint rhs)) lhs)
     | ND_BITAND \<Rightarrow> Value (lhs AND rhs)
     | ND_BITXOR \<Rightarrow> Value (lhs XOR rhs)
     | ND_BITOR \<Rightarrow> Value (lhs OR rhs)
     | ND_EQ \<Rightarrow> Value (c_bool (lhs = rhs))
     | ND_NE \<Rightarrow> Value (c_bool (lhs \<noteq> rhs))
     | ND_LT \<Rightarrow> Value (c_bool (sint lhs < sint rhs))
     | ND_LE \<Rightarrow> Value (c_bool (sint lhs \<le> sint rhs))
     | ND_GT \<Rightarrow> Value (c_bool (sint lhs > sint rhs))
     | ND_GE \<Rightarrow> Value (c_bool (sint lhs \<ge> sint rhs))
     | ND_LOGAND \<Rightarrow> Value (c_bool (lhs \<noteq> 0 \<and> rhs \<noteq> 0))
     | ND_LOGOR \<Rightarrow> Value (c_bool (lhs \<noteq> 0 \<or> rhs \<noteq> 0))
     | ND_OTHER kind \<Rightarrow> Refused)"

text \<open>
  The unsigned operations of the host. A shift by a negative count or by 64 and more, and a
  division by zero, are undefined (6.5.5p5, 6.5.7p3); so is a product of type \<^verbatim>\<open>int\<close> that does not fit.
\<close>

definition c_shift :: "(nat \<Rightarrow> i64 \<Rightarrow> i64) \<Rightarrow> i64 \<Rightarrow> int \<Rightarrow> i64 outcome" where
  "c_shift f a n = (if 0 \<le> n \<and> n < 64 then Value (f (nat n) a) else Undefined)"

definition c_divide :: "(i64 \<Rightarrow> i64 \<Rightarrow> i64) \<Rightarrow> i64 \<Rightarrow> i64 \<Rightarrow> i64 outcome" where
  "c_divide f a b = (if b = 0 then Undefined else Value (f a b))"

definition c_int :: "int \<Rightarrow> int outcome" where
  "c_int n = (if - INT_MAX - 1 \<le> n \<and> n \<le> INT_MAX then Value n else Undefined)"

section \<open>Normalisation to a converted type\<close>

text \<open>\<^verbatim>\<open>bits == 64 ? UINT64_MAX : (UINT64_C(1) << bits) - 1\<close>\<close>

definition low_mask :: "int \<Rightarrow> i64 outcome" where
  "low_mask bits =
    (if bits = 64 then Value (- 1) else outcome_bind (c_shift push_bit 1 bits) (\<lambda>m. Value (m - 1)))"

definition normalize_integer_conversion ::
  "psx_integer_conversion_t \<Rightarrow> ag_data_layout_t option \<Rightarrow> i64 \<Rightarrow> i64 outcome" where
  "normalize_integer_conversion conversion data_layout operand =
    (if \<not> conv_is_integer conversion then Refused
     else let width = psx_integer_conversion_size_for_data_layout conversion data_layout
          in outcome_bind (c_int (width * 8)) (\<lambda>bits.
               if bits \<le> 0 \<or> bits > 64 then Refused
               else outcome_bind (low_mask bits) (\<lambda>mask.
                 let normalized = operand AND mask
                 in if \<not> conv_is_unsigned conversion \<and> bits < 64 then
                      outcome_bind (c_shift push_bit 1 (bits - 1)) (\<lambda>sign.
                        Value (if normalized AND sign \<noteq> 0 then normalized OR NOT mask else normalized))
                    else Value normalized)))"

definition normalize_integer_shape ::
  "psx_type_shape_t option \<Rightarrow> ag_data_layout_t option \<Rightarrow> i64 \<Rightarrow> i64 outcome" where
  "normalize_integer_shape shape data_layout operand =
    (case shape of
       None \<Rightarrow> Refused
     | Some s \<Rightarrow>
         if shape_kind s = PSX_TYPE_BOOL then Value (c_bool (operand \<noteq> 0))
         else normalize_integer_conversion (psx_integer_conversion_from_shape shape)
                data_layout operand)"

definition signed_integer_conversion_bounds ::
  "psx_integer_conversion_t \<Rightarrow> ag_data_layout_t option \<Rightarrow> (i64 \<times> i64) outcome" where
  "signed_integer_conversion_bounds conversion data_layout =
    (if \<not> conv_is_integer conversion \<or> conv_is_unsigned conversion then Refused
     else outcome_bind (c_int (psx_integer_conversion_size_for_data_layout conversion data_layout * 8))
       (\<lambda>bits.
         if bits \<le> 0 \<or> bits > 64 then Refused
         else if bits = 64 then Value (word_of_int LLONG_MIN, word_of_int LLONG_MAX)
         else outcome_bind (c_shift push_bit 1 (bits - 1)) (\<lambda>p. Value (- p, p - 1))))"

section \<open>The typed evaluator\<close>

definition psx_apply_typed_integer_constant_unary ::
  "psx_integer_constant_operation_t \<Rightarrow> psx_type_shape_t option \<Rightarrow> ag_data_layout_t option \<Rightarrow>
   i64 \<Rightarrow> i64 outcome" where
  "psx_apply_typed_integer_constant_unary operation result_type data_layout operand =
    (if operation = PSX_INTEGER_CONSTANT_OP_LOGICAL_NOT then Value (c_bool (operand = 0))
     else outcome_bind (normalize_integer_shape result_type data_layout operand) (\<lambda>normalized.
       case operation of
         PSX_INTEGER_CONSTANT_OP_UNARY_PLUS \<Rightarrow> Value normalized
       | PSX_INTEGER_CONSTANT_OP_NEGATE \<Rightarrow>
           let conversion = psx_integer_conversion_from_shape result_type;
               negated = normalize_integer_shape result_type data_layout (0 - normalized)
           in if \<not> conv_is_unsigned conversion
              then outcome_bind (signed_integer_conversion_bounds conversion data_layout)
                (\<lambda>(minimum, maximum). if normalized = minimum then Refused else negated)
              else negated
       | PSX_INTEGER_CONSTANT_OP_BITWISE_NOT \<Rightarrow>
           normalize_integer_shape result_type data_layout (NOT normalized)
       | _ \<Rightarrow> Refused))"

definition normalized_binary_conversion ::
  "psx_type_shape_t option \<Rightarrow> psx_type_shape_t option \<Rightarrow> ag_data_layout_t option \<Rightarrow>
   i64 \<Rightarrow> i64 \<Rightarrow> (psx_integer_conversion_t \<times> i64 \<times> i64) outcome" where
  "normalized_binary_conversion lhs_type rhs_type data_layout lhs rhs =
    (let conversion = psx_usual_integer_conversion_for_data_layout
           (psx_integer_conversion_from_shape lhs_type)
           (psx_integer_conversion_from_shape rhs_type) data_layout
     in if \<not> conv_is_integer conversion then Refused
        else outcome_bind (normalize_integer_conversion conversion data_layout lhs) (\<lambda>l.
          outcome_bind (normalize_integer_conversion conversion data_layout rhs) (\<lambda>r.
            Value (conversion, l, r))))"

text \<open>The conversion and the operands of a binary operation; shifts promote each side alone.\<close>

definition typed_binary_operands ::
  "psx_integer_constant_operation_t \<Rightarrow> psx_type_shape_t option \<Rightarrow> psx_type_shape_t option \<Rightarrow>
   ag_data_layout_t option \<Rightarrow> i64 \<Rightarrow> i64 \<Rightarrow> (psx_integer_conversion_t \<times> i64 \<times> i64) outcome" where
  "typed_binary_operands operation lhs_type rhs_type data_layout lhs rhs =
    (if operation = PSX_INTEGER_CONSTANT_OP_SHL \<or> operation = PSX_INTEGER_CONSTANT_OP_SHR
     then let conversion = psx_integer_promotion_for_data_layout
                (psx_integer_conversion_from_shape lhs_type) data_layout;
              rhs_conversion = psx_integer_promotion_for_data_layout
                (psx_integer_conversion_from_shape rhs_type) data_layout
          in outcome_bind (normalize_integer_conversion conversion data_layout lhs) (\<lambda>l.
               outcome_bind (normalize_integer_conversion rhs_conversion data_layout rhs) (\<lambda>r.
                 Value (conversion, l, r)))
     else normalized_binary_conversion lhs_type rhs_type data_layout lhs rhs)"

text \<open>The overflow tests the code makes before a signed addition, subtraction and multiplication.\<close>

definition typed_add_overflows :: "i64 \<Rightarrow> i64 \<Rightarrow> i64 \<Rightarrow> i64 \<Rightarrow> bool outcome" where
  "typed_add_overflows signed_minimum signed_maximum l r =
    (if sint r > 0 then
       outcome_bind (or_undefined (i64_checked (sint signed_maximum - sint r)))
         (\<lambda>t. Value (sint l > sint t))
     else if sint r < 0 then
       outcome_bind (or_undefined (i64_checked (sint signed_minimum - sint r)))
         (\<lambda>t. Value (sint l < sint t))
     else Value False)"

definition typed_sub_overflows :: "i64 \<Rightarrow> i64 \<Rightarrow> i64 \<Rightarrow> i64 \<Rightarrow> bool outcome" where
  "typed_sub_overflows signed_minimum signed_maximum l r =
    (if sint r > 0 then
       outcome_bind (or_undefined (i64_checked (sint signed_minimum + sint r)))
         (\<lambda>t. Value (sint l < sint t))
     else if sint r < 0 then
       outcome_bind (or_undefined (i64_checked (sint signed_maximum + sint r)))
         (\<lambda>t. Value (sint l > sint t))
     else Value False)"

definition typed_mul_overflows :: "i64 \<Rightarrow> i64 \<Rightarrow> i64 \<Rightarrow> i64 \<Rightarrow> bool outcome" where
  "typed_mul_overflows signed_minimum signed_maximum l r =
    (if sint l > 0 \<and> sint r > 0 then
       outcome_bind (c_div signed_maximum r) (\<lambda>t. Value (sint l > sint t))
     else if sint l > 0 \<and> sint r < 0 then
       outcome_bind (c_div signed_minimum l) (\<lambda>t. Value (sint r < sint t))
     else if sint l < 0 \<and> sint r > 0 then
       outcome_bind (c_div signed_minimum r) (\<lambda>t. Value (sint l < sint t))
     else if sint l < 0 \<and> sint r < 0 then
       outcome_bind (c_div signed_maximum r) (\<lambda>t. Value (sint l < sint t))
     else Value False)"

definition refuse_if :: "bool outcome \<Rightarrow> 'a outcome \<Rightarrow> 'a outcome" where
  "refuse_if guard result = outcome_bind guard (\<lambda>b. if b then Refused else result)"

text \<open>The arms of the \<^verbatim>\<open>switch\<close> that set \<^verbatim>\<open>value\<close>.\<close>

definition typed_binary_value ::
  "psx_integer_constant_operation_t \<Rightarrow> psx_integer_conversion_t \<Rightarrow> ag_data_layout_t option \<Rightarrow>
   i64 \<Rightarrow> i64 \<Rightarrow> i64 \<Rightarrow> i64 \<Rightarrow> i64 outcome" where
  "typed_binary_value operation conversion data_layout signed_minimum signed_maximum l r =
    (let unsigned = conv_is_unsigned conversion;
         size = psx_integer_conversion_size_for_data_layout conversion data_layout
     in case operation of
       PSX_INTEGER_CONSTANT_OP_ADD \<Rightarrow>
         if unsigned then Value (l + r)
         else refuse_if (typed_add_overflows signed_minimum signed_maximum l r)
                (or_undefined (i64_checked (sint l + sint r)))
     | PSX_INTEGER_CONSTANT_OP_SUB \<Rightarrow>
         if unsigned then Value (l - r)
         else refuse_if (typed_sub_overflows signed_minimum signed_maximum l r)
                (or_undefined (i64_checked (sint l - sint r)))
     | PSX_INTEGER_CONSTANT_OP_MUL \<Rightarrow>
         if unsigned then Value (l * r)
         else refuse_if (typed_mul_overflows signed_minimum signed_maximum l r)
                (or_undefined (i64_checked (sint l * sint r)))
     | PSX_INTEGER_CONSTANT_OP_DIV \<Rightarrow>
         if r = 0 \<or> (\<not> unsigned \<and> l = signed_minimum \<and> sint r = - 1) then Refused
         else if unsigned then c_divide (div) l r else c_div l r
     | PSX_INTEGER_CONSTANT_OP_MOD \<Rightarrow>
         if r = 0 \<or> (\<not> unsigned \<and> l = signed_minimum \<and> sint r = - 1) then Refused
         else if unsigned then c_divide (mod) l r else c_mod l r
     | PSX_INTEGER_CONSTANT_OP_BITAND \<Rightarrow> Value (l AND r)
     | PSX_INTEGER_CONSTANT_OP_BITXOR \<Rightarrow> Value (l XOR r)
     | PSX_INTEGER_CONSTANT_OP_BITOR \<Rightarrow> Value (l OR r)
     | PSX_INTEGER_CONSTANT_OP_SHL \<Rightarrow>
         outcome_bind (c_int (size * 8)) (\<lambda>width.
           if sint r < 0 \<or> sint r \<ge> width then Refused
           else outcome_bind (low_mask width) (\<lambda>unsigned_maximum.
             if \<not> unsigned then
               (if sint l < 0 then Refused
                else outcome_bind (c_shift drop_bit unsigned_maximum (sint r)) (\<lambda>t.
                  if l > t then Refused else c_shift push_bit l (sint r)))
             else c_shift push_bit l (sint r)))
     | PSX_INTEGER_CONSTANT_OP_SHR \<Rightarrow>
         outcome_bind (c_int (size * 8)) (\<lambda>width.
           if sint r < 0 \<or> sint r \<ge> width then Refused
           else if unsigned then c_shift drop_bit l (sint r)
           else c_shift signed_drop_bit l (sint r))
     | _ \<Rightarrow> Refused)"

text \<open>The arms that store the truth value and return at once.\<close>

definition typed_binary_compare ::
  "psx_integer_constant_operation_t \<Rightarrow> psx_integer_conversion_t \<Rightarrow> i64 \<Rightarrow> i64 \<Rightarrow> i64 option" where
  "typed_binary_compare operation conversion l r =
    (let unsigned = conv_is_unsigned conversion in case operation of
       PSX_INTEGER_CONSTANT_OP_EQ \<Rightarrow> Some (c_bool (if unsigned then l = r else sint l = sint r))
     | PSX_INTEGER_CONSTANT_OP_NE \<Rightarrow> Some (c_bool (if unsigned then l \<noteq> r else sint l \<noteq> sint r))
     | PSX_INTEGER_CONSTANT_OP_LT \<Rightarrow> Some (c_bool (if unsigned then l < r else sint l < sint r))
     | PSX_INTEGER_CONSTANT_OP_LE \<Rightarrow> Some (c_bool (if unsigned then l \<le> r else sint l \<le> sint r))
     | PSX_INTEGER_CONSTANT_OP_GT \<Rightarrow> Some (c_bool (if unsigned then l > r else sint l > sint r))
     | PSX_INTEGER_CONSTANT_OP_GE \<Rightarrow> Some (c_bool (if unsigned then l \<ge> r else sint l \<ge> sint r))
     | _ \<Rightarrow> None)"

definition psx_apply_typed_integer_constant_binary ::
  "psx_integer_constant_operation_t \<Rightarrow> psx_type_shape_t option \<Rightarrow> psx_type_shape_t option \<Rightarrow>
   psx_type_shape_t option \<Rightarrow> ag_data_layout_t option \<Rightarrow> i64 \<Rightarrow> i64 \<Rightarrow> i64 outcome" where
  "psx_apply_typed_integer_constant_binary operation lhs_type rhs_type result_type data_layout
     lhs rhs =
    (if \<not> ag_data_layout_is_valid data_layout then Refused
     else if operation = PSX_INTEGER_CONSTANT_OP_LOGAND then Value (c_bool (lhs \<noteq> 0 \<and> rhs \<noteq> 0))
     else if operation = PSX_INTEGER_CONSTANT_OP_LOGOR then Value (c_bool (lhs \<noteq> 0 \<or> rhs \<noteq> 0))
     else if operation = PSX_INTEGER_CONSTANT_OP_COMMA then Refused
     else outcome_bind (typed_binary_operands operation lhs_type rhs_type data_layout lhs rhs)
       (\<lambda>(conversion, l, r).
         outcome_bind
           (if conv_is_unsigned conversion then Value (0, 0)
            else signed_integer_conversion_bounds conversion data_layout)
           (\<lambda>(signed_minimum, signed_maximum).
             case typed_binary_compare operation conversion l r of
               Some truth \<Rightarrow> Value truth
             | None \<Rightarrow>
                 outcome_bind
                   (typed_binary_value operation conversion data_layout
                      signed_minimum signed_maximum l r)
                   (\<lambda>value. normalize_integer_shape result_type data_layout value))))"

section \<open>Normalisation is truncation\<close>

text \<open>What is computed in every case, with the undefined one.\<close>

definition int_overflow :: "int \<Rightarrow> bool" where
  "int_overflow n \<longleftrightarrow> \<not> (- INT_MAX - 1 \<le> n \<and> n \<le> INT_MAX)"

lemma c_int_cases: "c_int n = (if int_overflow n then Undefined else Value n)"
  by (simp add: c_int_def int_overflow_def)

lemma low_mask_Value:
  "0 < bits \<Longrightarrow> bits \<le> 64 \<Longrightarrow>
   low_mask bits = Value (if bits = 64 then - 1 else push_bit (nat bits) 1 - 1)"
  by (simp add: low_mask_def c_shift_def)

lemma normalize_cases:
  "normalize_integer_conversion c l x =
    (let b = psx_integer_conversion_size_for_data_layout c l * 8
     in if \<not> conv_is_integer c then Refused
        else if int_overflow b then Undefined
        else if b \<le> 0 \<or> b > 64 then Refused
        else let m = (if b = 64 then - 1 else push_bit (nat b) 1 - 1); y = x AND m
             in Value (if \<not> conv_is_unsigned c \<and> b < 64 \<and> y AND push_bit (nat (b - 1)) 1 \<noteq> 0
                       then y OR NOT m else y))"
  by (simp add: normalize_integer_conversion_def c_int_cases low_mask_Value c_shift_def Let_def)

lemma bounds_cases:
  "signed_integer_conversion_bounds c l =
    (let b = psx_integer_conversion_size_for_data_layout c l * 8
     in if \<not> conv_is_integer c \<or> conv_is_unsigned c then Refused
        else if int_overflow b then Undefined
        else if b \<le> 0 \<or> b > 64 then Refused
        else if b = 64 then Value (word_of_int LLONG_MIN, word_of_int LLONG_MAX)
        else Value (- push_bit (nat (b - 1)) 1, push_bit (nat (b - 1)) 1 - 1))"
  by (simp add: signed_integer_conversion_bounds_def c_int_cases c_shift_def Let_def)

lemma low_mask_word: "push_bit n 1 - 1 = (mask n :: i64)"
  by (simp add: mask_eq_exp_minus_1 push_bit_eq_mult)

lemma and_exp_nonzero: "(x :: i64) AND push_bit n 1 \<noteq> 0 \<longleftrightarrow> bit x n"
  by (simp add: bit_iff_and_push_bit_not_eq_0)

lemma truncate_word:
  fixes x :: i64
  assumes "0 < n" "n < 64"
  shows "(let m = push_bit n 1 - 1; y = x AND m
          in if s \<and> y AND push_bit (n - 1) 1 \<noteq> 0 then y OR NOT m else y) =
         (if s then signed_take_bit (n - 1) x else take_bit n x)"
proof -
  have "take_bit n x OR NOT (mask n) = signed_take_bit (n - 1) x" if "bit x (n - 1)"
    using that assms
    by (intro bit_word_eqI)
       (auto simp: bit_simps min_def not_less le_less_Suc_eq dest: le_antisym)
  moreover have "take_bit n x = signed_take_bit (n - 1) x" if "\<not> bit x (n - 1)"
    using that assms
    by (intro bit_word_eqI) (auto simp: bit_simps min_def not_less dest: le_antisym)
  moreover have "bit (x AND mask n) (n - 1) \<longleftrightarrow> bit x (n - 1)"
    using assms by (auto simp: bit_simps)
  ultimately show ?thesis
    unfolding Let_def low_mask_word and_exp_nonzero
    by (simp flip: take_bit_eq_mask)
qed

lemma bit_top_i64: "63 \<le> n \<Longrightarrow> n < 64 \<Longrightarrow> bit (x :: i64) n = bit x 63"
  by (cases "n = 63") auto

lemma take_bit_64_word [simp]: "take_bit 64 (x :: i64) = x" "signed_take_bit 63 (x :: i64) = x"
  by (intro bit_word_eqI; auto simp: bit_simps min_def; metis bit_top_i64)+

lemma normalize_integer_conversion_eq:
  assumes "normalize_integer_conversion c l x = Value v"
  shows "0 < conv_bits c l" "conv_bits c l \<le> 64"
    and "v = (if conv_is_unsigned c then take_bit (conv_bits c l) x
              else signed_take_bit (conv_bits c l - 1) x)"
proof -
  let ?b = "psx_integer_conversion_size_for_data_layout c l * 8"
  have b: "0 < ?b" "?b \<le> 64"
    using assms by (auto simp: normalize_cases Let_def split: if_splits)
  then show "0 < conv_bits c l" "conv_bits c l \<le> 64"
    by (simp_all add: conv_bits_def)
  have n: "nat (?b - 1) = conv_bits c l - 1"
    using b by (simp add: conv_bits_def nat_diff_distrib)
  show "v = (if conv_is_unsigned c then take_bit (conv_bits c l) x
              else signed_take_bit (conv_bits c l - 1) x)"
  proof (cases "?b = 64")
    case True
    then have "conv_bits c l = 64" by (simp add: conv_bits_def)
    then show ?thesis
      using assms True by (auto simp: normalize_cases Let_def split: if_splits)
  next
    case False
    then have "0 < conv_bits c l" "conv_bits c l < 64" using b by (auto simp: conv_bits_def)
    note t = truncate_word [OF this, of x "\<not> conv_is_unsigned c"]
    show ?thesis
      using assms False b t
      unfolding normalize_cases Let_def n conv_bits_def [symmetric]
      by (auto split: if_splits)
  qed
qed

lemma sint_signed_take_bit_word:
  "n < 64 \<Longrightarrow> sint (signed_take_bit n (x :: i64)) = signed_take_bit n (sint x)"
  by (rule bit_eqI) (auto simp: bit_simps min_def; metis bit_top_i64)

lemma uint_take_bit_word: "uint (take_bit n (x :: i64)) = take_bit n (uint x)"
  by (rule bit_eqI) (auto simp: bit_simps)

lemma normalized_signed_range:
  assumes "normalize_integer_conversion c l x = Value v" "\<not> conv_is_unsigned c"
  shows "- (2 ^ (conv_bits c l - 1)) \<le> sint v" "sint v < 2 ^ (conv_bits c l - 1)"
  using normalize_integer_conversion_eq [OF assms(1)] assms(2)
    signed_take_bit_int_less_exp [of "conv_bits c l - 1" "sint x"]
    signed_take_bit_int_greater_eq_minus_exp [of "conv_bits c l - 1" "sint x"]
  by (simp_all add: sint_signed_take_bit_word)

lemma normalized_unsigned_range:
  assumes "normalize_integer_conversion c l x = Value v" "conv_is_unsigned c"
  shows "uint v < 2 ^ conv_bits c l"
  using normalize_integer_conversion_eq [OF assms(1)] assms(2)
  by (simp add: uint_take_bit_word)

lemma normalized_holds:
  "normalize_integer_conversion c l x = Value v \<Longrightarrow>
   conv_holds c l (if conv_is_unsigned c then uint v else sint v)"
  using normalized_signed_range [of c l x v] normalized_unsigned_range [of c l x v]
  by (auto simp: conv_holds_def)

lemma normalize_idempotent:
  assumes "normalize_integer_conversion c l x = Value v"
  shows "normalize_integer_conversion c l v = Value v"
proof -
  obtain w where w: "normalize_integer_conversion c l v = Value w"
    using assms by (auto simp: normalize_cases Let_def split: if_splits)
  show ?thesis
    using normalize_integer_conversion_eq [OF w] normalize_integer_conversion_eq(3) [OF assms] w
    by (simp split: if_splits)
qed

section \<open>The overflow tests are exact\<close>

lemma pow_in_i64:
  assumes "0 < p" "p \<le> 2 ^ 63"
  shows "in_i64 (- p)" "in_i64 (p - 1)"
  using assms by (simp_all add: in_i64_def limit_defs)

lemma conversion_bounds_eq:
  assumes "signed_integer_conversion_bounds c l = Value (mn, mx)"
  shows "0 < conv_bits c l" "conv_bits c l \<le> 64"
    and "sint mn = - (2 ^ (conv_bits c l - 1))" "sint mx = 2 ^ (conv_bits c l - 1) - 1"
proof -
  let ?b = "psx_integer_conversion_size_for_data_layout c l * 8"
  have b: "0 < ?b" "?b \<le> 64"
    using assms by (auto simp: bounds_cases Let_def split: if_splits)
  then show n: "0 < conv_bits c l" "conv_bits c l \<le> 64"
    by (simp_all add: conv_bits_def)
  have k: "nat (?b - 1) = conv_bits c l - 1"
    using b by (simp add: conv_bits_def nat_diff_distrib)
  have le: "(2 :: int) ^ (conv_bits c l - 1) \<le> 2 ^ 63"
    using n by (intro power_increasing) auto
  have "mn = word_of_int (- (2 ^ (conv_bits c l - 1))) \<and>
        mx = word_of_int (2 ^ (conv_bits c l - 1) - 1)"
  proof (cases "?b = 64")
    case True
    then have "conv_bits c l = 64" by (simp add: conv_bits_def)
    then show ?thesis
      using assms True
      by (auto simp: bounds_cases Let_def limit_defs split: if_splits)
  next
    case False
    then show ?thesis
      using assms b
      by (auto simp: bounds_cases Let_def k push_bit_eq_mult
            split: if_splits)
  qed
  moreover have "in_i64 (- (2 ^ (conv_bits c l - 1)))" "in_i64 (2 ^ (conv_bits c l - 1) - 1)"
    by (rule pow_in_i64 [OF _ le]; simp)+
  ultimately show "sint mn = - (2 ^ (conv_bits c l - 1))" "sint mx = 2 ^ (conv_bits c l - 1) - 1"
    by (metis sint_word_of_int_i64)+
qed

lemma int_div_less_iff:
  assumes "0 < d"
  shows "(a :: int) div d < x \<longleftrightarrow> a < x * d"
proof -
  have "x * d \<le> a" if "x \<le> a div d"
  proof -
    have "x * d \<le> a div d * d" using that assms by (intro mult_right_mono) auto
    also have "\<dots> \<le> a" using assms by (simp add: minus_mod_eq_div_mult [symmetric])
    finally show ?thesis .
  qed
  moreover have "x \<le> a div d" if "x * d \<le> a"
    using zdiv_mono1 [OF that assms] assms by simp
  ultimately show ?thesis by (meson not_le)
qed

text \<open>The guards, for operands in the range the bounds describe.\<close>

definition bounds_for :: "nat \<Rightarrow> i64 \<Rightarrow> i64 \<Rightarrow> bool" where
  "bounds_for n mn mx \<longleftrightarrow>
     0 < n \<and> n \<le> 64 \<and> sint mn = - (2 ^ (n - 1)) \<and> sint mx = 2 ^ (n - 1) - 1"

definition fits :: "nat \<Rightarrow> int \<Rightarrow> bool" where
  "fits n v \<longleftrightarrow> - (2 ^ (n - 1)) \<le> v \<and> v < 2 ^ (n - 1)"

lemma bounds_for_cases:
  assumes "bounds_for n mn mx"
  obtains B where "\<And>v. fits n v \<longleftrightarrow> - B \<le> v \<and> v < B" "0 < B" "B \<le> 2 ^ 63"
    "sint mn = - B" "sint mx = B - 1"
proof -
  have "(2 :: int) ^ (n - 1) \<le> 2 ^ 63"
    using assms by (intro power_increasing) (auto simp: bounds_for_def)
  then show ?thesis
    using assms that [of "2 ^ (n - 1)"] by (auto simp: bounds_for_def fits_def)
qed

lemma in_i64_of_bound: "B \<le> 2 ^ 63 \<Longrightarrow> - B \<le> v \<Longrightarrow> v < B \<Longrightarrow> in_i64 v"
  by (simp add: in_i64_def limit_defs)

lemma fits_in_i64: "fits n v \<Longrightarrow> bounds_for n mn mx \<Longrightarrow> in_i64 v"
  by (erule bounds_for_cases) (auto intro: in_i64_of_bound)

lemma checked_then:
  "in_i64 n \<Longrightarrow> outcome_bind (or_undefined (i64_checked n)) f = f (word_of_int n)"
  by simp

lemma typed_add_overflows_exact:
  assumes "bounds_for n mn mx" "fits n (sint l)" "fits n (sint r)"
  shows "typed_add_overflows mn mx l r = Value (\<not> fits n (sint l + sint r))"
  using assms(1)
proof (rule bounds_for_cases)
  fix B :: int
  assume f: "\<And>v. fits n v \<longleftrightarrow> - B \<le> v \<and> v < B" and B: "0 < B" "B \<le> 2 ^ 63"
    and s: "sint mn = - B" "sint mx = B - 1"
  have r: "0 < sint r \<Longrightarrow> in_i64 (B - 1 - sint r)" "sint r < 0 \<Longrightarrow> in_i64 (- B - sint r)"
    using assms(2,3) B by (auto simp: f intro!: in_i64_of_bound [of B])
  show ?thesis
    unfolding typed_add_overflows_def s
    using assms(2,3) by (auto simp: f r checked_then sint_word_of_int_i64 simp del: of_int_diff)
qed

lemma typed_sub_overflows_exact:
  assumes "bounds_for n mn mx" "fits n (sint l)" "fits n (sint r)"
  shows "typed_sub_overflows mn mx l r = Value (\<not> fits n (sint l - sint r))"
  using assms(1)
proof (rule bounds_for_cases)
  fix B :: int
  assume f: "\<And>v. fits n v \<longleftrightarrow> - B \<le> v \<and> v < B" and B: "0 < B" "B \<le> 2 ^ 63"
    and s: "sint mn = - B" "sint mx = B - 1"
  have r: "0 < sint r \<Longrightarrow> in_i64 (- B + sint r)" "sint r < 0 \<Longrightarrow> in_i64 (B - 1 + sint r)"
    using assms(2,3) B by (auto simp: f intro!: in_i64_of_bound [of B])
  show ?thesis
    unfolding typed_sub_overflows_def s
    using assms(2,3) r
    by (cases "0 < sint r"; cases "sint r < 0")
       (auto simp: f checked_then [OF r(1)] checked_then [OF r(2)] sint_word_of_int_i64
          simp del: of_int_add uminus_add_conv_diff or_undefined_checked)
qed

text \<open>Truncating division as a rounded quotient.\<close>

lemma sdiv_pos_pos: "0 \<le> a \<Longrightarrow> 0 < b \<Longrightarrow> a sdiv b = (a :: int) div b"
  by (cases "a = 0") (simp_all add: signed_divide_int_def sgn_if)

lemma sdiv_neg_pos: "0 \<le> a \<Longrightarrow> 0 < b \<Longrightarrow> (- a) sdiv b = - ((a :: int) div b)"
  by (cases "a = 0") (simp_all add: signed_divide_int_def sgn_if)

lemma sdiv_pos_neg: "0 \<le> a \<Longrightarrow> b < 0 \<Longrightarrow> a sdiv b = - ((a :: int) div (- b))"
  by (cases "a = 0") (simp_all add: signed_divide_int_def sgn_if)

lemma div_nonneg_le: "0 \<le> a \<Longrightarrow> 0 < b \<Longrightarrow> 0 \<le> (a :: int) div b \<and> a div b \<le> a"
  by (cases "a = 0") (simp_all add: pos_imp_zdiv_nonneg_iff int_div_le_self)

lemma c_div_then:
  "sint b \<noteq> 0 \<Longrightarrow> in_i64 (sint a sdiv sint b) \<Longrightarrow>
   outcome_bind (c_div a b) (\<lambda>t. f (sint t)) = f (sint a sdiv sint b)"
  by (auto simp: c_div_def sint_word_of_int_i64)

lemma typed_mul_overflows_exact:
  assumes "bounds_for n mn mx" "fits n (sint l)" "fits n (sint r)"
  shows "typed_mul_overflows mn mx l r = Value (\<not> fits n (sint l * sint r))"
  using assms(1)
proof (rule bounds_for_cases)
  fix B :: int
  assume f: "\<And>v. fits n v \<longleftrightarrow> - B \<le> v \<and> v < B" and B: "0 < B" "B \<le> 2 ^ 63"
    and s: "sint mn = - B" "sint mx = B - 1"
  let ?L = "sint l" and ?R = "sint r"
  consider "0 < ?L" "0 < ?R" | "0 < ?L" "?R < 0" | "?L < 0" "0 < ?R" | "?L < 0" "?R < 0"
    | "?L = 0 \<or> ?R = 0"
    by linarith
  then show ?thesis
  proof cases
    case 1
    have d: "sint mx sdiv ?R = (B - 1) div ?R"
      unfolding s by (rule sdiv_pos_pos) (use 1 B in auto)
    have i: "in_i64 (sint mx sdiv ?R)"
      using div_nonneg_le [of "B - 1" ?R] 1 B by (auto simp: d intro!: in_i64_of_bound [of B])
    have "0 < ?L * ?R" using 1 by simp
    then have "(\<not> fits n (?L * ?R)) = (?L > (B - 1) div ?R)"
      using int_div_less_iff [OF 1(2), of "B - 1" ?L] B by (simp add: f) linarith
    then show ?thesis
      using 1 c_div_then [OF _ i, of "\<lambda>t. Value (?L > t)"] by (simp add: typed_mul_overflows_def d)
  next
    case 2
    have d: "sint mn sdiv ?L = - (B div ?L)"
      unfolding s by (rule sdiv_neg_pos) (use 2 B in auto)
    have i: "in_i64 (sint mn sdiv ?L)"
      using div_nonneg_le [of B ?L] 2 B by (auto simp: d intro!: in_i64_of_bound [of B])
    have "?L * ?R < 0" using 2 by (simp add: mult_pos_neg)
    then have "(\<not> fits n (?L * ?R)) = (?R < - (B div ?L))"
      using int_div_less_iff [OF 2(1), of B "- ?R"] B by (simp add: f mult.commute) linarith
    then show ?thesis
      using 2 c_div_then [OF _ i, of "\<lambda>t. Value (?R < t)"] by (simp add: typed_mul_overflows_def d)
  next
    case 3
    have d: "sint mn sdiv ?R = - (B div ?R)"
      unfolding s by (rule sdiv_neg_pos) (use 3 B in auto)
    have i: "in_i64 (sint mn sdiv ?R)"
      using div_nonneg_le [of B ?R] 3 B by (auto simp: d intro!: in_i64_of_bound [of B])
    have "?L * ?R < 0" using 3 by (simp add: mult_neg_pos)
    then have "(\<not> fits n (?L * ?R)) = (?L < - (B div ?R))"
      using int_div_less_iff [OF 3(2), of B "- ?L"] B by (simp add: f) linarith
    then show ?thesis
      using 3 c_div_then [OF _ i, of "\<lambda>t. Value (?L < t)"] by (simp add: typed_mul_overflows_def d)
  next
    case 4
    have d: "sint mx sdiv ?R = - ((B - 1) div (- ?R))"
      unfolding s by (rule sdiv_pos_neg) (use 4 B in auto)
    have i: "in_i64 (sint mx sdiv ?R)"
      using div_nonneg_le [of "B - 1" "- ?R"] 4 B
      by (auto simp: d simp del: div_minus_right intro!: in_i64_of_bound [of B])
    have "0 < ?L * ?R" using 4 by (simp add: mult_neg_neg)
    then have "(\<not> fits n (?L * ?R)) = (?L < - ((B - 1) div (- ?R)))"
      using int_div_less_iff [of "- ?R" "B - 1" "- ?L"] 4 B by (simp add: f del: div_minus_right) linarith
    then show ?thesis
      using 4 c_div_then [OF _ i, of "\<lambda>t. Value (?L < t)"] by (simp add: typed_mul_overflows_def d)
  next
    case 5
    then show ?thesis using B by (auto simp: typed_mul_overflows_def f)
  qed
qed

section \<open>Division\<close>

lemma sdiv_in_i64:
  assumes "in_i64 a" "b \<noteq> 0" "\<not> (a = LLONG_MIN \<and> b = - 1)"
  shows "in_i64 (a sdiv b)"
proof -
  have a: "- (2 ^ 63) \<le> a" "a < 2 ^ 63" using assms(1) by (simp_all add: in_i64_def limit_defs)
  consider "b = - 1" | "0 < b" "0 \<le> a" | "0 < b" "a < 0" | "b < 0" "0 \<le> a" | "b \<le> - 2" "a < 0"
    using assms(2) by linarith
  then show ?thesis
  proof cases
    case 1
    then have "a sdiv b = - a" by (simp add: signed_divide_int_def sgn_if)
    then show ?thesis using assms 1 by (auto simp: in_i64_def limit_defs)
  next
    case 2
    then show ?thesis
      using div_nonneg_le [of a b] a by (auto simp: sdiv_pos_pos intro!: in_i64_of_bound [of "2 ^ 63"])
  next
    case 3
    have "a sdiv b = - ((- a) div b)" using sdiv_neg_pos [of "- a" b] 3 by simp
    then show ?thesis
      using div_nonneg_le [of "- a" b] a 3 by (auto intro!: in_i64_of_bound [of "2 ^ 63"])
  next
    case 4
    then show ?thesis
      using div_nonneg_le [of a "- b"] a
      by (auto simp: sdiv_pos_neg simp del: div_minus_right intro!: in_i64_of_bound [of "2 ^ 63"])
  next
    case 5
    have "a sdiv b = (- a) div (- b)"
      using 5 by (simp add: signed_divide_int_def sgn_if)
    moreover have "(- a) div (- b) < 2 ^ 63"
      using 5 a by (subst int_div_less_iff) auto
    moreover have "0 \<le> (- a) div (- b)"
      using div_nonneg_le [of "- a" "- b"] 5 by simp
    ultimately show ?thesis by (simp add: in_i64_def limit_defs)
  qed
qed

lemma smod_in_i64:
  assumes "in_i64 b" "b \<noteq> 0"
  shows "in_i64 (a smod b)"
  using smod_int_range [OF assms(2), of a] assms
  by (auto simp: in_i64_def limit_defs)

lemma division_guard:
  assumes "bounds_for n mn mx" "fits n (sint l)" "\<not> (l = mn \<and> sint r = - 1)" "r \<noteq> 0"
  shows "in_i64 (sint l sdiv sint r)"
  using assms(1)
proof (rule bounds_for_cases)
  fix B :: int
  assume f: "\<And>v. fits n v \<longleftrightarrow> - B \<le> v \<and> v < B" and B: "0 < B" "B \<le> 2 ^ 63" and s: "sint mn = - B"
  have "sint l = sint mn" if "sint l = LLONG_MIN"
    using that assms(2) B by (simp add: f s limit_defs)
  then have "\<not> (sint l = LLONG_MIN \<and> sint r = - 1)"
    using assms(3) by (metis signed_word_eqI)
  moreover have "sint r \<noteq> 0" using assms(4) by (simp add: signed_eq_0_iff)
  ultimately show ?thesis by (intro sdiv_in_i64) simp_all
qed

lemma c_div_defined:
  assumes "bounds_for n mn mx" "fits n (sint l)" "\<not> (l = mn \<and> sint r = - 1)" "r \<noteq> 0"
  shows "c_div l r = Value (word_of_int (sint l sdiv sint r))"
  using division_guard [OF assms] assms(4) by (simp add: c_div_def)

lemma c_mod_defined:
  assumes "bounds_for n mn mx" "fits n (sint l)" "\<not> (l = mn \<and> sint r = - 1)" "r \<noteq> 0"
  shows "c_mod l r = Value (word_of_int (sint l smod sint r))"
  using division_guard [OF assms] assms(4) smod_in_i64 [of "sint r" "sint l"]
  by (simp add: c_mod_def signed_eq_0_iff)

text \<open>
  The quotient of two values of a type leaves the type only in the guarded case, so the guard of
  the code is the test of C11 6.5.5p6.
\<close>

lemma quotient_fits_iff:
  assumes "bounds_for n mn mx" "fits n (sint l)" "fits n (sint r)" "r \<noteq> 0"
  shows "fits n (sint l sdiv sint r) \<longleftrightarrow> \<not> (l = mn \<and> sint r = - 1)"
  using assms(1)
proof (rule bounds_for_cases)
  fix B :: int
  let ?a = "sint l" and ?b = "sint r"
  assume f: "\<And>v. fits n v \<longleftrightarrow> - B \<le> v \<and> v < B" and B: "0 < B" "B \<le> 2 ^ 63" and s: "sint mn = - B"
  have lmn: "l = mn \<longleftrightarrow> ?a = - B" by (metis s signed_word_eqI)
  have a: "- B \<le> ?a" "?a < B" using assms(2) by (simp_all add: f)
  have b: "?b \<noteq> 0" using assms(4) by (simp add: signed_eq_0_iff)
  consider "?b = - 1" | "0 < ?b" "0 \<le> ?a" | "0 < ?b" "?a < 0" | "?b \<le> - 2" "0 \<le> ?a"
    | "?b \<le> - 2" "?a < 0"
    using b by linarith
  then show ?thesis
  proof cases
    case 1
    then have "?a sdiv ?b = - ?a" by (simp add: signed_divide_int_def sgn_if)
    then show ?thesis using a 1 by (auto simp: f lmn)
  next
    case 2
    then show ?thesis
      using div_nonneg_le [of ?a ?b] a B by (auto simp: f sdiv_pos_pos)
  next
    case 3
    have "?a sdiv ?b = - ((- ?a) div ?b)" using sdiv_neg_pos [of "- ?a" ?b] 3 by simp
    then show ?thesis using div_nonneg_le [of "- ?a" ?b] a 3 by (auto simp: f)
  next
    case 4
    then show ?thesis
      using div_nonneg_le [of ?a "- ?b"] a by (auto simp: f sdiv_pos_neg simp del: div_minus_right)
  next
    case 5
    have q: "?a sdiv ?b = (- ?a) div (- ?b)" using 5 by (simp add: signed_divide_int_def sgn_if)
    have "B * 2 \<le> B * (- ?b)" using 5 B by (intro mult_left_mono) auto
    then have "(- ?a) div (- ?b) < B" using 5 a B by (subst int_div_less_iff) linarith+
    moreover have "0 \<le> (- ?a) div (- ?b)" using div_nonneg_le [of "- ?a" "- ?b"] 5 by simp
    ultimately show ?thesis using 5 B unfolding q by (auto simp: f)
  qed
qed

section \<open>The typed evaluator is safe\<close>

lemma fits_normalized:
  "normalize_integer_conversion c l x = Value v \<Longrightarrow> \<not> conv_is_unsigned c \<Longrightarrow>
   fits (conv_bits c l) (sint v)"
  using normalized_signed_range by (simp add: fits_def)

lemma bounds_for_conversion:
  "signed_integer_conversion_bounds c l = Value (mn, mx) \<Longrightarrow> bounds_for (conv_bits c l) mn mx"
  using conversion_bounds_eq [of c l mn mx] by (simp add: bounds_for_def)

lemma operands_normalized:
  assumes "typed_binary_operands operation lt rt dl x y = Value (c, l, r)"
  shows "normalize_integer_conversion c dl x = Value l"
    and "operation \<noteq> PSX_INTEGER_CONSTANT_OP_SHL \<Longrightarrow> operation \<noteq> PSX_INTEGER_CONSTANT_OP_SHR \<Longrightarrow>
         normalize_integer_conversion c dl y = Value r"
  using assms
  by (auto simp: typed_binary_operands_def normalized_binary_conversion_def Let_def
        elim!: outcome_bind_ValueE split: if_splits)

lemma refuse_if_Value: "refuse_if (Value b) m = (if b then Refused else m)"
  by (simp add: refuse_if_def)

text \<open>A conversion that normalised an operand has a width the shifts of the host are defined for.\<close>

lemma normalized_width:
  assumes "normalize_integer_conversion c dl x = Value l"
  shows "c_int (psx_integer_conversion_size_for_data_layout c dl * 8) =
      Value (psx_integer_conversion_size_for_data_layout c dl * 8)"
    "0 < psx_integer_conversion_size_for_data_layout c dl"
    "psx_integer_conversion_size_for_data_layout c dl \<le> 8"
  using assms by (auto simp: normalize_cases c_int_cases Let_def split: if_splits)

lemma typed_binary_shift_defined:
  assumes "normalize_integer_conversion c dl x = Value l"
    and "operation = PSX_INTEGER_CONSTANT_OP_SHL \<or> operation = PSX_INTEGER_CONSTANT_OP_SHR"
  shows "typed_binary_value operation c dl mn mx l r \<noteq> Undefined"
  using assms(2) normalized_width [OF assms(1)]
  by (auto simp: typed_binary_value_def Let_def low_mask_Value c_shift_def outcome_bind_Undefined_iff
      split: if_splits)

lemma typed_binary_value_unsigned_defined:
  assumes "normalize_integer_conversion c dl x = Value l" "conv_is_unsigned c"
  shows "typed_binary_value operation c dl mn mx l r \<noteq> Undefined"
proof (cases "operation = PSX_INTEGER_CONSTANT_OP_SHL \<or> operation = PSX_INTEGER_CONSTANT_OP_SHR")
  case True
  then show ?thesis by (rule typed_binary_shift_defined [OF assms(1)])
next
  case False
  then show ?thesis
    using assms(2) by (cases operation) (auto simp: typed_binary_value_def Let_def c_divide_def)
qed

lemma typed_binary_value_defined:
  assumes "typed_binary_operands operation lt rt dl x y = Value (c, l, r)"
    and "signed_integer_conversion_bounds c dl = Value (mn, mx)"
  shows "typed_binary_value operation c dl mn mx l r \<noteq> Undefined"
proof -
  have signed: "\<not> conv_is_unsigned c"
    using assms(2) by (auto simp: bounds_cases Let_def split: if_splits)
  have b: "bounds_for (conv_bits c dl) mn mx"
    using assms(2) by (rule bounds_for_conversion)
  note nl = operands_normalized(1) [OF assms(1)]
  have l: "fits (conv_bits c dl) (sint l)" using nl signed by (rule fits_normalized)
  have r: "fits (conv_bits c dl) (sint r)"
    if "operation \<noteq> PSX_INTEGER_CONSTANT_OP_SHL" "operation \<noteq> PSX_INTEGER_CONSTANT_OP_SHR"
    using operands_normalized(2) [OF assms(1) that] signed by (rule fits_normalized)
  note facts = b l typed_add_overflows_exact [OF b l] typed_sub_overflows_exact [OF b l]
    typed_mul_overflows_exact [OF b l] c_div_defined [OF b l] c_mod_defined [OF b l]
    fits_in_i64 [OF _ b]
  show ?thesis
  proof (cases "operation = PSX_INTEGER_CONSTANT_OP_SHL \<or> operation = PSX_INTEGER_CONSTANT_OP_SHR")
    case True
    then show ?thesis by (rule typed_binary_shift_defined [OF nl])
  next
    case False
    then show ?thesis
      using r facts signed
      by (cases operation) (auto simp: typed_binary_value_def Let_def refuse_if_Value)
  qed
qed

text \<open>
  The code multiplies the size of a scalar by 8 in \<^verbatim>\<open>int\<close>. \<open>ag_data_layout_is_valid\<close> bounds the sizes
  from below only, so that they are small is a condition on the layout; every target meets it.
\<close>

definition sizes_fit_int :: "ag_data_layout_t option \<Rightarrow> bool" where
  "sizes_fit_int dl = list_all (\<lambda>k. ag_data_layout_scalar_size dl k * 8 \<le> INT_MAX) scalar_kinds"

lemma scalar_size_nonneg: "0 \<le> ag_data_layout_scalar_size dl k"
  by (cases "(dl, k)" rule: ag_data_layout_scalar_size.cases) simp_all

lemma conversion_size_fits: "sizes_fit_int dl \<Longrightarrow>
  \<not> int_overflow (psx_integer_conversion_size_for_data_layout c dl * 8)"
  using scalar_size_nonneg [of dl "scalar_kind_for_rank (conv_rank c)"]
  by (auto simp: sizes_fit_int_def list_all_iff in_scalar_kinds int_overflow_def INT_MAX_def
      psx_integer_conversion_size_for_data_layout_def integer_size_for_rank_def scalar_kind_for_rank_def)

lemma normalize_defined:
  assumes "sizes_fit_int dl"
  shows "normalize_integer_conversion c dl x \<noteq> Undefined" "normalize_integer_shape s dl x \<noteq> Undefined"
    "signed_integer_conversion_bounds c dl \<noteq> Undefined"
    "typed_binary_operands operation lt rt dl x y \<noteq> Undefined"
proof -
  show n: "normalize_integer_conversion c dl x \<noteq> Undefined" for c x
    using conversion_size_fits [OF assms, of c] by (simp add: normalize_cases Let_def)
  show "normalize_integer_shape s dl x \<noteq> Undefined"
    using n by (simp add: normalize_integer_shape_def split: option.split)
  show "signed_integer_conversion_bounds c dl \<noteq> Undefined"
    using conversion_size_fits [OF assms, of c] by (simp add: bounds_cases Let_def)
  show "typed_binary_operands operation lt rt dl x y \<noteq> Undefined"
    using n by (auto simp: typed_binary_operands_def normalized_binary_conversion_def Let_def
        outcome_bind_Undefined_iff)
qed

text \<open>
  C1. The typed constant evaluator never runs into undefined behaviour of the host on a layout whose
  sizes in bits fit into \<^verbatim>\<open>int\<close>: for every operation, every pair of operand types and every pair of
  64-bit operands it returns a value or its failure flag; no overflow of \<^verbatim>\<open>int\<close> or \<^verbatim>\<open>long long\<close>, no
  shift outside 0 to 63, no signed or unsigned division by zero, no \<^verbatim>\<open>LLONG_MIN / -1\<close>, and the
  overflow tests themselves do not overflow.
\<close>

theorem typed_binary_never_undefined:
  assumes "sizes_fit_int dl"
  shows "psx_apply_typed_integer_constant_binary operation lhs_type rhs_type result_type dl lhs rhs \<noteq>
    Undefined"
  unfolding psx_apply_typed_integer_constant_binary_def
  by (auto split: option.splits prod.splits if_splits
        simp: outcome_bind_Undefined_iff normalize_defined [OF assms]
        dest: typed_binary_value_defined
          typed_binary_value_unsigned_defined [OF operands_normalized(1), rotated])

lemma typed_binary_never_undefined_witness:
  "psx_apply_typed_integer_constant_binary PSX_INTEGER_CONSTANT_OP_SHL None None None
     (Some (target_data_layout ag_target_info_host)) 1 64 \<noteq> Undefined"
proof -
  have "sizes_fit_int (Some (target_data_layout ag_target_info_host))"
    by (simp add: sizes_fit_int_def scalar_kinds_def INT_MAX_def ag_target_info_host_def standard_target_def)
  then show ?thesis by (rule typed_binary_never_undefined)
qed

section \<open>The typed evaluator computes C arithmetic\<close>

text \<open>
  The result C11 6.5.5 and 6.5.6 give a signed operation on a type whose values are those \<open>repr\<close>
  accepts: the exact one when it is representable, none otherwise. A remainder also needs the
  quotient to be representable (6.5.5p6).
\<close>

fun c11_signed_result ::
  "(int \<Rightarrow> bool) \<Rightarrow> psx_integer_constant_operation_t \<Rightarrow> int \<Rightarrow> int \<Rightarrow> int option" where
  "c11_signed_result repr PSX_INTEGER_CONSTANT_OP_ADD a b =
     (if repr (a + b) then Some (a + b) else None)"
| "c11_signed_result repr PSX_INTEGER_CONSTANT_OP_SUB a b =
     (if repr (a - b) then Some (a - b) else None)"
| "c11_signed_result repr PSX_INTEGER_CONSTANT_OP_MUL a b =
     (if repr (a * b) then Some (a * b) else None)"
| "c11_signed_result repr PSX_INTEGER_CONSTANT_OP_DIV a b =
     (if b \<noteq> 0 \<and> repr (a sdiv b) then Some (a sdiv b) else None)"
| "c11_signed_result repr PSX_INTEGER_CONSTANT_OP_MOD a b =
     (if b \<noteq> 0 \<and> repr (a sdiv b) then Some (a smod b) else None)"
| "c11_signed_result repr _ a b = None"

definition arithmetic_operations :: "psx_integer_constant_operation_t list" where
  "arithmetic_operations =
    [PSX_INTEGER_CONSTANT_OP_ADD, PSX_INTEGER_CONSTANT_OP_SUB, PSX_INTEGER_CONSTANT_OP_MUL,
     PSX_INTEGER_CONSTANT_OP_DIV, PSX_INTEGER_CONSTANT_OP_MOD]"

lemma normalize_total:
  "normalize_integer_conversion c l x = Value v \<Longrightarrow> \<exists>w. normalize_integer_conversion c l y = Value w"
  by (auto simp: normalize_cases Let_def split: if_splits)

lemma bounds_total:
  "normalize_integer_conversion c l x = Value v \<Longrightarrow> \<not> conv_is_unsigned c \<Longrightarrow>
   \<exists>mn mx. signed_integer_conversion_bounds c l = Value (mn, mx)"
  by (auto simp: normalize_cases bounds_cases Let_def split: if_splits)

lemma signed_take_bit_word_of_int:
  "n < 64 \<Longrightarrow> signed_take_bit n (word_of_int v :: i64) = word_of_int (signed_take_bit n v)"
  by (rule bit_word_eqI) (auto simp: bit_simps min_def)

lemma take_bit_word_of_int: "take_bit n (word_of_int v :: i64) = word_of_int (take_bit n v)"
  by (rule bit_word_eqI) (auto simp: bit_simps)

lemma normalize_fits:
  assumes "normalize_integer_conversion c l x = Value y" "\<not> conv_is_unsigned c"
    and "fits (conv_bits c l) v"
  shows "normalize_integer_conversion c l (word_of_int v) = Value (word_of_int v)"
proof -
  obtain w where w: "normalize_integer_conversion c l (word_of_int v) = Value w"
    using normalize_total [OF assms(1)] by blast
  have "signed_take_bit (conv_bits c l - 1) v = v"
    using assms(3) by (intro signed_take_bit_int_eq_self) (simp_all add: fits_def)
  then have "w = word_of_int v"
    using normalize_integer_conversion_eq [OF w] assms(2)
    by (simp add: signed_take_bit_word_of_int)
  then show ?thesis using w by simp
qed

lemma normalize_wraps:
  assumes "normalize_integer_conversion c l x = Value y" "conv_is_unsigned c"
  shows "normalize_integer_conversion c l (word_of_int v) =
         Value (word_of_int (v mod 2 ^ conv_bits c l))"
proof -
  obtain w where w: "normalize_integer_conversion c l (word_of_int v) = Value w"
    using normalize_total [OF assms(1)] by blast
  then show ?thesis
    using normalize_integer_conversion_eq [OF w] assms(2)
    by (simp add: take_bit_word_of_int flip: take_bit_eq_mod)
qed

lemma conv_holds_fits: "\<not> conv_is_unsigned c \<Longrightarrow> conv_holds c l = fits (conv_bits c l)"
  by (auto simp: conv_holds_def fits_def fun_eq_iff)

lemma remainder_fits:
  assumes "bounds_for n mn mx" "fits n b" "b \<noteq> 0"
  shows "fits n (a smod b)"
  using assms(1)
proof (rule bounds_for_cases)
  fix B :: int
  assume f: "\<And>v. fits n v \<longleftrightarrow> - B \<le> v \<and> v < B"
  have "\<bar>b\<bar> \<le> B" using assms(2) unfolding f by linarith
  moreover have "- \<bar>b\<bar> + 1 \<le> a smod b" "a smod b \<le> \<bar>b\<bar> - 1"
    using smod_int_range [OF assms(3), of a] by simp_all
  ultimately show ?thesis unfolding f by linarith
qed

lemma typed_signed_value:
  assumes "bounds_for n mn mx" "fits n (sint l)" "fits n (sint r)" "\<not> conv_is_unsigned c"
    and "operation \<in> set arithmetic_operations"
  shows "typed_binary_value operation c dl mn mx l r =
         or_refuse (map_option word_of_int (c11_signed_result (fits n) operation (sint l) (sint r)))"
proof -
  note b = assms(1-3)
  note facts = typed_add_overflows_exact [OF b] typed_sub_overflows_exact [OF b]
    typed_mul_overflows_exact [OF b] fits_in_i64 [OF _ b(1)]
    c_div_defined [OF b(1,2)] c_mod_defined [OF b(1,2)] quotient_fits_iff [OF b]
  consider "operation = PSX_INTEGER_CONSTANT_OP_ADD" | "operation = PSX_INTEGER_CONSTANT_OP_SUB"
    | "operation = PSX_INTEGER_CONSTANT_OP_MUL" | "operation = PSX_INTEGER_CONSTANT_OP_DIV"
    | "operation = PSX_INTEGER_CONSTANT_OP_MOD"
    using assms(5) by (auto simp: arithmetic_operations_def)
  then show ?thesis
    by cases
      (use assms(4) facts in
        \<open>auto simp: typed_binary_value_def Let_def refuse_if_Value signed_eq_0_iff\<close>)
qed

lemma c11_signed_result_fits:
  assumes "c11_signed_result (fits n) operation a b = Some v" "bounds_for n mn mx" "fits n b"
  shows "fits n v"
  using assms remainder_fits [OF assms(2,3)]
  by (cases operation) (auto split: if_splits)

lemma compare_none:
  "operation \<in> set arithmetic_operations \<Longrightarrow> typed_binary_compare operation c l r = None"
  by (auto simp: arithmetic_operations_def typed_binary_compare_def)

text \<open>
  C2. Signed constant arithmetic is exact. With operands converted to the signed type \<open>c\<close>, which
  is also the type of the result, \<^verbatim>\<open>+ - * / %\<close> yield exactly the value C11 defines when the
  type can represent it, and refuse the expression otherwise.
\<close>

theorem typed_signed_arithmetic_exact:
  assumes valid: "ag_data_layout_is_valid dl"
    and operands: "typed_binary_operands operation lhs_type rhs_type dl lhs rhs = Value (c, l, r)"
    and signed: "\<not> conv_is_unsigned c"
    and operation: "operation \<in> set arithmetic_operations"
    and result: "shape_kind rt \<noteq> PSX_TYPE_BOOL" "psx_integer_conversion_from_shape (Some rt) = c"
  shows "psx_apply_typed_integer_constant_binary operation lhs_type rhs_type (Some rt) dl lhs rhs =
         or_refuse (map_option word_of_int
           (c11_signed_result (conv_holds c dl) operation (sint l) (sint r)))"
proof -
  have ops: "operation \<noteq> PSX_INTEGER_CONSTANT_OP_LOGAND" "operation \<noteq> PSX_INTEGER_CONSTANT_OP_LOGOR"
      "operation \<noteq> PSX_INTEGER_CONSTANT_OP_COMMA" "operation \<noteq> PSX_INTEGER_CONSTANT_OP_SHL"
      "operation \<noteq> PSX_INTEGER_CONSTANT_OP_SHR"
    using operation by (auto simp: arithmetic_operations_def)
  note nl = operands_normalized(1) [OF operands] and nr = operands_normalized(2) [OF operands ops(4,5)]
  obtain mn mx where mn: "signed_integer_conversion_bounds c dl = Value (mn, mx)"
    using bounds_total [OF nl signed] by blast
  note b = bounds_for_conversion [OF mn] and fl = fits_normalized [OF nl signed]
    and fr = fits_normalized [OF nr signed]
  show ?thesis
  proof (cases "c11_signed_result (conv_holds c dl) operation (sint l) (sint r)")
    case None
    then show ?thesis
      using valid operands signed operation ops mn
      by (simp add: psx_apply_typed_integer_constant_binary_def compare_none conv_holds_fits
            typed_signed_value [OF b fl fr])
  next
    case (Some v)
    then have "fits (conv_bits c dl) v"
      using c11_signed_result_fits [OF _ b fr] signed by (simp add: conv_holds_fits)
    note normalize_fits [OF nl signed this]
    then show ?thesis
      using valid operands signed operation ops mn result Some
      by (simp add: psx_apply_typed_integer_constant_binary_def compare_none conv_holds_fits
            typed_signed_value [OF b fl fr] normalize_integer_shape_def)
  qed
qed

text \<open>A concrete layout and shapes for the witnesses: \<^verbatim>\<open>int\<close>, \<^verbatim>\<open>unsigned int\<close>, \<^verbatim>\<open>short\<close>.\<close>

definition host_layout :: "ag_data_layout_t option" where
  "host_layout = Some (target_data_layout ag_target_info_host)"

definition int_shape :: psx_type_shape_t where
  "int_shape = zero_shape
     \<lparr>shape_kind := PSX_TYPE_INTEGER, shape_integer_kind := PSX_INTEGER_KIND_INT\<rparr>"

definition uint_shape :: psx_type_shape_t where
  "uint_shape = int_shape\<lparr>shape_is_unsigned := True\<rparr>"

definition short_shape :: psx_type_shape_t where
  "short_shape = int_shape\<lparr>shape_integer_kind := PSX_INTEGER_KIND_SHORT\<rparr>"

lemmas concrete_layout = host_layout_def ag_target_info_host_def standard_target_def

lemma typed_signed_arithmetic_exact_witness:
  "psx_apply_typed_integer_constant_binary PSX_INTEGER_CONSTANT_OP_MUL (Some int_shape)
     (Some short_shape) (Some int_shape) host_layout 65536 32767 = Value 2147418112 \<and>
   psx_apply_typed_integer_constant_binary PSX_INTEGER_CONSTANT_OP_ADD (Some int_shape)
     (Some short_shape) (Some int_shape) host_layout 2147483647 1 = Refused"
proof -
  let ?c = "\<lparr>conv_rank = 3, conv_is_unsigned = False, conv_is_integer = True\<rparr>"
  have v: "ag_data_layout_is_valid host_layout" by code_simp
  have o: "typed_binary_operands PSX_INTEGER_CONSTANT_OP_MUL (Some int_shape) (Some short_shape)
             host_layout 65536 32767 = Value (?c, 65536, 32767)"
          "typed_binary_operands PSX_INTEGER_CONSTANT_OP_ADD (Some int_shape) (Some short_shape)
             host_layout 2147483647 1 = Value (?c, 2147483647, 1)"
    by code_simp+
  have k: "shape_kind int_shape \<noteq> PSX_TYPE_BOOL"
      "psx_integer_conversion_from_shape (Some int_shape) = ?c" by code_simp+
  have m: "PSX_INTEGER_CONSTANT_OP_MUL \<in> set arithmetic_operations"
      "PSX_INTEGER_CONSTANT_OP_ADD \<in> set arithmetic_operations"
    by code_simp+
  have s: "\<not> conv_is_unsigned ?c" by simp
  have e: "or_refuse (map_option word_of_int (c11_signed_result (conv_holds ?c host_layout)
             PSX_INTEGER_CONSTANT_OP_MUL (sint (65536 :: i64)) (sint (32767 :: i64)))) =
           Value (2147418112 :: i64)"
          "or_refuse (map_option word_of_int (c11_signed_result (conv_holds ?c host_layout)
             PSX_INTEGER_CONSTANT_OP_ADD (sint (2147483647 :: i64)) (sint (1 :: i64)))) =
           (Refused :: i64 outcome)"
    by code_simp+
  show ?thesis
    using typed_signed_arithmetic_exact [OF v o(1) s m(1) k]
      typed_signed_arithmetic_exact [OF v o(2) s m(2) k] e by simp
qed

text \<open>
  C3. Unsigned constant arithmetic wraps. With operands converted to the unsigned type \<open>c\<close> of
  \<open>n\<close> bits, \<^verbatim>\<open>+ - *\<close> are computed modulo \<open>2^n\<close> (C11 6.2.5p9) and are never refused.
\<close>

theorem typed_unsigned_arithmetic_wraps:
  assumes valid: "ag_data_layout_is_valid dl"
    and operands: "normalized_binary_conversion lhs_type rhs_type dl lhs rhs = Value (c, l, r)"
    and unsigned: "conv_is_unsigned c"
    and result: "shape_kind rt \<noteq> PSX_TYPE_BOOL" "psx_integer_conversion_from_shape (Some rt) = c"
  shows "psx_apply_typed_integer_constant_binary PSX_INTEGER_CONSTANT_OP_ADD lhs_type rhs_type
           (Some rt) dl lhs rhs =
         Value (word_of_int ((uint l + uint r) mod 2 ^ conv_bits c dl)) \<and>
         psx_apply_typed_integer_constant_binary PSX_INTEGER_CONSTANT_OP_SUB lhs_type rhs_type
           (Some rt) dl lhs rhs =
         Value (word_of_int ((uint l - uint r) mod 2 ^ conv_bits c dl)) \<and>
         psx_apply_typed_integer_constant_binary PSX_INTEGER_CONSTANT_OP_MUL lhs_type rhs_type
           (Some rt) dl lhs rhs =
         Value (word_of_int ((uint l * uint r) mod 2 ^ conv_bits c dl))"
proof -
  have o: "typed_binary_operands operation lhs_type rhs_type dl lhs rhs = Value (c, l, r)"
    if "operation \<noteq> PSX_INTEGER_CONSTANT_OP_SHL" "operation \<noteq> PSX_INTEGER_CONSTANT_OP_SHR"
    for operation
    using operands that by (simp add: typed_binary_operands_def)
  have n: "normalize_integer_conversion c dl lhs = Value l"
    by (rule operands_normalized(1) [OF o [of PSX_INTEGER_CONSTANT_OP_ADD]]) simp_all
  note w = normalize_wraps [OF n unsigned]
  have "normalize_integer_shape (Some rt) dl (word_of_int v) =
        Value (word_of_int (v mod 2 ^ conv_bits c dl))" for v
    using result w by (simp add: normalize_integer_shape_def)
  from this [of "uint l + uint r"] this [of "uint l - uint r"] this [of "uint l * uint r"]
  show ?thesis
    using valid o unsigned
    by (simp add: psx_apply_typed_integer_constant_binary_def typed_binary_compare_def
          typed_binary_value_def)
qed

lemma typed_unsigned_arithmetic_wraps_witness:
  "psx_apply_typed_integer_constant_binary PSX_INTEGER_CONSTANT_OP_SUB (Some uint_shape)
     (Some int_shape) (Some uint_shape) host_layout 1 2 = Value 4294967295"
proof -
  let ?c = "\<lparr>conv_rank = 3, conv_is_unsigned = True, conv_is_integer = True\<rparr>"
  have v: "ag_data_layout_is_valid host_layout" by code_simp
  have o: "normalized_binary_conversion (Some uint_shape) (Some int_shape) host_layout 1 2 =
           Value (?c, 1, 2)" by code_simp
  have k: "shape_kind uint_shape \<noteq> PSX_TYPE_BOOL"
      "psx_integer_conversion_from_shape (Some uint_shape) = ?c" by code_simp+
  have e: "word_of_int ((uint (1 :: i64) - uint (2 :: i64)) mod 2 ^ conv_bits ?c host_layout) =
           (4294967295 :: i64)" by code_simp
  show ?thesis
    using typed_unsigned_arithmetic_wraps [OF v o _ k] e by simp
qed

section \<open>Casts of constants\<close>

lemma cast_eq:
  assumes "shape_kind t = PSX_TYPE_INTEGER" "0 < integer_cast_width (Some t)"
    and "integer_cast_width (Some t) < 8"
  defines "n \<equiv> nat (integer_cast_width (Some t) * 8)"
  shows "psx_normalize_integer_constant_cast (Some t) x =
         Some (if shape_is_unsigned t then take_bit n x else signed_take_bit (n - 1) x)"
proof -
  have n: "0 < n" "n < 64" using assms(2,3) by (auto simp: n_def)
  have k: "nat (integer_cast_width (Some t) * 8 - 1) = n - 1"
    using assms(2) by (simp add: n_def nat_diff_distrib)
  note t = truncate_word [OF n, of x "\<not> shape_is_unsigned t"]
  show ?thesis
    using assms(1-3) t
    unfolding psx_normalize_integer_constant_cast_def Let_def k n_def [symmetric]
    by (auto simp del: integer_cast_width.simps)
qed

lemma signed_take_bit_cong: "(signed_take_bit n v - v) mod 2 ^ Suc n = (0 :: int)"
proof -
  have "take_bit (Suc n) (signed_take_bit n v) = take_bit (Suc n) v"
    by (rule bit_eqI) (auto simp: bit_simps min_def less_Suc_eq_le)
  then show ?thesis by (metis mod_eq_dvd_iff dvd_imp_mod_0 take_bit_eq_mod)
qed

text \<open>
  A cast of a constant to an integer type of 1, 2 or 4 bytes yields the one value of the
  target type that is congruent to the operand modulo \<open>2^n\<close>, for signed and unsigned targets
  (C11 6.3.1.3, with the usual choice for signed targets).
\<close>

theorem constant_cast_is_conversion:
  assumes "shape_kind t = PSX_TYPE_INTEGER" "0 < integer_cast_width (Some t)"
    and "integer_cast_width (Some t) < 8"
  shows "\<exists>v. psx_normalize_integer_constant_cast (Some t) x = Some v \<and>
             (sint v - sint x) mod 2 ^ nat (integer_cast_width (Some t) * 8) = 0 \<and>
             (if shape_is_unsigned t
              then 0 \<le> sint v \<and> sint v < 2 ^ nat (integer_cast_width (Some t) * 8)
              else - (2 ^ nat (integer_cast_width (Some t) * 8 - 1)) \<le> sint v \<and>
                   sint v < 2 ^ nat (integer_cast_width (Some t) * 8 - 1))"
proof -
  define n where "n = nat (integer_cast_width (Some t) * 8)"
  have n: "0 < n" "n < 64" using assms(2,3) by (auto simp: n_def)
  have k: "nat (integer_cast_width (Some t) * 8 - 1) = n - 1"
    using assms(2) by (simp add: n_def nat_diff_distrib)
  have Suc: "Suc (n - 1) = n" using n by simp
  have u: "sint (take_bit n x) = take_bit n (sint x)"
    using n by (intro bit_eqI) (auto simp: bit_simps min_def)
  have "(take_bit n (sint x) - sint x) mod 2 ^ n = 0"
    by (simp add: take_bit_eq_mod mod_diff_left_eq)
  moreover have "(signed_take_bit (n - 1) (sint x) - sint x) mod 2 ^ n = 0"
    using signed_take_bit_cong [of "n - 1" "sint x"] Suc by simp
  moreover have "sint (signed_take_bit (n - 1) x) = signed_take_bit (n - 1) (sint x)"
    using n by (intro sint_signed_take_bit_word) simp
  ultimately show ?thesis
    using cast_eq [OF assms, of x] u
      signed_take_bit_int_less_exp [of "n - 1" "sint x"]
      signed_take_bit_int_greater_eq_minus_exp [of "n - 1" "sint x"]
    unfolding k n_def [symmetric] by auto
qed

lemma constant_cast_is_conversion_witness:
  "\<exists>v. psx_normalize_integer_constant_cast (Some short_shape) 98304 = Some v \<and>
       (sint v - sint (98304 :: i64)) mod 2 ^ nat (integer_cast_width (Some short_shape) * 8) = 0"
  using constant_cast_is_conversion [of short_shape 98304]
  by (auto simp: short_shape_def int_shape_def zero_shape_def)

end
