(* ===== verification/TypeIdentity.thy ===== *)
theory TypeIdentity
  imports IntegerConversion
begin

text \<open>
  The interned C types: \<^verbatim>\<open>src/semantic/type_identity.c\<close> with the record declarations of
  \<^verbatim>\<open>src/semantic/record_decl_table.c\<close>. The table is an array of entries, one per structurally
  different type; an entry points to its base and parameter types by id. A table pointer is not
  NULL here, an array with its count is a list, a name with its length is an optional string, and
  allocation does not fail; the limit of \<^verbatim>\<open>UINT_MAX\<close> types is kept. A loop or recursion over
  the entries is a \<open>partial_function (option)\<close>, which returns \<open>None\<close> if the C code does not
  return; on the tables the operations build they always return.
\<close>

section \<open>Record declarations\<close>

record psx_record_member_decl_t =
  rm_name :: "string option"
  rm_bit_width :: int
  rm_bit_is_signed :: bool
  rm_has_alignment_specifier :: bool
  rm_requested_alignment :: int
  rm_decl_qual_type :: psx_qual_type_t

record psx_record_decl_t =
  rd_record_id :: psx_record_id_t
  rd_record_kind :: psx_type_kind_t
  rd_tag_name :: "string option"
  rd_is_anonymous :: bool
  rd_is_complete :: bool
  rd_members :: "psx_record_member_decl_t list"

text \<open>
  The table holds pointers to declarations that are completed in place, so a pointer is an address
  and a store gives the declaration it points to.
\<close>

type_synonym record_ref = nat
type_synonym record_store = "record_ref \<Rightarrow> psx_record_decl_t"
type_synonym psx_record_decl_table_t = "psx_record_id_t \<rightharpoonup> record_ref"

definition psx_record_decl_table_define ::
  "record_store \<Rightarrow> psx_record_decl_table_t \<Rightarrow> record_ref \<Rightarrow> psx_record_decl_table_t option" where
  "psx_record_decl_table_define store table record =
    (let decl = store record in
     if rd_record_id decl = PSX_RECORD_ID_INVALID \<or>
        (rd_record_kind decl \<noteq> PSX_TYPE_STRUCT \<and> rd_record_kind decl \<noteq> PSX_TYPE_UNION)
     then None
     else case table (rd_record_id decl) of
            Some existing \<Rightarrow> if existing \<noteq> record then None
                             else Some (table(rd_record_id decl \<mapsto> record))
          | None \<Rightarrow> Some (table(rd_record_id decl \<mapsto> record)))"

definition psx_record_decl_table_lookup ::
  "record_store \<Rightarrow> psx_record_decl_table_t option \<Rightarrow> psx_record_id_t \<Rightarrow> psx_record_decl_t option" where
  "psx_record_decl_table_lookup store table record_id =
    (case table of
       None \<Rightarrow> None
     | Some records \<Rightarrow> if record_id = PSX_RECORD_ID_INVALID then None
                       else map_option store (records record_id))"

section \<open>The table of types\<close>

record psx_semantic_type_entry_t =
  entry_shape :: psx_type_shape_t
  entry_base_type :: psx_qual_type_t
  entry_parameter_types :: "psx_qual_type_t list"

text \<open>\<open>tt_entries\<close> are the entries 1 to \<^verbatim>\<open>next_id\<close>; id 0 is no type.\<close>

record psx_semantic_type_table_t =
  tt_record_decls :: "psx_record_decl_table_t option"
  tt_entries :: "psx_semantic_type_entry_t list"

definition tt_next_id :: "psx_semantic_type_table_t \<Rightarrow> nat" where
  "tt_next_id table = length (tt_entries table)"

definition tt_entry :: "psx_semantic_type_table_t \<Rightarrow> psx_type_id_t \<Rightarrow> psx_semantic_type_entry_t" where
  "tt_entry table type_id = tt_entries table ! (type_id - 1)"

definition semantic_type_id_is_valid :: "psx_semantic_type_table_t \<Rightarrow> psx_type_id_t \<Rightarrow> bool" where
  "semantic_type_id_is_valid table type_id \<longleftrightarrow>
     type_id \<noteq> PSX_TYPE_ID_INVALID \<and> type_id \<le> tt_next_id table \<and>
     shape_kind (entry_shape (tt_entry table type_id)) \<noteq> PSX_TYPE_INVALID"

definition invalid_qual_type :: psx_qual_type_t where
  "invalid_qual_type = \<lparr>qt_type_id = PSX_TYPE_ID_INVALID, qt_qualifiers = PSX_TYPE_QUALIFIER_NONE\<rparr>"

definition semantic_type_shapes_match :: "psx_type_shape_t \<Rightarrow> psx_type_shape_t \<Rightarrow> bool" where
  "semantic_type_shapes_match canonical candidate =
    (if shape_kind canonical \<noteq> shape_kind candidate then False
     else case shape_kind canonical of
       PSX_TYPE_BOOL \<Rightarrow> shape_is_unsigned canonical = shape_is_unsigned candidate
     | PSX_TYPE_INTEGER \<Rightarrow>
         if shape_integer_kind canonical = PSX_INTEGER_KIND_ENUM \<or>
            shape_integer_kind candidate = PSX_INTEGER_KIND_ENUM
         then shape_integer_kind canonical = PSX_INTEGER_KIND_ENUM \<and>
              shape_integer_kind candidate = PSX_INTEGER_KIND_ENUM \<and>
              shape_enum_decl_id canonical \<noteq> PSX_DECL_ID_INVALID \<and>
              shape_enum_decl_id canonical = shape_enum_decl_id candidate
         else shape_is_unsigned canonical = shape_is_unsigned candidate \<and>
              shape_is_plain_char canonical = shape_is_plain_char candidate \<and>
              conv_rank (psx_integer_conversion_from_shape (Some canonical)) =
                conv_rank (psx_integer_conversion_from_shape (Some candidate))
     | PSX_TYPE_FLOAT \<Rightarrow> shape_floating_kind canonical = shape_floating_kind candidate
     | PSX_TYPE_COMPLEX \<Rightarrow> shape_floating_kind canonical = shape_floating_kind candidate
     | PSX_TYPE_POINTER \<Rightarrow> True
     | PSX_TYPE_ARRAY \<Rightarrow> shape_array_len canonical = shape_array_len candidate \<and>
                         shape_is_vla canonical = shape_is_vla candidate
     | PSX_TYPE_STRUCT \<Rightarrow> shape_record_id canonical \<noteq> PSX_RECORD_ID_INVALID \<and>
                          shape_record_id canonical = shape_record_id candidate
     | PSX_TYPE_UNION \<Rightarrow> shape_record_id canonical \<noteq> PSX_RECORD_ID_INVALID \<and>
                         shape_record_id canonical = shape_record_id candidate
     | PSX_TYPE_FUNCTION \<Rightarrow>
         shape_parameter_count canonical = shape_parameter_count candidate \<and>
         shape_has_function_prototype canonical = shape_has_function_prototype candidate \<and>
         shape_is_variadic_function canonical = shape_is_variadic_function candidate
     | PSX_TYPE_VOID \<Rightarrow> True
     | PSX_TYPE_INVALID \<Rightarrow> True)"

definition semantic_type_relations_match ::
  "psx_semantic_type_entry_t \<Rightarrow> psx_qual_type_t \<Rightarrow> psx_qual_type_t list \<Rightarrow> bool" where
  "semantic_type_relations_match entry base_type parameter_types =
    (if length (entry_parameter_types entry) \<noteq> length parameter_types \<or>
        qt_type_id (entry_base_type entry) \<noteq> qt_type_id base_type \<or>
        qt_qualifiers (entry_base_type entry) \<noteq> qt_qualifiers base_type
     then False
     else list_all2 (\<lambda>p q. qt_type_id p = qt_type_id q \<and> qt_qualifiers p = qt_qualifiers q)
            (entry_parameter_types entry) parameter_types)"

text \<open>
  The loop of the code runs over \<open>id <= next_id\<close> in 32 bits and does not end when \<open>next_id\<close> is
  \<^verbatim>\<open>UINT_MAX\<close> and no entry is found; this search ends there with nothing found.
\<close>

definition semantic_type_shape_id ::
  "psx_semantic_type_table_t \<Rightarrow> psx_type_shape_t \<Rightarrow> psx_qual_type_t \<Rightarrow> psx_qual_type_t list \<Rightarrow>
   psx_type_id_t" where
  "semantic_type_shape_id table shape base_type parameter_types =
    (case find (\<lambda>id. semantic_type_id_is_valid table id \<and>
                     semantic_type_shapes_match (entry_shape (tt_entry table id)) shape \<and>
                     semantic_type_relations_match (tt_entry table id) base_type parameter_types)
            [1..<Suc (tt_next_id table)] of
       None \<Rightarrow> PSX_TYPE_ID_INVALID
     | Some existing \<Rightarrow> existing)"

text \<open>A name is copied into the table; an empty one becomes NULL.\<close>

definition semantic_type_shape_own_name :: "string option \<Rightarrow> string option" where
  "semantic_type_shape_own_name source =
    (case source of None \<Rightarrow> None | Some name \<Rightarrow> if name = [] then None else Some name)"

definition semantic_type_shape_own_names :: "psx_type_shape_t \<Rightarrow> psx_type_shape_t" where
  "semantic_type_shape_own_names shape =
     shape\<lparr>shape_record_tag_name := semantic_type_shape_own_name (shape_record_tag_name shape),
           shape_enum_tag_name := semantic_type_shape_own_name (shape_enum_tag_name shape)\<rparr>"

definition shape_requires_base :: "psx_type_kind_t \<Rightarrow> bool" where
  "shape_requires_base kind \<longleftrightarrow>
     kind = PSX_TYPE_COMPLEX \<or> kind = PSX_TYPE_POINTER \<or> kind = PSX_TYPE_ARRAY \<or>
     kind = PSX_TYPE_FUNCTION"

definition semantic_type_shape_request_is_valid ::
  "psx_semantic_type_table_t \<Rightarrow> psx_type_shape_t \<Rightarrow> psx_qual_type_t \<Rightarrow> psx_qual_type_t list \<Rightarrow> bool" where
  "semantic_type_shape_request_is_valid table shape base_type parameter_types =
    (if shape_parameter_count shape \<noteq> int (length parameter_types) \<or>
        shape_requires_base (shape_kind shape) \<noteq> semantic_type_id_is_valid table (qt_type_id base_type) \<or>
        (qt_type_id base_type = PSX_TYPE_ID_INVALID \<and>
         qt_qualifiers base_type \<noteq> PSX_TYPE_QUALIFIER_NONE) \<or>
        (shape_kind shape \<noteq> PSX_TYPE_FUNCTION \<and> parameter_types \<noteq> [])
     then False
     else list_all (\<lambda>p. semantic_type_id_is_valid table (qt_type_id p)) parameter_types)"

definition psx_semantic_type_table_find_shape ::
  "psx_semantic_type_table_t \<Rightarrow> psx_type_shape_t \<Rightarrow> psx_qual_type_t \<Rightarrow> psx_qual_type_t list \<Rightarrow>
   psx_qual_type_t" where
  "psx_semantic_type_table_find_shape table shape base_type parameter_types =
    (if \<not> semantic_type_shape_request_is_valid table shape base_type parameter_types
     then invalid_qual_type
     else \<lparr>qt_type_id = semantic_type_shape_id table shape base_type parameter_types,
           qt_qualifiers = PSX_TYPE_QUALIFIER_NONE\<rparr>)"

definition psx_semantic_type_table_intern_shape ::
  "psx_semantic_type_table_t \<Rightarrow> psx_type_shape_t \<Rightarrow> psx_qual_type_t \<Rightarrow> psx_qual_type_t list \<Rightarrow>
   psx_qual_type_t \<times> psx_semantic_type_table_t" where
  "psx_semantic_type_table_intern_shape table shape base_type parameter_types =
    (let existing = psx_semantic_type_table_find_shape table shape base_type parameter_types in
     if qt_type_id existing \<noteq> PSX_TYPE_ID_INVALID then (existing, table)
     else if \<not> semantic_type_shape_request_is_valid table shape base_type parameter_types
     then (invalid_qual_type, table)
     else if int (tt_next_id table) = UINT_MAX then (invalid_qual_type, table)
     else (\<lparr>qt_type_id = tt_next_id table + 1, qt_qualifiers = PSX_TYPE_QUALIFIER_NONE\<rparr>,
           table\<lparr>tt_entries := tt_entries table @
                   [\<lparr>entry_shape = semantic_type_shape_own_names shape,
                     entry_base_type = base_type,
                     entry_parameter_types = parameter_types\<rparr>]\<rparr>))"

section \<open>Interning\<close>

definition integer_shape :: "psx_integer_kind_t \<Rightarrow> bool \<Rightarrow> bool \<Rightarrow> psx_type_shape_t" where
  "integer_shape integer_kind is_unsigned is_plain_char =
     zero_shape\<lparr>shape_kind := (if integer_kind = PSX_INTEGER_KIND_BOOL then PSX_TYPE_BOOL
                               else PSX_TYPE_INTEGER),
                shape_integer_kind := integer_kind,
                shape_is_unsigned := is_unsigned,
                shape_is_plain_char := integer_kind = PSX_INTEGER_KIND_CHAR \<and> is_plain_char\<rparr>"

definition psx_semantic_type_table_intern_integer ::
  "psx_semantic_type_table_t \<Rightarrow> psx_integer_kind_t \<Rightarrow> bool \<Rightarrow> bool \<Rightarrow>
   psx_qual_type_t \<times> psx_semantic_type_table_t" where
  "psx_semantic_type_table_intern_integer table integer_kind is_unsigned is_plain_char =
    (if integer_kind \<le> PSX_INTEGER_KIND_NONE \<or> integer_kind \<ge> PSX_INTEGER_KIND_ENUM
     then (invalid_qual_type, table)
     else psx_semantic_type_table_intern_shape table
            (integer_shape integer_kind is_unsigned is_plain_char) invalid_qual_type [])"

definition floating_shape :: "psx_floating_kind_t \<Rightarrow> bool \<Rightarrow> psx_type_shape_t" where
  "floating_shape floating_kind is_complex =
     zero_shape\<lparr>shape_kind := (if is_complex then PSX_TYPE_COMPLEX else PSX_TYPE_FLOAT),
                shape_floating_kind := floating_kind\<rparr>"

text \<open>The complex type of a kind points to the real one, which is interned first.\<close>

definition psx_semantic_type_table_intern_floating ::
  "psx_semantic_type_table_t \<Rightarrow> psx_floating_kind_t \<Rightarrow> bool \<Rightarrow>
   psx_qual_type_t \<times> psx_semantic_type_table_t" where
  "psx_semantic_type_table_intern_floating table floating_kind is_complex =
    (if floating_kind = PSX_FLOATING_KIND_NONE then (invalid_qual_type, table)
     else if is_complex
     then let (base_type, table1) =
                psx_semantic_type_table_intern_shape table (floating_shape floating_kind False)
                  invalid_qual_type []
          in if qt_type_id base_type = PSX_TYPE_ID_INVALID then (invalid_qual_type, table1)
             else psx_semantic_type_table_intern_shape table1 (floating_shape floating_kind True)
                    base_type []
     else psx_semantic_type_table_intern_shape table (floating_shape floating_kind False)
            invalid_qual_type [])"

definition psx_semantic_type_table_fundamental_integer ::
  "psx_semantic_type_table_t \<Rightarrow> psx_integer_kind_t \<Rightarrow> bool \<Rightarrow> bool \<Rightarrow> psx_qual_type_t" where
  "psx_semantic_type_table_fundamental_integer table integer_kind is_unsigned is_plain_char =
    (if integer_kind \<le> PSX_INTEGER_KIND_NONE \<or> integer_kind \<ge> PSX_INTEGER_KIND_ENUM
     then invalid_qual_type
     else \<lparr>qt_type_id = semantic_type_shape_id table
             (integer_shape integer_kind is_unsigned is_plain_char) invalid_qual_type [],
           qt_qualifiers = PSX_TYPE_QUALIFIER_NONE\<rparr>)"

definition psx_semantic_type_table_fundamental_floating ::
  "psx_semantic_type_table_t \<Rightarrow> psx_floating_kind_t \<Rightarrow> bool \<Rightarrow> psx_qual_type_t" where
  "psx_semantic_type_table_fundamental_floating table floating_kind is_complex =
    (if floating_kind = PSX_FLOATING_KIND_NONE then invalid_qual_type
     else let real_id = semantic_type_shape_id table (floating_shape floating_kind False)
                          invalid_qual_type [];
              base_type = (if is_complex then \<lparr>qt_type_id = real_id,
                                               qt_qualifiers = PSX_TYPE_QUALIFIER_NONE\<rparr>
                           else invalid_qual_type)
          in if is_complex \<and> qt_type_id base_type = PSX_TYPE_ID_INVALID then invalid_qual_type
             else \<lparr>qt_type_id = semantic_type_shape_id table
                     (floating_shape floating_kind is_complex) base_type [],
                   qt_qualifiers = PSX_TYPE_QUALIFIER_NONE\<rparr>)"

definition psx_semantic_type_table_intern_void ::
  "psx_semantic_type_table_t \<Rightarrow> psx_qual_type_t \<times> psx_semantic_type_table_t" where
  "psx_semantic_type_table_intern_void table =
     psx_semantic_type_table_intern_shape table (zero_shape\<lparr>shape_kind := PSX_TYPE_VOID\<rparr>)
       invalid_qual_type []"

definition psx_semantic_type_table_intern_enum ::
  "psx_semantic_type_table_t \<Rightarrow> psx_decl_id_t \<Rightarrow> string option \<Rightarrow> bool \<Rightarrow>
   psx_qual_type_t \<times> psx_semantic_type_table_t" where
  "psx_semantic_type_table_intern_enum table declaration_id tag_name is_unsigned =
    (if declaration_id = PSX_DECL_ID_INVALID then (invalid_qual_type, table)
     else psx_semantic_type_table_intern_shape table
            (zero_shape\<lparr>shape_kind := PSX_TYPE_INTEGER,
                        shape_integer_kind := PSX_INTEGER_KIND_ENUM,
                        shape_enum_tag_name := tag_name,
                        shape_enum_decl_id := declaration_id,
                        shape_is_unsigned := is_unsigned\<rparr>)
            invalid_qual_type [])"

definition psx_semantic_type_table_intern_record ::
  "record_store \<Rightarrow> psx_semantic_type_table_t \<Rightarrow> psx_record_id_t \<Rightarrow>
   psx_qual_type_t \<times> psx_semantic_type_table_t" where
  "psx_semantic_type_table_intern_record store table record_id =
    (case psx_record_decl_table_lookup store (tt_record_decls table) record_id of
       None \<Rightarrow> (invalid_qual_type, table)
     | Some record \<Rightarrow>
         if rd_record_kind record \<noteq> PSX_TYPE_STRUCT \<and> rd_record_kind record \<noteq> PSX_TYPE_UNION
         then (invalid_qual_type, table)
         else psx_semantic_type_table_intern_shape table
                (zero_shape\<lparr>shape_kind := rd_record_kind record,
                            shape_record_id := rd_record_id record,
                            shape_record_tag_name := rd_tag_name record\<rparr>)
                invalid_qual_type [])"

definition psx_semantic_type_table_intern_pointer_to ::
  "psx_semantic_type_table_t \<Rightarrow> psx_qual_type_t \<Rightarrow> psx_qual_type_t \<times> psx_semantic_type_table_t" where
  "psx_semantic_type_table_intern_pointer_to table pointee =
     psx_semantic_type_table_intern_shape table (zero_shape\<lparr>shape_kind := PSX_TYPE_POINTER\<rparr>)
       pointee []"

definition psx_semantic_type_table_intern_array_of ::
  "psx_semantic_type_table_t \<Rightarrow> psx_qual_type_t \<Rightarrow> int \<Rightarrow> bool \<Rightarrow>
   psx_qual_type_t \<times> psx_semantic_type_table_t" where
  "psx_semantic_type_table_intern_array_of table element array_len is_vla =
    (if array_len < 0 then (invalid_qual_type, table)
     else psx_semantic_type_table_intern_shape table
            (zero_shape\<lparr>shape_kind := PSX_TYPE_ARRAY, shape_array_len := array_len,
                        shape_is_vla := is_vla\<rparr>)
            element [])"

definition psx_semantic_type_table_describe ::
  "psx_semantic_type_table_t \<Rightarrow> psx_type_id_t \<Rightarrow> psx_type_shape_t option" where
  "psx_semantic_type_table_describe table type_id =
    (if \<not> semantic_type_id_is_valid table type_id then None
     else Some (entry_shape (tt_entry table type_id)))"

definition psx_semantic_type_table_intern_function ::
  "psx_semantic_type_table_t \<Rightarrow> psx_qual_type_t \<Rightarrow> psx_qual_type_t list \<Rightarrow> bool \<Rightarrow> bool \<Rightarrow>
   psx_qual_type_t \<times> psx_semantic_type_table_t" where
  "psx_semantic_type_table_intern_function table result parameters has_prototype is_variadic =
    (case psx_semantic_type_table_describe table (qt_type_id result) of
       None \<Rightarrow> (invalid_qual_type, table)
     | Some result_shape \<Rightarrow>
         if shape_kind result_shape = PSX_TYPE_ARRAY \<or> shape_kind result_shape = PSX_TYPE_FUNCTION
         then (invalid_qual_type, table)
         else psx_semantic_type_table_intern_shape table
                (zero_shape\<lparr>shape_kind := PSX_TYPE_FUNCTION,
                            shape_parameter_count := int (length parameters),
                            shape_has_function_prototype := has_prototype,
                            shape_is_variadic_function := is_variadic\<rparr>)
                result parameters)"

section \<open>Creation\<close>

text \<open>The interning steps of the seeding, which stops at the first that fails.\<close>

fun run_seeds ::
  "(psx_semantic_type_table_t \<Rightarrow> psx_qual_type_t \<times> psx_semantic_type_table_t) list \<Rightarrow>
   psx_semantic_type_table_t \<Rightarrow> bool \<times> psx_semantic_type_table_t" where
  "run_seeds [] table = (True, table)"
| "run_seeds (step # steps) table =
    (let (type, table1) = step table
     in if qt_type_id type = PSX_TYPE_ID_INVALID then (False, table1) else run_seeds steps table1)"

definition seed_integer_kinds :: "psx_integer_kind_t list" where
  "seed_integer_kinds =
    [PSX_INTEGER_KIND_BOOL, PSX_INTEGER_KIND_CHAR, PSX_INTEGER_KIND_SHORT, PSX_INTEGER_KIND_INT,
     PSX_INTEGER_KIND_LONG, PSX_INTEGER_KIND_LONG_LONG]"

definition seed_floating_kinds :: "psx_floating_kind_t list" where
  "seed_floating_kinds =
    [PSX_FLOATING_KIND_FLOAT, PSX_FLOATING_KIND_DOUBLE, PSX_FLOATING_KIND_LONG_DOUBLE]"

definition seed_fundamental_types ::
  "psx_semantic_type_table_t \<Rightarrow> bool \<times> psx_semantic_type_table_t" where
  "seed_fundamental_types table =
     run_seeds
       ([psx_semantic_type_table_intern_void] @
        concat (map (\<lambda>kind. map (\<lambda>is_unsigned table.
                      psx_semantic_type_table_intern_integer table kind is_unsigned False)
                    (if kind = PSX_INTEGER_KIND_BOOL then [False] else [False, True]))
                 seed_integer_kinds) @
        [\<lambda>table. psx_semantic_type_table_intern_integer table PSX_INTEGER_KIND_CHAR False True] @
        concat (map (\<lambda>kind. [\<lambda>table. psx_semantic_type_table_intern_floating table kind False,
                             \<lambda>table. psx_semantic_type_table_intern_floating table kind True])
                 seed_floating_kinds))
       table"

definition psx_semantic_type_table_create :: "psx_semantic_type_table_t option" where
  "psx_semantic_type_table_create =
    (let (seeded, table) = seed_fundamental_types \<lparr>tt_record_decls = None, tt_entries = []\<rparr>
     in if \<not> seeded then None else Some table)"

definition psx_semantic_type_table_reset ::
  "psx_semantic_type_table_t \<Rightarrow> psx_semantic_type_table_t" where
  "psx_semantic_type_table_reset table = snd (seed_fundamental_types (table\<lparr>tt_entries := []\<rparr>))"

definition psx_semantic_type_table_bind_record_decls ::
  "psx_semantic_type_table_t \<Rightarrow> psx_record_decl_table_t option \<Rightarrow> psx_semantic_type_table_t" where
  "psx_semantic_type_table_bind_record_decls table record_decls =
     table\<lparr>tt_record_decls := record_decls\<rparr>"


section \<open>Matching entries\<close>

definition entries_same :: "psx_semantic_type_entry_t \<Rightarrow> psx_semantic_type_entry_t \<Rightarrow> bool" where
  "entries_same e f \<longleftrightarrow>
     semantic_type_shapes_match (entry_shape e) (entry_shape f) \<and>
     entry_base_type e = entry_base_type f \<and> entry_parameter_types e = entry_parameter_types f"

lemma qual_type_eq_iff:
  "(p :: psx_qual_type_t) = q \<longleftrightarrow>
     qt_type_id p = qt_type_id q \<and> qt_qualifiers p = qt_qualifiers q"
  by (cases p; cases q) simp

lemma relations_match_iff:
  "semantic_type_relations_match e b ps \<longleftrightarrow> entry_base_type e = b \<and> entry_parameter_types e = ps"
  by (auto simp: semantic_type_relations_match_def qual_type_eq_iff [symmetric]
           list.rel_eq dest: list_all2_lengthD)

lemma invalid_qual_type_simps [simp]:
  "qt_type_id invalid_qual_type = 0" "qt_qualifiers invalid_qual_type = 0"
  by (simp_all add: invalid_qual_type_def)

lemma shapes_match_kind:
  "semantic_type_shapes_match s t \<Longrightarrow> shape_kind s = shape_kind t"
  by (simp add: semantic_type_shapes_match_def split: if_splits)

lemma own_names_simps [simp]:
  "shape_kind (semantic_type_shape_own_names s) = shape_kind s"
  "shape_array_len (semantic_type_shape_own_names s) = shape_array_len s"
  "shape_integer_kind (semantic_type_shape_own_names s) = shape_integer_kind s"
  "shape_floating_kind (semantic_type_shape_own_names s) = shape_floating_kind s"
  "shape_record_id (semantic_type_shape_own_names s) = shape_record_id s"
  "shape_enum_decl_id (semantic_type_shape_own_names s) = shape_enum_decl_id s"
  "shape_parameter_count (semantic_type_shape_own_names s) = shape_parameter_count s"
  "shape_is_unsigned (semantic_type_shape_own_names s) = shape_is_unsigned s"
  "shape_is_plain_char (semantic_type_shape_own_names s) = shape_is_plain_char s"
  "shape_is_vla (semantic_type_shape_own_names s) = shape_is_vla s"
  "shape_has_function_prototype (semantic_type_shape_own_names s) = shape_has_function_prototype s"
  "shape_is_variadic_function (semantic_type_shape_own_names s) = shape_is_variadic_function s"
  by (simp_all add: semantic_type_shape_own_names_def)

lemma conversion_own_names [simp]:
  "psx_integer_conversion_from_shape (Some (semantic_type_shape_own_names s)) =
   psx_integer_conversion_from_shape (Some s)"
  unfolding psx_integer_conversion_from_shape.simps own_names_simps by (rule refl)

lemma shapes_match_own_names [simp]:
  "semantic_type_shapes_match (semantic_type_shape_own_names s) t = semantic_type_shapes_match s t"
  "semantic_type_shapes_match t (semantic_type_shape_own_names s) = semantic_type_shapes_match t s"
  unfolding semantic_type_shapes_match_def own_names_simps conversion_own_names by (rule refl)+

definition shape_rank :: "psx_type_shape_t \<Rightarrow> int" where
  "shape_rank s = conv_rank (psx_integer_conversion_from_shape (Some s))"

text \<open>Matching, one kind at a time.\<close>

lemma shapes_match_by_kind:
  "shape_kind s = PSX_TYPE_VOID \<Longrightarrow>
     semantic_type_shapes_match s t \<longleftrightarrow> shape_kind t = PSX_TYPE_VOID"
  "shape_kind s = PSX_TYPE_INVALID \<Longrightarrow>
     semantic_type_shapes_match s t \<longleftrightarrow> shape_kind t = PSX_TYPE_INVALID"
  "shape_kind s = PSX_TYPE_POINTER \<Longrightarrow>
     semantic_type_shapes_match s t \<longleftrightarrow> shape_kind t = PSX_TYPE_POINTER"
  "shape_kind s = PSX_TYPE_BOOL \<Longrightarrow>
     semantic_type_shapes_match s t \<longleftrightarrow>
       shape_kind t = PSX_TYPE_BOOL \<and> shape_is_unsigned s = shape_is_unsigned t"
  "shape_kind s = PSX_TYPE_FLOAT \<Longrightarrow>
     semantic_type_shapes_match s t \<longleftrightarrow>
       shape_kind t = PSX_TYPE_FLOAT \<and> shape_floating_kind s = shape_floating_kind t"
  "shape_kind s = PSX_TYPE_COMPLEX \<Longrightarrow>
     semantic_type_shapes_match s t \<longleftrightarrow>
       shape_kind t = PSX_TYPE_COMPLEX \<and> shape_floating_kind s = shape_floating_kind t"
  "shape_kind s = PSX_TYPE_ARRAY \<Longrightarrow>
     semantic_type_shapes_match s t \<longleftrightarrow>
       shape_kind t = PSX_TYPE_ARRAY \<and> shape_array_len s = shape_array_len t \<and>
       shape_is_vla s = shape_is_vla t"
  "shape_kind s = PSX_TYPE_STRUCT \<Longrightarrow>
     semantic_type_shapes_match s t \<longleftrightarrow>
       shape_kind t = PSX_TYPE_STRUCT \<and> shape_record_id s \<noteq> 0 \<and>
       shape_record_id s = shape_record_id t"
  "shape_kind s = PSX_TYPE_UNION \<Longrightarrow>
     semantic_type_shapes_match s t \<longleftrightarrow>
       shape_kind t = PSX_TYPE_UNION \<and> shape_record_id s \<noteq> 0 \<and>
       shape_record_id s = shape_record_id t"
  "shape_kind s = PSX_TYPE_FUNCTION \<Longrightarrow>
     semantic_type_shapes_match s t \<longleftrightarrow>
       shape_kind t = PSX_TYPE_FUNCTION \<and> shape_parameter_count s = shape_parameter_count t \<and>
       shape_has_function_prototype s = shape_has_function_prototype t \<and>
       shape_is_variadic_function s = shape_is_variadic_function t"
  by (auto simp: semantic_type_shapes_match_def)

lemma shapes_match_integer:
  "shape_kind s = PSX_TYPE_INTEGER \<Longrightarrow> shape_integer_kind s = PSX_INTEGER_KIND_ENUM \<Longrightarrow>
     semantic_type_shapes_match s t \<longleftrightarrow>
       shape_kind t = PSX_TYPE_INTEGER \<and> shape_integer_kind t = PSX_INTEGER_KIND_ENUM \<and>
       shape_enum_decl_id s \<noteq> 0 \<and> shape_enum_decl_id s = shape_enum_decl_id t"
  "shape_kind s = PSX_TYPE_INTEGER \<Longrightarrow> shape_integer_kind s \<noteq> PSX_INTEGER_KIND_ENUM \<Longrightarrow>
     semantic_type_shapes_match s t \<longleftrightarrow>
       shape_kind t = PSX_TYPE_INTEGER \<and> shape_integer_kind t \<noteq> PSX_INTEGER_KIND_ENUM \<and>
       shape_is_unsigned s = shape_is_unsigned t \<and>
       shape_is_plain_char s = shape_is_plain_char t \<and> shape_rank s = shape_rank t"
  by (auto simp: semantic_type_shapes_match_def shape_rank_def
           simp del: psx_integer_conversion_from_shape.simps)

lemmas shapes_match_simps = shapes_match_by_kind shapes_match_integer

lemma shapes_match_sym:
  assumes "semantic_type_shapes_match s t"
  shows "semantic_type_shapes_match t s"
proof -
  have "shape_kind t = shape_kind s"
    using assms by (simp add: shapes_match_kind)
  then show ?thesis
    using assms by (cases "shape_kind s"; cases "shape_integer_kind s = PSX_INTEGER_KIND_ENUM")
      (simp_all add: shapes_match_simps)
qed

lemma shapes_match_trans:
  assumes "semantic_type_shapes_match s t" "semantic_type_shapes_match t u"
  shows "semantic_type_shapes_match s u"
proof -
  have "shape_kind t = shape_kind s" "shape_kind u = shape_kind s"
    using assms by (simp_all add: shapes_match_kind)
  then show ?thesis
    using assms by (cases "shape_kind s"; cases "shape_integer_kind s = PSX_INTEGER_KIND_ENUM")
      (simp_all add: shapes_match_simps)
qed

lemma entries_same_sym: "entries_same e f \<longleftrightarrow> entries_same f e"
  by (auto simp: entries_same_def intro: shapes_match_sym)

section \<open>The invariant of the table\<close>

text \<open>
  Entry \<open>i\<close> of the list has id \<open>Suc i\<close>: its base and parameters are older types. Only types that
  need a base have one, and only functions have parameters.
\<close>

definition integer_shape_ok :: "psx_type_shape_t \<Rightarrow> bool" where
  "integer_shape_ok s \<longleftrightarrow>
     (shape_kind s = PSX_TYPE_INTEGER \<longrightarrow>
        shape_integer_kind s \<notin> {PSX_INTEGER_KIND_NONE, PSX_INTEGER_KIND_BOOL} \<and>
        (shape_is_plain_char s \<longrightarrow> shape_integer_kind s = PSX_INTEGER_KIND_CHAR))"

definition entry_shape_ok :: "psx_semantic_type_entry_t \<Rightarrow> bool" where
  "entry_shape_ok e \<longleftrightarrow>
     shape_kind (entry_shape e) \<noteq> PSX_TYPE_INVALID \<and> integer_shape_ok (entry_shape e) \<and>
     shape_parameter_count (entry_shape e) = int (length (entry_parameter_types e)) \<and>
     (shape_kind (entry_shape e) \<noteq> PSX_TYPE_FUNCTION \<longrightarrow> entry_parameter_types e = []) \<and>
     0 \<le> shape_array_len (entry_shape e) \<and>
     (\<not> shape_requires_base (shape_kind (entry_shape e)) \<longrightarrow> entry_base_type e = invalid_qual_type)"

definition entry_links_ok :: "psx_semantic_type_table_t \<Rightarrow> nat \<Rightarrow> psx_semantic_type_entry_t \<Rightarrow> bool" where
  "entry_links_ok table i e \<longleftrightarrow>
     (shape_requires_base (shape_kind (entry_shape e)) \<longrightarrow>
        1 \<le> qt_type_id (entry_base_type e) \<and> qt_type_id (entry_base_type e) \<le> i) \<and>
     (\<forall>p \<in> set (entry_parameter_types e). 1 \<le> qt_type_id p \<and> qt_type_id p \<le> i) \<and>
     (shape_kind (entry_shape e) = PSX_TYPE_FUNCTION \<longrightarrow>
        shape_kind (entry_shape (tt_entry table (qt_type_id (entry_base_type e)))) \<notin>
          {PSX_TYPE_ARRAY, PSX_TYPE_FUNCTION})"

definition type_table_ok :: "psx_semantic_type_table_t \<Rightarrow> bool" where
  "type_table_ok table \<longleftrightarrow>
     (\<forall>i < tt_next_id table. entry_shape_ok (tt_entry table (Suc i)) \<and>
                             entry_links_ok table i (tt_entry table (Suc i))) \<and>
     (\<forall>i < tt_next_id table. \<forall>j < tt_next_id table.
        entries_same (tt_entry table (Suc i)) (tt_entry table (Suc j)) \<longrightarrow> i = j) \<and>
     int (tt_next_id table) \<le> UINT_MAX"

text \<open>A later table of the same translation unit: the older entries are kept, with their ids.\<close>

definition table_extends :: "psx_semantic_type_table_t \<Rightarrow> psx_semantic_type_table_t \<Rightarrow> bool" where
  "table_extends table later \<longleftrightarrow> (\<exists>more. tt_entries later = tt_entries table @ more)"

lemma table_extends_refl [simp]: "table_extends t t"
  by (simp add: table_extends_def)

lemma table_extends_trans: "table_extends t u \<Longrightarrow> table_extends u v \<Longrightarrow> table_extends t v"
  by (auto simp: table_extends_def)

lemma table_extends_entry:
  assumes "table_extends t u" "1 \<le> i" "i \<le> tt_next_id t"
  shows "tt_entry u i = tt_entry t i" "i \<le> tt_next_id u"
  using assms by (auto simp: table_extends_def tt_entry_def tt_next_id_def nth_append)

lemma table_extends_valid:
  assumes "table_extends t u" "semantic_type_id_is_valid t i"
  shows "semantic_type_id_is_valid u i" "tt_entry u i = tt_entry t i"
  using assms table_extends_entry [OF assms(1), of i]
  by (auto simp: semantic_type_id_is_valid_def)

lemma ok_entry:
  assumes "type_table_ok t" "1 \<le> i" "i \<le> tt_next_id t"
  shows "entry_shape_ok (tt_entry t i)" "entry_links_ok t (i - 1) (tt_entry t i)"
proof -
  have i: "i = Suc (i - 1)" "i - 1 < tt_next_id t"
    using assms(2,3) by simp_all
  have "entry_shape_ok (tt_entry t (Suc (i - 1))) \<and> entry_links_ok t (i - 1) (tt_entry t (Suc (i - 1)))"
    using assms(1) i(2) unfolding type_table_ok_def by blast
  then show "entry_shape_ok (tt_entry t i)" "entry_links_ok t (i - 1) (tt_entry t i)"
    using i(1) by simp_all
qed

lemma ok_valid_iff:
  assumes "type_table_ok t"
  shows "semantic_type_id_is_valid t i \<longleftrightarrow> 1 \<le> i \<and> i \<le> tt_next_id t"
  using ok_entry(1) [OF assms, of i]
  by (auto simp: semantic_type_id_is_valid_def entry_shape_ok_def)

lemma ok_unique:
  assumes "type_table_ok t" "semantic_type_id_is_valid t i" "semantic_type_id_is_valid t j"
    and "entries_same (tt_entry t i) (tt_entry t j)"
  shows "i = j"
proof -
  have "1 \<le> i" "i \<le> tt_next_id t" "1 \<le> j" "j \<le> tt_next_id t"
    using assms by (simp_all add: ok_valid_iff)
  then have "i - 1 < tt_next_id t" "j - 1 < tt_next_id t" "Suc (i - 1) = i" "Suc (j - 1) = j"
    by simp_all
  then have "i - 1 = j - 1"
    using assms(1,4) unfolding type_table_ok_def by metis
  then show ?thesis
    using \<open>1 \<le> i\<close> \<open>1 \<le> j\<close> by simp
qed

lemma ok_base:
  assumes "type_table_ok t" "semantic_type_id_is_valid t i"
    and "shape_requires_base (shape_kind (entry_shape (tt_entry t i)))"
  shows "semantic_type_id_is_valid t (qt_type_id (entry_base_type (tt_entry t i)))"
    and "qt_type_id (entry_base_type (tt_entry t i)) < i"
  using assms ok_entry(2) [OF assms(1), of i]
  by (auto simp: ok_valid_iff entry_links_ok_def)

lemma ok_no_base:
  assumes "type_table_ok t" "semantic_type_id_is_valid t i"
    and "\<not> shape_requires_base (shape_kind (entry_shape (tt_entry t i)))"
  shows "entry_base_type (tt_entry t i) = invalid_qual_type"
  using assms ok_entry(1) [OF assms(1), of i] by (simp add: ok_valid_iff entry_shape_ok_def)

lemma ok_parameter:
  assumes "type_table_ok t" "semantic_type_id_is_valid t i"
    and "p \<in> set (entry_parameter_types (tt_entry t i))"
  shows "semantic_type_id_is_valid t (qt_type_id p)" "qt_type_id p < i"
  using assms ok_entry(2) [OF assms(1), of i]
  by (auto simp: ok_valid_iff entry_links_ok_def)

section \<open>Searching the table\<close>

lemma shape_id_Some:
  assumes "semantic_type_shape_id t s b ps = i" "i \<noteq> 0"
  shows "semantic_type_id_is_valid t i \<and> semantic_type_shapes_match (entry_shape (tt_entry t i)) s \<and>
         entry_base_type (tt_entry t i) = b \<and> entry_parameter_types (tt_entry t i) = ps"
  using assms
  by (auto simp: semantic_type_shape_id_def relations_match_iff find_Some_iff
           simp del: upt_Suc split: option.splits)

lemma shape_id_none:
  assumes "semantic_type_shape_id t s b ps = 0" "semantic_type_id_is_valid t i"
    and "entry_base_type (tt_entry t i) = b" "entry_parameter_types (tt_entry t i) = ps"
  shows "\<not> semantic_type_shapes_match (entry_shape (tt_entry t i)) s"
proof
  assume match: "semantic_type_shapes_match (entry_shape (tt_entry t i)) s"
  have i: "i \<in> set [1..<Suc (tt_next_id t)]"
    using assms(2) by (auto simp: semantic_type_id_is_valid_def)
  have "find (\<lambda>i. semantic_type_id_is_valid t i \<and>
                  semantic_type_shapes_match (entry_shape (tt_entry t i)) s \<and>
                  semantic_type_relations_match (tt_entry t i) b ps) [1..<Suc (tt_next_id t)] \<noteq> None"
    using assms(2-4) match i by (auto simp: find_None_iff relations_match_iff simp del: upt_Suc)
  then obtain k where k: "find (\<lambda>i. semantic_type_id_is_valid t i \<and>
                  semantic_type_shapes_match (entry_shape (tt_entry t i)) s \<and>
                  semantic_type_relations_match (tt_entry t i) b ps) [1..<Suc (tt_next_id t)] = Some k"
    by auto
  then have "semantic_type_id_is_valid t k"
    by (auto simp: find_Some_iff simp del: upt_Suc)
  then have "k \<noteq> 0"
    by (simp add: semantic_type_id_is_valid_def)
  with k assms(1) show False
    by (simp add: semantic_type_shape_id_def del: upt_Suc)
qed

text \<open>In a table that satisfies the invariant the search finds the one entry that matches.\<close>

lemma shape_id_unique:
  assumes "type_table_ok t" "semantic_type_id_is_valid t i"
    and "entry_base_type (tt_entry t i) = b" "entry_parameter_types (tt_entry t i) = ps"
    and "semantic_type_shapes_match (entry_shape (tt_entry t i)) s"
  shows "semantic_type_shape_id t s b ps = i"
proof -
  define k where "k = semantic_type_shape_id t s b ps"
  have "k \<noteq> 0"
    using shape_id_none [OF _ assms(2,3,4)] assms(5) by (auto simp: k_def)
  note k = shape_id_Some [OF k_def [symmetric] this]
  have "semantic_type_shapes_match (entry_shape (tt_entry t k)) (entry_shape (tt_entry t i))"
    using k assms(5) shapes_match_sym shapes_match_trans by blast
  then have "k = i"
    using ok_unique [OF assms(1), of k i] assms(2-4) k by (simp add: entries_same_def)
  then show ?thesis
    by (simp add: k_def)
qed

section \<open>Interning keeps the invariant\<close>

definition request_sound ::
  "psx_semantic_type_table_t \<Rightarrow> psx_type_shape_t \<Rightarrow> psx_qual_type_t \<Rightarrow> bool" where
  "request_sound t s b \<longleftrightarrow>
     shape_kind s \<noteq> PSX_TYPE_INVALID \<and> integer_shape_ok s \<and> 0 \<le> shape_array_len s \<and>
     (\<not> shape_requires_base (shape_kind s) \<longrightarrow> b = invalid_qual_type) \<and>
     (shape_kind s = PSX_TYPE_FUNCTION \<longrightarrow>
        shape_kind (entry_shape (tt_entry t (qt_type_id b))) \<notin> {PSX_TYPE_ARRAY, PSX_TYPE_FUNCTION})"

definition new_entry ::
  "psx_type_shape_t \<Rightarrow> psx_qual_type_t \<Rightarrow> psx_qual_type_t list \<Rightarrow> psx_semantic_type_entry_t" where
  "new_entry s b ps =
     \<lparr>entry_shape = semantic_type_shape_own_names s, entry_base_type = b,
      entry_parameter_types = ps\<rparr>"

lemma new_entry_simps [simp]:
  "entry_shape (new_entry s b ps) = semantic_type_shape_own_names s"
  "entry_base_type (new_entry s b ps) = b"
  "entry_parameter_types (new_entry s b ps) = ps"
  by (simp_all add: new_entry_def)

lemma intern_shape_cases:
  assumes "psx_semantic_type_table_intern_shape t s b ps = (q, t')"
  obtains (found) "semantic_type_shape_request_is_valid t s b ps"
      "semantic_type_shape_id t s b ps \<noteq> 0" "t' = t"
      "q = \<lparr>qt_type_id = semantic_type_shape_id t s b ps, qt_qualifiers = 0\<rparr>"
    | (refused) "q = invalid_qual_type" "t' = t"
    | (added) "semantic_type_shape_request_is_valid t s b ps"
      "semantic_type_shape_id t s b ps = 0" "int (tt_next_id t) \<noteq> UINT_MAX"
      "q = \<lparr>qt_type_id = Suc (tt_next_id t), qt_qualifiers = 0\<rparr>"
      "t' = t\<lparr>tt_entries := tt_entries t @ [new_entry s b ps]\<rparr>"
proof -
  note unfold = assms [unfolded psx_semantic_type_table_intern_shape_def Let_def
      psx_semantic_type_table_find_shape_def new_entry_def [symmetric]]
  show thesis
  proof (cases "semantic_type_shape_request_is_valid t s b ps")
    case False
    then show thesis
      using unfold by (intro refused) simp_all
  next
    case valid: True
    show thesis
    proof (cases "semantic_type_shape_id t s b ps = 0")
      case False
      then show thesis
        using unfold valid by (intro found) auto
    next
      case True
      then show thesis
        using unfold valid
        by (cases "int (tt_next_id t) = UINT_MAX") (auto intro: refused added)
    qed
  qed
qed

lemma added_entry [simp]:
  "tt_next_id (t\<lparr>tt_entries := tt_entries t @ [e]\<rparr>) = Suc (tt_next_id t)"
  "tt_entry (t\<lparr>tt_entries := tt_entries t @ [e]\<rparr>) (Suc (tt_next_id t)) = e"
  "1 \<le> i \<Longrightarrow> i \<le> tt_next_id t \<Longrightarrow>
     tt_entry (t\<lparr>tt_entries := tt_entries t @ [e]\<rparr>) i = tt_entry t i"
  by (auto simp: tt_next_id_def tt_entry_def nth_append)

lemma added_extends: "table_extends t (t\<lparr>tt_entries := tt_entries t @ [e]\<rparr>)"
  by (simp add: table_extends_def)

lemma links_ok_extends:
  assumes "table_extends t u" "entry_links_ok t i e" "i \<le> tt_next_id t"
  shows "entry_links_ok u i e"
  using assms table_extends_entry(1) [OF assms(1), of "qt_type_id (entry_base_type e)"]
  by (auto simp: entry_links_ok_def shape_requires_base_def)

lemma integer_shape_ok_own_names [simp]:
  "integer_shape_ok (semantic_type_shape_own_names s) = integer_shape_ok s"
  by (simp add: integer_shape_ok_def)

lemma integer_shape_ok_other [simp]: "shape_kind s \<noteq> PSX_TYPE_INTEGER \<Longrightarrow> integer_shape_ok s"
  by (simp add: integer_shape_ok_def)

lemma added_links:
  assumes "type_table_ok t" "semantic_type_shape_request_is_valid t s b ps" "request_sound t s b"
  shows "entry_shape_ok (new_entry s b ps)" "entry_links_ok t (tt_next_id t) (new_entry s b ps)"
  using assms
  by (auto simp: entry_shape_ok_def entry_links_ok_def request_sound_def ok_valid_iff list_all_iff
           semantic_type_shape_request_is_valid_def split: if_splits)

lemma added_unique:
  assumes "type_table_ok t" "semantic_type_shape_id t s b ps = 0" "1 \<le> i" "i \<le> tt_next_id t"
  shows "\<not> entries_same (tt_entry t i) (new_entry s b ps)"
proof -
  have "semantic_type_id_is_valid t i"
    using assms by (simp add: ok_valid_iff)
  then show ?thesis
    using shape_id_none [OF assms(2)] by (auto simp: entries_same_def)
qed

lemma intern_shape_keeps:
  assumes ok: "type_table_ok t" and sound: "request_sound t s b"
  shows "type_table_ok (snd (psx_semantic_type_table_intern_shape t s b ps))"
proof -
  obtain q t' where r: "psx_semantic_type_table_intern_shape t s b ps = (q, t')"
    by (cases "psx_semantic_type_table_intern_shape t s b ps")
  from r have "type_table_ok t'"
  proof (cases rule: intern_shape_cases)
    case added
    note new = added_links [OF ok added(1) sound]
    let ?u = "t\<lparr>tt_entries := tt_entries t @ [new_entry s b ps]\<rparr>"
    have old: "entry_shape_ok (tt_entry ?u (Suc i)) \<and> entry_links_ok ?u i (tt_entry ?u (Suc i))"
      if "i < tt_next_id t" for i
      using that ok_entry [OF ok, of "Suc i"]
      by (auto intro: links_ok_extends [OF added_extends])
    have unique: "i = j" if "i < Suc (tt_next_id t)" "j < Suc (tt_next_id t)"
      "entries_same (tt_entry ?u (Suc i)) (tt_entry ?u (Suc j))" for i j
    proof (cases "i < tt_next_id t"; cases "j < tt_next_id t")
      assume "i < tt_next_id t" "j < tt_next_id t"
      then show ?thesis
        using that(3) ok by (simp add: type_table_ok_def)
    next
      assume "i < tt_next_id t" "\<not> j < tt_next_id t"
      then show ?thesis
        using that added_unique [OF ok added(2), of "Suc i"] by (simp add: less_Suc_eq)
    next
      assume "\<not> i < tt_next_id t" "j < tt_next_id t"
      then show ?thesis
        using that added_unique [OF ok added(2), of "Suc j"]
        by (simp add: less_Suc_eq entries_same_sym)
    qed (use that in simp)
    have "int (Suc (tt_next_id t)) \<le> UINT_MAX"
      using ok added(3) by (simp add: type_table_ok_def)
    moreover have "entry_links_ok ?u (tt_next_id t) (new_entry s b ps)"
      by (rule links_ok_extends [OF added_extends new(2)]) simp
    ultimately show ?thesis
      using new(1) old unique unfolding added(5) type_table_ok_def by (auto simp: less_Suc_eq)
  qed (use ok in auto)
  then show ?thesis
    by (simp add: r)
qed

lemma intern_shape_extends:
  "table_extends t (snd (psx_semantic_type_table_intern_shape t s b ps))"
proof -
  obtain q t' where r: "psx_semantic_type_table_intern_shape t s b ps = (q, t')"
    by (cases "psx_semantic_type_table_intern_shape t s b ps")
  then show ?thesis
    by (cases rule: intern_shape_cases) (simp_all add: r added_extends)
qed

lemma intern_shape_result:
  assumes ok: "type_table_ok t" and sound: "request_sound t s b"
    and r: "psx_semantic_type_table_intern_shape t s b ps = (q, u)" and id: "qt_type_id q \<noteq> 0"
  shows "semantic_type_id_is_valid u (qt_type_id q)" "qt_qualifiers q = 0"
    "entry_base_type (tt_entry u (qt_type_id q)) = b"
    "entry_parameter_types (tt_entry u (qt_type_id q)) = ps"
    "shape_kind (entry_shape (tt_entry u (qt_type_id q))) = shape_kind s"
    "semantic_type_shapes_match s s \<Longrightarrow>
       semantic_type_shapes_match (entry_shape (tt_entry u (qt_type_id q))) s"
proof -
  have kind: "shape_kind s \<noteq> PSX_TYPE_INVALID"
    using sound by (simp add: request_sound_def)
  from r have "semantic_type_id_is_valid u (qt_type_id q) \<and> qt_qualifiers q = 0 \<and>
    entry_base_type (tt_entry u (qt_type_id q)) = b \<and>
    entry_parameter_types (tt_entry u (qt_type_id q)) = ps \<and>
    shape_kind (entry_shape (tt_entry u (qt_type_id q))) = shape_kind s \<and>
    (semantic_type_shapes_match s s \<longrightarrow>
       semantic_type_shapes_match (entry_shape (tt_entry u (qt_type_id q))) s)"
  proof (cases rule: intern_shape_cases)
    case found
    then show ?thesis
      using shape_id_Some [OF refl found(2)] shapes_match_kind by auto
  next
    case refused
    then show ?thesis
      using id by simp
  next
    case added
    then show ?thesis
      using kind by (simp add: semantic_type_id_is_valid_def)
  qed
  then show "semantic_type_id_is_valid u (qt_type_id q)" "qt_qualifiers q = 0"
    "entry_base_type (tt_entry u (qt_type_id q)) = b"
    "entry_parameter_types (tt_entry u (qt_type_id q)) = ps"
    "shape_kind (entry_shape (tt_entry u (qt_type_id q))) = shape_kind s"
    "semantic_type_shapes_match s s \<Longrightarrow>
       semantic_type_shapes_match (entry_shape (tt_entry u (qt_type_id q))) s"
    by simp_all
qed

text \<open>A request that was granted once is granted in every later table with the same id.\<close>

lemma request_valid_extends:
  assumes "table_extends t u" "semantic_type_shape_request_is_valid t s b ps"
    and "shape_requires_base (shape_kind s) \<or> b = invalid_qual_type"
  shows "semantic_type_shape_request_is_valid u s b ps"
proof -
  have none: "\<not> semantic_type_id_is_valid v 0" for v
    by (simp add: semantic_type_id_is_valid_def)
  show ?thesis
    using assms none
    by (auto simp: semantic_type_shape_request_is_valid_def list_all_iff
             dest: table_extends_valid(1) [OF assms(1)] split: if_splits)
qed

lemma intern_shape_again:
  assumes ok: "type_table_ok t" and sound: "request_sound t s b"
    and r: "psx_semantic_type_table_intern_shape t s b ps = (q, u)" and id: "qt_type_id q \<noteq> 0"
    and self: "semantic_type_shapes_match s s"
    and later: "table_extends u v" "type_table_ok v"
  shows "psx_semantic_type_table_intern_shape v s b ps = (q, v)"
proof -
  note q = intern_shape_result [OF ok sound r id]
  have "table_extends t u"
    using intern_shape_extends [of t s b ps] by (simp add: r)
  then have ext: "table_extends t v"
    using later(1) table_extends_trans by blast
  have request: "semantic_type_shape_request_is_valid t s b ps"
    using r id by (cases rule: intern_shape_cases) simp_all
  have valid: "semantic_type_shape_request_is_valid v s b ps"
    using request_valid_extends [OF ext request] sound by (auto simp: request_sound_def)
  have "semantic_type_shape_id v s b ps = qt_type_id q"
    using q later(2) self table_extends_valid [OF later(1) q(1)]
    by (intro shape_id_unique) simp_all
  then show ?thesis
    using valid id q(2)
    by (simp add: psx_semantic_type_table_intern_shape_def Let_def
        psx_semantic_type_table_find_shape_def qual_type_eq_iff)
qed

section \<open>The contract of the interning operations\<close>

text \<open>
  Every operation that interns a type keeps the invariant and the older types, and a type it
  returns is in the table. Where it is also stable, it returns the same type in every later table
  and adds nothing to it.
\<close>

locale interning =
  fixes intern :: "psx_semantic_type_table_t \<Rightarrow> psx_qual_type_t \<times> psx_semantic_type_table_t"
  assumes keeps: "type_table_ok t \<Longrightarrow> type_table_ok (snd (intern t))"
    and extends: "type_table_ok t \<Longrightarrow> table_extends t (snd (intern t))"
    and result: "type_table_ok t \<Longrightarrow> intern t = (q, u) \<Longrightarrow> qt_type_id q \<noteq> 0 \<Longrightarrow>
      semantic_type_id_is_valid u (qt_type_id q) \<and> qt_qualifiers q = 0"
begin

lemma older_types:
  assumes "type_table_ok t" "semantic_type_id_is_valid t i"
  shows "semantic_type_id_is_valid (snd (intern t)) i"
    and "tt_entry (snd (intern t)) i = tt_entry t i"
  using table_extends_valid [OF extends [OF assms(1)] assms(2)] by simp_all

lemma older_described:
  assumes "type_table_ok t" "psx_semantic_type_table_describe t i = Some s"
  shows "psx_semantic_type_table_describe (snd (intern t)) i = Some s"
  using assms older_types [OF assms(1), of i]
  by (simp add: psx_semantic_type_table_describe_def split: if_splits)

end

locale stable_interning = interning +
  assumes again: "type_table_ok t \<Longrightarrow> intern t = (q, u) \<Longrightarrow> qt_type_id q \<noteq> 0 \<Longrightarrow>
    table_extends u v \<Longrightarrow> type_table_ok v \<Longrightarrow> intern v = (q, v)"
begin

lemma idempotent:
  assumes "type_table_ok t" "intern t = (q, u)" "qt_type_id q \<noteq> 0"
  shows "intern u = (q, u)"
  using again [OF assms table_extends_refl] keeps [OF assms(1)] assms(2) by simp

end

lemma interning_shape:
  assumes "\<And>t. type_table_ok t \<Longrightarrow> f t \<noteq> (invalid_qual_type, t) \<Longrightarrow>
      request_sound t (s t) b \<and> f t = psx_semantic_type_table_intern_shape t (s t) b ps"
  shows "interning f"
proof
  fix t :: psx_semantic_type_table_t and q u
  assume ok: "type_table_ok t"
  note step = assms [OF ok]
  show "type_table_ok (snd (f t))"
    using step intern_shape_keeps [OF ok] ok by (cases "f t = (invalid_qual_type, t)") auto
  show "table_extends t (snd (f t))"
    using step intern_shape_extends by (cases "f t = (invalid_qual_type, t)") auto
  show "semantic_type_id_is_valid u (qt_type_id q) \<and> qt_qualifiers q = 0"
    if "f t = (q, u)" "qt_type_id q \<noteq> 0"
  proof -
    have "f t \<noteq> (invalid_qual_type, t)"
      using that by auto
    then show ?thesis
      using step that intern_shape_result(1,2) [OF ok, of "s t" b ps q u] by auto
  qed
qed

lemma stable_interning_shape:
  assumes "\<And>t. type_table_ok t \<Longrightarrow> f t \<noteq> (invalid_qual_type, t) \<Longrightarrow>
      request_sound t s b \<and> f t = psx_semantic_type_table_intern_shape t s b ps"
    and again: "\<And>t u. type_table_ok t \<Longrightarrow> f t \<noteq> (invalid_qual_type, t) \<Longrightarrow> table_extends t u \<Longrightarrow>
      f u = psx_semantic_type_table_intern_shape u s b ps"
    and self: "semantic_type_shapes_match s s \<or> (\<forall>t. f t = (invalid_qual_type, t))"
  shows "stable_interning f"
proof -
  have step: "interning f"
    by (rule interning_shape [of f "\<lambda>t. s" b ps]) (rule assms(1))
  show ?thesis
  proof (intro stable_interning.intro step stable_interning_axioms.intro)
    fix t u v :: psx_semantic_type_table_t and q
    assume ok: "type_table_ok t" and r: "f t = (q, u)" "qt_type_id q \<noteq> 0"
      and later: "table_extends u v" "type_table_ok v"
    have changed: "f t \<noteq> (invalid_qual_type, t)"
      using r by auto
    then have shape: "request_sound t s b" "psx_semantic_type_table_intern_shape t s b ps = (q, u)"
      using assms(1) [OF ok] r(1) by simp_all
    have "semantic_type_shapes_match s s"
      using self changed by auto
    note same = intern_shape_again [OF ok shape r(2) this later]
    have "table_extends t v"
      using interning.extends [OF step ok] r(1) later(1) table_extends_trans by fastforce
    then show "f v = (q, v)"
      using again [OF ok changed] same by simp
  qed
qed

text \<open>Two steps, the second on the type the first returns.\<close>

lemma stable_interning_then:
  assumes g: "stable_interning g" and h: "\<And>b. stable_interning (h b)"
  shows "stable_interning (\<lambda>t. let (b, t1) = g t
           in if qt_type_id b = PSX_TYPE_ID_INVALID then (invalid_qual_type, t1) else h b t1)"
    (is "stable_interning ?f")
proof (intro stable_interning.intro interning.intro stable_interning_axioms.intro)
  note g1 = stable_interning.axioms(1) [OF g] and h1 = stable_interning.axioms(1) [OF h]
  fix t u :: psx_semantic_type_table_t and q
  assume ok: "type_table_ok t"
  obtain b t1 where step: "g t = (b, t1)"
    by (cases "g t")
  have t1: "type_table_ok t1" "table_extends t t1"
    using interning.keeps [OF g1 ok] interning.extends [OF g1 ok] by (simp_all add: step)
  show "type_table_ok (snd (?f t))"
    using t1 interning.keeps [OF h1 t1(1)] by (simp add: step)
  show "table_extends t (snd (?f t))"
    using t1 interning.extends [OF h1 t1(1), of b] table_extends_trans by (auto simp: step)
  assume r: "?f t = (q, u)" "qt_type_id q \<noteq> 0"
  then have b: "qt_type_id b \<noteq> 0" "h b t1 = (q, u)"
    by (auto simp: step split: if_splits)
  show "semantic_type_id_is_valid u (qt_type_id q) \<and> qt_qualifiers q = 0"
    by (rule interning.result [OF h1 t1(1) b(2) r(2)])
  fix v
  assume later: "table_extends u v" "type_table_ok v"
  have "table_extends t1 v"
    using interning.extends [OF h1 t1(1), of b] b(2) later(1) table_extends_trans by fastforce
  then have "g v = (b, v)"
    by (rule stable_interning.again [OF g ok step b(1) _ later(2)])
  moreover have "h b v = (q, v)"
    by (rule stable_interning.again [OF h t1(1) b(2) r(2) later])
  ultimately show "?f v = (q, v)"
    using b(1) by simp
qed

lemma stable_interning_none: "stable_interning (\<lambda>t. (invalid_qual_type, t))"
  by unfold_locales auto

lemma request_sound_simple:
  assumes "shape_kind s \<noteq> PSX_TYPE_INVALID" "shape_kind s \<noteq> PSX_TYPE_FUNCTION"
    and "0 \<le> shape_array_len s" "shape_requires_base (shape_kind s) \<or> b = invalid_qual_type"
    and "integer_shape_ok s"
  shows "request_sound t s b"
  using assms by (auto simp: request_sound_def)

lemma stable_interning_simple:
  assumes "shape_kind s \<noteq> PSX_TYPE_INVALID" "shape_kind s \<noteq> PSX_TYPE_FUNCTION"
    and "0 \<le> shape_array_len s" "shape_requires_base (shape_kind s) \<or> b = invalid_qual_type"
    and "integer_shape_ok s"
    and "semantic_type_shapes_match s s"
  shows "stable_interning (\<lambda>t. psx_semantic_type_table_intern_shape t s b [])"
  by (rule stable_interning_shape [where s = s and b = b and ps = "[]"])
    (use assms request_sound_simple in auto)

section \<open>The operations meet the contract\<close>

lemma zero_shape_simps [simp]:
  "shape_kind zero_shape = PSX_TYPE_INVALID" "shape_array_len zero_shape = 0"
  "shape_parameter_count zero_shape = 0" "shape_integer_kind zero_shape = PSX_INTEGER_KIND_NONE"
  by (simp_all add: zero_shape_def)

lemma integer_shape_simps [simp]:
  "shape_kind (integer_shape k u c) =
     (if k = PSX_INTEGER_KIND_BOOL then PSX_TYPE_BOOL else PSX_TYPE_INTEGER)"
  "shape_integer_kind (integer_shape k u c) = k"
  "shape_is_unsigned (integer_shape k u c) = u"
  "shape_is_plain_char (integer_shape k u c) = (k = PSX_INTEGER_KIND_CHAR \<and> c)"
  "shape_array_len (integer_shape k u c) = 0"
  "shape_parameter_count (integer_shape k u c) = 0"
  by (simp_all add: integer_shape_def)

lemma floating_shape_simps [simp]:
  "shape_kind (floating_shape f c) = (if c then PSX_TYPE_COMPLEX else PSX_TYPE_FLOAT)"
  "shape_floating_kind (floating_shape f c) = f"
  "shape_array_len (floating_shape f c) = 0"
  "shape_parameter_count (floating_shape f c) = 0"
  by (simp_all add: floating_shape_def)

lemma integer_shape_self:
  "k \<noteq> PSX_INTEGER_KIND_ENUM \<Longrightarrow>
     semantic_type_shapes_match (integer_shape k u c) (integer_shape k u c)"
  by (cases "k = PSX_INTEGER_KIND_BOOL") (simp_all add: shapes_match_simps)

lemma integer_shape_ok_integer_shape:
  "\<not> (k \<le> PSX_INTEGER_KIND_NONE \<or> k \<ge> PSX_INTEGER_KIND_ENUM) \<Longrightarrow>
     integer_shape_ok (integer_shape k u c)"
  by (auto simp: integer_shape_ok_def)

lemma floating_shape_self: "semantic_type_shapes_match (floating_shape k c) (floating_shape k c)"
  by (cases c) (simp_all add: shapes_match_simps)

lemma intern_shape_full:
  assumes "semantic_type_shape_request_is_valid t s b ps"
    and "psx_semantic_type_table_intern_shape t s b ps = (q, u)" "qt_type_id q = 0"
  shows "int (tt_next_id u) = UINT_MAX"
  using assms
  by (auto simp: psx_semantic_type_table_intern_shape_def psx_semantic_type_table_find_shape_def
      Let_def split: if_splits)

interpretation void: stable_interning psx_semantic_type_table_intern_void
  unfolding psx_semantic_type_table_intern_void_def
  by (rule stable_interning_simple) (simp_all add: shapes_match_simps)

interpretation integer: stable_interning "\<lambda>t. psx_semantic_type_table_intern_integer t k u c"
  for k u c
proof (cases "k \<le> PSX_INTEGER_KIND_NONE \<or> k \<ge> PSX_INTEGER_KIND_ENUM")
  case True
  then show "stable_interning (\<lambda>t. psx_semantic_type_table_intern_integer t k u c)"
    by (auto simp: psx_semantic_type_table_intern_integer_def intro: stable_interning_none)
next
  case False
  then have "k \<noteq> PSX_INTEGER_KIND_ENUM"
    by auto
  then have "stable_interning (\<lambda>t. psx_semantic_type_table_intern_shape t (integer_shape k u c)
      invalid_qual_type [])"
    using integer_shape_ok_integer_shape [OF False]
    by (intro stable_interning_simple) (simp_all add: integer_shape_self)
  with False show "stable_interning (\<lambda>t. psx_semantic_type_table_intern_integer t k u c)"
    by (simp add: psx_semantic_type_table_intern_integer_def)
qed

interpretation floating: stable_interning "\<lambda>t. psx_semantic_type_table_intern_floating t k c"
  for k c
proof -
  have step: "stable_interning (\<lambda>t. psx_semantic_type_table_intern_shape t (floating_shape k d) b [])"
    if "d \<or> b = invalid_qual_type" for d b
    by (rule stable_interning_simple)
      (use that in \<open>auto simp: floating_shape_self shape_requires_base_def\<close>)
  show "stable_interning (\<lambda>t. psx_semantic_type_table_intern_floating t k c)"
    unfolding psx_semantic_type_table_intern_floating_def
    by (cases "k = PSX_FLOATING_KIND_NONE"; cases c)
      (simp_all only: if_True if_False step stable_interning_none
        stable_interning_then [OF step step] simp_thms)
qed

interpretation enum: stable_interning "\<lambda>t. psx_semantic_type_table_intern_enum t d n u" for d n u
proof (cases "d = 0")
  case True
  then show "stable_interning (\<lambda>t. psx_semantic_type_table_intern_enum t d n u)"
    by (simp add: psx_semantic_type_table_intern_enum_def stable_interning_none)
next
  case False
  then show "stable_interning (\<lambda>t. psx_semantic_type_table_intern_enum t d n u)"
    by (auto simp: psx_semantic_type_table_intern_enum_def shapes_match_simps integer_shape_ok_def
        zero_shape_def
        intro!: stable_interning_simple)
qed

interpretation pointer: stable_interning "\<lambda>t. psx_semantic_type_table_intern_pointer_to t p" for p
  unfolding psx_semantic_type_table_intern_pointer_to_def
  by (rule stable_interning_simple) (simp_all add: shapes_match_simps shape_requires_base_def)

interpretation array: stable_interning "\<lambda>t. psx_semantic_type_table_intern_array_of t p n v"
  for p n v
proof (cases "n < 0")
  case True
  then show "stable_interning (\<lambda>t. psx_semantic_type_table_intern_array_of t p n v)"
    by (simp add: psx_semantic_type_table_intern_array_of_def stable_interning_none)
next
  case False
  then show "stable_interning (\<lambda>t. psx_semantic_type_table_intern_array_of t p n v)"
    by (auto simp: psx_semantic_type_table_intern_array_of_def shapes_match_simps
        shape_requires_base_def intro!: stable_interning_simple)
qed

text \<open>Functions need a result type that is in the table, and is kept by every later one.\<close>

lemma describe_Some:
  "psx_semantic_type_table_describe t i = Some s \<longleftrightarrow>
     semantic_type_id_is_valid t i \<and> s = entry_shape (tt_entry t i)"
  by (auto simp: psx_semantic_type_table_describe_def)

definition function_shape :: "nat \<Rightarrow> bool \<Rightarrow> bool \<Rightarrow> psx_type_shape_t" where
  "function_shape n has_prototype is_variadic =
     zero_shape\<lparr>shape_kind := PSX_TYPE_FUNCTION, shape_parameter_count := int n,
                shape_has_function_prototype := has_prototype,
                shape_is_variadic_function := is_variadic\<rparr>"

lemma function_shape_simps [simp]:
  "shape_kind (function_shape n p v) = PSX_TYPE_FUNCTION"
  "shape_parameter_count (function_shape n p v) = int n"
  "shape_has_function_prototype (function_shape n p v) = p"
  "shape_is_variadic_function (function_shape n p v) = v"
  "shape_array_len (function_shape n p v) = 0"
  by (simp_all add: function_shape_def)

lemma intern_function_step:
  assumes "psx_semantic_type_table_intern_function t r ps p v \<noteq> (invalid_qual_type, t)"
  shows "semantic_type_id_is_valid t (qt_type_id r)"
    and "shape_kind (entry_shape (tt_entry t (qt_type_id r))) \<notin> {PSX_TYPE_ARRAY, PSX_TYPE_FUNCTION}"
    and "psx_semantic_type_table_intern_function t r ps p v =
           psx_semantic_type_table_intern_shape t (function_shape (length ps) p v) r ps"
  using assms
  by (auto simp: psx_semantic_type_table_intern_function_def function_shape_def describe_Some
           psx_semantic_type_table_describe_def split: option.splits if_splits)

interpretation func: stable_interning
  "\<lambda>t. psx_semantic_type_table_intern_function t r ps p v" for r ps p v
proof (rule stable_interning_shape [where s = "function_shape (length ps) p v" and b = r and ps = ps])
  fix t
  assume "psx_semantic_type_table_intern_function t r ps p v \<noteq> (invalid_qual_type, t)"
  note step = intern_function_step [OF this]
  then show "request_sound t (function_shape (length ps) p v) r \<and>
    psx_semantic_type_table_intern_function t r ps p v =
      psx_semantic_type_table_intern_shape t (function_shape (length ps) p v) r ps"
    by (simp add: request_sound_def shape_requires_base_def)
  fix u
  assume "table_extends t u"
  from table_extends_valid [OF this step(1)] step(2)
  show "psx_semantic_type_table_intern_function u r ps p v =
      psx_semantic_type_table_intern_shape u (function_shape (length ps) p v) r ps"
    by (simp add: psx_semantic_type_table_intern_function_def psx_semantic_type_table_describe_def
        function_shape_def)
qed (simp add: shapes_match_simps)

text \<open>What the derived types are made of.\<close>

lemma intern_pointer_result:
  assumes "type_table_ok t" "psx_semantic_type_table_intern_pointer_to t p = (q, u)" "qt_type_id q \<noteq> 0"
  shows "shape_kind (entry_shape (tt_entry u (qt_type_id q))) = PSX_TYPE_POINTER"
    and "entry_base_type (tt_entry u (qt_type_id q)) = p"
proof -
  have "request_sound t (zero_shape\<lparr>shape_kind := PSX_TYPE_POINTER\<rparr>) p"
    by (rule request_sound_simple) (simp_all add: shape_requires_base_def)
  from intern_shape_result [OF assms(1) this] assms(2,3)
  show "shape_kind (entry_shape (tt_entry u (qt_type_id q))) = PSX_TYPE_POINTER"
    "entry_base_type (tt_entry u (qt_type_id q)) = p"
    by (simp_all add: psx_semantic_type_table_intern_pointer_to_def)
qed

lemma intern_array_result:
  assumes "type_table_ok t" "psx_semantic_type_table_intern_array_of t p n v = (q, u)"
    and "qt_type_id q \<noteq> 0"
  shows "shape_kind (entry_shape (tt_entry u (qt_type_id q))) = PSX_TYPE_ARRAY"
    and "entry_base_type (tt_entry u (qt_type_id q)) = p"
    and "shape_array_len (entry_shape (tt_entry u (qt_type_id q))) = n"
    and "shape_is_vla (entry_shape (tt_entry u (qt_type_id q))) = v"
proof -
  let ?s = "zero_shape\<lparr>shape_kind := PSX_TYPE_ARRAY, shape_array_len := n, shape_is_vla := v\<rparr>"
  have n: "0 \<le> n" and r: "psx_semantic_type_table_intern_shape t ?s p [] = (q, u)"
    using assms(2,3) by (auto simp: psx_semantic_type_table_intern_array_of_def split: if_splits)
  have "request_sound t ?s p"
    using n by (intro request_sound_simple) (simp_all add: shape_requires_base_def)
  note q = intern_shape_result [OF assms(1) this r assms(3)]
  have kind: "shape_kind (entry_shape (tt_entry u (qt_type_id q))) = PSX_TYPE_ARRAY"
    using q(5) by simp
  moreover have "semantic_type_shapes_match (entry_shape (tt_entry u (qt_type_id q))) ?s"
    by (rule q(6)) (simp add: shapes_match_simps)
  ultimately show "shape_kind (entry_shape (tt_entry u (qt_type_id q))) = PSX_TYPE_ARRAY"
    "entry_base_type (tt_entry u (qt_type_id q)) = p"
    "shape_array_len (entry_shape (tt_entry u (qt_type_id q))) = n"
    "shape_is_vla (entry_shape (tt_entry u (qt_type_id q))) = v"
    using q(3) by (simp_all add: shapes_match_simps)
qed

lemma intern_function_result:
  assumes "type_table_ok t" "psx_semantic_type_table_intern_function t r ps h v = (q, u)"
    and "qt_type_id q \<noteq> 0"
  shows "shape_kind (entry_shape (tt_entry u (qt_type_id q))) = PSX_TYPE_FUNCTION"
    and "entry_base_type (tt_entry u (qt_type_id q)) = r"
    and "entry_parameter_types (tt_entry u (qt_type_id q)) = ps"
    and "shape_has_function_prototype (entry_shape (tt_entry u (qt_type_id q))) = h"
    and "shape_is_variadic_function (entry_shape (tt_entry u (qt_type_id q))) = v"
proof -
  have "psx_semantic_type_table_intern_function t r ps h v \<noteq> (invalid_qual_type, t)"
    using assms(2,3) by auto
  note step = intern_function_step [OF this]
  have "request_sound t (function_shape (length ps) h v) r"
    using step(2) by (simp add: request_sound_def shape_requires_base_def)
  note q = intern_shape_result [OF assms(1) this _ assms(3)]
  have r: "psx_semantic_type_table_intern_shape t (function_shape (length ps) h v) r ps = (q, u)"
    using step(3) assms(2) by simp
  have kind: "shape_kind (entry_shape (tt_entry u (qt_type_id q))) = PSX_TYPE_FUNCTION"
    using q(5) [OF r] by simp
  moreover have "semantic_type_shapes_match (entry_shape (tt_entry u (qt_type_id q)))
      (function_shape (length ps) h v)"
    by (rule q(6) [OF r]) (simp add: shapes_match_simps)
  ultimately show "shape_kind (entry_shape (tt_entry u (qt_type_id q))) = PSX_TYPE_FUNCTION"
    "entry_base_type (tt_entry u (qt_type_id q)) = r"
    "entry_parameter_types (tt_entry u (qt_type_id q)) = ps"
    "shape_has_function_prototype (entry_shape (tt_entry u (qt_type_id q))) = h"
    "shape_is_variadic_function (entry_shape (tt_entry u (qt_type_id q))) = v"
    using q(3,4) [OF r] by (simp_all add: shapes_match_simps)
qed

text \<open>A derived type is refused only by a full table.\<close>

lemma intern_pointer_full:
  assumes "psx_semantic_type_table_intern_pointer_to t p = (q, u)" "qt_type_id q = 0"
    and "semantic_type_id_is_valid t (qt_type_id p)"
  shows "int (tt_next_id u) = UINT_MAX"
  using assms
  by (intro intern_shape_full [of t "zero_shape\<lparr>shape_kind := PSX_TYPE_POINTER\<rparr>" p "[]"])
    (auto simp: psx_semantic_type_table_intern_pointer_to_def shape_requires_base_def
      semantic_type_shape_request_is_valid_def semantic_type_id_is_valid_def)

lemma intern_array_full:
  assumes "psx_semantic_type_table_intern_array_of t p n v = (q, u)" "qt_type_id q = 0"
    and "semantic_type_id_is_valid t (qt_type_id p)" "0 \<le> n"
  shows "int (tt_next_id u) = UINT_MAX"
  using assms
  by (intro intern_shape_full [of t "zero_shape\<lparr>shape_kind := PSX_TYPE_ARRAY,
      shape_array_len := n, shape_is_vla := v\<rparr>" p "[]"])
    (auto simp: psx_semantic_type_table_intern_array_of_def shape_requires_base_def
      semantic_type_shape_request_is_valid_def semantic_type_id_is_valid_def)

lemma intern_function_full:
  assumes "psx_semantic_type_table_intern_function t r ps h v = (q, u)" "qt_type_id q = 0"
    and "semantic_type_id_is_valid t (qt_type_id r)"
    and "shape_kind (entry_shape (tt_entry t (qt_type_id r))) \<notin> {PSX_TYPE_ARRAY, PSX_TYPE_FUNCTION}"
    and "\<forall>p \<in> set ps. semantic_type_id_is_valid t (qt_type_id p)"
  shows "int (tt_next_id u) = UINT_MAX"
proof -
  have "psx_semantic_type_table_intern_shape t (function_shape (length ps) h v) r ps = (q, u)"
    using assms(1,3,4)
    by (simp add: psx_semantic_type_table_intern_function_def function_shape_def
        psx_semantic_type_table_describe_def)
  moreover have "semantic_type_shape_request_is_valid t (function_shape (length ps) h v) r ps"
    using assms(3,5)
    by (auto simp: semantic_type_shape_request_is_valid_def shape_requires_base_def list_all_iff
        semantic_type_id_is_valid_def)
  ultimately show ?thesis
    using assms(2) intern_shape_full by blast
qed

text \<open>Records are looked up in a table that is not part of this one, so they keep the contract only.\<close>

interpretation tagged: interning "\<lambda>t. psx_semantic_type_table_intern_record store t r" for store r
proof -
  let ?decl = "\<lambda>t. the (psx_record_decl_table_lookup store (tt_record_decls t) r)"
  let ?shape = "\<lambda>t. zero_shape\<lparr>shape_kind := rd_record_kind (?decl t),
      shape_record_id := rd_record_id (?decl t), shape_record_tag_name := rd_tag_name (?decl t)\<rparr>"
  show "interning (\<lambda>t. psx_semantic_type_table_intern_record store t r)"
    by (rule interning_shape [where s = ?shape and b = invalid_qual_type and ps = "[]"])
      (auto simp: psx_semantic_type_table_intern_record_def request_sound_def
        shape_requires_base_def split: option.splits if_splits)
qed

text \<open>The steps of the seeding are all of these operations.\<close>

lemma run_seeds_keeps:
  assumes "\<forall>f \<in> set fs. interning f" "type_table_ok t"
  shows "type_table_ok (snd (run_seeds fs t)) \<and> table_extends t (snd (run_seeds fs t))"
  using assms
proof (induction fs arbitrary: t)
  case (Cons f fs)
  obtain q u where r: "f t = (q, u)"
    by (cases "f t")
  have f: "interning f"
    using Cons.prems(1) by simp
  have u: "type_table_ok u" "table_extends t u"
    using interning.keeps [OF f Cons.prems(2)] interning.extends [OF f Cons.prems(2)]
    by (simp_all add: r)
  show ?case
    using Cons.IH [OF _ u(1)] Cons.prems(1) u by (auto simp: r intro: table_extends_trans)
qed simp

text \<open>Each step of a seeding that went through finds its type in every later table.\<close>

lemma run_seeds_found:
  assumes "\<forall>f \<in> set fs. stable_interning f" "type_table_ok t" "run_seeds fs t = (True, u)"
    and "f \<in> set fs" "table_extends u v" "type_table_ok v"
  shows "\<exists>q. qt_type_id q \<noteq> 0 \<and> f v = (q, v)"
  using assms
proof (induction fs arbitrary: t)
  case (Cons g fs)
  obtain q t1 where r: "g t = (q, t1)"
    by (cases "g t")
  then have q: "qt_type_id q \<noteq> 0" "run_seeds fs t1 = (True, u)"
    using Cons.prems(3) by (auto split: if_splits)
  have g: "stable_interning g" and rest: "\<forall>f \<in> set fs. interning f"
    using Cons.prems(1) stable_interning.axioms(1) by auto
  have t1: "type_table_ok t1"
    using interning.keeps [OF stable_interning.axioms(1) [OF g] Cons.prems(2)] r by simp
  show ?case
  proof (cases "f = g")
    case True
    have "table_extends t1 v"
      using run_seeds_keeps [OF rest t1] q(2) Cons.prems(5) table_extends_trans by fastforce
    then show ?thesis
      using stable_interning.again [OF g Cons.prems(2) r q(1) _ Cons.prems(6)] q(1) True by auto
  next
    case False
    then show ?thesis
      using Cons.IH [OF _ t1 q(2) _ Cons.prems(5,6)] Cons.prems(1,4) by auto
  qed
qed simp

lemma empty_table_ok: "type_table_ok \<lparr>tt_record_decls = d, tt_entries = []\<rparr>"
  by (simp add: type_table_ok_def tt_next_id_def UINT_MAX_def)

definition seed_steps ::
  "(psx_semantic_type_table_t \<Rightarrow> psx_qual_type_t \<times> psx_semantic_type_table_t) list" where
  "seed_steps =
    [psx_semantic_type_table_intern_void] @
    concat (map (\<lambda>kind. map (\<lambda>is_unsigned table.
                  psx_semantic_type_table_intern_integer table kind is_unsigned False)
                (if kind = PSX_INTEGER_KIND_BOOL then [False] else [False, True]))
             seed_integer_kinds) @
    [\<lambda>table. psx_semantic_type_table_intern_integer table PSX_INTEGER_KIND_CHAR False True] @
    concat (map (\<lambda>kind. [\<lambda>table. psx_semantic_type_table_intern_floating table kind False,
                         \<lambda>table. psx_semantic_type_table_intern_floating table kind True])
             seed_floating_kinds)"

lemma seed_steps_stable: "\<forall>f \<in> set seed_steps. stable_interning f"
  by (auto simp: seed_steps_def void.stable_interning_axioms integer.stable_interning_axioms
      floating.stable_interning_axioms split: if_splits)

lemma seed_types_eq: "seed_fundamental_types t = run_seeds seed_steps t"
  by (simp add: seed_fundamental_types_def seed_steps_def)

section \<open>The tables the program builds\<close>

lemma seeding_succeeds:
  "fst (seed_fundamental_types \<lparr>tt_record_decls = d, tt_entries = []\<rparr>)"
  by code_simp

text \<open>Every fundamental type is found without adding to the table.\<close>

definition seeded :: "psx_semantic_type_table_t \<Rightarrow> bool" where
  "seeded t \<longleftrightarrow> (\<forall>f \<in> set seed_steps. \<exists>q. qt_type_id q \<noteq> 0 \<and> f t = (q, t))"

lemma seeding_seeds:
  assumes "tt_entries t = []" "table_extends (snd (seed_fundamental_types t)) v" "type_table_ok v"
  shows "seeded v"
proof -
  have t: "t = \<lparr>tt_record_decls = tt_record_decls t, tt_entries = []\<rparr>"
    using assms(1) by (cases t) simp
  have "type_table_ok t"
    by (subst t) (rule empty_table_ok)
  moreover have "run_seeds seed_steps t = (True, snd (seed_fundamental_types t))"
    using seeding_succeeds [of "tt_record_decls t"] t seed_types_eq [of t]
    by (metis prod.collapse)
  ultimately show ?thesis
    using run_seeds_found [OF seed_steps_stable _ _ _ assms(2,3)] by (simp add: seeded_def)
qed

lemma seeding_ok:
  assumes "tt_entries t = []"
  shows "type_table_ok (snd (seed_fundamental_types t))"
proof -
  have "t = \<lparr>tt_record_decls = tt_record_decls t, tt_entries = []\<rparr>"
    using assms by (cases t) simp
  then have "type_table_ok t"
    by (metis empty_table_ok)
  moreover have "\<forall>f \<in> set seed_steps. interning f"
    using seed_steps_stable stable_interning.axioms(1) by blast
  ultimately show ?thesis
    using run_seeds_keeps by (simp add: seed_types_eq)
qed

inductive type_table_reachable :: "psx_semantic_type_table_t \<Rightarrow> bool" where
  create: "psx_semantic_type_table_create = Some t \<Longrightarrow> type_table_reachable t"
| reset: "type_table_reachable t \<Longrightarrow> type_table_reachable (psx_semantic_type_table_reset t)"
| bind: "type_table_reachable t \<Longrightarrow>
    type_table_reachable (psx_semantic_type_table_bind_record_decls t d)"
| intern_void: "type_table_reachable t \<Longrightarrow>
    type_table_reachable (snd (psx_semantic_type_table_intern_void t))"
| intern_integer: "type_table_reachable t \<Longrightarrow>
    type_table_reachable (snd (psx_semantic_type_table_intern_integer t k u c))"
| intern_floating: "type_table_reachable t \<Longrightarrow>
    type_table_reachable (snd (psx_semantic_type_table_intern_floating t f x))"
| intern_enum: "type_table_reachable t \<Longrightarrow>
    type_table_reachable (snd (psx_semantic_type_table_intern_enum t e n u))"
| intern_record: "type_table_reachable t \<Longrightarrow>
    type_table_reachable (snd (psx_semantic_type_table_intern_record store t r))"
| intern_pointer_to: "type_table_reachable t \<Longrightarrow>
    type_table_reachable (snd (psx_semantic_type_table_intern_pointer_to t p))"
| intern_array_of: "type_table_reachable t \<Longrightarrow>
    type_table_reachable (snd (psx_semantic_type_table_intern_array_of t p l v))"
| intern_function: "type_table_reachable t \<Longrightarrow>
    type_table_reachable (snd (psx_semantic_type_table_intern_function t p ps h v))"

definition table_good :: "psx_semantic_type_table_t \<Rightarrow> bool" where
  "table_good t \<longleftrightarrow> type_table_ok t \<and>
     (\<exists>d. table_extends (snd (seed_fundamental_types \<lparr>tt_record_decls = d, tt_entries = []\<rparr>)) t)"

lemma table_goodI:
  assumes "t = snd (seed_fundamental_types \<lparr>tt_record_decls = d, tt_entries = []\<rparr>)"
  shows "table_good t"
  unfolding table_good_def assms by (auto intro!: seeding_ok exI [of _ d])

lemma interning_good: "interning f \<Longrightarrow> table_good t \<Longrightarrow> table_good (snd (f t))"
  using interning.keeps interning.extends table_extends_trans unfolding table_good_def by blast

lemma reachable_good: "type_table_reachable t \<Longrightarrow> table_good t"
proof (induction rule: type_table_reachable.induct)
  case (create t)
  then have "t = snd (seed_fundamental_types \<lparr>tt_record_decls = None, tt_entries = []\<rparr>)"
    by (auto simp: psx_semantic_type_table_create_def split: if_splits prod.splits)
  then show ?case
    by (rule table_goodI)
next
  case (reset t)
  have "t\<lparr>tt_entries := []\<rparr> = \<lparr>tt_record_decls = tt_record_decls t, tt_entries = []\<rparr>"
    by (cases t) simp
  then show ?case
    by (intro table_goodI [of _ "tt_record_decls t"])
      (simp only: psx_semantic_type_table_reset_def)
next
  case (bind t d)
  have "type_table_ok (t\<lparr>tt_record_decls := d\<rparr>) = type_table_ok t"
    by (simp add: type_table_ok_def tt_next_id_def tt_entry_def entry_links_ok_def)
  then show ?case
    using bind.IH
    by (auto simp: table_good_def psx_semantic_type_table_bind_record_decls_def table_extends_def)
qed (auto intro: interning_good void.interning_axioms integer.interning_axioms
       floating.interning_axioms enum.interning_axioms tagged.interning_axioms
       pointer.interning_axioms array.interning_axioms func.interning_axioms)

lemma reachable_ok: "type_table_reachable t \<Longrightarrow> type_table_ok t"
  using reachable_good by (simp add: table_good_def)

lemma reachable_seeded:
  assumes "type_table_reachable t"
  shows "seeded t"
proof -
  obtain d where "table_extends (snd (seed_fundamental_types \<lparr>tt_record_decls = d, tt_entries = []\<rparr>)) t"
    using reachable_good [OF assms] by (auto simp: table_good_def)
  then show ?thesis
    by (rule seeding_seeds [rotated]) (simp_all add: reachable_ok assms)
qed

section \<open>Queries\<close>

definition psx_semantic_type_table_qual_type_is_valid ::
  "psx_semantic_type_table_t \<Rightarrow> psx_qual_type_t \<Rightarrow> bool" where
  "psx_semantic_type_table_qual_type_is_valid table type \<longleftrightarrow>
    (let supported = PSX_TYPE_QUALIFIER_CONST OR PSX_TYPE_QUALIFIER_VOLATILE OR
                     PSX_TYPE_QUALIFIER_ATOMIC OR PSX_TYPE_QUALIFIER_RESTRICT
     in qt_qualifiers type AND NOT supported = 0 \<and>
        semantic_type_id_is_valid table (qt_type_id type))"

definition related_type :: "psx_semantic_type_table_t \<Rightarrow> psx_qual_type_t \<Rightarrow> psx_qual_type_t" where
  "related_type table relation =
    (if \<not> semantic_type_id_is_valid table (qt_type_id relation) then invalid_qual_type else relation)"

definition psx_semantic_type_table_base ::
  "psx_semantic_type_table_t \<Rightarrow> psx_type_id_t \<Rightarrow> psx_qual_type_t" where
  "psx_semantic_type_table_base table type_id =
    (if \<not> semantic_type_id_is_valid table type_id then invalid_qual_type
     else related_type table (entry_base_type (tt_entry table type_id)))"

definition psx_semantic_type_table_parameter ::
  "psx_semantic_type_table_t \<Rightarrow> psx_type_id_t \<Rightarrow> int \<Rightarrow> psx_qual_type_t" where
  "psx_semantic_type_table_parameter table type_id parameter_index =
    (if \<not> semantic_type_id_is_valid table type_id \<or> parameter_index < 0 \<or>
        parameter_index \<ge> int (length (entry_parameter_types (tt_entry table type_id)))
     then invalid_qual_type
     else related_type table
            (entry_parameter_types (tt_entry table type_id) ! nat parameter_index))"

definition psx_semantic_type_table_pointer_can_be_restrict_qualified ::
  "psx_semantic_type_table_t \<Rightarrow> psx_type_id_t \<Rightarrow> bool" where
  "psx_semantic_type_table_pointer_can_be_restrict_qualified table type_id =
    (case psx_semantic_type_table_describe table type_id of
       None \<Rightarrow> False
     | Some pointer_shape \<Rightarrow>
         if shape_kind pointer_shape \<noteq> PSX_TYPE_POINTER then False
         else let pointee = psx_semantic_type_table_base table type_id
              in qt_type_id pointee \<noteq> PSX_TYPE_ID_INVALID \<and>
                 (case psx_semantic_type_table_describe table (qt_type_id pointee) of
                    None \<Rightarrow> False
                  | Some pointee_shape \<Rightarrow> shape_kind pointee_shape \<noteq> PSX_TYPE_FUNCTION))"

text \<open>A loop that returns 1 at the first element for which the test does.\<close>

primrec some_test :: "('a \<Rightarrow> bool option) \<Rightarrow> 'a list \<Rightarrow> bool option" where
  "some_test test [] = Some False"
| "some_test test (x # xs) =
    Option.bind (test x) (\<lambda>b. if b then Some True else some_test test xs)"

lemma some_test_mono [partial_function_mono]:
  assumes "\<And>x. mono_option (\<lambda>f. B x f)"
  shows "mono_option (\<lambda>f. some_test (\<lambda>x. B x f) xs)"
  by (induction xs) (auto intro!: partial_function_mono assms)

lemma some_test_returns:
  "(\<And>x. x \<in> set xs \<Longrightarrow> \<exists>b. f x = Some b) \<Longrightarrow> \<exists>b. some_test f xs = Some b"
  by (induction xs) force+

partial_function (option) psx_semantic_type_table_has_invalid_restrict_qualification ::
  "psx_semantic_type_table_t \<Rightarrow> psx_qual_type_t \<Rightarrow> bool option" where
  "psx_semantic_type_table_has_invalid_restrict_qualification table type =
    (case psx_semantic_type_table_describe table (qt_type_id type) of
       None \<Rightarrow> Some True
     | Some shape \<Rightarrow>
         if qt_qualifiers type AND PSX_TYPE_QUALIFIER_RESTRICT \<noteq> 0 \<and>
            (qt_qualifiers type AND PSX_TYPE_QUALIFIER_ATOMIC \<noteq> 0 \<or>
             \<not> psx_semantic_type_table_pointer_can_be_restrict_qualified table (qt_type_id type))
         then Some True
         else let base = psx_semantic_type_table_base table (qt_type_id type)
         in Option.bind
              (if shape_kind shape = PSX_TYPE_POINTER \<or> shape_kind shape = PSX_TYPE_ARRAY \<or>
                  shape_kind shape = PSX_TYPE_FUNCTION
               then if qt_type_id base = PSX_TYPE_ID_INVALID then Some True
                    else psx_semantic_type_table_has_invalid_restrict_qualification table base
               else Some False)
              (\<lambda>invalid_base.
                if invalid_base then Some True
                else if shape_kind shape = PSX_TYPE_FUNCTION
                then some_test (\<lambda>i.
                       let parameter = psx_semantic_type_table_parameter table (qt_type_id type) (int i)
                       in if qt_type_id parameter = PSX_TYPE_ID_INVALID then Some True
                          else psx_semantic_type_table_has_invalid_restrict_qualification table
                                 parameter)
                       [0..<nat (shape_parameter_count shape)]
                else Some False))"

partial_function (option) psx_semantic_type_table_has_cv_qualified_function ::
  "psx_semantic_type_table_t \<Rightarrow> psx_qual_type_t \<Rightarrow> bool option" where
  "psx_semantic_type_table_has_cv_qualified_function table type =
    (case psx_semantic_type_table_describe table (qt_type_id type) of
       None \<Rightarrow> Some True
     | Some shape \<Rightarrow>
         if shape_kind shape = PSX_TYPE_FUNCTION \<and>
            qt_qualifiers type AND (PSX_TYPE_QUALIFIER_CONST OR PSX_TYPE_QUALIFIER_VOLATILE) \<noteq> 0
         then Some True
         else let base = psx_semantic_type_table_base table (qt_type_id type)
         in Option.bind
              (if shape_kind shape = PSX_TYPE_POINTER \<or> shape_kind shape = PSX_TYPE_ARRAY \<or>
                  shape_kind shape = PSX_TYPE_FUNCTION
               then if qt_type_id base = PSX_TYPE_ID_INVALID then Some True
                    else psx_semantic_type_table_has_cv_qualified_function table base
               else Some False)
              (\<lambda>invalid_base.
                if invalid_base then Some True
                else if shape_kind shape = PSX_TYPE_FUNCTION
                then some_test (\<lambda>i.
                       let parameter = psx_semantic_type_table_parameter table (qt_type_id type) (int i)
                       in if qt_type_id parameter = PSX_TYPE_ID_INVALID then Some True
                          else psx_semantic_type_table_has_cv_qualified_function table parameter)
                       [0..<nat (shape_parameter_count shape)]
                else Some False))"

partial_function (option) psx_semantic_type_table_contains_vla_array ::
  "psx_semantic_type_table_t \<Rightarrow> psx_type_id_t \<Rightarrow> bool option" where
  "psx_semantic_type_table_contains_vla_array table current =
    (if \<not> semantic_type_id_is_valid table current then Some False
     else let shape = entry_shape (tt_entry table current);
              base = psx_semantic_type_table_base table current
          in if shape_kind shape = PSX_TYPE_ARRAY \<and> shape_is_vla shape then Some True
             else if qt_type_id base = PSX_TYPE_ID_INVALID then Some False
             else psx_semantic_type_table_contains_vla_array table (qt_type_id base))"

partial_function (option) array_leaf_loop ::
  "psx_semantic_type_table_t \<Rightarrow> psx_qual_type_t \<Rightarrow> psx_qual_type_t option" where
  "array_leaf_loop table result =
    (if semantic_type_id_is_valid table (qt_type_id result) \<and>
        shape_kind (entry_shape (tt_entry table (qt_type_id result))) = PSX_TYPE_ARRAY
     then array_leaf_loop table (psx_semantic_type_table_base table (qt_type_id result))
     else Some result)"

definition semantic_type_table_array_leaf_from ::
  "psx_semantic_type_table_t \<Rightarrow> psx_qual_type_t \<Rightarrow> psx_qual_type_t option" where
  "semantic_type_table_array_leaf_from table start =
     map_option (\<lambda>result. if semantic_type_id_is_valid table (qt_type_id result) then result
                          else invalid_qual_type)
       (array_leaf_loop table (related_type table start))"

definition psx_semantic_type_table_array_leaf ::
  "psx_semantic_type_table_t \<Rightarrow> psx_type_id_t \<Rightarrow> psx_qual_type_t option" where
  "psx_semantic_type_table_array_leaf table type_id =
     semantic_type_table_array_leaf_from table
       \<lparr>qt_type_id = type_id, qt_qualifiers = PSX_TYPE_QUALIFIER_NONE\<rparr>"

partial_function (option) flat_element_count_loop ::
  "psx_semantic_type_table_t \<Rightarrow> int \<Rightarrow> psx_type_shape_t \<Rightarrow> psx_type_id_t \<Rightarrow> int option" where
  "flat_element_count_loop table count shape type_id =
    (if shape_kind shape \<noteq> PSX_TYPE_ARRAY then Some count
     else if shape_array_len shape \<le> 0 \<or> count > INT_MAX div shape_array_len shape then Some 0
     else let base = psx_semantic_type_table_base table type_id
          in if qt_type_id base = PSX_TYPE_ID_INVALID then Some 0
             else case psx_semantic_type_table_describe table (qt_type_id base) of
                    None \<Rightarrow> Some 0
                  | Some base_shape \<Rightarrow>
                      flat_element_count_loop table (count * shape_array_len shape) base_shape
                        (qt_type_id base))"

definition psx_semantic_type_table_array_flat_element_count ::
  "psx_semantic_type_table_t \<Rightarrow> psx_type_id_t \<Rightarrow> int option" where
  "psx_semantic_type_table_array_flat_element_count table type_id =
    (case psx_semantic_type_table_describe table type_id of
       None \<Rightarrow> Some 0
     | Some shape \<Rightarrow>
         if shape_kind shape \<noteq> PSX_TYPE_ARRAY then Some 0
         else flat_element_count_loop table 1 shape type_id)"

text \<open>The row a subscript of the given depth selects from: \<open>None\<close> where the code returns 0.\<close>

primrec subscript_row :: "nat \<Rightarrow> psx_semantic_type_table_t \<Rightarrow> psx_type_id_t \<Rightarrow> psx_type_id_t option" where
  "subscript_row 0 table type_id = Some type_id"
| "subscript_row (Suc depth) table type_id =
    (let base = psx_semantic_type_table_base table type_id
     in if qt_type_id base = PSX_TYPE_ID_INVALID then None
        else case psx_semantic_type_table_describe table (qt_type_id base) of
               None \<Rightarrow> None
             | Some shape \<Rightarrow> if shape_kind shape \<noteq> PSX_TYPE_ARRAY then None
                             else subscript_row depth table (qt_type_id base))"

definition psx_semantic_type_table_array_subscript_stride_elements ::
  "psx_semantic_type_table_t \<Rightarrow> psx_type_id_t \<Rightarrow> int \<Rightarrow> int option" where
  "psx_semantic_type_table_array_subscript_stride_elements table type_id depth =
    (case psx_semantic_type_table_describe table type_id of
       None \<Rightarrow> Some 0
     | Some shape \<Rightarrow>
         if depth < 0 \<or> shape_kind shape \<noteq> PSX_TYPE_ARRAY then Some 0
         else case subscript_row (nat depth) table type_id of
                None \<Rightarrow> Some 0
              | Some row \<Rightarrow>
                  let selected = psx_semantic_type_table_base table row
                  in if qt_type_id selected = PSX_TYPE_ID_INVALID then Some 0
                     else case psx_semantic_type_table_describe table (qt_type_id selected) of
                            None \<Rightarrow> Some 0
                          | Some selected_shape \<Rightarrow>
                              if shape_kind selected_shape = PSX_TYPE_ARRAY
                              then psx_semantic_type_table_array_flat_element_count table
                                     (qt_type_id selected)
                              else Some 1)"

definition psx_semantic_type_table_pointee_value ::
  "psx_semantic_type_table_t \<Rightarrow> psx_type_id_t \<Rightarrow> psx_qual_type_t option" where
  "psx_semantic_type_table_pointee_value table type_id =
    (case psx_semantic_type_table_describe table type_id of
       None \<Rightarrow> Some invalid_qual_type
     | Some type \<Rightarrow>
         if shape_kind type \<noteq> PSX_TYPE_POINTER \<and> shape_kind type \<noteq> PSX_TYPE_ARRAY
         then Some invalid_qual_type
         else semantic_type_table_array_leaf_from table
                (psx_semantic_type_table_base table type_id))"

definition psx_semantic_type_table_callable_function ::
  "psx_semantic_type_table_t \<Rightarrow> psx_qual_type_t \<Rightarrow> psx_qual_type_t" where
  "psx_semantic_type_table_callable_function table type =
    (let called = (case psx_semantic_type_table_describe table (qt_type_id type) of
                     Some shape \<Rightarrow> if shape_kind shape = PSX_TYPE_POINTER
                                   then psx_semantic_type_table_base table (qt_type_id type) else type
                   | None \<Rightarrow> type)
     in case psx_semantic_type_table_describe table (qt_type_id called) of
          Some current \<Rightarrow> if shape_kind current = PSX_TYPE_FUNCTION then called else invalid_qual_type
        | None \<Rightarrow> invalid_qual_type)"

definition psx_semantic_type_is_exact_int_void_function ::
  "psx_semantic_type_table_t \<Rightarrow> psx_qual_type_t \<Rightarrow> bool" where
  "psx_semantic_type_is_exact_int_void_function table type =
    (let function_type = psx_semantic_type_table_callable_function table type;
         result_type = psx_semantic_type_table_base table (qt_type_id function_type)
     in case (psx_semantic_type_table_describe table (qt_type_id function_type),
              psx_semantic_type_table_describe table (qt_type_id result_type)) of
          (Some called_shape, Some result_shape) \<Rightarrow>
            shape_parameter_count called_shape = 0 \<and>
            \<not> shape_is_variadic_function called_shape \<and>
            shape_kind result_shape = PSX_TYPE_INTEGER \<and>
            shape_integer_kind result_shape = PSX_INTEGER_KIND_INT \<and>
            \<not> shape_is_unsigned result_shape
        | _ \<Rightarrow> False)"

partial_function (option) psx_semantic_type_table_aggregate_object ::
  "psx_semantic_type_table_t \<Rightarrow> psx_qual_type_t \<Rightarrow> psx_qual_type_t option" where
  "psx_semantic_type_table_aggregate_object table type =
    (if qt_type_id type = PSX_TYPE_ID_INVALID then Some invalid_qual_type
     else case psx_semantic_type_table_describe table (qt_type_id type) of
            None \<Rightarrow> Some invalid_qual_type
          | Some current \<Rightarrow>
              if shape_kind current = PSX_TYPE_STRUCT \<or> shape_kind current = PSX_TYPE_UNION
              then Some type
              else if shape_kind current \<noteq> PSX_TYPE_POINTER \<and> shape_kind current \<noteq> PSX_TYPE_ARRAY
              then Some invalid_qual_type
              else psx_semantic_type_table_aggregate_object table
                     (psx_semantic_type_table_base table (qt_type_id type)))"

definition psx_semantic_type_table_record_decl ::
  "record_store \<Rightarrow> psx_semantic_type_table_t \<Rightarrow> psx_type_id_t \<Rightarrow> psx_record_decl_t option" where
  "psx_semantic_type_table_record_decl store table type_id =
    (case psx_semantic_type_table_describe table type_id of
       None \<Rightarrow> None
     | Some type \<Rightarrow>
         if (shape_kind type \<noteq> PSX_TYPE_STRUCT \<and> shape_kind type \<noteq> PSX_TYPE_UNION) \<or>
            shape_record_id type = PSX_RECORD_ID_INVALID
         then None
         else psx_record_decl_table_lookup store (tt_record_decls table) (shape_record_id type))"

definition psx_semantic_type_table_record_member ::
  "record_store \<Rightarrow> psx_semantic_type_table_t \<Rightarrow> psx_type_id_t \<Rightarrow> int \<Rightarrow> psx_qual_type_t" where
  "psx_semantic_type_table_record_member store table type_id member_index =
    (case psx_semantic_type_table_describe table type_id of
       None \<Rightarrow> invalid_qual_type
     | Some type \<Rightarrow>
         if shape_kind type \<noteq> PSX_TYPE_STRUCT \<and> shape_kind type \<noteq> PSX_TYPE_UNION
         then invalid_qual_type
         else case psx_record_decl_table_lookup store (tt_record_decls table) (shape_record_id type) of
                None \<Rightarrow> invalid_qual_type
              | Some record \<Rightarrow>
                  if member_index < 0 \<or> member_index \<ge> int (length (rd_members record))
                  then invalid_qual_type
                  else related_type table
                         (rm_decl_qual_type (rd_members record ! nat member_index)))"

declare psx_semantic_type_table_has_invalid_restrict_qualification.simps [code]
  psx_semantic_type_table_has_cv_qualified_function.simps [code]
  psx_semantic_type_table_contains_vla_array.simps [code]
  array_leaf_loop.simps [code]
  flat_element_count_loop.simps [code]
  psx_semantic_type_table_aggregate_object.simps [code]

section \<open>The queries return\<close>

lemma base_of_ok:
  assumes "type_table_ok t" "semantic_type_id_is_valid t i"
    and "shape_requires_base (shape_kind (entry_shape (tt_entry t i)))"
  shows "psx_semantic_type_table_base t i = entry_base_type (tt_entry t i)"
    and "semantic_type_id_is_valid t (qt_type_id (psx_semantic_type_table_base t i))"
    and "qt_type_id (psx_semantic_type_table_base t i) < i"
  using assms ok_base [OF assms]
  by (simp_all add: psx_semantic_type_table_base_def related_type_def)

lemma base_smaller:
  assumes "type_table_ok t" "qt_type_id (psx_semantic_type_table_base t i) \<noteq> 0"
  shows "semantic_type_id_is_valid t (qt_type_id (psx_semantic_type_table_base t i)) \<and>
         qt_type_id (psx_semantic_type_table_base t i) < i"
proof -
  have valid: "semantic_type_id_is_valid t i"
    using assms(2) by (auto simp: psx_semantic_type_table_base_def split: if_splits)
  moreover have "shape_requires_base (shape_kind (entry_shape (tt_entry t i)))"
    using assms valid ok_no_base [OF assms(1) valid]
    by (cases "shape_requires_base (shape_kind (entry_shape (tt_entry t i)))")
      (auto simp: psx_semantic_type_table_base_def related_type_def)
  ultimately show ?thesis
    using base_of_ok(2,3) [OF assms(1)] by simp
qed

lemma parameter_smaller:
  assumes "type_table_ok t" "qt_type_id (psx_semantic_type_table_parameter t i k) \<noteq> 0"
  shows "semantic_type_id_is_valid t (qt_type_id (psx_semantic_type_table_parameter t i k)) \<and>
         qt_type_id (psx_semantic_type_table_parameter t i k) < i"
proof -
  have valid: "semantic_type_id_is_valid t i" "0 \<le> k"
    and k: "k < int (length (entry_parameter_types (tt_entry t i)))"
    using assms(2) by (auto simp: psx_semantic_type_table_parameter_def split: if_splits)
  then have "entry_parameter_types (tt_entry t i) ! nat k \<in> set (entry_parameter_types (tt_entry t i))"
    by (intro nth_mem) linarith
  then show ?thesis
    using ok_parameter [OF assms(1) valid(1)] valid k
    by (simp add: psx_semantic_type_table_parameter_def related_type_def)
qed

lemma contains_vla_returns:
  assumes "type_table_ok t"
  shows "\<exists>b. psx_semantic_type_table_contains_vla_array t i = Some b"
proof (induction i rule: less_induct)
  case (less i)
  show ?case
    using less base_smaller [OF assms, of i]
    by (subst psx_semantic_type_table_contains_vla_array.simps) (auto simp: Let_def)
qed

lemma array_leaf_loop_returns:
  assumes "type_table_ok t"
  shows "\<exists>r. array_leaf_loop t q = Some r \<and>
    (semantic_type_id_is_valid t (qt_type_id r) \<longrightarrow>
       shape_kind (entry_shape (tt_entry t (qt_type_id r))) \<noteq> PSX_TYPE_ARRAY) \<and>
    (semantic_type_id_is_valid t (qt_type_id q) \<longrightarrow> semantic_type_id_is_valid t (qt_type_id r))"
proof (induction "qt_type_id q" arbitrary: q rule: less_induct)
  case less
  show ?case
  proof (cases "semantic_type_id_is_valid t (qt_type_id q) \<and>
      shape_kind (entry_shape (tt_entry t (qt_type_id q))) = PSX_TYPE_ARRAY")
    case True
    then have "shape_requires_base (shape_kind (entry_shape (tt_entry t (qt_type_id q))))"
      by (simp add: shape_requires_base_def)
    note base = base_of_ok(2,3) [OF assms _ this]
    show ?thesis
      using True base less [of "psx_semantic_type_table_base t (qt_type_id q)"]
      by (subst array_leaf_loop.simps) simp
  qed (subst array_leaf_loop.simps, auto)
qed

lemma flat_count_loop_returns:
  assumes "type_table_ok t"
  shows "\<exists>n. flat_element_count_loop t c s i = Some n"
proof (induction i arbitrary: c s rule: less_induct)
  case (less i)
  show ?case
    using less base_smaller [OF assms, of i]
    by (subst flat_element_count_loop.simps) (auto simp: Let_def split: option.split)
qed

lemma aggregate_object_returns:
  assumes "type_table_ok t"
  shows "\<exists>r. psx_semantic_type_table_aggregate_object t q = Some r"
proof (induction "qt_type_id q" arbitrary: q rule: less_induct)
  case less
  have none: "psx_semantic_type_table_aggregate_object t r = Some invalid_qual_type"
    if "qt_type_id r = 0" for r
    using that by (subst psx_semantic_type_table_aggregate_object.simps) simp
  show ?case
    using less base_smaller [OF assms, of "qt_type_id q"]
      none [of "psx_semantic_type_table_base t (qt_type_id q)"]
    by (subst psx_semantic_type_table_aggregate_object.simps) (auto split: option.split)
qed

lemma bind_returns:
  "\<exists>x. m = Some x \<Longrightarrow> (\<And>x. \<exists>y. f x = Some y) \<Longrightarrow> \<exists>y. Option.bind m f = Some y"
  by auto

lemma restrict_check_returns:
  assumes "type_table_ok t"
  shows "\<exists>b. psx_semantic_type_table_has_invalid_restrict_qualification t q = Some b"
proof (induction "qt_type_id q" arbitrary: q rule: less_induct)
  case less
  have rec: "\<exists>b. psx_semantic_type_table_has_invalid_restrict_qualification t r = Some b"
    if "qt_type_id r < qt_type_id q" for r
    using less that by blast
  have params: "\<exists>b. some_test (\<lambda>i.
      let parameter = psx_semantic_type_table_parameter t (qt_type_id q) (int i)
      in if qt_type_id parameter = 0 then Some True
         else psx_semantic_type_table_has_invalid_restrict_qualification t parameter) xs = Some b" for xs
    by (rule some_test_returns)
      (use rec parameter_smaller [OF assms, of "qt_type_id q"] in \<open>auto simp: Let_def\<close>)
  show ?case
    using rec base_smaller [OF assms, of "qt_type_id q"] params
    by (subst psx_semantic_type_table_has_invalid_restrict_qualification.simps)
      (auto simp: Let_def intro!: bind_returns split: option.split)
qed

lemma cv_check_returns:
  assumes "type_table_ok t"
  shows "\<exists>b. psx_semantic_type_table_has_cv_qualified_function t q = Some b"
proof (induction "qt_type_id q" arbitrary: q rule: less_induct)
  case less
  have rec: "\<exists>b. psx_semantic_type_table_has_cv_qualified_function t r = Some b"
    if "qt_type_id r < qt_type_id q" for r
    using less that by blast
  have params: "\<exists>b. some_test (\<lambda>i.
      let parameter = psx_semantic_type_table_parameter t (qt_type_id q) (int i)
      in if qt_type_id parameter = 0 then Some True
         else psx_semantic_type_table_has_cv_qualified_function t parameter) xs = Some b" for xs
    by (rule some_test_returns)
      (use rec parameter_smaller [OF assms, of "qt_type_id q"] in \<open>auto simp: Let_def\<close>)
  show ?case
    using rec base_smaller [OF assms, of "qt_type_id q"] params
    by (subst psx_semantic_type_table_has_cv_qualified_function.simps)
      (auto simp: Let_def intro!: bind_returns split: option.split)
qed

section \<open>Element counts and strides\<close>

lemma le_div_mult_le:
  assumes "c \<le> n div l" "0 < l"
  shows "c * l \<le> (n :: int)"
proof -
  have "c * l \<le> (n div l) * l"
    using assms by (intro mult_right_mono) auto
  then show ?thesis
    using div_mult_mod_eq [of n l] pos_mod_sign [of l n] assms(2) by linarith
qed

text \<open>
  A count that does not overflow is the start times the count of the remaining dimensions, and a
  smaller start does not overflow either.
\<close>

lemma flat_count_loop_scales:
  assumes ok: "type_table_ok t"
    and "flat_element_count_loop t c s i = Some n" "n \<noteq> 0" "0 < c" "c \<le> INT_MAX"
  obtains m where "0 < m" "n = c * m" "n \<le> INT_MAX"
    "\<And>c'. 0 < c' \<Longrightarrow> c' \<le> c \<Longrightarrow> flat_element_count_loop t c' s i = Some (c' * m)"
proof -
  have "\<exists>m. 0 < m \<and> n = c * m \<and> n \<le> INT_MAX \<and>
      (\<forall>c'. 0 < c' \<and> c' \<le> c \<longrightarrow> flat_element_count_loop t c' s i = Some (c' * m))"
    using assms(2-)
  proof (induction i arbitrary: c s n rule: less_induct)
    case (less i)
    let ?b = "psx_semantic_type_table_base t i" and ?l = "shape_array_len s"
    show ?case
    proof (cases "shape_kind s = PSX_TYPE_ARRAY")
      case False
      then show ?thesis
        using less.prems by (intro exI [of _ 1]) (simp add: flat_element_count_loop.simps)
    next
      case True
      have l: "0 < ?l" "c \<le> INT_MAX div ?l" and b: "qt_type_id ?b \<noteq> 0"
        using less.prems True
        by (auto simp: flat_element_count_loop.simps [of t c] Let_def split: if_splits)
      obtain s' where s': "psx_semantic_type_table_describe t (qt_type_id ?b) = Some s'"
        and rec: "flat_element_count_loop t (c * ?l) s' (qt_type_id ?b) = Some n"
        using less.prems True l b
        by (auto simp: flat_element_count_loop.simps [of t c] Let_def split: option.splits)
      obtain m where m: "0 < m" "n = c * ?l * m" "n \<le> INT_MAX"
        and smaller: "\<And>c'. 0 < c' \<Longrightarrow> c' \<le> c * ?l \<Longrightarrow>
          flat_element_count_loop t c' s' (qt_type_id ?b) = Some (c' * m)"
        using less.IH [OF _ rec less.prems(2)] base_smaller [OF ok b] less.prems(3) l(1)
          le_div_mult_le [OF l(2,1)] by auto
      have "flat_element_count_loop t c' s i = Some (c' * (?l * m))" if "0 < c'" "c' \<le> c" for c'
        using that l b True s' smaller [of "c' * ?l"]
        by (simp add: flat_element_count_loop.simps [of t c'] Let_def mult_right_mono mult.assoc)
      then show ?thesis
        using m l(1) by (intro exI [of _ "?l * m"]) (simp add: mult.assoc)
    qed
  qed
  then show thesis
    using that by blast
qed

lemma flat_count_array:
  assumes ok: "type_table_ok t" and i: "semantic_type_id_is_valid t i"
    and array: "shape_kind (entry_shape (tt_entry t i)) = PSX_TYPE_ARRAY"
    and count: "psx_semantic_type_table_array_flat_element_count t i = Some n" "n \<noteq> 0"
  shows "\<exists>m. psx_semantic_type_table_array_subscript_stride_elements t i 0 = Some m \<and> 0 < m \<and>
           n = shape_array_len (entry_shape (tt_entry t i)) * m \<and> n \<le> INT_MAX"
proof -
  let ?s = "entry_shape (tt_entry t i)" and ?b = "psx_semantic_type_table_base t i"
  have loop: "flat_element_count_loop t 1 ?s i = Some n"
    using i array count(1)
    by (simp add: psx_semantic_type_table_array_flat_element_count_def
        psx_semantic_type_table_describe_def)
  have l: "0 < shape_array_len ?s" and b: "qt_type_id ?b \<noteq> 0"
    using loop array count(2)
    by (auto simp: flat_element_count_loop.simps [of t 1] Let_def split: if_splits)
  have l': "shape_array_len ?s \<le> INT_MAX"
    using loop array count(2) l pos_imp_zdiv_pos_iff [OF l, of INT_MAX]
    by (auto simp: flat_element_count_loop.simps [of t 1] split: if_splits)
  let ?s' = "entry_shape (tt_entry t (qt_type_id ?b))"
  have s': "psx_semantic_type_table_describe t (qt_type_id ?b) = Some ?s'"
    using base_smaller [OF ok b] by (simp add: describe_Some)
  have "flat_element_count_loop t (shape_array_len ?s) ?s' (qt_type_id ?b) = Some n"
    using loop array count(2) l b s'
    by (auto simp: flat_element_count_loop.simps [of t 1] Let_def split: if_splits)
  from flat_count_loop_scales [OF ok this count(2) l l']
  obtain m where m: "0 < m" "n = shape_array_len ?s * m" "n \<le> INT_MAX"
    and one: "flat_element_count_loop t 1 ?s' (qt_type_id ?b) = Some m"
    using l by (metis (no_types, opaque_lifting) int_one_le_iff_zero_less mult_1 zero_less_one)
  have "psx_semantic_type_table_array_subscript_stride_elements t i 0 = Some m"
  proof (cases "shape_kind ?s' = PSX_TYPE_ARRAY")
    case True
    then show ?thesis
      using i array b s' one
      by (simp add: psx_semantic_type_table_array_subscript_stride_elements_def
          psx_semantic_type_table_array_flat_element_count_def
          psx_semantic_type_table_describe_def Let_def)
  next
    case False
    then show ?thesis
      using i array b s' one
      by (simp add: psx_semantic_type_table_array_subscript_stride_elements_def Let_def
          flat_element_count_loop.simps [of t 1] psx_semantic_type_table_describe_def [of t i])
  qed
  then show ?thesis
    using m by blast
qed

text \<open>An interning that adds nothing returns what the search finds.\<close>

lemma intern_shape_same:
  assumes "psx_semantic_type_table_intern_shape t s b ps = (q, t)" "qt_type_id q \<noteq> 0"
  shows "q = \<lparr>qt_type_id = semantic_type_shape_id t s b ps, qt_qualifiers = 0\<rparr>"
  using assms(1)
proof (cases rule: intern_shape_cases)
  case added
  from arg_cong [OF added(5), of tt_entries] show ?thesis
    by simp
qed (use assms(2) in simp_all)

lemma intern_integer_same:
  assumes "psx_semantic_type_table_intern_integer t k u c = (q, t)" "qt_type_id q \<noteq> 0"
  shows "psx_semantic_type_table_fundamental_integer t k u c = q"
  using assms intern_shape_same [of t "integer_shape k u c" invalid_qual_type "[]" q]
  by (auto simp: psx_semantic_type_table_intern_integer_def
      psx_semantic_type_table_fundamental_integer_def split: if_splits)

lemma extends_antisym:
  assumes "table_extends t u" "table_extends u t" "tt_record_decls u = tt_record_decls t"
  shows "u = t"
  using assms by (cases t; cases u) (auto simp: table_extends_def)

lemma intern_shape_decls:
  "tt_record_decls (snd (psx_semantic_type_table_intern_shape t s b ps)) = tt_record_decls t"
  by (simp add: psx_semantic_type_table_intern_shape_def Let_def)

lemma intern_floating_same:
  assumes "psx_semantic_type_table_intern_floating t k c = (q, t)" "qt_type_id q \<noteq> 0"
  shows "psx_semantic_type_table_fundamental_floating t k c = q"
proof (cases c)
  case False
  then show ?thesis
    using assms intern_shape_same [of t "floating_shape k False" invalid_qual_type "[]" q]
    by (auto simp: psx_semantic_type_table_intern_floating_def
        psx_semantic_type_table_fundamental_floating_def split: if_splits)
next
  case True
  obtain b t1 where step: "psx_semantic_type_table_intern_shape t (floating_shape k False)
      invalid_qual_type [] = (b, t1)"
    by fastforce
  with True assms have b: "qt_type_id b \<noteq> 0" "k \<noteq> PSX_FLOATING_KIND_NONE"
    and last: "psx_semantic_type_table_intern_shape t1 (floating_shape k True) b [] = (q, t)"
    by (auto simp: psx_semantic_type_table_intern_floating_def split: if_splits)
  have "t1 = t"
    using intern_shape_extends [of t "floating_shape k False" invalid_qual_type "[]"]
      intern_shape_extends [of t1 "floating_shape k True" b "[]"]
      intern_shape_decls [of t "floating_shape k False" invalid_qual_type "[]"]
    by (intro extends_antisym) (simp_all add: step last)
  then show ?thesis
    using intern_shape_same [of t "floating_shape k False" invalid_qual_type "[]" b] step last b
      intern_shape_same [of t "floating_shape k True" b "[]" q] assms(2) True
    by (simp add: psx_semantic_type_table_fundamental_floating_def Let_def)
qed

lemma in_concat_map: "x \<in> set (f k) \<Longrightarrow> k \<in> set ks \<Longrightarrow> x \<in> set (concat (map f ks))"
  by auto

lemma seed_integer_step:
  assumes "k \<in> set seed_integer_kinds"
    and "k = PSX_INTEGER_KIND_BOOL \<or> (k = PSX_INTEGER_KIND_CHAR \<and> c) \<longrightarrow> \<not> u"
  shows "(\<lambda>t. psx_semantic_type_table_intern_integer t k u c) \<in> set seed_steps"
proof -
  have plain: "(\<lambda>t. psx_semantic_type_table_intern_integer t k u c) =
      (\<lambda>t. psx_semantic_type_table_intern_integer t k u False)" if "\<not> (k = PSX_INTEGER_KIND_CHAR \<and> c)"
    using that by (intro ext) (auto simp: psx_semantic_type_table_intern_integer_def integer_shape_def)
  show ?thesis
  proof (cases "k = PSX_INTEGER_KIND_CHAR \<and> c")
    case True
    then show ?thesis
      using assms by (simp add: seed_steps_def)
  next
    case False
    have "(\<lambda>t. psx_semantic_type_table_intern_integer t k u False) \<in>
        set (map (\<lambda>u t. psx_semantic_type_table_intern_integer t k u False)
          (if k = PSX_INTEGER_KIND_BOOL then [False] else [False, True]))"
      using assms(2) by (cases u) auto
    then show ?thesis
      unfolding plain [OF False] seed_steps_def set_append
      by (intro UnI2 UnI1 in_concat_map [OF _ assms(1)])
  qed
qed

lemma seed_floating_step:
  "f \<noteq> PSX_FLOATING_KIND_NONE \<Longrightarrow>
     (\<lambda>t. psx_semantic_type_table_intern_floating t f x) \<in> set seed_steps"
  by (cases f; cases x) (simp_all add: seed_steps_def seed_floating_kinds_def)

section \<open>Properties\<close>

text \<open>
  C27. Interning is canonical: in a table the program can build, two types with the same kind,
  attributes, base and parameters are the same type, and a type is made of older types only.
\<close>

theorem types_interned_once:
  assumes "type_table_reachable t"
    and "semantic_type_id_is_valid t i" "semantic_type_id_is_valid t j"
    and "semantic_type_shapes_match (entry_shape (tt_entry t i)) (entry_shape (tt_entry t j))"
    and "psx_semantic_type_table_base t i = psx_semantic_type_table_base t j"
    and "entry_parameter_types (tt_entry t i) = entry_parameter_types (tt_entry t j)"
  shows "i = j \<and>
    (qt_type_id (psx_semantic_type_table_base t i) \<noteq> PSX_TYPE_ID_INVALID \<longrightarrow>
       qt_type_id (psx_semantic_type_table_base t i) < i)"
proof -
  note ok = reachable_ok [OF assms(1)]
  have "entry_base_type (tt_entry t k) =
      (if shape_requires_base (shape_kind (entry_shape (tt_entry t k)))
       then psx_semantic_type_table_base t k else invalid_qual_type)"
    if "semantic_type_id_is_valid t k" for k
    using that base_of_ok(1) [OF ok that] ok_no_base [OF ok that] by simp
  then have "entry_base_type (tt_entry t i) = entry_base_type (tt_entry t j)"
    using assms(2,3,5) shapes_match_kind [OF assms(4)] by simp
  then have "i = j"
    using ok_unique [OF ok assms(2,3)] assms(4,6) by (simp add: entries_same_def)
  then show ?thesis
    using base_smaller [OF ok] by simp
qed

text \<open>
  What a type was made of is what it gives back, in every later table of the same unit, and making
  it again there gives the same type and adds nothing: for function types the result and every
  parameter; a pointer or an array gives back its base in the same way.
\<close>

theorem function_types_roundtrip:
  assumes "type_table_reachable t"
    and "psx_semantic_type_table_intern_function t r ps h v = (q, u)"
    and "qt_type_id q \<noteq> PSX_TYPE_ID_INVALID"
    and "type_table_reachable w" "table_extends u w"
  shows "psx_semantic_type_table_intern_function w r ps h v = (q, w) \<and>
    psx_semantic_type_table_base w (qt_type_id q) = r \<and>
    (\<forall>k < length ps. psx_semantic_type_table_parameter w (qt_type_id q) (int k) = ps ! k) \<and>
    psx_semantic_type_table_callable_function w q = q"
proof -
  note ok = reachable_ok [OF assms(1)] and okw = reachable_ok [OF assms(4)]
  note q = intern_function_result [OF ok assms(2,3)]
  have "semantic_type_id_is_valid u (qt_type_id q)"
    using func.result [OF ok assms(2,3)] by simp
  note valid = table_extends_valid [OF assms(5) this]
  have kind: "shape_kind (entry_shape (tt_entry w (qt_type_id q))) = PSX_TYPE_FUNCTION"
    using valid(2) q(1) by simp
  have "psx_semantic_type_table_base w (qt_type_id q) = r"
    using base_of_ok(1) [OF okw valid(1)] kind valid(2) q(2) by (simp add: shape_requires_base_def)
  moreover have "psx_semantic_type_table_parameter w (qt_type_id q) (int k) = ps ! k"
    if "k < length ps" for k
    using that valid q(3) ok_parameter(1) [OF okw valid(1), of "ps ! k"]
    by (simp add: psx_semantic_type_table_parameter_def related_type_def)
  moreover have "psx_semantic_type_table_callable_function w q = q"
    using valid(1) kind
    by (simp add: psx_semantic_type_table_callable_function_def psx_semantic_type_table_describe_def)
  ultimately show ?thesis
    using func.again [OF ok assms(2,3,5) okw] by simp
qed

text \<open>
  The fundamental types are there from the start: the read-only lookups find the type that
  interning would return, in every table, and interning them adds nothing. This covers every
  integer type but \<^verbatim>\<open>unsigned _Bool\<close> and every floating and complex type.
\<close>

theorem fundamental_types_found:
  assumes "type_table_reachable t" "k \<in> set seed_integer_kinds"
    and "k = PSX_INTEGER_KIND_BOOL \<or> (k = PSX_INTEGER_KIND_CHAR \<and> c) \<longrightarrow> \<not> u"
    and "f \<noteq> PSX_FLOATING_KIND_NONE"
  shows "psx_semantic_type_table_intern_integer t k u c =
      (psx_semantic_type_table_fundamental_integer t k u c, t) \<and>
    psx_semantic_type_table_intern_floating t f x =
      (psx_semantic_type_table_fundamental_floating t f x, t) \<and>
    qt_type_id (psx_semantic_type_table_fundamental_integer t k u c) \<noteq> PSX_TYPE_ID_INVALID \<and>
    qt_type_id (psx_semantic_type_table_fundamental_floating t f x) \<noteq> PSX_TYPE_ID_INVALID"
proof -
  have steps: "(\<lambda>t. psx_semantic_type_table_intern_integer t k u c) \<in> set seed_steps"
    "(\<lambda>t. psx_semantic_type_table_intern_floating t f x) \<in> set seed_steps"
    using assms(2,3) seed_integer_step [of k c u] seed_floating_step [OF assms(4), of x] by auto
  have seeds: "\<exists>q. qt_type_id q \<noteq> 0 \<and> step t = (q, t)" if "step \<in> set seed_steps" for step
    using reachable_seeded [OF assms(1)] that unfolding seeded_def by (rule bspec)
  obtain q where int: "psx_semantic_type_table_intern_integer t k u c = (q, t)" "qt_type_id q \<noteq> 0"
    using seeds [OF steps(1)] by blast
  obtain r where float: "psx_semantic_type_table_intern_floating t f x = (r, t)" "qt_type_id r \<noteq> 0"
    using seeds [OF steps(2)] by blast
  show ?thesis
    using int float intern_integer_same [OF int] intern_floating_same [OF float] by simp
qed

text \<open>
  C28. Every walk along the links of a table the program can build returns.
\<close>

theorem type_walks_return:
  assumes "type_table_reachable t"
  shows "(\<exists>b. psx_semantic_type_table_contains_vla_array t i = Some b) \<and>
    (\<exists>r. psx_semantic_type_table_array_leaf t i = Some r \<and>
       psx_semantic_type_table_array_leaf t (qt_type_id r) \<noteq> None) \<and>
    (\<exists>n. psx_semantic_type_table_array_flat_element_count t i = Some n) \<and>
    (\<exists>r. psx_semantic_type_table_aggregate_object t q = Some r) \<and>
    (\<exists>b. psx_semantic_type_table_has_invalid_restrict_qualification t q = Some b) \<and>
    (\<exists>b. psx_semantic_type_table_has_cv_qualified_function t q = Some b)"
proof -
  note ok = reachable_ok [OF assms]
  have leaf: "\<exists>r. psx_semantic_type_table_array_leaf t j = Some r" for j
    using array_leaf_loop_returns [OF ok,
        of "related_type t \<lparr>qt_type_id = j, qt_qualifiers = PSX_TYPE_QUALIFIER_NONE\<rparr>"]
    unfolding psx_semantic_type_table_array_leaf_def semantic_type_table_array_leaf_from_def by auto
  then have "\<exists>r. psx_semantic_type_table_array_leaf t i = Some r \<and>
      psx_semantic_type_table_array_leaf t (qt_type_id r) \<noteq> None"
    by (metis option.distinct(1))
  moreover have "\<exists>n. psx_semantic_type_table_array_flat_element_count t i = Some n"
    using flat_count_loop_returns [OF ok]
    by (auto simp: psx_semantic_type_table_array_flat_element_count_def split: option.split)
  ultimately show ?thesis
    using contains_vla_returns [OF ok] aggregate_object_returns [OF ok]
      restrict_check_returns [OF ok] cv_check_returns [OF ok] by blast
qed

text \<open>
  The number of elements of a multidimensional array is its length times the stride of its first
  subscript, and the stride of a deeper subscript is that of the row. A count that is not 0 has not
  overflowed a C \<^verbatim>\<open>int\<close>.
\<close>

theorem flat_counts_are_strides:
  assumes "type_table_reachable t"
    and "psx_semantic_type_table_array_flat_element_count t i = Some n" "n \<noteq> 0"
  shows "\<exists>s m. psx_semantic_type_table_describe t i = Some s \<and> shape_kind s = PSX_TYPE_ARRAY \<and>
    psx_semantic_type_table_array_subscript_stride_elements t i 0 = Some m \<and>
    n = shape_array_len s * m \<and> 0 < m \<and> n \<le> INT_MAX \<and>
    (\<forall>d. psx_semantic_type_table_array_subscript_stride_elements t i (int (Suc d)) =
         psx_semantic_type_table_array_subscript_stride_elements t
           (qt_type_id (psx_semantic_type_table_base t i)) (int d))"
proof -
  note ok = reachable_ok [OF assms(1)]
  obtain s where s: "psx_semantic_type_table_describe t i = Some s" "shape_kind s = PSX_TYPE_ARRAY"
    using assms(2,3)
    by (auto simp: psx_semantic_type_table_array_flat_element_count_def
        split: option.splits if_splits)
  then have i: "semantic_type_id_is_valid t i" "s = entry_shape (tt_entry t i)"
    by (simp_all add: describe_Some)
  let ?b = "psx_semantic_type_table_base t i"
  have "qt_type_id ?b \<noteq> 0"
    using base_of_ok(2) [OF ok i(1)] s i
    by (auto simp: shape_requires_base_def semantic_type_id_is_valid_def)
  then have deeper: "psx_semantic_type_table_array_subscript_stride_elements t i (int (Suc d)) =
      psx_semantic_type_table_array_subscript_stride_elements t (qt_type_id ?b) (int d)" for d
    using s by (simp add: psx_semantic_type_table_array_subscript_stride_elements_def nat_add_distrib
        split: option.split)
  then show ?thesis
    using flat_count_array [OF ok i(1) _ assms(2,3)] s i by auto
qed

section \<open>Witnesses\<close>

definition start_table :: psx_semantic_type_table_t where
  "start_table = the psx_semantic_type_table_create"

lemma start_table_reachable: "type_table_reachable start_table"
proof -
  have "psx_semantic_type_table_create \<noteq> None"
    using seeding_succeeds [of None]
    by (auto simp: psx_semantic_type_table_create_def split: prod.split)
  then show ?thesis
    using type_table_reachable.create by (auto simp: start_table_def)
qed

lemma types_interned_once_witness:
  "(15 :: nat) = 15 \<and> qt_type_id (psx_semantic_type_table_base start_table 15) < 15"
proof -
  have "qt_type_id (psx_semantic_type_table_base start_table 15) \<noteq> PSX_TYPE_ID_INVALID"
    by code_simp
  moreover have "(15 :: nat) = 15 \<and>
      (qt_type_id (psx_semantic_type_table_base start_table 15) \<noteq> PSX_TYPE_ID_INVALID \<longrightarrow>
       qt_type_id (psx_semantic_type_table_base start_table 15) < 15)"
    by (rule types_interned_once [OF start_table_reachable]) code_simp+
  ultimately show ?thesis
    by simp
qed

definition int_function :: "psx_qual_type_t \<times> psx_semantic_type_table_t" where
  "int_function = psx_semantic_type_table_intern_function start_table
     \<lparr>qt_type_id = 1, qt_qualifiers = 0\<rparr> [\<lparr>qt_type_id = 7, qt_qualifiers = 1\<rparr>] True False"

lemma int_function_reachable: "type_table_reachable (snd int_function)"
  unfolding int_function_def by (intro type_table_reachable.intros start_table_reachable)

lemma function_types_roundtrip_witness:
  "psx_semantic_type_table_base (snd int_function) (qt_type_id (fst int_function)) =
     \<lparr>qt_type_id = 1, qt_qualifiers = 0\<rparr>"
proof -
  have "qt_type_id (fst int_function) \<noteq> 0"
    by code_simp
  from function_types_roundtrip [OF start_table_reachable _ this int_function_reachable table_extends_refl]
  show ?thesis
    by (simp add: int_function_def)
qed

lemma fundamental_types_found_witness:
  "psx_semantic_type_table_intern_integer start_table PSX_INTEGER_KIND_INT True False =
     (psx_semantic_type_table_fundamental_integer start_table PSX_INTEGER_KIND_INT True False,
      start_table)"
  using fundamental_types_found [OF start_table_reachable, of PSX_INTEGER_KIND_INT False True
      PSX_FLOATING_KIND_DOUBLE True]
  by (simp add: seed_integer_kinds_def)

lemma type_walks_return_witness:
  "\<exists>b. psx_semantic_type_table_contains_vla_array start_table 16 = Some b"
  using type_walks_return [OF start_table_reachable] by simp

definition int_row :: "psx_qual_type_t \<times> psx_semantic_type_table_t" where
  "int_row = psx_semantic_type_table_intern_array_of start_table
     \<lparr>qt_type_id = 7, qt_qualifiers = 0\<rparr> 4 False"

definition int_matrix :: "psx_qual_type_t \<times> psx_semantic_type_table_t" where
  "int_matrix = psx_semantic_type_table_intern_array_of (snd int_row) (fst int_row) 3 False"

lemma int_matrix_reachable: "type_table_reachable (snd int_matrix)"
  unfolding int_matrix_def int_row_def
  by (intro type_table_reachable.intros start_table_reachable)

lemma flat_counts_are_strides_witness:
  "\<exists>m. psx_semantic_type_table_array_subscript_stride_elements (snd int_matrix)
        (qt_type_id (fst int_matrix)) 0 = Some m \<and> 0 < m"
proof -
  have "psx_semantic_type_table_array_flat_element_count (snd int_matrix)
      (qt_type_id (fst int_matrix)) = Some 12"
    by code_simp
  from flat_counts_are_strides [OF int_matrix_reachable this] show ?thesis
    by auto
qed

end
