(* ===== verification/TypeCompatibility.thy ===== *)
theory TypeCompatibility
  imports TypeIdentity
begin

text \<open>
  Matching, compatibility (C11 6.2.7) and composite types of the interned types:
  \<^verbatim>\<open>src/semantic/type_identity.c\<close>, lines 573 to 869. The recursions are
  \<open>partial_function (option)\<close>; they return on every table the program can build.
\<close>

section \<open>Definitions\<close>

text \<open>A loop that returns 0 at the first element for which the test does.\<close>

primrec all_test :: "('a \<Rightarrow> bool option) \<Rightarrow> 'a list \<Rightarrow> bool option" where
  "all_test test [] = Some True"
| "all_test test (x # xs) =
    Option.bind (test x) (\<lambda>b. if \<not> b then Some False else all_test test xs)"

lemma all_test_mono [partial_function_mono]:
  assumes "\<And>x. mono_option (\<lambda>f. B x f)"
  shows "mono_option (\<lambda>f. all_test (\<lambda>x. B x f) xs)"
  by (induction xs) (auto intro!: partial_function_mono assms)

partial_function (option) semantic_qual_types_match ::
  "psx_semantic_type_table_t \<Rightarrow> psx_qual_type_t \<Rightarrow> psx_qual_type_t \<Rightarrow> bool \<Rightarrow> bool option" where
  "semantic_qual_types_match table left right compare_qualifiers =
    (if \<not> psx_semantic_type_table_qual_type_is_valid table left \<or>
        \<not> psx_semantic_type_table_qual_type_is_valid table right
     then Some False
     else if compare_qualifiers \<and> qt_qualifiers left \<noteq> qt_qualifiers right then Some False
     else if qt_type_id left = qt_type_id right then Some True
     else let left_entry = tt_entry table (qt_type_id left);
              right_entry = tt_entry table (qt_type_id right);
              left_shape = entry_shape left_entry;
              right_shape = entry_shape right_entry
     in if shape_kind left_shape \<noteq> shape_kind right_shape then Some False
     else case shape_kind left_shape of
       PSX_TYPE_POINTER \<Rightarrow>
         semantic_qual_types_match table (entry_base_type left_entry) (entry_base_type right_entry) True
     | PSX_TYPE_ARRAY \<Rightarrow>
         if shape_array_len left_shape \<noteq> shape_array_len right_shape \<or>
            shape_is_vla left_shape \<noteq> shape_is_vla right_shape
         then Some False
         else semantic_qual_types_match table
                (entry_base_type left_entry) (entry_base_type right_entry) True
     | PSX_TYPE_FUNCTION \<Rightarrow>
         if length (entry_parameter_types left_entry) \<noteq> length (entry_parameter_types right_entry) \<or>
            shape_is_variadic_function left_shape \<noteq> shape_is_variadic_function right_shape
         then Some False
         else Option.bind
                (semantic_qual_types_match table
                   (entry_base_type left_entry) (entry_base_type right_entry) True)
                (\<lambda>results_match. if \<not> results_match then Some False
                   else all_test (\<lambda>i. semantic_qual_types_match table
                            (entry_parameter_types left_entry ! i)
                            (entry_parameter_types right_entry ! i) True)
                          [0..<length (entry_parameter_types left_entry)])
     | _ \<Rightarrow> Some (semantic_type_shapes_match left_shape right_shape))"

definition psx_semantic_type_table_unqualified_types_match ::
  "psx_semantic_type_table_t \<Rightarrow> psx_qual_type_t \<Rightarrow> psx_qual_type_t \<Rightarrow> bool option" where
  "psx_semantic_type_table_unqualified_types_match table left right =
     semantic_qual_types_match table left right False"

definition semantic_integer_shapes_compatible ::
  "psx_type_shape_t \<Rightarrow> psx_type_shape_t \<Rightarrow> bool" where
  "semantic_integer_shapes_compatible left right =
    (if shape_kind left \<noteq> PSX_TYPE_INTEGER \<or> shape_kind right \<noteq> PSX_TYPE_INTEGER then False
     else let left_is_enum = (shape_integer_kind left = PSX_INTEGER_KIND_ENUM);
              right_is_enum = (shape_integer_kind right = PSX_INTEGER_KIND_ENUM)
     in if \<not> left_is_enum \<and> \<not> right_is_enum then semantic_type_shapes_match left right
     else if left_is_enum \<and> right_is_enum then semantic_type_shapes_match left right
     else let enumeration = (if left_is_enum then left else right);
              integer = (if left_is_enum then right else left);
              conversion = psx_integer_conversion_from_shape (Some integer)
     in conv_is_integer conversion \<and> conv_rank conversion = 3 \<and>
        \<not> shape_is_plain_char integer \<and>
        conv_is_unsigned conversion = shape_is_unsigned enumeration)"

definition parameter_is_unchanged_by_default_argument_promotions ::
  "psx_semantic_type_table_t \<Rightarrow> psx_qual_type_t \<Rightarrow> bool" where
  "parameter_is_unchanged_by_default_argument_promotions table parameter =
    (if \<not> semantic_type_id_is_valid table (qt_type_id parameter) then False
     else if qt_qualifiers parameter AND PSX_TYPE_QUALIFIER_ATOMIC \<noteq> 0 then True
     else let shape = entry_shape (tt_entry table (qt_type_id parameter))
     in case shape_kind shape of
          PSX_TYPE_INTEGER \<Rightarrow> shape_integer_kind shape \<ge> PSX_INTEGER_KIND_INT
        | PSX_TYPE_FLOAT \<Rightarrow> shape_floating_kind shape \<noteq> PSX_FLOATING_KIND_FLOAT
        | PSX_TYPE_COMPLEX \<Rightarrow> True
        | PSX_TYPE_POINTER \<Rightarrow> True
        | PSX_TYPE_STRUCT \<Rightarrow> True
        | PSX_TYPE_UNION \<Rightarrow> True
        | _ \<Rightarrow> False)"

text \<open>
  Two function types; \<open>compatible\<close> is the check of two qualified types, which calls this one.
\<close>

definition semantic_function_entries_compatible ::
  "(psx_qual_type_t \<Rightarrow> psx_qual_type_t \<Rightarrow> bool option) \<Rightarrow> psx_semantic_type_table_t \<Rightarrow>
   psx_semantic_type_entry_t \<Rightarrow> psx_semantic_type_entry_t \<Rightarrow> bool option" where
  "semantic_function_entries_compatible compatible table left_entry right_entry =
    Option.bind (compatible (entry_base_type left_entry) (entry_base_type right_entry))
      (\<lambda>results_compatible.
        if \<not> results_compatible then Some False
        else if shape_has_function_prototype (entry_shape left_entry) \<and>
                shape_has_function_prototype (entry_shape right_entry)
        then if length (entry_parameter_types left_entry) \<noteq>
                  length (entry_parameter_types right_entry) \<or>
                shape_is_variadic_function (entry_shape left_entry) \<noteq>
                  shape_is_variadic_function (entry_shape right_entry)
             then Some False
             else all_test (\<lambda>i. compatible (entry_parameter_types left_entry ! i)
                                          (entry_parameter_types right_entry ! i))
                    [0..<length (entry_parameter_types left_entry)]
        else if \<not> shape_has_function_prototype (entry_shape left_entry) \<and>
                \<not> shape_has_function_prototype (entry_shape right_entry)
        then if entry_parameter_types left_entry = [] \<or> entry_parameter_types right_entry = []
             then Some True
             else if length (entry_parameter_types left_entry) \<noteq>
                       length (entry_parameter_types right_entry)
             then Some False
             else all_test (\<lambda>i. compatible (entry_parameter_types left_entry ! i)
                                          (entry_parameter_types right_entry ! i))
                    [0..<length (entry_parameter_types left_entry)]
        else let prototype = (if shape_has_function_prototype (entry_shape left_entry)
                              then left_entry else right_entry);
                 old_style = (if shape_has_function_prototype (entry_shape left_entry)
                              then right_entry else left_entry)
        in if shape_is_variadic_function (entry_shape prototype) \<and>
              entry_parameter_types old_style = []
           then Some False
           else if entry_parameter_types old_style \<noteq> [] \<and>
                   length (entry_parameter_types old_style) \<noteq>
                     length (entry_parameter_types prototype)
           then Some False
           else all_test (\<lambda>i.
                  if \<not> parameter_is_unchanged_by_default_argument_promotions table
                          (entry_parameter_types prototype ! i)
                  then Some False
                  else if entry_parameter_types old_style \<noteq> []
                  then compatible (entry_parameter_types prototype ! i)
                                  (entry_parameter_types old_style ! i)
                  else Some True)
                  [0..<length (entry_parameter_types prototype)])"

lemma function_entries_mono [partial_function_mono]:
  assumes "\<And>l r. mono_option (\<lambda>f. B l r f)"
  shows "mono_option (\<lambda>f. semantic_function_entries_compatible (\<lambda>l r. B l r f) t le re)"
  unfolding semantic_function_entries_compatible_def Let_def
  by (intro partial_function_mono assms)

partial_function (option) semantic_qual_types_compatible ::
  "psx_semantic_type_table_t \<Rightarrow> psx_qual_type_t \<Rightarrow> psx_qual_type_t \<Rightarrow> bool \<Rightarrow> bool option" where
  "semantic_qual_types_compatible table left right compare_qualifiers =
    (if \<not> psx_semantic_type_table_qual_type_is_valid table left \<or>
        \<not> psx_semantic_type_table_qual_type_is_valid table right
     then Some False
     else if compare_qualifiers \<and> qt_qualifiers left \<noteq> qt_qualifiers right then Some False
     else if qt_type_id left = qt_type_id right then Some True
     else let left_entry = tt_entry table (qt_type_id left);
              right_entry = tt_entry table (qt_type_id right);
              left_shape = entry_shape left_entry;
              right_shape = entry_shape right_entry
     in if shape_kind left_shape \<noteq> shape_kind right_shape then Some False
     else case shape_kind left_shape of
       PSX_TYPE_INTEGER \<Rightarrow> Some (semantic_integer_shapes_compatible left_shape right_shape)
     | PSX_TYPE_POINTER \<Rightarrow>
         semantic_qual_types_compatible table
           (entry_base_type left_entry) (entry_base_type right_entry) True
     | PSX_TYPE_ARRAY \<Rightarrow>
         let left_has_constant_bound = (\<not> shape_is_vla left_shape \<and> shape_array_len left_shape > 0);
             right_has_constant_bound = (\<not> shape_is_vla right_shape \<and> shape_array_len right_shape > 0)
         in if left_has_constant_bound \<and> right_has_constant_bound \<and>
               shape_array_len left_shape \<noteq> shape_array_len right_shape
            then Some False
            else semantic_qual_types_compatible table
                   (entry_base_type left_entry) (entry_base_type right_entry) True
     | PSX_TYPE_FUNCTION \<Rightarrow>
         semantic_function_entries_compatible
           (\<lambda>l r. semantic_qual_types_compatible table l r True) table left_entry right_entry
     | _ \<Rightarrow> Some (semantic_type_shapes_match left_shape right_shape))"

definition psx_semantic_type_table_types_compatible ::
  "psx_semantic_type_table_t \<Rightarrow> psx_qual_type_t \<Rightarrow> psx_qual_type_t \<Rightarrow> bool option" where
  "psx_semantic_type_table_types_compatible table left right =
     semantic_qual_types_compatible table left right True"

definition psx_semantic_type_table_function_types_compatible ::
  "psx_semantic_type_table_t \<Rightarrow> psx_qual_type_t \<Rightarrow> psx_qual_type_t \<Rightarrow> bool option" where
  "psx_semantic_type_table_function_types_compatible table left right =
    (case (psx_semantic_type_table_describe table (qt_type_id left),
           psx_semantic_type_table_describe table (qt_type_id right)) of
       (Some left_shape, Some right_shape) \<Rightarrow>
         if shape_kind left_shape = PSX_TYPE_FUNCTION \<and> shape_kind right_shape = PSX_TYPE_FUNCTION
         then semantic_qual_types_compatible table left right True
         else Some False
     | _ \<Rightarrow> Some False)"

text \<open>
  The parameters of a composite function type, from left to right; \<open>None\<close> in the first component
  when one has no composite, with what was interned until then left in the table.
\<close>

primrec composite_parameters ::
  "(psx_semantic_type_table_t \<Rightarrow> psx_qual_type_t \<Rightarrow> psx_qual_type_t \<Rightarrow>
      (psx_qual_type_t \<times> psx_semantic_type_table_t) option) \<Rightarrow>
   psx_qual_type_t list \<Rightarrow> psx_qual_type_t list \<Rightarrow> nat list \<Rightarrow> psx_semantic_type_table_t \<Rightarrow>
   (psx_qual_type_t list option \<times> psx_semantic_type_table_t) option" where
  "composite_parameters composite left right [] table = Some (Some [], table)"
| "composite_parameters composite left right (i # indices) table =
    Option.bind
      (if i < length left \<and> i < length right then composite table (left ! i) (right ! i)
       else if i < length left then Some (left ! i, table)
       else Some (right ! i, table))
      (\<lambda>result. if qt_type_id (fst result) = PSX_TYPE_ID_INVALID then Some (None, snd result)
         else Option.bind (composite_parameters composite left right indices (snd result))
                (\<lambda>rest. Some (map_option (\<lambda>ps. fst result # ps) (fst rest), snd rest)))"

lemma composite_parameters_mono [partial_function_mono]:
  assumes "\<And>t l r. mono_option (\<lambda>f. B t l r f)"
  shows "mono_option (\<lambda>f. composite_parameters (\<lambda>t l r. B t l r f) ls rs is t)"
proof (induction "is" arbitrary: t)
  case (Cons i "is")
  then show ?case
    unfolding composite_parameters.simps by (intro partial_function_mono assms Cons.IH)
qed (auto intro: partial_function_mono)

text \<open>The interned composite keeps the qualifiers of the left operand.\<close>

definition requalify ::
  "psx_type_qualifiers_t \<Rightarrow> psx_qual_type_t \<times> psx_semantic_type_table_t \<Rightarrow>
   psx_qual_type_t \<times> psx_semantic_type_table_t" where
  "requalify qualifiers result =
    (if qt_type_id (fst result) \<noteq> PSX_TYPE_ID_INVALID
     then ((fst result)\<lparr>qt_qualifiers := qualifiers\<rparr>, snd result) else result)"

partial_function (option) semantic_composite_qual_types ::
  "psx_semantic_type_table_t \<Rightarrow> psx_qual_type_t \<Rightarrow> psx_qual_type_t \<Rightarrow>
   (psx_qual_type_t \<times> psx_semantic_type_table_t) option" where
  "semantic_composite_qual_types table left right =
    Option.bind (semantic_qual_types_compatible table left right True) (\<lambda>compatible.
     if \<not> compatible then Some (invalid_qual_type, table)
     else if qt_type_id left = qt_type_id right then Some (left, table)
     else let left_entry = tt_entry table (qt_type_id left);
              right_entry = tt_entry table (qt_type_id right);
              left_shape = entry_shape left_entry;
              right_shape = entry_shape right_entry
     in case shape_kind left_shape of
       PSX_TYPE_POINTER \<Rightarrow>
         Option.bind (semantic_composite_qual_types table
                        (entry_base_type left_entry) (entry_base_type right_entry))
           (\<lambda>pointee. if qt_type_id (fst pointee) = PSX_TYPE_ID_INVALID
              then Some (invalid_qual_type, snd pointee)
              else Some (requalify (qt_qualifiers left)
                     (psx_semantic_type_table_intern_pointer_to (snd pointee) (fst pointee))))
     | PSX_TYPE_ARRAY \<Rightarrow>
         Option.bind (semantic_composite_qual_types table
                        (entry_base_type left_entry) (entry_base_type right_entry))
           (\<lambda>element. if qt_type_id (fst element) = PSX_TYPE_ID_INVALID
              then Some (invalid_qual_type, snd element)
              else let (array_len, is_vla) =
                     (if \<not> shape_is_vla left_shape \<and> shape_array_len left_shape > 0
                      then (shape_array_len left_shape, False)
                      else if \<not> shape_is_vla right_shape \<and> shape_array_len right_shape > 0
                      then (shape_array_len right_shape, False)
                      else (0, shape_is_vla left_shape \<or> shape_is_vla right_shape))
              in Some (requalify (qt_qualifiers left)
                   (psx_semantic_type_table_intern_array_of (snd element) (fst element)
                      array_len is_vla)))
     | PSX_TYPE_FUNCTION \<Rightarrow>
         Option.bind (semantic_composite_qual_types table
                        (entry_base_type left_entry) (entry_base_type right_entry))
           (\<lambda>result. if qt_type_id (fst result) = PSX_TYPE_ID_INVALID
              then Some (invalid_qual_type, snd result)
              else let prototype =
                         (if shape_has_function_prototype left_shape then Some left_entry
                          else if shape_has_function_prototype right_shape then Some right_entry
                          else None);
                       parameter_count =
                         (case prototype of
                            Some p \<Rightarrow> length (entry_parameter_types p)
                          | None \<Rightarrow> if entry_parameter_types left_entry \<noteq> []
                                    then length (entry_parameter_types left_entry)
                                    else length (entry_parameter_types right_entry))
              in Option.bind
                   (composite_parameters (\<lambda>t l r. semantic_composite_qual_types t l r)
                      (entry_parameter_types left_entry) (entry_parameter_types right_entry)
                      [0..<parameter_count] (snd result))
                   (\<lambda>parameters. case fst parameters of
                      None \<Rightarrow> Some (invalid_qual_type, snd parameters)
                    | Some ps \<Rightarrow> Some (requalify (qt_qualifiers left)
                        (psx_semantic_type_table_intern_function (snd parameters) (fst result) ps
                           (prototype \<noteq> None)
                           (case prototype of
                              Some p \<Rightarrow> shape_is_variadic_function (entry_shape p)
                            | None \<Rightarrow> False)))))
     | _ \<Rightarrow> Some (requalify (qt_qualifiers left) (left, table)))"

definition psx_semantic_type_table_composite_type ::
  "psx_semantic_type_table_t \<Rightarrow> psx_qual_type_t \<Rightarrow> psx_qual_type_t \<Rightarrow>
   (psx_qual_type_t \<times> psx_semantic_type_table_t) option" where
  "psx_semantic_type_table_composite_type table left right =
     semantic_composite_qual_types table left right"

declare semantic_qual_types_match.simps [code]
  semantic_qual_types_compatible.simps [code]
  semantic_composite_qual_types.simps [code]

section \<open>What a positive answer means\<close>

lemma bind_test_True:
  "Option.bind m (\<lambda>b. if \<not> b then Some False else k) = Some True \<longleftrightarrow> m = Some True \<and> k = Some True"
  by (cases m) auto

lemma all_test_True: "all_test f xs = Some True \<longleftrightarrow> (\<forall>x \<in> set xs. f x = Some True)"
  by (induction xs) (auto simp: bind_test_True)

lemma all_test_returns:
  "(\<And>x. x \<in> set xs \<Longrightarrow> \<exists>b. f x = Some b) \<Longrightarrow> \<exists>b. all_test f xs = Some b"
  by (induction xs) force+

abbreviation qual_valid :: "psx_semantic_type_table_t \<Rightarrow> psx_qual_type_t \<Rightarrow> bool" where
  "qual_valid \<equiv> psx_semantic_type_table_qual_type_is_valid"

abbreviation compatible :: "psx_semantic_type_table_t \<Rightarrow> psx_qual_type_t \<Rightarrow> psx_qual_type_t \<Rightarrow> bool" where
  "compatible t l r \<equiv> semantic_qual_types_compatible t l r True = Some True"

definition constant_bound :: "psx_type_shape_t \<Rightarrow> bool" where
  "constant_bound s \<longleftrightarrow> \<not> shape_is_vla s \<and> shape_array_len s > 0"

text \<open>Two function types of which the first has a prototype and the second has not.\<close>

definition fits_old_style ::
  "psx_semantic_type_table_t \<Rightarrow> psx_semantic_type_entry_t \<Rightarrow> psx_semantic_type_entry_t \<Rightarrow> bool" where
  "fits_old_style t prototype old_style \<longleftrightarrow>
     (shape_is_variadic_function (entry_shape prototype) \<longrightarrow> entry_parameter_types old_style \<noteq> []) \<and>
     (entry_parameter_types old_style \<noteq> [] \<longrightarrow>
        length (entry_parameter_types old_style) = length (entry_parameter_types prototype)) \<and>
     (\<forall>i < length (entry_parameter_types prototype).
        parameter_is_unchanged_by_default_argument_promotions t (entry_parameter_types prototype ! i) \<and>
        (entry_parameter_types old_style \<noteq> [] \<longrightarrow>
           compatible t (entry_parameter_types prototype ! i) (entry_parameter_types old_style ! i)))"

definition same_parameters ::
  "psx_semantic_type_table_t \<Rightarrow> psx_semantic_type_entry_t \<Rightarrow> psx_semantic_type_entry_t \<Rightarrow> bool" where
  "same_parameters t e f \<longleftrightarrow>
     length (entry_parameter_types e) = length (entry_parameter_types f) \<and>
     (\<forall>i < length (entry_parameter_types e).
        compatible t (entry_parameter_types e ! i) (entry_parameter_types f ! i))"

definition functions_compatible ::
  "psx_semantic_type_table_t \<Rightarrow> psx_semantic_type_entry_t \<Rightarrow> psx_semantic_type_entry_t \<Rightarrow> bool" where
  "functions_compatible t e f \<longleftrightarrow>
     compatible t (entry_base_type e) (entry_base_type f) \<and>
     (case (shape_has_function_prototype (entry_shape e), shape_has_function_prototype (entry_shape f)) of
        (True, True) \<Rightarrow> same_parameters t e f \<and>
          shape_is_variadic_function (entry_shape e) = shape_is_variadic_function (entry_shape f)
      | (False, False) \<Rightarrow> entry_parameter_types e = [] \<or> entry_parameter_types f = [] \<or>
          same_parameters t e f
      | (True, False) \<Rightarrow> fits_old_style t e f
      | (False, True) \<Rightarrow> fits_old_style t f e)"

definition entries_compatible ::
  "psx_semantic_type_table_t \<Rightarrow> psx_semantic_type_entry_t \<Rightarrow> psx_semantic_type_entry_t \<Rightarrow> bool" where
  "entries_compatible t e f \<longleftrightarrow>
     shape_kind (entry_shape e) = shape_kind (entry_shape f) \<and>
     (case shape_kind (entry_shape e) of
        PSX_TYPE_INTEGER \<Rightarrow> semantic_integer_shapes_compatible (entry_shape e) (entry_shape f)
      | PSX_TYPE_POINTER \<Rightarrow> compatible t (entry_base_type e) (entry_base_type f)
      | PSX_TYPE_ARRAY \<Rightarrow>
          (constant_bound (entry_shape e) \<and> constant_bound (entry_shape f) \<longrightarrow>
             shape_array_len (entry_shape e) = shape_array_len (entry_shape f)) \<and>
          compatible t (entry_base_type e) (entry_base_type f)
      | PSX_TYPE_FUNCTION \<Rightarrow> functions_compatible t e f
      | _ \<Rightarrow> semantic_type_shapes_match (entry_shape e) (entry_shape f))"

lemma if_some_False: "(if b then Some False else m) = Some True \<longleftrightarrow> \<not> b \<and> m = Some True"
  by simp

lemma function_entries_True:
  "semantic_function_entries_compatible (\<lambda>l r. semantic_qual_types_compatible t l r True) t e f =
     Some True \<longleftrightarrow> functions_compatible t e f"
  unfolding semantic_function_entries_compatible_def functions_compatible_def bind_test_True
    same_parameters_def fits_old_style_def Let_def
  by (cases "shape_has_function_prototype (entry_shape e)";
      cases "shape_has_function_prototype (entry_shape f)")
    (auto simp: if_some_False all_test_True split: if_splits)

lemma compatible_iff:
  "semantic_qual_types_compatible t l r c = Some True \<longleftrightarrow>
     qual_valid t l \<and> qual_valid t r \<and> (c \<longrightarrow> qt_qualifiers l = qt_qualifiers r) \<and>
     (qt_type_id l = qt_type_id r \<or>
      entries_compatible t (tt_entry t (qt_type_id l)) (tt_entry t (qt_type_id r)))"
  unfolding semantic_qual_types_compatible.simps [of t l r c] entries_compatible_def
    constant_bound_def Let_def
  by (cases "shape_kind (entry_shape (tt_entry t (qt_type_id l)))")
    (auto simp: function_entries_True)

text \<open>The parts of an entry that the check visits.\<close>

lemma functions_compatible_cong:
  assumes "\<And>p q. p = entry_base_type e \<or> p \<in> set (entry_parameter_types e) \<Longrightarrow>
      q = entry_base_type f \<or> q \<in> set (entry_parameter_types f) \<Longrightarrow>
      (compatible t p q \<longleftrightarrow> compatible u p q) \<and> (compatible t q p \<longleftrightarrow> compatible u q p)"
    and "\<And>p. p \<in> set (entry_parameter_types e) \<or> p \<in> set (entry_parameter_types f) \<Longrightarrow>
      parameter_is_unchanged_by_default_argument_promotions t p =
      parameter_is_unchanged_by_default_argument_promotions u p"
  shows "functions_compatible t e f = functions_compatible u e f"
proof -
  have same: "same_parameters t e f = same_parameters u e f"
    using assms(1) by (auto simp: same_parameters_def)
  have "fits_old_style t e f = fits_old_style u e f" "fits_old_style t f e = fits_old_style u f e"
    using assms by (auto simp: fits_old_style_def)
  then show ?thesis
    using same assms(1) by (simp add: functions_compatible_def split: bool.split)
qed

section \<open>The checks return\<close>

lemma bind_returns_test:
  "\<exists>b. m = Some b \<Longrightarrow> \<exists>b. k = Some b \<Longrightarrow>
     \<exists>b. Option.bind m (\<lambda>b. if \<not> b then Some False else k) = Some b"
  by auto

lemma entry_link_smaller:
  assumes "type_table_ok t" "semantic_type_id_is_valid t i"
    and "p = entry_base_type (tt_entry t i) \<and>
           shape_requires_base (shape_kind (entry_shape (tt_entry t i))) \<or>
         p \<in> set (entry_parameter_types (tt_entry t i))"
  shows "semantic_type_id_is_valid t (qt_type_id p)" "qt_type_id p < i"
  using assms ok_base [OF assms(1,2)] ok_parameter [OF assms(1,2)] by auto

lemma links_sum_less:
  assumes "type_table_ok t" "semantic_type_id_is_valid t i" "semantic_type_id_is_valid t j"
    and "shape_requires_base (shape_kind (entry_shape (tt_entry t i)))"
    and "shape_kind (entry_shape (tt_entry t j)) = shape_kind (entry_shape (tt_entry t i))"
    and "p = entry_base_type (tt_entry t i) \<or> p \<in> set (entry_parameter_types (tt_entry t i))"
    and "q = entry_base_type (tt_entry t j) \<or> q \<in> set (entry_parameter_types (tt_entry t j))"
  shows "qt_type_id p + qt_type_id q < i + j" "qt_type_id q + qt_type_id p < i + j"
proof -
  have "qt_type_id p < i"
    by (rule entry_link_smaller(2) [OF assms(1,2)]) (use assms(4,6) in blast)
  moreover have "qt_type_id q < j"
    by (rule entry_link_smaller(2) [OF assms(1,3)]) (use assms(4,5,7) in auto)
  ultimately show "qt_type_id p + qt_type_id q < i + j" "qt_type_id q + qt_type_id p < i + j"
    by simp_all
qed

lemma qual_validD: "qual_valid t q \<Longrightarrow> semantic_type_id_is_valid t (qt_type_id q)"
  by (simp add: psx_semantic_type_table_qual_type_is_valid_def Let_def)

lemma function_entries_return:
  assumes "\<And>p q. p = entry_base_type e \<or> p \<in> set (entry_parameter_types e) \<Longrightarrow>
      q = entry_base_type f \<or> q \<in> set (entry_parameter_types f) \<Longrightarrow>
      (\<exists>b. C p q = Some b) \<and> (\<exists>b. C q p = Some b)"
  shows "\<exists>b. semantic_function_entries_compatible C t e f = Some b"
proof -
  have same: "\<exists>b. all_test (\<lambda>i. C (entry_parameter_types e ! i) (entry_parameter_types f ! i))
      [0..<length (entry_parameter_types e)] = Some b"
    if "length (entry_parameter_types e) = length (entry_parameter_types f)"
    using that assms by (intro all_test_returns) auto
  have old: "\<exists>b. all_test (\<lambda>i.
        if \<not> parameter_is_unchanged_by_default_argument_promotions t (entry_parameter_types p ! i)
        then Some False
        else if entry_parameter_types q \<noteq> [] then C (entry_parameter_types p ! i)
          (entry_parameter_types q ! i)
        else Some True) [0..<length (entry_parameter_types p)] = Some b"
    if "p = e \<and> q = f \<or> p = f \<and> q = e"
      "entry_parameter_types q \<noteq> [] \<longrightarrow> length (entry_parameter_types q) = length (entry_parameter_types p)"
    for p q
    using that assms by (intro all_test_returns) auto
  have base: "\<exists>b. C (entry_base_type e) (entry_base_type f) = Some b"
    using assms by blast
  show ?thesis
    unfolding semantic_function_entries_compatible_def Let_def
    using base same old [of e f] old [of f e]
    by (intro bind_returns_test) (auto simp del: all_test.simps)
qed

lemma compatible_returns:
  assumes ok: "type_table_ok t"
  shows "\<exists>b. semantic_qual_types_compatible t l r c = Some b"
proof (induction "qt_type_id l + qt_type_id r" arbitrary: l r c rule: less_induct)
  case less
  show ?case
  proof (cases "qual_valid t l \<and> qual_valid t r")
    case True
    then have valid: "semantic_type_id_is_valid t (qt_type_id l)" "semantic_type_id_is_valid t (qt_type_id r)"
      by (simp_all add: qual_validD)
    let ?e = "tt_entry t (qt_type_id l)" and ?f = "tt_entry t (qt_type_id r)"
    have rec: "(\<exists>b. semantic_qual_types_compatible t p q True = Some b) \<and>
        (\<exists>b. semantic_qual_types_compatible t q p True = Some b)"
      if "shape_requires_base (shape_kind (entry_shape ?e))"
        "shape_kind (entry_shape ?f) = shape_kind (entry_shape ?e)"
        "p = entry_base_type ?e \<or> p \<in> set (entry_parameter_types ?e)"
        "q = entry_base_type ?f \<or> q \<in> set (entry_parameter_types ?f)" for p q
      using links_sum_less [OF ok valid that] less by blast
    have funs: "\<exists>b. semantic_function_entries_compatible
        (\<lambda>l r. semantic_qual_types_compatible t l r True) t ?e ?f = Some b"
      if "shape_kind (entry_shape ?e) = PSX_TYPE_FUNCTION"
        "shape_kind (entry_shape ?f) = shape_kind (entry_shape ?e)"
      by (rule function_entries_return, rule rec) (simp_all add: that shape_requires_base_def)
    show ?thesis
      unfolding semantic_qual_types_compatible.simps [of t l r c] Let_def
      using rec [of "entry_base_type ?e" "entry_base_type ?f"] funs
      by (cases "shape_kind (entry_shape ?e)") (auto simp: shape_requires_base_def)
  qed (auto simp: semantic_qual_types_compatible.simps [of t l r c])
qed

section \<open>Compatibility is symmetric\<close>

lemma integer_shapes_compatible_sym:
  "semantic_integer_shapes_compatible s u = semantic_integer_shapes_compatible u s"
  by (auto simp: semantic_integer_shapes_compatible_def Let_def dest: shapes_match_sym)

lemma compatible_sym_aux:
  assumes ok: "type_table_ok t"
  shows "semantic_qual_types_compatible t l r c = Some True \<Longrightarrow>
    semantic_qual_types_compatible t r l c = Some True"
proof (induction "qt_type_id l + qt_type_id r" arbitrary: l r c rule: less_induct)
  case less
  let ?e = "tt_entry t (qt_type_id l)" and ?f = "tt_entry t (qt_type_id r)"
  have valid: "semantic_type_id_is_valid t (qt_type_id l)" "semantic_type_id_is_valid t (qt_type_id r)"
    using less.prems by (simp_all add: compatible_iff qual_validD)
  have rec: "compatible t p q \<Longrightarrow> compatible t q p"
    if "shape_requires_base (shape_kind (entry_shape ?e))"
      "shape_kind (entry_shape ?f) = shape_kind (entry_shape ?e)"
      "p = entry_base_type ?e \<or> p \<in> set (entry_parameter_types ?e)"
      "q = entry_base_type ?f \<or> q \<in> set (entry_parameter_types ?f)" for p q
    using links_sum_less [OF ok valid that] less.hyps by blast
  have "entries_compatible t ?f ?e" if e: "entries_compatible t ?e ?f"
  proof -
    have kind: "shape_kind (entry_shape ?f) = shape_kind (entry_shape ?e)"
      using e by (simp add: entries_compatible_def)
    have funs: "functions_compatible t ?f ?e"
      if "shape_kind (entry_shape ?e) = PSX_TYPE_FUNCTION" "functions_compatible t ?e ?f"
    proof -
      have "same_parameters t ?e ?f \<Longrightarrow> same_parameters t ?f ?e"
        using rec kind that(1) by (auto simp: same_parameters_def shape_requires_base_def)
      then show ?thesis
        using that rec kind
        by (auto simp: functions_compatible_def shape_requires_base_def split: bool.splits)
    qed
    show ?thesis
      using e kind rec funs integer_shapes_compatible_sym shapes_match_sym
      by (cases "shape_kind (entry_shape ?e)")
        (auto simp: entries_compatible_def shape_requires_base_def)
  qed
  then show ?case
    using less.prems by (auto simp: compatible_iff)
qed

lemma compatible_sym_option:
  assumes "type_table_ok t"
  shows "semantic_qual_types_compatible t l r c = semantic_qual_types_compatible t r l c"
proof -
  obtain a b where "semantic_qual_types_compatible t l r c = Some a"
    "semantic_qual_types_compatible t r l c = Some b"
    using compatible_returns [OF assms] by metis
  then show ?thesis
    using compatible_sym_aux [OF assms, of l r c] compatible_sym_aux [OF assms, of r l c]
    by (cases a; cases b) simp_all
qed

section \<open>Later tables agree\<close>

lemma unchanged_extends:
  assumes "table_extends t u" "semantic_type_id_is_valid t (qt_type_id p)"
  shows "parameter_is_unchanged_by_default_argument_promotions u p =
    parameter_is_unchanged_by_default_argument_promotions t p"
  using table_extends_valid [OF assms] assms(2)
  by (simp add: parameter_is_unchanged_by_default_argument_promotions_def)

lemma qual_valid_extends: "table_extends t u \<Longrightarrow> qual_valid t q \<Longrightarrow> qual_valid u q"
  using table_extends_valid(1)
  by (simp add: psx_semantic_type_table_qual_type_is_valid_def Let_def)

lemma compatible_extends:
  assumes ok: "type_table_ok t" and ext: "table_extends t u"
  shows "semantic_qual_types_compatible t l r c = Some True \<Longrightarrow>
    semantic_qual_types_compatible u l r c = Some True"
proof (induction "qt_type_id l + qt_type_id r" arbitrary: l r c rule: less_induct)
  case less
  let ?e = "tt_entry t (qt_type_id l)" and ?f = "tt_entry t (qt_type_id r)"
  have valid: "semantic_type_id_is_valid t (qt_type_id l)" "semantic_type_id_is_valid t (qt_type_id r)"
    using less.prems by (simp_all add: compatible_iff qual_validD)
  have same: "tt_entry u (qt_type_id l) = ?e" "tt_entry u (qt_type_id r) = ?f"
    using table_extends_valid(2) [OF ext] valid by simp_all
  have rec: "(compatible t p q \<longrightarrow> compatible u p q) \<and> (compatible t q p \<longrightarrow> compatible u q p)"
    if "shape_requires_base (shape_kind (entry_shape ?e))"
      "shape_kind (entry_shape ?f) = shape_kind (entry_shape ?e)"
      "p = entry_base_type ?e \<or> p \<in> set (entry_parameter_types ?e)"
      "q = entry_base_type ?f \<or> q \<in> set (entry_parameter_types ?f)" for p q
    using links_sum_less [OF ok valid that] less.hyps by blast
  have unchanged: "parameter_is_unchanged_by_default_argument_promotions u p =
      parameter_is_unchanged_by_default_argument_promotions t p"
    if "p \<in> set (entry_parameter_types ?e) \<or> p \<in> set (entry_parameter_types ?f)" for p
    using that ok_parameter(1) [OF ok valid(1), of p] ok_parameter(1) [OF ok valid(2), of p]
    by (auto simp: unchanged_extends [OF ext])
  have "entries_compatible u ?e ?f" if e: "entries_compatible t ?e ?f"
  proof -
    have kind: "shape_kind (entry_shape ?f) = shape_kind (entry_shape ?e)"
      using e by (simp add: entries_compatible_def)
    have funs: "functions_compatible u ?e ?f"
      if k: "shape_kind (entry_shape ?e) = PSX_TYPE_FUNCTION" and f: "functions_compatible t ?e ?f"
    proof -
      have links: "shape_requires_base (shape_kind (entry_shape ?e))"
        by (simp add: k shape_requires_base_def)
      note rec' = rec [OF links kind]
      have "same_parameters t ?e ?f \<Longrightarrow> same_parameters u ?e ?f"
        using rec' by (auto simp: same_parameters_def)
      moreover have "fits_old_style t ?e ?f \<Longrightarrow> fits_old_style u ?e ?f"
        "fits_old_style t ?f ?e \<Longrightarrow> fits_old_style u ?f ?e"
        using rec' unchanged by (auto simp: fits_old_style_def)
      ultimately show ?thesis
        using f rec' by (auto simp: functions_compatible_def split: bool.splits)
    qed
    show ?thesis
      using e kind rec funs
      by (cases "shape_kind (entry_shape ?e)")
        (auto simp: entries_compatible_def shape_requires_base_def)
  qed
  then show ?case
    using less.prems same qual_valid_extends [OF ext] by (auto simp: compatible_iff)
qed

section \<open>Promotions and compatible parameters\<close>

lemma shape_rank_INT:
  assumes "integer_shape_ok s" "shape_kind s = PSX_TYPE_INTEGER"
    and "shape_integer_kind s \<noteq> PSX_INTEGER_KIND_ENUM"
  shows "shape_integer_kind s \<ge> PSX_INTEGER_KIND_INT \<longleftrightarrow> 3 \<le> shape_rank s"
  using assms
  by (cases "shape_integer_kind s")
    (auto simp: integer_shape_ok_def shape_rank_def less_eq_psx_integer_kind_t_def Let_def
      zero_conversion_def)

lemma integer_compatible_INT:
  assumes "integer_shape_ok s" "integer_shape_ok u" "semantic_integer_shapes_compatible s u"
  shows "shape_integer_kind s \<ge> PSX_INTEGER_KIND_INT \<longleftrightarrow>
    shape_integer_kind u \<ge> PSX_INTEGER_KIND_INT"
proof -
  have kinds: "shape_kind s = PSX_TYPE_INTEGER" "shape_kind u = PSX_TYPE_INTEGER"
    using assms(3) by (auto simp: semantic_integer_shapes_compatible_def split: if_splits)
  have enum: "PSX_INTEGER_KIND_ENUM \<ge> PSX_INTEGER_KIND_INT"
    by (simp add: less_eq_psx_integer_kind_t_def)
  show ?thesis
    using assms kinds enum shape_rank_INT [OF assms(1) kinds(1)] shape_rank_INT [OF assms(2) kinds(2)]
    by (cases "shape_integer_kind s = PSX_INTEGER_KIND_ENUM";
        cases "shape_integer_kind u = PSX_INTEGER_KIND_ENUM")
      (simp_all add: semantic_integer_shapes_compatible_def shapes_match_integer Let_def
        shape_rank_def del: psx_integer_conversion_from_shape.simps)
qed

lemma unchanged_compatible:
  assumes ok: "type_table_ok t" and "compatible t p q"
  shows "parameter_is_unchanged_by_default_argument_promotions t p =
    parameter_is_unchanged_by_default_argument_promotions t q"
proof (cases "qt_type_id p = qt_type_id q")
  case True
  then show ?thesis
    using assms(2)
    by (simp add: compatible_iff parameter_is_unchanged_by_default_argument_promotions_def)
next
  case False
  let ?e = "entry_shape (tt_entry t (qt_type_id p))" and ?f = "entry_shape (tt_entry t (qt_type_id q))"
  have valid: "semantic_type_id_is_valid t (qt_type_id p)" "semantic_type_id_is_valid t (qt_type_id q)"
    and quals: "qt_qualifiers p = qt_qualifiers q"
    and entries: "entries_compatible t (tt_entry t (qt_type_id p)) (tt_entry t (qt_type_id q))"
    using assms(2) False by (simp_all add: compatible_iff qual_validD)
  have int: "integer_shape_ok ?e" "integer_shape_ok ?f"
    using ok_entry(1) [OF ok] valid by (simp_all add: ok_valid_iff [OF ok] entry_shape_ok_def)
  have kind: "shape_kind ?f = shape_kind ?e"
    using entries by (simp add: entries_compatible_def)
  show ?thesis
    using valid quals kind entries integer_compatible_INT [OF int]
    by (cases "shape_kind ?e")
      (simp_all add: parameter_is_unchanged_by_default_argument_promotions_def entries_compatible_def
        shapes_match_by_kind)
qed

section \<open>Composite types\<close>

text \<open>
  The types inside a type carry no unknown qualifier bits; interning does not check this, and a
  type that does is not even compatible with itself inside another.
\<close>

definition supported :: "psx_qual_type_t \<Rightarrow> bool" where
  "supported q \<longleftrightarrow> qt_qualifiers q AND NOT 15 = 0"

definition qualifiers_known :: "psx_semantic_type_table_t \<Rightarrow> bool" where
  "qualifiers_known t \<longleftrightarrow>
     (\<forall>e \<in> set (tt_entries t). supported (entry_base_type e) \<and>
        (\<forall>p \<in> set (entry_parameter_types e). supported p))"

lemma qual_valid_iff: "qual_valid t q \<longleftrightarrow> supported q \<and> semantic_type_id_is_valid t (qt_type_id q)"
  by (simp add: psx_semantic_type_table_qual_type_is_valid_def supported_def Let_def)

lemma supported_zero: "qt_qualifiers q = 0 \<Longrightarrow> supported q"
  by (simp add: supported_def)

lemma known_entry:
  assumes "qualifiers_known t" "semantic_type_id_is_valid t i"
  shows "supported (entry_base_type (tt_entry t i))"
    and "p \<in> set (entry_parameter_types (tt_entry t i)) \<Longrightarrow> supported p"
proof -
  have "tt_entry t i \<in> set (tt_entries t)"
    using assms(2) by (auto simp: semantic_type_id_is_valid_def tt_entry_def tt_next_id_def)
  then show "supported (entry_base_type (tt_entry t i))"
    "p \<in> set (entry_parameter_types (tt_entry t i)) \<Longrightarrow> supported p"
    using assms(1) by (auto simp: qualifiers_known_def)
qed

lemma intern_shape_known:
  assumes "qualifiers_known t" "supported b" "\<forall>p \<in> set ps. supported p"
  shows "qualifiers_known (snd (psx_semantic_type_table_intern_shape t s b ps))"
  using assms
  by (auto simp: qualifiers_known_def psx_semantic_type_table_intern_shape_def Let_def)

definition composite_of ::
  "psx_semantic_type_table_t \<Rightarrow> psx_qual_type_t \<Rightarrow> psx_qual_type_t \<Rightarrow>
   psx_qual_type_t \<times> psx_semantic_type_table_t \<Rightarrow> bool" where
  "composite_of t l r res \<longleftrightarrow>
     type_table_ok (snd res) \<and> qualifiers_known (snd res) \<and> table_extends t (snd res) \<and>
     (if qt_type_id (fst res) = 0 then int (tt_next_id (snd res)) = UINT_MAX
      else compatible (snd res) (fst res) l \<and> compatible (snd res) (fst res) r)"

lemma full_stays:
  assumes "int (tt_next_id t) = UINT_MAX" "table_extends t u" "type_table_ok u"
  shows "int (tt_next_id u) = UINT_MAX"
  using assms by (auto simp: table_extends_def type_table_ok_def tt_next_id_def)

lemma requalify_simps [simp]:
  "qt_type_id (fst (requalify k res)) = qt_type_id (fst res)"
  "snd (requalify k res) = snd res"
  "qt_type_id (fst res) \<noteq> 0 \<Longrightarrow> qt_qualifiers (fst (requalify k res)) = k"
  by (simp_all add: requalify_def)

text \<open>A type made of compatible parts is compatible.\<close>

lemma compatible_made:
  assumes "table_extends t u" "qual_valid t l" "semantic_type_id_is_valid u (qt_type_id q)"
    and "qt_qualifiers q = qt_qualifiers l"
    and "entries_compatible u (tt_entry u (qt_type_id q)) (tt_entry t (qt_type_id l))"
  shows "compatible u q l"
  using assms table_extends_valid [OF assms(1), of "qt_type_id l"]
  by (simp add: compatible_iff qual_valid_iff supported_def)

lemma compatible_refl: "qual_valid t q \<Longrightarrow> semantic_qual_types_compatible t q q c = Some True"
  by (simp add: compatible_iff)

lemma composite_of_made:
  assumes "type_table_ok u" "qualifiers_known u" "table_extends t u"
    and "compatible t l r" "qt_type_id (fst res) \<noteq> 0"
    and "snd res = u" "semantic_type_id_is_valid u (qt_type_id (fst res))"
    and "entries_compatible u (tt_entry u (qt_type_id (fst res))) (tt_entry t (qt_type_id l))"
    and "entries_compatible u (tt_entry u (qt_type_id (fst res))) (tt_entry t (qt_type_id r))"
  shows "composite_of t l r (requalify (qt_qualifiers l) res)"
  using assms compatible_made [OF assms(3), of l "fst (requalify (qt_qualifiers l) res)"]
    compatible_made [OF assms(3), of r "fst (requalify (qt_qualifiers l) res)"]
  by (simp add: composite_of_def compatible_iff [of t l r])

lemma composite_of_full:
  assumes "type_table_ok (snd res)" "qualifiers_known (snd res)" "table_extends t (snd res)"
    and "qt_type_id (fst res) = 0" "int (tt_next_id (snd res)) = UINT_MAX"
  shows "composite_of t l r res"
  using assms by (simp add: composite_of_def)

lemma composite_ofD:
  assumes "composite_of t l r res"
  shows "type_table_ok (snd res)" "qualifiers_known (snd res)" "table_extends t (snd res)"
    and "qt_type_id (fst res) = 0 \<Longrightarrow> int (tt_next_id (snd res)) = UINT_MAX"
    and "qt_type_id (fst res) \<noteq> 0 \<Longrightarrow> compatible (snd res) (fst res) l"
    and "qt_type_id (fst res) \<noteq> 0 \<Longrightarrow> compatible (snd res) (fst res) r"
  using assms by (simp_all add: composite_of_def)

text \<open>One interning step on top of a composite of the parts.\<close>

lemma composite_step:
  assumes "interning f" "type_table_ok t1" "table_extends t t1" "compatible t l r"
    and "qualifiers_known (snd (f t1))"
    and "qt_type_id (fst (f t1)) = 0 \<Longrightarrow> int (tt_next_id (snd (f t1))) = UINT_MAX"
    and "qt_type_id (fst (f t1)) \<noteq> 0 \<Longrightarrow>
      entries_compatible (snd (f t1)) (tt_entry (snd (f t1)) (qt_type_id (fst (f t1))))
        (tt_entry t (qt_type_id l)) \<and>
      entries_compatible (snd (f t1)) (tt_entry (snd (f t1)) (qt_type_id (fst (f t1))))
        (tt_entry t (qt_type_id r))"
  shows "composite_of t l r (requalify (qt_qualifiers l) (f t1))"
proof -
  have u: "type_table_ok (snd (f t1))" "table_extends t (snd (f t1))"
    using interning.keeps [OF assms(1,2)] interning.extends [OF assms(1,2)] assms(3)
      table_extends_trans by blast+
  show ?thesis
  proof (cases "qt_type_id (fst (f t1)) = 0")
    case True
    then show ?thesis
      using assms(5,6) u by (intro composite_of_full) simp_all
  next
    case False
    then have "semantic_type_id_is_valid (snd (f t1)) (qt_type_id (fst (f t1)))"
      using interning.result [OF assms(1,2)] by (metis prod.collapse)
    then show ?thesis
      using assms(7) [OF False] False u assms(4,5)
      by (intro composite_of_made [OF _ _ _ _ _ refl]) auto
  qed
qed

lemma pointer_known:
  "qualifiers_known t \<Longrightarrow> supported p \<Longrightarrow>
     qualifiers_known (snd (psx_semantic_type_table_intern_pointer_to t p))"
  by (simp add: psx_semantic_type_table_intern_pointer_to_def intern_shape_known)

lemma array_known:
  "qualifiers_known t \<Longrightarrow> supported p \<Longrightarrow>
     qualifiers_known (snd (psx_semantic_type_table_intern_array_of t p n v))"
  by (simp add: psx_semantic_type_table_intern_array_of_def intern_shape_known)

lemma function_known:
  assumes "qualifiers_known t" "supported r" "\<forall>p \<in> set ps. supported p"
  shows "qualifiers_known (snd (psx_semantic_type_table_intern_function t r ps h v))"
  using assms by (simp add: psx_semantic_type_table_intern_function_def intern_shape_known
      split: option.split)

lemma composite_pointer:
  assumes base: "composite_of t (entry_base_type (tt_entry t (qt_type_id l)))
      (entry_base_type (tt_entry t (qt_type_id r))) res"
    and "qt_type_id (fst res) \<noteq> 0" "compatible t l r"
    and "shape_kind (entry_shape (tt_entry t (qt_type_id l))) = PSX_TYPE_POINTER"
    and "shape_kind (entry_shape (tt_entry t (qt_type_id r))) = PSX_TYPE_POINTER"
  shows "composite_of t l r (requalify (qt_qualifiers l)
    (psx_semantic_type_table_intern_pointer_to (snd res) (fst res)))"
proof (rule composite_step [OF pointer.interning_axioms _ _ assms(3)])
  note d = composite_ofD [OF base]
  let ?u = "psx_semantic_type_table_intern_pointer_to (snd res) (fst res)"
  show "type_table_ok (snd res)" "table_extends t (snd res)"
    using d by simp_all
  have p: "qual_valid (snd res) (fst res)"
    using d(5) assms(2) by (simp add: compatible_iff)
  then show "qualifiers_known (snd ?u)"
    using d(2) by (simp add: pointer_known qual_valid_iff)
  show "int (tt_next_id (snd ?u)) = UINT_MAX" if "qt_type_id (fst ?u) = 0"
    using that p intern_pointer_full [of "snd res" "fst res" "fst ?u" "snd ?u"] by (simp add: qual_valid_iff)
  assume "qt_type_id (fst ?u) \<noteq> 0"
  note made = intern_pointer_result [OF d(1) prod.collapse [symmetric] this]
  have ext: "table_extends (snd res) (snd ?u)"
    by (rule pointer.extends [OF d(1)])
  have "compatible (snd ?u) (fst res) (entry_base_type (tt_entry t (qt_type_id l)))"
    "compatible (snd ?u) (fst res) (entry_base_type (tt_entry t (qt_type_id r)))"
    by (rule compatible_extends [OF d(1) ext] d(5,6) assms(2))+
  then show "entries_compatible (snd ?u) (tt_entry (snd ?u) (qt_type_id (fst ?u)))
      (tt_entry t (qt_type_id l)) \<and>
    entries_compatible (snd ?u) (tt_entry (snd ?u) (qt_type_id (fst ?u))) (tt_entry t (qt_type_id r))"
    using made assms(4,5) by (simp add: entries_compatible_def)
qed

lemma composite_array:
  assumes base: "composite_of t (entry_base_type (tt_entry t (qt_type_id l)))
      (entry_base_type (tt_entry t (qt_type_id r))) res"
    and "qt_type_id (fst res) \<noteq> 0" "compatible t l r" "qt_type_id l \<noteq> qt_type_id r"
    and "shape_kind (entry_shape (tt_entry t (qt_type_id l))) = PSX_TYPE_ARRAY"
    and "shape_kind (entry_shape (tt_entry t (qt_type_id r))) = PSX_TYPE_ARRAY"
    and bound: "(n, v) =
      (if constant_bound (entry_shape (tt_entry t (qt_type_id l)))
       then (shape_array_len (entry_shape (tt_entry t (qt_type_id l))), False)
       else if constant_bound (entry_shape (tt_entry t (qt_type_id r)))
       then (shape_array_len (entry_shape (tt_entry t (qt_type_id r))), False) else (0, w))"
  shows "composite_of t l r (requalify (qt_qualifiers l)
    (psx_semantic_type_table_intern_array_of (snd res) (fst res) n v))"
proof (rule composite_step [OF array.interning_axioms _ _ assms(3)])
  note d = composite_ofD [OF base]
  let ?u = "psx_semantic_type_table_intern_array_of (snd res) (fst res) n v"
  have n: "0 \<le> n"
    using bound by (auto simp: constant_bound_def split: if_splits)
  show "type_table_ok (snd res)" "table_extends t (snd res)"
    using d by simp_all
  have p: "qual_valid (snd res) (fst res)"
    using d(5) assms(2) by (simp add: compatible_iff)
  then show "qualifiers_known (snd ?u)"
    using d(2) by (simp add: array_known qual_valid_iff)
  show "int (tt_next_id (snd ?u)) = UINT_MAX" if "qt_type_id (fst ?u) = 0"
    using that p n intern_array_full [of "snd res" "fst res" n v "fst ?u" "snd ?u"]
    by (simp add: qual_valid_iff)
  assume "qt_type_id (fst ?u) \<noteq> 0"
  note made = intern_array_result [OF d(1) prod.collapse [symmetric] this]
  have ext: "table_extends (snd res) (snd ?u)"
    by (rule array.extends [OF d(1)])
  have bases: "compatible (snd ?u) (fst res) (entry_base_type (tt_entry t (qt_type_id l)))"
    "compatible (snd ?u) (fst res) (entry_base_type (tt_entry t (qt_type_id r)))"
    by (rule compatible_extends [OF d(1) ext] d(5,6) assms(2))+
  have "entries_compatible t (tt_entry t (qt_type_id l)) (tt_entry t (qt_type_id r))"
    using assms(3,4) by (simp add: compatible_iff)
  then have lens: "constant_bound (entry_shape (tt_entry t (qt_type_id l))) \<Longrightarrow>
      constant_bound (entry_shape (tt_entry t (qt_type_id r))) \<Longrightarrow>
      shape_array_len (entry_shape (tt_entry t (qt_type_id l))) =
      shape_array_len (entry_shape (tt_entry t (qt_type_id r)))"
    by (simp add: entries_compatible_def assms(5))
  show "entries_compatible (snd ?u) (tt_entry (snd ?u) (qt_type_id (fst ?u)))
      (tt_entry t (qt_type_id l)) \<and>
    entries_compatible (snd ?u) (tt_entry (snd ?u) (qt_type_id (fst ?u))) (tt_entry t (qt_type_id r))"
    using made assms(5,6) bases bound lens
    by (auto simp: entries_compatible_def constant_bound_def split: if_splits)
qed

text \<open>The parameters of a composite function.\<close>

lemma composite_parameters_result:
  assumes step: "\<And>t p q. p \<in> set ls \<Longrightarrow> type_table_ok t \<Longrightarrow> qualifiers_known t \<Longrightarrow>
      compatible t p q \<Longrightarrow> \<exists>res. cmp t p q = Some res \<and> composite_of t p q res"
    and "type_table_ok t" "qualifiers_known t"
    and "\<forall>i \<in> set is. i < length ls \<or> i < length rs"
    and "\<forall>i \<in> set is. i < length ls \<and> i < length rs \<longrightarrow> compatible t (ls ! i) (rs ! i)"
    and "\<forall>p \<in> set ls \<union> set rs. qual_valid t p"
  shows "\<exists>res. composite_parameters cmp ls rs is t = Some res \<and> type_table_ok (snd res) \<and>
    qualifiers_known (snd res) \<and> table_extends t (snd res) \<and>
    (case fst res of None \<Rightarrow> int (tt_next_id (snd res)) = UINT_MAX
     | Some ps \<Rightarrow> length ps = length is \<and>
         (\<forall>k < length is. qual_valid (snd res) (ps ! k) \<and>
            (is ! k < length ls \<longrightarrow> compatible (snd res) (ps ! k) (ls ! (is ! k))) \<and>
            (is ! k < length rs \<longrightarrow> compatible (snd res) (ps ! k) (rs ! (is ! k)))))"
  using assms(2-)
proof (induction "is" arbitrary: t)
  case Nil
  then show ?case
    by simp
next
  case (Cons i "is")
  have quals: "i < length ls \<Longrightarrow> qual_valid t (ls ! i)" "i < length rs \<Longrightarrow> qual_valid t (rs ! i)"
    using Cons.prems(5) by auto
  have "\<exists>res. (if i < length ls \<and> i < length rs then cmp t (ls ! i) (rs ! i)
       else if i < length ls then Some (ls ! i, t) else Some (rs ! i, t)) = Some res \<and>
      type_table_ok (snd res) \<and> qualifiers_known (snd res) \<and> table_extends t (snd res) \<and>
      (if qt_type_id (fst res) = 0 then int (tt_next_id (snd res)) = UINT_MAX
       else qual_valid (snd res) (fst res) \<and>
            (i < length ls \<longrightarrow> compatible (snd res) (fst res) (ls ! i)) \<and>
            (i < length rs \<longrightarrow> compatible (snd res) (fst res) (rs ! i)))"
  proof (cases "i < length ls \<and> i < length rs")
    case True
    then obtain res where "cmp t (ls ! i) (rs ! i) = Some res" "composite_of t (ls ! i) (rs ! i) res"
      using step [of "ls ! i" t "rs ! i"] Cons.prems by auto
    then show ?thesis
      using True by (intro exI [of _ res]) (auto simp: composite_of_def compatible_iff)
  next
    case False
    then show ?thesis
      using Cons.prems(1-3) quals
      by (auto simp: compatible_refl qual_valid_iff semantic_type_id_is_valid_def)
  qed
  then obtain res where res: "(if i < length ls \<and> i < length rs then cmp t (ls ! i) (rs ! i)
       else if i < length ls then Some (ls ! i, t) else Some (rs ! i, t)) = Some res"
    and ok: "type_table_ok (snd res)" "qualifiers_known (snd res)" "table_extends t (snd res)"
    and parts: "if qt_type_id (fst res) = 0 then int (tt_next_id (snd res)) = UINT_MAX
       else qual_valid (snd res) (fst res) \<and>
            (i < length ls \<longrightarrow> compatible (snd res) (fst res) (ls ! i)) \<and>
            (i < length rs \<longrightarrow> compatible (snd res) (fst res) (rs ! i))"
    by blast
  show ?case
  proof (cases "qt_type_id (fst res) = 0")
    case True
    then show ?thesis
      using res ok parts by simp
  next
    case False
    have "\<forall>k \<in> set is. k < length ls \<and> k < length rs \<longrightarrow> compatible (snd res) (ls ! k) (rs ! k)"
      using Cons.prems(4) compatible_extends [OF Cons.prems(1) ok(3)] by auto
    moreover have "\<forall>p \<in> set ls \<union> set rs. qual_valid (snd res) p"
      using Cons.prems(5) qual_valid_extends [OF ok(3)] by auto
    ultimately obtain res' where rest: "composite_parameters cmp ls rs is (snd res) = Some res'"
      and ok': "type_table_ok (snd res')" "qualifiers_known (snd res')"
        "table_extends (snd res) (snd res')"
      and parts': "case fst res' of None \<Rightarrow> int (tt_next_id (snd res')) = UINT_MAX
       | Some ps \<Rightarrow> length ps = length is \<and>
         (\<forall>k < length is. qual_valid (snd res') (ps ! k) \<and>
            (is ! k < length ls \<longrightarrow> compatible (snd res') (ps ! k) (ls ! (is ! k))) \<and>
            (is ! k < length rs \<longrightarrow> compatible (snd res') (ps ! k) (rs ! (is ! k))))"
      using Cons.IH [OF ok(1,2)] Cons.prems(3) by auto
    have head: "qual_valid (snd res') (fst res)"
      "i < length ls \<Longrightarrow> compatible (snd res') (fst res) (ls ! i)"
      "i < length rs \<Longrightarrow> compatible (snd res') (fst res) (rs ! i)"
      using False parts qual_valid_extends [OF ok'(3)] compatible_extends [OF ok(1) ok'(3)] by simp_all
    have "table_extends t (snd res')"
      using ok(3) ok'(3) table_extends_trans by blast
    then show ?thesis
      using res False rest ok' parts' head
      by (auto simp: nth_Cons' split: option.split)
  qed
qed

lemma compatible_kind:
  assumes "compatible t p q"
  shows "shape_kind (entry_shape (tt_entry t (qt_type_id p))) =
    shape_kind (entry_shape (tt_entry t (qt_type_id q)))"
  using assms by (auto simp: compatible_iff entries_compatible_def)

lemma ok_result_kind:
  assumes "type_table_ok t" "semantic_type_id_is_valid t i"
    and "shape_kind (entry_shape (tt_entry t i)) = PSX_TYPE_FUNCTION"
  shows "shape_kind (entry_shape (tt_entry t (qt_type_id (entry_base_type (tt_entry t i))))) \<notin>
    {PSX_TYPE_ARRAY, PSX_TYPE_FUNCTION}"
  using assms ok_entry(2) [OF assms(1), of i] by (auto simp: ok_valid_iff entry_links_ok_def)

lemma unchanged_moves:
  assumes "type_table_ok t" "type_table_ok u" "table_extends t u" "qual_valid t p" "compatible u q p"
    and "parameter_is_unchanged_by_default_argument_promotions t p"
  shows "parameter_is_unchanged_by_default_argument_promotions u q"
  using unchanged_compatible [OF assms(2,5)] unchanged_extends [OF assms(3), of p] assms(4,6)
  by (simp add: qual_validD)

lemma fits_moves:
  assumes tables: "type_table_ok t" "type_table_ok u" "table_extends t u"
    and fits: "fits_old_style t p old"
    and valid: "\<And>q. q \<in> set (entry_parameter_types p) \<Longrightarrow> qual_valid t q"
    and shape: "length (entry_parameter_types g) = length (entry_parameter_types p)"
      "shape_is_variadic_function (entry_shape g) = shape_is_variadic_function (entry_shape p)"
    and ps: "\<And>k. k < length (entry_parameter_types p) \<Longrightarrow>
        compatible u (entry_parameter_types g ! k) (entry_parameter_types p ! k)"
      "\<And>k. k < length (entry_parameter_types p) \<Longrightarrow> k < length (entry_parameter_types old) \<Longrightarrow>
        compatible u (entry_parameter_types g ! k) (entry_parameter_types old ! k)"
  shows "fits_old_style u g old"
proof -
  have "parameter_is_unchanged_by_default_argument_promotions u (entry_parameter_types g ! i)"
    if i: "i < length (entry_parameter_types p)" for i
  proof (rule unchanged_moves [OF tables])
    show "qual_valid t (entry_parameter_types p ! i)"
      using i valid by simp
    show "compatible u (entry_parameter_types g ! i) (entry_parameter_types p ! i)"
      by (rule ps(1) [OF i])
    show "parameter_is_unchanged_by_default_argument_promotions t (entry_parameter_types p ! i)"
      using fits i by (simp add: fits_old_style_def)
  qed
  moreover have "compatible u (entry_parameter_types g ! i) (entry_parameter_types old ! i)"
    if "i < length (entry_parameter_types p)" "entry_parameter_types old \<noteq> []" for i
    using ps(2) [OF that(1)] fits that by (simp add: fits_old_style_def)
  ultimately show ?thesis
    using fits shape by (auto simp: fits_old_style_def)
qed

text \<open>What the composite of two function types consists of.\<close>

definition composite_count :: "psx_semantic_type_entry_t \<Rightarrow> psx_semantic_type_entry_t \<Rightarrow> nat" where
  "composite_count e f =
    (if shape_has_function_prototype (entry_shape e) then length (entry_parameter_types e)
     else if shape_has_function_prototype (entry_shape f) then length (entry_parameter_types f)
     else if entry_parameter_types e \<noteq> [] then length (entry_parameter_types e)
     else length (entry_parameter_types f))"

definition composite_variadic :: "psx_semantic_type_entry_t \<Rightarrow> psx_semantic_type_entry_t \<Rightarrow> bool" where
  "composite_variadic e f \<longleftrightarrow>
    (if shape_has_function_prototype (entry_shape e) then shape_is_variadic_function (entry_shape e)
     else shape_has_function_prototype (entry_shape f) \<and> shape_is_variadic_function (entry_shape f))"

lemma composite_function_entries:
  assumes tables: "type_table_ok t" "type_table_ok u" "table_extends t u"
    and F: "functions_compatible t e f"
    and valid: "\<forall>p \<in> set (entry_parameter_types e) \<union> set (entry_parameter_types f). qual_valid t p"
    and shape: "shape_has_function_prototype (entry_shape g) \<longleftrightarrow>
        shape_has_function_prototype (entry_shape e) \<or> shape_has_function_prototype (entry_shape f)"
      "shape_is_variadic_function (entry_shape g) = composite_variadic e f"
      "length (entry_parameter_types g) = composite_count e f"
    and bases: "compatible u (entry_base_type g) (entry_base_type e)"
      "compatible u (entry_base_type g) (entry_base_type f)"
    and ps: "\<And>k. k < composite_count e f \<Longrightarrow> k < length (entry_parameter_types e) \<Longrightarrow>
        compatible u (entry_parameter_types g ! k) (entry_parameter_types e ! k)"
      "\<And>k. k < composite_count e f \<Longrightarrow> k < length (entry_parameter_types f) \<Longrightarrow>
        compatible u (entry_parameter_types g ! k) (entry_parameter_types f ! k)"
  shows "functions_compatible u g e \<and> functions_compatible u g f"
proof -
  note fits = fits_moves [OF tables]
  show ?thesis
  proof (cases "shape_has_function_prototype (entry_shape e)";
      cases "shape_has_function_prototype (entry_shape f)")
    assume protos: "shape_has_function_prototype (entry_shape e)"
      "shape_has_function_prototype (entry_shape f)"
    then show ?thesis
      using F shape bases ps
      by (simp add: functions_compatible_def same_parameters_def composite_count_def composite_variadic_def)
  next
    assume protos: "shape_has_function_prototype (entry_shape e)"
      "\<not> shape_has_function_prototype (entry_shape f)"
    then have count: "composite_count e f = length (entry_parameter_types e)"
      "composite_variadic e f = shape_is_variadic_function (entry_shape e)"
      by (simp_all add: composite_count_def composite_variadic_def)
    then have "fits_old_style u g f"
      using F protos shape ps valid
      by (intro fits [of e]) (simp_all add: functions_compatible_def)
    then show ?thesis
      using F protos shape bases ps count by (simp add: functions_compatible_def same_parameters_def)
  next
    assume protos: "\<not> shape_has_function_prototype (entry_shape e)"
      "shape_has_function_prototype (entry_shape f)"
    then have count: "composite_count e f = length (entry_parameter_types f)"
      "composite_variadic e f = shape_is_variadic_function (entry_shape f)"
      by (simp_all add: composite_count_def composite_variadic_def)
    then have "fits_old_style u g e"
      using F protos shape ps valid
      by (intro fits [of f]) (simp_all add: functions_compatible_def)
    then show ?thesis
      using F protos shape bases ps count by (simp add: functions_compatible_def same_parameters_def)
  next
    assume protos: "\<not> shape_has_function_prototype (entry_shape e)"
      "\<not> shape_has_function_prototype (entry_shape f)"
    then show ?thesis
      using F shape bases ps
      by (auto simp: functions_compatible_def same_parameters_def composite_count_def)
  qed
qed

lemma composite_function:
  assumes ok: "type_table_ok t" "qualifiers_known t"
    and base: "composite_of t (entry_base_type (tt_entry t (qt_type_id l)))
      (entry_base_type (tt_entry t (qt_type_id r))) res"
    and id: "qt_type_id (fst res) \<noteq> 0" and lr: "compatible t l r" "qt_type_id l \<noteq> qt_type_id r"
    and kind: "shape_kind (entry_shape (tt_entry t (qt_type_id l))) = PSX_TYPE_FUNCTION"
      "shape_kind (entry_shape (tt_entry t (qt_type_id r))) = PSX_TYPE_FUNCTION"
    and par: "type_table_ok v" "qualifiers_known v" "table_extends (snd res) v"
      "length ps = composite_count (tt_entry t (qt_type_id l)) (tt_entry t (qt_type_id r))"
      "\<forall>k < length ps. qual_valid v (ps ! k) \<and>
         (k < length (entry_parameter_types (tt_entry t (qt_type_id l))) \<longrightarrow>
            compatible v (ps ! k) (entry_parameter_types (tt_entry t (qt_type_id l)) ! k)) \<and>
         (k < length (entry_parameter_types (tt_entry t (qt_type_id r))) \<longrightarrow>
            compatible v (ps ! k) (entry_parameter_types (tt_entry t (qt_type_id r)) ! k))"
    and h: "h \<longleftrightarrow> shape_has_function_prototype (entry_shape (tt_entry t (qt_type_id l))) \<or>
        shape_has_function_prototype (entry_shape (tt_entry t (qt_type_id r)))"
    and w: "w = composite_variadic (tt_entry t (qt_type_id l)) (tt_entry t (qt_type_id r))"
  shows "composite_of t l r (requalify (qt_qualifiers l)
    (psx_semantic_type_table_intern_function v (fst res) ps h w))"
proof (rule composite_step [OF func.interning_axioms par(1) _ lr(1)])
  note d = composite_ofD [OF base]
  let ?u = "psx_semantic_type_table_intern_function v (fst res) ps h w"
  let ?e = "tt_entry t (qt_type_id l)" and ?f = "tt_entry t (qt_type_id r)"
  show ext: "table_extends t v"
    using d(3) par(3) table_extends_trans by blast
  have valid: "semantic_type_id_is_valid t (qt_type_id l)" "semantic_type_id_is_valid t (qt_type_id r)"
    using lr(1) by (simp_all add: compatible_iff qual_validD)
  have result: "compatible v (fst res) (entry_base_type ?e)" "compatible v (fst res) (entry_base_type ?f)"
    by (rule compatible_extends [OF d(1) par(3)] d(5,6) id)+
  then have q: "qual_valid v (fst res)"
    by (simp add: compatible_iff)
  have params: "qual_valid v p" if "p \<in> set ps" for p
    using that par(5) by (auto simp: in_set_conv_nth)
  show "qualifiers_known (snd ?u)"
    using par(2) q params by (intro function_known) (simp_all add: qual_valid_iff)
  have base_valid: "semantic_type_id_is_valid t (qt_type_id (entry_base_type ?e))"
    using ok_base(1) [OF ok(1) valid(1)] kind by (simp add: shape_requires_base_def)
  have "shape_kind (entry_shape (tt_entry v (qt_type_id (fst res)))) \<notin> {PSX_TYPE_ARRAY, PSX_TYPE_FUNCTION}"
    using compatible_kind [OF result(1)] table_extends_valid(2) [OF ext base_valid]
      ok_result_kind [OF ok(1) valid(1) kind(1)] by simp
  then show "int (tt_next_id (snd ?u)) = UINT_MAX" if "qt_type_id (fst ?u) = 0"
    using that q params intern_function_full [of v "fst res" ps h w "fst ?u" "snd ?u"]
    by (simp add: qual_valid_iff)
  assume "qt_type_id (fst ?u) \<noteq> 0"
  note made = intern_function_result [OF par(1) prod.collapse [symmetric] this]
  have extu: "table_extends v (snd ?u)"
    by (rule func.extends [OF par(1)])
  then have later: "compatible v p q \<Longrightarrow> compatible (snd ?u) p q" for p q
    by (rule compatible_extends [OF par(1)])
  have F: "functions_compatible t ?e ?f"
    using lr kind by (simp add: compatible_iff entries_compatible_def)
  have quals: "\<forall>p \<in> set (entry_parameter_types ?e) \<union> set (entry_parameter_types ?f). qual_valid t p"
    using ok_parameter(1) [OF ok(1)] known_entry(2) [OF ok(2)] valid
    by (auto simp: qual_valid_iff)
  have "functions_compatible (snd ?u) (tt_entry (snd ?u) (qt_type_id (fst ?u))) ?e \<and>
      functions_compatible (snd ?u) (tt_entry (snd ?u) (qt_type_id (fst ?u))) ?f"
  proof (rule composite_function_entries [OF ok(1) func.keeps [OF par(1)]
        table_extends_trans [OF ext extu] F quals])
  qed (use made h w par(4,5) later result in simp_all)
  then show "entries_compatible (snd ?u) (tt_entry (snd ?u) (qt_type_id (fst ?u))) ?e \<and>
      entries_compatible (snd ?u) (tt_entry (snd ?u) (qt_type_id (fst ?u))) ?f"
    using made(1) kind by (simp add: entries_compatible_def)
qed

text \<open>The cases of the code, with the checks that hold on compatible types resolved.\<close>

lemma composite_pointer_step:
  assumes "compatible t l r" "qt_type_id l \<noteq> qt_type_id r"
    and "shape_kind (entry_shape (tt_entry t (qt_type_id l))) = PSX_TYPE_POINTER"
    and "semantic_composite_qual_types t (entry_base_type (tt_entry t (qt_type_id l)))
      (entry_base_type (tt_entry t (qt_type_id r))) = Some res"
  shows "semantic_composite_qual_types t l r =
    Some (if qt_type_id (fst res) = 0 then (invalid_qual_type, snd res)
          else requalify (qt_qualifiers l)
                 (psx_semantic_type_table_intern_pointer_to (snd res) (fst res)))"
  using assms by (subst semantic_composite_qual_types.simps) (simp add: Let_def)

lemma composite_array_step:
  assumes "compatible t l r" "qt_type_id l \<noteq> qt_type_id r"
    and "shape_kind (entry_shape (tt_entry t (qt_type_id l))) = PSX_TYPE_ARRAY"
    and "semantic_composite_qual_types t (entry_base_type (tt_entry t (qt_type_id l)))
      (entry_base_type (tt_entry t (qt_type_id r))) = Some res"
    and "(n, v) =
      (if constant_bound (entry_shape (tt_entry t (qt_type_id l)))
       then (shape_array_len (entry_shape (tt_entry t (qt_type_id l))), False)
       else if constant_bound (entry_shape (tt_entry t (qt_type_id r)))
       then (shape_array_len (entry_shape (tt_entry t (qt_type_id r))), False)
       else (0, shape_is_vla (entry_shape (tt_entry t (qt_type_id l))) \<or>
                shape_is_vla (entry_shape (tt_entry t (qt_type_id r)))))"
  shows "semantic_composite_qual_types t l r =
    Some (if qt_type_id (fst res) = 0 then (invalid_qual_type, snd res)
          else requalify (qt_qualifiers l)
                 (psx_semantic_type_table_intern_array_of (snd res) (fst res) n v))"
  using assms
  by (subst semantic_composite_qual_types.simps) (auto simp: Let_def constant_bound_def split: if_splits)

lemma composite_function_step:
  assumes "compatible t l r" "qt_type_id l \<noteq> qt_type_id r"
    and "shape_kind (entry_shape (tt_entry t (qt_type_id l))) = PSX_TYPE_FUNCTION"
    and "semantic_composite_qual_types t (entry_base_type (tt_entry t (qt_type_id l)))
      (entry_base_type (tt_entry t (qt_type_id r))) = Some res" "qt_type_id (fst res) \<noteq> 0"
    and "composite_parameters semantic_composite_qual_types
      (entry_parameter_types (tt_entry t (qt_type_id l)))
      (entry_parameter_types (tt_entry t (qt_type_id r)))
      [0..<composite_count (tt_entry t (qt_type_id l)) (tt_entry t (qt_type_id r))] (snd res) = Some par"
  shows "semantic_composite_qual_types t l r =
    Some (case fst par of None \<Rightarrow> (invalid_qual_type, snd par)
          | Some ps \<Rightarrow> requalify (qt_qualifiers l)
              (psx_semantic_type_table_intern_function (snd par) (fst res) ps
                (shape_has_function_prototype (entry_shape (tt_entry t (qt_type_id l))) \<or>
                 shape_has_function_prototype (entry_shape (tt_entry t (qt_type_id r))))
                (composite_variadic (tt_entry t (qt_type_id l)) (tt_entry t (qt_type_id r)))))"
  using assms
  by (subst semantic_composite_qual_types.simps)
    (auto simp: Let_def composite_count_def composite_variadic_def split: option.split)

lemma composite_other_step:
  assumes "compatible t l r" "qt_type_id l \<noteq> qt_type_id r"
    and "shape_kind (entry_shape (tt_entry t (qt_type_id l))) \<notin>
      {PSX_TYPE_POINTER, PSX_TYPE_ARRAY, PSX_TYPE_FUNCTION}"
  shows "semantic_composite_qual_types t l r = Some (l, t)"
  using assms
  by (subst semantic_composite_qual_types.simps)
    (simp add: Let_def requalify_def split: psx_type_kind_t.split)

lemma functions_compatible_parameters:
  assumes "type_table_ok t" "functions_compatible t e f" "i < composite_count e f"
    and "i < length (entry_parameter_types e)" "i < length (entry_parameter_types f)"
  shows "compatible t (entry_parameter_types e ! i) (entry_parameter_types f ! i)"
  using assms compatible_sym_option [OF assms(1)]
  by (auto simp: functions_compatible_def same_parameters_def fits_old_style_def composite_count_def
      split: bool.splits)

lemma composite_exists:
  "type_table_ok t \<Longrightarrow> qualifiers_known t \<Longrightarrow> compatible t l r \<Longrightarrow>
     \<exists>res. semantic_composite_qual_types t l r = Some res \<and> composite_of t l r res"
proof (induction "qt_type_id l" arbitrary: t l r rule: less_induct)
  case less
  note ok = less.prems(1) and known = less.prems(2) and lr = less.prems(3)
  let ?e = "tt_entry t (qt_type_id l)" and ?f = "tt_entry t (qt_type_id r)"
  have valid: "semantic_type_id_is_valid t (qt_type_id l)" "semantic_type_id_is_valid t (qt_type_id r)"
    using lr by (simp_all add: compatible_iff qual_validD)
  have self: "composite_of t l r (l, t)"
    using ok known lr valid(1) by (simp add: composite_of_def compatible_iff semantic_type_id_is_valid_def)
  show ?case
  proof (cases "qt_type_id l = qt_type_id r")
    case True
    then show ?thesis
      using lr self by (subst semantic_composite_qual_types.simps) simp
  next
    case differ: False
    have e: "entries_compatible t ?e ?f"
      using lr differ by (simp add: compatible_iff)
    have kind: "shape_kind (entry_shape ?f) = shape_kind (entry_shape ?e)"
      using e by (simp add: entries_compatible_def)
    have base: "\<exists>res. semantic_composite_qual_types t (entry_base_type ?e) (entry_base_type ?f) = Some res \<and>
        composite_of t (entry_base_type ?e) (entry_base_type ?f) res"
      if "shape_requires_base (shape_kind (entry_shape ?e))"
        "compatible t (entry_base_type ?e) (entry_base_type ?f)"
      using less.hyps [OF ok_base(2) [OF ok valid(1) that(1)] ok known that(2)] .
    have failed: "composite_of t l r (invalid_qual_type, snd res)"
      if "composite_of t p q res" "qt_type_id (fst res) = 0" for p q res
      using that by (simp add: composite_of_def)
    show ?thesis
    proof (cases "shape_kind (entry_shape ?e)")
      case PSX_TYPE_POINTER
      then obtain res where res: "semantic_composite_qual_types t (entry_base_type ?e)
          (entry_base_type ?f) = Some res" "composite_of t (entry_base_type ?e) (entry_base_type ?f) res"
        using base e by (auto simp: shape_requires_base_def entries_compatible_def)
      show ?thesis
        unfolding composite_pointer_step [OF lr differ PSX_TYPE_POINTER res(1)]
        using composite_pointer [OF res(2) _ lr] failed [OF res(2)] PSX_TYPE_POINTER kind by simp
    next
      case PSX_TYPE_ARRAY
      then obtain res where res: "semantic_composite_qual_types t (entry_base_type ?e)
          (entry_base_type ?f) = Some res" "composite_of t (entry_base_type ?e) (entry_base_type ?f) res"
        using base e by (auto simp: shape_requires_base_def entries_compatible_def)
      obtain n v where nv: "(n, v) =
          (if constant_bound (entry_shape ?e) then (shape_array_len (entry_shape ?e), False)
           else if constant_bound (entry_shape ?f) then (shape_array_len (entry_shape ?f), False)
           else (0, shape_is_vla (entry_shape ?e) \<or> shape_is_vla (entry_shape ?f)))"
        by (metis surj_pair)
      show ?thesis
        unfolding composite_array_step [OF lr differ PSX_TYPE_ARRAY res(1) nv]
        using composite_array [OF res(2) _ lr differ _ _ nv] failed [OF res(2)] PSX_TYPE_ARRAY kind
        by simp
    next
      case PSX_TYPE_FUNCTION
      then have F: "functions_compatible t ?e ?f"
        using e by (simp add: entries_compatible_def)
      then obtain res where res: "semantic_composite_qual_types t (entry_base_type ?e)
          (entry_base_type ?f) = Some res" "composite_of t (entry_base_type ?e) (entry_base_type ?f) res"
        using base PSX_TYPE_FUNCTION by (auto simp: shape_requires_base_def functions_compatible_def)
      note d = composite_ofD [OF res(2)]
      show ?thesis
      proof (cases "qt_type_id (fst res) = 0")
        case True
        then show ?thesis
          using lr differ PSX_TYPE_FUNCTION res(1) failed [OF res(2)]
          by (subst semantic_composite_qual_types.simps) (simp add: Let_def)
      next
        case False
        have quals: "\<forall>p \<in> set (entry_parameter_types ?e) \<union> set (entry_parameter_types ?f).
            qual_valid (snd res) p"
          using ok_parameter(1) [OF ok] known_entry(2) [OF known] valid qual_valid_extends [OF d(3)]
          by (auto simp: qual_valid_iff)
        have both: "\<forall>i \<in> set [0..<composite_count ?e ?f]. i < length (entry_parameter_types ?e) \<and>
            i < length (entry_parameter_types ?f) \<longrightarrow> compatible (snd res)
              (entry_parameter_types ?e ! i) (entry_parameter_types ?f ! i)"
          using functions_compatible_parameters [OF ok F] compatible_extends [OF ok d(3)] by simp
        have "\<forall>i \<in> set [0..<composite_count ?e ?f]. i < length (entry_parameter_types ?e) \<or>
            i < length (entry_parameter_types ?f)"
          by (auto simp: composite_count_def)
        moreover have "\<exists>res. semantic_composite_qual_types v p q = Some res \<and> composite_of v p q res"
          if "p \<in> set (entry_parameter_types ?e)" "type_table_ok v" "qualifiers_known v"
            "compatible v p q" for v p q
          by (rule less.hyps) (use that ok_parameter(2) [OF ok valid(1)] in simp_all)
        ultimately obtain par where par: "composite_parameters semantic_composite_qual_types
            (entry_parameter_types ?e) (entry_parameter_types ?f) [0..<composite_count ?e ?f]
            (snd res) = Some par" "type_table_ok (snd par)" "qualifiers_known (snd par)"
            "table_extends (snd res) (snd par)"
          and ps: "case fst par of None \<Rightarrow> int (tt_next_id (snd par)) = UINT_MAX
            | Some ps \<Rightarrow> length ps = composite_count ?e ?f \<and>
               (\<forall>k < length ps. qual_valid (snd par) (ps ! k) \<and>
                 (k < length (entry_parameter_types ?e) \<longrightarrow>
                    compatible (snd par) (ps ! k) (entry_parameter_types ?e ! k)) \<and>
                 (k < length (entry_parameter_types ?f) \<longrightarrow>
                    compatible (snd par) (ps ! k) (entry_parameter_types ?f ! k)))"
          using composite_parameters_result [OF _ d(1,2) _ both quals, of semantic_composite_qual_types]
          by (auto split: option.splits)
        show ?thesis
        proof (cases "fst par")
          case None
          then show ?thesis
            unfolding composite_function_step [OF lr differ PSX_TYPE_FUNCTION res(1) False par(1)]
            using par(2-4) ps table_extends_trans [OF d(3)] by (simp add: composite_of_def)
        next
          case (Some ps')
          show ?thesis
            unfolding composite_function_step [OF lr differ PSX_TYPE_FUNCTION res(1) False par(1)]
            using composite_function [OF ok known res(2) False lr differ PSX_TYPE_FUNCTION _ par(2-4)]
              ps kind PSX_TYPE_FUNCTION by (simp add: Some)
        qed
      qed
    qed (use composite_other_step [OF lr differ] self in simp_all)
  qed
qed

section \<open>What the composite says\<close>

text \<open>
  A type \<open>q\<close> says all that a type \<open>l\<close> does: down to their parts, \<open>q\<close> has the bound of an array whose
  bound \<open>l\<close> gives, is of variable length or bounded where \<open>l\<close> is of variable length, and has the
  prototype and the parameters of a function for which \<open>l\<close> gives them.
\<close>

definition says_more :: "psx_type_shape_t \<Rightarrow> psx_type_shape_t \<Rightarrow> bool" where
  "says_more g e \<longleftrightarrow>
     shape_kind g = shape_kind e \<and>
     (shape_kind e = PSX_TYPE_ARRAY \<longrightarrow>
        (constant_bound e \<longrightarrow> constant_bound g \<and> shape_array_len g = shape_array_len e) \<and>
        (shape_is_vla e \<longrightarrow> constant_bound g \<or> shape_is_vla g)) \<and>
     (shape_kind e = PSX_TYPE_FUNCTION \<and> shape_has_function_prototype e \<longrightarrow>
        shape_has_function_prototype g \<and>
        shape_is_variadic_function g = shape_is_variadic_function e)"

inductive specifies ::
  "psx_semantic_type_table_t \<Rightarrow> psx_qual_type_t \<Rightarrow> psx_qual_type_t \<Rightarrow> bool" for t where
  same: "qt_type_id q = qt_type_id l \<Longrightarrow> specifies t q l"
| parts: "semantic_type_id_is_valid t (qt_type_id q) \<Longrightarrow> semantic_type_id_is_valid t (qt_type_id l) \<Longrightarrow>
    says_more (entry_shape (tt_entry t (qt_type_id q))) (entry_shape (tt_entry t (qt_type_id l))) \<Longrightarrow>
    (shape_kind (entry_shape (tt_entry t (qt_type_id l))) \<in>
         {PSX_TYPE_POINTER, PSX_TYPE_ARRAY, PSX_TYPE_FUNCTION} \<Longrightarrow>
       specifies t (entry_base_type (tt_entry t (qt_type_id q)))
         (entry_base_type (tt_entry t (qt_type_id l)))) \<Longrightarrow>
    (shape_kind (entry_shape (tt_entry t (qt_type_id l))) = PSX_TYPE_FUNCTION \<Longrightarrow>
       length (entry_parameter_types (tt_entry t (qt_type_id l))) \<le>
         length (entry_parameter_types (tt_entry t (qt_type_id q)))) \<Longrightarrow>
    (\<And>k. shape_kind (entry_shape (tt_entry t (qt_type_id l))) = PSX_TYPE_FUNCTION \<Longrightarrow>
       k < length (entry_parameter_types (tt_entry t (qt_type_id l))) \<Longrightarrow>
       specifies t (entry_parameter_types (tt_entry t (qt_type_id q)) ! k)
         (entry_parameter_types (tt_entry t (qt_type_id l)) ! k)) \<Longrightarrow>
    specifies t q l"

lemma specifies_extends:
  assumes "table_extends t u"
  shows "specifies t q l \<Longrightarrow> specifies u q l"
proof (induction rule: specifies.induct)
  case (parts q l)
  note v = table_extends_valid [OF assms parts.hyps(1)] table_extends_valid [OF assms parts.hyps(2)]
  show ?case
    by (rule specifies.parts) (use parts v in simp_all)
qed (rule specifies.same)

lemma specifies_ids:
  assumes "specifies t q l" "qt_type_id q' = qt_type_id q"
  shows "specifies t q' l"
  using assms(1)
proof cases
  case parts
  show ?thesis
    by (rule specifies.parts) (use parts assms(2) in simp_all)
qed (rule specifies.same, use assms(2) in simp)

text \<open>The same for an old type \<open>l\<close>, in terms of its entry in the table before.\<close>

lemma specifies_made:
  assumes "table_extends t u" "semantic_type_id_is_valid t (qt_type_id l)"
    and "semantic_type_id_is_valid u (qt_type_id q)"
    and "g = tt_entry u (qt_type_id q)" "e = tt_entry t (qt_type_id l)"
    and "says_more (entry_shape g) (entry_shape e)"
    and "shape_kind (entry_shape e) \<in> {PSX_TYPE_POINTER, PSX_TYPE_ARRAY, PSX_TYPE_FUNCTION} \<Longrightarrow>
      specifies u (entry_base_type g) (entry_base_type e)"
    and "shape_kind (entry_shape e) = PSX_TYPE_FUNCTION \<Longrightarrow>
      length (entry_parameter_types e) \<le> length (entry_parameter_types g) \<and>
      (\<forall>k < length (entry_parameter_types e).
         specifies u (entry_parameter_types g ! k) (entry_parameter_types e ! k))"
  shows "specifies u q l"
  by (rule specifies.parts)
    (use assms table_extends_valid [OF assms(1,2)] in simp_all)

lemma composite_parameters_specify:
  assumes step: "\<And>t p q. p \<in> set ls \<Longrightarrow> type_table_ok t \<Longrightarrow> qualifiers_known t \<Longrightarrow>
      compatible t p q \<Longrightarrow> \<exists>res. cmp t p q = Some res \<and> composite_of t p q res \<and>
        (qt_type_id (fst res) \<noteq> 0 \<longrightarrow> specifies (snd res) (fst res) p \<and> specifies (snd res) (fst res) q)"
    and "type_table_ok t" "qualifiers_known t"
    and "\<forall>i \<in> set is. i < length ls \<and> i < length rs \<longrightarrow> compatible t (ls ! i) (rs ! i)"
    and "composite_parameters cmp ls rs is t = Some (Some ps, u)"
  shows "table_extends t u \<and> length ps = length is \<and>
    (\<forall>k < length is.
       (is ! k < length ls \<longrightarrow> specifies u (ps ! k) (ls ! (is ! k))) \<and>
       (is ! k < length rs \<longrightarrow> specifies u (ps ! k) (rs ! (is ! k))))"
  using assms(2-)
proof (induction "is" arbitrary: t ps)
  case Nil
  then show ?case
    by simp
next
  case (Cons i "is")
  obtain res where res: "(if i < length ls \<and> i < length rs then cmp t (ls ! i) (rs ! i)
       else if i < length ls then Some (ls ! i, t) else Some (rs ! i, t)) = Some res"
    and id: "qt_type_id (fst res) \<noteq> 0"
    and "\<exists>rest. composite_parameters cmp ls rs is (snd res) = Some (Some rest, u) \<and> ps = fst res # rest"
    using Cons.prems(4)
    by (fastforce simp: bind_eq_Some_conv split: if_splits)
  then obtain rest where rest: "composite_parameters cmp ls rs is (snd res) = Some (Some rest, u)"
    and ps: "ps = fst res # rest"
    by blast
  have head: "type_table_ok (snd res) \<and> qualifiers_known (snd res) \<and> table_extends t (snd res) \<and>
      (i < length ls \<longrightarrow> specifies (snd res) (fst res) (ls ! i)) \<and>
      (i < length rs \<longrightarrow> specifies (snd res) (fst res) (rs ! i))"
  proof (cases "i < length ls \<and> i < length rs")
    case True
    then have "composite_of t (ls ! i) (rs ! i) res \<and>
        specifies (snd res) (fst res) (ls ! i) \<and> specifies (snd res) (fst res) (rs ! i)"
      using step [of "ls ! i" t "rs ! i"] Cons.prems res id by auto
    then show ?thesis
      using composite_ofD(1-3) by blast
  next
    case False
    then show ?thesis
      using Cons.prems(1,2) res by (auto intro: specifies.same split: if_splits)
  qed
  have "\<forall>k \<in> set is. k < length ls \<and> k < length rs \<longrightarrow> compatible (snd res) (ls ! k) (rs ! k)"
    using Cons.prems(3) compatible_extends [OF Cons.prems(1)] head by auto
  then have tail: "table_extends (snd res) u" "length rest = length is"
      "\<forall>k < length is. (is ! k < length ls \<longrightarrow> specifies u (rest ! k) (ls ! (is ! k))) \<and>
       (is ! k < length rs \<longrightarrow> specifies u (rest ! k) (rs ! (is ! k)))"
    using Cons.IH [of "snd res" rest] head rest by blast+
  then show ?case
    using head table_extends_trans [of t "snd res" u] specifies_extends [OF tail(1)]
    by (auto simp: ps nth_Cons')
qed

lemma composite_made:
  assumes "type_table_ok t" "qualifiers_known t" "compatible t l r"
    and "semantic_composite_qual_types t l r = Some res" "qt_type_id (fst res) \<noteq> 0"
  shows "table_extends t (snd res)" "semantic_type_id_is_valid t (qt_type_id l)"
    "semantic_type_id_is_valid t (qt_type_id r)" "semantic_type_id_is_valid (snd res) (qt_type_id (fst res))"
proof -
  have full: "composite_of t l r res"
    using composite_exists [OF assms(1-3)] assms(4) by auto
  show "table_extends t (snd res)" "semantic_type_id_is_valid (snd res) (qt_type_id (fst res))"
    using composite_ofD(3,5) [OF full] assms(5) by (simp_all add: compatible_iff qual_validD)
  show "semantic_type_id_is_valid t (qt_type_id l)" "semantic_type_id_is_valid t (qt_type_id r)"
    using assms(3) by (simp_all add: compatible_iff qual_validD)
qed

lemma composite_pointer_specifies:
  assumes ok: "type_table_ok t" "qualifiers_known t" and lr: "compatible t l r"
    and comp: "semantic_composite_qual_types t l r = Some res" and id: "qt_type_id (fst res) \<noteq> 0"
    and differ: "qt_type_id l \<noteq> qt_type_id r"
    and kind: "shape_kind (entry_shape (tt_entry t (qt_type_id l))) = PSX_TYPE_POINTER"
      "shape_kind (entry_shape (tt_entry t (qt_type_id r))) = PSX_TYPE_POINTER"
    and b: "semantic_composite_qual_types t (entry_base_type (tt_entry t (qt_type_id l)))
      (entry_base_type (tt_entry t (qt_type_id r))) = Some b"
      "composite_of t (entry_base_type (tt_entry t (qt_type_id l)))
        (entry_base_type (tt_entry t (qt_type_id r))) b"
      "qt_type_id (fst b) \<noteq> 0 \<longrightarrow>
        specifies (snd b) (fst b) (entry_base_type (tt_entry t (qt_type_id l))) \<and>
        specifies (snd b) (fst b) (entry_base_type (tt_entry t (qt_type_id r)))"
  shows "specifies (snd res) (fst res) l \<and> specifies (snd res) (fst res) r"
proof -
  let ?e = "tt_entry t (qt_type_id l)" and ?f = "tt_entry t (qt_type_id r)"
  let ?g = "tt_entry (snd res) (qt_type_id (fst res))"
  note made = composite_made [OF ok lr comp id]
  note made_l = specifies_made [OF made(1,2,4) refl refl] and made_r = specifies_made [OF made(1,3,4) refl refl]
  let ?u = "psx_semantic_type_table_intern_pointer_to (snd b) (fst b)"
  have nz: "qt_type_id (fst b) \<noteq> 0" and res: "res = requalify (qt_qualifiers l) ?u"
    using composite_pointer_step [OF lr differ kind(1) b(1)] comp id by (auto split: if_splits)
  note g = intern_pointer_result [OF composite_ofD(1) [OF b(2)] prod.collapse [symmetric]]
  have "specifies (snd ?u) (fst b) (entry_base_type ?e) \<and> specifies (snd ?u) (fst b) (entry_base_type ?f)"
    using b(3) nz specifies_extends [OF pointer.extends [OF composite_ofD(1) [OF b(2)]]] by blast
  then show ?thesis
    using g id kind by (intro conjI made_l made_r) (simp_all add: res says_more_def)
qed

lemma composite_array_specifies:
  assumes ok: "type_table_ok t" "qualifiers_known t" and lr: "compatible t l r"
    and comp: "semantic_composite_qual_types t l r = Some res" and id: "qt_type_id (fst res) \<noteq> 0"
    and differ: "qt_type_id l \<noteq> qt_type_id r"
    and kind: "shape_kind (entry_shape (tt_entry t (qt_type_id l))) = PSX_TYPE_ARRAY"
      "shape_kind (entry_shape (tt_entry t (qt_type_id r))) = PSX_TYPE_ARRAY"
    and b: "semantic_composite_qual_types t (entry_base_type (tt_entry t (qt_type_id l)))
      (entry_base_type (tt_entry t (qt_type_id r))) = Some b"
      "composite_of t (entry_base_type (tt_entry t (qt_type_id l)))
        (entry_base_type (tt_entry t (qt_type_id r))) b"
      "qt_type_id (fst b) \<noteq> 0 \<longrightarrow>
        specifies (snd b) (fst b) (entry_base_type (tt_entry t (qt_type_id l))) \<and>
        specifies (snd b) (fst b) (entry_base_type (tt_entry t (qt_type_id r)))"
  shows "specifies (snd res) (fst res) l \<and> specifies (snd res) (fst res) r"
proof -
  let ?e = "tt_entry t (qt_type_id l)" and ?f = "tt_entry t (qt_type_id r)"
  let ?g = "tt_entry (snd res) (qt_type_id (fst res))"
  note made = composite_made [OF ok lr comp id]
  note made_l = specifies_made [OF made(1,2,4) refl refl] and made_r = specifies_made [OF made(1,3,4) refl refl]
  obtain n v where nv: "(n, v) =
      (if constant_bound (entry_shape ?e) then (shape_array_len (entry_shape ?e), False)
       else if constant_bound (entry_shape ?f) then (shape_array_len (entry_shape ?f), False)
       else (0, shape_is_vla (entry_shape ?e) \<or> shape_is_vla (entry_shape ?f)))"
    by (metis surj_pair)
  let ?u = "psx_semantic_type_table_intern_array_of (snd b) (fst b) n v"
  have nz: "qt_type_id (fst b) \<noteq> 0" and res: "res = requalify (qt_qualifiers l) ?u"
    using composite_array_step [OF lr differ kind(1) b(1) nv] comp id by (auto split: if_splits)
  note g = intern_array_result [OF composite_ofD(1) [OF b(2)] prod.collapse [symmetric]]
  have "specifies (snd ?u) (fst b) (entry_base_type ?e) \<and> specifies (snd ?u) (fst b) (entry_base_type ?f)"
    using b(3) nz specifies_extends [OF array.extends [OF composite_ofD(1) [OF b(2)]]] by blast
  moreover have "constant_bound (entry_shape ?e) \<and> constant_bound (entry_shape ?f) \<longrightarrow>
      shape_array_len (entry_shape ?e) = shape_array_len (entry_shape ?f)"
    using lr differ kind(1) by (simp add: compatible_iff entries_compatible_def)
  ultimately show ?thesis
    using g id kind nv
    by (intro conjI made_l made_r) (auto simp: res says_more_def constant_bound_def split: if_splits)
qed

text \<open>The parameters of the composite of two functions, interned on top of its result.\<close>

lemma composite_function_parameters:
  assumes ok: "type_table_ok t" "qualifiers_known t" and lr: "compatible t l r"
    and kind: "shape_kind (entry_shape (tt_entry t (qt_type_id l))) = PSX_TYPE_FUNCTION"
    and F: "functions_compatible t (tt_entry t (qt_type_id l)) (tt_entry t (qt_type_id r))"
    and B: "type_table_ok u" "qualifiers_known u" "table_extends t u"
    and step: "\<And>v p q. p \<in> set (entry_parameter_types (tt_entry t (qt_type_id l))) \<Longrightarrow>
      type_table_ok v \<Longrightarrow> qualifiers_known v \<Longrightarrow> compatible v p q \<Longrightarrow>
      \<exists>res. semantic_composite_qual_types v p q = Some res \<and> composite_of v p q res \<and>
        (qt_type_id (fst res) \<noteq> 0 \<longrightarrow> specifies (snd res) (fst res) p \<and> specifies (snd res) (fst res) q)"
  shows "\<exists>par. composite_parameters semantic_composite_qual_types
      (entry_parameter_types (tt_entry t (qt_type_id l))) (entry_parameter_types (tt_entry t (qt_type_id r)))
      [0..<composite_count (tt_entry t (qt_type_id l)) (tt_entry t (qt_type_id r))] u = Some par \<and>
    type_table_ok (snd par) \<and>
    (\<forall>ps. fst par = Some ps \<longrightarrow> table_extends u (snd par) \<and>
      length ps = composite_count (tt_entry t (qt_type_id l)) (tt_entry t (qt_type_id r)) \<and>
      (\<forall>k < length ps.
         (k < length (entry_parameter_types (tt_entry t (qt_type_id l))) \<longrightarrow>
            specifies (snd par) (ps ! k) (entry_parameter_types (tt_entry t (qt_type_id l)) ! k)) \<and>
         (k < length (entry_parameter_types (tt_entry t (qt_type_id r))) \<longrightarrow>
            specifies (snd par) (ps ! k) (entry_parameter_types (tt_entry t (qt_type_id r)) ! k))))"
proof -
  let ?e = "tt_entry t (qt_type_id l)" and ?f = "tt_entry t (qt_type_id r)"
  let ?n = "composite_count ?e ?f"
  have valid: "semantic_type_id_is_valid t (qt_type_id l)" "semantic_type_id_is_valid t (qt_type_id r)"
    using lr by (simp_all add: compatible_iff qual_validD)
  have both: "\<forall>i \<in> set [0..<?n]. i < length (entry_parameter_types ?e) \<and>
      i < length (entry_parameter_types ?f) \<longrightarrow> compatible u
        (entry_parameter_types ?e ! i) (entry_parameter_types ?f ! i)"
    using functions_compatible_parameters [OF ok(1) F] compatible_extends [OF ok(1) B(3)] by simp
  have quals: "\<forall>p \<in> set (entry_parameter_types ?e) \<union> set (entry_parameter_types ?f). qual_valid u p"
    using ok_parameter(1) [OF ok(1)] known_entry(2) [OF ok(2)] valid qual_valid_extends [OF B(3)]
    by (auto simp: qual_valid_iff)
  have "\<forall>i \<in> set [0..<?n]. i < length (entry_parameter_types ?e) \<or> i < length (entry_parameter_types ?f)"
    by (auto simp: composite_count_def)
  then obtain par where par: "composite_parameters semantic_composite_qual_types
      (entry_parameter_types ?e) (entry_parameter_types ?f) [0..<?n] u = Some par" "type_table_ok (snd par)"
    using composite_parameters_result [OF _ B(1,2) _ both quals, of semantic_composite_qual_types] step
    by blast
  have "table_extends u (snd par) \<and> length ps = length [0..<?n] \<and>
      (\<forall>k < length [0..<?n]. ([0..<?n] ! k < length (entry_parameter_types ?e) \<longrightarrow>
          specifies (snd par) (ps ! k) (entry_parameter_types ?e ! ([0..<?n] ! k))) \<and>
        ([0..<?n] ! k < length (entry_parameter_types ?f) \<longrightarrow>
          specifies (snd par) (ps ! k) (entry_parameter_types ?f ! ([0..<?n] ! k))))"
    if "fst par = Some ps" for ps
  proof (rule composite_parameters_specify [OF _ B(1,2) both])
    show "composite_parameters semantic_composite_qual_types
        (entry_parameter_types ?e) (entry_parameter_types ?f) [0..<?n] u = Some (Some ps, snd par)"
      using par(1) that by (metis prod.collapse)
  qed (rule step)
  then show ?thesis
    using par by simp
qed

lemma composite_function_specifies:
  assumes ok: "type_table_ok t" "qualifiers_known t" and lr: "compatible t l r"
    and comp: "semantic_composite_qual_types t l r = Some res" and id: "qt_type_id (fst res) \<noteq> 0"
    and differ: "qt_type_id l \<noteq> qt_type_id r"
    and kind: "shape_kind (entry_shape (tt_entry t (qt_type_id l))) = PSX_TYPE_FUNCTION"
      "shape_kind (entry_shape (tt_entry t (qt_type_id r))) = PSX_TYPE_FUNCTION"
    and b: "semantic_composite_qual_types t (entry_base_type (tt_entry t (qt_type_id l)))
      (entry_base_type (tt_entry t (qt_type_id r))) = Some b"
      "composite_of t (entry_base_type (tt_entry t (qt_type_id l)))
        (entry_base_type (tt_entry t (qt_type_id r))) b"
      "qt_type_id (fst b) \<noteq> 0 \<longrightarrow>
        specifies (snd b) (fst b) (entry_base_type (tt_entry t (qt_type_id l))) \<and>
        specifies (snd b) (fst b) (entry_base_type (tt_entry t (qt_type_id r)))"
    and step: "\<And>v p q. p \<in> set (entry_parameter_types (tt_entry t (qt_type_id l))) \<Longrightarrow>
      type_table_ok v \<Longrightarrow> qualifiers_known v \<Longrightarrow> compatible v p q \<Longrightarrow>
      \<exists>res. semantic_composite_qual_types v p q = Some res \<and> composite_of v p q res \<and>
        (qt_type_id (fst res) \<noteq> 0 \<longrightarrow> specifies (snd res) (fst res) p \<and> specifies (snd res) (fst res) q)"
  shows "specifies (snd res) (fst res) l \<and> specifies (snd res) (fst res) r"
proof -
  let ?e = "tt_entry t (qt_type_id l)" and ?f = "tt_entry t (qt_type_id r)"
  let ?g = "tt_entry (snd res) (qt_type_id (fst res))"
  note made = composite_made [OF ok lr comp id]
  note made_l = specifies_made [OF made(1,2,4) refl refl] and made_r = specifies_made [OF made(1,3,4) refl refl]
  have F: "functions_compatible t ?e ?f"
    using lr differ kind(1) by (simp add: compatible_iff entries_compatible_def)
  note B = composite_ofD [OF b(2)]
  have nz: "qt_type_id (fst b) \<noteq> 0"
  proof
    assume "qt_type_id (fst b) = 0"
    then have "semantic_composite_qual_types t l r = Some (invalid_qual_type, snd b)"
      using lr differ kind(1) b(1)
      by (subst semantic_composite_qual_types.simps) (simp add: Let_def)
    then show False
      using comp id by auto
  qed
  obtain par where par: "composite_parameters semantic_composite_qual_types
      (entry_parameter_types ?e) (entry_parameter_types ?f) [0..<composite_count ?e ?f] (snd b) = Some par"
      "type_table_ok (snd par)"
    and told: "\<forall>ps. fst par = Some ps \<longrightarrow> table_extends (snd b) (snd par) \<and>
      length ps = composite_count ?e ?f \<and> (\<forall>k < length ps.
         (k < length (entry_parameter_types ?e) \<longrightarrow>
            specifies (snd par) (ps ! k) (entry_parameter_types ?e ! k)) \<and>
         (k < length (entry_parameter_types ?f) \<longrightarrow>
            specifies (snd par) (ps ! k) (entry_parameter_types ?f ! k)))"
    using composite_function_parameters [OF ok lr kind(1) F B(1-3) step] by blast
  note call = composite_function_step [OF lr differ kind(1) b(1) nz par(1)]
  obtain ps where ps: "fst par = Some ps"
    using call comp id by (cases "fst par") auto
  let ?h = "shape_has_function_prototype (entry_shape ?e) \<or> shape_has_function_prototype (entry_shape ?f)"
  let ?u = "psx_semantic_type_table_intern_function (snd par) (fst b) ps ?h (composite_variadic ?e ?f)"
  have res: "res = requalify (qt_qualifiers l) ?u"
    using call comp by (simp add: ps)
  note g = intern_function_result [OF par(2) prod.collapse [symmetric]]
  note up = specifies_extends [OF func.extends [OF par(2)]]
  have "specifies (snd ?u) (fst b) (entry_base_type ?e) \<and> specifies (snd ?u) (fst b) (entry_base_type ?f)"
    using b(3) nz told ps specifies_extends [of "snd b" "snd par"] up by blast
  moreover have "length (entry_parameter_types ?e) \<le> length ps" "length (entry_parameter_types ?f) \<le> length ps"
    using F told ps by (auto simp: functions_compatible_def same_parameters_def fits_old_style_def
        composite_count_def split: bool.splits)
  moreover have "says_more (entry_shape ?g) (entry_shape ?e)" "says_more (entry_shape ?g) (entry_shape ?f)"
    using g id kind F
    by (auto simp: res says_more_def composite_variadic_def functions_compatible_def split: bool.splits)
  ultimately show ?thesis
    using g id kind told ps up by (intro conjI made_l made_r) (simp_all add: res)
qed

lemma composite_specifies:
  "type_table_ok t \<Longrightarrow> qualifiers_known t \<Longrightarrow> compatible t l r \<Longrightarrow>
     semantic_composite_qual_types t l r = Some res \<Longrightarrow> qt_type_id (fst res) \<noteq> 0 \<Longrightarrow>
     specifies (snd res) (fst res) l \<and> specifies (snd res) (fst res) r"
proof (induction "qt_type_id l" arbitrary: t l r res rule: less_induct)
  case less
  note ok = less.prems(1,2) and lr = less.prems(3)
  let ?e = "tt_entry t (qt_type_id l)" and ?f = "tt_entry t (qt_type_id r)"
  note valid = composite_made(2,3) [OF less.prems]
  show ?case
  proof (cases "qt_type_id l = qt_type_id r")
    case True
    then have "res = (l, t)"
      using lr less.prems(4) by (subst (asm) semantic_composite_qual_types.simps) simp
    then show ?thesis
      using True by (auto intro: specifies.same)
  next
    case differ: False
    have e: "entries_compatible t ?e ?f"
      using lr differ by (simp add: compatible_iff)
    have kind: "shape_kind (entry_shape ?f) = shape_kind (entry_shape ?e)"
      using e by (simp add: entries_compatible_def)
    have known: "\<exists>res. semantic_composite_qual_types v p q = Some res \<and> composite_of v p q res \<and>
        (qt_type_id (fst res) \<noteq> 0 \<longrightarrow> specifies (snd res) (fst res) p \<and> specifies (snd res) (fst res) q)"
      if "qt_type_id p < qt_type_id l" "type_table_ok v" "qualifiers_known v" "compatible v p q" for v p q
      using composite_exists [OF that(2-4)] less.hyps [OF that] by blast
    have base: "\<exists>b. semantic_composite_qual_types t (entry_base_type ?e) (entry_base_type ?f) = Some b \<and>
        composite_of t (entry_base_type ?e) (entry_base_type ?f) b \<and>
        (qt_type_id (fst b) \<noteq> 0 \<longrightarrow> specifies (snd b) (fst b) (entry_base_type ?e) \<and>
           specifies (snd b) (fst b) (entry_base_type ?f))"
      if "shape_kind (entry_shape ?e) \<in> {PSX_TYPE_POINTER, PSX_TYPE_ARRAY, PSX_TYPE_FUNCTION}"
      using that known [OF ok_base(2) [OF ok(1) valid(1)] ok] e
      by (auto simp: entries_compatible_def functions_compatible_def shape_requires_base_def)
    have step: "\<exists>res. semantic_composite_qual_types v p q = Some res \<and> composite_of v p q res \<and>
        (qt_type_id (fst res) \<noteq> 0 \<longrightarrow> specifies (snd res) (fst res) p \<and> specifies (snd res) (fst res) q)"
      if "p \<in> set (entry_parameter_types ?e)" "type_table_ok v" "qualifiers_known v" "compatible v p q" for v p q
      by (rule known [OF ok_parameter(2) [OF ok(1) valid(1) that(1)] that(2-4)])
    consider "shape_kind (entry_shape ?e) = PSX_TYPE_POINTER" | "shape_kind (entry_shape ?e) = PSX_TYPE_ARRAY"
      | "shape_kind (entry_shape ?e) = PSX_TYPE_FUNCTION"
      | "shape_kind (entry_shape ?e) \<notin> {PSX_TYPE_POINTER, PSX_TYPE_ARRAY, PSX_TYPE_FUNCTION}"
      by blast
    then show ?thesis
    proof cases
      case 1
      then show ?thesis
        using base composite_pointer_specifies [OF less.prems differ 1] kind by auto
    next
      case 2
      then show ?thesis
        using base composite_array_specifies [OF less.prems differ 2] kind by auto
    next
      case 3
      then obtain b where b: "semantic_composite_qual_types t (entry_base_type ?e) (entry_base_type ?f) = Some b"
          "composite_of t (entry_base_type ?e) (entry_base_type ?f) b"
          "qt_type_id (fst b) \<noteq> 0 \<longrightarrow> specifies (snd b) (fst b) (entry_base_type ?e) \<and>
           specifies (snd b) (fst b) (entry_base_type ?f)"
        using base by auto
      show ?thesis
        by (rule composite_function_specifies [OF less.prems differ 3 _ b step]) (simp_all add: kind 3)
    next
      case 4
      then have "res = (l, t)"
        using composite_other_step [OF lr differ] less.prems(4) by simp
      moreover have "specifies t l r"
        by (rule specifies.parts) (use valid 4 kind in \<open>auto simp: says_more_def\<close>)
      ultimately show ?thesis
        by (simp add: specifies.same)
    qed
  qed
qed

section \<open>Matching\<close>

text \<open>Pointers and arrays over the types that are neither functions nor complex.\<close>

inductive derived_type :: "psx_semantic_type_table_t \<Rightarrow> psx_type_id_t \<Rightarrow> bool" for t where
  basic: "semantic_type_id_is_valid t i \<Longrightarrow>
    \<not> shape_requires_base (shape_kind (entry_shape (tt_entry t i))) \<Longrightarrow> derived_type t i"
| derived: "semantic_type_id_is_valid t i \<Longrightarrow>
    shape_kind (entry_shape (tt_entry t i)) \<in> {PSX_TYPE_POINTER, PSX_TYPE_ARRAY} \<Longrightarrow>
    derived_type t (qt_type_id (psx_semantic_type_table_base t i)) \<Longrightarrow> derived_type t i"

inductive_cases derived_typeE: "derived_type t i"

lemma match_same_aux:
  assumes ok: "type_table_ok t"
  shows "derived_type t i \<Longrightarrow> qt_type_id l = i \<Longrightarrow>
    semantic_qual_types_match t l r c = Some True \<Longrightarrow> qt_type_id r = i"
proof (induction i arbitrary: l r c rule: derived_type.induct)
  case (basic i)
  have valid: "semantic_type_id_is_valid t (qt_type_id r)" and quals: "qual_valid t l" "qual_valid t r"
    using basic.prems(2) by (auto simp: semantic_qual_types_match.simps qual_valid_iff split: if_splits)
  show ?case
  proof (rule ccontr)
    assume "qt_type_id r \<noteq> i"
    then have kind: "shape_kind (entry_shape (tt_entry t (qt_type_id r))) =
        shape_kind (entry_shape (tt_entry t i))"
      and match: "semantic_type_shapes_match (entry_shape (tt_entry t i))
        (entry_shape (tt_entry t (qt_type_id r)))"
      using basic quals
      by (auto simp: semantic_qual_types_match.simps [of t l] Let_def shape_requires_base_def
          split: if_splits psx_type_kind_t.splits)
    have "entries_same (tt_entry t i) (tt_entry t (qt_type_id r))"
      using match ok_no_base [OF ok basic.hyps(1)] ok_no_base [OF ok valid] basic.hyps(2) kind
        ok_entry(1) [OF ok] basic.hyps(1) valid
      by (auto simp: entries_same_def ok_valid_iff [OF ok] entry_shape_ok_def shape_requires_base_def)
    then show False
      using ok_unique [OF ok basic.hyps(1) valid] \<open>qt_type_id r \<noteq> i\<close> by simp
  qed
next
  case (derived i)
  have valid: "semantic_type_id_is_valid t (qt_type_id r)" and quals: "qual_valid t l" "qual_valid t r"
    using derived.prems(2) by (auto simp: semantic_qual_types_match.simps qual_valid_iff split: if_splits)
  let ?e = "tt_entry t i" and ?f = "tt_entry t (qt_type_id r)"
  show ?case
  proof (rule ccontr)
    assume differ: "qt_type_id r \<noteq> i"
    then have kind: "shape_kind (entry_shape ?f) = shape_kind (entry_shape ?e)"
      and rec: "semantic_qual_types_match t (entry_base_type ?e) (entry_base_type ?f) True = Some True"
      and shape: "semantic_type_shapes_match (entry_shape ?e) (entry_shape ?f)"
      using derived.prems derived.hyps(2) quals
      by (auto simp: semantic_qual_types_match.simps [of t l] Let_def shapes_match_by_kind
          split: if_splits)
    have links: "shape_requires_base (shape_kind (entry_shape ?e))"
      using derived.hyps(2) by (auto simp: shape_requires_base_def)
    have "qt_type_id (entry_base_type ?f) = qt_type_id (entry_base_type ?e)"
      using derived.IH [OF _ rec] base_of_ok(1) [OF ok derived.hyps(1) links] by simp
    moreover have "qt_qualifiers (entry_base_type ?e) = qt_qualifiers (entry_base_type ?f)"
      using rec by (auto simp: semantic_qual_types_match.simps split: if_splits)
    ultimately have "entries_same ?e ?f"
      using shape kind derived.hyps ok_entry(1) [OF ok] valid
      by (auto simp: entries_same_def qual_type_eq_iff ok_valid_iff [OF ok] entry_shape_ok_def)
    then show False
      using ok_unique [OF ok derived.hyps(1) valid] differ by simp
  qed
qed

section \<open>Properties\<close>

text \<open>
  C29. Compatibility is decided on every table the program can build, does not depend on the order of
  the operands, and a type whose qualifiers are known is compatible with itself.
\<close>

theorem compatibility_symmetric:
  assumes "type_table_reachable t"
  shows "(\<exists>b. psx_semantic_type_table_types_compatible t l r = Some b \<and>
      psx_semantic_type_table_types_compatible t r l = Some b) \<and>
    (psx_semantic_type_table_qual_type_is_valid t l \<longrightarrow>
      psx_semantic_type_table_types_compatible t l l = Some True)"
  using compatible_returns [OF reachable_ok [OF assms], of l r True]
    compatible_sym_option [OF reachable_ok [OF assms], of l r True]
  by (simp add: psx_semantic_type_table_types_compatible_def compatible_refl)

text \<open>
  C30. Two compatible types have a composite type, unless the table of types is full: it is compatible
  with both, has their qualifiers, and building it leaves the older types as they are. It says all
  that either operand says, all the way down: it has the array bound, the prototype and the
  parameters wherever the left or the right operand has them. The types of the table carry no
  unknown qualifier bits, which interning does not check.
\<close>

theorem composite_type_compatible:
  assumes "type_table_reachable t" "qualifiers_known t"
    and "psx_semantic_type_table_types_compatible t l r = Some True"
  shows "\<exists>q u. psx_semantic_type_table_composite_type t l r = Some (q, u) \<and>
    type_table_ok u \<and> table_extends t u \<and>
    (if qt_type_id q = PSX_TYPE_ID_INVALID then int (tt_next_id u) = UINT_MAX
     else psx_semantic_type_table_types_compatible u q l = Some True \<and>
          psx_semantic_type_table_types_compatible u q r = Some True \<and>
          specifies u q l \<and> specifies u q r \<and> qt_qualifiers q = qt_qualifiers l)"
proof -
  obtain res where res: "semantic_composite_qual_types t l r = Some res" "composite_of t l r res"
    using composite_exists [OF reachable_ok [OF assms(1)] assms(2), of l r] assms(3)
    by (auto simp: psx_semantic_type_table_types_compatible_def)
  then have "specifies (snd res) (fst res) l \<and> specifies (snd res) (fst res) r"
    if "qt_type_id (fst res) \<noteq> 0"
    using composite_specifies [OF reachable_ok [OF assms(1)] assms(2) _ res(1) that] assms(3)
    by (simp add: psx_semantic_type_table_types_compatible_def)
  then show ?thesis
    using res
    by (intro exI [of _ "fst res"] exI [of _ "snd res"])
      (auto simp: psx_semantic_type_table_composite_type_def composite_of_def
        psx_semantic_type_table_types_compatible_def compatible_iff)
qed

text \<open>
  The structural comparison of pointer and array types over basic, enumerated and record types
  finds exactly the types with the same id: interning has already decided it.
\<close>

theorem matching_is_identity:
  assumes "type_table_reachable t" "derived_type t (qt_type_id l)"
    and "psx_semantic_type_table_qual_type_is_valid t l"
    and "psx_semantic_type_table_qual_type_is_valid t r"
  shows "psx_semantic_type_table_unqualified_types_match t l r = Some True \<longleftrightarrow>
    qt_type_id l = qt_type_id r"
proof
  assume "psx_semantic_type_table_unqualified_types_match t l r = Some True"
  then show "qt_type_id l = qt_type_id r"
    using match_same_aux [OF reachable_ok [OF assms(1)] assms(2) refl]
    by (simp add: psx_semantic_type_table_unqualified_types_match_def)
next
  assume "qt_type_id l = qt_type_id r"
  then show "psx_semantic_type_table_unqualified_types_match t l r = Some True"
    using assms(3,4)
    by (simp add: psx_semantic_type_table_unqualified_types_match_def semantic_qual_types_match.simps)
qed

section \<open>Witnesses\<close>

text \<open>An \<^verbatim>\<open>int[]\<close> and an \<^verbatim>\<open>int[3]\<close>.\<close>

definition two_arrays :: psx_semantic_type_table_t where
  "two_arrays =
     snd (psx_semantic_type_table_intern_array_of
       (snd (psx_semantic_type_table_intern_array_of start_table
          \<lparr>qt_type_id = 7, qt_qualifiers = 0\<rparr> 0 False))
       \<lparr>qt_type_id = 7, qt_qualifiers = 0\<rparr> 3 False)"

lemma two_arrays_reachable: "type_table_reachable two_arrays"
  unfolding two_arrays_def by (intro type_table_reachable.intros start_table_reachable)

lemma two_arrays_known: "qualifiers_known two_arrays"
  by code_simp

lemma compatibility_symmetric_witness:
  "psx_semantic_type_table_types_compatible two_arrays \<lparr>qt_type_id = 20, qt_qualifiers = 1\<rparr>
     \<lparr>qt_type_id = 20, qt_qualifiers = 1\<rparr> = Some True"
proof -
  have "psx_semantic_type_table_qual_type_is_valid two_arrays \<lparr>qt_type_id = 20, qt_qualifiers = 1\<rparr>"
    by code_simp
  with compatibility_symmetric [OF two_arrays_reachable] show ?thesis
    by blast
qed

lemma composite_type_compatible_witness:
  "\<exists>q u. psx_semantic_type_table_composite_type two_arrays \<lparr>qt_type_id = 20, qt_qualifiers = 0\<rparr>
     \<lparr>qt_type_id = 21, qt_qualifiers = 0\<rparr> = Some (q, u) \<and> table_extends two_arrays u"
proof -
  have "psx_semantic_type_table_types_compatible two_arrays \<lparr>qt_type_id = 20, qt_qualifiers = 0\<rparr>
     \<lparr>qt_type_id = 21, qt_qualifiers = 0\<rparr> = Some True"
    by code_simp
  from composite_type_compatible [OF two_arrays_reachable two_arrays_known this] show ?thesis
    by blast
qed

lemma two_arrays_derived: "derived_type two_arrays 21"
proof (rule derived_type.derived)
  show "derived_type two_arrays (qt_type_id (psx_semantic_type_table_base two_arrays 21))"
    by (rule derived_type.basic; code_simp)
qed code_simp+

lemma matching_is_identity_witness:
  "psx_semantic_type_table_unqualified_types_match two_arrays \<lparr>qt_type_id = 21, qt_qualifiers = 0\<rparr>
     \<lparr>qt_type_id = 20, qt_qualifiers = 0\<rparr> = Some True \<longleftrightarrow>
   qt_type_id \<lparr>qt_type_id = 21, qt_qualifiers = 0\<rparr> = qt_type_id \<lparr>qt_type_id = 20, qt_qualifiers = 0\<rparr>"
proof (rule matching_is_identity [OF two_arrays_reachable])
  show "derived_type two_arrays (qt_type_id \<lparr>qt_type_id = 21, qt_qualifiers = 0\<rparr>)"
    using two_arrays_derived by simp
qed code_simp+

end
