(* ===== verification/Registry.thy ===== *)
theory Registry
  imports Prelude
begin

text \<open>
  The contract of the append-only registries of the compiler: the symbols of a MIR module, the
  function references of a symbol, the objects of a data module, the record layouts. A client
  looks a key up and adds it when it is missing; what it holds afterwards is a pointer to the
  entry, here its position.
\<close>

locale registry =
  fixes find :: "'m \<Rightarrow> 'k \<Rightarrow> nat option"
    and add :: "'m \<Rightarrow> 'k \<Rightarrow> 'm"
    and valid :: "'k \<Rightarrow> bool"
  assumes add_finds: "valid k \<Longrightarrow> find (add m k) k \<noteq> None"
    and add_keeps: "find m k' = Some p \<Longrightarrow> find (add m k) k' = Some p"
    and add_only: "find (add m k) k' = Some p \<Longrightarrow> find m k' = Some p \<or> k' = k \<and> valid k"
    and add_present: "find m k \<noteq> None \<Longrightarrow> add m k = m"
    and add_invalid: "\<not> valid k \<Longrightarrow> add m k = m"
begin

lemma add_idempotent: "add (add m k) k = add m k"
  using add_finds [of k m] add_present [of "add m k" k] add_invalid [of k] by (cases "valid k") auto

lemma adds_keep: "find m k = Some p \<Longrightarrow> find (fold (\<lambda>k m. add m k) ks m) k = Some p"
  by (induction ks arbitrary: m) (auto dest: add_keeps)

lemma adds_find:
  "find (fold (\<lambda>k m. add m k) ks m) k \<noteq> None \<longleftrightarrow> find m k \<noteq> None \<or> k \<in> set ks \<and> valid k"
proof (induction ks arbitrary: m)
  case Nil
  then show ?case by simp
next
  case (Cons k' ks)
  have "find (add m k') k \<noteq> None \<longleftrightarrow> find m k \<noteq> None \<or> k = k' \<and> valid k"
    using add_finds add_keeps add_only by blast
  then show ?case using Cons.IH [of "add m k'"] by auto
qed

lemma adds_present: "\<forall>k \<in> set ks. find m k \<noteq> None \<Longrightarrow> fold (\<lambda>k m. add m k) ks m = m"
  by (induction ks) (auto simp: add_present)

end

text \<open>A registry whose entries determine their keys: two keys never share an entry.\<close>

locale injective_registry = registry +
  assumes find_injective: "find m k = Some p \<Longrightarrow> find m k' = Some p \<Longrightarrow> k = k'"
begin

lemma add_distinct:
  assumes "find (add m k) k = Some p" "find m k' = Some q" "k' \<noteq> k"
  shows "p \<noteq> q"
  using assms find_injective add_keeps by metis

end

section \<open>Linear search\<close>

text \<open>The loop over the links: the position of the first entry with the key.\<close>

fun find_position :: "('a \<Rightarrow> bool) \<Rightarrow> nat \<Rightarrow> 'a list \<Rightarrow> nat option" where
  "find_position P n [] = None"
| "find_position P n (x # xs) = (if P x then Some n else find_position P (Suc n) xs)"

lemma find_position_None: "find_position P n xs = None \<longleftrightarrow> (\<forall>x \<in> set xs. \<not> P x)"
  by (induction xs arbitrary: n) auto

lemma find_position_Some:
  "find_position P n xs = Some p \<Longrightarrow> n \<le> p \<and> p < n + length xs \<and> P (xs ! (p - n))"
proof (induction xs arbitrary: n)
  case Nil
  then show ?case by simp
next
  case (Cons x xs)
  then show ?case
    by (cases "P x") (fastforce simp: nth_Cons' Suc_diff_le dest: Cons.IH)+
qed

lemma find_position_append:
  "find_position P n (xs @ ys) =
    (case find_position P n xs of Some p \<Rightarrow> Some p | None \<Rightarrow> find_position P (n + length xs) ys)"
  by (induction xs arbitrary: n) (auto split: option.split)

lemma find_position_0:
  "find_position P 0 xs = Some p \<Longrightarrow> p < length xs \<and> P (xs ! p)"
  using find_position_Some [of P 0 xs p] by simp

end
