(* ===== verification/TypeLayout.thy ===== *)
theory TypeLayout
  imports TypeIdentity Registry
begin

text \<open>
  Sizes and alignments: the table of completed records \<^verbatim>\<open>src/semantic/record_layout.c\<close>, the layout
  of qualified types \<^verbatim>\<open>src/type_layout.c\<close> and the frame of a function
  \<^verbatim>\<open>src/lowering/frame_layout.c\<close>. The walk down an array type is a
  \<open>partial_function (option)\<close>: the outer \<open>None\<close> is a walk that does not return, the inner one the
  failure flag. Allocation does not fail, and the tables are not NULL.
\<close>

section \<open>The table of record layouts\<close>

record psx_record_member_layout_t =
  ml_offset :: int
  ml_bit_offset :: int

record psx_record_layout_t =
  rl_record_id :: psx_record_id_t
  rl_data_layout :: ag_data_layout_t
  rl_size :: int
  rl_alignment :: int
  rl_members :: "psx_record_member_layout_t list"

type_synonym psx_record_layout_table_t = "psx_record_layout_t list"

definition psx_record_layout_table_create :: psx_record_layout_table_t where
  "psx_record_layout_table_create = []"

definition psx_record_layout_table_reset ::
  "psx_record_layout_table_t \<Rightarrow> psx_record_layout_table_t" where
  "psx_record_layout_table_reset table = []"

definition find_entry ::
  "psx_record_layout_table_t \<Rightarrow> psx_record_id_t \<Rightarrow> ag_data_layout_t option \<Rightarrow> nat option" where
  "find_entry table record_id data_layout =
    (if record_id = PSX_RECORD_ID_INVALID \<or> data_layout = None then None
     else find_position (\<lambda>entry. rl_record_id entry = record_id \<and>
            ag_data_layout_equal (Some (rl_data_layout entry)) data_layout) 0 table)"

definition psx_record_layout_table_define ::
  "psx_record_layout_table_t \<Rightarrow> psx_record_id_t \<Rightarrow> ag_data_layout_t option \<Rightarrow> int \<Rightarrow> int \<Rightarrow>
   psx_record_member_layout_t list \<Rightarrow> psx_record_layout_table_t option" where
  "psx_record_layout_table_define table record_id data_layout layout_size alignment members =
    (if record_id = PSX_RECORD_ID_INVALID \<or> \<not> ag_data_layout_is_valid data_layout \<or>
        layout_size < 0 \<or> alignment \<le> 0
     then None
     else let entry = \<lparr>rl_record_id = record_id, rl_data_layout = the data_layout,
                       rl_size = layout_size, rl_alignment = alignment, rl_members = members\<rparr>
          in case find_entry table record_id data_layout of
               Some i \<Rightarrow> Some (table[i := entry])
             | None \<Rightarrow> Some (table @ [entry]))"

definition psx_record_layout_table_lookup ::
  "psx_record_layout_table_t \<Rightarrow> psx_record_id_t \<Rightarrow> ag_data_layout_t option \<Rightarrow>
   psx_record_layout_t option" where
  "psx_record_layout_table_lookup table record_id data_layout =
     map_option (\<lambda>i. table ! i) (find_entry table record_id data_layout)"

definition psx_record_layout_member ::
  "psx_record_layout_t option \<Rightarrow> int \<Rightarrow> psx_record_member_layout_t option" where
  "psx_record_layout_member layout member_index =
    (case layout of
       None \<Rightarrow> None
     | Some l \<Rightarrow> if member_index < 0 \<or> member_index \<ge> int (length (rl_members l)) then None
                 else Some (rl_members l ! nat member_index))"

section \<open>The layout of a type\<close>

record psx_type_layout_t =
  tl_size :: int
  tl_alignment :: int
  tl_is_complete :: bool

definition incomplete_layout :: psx_type_layout_t where
  "incomplete_layout = \<lparr>tl_size = 0, tl_alignment = 1, tl_is_complete = False\<rparr>"

definition integer_target_kind :: "psx_type_shape_t option \<Rightarrow> ag_target_scalar_kind_t" where
  "integer_target_kind type =
    (case (case type of Some t \<Rightarrow> shape_integer_kind t | None \<Rightarrow> PSX_INTEGER_KIND_INT) of
       PSX_INTEGER_KIND_CHAR \<Rightarrow> AG_TARGET_SCALAR_CHAR
     | PSX_INTEGER_KIND_SHORT \<Rightarrow> AG_TARGET_SCALAR_SHORT
     | PSX_INTEGER_KIND_LONG \<Rightarrow> AG_TARGET_SCALAR_LONG
     | PSX_INTEGER_KIND_LONG_LONG \<Rightarrow> AG_TARGET_SCALAR_LONG_LONG
     | _ \<Rightarrow> AG_TARGET_SCALAR_INT)"

definition floating_target_kind :: "psx_type_shape_t option \<Rightarrow> ag_target_scalar_kind_t" where
  "floating_target_kind type =
    (let is_complex = (case type of Some t \<Rightarrow> shape_kind t = PSX_TYPE_COMPLEX | None \<Rightarrow> False);
         is_kind = (\<lambda>k. case type of Some t \<Rightarrow> shape_floating_kind t = k | None \<Rightarrow> False)
     in if is_kind PSX_FLOATING_KIND_LONG_DOUBLE
        then if is_complex then AG_TARGET_SCALAR_LONG_DOUBLE_COMPLEX else AG_TARGET_SCALAR_LONG_DOUBLE
        else if is_kind PSX_FLOATING_KIND_FLOAT
        then if is_complex then AG_TARGET_SCALAR_FLOAT_COMPLEX else AG_TARGET_SCALAR_FLOAT
        else if is_complex then AG_TARGET_SCALAR_DOUBLE_COMPLEX else AG_TARGET_SCALAR_DOUBLE)"

text \<open>\<open>out\<close> is the layout the caller has zeroed; the success flag is always 1.\<close>

definition layout_scalar ::
  "psx_type_shape_t \<Rightarrow> ag_data_layout_t option \<Rightarrow> psx_type_layout_t \<Rightarrow> psx_type_layout_t" where
  "layout_scalar type data_layout out =
    (if shape_kind type = PSX_TYPE_INTEGER \<and>
        shape_integer_kind type \<noteq> PSX_INTEGER_KIND_CHAR \<and>
        shape_integer_kind type \<noteq> PSX_INTEGER_KIND_SHORT \<and>
        shape_integer_kind type \<noteq> PSX_INTEGER_KIND_INT \<and>
        shape_integer_kind type \<noteq> PSX_INTEGER_KIND_LONG \<and>
        shape_integer_kind type \<noteq> PSX_INTEGER_KIND_LONG_LONG \<and>
        shape_integer_kind type \<noteq> PSX_INTEGER_KIND_ENUM
     then out
     else let kind = (if shape_kind type = PSX_TYPE_BOOL then AG_TARGET_SCALAR_CHAR
                      else if shape_kind type = PSX_TYPE_INTEGER then integer_target_kind (Some type)
                      else floating_target_kind (Some type))
          in out\<lparr>tl_size := ag_data_layout_scalar_size data_layout kind,
                 tl_alignment := ag_data_layout_scalar_alignment data_layout kind,
                 tl_is_complete := True\<rparr>)"

definition layout_non_array ::
  "psx_type_shape_t \<Rightarrow> ag_data_layout_t option \<Rightarrow> psx_type_layout_t option" where
  "layout_non_array type data_layout =
    (case shape_kind type of
       PSX_TYPE_VOID \<Rightarrow> Some incomplete_layout
     | PSX_TYPE_FUNCTION \<Rightarrow> Some incomplete_layout
     | PSX_TYPE_INVALID \<Rightarrow> Some incomplete_layout
     | PSX_TYPE_POINTER \<Rightarrow>
         Some \<lparr>tl_size = ag_data_layout_pointer_size data_layout,
               tl_alignment = ag_data_layout_pointer_alignment data_layout,
               tl_is_complete = True\<rparr>
     | PSX_TYPE_ARRAY \<Rightarrow> None
     | PSX_TYPE_BOOL \<Rightarrow> Some (layout_scalar type data_layout incomplete_layout)
     | PSX_TYPE_INTEGER \<Rightarrow> Some (layout_scalar type data_layout incomplete_layout)
     | PSX_TYPE_FLOAT \<Rightarrow> Some (layout_scalar type data_layout incomplete_layout)
     | PSX_TYPE_COMPLEX \<Rightarrow> Some (layout_scalar type data_layout incomplete_layout)
     | PSX_TYPE_STRUCT \<Rightarrow> Some incomplete_layout
     | PSX_TYPE_UNION \<Rightarrow> Some incomplete_layout)"

definition layout_non_array_with_records ::
  "psx_type_shape_t \<Rightarrow> psx_record_layout_table_t \<Rightarrow> ag_data_layout_t option \<Rightarrow>
   psx_type_layout_t option" where
  "layout_non_array_with_records type record_layouts data_layout =
    (if shape_kind type \<noteq> PSX_TYPE_STRUCT \<and> shape_kind type \<noteq> PSX_TYPE_UNION
     then layout_non_array type data_layout
     else if shape_record_id type = PSX_RECORD_ID_INVALID then Some incomplete_layout
     else case psx_record_layout_table_lookup record_layouts (shape_record_id type) data_layout of
            None \<Rightarrow> Some incomplete_layout
          | Some layout \<Rightarrow> Some \<lparr>tl_size = rl_size layout, tl_alignment = rl_alignment layout,
                                 tl_is_complete = True\<rparr>)"

definition complete_array_layout ::
  "psx_type_shape_t \<Rightarrow> psx_type_layout_t \<Rightarrow> psx_type_layout_t option" where
  "complete_array_layout array_type element =
    (let out = \<lparr>tl_size = 0, tl_alignment = tl_alignment element, tl_is_complete = False\<rparr>
     in if \<not> tl_is_complete element \<or> shape_is_vla array_type \<or> shape_array_len array_type \<le> 0
        then Some out
        else if tl_size element > 0 \<and> shape_array_len array_type > INT_MAX div tl_size element
        then None
        else Some (out\<lparr>tl_size := shape_array_len array_type * tl_size element,
                       tl_is_complete := True\<rparr>))"

text \<open>
  The loop that doubles \<^verbatim>\<open>promoted_size\<close> from 1; it is always positive, which the extra guard
  states for the termination proof.
\<close>

function promoted_size_loop :: "int \<Rightarrow> int \<Rightarrow> int \<Rightarrow> int option" where
  "promoted_size_loop promoted_size layout_size promoted_max =
    (if 0 < promoted_size \<and> promoted_size < layout_size
     then if promoted_size > promoted_max div 2 then None
          else promoted_size_loop (promoted_size * 2) layout_size promoted_max
     else Some promoted_size)"
  by pat_completeness auto
termination
  by (relation "measure (\<lambda>(p, s, m). nat (s - p))") auto

declare promoted_size_loop.simps [simp del]

definition apply_atomic_layout ::
  "psx_type_qualifiers_t \<Rightarrow> ag_data_layout_t option \<Rightarrow> psx_type_layout_t \<Rightarrow> psx_type_layout_t option" where
  "apply_atomic_layout qualifiers data_layout layout =
    (if qualifiers AND PSX_TYPE_QUALIFIER_ATOMIC = 0 then Some layout
     else if \<not> tl_is_complete layout \<or> tl_size layout \<le> 0 then None
     else let promoted_max = ag_data_layout_atomic_promoted_max_size data_layout;
              max_alignment = ag_data_layout_atomic_max_alignment data_layout
     in if promoted_max \<le> 0 \<or> max_alignment \<le> 0 then None
     else if tl_size layout > promoted_max then Some layout
     else case promoted_size_loop 1 (tl_size layout) promoted_max of
            None \<Rightarrow> None
          | Some promoted_size \<Rightarrow>
              let atomic_alignment = (if promoted_size < max_alignment then promoted_size
                                      else max_alignment)
              in Some (layout\<lparr>tl_size := promoted_size,
                              tl_alignment := (if atomic_alignment > tl_alignment layout
                                               then atomic_alignment else tl_alignment layout)\<rparr>))"

partial_function (option) layout_of_qual_type_recursive ::
  "psx_semantic_type_table_t \<Rightarrow> psx_record_layout_table_t \<Rightarrow> ag_data_layout_t option \<Rightarrow>
   psx_qual_type_t \<Rightarrow> psx_type_layout_t option option" where
  "layout_of_qual_type_recursive types record_layouts data_layout qual_type =
    (if \<not> psx_semantic_type_table_qual_type_is_valid types qual_type then Some None
     else case psx_semantic_type_table_describe types (qt_type_id qual_type) of
       None \<Rightarrow> Some None
     | Some type \<Rightarrow>
         if shape_kind type \<noteq> PSX_TYPE_ARRAY
         then Some (case layout_non_array_with_records type record_layouts data_layout of
                      None \<Rightarrow> None
                    | Some out \<Rightarrow> apply_atomic_layout (qt_qualifiers qual_type) data_layout out)
         else if qt_qualifiers qual_type AND PSX_TYPE_QUALIFIER_ATOMIC \<noteq> 0 then Some None
         else Option.bind (layout_of_qual_type_recursive types record_layouts data_layout
                             (psx_semantic_type_table_base types (qt_type_id qual_type)))
                (\<lambda>element. Some (case element of
                                   None \<Rightarrow> None
                                 | Some e \<Rightarrow> complete_array_layout type e)))"

declare layout_of_qual_type_recursive.simps [code]

definition psx_qual_type_layout_of ::
  "psx_semantic_type_table_t \<Rightarrow> psx_record_layout_table_t \<Rightarrow> psx_qual_type_t \<Rightarrow>
   ag_data_layout_t option \<Rightarrow> psx_type_layout_t option option" where
  "psx_qual_type_layout_of types record_layouts qual_type data_layout =
    (if \<not> ag_data_layout_is_valid data_layout then Some None
     else layout_of_qual_type_recursive types record_layouts data_layout qual_type)"

definition psx_type_layout_of ::
  "psx_semantic_type_table_t \<Rightarrow> psx_record_layout_table_t \<Rightarrow> psx_type_id_t \<Rightarrow>
   ag_data_layout_t option \<Rightarrow> psx_type_layout_t option option" where
  "psx_type_layout_of types record_layouts type_id data_layout =
    (if \<not> ag_data_layout_is_valid data_layout then Some None
     else psx_qual_type_layout_of types record_layouts
            \<lparr>qt_type_id = type_id, qt_qualifiers = PSX_TYPE_QUALIFIER_NONE\<rparr> data_layout)"

definition psx_qual_type_layout_sizeof ::
  "psx_semantic_type_table_t \<Rightarrow> psx_record_layout_table_t \<Rightarrow> psx_qual_type_t \<Rightarrow>
   ag_data_layout_t option \<Rightarrow> int option" where
  "psx_qual_type_layout_sizeof types record_layouts qual_type data_layout =
     map_option (\<lambda>layout. case layout of
         Some l \<Rightarrow> if tl_is_complete l then tl_size l else 0
       | None \<Rightarrow> 0)
       (psx_qual_type_layout_of types record_layouts qual_type data_layout)"

definition psx_type_layout_sizeof ::
  "psx_semantic_type_table_t \<Rightarrow> psx_record_layout_table_t \<Rightarrow> psx_type_id_t \<Rightarrow>
   ag_data_layout_t option \<Rightarrow> int option" where
  "psx_type_layout_sizeof types record_layouts type_id data_layout =
     map_option (\<lambda>layout. case layout of
         Some l \<Rightarrow> if tl_is_complete l then tl_size l else 0
       | None \<Rightarrow> 0)
       (psx_type_layout_of types record_layouts type_id data_layout)"

definition psx_type_layout_alignof ::
  "psx_semantic_type_table_t \<Rightarrow> psx_record_layout_table_t \<Rightarrow> psx_type_id_t \<Rightarrow>
   ag_data_layout_t option \<Rightarrow> int option" where
  "psx_type_layout_alignof types record_layouts type_id data_layout =
     map_option (\<lambda>layout. case layout of Some l \<Rightarrow> tl_alignment l | None \<Rightarrow> 0)
       (psx_type_layout_of types record_layouts type_id data_layout)"

definition psx_qual_type_layout_alignof ::
  "psx_semantic_type_table_t \<Rightarrow> psx_record_layout_table_t \<Rightarrow> psx_qual_type_t \<Rightarrow>
   ag_data_layout_t option \<Rightarrow> int option" where
  "psx_qual_type_layout_alignof types record_layouts qual_type data_layout =
     map_option (\<lambda>layout. case layout of Some l \<Rightarrow> tl_alignment l | None \<Rightarrow> 0)
       (psx_qual_type_layout_of types record_layouts qual_type data_layout)"

definition psx_type_layout_character_code_unit_width ::
  "psx_semantic_type_table_t \<Rightarrow> psx_type_id_t \<Rightarrow> ag_data_layout_t option \<Rightarrow> int" where
  "psx_type_layout_character_code_unit_width types type_id data_layout =
    (if \<not> ag_data_layout_is_valid data_layout then 0
     else case psx_semantic_type_table_describe types type_id of
       None \<Rightarrow> 0
     | Some type \<Rightarrow>
         if shape_kind type \<noteq> PSX_TYPE_INTEGER then 0
         else case shape_integer_kind type of
                PSX_INTEGER_KIND_CHAR \<Rightarrow> ag_data_layout_scalar_size data_layout AG_TARGET_SCALAR_CHAR
              | PSX_INTEGER_KIND_SHORT \<Rightarrow> ag_data_layout_scalar_size data_layout AG_TARGET_SCALAR_SHORT
              | PSX_INTEGER_KIND_INT \<Rightarrow> ag_data_layout_scalar_size data_layout AG_TARGET_SCALAR_INT
              | _ \<Rightarrow> 0)"

section \<open>Looking up what was defined\<close>

lemma find_position_cong:
  "length xs = length ys \<Longrightarrow> (\<And>k. k < length xs \<Longrightarrow> P (xs ! k) = Q (ys ! k)) \<Longrightarrow>
     find_position P n xs = find_position Q n ys"
proof (induction xs ys arbitrary: n rule: list_induct2)
  case (Cons x xs y ys)
  from Cons.prems [of 0] have "P x = Q y"
    by simp
  moreover have "P (xs ! k) = Q (ys ! k)" if "k < length xs" for k
    using Cons.prems [of "Suc k"] that by simp
  ultimately show ?case
    using Cons.IH by simp
qed simp

definition layout_key ::
  "psx_record_id_t \<Rightarrow> ag_data_layout_t option \<Rightarrow> psx_record_layout_t \<Rightarrow> bool" where
  "layout_key record_id data_layout entry \<longleftrightarrow>
     rl_record_id entry = record_id \<and> ag_data_layout_equal (Some (rl_data_layout entry)) data_layout"

lemma find_entry_key:
  "find_entry t i l = (if i = 0 \<or> l = None then None else find_position (layout_key i l) 0 t)"
  by (simp add: find_entry_def layout_key_def [abs_def])

lemma layout_key_same:
  assumes "layout_key i l e" "layout_key j m e"
  shows "i = j \<and> ag_data_layout_equal l m"
proof -
  have "ag_data_layout_equal l (Some (rl_data_layout e))"
    by (rule layout_equal_sym) (use assms(1) in \<open>simp add: layout_key_def\<close>)
  moreover have "ag_data_layout_equal (Some (rl_data_layout e)) m"
    using assms(2) by (simp add: layout_key_def)
  ultimately show ?thesis
    using assms layout_equal_trans by (simp add: layout_key_def)
qed

lemma define_lookup_aux:
  assumes "psx_record_layout_table_define t i l n a ms = Some u"
  shows "psx_record_layout_table_lookup u i l =
      Some \<lparr>rl_record_id = i, rl_data_layout = the l, rl_size = n, rl_alignment = a, rl_members = ms\<rparr>"
    and "\<not> (j = i \<and> ag_data_layout_equal l m) \<Longrightarrow>
      psx_record_layout_table_lookup u j m = psx_record_layout_table_lookup t j m"
proof -
  let ?e = "\<lparr>rl_record_id = i, rl_data_layout = the l, rl_size = n, rl_alignment = a, rl_members = ms\<rparr>"
  have i: "i \<noteq> 0" and l: "ag_data_layout_is_valid l"
    and u: "u = (case find_entry t i l of Some k \<Rightarrow> t[k := ?e] | None \<Rightarrow> t @ [?e])"
    using assms by (auto simp: psx_record_layout_table_define_def Let_def split: if_splits option.splits)
  then obtain d where d: "l = Some d"
    using valid_layout_some by blast
  have key: "layout_key i l ?e"
    using layout_equal_refl [OF l] by (simp add: layout_key_def d)
  have other: "\<not> layout_key j m e" if "layout_key i l e" "\<not> (j = i \<and> ag_data_layout_equal l m)"
    for j m e
    using layout_key_same [OF that(1), of j m] that(2) by auto
  have "psx_record_layout_table_lookup u i l = Some ?e \<and>
    (\<not> (j = i \<and> ag_data_layout_equal l m) \<longrightarrow>
      psx_record_layout_table_lookup u j m = psx_record_layout_table_lookup t j m)"
  proof (cases "find_entry t i l")
    case None
    then have none: "find_position (layout_key i l) 0 t = None" and ut: "u = t @ [?e]"
      using i d u by (simp_all add: find_entry_key)
    have "find_entry u i l = Some (length t)"
      using i d key none by (simp add: find_entry_key ut find_position_append)
    then have "psx_record_layout_table_lookup u i l = Some ?e"
      by (simp add: psx_record_layout_table_lookup_def ut)
    moreover have "psx_record_layout_table_lookup u j m = psx_record_layout_table_lookup t j m"
      if "\<not> (j = i \<and> ag_data_layout_equal l m)"
    proof -
      have "find_entry u j m = find_entry t j m"
        using other [OF key that] unfolding find_entry_key ut find_position_append
        by (simp split: option.split)
      moreover have "k < length t" if "find_entry t j m = Some k" for k
        using that find_position_0 by (fastforce simp: find_entry_key split: if_splits)
      ultimately show ?thesis
        by (cases "find_entry t j m")
          (simp_all add: psx_record_layout_table_lookup_def ut nth_append)
    qed
    ultimately show ?thesis
      by simp
  next
    case (Some k)
    then have k: "k < length t" "layout_key i l (t ! k)" and ut: "u = t[k := ?e]"
      using i d u find_position_0 [of "layout_key i l" t k] by (auto simp: find_entry_key)
    have same: "find_position P 0 u = find_position P 0 t" if "P (t ! k) = P ?e" for P
      by (rule find_position_cong) (use that k(1) in \<open>auto simp: ut nth_list_update\<close>)
    have "find_entry u i l = Some k"
      using same [of "layout_key i l"] key k(2) Some i d by (simp add: find_entry_key)
    then have "psx_record_layout_table_lookup u i l = Some ?e"
      using k(1) by (simp add: psx_record_layout_table_lookup_def ut)
    moreover have "psx_record_layout_table_lookup u j m = psx_record_layout_table_lookup t j m"
      if "\<not> (j = i \<and> ag_data_layout_equal l m)"
    proof -
      have "find_entry u j m = find_entry t j m" "find_entry t j m \<noteq> Some k"
        using other [OF key that] other [OF k(2) that] same [of "layout_key j m"]
          find_position_0 [of "layout_key j m" t k]
        by (auto simp: find_entry_key split: if_splits)
      then show ?thesis
        by (cases "find_entry t j m")
          (auto simp: psx_record_layout_table_lookup_def ut)
    qed
    ultimately show ?thesis
      by simp
  qed
  then show "psx_record_layout_table_lookup u i l = Some ?e"
    "\<not> (j = i \<and> ag_data_layout_equal l m) \<Longrightarrow>
      psx_record_layout_table_lookup u j m = psx_record_layout_table_lookup t j m"
    by simp_all
qed

section \<open>The layout of types\<close>

lemma layout_walk_returns:
  assumes "type_table_ok t"
  shows "\<exists>r. layout_of_qual_type_recursive t rs l q = Some r"
proof (induction "qt_type_id q" arbitrary: q rule: less_induct)
  case less
  have none: "layout_of_qual_type_recursive t rs l p = Some None" if "qt_type_id p = 0" for p
    using that
    by (subst layout_of_qual_type_recursive.simps)
      (simp add: psx_semantic_type_table_qual_type_is_valid_def semantic_type_id_is_valid_def Let_def)
  let ?b = "psx_semantic_type_table_base t (qt_type_id q)"
  obtain r where "layout_of_qual_type_recursive t rs l ?b = Some r"
    using less base_smaller [OF assms, of "qt_type_id q"] none [of ?b]
    by (cases "qt_type_id ?b = 0") auto
  then show ?case
    by (subst layout_of_qual_type_recursive.simps) (simp split: option.split)
qed

text \<open>A target whose scalars fill whole multiples of their power-of-two alignments.\<close>

definition pow2 :: "int \<Rightarrow> bool" where
  "pow2 n \<longleftrightarrow> (\<exists>k. n = 2 ^ k)"

definition regular_data_layout :: "ag_data_layout_t option \<Rightarrow> bool" where
  "regular_data_layout l \<longleftrightarrow>
     ag_data_layout_is_valid l \<and>
     (\<forall>k. k \<noteq> AG_TARGET_SCALAR_COUNT \<longrightarrow> pow2 (ag_data_layout_scalar_alignment l k) \<and>
        ag_data_layout_scalar_alignment l k dvd ag_data_layout_scalar_size l k) \<and>
     pow2 (ag_data_layout_pointer_alignment l) \<and>
     ag_data_layout_pointer_alignment l dvd ag_data_layout_pointer_size l \<and>
     pow2 (ag_data_layout_atomic_max_alignment l)"

text \<open>
  A record may have an odd alignment: \<^verbatim>\<open>#pragma pack(3)\<close> gives one of 3. What matters is that its size
  is a multiple of the alignment, and, for atomic objects, that an alignment above the largest the
  target gives them is a power of two.
\<close>

definition regular_alignment :: "ag_data_layout_t option \<Rightarrow> int \<Rightarrow> bool" where
  "regular_alignment l a \<longleftrightarrow> 0 < a \<and> (a \<le> ag_data_layout_atomic_max_alignment l \<or> pow2 a)"

definition regular_records :: "ag_data_layout_t option \<Rightarrow> psx_record_layout_table_t \<Rightarrow> bool" where
  "regular_records l rs \<longleftrightarrow>
     (\<forall>e \<in> set rs. 0 \<le> rl_size e \<and> regular_alignment l (rl_alignment e) \<and>
        rl_alignment e dvd rl_size e)"

definition regular_layout :: "ag_data_layout_t option \<Rightarrow> psx_type_layout_t \<Rightarrow> bool" where
  "regular_layout l out \<longleftrightarrow>
     0 \<le> tl_size out \<and> regular_alignment l (tl_alignment out) \<and> tl_alignment out dvd tl_size out"

lemma pow2_pos: "pow2 n \<Longrightarrow> 0 < n"
  by (auto simp: pow2_def)

lemma pow2_one [simp]: "pow2 1"
  unfolding pow2_def by (rule exI [of _ 0]) simp

lemma pow2_dvd: "pow2 a \<Longrightarrow> pow2 b \<Longrightarrow> a \<le> b \<Longrightarrow> a dvd b"
  by (auto simp: pow2_def intro: le_imp_power_dvd)

lemma regular_pow2 [simp]: "pow2 a \<Longrightarrow> regular_alignment l a"
  by (simp add: regular_alignment_def pow2_pos)

lemma regular_incomplete [simp]: "regular_layout l incomplete_layout"
  by (simp add: regular_layout_def incomplete_layout_def)

lemma lookup_member:
  "psx_record_layout_table_lookup rs i l = Some e \<Longrightarrow> e \<in> set rs"
  using find_position_0 [of "layout_key i l" rs]
  by (auto simp: psx_record_layout_table_lookup_def find_entry_key split: if_splits)

lemma target_kind_not_count [simp]:
  "integer_target_kind s \<noteq> AG_TARGET_SCALAR_COUNT" "floating_target_kind s \<noteq> AG_TARGET_SCALAR_COUNT"
  by (simp_all add: integer_target_kind_def floating_target_kind_def Let_def
      split: psx_integer_kind_t.split)

lemma regular_scalar:
  assumes "regular_data_layout l"
  shows "regular_layout l (layout_scalar s l incomplete_layout)"
  using assms scalar_size_pos [of l]
  by (auto simp: layout_scalar_def regular_data_layout_def Let_def incomplete_layout_def
      regular_layout_def intro: less_imp_le)

lemma regular_non_array:
  assumes "regular_data_layout l" "regular_records l rs"
    and "layout_non_array_with_records s rs l = Some out"
  shows "regular_layout l out"
proof (cases "shape_kind s = PSX_TYPE_STRUCT \<or> shape_kind s = PSX_TYPE_UNION")
  case True
  then show ?thesis
    using assms lookup_member [of rs "shape_record_id s" l]
    by (auto simp: layout_non_array_with_records_def regular_records_def regular_layout_def
        incomplete_layout_def split: if_splits option.splits)
next
  case False
  have "regular_layout l \<lparr>tl_size = ag_data_layout_pointer_size l,
      tl_alignment = ag_data_layout_pointer_alignment l, tl_is_complete = True\<rparr>"
    using assms(1) pointer_size_pos [of l] by (simp add: regular_layout_def regular_data_layout_def)
  then show ?thesis
    using False assms regular_scalar [OF assms(1), of s]
    by (cases "shape_kind s") (auto simp: layout_non_array_with_records_def layout_non_array_def)
qed

lemma promoted_size:
  "promoted_size_loop p n m = Some k \<Longrightarrow> pow2 p \<Longrightarrow> p \<le> m \<Longrightarrow>
     pow2 k \<and> n \<le> k \<and> p \<le> k \<and> k \<le> m"
proof (induction p n m rule: promoted_size_loop.induct)
  case (1 p n m)
  have p: "0 < p"
    by (rule pow2_pos) (rule 1)
  show ?case
  proof (cases "p < n")
    case True
    then have "p \<le> m div 2" "promoted_size_loop (p * 2) n m = Some k"
      using "1.prems"(1) p by (simp_all add: promoted_size_loop.simps [of p n m] split: if_splits)
    moreover have "pow2 (p * 2)"
      using "1.prems"(2) unfolding pow2_def by (metis power_Suc2)
    ultimately show ?thesis
      using "1.IH" p True by fastforce
  next
    case False
    then show ?thesis
      using 1 by (simp add: promoted_size_loop.simps [of p n m])
  qed
qed

text \<open>An atomic object takes a power of two that holds the plain object.\<close>

lemma regular_atomic:
  assumes "regular_data_layout l" "regular_layout l out" "apply_atomic_layout q l out = Some out'"
  shows "regular_layout l out'" "tl_size out \<le> tl_size out'" "tl_alignment out \<le> tl_alignment out'"
    "tl_is_complete out' = tl_is_complete out"
proof -
  have "regular_layout l out' \<and> tl_size out \<le> tl_size out' \<and> tl_alignment out \<le> tl_alignment out' \<and>
    tl_is_complete out' = tl_is_complete out"
  proof (cases "q AND 4 = 0 \<or> tl_size out > ag_data_layout_atomic_promoted_max_size l")
    case True
    then show ?thesis
      using assms by (auto simp: apply_atomic_layout_def Let_def split: if_splits)
  next
    case False
    let ?m = "ag_data_layout_atomic_promoted_max_size l" and ?a = "ag_data_layout_atomic_max_alignment l"
    obtain k where pos: "0 < tl_size out" "0 < ?m" and k: "promoted_size_loop 1 (tl_size out) ?m = Some k"
      and out': "out' = out\<lparr>tl_size := k, tl_alignment :=
        (if (if k < ?a then k else ?a) > tl_alignment out then (if k < ?a then k else ?a)
         else tl_alignment out)\<rparr>"
      using assms(3) False
      by (auto simp: apply_atomic_layout_def Let_def not_le split: if_splits option.splits)
    have pk: "pow2 k" "tl_size out \<le> k"
      using promoted_size [OF k] pos by simp_all
    have old: "0 < tl_alignment out" "tl_alignment out \<le> ?a \<or> pow2 (tl_alignment out)"
        "tl_alignment out dvd tl_size out"
      using assms(2) by (simp_all add: regular_layout_def regular_alignment_def)
    have le: "tl_alignment out \<le> k"
      using zdvd_imp_le [OF old(3) pos(1)] pk(2) by simp
    have a: "pow2 ?a"
      using assms(1) by (simp add: regular_data_layout_def)
    have "regular_alignment l (tl_alignment out') \<and> tl_alignment out' dvd k"
    proof (cases "(if k < ?a then k else ?a) > tl_alignment out")
      case True
      then show ?thesis
        using pk(1) a pow2_dvd [OF a pk(1)] by (simp add: out')
    next
      case False
      then have "tl_alignment out = k \<or> ?a \<le> tl_alignment out"
        using le by (auto split: if_splits)
      then have "pow2 (tl_alignment out)"
        using pk(1) a old(2) by (auto dest: antisym)
      then show ?thesis
        using False pow2_dvd [OF _ pk(1) le] by (simp add: out')
    qed
    then show ?thesis
      using pk old pos by (simp add: out' regular_layout_def)
  qed
  then show "regular_layout l out'" "tl_size out \<le> tl_size out'" "tl_alignment out \<le> tl_alignment out'"
    "tl_is_complete out' = tl_is_complete out"
    by simp_all
qed

lemma regular_array:
  assumes "regular_layout l e" "complete_array_layout s e = Some out"
  shows "regular_layout l out"
  using assms by (auto simp: complete_array_layout_def regular_layout_def Let_def split: if_splits)

lemma layout_regular:
  assumes ok: "type_table_ok t" and reg: "regular_data_layout l" "regular_records l rs"
  shows "layout_of_qual_type_recursive t rs l q = Some (Some out) \<Longrightarrow> regular_layout l out"
proof (induction "qt_type_id q" arbitrary: q out rule: less_induct)
  case less
  obtain s where s: "psx_semantic_type_table_describe t (qt_type_id q) = Some s"
    using less.prems by (auto simp: layout_of_qual_type_recursive.simps [of t rs l q]
        split: if_splits option.splits)
  show ?case
  proof (cases "shape_kind s = PSX_TYPE_ARRAY")
    case False
    then obtain out' where "layout_non_array_with_records s rs l = Some out'"
      "apply_atomic_layout (qt_qualifiers q) l out' = Some out"
      using less.prems s by (auto simp: layout_of_qual_type_recursive.simps [of t rs l q]
          split: if_splits option.splits)
    then show ?thesis
      using regular_atomic(1) [OF reg(1)] regular_non_array [OF reg] by blast
  next
    case True
    then have "shape_requires_base (shape_kind (entry_shape (tt_entry t (qt_type_id q))))"
      "semantic_type_id_is_valid t (qt_type_id q)"
      using s by (simp_all add: describe_Some shape_requires_base_def)
    then have small: "qt_type_id (psx_semantic_type_table_base t (qt_type_id q)) < qt_type_id q"
      using base_of_ok(3) [OF ok] by blast
    obtain e where "layout_of_qual_type_recursive t rs l
        (psx_semantic_type_table_base t (qt_type_id q)) = Some (Some e)"
      "complete_array_layout s e = Some out"
      using less.prems s True
      by (cases "layout_of_qual_type_recursive t rs l (psx_semantic_type_table_base t (qt_type_id q))")
        (auto simp: layout_of_qual_type_recursive.simps [of t rs l q] split: if_splits option.splits)
    then show ?thesis
      using regular_array less.hyps [OF small] by blast
  qed
qed

text \<open>
  Down an array type the sizes multiply; \<open>n\<close> is the product of the dimensions, which the element
  count is as long as it fits a C \<^verbatim>\<open>int\<close>.
\<close>

lemma array_walk:
  assumes ok: "type_table_ok t" and l: "ag_data_layout_is_valid l"
  shows "layout_of_qual_type_recursive t rs l q = Some (Some out) \<Longrightarrow> tl_is_complete out \<Longrightarrow>
    \<exists>n leaf e. 0 < n \<and> array_leaf_loop t q = Some leaf \<and>
      semantic_type_id_is_valid t (qt_type_id leaf) \<and>
      layout_of_qual_type_recursive t rs l leaf = Some (Some e) \<and> tl_is_complete e \<and>
      tl_size out = n * tl_size e \<and> tl_alignment out = tl_alignment e \<and>
      (\<forall>c. 0 < c \<and> c \<le> INT_MAX \<longrightarrow>
        flat_element_count_loop t c (entry_shape (tt_entry t (qt_type_id q))) (qt_type_id q) =
          Some (if c * n \<le> INT_MAX then c * n else 0))"
proof (induction "qt_type_id q" arbitrary: q out rule: less_induct)
  case less
  let ?s = "entry_shape (tt_entry t (qt_type_id q))"
  have valid: "semantic_type_id_is_valid t (qt_type_id q)"
    using less.prems
    by (auto simp: layout_of_qual_type_recursive.simps [of t rs l q] qual_type_eq_iff
        psx_semantic_type_table_qual_type_is_valid_def Let_def split: if_splits)
  then have s: "psx_semantic_type_table_describe t (qt_type_id q) = Some ?s"
    by (simp add: describe_Some)
  show ?case
  proof (cases "shape_kind ?s = PSX_TYPE_ARRAY")
    case False
    then show ?thesis
      using less.prems valid
      by (intro exI [of _ 1] exI [of _ q] exI [of _ out])
        (simp add: array_leaf_loop.simps [of t q] flat_element_count_loop.simps)
  next
    case True
    let ?b = "psx_semantic_type_table_base t (qt_type_id q)" and ?n = "shape_array_len ?s"
    have links: "shape_requires_base (shape_kind ?s)"
      by (simp add: True shape_requires_base_def)
    note b = base_of_ok(2,3) [OF ok valid links]
    have sb: "psx_semantic_type_table_describe t (qt_type_id ?b) =
        Some (entry_shape (tt_entry t (qt_type_id ?b)))"
      using b(1) by (simp add: describe_Some)
    obtain e' where e': "layout_of_qual_type_recursive t rs l ?b = Some (Some e')"
      and out: "complete_array_layout ?s e' = Some out"
      using less.prems s True
      by (cases "layout_of_qual_type_recursive t rs l ?b")
        (auto simp: layout_of_qual_type_recursive.simps [of t rs l q] split: if_splits option.splits)
    have n: "0 < ?n" and complete: "tl_is_complete e'"
      and sizes: "tl_size out = ?n * tl_size e'" "tl_alignment out = tl_alignment e'"
      using out less.prems(2) by (auto simp: complete_array_layout_def Let_def split: if_splits)
    obtain m leaf e where m: "0 < m" "array_leaf_loop t ?b = Some leaf"
        "semantic_type_id_is_valid t (qt_type_id leaf)"
        "layout_of_qual_type_recursive t rs l leaf = Some (Some e)" "tl_is_complete e"
        "tl_size e' = m * tl_size e" "tl_alignment e' = tl_alignment e"
      and count: "\<And>c. 0 < c \<Longrightarrow> c \<le> INT_MAX \<Longrightarrow>
        flat_element_count_loop t c (entry_shape (tt_entry t (qt_type_id ?b))) (qt_type_id ?b) =
          Some (if c * m \<le> INT_MAX then c * m else 0)"
      using less.hyps [OF b(2) e' complete] by blast
    have "flat_element_count_loop t c ?s (qt_type_id q) =
        Some (if c * (?n * m) \<le> INT_MAX then c * (?n * m) else 0)" if c: "0 < c" for c
    proof (cases "c > INT_MAX div ?n")
      case False
      then have "c * ?n \<le> INT_MAX"
        using le_div_mult_le [of c INT_MAX ?n] n by simp
      then show ?thesis
        using count [of "c * ?n"] n c True False b(1)
        by (subst flat_element_count_loop.simps)
          (auto simp: Let_def sb mult.assoc semantic_type_id_is_valid_def)
    next
      case big: True
      have "\<not> c * ?n \<le> INT_MAX"
        using big n by (auto dest: zdiv_mono1 [of _ INT_MAX ?n])
      moreover have "c * ?n \<le> c * (?n * m)"
        using c n m(1) by simp
      ultimately have "\<not> c * (?n * m) \<le> INT_MAX"
        by linarith
      then show ?thesis
        using big n True by (simp add: flat_element_count_loop.simps [of t c])
    qed
    then show ?thesis
      using m n sizes True valid
      by (intro exI [of _ "?n * m"] exI [of _ leaf] exI [of _ e])
        (simp add: array_leaf_loop.simps [of t q])
  qed
qed

lemma array_size_bound:
  assumes "complete_array_layout s e = Some out" "0 \<le> tl_size e"
  shows "tl_size out \<le> INT_MAX"
  using assms le_div_mult_le [of "shape_array_len s" INT_MAX "tl_size e"]
  by (cases "tl_size e = 0")
    (auto simp: complete_array_layout_def Let_def INT_MAX_def split: if_splits)

section \<open>The frame of a function\<close>

text \<open>A C \<^verbatim>\<open>int\<close> that overflows is undefined behaviour.\<close>

definition int_checked :: "int \<Rightarrow> int outcome" where
  "int_checked n = (if - INT_MAX - 1 \<le> n \<and> n \<le> INT_MAX then Value n else Undefined)"

record frame_layout_t =
  next_offset :: int

definition frame_layout_reset :: "frame_layout_t \<Rightarrow> frame_layout_t" where
  "frame_layout_reset layout = layout\<lparr>next_offset := 0\<rparr>"

definition frame_layout_reserve_prefix :: "frame_layout_t \<Rightarrow> int \<Rightarrow> frame_layout_t" where
  "frame_layout_reserve_prefix layout bytes =
    (if bytes > next_offset layout then layout\<lparr>next_offset := bytes\<rparr> else layout)"

definition frame_layout_allocate ::
  "frame_layout_t \<Rightarrow> int \<Rightarrow> int \<Rightarrow> (int \<times> frame_layout_t) outcome" where
  "frame_layout_allocate layout object_size align =
     outcome_bind
       (if align > 1
        then outcome_bind (int_checked (next_offset layout + align))
               (\<lambda>sum. Value ((sum - 1) AND NOT (align - 1)))
        else Value (next_offset layout))
       (\<lambda>offset. outcome_bind (int_checked (offset + object_size))
          (\<lambda>after. Value (offset, layout\<lparr>next_offset := after\<rparr>)))"

record frame_vla_layout_t =
  vla_storage_size :: int
  vla_row_stride_relative_offset :: int
  vla_subsequent_stride_count :: int

definition PSX_VLA_RUNTIME_SLOT_SIZE :: int where "PSX_VLA_RUNTIME_SLOT_SIZE = 8"
definition PSX_VLA_RUNTIME_FIRST_STRIDE_RELATIVE_OFFSET :: int where
  "PSX_VLA_RUNTIME_FIRST_STRIDE_RELATIVE_OFFSET = 2 * PSX_VLA_RUNTIME_SLOT_SIZE"
definition PSX_VLA_RUNTIME_DESCRIPTOR_HEADER_SIZE :: int where
  "PSX_VLA_RUNTIME_DESCRIPTOR_HEADER_SIZE = PSX_VLA_RUNTIME_FIRST_STRIDE_RELATIVE_OFFSET"
definition PSX_POINTER_VLA_RUNTIME_STRIDE_RELATIVE_OFFSET :: int where
  "PSX_POINTER_VLA_RUNTIME_STRIDE_RELATIVE_OFFSET = PSX_VLA_RUNTIME_SLOT_SIZE"

lemmas vla_runtime_defs = PSX_VLA_RUNTIME_SLOT_SIZE_def
  PSX_VLA_RUNTIME_FIRST_STRIDE_RELATIVE_OFFSET_def PSX_VLA_RUNTIME_DESCRIPTOR_HEADER_SIZE_def
  PSX_POINTER_VLA_RUNTIME_STRIDE_RELATIVE_OFFSET_def

definition psx_vla_runtime_stride_relative_offset :: "int \<Rightarrow> int" where
  "psx_vla_runtime_stride_relative_offset level =
     PSX_VLA_RUNTIME_FIRST_STRIDE_RELATIVE_OFFSET + PSX_VLA_RUNTIME_SLOT_SIZE * level"

definition frame_layout_vla_storage :: "int \<Rightarrow> bool \<Rightarrow> frame_vla_layout_t" where
  "frame_layout_vla_storage dim_count inner_is_const =
    (let layout = \<lparr>vla_storage_size = PSX_VLA_RUNTIME_DESCRIPTOR_HEADER_SIZE,
                   vla_row_stride_relative_offset = 0, vla_subsequent_stride_count = 0\<rparr>;
         stride_count = dim_count - 1
     in if dim_count \<le> 1 \<or> (dim_count = 2 \<and> inner_is_const) then layout
        else layout\<lparr>vla_storage_size := vla_storage_size layout +
                                        PSX_VLA_RUNTIME_SLOT_SIZE * stride_count,
                    vla_row_stride_relative_offset := PSX_VLA_RUNTIME_FIRST_STRIDE_RELATIVE_OFFSET,
                    vla_subsequent_stride_count := stride_count - 1\<rparr>)"

definition frame_layout_pointer_vla_storage :: "int \<Rightarrow> frame_vla_layout_t" where
  "frame_layout_pointer_vla_storage dimension_count =
    (if dimension_count \<le> 0
     then \<lparr>vla_storage_size = 0, vla_row_stride_relative_offset = 0,
           vla_subsequent_stride_count = 0\<rparr>
     else \<lparr>vla_storage_size = PSX_VLA_RUNTIME_SLOT_SIZE * (dimension_count + 1),
           vla_row_stride_relative_offset = PSX_POINTER_VLA_RUNTIME_STRIDE_RELATIVE_OFFSET,
           vla_subsequent_stride_count = dimension_count - 1\<rparr>)"

definition frame_layout_vla_stride_offset :: "int \<Rightarrow> int \<Rightarrow> int" where
  "frame_layout_vla_stride_offset base_offset level =
     base_offset + psx_vla_runtime_stride_relative_offset level"

definition frame_layout_pointer_vla_stride_offset :: "int \<Rightarrow> int" where
  "frame_layout_pointer_vla_stride_offset base_offset =
     base_offset + PSX_POINTER_VLA_RUNTIME_STRIDE_RELATIVE_OFFSET"

text \<open>Rounding up to a power of two by masking.\<close>

lemma mask_round_up:
  assumes "0 < k"
  shows "(n + 2 ^ k - 1) AND NOT (2 ^ k - 1 :: int) = (n + 2 ^ k - 1) div 2 ^ k * 2 ^ k"
proof -
  have "(n + 2 ^ k - 1) AND NOT (mask k :: int) = push_bit k (drop_bit k (n + 2 ^ k - 1))"
    by (simp add: bit_eq_iff bit_and_iff bit_not_iff bit_mask_iff bit_push_bit_iff bit_drop_bit_eq)
      (auto simp: not_less)
  then show ?thesis
    by (simp add: mask_eq_exp_minus_1 push_bit_eq_mult drop_bit_eq_div)
qed

lemma round_up_bounds:
  assumes "(0 :: int) < a"
  shows "n \<le> (n + a - 1) div a * a" "(n + a - 1) div a * a < n + a"
proof -
  have "(n + a - 1) div a * a = n + a - 1 - (n + a - 1) mod a"
    by (simp add: minus_mod_eq_div_mult)
  moreover have "0 \<le> (n + a - 1) mod a" "(n + a - 1) mod a < a"
    using assms by simp_all
  ultimately show "n \<le> (n + a - 1) div a * a" "(n + a - 1) div a * a < n + a"
    by linarith+
qed

lemma frame_allocate_bounds:
  assumes "frame_layout_allocate f n a = Value (off, f')" "pow2 a" "0 \<le> n"
  shows "a dvd off" "next_offset f \<le> off" "off < next_offset f + a"
    "next_offset f' = off + n" "next_offset f' \<le> INT_MAX"
proof -
  have "a dvd off \<and> next_offset f \<le> off \<and> off < next_offset f + a \<and>
    next_offset f' = off + n \<and> next_offset f' \<le> INT_MAX"
  proof (cases "a > 1")
    case True
    obtain k where k: "a = 2 ^ k"
      using assms(2) by (auto simp: pow2_def)
    with True have "0 < k"
      by (cases k) simp_all
    then have "off = (next_offset f + a - 1) div a * a"
      using assms(1) True mask_round_up [of k "next_offset f"]
      by (auto simp: frame_layout_allocate_def int_checked_def k split: if_splits)
    then show ?thesis
      using assms(1) True round_up_bounds [of a "next_offset f"]
      by (auto simp: frame_layout_allocate_def int_checked_def split: if_splits)
  next
    case False
    then have "a = 1"
      using pow2_pos [OF assms(2)] by simp
    then show ?thesis
      using assms by (auto simp: frame_layout_allocate_def int_checked_def split: if_splits)
  qed
  then show "a dvd off" "next_offset f \<le> off" "off < next_offset f + a"
    "next_offset f' = off + n" "next_offset f' \<le> INT_MAX"
    by simp_all
qed

text \<open>A sequence of allocations, as a function makes them: the offsets in order.\<close>

fun frame_allocations ::
  "frame_layout_t \<Rightarrow> (int \<times> int) list \<Rightarrow> (int list \<times> frame_layout_t) outcome" where
  "frame_allocations layout [] = Value ([], layout)"
| "frame_allocations layout ((object_size, align) # requests) =
     outcome_bind (frame_layout_allocate layout object_size align)
       (\<lambda>(offset, layout1). outcome_bind (frame_allocations layout1 requests)
          (\<lambda>(offsets, layout2). Value (offset # offsets, layout2)))"

lemma frame_allocations_sorted:
  "frame_allocations f rs = Value (offs, f') \<Longrightarrow>
     \<forall>(n, a) \<in> set rs. 0 \<le> n \<and> pow2 a \<Longrightarrow>
     length offs = length rs \<and> next_offset f \<le> next_offset f' \<and>
     (\<forall>i < length rs. snd (rs ! i) dvd offs ! i \<and> next_offset f \<le> offs ! i \<and>
        offs ! i + fst (rs ! i) \<le> next_offset f') \<and>
     (\<forall>i j. i < j \<and> j < length rs \<longrightarrow> offs ! i + fst (rs ! i) \<le> offs ! j)"
proof (induction rs arbitrary: f offs)
  case Nil
  then show ?case
    by simp
next
  case (Cons r rs)
  obtain n a where r: "r = (n, a)"
    by (cases r)
  obtain off f1 offs' where step: "frame_layout_allocate f n a = Value (off, f1)"
    and rest: "frame_allocations f1 rs = Value (offs', f')" and offs: "offs = off # offs'"
    using Cons.prems(1) by (auto simp: r elim!: outcome_bind_ValueE)
  have na: "pow2 a" "0 \<le> n"
    using Cons.prems(2) by (auto simp: r)
  note b = frame_allocate_bounds [OF step na]
  have "\<forall>(n, a) \<in> set rs. 0 \<le> n \<and> pow2 a"
    using Cons.prems(2) by auto
  note IH = Cons.IH [OF rest this]
  have lower: "off + n \<le> offs' ! j \<and> off + n \<le> next_offset f'" if "j < length rs" for j
    using IH that b(4) by force
  show ?case
    unfolding offs r
  proof (intro conjI allI impI)
    show "length (off # offs') = length ((n, a) # rs)" "next_offset f \<le> next_offset f'"
      using IH b na by (auto intro: order_trans)
    fix i
    assume i: "i < length ((n, a) # rs)"
    show "snd (((n, a) # rs) ! i) dvd (off # offs') ! i"
      "next_offset f \<le> (off # offs') ! i"
      "(off # offs') ! i + fst (((n, a) # rs) ! i) \<le> next_offset f'"
      using i IH b na by (cases i; force)+
  next
    fix i j
    assume ij: "i < j \<and> j < length ((n, a) # rs)"
    show "(off # offs') ! i + fst (((n, a) # rs) ! i) \<le> (off # offs') ! j"
      using ij IH lower by (cases i; cases j) auto
  qed
qed

section \<open>Properties\<close>

text \<open>
  The table of record layouts gives back what was defined last for a record and a data layout, and
  a definition changes nothing for other records or data layouts that differ in a size or an
  alignment.
\<close>

theorem record_layouts_last_defined:
  assumes "psx_record_layout_table_define t i l n a ms = Some u"
  shows "psx_record_layout_table_lookup u i l =
      Some \<lparr>rl_record_id = i, rl_data_layout = the l, rl_size = n, rl_alignment = a, rl_members = ms\<rparr> \<and>
    (\<forall>k < length ms. psx_record_layout_member (psx_record_layout_table_lookup u i l) (int k) =
       Some (ms ! k)) \<and>
    (\<forall>j m. \<not> (j = i \<and> ag_data_layout_equal l m) \<longrightarrow>
       psx_record_layout_table_lookup u j m = psx_record_layout_table_lookup t j m)"
  using define_lookup_aux [OF assms] by (simp add: psx_record_layout_member_def)

text \<open>Every type of a table has a layout or is refused, and a layout is regular if the records are.\<close>

lemma layouts_regular:
  assumes "type_table_reachable t" "regular_data_layout l" "regular_records l rs"
  shows "\<exists>r. psx_qual_type_layout_of t rs q l = Some r \<and>
    (\<forall>out. r = Some out \<longrightarrow> 0 \<le> tl_size out \<and> 0 < tl_alignment out \<and>
       tl_alignment out dvd tl_size out)"
proof -
  note ok = reachable_ok [OF assms(1)]
  have "ag_data_layout_is_valid l"
    using assms(2) by (simp add: regular_data_layout_def)
  moreover obtain r where r: "layout_of_qual_type_recursive t rs l q = Some r"
    using layout_walk_returns [OF ok] by blast
  moreover have "regular_layout l out" if "r = Some out" for out
    using layout_regular [OF ok assms(2,3)] r that by blast
  ultimately show ?thesis
    by (auto simp: psx_qual_type_layout_of_def regular_layout_def regular_alignment_def)
qed

text \<open>
  C32. The size of an array is the number of its elements times the size of one, down through all its
  dimensions, and it is aligned like one; it never exceeds a C \<^verbatim>\<open>int\<close>.
\<close>

theorem array_size_counts_elements:
  assumes "type_table_reachable t" "regular_data_layout l" "regular_records l rs"
    and "psx_type_layout_of t rs i l = Some (Some out)" "tl_is_complete out"
    and "psx_semantic_type_table_describe t i = Some s" "shape_kind s = PSX_TYPE_ARRAY"
  shows "\<exists>n leaf e. psx_semantic_type_table_array_flat_element_count t i = Some n \<and>
    psx_semantic_type_table_array_leaf t i = Some leaf \<and>
    psx_qual_type_layout_of t rs leaf l = Some (Some e) \<and> tl_is_complete e \<and>
    tl_size out = n * tl_size e \<and> tl_alignment out = tl_alignment e \<and> tl_size out \<le> INT_MAX"
proof -
  note ok = reachable_ok [OF assms(1)]
  let ?q = "\<lparr>qt_type_id = i, qt_qualifiers = PSX_TYPE_QUALIFIER_NONE\<rparr>"
  have l: "ag_data_layout_is_valid l"
    using assms(2) by (simp add: regular_data_layout_def)
  have i: "semantic_type_id_is_valid t i" "s = entry_shape (tt_entry t i)"
    using assms(6) by (simp_all add: describe_Some)
  have walk: "layout_of_qual_type_recursive t rs l ?q = Some (Some out)"
    using assms(4) l by (simp add: psx_type_layout_of_def psx_qual_type_layout_of_def)
  obtain n leaf e where n: "0 < n" and leaf: "array_leaf_loop t ?q = Some leaf"
      "semantic_type_id_is_valid t (qt_type_id leaf)"
    and e: "layout_of_qual_type_recursive t rs l leaf = Some (Some e)" "tl_is_complete e"
      "tl_size out = n * tl_size e" "tl_alignment out = tl_alignment e"
    and count: "flat_element_count_loop t 1 s i = Some (if n \<le> INT_MAX then n else 0)"
    using array_walk [OF ok l walk assms(5)] i(2) by (force simp: INT_MAX_def)
  have "0 \<le> tl_size e"
    using layout_regular [OF ok assms(2,3) e(1)] by (simp add: regular_layout_def)
  then have "n \<le> n * tl_size e" if "tl_size e \<noteq> 0"
    using that n mult_left_mono [of 1 "tl_size e" n] by simp
  moreover have bound: "tl_size out \<le> INT_MAX"
    using walk assms(6,7) layout_regular [OF ok assms(2,3)]
    by (cases "layout_of_qual_type_recursive t rs l (psx_semantic_type_table_base t i)")
      (auto simp: layout_of_qual_type_recursive.simps [of t rs l ?q] regular_layout_def
        split: if_splits option.splits intro: array_size_bound)
  ultimately have "tl_size out = (if n \<le> INT_MAX then n else 0) * tl_size e"
    using e(3) by (cases "tl_size e = 0") auto
  then show ?thesis
    using leaf e bound count l i assms(6,7)
    by (auto simp: psx_semantic_type_table_array_flat_element_count_def
        psx_semantic_type_table_array_leaf_def semantic_type_table_array_leaf_from_def
        related_type_def psx_qual_type_layout_of_def)
qed


section \<open>Witnesses\<close>

lemma record_layouts_last_defined_witness:
  "psx_record_layout_table_lookup
     [\<lparr>rl_record_id = 5, rl_data_layout = target_data_layout ag_target_info_host, rl_size = 12,
       rl_alignment = 4, rl_members = []\<rparr>] 5 (Some (target_data_layout ag_target_info_host)) =
   Some \<lparr>rl_record_id = 5, rl_data_layout = target_data_layout ag_target_info_host, rl_size = 12,
     rl_alignment = 4, rl_members = []\<rparr>"
proof -
  have "psx_record_layout_table_define [] 5 (Some (target_data_layout ag_target_info_host)) 12 4 [] =
      Some [\<lparr>rl_record_id = 5, rl_data_layout = target_data_layout ag_target_info_host, rl_size = 12,
        rl_alignment = 4, rl_members = []\<rparr>]"
    using host_layout_valid(1) by (simp add: psx_record_layout_table_define_def find_entry_def)
  from record_layouts_last_defined [OF this] show ?thesis
    by simp
qed

lemma regular_targets:
  "regular_data_layout (Some (target_data_layout ag_target_info_host))"
  "regular_data_layout (Some (target_data_layout ag_target_info_wasm32))"
proof -
  have p: "pow2 1" "pow2 2" "pow2 4" "pow2 8" "pow2 16"
    unfolding pow2_def
    by (rule exI [of _ 0], simp, rule exI [of _ 1], simp, rule exI [of _ 2], simp,
        rule exI [of _ 3], simp, rule exI [of _ 4], simp)
  have scalars: "pow2 (ag_data_layout_scalar_alignment
        (Some (target_data_layout ag_target_info_host)) k) \<and>
      ag_data_layout_scalar_alignment (Some (target_data_layout ag_target_info_host)) k dvd
      ag_data_layout_scalar_size (Some (target_data_layout ag_target_info_host)) k \<and>
      pow2 (ag_data_layout_scalar_alignment (Some (target_data_layout ag_target_info_wasm32)) k) \<and>
      ag_data_layout_scalar_alignment (Some (target_data_layout ag_target_info_wasm32)) k dvd
      ag_data_layout_scalar_size (Some (target_data_layout ag_target_info_wasm32)) k"
    if "k \<noteq> AG_TARGET_SCALAR_COUNT" for k
    using that p
    by (cases k) (simp_all add: ag_target_info_host_def ag_target_info_wasm32_def standard_target_def
      Let_def)
  show "regular_data_layout (Some (target_data_layout ag_target_info_host))"
    "regular_data_layout (Some (target_data_layout ag_target_info_wasm32))"
    using scalars host_layout_valid p unfolding regular_data_layout_def
    by (auto simp: ag_target_info_host_def ag_target_info_wasm32_def standard_target_def Let_def)
qed

lemma array_size_counts_elements_witness:
  "\<exists>n. psx_semantic_type_table_array_flat_element_count (snd int_matrix) 21 = Some n"
proof -
  let ?l = "Some (target_data_layout ag_target_info_host)"
  have layout: "psx_type_layout_of (snd int_matrix) [] 21 ?l =
      Some (Some \<lparr>tl_size = 48, tl_alignment = 4, tl_is_complete = True\<rparr>)"
    by code_simp
  have records: "regular_records ?l []"
    by (simp add: regular_records_def)
  have shape: "psx_semantic_type_table_describe (snd int_matrix) 21 =
      Some (entry_shape (tt_entry (snd int_matrix) 21))"
    by code_simp
  have kind: "shape_kind (entry_shape (tt_entry (snd int_matrix) 21)) = PSX_TYPE_ARRAY"
    by code_simp
  have complete: "tl_is_complete \<lparr>tl_size = 48, tl_alignment = 4, tl_is_complete = True\<rparr>"
    by simp
  show ?thesis
    using array_size_counts_elements [OF int_matrix_reachable regular_targets(1) records layout
        complete shape kind]
    by blast
qed


end
