(* ===== verification/AggregateLayout.thy ===== *)
theory AggregateLayout
  imports TypeLayout "HOL-Library.Signed_Division"
begin

text \<open>
  The placement of the members of a struct or union, from
  \<^verbatim>\<open>src/semantic/aggregate_member_resolution.c\<close>, and the stack of \<^verbatim>\<open>#pragma pack\<close> from
  \<^verbatim>\<open>src/parser/pragma_pack.c\<close>. C division truncates and is \<open>sdiv\<close>; a sum that may overflow an
  \<^verbatim>\<open>int\<close> is \<open>int_checked\<close>. The sums of the bit-field run stay in range in every state the
  placement reaches, which \<open>aggregate_layout_ok\<close> shows, and the \<^verbatim>\<open>long long\<close> bit positions
  stay below 2^35, so both are written as they are.
\<close>

section \<open>Packing\<close>

definition PSX_PRAGMA_PACK_STACK_MAX :: nat where
  "PSX_PRAGMA_PACK_STACK_MAX = 16"

text \<open>The stack, its top first; \<^verbatim>\<open>pragma_pack_stack_depth\<close> is its length.\<close>

record psx_parser_runtime_context_t =
  pragma_pack_current :: int
  pragma_pack_stack :: "int list"

definition pragma_pack_push_in ::
  "psx_parser_runtime_context_t \<Rightarrow> int \<Rightarrow> psx_parser_runtime_context_t" where
  "pragma_pack_push_in ctx alignment =
    (let pushed = (if length (pragma_pack_stack ctx) < PSX_PRAGMA_PACK_STACK_MAX
                   then ctx\<lparr>pragma_pack_stack := pragma_pack_current ctx # pragma_pack_stack ctx\<rparr>
                   else ctx)
     in pushed\<lparr>pragma_pack_current := alignment\<rparr>)"

definition pragma_pack_pop_in ::
  "psx_parser_runtime_context_t \<Rightarrow> psx_parser_runtime_context_t" where
  "pragma_pack_pop_in ctx =
    (case pragma_pack_stack ctx of
       saved # rest \<Rightarrow> ctx\<lparr>pragma_pack_current := saved, pragma_pack_stack := rest\<rparr>
     | [] \<Rightarrow> ctx\<lparr>pragma_pack_current := 0\<rparr>)"

definition pragma_pack_set_in ::
  "psx_parser_runtime_context_t \<Rightarrow> int \<Rightarrow> psx_parser_runtime_context_t" where
  "pragma_pack_set_in ctx alignment = ctx\<lparr>pragma_pack_current := alignment\<rparr>"

definition pragma_pack_reset_in ::
  "psx_parser_runtime_context_t \<Rightarrow> psx_parser_runtime_context_t" where
  "pragma_pack_reset_in ctx = ctx\<lparr>pragma_pack_current := 0, pragma_pack_stack := []\<rparr>"

definition pragma_pack_current_alignment_in :: "psx_parser_runtime_context_t \<Rightarrow> int" where
  "pragma_pack_current_alignment_in ctx = pragma_pack_current ctx"

section \<open>The state of a layout\<close>

definition align_up :: "int \<Rightarrow> int \<Rightarrow> int outcome" where
  "align_up v alignment =
    (if alignment \<le> 1 then Value v
     else outcome_bind (int_checked (v + alignment))
            (\<lambda>sum. Value ((sum - 1) sdiv alignment * alignment)))"

definition is_aggregate_kind :: "psx_type_kind_t \<Rightarrow> bool" where
  "is_aggregate_kind kind \<longleftrightarrow> kind = PSX_TYPE_STRUCT \<or> kind = PSX_TYPE_UNION"

datatype psx_aggregate_member_status_t =
    PSX_AGGREGATE_MEMBER_OK
  | PSX_AGGREGATE_MEMBER_INVALID
  | PSX_AGGREGATE_MEMBER_DUPLICATE
  | PSX_AGGREGATE_MEMBER_BIT_WIDTH_EXCEEDS_STORAGE
  | PSX_AGGREGATE_MEMBER_INCOMPLETE_TYPE
  | PSX_AGGREGATE_MEMBER_FUNCTION_TYPE
  | PSX_AGGREGATE_MEMBER_VARIABLY_MODIFIED_TYPE
  | PSX_AGGREGATE_MEMBER_INVALID_BITFIELD_TYPE
  | PSX_AGGREGATE_MEMBER_ATOMIC_BITFIELD_UNSUPPORTED
  | PSX_AGGREGATE_MEMBER_NEGATIVE_BIT_WIDTH
  | PSX_AGGREGATE_MEMBER_NAMED_ZERO_WIDTH_BITFIELD
  | PSX_AGGREGATE_MEMBER_FLEXIBLE_ARRAY_IN_UNION
  | PSX_AGGREGATE_MEMBER_FLEXIBLE_ARRAY_NEEDS_PRIOR_NAMED_MEMBER
  | PSX_AGGREGATE_MEMBER_AFTER_FLEXIBLE_ARRAY
  | PSX_AGGREGATE_MEMBER_FLEXIBLE_ARRAY_NESTED_IN_STRUCT
  | PSX_AGGREGATE_MEMBER_FLEXIBLE_ARRAY_ELEMENT
  | PSX_AGGREGATE_MEMBER_MISSING_NAME

record psx_aggregate_layout_state_t =
  as_record_kind :: psx_type_kind_t
  as_record_id :: psx_record_id_t
  as_current_offset :: int
  as_union_size :: int
  as_alignment :: int
  as_bitfield_storage_offset :: int
  as_bitfield_storage_size :: int
  as_bitfield_bits_used :: int

definition psx_aggregate_layout_init ::
  "psx_record_decl_t option \<Rightarrow> psx_aggregate_layout_state_t" where
  "psx_aggregate_layout_init decl =
     \<lparr>as_record_kind = (case decl of Some d \<Rightarrow> rd_record_kind d | None \<Rightarrow> PSX_TYPE_INVALID),
      as_record_id = (case decl of Some d \<Rightarrow> rd_record_id d | None \<Rightarrow> PSX_RECORD_ID_INVALID),
      as_current_offset = 0, as_union_size = 0, as_alignment = 1,
      as_bitfield_storage_offset = -1, as_bitfield_storage_size = 0, as_bitfield_bits_used = 0\<rparr>"

definition finish_aggregate_bitfield_run ::
  "psx_aggregate_layout_state_t \<Rightarrow> psx_aggregate_layout_state_t" where
  "finish_aggregate_bitfield_run state =
    (let finished =
       (if as_record_kind state \<noteq> PSX_TYPE_UNION \<and> as_bitfield_storage_offset state \<ge> 0 \<and>
           as_bitfield_bits_used state > 0
        then let occupied_bytes = (as_bitfield_bits_used state + 7) sdiv 8
             in state\<lparr>as_current_offset := as_bitfield_storage_offset state + occupied_bytes\<rparr>
        else state)
     in finished\<lparr>as_bitfield_storage_offset := -1, as_bitfield_storage_size := 0,
                 as_bitfield_bits_used := 0\<rparr>)"

definition psx_aggregate_layout_size :: "psx_aggregate_layout_state_t \<Rightarrow> int outcome" where
  "psx_aggregate_layout_size state =
    (if \<not> is_aggregate_kind (as_record_kind state) then Value 0
     else let members_size =
       (if as_record_kind state \<noteq> PSX_TYPE_UNION \<and> as_bitfield_storage_offset state \<ge> 0 \<and>
           as_bitfield_bits_used state > 0
        then as_bitfield_storage_offset state + (as_bitfield_bits_used state + 7) sdiv 8
        else if as_record_kind state = PSX_TYPE_UNION then as_union_size state
        else as_current_offset state)
     in align_up members_size (as_alignment state))"

definition psx_aggregate_layout_alignment :: "psx_aggregate_layout_state_t \<Rightarrow> int" where
  "psx_aggregate_layout_alignment state =
    (if as_alignment state > 0 then as_alignment state else 1)"

section \<open>Bit-fields\<close>

record aggregate_bitfield_request_t =
  br_semantic_types :: psx_semantic_type_table_t
  br_record_layouts :: psx_record_layout_table_t
  br_type_id :: psx_type_id_t
  br_bit_width :: int
  br_pack_alignment :: int

record aggregate_bitfield_resolution_t =
  bf_status :: psx_aggregate_member_status_t
  bf_offset :: int
  bf_bit_offset :: int
  bf_storage_size :: int
  bf_bit_capacity :: int
  bf_bit_is_signed :: bool

definition bitfield_unresolved :: aggregate_bitfield_resolution_t where
  "bitfield_unresolved =
     \<lparr>bf_status = PSX_AGGREGATE_MEMBER_INVALID, bf_offset = 0, bf_bit_offset = 0,
      bf_storage_size = 0, bf_bit_capacity = 0, bf_bit_is_signed = False\<rparr>"

text \<open>
  The storage unit of the next bit-field of a struct: the bit it starts at and the bits of it in
  front of the field.
\<close>

definition bitfield_container ::
  "psx_aggregate_layout_state_t \<Rightarrow> int \<Rightarrow> int \<Rightarrow> int \<Rightarrow> int \<times> int" where
  "bitfield_container state pack_alignment bit_width storage_size =
    (let storage_bits = storage_size * 8;
         next_bit = (if as_bitfield_storage_offset state \<ge> 0
                     then as_bitfield_storage_offset state * 8 + as_bitfield_bits_used state
                     else as_current_offset state * 8)
     in if pack_alignment > 0
        then let start = (if as_bitfield_storage_offset state \<ge> 0
                          then as_bitfield_storage_offset state * 8 else next_bit sdiv 8 * 8);
                 bits_before = next_bit - start
             in if bits_before + bit_width > storage_bits
                then let start = next_bit sdiv 8 * 8; bits_before = next_bit - start
                     in if bits_before + bit_width > storage_bits
                        then ((next_bit + 7) sdiv 8 * 8, 0)
                        else (start, bits_before)
                else (start, bits_before)
        else let start = next_bit sdiv storage_bits * storage_bits; bits_before = next_bit - start
             in if bits_before + bit_width > storage_bits
                then let next_byte = (next_bit + 7) sdiv 8;
                         aligned_byte = (next_byte + storage_size - 1) sdiv storage_size * storage_size
                     in (aligned_byte * 8, 0)
                else (start, bits_before))"

text \<open>A bit-field of width 0 ends the run; the next member of a struct starts at a storage unit.\<close>

definition place_zero_width ::
  "psx_aggregate_layout_state_t \<Rightarrow> int \<Rightarrow> aggregate_bitfield_resolution_t \<Rightarrow>
   (psx_aggregate_layout_state_t \<times> aggregate_bitfield_resolution_t) outcome" where
  "place_zero_width state storage_size resolution =
    (let finished = finish_aggregate_bitfield_run state
     in if as_record_kind state = PSX_TYPE_UNION
        then Value (finished, resolution\<lparr>bf_offset := 0, bf_status := PSX_AGGREGATE_MEMBER_OK\<rparr>)
        else outcome_bind (align_up (as_current_offset finished) storage_size)
               (\<lambda>offset. Value (finished\<lparr>as_current_offset := offset\<rparr>,
                  resolution\<lparr>bf_offset := offset, bf_status := PSX_AGGREGATE_MEMBER_OK\<rparr>)))"

definition widen_alignment ::
  "int \<Rightarrow> psx_aggregate_layout_state_t \<Rightarrow> psx_aggregate_layout_state_t" where
  "widen_alignment alignment state =
    (if alignment > as_alignment state then state\<lparr>as_alignment := alignment\<rparr> else state)"

definition widen_union :: "int \<Rightarrow> psx_aggregate_layout_state_t \<Rightarrow> psx_aggregate_layout_state_t" where
  "widen_union member_size state =
    (if member_size > as_union_size state then state\<lparr>as_union_size := member_size\<rparr> else state)"

definition place_union_bitfield ::
  "psx_aggregate_layout_state_t \<Rightarrow> int \<Rightarrow> int \<Rightarrow> int \<Rightarrow> aggregate_bitfield_resolution_t \<Rightarrow>
   psx_aggregate_layout_state_t \<times> aggregate_bitfield_resolution_t" where
  "place_union_bitfield state bit_width storage_size member_alignment resolution =
     (widen_alignment member_alignment
        (widen_union ((bit_width + 7) sdiv 8)
          (state\<lparr>as_bitfield_storage_offset := 0, as_bitfield_storage_size := storage_size,
                 as_bitfield_bits_used := bit_width\<rparr>)),
      resolution\<lparr>bf_offset := 0, bf_status := PSX_AGGREGATE_MEMBER_OK\<rparr>)"

definition place_struct_bitfield ::
  "psx_aggregate_layout_state_t \<Rightarrow> int \<Rightarrow> int \<Rightarrow> int \<Rightarrow> int \<Rightarrow> aggregate_bitfield_resolution_t \<Rightarrow>
   psx_aggregate_layout_state_t \<times> aggregate_bitfield_resolution_t" where
  "place_struct_bitfield state pack_alignment bit_width storage_size member_alignment resolution =
    (let (container_bit_start, bits_before) =
           bitfield_container state pack_alignment bit_width storage_size;
         container_start = container_bit_start sdiv 8
     in if container_start < 0 \<or> container_start > INT_MAX - storage_size
        then (state, resolution)
        else (widen_alignment member_alignment
                (state\<lparr>as_bitfield_storage_offset := container_start,
                       as_bitfield_storage_size := storage_size,
                       as_current_offset := container_start + storage_size,
                       as_bitfield_bits_used := bits_before + bit_width\<rparr>),
              resolution\<lparr>bf_offset := container_start, bf_bit_offset := bits_before,
                         bf_status := PSX_AGGREGATE_MEMBER_OK\<rparr>))"

definition bitfield_alignment :: "int \<Rightarrow> int \<Rightarrow> int" where
  "bitfield_alignment pack_alignment storage_size =
    (if pack_alignment > 0 \<and> pack_alignment < storage_size then pack_alignment else storage_size)"

definition bitfield_capacity :: "psx_type_shape_t \<Rightarrow> int \<Rightarrow> int" where
  "bitfield_capacity type storage_size =
    (if shape_kind type = PSX_TYPE_BOOL then 1 else storage_size * 8)"

text \<open>The placement, once the size of the type is known.\<close>

definition place_bitfield ::
  "psx_aggregate_layout_state_t \<Rightarrow> aggregate_bitfield_request_t \<Rightarrow> psx_type_shape_t \<Rightarrow> int \<Rightarrow>
   (psx_aggregate_layout_state_t \<times> aggregate_bitfield_resolution_t) outcome" where
  "place_bitfield state request type type_size =
    (if type_size \<le> 0 then Value (state, bitfield_unresolved)
     else let storage_size = (if type_size > 8 then 8 else type_size);
              bit_capacity = bitfield_capacity type storage_size;
              member_alignment = bitfield_alignment (br_pack_alignment request) storage_size;
              resolution = bitfield_unresolved\<lparr>bf_storage_size := storage_size,
                bf_bit_is_signed := shape_kind type \<noteq> PSX_TYPE_BOOL \<and> \<not> shape_is_unsigned type,
                bf_bit_capacity := bit_capacity\<rparr>
     in if br_bit_width request > bit_capacity
        then Value (state, resolution\<lparr>bf_status := PSX_AGGREGATE_MEMBER_BIT_WIDTH_EXCEEDS_STORAGE\<rparr>)
        else if br_bit_width request = 0 then place_zero_width state storage_size resolution
        else if as_record_kind state = PSX_TYPE_UNION
        then Value (place_union_bitfield state (br_bit_width request) storage_size member_alignment
                      resolution)
        else Value (place_struct_bitfield state (br_pack_alignment request) (br_bit_width request)
                      storage_size member_alignment resolution))"

definition resolve_aggregate_bitfield_placement ::
  "psx_aggregate_layout_state_t \<Rightarrow> aggregate_bitfield_request_t \<Rightarrow> ag_data_layout_t option \<Rightarrow>
   (psx_aggregate_layout_state_t \<times> aggregate_bitfield_resolution_t) outcome option" where
  "resolve_aggregate_bitfield_placement state request data_layout =
    (if \<not> is_aggregate_kind (as_record_kind state) \<or> br_type_id request = PSX_TYPE_ID_INVALID \<or>
        br_bit_width request < 0 \<or> br_pack_alignment request < 0
     then Some (Value (state, bitfield_unresolved))
     else case psx_semantic_type_table_describe (br_semantic_types request) (br_type_id request) of
       None \<Rightarrow> Some (Value (state, bitfield_unresolved))
     | Some type \<Rightarrow>
         if shape_kind type \<noteq> PSX_TYPE_INTEGER \<and> shape_kind type \<noteq> PSX_TYPE_BOOL
         then Some (Value (state,
                bitfield_unresolved\<lparr>bf_status := PSX_AGGREGATE_MEMBER_INVALID_BITFIELD_TYPE\<rparr>))
         else map_option (place_bitfield state request type)
                (psx_type_layout_sizeof (br_semantic_types request) (br_record_layouts request)
                   (br_type_id request) data_layout))"

section \<open>Objects\<close>

record aggregate_object_placement_request_t =
  or_storage_size :: int
  or_natural_alignment :: int
  or_pack_alignment :: int
  or_requested_alignment :: int

record aggregate_object_placement_t =
  op_status :: psx_aggregate_member_status_t
  op_offset :: int
  op_alignment :: int

definition object_alignment :: "aggregate_object_placement_request_t \<Rightarrow> int" where
  "object_alignment request =
    (let alignment = (if or_pack_alignment request > 0 \<and>
                         or_pack_alignment request < or_natural_alignment request
                      then or_pack_alignment request else or_natural_alignment request)
     in if or_requested_alignment request > alignment then or_requested_alignment request
        else alignment)"

definition resolve_aggregate_object_placement ::
  "psx_aggregate_layout_state_t \<Rightarrow> aggregate_object_placement_request_t \<Rightarrow>
   (psx_aggregate_layout_state_t \<times> aggregate_object_placement_t) outcome" where
  "resolve_aggregate_object_placement state request =
    (if \<not> is_aggregate_kind (as_record_kind state) \<or> or_storage_size request < 0 \<or>
        or_natural_alignment request \<le> 0 \<or> or_pack_alignment request < 0 \<or>
        or_requested_alignment request < 0
     then Value (state, \<lparr>op_status = PSX_AGGREGATE_MEMBER_INVALID, op_offset = 0, op_alignment = 0\<rparr>)
     else let alignment = object_alignment request;
              widened = widen_alignment alignment (finish_aggregate_bitfield_run state)
          in if as_record_kind state = PSX_TYPE_UNION
             then Value (widen_union (or_storage_size request) widened,
                    \<lparr>op_status = PSX_AGGREGATE_MEMBER_OK, op_offset = 0, op_alignment = alignment\<rparr>)
             else outcome_bind (align_up (as_current_offset widened) alignment)
                    (\<lambda>offset. outcome_bind (int_checked (offset + or_storage_size request))
                       (\<lambda>after. Value (widened\<lparr>as_current_offset := after\<rparr>,
                          \<lparr>op_status = PSX_AGGREGATE_MEMBER_OK, op_offset = offset,
                           op_alignment = alignment\<rparr>))))"

section \<open>What the state promises\<close>

lemma sdiv_div [simp]: "0 \<le> (a :: int) \<Longrightarrow> 0 < b \<Longrightarrow> a sdiv b = a div b"
  by (cases "a = 0") (simp_all add: signed_divide_int_def sgn_mult)

definition aggregate_layout_ok :: "psx_aggregate_layout_state_t \<Rightarrow> bool" where
  "aggregate_layout_ok s \<longleftrightarrow>
     is_aggregate_kind (as_record_kind s) \<and> 1 \<le> as_alignment s \<and>
     0 \<le> as_current_offset s \<and> as_current_offset s \<le> INT_MAX \<and> 0 \<le> as_union_size s \<and>
     (as_bitfield_storage_offset s = -1 \<and> as_bitfield_bits_used s = 0 \<or>
      0 \<le> as_bitfield_storage_offset s \<and> 0 < as_bitfield_bits_used s \<and>
      as_bitfield_bits_used s \<le> as_bitfield_storage_size s * 8 \<and> as_bitfield_storage_size s \<le> 8 \<and>
      (as_record_kind s \<noteq> PSX_TYPE_UNION \<longrightarrow>
         as_current_offset s = as_bitfield_storage_offset s + as_bitfield_storage_size s))"

text \<open>The first bit behind the members placed so far; in a union, behind the largest one.\<close>

definition end_bit :: "psx_aggregate_layout_state_t \<Rightarrow> int" where
  "end_bit s =
    (if as_record_kind s = PSX_TYPE_UNION then as_union_size s * 8
     else if as_bitfield_storage_offset s \<ge> 0
     then as_bitfield_storage_offset s * 8 + as_bitfield_bits_used s
     else as_current_offset s * 8)"

lemma init_ok:
  assumes "decl = Some d" "is_aggregate_kind (rd_record_kind d)"
  shows "aggregate_layout_ok (psx_aggregate_layout_init decl)"
    "end_bit (psx_aggregate_layout_init decl) = 0"
  using assms by (simp_all add: aggregate_layout_ok_def psx_aggregate_layout_init_def end_bit_def
    INT_MAX_def)

lemma round_up:
  assumes "1 < (a :: int)"
  shows "v \<le> (v + a - 1) div a * a" "(v + a - 1) div a * a \<le> v + a - 1" "a dvd (v + a - 1) div a * a"
proof -
  have "(v + a - 1) mod a < a" "0 \<le> (v + a - 1) mod a"
    using assms by simp_all
  moreover have "(v + a - 1) div a * a + (v + a - 1) mod a = v + a - 1"
    by simp
  ultimately show "v \<le> (v + a - 1) div a * a" "(v + a - 1) div a * a \<le> v + a - 1"
    by linarith+
qed simp

lemma align_up_Value:
  assumes "align_up v a = Value r" "0 \<le> v"
  shows "v \<le> r" "v \<le> INT_MAX \<Longrightarrow> r \<le> INT_MAX" "0 < a \<Longrightarrow> a dvd r"
proof -
  have "v \<le> r \<and> (v \<le> INT_MAX \<longrightarrow> r \<le> INT_MAX) \<and> (0 < a \<longrightarrow> a dvd r)"
  proof (cases "a \<le> 1")
    case True
    then show ?thesis
      using assms by (auto simp: align_up_def dest: antisym)
  next
    case False
    then have "r = (v + a - 1) div a * a" "v + a \<le> INT_MAX"
      using assms by (auto simp: align_up_def int_checked_def split: if_splits)
    then show ?thesis
      using round_up [of a v] False by simp
  qed
  then show "v \<le> r" "v \<le> INT_MAX \<Longrightarrow> r \<le> INT_MAX" "0 < a \<Longrightarrow> a dvd r"
    by simp_all
qed

lemma finish_run_ok:
  assumes "aggregate_layout_ok s"
  shows "aggregate_layout_ok (finish_aggregate_bitfield_run s)"
    "as_record_kind (finish_aggregate_bitfield_run s) = as_record_kind s"
    "as_alignment (finish_aggregate_bitfield_run s) = as_alignment s"
    "as_union_size (finish_aggregate_bitfield_run s) = as_union_size s"
    "as_bitfield_storage_offset (finish_aggregate_bitfield_run s) = -1"
    "as_bitfield_bits_used (finish_aggregate_bitfield_run s) = 0"
    "end_bit s \<le> end_bit (finish_aggregate_bitfield_run s)"
    "as_record_kind s \<noteq> PSX_TYPE_UNION \<Longrightarrow>
       end_bit s \<le> as_current_offset (finish_aggregate_bitfield_run s) * 8"
  using assms
  by (auto simp: finish_aggregate_bitfield_run_def aggregate_layout_ok_def end_bit_def Let_def)

lemma container_fits:
  assumes ok: "aggregate_layout_ok s" and kind: "as_record_kind s \<noteq> PSX_TYPE_UNION"
    and unit: "1 \<le> u" "u \<le> 8" "0 < w" "w \<le> u * 8" and pack: "0 \<le> p"
    and container: "bitfield_container s p w u = (c, b)"
  shows "8 dvd c" "0 \<le> c" "0 \<le> b" "b + w \<le> u * 8" "end_bit s \<le> c + b" "p = 0 \<Longrightarrow> u * 8 dvd c"
proof -
  let ?n = "end_bit s"
  have n: "0 \<le> ?n" "0 \<le> ?n + 7"
    using ok kind by (auto simp: aggregate_layout_ok_def end_bit_def)
  have next_bit: "(if as_bitfield_storage_offset s \<ge> 0
      then as_bitfield_storage_offset s * 8 + as_bitfield_bits_used s
      else as_current_offset s * 8) = ?n"
    using kind by (simp add: end_bit_def)
  have byte: "?n div 8 * 8 \<le> ?n" "0 \<le> ?n div 8 * 8" "?n \<le> (?n + 7) div 8 * 8"
    using n by auto
  note defs = bitfield_container_def [of s p w u, unfolded Let_def next_bit] container
  have "8 dvd c \<and> 0 \<le> c \<and> 0 \<le> b \<and> b + w \<le> u * 8 \<and> ?n \<le> c + b \<and> (p = 0 \<longrightarrow> u * 8 dvd c)"
  proof (cases "p > 0")
    case True
    have "0 \<le> ?n - as_bitfield_storage_offset s * 8" if "as_bitfield_storage_offset s \<ge> 0"
      using ok kind that by (simp add: aggregate_layout_ok_def end_bit_def)
    then show ?thesis
      using True byte n unit defs by (auto split: if_splits)
  next
    case False
    let ?a = "((?n + 7) div 8 + u - 1) div u * u"
    have a: "(?n + 7) div 8 \<le> ?a"
      using round_up(1) [of u "(?n + 7) div 8"] unit by (cases "u = 1") auto
    have up: "0 \<le> (?n + 7) div 8 + u - 1"
      using n unit by simp
    have big: "0 < u * 8"
      using unit by simp
    have "0 \<le> ?n div (u * 8)"
      using n big by (simp add: pos_imp_zdiv_nonneg_iff)
    then have down: "?n div (u * 8) * (u * 8) \<le> ?n" "0 \<le> ?n div (u * 8) * (u * 8)"
      using div_mult_mod_eq [of ?n "u * 8"] pos_mod_sign [OF big, of ?n] big
      by (linarith, intro mult_nonneg_nonneg) simp_all
    show ?thesis
    proof (cases "?n - ?n div (u * 8) * (u * 8) + w > u * 8")
      case True
      then have cb: "c = ?a * 8" "b = 0"
        using False defs n big up unit by auto
      obtain m where m: "?a = m" "u dvd m"
        by simp
      then show ?thesis
        using cb a byte unit by (auto intro: order_trans [OF n(1)])
    next
      case fits: False
      then have "c = ?n div (u * 8) * (u * 8)" "b = ?n - c"
        using False defs n big by auto
      then show ?thesis
        using down fits by auto
    qed
  qed
  then show "8 dvd c" "0 \<le> c" "0 \<le> b" "b + w \<le> u * 8" "end_bit s \<le> c + b" "p = 0 \<Longrightarrow> u * 8 dvd c"
    by simp_all
qed


section \<open>Placing one member\<close>

lemma widen_ok [simp]:
  "aggregate_layout_ok s \<Longrightarrow> aggregate_layout_ok (widen_alignment a s)"
  "as_record_kind (widen_alignment a s) = as_record_kind s"
  "as_alignment (widen_alignment a s) = max (as_alignment s) a"
  "as_current_offset (widen_alignment a s) = as_current_offset s"
  "as_union_size (widen_alignment a s) = as_union_size s"
  "end_bit (widen_alignment a s) = end_bit s"
  by (auto simp: widen_alignment_def aggregate_layout_ok_def end_bit_def)

lemma widen_union_ok [simp]:
  "aggregate_layout_ok s \<Longrightarrow> aggregate_layout_ok (widen_union n s)"
  "as_record_kind (widen_union n s) = as_record_kind s"
  "as_alignment (widen_union n s) = as_alignment s"
  "as_union_size (widen_union n s) = max (as_union_size s) n"
  by (auto simp: widen_union_def aggregate_layout_ok_def)

lemma zero_width_placed:
  assumes ok: "aggregate_layout_ok s" and placed: "place_zero_width s u r = Value (s', f)"
    and r: "bf_bit_offset r = 0"
  shows "aggregate_layout_ok s' \<and> as_record_kind s' = as_record_kind s \<and> as_alignment s' = as_alignment s \<and>
    0 \<le> bf_offset f \<and> bf_bit_offset f = 0 \<and> end_bit s \<le> end_bit s' \<and> bf_offset f * 8 \<le> end_bit s' \<and>
    (as_record_kind s \<noteq> PSX_TYPE_UNION \<longrightarrow> end_bit s \<le> bf_offset f * 8)"
proof -
  note fin = finish_run_ok [OF ok]
  let ?t = "finish_aggregate_bitfield_run s"
  have range: "0 \<le> as_current_offset ?t" "as_current_offset ?t \<le> INT_MAX" "0 \<le> as_union_size s"
    using fin(1,4) by (auto simp: aggregate_layout_ok_def)
  show ?thesis
  proof (cases "as_record_kind s = PSX_TYPE_UNION")
    case True
    then have "s' = ?t" "bf_offset f = 0" "bf_bit_offset f = 0"
      using placed r by (auto simp: place_zero_width_def Let_def)
    then show ?thesis
      using True fin range by (simp add: end_bit_def)
  next
    case False
    then obtain off where off: "align_up (as_current_offset ?t) u = Value off" and
      res: "s' = ?t\<lparr>as_current_offset := off\<rparr>" "bf_offset f = off" "bf_bit_offset f = 0"
      using placed r
      by (cases "align_up (as_current_offset ?t) u") (auto simp: place_zero_width_def Let_def)
    note a = align_up_Value [OF off range(1)]
    have "aggregate_layout_ok s'"
      using False fin range a(1,2) by (simp add: res(1) aggregate_layout_ok_def)
    moreover have "end_bit s' = off * 8"
      using False fin by (simp add: res(1) end_bit_def)
    ultimately show ?thesis
      using False fin range a(1) res by simp
  qed
qed

lemma union_bitfield_placed:
  assumes ok: "aggregate_layout_ok s" and kind: "as_record_kind s = PSX_TYPE_UNION"
    and width: "0 < w" "w \<le> u * 8" "u \<le> 8"
    and placed: "place_union_bitfield s w u a r = (s', f)"
  shows "aggregate_layout_ok s' \<and> as_record_kind s' = as_record_kind s \<and>
    as_alignment s' = max (as_alignment s) a \<and> bf_offset f = 0 \<and> end_bit s \<le> end_bit s' \<and>
    w \<le> end_bit s'"
proof -
  let ?t = "s\<lparr>as_bitfield_storage_offset := 0, as_bitfield_storage_size := u,
      as_bitfield_bits_used := w\<rparr>"
  have res: "s' = widen_alignment a (widen_union ((w + 7) div 8) ?t)" "bf_offset f = 0"
    using placed width(1) by (auto simp: place_union_bitfield_def)
  have "aggregate_layout_ok ?t"
    using ok kind width by (simp add: aggregate_layout_ok_def)
  moreover have "w \<le> (w + 7) div 8 * 8"
    by simp
  ultimately show ?thesis
    using kind by (simp add: res) (simp add: end_bit_def max_def)
qed

lemma struct_bitfield_placed:
  assumes ok: "aggregate_layout_ok s" and kind: "as_record_kind s \<noteq> PSX_TYPE_UNION"
    and width: "0 < w" "w \<le> u * 8" "u \<le> 8" "1 \<le> u" and pack: "0 \<le> p"
    and placed: "place_struct_bitfield s p w u a r = (s', f)"
    and r: "bf_status r \<noteq> PSX_AGGREGATE_MEMBER_OK" "bf_status f = PSX_AGGREGATE_MEMBER_OK"
  shows "aggregate_layout_ok s' \<and> as_record_kind s' = as_record_kind s \<and>
    as_alignment s' = max (as_alignment s) a \<and> 0 \<le> bf_offset f \<and> 0 \<le> bf_bit_offset f \<and>
    bf_bit_offset f + w \<le> u * 8 \<and> end_bit s \<le> bf_offset f * 8 + bf_bit_offset f \<and>
    bf_offset f * 8 + bf_bit_offset f + w \<le> end_bit s' \<and> (p = 0 \<longrightarrow> u dvd bf_offset f)"
proof -
  obtain c b where c: "bitfield_container s p w u = (c, b)"
    by (cases "bitfield_container s p w u")
  note fits = container_fits [OF ok kind width(4,3,1,2) pack c]
  have c8: "c div 8 * 8 = c" "0 \<le> c div 8"
    using fits(1,2) by auto
  have range: "\<not> (c div 8 < 0 \<or> c div 8 > INT_MAX - u)"
    using placed r c fits(2) by (auto simp: place_struct_bitfield_def Let_def)
  let ?t = "s\<lparr>as_bitfield_storage_offset := c div 8, as_bitfield_storage_size := u,
      as_current_offset := c div 8 + u, as_bitfield_bits_used := b + w\<rparr>"
  have res: "s' = widen_alignment a ?t" "bf_offset f = c div 8" "bf_bit_offset f = b"
    using placed c fits(2) range by (auto simp: place_struct_bitfield_def Let_def)
  have "aggregate_layout_ok ?t"
    using ok kind width fits c8 range by (simp add: aggregate_layout_ok_def)
  moreover have "u dvd c div 8" if "p = 0"
    using fits(6) [OF that] c8 by (metis dvd_times_right_cancel_iff zero_neq_numeral)
  moreover have "end_bit ?t = c + b + w"
    using kind c8 by (simp add: end_bit_def)
  ultimately show ?thesis
    using fits c8 by (simp add: res)
qed

lemma bitfield_placed:
  assumes ok: "aggregate_layout_ok s" and width: "0 < br_bit_width r" and pack: "0 \<le> br_pack_alignment r"
    and placed: "place_bitfield s r ty n = Value (s', f)" and st: "bf_status f = PSX_AGGREGATE_MEMBER_OK"
  shows "aggregate_layout_ok s' \<and> as_record_kind s' = as_record_kind s \<and>
    as_alignment s' = max (as_alignment s) (bitfield_alignment (br_pack_alignment r) (bf_storage_size f)) \<and>
    bf_storage_size f = min n 8 \<and> 0 < n \<and> 0 \<le> bf_offset f \<and> 0 \<le> bf_bit_offset f \<and>
    bf_bit_offset f + br_bit_width r \<le> bf_storage_size f * 8 \<and>
    bf_offset f * 8 + bf_bit_offset f + br_bit_width r \<le> end_bit s' \<and> end_bit s \<le> end_bit s' \<and>
    (as_record_kind s \<noteq> PSX_TYPE_UNION \<longrightarrow> end_bit s \<le> bf_offset f * 8 + bf_bit_offset f) \<and>
    (br_pack_alignment r = 0 \<longrightarrow> bf_storage_size f dvd bf_offset f)"
proof -
  have pos: "0 < n"
    using placed st by (auto simp: place_bitfield_def bitfield_unresolved_def split: if_splits)
  let ?u = "min n 8" and ?w = "br_bit_width r" and ?p = "br_pack_alignment r"
  let ?res = "bitfield_unresolved\<lparr>bf_storage_size := ?u,
      bf_bit_is_signed := shape_kind ty \<noteq> PSX_TYPE_BOOL \<and> \<not> shape_is_unsigned ty,
      bf_bit_capacity := bitfield_capacity ty ?u\<rparr>"
  have u: "1 \<le> ?u" "?u \<le> 8" "(if n > 8 then 8 else n) = ?u"
    using pos by auto
  have cap: "\<not> ?w > bitfield_capacity ty ?u"
  proof
    assume "?w > bitfield_capacity ty ?u"
    then show False
      using placed st pos u(3) by (auto simp: place_bitfield_def Let_def)
  qed
  then have w: "?w \<le> ?u * 8"
    using u by (auto simp: bitfield_capacity_def split: if_splits)
  show ?thesis
  proof (cases "as_record_kind s = PSX_TYPE_UNION")
    case True
    have "place_union_bitfield s ?w ?u (bitfield_alignment ?p ?u) ?res = (s', f)"
      using placed pos u(3) cap width True by (simp add: place_bitfield_def Let_def)
    moreover from this have "bf_storage_size f = ?u" "bf_bit_offset f = 0"
      by (auto simp: place_union_bitfield_def bitfield_unresolved_def)
    ultimately show ?thesis
      using union_bitfield_placed [OF ok True width w u(2)] True pos w by simp
  next
    case False
    have place: "place_struct_bitfield s ?p ?w ?u (bitfield_alignment ?p ?u) ?res = (s', f)"
      using placed pos u(3) cap width False by (simp add: place_bitfield_def Let_def)
    then have "bf_storage_size f = ?u"
      by (auto simp: place_struct_bitfield_def bitfield_unresolved_def Let_def split: prod.splits if_splits)
    moreover have "bf_status ?res \<noteq> PSX_AGGREGATE_MEMBER_OK"
      by (simp add: bitfield_unresolved_def)
    ultimately show ?thesis
      using struct_bitfield_placed [OF ok False width w u(2,1) pack place _ st] False pos width by simp
  qed
qed

lemma object_placed:
  assumes ok: "aggregate_layout_ok s"
    and placed: "resolve_aggregate_object_placement s r = Value (s', p)"
    and st: "op_status p = PSX_AGGREGATE_MEMBER_OK"
  shows "aggregate_layout_ok s' \<and> as_record_kind s' = as_record_kind s \<and>
    as_alignment s' = max (as_alignment s) (op_alignment p) \<and> 0 < op_alignment p \<and>
    op_alignment p = object_alignment r \<and>
    0 \<le> or_storage_size r \<and> 0 \<le> op_offset p \<and> op_alignment p dvd op_offset p \<and>
    end_bit s \<le> end_bit s' \<and> (op_offset p + or_storage_size r) * 8 \<le> end_bit s' \<and>
    (as_record_kind s \<noteq> PSX_TYPE_UNION \<longrightarrow> end_bit s \<le> op_offset p * 8)"
proof -
  note fin = finish_run_ok [OF ok]
  let ?t = "finish_aggregate_bitfield_run s" and ?a = "object_alignment r" and ?n = "or_storage_size r"
  have range: "0 \<le> as_current_offset ?t" "as_current_offset ?t \<le> INT_MAX" "0 \<le> as_union_size s"
    using fin(1,4) by (auto simp: aggregate_layout_ok_def)
  have req: "\<not> (\<not> is_aggregate_kind (as_record_kind s) \<or> ?n < 0 \<or> or_natural_alignment r \<le> 0 \<or>
      or_pack_alignment r < 0 \<or> or_requested_alignment r < 0)"
  proof
    assume "\<not> is_aggregate_kind (as_record_kind s) \<or> ?n < 0 \<or> or_natural_alignment r \<le> 0 \<or>
      or_pack_alignment r < 0 \<or> or_requested_alignment r < 0"
    then show False
      using placed st by (auto simp: resolve_aggregate_object_placement_def)
  qed
  then have a: "0 < ?a"
    by (auto simp: object_alignment_def Let_def)
  note wide = widen_ok(1) [OF fin(1), of ?a]
  show ?thesis
  proof (cases "as_record_kind s = PSX_TYPE_UNION")
    case True
    have res: "s' = widen_union ?n (widen_alignment ?a ?t)" "op_offset p = 0" "op_alignment p = ?a"
      using placed req True by (auto simp: resolve_aggregate_object_placement_def Let_def)
    show ?thesis
      using True fin range req a wide by (simp add: res end_bit_def)
  next
    case False
    obtain off where off: "align_up (as_current_offset ?t) ?a = Value off"
      and checked: "outcome_bind (int_checked (off + ?n))
          (\<lambda>after. Value ((widen_alignment ?a ?t)\<lparr>as_current_offset := after\<rparr>,
             \<lparr>op_status = PSX_AGGREGATE_MEMBER_OK, op_offset = off, op_alignment = ?a\<rparr>)) =
        Value (s', p)"
      using placed req False
      by (cases "align_up (as_current_offset ?t) ?a")
        (auto simp: resolve_aggregate_object_placement_def Let_def)
    then have res: "s' = (widen_alignment ?a ?t)\<lparr>as_current_offset := off + ?n\<rparr>" "op_offset p = off"
      "op_alignment p = ?a" and after: "off + ?n \<le> INT_MAX"
      by (auto simp: int_checked_def split: if_splits)
    note bounds = align_up_Value [OF off range(1)]
    have "as_bitfield_storage_offset (widen_alignment ?a ?t) = -1"
      using fin(5) by (simp add: widen_alignment_def)
    then have end_after: "end_bit s' = (off + ?n) * 8"
      using False fin(2) by (simp add: res end_bit_def)
    have "aggregate_layout_ok s'"
      using wide False fin(2,5,6) bounds range after req
      by (auto simp: res aggregate_layout_ok_def widen_alignment_def)
    then show ?thesis
      using False fin range req a bounds end_after by (auto simp: res(2,3)) (simp_all add: res(1))
  qed
qed


section \<open>Placing the members of a record\<close>

text \<open>
  The members of a record in the order the declaration has them, each placed in the state the one
  before it left, as \<^verbatim>\<open>psx_resolve_aggregate_member_declaration\<close> does for the members it accepts.
\<close>

datatype member_request =
    Bit_field aggregate_bitfield_request_t
  | Object aggregate_object_placement_request_t

text \<open>
  The bits of a member, its first byte, the size of its object or storage unit and the alignment its
  first byte must have. A bit-field of width 0 has no storage unit, and a packed one need not be
  aligned.
\<close>

record placed_member_t =
  pm_first_bit :: int
  pm_end_bit :: int
  pm_offset :: int
  pm_size :: int
  pm_alignment :: int

definition placed_bits ::
  "aggregate_bitfield_request_t \<Rightarrow> aggregate_bitfield_resolution_t \<Rightarrow> placed_member_t" where
  "placed_bits request f =
     \<lparr>pm_first_bit = bf_offset f * 8 + bf_bit_offset f,
      pm_end_bit = bf_offset f * 8 + bf_bit_offset f + br_bit_width request,
      pm_offset = bf_offset f,
      pm_size = (if br_bit_width request = 0 then 0 else bf_storage_size f),
      pm_alignment = (if br_bit_width request = 0 \<or> br_pack_alignment request > 0 then 1
                      else bf_storage_size f)\<rparr>"

definition placed_object ::
  "aggregate_object_placement_request_t \<Rightarrow> aggregate_object_placement_t \<Rightarrow> placed_member_t" where
  "placed_object request p =
     \<lparr>pm_first_bit = op_offset p * 8, pm_end_bit = (op_offset p + or_storage_size request) * 8,
      pm_offset = op_offset p, pm_size = or_storage_size request, pm_alignment = op_alignment p\<rparr>"

definition place_member ::
  "psx_aggregate_layout_state_t \<Rightarrow> ag_data_layout_t option \<Rightarrow> member_request \<Rightarrow>
   (psx_aggregate_layout_state_t \<times> placed_member_t) outcome option" where
  "place_member state data_layout request =
    (case request of
       Bit_field b \<Rightarrow>
         map_option (\<lambda>result. outcome_bind result
             (\<lambda>(after, f). if bf_status f \<noteq> PSX_AGGREGATE_MEMBER_OK then Refused
                           else Value (after, placed_bits b f)))
           (resolve_aggregate_bitfield_placement state b data_layout)
     | Object r \<Rightarrow>
         Some (outcome_bind (resolve_aggregate_object_placement state r)
           (\<lambda>(after, p). if op_status p \<noteq> PSX_AGGREGATE_MEMBER_OK then Refused
                         else Value (after, placed_object r p))))"

primrec place_members ::
  "psx_aggregate_layout_state_t \<Rightarrow> ag_data_layout_t option \<Rightarrow> member_request list \<Rightarrow>
   (placed_member_t list \<times> psx_aggregate_layout_state_t) outcome option" where
  "place_members state data_layout [] = Some (Value ([], state))"
| "place_members state data_layout (request # requests) =
     Option.bind (place_member state data_layout request) (\<lambda>result. case result of
         Value (after, p) \<Rightarrow>
           map_option (\<lambda>rest. outcome_bind rest (\<lambda>(ps, final). Value (p # ps, final)))
             (place_members after data_layout requests)
       | Refused \<Rightarrow> Some Refused
       | Undefined \<Rightarrow> Some Undefined)"

definition member_ok :: "placed_member_t \<Rightarrow> bool" where
  "member_ok p \<longleftrightarrow>
     0 \<le> pm_offset p \<and> pm_offset p * 8 \<le> pm_first_bit p \<and> pm_first_bit p \<le> pm_end_bit p \<and>
     pm_end_bit p \<le> (pm_offset p + pm_size p) * 8 \<and> 0 < pm_alignment p \<and>
     pm_alignment p dvd pm_offset p"

text \<open>The requests a program can make: alignments are powers of two, and so are sizes of integers.\<close>

definition regular_request :: "ag_data_layout_t option \<Rightarrow> member_request \<Rightarrow> bool" where
  "regular_request l r =
    (case r of
       Bit_field b \<Rightarrow> (br_pack_alignment b = 0 \<or> pow2 (br_pack_alignment b)) \<and>
         (\<forall>n. psx_type_layout_sizeof (br_semantic_types b) (br_record_layouts b) (br_type_id b) l =
                Some n \<and> 0 < n \<longrightarrow> pow2 n)
     | Object b \<Rightarrow> pow2 (or_natural_alignment b) \<and>
         (or_pack_alignment b = 0 \<or> pow2 (or_pack_alignment b)) \<and>
         (or_requested_alignment b = 0 \<or> pow2 (or_requested_alignment b)))"

definition unpacked :: "member_request \<Rightarrow> bool" where
  "unpacked r = (case r of Bit_field b \<Rightarrow> br_pack_alignment b = 0 | Object b \<Rightarrow> True)"

lemma pow2_max: "pow2 a \<Longrightarrow> pow2 b \<Longrightarrow> pow2 (max a b) \<and> a dvd max a b \<and> b dvd max a b"
  using pow2_dvd [of a b] pow2_dvd [of b a] by (auto simp: max_def)

lemma pow2_min8: "pow2 n \<Longrightarrow> pow2 (min n 8)"
  unfolding pow2_def by (cases "n \<le> 8") (simp_all add: min_def exI [of _ 3])

lemma object_alignment_pow2:
  assumes "regular_request l (Object r)"
  shows "pow2 (object_alignment r)"
  using assms by (auto simp: regular_request_def object_alignment_def Let_def dest: pow2_pos)

lemma place_member_ok:
  assumes ok: "aggregate_layout_ok s" and placed: "place_member s l r = Some (Value (s', p))"
  shows "aggregate_layout_ok s' \<and> as_record_kind s' = as_record_kind s \<and> member_ok p \<and>
    end_bit s \<le> end_bit s' \<and> pm_end_bit p \<le> end_bit s' \<and>
    (as_record_kind s \<noteq> PSX_TYPE_UNION \<longrightarrow> end_bit s \<le> pm_first_bit p) \<and>
    (pow2 (as_alignment s) \<and> regular_request l r \<longrightarrow>
       pow2 (as_alignment s') \<and> as_alignment s dvd as_alignment s' \<and>
       pm_alignment p dvd as_alignment s') \<and>
    (unpacked r \<longrightarrow> pm_end_bit p = (pm_offset p + pm_size p) * 8 \<or>
       pm_size p = pm_alignment p \<and> pm_first_bit p < pm_end_bit p)"
proof (cases r)
  case (Object b)
  then obtain q where q: "resolve_aggregate_object_placement s b = Value (s', q)"
      "op_status q = PSX_AGGREGATE_MEMBER_OK" "p = placed_object b q"
    using placed by (auto simp: place_member_def split: if_splits elim!: outcome_bind_ValueE)
  have "pow2 (object_alignment b)" if "regular_request l r"
    using object_alignment_pow2 that Object by blast
  then show ?thesis
    using object_placed [OF ok q(1,2)] pow2_max [of "as_alignment s" "op_alignment q"]
    by (auto simp: q(3) placed_object_def member_ok_def)
next
  case (Bit_field b)
  let ?T = "br_semantic_types b" and ?i = "br_type_id b"
  obtain f where f: "resolve_aggregate_bitfield_placement s b l = Some (Value (s', f))"
      "bf_status f = PSX_AGGREGATE_MEMBER_OK" "p = placed_bits b f"
    using placed Bit_field
    by (auto simp: place_member_def split: if_splits elim!: outcome_bind_ValueE)
  have bounds: "0 \<le> br_bit_width b" "0 \<le> br_pack_alignment b"
    using f(1,2)
    by (auto simp: resolve_aggregate_bitfield_placement_def bitfield_unresolved_def split: if_splits)
  obtain ty n where n: "psx_type_layout_sizeof ?T (br_record_layouts b) ?i l = Some n"
    and place: "place_bitfield s b ty n = Value (s', f)"
    using f(1,2)
    by (auto simp: resolve_aggregate_bitfield_placement_def bitfield_unresolved_def
        split: if_splits option.splits)
  show ?thesis
  proof (cases "br_bit_width b = 0")
    case True
    have pos: "0 < n"
      using place f(2) by (auto simp: place_bitfield_def bitfield_unresolved_def split: if_splits)
    let ?u = "if n > 8 then 8 else n"
    obtain res where "place_zero_width s ?u res = Value (s', f)" "bf_bit_offset res = 0"
      using place True pos
      by (force simp: place_bitfield_def bitfield_unresolved_def bitfield_capacity_def Let_def
          split: if_splits)
    from zero_width_placed [OF ok this] show ?thesis
      using True by (auto simp: f(3) placed_bits_def member_ok_def)
  next
    case False
    then have w: "0 < br_bit_width b"
      using bounds by simp
    note b = bitfield_placed [OF ok w bounds(2) place f(2)]
    let ?a = "bitfield_alignment (br_pack_alignment b) (bf_storage_size f)"
    have powers: "pow2 (bf_storage_size f) \<and> pow2 ?a" if "regular_request l r"
      using that b n pow2_min8 [of n]
      by (auto simp: Bit_field regular_request_def bitfield_alignment_def)
    have align: "pow2 (as_alignment s') \<and> as_alignment s dvd as_alignment s' \<and>
        pm_alignment p dvd as_alignment s'"
      if "pow2 (as_alignment s)" "regular_request l r"
    proof -
      have "pow2 (as_alignment s') \<and> as_alignment s dvd as_alignment s' \<and> ?a dvd as_alignment s'"
        using pow2_max [of "as_alignment s" ?a] powers that b by simp
      moreover have "pm_alignment p dvd ?a"
        using bounds by (simp add: f(3) placed_bits_def bitfield_alignment_def)
      ultimately show ?thesis
        by (meson dvd_trans)
    qed
    have "member_ok p"
      using b bounds w by (auto simp: f(3) placed_bits_def member_ok_def)
    moreover have "pm_first_bit p = bf_offset f * 8 + bf_bit_offset f"
      "pm_end_bit p = pm_first_bit p + br_bit_width b"
      by (simp_all add: f(3) placed_bits_def)
    moreover have "pm_size p = pm_alignment p" if "unpacked r"
      using that w by (simp add: f(3) placed_bits_def unpacked_def Bit_field)
    ultimately show ?thesis
      using b w align by auto
  qed
qed


lemma place_members_ok:
  "aggregate_layout_ok s \<Longrightarrow> place_members s l rs = Some (Value (ps, s')) \<Longrightarrow>
     aggregate_layout_ok s' \<and> as_record_kind s' = as_record_kind s \<and> length ps = length rs \<and>
     end_bit s \<le> end_bit s' \<and> (\<forall>p \<in> set ps. member_ok p \<and> pm_end_bit p \<le> end_bit s') \<and>
     (as_record_kind s \<noteq> PSX_TYPE_UNION \<longrightarrow>
        (\<forall>p \<in> set ps. end_bit s \<le> pm_first_bit p) \<and>
        sorted_wrt (\<lambda>p q. pm_end_bit p \<le> pm_first_bit q) ps) \<and>
     (pow2 (as_alignment s) \<and> (\<forall>r \<in> set rs. regular_request l r) \<longrightarrow>
        pow2 (as_alignment s') \<and> as_alignment s dvd as_alignment s' \<and>
        (\<forall>p \<in> set ps. pm_alignment p dvd as_alignment s')) \<and>
     list_all2 (\<lambda>r p. unpacked r \<longrightarrow> pm_end_bit p = (pm_offset p + pm_size p) * 8 \<or>
       pm_size p = pm_alignment p \<and> pm_first_bit p < pm_end_bit p) rs ps"
proof (induction rs arbitrary: s ps)
  case Nil
  then show ?case
    by simp
next
  case (Cons r rs)
  obtain s1 p where p: "place_member s l r = Some (Value (s1, p))"
    using Cons.prems(2) by (auto split: Option.bind_splits outcome.splits)
  then obtain qs where qs: "place_members s1 l rs = Some (Value (qs, s'))" and ps: "ps = p # qs"
    using Cons.prems(2) by (auto elim!: outcome_bind_ValueE)
  note step = place_member_ok [OF Cons.prems(1) p]
  note rest = Cons.IH [OF conjunct1 [OF step] qs]
  have power: "pow2 (as_alignment s') \<and> as_alignment s dvd as_alignment s' \<and>
      (\<forall>p \<in> set ps. pm_alignment p dvd as_alignment s')"
    if "pow2 (as_alignment s)" "\<forall>r \<in> set (r # rs). regular_request l r"
  proof -
    have one: "pow2 (as_alignment s1)" "as_alignment s dvd as_alignment s1"
      "pm_alignment p dvd as_alignment s1"
      using step that by auto
    moreover have "\<forall>r \<in> set rs. regular_request l r"
      using that(2) by simp
    ultimately show ?thesis
      using rest unfolding ps by (metis dvd_trans set_ConsD)
  qed
  have order: "sorted_wrt (\<lambda>p q. pm_end_bit p \<le> pm_first_bit q) ps \<and>
      (\<forall>p \<in> set ps. end_bit s \<le> pm_first_bit p)" if "as_record_kind s \<noteq> PSX_TYPE_UNION"
    using that step rest unfolding ps by (fastforce dest: order_trans)
  have "\<forall>p \<in> set ps. member_ok p \<and> pm_end_bit p \<le> end_bit s'"
    using step rest unfolding ps by (auto intro: order_trans)
  moreover have "end_bit s \<le> end_bit s'"
    using step rest by (auto intro: order_trans)
  ultimately show ?case
    using step rest power order unfolding ps by simp
qed

lemma dvd_gap:
  assumes "(d :: int) dvd a" "d dvd b" "a < b"
  shows "a + d \<le> b"
  using zdvd_imp_le [of d "b - a"] assms by auto

lemma layout_size_covers:
  assumes ok: "aggregate_layout_ok s" and n: "psx_aggregate_layout_size s = Value n"
  shows "end_bit s \<le> n * 8" "as_alignment s dvd n" "psx_aggregate_layout_alignment s = as_alignment s"
proof -
  define m where "m =
    (if as_record_kind s \<noteq> PSX_TYPE_UNION \<and> as_bitfield_storage_offset s \<ge> 0 \<and>
        as_bitfield_bits_used s > 0
     then as_bitfield_storage_offset s + (as_bitfield_bits_used s + 7) sdiv 8
     else if as_record_kind s = PSX_TYPE_UNION then as_union_size s else as_current_offset s)"
  have "align_up m (as_alignment s) = Value n"
    using ok n by (simp add: psx_aggregate_layout_size_def m_def Let_def aggregate_layout_ok_def)
  moreover have "0 \<le> m" "end_bit s \<le> m * 8"
    using ok by (auto simp: m_def aggregate_layout_ok_def end_bit_def)
  ultimately show "end_bit s \<le> n * 8" "as_alignment s dvd n"
    using align_up_Value(1,3) [of m "as_alignment s" n] ok by (auto simp: aggregate_layout_ok_def)
  show "psx_aggregate_layout_alignment s = as_alignment s"
    using ok by (simp add: psx_aggregate_layout_alignment_def aggregate_layout_ok_def)
qed

section \<open>Nested packing\<close>

datatype pack_marker = Pack_push int | Pack_pop | Pack_set int | Pack_reset

text \<open>What the parser does at a marker, from \<^verbatim>\<open>psx_try_consume_pragma_pack_marker_in\<close>.\<close>

primrec consume_pragma_pack_marker ::
  "pack_marker \<Rightarrow> psx_parser_runtime_context_t \<Rightarrow> psx_parser_runtime_context_t" where
  "consume_pragma_pack_marker (Pack_push a) ctx = pragma_pack_push_in ctx a"
| "consume_pragma_pack_marker Pack_pop ctx = pragma_pack_pop_in ctx"
| "consume_pragma_pack_marker (Pack_set a) ctx = pragma_pack_set_in ctx a"
| "consume_pragma_pack_marker Pack_reset ctx = pragma_pack_reset_in ctx"

text \<open>Markers whose pushes and pops match, with their greatest nesting depth.\<close>

inductive balanced_markers :: "nat \<Rightarrow> pack_marker list \<Rightarrow> bool" where
  empty: "balanced_markers d []"
| set: "balanced_markers d ms \<Longrightarrow> balanced_markers d (Pack_set a # ms)"
| nest: "balanced_markers d body \<Longrightarrow> balanced_markers (Suc d) ms \<Longrightarrow>
    balanced_markers (Suc d) (Pack_push a # body @ Pack_pop # ms)"

lemma balanced_keeps_stack:
  "balanced_markers d ms \<Longrightarrow> length (pragma_pack_stack ctx) + d \<le> PSX_PRAGMA_PACK_STACK_MAX \<Longrightarrow>
     pragma_pack_stack (fold consume_pragma_pack_marker ms ctx) = pragma_pack_stack ctx"
proof (induction arbitrary: ctx rule: balanced_markers.induct)
  case (set d ms a)
  then show ?case
    by (simp add: pragma_pack_set_in_def)
next
  case (nest d body ms a)
  have push: "pragma_pack_stack (pragma_pack_push_in ctx a) =
      pragma_pack_current ctx # pragma_pack_stack ctx"
    using nest.prems by (simp add: pragma_pack_push_in_def)
  have "pragma_pack_stack (fold consume_pragma_pack_marker body (pragma_pack_push_in ctx a)) =
      pragma_pack_current ctx # pragma_pack_stack ctx"
    using nest.IH(1) [of "pragma_pack_push_in ctx a"] nest.prems push by simp
  then show ?case
    using nest.IH(2) nest.prems by (simp add: pragma_pack_pop_in_def)
qed simp

section \<open>Properties\<close>

text \<open>
  C13. The members of a struct lie one behind the other: each object and each storage unit starts at a
  multiple of its alignment, a bit-field lies inside its storage unit, and a member starts behind
  all bits of the ones before it, whatever the mixture of objects, bit-fields and packing.
\<close>

theorem struct_members_disjoint:
  assumes "rd_record_kind d = PSX_TYPE_STRUCT"
    and "place_members (psx_aggregate_layout_init (Some d)) l rs = Some (Value (ps, s))"
  shows "length ps = length rs \<and>
    (\<forall>k < length ps. 0 \<le> pm_offset (ps ! k) \<and> pm_alignment (ps ! k) dvd pm_offset (ps ! k) \<and>
       pm_offset (ps ! k) * 8 \<le> pm_first_bit (ps ! k) \<and> pm_first_bit (ps ! k) \<le> pm_end_bit (ps ! k) \<and>
       pm_end_bit (ps ! k) \<le> (pm_offset (ps ! k) + pm_size (ps ! k)) * 8) \<and>
    (\<forall>j k. j < k \<and> k < length ps \<longrightarrow> pm_end_bit (ps ! j) \<le> pm_first_bit (ps ! k))"
proof -
  have "is_aggregate_kind (rd_record_kind d)"
    using assms(1) by (simp add: is_aggregate_kind_def)
  note ok = init_ok(1) [OF refl this]
  have kind: "as_record_kind (psx_aggregate_layout_init (Some d)) \<noteq> PSX_TYPE_UNION"
    using assms(1) by (simp add: psx_aggregate_layout_init_def)
  note placed = place_members_ok [OF ok assms(2)]
  have "\<forall>p \<in> set ps. member_ok p" "sorted_wrt (\<lambda>p q. pm_end_bit p \<le> pm_first_bit q) ps"
      "length ps = length rs"
    using placed kind by blast+
  then show ?thesis
    by (auto simp: sorted_wrt_iff_nth_less list_all_length member_ok_def in_set_conv_nth Ball_def)
qed

text \<open>
  The size of a struct or union is a multiple of its alignment, which every member's alignment
  divides, and covers all bits of all members. Objects and the storage units of bit-fields that are
  not packed lie inside the record as a whole, so that a unit can be read and written.
\<close>

theorem members_inside_record:
  assumes "is_aggregate_kind (rd_record_kind d)"
    and "place_members (psx_aggregate_layout_init (Some d)) l rs = Some (Value (ps, s))"
    and "\<forall>r \<in> set rs. regular_request l r" "psx_aggregate_layout_size s = Value n"
  shows "psx_aggregate_layout_alignment s dvd n \<and>
    (\<forall>k < length rs. pm_alignment (ps ! k) dvd psx_aggregate_layout_alignment s \<and>
       pm_end_bit (ps ! k) \<le> n * 8 \<and>
       (unpacked (rs ! k) \<longrightarrow> pm_offset (ps ! k) + pm_size (ps ! k) \<le> n))"
proof -
  note ok = init_ok(1) [OF refl assms(1)]
  note placed = place_members_ok [OF ok assms(2)]
  have "pow2 (as_alignment (psx_aggregate_layout_init (Some d)))"
    by (simp add: psx_aggregate_layout_init_def)
  then have align: "\<forall>p \<in> set ps. pm_alignment p dvd as_alignment s"
    using placed assms(3) by blast
  have members: "length ps = length rs" "\<forall>p \<in> set ps. member_ok p \<and> pm_end_bit p \<le> end_bit s"
    and units: "list_all2 (\<lambda>r p. unpacked r \<longrightarrow> pm_end_bit p = (pm_offset p + pm_size p) * 8 \<or>
       pm_size p = pm_alignment p \<and> pm_first_bit p < pm_end_bit p) rs ps"
    using placed by blast+
  note size = layout_size_covers [OF conjunct1 [OF placed] assms(4)]
  show ?thesis
  proof (intro conjI allI impI)
    show "psx_aggregate_layout_alignment s dvd n"
      using size by simp
    fix k
    assume k: "k < length rs"
    then have p: "ps ! k \<in> set ps"
      using members(1) by simp
    show "pm_alignment (ps ! k) dvd psx_aggregate_layout_alignment s"
      using align p size(3) by simp
    show last: "pm_end_bit (ps ! k) \<le> n * 8"
      using members(2) p size(1) by force
    assume "unpacked (rs ! k)"
    then consider "pm_end_bit (ps ! k) = (pm_offset (ps ! k) + pm_size (ps ! k)) * 8"
      | "pm_size (ps ! k) = pm_alignment (ps ! k)" "pm_first_bit (ps ! k) < pm_end_bit (ps ! k)"
      using units k by (auto simp: list_all2_conv_all_nth)
    then show "pm_offset (ps ! k) + pm_size (ps ! k) \<le> n"
    proof cases
      case 1
      then show ?thesis
        using last by simp
    next
      case 2
      have "pm_offset (ps ! k) < n"
        using 2(2) last members(2) p by (force simp: member_ok_def)
      moreover have "pm_size (ps ! k) dvd pm_offset (ps ! k)"
        using members(2) p 2(1) by (simp add: member_ok_def)
      moreover have "pm_size (ps ! k) dvd n"
        using align p size(2) 2(1) by (metis dvd_trans)
      ultimately show ?thesis
        using dvd_gap by blast
    qed
  qed
qed

text \<open>Members that are no bit-fields, with the values the front end passes.\<close>

definition plain_object :: "aggregate_object_placement_request_t \<Rightarrow> bool" where
  "plain_object r \<longleftrightarrow>
     0 \<le> or_storage_size r \<and> 0 < or_natural_alignment r \<and> 0 \<le> or_pack_alignment r \<and>
     0 \<le> or_requested_alignment r"

lemma object_overflows:
  assumes ok: "aggregate_layout_ok s" and kind: "as_record_kind s = PSX_TYPE_STRUCT" and r: "plain_object r"
  shows "place_member s l (Object r) = Some Undefined \<or>
    (\<exists>s1 p. place_member s l (Object r) = Some (Value (s1, p)) \<and> aggregate_layout_ok s1 \<and>
       as_record_kind s1 = PSX_TYPE_STRUCT \<and> end_bit s + or_storage_size r * 8 \<le> end_bit s1)"
proof -
  have placeable: "is_aggregate_kind (as_record_kind s)" "\<not> or_storage_size r < 0"
      "\<not> or_natural_alignment r \<le> 0" "\<not> or_pack_alignment r < 0" "\<not> or_requested_alignment r < 0"
    using ok r by (auto simp: aggregate_layout_ok_def plain_object_def)
  have "place_member s l (Object r) \<noteq> Some Refused" "\<exists>x. place_member s l (Object r) = Some x"
    using placeable kind
    by (auto simp: place_member_def resolve_aggregate_object_placement_def Let_def align_up_def
        int_checked_def split: if_splits)
  then consider "place_member s l (Object r) = Some Undefined"
    | s1 p where "place_member s l (Object r) = Some (Value (s1, p))"
    by (metis outcome.exhaust prod.exhaust)
  then show ?thesis
  proof cases
    case 2
    obtain q where "p = placed_object r q"
      using 2 by (auto simp: place_member_def split: if_splits elim!: outcome_bind_ValueE)
    then have "pm_end_bit p = pm_first_bit p + or_storage_size r * 8"
      by (simp add: placed_object_def algebra_simps)
    then show ?thesis
      using 2 place_member_ok [OF ok 2] kind by auto
  qed simp
qed

lemma objects_overflow:
  "aggregate_layout_ok s \<Longrightarrow> as_record_kind s = PSX_TYPE_STRUCT \<Longrightarrow> list_all plain_object rs \<Longrightarrow>
     INT_MAX * 8 < end_bit s + sum_list (map or_storage_size rs) * 8 \<Longrightarrow>
     place_members s l (map Object rs) = Some Undefined"
proof (induction rs arbitrary: s)
  case Nil
  then show ?case
    by (auto simp: aggregate_layout_ok_def end_bit_def)
next
  case (Cons r rs)
  have "plain_object r"
    using Cons.prems(3) by simp
  from object_overflows [OF Cons.prems(1,2) this, of l]
  consider "place_member s l (Object r) = Some Undefined"
    | s1 p where "place_member s l (Object r) = Some (Value (s1, p))" "aggregate_layout_ok s1"
      "as_record_kind s1 = PSX_TYPE_STRUCT" "end_bit s + or_storage_size r * 8 \<le> end_bit s1"
    by blast
  then show ?case
  proof cases
    case 2
    then have "place_members s1 l (map Object rs) = Some Undefined"
      using Cons.IH [OF 2(2,3)] Cons.prems(3,4) by simp
    then show ?thesis
      using 2(1) by simp
  qed simp
qed

text \<open>
  C34. No struct grows past the largest \<^verbatim>\<open>int\<close> unnoticed, and none is refused for its size either:
  whatever the alignments and the packing, as soon as the sizes of its members, without bit-fields,
  add up to more than \<^verbatim>\<open>INT_MAX\<close>, some sum of the placement overflows. The code does not
  test for it, so the behaviour of the compiler is undefined and there is no diagnostic.
\<close>

theorem oversized_struct_undefined:
  assumes "rd_record_kind d = PSX_TYPE_STRUCT" "list_all plain_object rs"
    and "INT_MAX < sum_list (map or_storage_size rs)"
  shows "place_members (psx_aggregate_layout_init (Some d)) l (map Object rs) = Some Undefined"
proof -
  have "is_aggregate_kind (rd_record_kind d)"
    using assms(1) by (simp add: is_aggregate_kind_def)
  note init = init_ok [OF refl this]
  show ?thesis
    by (rule objects_overflow [OF init(1)]) (use assms init(2) in \<open>simp_all add: psx_aggregate_layout_init_def\<close>)
qed

section \<open>The layouts the program publishes\<close>

text \<open>
  The record layouts a program builds: each is published with the size and the alignment that the
  placement of some members, from the initial state on, ends with.
\<close>

inductive laid_out_records :: "psx_record_layout_table_t \<Rightarrow> bool" where
  empty: "laid_out_records []"
| publish: "laid_out_records rs \<Longrightarrow> is_aggregate_kind (rd_record_kind d) \<Longrightarrow>
    place_members (psx_aggregate_layout_init (Some d)) l requests = Some (Value (ps, s)) \<Longrightarrow>
    psx_aggregate_layout_size s = Value n \<Longrightarrow>
    psx_record_layout_table_define rs (rd_record_id d) l n (psx_aggregate_layout_alignment s) ms =
      Some rs' \<Longrightarrow> laid_out_records rs'"

lemma define_entries:
  assumes "psx_record_layout_table_define rs i l n a ms = Some rs'" "e \<in> set rs'"
  shows "e \<in> set rs \<or> rl_size e = n \<and> rl_alignment e = a \<and> 0 \<le> n \<and> 0 < a"
  using assms
  by (auto simp: psx_record_layout_table_define_def Let_def split: if_splits option.splits
      dest: subsetD [OF set_update_subset_insert])

text \<open>The size of a published layout is a multiple of its alignment, whatever the packing.\<close>

lemma laid_out_multiple:
  "laid_out_records rs \<Longrightarrow> e \<in> set rs \<Longrightarrow>
     0 \<le> rl_size e \<and> 0 < rl_alignment e \<and> rl_alignment e dvd rl_size e"
proof (induction rule: laid_out_records.induct)
  case (publish rs d l requests ps s n ms rs')
  have "aggregate_layout_ok s"
    using place_members_ok [OF init_ok(1) [OF refl publish.hyps(2)] publish.hyps(3)] by blast
  from layout_size_covers(2,3) [OF this publish.hyps(4)]
  have "psx_aggregate_layout_alignment s dvd n"
    by simp
  then show ?case
    using define_entries [OF publish.hyps(5) publish.prems] publish.IH by auto
qed simp

text \<open>
  C31. Every type of a table the program can build has a layout or is refused, and a layout is one an
  array can repeat: its size is not negative and a multiple of its alignment, which is positive. The
  records are those the placement of their members laid out, with any \<^verbatim>\<open>#pragma pack\<close>, odd values
  included; the scalars are those of a target such as the two of the program. Atomic objects, whose
  size is rounded up, are included when no record has an alignment above the target's largest one
  for atomic objects that is not a power of two.
\<close>

theorem layouts_are_aligned:
  assumes "type_table_reachable t" "regular_data_layout l" "laid_out_records rs"
    and "\<forall>e \<in> set rs. rl_alignment e \<le> ag_data_layout_atomic_max_alignment l \<or> pow2 (rl_alignment e)"
  shows "\<exists>r. psx_qual_type_layout_of t rs q l = Some r \<and>
    (\<forall>out. r = Some out \<longrightarrow> 0 \<le> tl_size out \<and> 0 < tl_alignment out \<and>
       tl_alignment out dvd tl_size out)"
proof (rule layouts_regular [OF assms(1,2)])
  show "regular_records l rs"
    using laid_out_multiple [OF assms(3)] assms(4)
    by (simp add: regular_records_def regular_alignment_def)
qed

text \<open>
  A region between a push and the matching pop leaves the packing and its stack as they were, when
  the regions are nested no deeper than the stack is large.
\<close>

theorem packing_restored:
  assumes "balanced_markers d ms"
    and "length (pragma_pack_stack ctx) + Suc d \<le> PSX_PRAGMA_PACK_STACK_MAX"
  shows "fold consume_pragma_pack_marker (Pack_push a # ms @ [Pack_pop]) ctx = ctx"
proof -
  have push: "pragma_pack_stack (pragma_pack_push_in ctx a) =
      pragma_pack_current ctx # pragma_pack_stack ctx"
    using assms(2) by (simp add: pragma_pack_push_in_def)
  then have "pragma_pack_stack (fold consume_pragma_pack_marker ms (pragma_pack_push_in ctx a)) =
      pragma_pack_current ctx # pragma_pack_stack ctx"
    using balanced_keeps_stack [OF assms(1), of "pragma_pack_push_in ctx a"] assms(2) by simp
  then show ?thesis
    by (simp add: pragma_pack_pop_in_def)
qed

section \<open>Witnesses\<close>

text \<open>\<^verbatim>\<open>struct { char c; int f : 3; int g : 30; long n; }\<close>\<close>

definition mixed_decl :: psx_record_decl_t where
  "mixed_decl = \<lparr>rd_record_id = 1, rd_record_kind = PSX_TYPE_STRUCT, rd_tag_name = None,
     rd_is_anonymous = True, rd_is_complete = False, rd_members = []\<rparr>"

definition mixed_members :: "member_request list" where
  "mixed_members =
    [Object \<lparr>or_storage_size = 1, or_natural_alignment = 1, or_pack_alignment = 0,
       or_requested_alignment = 0\<rparr>,
     Bit_field \<lparr>br_semantic_types = start_table, br_record_layouts = [], br_type_id = 7,
       br_bit_width = 3, br_pack_alignment = 0\<rparr>,
     Bit_field \<lparr>br_semantic_types = start_table, br_record_layouts = [], br_type_id = 7,
       br_bit_width = 30, br_pack_alignment = 0\<rparr>,
     Object \<lparr>or_storage_size = 8, or_natural_alignment = 8, or_pack_alignment = 0,
       or_requested_alignment = 0\<rparr>]"

definition mixed_placed :: "placed_member_t list" where
  "mixed_placed =
    [\<lparr>pm_first_bit = 0, pm_end_bit = 8, pm_offset = 0, pm_size = 1, pm_alignment = 1\<rparr>,
     \<lparr>pm_first_bit = 8, pm_end_bit = 11, pm_offset = 0, pm_size = 4, pm_alignment = 4\<rparr>,
     \<lparr>pm_first_bit = 32, pm_end_bit = 62, pm_offset = 4, pm_size = 4, pm_alignment = 4\<rparr>,
     \<lparr>pm_first_bit = 64, pm_end_bit = 128, pm_offset = 8, pm_size = 8, pm_alignment = 8\<rparr>]"

definition mixed_state :: psx_aggregate_layout_state_t where
  "mixed_state = \<lparr>as_record_kind = PSX_TYPE_STRUCT, as_record_id = 1, as_current_offset = 16,
     as_union_size = 0, as_alignment = 8, as_bitfield_storage_offset = -1,
     as_bitfield_storage_size = 0, as_bitfield_bits_used = 0\<rparr>"

lemma mixed_place:
  "place_members (psx_aggregate_layout_init (Some mixed_decl))
     (Some (target_data_layout ag_target_info_host)) mixed_members =
   Some (Value (mixed_placed, mixed_state))"
  by code_simp

lemma mixed_regular:
  "\<forall>r \<in> set mixed_members. regular_request (Some (target_data_layout ag_target_info_host)) r"
proof -
  have "psx_type_layout_sizeof start_table [] 7 (Some (target_data_layout ag_target_info_host)) = Some 4"
    by code_simp
  moreover have "pow2 4" "pow2 8"
    unfolding pow2_def by (rule exI [of _ 2], simp, rule exI [of _ 3], simp)
  ultimately show ?thesis
    by (simp add: mixed_members_def regular_request_def)
qed

lemma struct_members_disjoint_witness:
  "length mixed_placed = length mixed_members"
proof -
  have "rd_record_kind mixed_decl = PSX_TYPE_STRUCT"
    by code_simp
  from struct_members_disjoint [OF this mixed_place] show ?thesis
    by (rule conjunct1)
qed

lemma members_inside_record_witness:
  "psx_aggregate_layout_alignment mixed_state dvd 16"
proof -
  have "is_aggregate_kind (rd_record_kind mixed_decl)" "psx_aggregate_layout_size mixed_state = Value 16"
    by code_simp+
  from members_inside_record [OF this(1) mixed_place mixed_regular this(2)] show ?thesis
    by (rule conjunct1)
qed

lemma oversized_struct_undefined_witness:
  "place_members (psx_aggregate_layout_init (Some mixed_decl)) None
     (map Object
       [\<lparr>or_storage_size = 1, or_natural_alignment = 1, or_pack_alignment = 0, or_requested_alignment = 16\<rparr>,
        \<lparr>or_storage_size = INT_MAX, or_natural_alignment = 4, or_pack_alignment = 2,
         or_requested_alignment = 0\<rparr>]) = Some Undefined"
  by (rule oversized_struct_undefined) (simp_all add: mixed_decl_def plain_object_def INT_MAX_def)

text \<open>\<^verbatim>\<open>struct { char c; int n; }\<close> packed to 3 has size 9 and alignment 3.\<close>

definition packed_members :: "member_request list" where
  "packed_members =
    [Object \<lparr>or_storage_size = 1, or_natural_alignment = 1, or_pack_alignment = 3,
       or_requested_alignment = 0\<rparr>,
     Object \<lparr>or_storage_size = 4, or_natural_alignment = 4, or_pack_alignment = 3,
       or_requested_alignment = 0\<rparr>]"

definition packed_records :: psx_record_layout_table_t where
  "packed_records =
    [\<lparr>rl_record_id = 1, rl_data_layout = target_data_layout ag_target_info_host, rl_size = 9,
      rl_alignment = 3, rl_members = []\<rparr>]"

lemma packed_laid_out: "laid_out_records packed_records"
proof -
  let ?l = "Some (target_data_layout ag_target_info_host)"
  have valid: "ag_data_layout_is_valid ?l"
    by code_simp
  define s where "s = \<lparr>as_record_kind = PSX_TYPE_STRUCT, as_record_id = 1, as_current_offset = 7,
     as_union_size = 0, as_alignment = 3, as_bitfield_storage_offset = -1,
     as_bitfield_storage_size = 0, as_bitfield_bits_used = 0\<rparr>"
  have "place_members (psx_aggregate_layout_init (Some mixed_decl)) ?l packed_members =
      Some (Value ([\<lparr>pm_first_bit = 0, pm_end_bit = 8, pm_offset = 0, pm_size = 1, pm_alignment = 1\<rparr>,
        \<lparr>pm_first_bit = 24, pm_end_bit = 56, pm_offset = 3, pm_size = 4, pm_alignment = 3\<rparr>], s))"
    unfolding s_def by code_simp
  moreover have "is_aggregate_kind (rd_record_kind mixed_decl)" "psx_aggregate_layout_size s = Value 9"
    unfolding s_def by code_simp+
  moreover have "psx_record_layout_table_define [] (rd_record_id mixed_decl) ?l 9
      (psx_aggregate_layout_alignment s) [] = Some packed_records"
    using valid
    by (simp add: psx_record_layout_table_define_def find_entry_def packed_records_def mixed_decl_def
        psx_aggregate_layout_alignment_def s_def Let_def)
  ultimately show ?thesis
    by (metis laid_out_records.intros)
qed

lemma layouts_are_aligned_witness:
  "\<exists>r. psx_qual_type_layout_of start_table packed_records \<lparr>qt_type_id = 7, qt_qualifiers = 4\<rparr>
     (Some (target_data_layout ag_target_info_host)) = Some r"
proof -
  have "ag_data_layout_atomic_max_alignment (Some (target_data_layout ag_target_info_host)) = 16"
    by code_simp
  then have "rl_alignment e \<le> ag_data_layout_atomic_max_alignment (Some (target_data_layout ag_target_info_host))"
    if "e \<in> set packed_records" for e
    using that by (simp add: packed_records_def)
  then show ?thesis
    using layouts_are_aligned [OF start_table_reachable regular_targets(1) packed_laid_out] by blast
qed

lemma packing_restored_witness:
  "fold consume_pragma_pack_marker (Pack_push 1 # [Pack_set 2] @ [Pack_pop])
     \<lparr>pragma_pack_current = 4, pragma_pack_stack = []\<rparr> =
   \<lparr>pragma_pack_current = 4, pragma_pack_stack = []\<rparr>"
proof -
  have "balanced_markers 0 [Pack_set 2]"
    by (intro balanced_markers.intros)
  then show ?thesis
    by (rule packing_restored) (simp add: PSX_PRAGMA_PACK_STACK_MAX_def)
qed

text \<open>
  A packed bit-field need not fit: \<^verbatim>\<open>struct { int f : 3; }\<close> packed to 1 has size 1, while its
  storage unit, which is read as a whole, has four bytes.
\<close>

lemma packed_unit_outside_record:
  "\<exists>s. place_members (psx_aggregate_layout_init (Some mixed_decl))
       (Some (target_data_layout ag_target_info_host))
       [Bit_field \<lparr>br_semantic_types = start_table, br_record_layouts = [], br_type_id = 7,
          br_bit_width = 3, br_pack_alignment = 1\<rparr>] =
     Some (Value ([\<lparr>pm_first_bit = 0, pm_end_bit = 3, pm_offset = 0, pm_size = 4, pm_alignment = 1\<rparr>], s)) \<and>
     psx_aggregate_layout_size s = Value 1"
proof (intro exI conjI)
  show "place_members (psx_aggregate_layout_init (Some mixed_decl))
       (Some (target_data_layout ag_target_info_host))
       [Bit_field \<lparr>br_semantic_types = start_table, br_record_layouts = [], br_type_id = 7,
          br_bit_width = 3, br_pack_alignment = 1\<rparr>] =
     Some (Value ([\<lparr>pm_first_bit = 0, pm_end_bit = 3, pm_offset = 0, pm_size = 4, pm_alignment = 1\<rparr>],
       \<lparr>as_record_kind = PSX_TYPE_STRUCT, as_record_id = 1, as_current_offset = 4, as_union_size = 0,
        as_alignment = 1, as_bitfield_storage_offset = 0, as_bitfield_storage_size = 4,
        as_bitfield_bits_used = 3\<rparr>))"
    by code_simp
  show "psx_aggregate_layout_size
       \<lparr>as_record_kind = PSX_TYPE_STRUCT, as_record_id = 1, as_current_offset = 4, as_union_size = 0,
        as_alignment = 1, as_bitfield_storage_offset = 0, as_bitfield_storage_size = 4,
        as_bitfield_bits_used = 3\<rparr> = Value 1"
    by code_simp
qed

end
