(* ===== verification/ScopeGraph.thy ===== *)
theory ScopeGraph
  imports IntegerConversion "HOL-Library.Sublist"
begin

text \<open>
  Scopes, declarations and name lookup: \<^verbatim>\<open>src/semantic/scope_graph.c\<close>. The arrays of scopes and
  declarations are lists whose lengths are the counts; scope ids are positions in the first,
  declaration ids positions plus one in the second. A name with its length is an optional list of
  characters, \<open>None\<close> for NULL; a payload is an address. The walks along the parents are
  \<open>partial_function (option)\<close>: \<open>None\<close> is a walk that does not return. Graphs are not NULL and
  allocation does not fail. A rollback takes a graph that has grown since the checkpoint, so that
  the counts of the checkpoint are no larger than its own.
\<close>

section \<open>Data\<close>

type_synonym psx_scope_id_t = nat

abbreviation (input) PSX_SCOPE_ID_TRANSLATION_UNIT :: psx_scope_id_t where
  "PSX_SCOPE_ID_TRANSLATION_UNIT \<equiv> 0"

definition PSX_SCOPE_ID_INVALID :: psx_scope_id_t where
  "PSX_SCOPE_ID_INVALID = 4294967295"

datatype psx_scope_kind_t =
    PSX_SCOPE_TRANSLATION_UNIT
  | PSX_SCOPE_FUNCTION
  | PSX_SCOPE_FUNCTION_PROTOTYPE
  | PSX_SCOPE_BLOCK
  | PSX_SCOPE_RECORD

datatype psx_c_namespace_t =
    PSX_NAMESPACE_ORDINARY
  | PSX_NAMESPACE_TAG
  | PSX_NAMESPACE_LABEL
  | PSX_NAMESPACE_MEMBER
  | PSX_NAMESPACE_COUNT

datatype psx_scope_decl_kind_t =
    PSX_DECL_UNKNOWN
  | PSX_DECL_LOCAL_OBJECT
  | PSX_DECL_PARAMETER
  | PSX_DECL_GLOBAL_OBJECT
  | PSX_DECL_FUNCTION
  | PSX_DECL_LINKAGE_ALIAS
  | PSX_DECL_TYPEDEF
  | PSX_DECL_ENUM_CONSTANT
  | PSX_DECL_TAG
  | PSX_DECL_LABEL
  | PSX_DECL_MEMBER

record psx_scope_lookup_point_t =
  lp_scope_id :: psx_scope_id_t
  lp_declaration_order :: u32

record psx_scope_declaration_t =
  sd_id :: psx_decl_id_t
  sd_scope_id :: psx_scope_id_t
  sd_name_space :: psx_c_namespace_t
  sd_kind :: psx_scope_decl_kind_t
  sd_name :: "string option"
  sd_declaration_order :: u32
  sd_payload :: nat
  sd_aliased_declaration_id :: psx_decl_id_t
  sd_source_name :: "string option"
  sd_source_input :: "string option"
  sd_source_byte_offset :: int
  sd_source_byte_length :: int
  sd_hidden_from_lookup :: bool

record psx_scope_node_t =
  sn_id :: psx_scope_id_t
  sn_parent_id :: psx_scope_id_t
  sn_order_root_id :: psx_scope_id_t
  sn_kind :: psx_scope_kind_t
  sn_next_declaration_order :: u32

record psx_scope_graph_t =
  sg_scopes :: "psx_scope_node_t list"
  sg_declarations :: "psx_scope_declaration_t list"
  sg_current_scope :: psx_scope_id_t

record psx_scope_graph_checkpoint_t =
  cp_scope_count :: nat
  cp_declaration_count :: nat
  cp_current_scope :: psx_scope_id_t
  cp_declaration_orders :: "u32 list"
  cp_declaration_lookup_hidden :: "bool list"
  cp_active :: bool

section \<open>Scopes\<close>

definition psx_scope_graph_reset :: "psx_scope_graph_t \<Rightarrow> psx_scope_graph_t" where
  "psx_scope_graph_reset graph =
     \<lparr>sg_scopes =
        [\<lparr>sn_id = PSX_SCOPE_ID_TRANSLATION_UNIT, sn_parent_id = PSX_SCOPE_ID_INVALID,
          sn_order_root_id = PSX_SCOPE_ID_TRANSLATION_UNIT, sn_kind = PSX_SCOPE_TRANSLATION_UNIT,
          sn_next_declaration_order = 0\<rparr>],
      sg_declarations = [], sg_current_scope = PSX_SCOPE_ID_TRANSLATION_UNIT\<rparr>"

definition psx_scope_graph_create :: psx_scope_graph_t where
  "psx_scope_graph_create =
     psx_scope_graph_reset \<lparr>sg_scopes = [], sg_declarations = [], sg_current_scope = 0\<rparr>"

definition psx_scope_graph_current_scope :: "psx_scope_graph_t \<Rightarrow> psx_scope_id_t" where
  "psx_scope_graph_current_scope graph = sg_current_scope graph"

definition psx_scope_graph_next_scope_id :: "psx_scope_graph_t \<Rightarrow> psx_scope_id_t" where
  "psx_scope_graph_next_scope_id graph = length (sg_scopes graph)"

definition psx_scope_graph_scope_kind ::
  "psx_scope_graph_t \<Rightarrow> psx_scope_id_t \<Rightarrow> psx_scope_kind_t" where
  "psx_scope_graph_scope_kind graph scope_id =
    (if scope_id < length (sg_scopes graph) then sn_kind (sg_scopes graph ! scope_id)
     else PSX_SCOPE_TRANSLATION_UNIT)"

partial_function (option) scope_depth_loop ::
  "psx_scope_graph_t \<Rightarrow> psx_scope_id_t \<Rightarrow> int \<Rightarrow> int option" where
  "scope_depth_loop graph scope_id depth =
    (if scope_id = PSX_SCOPE_ID_TRANSLATION_UNIT then Some depth
     else let parent = sn_parent_id (sg_scopes graph ! scope_id)
          in if parent = PSX_SCOPE_ID_INVALID \<or> parent \<ge> length (sg_scopes graph) then Some (-1)
             else scope_depth_loop graph parent (depth + 1))"

definition psx_scope_graph_scope_depth :: "psx_scope_graph_t \<Rightarrow> psx_scope_id_t \<Rightarrow> int option" where
  "psx_scope_graph_scope_depth graph scope_id =
    (if scope_id \<ge> length (sg_scopes graph) then Some (-1) else scope_depth_loop graph scope_id 0)"

definition psx_scope_graph_create_scope_at ::
  "psx_scope_graph_t \<Rightarrow> psx_scope_id_t \<Rightarrow> psx_scope_kind_t \<Rightarrow> psx_scope_id_t \<times> psx_scope_graph_t" where
  "psx_scope_graph_create_scope_at graph parent_scope kind =
    (if length (sg_scopes graph) \<ge> PSX_SCOPE_ID_INVALID \<or> parent_scope \<ge> length (sg_scopes graph)
     then (PSX_SCOPE_ID_INVALID, graph)
     else let new_id = length (sg_scopes graph);
              order_root = (if kind = PSX_SCOPE_FUNCTION \<or> kind = PSX_SCOPE_FUNCTION_PROTOTYPE \<or>
                               kind = PSX_SCOPE_RECORD
                            then new_id else sn_order_root_id (sg_scopes graph ! parent_scope))
          in (new_id, graph\<lparr>sg_scopes := sg_scopes graph @
                [\<lparr>sn_id = new_id, sn_parent_id = parent_scope, sn_order_root_id = order_root,
                  sn_kind = kind, sn_next_declaration_order = 0\<rparr>]\<rparr>))"

definition psx_scope_graph_enter_scope ::
  "psx_scope_graph_t \<Rightarrow> psx_scope_kind_t \<Rightarrow> psx_scope_id_t \<times> psx_scope_graph_t" where
  "psx_scope_graph_enter_scope graph kind =
    (let (new_id, created) = psx_scope_graph_create_scope_at graph (sg_current_scope graph) kind
     in if new_id = PSX_SCOPE_ID_INVALID then (new_id, created)
        else (new_id, created\<lparr>sg_current_scope := new_id\<rparr>))"

definition psx_scope_graph_leave_scope :: "psx_scope_graph_t \<Rightarrow> psx_scope_graph_t option" where
  "psx_scope_graph_leave_scope graph =
    (if sg_current_scope graph = PSX_SCOPE_ID_TRANSLATION_UNIT \<or>
        sg_current_scope graph \<ge> length (sg_scopes graph)
     then None
     else Some (graph\<lparr>sg_current_scope := sn_parent_id (sg_scopes graph ! sg_current_scope graph)\<rparr>))"

partial_function (option) visible_from_loop ::
  "psx_scope_graph_t \<Rightarrow> psx_scope_id_t \<Rightarrow> psx_scope_id_t \<Rightarrow> bool option" where
  "visible_from_loop graph declaration_scope reference_scope =
    (if reference_scope = declaration_scope then Some True
     else if reference_scope = PSX_SCOPE_ID_TRANSLATION_UNIT then Some False
     else let parent = sn_parent_id (sg_scopes graph ! reference_scope)
          in if parent = PSX_SCOPE_ID_INVALID then Some False
             else visible_from_loop graph declaration_scope parent)"

definition psx_scope_graph_scope_is_visible_from ::
  "psx_scope_graph_t \<Rightarrow> psx_scope_id_t \<Rightarrow> psx_scope_id_t \<Rightarrow> bool option" where
  "psx_scope_graph_scope_is_visible_from graph declaration_scope reference_scope =
    (if declaration_scope \<ge> length (sg_scopes graph) \<or> reference_scope \<ge> length (sg_scopes graph)
     then Some False
     else visible_from_loop graph declaration_scope reference_scope)"

partial_function (option) nearest_scope_loop ::
  "psx_scope_graph_t \<Rightarrow> psx_scope_id_t \<Rightarrow> psx_scope_kind_t \<Rightarrow> psx_scope_id_t option" where
  "nearest_scope_loop graph scope_id kind =
    (if sn_kind (sg_scopes graph ! scope_id) = kind then Some scope_id
     else let parent = sn_parent_id (sg_scopes graph ! scope_id)
          in if parent = PSX_SCOPE_ID_INVALID then Some PSX_SCOPE_ID_INVALID
             else nearest_scope_loop graph parent kind)"

definition psx_scope_graph_nearest_scope_of_kind ::
  "psx_scope_graph_t \<Rightarrow> psx_scope_id_t \<Rightarrow> psx_scope_kind_t \<Rightarrow> psx_scope_id_t option" where
  "psx_scope_graph_nearest_scope_of_kind graph scope_id kind =
    (if scope_id \<ge> length (sg_scopes graph) then Some PSX_SCOPE_ID_INVALID
     else nearest_scope_loop graph scope_id kind)"

section \<open>Declaration order\<close>

definition order_root_of :: "psx_scope_graph_t \<Rightarrow> psx_scope_id_t \<Rightarrow> psx_scope_id_t" where
  "order_root_of graph scope_id = sn_order_root_id (sg_scopes graph ! scope_id)"

definition next_order_of :: "psx_scope_graph_t \<Rightarrow> psx_scope_id_t \<Rightarrow> u32" where
  "next_order_of graph scope_id =
     sn_next_declaration_order (sg_scopes graph ! order_root_of graph scope_id)"

text \<open>The counter is an unsigned integer of 32 bits, which wraps around.\<close>

definition reserve_declaration_order_at ::
  "psx_scope_graph_t \<Rightarrow> psx_scope_id_t \<Rightarrow> u32 \<times> psx_scope_graph_t" where
  "reserve_declaration_order_at graph scope_id =
    (let root = order_root_of graph scope_id; order = next_order_of graph scope_id + 1
     in (order, graph\<lparr>sg_scopes := (sg_scopes graph)
           [root := (sg_scopes graph ! root)\<lparr>sn_next_declaration_order := order\<rparr>]\<rparr>))"

definition psx_scope_graph_reserve_declaration_order ::
  "psx_scope_graph_t \<Rightarrow> u32 \<times> psx_scope_graph_t" where
  "psx_scope_graph_reserve_declaration_order graph =
    (if sg_current_scope graph \<ge> length (sg_scopes graph) then (0, graph)
     else reserve_declaration_order_at graph (sg_current_scope graph))"

definition psx_scope_graph_capture_lookup_point ::
  "psx_scope_graph_t \<Rightarrow> psx_scope_lookup_point_t" where
  "psx_scope_graph_capture_lookup_point graph =
     \<lparr>lp_scope_id = sg_current_scope graph,
      lp_declaration_order = next_order_of graph (sg_current_scope graph)\<rparr>"

section \<open>Declarations\<close>

definition declare_at ::
  "psx_scope_graph_t \<Rightarrow> psx_scope_id_t \<Rightarrow> psx_c_namespace_t \<Rightarrow> psx_scope_decl_kind_t \<Rightarrow>
   string option \<Rightarrow> nat \<Rightarrow> bool \<Rightarrow> psx_decl_id_t \<times> psx_scope_graph_t" where
  "declare_at graph scope_id name_space kind name payload advances_source_order =
    (let is_unnamed_member = name_space = PSX_NAMESPACE_MEMBER \<and> kind = PSX_DECL_MEMBER \<and> name = None;
         is_invalid_member_scope = name_space = PSX_NAMESPACE_MEMBER \<and>
           (kind \<noteq> PSX_DECL_MEMBER \<or> scope_id \<ge> length (sg_scopes graph) \<or>
            sn_kind (sg_scopes graph ! scope_id) \<noteq> PSX_SCOPE_RECORD)
     in if scope_id \<ge> length (sg_scopes graph) \<or> name_space = PSX_NAMESPACE_COUNT \<or>
           is_invalid_member_scope \<or> \<not> is_unnamed_member \<and> (name = None \<or> name = Some []) \<or>
           int (length (sg_declarations graph)) \<ge> UINT_MAX - 1
        then (PSX_DECL_ID_INVALID, graph)
        else let new_id = length (sg_declarations graph) + 1;
                 (order, ordered) =
                   (if advances_source_order then reserve_declaration_order_at graph scope_id
                    else (next_order_of graph scope_id, graph))
             in (new_id, ordered\<lparr>sg_declarations := sg_declarations graph @
                   [\<lparr>sd_id = new_id, sd_scope_id = scope_id, sd_name_space = name_space, sd_kind = kind,
                     sd_name = name, sd_declaration_order = order, sd_payload = payload,
                     sd_aliased_declaration_id = PSX_DECL_ID_INVALID, sd_source_name = None,
                     sd_source_input = None, sd_source_byte_offset = 0, sd_source_byte_length = 0,
                     sd_hidden_from_lookup = False\<rparr>]\<rparr>))"

definition psx_scope_graph_declare_at ::
  "psx_scope_graph_t \<Rightarrow> psx_scope_id_t \<Rightarrow> psx_c_namespace_t \<Rightarrow> psx_scope_decl_kind_t \<Rightarrow>
   string option \<Rightarrow> nat \<Rightarrow> psx_decl_id_t \<times> psx_scope_graph_t" where
  "psx_scope_graph_declare_at graph scope_id name_space kind name payload =
     declare_at graph scope_id name_space kind name payload True"

definition psx_scope_graph_declare_synthetic_at ::
  "psx_scope_graph_t \<Rightarrow> psx_scope_id_t \<Rightarrow> psx_c_namespace_t \<Rightarrow> psx_scope_decl_kind_t \<Rightarrow>
   string option \<Rightarrow> nat \<Rightarrow> psx_decl_id_t \<times> psx_scope_graph_t" where
  "psx_scope_graph_declare_synthetic_at graph scope_id name_space kind name payload =
     declare_at graph scope_id name_space kind name payload False"

definition psx_scope_graph_declaration ::
  "psx_scope_graph_t \<Rightarrow> psx_decl_id_t \<Rightarrow> psx_scope_declaration_t option" where
  "psx_scope_graph_declaration graph declaration_id =
    (if declaration_id = PSX_DECL_ID_INVALID \<or> declaration_id > length (sg_declarations graph) then None
     else let declaration = sg_declarations graph ! (declaration_id - 1)
          in if sd_kind declaration \<noteq> PSX_DECL_UNKNOWN then Some declaration else None)"

definition psx_scope_graph_declare_linkage_alias_at ::
  "psx_scope_graph_t \<Rightarrow> psx_scope_id_t \<Rightarrow> string \<Rightarrow> psx_decl_id_t \<Rightarrow>
   psx_decl_id_t \<times> psx_scope_graph_t" where
  "psx_scope_graph_declare_linkage_alias_at graph scope_id name aliased_declaration_id =
    (case psx_scope_graph_declaration graph aliased_declaration_id of
       None \<Rightarrow> (PSX_DECL_ID_INVALID, graph)
     | Some target \<Rightarrow>
         if sd_scope_id target \<noteq> PSX_SCOPE_ID_TRANSLATION_UNIT \<or>
            sd_name_space target \<noteq> PSX_NAMESPACE_ORDINARY \<or>
            (sd_kind target \<noteq> PSX_DECL_GLOBAL_OBJECT \<and> sd_kind target \<noteq> PSX_DECL_FUNCTION) \<or>
            sd_name target \<noteq> Some name
         then (PSX_DECL_ID_INVALID, graph)
         else let (alias_id, declared) =
                    declare_at graph scope_id PSX_NAMESPACE_ORDINARY PSX_DECL_LINKAGE_ALIAS
                      (Some name) 0 True
              in if alias_id = PSX_DECL_ID_INVALID then (alias_id, declared)
                 else (alias_id, declared\<lparr>sg_declarations := (sg_declarations declared)
                        [alias_id - 1 := (sg_declarations declared ! (alias_id - 1))
                           \<lparr>sd_aliased_declaration_id := aliased_declaration_id\<rparr>]\<rparr>))"

definition psx_scope_graph_declare ::
  "psx_scope_graph_t \<Rightarrow> psx_c_namespace_t \<Rightarrow> psx_scope_decl_kind_t \<Rightarrow> string option \<Rightarrow> nat \<Rightarrow>
   psx_decl_id_t \<times> psx_scope_graph_t" where
  "psx_scope_graph_declare graph name_space kind name payload =
     psx_scope_graph_declare_at graph (sg_current_scope graph) name_space kind name payload"

definition psx_scope_graph_declaration_count :: "psx_scope_graph_t \<Rightarrow> nat" where
  "psx_scope_graph_declaration_count graph = length (sg_declarations graph)"

definition psx_scope_graph_declaration_at ::
  "psx_scope_graph_t \<Rightarrow> nat \<Rightarrow> psx_scope_declaration_t option" where
  "psx_scope_graph_declaration_at graph index =
    (if index \<ge> length (sg_declarations graph) then None
     else let declaration = sg_declarations graph ! index
          in if sd_kind declaration \<noteq> PSX_DECL_UNKNOWN then Some declaration else None)"

text \<open>A declaration is changed in place, unless the id is not one.\<close>

definition change_declaration ::
  "psx_scope_graph_t \<Rightarrow> psx_decl_id_t \<Rightarrow> (psx_scope_declaration_t \<Rightarrow> psx_scope_declaration_t) \<Rightarrow>
   psx_scope_graph_t" where
  "change_declaration graph declaration_id change =
     graph\<lparr>sg_declarations := (sg_declarations graph)
       [declaration_id - 1 := change (sg_declarations graph ! (declaration_id - 1))]\<rparr>"

definition psx_scope_graph_forget_declaration ::
  "psx_scope_graph_t \<Rightarrow> psx_decl_id_t \<Rightarrow> psx_scope_graph_t" where
  "psx_scope_graph_forget_declaration graph declaration_id =
    (if declaration_id = PSX_DECL_ID_INVALID \<or> declaration_id > length (sg_declarations graph) then graph
     else change_declaration graph declaration_id (\<lambda>declaration.
       declaration\<lparr>sd_kind := PSX_DECL_UNKNOWN, sd_name := None, sd_payload := 0,
         sd_aliased_declaration_id := PSX_DECL_ID_INVALID, sd_source_name := None,
         sd_source_input := None\<rparr>))"

definition psx_scope_graph_note_declaration_source ::
  "psx_scope_graph_t \<Rightarrow> psx_decl_id_t \<Rightarrow> string option \<Rightarrow> string option \<Rightarrow> int \<Rightarrow> int \<Rightarrow>
   psx_scope_graph_t option" where
  "psx_scope_graph_note_declaration_source graph declaration_id source_name source_input byte_offset
     byte_length =
    (if declaration_id = PSX_DECL_ID_INVALID \<or> declaration_id > length (sg_declarations graph) \<or>
        source_name = None \<or> source_input = None \<or> byte_offset < 0 \<or> byte_length < 0
     then None
     else if sd_kind (sg_declarations graph ! (declaration_id - 1)) = PSX_DECL_UNKNOWN then None
     else Some (change_declaration graph declaration_id (\<lambda>declaration.
       declaration\<lparr>sd_source_name := source_name, sd_source_input := source_input,
         sd_source_byte_offset := byte_offset, sd_source_byte_length := byte_length\<rparr>)))"

definition psx_scope_graph_set_declaration_hidden_from_lookup ::
  "psx_scope_graph_t \<Rightarrow> psx_decl_id_t \<Rightarrow> bool \<Rightarrow> psx_scope_graph_t option" where
  "psx_scope_graph_set_declaration_hidden_from_lookup graph declaration_id hidden =
    (if declaration_id = PSX_DECL_ID_INVALID \<or> declaration_id > length (sg_declarations graph) then None
     else if sd_kind (sg_declarations graph ! (declaration_id - 1)) = PSX_DECL_UNKNOWN then None
     else Some (change_declaration graph declaration_id (\<lambda>declaration.
       declaration\<lparr>sd_hidden_from_lookup := hidden\<rparr>)))"

definition psx_scope_graph_rehome_declaration_at ::
  "psx_scope_graph_t \<Rightarrow> psx_decl_id_t \<Rightarrow> psx_scope_id_t \<Rightarrow> psx_scope_graph_t option" where
  "psx_scope_graph_rehome_declaration_at graph declaration_id scope_id =
    (if declaration_id = PSX_DECL_ID_INVALID \<or> declaration_id > length (sg_declarations graph) \<or>
        scope_id \<ge> length (sg_scopes graph)
     then None
     else if sd_kind (sg_declarations graph ! (declaration_id - 1)) = PSX_DECL_UNKNOWN then None
     else Some (change_declaration graph declaration_id (\<lambda>declaration.
       declaration\<lparr>sd_scope_id := scope_id,
         sd_declaration_order := next_order_of graph scope_id\<rparr>)))"

section \<open>Lookup\<close>

definition declaration_name_matches ::
  "psx_scope_declaration_t \<Rightarrow> psx_c_namespace_t \<Rightarrow> string \<Rightarrow> bool" where
  "declaration_name_matches declaration name_space name \<longleftrightarrow>
     sd_kind declaration \<noteq> PSX_DECL_UNKNOWN \<and> sd_name_space declaration = name_space \<and>
     sd_name declaration = Some name"

text \<open>The test of the inner loop: a declaration it does not skip.\<close>

definition found_in_scope ::
  "psx_scope_graph_t \<Rightarrow> psx_c_namespace_t \<Rightarrow> string \<Rightarrow> psx_scope_lookup_point_t \<Rightarrow> psx_scope_id_t \<Rightarrow>
   psx_scope_declaration_t \<Rightarrow> bool" where
  "found_in_scope graph name_space name point scope_id declaration \<longleftrightarrow>
     sd_scope_id declaration = scope_id \<and> \<not> sd_hidden_from_lookup declaration \<and>
     declaration_name_matches declaration name_space name \<and>
     \<not> (name_space \<noteq> PSX_NAMESPACE_LABEL \<and>
        order_root_of graph scope_id = order_root_of graph (lp_scope_id point) \<and>
        sd_declaration_order declaration > lp_declaration_order point) \<and>
     (sd_kind declaration = PSX_DECL_LINKAGE_ALIAS \<longrightarrow>
        psx_scope_graph_declaration graph (sd_aliased_declaration_id declaration) \<noteq> None)"

definition resolved_declaration_id :: "psx_scope_graph_t \<Rightarrow> psx_scope_declaration_t \<Rightarrow> psx_decl_id_t" where
  "resolved_declaration_id graph declaration =
    (if sd_kind declaration = PSX_DECL_LINKAGE_ALIAS
     then case psx_scope_graph_declaration graph (sd_aliased_declaration_id declaration) of
            Some target \<Rightarrow> sd_id target
          | None \<Rightarrow> PSX_DECL_ID_INVALID
     else sd_id declaration)"

partial_function (option) lookup_loop ::
  "psx_scope_graph_t \<Rightarrow> psx_c_namespace_t \<Rightarrow> string \<Rightarrow> psx_scope_lookup_point_t \<Rightarrow> psx_scope_id_t \<Rightarrow>
   psx_decl_id_t option" where
  "lookup_loop graph name_space name point scope_id =
    (case find (found_in_scope graph name_space name point scope_id) (rev (sg_declarations graph)) of
       Some declaration \<Rightarrow> Some (resolved_declaration_id graph declaration)
     | None \<Rightarrow>
         if scope_id = PSX_SCOPE_ID_TRANSLATION_UNIT then Some PSX_DECL_ID_INVALID
         else let parent = sn_parent_id (sg_scopes graph ! scope_id)
              in if parent = PSX_SCOPE_ID_INVALID \<or> parent \<ge> length (sg_scopes graph)
                 then Some PSX_DECL_ID_INVALID
                 else lookup_loop graph name_space name point parent)"

definition psx_scope_graph_lookup ::
  "psx_scope_graph_t \<Rightarrow> psx_c_namespace_t \<Rightarrow> string option \<Rightarrow> psx_scope_lookup_point_t \<Rightarrow>
   psx_decl_id_t option" where
  "psx_scope_graph_lookup graph name_space name point =
    (case name of
       None \<Rightarrow> Some PSX_DECL_ID_INVALID
     | Some n \<Rightarrow>
         if n = [] \<or> lp_scope_id point \<ge> length (sg_scopes graph) then Some PSX_DECL_ID_INVALID
         else lookup_loop graph name_space n point (lp_scope_id point))"

definition psx_scope_graph_lookup_in_scope ::
  "psx_scope_graph_t \<Rightarrow> psx_scope_id_t \<Rightarrow> psx_c_namespace_t \<Rightarrow> string option \<Rightarrow> psx_decl_id_t" where
  "psx_scope_graph_lookup_in_scope graph scope_id name_space name =
    (case name of
       None \<Rightarrow> PSX_DECL_ID_INVALID
     | Some n \<Rightarrow>
         if scope_id \<ge> length (sg_scopes graph) \<or> n = [] then PSX_DECL_ID_INVALID
         else case find (\<lambda>declaration. sd_scope_id declaration = scope_id \<and>
                       declaration_name_matches declaration name_space n)
                     (rev (sg_declarations graph)) of
                Some declaration \<Rightarrow> sd_id declaration
              | None \<Rightarrow> PSX_DECL_ID_INVALID)"

definition psx_scope_graph_lookup_declaration_in_scope ::
  "psx_scope_graph_t \<Rightarrow> psx_scope_id_t \<Rightarrow> psx_c_namespace_t \<Rightarrow> string option \<Rightarrow>
   psx_scope_declaration_t option" where
  "psx_scope_graph_lookup_declaration_in_scope graph scope_id name_space name =
     psx_scope_graph_declaration graph (psx_scope_graph_lookup_in_scope graph scope_id name_space name)"

definition psx_scope_graph_lookup_different_kind_declaration_in_scope ::
  "psx_scope_graph_t \<Rightarrow> psx_scope_id_t \<Rightarrow> psx_c_namespace_t \<Rightarrow> psx_scope_decl_kind_t \<Rightarrow>
   string option \<Rightarrow> psx_scope_declaration_t option" where
  "psx_scope_graph_lookup_different_kind_declaration_in_scope graph scope_id name_space expected_kind
     name =
    (case name of
       None \<Rightarrow> None
     | Some n \<Rightarrow>
         if scope_id \<ge> length (sg_scopes graph) \<or> n = [] then None
         else find (\<lambda>declaration. sd_scope_id declaration = scope_id \<and>
                     sd_kind declaration \<noteq> expected_kind \<and>
                     declaration_name_matches declaration name_space n)
                (rev (sg_declarations graph)))"

section \<open>Checkpoints\<close>

definition empty_checkpoint :: psx_scope_graph_checkpoint_t where
  "empty_checkpoint =
     \<lparr>cp_scope_count = 0, cp_declaration_count = 0, cp_current_scope = 0, cp_declaration_orders = [],
      cp_declaration_lookup_hidden = [], cp_active = False\<rparr>"

definition psx_scope_graph_checkpoint_begin ::
  "psx_scope_graph_t \<Rightarrow> psx_scope_graph_checkpoint_t \<Rightarrow> psx_scope_graph_checkpoint_t option" where
  "psx_scope_graph_checkpoint_begin graph checkpoint =
    (if cp_active checkpoint then None
     else Some \<lparr>cp_scope_count = length (sg_scopes graph),
            cp_declaration_count = length (sg_declarations graph),
            cp_current_scope = sg_current_scope graph,
            cp_declaration_orders = map sn_next_declaration_order (sg_scopes graph),
            cp_declaration_lookup_hidden = map sd_hidden_from_lookup (sg_declarations graph),
            cp_active = True\<rparr>)"

definition psx_scope_graph_checkpoint_commit ::
  "psx_scope_graph_checkpoint_t \<Rightarrow> psx_scope_graph_checkpoint_t" where
  "psx_scope_graph_checkpoint_commit checkpoint = empty_checkpoint"

text \<open>Both restoring loops: the saved values go back into the elements they were taken from.\<close>

definition restore_prefix :: "('a \<Rightarrow> 'b \<Rightarrow> 'a) \<Rightarrow> 'a list \<Rightarrow> 'b list \<Rightarrow> 'a list" where
  "restore_prefix put xs saved = map2 put xs saved @ drop (length saved) xs"

definition psx_scope_graph_checkpoint_rollback ::
  "psx_scope_graph_t \<Rightarrow> psx_scope_graph_checkpoint_t \<Rightarrow>
   psx_scope_graph_t \<times> psx_scope_graph_checkpoint_t" where
  "psx_scope_graph_checkpoint_rollback graph checkpoint =
    (if \<not> cp_active checkpoint then (graph, checkpoint)
     else (\<lparr>sg_scopes = restore_prefix (\<lambda>node order. node\<lparr>sn_next_declaration_order := order\<rparr>)
               (take (cp_scope_count checkpoint) (sg_scopes graph)) (cp_declaration_orders checkpoint),
            sg_declarations =
              restore_prefix (\<lambda>declaration hidden. declaration\<lparr>sd_hidden_from_lookup := hidden\<rparr>)
                (take (cp_declaration_count checkpoint) (sg_declarations graph))
                (cp_declaration_lookup_hidden checkpoint),
            sg_current_scope = cp_current_scope checkpoint\<rparr>,
           empty_checkpoint))"

declare scope_depth_loop.simps [code] visible_from_loop.simps [code] nearest_scope_loop.simps [code]
  lookup_loop.simps [code]

section \<open>Operations\<close>

text \<open>What a client can do to a graph, apart from checkpoints.\<close>

datatype scope_op =
    Create_scope psx_scope_id_t psx_scope_kind_t
  | Enter_scope psx_scope_kind_t
  | Leave_scope
  | Reserve_order
  | Declare psx_scope_id_t psx_c_namespace_t psx_scope_decl_kind_t "string option" nat bool
  | Declare_alias psx_scope_id_t string psx_decl_id_t
  | Hide psx_decl_id_t bool
  | Forget psx_decl_id_t
  | Note_source psx_decl_id_t "string option" "string option" int int
  | Rehome psx_decl_id_t psx_scope_id_t

definition or_same :: "'a \<Rightarrow> 'a option \<Rightarrow> 'a" where
  "or_same x y = (case y of Some z \<Rightarrow> z | None \<Rightarrow> x)"

lemma or_same_simps [simp]: "or_same x None = x" "or_same x (Some z) = z"
  by (simp_all add: or_same_def)

primrec apply_scope_op :: "scope_op \<Rightarrow> psx_scope_graph_t \<Rightarrow> psx_scope_graph_t" where
  "apply_scope_op (Create_scope p k) g = snd (psx_scope_graph_create_scope_at g p k)"
| "apply_scope_op (Enter_scope k) g = snd (psx_scope_graph_enter_scope g k)"
| "apply_scope_op Leave_scope g = or_same g (psx_scope_graph_leave_scope g)"
| "apply_scope_op Reserve_order g = snd (psx_scope_graph_reserve_declaration_order g)"
| "apply_scope_op (Declare s ns k n p advances) g =
     snd (if advances then psx_scope_graph_declare_at g s ns k n p
          else psx_scope_graph_declare_synthetic_at g s ns k n p)"
| "apply_scope_op (Declare_alias s n a) g = snd (psx_scope_graph_declare_linkage_alias_at g s n a)"
| "apply_scope_op (Hide d h) g = or_same g (psx_scope_graph_set_declaration_hidden_from_lookup g d h)"
| "apply_scope_op (Forget d) g = psx_scope_graph_forget_declaration g d"
| "apply_scope_op (Note_source d n i off len) g =
     or_same g (psx_scope_graph_note_declaration_source g d n i off len)"
| "apply_scope_op (Rehome d s) g = or_same g (psx_scope_graph_rehome_declaration_at g d s)"

inductive scope_graph_reachable :: "psx_scope_graph_t \<Rightarrow> bool" where
  create: "scope_graph_reachable psx_scope_graph_create"
| op: "scope_graph_reachable g \<Longrightarrow> scope_graph_reachable (apply_scope_op c g)"

section \<open>Well-formed graphs\<close>

definition scope_node_ok :: "psx_scope_node_t list \<Rightarrow> nat \<Rightarrow> bool" where
  "scope_node_ok xs i \<longleftrightarrow>
     sn_id (xs ! i) = i \<and> sn_order_root_id (xs ! i) \<le> i \<and>
     sn_order_root_id (xs ! sn_order_root_id (xs ! i)) = sn_order_root_id (xs ! i) \<and>
     (if i = 0 then sn_parent_id (xs ! i) = PSX_SCOPE_ID_INVALID else sn_parent_id (xs ! i) < i)"

definition scopes_ok :: "psx_scope_node_t list \<Rightarrow> bool" where
  "scopes_ok xs \<longleftrightarrow>
     0 < length xs \<and> length xs \<le> PSX_SCOPE_ID_INVALID \<and> (\<forall>i < length xs. scope_node_ok xs i)"

definition declaration_ok :: "psx_scope_graph_t \<Rightarrow> nat \<Rightarrow> psx_scope_declaration_t \<Rightarrow> bool" where
  "declaration_ok g k d \<longleftrightarrow>
     sd_id d = Suc k \<and> sd_scope_id d < length (sg_scopes g) \<and>
     sd_aliased_declaration_id d \<le> length (sg_declarations g)"

definition scope_graph_ok :: "psx_scope_graph_t \<Rightarrow> bool" where
  "scope_graph_ok g \<longleftrightarrow>
     scopes_ok (sg_scopes g) \<and> sg_current_scope g < length (sg_scopes g) \<and>
     (\<forall>k < length (sg_declarations g). declaration_ok g k (sg_declarations g ! k))"

text \<open>A scope apart from its counter, and a declaration apart from its being hidden.\<close>

definition node_key :: "psx_scope_node_t \<Rightarrow> psx_scope_node_t" where
  "node_key n = n\<lparr>sn_next_declaration_order := 0\<rparr>"

definition decl_key :: "psx_scope_declaration_t \<Rightarrow> psx_scope_declaration_t" where
  "decl_key d = d\<lparr>sd_hidden_from_lookup := False\<rparr>"

lemma node_key_fields [simp]:
  "sn_id (node_key n) = sn_id n" "sn_parent_id (node_key n) = sn_parent_id n"
  "sn_order_root_id (node_key n) = sn_order_root_id n" "sn_kind (node_key n) = sn_kind n"
  "node_key (n\<lparr>sn_next_declaration_order := x\<rparr>) = node_key n"
  by (simp_all add: node_key_def)

lemma decl_key_hidden [simp]: "decl_key (d\<lparr>sd_hidden_from_lookup := h\<rparr>) = decl_key d"
  by (simp add: decl_key_def)

lemma keys_same_fields:
  assumes "prefix (map node_key xs) (map node_key ys)" "i < length xs"
  shows "i < length ys" "sn_id (ys ! i) = sn_id (xs ! i)" "sn_parent_id (ys ! i) = sn_parent_id (xs ! i)"
    "sn_order_root_id (ys ! i) = sn_order_root_id (xs ! i)" "sn_kind (ys ! i) = sn_kind (xs ! i)"
proof -
  from assms(1) obtain zs where zs: "map node_key ys = map node_key xs @ zs"
    by (rule prefixE)
  have "length ys = length xs + length zs"
    using arg_cong [OF zs, of length] by simp
  then show i: "i < length ys"
    using assms(2) by simp
  have "node_key (ys ! i) = node_key (xs ! i)"
    using arg_cong [OF zs, of "\<lambda>l. l ! i"] i assms(2) by (simp add: nth_append)
  then show "sn_id (ys ! i) = sn_id (xs ! i)" "sn_parent_id (ys ! i) = sn_parent_id (xs ! i)"
    "sn_order_root_id (ys ! i) = sn_order_root_id (xs ! i)" "sn_kind (ys ! i) = sn_kind (xs ! i)"
    by (metis node_key_fields)+
qed

lemma scopes_ok_keys:
  assumes "map node_key ys = map node_key xs" "scopes_ok xs"
  shows "scopes_ok ys"
proof -
  have len: "length ys = length xs"
    using arg_cong [OF assms(1), of length] by simp
  have "prefix (map node_key xs) (map node_key ys)"
    by (simp add: assms(1))
  note same = keys_same_fields [OF this]
  have "scope_node_ok ys i" if i: "i < length xs" for i
  proof -
    have ok: "scope_node_ok xs i"
      using assms(2) i by (simp add: scopes_ok_def)
    then have "sn_order_root_id (xs ! i) < length xs"
      using i by (simp add: scope_node_ok_def)
    then show ?thesis
      using ok same(2-4) [OF i] same(4) by (cases "i = 0") (simp_all add: scope_node_ok_def)
  qed
  then show ?thesis
    using assms(2) len by (simp add: scopes_ok_def)
qed

lemma map_key_update:
  assumes "node_key y = node_key (xs ! i)"
  shows "map node_key (xs[i := y]) = map node_key xs"
  by (cases "i < length xs") (simp_all add: map_update assms list_update_same_conv list_update_beyond)

lemma reserve_order_keys:
  "map node_key (sg_scopes (snd (reserve_declaration_order_at g s))) = map node_key (sg_scopes g)"
  "length (sg_scopes (snd (reserve_declaration_order_at g s))) = length (sg_scopes g)"
  "sg_declarations (snd (reserve_declaration_order_at g s)) = sg_declarations g"
  "sg_current_scope (snd (reserve_declaration_order_at g s)) = sg_current_scope g"
  "fst (reserve_declaration_order_at g s) = next_order_of g s + 1"
  by (simp_all add: reserve_declaration_order_at_def Let_def map_key_update)

text \<open>The result of a declaration that is not refused.\<close>

lemma declare_at_cases:
  obtains "declare_at g s ns k n p a = (0, g)"
  | d h where "declare_at g s ns k n p a = (Suc (length (sg_declarations g)), h)"
      "sg_declarations h = sg_declarations g @ [d]" "sd_id d = Suc (length (sg_declarations g))"
      "sd_scope_id d = s" "s < length (sg_scopes g)" "sd_aliased_declaration_id d = 0"
      "sg_scopes h = (if a then sg_scopes (snd (reserve_declaration_order_at g s)) else sg_scopes g)"
      "sg_current_scope h = sg_current_scope g" "sd_name_space d = ns" "sd_kind d = k"
      "sd_declaration_order d = (if a then next_order_of g s + 1 else next_order_of g s)"
proof (cases "fst (declare_at g s ns k n p a) = 0")
  case True
  then have "declare_at g s ns k n p a = (0, g)"
    by (auto simp: declare_at_def Let_def split: prod.splits if_splits)
  then show ?thesis
    by (rule that(1))
next
  case False
  obtain i h where ih: "declare_at g s ns k n p a = (i, h)"
    by (cases "declare_at g s ns k n p a")
  let ?d = "\<lparr>sd_id = length (sg_declarations g) + 1, sd_scope_id = s, sd_name_space = ns, sd_kind = k,
      sd_name = n, sd_declaration_order = (if a then next_order_of g s + 1 else next_order_of g s),
      sd_payload = p, sd_aliased_declaration_id = 0, sd_source_name = None,
      sd_source_input = None, sd_source_byte_offset = 0, sd_source_byte_length = 0,
      sd_hidden_from_lookup = False\<rparr>"
  have s: "s < length (sg_scopes g)" and i: "i = Suc (length (sg_declarations g))"
    and h: "h = (if a then snd (reserve_declaration_order_at g s) else g)
        \<lparr>sg_declarations := sg_declarations g @ [?d]\<rparr>"
    using ih False
    by (auto simp: declare_at_def Let_def reserve_declaration_order_at_def split: if_splits)
  have fields: "sg_declarations h = sg_declarations g @ [?d]"
    "sg_scopes h = (if a then sg_scopes (snd (reserve_declaration_order_at g s)) else sg_scopes g)"
    "sg_current_scope h = sg_current_scope g"
    by (simp_all add: h reserve_order_keys)
  show ?thesis
    by (rule that(2) [of h ?d]) (use ih i s fields in simp_all)
qed


section \<open>Every operation keeps the graph well formed\<close>

lemma create_scope_cases:
  obtains "psx_scope_graph_create_scope_at g p k = (PSX_SCOPE_ID_INVALID, g)"
  | n where "psx_scope_graph_create_scope_at g p k =
        (length (sg_scopes g), g\<lparr>sg_scopes := sg_scopes g @ [n]\<rparr>)"
      "length (sg_scopes g) < PSX_SCOPE_ID_INVALID" "p < length (sg_scopes g)"
      "sn_id n = length (sg_scopes g)" "sn_parent_id n = p"
      "sn_order_root_id n = length (sg_scopes g) \<or>
       sn_order_root_id n = sn_order_root_id (sg_scopes g ! p)"
proof (cases "length (sg_scopes g) \<ge> PSX_SCOPE_ID_INVALID \<or> p \<ge> length (sg_scopes g)")
  case True
  then show ?thesis
    by (intro that(1)) (auto simp: psx_scope_graph_create_scope_at_def)
next
  case False
  let ?n = "\<lparr>sn_id = length (sg_scopes g), sn_parent_id = p,
      sn_order_root_id = (if k = PSX_SCOPE_FUNCTION \<or> k = PSX_SCOPE_FUNCTION_PROTOTYPE \<or>
                             k = PSX_SCOPE_RECORD
                          then length (sg_scopes g) else sn_order_root_id (sg_scopes g ! p)),
      sn_kind = k, sn_next_declaration_order = 0\<rparr>"
  show ?thesis
    by (rule that(2) [of ?n]) (use False in \<open>auto simp: psx_scope_graph_create_scope_at_def Let_def\<close>)
qed

lemma scopes_ok_append:
  assumes "scopes_ok xs" "length xs < PSX_SCOPE_ID_INVALID" "p < length xs"
    and "sn_id n = length xs" "sn_parent_id n = p"
    and root: "sn_order_root_id n = length xs \<or> sn_order_root_id n = sn_order_root_id (xs ! p)"
  shows "scopes_ok (xs @ [n])"
proof -
  have old: "scope_node_ok xs i" if "i < length xs" for i
    using assms(1) that by (simp add: scopes_ok_def)
  have "scope_node_ok (xs @ [n]) i" if "i < Suc (length xs)" for i
  proof (cases "i = length xs")
    case True
    have "sn_order_root_id (xs ! p) \<le> p"
      using old [OF assms(3)] by (simp add: scope_node_ok_def)
    then have "sn_order_root_id (xs ! p) < length xs"
      using assms(3) by simp
    then show ?thesis
      using True root old [OF assms(3)] assms(3-5) by (auto simp: scope_node_ok_def nth_append)
  next
    case False
    then have i: "i < length xs"
      using that by simp
    moreover from this old have "sn_order_root_id (xs ! i) < length xs"
      by (auto simp: scope_node_ok_def intro: le_less_trans)
    ultimately show ?thesis
      using old [OF i] by (auto simp: scope_node_ok_def nth_append)
  qed
  then show ?thesis
    using assms(1,2) by (simp add: scopes_ok_def)
qed

lemma graph_ok_new_scope:
  assumes "scope_graph_ok g" "length (sg_scopes g) < PSX_SCOPE_ID_INVALID" "p < length (sg_scopes g)"
    and "sn_id n = length (sg_scopes g)" "sn_parent_id n = p"
    and "sn_order_root_id n = length (sg_scopes g) \<or>
      sn_order_root_id n = sn_order_root_id (sg_scopes g ! p)"
    and "c \<le> length (sg_scopes g)"
  shows "scope_graph_ok (g\<lparr>sg_scopes := sg_scopes g @ [n], sg_current_scope := c\<rparr>)"
  using assms scopes_ok_append [of "sg_scopes g" p n]
  by (auto simp: scope_graph_ok_def declaration_ok_def)

lemma graph_ok_same_scopes:
  assumes "scope_graph_ok g" "map node_key (sg_scopes h) = map node_key (sg_scopes g)"
    and "sg_current_scope h = sg_current_scope g"
    and "\<And>k. k < length (sg_declarations h) \<Longrightarrow> declaration_ok h k (sg_declarations h ! k)"
  shows "scope_graph_ok h"
proof -
  have "length (sg_scopes h) = length (sg_scopes g)"
    using arg_cong [OF assms(2), of length] by simp
  then show ?thesis
    using assms scopes_ok_keys [OF assms(2)] by (simp add: scope_graph_ok_def)
qed

lemma graph_ok_declare:
  assumes "scope_graph_ok g"
  shows "scope_graph_ok (snd (declare_at g s ns k n p a))"
proof (rule declare_at_cases [of g s ns k n p a])
  assume "declare_at g s ns k n p a = (0, g)"
  then show ?thesis
    using assms by simp
next
  fix d h
  assume h: "declare_at g s ns k n p a = (Suc (length (sg_declarations g)), h)"
    "sg_declarations h = sg_declarations g @ [d]" "sd_id d = Suc (length (sg_declarations g))"
    "sd_scope_id d = s" "s < length (sg_scopes g)" "sd_aliased_declaration_id d = 0"
    "sg_scopes h = (if a then sg_scopes (snd (reserve_declaration_order_at g s)) else sg_scopes g)"
    "sg_current_scope h = sg_current_scope g"
  have "map node_key (sg_scopes h) = map node_key (sg_scopes g)"
    by (simp add: h(7) reserve_order_keys)
  moreover have "declaration_ok h j (sg_declarations h ! j)" if "j < length (sg_declarations h)" for j
    using that assms h by (auto simp: scope_graph_ok_def declaration_ok_def nth_append less_Suc_eq
        reserve_order_keys intro: le_SucI)
  ultimately show ?thesis
    using graph_ok_same_scopes [OF assms _ h(8)] h(1) by simp
qed

lemma graph_ok_change:
  assumes "scope_graph_ok g"
    and "\<And>j d. declaration_ok g j d \<Longrightarrow> declaration_ok g j (f d)"
  shows "scope_graph_ok (change_declaration g i f)"
proof -
  let ?ds = "sg_declarations g"
  have "declaration_ok g k (?ds[i - 1 := f (?ds ! (i - 1))] ! k)" if "k < length ?ds" for k
    using that assms by (cases "k = i - 1") (auto simp: scope_graph_ok_def)
  moreover have "declaration_ok (change_declaration g i f) k d = declaration_ok g k d" for k d
    by (simp add: declaration_ok_def change_declaration_def)
  ultimately show ?thesis
    using assms(1) by (simp add: scope_graph_ok_def) (simp add: change_declaration_def)
qed

lemma graph_ok_alias:
  assumes "scope_graph_ok g"
  shows "scope_graph_ok (snd (psx_scope_graph_declare_linkage_alias_at g s n i))"
proof (cases "psx_scope_graph_declaration g i")
  case None
  then show ?thesis
    using assms by (simp add: psx_scope_graph_declare_linkage_alias_at_def)
next
  case (Some d)
  let ?r = "declare_at g s PSX_NAMESPACE_ORDINARY PSX_DECL_LINKAGE_ALIAS (Some n) 0 True"
  have i: "i \<le> length (sg_declarations g)"
    using Some by (auto simp: psx_scope_graph_declaration_def split: if_splits)
  have "length (sg_declarations g) \<le> length (sg_declarations (snd ?r))"
    by (rule declare_at_cases [of g s PSX_NAMESPACE_ORDINARY PSX_DECL_LINKAGE_ALIAS "Some n" 0 True])
      simp_all
  then have "scope_graph_ok (change_declaration (snd ?r) (fst ?r)
      (\<lambda>d. d\<lparr>sd_aliased_declaration_id := i\<rparr>))"
    using i by (intro graph_ok_change graph_ok_declare assms) (auto simp: declaration_ok_def)
  then show ?thesis
    using assms Some graph_ok_declare [OF assms]
    by (auto simp: psx_scope_graph_declare_linkage_alias_at_def change_declaration_def split_beta Let_def)
qed

lemma apply_scope_op_ok:
  assumes "scope_graph_ok g"
  shows "scope_graph_ok (apply_scope_op c g)"
proof (cases c)
  case (Create_scope p k)
  have "sg_current_scope g \<le> length (sg_scopes g)"
    using assms by (simp add: scope_graph_ok_def)
  then show ?thesis
    using assms graph_ok_new_scope [OF assms, of p _ "sg_current_scope g"]
    by (rule_tac create_scope_cases [of g p k]) (simp_all add: Create_scope)
next
  case (Enter_scope k)
  show ?thesis
    using assms graph_ok_new_scope [OF assms, of "sg_current_scope g" _ "length (sg_scopes g)"]
    by (rule_tac create_scope_cases [of g "sg_current_scope g" k])
      (simp_all add: Enter_scope psx_scope_graph_enter_scope_def)
next
  case Leave_scope
  have "scope_node_ok (sg_scopes g) (sg_current_scope g)" "sg_current_scope g < length (sg_scopes g)"
    using assms by (simp_all add: scope_graph_ok_def scopes_ok_def)
  then have "sn_parent_id (sg_scopes g ! sg_current_scope g) < length (sg_scopes g)"
    if "sg_current_scope g \<noteq> 0"
    using that by (simp add: scope_node_ok_def)
  then show ?thesis
    using assms by (simp add: Leave_scope psx_scope_graph_leave_scope_def)
      (simp add: scope_graph_ok_def declaration_ok_def)
next
  case Reserve_order
  show ?thesis
    using assms scopes_ok_keys [OF reserve_order_keys(1), of g]
    by (simp add: Reserve_order psx_scope_graph_reserve_declaration_order_def scope_graph_ok_def)
      (simp add: reserve_order_keys declaration_ok_def)
next
  case Declare
  then show ?thesis
    using graph_ok_declare [OF assms]
    by (simp add: psx_scope_graph_declare_at_def psx_scope_graph_declare_synthetic_at_def)
next
  case Declare_alias
  then show ?thesis
    using graph_ok_alias [OF assms] by simp
next
  case Hide
  then show ?thesis
    using assms by (auto simp: psx_scope_graph_set_declaration_hidden_from_lookup_def
        declaration_ok_def intro!: graph_ok_change)
next
  case Forget
  then show ?thesis
    using assms by (auto simp: psx_scope_graph_forget_declaration_def declaration_ok_def
        intro!: graph_ok_change)
next
  case Note_source
  then show ?thesis
    using assms by (auto simp: psx_scope_graph_note_declaration_source_def declaration_ok_def
        intro!: graph_ok_change)
next
  case Rehome
  then show ?thesis
    using assms by (auto simp: psx_scope_graph_rehome_declaration_at_def declaration_ok_def
        intro!: graph_ok_change)
qed

lemma scope_graph_reachable_ok: "scope_graph_reachable g \<Longrightarrow> scope_graph_ok g"
proof (induction rule: scope_graph_reachable.induct)
  case create
  show ?case
    by (simp add: psx_scope_graph_create_def psx_scope_graph_reset_def scope_graph_ok_def scopes_ok_def
        scope_node_ok_def PSX_SCOPE_ID_INVALID_def)
qed (rule apply_scope_op_ok)


section \<open>Scopes that enclose a scope\<close>

inductive encloses :: "psx_scope_graph_t \<Rightarrow> psx_scope_id_t \<Rightarrow> psx_scope_id_t \<Rightarrow> bool" for g where
  itself: "encloses g s s"
| outer: "s \<noteq> 0 \<Longrightarrow> encloses g a (sn_parent_id (sg_scopes g ! s)) \<Longrightarrow> encloses g a s"

inductive_cases enclosesE: "encloses g a s"

lemma encloses_parent: "encloses g a s \<Longrightarrow> a \<noteq> s \<Longrightarrow> encloses g a (sn_parent_id (sg_scopes g ! s))"
  by (auto elim: enclosesE)

lemma graph_parent:
  assumes "scope_graph_ok g" "s < length (sg_scopes g)" "s \<noteq> 0"
  shows "sn_parent_id (sg_scopes g ! s) < s" "sn_parent_id (sg_scopes g ! s) < length (sg_scopes g)"
    "sn_parent_id (sg_scopes g ! s) \<noteq> PSX_SCOPE_ID_INVALID"
proof -
  have n: "length (sg_scopes g) \<le> PSX_SCOPE_ID_INVALID" "scope_node_ok (sg_scopes g) s"
    using assms(1,2) by (simp_all add: scope_graph_ok_def scopes_ok_def)
  then show "sn_parent_id (sg_scopes g ! s) < s"
    using assms(3) by (simp add: scope_node_ok_def)
  then show "sn_parent_id (sg_scopes g ! s) < length (sg_scopes g)"
    "sn_parent_id (sg_scopes g ! s) \<noteq> PSX_SCOPE_ID_INVALID"
    using assms(2) n(1) by simp_all
qed

lemma graph_root_parent:
  assumes "scope_graph_ok g"
  shows "sn_parent_id (sg_scopes g ! 0) = PSX_SCOPE_ID_INVALID" "0 < length (sg_scopes g)"
  using assms by (auto simp: scope_graph_ok_def scopes_ok_def scope_node_ok_def)

lemma encloses_le: "scope_graph_ok g \<Longrightarrow> encloses g a s \<Longrightarrow> s < length (sg_scopes g) \<Longrightarrow> a \<le> s"
proof (induction s rule: less_induct)
  case (less s)
  show ?case
  proof (cases "a = s")
    case False
    then have s: "s \<noteq> 0"
      using less.prems(2) by (auto elim: enclosesE)
    note parent = graph_parent [OF less.prems(1,3) s]
    have "a \<le> sn_parent_id (sg_scopes g ! s)"
      using less.IH [OF parent(1) less.prems(1) encloses_parent [OF less.prems(2) False] parent(2)] .
    then show ?thesis
      using parent(1) by simp
  qed simp
qed

text \<open>The walks return on well-formed graphs, and visibility is being enclosed.\<close>

lemma visible_from_encloses:
  "scope_graph_ok g \<Longrightarrow> s < length (sg_scopes g) \<Longrightarrow> visible_from_loop g a s = Some (encloses g a s)"
proof (induction s rule: less_induct)
  case (less s)
  show ?case
  proof (cases "a = s \<or> s = 0")
    case True
    then show ?thesis
      using encloses.itself by (auto simp: visible_from_loop.simps [of g a s] elim: enclosesE)
  next
    case False
    note parent = graph_parent [OF less.prems]
    have "encloses g a (sn_parent_id (sg_scopes g ! s)) = encloses g a s"
      using False encloses.outer encloses_parent by blast
    then show ?thesis
      using False less.IH [of "sn_parent_id (sg_scopes g ! s)"] less.prems(1) parent
      by (simp add: visible_from_loop.simps [of g a s] Let_def)
  qed
qed

lemma visible_from_iff:
  assumes "scope_graph_ok g" "a < length (sg_scopes g)" "s < length (sg_scopes g)"
  shows "psx_scope_graph_scope_is_visible_from g a s = Some (encloses g a s)"
  using assms visible_from_encloses [OF assms(1,3)]
  by (simp add: psx_scope_graph_scope_is_visible_from_def)

lemma encloses_root: "scope_graph_ok g \<Longrightarrow> s < length (sg_scopes g) \<Longrightarrow> encloses g 0 s"
proof (induction s rule: less_induct)
  case (less s)
  then show ?case
    using graph_parent [OF less.prems] by (cases "s = 0") (auto intro: encloses.intros)
qed

lemma scope_depth_loop_returns:
  "scope_graph_ok g \<Longrightarrow> s < length (sg_scopes g) \<Longrightarrow> \<exists>n. scope_depth_loop g s d = Some (d + int n)"
proof (induction s arbitrary: d rule: less_induct)
  case (less s)
  show ?case
  proof (cases "s = 0")
    case True
    then show ?thesis
      by (intro exI [of _ 0]) (simp add: scope_depth_loop.simps)
  next
    case False
    note parent = graph_parent [OF less.prems False]
    from less.IH [OF parent(1) less.prems(1) parent(2), of "d + 1"]
    obtain n where "scope_depth_loop g (sn_parent_id (sg_scopes g ! s)) (d + 1) = Some (d + 1 + int n)"
      by blast
    then show ?thesis
      using False parent by (intro exI [of _ "Suc n"]) (simp add: scope_depth_loop.simps [of g s d] Let_def)
  qed
qed

lemma scope_depth_loop_shift:
  "scope_graph_ok g \<Longrightarrow> s < length (sg_scopes g) \<Longrightarrow>
     scope_depth_loop g s (d + e) = map_option (\<lambda>n. n + e) (scope_depth_loop g s d)"
proof (induction s arbitrary: d rule: less_induct)
  case (less s)
  show ?case
  proof (cases "s = 0")
    case False
    note parent = graph_parent [OF less.prems False]
    show ?thesis
      using False parent less.IH [OF parent(1) less.prems(1) parent(2), of "d + 1"]
      by (simp add: scope_depth_loop.simps [of g s] Let_def algebra_simps)
  qed (simp add: scope_depth_loop.simps)
qed

lemma scope_depth_parent:
  assumes "scope_graph_ok g" "s < length (sg_scopes g)" "s \<noteq> 0"
  shows "psx_scope_graph_scope_depth g s =
    map_option (\<lambda>n. n + 1) (psx_scope_graph_scope_depth g (sn_parent_id (sg_scopes g ! s)))"
  using assms graph_parent [OF assms]
    scope_depth_loop_shift [OF assms(1), of "sn_parent_id (sg_scopes g ! s)" 0 1]
  by (simp add: psx_scope_graph_scope_depth_def scope_depth_loop.simps [of g s] Let_def)

lemma nearest_scope_loop_spec:
  "scope_graph_ok g \<Longrightarrow> s < length (sg_scopes g) \<Longrightarrow>
     \<exists>r. nearest_scope_loop g s k = Some r \<and>
       (if r = PSX_SCOPE_ID_INVALID
        then \<forall>a. encloses g a s \<longrightarrow> sn_kind (sg_scopes g ! a) \<noteq> k
        else encloses g r s \<and> sn_kind (sg_scopes g ! r) = k \<and>
          (\<forall>a. encloses g a s \<and> sn_kind (sg_scopes g ! a) = k \<longrightarrow> encloses g a r))"
proof (induction s rule: less_induct)
  case (less s)
  have bound: "s \<noteq> PSX_SCOPE_ID_INVALID"
    using less.prems by (simp add: scope_graph_ok_def scopes_ok_def)
  show ?case
  proof (cases "sn_kind (sg_scopes g ! s) = k")
    case True
    then show ?thesis
      using bound by (simp add: nearest_scope_loop.simps [of g s] encloses.itself)
  next
    case other: False
    show ?thesis
    proof (cases "s = 0")
      case True
      then show ?thesis
        using other graph_root_parent [OF less.prems(1)]
        by (intro exI [of _ PSX_SCOPE_ID_INVALID])
          (auto simp: nearest_scope_loop.simps [of g 0] elim: enclosesE)
    next
      case False
      note parent = graph_parent [OF less.prems False]
      have up: "encloses g a s \<longleftrightarrow> a = s \<or> encloses g a (sn_parent_id (sg_scopes g ! s))" for a
        using False encloses_parent encloses.intros by metis
      show ?thesis
        using less.IH [OF parent(1) less.prems(1) parent(2)] other parent(3)
        by (auto simp: nearest_scope_loop.simps [of g s] up Let_def split: if_splits)
    qed
  qed
qed

section \<open>What lookup finds\<close>

lemma find_rev_None: "find P (rev xs) = None \<longleftrightarrow> (\<forall>k < length xs. \<not> P (xs ! k))"
  by (auto simp: find_None_iff in_set_conv_nth)

lemma find_rev_Some:
  "find P (rev xs) = Some x \<Longrightarrow> \<exists>k < length xs. x = xs ! k \<and> P x \<and> (\<forall>j < length xs. P (xs ! j) \<longrightarrow> j \<le> k)"
proof (induction xs rule: rev_induct)
  case (snoc y xs)
  show ?case
  proof (cases "P y")
    case True
    then show ?thesis
      using snoc.prems by (intro exI [of _ "length xs"]) auto
  next
    case False
    then obtain k where "k < length xs" "x = xs ! k" "P x" "\<forall>j < length xs. P (xs ! j) \<longrightarrow> j \<le> k"
      using snoc by auto
    then show ?thesis
      using False by (intro exI [of _ k]) (auto simp: nth_append less_Suc_eq)
  qed
qed simp

lemma resolved_id_valid:
  assumes "scope_graph_ok g" "k < length (sg_declarations g)"
    and "found_in_scope g ns n p s (sg_declarations g ! k)"
  shows "resolved_declaration_id g (sg_declarations g ! k) \<noteq> 0"
proof -
  have ids: "sd_id (sg_declarations g ! j) = Suc j" if "j < length (sg_declarations g)" for j
    using assms(1) that by (simp add: scope_graph_ok_def declaration_ok_def)
  show ?thesis
    using assms(2,3) ids
    by (auto simp: resolved_declaration_id_def found_in_scope_def psx_scope_graph_declaration_def Let_def
        split: if_splits)
qed

definition found_from ::
  "psx_scope_graph_t \<Rightarrow> psx_c_namespace_t \<Rightarrow> string \<Rightarrow> psx_scope_lookup_point_t \<Rightarrow> psx_scope_id_t \<Rightarrow>
   nat \<Rightarrow> bool" where
  "found_from g ns n p s k \<longleftrightarrow>
     encloses g (sd_scope_id (sg_declarations g ! k)) s \<and>
     found_in_scope g ns n p (sd_scope_id (sg_declarations g ! k)) (sg_declarations g ! k)"

lemma lookup_loop_spec:
  "scope_graph_ok g \<Longrightarrow> s < length (sg_scopes g) \<Longrightarrow>
     \<exists>i. lookup_loop g ns n p s = Some i \<and>
       (if i = 0 then \<forall>k < length (sg_declarations g). \<not> found_from g ns n p s k
        else \<exists>k < length (sg_declarations g). i = resolved_declaration_id g (sg_declarations g ! k) \<and>
          found_from g ns n p s k \<and>
          (\<forall>j < length (sg_declarations g). found_from g ns n p s j \<longrightarrow>
             encloses g (sd_scope_id (sg_declarations g ! j)) (sd_scope_id (sg_declarations g ! k)) \<and>
             (sd_scope_id (sg_declarations g ! j) = sd_scope_id (sg_declarations g ! k) \<longrightarrow> j \<le> k)))"
proof (induction s rule: less_induct)
  case (less s)
  let ?ds = "sg_declarations g"
  show ?case
  proof (cases "find (found_in_scope g ns n p s) (rev ?ds)")
    case (Some d)
    from find_rev_Some [OF this] obtain k where k: "k < length ?ds" "d = ?ds ! k"
        "found_in_scope g ns n p s d" and latest: "\<forall>j < length ?ds. found_in_scope g ns n p s (?ds ! j) \<longrightarrow> j \<le> k"
      by blast
    have scope: "sd_scope_id (?ds ! k) = s"
      using k by (simp add: found_in_scope_def)
    have "lookup_loop g ns n p s = Some (resolved_declaration_id g (?ds ! k))"
      using Some k by (simp add: lookup_loop.simps [of g ns n p s])
    moreover have "resolved_declaration_id g (?ds ! k) \<noteq> 0"
      using resolved_id_valid [OF less.prems(1) k(1)] k by blast
    moreover have "found_from g ns n p s k"
      using k scope encloses.itself by (simp add: found_from_def)
    moreover have "\<forall>j < length ?ds. found_from g ns n p s j \<longrightarrow> encloses g (sd_scope_id (?ds ! j)) s \<and>
        (sd_scope_id (?ds ! j) = s \<longrightarrow> j \<le> k)"
      using latest by (auto simp: found_from_def)
    ultimately show ?thesis
      using k(1) scope by auto
  next
    case None
    then have here: "\<not> found_in_scope g ns n p s (?ds ! k)" if "k < length ?ds" for k
      using that by (simp add: find_rev_None)
    show ?thesis
    proof (cases "s = 0")
      case True
      have "lookup_loop g ns n p s = Some 0"
        using None by (simp add: True lookup_loop.simps [of g ns n p 0])
      moreover have "\<not> found_from g ns n p s k" if "k < length ?ds" for k
        using True here that by (auto simp: found_from_def elim: enclosesE)
      ultimately show ?thesis
        by auto
    next
      case False
      note parent = graph_parent [OF less.prems False]
      let ?q = "sn_parent_id (sg_scopes g ! s)"
      have step: "lookup_loop g ns n p s = lookup_loop g ns n p ?q"
        using None False parent by (simp add: lookup_loop.simps [of g ns n p s] Let_def)
      have up: "found_from g ns n p s k = found_from g ns n p ?q k" if "k < length ?ds" for k
        using False here [OF that] encloses_parent encloses.outer unfolding found_from_def by metis
      show ?thesis
        using less.IH [OF parent(1) less.prems(1) parent(2)] unfolding step
        by (simp add: up cong: conj_cong if_cong split del: if_split)
    qed
  qed
qed


section \<open>Later declarations\<close>

text \<open>
  What may happen after a lookup point was taken without changing what is found from it: new
  scopes, entering and leaving, and declarations that take the next place in the order of the
  point's function, prototype, record or unit, or that lie in scopes not visible from it. The
  counter must not wrap around.
\<close>

inductive later_graph :: "psx_scope_lookup_point_t \<Rightarrow> psx_scope_graph_t \<Rightarrow> psx_scope_graph_t \<Rightarrow> bool"
  for p g where
  now: "later_graph p g g"
| scope: "later_graph p g h \<Longrightarrow> later_graph p g (snd (psx_scope_graph_create_scope_at h s k))"
| enter: "later_graph p g h \<Longrightarrow> later_graph p g (snd (psx_scope_graph_enter_scope h k))"
| leave: "later_graph p g h \<Longrightarrow> psx_scope_graph_leave_scope h = Some h' \<Longrightarrow> later_graph p g h'"
| declared: "later_graph p g h \<Longrightarrow> next_order_of h s \<noteq> - 1 \<Longrightarrow>
    order_root_of h s = order_root_of h (lp_scope_id p) \<or>
    psx_scope_graph_scope_is_visible_from h s (lp_scope_id p) = Some False \<Longrightarrow>
    later_graph p g (snd (psx_scope_graph_declare_at h s ns k n payload))"

lemma encloses_trans: "encloses g a b \<Longrightarrow> encloses g b c \<Longrightarrow> encloses g a c"
proof -
  assume a: "encloses g a b"
  assume "encloses g b c"
  then show ?thesis
    using a by (induction rule: encloses.induct) (auto intro: encloses.outer)
qed

lemma declaration_append:
  assumes "i \<le> length (sg_declarations g)" "sg_declarations h = sg_declarations g @ ds"
  shows "psx_scope_graph_declaration h i = psx_scope_graph_declaration g i"
  using assms by (cases i) (auto simp: psx_scope_graph_declaration_def Let_def nth_append)

lemma find_append_None: "find P xs = None \<Longrightarrow> find P (xs @ ys) = find P ys"
  by (induction xs) (auto split: if_splits)

lemma find_Some_member: "find P xs = Some x \<Longrightarrow> x \<in> set xs \<and> P x"
  by (induction xs) (auto split: if_splits)

lemma lookup_loop_append:
  assumes ok: "scope_graph_ok g"
    and keys: "prefix (map node_key (sg_scopes g)) (map node_key (sg_scopes h))"
    and decls: "sg_declarations h = sg_declarations g @ ds"
    and point: "lp_scope_id p < length (sg_scopes g)"
    and new: "\<And>d a. d \<in> set ds \<Longrightarrow> encloses g a (lp_scope_id p) \<Longrightarrow> \<not> found_in_scope h ns n p a d"
  shows "s < length (sg_scopes g) \<Longrightarrow> encloses g s (lp_scope_id p) \<Longrightarrow>
    lookup_loop h ns n p s = lookup_loop g ns n p s"
proof (induction s rule: less_induct)
  case (less s)
  note same = keys_same_fields [OF keys]
  have target: "sd_aliased_declaration_id d \<le> length (sg_declarations g)" if "d \<in> set (sg_declarations g)" for d
    using ok that by (auto simp: scope_graph_ok_def declaration_ok_def in_set_conv_nth)
  have same_target: "psx_scope_graph_declaration h (sd_aliased_declaration_id d) =
      psx_scope_graph_declaration g (sd_aliased_declaration_id d)" if "d \<in> set (sg_declarations g)" for d
    using declaration_append [OF target [OF that] decls] .
  have "order_root_of h s = order_root_of g s" "order_root_of h (lp_scope_id p) = order_root_of g (lp_scope_id p)"
    using same(4) less.prems(1) point by (simp_all add: order_root_of_def)
  then have old: "found_in_scope h ns n p s d = found_in_scope g ns n p s d"
    if "d \<in> set (sg_declarations g)" for d
    using same_target [OF that] by (simp add: found_in_scope_def)
  have "find (found_in_scope h ns n p s) (rev ds) = None"
    using new less.prems(2) by (auto simp: find_None_iff)
  then have "find (found_in_scope h ns n p s) (rev (sg_declarations h)) =
      find (found_in_scope h ns n p s) (rev (sg_declarations g))"
    by (simp add: decls find_append_None)
  also have "\<dots> = find (found_in_scope g ns n p s) (rev (sg_declarations g))"
    by (rule find_cong) (simp_all add: old)
  finally have found: "find (found_in_scope h ns n p s) (rev (sg_declarations h)) = \<dots>" .
  show ?case
  proof (cases "find (found_in_scope g ns n p s) (rev (sg_declarations g))")
    case (Some d)
    then have "d \<in> set (sg_declarations g)"
      using find_Some_member by fastforce
    then have "resolved_declaration_id h d = resolved_declaration_id g d"
      using same_target by (simp add: resolved_declaration_id_def)
    then show ?thesis
      using found Some by (simp add: lookup_loop.simps [of _ ns n p s])
  next
    case None
    show ?thesis
    proof (cases "s = 0")
      case True
      then show ?thesis
        using found None by (simp add: lookup_loop.simps [of _ ns n p 0])
    next
      case False
      note parent = graph_parent [OF ok less.prems(1) False]
      have "encloses g (sn_parent_id (sg_scopes g ! s)) (lp_scope_id p)"
        using encloses_trans [OF _ less.prems(2)] encloses.outer [OF False encloses.itself] by blast
      then show ?thesis
        using False found None less.IH [OF parent(1,2)] same(1,3) [OF less.prems(1)] same(1) [OF parent(2)]
          parent
        by (simp add: lookup_loop.simps [of _ ns n p s] Let_def)
    qed
  qed
qed


lemma next_order_keys:
  assumes "prefix (map node_key (sg_scopes g)) (map node_key (sg_scopes h))" "s < length (sg_scopes g)"
  shows "order_root_of h s = order_root_of g s"
  using keys_same_fields(4) [OF assms] by (simp add: order_root_of_def)

lemma order_root_bound:
  assumes "scope_graph_ok g" "s < length (sg_scopes g)"
  shows "order_root_of g s < length (sg_scopes g)"
proof -
  have "order_root_of g s \<le> s"
    using assms by (simp add: scope_graph_ok_def scopes_ok_def scope_node_ok_def order_root_of_def)
  then show ?thesis
    using assms(2) by simp
qed

lemma reserve_next_order:
  assumes ok: "scope_graph_ok g" and s: "s < length (sg_scopes g)" and q: "q < length (sg_scopes g)"
    and h: "sg_scopes h = sg_scopes (snd (reserve_declaration_order_at g s))"
  shows "next_order_of h q =
    (if order_root_of g s = order_root_of g q then next_order_of g s + 1 else next_order_of g q)"
proof -
  have "order_root_of h q = order_root_of g q"
    using next_order_keys [of g h q] q h by (simp add: reserve_order_keys)
  then show ?thesis
    using order_root_bound [OF ok s] order_root_bound [OF ok q] h
    by (auto simp: next_order_of_def reserve_declaration_order_at_def Let_def)
qed

lemma less_next_order:
  assumes "(w :: u32) \<noteq> - 1"
  shows "x < w + 1 \<longleftrightarrow> x \<le> w"
proof -
  have "1 + w \<noteq> 0"
    using assms by (metis add.commute add_eq_0_iff2)
  then have "unat (w + 1) = Suc (unat w)"
    using unatSuc [of w] by (simp add: add.commute)
  then show ?thesis
    by (simp add: word_less_nat_alt word_le_nat_alt less_Suc_eq_le)
qed

lemma next_order_append:
  assumes "scope_graph_ok g" "q < length (sg_scopes g)" "sg_scopes h = sg_scopes g @ ns"
  shows "next_order_of h q = next_order_of g q"
  using assms order_root_bound [OF assms(1,2)]
  by (simp add: next_order_of_def order_root_of_def nth_append)

definition same_lookups ::
  "psx_scope_lookup_point_t \<Rightarrow> psx_scope_graph_t \<Rightarrow> psx_scope_graph_t \<Rightarrow> bool" where
  "same_lookups p g h \<longleftrightarrow>
     scope_graph_ok h \<and> lp_scope_id p < length (sg_scopes g) \<and>
     prefix (map node_key (sg_scopes g)) (map node_key (sg_scopes h)) \<and>
     lp_declaration_order p \<le> next_order_of h (lp_scope_id p) \<and>
     (\<forall>ns n. ns \<noteq> PSX_NAMESPACE_LABEL \<longrightarrow>
        lookup_loop h ns n p (lp_scope_id p) = lookup_loop g ns n p (lp_scope_id p))"

lemma same_lookups_scopes:
  assumes g: "same_lookups p g h" and ok: "scope_graph_ok h'"
    and scopes: "sg_scopes h' = sg_scopes h @ ns" and decls: "sg_declarations h' = sg_declarations h"
  shows "same_lookups p g h'"
proof -
  have h: "scope_graph_ok h" "lp_scope_id p < length (sg_scopes h)"
    "prefix (map node_key (sg_scopes g)) (map node_key (sg_scopes h))"
    using g keys_same_fields(1) by (auto simp: same_lookups_def)
  have "prefix (map node_key (sg_scopes h)) (map node_key (sg_scopes h'))"
    by (simp add: scopes)
  moreover from this have "lookup_loop h' ns n p (lp_scope_id p) = lookup_loop h ns n p (lp_scope_id p)"
    for ns n
    using lookup_loop_append [OF h(1), of h' "[]" p] decls h(2) by (simp add: encloses.itself)
  ultimately show ?thesis
    using g ok h next_order_append [OF h(1,2) scopes]
    by (auto simp: same_lookups_def intro: prefix_order.trans)
qed

lemma same_lookups_declare:
  assumes g: "same_lookups p g h" and wrap: "next_order_of h s \<noteq> - 1"
    and s: "order_root_of h s = order_root_of h (lp_scope_id p) \<or>
      psx_scope_graph_scope_is_visible_from h s (lp_scope_id p) = Some False"
  shows "same_lookups p g (snd (declare_at h s ns' k n' payload True))"
proof (rule declare_at_cases [of h s ns' k n' payload True])
  assume "declare_at h s ns' k n' payload True = (0, h)"
  then show ?thesis
    using g by simp
next
  fix d h'
  assume new: "declare_at h s ns' k n' payload True = (Suc (length (sg_declarations h)), h')"
    "sg_declarations h' = sg_declarations h @ [d]" "sd_scope_id d = s" "s < length (sg_scopes h)"
    "sg_scopes h' = (if True then sg_scopes (snd (reserve_declaration_order_at h s)) else sg_scopes h)"
    "sd_declaration_order d = (if True then next_order_of h s + 1 else next_order_of h s)"
  have h: "scope_graph_ok h" "lp_scope_id p < length (sg_scopes h)"
    "prefix (map node_key (sg_scopes g)) (map node_key (sg_scopes h))"
    "lp_declaration_order p \<le> next_order_of h (lp_scope_id p)"
    using g keys_same_fields(1) by (auto simp: same_lookups_def)
  have ok: "scope_graph_ok h'"
    using graph_ok_declare [OF h(1)] new(1) by (metis snd_conv)
  have scopes: "sg_scopes h' = sg_scopes (snd (reserve_declaration_order_at h s))"
    using new(5) by simp
  have keys: "prefix (map node_key (sg_scopes h)) (map node_key (sg_scopes h'))"
    by (simp add: scopes reserve_order_keys)
  have roots: "order_root_of h' q = order_root_of h q" if "q < length (sg_scopes h)" for q
    using next_order_keys [OF keys that] .
  note up = less_next_order [OF wrap]
  have hidden: "\<not> found_in_scope h' ns n p a d"
    if "ns \<noteq> PSX_NAMESPACE_LABEL" "encloses h a (lp_scope_id p)" for ns n a
  proof
    assume found: "found_in_scope h' ns n p a d"
    then have a: "a = s"
      using new(3) by (simp add: found_in_scope_def)
    then have "order_root_of h s = order_root_of h (lp_scope_id p)"
      using s that(2) visible_from_iff [OF h(1) new(4) h(2)] by simp
    moreover from this have "next_order_of h (lp_scope_id p) = next_order_of h s"
      by (simp add: next_order_of_def)
    ultimately have "sd_declaration_order d > lp_declaration_order p"
      using new(6) h(4) up by simp
    then show False
      using found that(1) a roots [OF new(4)] roots [OF h(2)]
        \<open>order_root_of h s = order_root_of h (lp_scope_id p)\<close>
      by (simp add: found_in_scope_def)
  qed
  have "lookup_loop h' ns n p (lp_scope_id p) = lookup_loop h ns n p (lp_scope_id p)"
    if "ns \<noteq> PSX_NAMESPACE_LABEL" for ns n
    using lookup_loop_append [OF h(1) keys new(2) h(2) _ h(2) encloses.itself] hidden [OF that] by simp
  moreover have "next_order_of h (lp_scope_id p) \<le> next_order_of h' (lp_scope_id p)"
    using reserve_next_order [OF h(1) new(4) h(2) scopes] up [of "next_order_of h s"]
    by (auto simp: next_order_of_def)
  ultimately show ?thesis
    using g ok keys h new(1)
    by (auto simp: same_lookups_def intro: prefix_order.trans order_trans)
qed

lemma later_same_lookups:
  assumes "scope_graph_ok g" "p = psx_scope_graph_capture_lookup_point g"
  shows "later_graph p g h \<Longrightarrow> same_lookups p g h"
proof (induction rule: later_graph.induct)
  case now
  then show ?case
    using assms
    by (simp add: same_lookups_def psx_scope_graph_capture_lookup_point_def scope_graph_ok_def)
next
  case (scope h s k)
  have "scope_graph_ok (snd (psx_scope_graph_create_scope_at h s k))"
    using apply_scope_op_ok [of h "Create_scope s k"] scope.IH by (simp add: same_lookups_def)
  then show ?case
    using same_lookups_scopes [OF scope.IH] scope.IH
    by (rule_tac create_scope_cases [of h s k]) simp_all
next
  case (enter h k)
  have "scope_graph_ok (snd (psx_scope_graph_enter_scope h k))"
    using apply_scope_op_ok [of h "Enter_scope k"] enter.IH by (simp add: same_lookups_def)
  then show ?case
    using same_lookups_scopes [OF enter.IH] enter.IH
    by (rule_tac create_scope_cases [of h "sg_current_scope h" k])
      (simp_all add: psx_scope_graph_enter_scope_def)
next
  case (leave h h')
  have "scope_graph_ok h'"
    using apply_scope_op_ok [of h Leave_scope] leave by (simp add: same_lookups_def)
  moreover have "sg_scopes h' = sg_scopes h @ []" "sg_declarations h' = sg_declarations h"
    using leave.hyps(2) by (auto simp: psx_scope_graph_leave_scope_def split: if_splits)
  ultimately show ?case
    using same_lookups_scopes [OF leave.IH] by blast
next
  case (declared h s ns k n payload)
  then show ?case
    using same_lookups_declare by (simp add: psx_scope_graph_declare_at_def)
qed


section \<open>Checkpoints\<close>

lemma restore_prefix_same:
  assumes keys: "prefix (map key xs) (map key ys)"
    and put: "\<And>x y. key x = key y \<Longrightarrow> put y (get x) = x"
  shows "restore_prefix put (take (length xs) ys) (map get xs) = xs"
proof -
  from keys obtain zs where zs: "map key ys = map key xs @ zs"
    by (rule prefixE)
  have "length (map key ys) = length xs + length zs"
    by (simp add: zs)
  then have len: "length xs \<le> length ys"
    by simp
  have "put (ys ! i) (get (xs ! i)) = xs ! i" if "i < length xs" for i
  proof (rule put)
    show "key (xs ! i) = key (ys ! i)"
      using arg_cong [OF zs, of "\<lambda>l. l ! i"] that len by (simp add: nth_append)
  qed
  then show ?thesis
    using len by (auto simp: restore_prefix_def list_eq_iff_nth_eq min_def)
qed

text \<open>A graph that has only grown: what was there is the same, up to counters and hiding.\<close>

definition grown :: "psx_scope_graph_t \<Rightarrow> psx_scope_graph_t \<Rightarrow> bool" where
  "grown g h \<longleftrightarrow>
     prefix (map node_key (sg_scopes g)) (map node_key (sg_scopes h)) \<and>
     prefix (map decl_key (sg_declarations g)) (map decl_key (sg_declarations h))"

lemma grown_refl [simp]: "grown g g"
  by (simp add: grown_def)

lemma grown_trans: "grown g h \<Longrightarrow> grown h k \<Longrightarrow> grown g k"
  by (auto simp: grown_def intro: prefix_order.trans)

lemma rollback_of_grown:
  assumes "psx_scope_graph_checkpoint_begin g c = Some cp" "grown g h"
  shows "psx_scope_graph_checkpoint_rollback h cp = (g, empty_checkpoint)"
proof -
  have cp: "cp = \<lparr>cp_scope_count = length (sg_scopes g),
      cp_declaration_count = length (sg_declarations g), cp_current_scope = sg_current_scope g,
      cp_declaration_orders = map sn_next_declaration_order (sg_scopes g),
      cp_declaration_lookup_hidden = map sd_hidden_from_lookup (sg_declarations g),
      cp_active = True\<rparr>"
    using assms(1) by (auto simp: psx_scope_graph_checkpoint_begin_def split: if_splits)
  have "restore_prefix (\<lambda>n order. n\<lparr>sn_next_declaration_order := order\<rparr>)
      (take (length (sg_scopes g)) (sg_scopes h)) (map sn_next_declaration_order (sg_scopes g)) =
      sg_scopes g"
  proof (rule restore_prefix_same)
    show "prefix (map node_key (sg_scopes g)) (map node_key (sg_scopes h))"
      using assms(2) by (simp add: grown_def)
    show "y\<lparr>sn_next_declaration_order := sn_next_declaration_order x\<rparr> = x"
      if "node_key x = node_key y" for x y
      using that by (cases x, cases y) (simp add: node_key_def)
  qed
  moreover have "restore_prefix (\<lambda>d hidden. d\<lparr>sd_hidden_from_lookup := hidden\<rparr>)
      (take (length (sg_declarations g)) (sg_declarations h))
      (map sd_hidden_from_lookup (sg_declarations g)) = sg_declarations g"
  proof (rule restore_prefix_same)
    show "prefix (map decl_key (sg_declarations g)) (map decl_key (sg_declarations h))"
      using assms(2) by (simp add: grown_def)
    show "y\<lparr>sd_hidden_from_lookup := sd_hidden_from_lookup x\<rparr> = x"
      if "decl_key x = decl_key y" for x y
      using that by (cases x, cases y) (simp add: decl_key_def)
  qed
  ultimately show ?thesis
    by (simp add: psx_scope_graph_checkpoint_rollback_def cp)
qed

text \<open>The operations a checkpoint covers: all but those that rewrite a declaration in place.\<close>

fun covered_by_checkpoint :: "scope_op \<Rightarrow> bool" where
  "covered_by_checkpoint (Forget d) = False"
| "covered_by_checkpoint (Note_source d n i off len) = False"
| "covered_by_checkpoint (Rehome d s) = False"
| "covered_by_checkpoint c = True"

text \<open>A run between a checkpoint and its end, in which inner checkpoints may be rolled back.\<close>

inductive checkpoint_run :: "psx_scope_graph_t \<Rightarrow> psx_scope_graph_t \<Rightarrow> bool" where
  start: "checkpoint_run g g"
| op: "checkpoint_run g h \<Longrightarrow> covered_by_checkpoint c \<Longrightarrow> checkpoint_run g (apply_scope_op c h)"
| inner: "checkpoint_run g h \<Longrightarrow> psx_scope_graph_checkpoint_begin h c = Some cp \<Longrightarrow>
    checkpoint_run h k \<Longrightarrow> checkpoint_run g (fst (psx_scope_graph_checkpoint_rollback k cp))"

lemma grown_declare: "grown g (snd (declare_at g s ns k n p a))"
  by (rule declare_at_cases [of g s ns k n p a]) (auto simp: grown_def reserve_order_keys)

lemma grown_create_scope: "grown g (snd (psx_scope_graph_create_scope_at g p k))"
  by (rule create_scope_cases [of g p k]) (auto simp: grown_def)

lemma grown_alias: "grown g (snd (psx_scope_graph_declare_linkage_alias_at g s n i))"
proof (cases "psx_scope_graph_declaration g i")
  case None
  then show ?thesis
    by (simp add: psx_scope_graph_declare_linkage_alias_at_def)
next
  case (Some d)
  let ?r = "declare_at g s PSX_NAMESPACE_ORDINARY PSX_DECL_LINKAGE_ALIAS (Some n) 0 True"
  let ?h = "(snd ?r)\<lparr>sg_declarations := (sg_declarations (snd ?r))
      [fst ?r - 1 := (sg_declarations (snd ?r) ! (fst ?r - 1))\<lparr>sd_aliased_declaration_id := i\<rparr>]\<rparr>"
  have "grown g ?h" if "fst ?r \<noteq> 0"
    using that
    by (rule_tac declare_at_cases [of g s PSX_NAMESPACE_ORDINARY PSX_DECL_LINKAGE_ALIAS "Some n" 0 True])
      (auto simp: grown_def reserve_order_keys)
  then show ?thesis
    using Some grown_declare [of g s PSX_NAMESPACE_ORDINARY PSX_DECL_LINKAGE_ALIAS "Some n" 0 True]
    by (auto simp: psx_scope_graph_declare_linkage_alias_at_def split_beta Let_def)
qed

lemma grown_op:
  assumes "covered_by_checkpoint c"
  shows "grown g (apply_scope_op c g)"
proof (cases c)
  case (Create_scope p k)
  then show ?thesis
    using grown_create_scope by simp
next
  case (Enter_scope k)
  then show ?thesis
    using grown_create_scope [of g "sg_current_scope g" k]
    by (auto simp: psx_scope_graph_enter_scope_def split_beta grown_def)
next
  case Leave_scope
  then show ?thesis
    by (auto simp: psx_scope_graph_leave_scope_def grown_def)
next
  case Reserve_order
  then show ?thesis
    by (auto simp: psx_scope_graph_reserve_declaration_order_def grown_def reserve_order_keys)
next
  case Declare
  then show ?thesis
    using grown_declare
    by (simp add: psx_scope_graph_declare_at_def psx_scope_graph_declare_synthetic_at_def)
next
  case Declare_alias
  then show ?thesis
    using grown_alias by simp
next
  case (Hide d h)
  have "map decl_key (xs[i := (xs ! i)\<lparr>sd_hidden_from_lookup := h\<rparr>]) = map decl_key xs" for xs i
    by (cases "i < length xs") (simp_all add: map_update list_update_same_conv list_update_beyond)
  then show ?thesis
    by (auto simp: Hide psx_scope_graph_set_declaration_hidden_from_lookup_def change_declaration_def
        grown_def)
qed (use assms in simp_all)

lemma checkpoint_run_grown: "checkpoint_run g h \<Longrightarrow> grown g h"
proof (induction rule: checkpoint_run.induct)
  case (op g h c)
  then show ?case
    using grown_op grown_trans by blast
next
  case (inner g h c cp k)
  then show ?case
    by (simp add: rollback_of_grown)
qed simp

section \<open>Properties\<close>

text \<open>
  The scopes form a tree that all walks can climb: in every graph the program can build the current
  scope exists, every scope has a depth, which is one more than that of its parent, every scope sees
  the translation unit, and the nearest scope of a kind is found when one is visible.
\<close>

theorem scope_walks_return:
  assumes "scope_graph_reachable g" "s < length (sg_scopes g)"
  shows "psx_scope_graph_current_scope g < psx_scope_graph_next_scope_id g \<and>
    (\<exists>n. psx_scope_graph_scope_depth g s = Some (int n)) \<and>
    (s \<noteq> PSX_SCOPE_ID_TRANSLATION_UNIT \<longrightarrow>
       psx_scope_graph_scope_depth g s =
         map_option (\<lambda>n. n + 1) (psx_scope_graph_scope_depth g (sn_parent_id (sg_scopes g ! s)))) \<and>
    psx_scope_graph_scope_is_visible_from g PSX_SCOPE_ID_TRANSLATION_UNIT s = Some True \<and>
    (\<exists>r. psx_scope_graph_nearest_scope_of_kind g s k = Some r \<and>
       (if r = PSX_SCOPE_ID_INVALID
        then \<forall>a < length (sg_scopes g). psx_scope_graph_scope_is_visible_from g a s = Some True \<longrightarrow>
               psx_scope_graph_scope_kind g a \<noteq> k
        else psx_scope_graph_scope_is_visible_from g r s = Some True \<and>
             psx_scope_graph_scope_kind g r = k))"
proof -
  note ok = scope_graph_reachable_ok [OF assms(1)]
  obtain r where r: "nearest_scope_loop g s k = Some r"
    "if r = PSX_SCOPE_ID_INVALID then \<forall>a. encloses g a s \<longrightarrow> sn_kind (sg_scopes g ! a) \<noteq> k
     else encloses g r s \<and> sn_kind (sg_scopes g ! r) = k"
    using nearest_scope_loop_spec [OF ok assms(2), of k] by (auto split: if_splits)
  have "\<exists>r. psx_scope_graph_nearest_scope_of_kind g s k = Some r \<and>
      (if r = PSX_SCOPE_ID_INVALID
       then \<forall>a < length (sg_scopes g). psx_scope_graph_scope_is_visible_from g a s = Some True \<longrightarrow>
              psx_scope_graph_scope_kind g a \<noteq> k
       else psx_scope_graph_scope_is_visible_from g r s = Some True \<and>
            psx_scope_graph_scope_kind g r = k)"
    using r assms(2) visible_from_iff [OF ok _ assms(2)] encloses_le [OF ok _ assms(2)]
    by (intro exI [of _ r])
      (fastforce simp: psx_scope_graph_nearest_scope_of_kind_def psx_scope_graph_scope_kind_def
        split: if_splits)
  moreover have "\<exists>n. psx_scope_graph_scope_depth g s = Some (int n)"
    using scope_depth_loop_returns [OF ok assms(2), of 0] assms(2)
    by (simp add: psx_scope_graph_scope_depth_def)
  ultimately show ?thesis
    using ok assms(2) scope_depth_parent [OF ok assms(2)] encloses_root [OF ok assms(2)]
      visible_from_iff [OF ok graph_root_parent(2) [OF ok] assms(2)]
    by (simp add: psx_scope_graph_current_scope_def psx_scope_graph_next_scope_id_def
        scope_graph_ok_def)
qed

text \<open>
  C14. Lookup finds the innermost declaration, and in its scope the latest: every other declaration that
  could be found from the same point lies in a scope around it or earlier in the same scope. It
  answers 0 exactly when no declaration can be found in any visible scope.
\<close>

theorem lookup_finds_innermost:
  assumes "scope_graph_reachable g" "lp_scope_id p < length (sg_scopes g)" "n \<noteq> []"
  shows "\<exists>i. psx_scope_graph_lookup g ns (Some n) p = Some i \<and>
    (let ds = sg_declarations g; scope = (\<lambda>k. sd_scope_id (ds ! k));
         found = (\<lambda>k. k < length ds \<and>
           psx_scope_graph_scope_is_visible_from g (scope k) (lp_scope_id p) = Some True \<and>
           found_in_scope g ns n p (scope k) (ds ! k))
     in if i = PSX_DECL_ID_INVALID then \<forall>k. \<not> found k
        else \<exists>k. found k \<and> i = resolved_declaration_id g (ds ! k) \<and>
          (\<forall>j. found j \<longrightarrow>
             psx_scope_graph_scope_is_visible_from g (scope j) (scope k) = Some True \<and>
             (scope j = scope k \<longrightarrow> j \<le> k)))"
proof -
  note ok = scope_graph_reachable_ok [OF assms(1)]
  have scope: "sd_scope_id (sg_declarations g ! k) < length (sg_scopes g)"
    if "k < length (sg_declarations g)" for k
    using ok that by (simp add: scope_graph_ok_def declaration_ok_def)
  have visible: "psx_scope_graph_scope_is_visible_from g (sd_scope_id (sg_declarations g ! k)) s =
      Some (encloses g (sd_scope_id (sg_declarations g ! k)) s)"
    if "k < length (sg_declarations g)" "s < length (sg_scopes g)" for k s
    using visible_from_iff [OF ok scope [OF that(1)] that(2)] .
  have found: "(k < length (sg_declarations g) \<and>
      psx_scope_graph_scope_is_visible_from g (sd_scope_id (sg_declarations g ! k)) (lp_scope_id p) =
        Some True \<and>
      found_in_scope g ns n p (sd_scope_id (sg_declarations g ! k)) (sg_declarations g ! k)) =
    (k < length (sg_declarations g) \<and> found_from g ns n p (lp_scope_id p) k)" for k
    using visible [of k "lp_scope_id p"] assms(2) by (auto simp: found_from_def)
  obtain i where i: "lookup_loop g ns n p (lp_scope_id p) = Some i"
    and spec: "if i = 0 then \<forall>k < length (sg_declarations g). \<not> found_from g ns n p (lp_scope_id p) k
      else \<exists>k < length (sg_declarations g). i = resolved_declaration_id g (sg_declarations g ! k) \<and>
        found_from g ns n p (lp_scope_id p) k \<and>
        (\<forall>j < length (sg_declarations g). found_from g ns n p (lp_scope_id p) j \<longrightarrow>
           encloses g (sd_scope_id (sg_declarations g ! j)) (sd_scope_id (sg_declarations g ! k)) \<and>
           (sd_scope_id (sg_declarations g ! j) = sd_scope_id (sg_declarations g ! k) \<longrightarrow> j \<le> k))"
    using lookup_loop_spec [OF ok assms(2)] by blast
  have "psx_scope_graph_lookup g ns (Some n) p = Some i"
    using i assms(2,3) by (simp add: psx_scope_graph_lookup_def)
  moreover have "if i = 0 then \<forall>k. \<not> (k < length (sg_declarations g) \<and> found_from g ns n p (lp_scope_id p) k)
      else \<exists>k. (k < length (sg_declarations g) \<and> found_from g ns n p (lp_scope_id p) k) \<and>
        i = resolved_declaration_id g (sg_declarations g ! k) \<and>
        (\<forall>j. j < length (sg_declarations g) \<and> found_from g ns n p (lp_scope_id p) j \<longrightarrow>
           psx_scope_graph_scope_is_visible_from g (sd_scope_id (sg_declarations g ! j))
             (sd_scope_id (sg_declarations g ! k)) = Some True \<and>
           (sd_scope_id (sg_declarations g ! j) = sd_scope_id (sg_declarations g ! k) \<longrightarrow> j \<le> k))"
    using spec visible scope by (auto split: if_splits)
  ultimately show ?thesis
    unfolding Let_def found by blast
qed

text \<open>
  C35. A captured lookup point keeps its meaning in every name space except that of labels: what is
  declared later in the order domain of its scope, or out of its sight, does not change what a name
  means there. Labels are left out because the lookup skips the order check for them: a label is in
  scope in its whole function, so one that is declared later is found from the point.
\<close>

theorem captured_point_stable:
  assumes "scope_graph_reachable g" "p = psx_scope_graph_capture_lookup_point g" "later_graph p g h"
    and "ns \<noteq> PSX_NAMESPACE_LABEL"
  shows "psx_scope_graph_lookup h ns n p = psx_scope_graph_lookup g ns n p"
proof -
  note ok = scope_graph_reachable_ok [OF assms(1)]
  have same: "same_lookups p g h"
    using later_same_lookups [OF ok assms(2,3)] .
  then have "lp_scope_id p < length (sg_scopes h)"
    using keys_same_fields(1) by (auto simp: same_lookups_def)
  then show ?thesis
    using same assms(4) by (auto simp: same_lookups_def psx_scope_graph_lookup_def split: option.split)
qed

text \<open>
  C36. Rolling a checkpoint back restores the graph it was taken from, whatever scopes were made and
  entered and whatever was declared, aliased and hidden since, inner checkpoints included.
\<close>

theorem rollback_restores:
  assumes "psx_scope_graph_checkpoint_begin g c = Some cp" "checkpoint_run g h"
  shows "psx_scope_graph_checkpoint_rollback h cp = (g, empty_checkpoint)"
  by (rule rollback_of_grown [OF assms(1) checkpoint_run_grown [OF assms(2)]])

section \<open>Witnesses\<close>

text \<open>A file scope with \<open>x\<close>, and a function whose block declares \<open>x\<close> again.\<close>

definition sample_ops :: "scope_op list" where
  "sample_ops =
    [Declare 0 PSX_NAMESPACE_ORDINARY PSX_DECL_GLOBAL_OBJECT (Some ''x'') 1 True,
     Enter_scope PSX_SCOPE_FUNCTION, Enter_scope PSX_SCOPE_BLOCK,
     Declare 2 PSX_NAMESPACE_ORDINARY PSX_DECL_LOCAL_OBJECT (Some ''x'') 2 True]"

definition sample_graph :: psx_scope_graph_t where
  "sample_graph = fold apply_scope_op sample_ops psx_scope_graph_create"

lemma fold_ops_reachable:
  "scope_graph_reachable g \<Longrightarrow> scope_graph_reachable (fold apply_scope_op cs g)"
  by (induction cs arbitrary: g) (auto intro: scope_graph_reachable.op)

lemma sample_reachable: "scope_graph_reachable sample_graph"
  unfolding sample_graph_def by (intro fold_ops_reachable scope_graph_reachable.create)

lemmas scope_graph_eval = psx_scope_graph_create_def psx_scope_graph_reset_def
  psx_scope_graph_create_scope_at_def psx_scope_graph_enter_scope_def psx_scope_graph_declare_at_def
  declare_at_def reserve_declaration_order_at_def next_order_of_def order_root_of_def
  PSX_SCOPE_ID_INVALID_def limit_defs

lemma sample_scopes:
  "sg_scopes sample_graph =
    [\<lparr>sn_id = 0, sn_parent_id = PSX_SCOPE_ID_INVALID, sn_order_root_id = 0,
      sn_kind = PSX_SCOPE_TRANSLATION_UNIT, sn_next_declaration_order = 1\<rparr>,
     \<lparr>sn_id = 1, sn_parent_id = 0, sn_order_root_id = 1, sn_kind = PSX_SCOPE_FUNCTION,
      sn_next_declaration_order = 1\<rparr>,
     \<lparr>sn_id = 2, sn_parent_id = 1, sn_order_root_id = 1, sn_kind = PSX_SCOPE_BLOCK,
      sn_next_declaration_order = 0\<rparr>]"
  "sg_current_scope sample_graph = 2" "length (sg_declarations sample_graph) = 2"
  "map sd_name (sg_declarations sample_graph) = [Some ''x'', Some ''x'']"
  "map sd_kind (sg_declarations sample_graph) = [PSX_DECL_GLOBAL_OBJECT, PSX_DECL_LOCAL_OBJECT]"
  by (simp_all add: sample_graph_def sample_ops_def scope_graph_eval)

lemma scope_walks_return_witness:
  "\<exists>n. psx_scope_graph_scope_depth sample_graph 2 = Some (int n)"
proof -
  have "2 < length (sg_scopes sample_graph)"
    by (simp add: sample_scopes)
  from scope_walks_return [OF sample_reachable this] show ?thesis
    by blast
qed

lemma lookup_finds_innermost_witness:
  "\<exists>i. psx_scope_graph_lookup sample_graph PSX_NAMESPACE_ORDINARY (Some ''x'')
     \<lparr>lp_scope_id = 2, lp_declaration_order = 1\<rparr> = Some i"
proof -
  have point: "lp_scope_id \<lparr>lp_scope_id = 2, lp_declaration_order = 1\<rparr> < length (sg_scopes sample_graph)"
    by (simp add: sample_scopes)
  have name: "''x'' \<noteq> []"
    by simp
  from lookup_finds_innermost [OF sample_reachable point name, of PSX_NAMESPACE_ORDINARY]
  show ?thesis
    by (elim exE conjE) (rule exI)
qed

lemma captured_point_stable_witness:
  "psx_scope_graph_lookup
     (snd (psx_scope_graph_declare_at sample_graph 1 PSX_NAMESPACE_ORDINARY PSX_DECL_LOCAL_OBJECT
        (Some ''y'') 3)) PSX_NAMESPACE_ORDINARY (Some ''y'')
     (psx_scope_graph_capture_lookup_point sample_graph) =
   psx_scope_graph_lookup sample_graph PSX_NAMESPACE_ORDINARY (Some ''y'')
     (psx_scope_graph_capture_lookup_point sample_graph)"
proof (rule captured_point_stable [OF sample_reachable refl])
  have "next_order_of sample_graph 1 \<noteq> - 1"
    "order_root_of sample_graph 1 =
       order_root_of sample_graph (lp_scope_id (psx_scope_graph_capture_lookup_point sample_graph))"
    by (simp_all add: next_order_of_def order_root_of_def sample_scopes
        psx_scope_graph_capture_lookup_point_def)
  then show "later_graph (psx_scope_graph_capture_lookup_point sample_graph) sample_graph
      (snd (psx_scope_graph_declare_at sample_graph 1 PSX_NAMESPACE_ORDINARY PSX_DECL_LOCAL_OBJECT
        (Some ''y'') 3))"
    by (intro later_graph.declared later_graph.now disjI1)
qed simp

lemma rollback_restores_witness:
  "\<exists>cp. psx_scope_graph_checkpoint_begin sample_graph empty_checkpoint = Some cp \<and>
     fst (psx_scope_graph_checkpoint_rollback (apply_scope_op (Hide 1 True) sample_graph) cp) =
       sample_graph"
proof -
  obtain cp where cp: "psx_scope_graph_checkpoint_begin sample_graph empty_checkpoint = Some cp"
    by (simp add: psx_scope_graph_checkpoint_begin_def empty_checkpoint_def)
  have "checkpoint_run sample_graph (apply_scope_op (Hide 1 True) sample_graph)"
    by (intro checkpoint_run.intros) simp
  from rollback_restores [OF cp this] cp show ?thesis
    by simp
qed

text \<open>
  A checkpoint does not cover the operations that rewrite a declaration: one that is forgotten stays
  forgotten after the rollback.
\<close>

lemma rollback_keeps_forgotten:
  "psx_scope_graph_checkpoint_begin sample_graph empty_checkpoint = Some cp \<Longrightarrow>
     psx_scope_graph_declaration sample_graph 1 \<noteq> None \<and>
     psx_scope_graph_declaration
       (fst (psx_scope_graph_checkpoint_rollback (apply_scope_op (Forget 1) sample_graph) cp)) 1 = None"
  by (auto simp: psx_scope_graph_checkpoint_begin_def empty_checkpoint_def
      psx_scope_graph_checkpoint_rollback_def psx_scope_graph_declaration_def restore_prefix_def
      psx_scope_graph_forget_declaration_def change_declaration_def sample_graph_def sample_ops_def
      scope_graph_eval)

text \<open>
  A declaration of the file that comes after the point is found from inside a function all the same,
  since the orders of the two scopes are not compared.
\<close>

lemma later_global_found:
  "psx_scope_graph_lookup sample_graph PSX_NAMESPACE_ORDINARY (Some ''z'')
     (psx_scope_graph_capture_lookup_point sample_graph) = Some 0"
  "psx_scope_graph_lookup
     (apply_scope_op (Declare 0 PSX_NAMESPACE_ORDINARY PSX_DECL_GLOBAL_OBJECT (Some ''z'') 1 True)
        sample_graph) PSX_NAMESPACE_ORDINARY (Some ''z'')
     (psx_scope_graph_capture_lookup_point sample_graph) = Some 3"
  by (simp_all add: psx_scope_graph_lookup_def psx_scope_graph_capture_lookup_point_def
      lookup_loop.simps found_in_scope_def declaration_name_matches_def resolved_declaration_id_def
      sample_graph_def sample_ops_def scope_graph_eval)

end
