(* ===== verification/IR.thy ===== *)
theory IR
  imports IntegerConversion
begin

text \<open>
  The mid-level intermediate representation: the data model of \<^verbatim>\<open>src/ir/ir.h\<close> and the value and
  instruction constructors of \<^verbatim>\<open>src/ir/ir_alloc.c\<close>. Linked lists of blocks, instructions and
  arguments are lists, in the order of the links. The eight bytes shared by \<^verbatim>\<open>imm\<close> and
  \<^verbatim>\<open>fp_imm\<close> are one \<open>i64\<close> (the bit pattern of the double for a floating immediate). The arms of the
  anonymous union of an instruction are separate fields, since every read is selected by the
  opcode.
\<close>

section \<open>Types of values\<close>

datatype ir_type_t =
    IR_TY_VOID | IR_TY_I8 | IR_TY_I16 | IR_TY_I32 | IR_TY_I64 | IR_TY_F32 | IR_TY_F64 | IR_TY_PTR

fun ir_type_fixed_size :: "ir_type_t \<Rightarrow> int" where
  "ir_type_fixed_size IR_TY_I8 = 1"
| "ir_type_fixed_size IR_TY_I16 = 2"
| "ir_type_fixed_size IR_TY_I32 = 4"
| "ir_type_fixed_size IR_TY_I64 = 8"
| "ir_type_fixed_size IR_TY_F32 = 4"
| "ir_type_fixed_size IR_TY_F64 = 8"
| "ir_type_fixed_size _ = 0"

definition ir_type_size_for_layout :: "ir_type_t \<Rightarrow> ag_data_layout_t option \<Rightarrow> int" where
  "ir_type_size_for_layout type data_layout =
    (if type = IR_TY_PTR then ag_data_layout_pointer_size data_layout else ir_type_fixed_size type)"

fun ir_type_name :: "ir_type_t \<Rightarrow> string" where
  "ir_type_name IR_TY_VOID = ''void''"
| "ir_type_name IR_TY_I8 = ''i8''"
| "ir_type_name IR_TY_I16 = ''i16''"
| "ir_type_name IR_TY_I32 = ''i32''"
| "ir_type_name IR_TY_I64 = ''i64''"
| "ir_type_name IR_TY_F32 = ''f32''"
| "ir_type_name IR_TY_F64 = ''f64''"
| "ir_type_name IR_TY_PTR = ''ptr''"

record ir_function_type_t =
  ft_type_id :: psx_type_id_t
  ft_result :: psx_qual_type_t
  ft_params :: "psx_qual_type_t list"
  ft_is_variadic :: bool
  ft_has_prototype :: bool

text \<open>The parameter array and its count are one list.\<close>

definition zero_function_type :: ir_function_type_t where
  "zero_function_type =
    \<lparr>ft_type_id = 0, ft_result = \<lparr>qt_type_id = 0, qt_qualifiers = 0\<rparr>, ft_params = [],
     ft_is_variadic = False, ft_has_prototype = False\<rparr>"

definition ir_function_type_dispose :: "ir_function_type_t \<Rightarrow> ir_function_type_t" where
  "ir_function_type_dispose type = zero_function_type"

text \<open>\<open>None\<close> is the failure flag, which leaves the destination as it was.\<close>

definition ir_function_type_set ::
  "psx_type_id_t \<Rightarrow> psx_qual_type_t \<Rightarrow> psx_qual_type_t list option \<Rightarrow> nat \<Rightarrow> bool \<Rightarrow> bool \<Rightarrow>
   ir_function_type_t option" where
  "ir_function_type_set type_id result params param_count is_variadic has_prototype =
    (if qt_type_id result = PSX_TYPE_ID_INVALID \<or> param_count > 0 \<and> params = None then None
     else let copy = (case params of None \<Rightarrow> [] | Some ps \<Rightarrow> take param_count ps)
          in Some \<lparr>ft_type_id = type_id, ft_result = result, ft_params = copy,
                   ft_is_variadic = is_variadic, ft_has_prototype = has_prototype\<rparr>)"

fun ir_function_type_copy :: "ir_function_type_t option \<Rightarrow> ir_function_type_t option" where
  "ir_function_type_copy None = None"
| "ir_function_type_copy (Some source) =
    ir_function_type_set (ft_type_id source) (ft_result source) (Some (ft_params source))
      (length (ft_params source)) (ft_is_variadic source) (ft_has_prototype source)"

section \<open>Opcodes\<close>

datatype (plugins only: size code) ir_op_t =
    IR_NOP | IR_ADD | IR_SUB | IR_MUL | IR_DIV | IR_MOD | IR_UDIV | IR_UMOD | IR_AND | IR_OR
  | IR_XOR | IR_SHL | IR_SHR | IR_LSR | IR_NEG | IR_NOT | IR_EQ | IR_NE | IR_LT | IR_LE
  | IR_ULT | IR_ULE | IR_FADD | IR_FSUB | IR_FMUL | IR_FDIV | IR_FNEG | IR_FEQ | IR_FNE
  | IR_FLT | IR_FLE | IR_ZEXT | IR_SEXT | IR_TRUNC | IR_F2I | IR_I2F | IR_F2F | IR_LOAD
  | IR_STORE | IR_ALLOCA | IR_LEA | IR_MEMCPY | IR_LOAD_IMM | IR_LOAD_FP_IMM | IR_LOAD_STR
  | IR_LOAD_SYM | IR_LOAD_TLS_SYM | IR_BR | IR_BR_COND | IR_LABEL | IR_RET
  | IR_CONTINUATION_SUSPEND | IR_CALL | IR_PARAM_BIND | IR_VARARG_CURSOR | IR_VLA_ALLOC
  | IR_STACK_SAVE | IR_STACK_RESTORE | IR_ATOMIC | IR_ALIGN_PTR

primrec ir_op_name :: "ir_op_t \<Rightarrow> string" where
  "ir_op_name IR_NOP = ''nop''"
| "ir_op_name IR_ADD = ''add''"
| "ir_op_name IR_SUB = ''sub''"
| "ir_op_name IR_MUL = ''mul''"
| "ir_op_name IR_DIV = ''div''"
| "ir_op_name IR_MOD = ''mod''"
| "ir_op_name IR_UDIV = ''udiv''"
| "ir_op_name IR_UMOD = ''umod''"
| "ir_op_name IR_AND = ''and''"
| "ir_op_name IR_OR = ''or''"
| "ir_op_name IR_XOR = ''xor''"
| "ir_op_name IR_SHL = ''shl''"
| "ir_op_name IR_SHR = ''shr''"
| "ir_op_name IR_LSR = ''lsr''"
| "ir_op_name IR_NEG = ''neg''"
| "ir_op_name IR_NOT = ''not''"
| "ir_op_name IR_EQ = ''eq''"
| "ir_op_name IR_NE = ''ne''"
| "ir_op_name IR_LT = ''lt''"
| "ir_op_name IR_LE = ''le''"
| "ir_op_name IR_ULT = ''ult''"
| "ir_op_name IR_ULE = ''ule''"
| "ir_op_name IR_FADD = ''fadd''"
| "ir_op_name IR_FSUB = ''fsub''"
| "ir_op_name IR_FMUL = ''fmul''"
| "ir_op_name IR_FDIV = ''fdiv''"
| "ir_op_name IR_FNEG = ''fneg''"
| "ir_op_name IR_FEQ = ''feq''"
| "ir_op_name IR_FNE = ''fne''"
| "ir_op_name IR_FLT = ''flt''"
| "ir_op_name IR_FLE = ''fle''"
| "ir_op_name IR_ZEXT = ''zext''"
| "ir_op_name IR_SEXT = ''sext''"
| "ir_op_name IR_TRUNC = ''trunc''"
| "ir_op_name IR_F2I = ''f2i''"
| "ir_op_name IR_I2F = ''i2f''"
| "ir_op_name IR_F2F = ''f2f''"
| "ir_op_name IR_LOAD = ''load''"
| "ir_op_name IR_STORE = ''store''"
| "ir_op_name IR_ALLOCA = ''alloca''"
| "ir_op_name IR_LEA = ''lea''"
| "ir_op_name IR_MEMCPY = ''memcpy''"
| "ir_op_name IR_LOAD_IMM = ''load_imm''"
| "ir_op_name IR_LOAD_FP_IMM = ''load_fp_imm''"
| "ir_op_name IR_LOAD_STR = ''load_str''"
| "ir_op_name IR_LOAD_SYM = ''load_sym''"
| "ir_op_name IR_LOAD_TLS_SYM = ''load_tls_sym''"
| "ir_op_name IR_BR = ''br''"
| "ir_op_name IR_BR_COND = ''br_cond''"
| "ir_op_name IR_LABEL = ''label''"
| "ir_op_name IR_RET = ''ret''"
| "ir_op_name IR_CONTINUATION_SUSPEND = ''continuation_suspend''"
| "ir_op_name IR_CALL = ''call''"
| "ir_op_name IR_PARAM_BIND = ''param_bind''"
| "ir_op_name IR_VARARG_CURSOR = ''vararg_cursor''"
| "ir_op_name IR_VLA_ALLOC = ''vla_alloc''"
| "ir_op_name IR_STACK_SAVE = ''stack_save''"
| "ir_op_name IR_STACK_RESTORE = ''stack_restore''"
| "ir_op_name IR_ATOMIC = ''atomic''"
| "ir_op_name IR_ALIGN_PTR = ''align_ptr''"

datatype ir_atomic_kind_t =
    IR_ATOMIC_LOAD | IR_ATOMIC_STORE | IR_ATOMIC_RMW | IR_ATOMIC_CAS | IR_ATOMIC_FENCE

datatype ir_atomic_rmw_op_t =
    IR_ARMW_ADD | IR_ARMW_SUB | IR_ARMW_OR | IR_ARMW_AND | IR_ARMW_XOR | IR_ARMW_XCHG

section \<open>Values\<close>

abbreviation (input) IR_VAL_IMM :: int where "IR_VAL_IMM \<equiv> - 1"
abbreviation (input) IR_VAL_NONE :: int where "IR_VAL_NONE \<equiv> - 2"

record ir_val_t =
  v_id :: int
  v_type :: ir_type_t
  v_imm :: i64

definition ir_val_none :: ir_val_t where
  "ir_val_none = \<lparr>v_id = IR_VAL_NONE, v_type = IR_TY_VOID, v_imm = 0\<rparr>"

definition ir_val_imm :: "ir_type_t \<Rightarrow> i64 \<Rightarrow> ir_val_t" where
  "ir_val_imm t imm = \<lparr>v_id = IR_VAL_IMM, v_type = t, v_imm = imm\<rparr>"

definition ir_val_fp_imm :: "ir_type_t \<Rightarrow> i64 \<Rightarrow> ir_val_t" where
  "ir_val_fp_imm t v = \<lparr>v_id = IR_VAL_IMM, v_type = t, v_imm = v\<rparr>"

definition ir_val_vreg :: "int \<Rightarrow> ir_type_t \<Rightarrow> ir_val_t" where
  "ir_val_vreg n t = \<lparr>v_id = n, v_type = t, v_imm = 0\<rparr>"

datatype ir_call_argument_representation_t =
    IR_CALL_ARGUMENT_VALUE | IR_CALL_ARGUMENT_ADDRESS

record ir_call_argument_t =
  arg_value :: ir_val_t
  arg_type :: psx_qual_type_t
  arg_representation :: ir_call_argument_representation_t

section \<open>Instructions, blocks, functions\<close>

text \<open>A NULL \<^verbatim>\<open>args\<close> is the empty list; \<^verbatim>\<open>nargs\<close> bounds every traversal of it.\<close>

record ir_inst_t =
  i_op :: ir_op_t
  i_nargs :: nat
  i_dst :: ir_val_t
  i_src1 :: ir_val_t
  i_src2 :: ir_val_t
  i_sym :: "string option"
  i_reference_c_signature :: "string option"
  i_args :: "ir_call_argument_t list"
  i_result_storage :: ir_val_t
  i_callee :: ir_val_t
  i_src3 :: ir_val_t
  i_object_size :: int
  i_is_unsigned :: bool
  i_is_volatile :: bool
  i_function_type :: ir_function_type_t
  i_is_external_symbol :: bool
  i_is_function_symbol :: bool
  i_has_function_type :: bool
  i_label_id :: int
  i_else_label_id :: int
  i_alloca_size :: int
  i_alloca_align :: int
  i_is_void_call :: bool
  i_is_implicit_call :: bool
  i_is_noreturn_call :: bool
  i_parameter_index :: nat
  i_atomic_kind :: nat
  i_atomic_rmw_op :: nat
  i_atomic_width :: nat

definition ir_inst_new :: "ir_op_t \<Rightarrow> ir_inst_t" where
  "ir_inst_new op =
    \<lparr>i_op = op, i_nargs = 0, i_dst = ir_val_none, i_src1 = ir_val_none, i_src2 = ir_val_none,
     i_sym = None, i_reference_c_signature = None, i_args = [],
     i_result_storage = ir_val_none, i_callee = ir_val_none, i_src3 = ir_val_none,
     i_object_size = 0, i_is_unsigned = False, i_is_volatile = False,
     i_function_type = zero_function_type, i_is_external_symbol = False,
     i_is_function_symbol = False, i_has_function_type = False,
     i_label_id = (if op = IR_BR \<or> op = IR_BR_COND \<or> op = IR_LABEL then - 1 else 0),
     i_else_label_id = (if op = IR_BR \<or> op = IR_BR_COND \<or> op = IR_LABEL then - 1 else 0),
     i_alloca_size = 0, i_alloca_align = 0, i_is_void_call = False, i_is_implicit_call = False,
     i_is_noreturn_call = False, i_parameter_index = 0, i_atomic_kind = 0, i_atomic_rmw_op = 0,
     i_atomic_width = 0\<rparr>"

record ir_block_t =
  b_id :: int
  b_insts :: "ir_inst_t list"

text \<open>
  A function: its blocks from \<^verbatim>\<open>entry\<close> in link order (\<^verbatim>\<open>blocks_tail\<close> is the last one) and the
  position of \<^verbatim>\<open>cur_block\<close> in that list. \<open>f_vreg_phys_reg\<close> is NULL (\<open>None\<close>) until registers are
  allocated. The export names of a continuation entry are pure data the passes never read.
\<close>

record ir_func_t =
  f_name :: "string option"
  f_tracked :: bool
  f_tracked_instruction_count :: nat
  f_tracked_block_count :: nat
  f_function_type :: ir_function_type_t
  f_blocks :: "ir_block_t list"
  f_cur_block :: nat
  f_vreg_phys_reg :: "int list option"
  f_next_vreg_id :: int
  f_next_block_id :: int
  f_is_static :: bool

definition func_insts :: "ir_func_t \<Rightarrow> ir_inst_t list" where
  "func_insts f = concat (map b_insts (f_blocks f))"



definition vreg_ok :: "int \<Rightarrow> int \<Rightarrow> bool" where
  "vreg_ok nvregs v \<longleftrightarrow> 0 \<le> v \<and> v < nvregs"

text \<open>The operands every pass traverses, in the order of the code.\<close>

definition inst_args_read :: "ir_inst_t \<Rightarrow> ir_val_t list" where
  "inst_args_read inst = map arg_value (take (i_nargs inst) (i_args inst))"

definition inst_uses :: "ir_inst_t \<Rightarrow> int list" where
  "inst_uses inst =
    map v_id ([i_src1 inst, i_src2 inst, i_src3 inst] @ inst_args_read inst @
              [i_result_storage inst, i_callee inst])"

text \<open>The form both passes expect of a function: one definition per vreg.\<close>

definition def_vregs :: "int \<Rightarrow> ir_inst_t list \<Rightarrow> int list" where
  "def_vregs nvregs code = filter (vreg_ok nvregs) (map (\<lambda>inst. v_id (i_dst inst)) code)"

definition single_def :: "ir_func_t \<Rightarrow> bool" where
  "single_def f \<longleftrightarrow> distinct (def_vregs (f_next_vreg_id f) (func_insts f))"

end
