(* ===== verification/IROpt.thy ===== *)
theory IROpt
  imports IR ConstantEvaluation
begin

text \<open>
  The optimiser of \<^verbatim>\<open>src/ir/ir_opt.c\<close>: constant propagation with folding, and dead code
  elimination. Host arithmetic is modelled with its undefined cases, so a pass returns an
  \<open>outcome\<close>. The correctness of folding is stated against an execution of the instructions of a
  function along an arbitrary path.
\<close>

section \<open>Folding one operation\<close>

text \<open>Casts between \<^verbatim>\<open>long long\<close>, \<^verbatim>\<open>int\<close> and \<^verbatim>\<open>unsigned int\<close>, and the masked shift count.\<close>

definition low32 :: "i64 \<Rightarrow> u32" where "low32 a = ucast a"
definition sext32 :: "u32 \<Rightarrow> i64" where "sext32 a = scast a"
definition zext32 :: "u32 \<Rightarrow> i64" where "zext32 a = ucast a"

definition shift_count :: "bool \<Rightarrow> i64 \<Rightarrow> nat" where
  "shift_count is_i32 b = unat (b AND (if is_i32 then 31 else 63))"

definition eval_binop ::
  "ir_op_t \<Rightarrow> i64 \<Rightarrow> i64 \<Rightarrow> ir_type_t \<Rightarrow> ag_data_layout_t option \<Rightarrow> i64 outcome" where
  "eval_binop op a b ty data_layout =
    (let type_size = ir_type_size_for_layout ty data_layout; is_i32 = (type_size \<le> 4) in
     if type_size \<le> 0 then Refused
     else case op of
       IR_ADD \<Rightarrow> or_undefined (i64_checked (sint a + sint b))
     | IR_SUB \<Rightarrow> or_undefined (i64_checked (sint a - sint b))
     | IR_MUL \<Rightarrow> or_undefined (i64_checked (sint a * sint b))
     | IR_DIV \<Rightarrow> if b = 0 then Refused else c_div a b
     | IR_MOD \<Rightarrow> if b = 0 then Refused else c_mod a b
     | IR_AND \<Rightarrow> Value (a AND b)
     | IR_OR \<Rightarrow> Value (a OR b)
     | IR_XOR \<Rightarrow> Value (a XOR b)
     | IR_SHL \<Rightarrow> if is_i32 then Value (sext32 (push_bit (shift_count True b) (low32 a)))
                else Value (push_bit (shift_count False b) a)
     | IR_SHR \<Rightarrow> if is_i32 then Value (sext32 (signed_drop_bit (shift_count True b) (low32 a)))
                else Value (signed_drop_bit (shift_count False b) a)
     | IR_LSR \<Rightarrow> if is_i32 then Value (zext32 (drop_bit (shift_count True b) (low32 a)))
                else Value (drop_bit (shift_count False b) a)
     | IR_EQ \<Rightarrow> Value (c_bool (a = b))
     | IR_NE \<Rightarrow> Value (c_bool (a \<noteq> b))
     | IR_LT \<Rightarrow> Value (c_bool (sint a < sint b))
     | IR_LE \<Rightarrow> Value (c_bool (sint a \<le> sint b))
     | IR_ULT \<Rightarrow> Value (c_bool (a < b))
     | IR_ULE \<Rightarrow> Value (c_bool (a \<le> b))
     | IR_LEA \<Rightarrow> or_undefined (i64_checked (sint a + sint b))
     | _ \<Rightarrow> Refused)"

section \<open>Constant propagation\<close>

text \<open>The constant known for a vreg; the two arrays of the code have \<open>nvregs\<close> elements.\<close>

type_synonym const_map_t = "int \<Rightarrow> i64 option"

definition cm_init :: "int \<Rightarrow> const_map_t" where
  "cm_init nvregs = (\<lambda>_. None)"

definition substitute_with_const :: "const_map_t \<Rightarrow> int \<Rightarrow> ir_val_t \<Rightarrow> ir_val_t" where
  "substitute_with_const cm nvregs val =
    (if \<not> vreg_ok nvregs (v_id val) then val
     else case cm (v_id val) of
            None \<Rightarrow> val
          | Some c \<Rightarrow> val\<lparr>v_id := IR_VAL_IMM, v_imm := c\<rparr>)"

definition substitute_args ::
  "const_map_t \<Rightarrow> int \<Rightarrow> nat \<Rightarrow> ir_call_argument_t list \<Rightarrow> ir_call_argument_t list" where
  "substitute_args cm nvregs nargs args =
    map (\<lambda>arg. arg\<lparr>arg_value := substitute_with_const cm nvregs (arg_value arg)\<rparr>)
      (take nargs args) @ drop nargs args"

definition substitute_inst :: "const_map_t \<Rightarrow> int \<Rightarrow> ir_inst_t \<Rightarrow> ir_inst_t" where
  "substitute_inst cm nvregs inst =
    inst\<lparr>i_src1 := substitute_with_const cm nvregs (i_src1 inst),
         i_src2 := substitute_with_const cm nvregs (i_src2 inst),
         i_args := substitute_args cm nvregs (i_nargs inst) (i_args inst),
         i_result_storage := substitute_with_const cm nvregs (i_result_storage inst)\<rparr>"

text \<open>Recording the constant of the destination, and turning an instruction into \<^verbatim>\<open>LOAD_IMM\<close>.\<close>

definition set_dst :: "const_map_t \<Rightarrow> int \<Rightarrow> int \<Rightarrow> i64 option \<Rightarrow> const_map_t" where
  "set_dst cm nvregs v c = (if vreg_ok nvregs v then cm(v := c) else cm)"

definition as_load_imm :: "ir_inst_t \<Rightarrow> i64 \<Rightarrow> ir_inst_t" where
  "as_load_imm inst v =
    inst\<lparr>i_op := IR_LOAD_IMM,
         i_src1 := \<lparr>v_id = IR_VAL_IMM, v_type = v_type (i_dst inst), v_imm = v\<rparr>,
         i_src2 := (i_src2 inst)\<lparr>v_id := IR_VAL_NONE\<rparr>\<rparr>"

text \<open>The fall-through of the loop body, when the operation was not evaluated.\<close>

definition const_fold_lea ::
  "int \<Rightarrow> const_map_t \<Rightarrow> ir_inst_t \<Rightarrow> const_map_t \<times> ir_inst_t" where
  "const_fold_lea nvregs cm inst =
    (if i_op inst = IR_LEA \<and> v_id (i_src2 inst) = IR_VAL_IMM \<and> v_imm (i_src2 inst) = 0 \<and>
        v_id (i_src1 inst) = IR_VAL_IMM \<and> vreg_ok nvregs (v_id (i_dst inst))
     then (set_dst cm nvregs (v_id (i_dst inst)) (Some (v_imm (i_src1 inst))),
           as_load_imm inst (v_imm (i_src1 inst)))
     else (set_dst cm nvregs (v_id (i_dst inst)) None, inst))"

definition const_fold_inst ::
  "int \<Rightarrow> ag_data_layout_t option \<Rightarrow> const_map_t \<Rightarrow> ir_inst_t \<Rightarrow>
   (const_map_t \<times> ir_inst_t) outcome" where
  "const_fold_inst nvregs data_layout cm inst0 =
    (let inst = substitute_inst cm nvregs inst0 in
     if i_op inst = IR_LOAD_IMM then
       Value (set_dst cm nvregs (v_id (i_dst inst)) (Some (v_imm (i_src1 inst))), inst)
     else if v_id (i_src1 inst) = IR_VAL_IMM \<and> v_id (i_src2 inst) = IR_VAL_IMM \<and>
             vreg_ok nvregs (v_id (i_dst inst)) then
       (case eval_binop (i_op inst) (v_imm (i_src1 inst)) (v_imm (i_src2 inst))
               (v_type (i_dst inst)) data_layout of
          Value v \<Rightarrow> Value (set_dst cm nvregs (v_id (i_dst inst)) (Some v), as_load_imm inst v)
        | Refused \<Rightarrow> Value (const_fold_lea nvregs cm inst)
        | Undefined \<Rightarrow> Undefined)
     else Value (const_fold_lea nvregs cm inst))"

primrec const_fold_insts ::
  "int \<Rightarrow> ag_data_layout_t option \<Rightarrow> const_map_t \<Rightarrow> ir_inst_t list \<Rightarrow>
   (const_map_t \<times> ir_inst_t list) outcome" where
  "const_fold_insts nvregs data_layout cm [] = Value (cm, [])"
| "const_fold_insts nvregs data_layout cm (inst # rest) =
    outcome_bind (const_fold_inst nvregs data_layout cm inst) (\<lambda>(cm1, inst1).
      outcome_bind (const_fold_insts nvregs data_layout cm1 rest) (\<lambda>(cm2, rest2).
        Value (cm2, inst1 # rest2)))"

primrec const_fold_blocks ::
  "int \<Rightarrow> ag_data_layout_t option \<Rightarrow> const_map_t \<Rightarrow> ir_block_t list \<Rightarrow>
   (const_map_t \<times> ir_block_t list) outcome" where
  "const_fold_blocks nvregs data_layout cm [] = Value (cm, [])"
| "const_fold_blocks nvregs data_layout cm (block # rest) =
    outcome_bind (const_fold_insts nvregs data_layout cm (b_insts block)) (\<lambda>(cm1, insts).
      outcome_bind (const_fold_blocks nvregs data_layout cm1 rest) (\<lambda>(cm2, rest2).
        Value (cm2, block\<lparr>b_insts := insts\<rparr> # rest2)))"

definition const_fold_func ::
  "ir_func_t \<Rightarrow> ag_data_layout_t option \<Rightarrow> ir_func_t outcome" where
  "const_fold_func f data_layout =
    (if f_next_vreg_id f \<le> 0 then Value f
     else outcome_bind
            (const_fold_blocks (f_next_vreg_id f) data_layout (cm_init (f_next_vreg_id f))
               (f_blocks f))
            (\<lambda>(cm, blocks). Value (f\<lparr>f_blocks := blocks\<rparr>)))"

primrec const_fold_funcs ::
  "ag_data_layout_t option \<Rightarrow> ir_func_t list \<Rightarrow> ir_func_t list outcome" where
  "const_fold_funcs data_layout [] = Value []"
| "const_fold_funcs data_layout (f # rest) =
    outcome_bind (const_fold_func f data_layout) (\<lambda>f1.
      outcome_bind (const_fold_funcs data_layout rest) (\<lambda>rest1. Value (f1 # rest1)))"

text \<open>The module is its list of functions here; a NULL module is \<open>None\<close>.\<close>

definition ir_opt_const_fold ::
  "ir_func_t list option \<Rightarrow> ag_data_layout_t option \<Rightarrow> ir_func_t list option outcome" where
  "ir_opt_const_fold m data_layout =
    (case m of
       None \<Rightarrow> Value None
     | Some funcs \<Rightarrow>
         if \<not> ag_data_layout_is_valid data_layout then Value m
         else outcome_bind (const_fold_funcs data_layout funcs) (\<lambda>fs. Value (Some fs)))"

section \<open>Dead code elimination\<close>

definition side_effect_ops :: "ir_op_t list" where
  "side_effect_ops =
    [IR_STORE, IR_MEMCPY, IR_CALL, IR_BR, IR_BR_COND, IR_RET, IR_CONTINUATION_SUSPEND, IR_LABEL,
     IR_PARAM_BIND, IR_ALLOCA, IR_LOAD_TLS_SYM, IR_VLA_ALLOC, IR_STACK_RESTORE, IR_ATOMIC]"

definition has_side_effect :: "ir_inst_t \<Rightarrow> bool" where
  "has_side_effect inst \<longleftrightarrow>
     i_op inst = IR_LOAD \<and> i_is_volatile inst \<or> i_op inst \<in> set side_effect_ops"

type_synonym use_counts = "int \<Rightarrow> int"

definition add_use :: "int \<Rightarrow> int \<Rightarrow> int \<Rightarrow> use_counts \<Rightarrow> use_counts" where
  "add_use d nvregs v use_cnt = (if vreg_ok nvregs v then use_cnt(v := use_cnt v + d) else use_cnt)"

definition count_uses :: "int \<Rightarrow> ir_inst_t \<Rightarrow> use_counts \<Rightarrow> use_counts" where
  "count_uses nvregs inst use_cnt = fold (add_use 1 nvregs) (inst_uses inst) use_cnt"

definition count_all_uses :: "int \<Rightarrow> ir_inst_t list \<Rightarrow> use_counts" where
  "count_all_uses nvregs insts = fold (count_uses nvregs) insts (\<lambda>_. 0)"

definition mark_nop :: "ir_inst_t \<Rightarrow> ir_inst_t" where
  "mark_nop inst =
    inst\<lparr>i_op := IR_NOP,
         i_dst := (i_dst inst)\<lparr>v_id := IR_VAL_NONE\<rparr>,
         i_src1 := (i_src1 inst)\<lparr>v_id := IR_VAL_NONE\<rparr>,
         i_src2 := (i_src2 inst)\<lparr>v_id := IR_VAL_NONE\<rparr>,
         i_nargs := 0\<rparr>"

definition removable :: "int \<Rightarrow> use_counts \<Rightarrow> ir_inst_t \<Rightarrow> bool" where
  "removable nvregs use_cnt inst \<longleftrightarrow>
     \<not> has_side_effect inst \<and> i_op inst \<noteq> IR_NOP \<and> vreg_ok nvregs (v_id (i_dst inst)) \<and>
     use_cnt (v_id (i_dst inst)) = 0"

primrec dce_insts ::
  "int \<Rightarrow> use_counts \<Rightarrow> ir_inst_t list \<Rightarrow> use_counts \<times> nat \<times> ir_inst_t list" where
  "dce_insts nvregs use_cnt [] = (use_cnt, 0, [])"
| "dce_insts nvregs use_cnt (inst # rest) =
    (if removable nvregs use_cnt inst then
       let use_cnt1 = add_use (- 1) nvregs (v_id (i_src2 inst))
                        (add_use (- 1) nvregs (v_id (i_src1 inst)) use_cnt);
           (use_cnt2, removed, rest2) = dce_insts nvregs use_cnt1 rest
       in (use_cnt2, removed + 1, mark_nop inst # rest2)
     else
       let (use_cnt2, removed, rest2) = dce_insts nvregs use_cnt rest
       in (use_cnt2, removed, inst # rest2))"

primrec dce_blocks ::
  "int \<Rightarrow> use_counts \<Rightarrow> ir_block_t list \<Rightarrow> use_counts \<times> nat \<times> ir_block_t list" where
  "dce_blocks nvregs use_cnt [] = (use_cnt, 0, [])"
| "dce_blocks nvregs use_cnt (block # rest) =
    (let (use_cnt1, removed1, insts) = dce_insts nvregs use_cnt (b_insts block);
         (use_cnt2, removed2, rest2) = dce_blocks nvregs use_cnt1 rest
     in (use_cnt2, removed1 + removed2, block\<lparr>b_insts := insts\<rparr> # rest2))"

definition dce_pass_func :: "ir_func_t \<Rightarrow> nat \<times> ir_func_t" where
  "dce_pass_func f =
    (let nvregs = f_next_vreg_id f in
     if nvregs \<le> 0 then (0, f)
     else let (use_cnt, removed, blocks) =
                dce_blocks nvregs (count_all_uses nvregs (func_insts f)) (f_blocks f)
          in (removed, f\<lparr>f_blocks := blocks\<rparr>))"

text \<open>The number of instructions that are not yet \<^verbatim>\<open>NOP\<close>: a pass that removes one lowers it.\<close>

definition live_insts :: "ir_inst_t list \<Rightarrow> nat" where
  "live_insts insts = length (filter (\<lambda>inst. i_op inst \<noteq> IR_NOP) insts)"

lemma live_insts_simps [simp]:
  "live_insts [] = 0"
  "live_insts (inst # rest) = (if i_op inst = IR_NOP then 0 else 1) + live_insts rest"
  "live_insts (xs @ ys) = live_insts xs + live_insts ys"
  by (simp_all add: live_insts_def)

lemma dce_insts_live:
  "dce_insts nvregs use_cnt insts = (use_cnt', removed, insts') \<Longrightarrow>
   live_insts insts' + removed = live_insts insts"
  by (induction insts arbitrary: use_cnt use_cnt' removed insts')
     (fastforce simp: Let_def mark_nop_def removable_def split: if_splits prod.splits)+

lemma dce_blocks_live:
  "dce_blocks nvregs use_cnt blocks = (use_cnt', removed, blocks') \<Longrightarrow>
   live_insts (concat (map b_insts blocks')) + removed = live_insts (concat (map b_insts blocks))"
  by (induction blocks arbitrary: use_cnt use_cnt' removed blocks')
     (fastforce split: prod.splits dest: dce_insts_live)+

lemma dce_pass_live:
  "dce_pass_func f = (removed, f') \<Longrightarrow>
   live_insts (func_insts f') + removed = live_insts (func_insts f)"
  by (auto simp: dce_pass_func_def Let_def func_insts_def split: if_splits prod.splits
        dest: dce_blocks_live)

text \<open>\<^verbatim>\<open>while (dce_pass_func(f) > 0) {}\<close>\<close>

function dce_func :: "ir_func_t \<Rightarrow> ir_func_t" where
  "dce_func f = (case dce_pass_func f of (removed, f') \<Rightarrow> if removed > 0 then dce_func f' else f')"
  by pat_completeness auto

termination dce_func
  by (relation "measure (\<lambda>f. live_insts (func_insts f))")
     (auto dest!: dce_pass_live [OF sym])

declare dce_func.simps [simp del]

definition ir_opt_dce :: "ir_func_t list option \<Rightarrow> ir_func_t list option" where
  "ir_opt_dce m = map_option (map dce_func) m"

definition ir_opt_copy_propagate :: "ir_func_t list option \<Rightarrow> ir_func_t list option" where
  "ir_opt_copy_propagate m = m"

section \<open>Execution of the instructions of a function\<close>

text \<open>
  The instructions of a function, block after block, executed along an arbitrary path. The
  machine is a parameter: \<open>alu\<close> computes the integer operations (\<open>None\<close> is a trap), and
  \<open>act\<close> performs every other instruction on the rest of the machine state, from the instruction
  without its operands, the operand values and the position; it yields the new state, the value
  for the destination and the next position. Reading a vreg that was never written is stuck. What
  is asked of the two is said below in terms of the meaning \<^verbatim>\<open>ir.h\<close> gives the opcodes, without the
  folder's \<^verbatim>\<open>eval_binop\<close> and the eliminator's \<^verbatim>\<open>has_side_effect\<close>.
\<close>

type_synonym env = "int \<Rightarrow> i64 option"

definition read_val :: "env \<Rightarrow> ir_val_t \<Rightarrow> i64 option" where
  "read_val env v =
    (if v_id v \<ge> 0 then env (v_id v) else if v_id v = IR_VAL_IMM then Some (v_imm v) else Some 0)"

definition write_val :: "env \<Rightarrow> ir_val_t \<Rightarrow> i64 \<Rightarrow> env" where
  "write_val env v c = (if v_id v \<ge> 0 then env(v_id v \<mapsto> c) else env)"

text \<open>An operand without its value, and an instruction without its operand values.\<close>

definition erase_val :: "ir_val_t \<Rightarrow> ir_val_t" where
  "erase_val v = (if v_id v = IR_VAL_NONE then v else v\<lparr>v_id := IR_VAL_IMM, v_imm := 0\<rparr>)"

definition erase_inst :: "ir_inst_t \<Rightarrow> ir_inst_t" where
  "erase_inst inst =
    inst\<lparr>i_src1 := erase_val (i_src1 inst), i_src2 := erase_val (i_src2 inst),
         i_args := map (\<lambda>arg. arg\<lparr>arg_value := erase_val (arg_value arg)\<rparr>)
                     (take (i_nargs inst) (i_args inst)),
         i_result_storage := erase_val (i_result_storage inst),
         i_src3 := erase_val (i_src3 inst), i_callee := erase_val (i_callee inst)\<rparr>"

definition operands :: "ir_inst_t \<Rightarrow> ir_val_t list" where
  "operands inst =
    [i_src1 inst, i_src2 inst, i_src3 inst] @ inst_args_read inst @
    [i_result_storage inst, i_callee inst]"

lemma inst_uses_operands: "inst_uses inst = map v_id (operands inst)"
  by (simp add: inst_uses_def operands_def)

definition folded_ops :: "ir_op_t list" where
  "folded_ops =
    [IR_ADD, IR_SUB, IR_MUL, IR_DIV, IR_MOD, IR_AND, IR_OR, IR_XOR, IR_SHL, IR_SHR, IR_LSR,
     IR_EQ, IR_NE, IR_LT, IR_LE, IR_ULT, IR_ULE, IR_LEA]"

type_synonym alu = "ir_op_t \<Rightarrow> ir_type_t \<Rightarrow> i64 \<Rightarrow> i64 \<Rightarrow> i64 option"
type_synonym 's act = "nat \<Rightarrow> ir_inst_t \<Rightarrow> i64 list \<Rightarrow> 's \<Rightarrow> ('s \<times> i64 \<times> nat) option"

definition exec_inst ::
  "alu \<Rightarrow> 's act \<Rightarrow> nat \<Rightarrow> ir_inst_t \<Rightarrow> env \<Rightarrow> 's \<Rightarrow> ('s \<times> i64 \<times> nat) option" where
  "exec_inst alu act pc inst env s =
    (if i_op inst = IR_NOP then Some (s, 0, pc + 1)
     else if i_op inst = IR_LOAD_IMM then Some (s, v_imm (i_src1 inst), pc + 1)
     else if i_op inst \<in> set folded_ops then
       (case (read_val env (i_src1 inst), read_val env (i_src2 inst)) of
          (Some a, Some b) \<Rightarrow>
            map_option (\<lambda>v. (s, v, pc + 1)) (alu (i_op inst) (v_type (i_dst inst)) a b)
        | _ \<Rightarrow> None)
     else if list_all (\<lambda>v. read_val env v \<noteq> None) (operands inst) then
       act pc (erase_inst inst) (map (\<lambda>v. the (read_val env v)) (operands inst)) s
     else None)"

definition exec_step ::
  "alu \<Rightarrow> 's act \<Rightarrow> ir_inst_t list \<Rightarrow> nat \<times> env \<times> 's \<Rightarrow> (nat \<times> env \<times> 's) option" where
  "exec_step alu act code st =
    (case st of (pc, env, s) \<Rightarrow>
       if pc < length code then
         (case exec_inst alu act pc (code ! pc) env s of
            None \<Rightarrow> None
          | Some (s', v, pc') \<Rightarrow> Some (pc', write_val env (i_dst (code ! pc)) v, s'))
       else None)"

primrec exec_steps ::
  "alu \<Rightarrow> 's act \<Rightarrow> ir_inst_t list \<Rightarrow> nat \<Rightarrow> nat \<times> env \<times> 's \<Rightarrow> (nat \<times> env \<times> 's) option" where
  "exec_steps alu act code 0 st = Some st"
| "exec_steps alu act code (Suc n) st =
    (case exec_steps alu act code n st of None \<Rightarrow> None | Some st' \<Rightarrow> exec_step alu act code st')"

section \<open>Dead code elimination preserves executions\<close>

definition uses :: "ir_inst_t list \<Rightarrow> int \<Rightarrow> nat" where
  "uses insts v = count_list (concat (map inst_uses insts)) v"

lemma count_list_append: "count_list (xs @ ys) v = count_list xs v + count_list ys v"
  by (induction xs) auto

lemma uses_simps [simp]:
  "uses [] v = 0" "uses (i # is) v = count_list (inst_uses i) v + uses is v"
  "uses (xs @ ys) v = uses xs v + uses ys v"
  by (simp_all add: uses_def count_list_append)

lemma fold_add_use:
  "vreg_ok nvregs v \<Longrightarrow> fold (add_use 1 nvregs) vs cnt v = cnt v + int (count_list vs v)"
  by (induction vs arbitrary: cnt) (auto simp: add_use_def)

lemma fold_count_uses:
  "vreg_ok nvregs v \<Longrightarrow> fold (count_uses nvregs) insts cnt v = cnt v + int (uses insts v)"
  by (induction insts arbitrary: cnt) (auto simp: count_uses_def fold_add_use)

lemma count_all_uses_eq: "vreg_ok nvregs v \<Longrightarrow> count_all_uses nvregs insts v = int (uses insts v)"
  by (simp add: count_all_uses_def fold_count_uses)

lemma count_list_mark_nop:
  "0 \<le> v \<Longrightarrow>
   count_list (inst_uses (mark_nop inst)) v + of_bool (v_id (i_src1 inst) = v) +
     of_bool (v_id (i_src2 inst) = v) \<le> count_list (inst_uses inst) v"
  by (auto simp: inst_uses_def mark_nop_def inst_args_read_def count_list_append)

text \<open>
  One pass: the counts stay above the real number of uses, and the destination of a removed
  instruction is not used by what is left.
\<close>

lemma dce_insts_sound:
  assumes "dce_insts nvregs cnt insts = (cnt', removed, insts')"
    and "\<And>v. vreg_ok nvregs v \<Longrightarrow> int (base v) + int (uses insts v) \<le> cnt v"
  shows "length insts' = length insts \<and>
    (\<forall>i < length insts. insts' ! i = insts ! i \<or>
       insts' ! i = mark_nop (insts ! i) \<and> \<not> has_side_effect (insts ! i) \<and>
       i_op (insts ! i) \<noteq> IR_NOP \<and> vreg_ok nvregs (v_id (i_dst (insts ! i))) \<and>
       base (v_id (i_dst (insts ! i))) = 0 \<and> uses insts' (v_id (i_dst (insts ! i))) = 0) \<and>
    (\<forall>v. vreg_ok nvregs v \<longrightarrow> uses insts' v \<le> uses insts v)"
  using assms
proof (induction insts arbitrary: cnt cnt' removed insts' base)
  case Nil
  then show ?case by simp
next
  case (Cons inst rest)
  show ?case
  proof (cases "removable nvregs cnt inst")
    case True
    let ?cnt = "add_use (- 1) nvregs (v_id (i_src2 inst)) (add_use (- 1) nvregs (v_id (i_src1 inst)) cnt)"
    let ?base = "\<lambda>v. base v + count_list (inst_uses (mark_nop inst)) v"
    obtain c r rest' where d: "dce_insts nvregs ?cnt rest = (c, r, rest')"
      by (metis prod_cases3)
    then have i: "insts' = mark_nop inst # rest'"
      using Cons.prems(1) True by (simp add: Let_def)
    have "int (?base v) + int (uses rest v) \<le> ?cnt v" if "vreg_ok nvregs v" for v
    proof -
      have "?cnt v = cnt v - of_bool (v_id (i_src1 inst) = v) - of_bool (v_id (i_src2 inst) = v)"
        using that by (auto simp: add_use_def)
      then show ?thesis
        using count_list_mark_nop [of v inst] Cons.prems(2) [OF that] that
        by (cases "v_id (i_src1 inst) = v"; cases "v_id (i_src2 inst) = v") (simp_all add: vreg_ok_def)
    qed
    note IH = Cons.IH [OF d this]
    let ?v = "v_id (i_dst inst)"
    have v: "vreg_ok nvregs ?v" "cnt ?v = 0" using True by (simp_all add: removable_def)
    have z: "base ?v = 0" "count_list (inst_uses inst) ?v = 0" "uses rest ?v = 0"
      using Cons.prems(2) [OF v(1)] v(2) by auto
    then have z': "count_list (inst_uses (mark_nop inst)) ?v = 0" "uses rest' ?v = 0"
      using IH v(1) count_list_mark_nop [of ?v inst] by (auto simp: vreg_ok_def)
    have m: "count_list (inst_uses (mark_nop inst)) w \<le> count_list (inst_uses inst) w"
      if "vreg_ok nvregs w" for w
      using count_list_mark_nop [of w inst] that by (simp add: vreg_ok_def)
    show ?thesis
      using IH z z' v m True unfolding i
      by (auto simp: nth_Cons removable_def split: nat.splits intro: add_mono)
  next
    case False
    obtain c r rest' where d: "dce_insts nvregs cnt rest = (c, r, rest')"
      by (metis prod_cases3)
    then have i: "insts' = inst # rest'"
      using Cons.prems(1) False by (simp add: Let_def)
    have "int (base v + count_list (inst_uses inst) v) + int (uses rest v) \<le> cnt v"
      if "vreg_ok nvregs v" for v
      using Cons.prems(2) [OF that] by simp
    from Cons.IH [OF d this] show ?thesis
      unfolding i by (auto simp: nth_Cons split: nat.splits)
  qed
qed

lemma dce_insts_append:
  "dce_insts nvregs cnt (xs @ ys) =
    (let (cnt1, r1, xs') = dce_insts nvregs cnt xs; (cnt2, r2, ys') = dce_insts nvregs cnt1 ys
     in (cnt2, r1 + r2, xs' @ ys'))"
  by (induction xs arbitrary: cnt) (auto simp: Let_def split: prod.splits)

lemma dce_blocks_flat:
  "dce_blocks nvregs cnt blocks = (cnt', removed, blocks') \<Longrightarrow>
   dce_insts nvregs cnt (concat (map b_insts blocks)) =
     (cnt', removed, concat (map b_insts blocks'))"
  by (induction blocks arbitrary: cnt cnt' removed blocks')
     (fastforce simp: dce_insts_append split: prod.splits)+

lemma list_all_map_the:
  "list_all (\<lambda>v. f v = g v) xs \<Longrightarrow> map (\<lambda>v. the (f v)) xs = map (\<lambda>v. the (g v)) xs"
  by (induction xs) auto

text \<open>A kept instruction does the same on environments that agree on what it uses.\<close>

lemma read_val_agree:
  "(\<And>v. v \<notin> dead \<Longrightarrow> env' v = env v) \<Longrightarrow> v_id v \<notin> dead \<Longrightarrow> read_val env' v = read_val env v"
  by (simp add: read_val_def)

lemma exec_inst_agree:
  assumes "\<And>v. v \<notin> dead \<Longrightarrow> env' v = env v" "set (inst_uses inst) \<inter> dead = {}"
  shows "exec_inst alu act pc inst env' s = exec_inst alu act pc inst env s"
proof -
  have r: "read_val env' v = read_val env v" if "v \<in> set (operands inst)" for v
    using that assms(2) by (intro read_val_agree [OF assms(1)]) (auto simp: inst_uses_operands)
  have src: "read_val env' (i_src1 inst) = read_val env (i_src1 inst)"
      "read_val env' (i_src2 inst) = read_val env (i_src2 inst)"
    by (rule r; simp add: operands_def)+
  have la: "list_all (\<lambda>v. read_val env' v \<noteq> None) (operands inst) =
            list_all (\<lambda>v. read_val env v \<noteq> None) (operands inst)"
    using r by (auto simp: list_all_iff)
  have mp: "map (\<lambda>v. the (read_val env' v)) (operands inst) =
            map (\<lambda>v. the (read_val env v)) (operands inst)"
    using r by simp
  show ?thesis
    by (simp only: exec_inst_def src la mp)
qed

text \<open>
  The instructions that only compute a value, from the description of the opcodes in \<^verbatim>\<open>ir.h\<close>:
  unsigned division, negation, floating-point arithmetic and comparisons, conversions, the loads
  of constants and of addresses, reading the variadic cursor or the stack pointer, rounding an
  address, and a load that is not volatile. On such an instruction the machine leaves the rest of
  its state alone and goes on to the next instruction; any other instruction may change the state
  and jump anywhere.
\<close>

definition value_ops :: "ir_op_t list" where
  "value_ops =
    [IR_UDIV, IR_UMOD, IR_NEG, IR_NOT,
     IR_FADD, IR_FSUB, IR_FMUL, IR_FDIV, IR_FNEG, IR_FEQ, IR_FNE, IR_FLT, IR_FLE,
     IR_ZEXT, IR_SEXT, IR_TRUNC, IR_F2I, IR_I2F, IR_F2F,
     IR_LOAD_FP_IMM, IR_LOAD_STR, IR_LOAD_SYM, IR_VARARG_CURSOR, IR_STACK_SAVE, IR_ALIGN_PTR]"

definition value_inst :: "ir_inst_t \<Rightarrow> bool" where
  "value_inst inst \<longleftrightarrow>
     i_op inst \<in> set value_ops \<or> i_op inst = IR_LOAD \<and> \<not> i_is_volatile inst"

definition pure_machine :: "'s act \<Rightarrow> bool" where
  "pure_machine act \<longleftrightarrow>
     (\<forall>pc inst vals s s' v pc'. value_inst inst \<longrightarrow>
        act pc inst vals s = Some (s', v, pc') \<longrightarrow> s' = s \<and> pc' = pc + 1)"

lemma value_inst_erase [simp]: "value_inst (erase_inst inst) = value_inst inst"
  by (simp add: value_inst_def erase_inst_def)

text \<open>What \<^verbatim>\<open>has_side_effect\<close> does not list only computes a value.\<close>

lemma no_side_effect_value:
  assumes "\<not> has_side_effect inst"
  shows "i_op inst = IR_NOP \<or> i_op inst = IR_LOAD_IMM \<or> i_op inst \<in> set folded_ops \<or> value_inst inst"
  using assms
  by (cases "i_op inst")
     (simp_all add: has_side_effect_def side_effect_ops_def value_inst_def value_ops_def folded_ops_def)

lemma exec_inst_pure:
  assumes "pure_machine act" "\<not> has_side_effect inst"
    and "exec_inst alu act pc inst env s = Some (s', v, pc')"
  shows "s' = s \<and> pc' = pc + 1"
proof (cases "i_op inst = IR_NOP \<or> i_op inst = IR_LOAD_IMM \<or> i_op inst \<in> set folded_ops")
  case True
  then show ?thesis using assms(3) by (auto simp: exec_inst_def split: if_splits option.splits)
next
  case False
  then have "value_inst (erase_inst inst)" using no_side_effect_value [OF assms(2)] by simp
  moreover have "\<exists>vals. act pc (erase_inst inst) vals s = Some (s', v, pc')"
    using assms(3) False by (auto simp: exec_inst_def split: if_splits)
  ultimately show ?thesis using assms(1) unfolding pure_machine_def by blast
qed

text \<open>\<open>code'\<close> is \<open>code\<close> with some pure instructions whose destination is dead turned into NOPs.\<close>

definition nop_variant :: "int set \<Rightarrow> ir_inst_t list \<Rightarrow> ir_inst_t list \<Rightarrow> bool" where
  "nop_variant dead code code' \<longleftrightarrow>
     length code' = length code \<and> (\<forall>v \<in> dead. 0 \<le> v) \<and>
     (\<forall>i < length code.
        code' ! i = code ! i \<and> (set (inst_uses (code ! i)) \<inter> dead = {}) \<or>
        code' ! i = mark_nop (code ! i) \<and> \<not> has_side_effect (code ! i) \<and>
          v_id (i_dst (code ! i)) \<in> dead)"

lemma exec_step_nop_variant:
  assumes "nop_variant dead code code'" "pure_machine act"
    and "\<And>v. v \<notin> dead \<Longrightarrow> env' v = env v"
    and "exec_step alu act code (pc, env, s) = Some (pc1, env1, s1)"
  shows "\<exists>env1'. exec_step alu act code' (pc, env', s) = Some (pc1, env1', s1) \<and>
                 (\<forall>v. v \<notin> dead \<longrightarrow> env1' v = env1 v)"
proof -
  have pc: "pc < length code" using assms(4) by (auto simp: exec_step_def split: if_splits)
  obtain x where x: "exec_inst alu act pc (code ! pc) env s = Some (s1, x, pc1)"
      "env1 = write_val env (i_dst (code ! pc)) x"
    using assms(4) pc by (auto simp: exec_step_def split: option.splits)
  consider "code' ! pc = code ! pc" "set (inst_uses (code ! pc)) \<inter> dead = {}"
    | "code' ! pc = mark_nop (code ! pc)" "\<not> has_side_effect (code ! pc)"
      "v_id (i_dst (code ! pc)) \<in> dead"
    using assms(1) pc unfolding nop_variant_def by blast
  then show ?thesis
  proof cases
    case 1
    have e: "exec_inst alu act pc (code ! pc) env' s = exec_inst alu act pc (code ! pc) env s"
      by (rule exec_inst_agree [OF assms(3) 1(2)])
    have "exec_step alu act code' (pc, env', s) =
          Some (pc1, write_val env' (i_dst (code ! pc)) x, s1)"
      using assms(1) pc x e 1(1) by (simp add: exec_step_def nop_variant_def)
    then show ?thesis using assms(3) x(2) by (auto simp: write_val_def)
  next
    case 2
    have "s1 = s \<and> pc1 = pc + 1"
      using exec_inst_pure [OF assms(2) 2(2) x(1)] .
    moreover have "env1 v = env v" if "v \<notin> dead" for v
      using that 2(3) x(2) by (auto simp: write_val_def)
    ultimately show ?thesis
      using assms(1,3) pc 2(1)
      by (auto simp: exec_step_def nop_variant_def exec_inst_def mark_nop_def write_val_def)
  qed
qed

lemma exec_steps_nop_variant:
  assumes "nop_variant dead code code'" "pure_machine act"
    and "exec_steps alu act code n (pc0, env0, s0) = Some (pc, env, s)"
  shows "\<exists>env'. exec_steps alu act code' n (pc0, env0, s0) = Some (pc, env', s) \<and>
                (\<forall>v. v \<notin> dead \<longrightarrow> env' v = env v)"
  using assms(3)
proof (induction n arbitrary: pc env s)
  case 0
  then show ?case by simp
next
  case (Suc n)
  obtain pc1 env1 s1 where st: "exec_steps alu act code n (pc0, env0, s0) = Some (pc1, env1, s1)"
      "exec_step alu act code (pc1, env1, s1) = Some (pc, env, s)"
    using Suc.prems by (auto split: option.splits)
  obtain env1' where IH: "exec_steps alu act code' n (pc0, env0, s0) = Some (pc1, env1', s1)"
      "\<forall>v. v \<notin> dead \<longrightarrow> env1' v = env1 v"
    using Suc.IH [OF st(1)] by blast
  show ?case
    using exec_step_nop_variant [OF assms(1,2) _ st(2), of env1'] IH by auto
qed

lemma dce_pass_variant:
  assumes "dce_pass_func f = (removed, f')"
  shows "\<exists>dead. nop_variant dead (func_insts f) (func_insts f')"
proof (cases "f_next_vreg_id f \<le> 0")
  case True
  then show ?thesis
    using assms by (auto intro!: exI [of _ "{}"] simp: dce_pass_func_def nop_variant_def)
next
  case False
  let ?nv = "f_next_vreg_id f" and ?c = "func_insts f" and ?c' = "func_insts f'"
  obtain cnt' where d: "dce_insts ?nv (count_all_uses ?nv ?c) ?c = (cnt', removed, ?c')"
    using assms False
    by (fastforce simp: dce_pass_func_def Let_def func_insts_def split: prod.splits
          dest: dce_blocks_flat)
  have cnt: "int (0 :: nat) + int (uses ?c v) \<le> count_all_uses ?nv ?c v" if "vreg_ok ?nv v" for v
    using that by (simp add: count_all_uses_eq)
  note snd = dce_insts_sound [OF d cnt]
  define dead where "dead = {v. vreg_ok ?nv v \<and> uses ?c' v = 0}"
  have keep: "set (inst_uses (?c' ! i)) \<inter> dead = {}" if "i < length ?c" for i
  proof -
    have "?c' ! i \<in> set ?c'" using that snd by simp
    then have "set (inst_uses (?c' ! i)) \<subseteq> set (concat (map inst_uses ?c'))" by auto
    then show ?thesis by (auto simp: dead_def uses_def count_list_0_iff)
  qed
  have "nop_variant dead ?c ?c'"
    unfolding nop_variant_def
  proof (intro conjI allI impI ballI)
    show "length ?c' = length ?c" using snd by simp
    show "0 \<le> v" if "v \<in> dead" for v using that by (simp add: dead_def vreg_ok_def)
    show "?c' ! i = ?c ! i \<and> set (inst_uses (?c ! i)) \<inter> dead = {} \<or>
          ?c' ! i = mark_nop (?c ! i) \<and> \<not> has_side_effect (?c ! i) \<and> v_id (i_dst (?c ! i)) \<in> dead"
      if "i < length ?c" for i
    proof (cases "?c' ! i = ?c ! i")
      case True
      then show ?thesis using keep [OF that] by simp
    next
      case False
      then show ?thesis using snd that by (auto simp: dead_def)
    qed
  qed
  then show ?thesis by blast
qed

text \<open>
  C6. Dead code elimination preserves every execution: if the original function runs \<open>n\<close> steps
  to a position and a machine state, along any path, the optimised one runs \<open>n\<close> steps to the
  same position and the same state, on every machine on which the instructions that only compute
  a value (arithmetic, comparisons, conversions, loads that are not volatile, address
  computations) change nothing but their destination. Stores, calls, branches, volatile loads and
  every other instruction may do anything, so all of them must be kept.
\<close>

theorem dce_preserves_execution:
  assumes "pure_machine act"
    and "exec_steps alu act (func_insts f) n (pc0, env0, s0) = Some (pc, env, s)"
  shows "\<exists>env'. exec_steps alu act (func_insts (dce_func f)) n (pc0, env0, s0) = Some (pc, env', s)"
  using assms(2)
proof (induction f arbitrary: env rule: dce_func.induct)
  case (1 f)
  obtain removed f' where d: "dce_pass_func f = (removed, f')" by (metis prod.exhaust)
  obtain dead where "nop_variant dead (func_insts f) (func_insts f')"
    using dce_pass_variant [OF d] by blast
  then obtain env' where e: "exec_steps alu act (func_insts f') n (pc0, env0, s0) = Some (pc, env', s)"
    using exec_steps_nop_variant [OF _ assms(1) "1.prems"] by blast
  show ?case
    using d e "1.IH" [OF d [symmetric]] by (cases "removed > 0") (auto simp: dce_func.simps [of f])
qed

lemma dce_insts_zero:
  "dce_insts nvregs cnt insts = (cnt', 0, insts') \<Longrightarrow>
   cnt' = cnt \<and> insts' = insts \<and> (\<forall>inst \<in> set insts. \<not> removable nvregs cnt inst)"
  by (induction insts arbitrary: cnt' insts') (auto simp: Let_def split: if_splits prod.splits)

lemma dce_blocks_id:
  "dce_blocks nvregs cnt blocks = (cnt', 0, blocks') \<Longrightarrow> cnt' = cnt \<and> blocks' = blocks"
  by (induction blocks arbitrary: cnt' blocks')
     (auto split: prod.splits dest!: dce_insts_zero)

lemma dce_pass_zero:
  assumes "dce_pass_func f = (0, f')" "0 < f_next_vreg_id f"
  shows "f' = f" and "inst \<in> set (func_insts f) \<Longrightarrow>
    \<not> removable (f_next_vreg_id f) (count_all_uses (f_next_vreg_id f) (func_insts f)) inst"
proof -
  obtain cnt blocks where d: "dce_blocks (f_next_vreg_id f)
      (count_all_uses (f_next_vreg_id f) (func_insts f)) (f_blocks f) = (cnt, 0, blocks)"
      and f': "f' = f\<lparr>f_blocks := blocks\<rparr>"
    using assms by (auto simp: dce_pass_func_def Let_def split: prod.splits)
  show "f' = f" using dce_blocks_id [OF d] f' by simp
  show "\<not> removable (f_next_vreg_id f) (count_all_uses (f_next_vreg_id f) (func_insts f)) inst"
    if "inst \<in> set (func_insts f)"
    using dce_insts_zero [OF dce_blocks_flat [OF d]] that unfolding func_insts_def by blast
qed

lemma dce_pass_next_vreg: "dce_pass_func f = (removed, f') \<Longrightarrow> f_next_vreg_id f' = f_next_vreg_id f"
  by (auto simp: dce_pass_func_def Let_def split: if_splits prod.splits)

lemma dce_func_next_vreg: "f_next_vreg_id (dce_func f) = f_next_vreg_id f"
proof (induction f rule: dce_func.induct)
  case (1 f)
  obtain removed f' where d: "dce_pass_func f = (removed, f')" by (metis prod.exhaust)
  show ?case
    using "1.IH" [OF d [symmetric]] dce_pass_next_vreg [OF d] d by (simp add: dce_func.simps [of f])
qed

lemma dce_func_fixpoint: "dce_pass_func (dce_func f) = (0, dce_func f)"
proof (induction f rule: dce_func.induct)
  case (1 f)
  obtain removed f' where d: "dce_pass_func f = (removed, f')" by (metis prod.exhaust)
  show ?case
  proof (cases "removed > 0")
    case True
    then show ?thesis using "1.IH" [OF d [symmetric]] d by (simp add: dce_func.simps [of f])
  next
    case False
    then have "f' = f"
      using d dce_pass_zero(1) [of f f'] by (cases "0 < f_next_vreg_id f") (auto simp: dce_pass_func_def)
    then show ?thesis using False d by (simp add: dce_func.simps [of f])
  qed
qed

text \<open>
  C15. The loop over the passes ends with nothing left to remove: every instruction of the
  result that is neither a NOP nor has a side effect, and whose destination is a vreg of the
  function, has its destination read by some instruction.
\<close>


theorem dce_leaves_nothing_dead:
  "\<not> (\<exists>inst \<in> set (func_insts (dce_func f)).
        \<not> has_side_effect inst \<and> i_op inst \<noteq> IR_NOP \<and>
        vreg_ok (f_next_vreg_id f) (v_id (i_dst inst)) \<and>
        v_id (i_dst inst) \<notin> set (concat (map inst_uses (func_insts (dce_func f)))))"
proof
  assume "\<exists>inst \<in> set (func_insts (dce_func f)).
        \<not> has_side_effect inst \<and> i_op inst \<noteq> IR_NOP \<and>
        vreg_ok (f_next_vreg_id f) (v_id (i_dst inst)) \<and>
        v_id (i_dst inst) \<notin> set (concat (map inst_uses (func_insts (dce_func f))))"
  then obtain inst where i: "inst \<in> set (func_insts (dce_func f))" "\<not> has_side_effect inst"
      "i_op inst \<noteq> IR_NOP" "vreg_ok (f_next_vreg_id f) (v_id (i_dst inst))"
      "v_id (i_dst inst) \<notin> set (concat (map inst_uses (func_insts (dce_func f))))"
    by blast
  have "uses (func_insts (dce_func f)) (v_id (i_dst inst)) = 0"
    using i(5) unfolding uses_def by (metis count_list_0_iff)
  then have "removable (f_next_vreg_id f)
      (count_all_uses (f_next_vreg_id f) (func_insts (dce_func f))) inst"
    using i by (simp add: removable_def count_all_uses_eq)
  moreover have "0 < f_next_vreg_id (dce_func f)"
    using i(4) by (simp add: dce_func_next_vreg vreg_ok_def)
  ultimately show False
    using dce_pass_zero(2) [OF dce_func_fixpoint _ i(1)] by (simp add: dce_func_next_vreg)
qed

section \<open>Constant folding preserves executions\<close>

text \<open>
  The meaning of the integer opcodes on 64-bit vregs, over the integers: sums, differences and
  products wrap in the vreg; division truncates toward zero and traps on a zero divisor; a
  comparison gives 0 or 1, on the signed reading for \<^verbatim>\<open>LT\<close> and \<^verbatim>\<open>LE\<close> and on the unsigned one
  for \<^verbatim>\<open>ULT\<close> and \<^verbatim>\<open>ULE\<close>; a shift works at the width of the type (32 bits for a type of at most
  four bytes, else 64), with its count taken modulo that width: \<^verbatim>\<open>SHL\<close> multiplies and \<^verbatim>\<open>SHR\<close>
  divides the signed value, \<^verbatim>\<open>LSR\<close> divides the unsigned one; \<^verbatim>\<open>LEA\<close> adds an offset to an address.
  The vregs are 64 bits wide for every type, as the constants of the folder are: on a 4-byte type
  a sum is not cut to 32 bits (\<open>eval_binop_narrow\<close> says when the two differ).
\<close>

definition shift_width :: "int \<Rightarrow> nat" where
  "shift_width bytes = (if bytes \<le> 4 then 32 else 64)"

definition shift_amount :: "int \<Rightarrow> i64 \<Rightarrow> nat" where
  "shift_amount bytes b = nat (uint b mod int (shift_width bytes))"

definition truth :: "bool \<Rightarrow> i64 option" where
  "truth p = Some (if p then 1 else 0)"

definition ir_integer_op :: "int \<Rightarrow> ir_op_t \<Rightarrow> i64 \<Rightarrow> i64 \<Rightarrow> i64 option" where
  "ir_integer_op bytes op a b =
    (case op of
       IR_ADD \<Rightarrow> Some (word_of_int (sint a + sint b))
     | IR_SUB \<Rightarrow> Some (word_of_int (sint a - sint b))
     | IR_MUL \<Rightarrow> Some (word_of_int (sint a * sint b))
     | IR_DIV \<Rightarrow> if b = 0 then None
                 else Some (word_of_int (sgn (sint a) * sgn (sint b) * (\<bar>sint a\<bar> div \<bar>sint b\<bar>)))
     | IR_MOD \<Rightarrow> if b = 0 then None
                 else Some (word_of_int (sgn (sint a) * (\<bar>sint a\<bar> mod \<bar>sint b\<bar>)))
     | IR_AND \<Rightarrow> Some (word_of_int (uint a AND uint b))
     | IR_OR \<Rightarrow> Some (word_of_int (uint a OR uint b))
     | IR_XOR \<Rightarrow> Some (word_of_int (uint a XOR uint b))
     | IR_SHL \<Rightarrow> Some (word_of_int
                   (signed_take_bit (shift_width bytes - 1) (sint a * 2 ^ shift_amount bytes b)))
     | IR_SHR \<Rightarrow> Some (word_of_int
                   (signed_take_bit (shift_width bytes - 1) (sint a) div 2 ^ shift_amount bytes b))
     | IR_LSR \<Rightarrow> Some (word_of_int
                   ((uint a mod 2 ^ shift_width bytes) div 2 ^ shift_amount bytes b))
     | IR_EQ \<Rightarrow> truth (sint a = sint b)
     | IR_NE \<Rightarrow> truth (sint a \<noteq> sint b)
     | IR_LT \<Rightarrow> truth (sint a < sint b)
     | IR_LE \<Rightarrow> truth (sint a \<le> sint b)
     | IR_ULT \<Rightarrow> truth (uint a < uint b)
     | IR_ULE \<Rightarrow> truth (uint a \<le> uint b)
     | IR_LEA \<Rightarrow> Some (word_of_int (sint a + sint b))
     | _ \<Rightarrow> None)"

text \<open>The machine computes the integer opcodes with that meaning.\<close>

definition alu_agrees :: "alu \<Rightarrow> ag_data_layout_t option \<Rightarrow> bool" where
  "alu_agrees alu dl \<longleftrightarrow>
     (\<forall>op ty a b v. ir_integer_op (ir_type_size_for_layout ty dl) op a b = Some v \<longrightarrow>
        alu op ty a b = Some v)"

lemma alu_lea_zero: "alu_agrees alu dl \<Longrightarrow> alu IR_LEA ty a 0 = Some a"
  by (simp add: alu_agrees_def ir_integer_op_def)

lemma shift_count_amount:
  "shift_count True b = nat (uint b mod 32)" "shift_count False b = nat (uint b mod 64)"
proof -
  have m: "b AND 31 = take_bit 5 b" "b AND 63 = take_bit 6 b"
    by (simp_all add: take_bit_eq_mask mask_eq_exp_minus_1)
  have "uint (b AND 31) = uint b mod 32" "uint (b AND 63) = uint b mod 64"
    unfolding m by (simp_all only: uint_take_bit_word) (simp_all add: take_bit_eq_mod)
  moreover have "unat w = nat (uint w)" for w :: i64 by simp
  ultimately show "shift_count True b = nat (uint b mod 32)"
      "shift_count False b = nat (uint b mod 64)"
    by (simp_all only: shift_count_def if_True if_False)
qed

lemma shift_count_less: "shift_count True b < 32" "shift_count False b < 64"
  unfolding shift_count_amount
  using pos_mod_bound [of 32 "uint b"] pos_mod_bound [of 64 "uint b"]
  by (simp_all add: nat_less_iff)

lemma shift_amount_count:
  "bytes \<le> 4 \<Longrightarrow> shift_amount bytes b = shift_count True b"
  "\<not> bytes \<le> 4 \<Longrightarrow> shift_amount bytes b = shift_count False b"
  by (simp_all add: shift_amount_def shift_width_def shift_count_amount)

lemma wide_shifts:
  fixes a :: i64
  shows "push_bit n a = word_of_int (uint a * 2 ^ n)"
    and "drop_bit n a = word_of_int (uint a div 2 ^ n)"
    and "signed_drop_bit n a = word_of_int (sint a div 2 ^ n)"
    and "push_bit n a = word_of_int (signed_take_bit 63 (sint a * 2 ^ n))"
proof -
  show "push_bit n a = word_of_int (uint a * 2 ^ n)" by (simp add: push_bit_eq_mult)
  show "drop_bit n a = word_of_int (uint a div 2 ^ n)"
    by (rule bit_word_eqI) (auto simp: bit_simps simp flip: drop_bit_eq_div)
  show "signed_drop_bit n a = word_of_int (sint a div 2 ^ n)"
    by (rule bit_word_eqI) (auto simp: bit_simps simp flip: drop_bit_eq_div)
  have "word_of_int (signed_take_bit 63 x) = (word_of_int x :: i64)" for x
    by (rule bit_word_eqI) (auto simp: bit_simps min_def dest: antisym)
  moreover have "push_bit n a = word_of_int (sint a * 2 ^ n)" by (simp add: push_bit_eq_mult)
  ultimately show "push_bit n a = word_of_int (signed_take_bit 63 (sint a * 2 ^ n))" by simp
qed

lemma narrow_shifts:
  "sext32 (push_bit n (low32 a)) = word_of_int (signed_take_bit 31 (sint a * 2 ^ n))"
  "sext32 (signed_drop_bit n (low32 a)) = word_of_int (signed_take_bit 31 (sint a) div 2 ^ n)"
  "zext32 (drop_bit n (low32 a)) = word_of_int ((uint a mod 2 ^ 32) div 2 ^ n)"
proof -
  show "sext32 (push_bit n (low32 a)) = word_of_int (signed_take_bit 31 (sint a * 2 ^ n))"
    unfolding sext32_def low32_def
    by (rule bit_word_eqI) (auto simp: bit_simps min_def simp flip: push_bit_eq_mult)
  have "31 \<le> n + i \<Longrightarrow> n + i < 32 \<Longrightarrow> n + i = 31" for i by simp
  then show "sext32 (signed_drop_bit n (low32 a)) = word_of_int (signed_take_bit 31 (sint a) div 2 ^ n)"
    unfolding sext32_def low32_def
    by (intro bit_word_eqI; cases "n = 0")
       (auto simp: bit_simps min_def not_le simp flip: drop_bit_eq_div dest: antisym)
  show "zext32 (drop_bit n (low32 a)) = word_of_int ((uint a mod 2 ^ 32) div 2 ^ n)"
    unfolding zext32_def low32_def take_bit_eq_mod [symmetric] drop_bit_eq_div [symmetric]
    by (rule bit_word_eqI) (auto simp: bit_simps)
qed

text \<open>What the folder computes is the meaning of the operation.\<close>

lemma eval_binop_meaning:
  assumes "eval_binop op a b ty dl = Value v"
  shows "ir_integer_op (ir_type_size_for_layout ty dl) op a b = Some v"
proof -
  have bits: "word_of_int (uint a AND uint b) = a AND b" "word_of_int (uint a OR uint b) = a OR b"
      "word_of_int (uint a XOR uint b) = a XOR b"
    by (rule bit_word_eqI; auto simp: bit_simps)+
  have full: "signed_take_bit 63 (sint w) = sint w" "uint w mod 18446744073709551616 = uint w"
    for w :: i64
    using uint_lt2p [of w] sint_ge [of w] sint_lt [of w] by (simp_all add: signed_take_bit_int_eq_self)
  have eq: "sint w = sint u \<longleftrightarrow> w = u" for w u :: i64 by (metis of_int_sint scast_id)
  note s = full eq shift_amount_count narrow_shifts wide_shifts(2,3)
  show ?thesis
    using assms
    by (cases op)
       (auto simp: eval_binop_def ir_integer_op_def Let_def truth_def c_bool_def bits s shift_width_def
          wide_shifts(4) i64_checked_def or_undefined_def c_div_def c_mod_def signed_divide_int_def signed_modulo_int_def
          word_less_def word_le_def
          split: if_splits option.splits)
qed

definition load_imm_wf :: "ir_inst_t \<Rightarrow> bool" where
  "load_imm_wf inst \<longleftrightarrow> (i_op inst = IR_LOAD_IMM \<longrightarrow> v_id (i_src1 inst) = IR_VAL_IMM)"

definition env_matches :: "int \<Rightarrow> const_map_t \<Rightarrow> env \<Rightarrow> bool" where
  "env_matches nvregs cm env \<longleftrightarrow>
     (\<forall>v c x. vreg_ok nvregs v \<longrightarrow> cm v = Some c \<longrightarrow> env v = Some x \<longrightarrow> x = c)"

lemma read_substitute:
  "env_matches nvregs cm env \<Longrightarrow> read_val env v = Some x \<Longrightarrow>
   read_val env (substitute_with_const cm nvregs v) = Some x"
  by (auto simp: env_matches_def read_val_def substitute_with_const_def vreg_ok_def
        split: option.splits)

lemma erase_substitute [simp]: "erase_val (substitute_with_const cm nvregs v) = erase_val v"
  by (auto simp: erase_val_def substitute_with_const_def vreg_ok_def split: option.splits)

lemma take_substitute_args:
  "take n (substitute_args cm nvregs n args) =
   map (\<lambda>arg. arg\<lparr>arg_value := substitute_with_const cm nvregs (arg_value arg)\<rparr>) (take n args)"
  by (simp add: substitute_args_def) linarith

lemma substitute_inst_simps [simp]:
  "i_op (substitute_inst cm nvregs inst) = i_op inst"
  "i_dst (substitute_inst cm nvregs inst) = i_dst inst"
  "i_src1 (substitute_inst cm nvregs inst) = substitute_with_const cm nvregs (i_src1 inst)"
  "i_src2 (substitute_inst cm nvregs inst) = substitute_with_const cm nvregs (i_src2 inst)"
  "erase_inst (substitute_inst cm nvregs inst) = erase_inst inst"
  by (simp_all add: substitute_inst_def erase_inst_def take_substitute_args)

lemma operands_substitute:
  assumes "env_matches nvregs cm env"
    and "list_all (\<lambda>v. read_val env v \<noteq> None) (operands inst)"
  shows "list_all (\<lambda>v. read_val env v \<noteq> None) (operands (substitute_inst cm nvregs inst)) \<and>
    map (\<lambda>v. the (read_val env v)) (operands (substitute_inst cm nvregs inst)) =
    map (\<lambda>v. the (read_val env v)) (operands inst)"
proof -
  have r: "read_val env (substitute_with_const cm nvregs v) = read_val env v"
    if "read_val env v \<noteq> None" for v
    using that read_substitute [OF assms(1)] by auto
  have a: "inst_args_read (substitute_inst cm nvregs inst) =
           map (substitute_with_const cm nvregs) (inst_args_read inst)"
    by (simp add: inst_args_read_def substitute_inst_def take_substitute_args)
  have o: "operands (substitute_inst cm nvregs inst) =
      [substitute_with_const cm nvregs (i_src1 inst), substitute_with_const cm nvregs (i_src2 inst),
       i_src3 inst] @ map (substitute_with_const cm nvregs) (inst_args_read inst) @
      [substitute_with_const cm nvregs (i_result_storage inst), i_callee inst]"
    unfolding operands_def a by (simp add: substitute_inst_def)
  have args: "\<forall>v \<in> set (inst_args_read inst). read_val env v \<noteq> None"
    using assms(2) by (auto simp: operands_def list_all_iff)
  then have "list_all (\<lambda>v. read_val env v \<noteq> None)
        (map (substitute_with_const cm nvregs) (inst_args_read inst)) \<and>
      map (\<lambda>v. the (read_val env v)) (map (substitute_with_const cm nvregs) (inst_args_read inst)) =
      map (\<lambda>v. the (read_val env v)) (inst_args_read inst)"
    using r by (auto simp: list_all_iff simp del: not_None_eq)
  then show ?thesis
    using assms(2) r unfolding o operands_def [of inst]
    by (simp add: list_all_iff del: not_None_eq)
qed

lemma exec_substitute:
  assumes "env_matches nvregs cm env" "load_imm_wf inst"
    and "exec_inst alu act pc inst env s = Some res"
  shows "exec_inst alu act pc (substitute_inst cm nvregs inst) env s = Some res"
proof -
  consider "i_op inst = IR_NOP" | "i_op inst = IR_LOAD_IMM" | "i_op inst \<in> set folded_ops"
    | "i_op inst \<noteq> IR_NOP" "i_op inst \<noteq> IR_LOAD_IMM" "i_op inst \<notin> set folded_ops"
    by blast
  then show ?thesis
  proof cases
    case 1
    then show ?thesis using assms(3) by (simp add: exec_inst_def)
  next
    case 2
    then show ?thesis
      using assms(2,3)
      by (simp add: exec_inst_def load_imm_wf_def substitute_with_const_def vreg_ok_def)
  next
    case 3
    then have n: "i_op inst \<noteq> IR_NOP" "i_op inst \<noteq> IR_LOAD_IMM"
      by (auto simp: folded_ops_def)
    obtain a b where "read_val env (i_src1 inst) = Some a" "read_val env (i_src2 inst) = Some b"
      using assms(3) 3 n by (auto simp: exec_inst_def split: option.splits)
    then show ?thesis
      using assms(3) 3 n read_substitute [OF assms(1)] by (simp add: exec_inst_def)
  next
    case 4
    then have la: "list_all (\<lambda>v. read_val env v \<noteq> None) (operands inst)"
      using assms(3) by (simp only: exec_inst_def if_False split: if_splits) simp
    show ?thesis
      using assms(3) operands_substitute [OF assms(1) la] la 4
      by (simp only: exec_inst_def substitute_inst_simps if_True if_False)
  qed
qed

lemma eval_binop_folded: "eval_binop op a b ty dl \<noteq> Refused \<Longrightarrow> op \<in> set folded_ops"
  by (cases "ir_type_size_for_layout ty dl \<le> 0"; cases op)
     (simp_all add: eval_binop_def folded_ops_def Let_def)

lemma folded_ops_not: "op \<in> set folded_ops \<Longrightarrow> op \<noteq> IR_NOP \<and> op \<noteq> IR_LOAD_IMM"
  by (auto simp: folded_ops_def)

text \<open>One instruction: the folded one has the same effect, and the recorded constant is right.\<close>

definition const_ok :: "int \<Rightarrow> const_map_t \<Rightarrow> ir_inst_t \<Rightarrow> i64 \<Rightarrow> bool" where
  "const_ok nvregs cm inst x \<longleftrightarrow>
     (\<forall>c. vreg_ok nvregs (v_id (i_dst inst)) \<longrightarrow> cm (v_id (i_dst inst)) = Some c \<longrightarrow> x = c)"

lemma set_dst_other: "v \<noteq> w \<Longrightarrow> set_dst cm nvregs w c v = cm v"
  by (simp add: set_dst_def)

lemma const_fold_inst_dst:
  "const_fold_inst nvregs dl cm inst = Value (cm1, inst1) \<Longrightarrow> i_dst inst1 = i_dst inst"
  by (auto simp: const_fold_inst_def const_fold_lea_def Let_def as_load_imm_def
        split: if_splits outcome.splits)

lemma const_fold_inst_other:
  "const_fold_inst nvregs dl cm inst = Value (cm1, inst1) \<Longrightarrow> v \<noteq> v_id (i_dst inst) \<Longrightarrow>
   cm1 v = cm v"
  by (auto simp: const_fold_inst_def const_fold_lea_def Let_def set_dst_other
        split: if_splits outcome.splits)

lemma const_fold_lea_sound:
  assumes "const_fold_lea nvregs cm inst = (cm1, inst1)" "alu_agrees alu dl"
    and "exec_inst alu act pc inst env s = Some (s', x, pc')"
  shows "exec_inst alu act pc inst1 env s = Some (s', x, pc') \<and> const_ok nvregs cm1 inst x"
proof (cases "i_op inst = IR_LEA \<and> v_id (i_src2 inst) = IR_VAL_IMM \<and> v_imm (i_src2 inst) = 0 \<and>
    v_id (i_src1 inst) = IR_VAL_IMM \<and> vreg_ok nvregs (v_id (i_dst inst))")
  case True
  then have op: "i_op inst \<in> set folded_ops" "i_op inst \<noteq> IR_NOP" "i_op inst \<noteq> IR_LOAD_IMM"
    by (simp_all add: folded_ops_def)
  have "alu IR_LEA ty a 0 = Some a" for ty a
    by (rule alu_lea_zero [OF assms(2)])
  then have x: "s' = s \<and> x = v_imm (i_src1 inst) \<and> pc' = pc + 1"
    using assms(3) True op by (simp add: exec_inst_def read_val_def)
  have "cm1 = set_dst cm nvregs (v_id (i_dst inst)) (Some (v_imm (i_src1 inst)))"
      "inst1 = as_load_imm inst (v_imm (i_src1 inst))"
    using assms(1) True by (auto simp: const_fold_lea_def)
  then show ?thesis
    using x by (simp add: exec_inst_def as_load_imm_def const_ok_def set_dst_def)
next
  case False
  then have "cm1 = set_dst cm nvregs (v_id (i_dst inst)) None" "inst1 = inst"
    using assms(1) by (auto simp: const_fold_lea_def)
  then show ?thesis
    using assms(3) by (simp add: const_ok_def set_dst_def)
qed

lemma const_fold_inst_sound:
  assumes fold: "const_fold_inst nvregs dl cm inst = Value (cm1, inst1)"
    and alu: "alu_agrees alu dl" and env: "env_matches nvregs cm env" and wf: "load_imm_wf inst"
    and exec: "exec_inst alu act pc inst env s = Some (s', x, pc')"
  shows "exec_inst alu act pc inst1 env s = Some (s', x, pc') \<and> const_ok nvregs cm1 inst x"
proof -
  let ?i = "substitute_inst cm nvregs inst"
  have e: "exec_inst alu act pc ?i env s = Some (s', x, pc')"
    by (rule exec_substitute [OF env wf exec])
  have lea: "exec_inst alu act pc inst1 env s = Some (s', x, pc') \<and> const_ok nvregs cm1 inst x"
    if "const_fold_lea nvregs cm ?i = (cm1, inst1)"
    using const_fold_lea_sound [OF that alu e] by (simp add: const_ok_def)
  show ?thesis
  proof (cases "i_op inst = IR_LOAD_IMM")
    case True
    then show ?thesis
      using fold e by (auto simp: const_fold_inst_def exec_inst_def const_ok_def set_dst_def)
  next
    case False
    show ?thesis
    proof (cases "v_id (i_src1 ?i) = IR_VAL_IMM \<and> v_id (i_src2 ?i) = IR_VAL_IMM \<and>
        vreg_ok nvregs (v_id (i_dst inst))")
      case imm: True
      show ?thesis
      proof (cases "eval_binop (i_op inst) (v_imm (i_src1 ?i)) (v_imm (i_src2 ?i))
          (v_type (i_dst inst)) dl")
        case (Value v)
        then have op: "i_op inst \<in> set folded_ops"
          by (intro eval_binop_folded [of _ "v_imm (i_src1 ?i)" "v_imm (i_src2 ?i)"
                "v_type (i_dst inst)" dl]) simp
        have "alu (i_op inst) (v_type (i_dst inst)) (v_imm (i_src1 ?i)) (v_imm (i_src2 ?i)) = Some v"
          using alu eval_binop_meaning [OF Value] by (simp add: alu_agrees_def)
        then have x: "s' = s \<and> x = v \<and> pc' = pc + 1"
          using e imm op folded_ops_not [OF op] by (simp add: exec_inst_def read_val_def)
        moreover have "cm1 = set_dst cm nvregs (v_id (i_dst inst)) (Some v)" "inst1 = as_load_imm ?i v"
          using fold False imm Value by (simp_all add: const_fold_inst_def Let_def)
        ultimately show ?thesis
          by (simp add: exec_inst_def as_load_imm_def const_ok_def set_dst_def)
      next
        case Refused
        then show ?thesis
          using fold False imm by (intro lea) (simp add: const_fold_inst_def Let_def)
      next
        case Undefined
        then show ?thesis
          using fold False imm by (simp add: const_fold_inst_def Let_def)
      qed
    next
      case no: False
      have "const_fold_lea nvregs cm ?i = (cm1, inst1)"
        using fold False no unfolding const_fold_inst_def Let_def substitute_inst_simps
        by (simp only: if_False if_True split: if_splits) auto
      then show ?thesis by (rule lea)
    qed
  qed
qed

text \<open>A list of instructions, against the constants known at its end.\<close>

lemma const_fold_insts_other:
  "const_fold_insts nvregs dl cm insts = Value (cm1, insts1) \<Longrightarrow> vreg_ok nvregs v \<Longrightarrow>
   v \<notin> set (def_vregs nvregs insts) \<Longrightarrow> cm1 v = cm v"
proof (induction insts arbitrary: cm insts1)
  case Nil
  then show ?case by simp
next
  case (Cons inst rest)
  obtain cm' inst' rest' where f: "const_fold_inst nvregs dl cm inst = Value (cm', inst')"
      "const_fold_insts nvregs dl cm' rest = Value (cm1, rest')"
    using Cons.prems(1)
    by (cases "const_fold_inst nvregs dl cm inst")
       (auto split: prod.splits elim!: outcome_bind_ValueE)
  have "cm1 v = cm' v"
    using Cons.IH [OF f(2) Cons.prems(2)] Cons.prems(3)
    by (auto simp: def_vregs_def split: if_splits)
  moreover have "v \<noteq> v_id (i_dst inst)"
    using Cons.prems(2,3) by (auto simp: def_vregs_def)
  ultimately show ?case
    using const_fold_inst_other [OF f(1)] by simp
qed

lemma const_fold_insts_nth:
  assumes "const_fold_insts nvregs dl cm insts = Value (cm1, insts1)"
    and "distinct (def_vregs nvregs insts)"
    and "\<And>v. v \<in> set (def_vregs nvregs insts) \<Longrightarrow> cm v = None"
  shows "length insts1 = length insts \<and>
    (\<forall>i < length insts. \<exists>cm2 cm3. const_fold_inst nvregs dl cm2 (insts ! i) = Value (cm3, insts1 ! i) \<and>
       (\<forall>v c. vreg_ok nvregs v \<longrightarrow> cm2 v = Some c \<longrightarrow> cm1 v = Some c) \<and>
       (vreg_ok nvregs (v_id (i_dst (insts ! i))) \<longrightarrow>
          cm1 (v_id (i_dst (insts ! i))) = cm3 (v_id (i_dst (insts ! i)))))"
  using assms
proof (induction insts arbitrary: cm insts1)
  case Nil
  then show ?case by simp
next
  case (Cons inst rest)
  obtain cm' inst' rest' where f: "const_fold_inst nvregs dl cm inst = Value (cm', inst')"
      "const_fold_insts nvregs dl cm' rest = Value (cm1, rest')" "insts1 = inst' # rest'"
    using Cons.prems(1)
    by (cases "const_fold_inst nvregs dl cm inst")
       (auto split: prod.splits elim!: outcome_bind_ValueE)
  let ?d = "v_id (i_dst inst)"
  have d: "distinct (def_vregs nvregs rest)" "?d \<notin> set (def_vregs nvregs rest)"
    if "vreg_ok nvregs ?d"
    using Cons.prems(2) that by (simp_all add: def_vregs_def)
  have d': "distinct (def_vregs nvregs rest)"
    using Cons.prems(2) by (auto simp: def_vregs_def split: if_splits)
  have sub: "set (def_vregs nvregs rest) \<subseteq> set (def_vregs nvregs (inst # rest))"
    by (auto simp: def_vregs_def)
  have fresh: "cm' v = None" if "v \<in> set (def_vregs nvregs rest)" for v
  proof -
    have "vreg_ok nvregs v" using that by (simp add: def_vregs_def)
    then have "v \<noteq> ?d" using that d(2) by blast
    then show ?thesis
      using const_fold_inst_other [OF f(1)] Cons.prems(3) [of v] that sub by auto
  qed
  note IH = Cons.IH [OF f(2) d' fresh]
  have keep: "cm1 v = Some c" if "vreg_ok nvregs v" "cm v = Some c" for v c
  proof -
    have n: "v \<notin> set (def_vregs nvregs (inst # rest))" using Cons.prems(3) [of v] that by auto
    then have "v \<noteq> ?d" "v \<notin> set (def_vregs nvregs rest)"
      using that(1) by (auto simp: def_vregs_def split: if_splits)
    then show ?thesis
      using const_fold_insts_other [OF f(2) that(1)] const_fold_inst_other [OF f(1)] that(2) by simp
  qed
  have dst: "cm1 ?d = cm' ?d" if "vreg_ok nvregs ?d"
    using const_fold_insts_other [OF f(2) that] d that by simp
  show ?case
  proof (intro conjI allI impI)
    show "length insts1 = length (inst # rest)" using IH f(3) by simp
    fix i assume "i < length (inst # rest)"
    then show "\<exists>cm2 cm3. const_fold_inst nvregs dl cm2 ((inst # rest) ! i) = Value (cm3, insts1 ! i) \<and>
       (\<forall>v c. vreg_ok nvregs v \<longrightarrow> cm2 v = Some c \<longrightarrow> cm1 v = Some c) \<and>
       (vreg_ok nvregs (v_id (i_dst ((inst # rest) ! i))) \<longrightarrow>
          cm1 (v_id (i_dst ((inst # rest) ! i))) = cm3 (v_id (i_dst ((inst # rest) ! i))))"
    proof (cases i)
      case 0
      then show ?thesis using f keep dst by auto
    next
      case (Suc j)
      then show ?thesis using IH f(3) \<open>i < length (inst # rest)\<close> by simp
    qed
  qed
qed

lemma const_fold_insts_append:
  "const_fold_insts nvregs dl cm (xs @ ys) =
   outcome_bind (const_fold_insts nvregs dl cm xs) (\<lambda>(cm1, xs1).
     outcome_bind (const_fold_insts nvregs dl cm1 ys) (\<lambda>(cm2, ys2). Value (cm2, xs1 @ ys2)))"
proof (induction xs arbitrary: cm)
  case Nil
  show ?case by (cases "const_fold_insts nvregs dl cm ys") auto
next
  case (Cons x xs)
  show ?case
  proof (cases "const_fold_inst nvregs dl cm x")
    case (Value r)
    obtain cm1 x1 where r: "r = (cm1, x1)" by (cases r)
    show ?thesis
    proof (cases "const_fold_insts nvregs dl cm1 xs")
      case V: (Value r2)
      obtain cm2 xs2 where "r2 = (cm2, xs2)" by (cases r2)
      then show ?thesis
        using Value r V Cons.IH [of cm1] by (cases "const_fold_insts nvregs dl cm2 ys") auto
    qed (use Value r Cons.IH [of cm1] in auto)
  qed auto
qed

lemma const_fold_blocks_flat:
  "const_fold_blocks nvregs dl cm blocks = Value (cm1, blocks1) \<Longrightarrow>
   const_fold_insts nvregs dl cm (concat (map b_insts blocks)) =
     Value (cm1, concat (map b_insts blocks1))"
proof (induction blocks arbitrary: cm blocks1)
  case Nil
  then show ?case by simp
next
  case (Cons b bs)
  then show ?case
    by (auto simp: const_fold_insts_append split: prod.splits elim!: outcome_bind_ValueE)
qed

text \<open>Along a run, every vreg that has a value has the one the final constants say.\<close>

lemma exec_steps_folded:
  assumes fold: "const_fold_insts nvregs dl (cm_init nvregs) code = Value (cm, code')"
    and sd: "distinct (def_vregs nvregs code)" and alu: "alu_agrees alu dl"
    and wf: "\<forall>inst \<in> set code. load_imm_wf inst"
    and run: "exec_steps alu act code n (pc0, Map.empty, s0) = Some (pc, env, s)"
  shows "exec_steps alu act code' n (pc0, Map.empty, s0) = Some (pc, env, s) \<and>
         env_matches nvregs cm env"
  using run
proof (induction n arbitrary: pc env s)
  case 0
  then show ?case by (auto simp: env_matches_def)
next
  case (Suc n)
  obtain pc1 env1 s1 where st: "exec_steps alu act code n (pc0, Map.empty, s0) = Some (pc1, env1, s1)"
      "exec_step alu act code (pc1, env1, s1) = Some (pc, env, s)"
    using Suc.prems by (auto split: option.splits)
  note IH = Suc.IH [OF st(1)]
  let ?i = "code ! pc1"
  have len: "pc1 < length code" using st(2) by (auto simp: exec_step_def split: if_splits)
  obtain x where x: "exec_inst alu act pc1 ?i env1 s1 = Some (s, x, pc)"
      "env = write_val env1 (i_dst ?i) x"
    using st(2) len by (auto simp: exec_step_def split: option.splits)
  have "\<And>v. v \<in> set (def_vregs nvregs code) \<Longrightarrow> cm_init nvregs v = None" by (simp add: cm_init_def)
  note nth = const_fold_insts_nth [OF fold sd this]
  obtain cm2 cm3 where f: "const_fold_inst nvregs dl cm2 ?i = Value (cm3, code' ! pc1)"
      "\<And>v c. vreg_ok nvregs v \<Longrightarrow> cm2 v = Some c \<Longrightarrow> cm v = Some c"
      "vreg_ok nvregs (v_id (i_dst ?i)) \<Longrightarrow> cm (v_id (i_dst ?i)) = cm3 (v_id (i_dst ?i))"
    using nth len by blast
  have m: "env_matches nvregs cm2 env1"
    using IH f(2) unfolding env_matches_def by blast
  have r: "exec_inst alu act pc1 (code' ! pc1) env1 s1 = Some (s, x, pc)" "const_ok nvregs cm3 ?i x"
    using const_fold_inst_sound [OF f(1) alu m _ x(1)] wf len by simp_all
  have "exec_step alu act code' (pc1, env1, s1) = Some (pc, env, s)"
    using r(1) len nth x(2) const_fold_inst_dst [OF f(1)] by (simp add: exec_step_def)
  moreover have "env_matches nvregs cm env"
    unfolding env_matches_def
  proof (intro allI impI)
    fix v c y assume v: "vreg_ok nvregs v" "cm v = Some c" "env v = Some y"
    show "y = c"
    proof (cases "v = v_id (i_dst ?i)")
      case True
      then have "y = x" using v x(2) by (simp add: write_val_def vreg_ok_def)
      then show ?thesis using True v f(3) r(2) by (simp add: const_ok_def)
    next
      case False
      then have "env1 v = Some y" using v(3) x(2) by (simp add: write_val_def split: if_splits)
      then show ?thesis using v IH by (simp add: env_matches_def)
    qed
  qed
  ultimately show ?case using IH by simp
qed


section \<open>What the folder computes\<close>

text \<open>
  The folder is total and right on 64-bit operations up to host overflow: with a layout size
  above 4 bytes, the shifts reduce the count modulo 64 and wrap, the comparisons are those of the
  signed or unsigned reading, and \<^verbatim>\<open>+ - *\<close> give the exact sum, difference or product when it
  fits in 64 bits; otherwise the host computation is undefined.
\<close>

theorem eval_binop_wide:
  "ir_type_size_for_layout ty dl \<le> 4 \<or>
   eval_binop IR_ADD a b ty dl =
     (if in_i64 (sint a + sint b) then Value (word_of_int (sint a + sint b)) else Undefined) \<and>
   eval_binop IR_SUB a b ty dl =
     (if in_i64 (sint a - sint b) then Value (word_of_int (sint a - sint b)) else Undefined) \<and>
   eval_binop IR_MUL a b ty dl =
     (if in_i64 (sint a * sint b) then Value (word_of_int (sint a * sint b)) else Undefined) \<and>
   eval_binop IR_SHL a b ty dl = Value (word_of_int (uint a * 2 ^ nat (uint b mod 64))) \<and>
   eval_binop IR_LSR a b ty dl = Value (word_of_int (uint a div 2 ^ nat (uint b mod 64))) \<and>
   eval_binop IR_SHR a b ty dl = Value (word_of_int (sint a div 2 ^ nat (uint b mod 64))) \<and>
   eval_binop IR_LT a b ty dl = Value (c_bool (sint a < sint b)) \<and>
   eval_binop IR_ULT a b ty dl = Value (c_bool (uint a < uint b))"
proof (cases "ir_type_size_for_layout ty dl \<le> 4")
  case False
  then show ?thesis
    by (simp add: eval_binop_def Let_def shift_count_amount wide_shifts(1-3) i64_checked_def word_less_def)
qed simp

lemma low32_sint: "low32 a = word_of_int (sint a)"
  unfolding low32_def by (rule bit_word_eqI) (auto simp: bit_simps min_def)

lemma low32_word_of_int: "low32 (word_of_int z) = word_of_int z"
  unfolding low32_def by (rule bit_word_eqI) (auto simp: bit_simps)

lemma sext32_low32_iff:
  assumes "in_i64 z"
  shows "sext32 (low32 (word_of_int z)) = word_of_int z \<longleftrightarrow> - (2 ^ 31) \<le> z \<and> z < 2 ^ 31"
proof -
  have s: "sext32 (low32 (word_of_int z)) = (word_of_int (signed_take_bit 31 z) :: i64)"
    unfolding sext32_def low32_word_of_int by (rule bit_word_eqI) (auto simp: bit_simps min_def)
  have "- (2 ^ 31) \<le> signed_take_bit 31 z" "signed_take_bit 31 z < (2 :: int) ^ 31"
    by (rule signed_take_bit_int_greater_eq_minus_exp, rule signed_take_bit_int_less_exp)
  then have i: "in_i64 (signed_take_bit 31 z)" by (simp add: in_i64_def limit_defs)
  have "word_of_int (signed_take_bit 31 z) = (word_of_int z :: i64) \<longleftrightarrow> signed_take_bit 31 z = z"
    using sint_word_of_int_i64 [OF i] sint_word_of_int_i64 [OF assms] by metis
  also have "\<dots> \<longleftrightarrow> - (2 ^ 31) \<le> z \<and> z < 2 ^ 31"
    by (rule signed_take_bit_int_eq_self_iff)
  finally show ?thesis by (simp only: s)
qed

definition exact_op :: "ir_op_t \<Rightarrow> (int \<Rightarrow> int \<Rightarrow> int) option" where
  "exact_op op =
    (if op = IR_ADD then Some (+) else if op = IR_SUB then Some (-)
     else if op = IR_MUL then Some (*) else None)"

text \<open>
  On a 4-byte type the folder still computes \<^verbatim>\<open>+ - *\<close> in 64 bits: the low half of the
  constant is the wrapped 32-bit result, but the constant is in the sign-extended form that the
  shifts produce exactly when the exact result fits in 32 bits.
\<close>

theorem eval_binop_narrow:
  assumes "ir_type_size_for_layout ty dl = 4" "exact_op op = Some f"
    and "in_i64 (f (sint a) (sint b))"
  shows "\<exists>v. eval_binop op a b ty dl = Value v \<and>
             low32 v = word_of_int (f (sint (low32 a)) (sint (low32 b))) \<and>
             (sext32 (low32 v) = v \<longleftrightarrow>
                - (2 ^ 31) \<le> f (sint a) (sint b) \<and> f (sint a) (sint b) < 2 ^ 31)"
proof -
  have e: "eval_binop op a b ty dl = Value (word_of_int (f (sint a) (sint b)))"
    using assms by (auto simp: exact_op_def eval_binop_def i64_checked_def split: if_splits)
  have "(word_of_int (f (sint a) (sint b)) :: u32) = word_of_int (f (sint (low32 a)) (sint (low32 b)))"
    using assms(2)
    by (auto simp: exact_op_def low32_sint [of a] low32_sint [of b] split: if_splits)
  then show ?thesis
    using e sext32_low32_iff [OF assms(3)] by (simp add: low32_word_of_int)
qed

lemma eval_binop_narrow_witness:
  "\<exists>v. eval_binop IR_ADD 4294967295 1 IR_TY_I32 host_layout = Value v \<and> sext32 (low32 v) \<noteq> v"
  using eval_binop_narrow [of IR_TY_I32 host_layout IR_ADD "(+)" 4294967295 1]
  by (auto simp: ir_type_size_for_layout_def exact_op_def in_i64_def limit_defs)

section \<open>Witnesses\<close>

text \<open>\<^verbatim>\<open>v0 = 6; v1 = 7; v2 = v0 * v1; v3 = v0 - v1; ret v2\<close>\<close>

definition demo_imm :: "int \<Rightarrow> i64 \<Rightarrow> ir_inst_t" where
  "demo_imm v c = (ir_inst_new IR_LOAD_IMM)
     \<lparr>i_dst := ir_val_vreg v IR_TY_I64, i_src1 := ir_val_imm IR_TY_I64 c\<rparr>"

definition demo_bin :: "ir_op_t \<Rightarrow> int \<Rightarrow> int \<Rightarrow> int \<Rightarrow> ir_inst_t" where
  "demo_bin op v a b = (ir_inst_new op)
     \<lparr>i_dst := ir_val_vreg v IR_TY_I64, i_src1 := ir_val_vreg a IR_TY_I64,
      i_src2 := ir_val_vreg b IR_TY_I64\<rparr>"

definition demo_func :: ir_func_t where
  "demo_func =
    \<lparr>f_name = None, f_tracked = False, f_tracked_instruction_count = 0, f_tracked_block_count = 0,
     f_function_type = zero_function_type,
     f_blocks = [\<lparr>b_id = 0, b_insts =
       [demo_imm 0 6, demo_imm 1 7, demo_bin IR_MUL 2 0 1, demo_bin IR_SUB 3 0 1,
        (ir_inst_new IR_RET)\<lparr>i_src1 := ir_val_vreg 2 IR_TY_I64\<rparr>]\<rparr>],
     f_cur_block = 0, f_vreg_phys_reg = None, f_next_vreg_id = 4, f_next_block_id = 1,
     f_is_static = False\<rparr>"

definition host_alu :: "ag_data_layout_t option \<Rightarrow> alu" where
  "host_alu dl op ty a b = ir_integer_op (ir_type_size_for_layout ty dl) op a b"

text \<open>A machine that only records the operand values of what it is asked to do.\<close>

definition record_act :: "i64 list act" where
  "record_act pc inst vals s =
     (if value_inst inst then Some (s, hd vals, pc + 1) else Some (hd vals # s, 0, pc + 1))"

lemma host_alu_agrees: "alu_agrees (host_alu dl) dl"
  by (simp add: alu_agrees_def host_alu_def)

lemma record_act_pure: "pure_machine record_act"
  by (simp add: pure_machine_def record_act_def)

lemma map_option_fst_snd:
  assumes "map_option (\<lambda>(pc, env, s). (pc, s)) m = Some (a, b)"
  obtains env where "m = Some (a, env, b)"
  using assms that by (cases m) auto

lemma dce_preserves_execution_witness:
  "\<exists>env'. exec_steps (host_alu host_layout) record_act (func_insts (dce_func demo_func)) 5
            (0, Map.empty, []) = Some (5, env', [42])"
proof -
  have "map_option (\<lambda>(pc, env, s). (pc, s)) (exec_steps (host_alu host_layout) record_act
          (func_insts demo_func) 5 (0, Map.empty, [])) = Some (5, [42])"
    by code_simp
  then obtain env where "exec_steps (host_alu host_layout) record_act
      (func_insts demo_func) 5 (0, Map.empty, []) = Some (5, env, [42])"
    by (rule map_option_fst_snd)
  then show ?thesis by (rule dce_preserves_execution [OF record_act_pure])
qed


end
