(* ===== verification/RegAlloc.thy ===== *)
theory RegAlloc
  imports IR
begin

text \<open>
  Register allocation: \<^verbatim>\<open>src/ir/ir_regalloc.c\<close>. Instructions are numbered over the whole
  function. The passes compute, for every vreg, its first definition and its last use, extend the
  last use over loops, and scan the instructions once, giving each defined vreg one of ten
  registers or none. The arrays of the code are functions on \<open>int\<close> that are only read and written
  at the indices the code checks.
\<close>

abbreviation (input) PHYS_REG_FIRST :: int where "PHYS_REG_FIRST \<equiv> 19"
abbreviation (input) PHYS_REG_COUNT :: nat where "PHYS_REG_COUNT \<equiv> 10"

type_synonym positions = "int \<Rightarrow> int"

section \<open>The passes\<close>

definition mark_use :: "int \<Rightarrow> int \<Rightarrow> int \<Rightarrow> positions \<Rightarrow> positions" where
  "mark_use nvregs n v last_use = (if vreg_ok nvregs v then last_use(v := n) else last_use)"

definition mark_uses :: "int \<Rightarrow> int \<Rightarrow> ir_inst_t \<Rightarrow> positions \<Rightarrow> positions" where
  "mark_uses nvregs n inst last_use = fold (mark_use nvregs n) (inst_uses inst) last_use"

text \<open>The first free register: never used, or held by a vreg whose last use has passed.\<close>

fun find_reg :: "positions \<Rightarrow> int \<Rightarrow> nat \<Rightarrow> int list \<Rightarrow> nat option" where
  "find_reg last_use n j [] = None"
| "find_reg last_use n j (holder # holders) =
    (if holder = - 1 then Some j
     else if last_use holder < n then Some j
     else find_reg last_use n (Suc j) holders)"

definition try_alloc_reg :: "int list \<Rightarrow> positions \<Rightarrow> int \<Rightarrow> int \<Rightarrow> int \<times> int list" where
  "try_alloc_reg reg_holder last_use v n =
    (case find_reg last_use n 0 reg_holder of
       Some j \<Rightarrow> (PHYS_REG_FIRST + int j, reg_holder[j := v])
     | None \<Rightarrow> (- 1, reg_holder))"

primrec collect_block_ranges ::
  "int \<Rightarrow> int \<Rightarrow> positions \<times> positions \<Rightarrow> ir_block_t list \<Rightarrow> (positions \<times> positions) \<times> int" where
  "collect_block_ranges max_blocks n ranges [] = (ranges, n)"
| "collect_block_ranges max_blocks n ranges (b # bs) =
    (let n' = n + int (length (b_insts b));
         starts = (if b_id b < max_blocks then (fst ranges)(b_id b := n) else fst ranges);
         ends = (if b_id b < max_blocks then (snd ranges)(b_id b := n') else snd ranges)
     in collect_block_ranges max_blocks n' (starts, ends) bs)"

primrec scan_def_use ::
  "int \<Rightarrow> int \<Rightarrow> positions \<Rightarrow> positions \<Rightarrow> ir_inst_t list \<Rightarrow> positions \<times> positions" where
  "scan_def_use nvregs n first_def last_use [] = (first_def, last_use)"
| "scan_def_use nvregs n first_def last_use (inst # rest) =
    (let d = v_id (i_dst inst);
         first_def1 = (if vreg_ok nvregs d \<and> first_def d = - 1 then first_def(d := n) else first_def)
     in scan_def_use nvregs (n + 1) first_def1 (mark_uses nvregs n inst last_use) rest)"

text \<open>A backward branch at \<open>n\<close>: what is touched in the loop lives to its end.\<close>

definition extend_target ::
  "int \<Rightarrow> int \<Rightarrow> positions \<Rightarrow> positions \<Rightarrow> int \<Rightarrow> int \<Rightarrow> positions \<Rightarrow> positions" where
  "extend_target nvregs max_blocks block_start first_def n tid last_use =
    (if tid < 0 \<or> tid \<ge> max_blocks then last_use
     else let t_start = block_start tid; loop_end = n + 1 in
       if t_start < 0 \<or> t_start \<ge> n then last_use
       else (\<lambda>v. let fd = first_def v; lu = last_use v in
               if \<not> vreg_ok nvregs v \<or> fd < 0 \<or> lu < 0 then lu
               else let touched = (fd \<ge> t_start \<and> fd < loop_end) \<or> (lu \<ge> t_start \<and> lu < loop_end)
                    in if touched \<and> lu < loop_end then loop_end else lu))"

definition branch_targets :: "ir_inst_t \<Rightarrow> int list" where
  "branch_targets inst =
    (if i_op inst = IR_BR then [i_label_id inst]
     else if i_op inst = IR_BR_COND then [i_label_id inst, i_else_label_id inst]
     else [])"

primrec extend_loops ::
  "int \<Rightarrow> int \<Rightarrow> positions \<Rightarrow> positions \<Rightarrow> int \<Rightarrow> positions \<Rightarrow> ir_inst_t list \<Rightarrow> positions" where
  "extend_loops nvregs max_blocks block_start first_def n last_use [] = last_use"
| "extend_loops nvregs max_blocks block_start first_def n last_use (inst # rest) =
    extend_loops nvregs max_blocks block_start first_def (n + 1)
      (fold (extend_target nvregs max_blocks block_start first_def n) (branch_targets inst) last_use)
      rest"

definition allocatable :: "int \<Rightarrow> positions \<Rightarrow> ir_inst_t \<Rightarrow> bool" where
  "allocatable nvregs last_use inst \<longleftrightarrow>
     vreg_ok nvregs (v_id (i_dst inst)) \<and> last_use (v_id (i_dst inst)) \<ge> 0 \<and>
     i_op inst \<noteq> IR_CALL \<and> i_op inst \<noteq> IR_LOAD_TLS_SYM \<and> i_op inst \<noteq> IR_VLA_ALLOC"

primrec linear_scan ::
  "int \<Rightarrow> positions \<Rightarrow> int \<Rightarrow> int list \<Rightarrow> positions \<Rightarrow> ir_inst_t list \<Rightarrow> int list \<times> positions" where
  "linear_scan nvregs last_use n reg_holder phys [] = (reg_holder, phys)"
| "linear_scan nvregs last_use n reg_holder phys (inst # rest) =
    (if allocatable nvregs last_use inst then
       let v = v_id (i_dst inst); (reg, reg_holder1) = try_alloc_reg reg_holder last_use v n
       in linear_scan nvregs last_use (n + 1) reg_holder1 (phys(v := reg)) rest
     else linear_scan nvregs last_use (n + 1) reg_holder phys rest)"

text \<open>The live ranges the last pass works on, and the pass over a function.\<close>

definition live_ranges :: "ir_func_t \<Rightarrow> positions \<times> positions" where
  "live_ranges f =
    (let nvregs = f_next_vreg_id f;
         max_blocks = (if f_next_block_id f > 0 then f_next_block_id f else 1);
         block_start = fst (fst (collect_block_ranges max_blocks 0 (\<lambda>_. - 1, \<lambda>_. - 1) (f_blocks f)));
         (first_def, last_use) = scan_def_use nvregs 0 (\<lambda>_. - 1) (\<lambda>_. - 1) (func_insts f)
     in (first_def,
         extend_loops nvregs max_blocks block_start first_def 0 last_use (func_insts f)))"

definition phys_regs :: "ir_func_t \<Rightarrow> positions" where
  "phys_regs f =
    snd (linear_scan (f_next_vreg_id f) (snd (live_ranges f)) 0
           (replicate PHYS_REG_COUNT (- 1)) (\<lambda>_. - 1) (func_insts f))"

definition ir_regalloc_function :: "ir_func_t option \<Rightarrow> ir_func_t option" where
  "ir_regalloc_function func =
    (case func of
       None \<Rightarrow> None
     | Some f \<Rightarrow>
         if f_next_vreg_id f \<le> 0 then func
         else Some (f\<lparr>f_vreg_phys_reg := Some (map (phys_regs f) [0 .. f_next_vreg_id f - 1])\<rparr>))"

section \<open>Uses and live ranges\<close>

lemma mark_uses_ge:
  "vreg_ok nvregs v \<Longrightarrow> v \<in> set (inst_uses inst) \<Longrightarrow> mark_uses nvregs n inst lu v = n"
  "v \<notin> set (inst_uses inst) \<or> \<not> vreg_ok nvregs v \<Longrightarrow> mark_uses nvregs n inst lu v = lu v"
proof -
  have *: "fold (mark_use nvregs n) vs lu v =
           (if v \<in> set vs \<and> vreg_ok nvregs v then n else lu v)" for vs
    by (induction vs arbitrary: lu) (auto simp: mark_use_def)
  show "vreg_ok nvregs v \<Longrightarrow> v \<in> set (inst_uses inst) \<Longrightarrow> mark_uses nvregs n inst lu v = n"
    "v \<notin> set (inst_uses inst) \<or> \<not> vreg_ok nvregs v \<Longrightarrow> mark_uses nvregs n inst lu v = lu v"
    by (auto simp: mark_uses_def *)
qed

lemma scan_last_use:
  assumes "lu v < n" "scan_def_use nvregs n fd lu insts = (fd', lu')" "vreg_ok nvregs v"
  shows "lu v \<le> lu' v \<and> lu' v < n + int (length insts) \<and>
    (\<forall>i < length insts. v \<in> set (inst_uses (insts ! i)) \<longrightarrow> n + int i \<le> lu' v)"
  using assms
proof (induction insts arbitrary: n fd lu)
  case Nil
  then show ?case by auto
next
  case (Cons inst rest)
  let ?lu = "mark_uses nvregs n inst lu"
  have m: "?lu v < n + 1" "lu v \<le> ?lu v"
    using mark_uses_ge [where nvregs = nvregs and v = v and inst = inst and n = n and lu = lu] Cons.prems(1,3) by (cases "v \<in> set (inst_uses inst)"; simp)+
  obtain fd1 where r: "scan_def_use nvregs (n + 1) fd1 ?lu rest = (fd', lu')"
    using Cons.prems(2) by (auto simp: Let_def)
  note IH = Cons.IH [OF m(1) r Cons.prems(3)]
  show ?case
  proof (intro conjI allI impI)
    show "lu v \<le> lu' v" "lu' v < n + int (length (inst # rest))" using IH m by auto
    fix i assume i: "i < length (inst # rest)" "v \<in> set (inst_uses ((inst # rest) ! i))"
    show "n + int i \<le> lu' v"
    proof (cases i)
      case 0
      then show ?thesis using IH i mark_uses_ge(1) [OF Cons.prems(3)] by simp
    next
      case (Suc j)
      then show ?thesis using IH i by auto
    qed
  qed
qed

lemma extend_target_mono: "lu v \<le> extend_target nvregs mb bs fd n tid lu v"
  by (simp add: extend_target_def Let_def)

lemma fold_extend_mono: "lu v \<le> fold (extend_target nvregs mb bs fd n) tids lu v"
  by (induction tids arbitrary: lu) (auto intro: order_trans [OF extend_target_mono])

lemma extend_loops_mono: "lu v \<le> extend_loops nvregs mb bs fd n lu insts v"
  by (induction insts arbitrary: n lu) (auto intro: order_trans [OF fold_extend_mono])

text \<open>A backward branch leaves everything touched in the loop alive to its end.\<close>

lemma fold_extend_target:
  assumes "tid \<in> set tids" "0 \<le> tid" "tid < mb" "0 \<le> bs tid" "bs tid < n" "vreg_ok nvregs v"
    and "0 \<le> fd v" "bs tid \<le> lu v"
  shows "n + 1 \<le> fold (extend_target nvregs mb bs fd n) tids lu v"
  using assms
proof (induction tids arbitrary: lu)
  case Nil
  then show ?case by simp
next
  case (Cons t tids)
  have ge: "bs tid \<le> extend_target nvregs mb bs fd n t lu v"
    using Cons.prems(8) extend_target_mono [of lu v] by (rule order_trans)
  show ?case
  proof (cases "tid \<in> set tids")
    case True
    then show ?thesis using Cons.IH [OF True] Cons.prems ge by simp
  next
    case False
    then have "t = tid" using Cons.prems(1) by simp
    then have "n + 1 \<le> extend_target nvregs mb bs fd n t lu v"
      using Cons.prems by (auto simp: extend_target_def Let_def)
    then show ?thesis using fold_extend_mono by (auto intro: order_trans)
  qed
qed

lemma extend_loops_back_edge:
  assumes "i < length insts" "tid \<in> set (branch_targets (insts ! i))" "0 \<le> tid" "tid < mb"
    and "0 \<le> bs tid" "bs tid < n + int i" "vreg_ok nvregs v" "0 \<le> fd v" "bs tid \<le> lu v"
  shows "n + int i + 1 \<le> extend_loops nvregs mb bs fd n lu insts v"
  using assms
proof (induction insts arbitrary: n lu i)
  case Nil
  then show ?case by simp
next
  case (Cons inst rest)
  let ?lu = "fold (extend_target nvregs mb bs fd n) (branch_targets inst) lu"
  have ge: "bs tid \<le> ?lu v"
    using Cons.prems(9) fold_extend_mono [of lu v] by (rule order_trans)
  show ?case
  proof (cases i)
    case 0
    then have "n + 1 \<le> ?lu v"
      using Cons.prems by (intro fold_extend_target) auto
    then show ?thesis using 0 extend_loops_mono [of ?lu v] by (auto intro: order_trans)
  next
    case (Suc j)
    then show ?thesis
      using Cons.IH [of j "n + 1" ?lu] Cons.prems ge by (auto simp: algebra_simps)
  qed
qed

section \<open>The linear scan\<close>

lemma find_reg_Some:
  "find_reg lu n k holders = Some j \<Longrightarrow>
   k \<le> j \<and> j < k + length holders \<and> (holders ! (j - k) = - 1 \<or> lu (holders ! (j - k)) < n)"
proof (induction holders arbitrary: k)
  case Nil
  then show ?case by simp
next
  case (Cons h hs)
  show ?case
  proof (cases "h = - 1 \<or> lu h < n")
    case True
    then show ?thesis using Cons.prems by (auto split: if_splits)
  next
    case False
    then have "find_reg lu n (Suc k) hs = Some j" using Cons.prems by auto
    from Cons.IH [OF this] show ?thesis by (auto simp: Suc_diff_le nth_Cons' )
  qed
qed

definition scan_inv :: "positions \<Rightarrow> int \<Rightarrow> int list \<Rightarrow> positions \<Rightarrow> bool" where
  "scan_inv lu n holders phys \<longleftrightarrow>
     length holders = PHYS_REG_COUNT \<and>
     (\<forall>u. phys u \<noteq> - 1 \<longrightarrow>
        PHYS_REG_FIRST \<le> phys u \<and> phys u < PHYS_REG_FIRST + int PHYS_REG_COUNT \<and> 0 \<le> u \<and>
        (holders ! nat (phys u - PHYS_REG_FIRST) = u \<or> lu u < n))"

lemma try_alloc_inv:
  assumes "scan_inv lu n holders phys" "try_alloc_reg holders lu v n = (reg, holders')" "0 \<le> v"
  shows "scan_inv lu n holders' (phys(v := reg)) \<and>
         (reg \<noteq> - 1 \<longrightarrow> (\<forall>u. u \<noteq> v \<longrightarrow> phys u = reg \<longrightarrow> lu u < n))"
proof (cases "find_reg lu n 0 holders")
  case None
  then show ?thesis
    using assms by (auto simp: try_alloc_reg_def scan_inv_def)
next
  case (Some j)
  then have j: "j < 10" "holders ! j = - 1 \<or> lu (holders ! j) < n"
      "reg = 19 + int j" "holders' = holders[j := v]"
    using find_reg_Some [OF Some] assms by (auto simp: try_alloc_reg_def scan_inv_def)
  have free: "lu u < n" if "u \<noteq> v" "phys u = 19 + int j" for u
  proof -
    have "phys u \<noteq> - 1" using that(2) by simp
    then have "holders ! nat (phys u - 19) = u \<or> lu u < n" "0 \<le> u"
      using assms(1) unfolding scan_inv_def by blast+
    then have "holders ! j = u \<or> lu u < n" "0 \<le> u" using that(2) by simp_all
    then show ?thesis using j(2) by auto
  qed
  have "holders' ! nat (phys u - 19) = u \<or> lu u < n" if "u \<noteq> v" "phys u \<noteq> - 1" for u
    using assms(1) that free [OF that(1)] j
    by (cases "nat (phys u - 19) = j") (auto simp: scan_inv_def)
  then show ?thesis
    using assms(1,3) j free by (auto simp: scan_inv_def)
qed

lemma scan_inv_mono: "scan_inv lu n holders phys \<Longrightarrow> scan_inv lu (n + 1) holders phys"
  by (fastforce simp: scan_inv_def)

lemma linear_scan_append:
  "linear_scan nvregs lu n holders phys (xs @ ys) =
   (let (h, p) = linear_scan nvregs lu n holders phys xs
    in linear_scan nvregs lu (n + int (length xs)) h p ys)"
  by (induction xs arbitrary: n holders phys) (auto simp: Let_def algebra_simps split: prod.splits)

lemma linear_scan_inv:
  "scan_inv lu n holders phys \<Longrightarrow> linear_scan nvregs lu n holders phys insts = (h, p) \<Longrightarrow>
   scan_inv lu (n + int (length insts)) h p"
proof (induction insts arbitrary: n holders phys)
  case Nil
  then show ?case by simp
next
  case (Cons inst rest)
  show ?case
  proof (cases "allocatable nvregs lu inst")
    case True
    obtain reg holders' where t: "try_alloc_reg holders lu (v_id (i_dst inst)) n = (reg, holders')"
      by fastforce
    have "0 \<le> v_id (i_dst inst)" using True by (simp add: allocatable_def vreg_ok_def)
    then have "scan_inv lu (n + 1) holders' (phys(v_id (i_dst inst) := reg))"
      using try_alloc_inv [OF Cons.prems(1) t] scan_inv_mono by blast
    from Cons.IH [OF this] show ?thesis
      using Cons.prems(2) True t by (simp add: algebra_simps fun_upd_def)
  next
    case False
    then show ?thesis
      using Cons.IH [OF scan_inv_mono [OF Cons.prems(1)]] Cons.prems(2) by (simp add: algebra_simps)
  qed
qed

lemma linear_scan_other:
  "linear_scan nvregs lu n holders phys insts = (h, p) \<Longrightarrow>
   v \<notin> set (map (\<lambda>inst. v_id (i_dst inst)) insts) \<Longrightarrow> p v = phys v"
proof (induction insts arbitrary: n holders phys)
  case Nil
  then show ?case by simp
next
  case (Cons inst rest)
  show ?case
  proof (cases "allocatable nvregs lu inst")
    case True
    obtain reg holders' where t: "try_alloc_reg holders lu (v_id (i_dst inst)) n = (reg, holders')"
      by fastforce
    have "p v = (phys(v_id (i_dst inst) := reg)) v"
      using Cons.prems True t by (intro Cons.IH [of "n + 1" holders']) (auto simp: fun_upd_def)
    then show ?thesis using Cons.prems(2) by auto
  next
    case False
    then show ?thesis using Cons.IH Cons.prems by auto
  qed
qed

lemma scan_inv_init: "scan_inv lu n (replicate 10 (- 1)) (\<lambda>_. - 1)"
  by (simp add: scan_inv_def)

section \<open>Properties of the allocation\<close>

lemma phys_regs_inv:
  "\<exists>h. scan_inv (snd (live_ranges f)) (int (length (func_insts f))) h (phys_regs f)"
  using linear_scan_inv [OF scan_inv_init prod.collapse [symmetric]]
  unfolding phys_regs_def by (metis add_0)

text \<open>
  The allocator only hands out the callee-saved registers x19 to x28; a vreg without a
  register is marked -1 and lives in its frame slot.
\<close>

theorem phys_regs_range:
  "phys_regs f v = - 1 \<or> (19 \<le> phys_regs f v \<and> phys_regs f v \<le> 28 \<and> 0 \<le> v)"
proof (cases "phys_regs f v = - 1")
  case False
  obtain h where "scan_inv (snd (live_ranges f)) (int (length (func_insts f))) h (phys_regs f)"
    using phys_regs_inv by blast
  then have "19 \<le> phys_regs f v \<and> phys_regs f v < 29 \<and> 0 \<le> v"
    using False unfolding scan_inv_def by auto
  then show ?thesis by simp
qed simp

lemma live_ranges_uses:
  assumes "vreg_ok (f_next_vreg_id f) v" "k < length (func_insts f)"
    and "v \<in> set (inst_uses (func_insts f ! k))"
  shows "int k \<le> snd (live_ranges f) v"
proof -
  obtain fd lu where s: "scan_def_use (f_next_vreg_id f) 0 (\<lambda>_. - 1) (\<lambda>_. - 1) (func_insts f) = (fd, lu)"
    by fastforce
  have "int k \<le> lu v"
    using scan_last_use [OF _ s assms(1)] assms(2,3) by simp
  then show ?thesis
    using s extend_loops_mono [of lu v] by (auto simp: live_ranges_def Let_def intro: order_trans)
qed

lemma single_def_split:
  assumes "single_def f" "func_insts f = pre @ inst # post"
    and "vreg_ok (f_next_vreg_id f) (v_id (i_dst inst))"
  shows "v_id (i_dst inst) \<notin> set (map (\<lambda>inst. v_id (i_dst inst)) pre)"
    and "v_id (i_dst inst) \<notin> set (map (\<lambda>inst. v_id (i_dst inst)) post)"
  using assms by (auto simp: single_def_def def_vregs_def)

text \<open>The state of the scan before and after the definition of a vreg.\<close>

lemma phys_regs_at_def:
  assumes "single_def f" "func_insts f = pre @ inst # post"
    and "vreg_ok (f_next_vreg_id f) (v_id (i_dst inst))"
  obtains holders phys where
    "scan_inv (snd (live_ranges f)) (int (length pre)) holders phys"
    "\<And>u. u \<notin> set (map (\<lambda>inst. v_id (i_dst inst)) (inst # post)) \<Longrightarrow> phys_regs f u = phys u"
    "phys (v_id (i_dst inst)) = - 1"
    "phys_regs f (v_id (i_dst inst)) =
       (if allocatable (f_next_vreg_id f) (snd (live_ranges f)) inst
        then fst (try_alloc_reg holders (snd (live_ranges f)) (v_id (i_dst inst)) (int (length pre)))
        else - 1)"
proof -
  let ?nv = "f_next_vreg_id f" and ?lu = "snd (live_ranges f)" and ?v = "v_id (i_dst inst)"
  obtain holders phys where s: "linear_scan ?nv ?lu 0 (replicate 10 (- 1)) (\<lambda>_. - 1) pre = (holders, phys)"
    by fastforce
  note nd = single_def_split [OF assms]
  have inv: "scan_inv ?lu (int (length pre)) holders phys"
    using linear_scan_inv [OF scan_inv_init s] by simp
  have none: "phys ?v = - 1"
    using linear_scan_other [OF s nd(1)] by simp
  obtain reg holders1 where t: "try_alloc_reg holders ?lu ?v (int (length pre)) = (reg, holders1)"
    by fastforce
  have r: "phys_regs f = snd (if allocatable ?nv ?lu inst
        then linear_scan ?nv ?lu (int (length pre) + 1) holders1 (phys(?v := reg)) post
        else linear_scan ?nv ?lu (int (length pre) + 1) holders phys post)"
    using s t by (simp add: phys_regs_def assms(2) linear_scan_append Let_def)
  have u: "phys_regs f u = (if allocatable ?nv ?lu inst then (phys(?v := reg)) u else phys u)"
    if "u \<notin> set (map (\<lambda>inst. v_id (i_dst inst)) post)" for u
    unfolding r using linear_scan_other [OF prod.collapse [symmetric] that] by (auto simp: fun_upd_def)
  show ?thesis
    using that [OF inv _ none] u u [OF nd(2)] none t by auto
qed

text \<open>
  C7. Registers do not interfere: in a function with one definition per vreg, if two vregs
  share a register and \<open>u\<close> is defined before \<open>v\<close>, the live range of \<open>u\<close> ends before the
  definition of \<open>v\<close>, and so does every instruction that reads \<open>u\<close>.
\<close>

theorem regalloc_no_interference:
  assumes "single_def f" "i < j" "j < length (func_insts f)"
    and "u = v_id (i_dst (func_insts f ! i))" "v = v_id (i_dst (func_insts f ! j))"
    and "vreg_ok (f_next_vreg_id f) u" "vreg_ok (f_next_vreg_id f) v"
    and "phys_regs f u = phys_regs f v" "phys_regs f v \<noteq> - 1"
  shows "snd (live_ranges f) u < int j \<and>
    \<not> (\<exists>k. j \<le> k \<and> k < length (func_insts f) \<and> u \<in> set (inst_uses (func_insts f ! k)))"
proof -
  let ?c = "func_insts f" and ?lu = "snd (live_ranges f)"
  define pre where "pre = take j ?c"
  have split: "?c = pre @ ?c ! j # drop (Suc j) ?c" and len: "length pre = j"
    using assms(3) by (simp_all add: pre_def id_take_nth_drop)
  have i: "?c ! i \<in> set pre"
    using assms(2,3) by (auto simp: pre_def in_set_conv_nth intro!: exI [of _ i])
  obtain holders phys where h: "scan_inv ?lu (int j) holders phys"
      "\<And>u. u \<notin> set (map (\<lambda>inst. v_id (i_dst inst)) (?c ! j # drop (Suc j) ?c)) \<Longrightarrow>
         phys_regs f u = phys u"
      "phys v = - 1"
      "phys_regs f v = (if allocatable (f_next_vreg_id f) ?lu (?c ! j)
         then fst (try_alloc_reg holders ?lu v (int j)) else - 1)"
    using phys_regs_at_def [OF assms(1) split] assms(5,7) unfolding len by blast
  have ui: "u \<notin> set (map (\<lambda>inst. v_id (i_dst inst)) (?c ! j # drop (Suc j) ?c))"
  proof -
    have "distinct (def_vregs (f_next_vreg_id f) (pre @ ?c ! j # drop (Suc j) ?c))"
      using assms(1) split by (simp add: single_def_def)
    moreover have "u \<in> set (def_vregs (f_next_vreg_id f) pre)"
      using i assms(4,6) by (auto simp: def_vregs_def)
    ultimately have "u \<notin> set (def_vregs (f_next_vreg_id f) (?c ! j # drop (Suc j) ?c))"
      by (auto simp: def_vregs_def)
    then show ?thesis using assms(6) by (auto simp: def_vregs_def split: if_splits)
  qed
  then have pu: "phys_regs f u = phys u" and uv: "u \<noteq> v" using h(2) assms(5) by auto
  obtain reg holders1 where t: "try_alloc_reg holders ?lu v (int j) = (reg, holders1)"
    by fastforce
  have "reg \<noteq> - 1" "phys u = reg"
    using h(4) t assms(8,9) pu by (auto split: if_splits)
  then have lt: "?lu u < int j"
    using try_alloc_inv [OF h(1) t] assms(7) uv by (auto simp: vreg_ok_def)
  moreover have "\<not> (\<exists>k. j \<le> k \<and> k < length ?c \<and> u \<in> set (inst_uses (?c ! k)))"
    using live_ranges_uses [OF assms(6)] lt by force
  ultimately show ?thesis by blast
qed

text \<open>
  The result of a call, of a TLS address and of a dynamic stack allocation never gets a
  register: in a function with one definition per vreg, such a vreg lives in its frame slot.
\<close>

theorem regalloc_call_results:
  assumes "single_def f" "inst \<in> set (func_insts f)"
    and "i_op inst \<in> {IR_CALL, IR_LOAD_TLS_SYM, IR_VLA_ALLOC}"
    and "vreg_ok (f_next_vreg_id f) (v_id (i_dst inst))"
  shows "phys_regs f (v_id (i_dst inst)) = - 1"
proof -
  obtain pre post where c: "func_insts f = pre @ inst # post"
    using assms(2) by (meson split_list)
  have "\<not> allocatable (f_next_vreg_id f) (snd (live_ranges f)) inst"
    using assms(3) by (auto simp: allocatable_def)
  then show ?thesis
    by - (rule phys_regs_at_def [OF assms(1) c assms(4)], simp)
qed

text \<open>The first instruction of a block, for distinct block ids.\<close>

lemma collect_starts_other:
  "t \<notin> set (map b_id bs) \<Longrightarrow>
   fst (fst (collect_block_ranges mb n ranges bs)) t = fst ranges t"
  by (induction bs arbitrary: n ranges) (auto simp: Let_def)

lemma collect_starts:
  assumes "b_id b \<notin> set (map b_id post)" "b_id b < mb"
  shows "fst (fst (collect_block_ranges mb n ranges (pre @ b # post))) (b_id b) =
         n + int (length (concat (map b_insts pre)))"
  by (induction pre arbitrary: n ranges)
     (simp_all add: Let_def collect_starts_other [OF assms(1)] assms(2))

lemma scan_first_def:
  assumes "scan_def_use nvregs n fd lu insts = (fd', lu')" "0 \<le> n"
    and "0 \<le> fd v \<or> vreg_ok nvregs v \<and> fd v = - 1 \<and> v \<in> set (map (\<lambda>inst. v_id (i_dst inst)) insts)"
  shows "0 \<le> fd' v"
  using assms
proof (induction insts arbitrary: n fd lu)
  case Nil
  then show ?case by auto
next
  case (Cons inst rest)
  let ?d = "v_id (i_dst inst)"
  let ?fd = "if vreg_ok nvregs ?d \<and> fd ?d = - 1 then fd(?d := n) else fd"
  have "scan_def_use nvregs (n + 1) ?fd (mark_uses nvregs n inst lu) rest = (fd', lu')"
    using Cons.prems(1) by (simp add: Let_def)
  moreover have "0 \<le> ?fd v \<or> vreg_ok nvregs v \<and> ?fd v = - 1 \<and>
      v \<in> set (map (\<lambda>inst. v_id (i_dst inst)) rest)"
    using Cons.prems(2,3) by auto
  ultimately show ?case using Cons.IH Cons.prems(2) by fastforce
qed

text \<open>
  C8. A loop keeps what it touches: if instruction \<open>i\<close> branches back to a block that starts
  before it, every defined vreg that some instruction reads at or after the start of that block
  has its live range extended past the branch, so its register is not reused inside the loop.
\<close>

theorem regalloc_extends_loops:
  assumes "f_blocks f = pre @ b # post" "b_id b \<notin> set (map b_id post)"
    and "0 \<le> b_id b" "b_id b < f_next_block_id f"
    and "i < length (func_insts f)" "b_id b \<in> set (branch_targets (func_insts f ! i))"
    and "length (concat (map b_insts pre)) < i"
    and "vreg_ok (f_next_vreg_id f) v" "v \<in> set (map (\<lambda>inst. v_id (i_dst inst)) (func_insts f))"
    and "length (concat (map b_insts pre)) \<le> k" "k < length (func_insts f)"
    and "v \<in> set (inst_uses (func_insts f ! k))"
  shows "int i < snd (live_ranges f) v"
proof -
  let ?nv = "f_next_vreg_id f" and ?mb = "f_next_block_id f"
  let ?bs = "fst (fst (collect_block_ranges ?mb 0 (\<lambda>_. - 1, \<lambda>_. - 1) (f_blocks f)))"
  obtain fd lu where s: "scan_def_use ?nv 0 (\<lambda>_. - 1) (\<lambda>_. - 1) (func_insts f) = (fd, lu)"
    by fastforce
  have bs: "?bs (b_id b) = int (length (concat (map b_insts pre)))"
    unfolding assms(1) by (simp add: collect_starts [OF assms(2,4)])
  have "int k \<le> lu v"
    using scan_last_use [OF _ s assms(8)] assms(11,12) by simp
  then have lu: "?bs (b_id b) \<le> lu v" using bs assms(10) by simp
  have fd: "0 \<le> fd v" using scan_first_def [OF s] assms(8,9) by simp
  have "0 + int i + 1 \<le> extend_loops ?nv ?mb ?bs fd 0 lu (func_insts f) v"
    by (rule extend_loops_back_edge [where tid = "b_id b" and bs = ?bs])
       (use bs fd lu assms in auto)
  then show ?thesis
    using s assms(3,4) by (simp add: live_ranges_def Let_def)
qed

section \<open>Witnesses\<close>

text \<open>
  \<^verbatim>\<open>L0: v0 = 5; v1 = v0 + v0; v2 = v1 + v1; v3 = call; br L1;
  L1: v4 = v2 + v3; br_cond v4, L1, L2; L2: ret\<close>
\<close>

definition loop_bin :: "int \<Rightarrow> int \<Rightarrow> int \<Rightarrow> ir_inst_t" where
  "loop_bin v a b = (ir_inst_new IR_ADD)
     \<lparr>i_dst := ir_val_vreg v IR_TY_I64, i_src1 := ir_val_vreg a IR_TY_I64,
      i_src2 := ir_val_vreg b IR_TY_I64\<rparr>"

definition loop_blocks :: "ir_block_t list" where
  "loop_blocks =
    [\<lparr>b_id = 0, b_insts =
       [(ir_inst_new IR_LOAD_IMM)\<lparr>i_dst := ir_val_vreg 0 IR_TY_I64,
                                  i_src1 := ir_val_imm IR_TY_I64 5\<rparr>,
        loop_bin 1 0 0, loop_bin 2 1 1,
        (ir_inst_new IR_CALL)\<lparr>i_dst := ir_val_vreg 3 IR_TY_I64\<rparr>,
        (ir_inst_new IR_BR)\<lparr>i_label_id := 1\<rparr>]\<rparr>,
     \<lparr>b_id = 1, b_insts =
       [loop_bin 4 2 3,
        (ir_inst_new IR_BR_COND)\<lparr>i_src1 := ir_val_vreg 4 IR_TY_I64, i_label_id := 1,
                                 i_else_label_id := 2\<rparr>]\<rparr>,
     \<lparr>b_id = 2, b_insts = [ir_inst_new IR_RET]\<rparr>]"

definition loop_func :: ir_func_t where
  "loop_func =
    \<lparr>f_name = None, f_tracked = False, f_tracked_instruction_count = 0, f_tracked_block_count = 0,
     f_function_type = zero_function_type, f_blocks = loop_blocks,
     f_cur_block = 0, f_vreg_phys_reg = None, f_next_vreg_id = 5, f_next_block_id = 3,
     f_is_static = False\<rparr>"

lemma loop_func_single_def: "single_def loop_func"
  by code_simp

lemma regalloc_no_interference_witness:
  "phys_regs loop_func 0 = phys_regs loop_func 2 \<and> snd (live_ranges loop_func) 0 < 2"
proof -
  have "phys_regs loop_func 0 = phys_regs loop_func 2 \<and> phys_regs loop_func 2 = 19" by code_simp
  moreover have "v_id (i_dst (func_insts loop_func ! 0)) = 0"
    "v_id (i_dst (func_insts loop_func ! 2)) = 2" "length (func_insts loop_func) = 8"
    "vreg_ok (f_next_vreg_id loop_func) 0" "vreg_ok (f_next_vreg_id loop_func) 2" by code_simp+
  ultimately show ?thesis
    using regalloc_no_interference [OF loop_func_single_def, of 0 2 0 2] by simp
qed

lemma regalloc_call_results_witness: "phys_regs loop_func 3 = - 1"
proof -
  let ?i = "func_insts loop_func ! 3"
  have "?i \<in> set (func_insts loop_func)" by (rule nth_mem) code_simp
  moreover have "i_op ?i = IR_CALL" "vreg_ok (f_next_vreg_id loop_func) (v_id (i_dst ?i))"
    "v_id (i_dst ?i) = 3" by code_simp+
  ultimately show ?thesis
    using regalloc_call_results [OF loop_func_single_def, of ?i] by simp
qed

lemma regalloc_extends_loops_witness: "6 < snd (live_ranges loop_func) 2"
proof -
  have "int 6 < snd (live_ranges loop_func) 2"
  proof (rule regalloc_extends_loops [where pre = "[hd loop_blocks]" and b = "loop_blocks ! 1"
        and post = "[loop_blocks ! 2]" and k = 5])
    show "f_blocks loop_func = [hd loop_blocks] @ loop_blocks ! 1 # [loop_blocks ! 2]"
      by (simp add: loop_func_def loop_blocks_def)
  qed code_simp+
  then show ?thesis by simp
qed

end
