(* ===== verification/IRBuild.thy ===== *)
theory IRBuild
  imports IR Registry
begin

text \<open>
  Construction of the IR: \<^verbatim>\<open>src/ir/ir_alloc.c\<close>. A pointer to an entry of a list is its position.
  A name argument, a pointer with a length, is the list of its bytes; NULL or a length that is
  not positive is the empty list. The allocation statistics are shared by a module and its
  functions, so the operations that record them take and return them. Allocation itself does not
  fail here.
\<close>

section \<open>Allocation statistics\<close>

record ir_allocation_stats_t =
  instruction_live :: nat
  instruction_peak :: nat
  block_live :: nat
  block_peak :: nat

definition ir_allocation_stats_reset :: "ir_allocation_stats_t \<Rightarrow> ir_allocation_stats_t" where
  "ir_allocation_stats_reset stats =
    \<lparr>instruction_live = 0, instruction_peak = 0, block_live = 0, block_peak = 0\<rparr>"

definition ir_allocation_stats_instruction_live :: "ir_allocation_stats_t option \<Rightarrow> nat" where
  "ir_allocation_stats_instruction_live stats =
    (case stats of None \<Rightarrow> 0 | Some s \<Rightarrow> instruction_live s)"

definition ir_allocation_stats_instruction_peak :: "ir_allocation_stats_t option \<Rightarrow> nat" where
  "ir_allocation_stats_instruction_peak stats =
    (case stats of None \<Rightarrow> 0 | Some s \<Rightarrow> instruction_peak s)"

definition ir_allocation_stats_block_live :: "ir_allocation_stats_t option \<Rightarrow> nat" where
  "ir_allocation_stats_block_live stats = (case stats of None \<Rightarrow> 0 | Some s \<Rightarrow> block_live s)"

definition ir_allocation_stats_block_peak :: "ir_allocation_stats_t option \<Rightarrow> nat" where
  "ir_allocation_stats_block_peak stats = (case stats of None \<Rightarrow> 0 | Some s \<Rightarrow> block_peak s)"

text \<open>\<open>f_tracked\<close> is whether the function's \<^verbatim>\<open>allocation_stats\<close> pointer is set.\<close>

definition stats_record_instruction ::
  "ir_allocation_stats_t \<Rightarrow> ir_func_t \<Rightarrow> ir_allocation_stats_t \<times> ir_func_t" where
  "stats_record_instruction stats f =
    (if \<not> f_tracked f then (stats, f)
     else let live = instruction_live stats + 1
          in (stats\<lparr>instruction_live := live,
                    instruction_peak := (if live > instruction_peak stats then live
                                         else instruction_peak stats)\<rparr>,
              f\<lparr>f_tracked_instruction_count := f_tracked_instruction_count f + 1\<rparr>))"

definition stats_record_block ::
  "ir_allocation_stats_t \<Rightarrow> ir_func_t \<Rightarrow> ir_allocation_stats_t \<times> ir_func_t" where
  "stats_record_block stats f =
    (if \<not> f_tracked f then (stats, f)
     else let live = block_live stats + 1
          in (stats\<lparr>block_live := live,
                    block_peak := (if live > block_peak stats then live else block_peak stats)\<rparr>,
              f\<lparr>f_tracked_block_count := f_tracked_block_count f + 1\<rparr>))"

definition stats_release_function ::
  "ir_allocation_stats_t \<Rightarrow> ir_func_t \<Rightarrow> ir_allocation_stats_t" where
  "stats_release_function stats f =
    (if \<not> f_tracked f then stats
     else stats\<lparr>instruction_live :=
                  (if f_tracked_instruction_count f \<le> instruction_live stats
                   then instruction_live stats - f_tracked_instruction_count f else 0),
                block_live :=
                  (if f_tracked_block_count f \<le> block_live stats
                   then block_live stats - f_tracked_block_count f else 0)\<rparr>)"

section \<open>Functions and blocks\<close>

definition ir_block_new ::
  "ir_allocation_stats_t \<Rightarrow> ir_func_t \<Rightarrow> ir_allocation_stats_t \<times> ir_func_t \<times> nat" where
  "ir_block_new stats f =
    (let (stats1, f1) = stats_record_block stats f;
         block = \<lparr>b_id = f_next_block_id f1, b_insts = []\<rparr>
     in (stats1,
         f1\<lparr>f_next_block_id := f_next_block_id f1 + 1, f_blocks := f_blocks f1 @ [block]\<rparr>,
         length (f_blocks f1)))"

definition empty_func :: "bool \<Rightarrow> string \<Rightarrow> ir_func_t" where
  "empty_func tracked name =
    \<lparr>f_name = (if name = [] then None else Some name), f_tracked = tracked,
     f_tracked_instruction_count = 0, f_tracked_block_count = 0,
     f_function_type = zero_function_type, f_blocks = [], f_cur_block = 0,
     f_vreg_phys_reg = None, f_next_vreg_id = 0, f_next_block_id = 0, f_is_static = False\<rparr>"

text \<open>A new function with its entry block; \<open>ir_func_new\<close> also links it into its module.\<close>

definition func_create ::
  "ir_allocation_stats_t \<Rightarrow> bool \<Rightarrow> string \<Rightarrow> ir_allocation_stats_t \<times> ir_func_t" where
  "func_create stats tracked name =
    (let (stats1, f, entry) = ir_block_new stats (empty_func tracked name)
     in (stats1, f\<lparr>f_cur_block := entry\<rparr>))"

definition ir_func_append_inst ::
  "ir_allocation_stats_t \<Rightarrow> ir_func_t \<Rightarrow> ir_inst_t \<Rightarrow> ir_allocation_stats_t \<times> ir_func_t" where
  "ir_func_append_inst stats f inst =
    (if \<not> f_cur_block f < length (f_blocks f) then (stats, f)
     else let b = f_blocks f ! f_cur_block f
          in stats_record_instruction stats
               (f\<lparr>f_blocks := (f_blocks f)[f_cur_block f := b\<lparr>b_insts := b_insts b @ [inst]\<rparr>]\<rparr>))"

definition ir_func_new_vreg :: "ir_func_t \<Rightarrow> int \<times> ir_func_t" where
  "ir_func_new_vreg f = (f_next_vreg_id f, f\<lparr>f_next_vreg_id := f_next_vreg_id f + 1\<rparr>)"

definition ir_func_new_label :: "ir_func_t \<Rightarrow> int \<times> ir_func_t" where
  "ir_func_new_label f = (f_next_block_id f, f\<lparr>f_next_block_id := f_next_block_id f + 1\<rparr>)"

definition ir_func_switch_block :: "ir_func_t \<Rightarrow> nat \<Rightarrow> ir_func_t" where
  "ir_func_switch_block f block = f\<lparr>f_cur_block := block\<rparr>"

section \<open>Modules and symbols\<close>

record ir_symbol_func_ref_t =
  ref_name :: string
  ref_offset :: int
  ref_function_type :: ir_function_type_t
  ref_has_function_type :: bool

record ir_symbol_t =
  sym_name :: string
  sym_byte_size :: int
  sym_alignment :: int
  sym_is_extern :: bool
  sym_is_static :: bool
  sym_is_thread_local :: bool
  sym_func_refs :: "ir_symbol_func_ref_t list"

record ir_module_t =
  m_tracked :: bool
  m_funcs :: "ir_func_t list"
  m_symbols :: "ir_symbol_t list"

definition ir_module_new_with_allocation_stats :: "bool \<Rightarrow> ir_module_t" where
  "ir_module_new_with_allocation_stats tracked = \<lparr>m_tracked = tracked, m_funcs = [], m_symbols = []\<rparr>"

definition ir_module_new :: ir_module_t where
  "ir_module_new = ir_module_new_with_allocation_stats False"

definition ir_func_new ::
  "ir_allocation_stats_t \<Rightarrow> ir_module_t \<Rightarrow> string \<Rightarrow> ir_allocation_stats_t \<times> ir_module_t \<times> nat" where
  "ir_func_new stats m name =
    (let (stats1, f) = func_create stats (m_tracked m) name
     in (stats1, m\<lparr>m_funcs := m_funcs m @ [f]\<rparr>, length (m_funcs m)))"

definition ir_func_free :: "ir_allocation_stats_t \<Rightarrow> ir_func_t \<Rightarrow> ir_allocation_stats_t" where
  "ir_func_free stats f = stats_release_function stats f"

definition ir_module_free :: "ir_allocation_stats_t \<Rightarrow> ir_module_t \<Rightarrow> ir_allocation_stats_t" where
  "ir_module_free stats m = fold (\<lambda>f s. ir_func_free s f) (m_funcs m) stats"

definition ir_module_find_symbol :: "ir_module_t \<Rightarrow> string \<Rightarrow> nat option" where
  "ir_module_find_symbol m name =
    (if name = [] then None else find_position (\<lambda>s. sym_name s = name) 0 (m_symbols m))"

definition new_symbol :: "string \<Rightarrow> ir_symbol_t" where
  "new_symbol name =
    \<lparr>sym_name = name, sym_byte_size = 0, sym_alignment = 0, sym_is_extern = False,
     sym_is_static = False, sym_is_thread_local = False, sym_func_refs = []\<rparr>"

definition ir_module_add_symbol :: "ir_module_t \<Rightarrow> string \<Rightarrow> ir_module_t \<times> nat option" where
  "ir_module_add_symbol m name =
    (if name = [] then (m, None)
     else case ir_module_find_symbol m name of
            Some existing \<Rightarrow> (m, Some existing)
          | None \<Rightarrow> (m\<lparr>m_symbols := m_symbols m @ [new_symbol name]\<rparr>, Some (length (m_symbols m))))"

definition ir_symbol_find_func_ref :: "ir_symbol_t \<Rightarrow> int \<Rightarrow> nat option" where
  "ir_symbol_find_func_ref symbol offset =
     find_position (\<lambda>r. ref_offset r = offset) 0 (sym_func_refs symbol)"

definition ir_symbol_add_func_ref ::
  "ir_symbol_t \<Rightarrow> int \<Rightarrow> string \<Rightarrow> ir_function_type_t option \<Rightarrow> ir_symbol_t \<times> nat option" where
  "ir_symbol_add_func_ref symbol offset name function_type =
    (if name = [] then (symbol, None)
     else case find_position (\<lambda>r. ref_offset r = offset) 0 (sym_func_refs symbol) of
            Some p \<Rightarrow> (symbol, Some p)
          | None \<Rightarrow>
              (let link = (\<lambda>r. (symbol\<lparr>sym_func_refs := sym_func_refs symbol @ [r]\<rparr>,
                                Some (length (sym_func_refs symbol))));
                   r = \<lparr>ref_name = name, ref_offset = offset,
                        ref_function_type = zero_function_type, ref_has_function_type = False\<rparr>
               in case function_type of
                    None \<Rightarrow> link r
                  | Some ft \<Rightarrow>
                      (case ir_function_type_copy (Some ft) of
                         None \<Rightarrow> (symbol, None)
                       | Some copy \<Rightarrow>
                           link (r\<lparr>ref_function_type := copy, ref_has_function_type := True\<rparr>))))"

section \<open>Building a function\<close>

text \<open>
  The operations the lowering uses on the function it builds, as steps on the statistics and the
  function; a block it switches to is one the function has.
\<close>

inductive build_step ::
  "ir_allocation_stats_t \<times> ir_func_t \<Rightarrow> ir_allocation_stats_t \<times> ir_func_t \<Rightarrow> bool" where
  build_block: "ir_block_new s f = (s', f', p) \<Longrightarrow> build_step (s, f) (s', f')"
| build_inst: "ir_func_append_inst s f inst = (s', f') \<Longrightarrow> build_step (s, f) (s', f')"
| build_vreg: "ir_func_new_vreg f = (v, f') \<Longrightarrow> build_step (s, f) (s, f')"
| build_label: "ir_func_new_label f = (l, f') \<Longrightarrow> build_step (s, f) (s, f')"
| build_switch: "p < length (f_blocks f) \<Longrightarrow> build_step (s, f) (s, ir_func_switch_block f p)"

text \<open>The states a function can be built into from its creation.\<close>

inductive built ::
  "ir_allocation_stats_t \<Rightarrow> bool \<Rightarrow> string \<Rightarrow> ir_allocation_stats_t \<Rightarrow> ir_func_t \<Rightarrow> bool"
  for s0 tracked name where
  built_new: "func_create s0 tracked name = (s, f) \<Longrightarrow> built s0 tracked name s f"
| built_step: "built s0 tracked name s f \<Longrightarrow> build_step (s, f) (s', f') \<Longrightarrow>
               built s0 tracked name s' f'"

inductive_cases build_stepE: "build_step (s, f) (s', f')"

definition func_wf :: "ir_func_t \<Rightarrow> bool" where
  "func_wf f \<longleftrightarrow>
     distinct (map b_id (f_blocks f)) \<and>
     list_all (\<lambda>b. 0 \<le> b_id b \<and> b_id b < f_next_block_id f) (f_blocks f) \<and>
     f_cur_block f < length (f_blocks f) \<and> 0 \<le> f_next_vreg_id f \<and> 0 \<le> f_next_block_id f"

text \<open>
  What the statistics know of one function, relative to the counts when it was created.
\<close>

definition stats_wf :: "ir_allocation_stats_t \<Rightarrow> ir_allocation_stats_t \<Rightarrow> ir_func_t \<Rightarrow> bool" where
  "stats_wf s0 s f \<longleftrightarrow>
     (if f_tracked f then
        f_tracked_instruction_count f = length (func_insts f) \<and>
        f_tracked_block_count f = length (f_blocks f) \<and>
        instruction_live s = instruction_live s0 + length (func_insts f) \<and>
        block_live s = block_live s0 + length (f_blocks f) \<and>
        instruction_peak s = max (instruction_peak s0)
          (if func_insts f = [] then 0 else instruction_live s) \<and>
        block_peak s = max (block_peak s0) (block_live s)
      else s = s0)"

lemma length_func_insts_update:
  "p < length (f_blocks f) \<Longrightarrow>
   length (func_insts (f\<lparr>f_blocks := (f_blocks f)[p := b\<lparr>b_insts := b_insts (f_blocks f ! p) @ [i]\<rparr>]\<rparr>)) =
   Suc (length (func_insts f))"
proof -
  assume p: "p < length (f_blocks f)"
  have "sum_list (map (length \<circ> b_insts)
          (xs[p := b\<lparr>b_insts := b_insts (xs ! p) @ [i]\<rparr>])) =
        Suc (sum_list (map (length \<circ> b_insts) xs))" if "p < length xs" for p xs
    using that
    by (induction xs arbitrary: p) (auto split: nat.splits)
  from this [OF p] show ?thesis
    by (simp add: func_insts_def length_concat comp_def)
qed

lemma ir_block_new_fields:
  assumes "ir_block_new s f = (s', f', p)"
  shows "f_blocks f' = f_blocks f @ [\<lparr>b_id = f_next_block_id f, b_insts = []\<rparr>]"
    and "f_next_block_id f' = f_next_block_id f + 1" "f_cur_block f' = f_cur_block f"
    and "f_next_vreg_id f' = f_next_vreg_id f" "f_tracked f' = f_tracked f" "p = length (f_blocks f)"
    and "func_insts f' = func_insts f"
    and "s' = fst (stats_record_block s f)"
    and "f_tracked_instruction_count f' = f_tracked_instruction_count f"
    and "f_tracked_block_count f' = (if f_tracked f then f_tracked_block_count f + 1
                                     else f_tracked_block_count f)"
  using assms
  by (cases "f_tracked f";
      simp add: ir_block_new_def stats_record_block_def Let_def func_insts_def; auto)+

lemma ir_block_new_wf:
  assumes "ir_block_new s f = (s', f', p)" "func_wf f" "stats_wf s0 s f"
  shows "func_wf f'" "stats_wf s0 s' f'"
proof -
  note fields = ir_block_new_fields [OF assms(1)]
  have "f_next_block_id f \<notin> set (map b_id (f_blocks f))"
    using assms(2) by (auto simp: func_wf_def list_all_iff)
  then show "func_wf f'"
    using assms(2) unfolding func_wf_def fields by (auto simp: list_all_iff)
  show "stats_wf s0 s' f'"
    using assms(3) unfolding stats_wf_def fields
    by (cases "f_tracked f") (simp_all add: stats_record_block_def Let_def)
qed

lemma stats_record_instruction_fields:
  assumes "stats_record_instruction s g = (s', f')"
  shows "f_blocks f' = f_blocks g" "f_tracked f' = f_tracked g"
    and "func_wf f' = func_wf g" "func_insts f' = func_insts g"
    and "f_tracked_block_count f' = f_tracked_block_count g"
    and "f_tracked_instruction_count f' = (if f_tracked g then f_tracked_instruction_count g + 1
                                           else f_tracked_instruction_count g)"
    and "s' = fst (stats_record_instruction s g)"
  using assms
  by (cases "f_tracked g";
      simp add: stats_record_instruction_def Let_def func_insts_def func_wf_def; auto)+

text \<open>The function with the instruction linked in, before the statistics are recorded.\<close>

lemma append_inst_fields:
  assumes "ir_func_append_inst s f inst = (s', f')" "func_wf f"
  obtains g where "stats_record_instruction s g = (s', f')" "func_wf g"
    "length (func_insts g) = Suc (length (func_insts f))" "length (f_blocks g) = length (f_blocks f)"
    "f_tracked g = f_tracked f" "f_tracked_block_count g = f_tracked_block_count f"
    "f_tracked_instruction_count g = f_tracked_instruction_count f"
proof -
  let ?b = "f_blocks f ! f_cur_block f"
  define g where
    "g = f\<lparr>f_blocks := (f_blocks f)[f_cur_block f := ?b\<lparr>b_insts := b_insts ?b @ [inst]\<rparr>]\<rparr>"
  have cur: "f_cur_block f < length (f_blocks f)" using assms(2) by (simp add: func_wf_def)
  have ids: "map b_id (f_blocks g) = map b_id (f_blocks f)"
    using cur by (intro nth_equalityI) (auto simp: g_def nth_list_update)
  have la: "list_all (\<lambda>b. 0 \<le> b_id b \<and> b_id b < n) bs = list_all (\<lambda>i. 0 \<le> i \<and> i < n) (map b_id bs)"
    for n and bs :: "ir_block_t list"
    by (simp add: list_all_iff)
  have "func_wf g"
    using assms(2) cur unfolding func_wf_def la ids by (simp add: g_def)
  moreover have "length (func_insts g) = Suc (length (func_insts f))"
    unfolding g_def by (rule length_func_insts_update [OF cur])
  moreover have "stats_record_instruction s g = (s', f')"
    using assms(1) cur by (simp add: ir_func_append_inst_def g_def Let_def)
  ultimately show ?thesis by (intro that [of g]) (simp_all add: g_def)
qed

lemma max_step: "a \<le> max b c \<Longrightarrow> b \<le> a \<Longrightarrow> max a (c + 1) = max b (c + (1 :: nat))"
  by (simp add: max_def split: if_splits)

lemma ir_func_append_inst_wf:
  assumes "ir_func_append_inst s f inst = (s', f')" "func_wf f" "stats_wf s0 s f"
  shows "func_wf f'" "stats_wf s0 s' f'" "f_tracked f' = f_tracked f"
proof -
  obtain g where g: "stats_record_instruction s g = (s', f')" "func_wf g"
    "length (func_insts g) = Suc (length (func_insts f))" "length (f_blocks g) = length (f_blocks f)"
    "f_tracked g = f_tracked f" "f_tracked_block_count g = f_tracked_block_count f"
    "f_tracked_instruction_count g = f_tracked_instruction_count f"
    by (rule append_inst_fields [OF assms(1,2)])
  note fields = stats_record_instruction_fields [OF g(1)]
  show "func_wf f'" "f_tracked f' = f_tracked f" using fields g by simp_all
  have ne: "func_insts g \<noteq> []" using g(3) by auto
  show "stats_wf s0 s' f'"
  proof (cases "f_tracked f")
    case True
    have w: "instruction_peak s \<le> max (instruction_peak s0) (instruction_live s)"
      "instruction_peak s0 \<le> instruction_peak s"
      "instruction_live s = instruction_live s0 + length (func_insts f)"
      "f_tracked_instruction_count f = length (func_insts f)"
      "f_tracked_block_count f = length (f_blocks f)"
      "block_live s = block_live s0 + length (f_blocks f)"
      "block_peak s = max (block_peak s0) (block_live s)"
      using assms(3) True by (simp_all add: stats_wf_def)
    have s': "instruction_live s' = instruction_live s + 1" "block_live s' = block_live s"
        "instruction_peak s' = max (instruction_peak s) (instruction_live s + 1)"
        "block_peak s' = block_peak s"
      using fields(7) g(5) True by (simp_all add: stats_record_instruction_def Let_def max_def)
    have "instruction_peak s' = max (instruction_peak s0) (instruction_live s')"
      unfolding s' by (rule max_step [OF w(1,2)])
    moreover have "instruction_live s' = instruction_live s0 + length (func_insts f')"
      using s'(1) fields(4) g(3) w(3) by simp
    moreover have "f_tracked_instruction_count f' = length (func_insts f')"
      "f_tracked_block_count f' = length (f_blocks f')" "f_tracked f'"
      "func_insts f' \<noteq> []"
      using fields g w True ne by simp_all
    moreover have "block_live s' = block_live s0 + length (f_blocks f')"
      "block_peak s' = max (block_peak s0) (block_live s')"
      unfolding s' fields(1) g(4) by (fact w(6), fact w(7))
    ultimately show ?thesis by (simp only: stats_wf_def if_True if_False simp_thms)
  next
    case False
    then have "s' = s" "\<not> f_tracked f'" using fields(2,7) g(5) by (simp_all add: stats_record_instruction_def)
    then show ?thesis using assms(3) False by (simp add: stats_wf_def)
  qed
qed

lemma build_step_wf:
  assumes "build_step (s, f) (s', f')" "func_wf f" "stats_wf s0 s f"
  shows "func_wf f' \<and> stats_wf s0 s' f' \<and> f_tracked f' = f_tracked f"
proof (rule build_stepE [OF assms(1)])
  fix p assume st: "ir_block_new s f = (s', f', p)"
  show ?thesis
    using ir_block_new_wf [OF st assms(2,3)] ir_block_new_fields(5) [OF st] by simp
next
  fix inst assume st: "ir_func_append_inst s f inst = (s', f')"
  show ?thesis using ir_func_append_inst_wf [OF st assms(2,3)] by simp
next
  fix v assume "s' = s" "ir_func_new_vreg f = (v, f')"
  then have f': "s' = s" "f' = f\<lparr>f_next_vreg_id := f_next_vreg_id f + 1\<rparr>"
    by (auto simp: ir_func_new_vreg_def)
  have "func_wf f'" using assms(2) by (simp add: f' func_wf_def)
  moreover have "stats_wf s0 s' f' = stats_wf s0 s f" by (simp add: f' stats_wf_def func_insts_def)
  ultimately show ?thesis using assms(3) by (simp add: f')
next
  fix l assume "s' = s" "ir_func_new_label f = (l, f')"
  then have f': "s' = s" "f' = f\<lparr>f_next_block_id := f_next_block_id f + 1\<rparr>"
    by (auto simp: ir_func_new_label_def)
  have "func_wf f'" using assms(2) by (auto simp: f' func_wf_def list_all_iff)
  moreover have "stats_wf s0 s' f' = stats_wf s0 s f" by (simp add: f' stats_wf_def func_insts_def)
  ultimately show ?thesis using assms(3) by (simp add: f')
next
  fix p assume "s' = s" "f' = ir_func_switch_block f p" and p: "p < length (f_blocks f)"
  then have f': "s' = s" "f' = f\<lparr>f_cur_block := p\<rparr>"
    by (auto simp: ir_func_switch_block_def)
  have "func_wf f'" using assms(2) p by (simp add: f' func_wf_def)
  moreover have "stats_wf s0 s' f' = stats_wf s0 s f" by (simp add: f' stats_wf_def func_insts_def)
  ultimately show ?thesis using assms(3) by (simp add: f')
qed

lemma func_create_wf:
  assumes "func_create s0 tracked name = (s, f)"
  shows "func_wf f \<and> stats_wf s0 s f \<and> f_tracked f = tracked"
  using assms
  by (auto simp: func_create_def ir_block_new_def stats_record_block_def empty_func_def func_wf_def
        stats_wf_def func_insts_def Let_def split: if_splits)

lemma built_wf:
  "built s0 tracked name s f \<Longrightarrow> func_wf f \<and> stats_wf s0 s f \<and> f_tracked f = tracked"
proof (induction rule: built.induct)
  case (built_new s f)
  then show ?case by (rule func_create_wf)
next
  case (built_step s f s' f')
  then show ?case using build_step_wf by blast
qed

section \<open>The registries\<close>

text \<open>The operations as a client sees them: only the module or the symbol after an addition.\<close>

definition symbol_added :: "ir_module_t \<Rightarrow> string \<Rightarrow> ir_module_t" where
  "symbol_added m name = fst (ir_module_add_symbol m name)"

definition func_ref_added ::
  "string \<Rightarrow> ir_function_type_t option \<Rightarrow> ir_symbol_t \<Rightarrow> int \<Rightarrow> ir_symbol_t" where
  "func_ref_added name ft symbol offset = fst (ir_symbol_add_func_ref symbol offset name ft)"

definition func_ref_valid :: "string \<Rightarrow> ir_function_type_t option \<Rightarrow> bool" where
  "func_ref_valid name ft \<longleftrightarrow> name \<noteq> [] \<and> (ft = None \<or> ir_function_type_copy ft \<noteq> None)"

lemma ir_module_find_symbol_name:
  "ir_module_find_symbol m name = Some p \<Longrightarrow> p < length (m_symbols m) \<and> sym_name (m_symbols m ! p) = name"
  by (auto simp: ir_module_find_symbol_def dest: find_position_0 split: if_splits)

interpretation symbols: injective_registry ir_module_find_symbol symbol_added "\<lambda>name. name \<noteq> []"
proof
  fix m :: ir_module_t and k k' :: string and p :: nat
  show "k \<noteq> [] \<Longrightarrow> ir_module_find_symbol (symbol_added m k) k \<noteq> None"
    by (auto simp: symbol_added_def ir_module_add_symbol_def ir_module_find_symbol_def
          find_position_append new_symbol_def split: option.splits)
  show "ir_module_find_symbol m k' = Some p \<Longrightarrow> ir_module_find_symbol (symbol_added m k) k' = Some p"
    by (auto simp: symbol_added_def ir_module_add_symbol_def ir_module_find_symbol_def
          find_position_append split: option.splits if_splits)
  show "ir_module_find_symbol (symbol_added m k) k' = Some p \<Longrightarrow>
        ir_module_find_symbol m k' = Some p \<or> k' = k \<and> k \<noteq> []"
    by (auto simp: symbol_added_def ir_module_add_symbol_def ir_module_find_symbol_def
          find_position_append new_symbol_def split: option.splits if_splits)
  show "ir_module_find_symbol m k \<noteq> None \<Longrightarrow> symbol_added m k = m"
    by (auto simp: symbol_added_def ir_module_add_symbol_def)
  show "\<not> k \<noteq> [] \<Longrightarrow> symbol_added m k = m"
    by (simp add: symbol_added_def ir_module_add_symbol_def)
  show "ir_module_find_symbol m k = Some p \<Longrightarrow> ir_module_find_symbol m k' = Some p \<Longrightarrow> k = k'"
    using ir_module_find_symbol_name by blast
qed

interpretation func_refs: injective_registry ir_symbol_find_func_ref "func_ref_added name ft"
  "\<lambda>_. func_ref_valid name ft" for name ft
proof
  fix m :: ir_symbol_t and k k' :: int and p :: nat
  note defs = func_ref_added_def ir_symbol_add_func_ref_def ir_symbol_find_func_ref_def
    func_ref_valid_def
  show "func_ref_valid name ft \<Longrightarrow> ir_symbol_find_func_ref (func_ref_added name ft m k) k \<noteq> None"
    by (auto simp: defs find_position_append Let_def split: option.splits)
  show "ir_symbol_find_func_ref m k' = Some p \<Longrightarrow>
        ir_symbol_find_func_ref (func_ref_added name ft m k) k' = Some p"
    by (auto simp: defs find_position_append Let_def split: option.splits)
  show "ir_symbol_find_func_ref (func_ref_added name ft m k) k' = Some p \<Longrightarrow>
        ir_symbol_find_func_ref m k' = Some p \<or> k' = k \<and> func_ref_valid name ft"
    by (auto simp: defs find_position_append Let_def split: option.splits if_splits)
  show "ir_symbol_find_func_ref m k \<noteq> None \<Longrightarrow> func_ref_added name ft m k = m"
    by (auto simp: defs)
  show "\<not> func_ref_valid name ft \<Longrightarrow> func_ref_added name ft m k = m"
    by (auto simp: defs Let_def split: option.splits)
  show "ir_symbol_find_func_ref m k = Some p \<Longrightarrow> ir_symbol_find_func_ref m k' = Some p \<Longrightarrow> k = k'"
    by (auto simp: ir_symbol_find_func_ref_def dest!: find_position_0)
qed

section \<open>Properties\<close>

text \<open>
  C16. Every function the builder can produce is well formed: its block ids are distinct and
  below the next id (labels share the counter, so no label collides with a block), the current
  block exists; and when it is freed the shared statistics are back where they were when it was
  created, with the peak at the most that was live.
\<close>

theorem built_function_wf:
  assumes "built s0 tracked name s f"
  shows "distinct (map b_id (f_blocks f)) \<and> f_cur_block f < length (f_blocks f) \<and>
    \<not> (\<exists>b \<in> set (f_blocks f). \<not> (0 \<le> b_id b \<and> b_id b < fst (ir_func_new_label f))) \<and>
    instruction_live (ir_func_free s f) = instruction_live s0 \<and>
    block_live (ir_func_free s f) = block_live s0 \<and>
    block_peak s = (if tracked then max (block_peak s0) (block_live s0 + length (f_blocks f))
                    else block_peak s0)"
proof -
  have w: "func_wf f" "stats_wf s0 s f" "f_tracked f = tracked"
    using built_wf [OF assms] by simp_all
  show ?thesis
    using w(1) w(2) [unfolded stats_wf_def] w(3)
    by (cases tracked)
       (simp_all add: func_wf_def list_all_iff ir_func_new_label_def ir_func_free_def
          stats_release_function_def)
qed

definition built_stats0 :: ir_allocation_stats_t where
  "built_stats0 = \<lparr>instruction_live = 3, instruction_peak = 4, block_live = 1, block_peak = 1\<rparr>"

definition built_state1 :: "ir_allocation_stats_t \<times> ir_func_t" where
  "built_state1 = func_create built_stats0 True ''f''"

definition built_state2 :: "ir_allocation_stats_t \<times> ir_func_t" where
  "built_state2 =
     ir_func_append_inst (fst built_state1) (snd built_state1) (ir_inst_new IR_RET)"

lemma built_function_wf_witness:
  "instruction_live (fst built_state2) = 4 \<and>
   instruction_live (ir_func_free (fst built_state2) (snd built_state2)) = 3"
proof -
  have "built built_stats0 True ''f'' (fst built_state1) (snd built_state1)"
    by (rule built_new) (simp add: built_state1_def)
  then have "built built_stats0 True ''f'' (fst built_state2) (snd built_state2)"
    by (rule built_step) (rule build_inst, simp add: built_state2_def)
  moreover have "instruction_live (fst built_state2) = 4" by code_simp
  ultimately show ?thesis
    using built_function_wf [of built_stats0 True "''f''" "fst built_state2" "snd built_state2"]
    by (simp add: built_stats0_def)
qed

text \<open>
  The symbol table of a module is a set of names with stable entries: after any sequence of
  additions a name is found exactly when it was there before or is a non-empty name that was
  added, the entry of a name found before does not move, and two names never share an entry.
\<close>

theorem symbol_table_complete:
  "(ir_module_find_symbol (fold (\<lambda>name m. symbol_added m name) names m) name \<noteq> None \<longleftrightarrow>
      ir_module_find_symbol m name \<noteq> None \<or> name \<in> set names \<and> name \<noteq> []) \<and>
   (ir_module_find_symbol m name = None \<or>
      ir_module_find_symbol (fold (\<lambda>name m. symbol_added m name) names m) name =
      ir_module_find_symbol m name) \<and>
   (ir_module_find_symbol m name = None \<or> name = other \<or>
      ir_module_find_symbol m name \<noteq> ir_module_find_symbol m other)"
  using symbols.adds_find [of names m name] symbols.adds_keep [of m name _ names]
    symbols.find_injective [of m name _ other]
  by (cases "ir_module_find_symbol m name") auto

lemma symbol_table_complete_witness:
  "let m = fold (\<lambda>name m. symbol_added m name) [''f'', ''g''] ir_module_new
   in ir_module_find_symbol m ''f'' \<noteq> None \<and>
     ir_module_find_symbol m ''f'' \<noteq> ir_module_find_symbol m ''g''"
  using symbol_table_complete [of "[''f'', ''g'']" ir_module_new "''f''" "''g''"]
    symbol_table_complete [of "[]" "fold (\<lambda>name m. symbol_added m name) [''f'', ''g''] ir_module_new"
      "''f''" "''g''"]
  by (auto simp: Let_def)

text \<open>
  A symbol keeps at most one function reference per offset: adding a reference makes its
  offset found whenever the name is not empty and the function type can be copied, a second
  addition at the offset changes nothing, and a reference that cannot be copied is not linked.
\<close>

theorem func_ref_unique_offset:
  "(ir_symbol_find_func_ref (func_ref_added name ft symbol offset) offset \<noteq> None \<longleftrightarrow>
      ir_symbol_find_func_ref symbol offset \<noteq> None \<or> func_ref_valid name ft) \<and>
   func_ref_added name ft (func_ref_added name ft symbol offset) offset =
     func_ref_added name ft symbol offset"
  using func_refs.adds_find [where ks = "[offset]" and m = symbol and k = offset and name = name and ft = ft]
    func_refs.add_idempotent [of name ft symbol offset]
  by simp

lemma func_ref_unique_offset_witness:
  "ir_symbol_find_func_ref (func_ref_added ''g'' None (new_symbol ''f'') 8) 8 \<noteq> None"
proof -
  have "func_ref_valid ''g'' None" by (simp add: func_ref_valid_def)
  then show ?thesis using func_ref_unique_offset [of "''g''" None "new_symbol ''f''" 8] by blast
qed

end
