(* ===== verification/IRData.thy ===== *)
theory IRData
  imports IRBuild
begin

text \<open>
  The data module: \<^verbatim>\<open>src/ir/ir_data.h\<close> and \<^verbatim>\<open>src/ir/ir_data.c\<close>. Named objects with their bytes and
  the relocations into them. Names are byte lists as in the construction of the IR; a byte buffer
  with its size is \<open>None\<close> when the pointer is NULL.
\<close>

datatype ir_data_object_kind_t = IR_DATA_OBJECT | IR_DATA_STRING | IR_DATA_FLOAT

datatype ir_data_reloc_kind_t = IR_DATA_RELOC_DATA | IR_DATA_RELOC_FUNCTION

record ir_data_reloc_t =
  rel_target :: string
  rel_offset :: int
  rel_width :: int
  rel_addend :: i64
  rel_kind :: ir_data_reloc_kind_t
  rel_function_type :: ir_function_type_t
  rel_has_function_type :: bool

record ir_data_object_t =
  obj_name :: string
  obj_bytes :: "u8 list"
  obj_byte_size :: int
  obj_alignment :: int
  obj_requested_alignment :: int
  obj_element_size :: int
  obj_qual_type :: psx_qual_type_t
  obj_kind :: ir_data_object_kind_t
  obj_has_qual_type :: bool
  obj_is_extern :: bool
  obj_is_static :: bool
  obj_is_thread_local :: bool
  obj_is_read_only :: bool
  obj_has_explicit_initializer :: bool
  obj_relocs :: "ir_data_reloc_t list"

record ir_data_module_t =
  dm_objects :: "ir_data_object_t list"

definition copy_name :: "string \<Rightarrow> string option" where
  "copy_name name = (if name = [] then None else Some name)"

definition ir_data_module_new :: ir_data_module_t where
  "ir_data_module_new = \<lparr>dm_objects = []\<rparr>"

definition ir_data_module_find_object :: "ir_data_module_t \<Rightarrow> string \<Rightarrow> nat option" where
  "ir_data_module_find_object module name =
    (if name = [] then None else find_position (\<lambda>x. obj_name x = name) 0 (dm_objects module))"

definition new_data_object :: "string \<Rightarrow> ir_data_object_kind_t \<Rightarrow> ir_data_object_t" where
  "new_data_object name kind =
    \<lparr>obj_name = name, obj_bytes = [], obj_byte_size = 0, obj_alignment = 1,
     obj_requested_alignment = 0, obj_element_size = 1,
     obj_qual_type = \<lparr>qt_type_id = 0, qt_qualifiers = 0\<rparr>, obj_kind = kind,
     obj_has_qual_type = False, obj_is_extern = False, obj_is_static = False,
     obj_is_thread_local = False, obj_is_read_only = False,
     obj_has_explicit_initializer = False, obj_relocs = []\<rparr>"

definition ir_data_module_add_object ::
  "ir_data_module_t \<Rightarrow> string \<Rightarrow> ir_data_object_kind_t \<Rightarrow> ir_data_module_t \<times> nat option" where
  "ir_data_module_add_object module name kind =
    (if name = [] then (module, None)
     else case ir_data_module_find_object module name of
            Some existing \<Rightarrow> (module, Some existing)
          | None \<Rightarrow>
              (case copy_name name of
                 None \<Rightarrow> (module, None)
               | Some copy \<Rightarrow>
                   (module\<lparr>dm_objects := dm_objects module @ [new_data_object copy kind]\<rparr>,
                    Some (length (dm_objects module)))))"

definition ir_data_object_set_bytes ::
  "ir_data_object_t \<Rightarrow> u8 list option \<Rightarrow> int \<Rightarrow> ir_data_object_t option" where
  "ir_data_object_set_bytes object bytes byte_size =
    (if byte_size < 0 \<or> byte_size > 0 \<and> bytes = None then None
     else let copy = (if byte_size > 0 then take (nat byte_size) (the bytes) else [])
          in Some (object\<lparr>obj_bytes := copy, obj_byte_size := byte_size\<rparr>))"

definition reloc_end :: "ir_data_reloc_t \<Rightarrow> int" where
  "reloc_end r = rel_offset r + rel_width r"

definition ir_data_object_add_reloc ::
  "ir_data_object_t \<Rightarrow> int \<Rightarrow> int \<Rightarrow> ir_data_reloc_kind_t \<Rightarrow> string \<Rightarrow> i64 \<Rightarrow>
   ir_function_type_t option \<Rightarrow> ir_data_object_t option" where
  "ir_data_object_add_reloc object offset width kind target addend function_type =
    (if offset < 0 \<or> (width \<noteq> 1 \<and> width \<noteq> 2 \<and> width \<noteq> 4 \<and> width \<noteq> 8) \<or>
        obj_byte_size object < width \<or> offset > obj_byte_size object - width \<or> target = []
     then None
     else if obj_relocs object \<noteq> [] \<and> offset < reloc_end (last (obj_relocs object)) then None
     else case copy_name target of
            None \<Rightarrow> None
          | Some copy \<Rightarrow>
              (let reloc = \<lparr>rel_target = copy, rel_offset = offset, rel_width = width,
                            rel_addend = addend, rel_kind = kind,
                            rel_function_type = zero_function_type,
                            rel_has_function_type = False\<rparr>;
                   link = (\<lambda>r. Some (object\<lparr>obj_relocs := obj_relocs object @ [r]\<rparr>))
               in case function_type of
                    None \<Rightarrow> link reloc
                  | Some ft \<Rightarrow>
                      (case ir_function_type_copy (Some ft) of
                         None \<Rightarrow> None
                       | Some c \<Rightarrow>
                           link (reloc\<lparr>rel_function_type := c, rel_has_function_type := True\<rparr>))))"

section \<open>The registry of objects\<close>

definition object_added ::
  "ir_data_object_kind_t \<Rightarrow> ir_data_module_t \<Rightarrow> string \<Rightarrow> ir_data_module_t" where
  "object_added kind module name = fst (ir_data_module_add_object module name kind)"

interpretation data_objects: injective_registry ir_data_module_find_object "object_added kind"
  "\<lambda>name. name \<noteq> []" for kind
proof
  fix m :: ir_data_module_t and k k' :: string and p :: nat
  note defs = object_added_def ir_data_module_add_object_def ir_data_module_find_object_def
    copy_name_def new_data_object_def
  show "k \<noteq> [] \<Longrightarrow> ir_data_module_find_object (object_added kind m k) k \<noteq> None"
    by (auto simp: defs find_position_append split: option.splits)
  show "ir_data_module_find_object m k' = Some p \<Longrightarrow>
        ir_data_module_find_object (object_added kind m k) k' = Some p"
    by (auto simp: defs find_position_append split: option.splits if_splits)
  show "ir_data_module_find_object (object_added kind m k) k' = Some p \<Longrightarrow>
        ir_data_module_find_object m k' = Some p \<or> k' = k \<and> k \<noteq> []"
    by (auto simp: defs find_position_append split: option.splits if_splits)
  show "ir_data_module_find_object m k \<noteq> None \<Longrightarrow> object_added kind m k = m"
    by (auto simp: object_added_def ir_data_module_add_object_def)
  show "\<not> k \<noteq> [] \<Longrightarrow> object_added kind m k = m"
    by (simp add: object_added_def ir_data_module_add_object_def)
  show "ir_data_module_find_object m k = Some p \<Longrightarrow> ir_data_module_find_object m k' = Some p \<Longrightarrow>
        k = k'"
    by (auto simp: ir_data_module_find_object_def dest!: find_position_0 split: if_splits)
qed

section \<open>Relocations\<close>

text \<open>
  The relocations of an object lie inside its bytes, in order and without overlap, and their
  widths are those the object writers emit.
\<close>

definition reloc_ok :: "int \<Rightarrow> ir_data_reloc_t \<Rightarrow> bool" where
  "reloc_ok limit r \<longleftrightarrow>
     0 \<le> rel_offset r \<and> rel_width r \<in> {1, 2, 4, 8} \<and> reloc_end r \<le> limit \<and> rel_target r \<noteq> []"

definition relocs_ok :: "ir_data_object_t \<Rightarrow> bool" where
  "relocs_ok object \<longleftrightarrow>
     list_all (reloc_ok (obj_byte_size object)) (obj_relocs object) \<and>
     sorted_wrt (\<lambda>a b. reloc_end a \<le> rel_offset b) (obj_relocs object)"

lemma sorted_wrt_last_trans:
  assumes "sorted_wrt (\<lambda>a b. reloc_end a \<le> rel_offset b) rs" "rs \<noteq> []"
    and "list_all (reloc_ok limit) rs" "a \<in> set rs"
  shows "reloc_end a \<le> reloc_end (last rs)"
proof -
  obtain ys where rs: "rs = ys @ [last rs]" using assms(2) by (metis append_butlast_last_id)
  have "reloc_ok limit (last rs)" using assms(2,3) by (simp add: list_all_iff)
  then have l: "0 < rel_width (last rs)" by (auto simp: reloc_ok_def)
  have "sorted_wrt (\<lambda>a b. reloc_end a \<le> rel_offset b) (ys @ [last rs])" using assms(1) rs by simp
  then have "\<forall>x \<in> set ys. reloc_end x \<le> rel_offset (last rs)" by (simp add: sorted_wrt_append)
  moreover have "a \<in> set ys \<or> a = last rs"
    using assms(4) rs by (metis Un_iff empty_iff empty_set set_ConsD set_append)
  ultimately show ?thesis using l by (auto simp: reloc_end_def)
qed

lemma add_reloc_appends:
  assumes "ir_data_object_add_reloc object offset width kind target addend ft = Some object'"
  obtains r where "object' = object\<lparr>obj_relocs := obj_relocs object @ [r]\<rparr>"
    "rel_offset r = offset" "rel_width r = width" "rel_target r = target" "rel_addend r = addend"
    "0 \<le> offset" "width \<in> {1, 2, 4, 8}" "offset + width \<le> obj_byte_size object" "target \<noteq> []"
    "obj_relocs object \<noteq> [] \<Longrightarrow> reloc_end (last (obj_relocs object)) \<le> offset"
proof -
  let ?g = "offset < 0 \<or> (width \<noteq> 1 \<and> width \<noteq> 2 \<and> width \<noteq> 4 \<and> width \<noteq> 8) \<or>
    obj_byte_size object < width \<or> offset > obj_byte_size object - width \<or> target = []"
  let ?h = "obj_relocs object \<noteq> [] \<and> offset < reloc_end (last (obj_relocs object))"
  let ?r = "\<lparr>rel_target = target, rel_offset = offset, rel_width = width, rel_addend = addend,
    rel_kind = kind, rel_function_type = zero_function_type, rel_has_function_type = False\<rparr>"
  note s = assms [unfolded ir_data_object_add_reloc_def]
  note g1 = guard_passed [OF s] note g2 = guard_passed [OF g1(2)]
  have g: "\<not> ?g" "\<not> ?h" using g1(1) g2(1) .
  then have t: "copy_name target = Some target" by (simp add: copy_name_def)
  have "object' = object\<lparr>obj_relocs := obj_relocs object @ [?r]\<rparr> \<or>
    (\<exists>c. object' = object\<lparr>obj_relocs := obj_relocs object @
       [?r\<lparr>rel_function_type := c, rel_has_function_type := True\<rparr>]\<rparr>)"
    using g2(2) unfolding t Let_def
    by (auto split: option.splits)
  then have "\<exists>r. object' = object\<lparr>obj_relocs := obj_relocs object @ [r]\<rparr> \<and>
      rel_offset r = offset \<and> rel_width r = width \<and> rel_target r = target \<and> rel_addend r = addend"
    by (elim disjE exE) (rule exI, erule conjI, simp)+
  moreover have "0 \<le> offset" "width \<in> {1, 2, 4, 8}" "offset + width \<le> obj_byte_size object"
      "target \<noteq> []"
    using g(1) by auto
  moreover have "reloc_end (last (obj_relocs object)) \<le> offset" if "obj_relocs object \<noteq> []"
    using g(2) that by linarith
  ultimately show ?thesis using that by blast
qed

text \<open>
  Adding a relocation keeps the relocations of an object inside its bytes, ordered and
  disjoint, and links the new one last with the offset, width, target and addend it was given.
\<close>

theorem add_reloc_preserves_relocs_ok:
  assumes "relocs_ok object"
    and "ir_data_object_add_reloc object offset width kind target addend ft = Some object'"
  shows "relocs_ok object' \<and> length (obj_relocs object') = Suc (length (obj_relocs object)) \<and>
    rel_offset (last (obj_relocs object')) = offset \<and>
    rel_width (last (obj_relocs object')) = width \<and>
    rel_target (last (obj_relocs object')) = target"
proof -
  obtain r where r: "object' = object\<lparr>obj_relocs := obj_relocs object @ [r]\<rparr>"
    "rel_offset r = offset" "rel_width r = width" "rel_target r = target" "rel_addend r = addend"
    "0 \<le> offset" "width \<in> {1, 2, 4, 8}" "offset + width \<le> obj_byte_size object" "target \<noteq> []"
    "obj_relocs object \<noteq> [] \<Longrightarrow> reloc_end (last (obj_relocs object)) \<le> offset"
    using add_reloc_appends [OF assms(2)] by blast
  have "reloc_end a \<le> rel_offset r" if "a \<in> set (obj_relocs object)" for a
  proof -
    have ne: "obj_relocs object \<noteq> []" using that by auto
    have "reloc_end a \<le> reloc_end (last (obj_relocs object))"
      using assms(1) that ne by (intro sorted_wrt_last_trans) (auto simp: relocs_ok_def)
    then show ?thesis using r(2,10) ne by simp
  qed
  moreover have "reloc_ok (obj_byte_size object) r"
    using r by (simp add: reloc_ok_def reloc_end_def)
  ultimately show ?thesis
    using assms(1) r(1-4) by (simp add: relocs_ok_def sorted_wrt_append)
qed

definition demo_object :: ir_data_object_t where
  "demo_object = (new_data_object ''table'' IR_DATA_OBJECT)
     \<lparr>obj_bytes := replicate 16 0, obj_byte_size := 16\<rparr>"

lemma add_reloc_preserves_relocs_ok_witness:
  "\<exists>object'. ir_data_object_add_reloc demo_object 8 8 IR_DATA_RELOC_DATA ''x'' 0 None = Some object' \<and>
     relocs_ok object' \<and> rel_offset (last (obj_relocs object')) = 8"
proof -
  have "relocs_ok demo_object"
    by (simp add: demo_object_def new_data_object_def relocs_ok_def)
  moreover obtain object' where
    "ir_data_object_add_reloc demo_object 8 8 IR_DATA_RELOC_DATA ''x'' 0 None = Some object'"
    by (simp add: ir_data_object_add_reloc_def demo_object_def new_data_object_def copy_name_def)
  ultimately show ?thesis using add_reloc_preserves_relocs_ok by blast
qed

text \<open>
  The objects of a data module are a set of names with stable entries: after any sequence of
  additions a name is found exactly when it was there or was added, and adding a name again
  returns the module unchanged, whatever kind it is added with.
\<close>

theorem data_objects_complete:
  "(ir_data_module_find_object (fold (\<lambda>name m. object_added kind m name) names m) name \<noteq> None \<longleftrightarrow>
      ir_data_module_find_object m name \<noteq> None \<or> name \<in> set names \<and> name \<noteq> []) \<and>
   object_added kind' (object_added kind m name) name = object_added kind m name"
  using data_objects.adds_find [of kind names m name] data_objects.add_finds [of name kind m]
    data_objects.add_present [of "object_added kind m name" name kind']
    data_objects.add_invalid [of name] by (cases "name = []") auto

lemma data_objects_complete_witness:
  "ir_data_module_find_object
     (fold (\<lambda>name m. object_added IR_DATA_OBJECT m name) [''a'', ''b''] ir_data_module_new) ''b'' \<noteq> None"
  using data_objects_complete [of IR_DATA_OBJECT "[''a'', ''b'']" ir_data_module_new "''b''"] by simp

end
