(* ===== verification/WasmBuffer.thy ===== *)
theory WasmBuffer
  imports Prelude
begin

text \<open>
  The byte buffer of the Wasm object writer, \<^verbatim>\<open>src/arch/wasm32/wasm32_obj_buffer.c\<close>, with the
  LEB128 encoders. The buffer is the list of its \<^verbatim>\<open>len\<close> bytes with its capacity, its optional
  limit (0 for none) and its overflow flag; \<^verbatim>\<open>len\<close>, \<^verbatim>\<open>cap\<close> and \<^verbatim>\<open>max_len\<close> are 32-bit counts kept as
  naturals below \<open>2^32\<close>, which the guards of \<open>wasm32_obj_buffer_reserve\<close> maintain. \<^verbatim>\<open>realloc\<close> does not
  fail here.
\<close>

abbreviation (input) UINT32_MAX :: nat where "UINT32_MAX \<equiv> 4294967295"

record wasm32_obj_buffer_t =
  wb_data :: "u8 list"
  wb_cap :: nat
  wb_max_len :: nat
  wb_overflow :: bool

definition zero_buffer :: wasm32_obj_buffer_t where
  "zero_buffer = \<lparr>wb_data = [], wb_cap = 0, wb_max_len = 0, wb_overflow = False\<rparr>"

text \<open>\<^verbatim>\<open>while (capacity < required && capacity <= UINT32_MAX / 2) capacity *= 2;\<close>\<close>

function grow_capacity :: "nat \<Rightarrow> nat \<Rightarrow> nat" where
  "grow_capacity required capacity =
    (if 0 < capacity \<and> capacity < required \<and> capacity \<le> UINT32_MAX div 2
     then grow_capacity required (capacity * 2) else capacity)"
  by pat_completeness auto
termination by (relation "measure (\<lambda>(required, capacity). required - capacity)") auto

declare grow_capacity.simps [simp del]

definition new_capacity :: "wasm32_obj_buffer_t \<Rightarrow> nat \<Rightarrow> nat" where
  "new_capacity buffer required =
    (let capacity = (if wb_cap buffer \<noteq> 0
           then (if wb_cap buffer > UINT32_MAX div 2 then UINT32_MAX else wb_cap buffer * 2)
           else 128);
         capacity1 = grow_capacity required capacity;
         capacity2 = (if capacity1 < required then required else capacity1)
     in if wb_max_len buffer \<noteq> 0 \<and> capacity2 > wb_max_len buffer then wb_max_len buffer
        else capacity2)"

definition wasm32_obj_buffer_reserve ::
  "wasm32_obj_buffer_t \<Rightarrow> nat \<Rightarrow> bool \<times> wasm32_obj_buffer_t" where
  "wasm32_obj_buffer_reserve buffer additional_bytes =
    (let len = length (wb_data buffer) in
     if additional_bytes > UINT32_MAX \<or> len > UINT32_MAX - additional_bytes
     then (False, buffer\<lparr>wb_overflow := True\<rparr>)
     else let required = len + additional_bytes in
       if wb_max_len buffer \<noteq> 0 \<and> required > wb_max_len buffer
       then (False, buffer\<lparr>wb_overflow := True\<rparr>)
       else if required \<le> wb_cap buffer then (True, buffer)
       else (True, buffer\<lparr>wb_cap := new_capacity buffer required\<rparr>))"

definition wasm32_obj_buffer_u8 :: "wasm32_obj_buffer_t \<Rightarrow> u32 \<Rightarrow> wasm32_obj_buffer_t" where
  "wasm32_obj_buffer_u8 buffer value =
    (let (ok, buffer1) = wasm32_obj_buffer_reserve buffer 1
     in if \<not> ok then buffer1 else buffer1\<lparr>wb_data := wb_data buffer1 @ [ucast value]\<rparr>)"

definition wasm32_obj_buffer_bytes :: "wasm32_obj_buffer_t \<Rightarrow> u8 list \<Rightarrow> wasm32_obj_buffer_t" where
  "wasm32_obj_buffer_bytes buffer bytes =
    (if length bytes = 0 then buffer
     else let (ok, buffer1) = wasm32_obj_buffer_reserve buffer (length bytes)
          in if \<not> ok then buffer1 else buffer1\<lparr>wb_data := wb_data buffer1 @ bytes\<rparr>)"

definition wasm32_obj_buffer_u32le :: "wasm32_obj_buffer_t \<Rightarrow> u32 \<Rightarrow> wasm32_obj_buffer_t" where
  "wasm32_obj_buffer_u32le buffer value =
    (let b1 = wasm32_obj_buffer_u8 buffer (value AND 0xff);
         b2 = wasm32_obj_buffer_u8 b1 (drop_bit 8 value AND 0xff);
         b3 = wasm32_obj_buffer_u8 b2 (drop_bit 16 value AND 0xff)
     in wasm32_obj_buffer_u8 b3 (drop_bit 24 value AND 0xff))"

section \<open>LEB128\<close>

lemma drop_bit_7_less: "drop_bit 7 (v :: u32) \<noteq> 0 \<Longrightarrow> unat (drop_bit 7 v) < unat v"
proof -
  assume nz: "drop_bit 7 v \<noteq> 0"
  have "unat (drop_bit 7 v) = unat v div 128"
    by (simp add: drop_bit_eq_div unat_div)
  moreover have "unat v \<noteq> 0" using nz by (auto simp: unat_eq_0)
  ultimately show ?thesis by simp
qed

text \<open>The bytes of the \<^verbatim>\<open>do ... while (value)\<close> loop: seven bits a byte, low ones first.\<close>

definition low7 :: "u32 \<Rightarrow> u32" where "low7 v = v AND 0x7f"

function wasm32_obj_buffer_uleb :: "wasm32_obj_buffer_t \<Rightarrow> u32 \<Rightarrow> wasm32_obj_buffer_t" where
  "wasm32_obj_buffer_uleb buffer value =
    (let byte = low7 value; value1 = drop_bit 7 value
     in if value1 \<noteq> 0
        then wasm32_obj_buffer_uleb (wasm32_obj_buffer_u8 buffer (byte OR 0x80)) value1
        else wasm32_obj_buffer_u8 buffer byte)"
  by pat_completeness auto
termination
  by (relation "measure (\<lambda>(buffer, value). unat value)") (auto intro: drop_bit_7_less)

declare wasm32_obj_buffer_uleb.simps [simp del]

text \<open>The distance of a signed value from 0 or -1, which the signed loop lowers.\<close>

definition sleb_size :: "i64 \<Rightarrow> nat" where
  "sleb_size v = nat (if sint v < 0 then - sint v - 1 else sint v)"

definition sleb_next :: "i64 \<Rightarrow> i64" where
  "sleb_next value =
    (let shifted = drop_bit 7 value
     in if sint value < 0 then shifted OR push_bit 57 (- 1) else shifted)"

definition sleb_done :: "i64 \<Rightarrow> bool" where
  "sleb_done value \<longleftrightarrow>
     (let sign = value AND 0x40; value1 = sleb_next value
      in (value1 = 0 \<and> sign = 0) \<or> (value1 = - 1 \<and> sign \<noteq> 0))"

lemma sleb_next_eq: "sleb_next v = signed_drop_bit 7 v"
  unfolding sleb_next_def Let_def
  by (rule bit_word_eqI)
     (auto simp: bit_simps bit_last_iff [symmetric] not_le dest: bit_imp_le_length)

lemma sint_sleb_next: "sint (sleb_next v) = sint v div 128"
  by (simp add: sleb_next_eq sint_signed_drop_bit_eq drop_bit_eq_div)

lemma sleb_next_less: "\<not> sleb_done v \<Longrightarrow> sleb_size (sleb_next v) < sleb_size v"
proof -
  assume nd: "\<not> sleb_done v"
  have "sint v \<noteq> 0 \<and> sint v \<noteq> - 1"
  proof (rule ccontr)
    assume "\<not> ?thesis"
    then have "v = 0 \<or> v = - 1" by (metis signed_word_eqI sint_0 sint_n1)
    then have "sleb_done v" by (auto simp: sleb_done_def sleb_next_eq)
    then show False using nd by simp
  qed
  then show ?thesis
    unfolding sleb_size_def sint_sleb_next by (cases "sint v < 0") auto
qed

function wasm32_obj_buffer_sleb :: "wasm32_obj_buffer_t \<Rightarrow> i64 \<Rightarrow> wasm32_obj_buffer_t" where
  "wasm32_obj_buffer_sleb buffer value =
    (let byte = ucast (value AND 0x7f)
     in if sleb_done value then wasm32_obj_buffer_u8 buffer byte
        else wasm32_obj_buffer_sleb (wasm32_obj_buffer_u8 buffer (byte OR 0x80)) (sleb_next value))"
  by pat_completeness auto
termination
  by (relation "measure (\<lambda>(buffer, value). sleb_size value)") (auto intro: sleb_next_less)

declare wasm32_obj_buffer_sleb.simps [simp del]

text \<open>The five-byte form, one byte for each \<open>index\<close> from 0.\<close>

definition uleb5_byte :: "u32 \<Rightarrow> nat \<Rightarrow> u32" where
  "uleb5_byte value index =
    (let byte = low7 (drop_bit (7 * index) value)
     in if index \<noteq> 4 then byte OR 0x80 else byte)"

definition wasm32_obj_buffer_uleb5 :: "wasm32_obj_buffer_t \<Rightarrow> u32 \<Rightarrow> nat \<times> wasm32_obj_buffer_t" where
  "wasm32_obj_buffer_uleb5 buffer value =
    (length (wb_data buffer),
     fold (\<lambda>index b. wasm32_obj_buffer_u8 b (uleb5_byte value index)) [0..<5] buffer)"

text \<open>Patching in place; the destination has at least five bytes from \<open>offset\<close>.\<close>

definition wasm32_obj_buffer_patch_uleb5 :: "u8 list \<Rightarrow> nat \<Rightarrow> u32 \<Rightarrow> u8 list" where
  "wasm32_obj_buffer_patch_uleb5 destination offset value =
     fold (\<lambda>index d. d[offset + index := ucast (uleb5_byte value index)]) [0..<5] destination"

section \<open>Strings and sections\<close>

definition wasm32_obj_buffer_string :: "wasm32_obj_buffer_t \<Rightarrow> u8 list \<Rightarrow> wasm32_obj_buffer_t" where
  "wasm32_obj_buffer_string buffer string =
    wasm32_obj_buffer_bytes (wasm32_obj_buffer_uleb buffer (of_nat (length string))) string"

definition wasm32_obj_buffer_section ::
  "wasm32_obj_buffer_t \<Rightarrow> u32 \<Rightarrow> wasm32_obj_buffer_t \<Rightarrow> wasm32_obj_buffer_t" where
  "wasm32_obj_buffer_section output section_id payload =
    wasm32_obj_buffer_bytes
      (wasm32_obj_buffer_uleb (wasm32_obj_buffer_u8 output section_id)
         (of_nat (length (wb_data payload))))
      (wb_data payload)"

definition wasm32_obj_buffer_custom_section ::
  "wasm32_obj_buffer_t \<Rightarrow> u8 list \<Rightarrow> wasm32_obj_buffer_t \<Rightarrow> wasm32_obj_buffer_t" where
  "wasm32_obj_buffer_custom_section output name payload =
    wasm32_obj_buffer_section output 0
      (wasm32_obj_buffer_bytes (wasm32_obj_buffer_string zero_buffer name) (wb_data payload))"

section \<open>Capacity and limits\<close>

definition buffer_wf :: "wasm32_obj_buffer_t \<Rightarrow> bool" where
  "buffer_wf b \<longleftrightarrow>
     length (wb_data b) \<le> wb_cap b \<and> wb_cap b \<le> UINT32_MAX \<and>
     (wb_max_len b = 0 \<or> length (wb_data b) \<le> wb_max_len b)"

lemma grow_capacity_bounds:
  "capacity \<le> UINT32_MAX \<Longrightarrow>
   capacity \<le> grow_capacity required capacity \<and> grow_capacity required capacity \<le> UINT32_MAX"
proof (induction required capacity rule: grow_capacity.induct)
  case (1 required capacity)
  show ?case
  proof (cases "0 < capacity \<and> capacity < required \<and> capacity \<le> UINT32_MAX div 2")
    case True
    then have "capacity * 2 \<le> grow_capacity required (capacity * 2) \<and>
        grow_capacity required (capacity * 2) \<le> UINT32_MAX"
      by (intro "1.IH") auto
    then show ?thesis using True by (subst (1 2) grow_capacity.simps) auto
  next
    case False
    then show ?thesis using "1.prems" by (subst (1 2) grow_capacity.simps) auto
  qed
qed

lemma new_capacity_bounds:
  assumes "wb_cap b \<le> UINT32_MAX" "required \<le> UINT32_MAX"
    and "wb_max_len b = 0 \<or> required \<le> wb_max_len b" "wb_max_len b \<le> UINT32_MAX"
  shows "required \<le> new_capacity b required \<and> new_capacity b required \<le> UINT32_MAX"
proof -
  let ?c = "if wb_cap b \<noteq> 0 then (if wb_cap b > UINT32_MAX div 2 then UINT32_MAX else wb_cap b * 2)
            else 128"
  have "?c \<le> UINT32_MAX" by auto
  then have "grow_capacity required ?c \<le> UINT32_MAX" using grow_capacity_bounds by blast
  then show ?thesis
    using assms(2-4) unfolding new_capacity_def Let_def by (auto split: if_splits)
qed

text \<open>Whether \<open>n\<close> more bytes fit, and what an append does then and otherwise.\<close>

definition room :: "wasm32_obj_buffer_t \<Rightarrow> nat \<Rightarrow> bool" where
  "room b n \<longleftrightarrow>
     length (wb_data b) + n \<le> UINT32_MAX \<and>
     (wb_max_len b = 0 \<or> length (wb_data b) + n \<le> wb_max_len b)"

lemma reserve_room:
  "fst (wasm32_obj_buffer_reserve b n) \<longleftrightarrow> room b n"
  by (auto simp: wasm32_obj_buffer_reserve_def room_def Let_def)

lemma reserve_data:
  "wb_data (snd (wasm32_obj_buffer_reserve b n)) = wb_data b"
  "wb_max_len (snd (wasm32_obj_buffer_reserve b n)) = wb_max_len b"
  by (auto simp: wasm32_obj_buffer_reserve_def Let_def)

lemma reserve_overflow:
  "wb_overflow (snd (wasm32_obj_buffer_reserve b n)) \<longleftrightarrow> wb_overflow b \<or> \<not> room b n"
  by (auto simp: wasm32_obj_buffer_reserve_def room_def Let_def)

lemma reserve_cap:
  assumes "buffer_wf b" "wb_max_len b \<le> UINT32_MAX" "room b n"
  shows "length (wb_data b) + n \<le> wb_cap (snd (wasm32_obj_buffer_reserve b n)) \<and>
         wb_cap (snd (wasm32_obj_buffer_reserve b n)) \<le> UINT32_MAX"
  using assms new_capacity_bounds [of b "length (wb_data b) + n"]
  by (auto simp: wasm32_obj_buffer_reserve_def room_def buffer_wf_def Let_def)

text \<open>Appending a list of bytes one by one, as a whole.\<close>

definition appended :: "wasm32_obj_buffer_t \<Rightarrow> u8 list \<Rightarrow> wasm32_obj_buffer_t \<Rightarrow> bool" where
  "appended b bs b' \<longleftrightarrow>
     wb_data b' = wb_data b @ bs \<and> wb_max_len b' = wb_max_len b \<and> wb_overflow b' = wb_overflow b"

lemma appended_refl [simp]: "appended b [] b"
  by (simp add: appended_def)

lemma appended_trans:
  "appended b xs b1 \<Longrightarrow> appended b1 ys b2 \<Longrightarrow> appended b (xs @ ys) b2"
  by (simp add: appended_def)

lemma room_appended: "appended b xs b1 \<Longrightarrow> room b1 n \<longleftrightarrow> room b (length xs + n)"
  by (auto simp: appended_def room_def)

lemma u8_appended: "room b 1 \<Longrightarrow> appended b [ucast v] (wasm32_obj_buffer_u8 b v)"
  using reserve_room [of b 1] reserve_overflow [of b 1] reserve_data [of b 1]
  by (auto simp: wasm32_obj_buffer_u8_def appended_def Let_def split: prod.splits)

lemma bytes_appended: "room b (length bs) \<Longrightarrow> appended b bs (wasm32_obj_buffer_bytes b bs)"
  using reserve_room [of b "length bs"] reserve_overflow [of b "length bs"]
    reserve_data [of b "length bs"]
  by (auto simp: wasm32_obj_buffer_bytes_def appended_def Let_def split: prod.splits)

lemma room_mono: "room b n \<Longrightarrow> m \<le> n \<Longrightarrow> room b m"
  by (auto simp: room_def)

text \<open>The encoded bytes by themselves; every encoder appends them when they fit.\<close>

function uleb_bytes :: "u32 \<Rightarrow> u8 list" where
  "uleb_bytes value =
    (if drop_bit 7 value \<noteq> 0
     then ucast (low7 value OR 0x80) # uleb_bytes (drop_bit 7 value)
     else [ucast (low7 value)])"
  by pat_completeness auto
termination by (relation "measure unat") (auto intro: drop_bit_7_less)

function sleb_bytes :: "i64 \<Rightarrow> u8 list" where
  "sleb_bytes value =
    (if sleb_done value then [ucast (ucast (value AND 0x7f) :: u32)]
     else ucast (ucast (value AND 0x7f) OR (0x80 :: u32)) # sleb_bytes (sleb_next value))"
  by pat_completeness auto
termination by (relation "measure sleb_size") (auto intro: sleb_next_less)

declare uleb_bytes.simps [simp del] sleb_bytes.simps [simp del]

definition uleb5_bytes :: "u32 \<Rightarrow> u8 list" where
  "uleb5_bytes value = map (\<lambda>index. ucast (uleb5_byte value index)) [0..<5]"

lemma uleb_appended:
  "room b (length (uleb_bytes v)) \<Longrightarrow> appended b (uleb_bytes v) (wasm32_obj_buffer_uleb b v)"
proof (induction b v rule: wasm32_obj_buffer_uleb.induct)
  case (1 b v)
  show ?case
  proof (cases "drop_bit 7 v = 0")
    case True
    then have "uleb_bytes v = [ucast (low7 v)]" "wasm32_obj_buffer_uleb b v = wasm32_obj_buffer_u8 b (low7 v)"
      by (simp_all add: uleb_bytes.simps [of v] wasm32_obj_buffer_uleb.simps [of b v])
    then show ?thesis using "1.prems" u8_appended [of b "low7 v"] by simp
  next
    case False
    let ?b = "wasm32_obj_buffer_u8 b (low7 v OR 0x80)"
    have e: "uleb_bytes v = [ucast (low7 v OR 0x80)] @ uleb_bytes (drop_bit 7 v)"
        "wasm32_obj_buffer_uleb b v = wasm32_obj_buffer_uleb ?b (drop_bit 7 v)"
      using False by (simp_all add: uleb_bytes.simps [of v] wasm32_obj_buffer_uleb.simps [of b v])
    have a: "appended b [ucast (low7 v OR 0x80)] ?b"
      using "1.prems" e(1) by (intro u8_appended) (auto elim: room_mono)
    have "room ?b (length (uleb_bytes (drop_bit 7 v)))"
      using "1.prems" e(1) by (simp add: room_appended [OF a])
    then have "appended ?b (uleb_bytes (drop_bit 7 v)) (wasm32_obj_buffer_uleb ?b (drop_bit 7 v))"
      using False by (intro "1.IH") simp_all
    then show ?thesis unfolding e by (rule appended_trans [OF a])
  qed
qed

lemma sleb_appended:
  "room b (length (sleb_bytes v)) \<Longrightarrow> appended b (sleb_bytes v) (wasm32_obj_buffer_sleb b v)"
proof (induction b v rule: wasm32_obj_buffer_sleb.induct)
  case (1 b v)
  let ?c = "ucast (v AND 0x7f) :: u32"
  show ?case
  proof (cases "sleb_done v")
    case True
    then have "sleb_bytes v = [ucast ?c]" "wasm32_obj_buffer_sleb b v = wasm32_obj_buffer_u8 b ?c"
      by (simp_all add: sleb_bytes.simps [of v] wasm32_obj_buffer_sleb.simps [of b v])
    then show ?thesis using "1.prems" u8_appended [of b ?c] by simp
  next
    case False
    let ?b = "wasm32_obj_buffer_u8 b (?c OR 0x80)"
    have e: "sleb_bytes v = [ucast (?c OR 0x80)] @ sleb_bytes (sleb_next v)"
        "wasm32_obj_buffer_sleb b v = wasm32_obj_buffer_sleb ?b (sleb_next v)"
      using False by (simp_all add: sleb_bytes.simps [of v] wasm32_obj_buffer_sleb.simps [of b v])
    have a: "appended b [ucast (?c OR 0x80)] ?b"
      using "1.prems" e(1) by (intro u8_appended) (auto elim: room_mono)
    have "room ?b (length (sleb_bytes (sleb_next v)))"
      using "1.prems" e(1) by (simp add: room_appended [OF a])
    then have "appended ?b (sleb_bytes (sleb_next v)) (wasm32_obj_buffer_sleb ?b (sleb_next v))"
      using False by (intro "1.IH") simp_all
    then show ?thesis unfolding e by (rule appended_trans [OF a])
  qed
qed

lemma fold_u8_appended:
  "room b (length vs) \<Longrightarrow>
   appended b (map ucast vs) (fold (\<lambda>v b. wasm32_obj_buffer_u8 b v) vs b)"
proof (induction vs arbitrary: b)
  case Nil
  then show ?case by simp
next
  case (Cons v vs)
  have a: "appended b [ucast v] (wasm32_obj_buffer_u8 b v)"
    using Cons.prems by (intro u8_appended) (auto elim: room_mono)
  have "room (wasm32_obj_buffer_u8 b v) (length vs)"
    using Cons.prems by (simp add: room_appended [OF a])
  from appended_trans [OF a Cons.IH [OF this]] show ?case by simp
qed

lemma uleb5_appended:
  assumes "room b 5"
  shows "appended b (uleb5_bytes v) (snd (wasm32_obj_buffer_uleb5 b v))"
  using fold_u8_appended [of b "map (uleb5_byte v) [0..<5]"] assms
  by (simp add: wasm32_obj_buffer_uleb5_def uleb5_bytes_def upt_rec eval_nat_numeral)

text \<open>
  A write is all or nothing and stays within the limits: on a buffer whose bytes fit in its
  capacity and its limit, appending a block either adds exactly its bytes, or leaves the bytes
  alone and sets the overflow flag; it never clears the flag, and the bytes again fit in the
  capacity, in 32 bits and in the limit.
\<close>

theorem buffer_bytes_all_or_nothing:
  fixes b :: wasm32_obj_buffer_t and bs :: "u8 list"
  assumes "buffer_wf b" "wb_max_len b \<le> UINT32_MAX"
  defines "b' \<equiv> wasm32_obj_buffer_bytes b bs"
  shows "buffer_wf b' \<and>
    (wb_data b' = wb_data b @ bs \<and> wb_overflow b' = wb_overflow b \<or>
     wb_data b' = wb_data b \<and> wb_overflow b' \<and> \<not> room b (length bs))"
proof (cases "bs = []")
  case True
  then show ?thesis using assms by (simp add: wasm32_obj_buffer_bytes_def)
next
  case False
  obtain ok b1 where r: "wasm32_obj_buffer_reserve b (length bs) = (ok, b1)" by fastforce
  have ok: "ok \<longleftrightarrow> room b (length bs)" using reserve_room [of b "length bs"] r by simp
  have d: "wb_data b1 = wb_data b" "wb_max_len b1 = wb_max_len b"
      "wb_overflow b1 \<longleftrightarrow> wb_overflow b \<or> \<not> room b (length bs)"
    using reserve_data [of b "length bs"] reserve_overflow [of b "length bs"] r by simp_all
  show ?thesis
  proof (cases ok)
    case True
    then have b': "b' = b1\<lparr>wb_data := wb_data b @ bs\<rparr>"
      using False r d by (simp add: b'_def wasm32_obj_buffer_bytes_def)
    have "length (wb_data b) + length bs \<le> wb_cap b1 \<and> wb_cap b1 \<le> UINT32_MAX"
      using reserve_cap [OF assms(1,2)] True ok r by fastforce
    then show ?thesis
      using True ok d b' by (simp add: buffer_wf_def room_def)
  next
    case no: False
    then have "b' = b1" "b1 = b\<lparr>wb_overflow := True\<rparr>"
      using False r by (auto simp: b'_def wasm32_obj_buffer_bytes_def wasm32_obj_buffer_reserve_def Let_def
            split: if_splits)
    then show ?thesis using no ok assms(1) by (simp add: buffer_wf_def)
  qed
qed

lemma buffer_bytes_all_or_nothing_witness:
  "wb_overflow (wasm32_obj_buffer_bytes (zero_buffer\<lparr>wb_max_len := 2\<rparr>) [1, 2, 3])"
proof -
  have "\<not> room (zero_buffer\<lparr>wb_max_len := 2\<rparr>) 3" by (simp add: room_def zero_buffer_def)
  then have "wb_data (wasm32_obj_buffer_bytes (zero_buffer\<lparr>wb_max_len := 2\<rparr>) [1, 2, 3]) = []"
    by (simp add: wasm32_obj_buffer_bytes_def wasm32_obj_buffer_reserve_def zero_buffer_def)
  then show ?thesis
    using buffer_bytes_all_or_nothing [of "zero_buffer\<lparr>wb_max_len := 2\<rparr>" "[1, 2, 3]"]
    by (auto simp: buffer_wf_def zero_buffer_def)
qed

end
