(* ===== verification/WasmLink.thy ===== *)
theory WasmLink
  imports WasmBuffer
begin

text \<open>
  The byte reader and writer of the Wasm linker, \<^verbatim>\<open>tools/wasm_obj_linker/ag_wasm_link.c\<close>. A
  diagnostic (\<^verbatim>\<open>dief\<close>) ends the linker: it is \<open>Refused\<close>. A shift by 32 or more, which C leaves
  undefined, is \<open>Undefined\<close>; a left shift of an \<^verbatim>\<open>int32_t\<close> that loses bits wraps, as the compilers
  of the supported hosts define it. A reader is its bytes and its position.
\<close>

record rd_t =
  rd_p :: "u8 list"
  rd_pos :: nat

section \<open>Reading\<close>

text \<open>One iteration reads a byte; the position bounds the loop.\<close>

definition rd_byte :: "rd_t \<Rightarrow> (u8 \<times> rd_t) outcome" where
  "rd_byte r =
    (if rd_pos r \<ge> length (rd_p r) then Refused
     else Value (rd_p r ! rd_pos r, r\<lparr>rd_pos := rd_pos r + 1\<rparr>))"

lemma rd_byte_Value:
  "rd_byte r = Value (c, r1) \<Longrightarrow>
   length (rd_p r1) - rd_pos r1 < length (rd_p r) - rd_pos r \<and> rd_p r1 = rd_p r \<and>
   rd_pos r1 = rd_pos r + 1"
  by (auto simp: rd_byte_def split: if_splits)

function rd_uleb_loop :: "rd_t \<Rightarrow> u32 \<Rightarrow> nat \<Rightarrow> (u32 \<times> rd_t) outcome" where
  "rd_uleb_loop r v shift =
    (case rd_byte r of
       Refused \<Rightarrow> Refused
     | Undefined \<Rightarrow> Undefined
     | Value (c, r1) \<Rightarrow>
         if shift \<ge> 32 then Undefined
         else let v1 = v OR push_bit shift (ucast (c AND 0x7f))
              in if c AND 0x80 = 0 then Value (v1, r1)
                 else if shift + 7 > 35 then Refused
                 else rd_uleb_loop r1 v1 (shift + 7))"
  by pat_completeness auto
termination
  by (relation "measure (\<lambda>(r, v, shift). length (rd_p r) - rd_pos r)")
     (auto dest: rd_byte_Value)

declare rd_uleb_loop.simps [simp del]

definition rd_uleb :: "rd_t \<Rightarrow> (u32 \<times> rd_t) outcome" where
  "rd_uleb r = rd_uleb_loop r 0 0"

function rd_sleb_loop :: "rd_t \<Rightarrow> u32 \<Rightarrow> nat \<Rightarrow> (u32 \<times> rd_t) outcome" where
  "rd_sleb_loop r v shift =
    (case rd_byte r of
       Refused \<Rightarrow> Refused
     | Undefined \<Rightarrow> Undefined
     | Value (c, r1) \<Rightarrow>
         if shift \<ge> 32 then Undefined
         else let v1 = v OR push_bit shift (ucast (c AND 0x7f)); shift1 = shift + 7
              in if c AND 0x80 \<noteq> 0 then rd_sleb_loop r1 v1 shift1
                 else Value (if shift1 < 32 \<and> c AND 0x40 \<noteq> 0
                             then v1 OR (- push_bit shift1 1) else v1, r1))"
  by pat_completeness auto
termination
  by (relation "measure (\<lambda>(r, v, shift). length (rd_p r) - rd_pos r)")
     (auto dest: rd_byte_Value)

declare rd_sleb_loop.simps [simp del]

text \<open>The value is an \<^verbatim>\<open>int32_t\<close>: its signed reading is \<open>sint\<close>.\<close>

definition rd_sleb :: "rd_t \<Rightarrow> (u32 \<times> rd_t) outcome" where
  "rd_sleb r = rd_sleb_loop r 0 0"

text \<open>\<^verbatim>\<open>r->pos + n\<close> is computed in \<^verbatim>\<open>size_t\<close>; \<open>n\<close> has 32 bits, so it does not wrap on a 64-bit host.\<close>

definition rd_bytes_dup :: "rd_t \<Rightarrow> nat \<Rightarrow> (u8 list \<times> rd_t) outcome" where
  "rd_bytes_dup r n =
    (if rd_pos r + n > length (rd_p r) then Refused
     else Value (take n (drop (rd_pos r) (rd_p r)), r\<lparr>rd_pos := rd_pos r + n\<rparr>))"

text \<open>The length reaches \<^verbatim>\<open>str_dup\<close> as an \<^verbatim>\<open>int\<close>; a negative one makes \<^verbatim>\<open>memcpy\<close> run out of bounds.\<close>

definition rd_str_dup :: "rd_t \<Rightarrow> (u8 list \<times> rd_t) outcome" where
  "rd_str_dup r =
    outcome_bind (rd_uleb r) (\<lambda>(n, r1).
      if rd_pos r1 + unat n > length (rd_p r1) then Refused
      else if sint n < 0 then Undefined
      else rd_bytes_dup r1 (unat n))"

definition rd_skip :: "rd_t \<Rightarrow> nat \<Rightarrow> rd_t outcome" where
  "rd_skip r n =
    (if rd_pos r + n > length (rd_p r) then Refused else Value (r\<lparr>rd_pos := rd_pos r + n\<rparr>))"

section \<open>The codec contract\<close>

text \<open>
  What the writer and the reader of a value promise each other: reading at the position of an
  encoded value, in any surroundings, yields the value and the position after it.
\<close>

locale codec =
  fixes encode :: "'v \<Rightarrow> u8 list"
    and decode :: "rd_t \<Rightarrow> ('v \<times> rd_t) outcome"
    and valid :: "'v \<Rightarrow> bool"
  assumes decode_encode:
    "valid v \<Longrightarrow>
     decode \<lparr>rd_p = pre @ encode v @ rest, rd_pos = length pre\<rparr> =
     Value (v, \<lparr>rd_p = pre @ encode v @ rest, rd_pos = length pre + length (encode v)\<rparr>)"
begin

lemma encode_injective: "valid v \<Longrightarrow> valid w \<Longrightarrow> encode v = encode w \<Longrightarrow> v = w"
  using decode_encode [of v "[]" "[]"] decode_encode [of w "[]" "[]"] by auto

text \<open>Values written one after the other are read back in order.\<close>

primrec decode_many :: "nat \<Rightarrow> rd_t \<Rightarrow> ('v list \<times> rd_t) outcome" where
  "decode_many 0 r = Value ([], r)"
| "decode_many (Suc n) r =
    outcome_bind (decode r) (\<lambda>(v, r1).
      outcome_bind (decode_many n r1) (\<lambda>(vs, r2). Value (v # vs, r2)))"

lemma decode_many_encode:
  "list_all valid vs \<Longrightarrow>
   decode_many (length vs) \<lparr>rd_p = pre @ concat (map encode vs) @ rest, rd_pos = length pre\<rparr> =
   Value (vs, \<lparr>rd_p = pre @ concat (map encode vs) @ rest,
               rd_pos = length pre + length (concat (map encode vs))\<rparr>)"
proof (induction vs arbitrary: pre)
  case Nil
  then show ?case by simp
next
  case (Cons v vs)
  show ?case
    using decode_encode [of v pre "concat (map encode vs) @ rest"]
      Cons.IH [of "pre @ encode v"] Cons.prems
    by (simp add: add.assoc)
qed

text \<open>No code is a proper prefix of another one: a code cannot be read in two ways.\<close>

lemma encode_prefix_free:
  assumes "valid v" "valid w" "encode v @ xs = encode w @ ys"
  shows "v = w"
  using decode_encode [OF assms(1), of "[]" xs] decode_encode [OF assms(2), of "[]" ys] assms(3)
  by simp

end

section \<open>Unsigned LEB128\<close>

lemma rd_byte_at:
  "rd_byte \<lparr>rd_p = pre @ c # rest, rd_pos = length pre\<rparr> =
   Value (c, \<lparr>rd_p = pre @ c # rest, rd_pos = length pre + 1\<rparr>)"
  by (simp add: rd_byte_def)

lemma bit_leb_masks:
  "bit (127 :: int) n \<longleftrightarrow> n < 7" "bit (128 :: int) n \<longleftrightarrow> n = 7" "bit (64 :: int) n \<longleftrightarrow> n = 6"
  using bit_mask_iff [where 'a = int, of 7 n] bit_exp_iff [where 'a = int, of 7 n]
    bit_exp_iff [where 'a = int, of 6 n]
  by (simp_all add: mask_eq_exp_minus_1)

lemma and_bit_zero_iff:
  "(x AND 0x80 = 0) = (\<not> bit (x :: u8) 7)" "(x AND 0x40 = 0) = (\<not> bit (x :: u8) 6)"
  "(y AND 0x40 = 0) = (\<not> bit (y :: i64) 6)"
  using bit_iff_and_push_bit_not_eq_0 [of x 7] bit_iff_and_push_bit_not_eq_0 [of x 6]
    bit_iff_and_push_bit_not_eq_0 [of y 6]
  by simp_all

lemma uleb_byte_bits:
  "ucast (ucast (low7 v) AND (0x7f :: u8)) = low7 v"
  "ucast (ucast (low7 v OR 0x80) AND (0x7f :: u8)) = low7 v"
  "ucast (low7 v) AND (0x80 :: u8) = 0"
  "ucast (low7 v OR 0x80) AND (0x80 :: u8) \<noteq> 0"
  unfolding low7_def and_bit_zero_iff
  by ((rule bit_word_eqI)?; auto simp: bit_simps bit_leb_masks)+

lemma low7_split: "push_bit s (low7 v) OR push_bit (s + 7) (drop_bit 7 v) = push_bit s (v :: u32)"
proof (rule bit_word_eqI)
  fix n
  show "bit (push_bit s (low7 v) OR push_bit (s + 7) (drop_bit 7 v)) n = bit (push_bit s v) n"
    if "n < LENGTH(32)"
  proof (cases "n < s + 7")
    case True
    then show ?thesis by (auto simp: bit_simps low7_def bit_leb_masks)
  next
    case False
    then obtain k where "n = s + 7 + k" by (metis le_Suc_ex not_less)
    then show ?thesis by (auto simp: bit_simps low7_def bit_leb_masks add_ac)
  qed
qed

lemma rd_uleb_loop_bytes:
  "shift < 32 \<Longrightarrow> unat v < 2 ^ (32 - shift) \<Longrightarrow>
   rd_uleb_loop \<lparr>rd_p = pre @ uleb_bytes v @ rest, rd_pos = length pre\<rparr> acc shift =
   Value (acc OR push_bit shift v,
          \<lparr>rd_p = pre @ uleb_bytes v @ rest, rd_pos = length pre + length (uleb_bytes v)\<rparr>)"
proof (induction v arbitrary: pre acc shift rule: uleb_bytes.induct)
  case (1 v)
  show ?case
  proof (cases "drop_bit 7 v = 0")
    case True
    then have e: "uleb_bytes v = [ucast (low7 v)]" by (simp add: uleb_bytes.simps [of v])
    have "push_bit shift (low7 v) = push_bit shift v"
      using low7_split [of shift v] True by simp
    then show ?thesis
      unfolding e using 1(2) rd_byte_at [of pre "ucast (low7 v)" rest]
      by (simp add: rd_uleb_loop.simps [of "\<lparr>rd_p = pre @ ucast (low7 v) # rest, rd_pos = length pre\<rparr>"]
            uleb_byte_bits)
  next
    case False
    let ?c = "ucast (low7 v OR 0x80) :: u8"
    have e: "uleb_bytes v = ?c # uleb_bytes (drop_bit 7 v)"
      using False by (simp add: uleb_bytes.simps [of v])
    have d: "unat (drop_bit 7 v) = unat v div 128"
      by (simp add: drop_bit_eq_div unat_div)
    have "shift + 7 < 32"
    proof (rule ccontr)
      assume "\<not> ?thesis"
      then have "(2 :: nat) ^ (32 - shift) \<le> 2 ^ 7" by (intro power_increasing) auto
      then have "unat v < 128" using 1(3) by simp
      then have "unat (drop_bit 7 v) = 0" using d by simp
      then show False using False by (simp add: unat_eq_0)
    qed
    moreover have "unat (drop_bit 7 v) < 2 ^ (32 - (shift + 7))"
    proof -
      have "(2 :: nat) ^ (32 - shift) = 2 ^ (32 - (shift + 7)) * 128"
        using \<open>shift + 7 < 32\<close> power_add [of "2 :: nat" "32 - (shift + 7)" 7]
        by (simp add: Suc_diff_le [symmetric])
      then show ?thesis using 1(3) d by (simp add: less_mult_imp_div_less)
    qed
    ultimately have IH: "rd_uleb_loop \<lparr>rd_p = (pre @ [?c]) @ uleb_bytes (drop_bit 7 v) @ rest,
        rd_pos = length (pre @ [?c])\<rparr> (acc OR push_bit shift (low7 v)) (shift + 7) =
      Value ((acc OR push_bit shift (low7 v)) OR push_bit (shift + 7) (drop_bit 7 v),
        \<lparr>rd_p = (pre @ [?c]) @ uleb_bytes (drop_bit 7 v) @ rest,
         rd_pos = length (pre @ [?c]) + length (uleb_bytes (drop_bit 7 v))\<rparr>)"
      using False by (intro 1(1)) simp_all
    show ?thesis
      unfolding e
      using IH 1(2) \<open>shift + 7 < 32\<close> rd_byte_at [of pre ?c "uleb_bytes (drop_bit 7 v) @ rest"]
      by (simp add: rd_uleb_loop.simps [of "\<lparr>rd_p = pre @ ?c # uleb_bytes (drop_bit 7 v) @ rest,
            rd_pos = length pre\<rparr>"] uleb_byte_bits low7_split or.assoc)
  qed
qed

interpretation uleb: codec uleb_bytes rd_uleb "\<lambda>_. True"
proof
  fix v :: u32 and pre rest :: "u8 list"
  show "rd_uleb \<lparr>rd_p = pre @ uleb_bytes v @ rest, rd_pos = length pre\<rparr> =
    Value (v, \<lparr>rd_p = pre @ uleb_bytes v @ rest, rd_pos = length pre + length (uleb_bytes v)\<rparr>)"
    using rd_uleb_loop_bytes [of 0 v pre rest 0] unsigned_less [where 'a = nat, of v] by (simp add: rd_uleb_def)
qed

section \<open>Five-byte form\<close>

primrec uleb_join :: "nat \<Rightarrow> u32 list \<Rightarrow> u32 \<Rightarrow> u32" where
  "uleb_join shift [] w = push_bit shift (low7 w)"
| "uleb_join shift (x # xs) w = push_bit shift (low7 x) OR uleb_join (shift + 7) xs w"

lemma rd_uleb_loop_join:
  fixes ws :: "u32 list" and w :: u32
  defines "bs \<equiv> \<lambda>ws. map (\<lambda>x. ucast (low7 x OR 0x80)) ws @ [ucast (low7 w)]"
  shows "shift + 7 * length ws < 32 \<Longrightarrow>
    rd_uleb_loop \<lparr>rd_p = pre @ bs ws @ rest, rd_pos = length pre\<rparr> acc shift =
    Value (acc OR uleb_join shift ws w,
           \<lparr>rd_p = pre @ bs ws @ rest, rd_pos = length pre + length (bs ws)\<rparr>)"
proof (induction ws arbitrary: pre acc shift)
  case Nil
  then show ?case
    using rd_byte_at [of pre "ucast (low7 w)" rest]
    by (simp add: bs_def uleb_byte_bits
          rd_uleb_loop.simps [of "\<lparr>rd_p = pre @ ucast (low7 w) # rest, rd_pos = length pre\<rparr>"])
next
  case (Cons x xs)
  let ?c = "ucast (low7 x OR 0x80) :: u8"
  have "shift + 7 + 7 * length xs < 32" using Cons.prems by simp
  from Cons.IH [OF this, of "pre @ [?c]" "acc OR push_bit shift (low7 x)"] Cons.prems
  show ?case
    using rd_byte_at [of pre ?c "bs xs @ rest"]
    by (subst rd_uleb_loop.simps) (simp add: bs_def uleb_byte_bits or.assoc)
qed

abbreviation (input) uleb5_words :: "u32 \<Rightarrow> u32 list" where
  "uleb5_words v \<equiv> [v, drop_bit 7 v, drop_bit 14 v, drop_bit 21 v]"

lemma uleb5_bytes_eq:
  "uleb5_bytes v =
    map (\<lambda>x. ucast (low7 x OR 0x80)) (uleb5_words v) @ [ucast (low7 (drop_bit 28 v))]"
  by (simp add: uleb5_bytes_def uleb5_byte_def upt_rec)

lemma uleb5_join: "uleb_join 0 (uleb5_words v) (drop_bit 28 v) = v"
proof -
  have d: "drop_bit 7 (drop_bit n v) = drop_bit (n + 7) v" for n
    by (simp add: drop_bit_drop_bit add.commute)
  have "drop_bit 35 v = 0"
    by (rule bit_word_eqI) (auto simp: bit_simps dest: bit_imp_le_length)
  then show ?thesis
    using low7_split [of 0 v] low7_split [of 7 "drop_bit 7 v"] low7_split [of 14 "drop_bit 14 v"]
      low7_split [of 21 "drop_bit 21 v"] low7_split [of 28 "drop_bit 28 v"]
    by (simp add: d)
qed

interpretation uleb5: codec uleb5_bytes rd_uleb "\<lambda>_. True"
proof
  fix v :: u32 and pre rest :: "u8 list"
  show "rd_uleb \<lparr>rd_p = pre @ uleb5_bytes v @ rest, rd_pos = length pre\<rparr> =
      Value (v, \<lparr>rd_p = pre @ uleb5_bytes v @ rest, rd_pos = length pre + length (uleb5_bytes v)\<rparr>)"
    unfolding rd_uleb_def uleb5_bytes_eq
    by (subst rd_uleb_loop_join) (simp_all only: uleb5_join, simp_all)
qed

section \<open>Signed LEB128\<close>

lemma bit_sleb_next: "m + 7 < 64 \<Longrightarrow> bit (sleb_next v) m = bit v (m + 7)"
  by (simp add: sleb_next_eq bit_simps min_def add.commute)

lemma sleb_done_small:
  assumes "- 64 \<le> sint v" "sint v < 64"
  shows "sleb_done v"
proof -
  have b: "bit v 6 \<longleftrightarrow> sint v < 0"
  proof -
    have "bit v 6 = bit (sint v) 6" by (simp add: bit_sint_iff)
    also have "\<dots> = odd (sint v div 64)" by (simp add: bit_iff_odd)
    also have "\<dots> = (sint v < 0)"
    proof (cases "sint v < 0")
      case True
      then have "sint v div 64 = - 1" using assms(1) by (simp add: div_pos_neg_trivial)
      then show ?thesis using True by simp
    next
      case False
      then have "sint v div 64 = 0" using assms(2) by (simp add: div_pos_pos_trivial)
      then show ?thesis using False by simp
    qed
    finally show ?thesis .
  qed
  have "sint (sleb_next v) = (if sint v < 0 then - 1 else 0)"
    unfolding sint_sleb_next using assms by (cases "sint v < 0") (simp, presburger)+
  then have "sleb_next v = (if sint v < 0 then - 1 else 0)"
    by (metis signed_word_eqI sint_0 sint_n1)
  then show ?thesis
    using b by (simp add: sleb_done_def Let_def and_bit_zero_iff)
qed

lemma sleb_byte_bits:
  fixes v :: i64
  shows "bit (ucast (ucast (v AND 0x7f) :: u32) :: u8) k = (k < 7 \<and> bit v k)"
    and "bit (ucast (ucast (v AND 0x7f) OR (0x80 :: u32)) :: u8) k = (k < 7 \<and> bit v k \<or> k = 7)"
  by (auto simp: bit_simps bit_leb_masks)

lemma bit_neg_exp: "k < 32 \<Longrightarrow> n < 32 \<Longrightarrow> bit (- push_bit k 1 :: u32) n = (k \<le> n)"
proof -
  have "(- push_bit k 1 :: u32) = NOT (mask k)"
    by (simp add: push_bit_eq_mult minus_exp_eq_not_mask)
  then show "k < 32 \<Longrightarrow> n < 32 \<Longrightarrow> bit (- push_bit k 1 :: u32) n = (k \<le> n)"
    by (auto simp: bit_simps)
qed

text \<open>The last byte, with the sign extension, and the bytes before it.\<close>

lemma sleb_last_join:
  assumes "sleb_done v" "shift \<le> 28"
  defines "c \<equiv> ucast (ucast (v AND 0x7f) :: u32) :: u8"
  shows "(if shift + 7 < 32 \<and> c AND 0x40 \<noteq> 0
          then push_bit shift (ucast (c AND 0x7f)) OR (- push_bit (shift + 7) 1)
          else push_bit shift (ucast (c AND 0x7f))) = push_bit shift (ucast v :: u32)"
    (is "?l = ?r")
proof (rule bit_word_eqI)
  fix n assume "n < LENGTH(32)"
  then have n: "n < 32" by simp
  have sgn: "bit v (7 + m) = bit v 6" if "m < 57" for m
  proof -
    have "sleb_next v = (if bit v 6 then - 1 else 0)"
      using assms(1) by (auto simp: sleb_done_def Let_def and_bit_zero_iff)
    then have "bit (sleb_next v) m = bit v 6" using that by simp
    then show ?thesis using bit_sleb_next [of m v] that by (simp add: add.commute)
  qed
  have c6: "c AND 0x40 \<noteq> 0 \<longleftrightarrow> bit v 6"
    by (simp add: and_bit_zero_iff c_def sleb_byte_bits)
  have low: "bit (push_bit shift (ucast (c AND 0x7f)) :: u32) n = (shift \<le> n \<and> n < shift + 7 \<and> bit v (n - shift))"
    using n by (auto simp: bit_simps c_def sleb_byte_bits bit_leb_masks)
  have l: "bit ?l n = ((shift \<le> n \<and> n < shift + 7 \<and> bit v (n - shift)) \<or> (shift + 7 \<le> n \<and> bit v 6))"
  proof (cases "shift + 7 < 32 \<and> c AND 0x40 \<noteq> 0")
    case True
    then show ?thesis
      using c6 low n by (simp only: if_P bit_or_iff bit_neg_exp) auto
  next
    case False
    then have "\<not> (shift + 7 \<le> n \<and> bit v 6)" using c6 n by auto
    then show ?thesis using low by (simp only: if_not_P [OF False]) auto
  qed
  have r: "bit ?r n = (shift \<le> n \<and> bit v (n - shift))"
    using n by (auto simp: bit_simps)
  show "bit ?l n = bit ?r n"
  proof (cases "n < shift + 7")
    case True
    then show ?thesis unfolding l r by auto
  next
    case False
    then obtain k where k: "n = shift + 7 + k" by (metis le_Suc_ex not_less)
    then show ?thesis unfolding l r using sgn [of k] n by (simp add: add_ac)
  qed
qed

lemma sleb_more_join:
  fixes v :: i64
  assumes "shift \<le> 28"
  defines "c \<equiv> ucast (ucast (v AND 0x7f) OR (0x80 :: u32)) :: u8"
  shows "push_bit shift (ucast (c AND 0x7f)) OR push_bit (shift + 7) (ucast (sleb_next v)) =
         push_bit shift (ucast v :: u32)" (is "?l = ?r")
proof (rule bit_word_eqI)
  fix n assume "n < LENGTH(32)"
  then have n: "n < 32" by simp
  have low: "bit (push_bit shift (ucast (c AND 0x7f)) :: u32) n = (shift \<le> n \<and> n < shift + 7 \<and> bit v (n - shift))"
    using n by (auto simp: bit_simps c_def sleb_byte_bits bit_leb_masks)
  show "bit ?l n = bit ?r n"
  proof (cases "n < shift + 7")
    case True
    then show ?thesis using n low by (auto simp: bit_or_iff) (auto simp: bit_simps)
  next
    case False
    then obtain k where k: "n = shift + 7 + k" by (metis le_Suc_ex not_less)
    then show ?thesis
      using n low bit_sleb_next [of k v] by (auto simp: bit_or_iff) (auto simp: bit_simps add_ac)
  qed
qed

lemma rd_sleb_loop_bytes:
  "shift \<le> 28 \<Longrightarrow> 7 dvd shift \<Longrightarrow> - (2 ^ (31 - shift)) \<le> sint v \<Longrightarrow> sint v < 2 ^ (31 - shift) \<Longrightarrow>
   rd_sleb_loop \<lparr>rd_p = pre @ sleb_bytes v @ rest, rd_pos = length pre\<rparr> acc shift =
   Value (acc OR push_bit shift (ucast v),
          \<lparr>rd_p = pre @ sleb_bytes v @ rest, rd_pos = length pre + length (sleb_bytes v)\<rparr>)"
proof (induction v arbitrary: pre acc shift rule: sleb_bytes.induct)
  case (1 v)
  show ?case
  proof (cases "sleb_done v")
    case True
    let ?c = "ucast (ucast (v AND 0x7f) :: u32) :: u8"
    have e: "sleb_bytes v = [?c]" using True by (simp add: sleb_bytes.simps [of v])
    have "?c AND 0x80 = 0" by (simp add: and_bit_zero_iff sleb_byte_bits)
    then show ?thesis
      unfolding e using 1(2) rd_byte_at [of pre ?c rest] sleb_last_join [OF True 1(2)]
      by (subst rd_sleb_loop.simps) (auto simp: Let_def or.assoc)
  next
    case False
    let ?c = "ucast (ucast (v AND 0x7f) OR (0x80 :: u32)) :: u8"
    have e: "sleb_bytes v = ?c # sleb_bytes (sleb_next v)"
      using False by (simp add: sleb_bytes.simps [of v])
    have c: "?c AND 0x80 \<noteq> 0" by (simp add: and_bit_zero_iff sleb_byte_bits)
    have s: "shift \<le> 21"
    proof (rule ccontr)
      assume "\<not> shift \<le> 21"
      then have "shift = 28" using 1(2,3) by (auto elim!: dvdE)
      then have "sleb_done v" using 1(4,5) by (intro sleb_done_small) auto
      then show False using False by simp
    qed
    have p: "(2 :: int) ^ (31 - shift) = 2 ^ (31 - (shift + 7)) * 128"
    proof -
      have "31 - shift = (31 - (shift + 7)) + 7" using s by simp
      then show ?thesis by (simp only: power_add) simp
    qed
    have b: "- (2 ^ (31 - (shift + 7))) \<le> sint (sleb_next v)" "sint (sleb_next v) < 2 ^ (31 - (shift + 7))"
      using 1(4,5) unfolding sint_sleb_next p by linarith+
    have IH: "rd_sleb_loop \<lparr>rd_p = (pre @ [?c]) @ sleb_bytes (sleb_next v) @ rest,
        rd_pos = length (pre @ [?c])\<rparr> (acc OR push_bit shift (ucast (?c AND 0x7f))) (shift + 7) =
      Value ((acc OR push_bit shift (ucast (?c AND 0x7f))) OR push_bit (shift + 7) (ucast (sleb_next v)),
        \<lparr>rd_p = (pre @ [?c]) @ sleb_bytes (sleb_next v) @ rest,
         rd_pos = length (pre @ [?c]) + length (sleb_bytes (sleb_next v))\<rparr>)"
      using s 1(3) b False by (intro 1(1)) auto
    show ?thesis
      unfolding e
      using IH c s rd_byte_at [of pre ?c "sleb_bytes (sleb_next v) @ rest"] sleb_more_join [OF 1(2), of v]
      by (subst rd_sleb_loop.simps) (simp add: or.assoc)
  qed
qed

interpretation sleb: codec "\<lambda>v. sleb_bytes (scast (v :: u32))" rd_sleb "\<lambda>_. True"
proof
  fix v :: u32 and pre rest :: "u8 list"
  have s: "sint (scast v :: i64) = sint v" by (simp add: sint_up_scast is_up)
  have "- (2 ^ 31) \<le> sint v" "sint v < 2 ^ 31" using sint_ge [of v] sint_lt [of v] by simp_all
  moreover have "ucast (scast v :: i64) = v"
  proof (rule bit_word_eqI)
    fix n assume "n < LENGTH(32)"
    then show "bit (ucast (scast v :: i64) :: u32) n = bit v n"
      by (cases "n = 31") (auto simp: bit_simps min_def)
  qed
  ultimately show "rd_sleb \<lparr>rd_p = pre @ sleb_bytes (scast v) @ rest, rd_pos = length pre\<rparr> =
    Value (v, \<lparr>rd_p = pre @ sleb_bytes (scast v) @ rest,
               rd_pos = length pre + length (sleb_bytes (scast v))\<rparr>)"
    using rd_sleb_loop_bytes [of 0 "scast v" pre rest 0] s by (simp add: rd_sleb_def)
qed

section \<open>Strings\<close>

definition str_bytes :: "u8 list \<Rightarrow> u8 list" where
  "str_bytes s = uleb_bytes (of_nat (length s)) @ s"

interpretation str: codec str_bytes rd_str_dup "\<lambda>s. length s < 2 ^ 31"
proof
  fix s pre rest :: "u8 list" assume l: "length s < 2 ^ 31"
  have n: "unat (of_nat (length s) :: u32) = length s"
    using l by (simp add: unat_of_nat)
  have i: "\<not> sint (of_nat (length s) :: u32) < 0"
    using l by (simp add: signed_of_nat signed_take_bit_int_eq_self)
  show "rd_str_dup \<lparr>rd_p = pre @ str_bytes s @ rest, rd_pos = length pre\<rparr> =
    Value (s, \<lparr>rd_p = pre @ str_bytes s @ rest, rd_pos = length pre + length (str_bytes s)\<rparr>)"
    using uleb.decode_encode [where v = "of_nat (length s)" and pre = pre and rest = "s @ rest"]
    by (simp add: rd_str_dup_def str_bytes_def rd_bytes_dup_def n i)
qed

section \<open>Properties\<close>

lemma uleb_bytes_length: "length (uleb_bytes v) \<le> 5"
proof -
  have "unat v < 128 ^ Suc n \<Longrightarrow> length (uleb_bytes v) \<le> Suc n" for n
  proof (induction v arbitrary: n rule: uleb_bytes.induct)
    case (1 v)
    have d: "unat (drop_bit 7 v) = unat v div 128" by (simp add: drop_bit_eq_div unat_div)
    show ?case
    proof (cases "drop_bit 7 v = 0")
      case True
      then show ?thesis by (simp add: uleb_bytes.simps [of v])
    next
      case False
      then have "0 < unat v div 128" using d by (metis gr0I unat_eq_0)
      then have "n \<noteq> 0" using "1.prems" by (intro notI) simp
      then obtain m where m: "n = Suc m" by (cases n) auto
      have "unat (drop_bit 7 v) < 128 ^ Suc m"
        using "1.prems" m d by (simp add: less_mult_imp_div_less mult.commute)
      from "1.IH" [OF False this] show ?thesis
        using False m by (simp add: uleb_bytes.simps [of v])
    qed
  qed
  from this [of 4] show ?thesis using unsigned_less [where 'a = nat, of v] by simp
qed

text \<open>
  C17. The unsigned LEB128 writer and reader are inverse: the bytes the object writer appends for
  a 32-bit value are at most five, and the linker reads the value back from them at the position
  after whatever was written before, leaving the position after them.
\<close>

theorem uleb_roundtrip:
  assumes "room b 5"
  shows "\<exists>bs. wb_data (wasm32_obj_buffer_uleb b v) = wb_data b @ bs \<and> length bs \<le> 5 \<and>
    rd_uleb \<lparr>rd_p = wb_data (wasm32_obj_buffer_uleb b v) @ rest, rd_pos = length (wb_data b)\<rparr> =
    Value (v, \<lparr>rd_p = wb_data (wasm32_obj_buffer_uleb b v) @ rest,
               rd_pos = length (wb_data b) + length bs\<rparr>)"
proof -
  have "appended b (uleb_bytes v) (wasm32_obj_buffer_uleb b v)"
    using assms uleb_bytes_length [of v] by (intro uleb_appended) (rule room_mono)
  then show ?thesis
    using uleb.decode_encode [where v = v and pre = "wb_data b" and rest = rest] uleb_bytes_length [of v]
    by (intro exI [of _ "uleb_bytes v"]) (simp add: appended_def)
qed

lemma uleb_roundtrip_witness:
  "\<exists>bs. wb_data (wasm32_obj_buffer_uleb zero_buffer 624485) = bs \<and> length bs \<le> 5"
  using uleb_roundtrip [of zero_buffer 624485 "[]"] by (simp add: room_def zero_buffer_def)

lemma fold_update_bytes:
  "n \<le> 5 \<Longrightarrow> length pre = offset \<Longrightarrow> length old = 5 \<Longrightarrow>
   fold (\<lambda>index d. d[offset + index := f index]) [0..<n] (pre @ old @ rest) =
   pre @ (map f [0..<n] @ drop n old) @ rest"
proof (induction n)
  case 0
  then show ?case by simp
next
  case (Suc n)
  have "drop n old = old ! n # drop (Suc n) old"
    using Suc.prems by (simp add: Cons_nth_drop_Suc)
  then show ?case
    using Suc by (simp add: list_update_append)
qed

text \<open>
  The five-byte form is a placeholder the linker can patch: whatever value was reserved,
  patching the five bytes makes the reader return the new value, and nothing else moves.
\<close>

theorem uleb5_patch:
  assumes "room b 5"
  shows "rd_uleb \<lparr>rd_p = wasm32_obj_buffer_patch_uleb5
             (wb_data (snd (wasm32_obj_buffer_uleb5 b v)) @ rest)
             (fst (wasm32_obj_buffer_uleb5 b v)) w,
           rd_pos = fst (wasm32_obj_buffer_uleb5 b v)\<rparr> =
    Value (w, \<lparr>rd_p = wb_data b @ uleb5_bytes w @ rest, rd_pos = length (wb_data b) + 5\<rparr>)"
proof -
  have a: "wb_data (snd (wasm32_obj_buffer_uleb5 b v)) = wb_data b @ uleb5_bytes v"
    using uleb5_appended [OF assms(1)] by (simp add: appended_def)
  have "wasm32_obj_buffer_patch_uleb5 (wb_data b @ uleb5_bytes v @ rest) (length (wb_data b)) w =
        wb_data b @ uleb5_bytes w @ rest"
    unfolding wasm32_obj_buffer_patch_uleb5_def
    by (subst fold_update_bytes) (simp_all add: uleb5_bytes_def)
  moreover have "fst (wasm32_obj_buffer_uleb5 b v) = length (wb_data b)"
    by (simp add: wasm32_obj_buffer_uleb5_def)
  moreover have "length (uleb5_bytes w) = 5" by (simp add: uleb5_bytes_def)
  ultimately show ?thesis
    using uleb5.decode_encode [where v = w and pre = "wb_data b" and rest = rest]
    by (simp add: a)
qed

lemma uleb5_patch_witness:
  "rd_uleb \<lparr>rd_p = wasm32_obj_buffer_patch_uleb5
      (wb_data (snd (wasm32_obj_buffer_uleb5 zero_buffer 0)) @ [1, 2])
      (fst (wasm32_obj_buffer_uleb5 zero_buffer 0)) 4294967295,
      rd_pos = fst (wasm32_obj_buffer_uleb5 zero_buffer 0)\<rparr> =
   Value (4294967295, \<lparr>rd_p = [0xff, 0xff, 0xff, 0xff, 0x0f, 1, 2], rd_pos = 5\<rparr>)"
proof -
  have "room zero_buffer 5" by (simp add: room_def zero_buffer_def)
  moreover have "uleb5_bytes 4294967295 = [0xff, 0xff, 0xff, 0xff, 0x0f]" by code_simp
  ultimately show ?thesis
    using uleb5_patch [of zero_buffer 0 "[1, 2]" 4294967295] by (simp add: zero_buffer_def)
qed

text \<open>
  The signed LEB128 writer and reader are inverse on \<^verbatim>\<open>int32_t\<close>: the linker reads back every
  32-bit value the object writer appended sign-extended to 64 bits.
\<close>

theorem sleb_roundtrip:
  assumes "room b (length (sleb_bytes (scast (v :: u32))))"
  shows "\<exists>bs. wb_data (wasm32_obj_buffer_sleb b (scast v)) = wb_data b @ bs \<and> bs \<noteq> [] \<and>
    rd_sleb \<lparr>rd_p = wb_data (wasm32_obj_buffer_sleb b (scast v)) @ rest,
             rd_pos = length (wb_data b)\<rparr> =
    Value (v, \<lparr>rd_p = wb_data (wasm32_obj_buffer_sleb b (scast v)) @ rest,
               rd_pos = length (wb_data b) + length bs\<rparr>)"
proof -
  have "appended b (sleb_bytes (scast v)) (wasm32_obj_buffer_sleb b (scast v))"
    using assms by (rule sleb_appended)
  moreover have "sleb_bytes (scast v) \<noteq> []" by (simp add: sleb_bytes.simps [of "scast v"])
  ultimately show ?thesis
    using sleb.decode_encode [where v = v and pre = "wb_data b" and rest = rest]
    by (intro exI [of _ "sleb_bytes (scast v)"]) (simp add: appended_def)
qed

lemma sleb_roundtrip_witness:
  "\<exists>bs. wb_data (wasm32_obj_buffer_sleb zero_buffer (scast (- 123456 :: u32))) = bs \<and> bs \<noteq> []"
proof -
  have "sleb_bytes (scast (- 123456 :: u32)) = [0xc0, 0xbb, 0x78]" by code_simp
  then show ?thesis
    using sleb_roundtrip [of zero_buffer "- 123456" "[]"] by (simp add: room_def zero_buffer_def)
qed

text \<open>
  Length-prefixed strings survive the object file: with enough room the writer appends the
  length and the bytes, and the reader returns the same bytes and the position after them.
\<close>

theorem string_roundtrip:
  assumes "length s < 2 ^ 31" "room b (length (str_bytes s))"
  shows "rd_str_dup \<lparr>rd_p = wb_data (wasm32_obj_buffer_string b s) @ rest, rd_pos = length (wb_data b)\<rparr> =
    Value (s, \<lparr>rd_p = wb_data (wasm32_obj_buffer_string b s) @ rest,
               rd_pos = length (wb_data b) + length (str_bytes s)\<rparr>)"
proof -
  let ?n = "of_nat (length s) :: u32"
  have r: "room b (length (uleb_bytes ?n) + length s)" using assms(2) by (simp add: str_bytes_def)
  have a: "appended b (uleb_bytes ?n) (wasm32_obj_buffer_uleb b ?n)"
    using room_mono [OF r] by (intro uleb_appended) simp
  have "appended (wasm32_obj_buffer_uleb b ?n) s (wasm32_obj_buffer_string b s)"
    unfolding wasm32_obj_buffer_string_def
    using r by (intro bytes_appended) (simp add: room_appended [OF a])
  from appended_trans [OF a this] show ?thesis
    using str.decode_encode [OF assms(1), of "wb_data b" rest]
    by (simp add: appended_def str_bytes_def)
qed

lemma string_roundtrip_witness:
  "\<exists>p. rd_str_dup \<lparr>rd_p = p, rd_pos = 0\<rparr> =
       Value ([0x65, 0x6e, 0x76], \<lparr>rd_p = p, rd_pos = 4\<rparr>) \<and>
       p = wb_data (wasm32_obj_buffer_string zero_buffer [0x65, 0x6e, 0x76]) @ [7]"
proof -
  have b: "str_bytes [0x65, 0x6e, 0x76] = [3, 0x65, 0x6e, 0x76]" by code_simp
  then show ?thesis
    using string_roundtrip [of "[0x65, 0x6e, 0x76]" zero_buffer "[7]"]
    by (simp add: room_def zero_buffer_def)
qed

text \<open>
  The reader's bound on the length of a ULEB128 is one byte too long: five bytes that all ask
  for another one are accepted, and the sixth is shifted by 35, which C leaves undefined for
  a 32-bit operand.
\<close>

theorem rd_uleb_sixth_byte_undefined:
  "rd_uleb \<lparr>rd_p = pre @ [b0 OR 0x80, b1 OR 0x80, b2 OR 0x80, b3 OR 0x80, b4 OR 0x80, b5] @ rest,
            rd_pos = length pre\<rparr> = Undefined"
proof -
  have c: "(b OR 0x80) AND 0x80 \<noteq> 0" for b :: u8
    unfolding and_bit_zero_iff by (simp add: bit_simps bit_leb_masks)
  let ?bs = "[b0 OR 0x80, b1 OR 0x80, b2 OR 0x80, b3 OR 0x80, b4 OR 0x80]"
  have loop: "rd_uleb_loop \<lparr>rd_p = pre @ map (\<lambda>b. b OR 0x80) bs @ b5 # rest, rd_pos = length pre\<rparr> acc shift =
      Undefined" if "shift + 7 * length bs = 35" for bs pre acc shift
    using that
  proof (induction bs arbitrary: pre acc shift)
    case Nil
    then show ?case by (subst rd_uleb_loop.simps) (simp add: rd_byte_def)
  next
    case (Cons b bs)
    have "shift + 7 + 7 * length bs = 35" using Cons.prems by simp
    from Cons.IH [OF this, of "pre @ [b OR 0x80]" "acc OR push_bit shift (ucast ((b OR 0x80) AND 0x7f))"]
    show ?case
      using Cons.prems c [of b] rd_byte_at [of pre "b OR 0x80" "map (\<lambda>b. b OR 0x80) bs @ b5 # rest"]
      by (subst rd_uleb_loop.simps) simp
  qed
  from loop [of 0 "[b0, b1, b2, b3, b4]" pre 0] show ?thesis by (simp add: rd_uleb_def)
qed

section \<open>The writer of the linker\<close>

text \<open>
  The linker has its own buffer, in \<^verbatim>\<open>size_t\<close>, whose limit is fatal: \<open>None\<close> is the diagnostic.
\<close>

abbreviation (input) SIZE_MAX :: nat where "SIZE_MAX \<equiv> 18446744073709551615"

record buf_t =
  lb_data :: "u8 list"
  lb_cap :: nat
  lb_max_len :: nat

function grow_cap :: "nat \<Rightarrow> nat \<Rightarrow> nat" where
  "grow_cap required cap =
    (if 0 < cap \<and> cap < required \<and> cap \<le> SIZE_MAX div 2 then grow_cap required (cap * 2) else cap)"
  by pat_completeness auto
termination by (relation "measure (\<lambda>(required, cap). required - cap)") auto

declare grow_cap.simps [simp del]

definition buf_reserve :: "buf_t \<Rightarrow> nat \<Rightarrow> buf_t option" where
  "buf_reserve b add =
    (let len = length (lb_data b) in
     if add > SIZE_MAX - len then None
     else if lb_max_len b \<noteq> 0 \<and> len + add > lb_max_len b then None
     else if len + add \<le> lb_cap b then Some b
     else let cap = (if lb_cap b \<noteq> 0
                     then (if lb_cap b > SIZE_MAX div 2 then SIZE_MAX else lb_cap b * 2) else 256);
              cap1 = grow_cap (len + add) cap;
              cap2 = (if cap1 < len + add then len + add else cap1);
              cap3 = (if lb_max_len b \<noteq> 0 \<and> cap2 > lb_max_len b then lb_max_len b else cap2)
          in Some (b\<lparr>lb_cap := cap3\<rparr>))"

definition buf_u8 :: "u32 \<Rightarrow> buf_t \<Rightarrow> buf_t option" where
  "buf_u8 v b = map_option (\<lambda>b1. b1\<lparr>lb_data := lb_data b1 @ [ucast v]\<rparr>) (buf_reserve b 1)"

definition buf_bytes :: "u8 list \<Rightarrow> buf_t \<Rightarrow> buf_t option" where
  "buf_bytes p b =
    (if length p = 0 then Some b
     else map_option (\<lambda>b1. b1\<lparr>lb_data := lb_data b1 @ p\<rparr>) (buf_reserve b (length p)))"

text \<open>A sequence of calls on the buffer, each of which may be fatal.\<close>

definition buf_u8s :: "u32 list \<Rightarrow> buf_t \<Rightarrow> buf_t option" where
  "buf_u8s vs b = fold (\<lambda>v m. Option.bind m (buf_u8 v)) vs (Some b)"

definition buf_u32le :: "u32 \<Rightarrow> buf_t \<Rightarrow> buf_t option" where
  "buf_u32le v =
    buf_u8s [v AND 0xff, drop_bit 8 v AND 0xff, drop_bit 16 v AND 0xff, drop_bit 24 v AND 0xff]"

function buf_uleb :: "u32 \<Rightarrow> buf_t \<Rightarrow> buf_t option" where
  "buf_uleb v b =
    (let c = low7 v; v1 = drop_bit 7 v
     in if v1 \<noteq> 0 then Option.bind (buf_u8 (c OR 0x80) b) (buf_uleb v1) else buf_u8 c b)"
  by pat_completeness auto
termination by (relation "measure (\<lambda>(v, b). unat v)") (auto intro: drop_bit_7_less)

declare buf_uleb.simps [simp del]

definition buf_uleb5 :: "u32 \<Rightarrow> buf_t \<Rightarrow> (nat \<times> buf_t) option" where
  "buf_uleb5 v b =
    map_option (\<lambda>b1. (length (lb_data b), b1)) (buf_u8s (map (uleb5_byte v) [0..<5]) b)"

definition buf_str :: "u8 list \<Rightarrow> buf_t \<Rightarrow> buf_t option" where
  "buf_str s b = Option.bind (buf_uleb (of_nat (length s)) b) (buf_bytes s)"

definition emit_section :: "u32 \<Rightarrow> u8 list \<Rightarrow> buf_t \<Rightarrow> buf_t option" where
  "emit_section section_id payload b =
    Option.bind (Option.bind (buf_u8 section_id b) (buf_uleb (of_nat (length payload))))
      (buf_bytes payload)"

definition patch_u32le :: "u8 list \<Rightarrow> nat \<Rightarrow> u32 \<Rightarrow> u8 list" where
  "patch_u32le p offset v =
    fold (\<lambda>i d. d[offset + i := ucast (drop_bit (8 * i) v AND 0xff)]) [0..<4] p"

definition buf_appended :: "buf_t \<Rightarrow> u8 list \<Rightarrow> buf_t \<Rightarrow> bool" where
  "buf_appended b bs b' \<longleftrightarrow> lb_data b' = lb_data b @ bs \<and> lb_max_len b' = lb_max_len b"

lemma buf_appended_trans:
  "buf_appended b xs b1 \<Longrightarrow> buf_appended b1 ys b2 \<Longrightarrow> buf_appended b (xs @ ys) b2"
  by (simp add: buf_appended_def)

lemma buf_reserve_data: "buf_reserve b n = Some b1 \<Longrightarrow> buf_appended b [] b1"
  by (auto simp: buf_reserve_def buf_appended_def Let_def split: if_splits)

lemma buf_u8_appended: "buf_u8 v b = Some b1 \<Longrightarrow> buf_appended b [ucast v] b1"
  using buf_reserve_data [of b 1] by (auto simp: buf_u8_def buf_appended_def)

lemma buf_bytes_appended: "buf_bytes p b = Some b1 \<Longrightarrow> buf_appended b p b1"
  using buf_reserve_data [of b "length p"]
  by (auto simp: buf_bytes_def buf_appended_def split: if_splits)

lemma buf_uleb_appended: "buf_uleb v b = Some b1 \<Longrightarrow> buf_appended b (uleb_bytes v) b1"
proof (induction v b arbitrary: b1 rule: buf_uleb.induct)
  case (1 v b)
  show ?case
  proof (cases "drop_bit 7 v = 0")
    case True
    then show ?thesis
      using "1.prems" buf_u8_appended [of "low7 v" b b1]
      by (simp add: buf_uleb.simps [of v b] uleb_bytes.simps [of v])
  next
    case False
    then obtain b2 where b2: "buf_u8 (low7 v OR 0x80) b = Some b2" "buf_uleb (drop_bit 7 v) b2 = Some b1"
      using "1.prems" by (auto simp: buf_uleb.simps [of v b] bind_eq_Some_conv)
    have "buf_appended b2 (uleb_bytes (drop_bit 7 v)) b1"
      using "1.IH" [OF refl refl, of b2 b1] False b2 by simp
    from buf_appended_trans [OF buf_u8_appended [OF b2(1)] this] show ?thesis
      using False by (simp add: uleb_bytes.simps [of v])
  qed
qed

text \<open>
  The object writer of the compiler and the writer of the linker agree: what they append for
  a section with the same id and payload is the same bytes, the id, the length of the payload as
  a ULEB128 and the payload.
\<close>

theorem section_writers_agree:
  assumes "room out (1 + length (uleb_bytes (of_nat (length (wb_data payload)))) +
                     length (wb_data payload))"
    and "emit_section section_id (wb_data payload) b = Some b1"
  shows "\<exists>bs. wb_data (wasm32_obj_buffer_section out section_id payload) = wb_data out @ bs \<and>
              lb_data b1 = lb_data b @ bs \<and> hd bs = ucast section_id \<and>
              drop (length bs - length (wb_data payload)) bs = wb_data payload"
proof -
  let ?n = "of_nat (length (wb_data payload)) :: u32"
  let ?bs = "[ucast section_id] @ uleb_bytes ?n @ wb_data payload"
  have a1: "appended out [ucast section_id] (wasm32_obj_buffer_u8 out section_id)"
    using room_mono [OF assms(1)] by (intro u8_appended) simp
  have a2: "appended (wasm32_obj_buffer_u8 out section_id) (uleb_bytes ?n)
      (wasm32_obj_buffer_uleb (wasm32_obj_buffer_u8 out section_id) ?n)"
    using room_mono [OF assms(1)] by (intro uleb_appended) (simp add: room_appended [OF a1])
  have a3: "appended (wasm32_obj_buffer_uleb (wasm32_obj_buffer_u8 out section_id) ?n)
      (wb_data payload) (wasm32_obj_buffer_section out section_id payload)"
    unfolding wasm32_obj_buffer_section_def
    using assms(1)
    by (intro bytes_appended) (simp add: room_appended [OF a2] room_appended [OF a1] add_ac)
  have "wb_data (wasm32_obj_buffer_section out section_id payload) = wb_data out @ ?bs"
    using a1 a2 a3 by (simp add: appended_def)
  moreover obtain b2 b3 where "buf_u8 section_id b = Some b2" "buf_uleb ?n b2 = Some b3"
      "buf_bytes (wb_data payload) b3 = Some b1"
    using assms(2) by (auto simp: emit_section_def bind_eq_Some_conv)
  then have "lb_data b1 = lb_data b @ ?bs"
    using buf_u8_appended [of section_id b b2] buf_uleb_appended [of ?n b2 b3]
      buf_bytes_appended [of "wb_data payload" b3 b1]
    by (simp add: buf_appended_def)
  ultimately show ?thesis by (intro exI [of _ ?bs]) simp
qed

definition empty_buf :: buf_t where
  "empty_buf = \<lparr>lb_data = [], lb_cap = 64, lb_max_len = 0\<rparr>"

lemma section_writers_agree_witness:
  "\<exists>b1 bs. emit_section 1 [9, 8] empty_buf = Some b1 \<and> lb_data b1 = bs \<and>
     wb_data (wasm32_obj_buffer_section zero_buffer 1 (zero_buffer\<lparr>wb_data := [9, 8]\<rparr>)) = bs"
proof -
  have u: "uleb_bytes 2 = [2]" by code_simp
  have "buf_uleb 2 b = buf_u8 2 b" for b
    by (subst buf_uleb.simps) (simp add: low7_def)
  then have e: "\<exists>b1. emit_section 1 [9, 8] empty_buf = Some b1"
    by (simp add: emit_section_def buf_u8_def buf_bytes_def buf_reserve_def empty_buf_def)
  then show ?thesis
    using section_writers_agree [of zero_buffer "zero_buffer\<lparr>wb_data := [9, 8]\<rparr>" 1 empty_buf] u
    by (auto simp: room_def zero_buffer_def empty_buf_def)
qed

end
