(* ===== verification/LinkObject.thy ===== *)
theory LinkObject
  imports Registry WasmLink
begin

text \<open>
  The object files of the Wasm linker, \<^verbatim>\<open>tools/wasm_obj_linker/ag_wasm_link.c\<close>: what the linker
  keeps of an object (\<^verbatim>\<open>object_t\<close> and the structures in it) and the reader that fills it, section
  by section. A diagnostic (\<^verbatim>\<open>die\<close>) is \<open>Refused\<close>. A \<^verbatim>\<open>str_t\<close> that was never set has a null
  pointer and is \<open>None\<close>. \<^verbatim>\<open>int\<close> fields that come from \<^verbatim>\<open>(int)rd_uleb(...)\<close> are the signed reading
  of the 32 bits, the addend of a relocation stays a word, sizes of type \<^verbatim>\<open>size_t\<close> are natural numbers (64 bits on the host).
\<close>

section \<open>Section, relocation and symbol numbers\<close>

abbreviation (input) SEC_CUSTOM :: u8 where "SEC_CUSTOM \<equiv> 0"
abbreviation (input) SEC_TYPE :: u8 where "SEC_TYPE \<equiv> 1"
abbreviation (input) SEC_IMPORT :: u8 where "SEC_IMPORT \<equiv> 2"
abbreviation (input) SEC_FUNCTION :: u8 where "SEC_FUNCTION \<equiv> 3"
abbreviation (input) SEC_CODE :: u8 where "SEC_CODE \<equiv> 10"
abbreviation (input) SEC_DATA :: u8 where "SEC_DATA \<equiv> 11"

abbreviation (input) R_WASM_FUNCTION_INDEX_LEB :: int where "R_WASM_FUNCTION_INDEX_LEB \<equiv> 0"
abbreviation (input) R_WASM_TABLE_INDEX_SLEB :: int where "R_WASM_TABLE_INDEX_SLEB \<equiv> 1"
abbreviation (input) R_WASM_TABLE_INDEX_I32 :: int where "R_WASM_TABLE_INDEX_I32 \<equiv> 2"
abbreviation (input) R_WASM_MEMORY_ADDR_LEB :: int where "R_WASM_MEMORY_ADDR_LEB \<equiv> 3"
abbreviation (input) R_WASM_MEMORY_ADDR_I32 :: int where "R_WASM_MEMORY_ADDR_I32 \<equiv> 5"
abbreviation (input) R_WASM_TYPE_INDEX_LEB :: int where "R_WASM_TYPE_INDEX_LEB \<equiv> 6"
abbreviation (input) R_WASM_GLOBAL_INDEX_LEB :: int where "R_WASM_GLOBAL_INDEX_LEB \<equiv> 7"

abbreviation (input) SYM_FUNCTION :: u8 where "SYM_FUNCTION \<equiv> 0"
abbreviation (input) SYM_DATA :: u8 where "SYM_DATA \<equiv> 1"
abbreviation (input) SYM_GLOBAL :: u8 where "SYM_GLOBAL \<equiv> 2"

abbreviation (input) SYM_BINDING_LOCAL :: u32 where "SYM_BINDING_LOCAL \<equiv> 0x2"
abbreviation (input) SYM_UNDEFINED :: u32 where "SYM_UNDEFINED \<equiv> 0x10"

abbreviation (input) LINK_SEGMENT_INFO :: u8 where "LINK_SEGMENT_INFO \<equiv> 5"
abbreviation (input) LINK_SYMBOL_TABLE :: u8 where "LINK_SYMBOL_TABLE \<equiv> 8"

abbreviation (input) AGC_FUNCTION_FLAG_PARAMETERS_UNSPECIFIED :: u32 where
  "AGC_FUNCTION_FLAG_PARAMETERS_UNSPECIFIED \<equiv> 1"
abbreviation (input) AGC_DATA_FLAG_THREAD_LOCAL :: u32 where
  "AGC_DATA_FLAG_THREAD_LOCAL \<equiv> 1"

section \<open>Data model\<close>

type_synonym str_t = "u8 list option"
type_synonym type_t = "u8 list"

text \<open>A string literal of the source as bytes.\<close>

definition lit :: "string \<Rightarrow> u8 list" where
  "lit s = map (\<lambda>c. word_of_int (of_char c)) s"

definition str_eq :: "str_t \<Rightarrow> str_t \<Rightarrow> bool" where
  "str_eq a b = (case (a, b) of (Some s, Some t) \<Rightarrow> s = t | _ \<Rightarrow> False)"

definition str_empty :: "str_t \<Rightarrow> bool" where
  "str_empty s = (case s of None \<Rightarrow> True | Some bs \<Rightarrow> bs = [])"

record func_t =
  lf_name :: str_t
  lf_type_index :: int
  lf_defined :: bool
  lf_body :: "u8 list"
  lf_code_payload_off :: nat
  lf_final_type :: int
  lf_final_index :: int
  lf_final_table_index :: int

record data_seg_t =
  ld_name :: str_t
  ld_bytes :: "u8 list"
  ld_alloc_size :: nat
  ld_data_payload_off :: nat
  ld_align_log2 :: int
  ld_defined :: bool
  ld_final_addr :: u32

record global_sym_t =
  lg_name :: str_t
  lg_final_index :: int

record symbol_t =
  ls_kind :: u8
  ls_flags :: u32
  ls_name :: str_t
  ls_index :: int
  ls_data_offset :: u32
  ls_data_size :: u32

record reloc_t =
  lr_type :: int
  lr_offset :: u32
  lr_symbol :: u32
  lr_addend :: u32
  lr_is_code :: bool

record c_signature_t =
  cs_name :: str_t
  cs_signature :: str_t

record data_signature_t =
  ds_name :: str_t
  ds_c_signature :: str_t
  ds_layout_signature :: str_t
  ds_flags :: u32
  ds_requested_alignment :: u32
  ds_has_object_properties :: bool

record function_flags_t =
  ff_name :: str_t
  ff_flags :: u32

text \<open>
  \<^verbatim>\<open>size\<close> and \<^verbatim>\<open>body_len\<close> are the lengths of the byte lists. The seven names of the
  continuation section are one list, in the order of the section.
\<close>

record object_t =
  lo_types :: "type_t list"
  lo_type_map :: "int list option"
  lo_funcs :: "func_t list"
  lo_data :: "data_seg_t list"
  lo_globals :: "global_sym_t list"
  lo_symbols :: "symbol_t list"
  lo_relocs :: "reloc_t list"
  lo_c_signatures :: "c_signature_t list"
  lo_has_c_signature_section :: bool
  lo_c_signature_version :: u32
  lo_abi_layout_signatures :: "c_signature_t list"
  lo_has_abi_layout_section :: bool
  lo_abi_layout_version :: u32
  lo_data_signatures :: "data_signature_t list"
  lo_has_data_signature_section :: bool
  lo_data_signature_version :: u32
  lo_data_layout_version :: u32
  lo_function_flags :: "function_flags_t list"
  lo_has_function_flags :: bool
  lo_code_section_index :: int
  lo_data_section_index :: int
  lo_imports_table :: bool
  lo_continuation :: "str_t list"
  lo_has_continuation :: bool

definition zero_func :: func_t where
  "zero_func = \<lparr>lf_name = None, lf_type_index = 0, lf_defined = False, lf_body = [],
    lf_code_payload_off = 0, lf_final_type = 0, lf_final_index = 0, lf_final_table_index = 0\<rparr>"

definition zero_data :: data_seg_t where
  "zero_data = \<lparr>ld_name = None, ld_bytes = [], ld_alloc_size = 0, ld_data_payload_off = 0,
    ld_align_log2 = 0, ld_defined = False, ld_final_addr = 0\<rparr>"

definition zero_symbol :: symbol_t where
  "zero_symbol = \<lparr>ls_kind = 0, ls_flags = 0, ls_name = None, ls_index = 0, ls_data_offset = 0,
    ls_data_size = 0\<rparr>"

definition zero_object :: object_t where
  "zero_object = \<lparr>lo_types = [], lo_type_map = None, lo_funcs = [], lo_data = [], lo_globals = [],
    lo_symbols = [], lo_relocs = [], lo_c_signatures = [], lo_has_c_signature_section = False,
    lo_c_signature_version = 0, lo_abi_layout_signatures = [], lo_has_abi_layout_section = False,
    lo_abi_layout_version = 0, lo_data_signatures = [], lo_has_data_signature_section = False,
    lo_data_signature_version = 0, lo_data_layout_version = 0, lo_function_flags = [],
    lo_has_function_flags = False, lo_code_section_index = -1, lo_data_section_index = -1,
    lo_imports_table = False, lo_continuation = [], lo_has_continuation = False\<rparr>"

text \<open>Flags of a symbol, and the index of a symbol that points into a table of \<open>n\<close> entries.\<close>

definition sym_undefined :: "symbol_t \<Rightarrow> bool" where
  "sym_undefined s = (ls_flags s AND SYM_UNDEFINED \<noteq> 0)"

definition sym_local :: "symbol_t \<Rightarrow> bool" where
  "sym_local s = (ls_flags s AND SYM_BINDING_LOCAL \<noteq> 0)"

definition index_in :: "int \<Rightarrow> 'a list \<Rightarrow> bool" where
  "index_in i xs = (0 \<le> i \<and> i < int (length xs))"

section \<open>Counted loops\<close>

text \<open>
  \<^verbatim>\<open>for (i = start; i < start + n; i++)\<close> over a state, left at the first diagnostic.
\<close>

primrec for_from :: "nat \<Rightarrow> nat \<Rightarrow> (nat \<Rightarrow> 's \<Rightarrow> 's outcome) \<Rightarrow> 's \<Rightarrow> 's outcome" where
  "for_from i 0 f s = Value s"
| "for_from i (Suc n) f s = outcome_bind (f i s) (for_from (Suc i) n f)"

lemma for_from_invariant:
  assumes "for_from i n f s = Value t" "P s"
    and "\<And>i s t. P s \<Longrightarrow> f i s = Value t \<Longrightarrow> P t"
  shows "P t"
  using assms(1,2)
proof (induction n arbitrary: i s)
  case 0
  then show ?case by simp
next
  case (Suc n)
  then show ?case by (auto elim!: outcome_bind_ValueE dest: assms(3))
qed

section \<open>Types, imports, functions\<close>

text \<open>The raw bytes of a function type are the slice of the section the type occupies.\<close>

definition parse_type_entry :: "rd_t \<Rightarrow> (type_t \<times> rd_t) outcome" where
  "parse_type_entry sec =
    outcome_bind (rd_byte sec) (\<lambda>(c, s1).
      if c \<noteq> 0x60 then Refused
      else outcome_bind (rd_uleb s1) (\<lambda>(np, s2).
        outcome_bind (rd_skip s2 (unat np)) (\<lambda>s3.
          outcome_bind (rd_uleb s3) (\<lambda>(nr, s4).
            outcome_bind (rd_skip s4 (unat nr)) (\<lambda>s5.
              Value (take (rd_pos s5 - rd_pos sec) (drop (rd_pos sec) (rd_p sec)), s5))))))"

definition parse_type_step :: "nat \<Rightarrow> object_t \<times> rd_t \<Rightarrow> (object_t \<times> rd_t) outcome" where
  "parse_type_step i = (\<lambda>(o1, sec).
    outcome_bind (parse_type_entry sec) (\<lambda>(raw, sec1).
      Value (o1\<lparr>lo_types := lo_types o1 @ [raw]\<rparr>, sec1)))"

text \<open>A section that holds a count and that many entries.\<close>

definition counted ::
  "(nat \<Rightarrow> object_t \<times> rd_t \<Rightarrow> (object_t \<times> rd_t) outcome) \<Rightarrow> object_t \<Rightarrow> rd_t \<Rightarrow>
   (object_t \<times> rd_t) outcome" where
  "counted step o1 sec =
    outcome_bind (rd_uleb sec) (\<lambda>(n, sec1). for_from 0 (unat n) step (o1, sec1))"

definition parse_type_section :: "object_t \<Rightarrow> rd_t \<Rightarrow> object_t outcome" where
  "parse_type_section o1 sec =
    outcome_bind (counted parse_type_step o1 sec) (\<lambda>(o2, _). Value o2)"

text \<open>The limits of an imported table or memory.\<close>

definition skip_limits :: "rd_t \<Rightarrow> rd_t outcome" where
  "skip_limits sec =
    outcome_bind (rd_uleb sec) (\<lambda>(flags, s1).
      outcome_bind (rd_uleb s1) (\<lambda>(_, s2).
        if flags AND 1 \<noteq> 0
        then outcome_bind (rd_uleb s2) (\<lambda>(_, s3). Value s3)
        else Value s2))"

definition parse_import_step :: "nat \<Rightarrow> object_t \<times> rd_t \<Rightarrow> (object_t \<times> rd_t) outcome" where
  "parse_import_step i = (\<lambda>(o1, sec).
    outcome_bind (rd_str_dup sec) (\<lambda>(_, s1).
      outcome_bind (rd_str_dup s1) (\<lambda>(name, s2).
        outcome_bind (rd_byte s2) (\<lambda>(kind, s3).
          if kind = 0 then
            outcome_bind (rd_uleb s3) (\<lambda>(ty, s4).
              Value (o1\<lparr>lo_funcs := lo_funcs o1 @
                [zero_func\<lparr>lf_name := Some name, lf_type_index := sint ty\<rparr>]\<rparr>, s4))
          else if kind = 1 then
            outcome_bind (rd_skip s3 1) (\<lambda>s4.
              outcome_bind (skip_limits s4) (\<lambda>s5. Value (o1\<lparr>lo_imports_table := True\<rparr>, s5)))
          else if kind = 2 then
            outcome_bind (skip_limits s3) (\<lambda>s4. Value (o1, s4))
          else if kind = 3 then
            outcome_bind (rd_skip s3 2) (\<lambda>s4.
              Value (o1\<lparr>lo_globals := lo_globals o1 @
                [\<lparr>lg_name = Some name, lg_final_index = -1\<rparr>]\<rparr>, s4))
          else Refused))))"

definition parse_import_section :: "object_t \<Rightarrow> rd_t \<Rightarrow> object_t outcome" where
  "parse_import_section o1 sec =
    outcome_bind (counted parse_import_step o1 sec) (\<lambda>(o2, _). Value o2)"

definition parse_function_step :: "nat \<Rightarrow> object_t \<times> rd_t \<Rightarrow> (object_t \<times> rd_t) outcome" where
  "parse_function_step i = (\<lambda>(o1, sec).
    outcome_bind (rd_uleb sec) (\<lambda>(ty, s1).
      Value (o1\<lparr>lo_funcs := lo_funcs o1 @
        [zero_func\<lparr>lf_type_index := sint ty, lf_defined := True\<rparr>]\<rparr>, s1)))"

definition parse_function_section :: "object_t \<Rightarrow> rd_t \<Rightarrow> object_t outcome" where
  "parse_function_section o1 sec =
    outcome_bind (counted parse_function_step o1 sec) (\<lambda>(o2, _). Value o2)"

section \<open>Code and data\<close>

definition first_defined :: "object_t \<Rightarrow> nat" where
  "first_defined o1 = length (takeWhile (\<lambda>f. \<not> lf_defined f) (lo_funcs o1))"

definition parse_code_step ::
  "nat \<Rightarrow> nat \<Rightarrow> object_t \<times> rd_t \<Rightarrow> (object_t \<times> rd_t) outcome" where
  "parse_code_step first i = (\<lambda>(o1, sec).
    outcome_bind (rd_uleb sec) (\<lambda>(body_size, s1).
      let body_start = rd_pos s1; fi = first + i
      in if body_start + unat body_size > length (rd_p s1) then Refused
         else if fi \<ge> length (lo_funcs o1) then Refused
         else Value
           (o1\<lparr>lo_funcs := (lo_funcs o1)[fi := (lo_funcs o1 ! fi)
               \<lparr>lf_code_payload_off := body_start,
                lf_body := take (unat body_size) (drop body_start (rd_p s1))\<rparr>]\<rparr>,
            s1\<lparr>rd_pos := body_start + unat body_size\<rparr>)))"

definition parse_code_section :: "object_t \<Rightarrow> rd_t \<Rightarrow> int \<Rightarrow> object_t outcome" where
  "parse_code_section o1 sec noncustom_index =
    outcome_bind
      (counted (parse_code_step (first_defined o1))
        (o1\<lparr>lo_code_section_index := noncustom_index\<rparr>) sec)
      (\<lambda>(o2, _). Value o2)"

definition parse_data_step :: "nat \<Rightarrow> object_t \<times> rd_t \<Rightarrow> (object_t \<times> rd_t) outcome" where
  "parse_data_step i = (\<lambda>(o1, sec).
    outcome_bind (rd_byte sec) (\<lambda>(flags, s1).
      if flags \<noteq> 0 then Refused
      else outcome_bind (rd_byte s1) (\<lambda>(opcode, s2).
        if opcode \<noteq> 0x41 then Refused
        else outcome_bind (rd_uleb s2) (\<lambda>(_, s3).
          outcome_bind (rd_byte s3) (\<lambda>(endop, s4).
            if endop \<noteq> 0x0b then Refused
            else outcome_bind (rd_uleb s4) (\<lambda>(sz, s5).
              outcome_bind (rd_bytes_dup s5 (unat sz)) (\<lambda>(bytes, s6).
                Value (o1\<lparr>lo_data := lo_data o1 @
                  [zero_data\<lparr>ld_defined := True, ld_data_payload_off := rd_pos s5,
                             ld_bytes := bytes\<rparr>]\<rparr>, s6))))))))"

definition parse_data_section :: "object_t \<Rightarrow> rd_t \<Rightarrow> int \<Rightarrow> object_t outcome" where
  "parse_data_section o1 sec noncustom_index =
    outcome_bind
      (counted parse_data_step (o1\<lparr>lo_data_section_index := noncustom_index\<rparr>) sec)
      (\<lambda>(o2, _). Value o2)"

section \<open>Symbols and relocations\<close>

text \<open>A function, data segment or global that has no name yet takes the one of its symbol.\<close>

definition name_func :: "int \<Rightarrow> str_t \<Rightarrow> object_t \<Rightarrow> object_t" where
  "name_func i name o1 =
    (if index_in i (lo_funcs o1) \<and> lf_name (lo_funcs o1 ! nat i) = None
     then o1\<lparr>lo_funcs := (lo_funcs o1)[nat i := (lo_funcs o1 ! nat i)\<lparr>lf_name := name\<rparr>]\<rparr>
     else o1)"

definition name_data :: "int \<Rightarrow> str_t \<Rightarrow> object_t \<Rightarrow> object_t" where
  "name_data i name o1 =
    (if index_in i (lo_data o1) \<and> ld_name (lo_data o1 ! nat i) = None
     then o1\<lparr>lo_data := (lo_data o1)[nat i := (lo_data o1 ! nat i)\<lparr>ld_name := name\<rparr>]\<rparr>
     else o1)"

definition name_global :: "int \<Rightarrow> str_t \<Rightarrow> object_t \<Rightarrow> object_t" where
  "name_global i name o1 =
    (if index_in i (lo_globals o1) \<and> lg_name (lo_globals o1 ! nat i) = None
     then o1\<lparr>lo_globals := (lo_globals o1)[nat i := (lo_globals o1 ! nat i)\<lparr>lg_name := name\<rparr>]\<rparr>
     else o1)"

text \<open>A data symbol can reach behind the bytes of its segment (zero-initialised data).\<close>

definition grow_alloc :: "int \<Rightarrow> nat \<Rightarrow> object_t \<Rightarrow> object_t" where
  "grow_alloc i need o1 =
    (if index_in i (lo_data o1) \<and> need > ld_alloc_size (lo_data o1 ! nat i)
     then o1\<lparr>lo_data := (lo_data o1)[nat i := (lo_data o1 ! nat i)\<lparr>ld_alloc_size := need\<rparr>]\<rparr>
     else o1)"

definition push_symbol :: "symbol_t \<Rightarrow> object_t \<Rightarrow> object_t" where
  "push_symbol symb o1 = o1\<lparr>lo_symbols := lo_symbols o1 @ [symb]\<rparr>"

definition parse_data_symbol ::
  "symbol_t \<Rightarrow> object_t \<Rightarrow> rd_t \<Rightarrow> (object_t \<times> rd_t) outcome" where
  "parse_data_symbol symb o1 ss =
    outcome_bind (rd_str_dup ss) (\<lambda>(name, s1).
      if sym_undefined symb then
        Value (push_symbol (symb\<lparr>ls_name := Some name, ls_index := int (length (lo_data o1))\<rparr>)
                 (o1\<lparr>lo_data := lo_data o1 @ [zero_data\<lparr>ld_name := Some name\<rparr>]\<rparr>), s1)
      else outcome_bind (rd_uleb s1) (\<lambda>(seg, s2).
        outcome_bind (rd_uleb s2) (\<lambda>(off, s3).
          outcome_bind (rd_uleb s3) (\<lambda>(sz, s4).
            Value (push_symbol
                     (symb\<lparr>ls_name := Some name, ls_index := sint seg, ls_data_offset := off,
                          ls_data_size := sz\<rparr>)
                     (grow_alloc (sint seg) (unat off + unat sz)
                       (name_data (sint seg) (Some name) o1)), s4)))))"

definition parse_symbol_step :: "nat \<Rightarrow> object_t \<times> rd_t \<Rightarrow> (object_t \<times> rd_t) outcome" where
  "parse_symbol_step i = (\<lambda>(o1, ss).
    outcome_bind (rd_byte ss) (\<lambda>(kind, s1).
      outcome_bind (rd_uleb s1) (\<lambda>(flags, s2).
        let symb = zero_symbol\<lparr>ls_kind := kind, ls_flags := flags\<rparr>
        in if kind = SYM_FUNCTION then
             outcome_bind (rd_uleb s2) (\<lambda>(index, s3).
               outcome_bind (rd_str_dup s3) (\<lambda>(name, s4).
                 Value (push_symbol (symb\<lparr>ls_index := sint index, ls_name := Some name\<rparr>)
                          (name_func (sint index) (Some name) o1), s4)))
           else if kind = SYM_DATA then parse_data_symbol symb o1 s2
           else if kind = SYM_GLOBAL then
             outcome_bind (rd_uleb s2) (\<lambda>(index, s3).
               outcome_bind (rd_str_dup s3) (\<lambda>(name, s4).
                 Value (push_symbol (symb\<lparr>ls_index := sint index, ls_name := Some name\<rparr>)
                          (name_global (sint index) (Some name) o1), s4)))
           else Refused)))"

definition parse_segment_info_step ::
  "nat \<Rightarrow> object_t \<times> rd_t \<Rightarrow> (object_t \<times> rd_t) outcome" where
  "parse_segment_info_step i = (\<lambda>(o1, ss).
    outcome_bind (rd_str_dup ss) (\<lambda>(name, s1).
      outcome_bind (rd_uleb s1) (\<lambda>(align, s2).
        outcome_bind (rd_uleb s2) (\<lambda>(_, s3).
          Value
            (if i < length (lo_data o1)
             then let o2 = name_data (int i) (Some name) o1
                  in o2\<lparr>lo_data := (lo_data o2)[i := (lo_data o2 ! i)\<lparr>ld_align_log2 := sint align\<rparr>]\<rparr>
             else o1, s3)))))"

text \<open>
  The linking section: the loop over its subsections stops at the end of the section. Every
  subsection takes at least its number and its size.
\<close>

lemma rd_uleb_loop_pos:
  "rd_uleb_loop r v shift = Value (w, r1) \<Longrightarrow> rd_p r1 = rd_p r \<and> rd_pos r < rd_pos r1"
proof (induction r v shift rule: rd_uleb_loop.induct)
  case (1 r v shift)
  show ?case
    using "1.prems" "1.IH"
    by (subst (asm) rd_uleb_loop.simps)
       (fastforce simp: Let_def split: outcome.splits if_splits dest: rd_byte_Value)
qed

lemma rd_uleb_pos: "rd_uleb r = Value (w, r1) \<Longrightarrow> rd_p r1 = rd_p r \<and> rd_pos r < rd_pos r1"
  unfolding rd_uleb_def by (rule rd_uleb_loop_pos)

text \<open>The next part of a section or file: its number, its bytes, and the position behind it.\<close>

definition next_part :: "rd_t \<Rightarrow> (u8 \<times> u8 list \<times> rd_t) outcome" where
  "next_part r =
    outcome_bind (rd_byte r) (\<lambda>(id1, r1).
      outcome_bind (rd_uleb r1) (\<lambda>(sz, r2).
        if rd_pos r2 + unat sz > length (rd_p r2) then Refused
        else Value (id1, take (unat sz) (drop (rd_pos r2) (rd_p r2)),
                    r2\<lparr>rd_pos := rd_pos r2 + unat sz\<rparr>)))"

lemma next_part_pos:
  assumes "next_part r = Value (k, bs, r1)"
  shows "rd_p r1 = rd_p r" "rd_pos r < rd_pos r1" "rd_pos r1 \<le> length (rd_p r1)"
proof -
  obtain c a n b where "rd_byte r = Value (c, a)" "rd_uleb a = Value (n, b)"
      "rd_pos b + unat n \<le> length (rd_p b)" "r1 = b\<lparr>rd_pos := rd_pos b + unat n\<rparr>"
    using assms by (auto simp: next_part_def elim!: outcome_bind_ValueE split: if_splits)
  then show "rd_p r1 = rd_p r" "rd_pos r < rd_pos r1" "rd_pos r1 \<le> length (rd_p r1)"
    using rd_byte_Value [of r c a] rd_uleb_pos [of a n b] by auto
qed

lemma next_part_less:
  "next_part r = Value (k, bs, r1) \<Longrightarrow>
   length (rd_p r1) - rd_pos r1 < length (rd_p r) - rd_pos r"
  using next_part_pos [of r k bs r1] by simp

definition parse_linking_subsection :: "u8 \<Rightarrow> u8 list \<Rightarrow> object_t \<Rightarrow> object_t outcome" where
  "parse_linking_subsection sub bytes o1 =
    (let ss = \<lparr>rd_p = bytes, rd_pos = 0\<rparr>
     in if sub = LINK_SYMBOL_TABLE then
          outcome_bind (counted parse_symbol_step o1 ss) (\<lambda>(o2, _). Value o2)
        else if sub = LINK_SEGMENT_INFO then
          outcome_bind (counted parse_segment_info_step o1 ss) (\<lambda>(o2, _). Value o2)
        else Value o1)"

function parse_linking_loop :: "object_t \<Rightarrow> rd_t \<Rightarrow> object_t outcome" where
  "parse_linking_loop o1 sec =
    (if rd_pos sec < length (rd_p sec) then
       (case next_part sec of
          Refused \<Rightarrow> Refused
        | Undefined \<Rightarrow> Undefined
        | Value (sub, bytes, sec1) \<Rightarrow>
            outcome_bind (parse_linking_subsection sub bytes o1) (\<lambda>o2. parse_linking_loop o2 sec1))
     else Value o1)"
  by pat_completeness auto
termination
  by (relation "measure (\<lambda>(o1, sec). length (rd_p sec) - rd_pos sec)")
     (auto dest: next_part_less)

declare parse_linking_loop.simps [simp del]

definition parse_linking_section :: "object_t \<Rightarrow> rd_t \<Rightarrow> object_t outcome" where
  "parse_linking_section o1 sec =
    outcome_bind (rd_uleb sec) (\<lambda>(_, sec1). parse_linking_loop o1 sec1)"

definition parse_reloc_step ::
  "bool \<Rightarrow> nat \<Rightarrow> object_t \<times> rd_t \<Rightarrow> (object_t \<times> rd_t) outcome" where
  "parse_reloc_step is_code i = (\<lambda>(o1, sec).
    outcome_bind (rd_uleb sec) (\<lambda>(ty, s1).
      outcome_bind (rd_uleb s1) (\<lambda>(off, s2).
        outcome_bind (rd_uleb s2) (\<lambda>(symbol, s3).
          outcome_bind
            (if sint ty = R_WASM_MEMORY_ADDR_LEB \<or> sint ty = R_WASM_MEMORY_ADDR_I32
             then rd_sleb s3 else Value (0, s3))
            (\<lambda>(addend, s4).
              Value (o1\<lparr>lo_relocs := lo_relocs o1 @
                [\<lparr>lr_type = sint ty, lr_offset = off, lr_symbol = symbol, lr_addend = addend,
                  lr_is_code = is_code\<rparr>]\<rparr>, s4))))))"

definition parse_reloc_section :: "object_t \<Rightarrow> rd_t \<Rightarrow> bool \<Rightarrow> object_t outcome" where
  "parse_reloc_section o1 sec is_code =
    outcome_bind (rd_uleb sec) (\<lambda>(target, sec1).
      let expected = (if is_code then lo_code_section_index o1 else lo_data_section_index o1)
      in if expected < 0 then Refused
         else if sint target \<noteq> expected then Refused
         else outcome_bind (counted (parse_reloc_step is_code) o1 sec1) (\<lambda>(o2, _). Value o2))"

section \<open>Metadata sections\<close>

text \<open>
  The four tables of the custom sections \<^verbatim>\<open>agc.*\<close> share their shape: a version, a count, entries
  with a name that must be new, and nothing behind them. In an initialiser of a structure the source
  reads the fields from left to right.
\<close>

definition parse_c_signature_entry :: "rd_t \<Rightarrow> (c_signature_t \<times> rd_t) outcome" where
  "parse_c_signature_entry sec =
    outcome_bind (rd_str_dup sec) (\<lambda>(name, s1).
      outcome_bind (rd_str_dup s1) (\<lambda>(signature, s2).
        if str_empty (Some name) \<or> str_empty (Some signature) then Refused
        else Value (\<lparr>cs_name = Some name, cs_signature = Some signature\<rparr>, s2)))"

definition parse_c_signature_step ::
  "nat \<Rightarrow> object_t \<times> rd_t \<Rightarrow> (object_t \<times> rd_t) outcome" where
  "parse_c_signature_step i = (\<lambda>(o1, sec).
    outcome_bind (parse_c_signature_entry sec) (\<lambda>(e, s1).
      if list_ex (\<lambda>prev. str_eq (cs_name prev) (cs_name e)) (lo_c_signatures o1) then Refused
      else Value (o1\<lparr>lo_c_signatures := lo_c_signatures o1 @ [e]\<rparr>, s1)))"

definition at_end :: "object_t \<times> rd_t \<Rightarrow> object_t outcome" where
  "at_end = (\<lambda>(o1, sec). if rd_pos sec \<noteq> length (rd_p sec) then Refused else Value o1)"

definition parse_c_signature_section :: "object_t \<Rightarrow> rd_t \<Rightarrow> object_t outcome" where
  "parse_c_signature_section o1 sec =
    (if lo_has_c_signature_section o1 then Refused
     else outcome_bind (rd_uleb sec) (\<lambda>(version, s1).
       if version \<noteq> 1 \<and> version \<noteq> 2 \<and> version \<noteq> 3 then Refused
       else outcome_bind (counted parse_c_signature_step o1 s1) (\<lambda>r.
         outcome_bind (at_end r) (\<lambda>o2.
           Value (o2\<lparr>lo_has_c_signature_section := True,
                     lo_c_signature_version := version\<rparr>)))))"

definition parse_abi_layout_step ::
  "nat \<Rightarrow> object_t \<times> rd_t \<Rightarrow> (object_t \<times> rd_t) outcome" where
  "parse_abi_layout_step i = (\<lambda>(o1, sec).
    outcome_bind (parse_c_signature_entry sec) (\<lambda>(e, s1).
      if list_ex (\<lambda>prev. str_eq (cs_name prev) (cs_name e)) (lo_abi_layout_signatures o1)
      then Refused
      else Value (o1\<lparr>lo_abi_layout_signatures := lo_abi_layout_signatures o1 @ [e]\<rparr>, s1)))"

definition parse_abi_layout_section :: "object_t \<Rightarrow> rd_t \<Rightarrow> object_t outcome" where
  "parse_abi_layout_section o1 sec =
    (if lo_has_abi_layout_section o1 then Refused
     else outcome_bind (rd_uleb sec) (\<lambda>(version, s1).
       if version \<noteq> 1 \<and> version \<noteq> 2 \<and> version \<noteq> 3 then Refused
       else outcome_bind (counted parse_abi_layout_step o1 s1) (\<lambda>r.
         outcome_bind (at_end r) (\<lambda>o2.
           Value (o2\<lparr>lo_has_abi_layout_section := True, lo_abi_layout_version := version\<rparr>)))))"

definition data_signature_valid :: "data_signature_t \<Rightarrow> bool" where
  "data_signature_valid e =
    (\<not> (str_empty (ds_name e) \<or> str_empty (ds_c_signature e) \<or> str_empty (ds_layout_signature e) \<or>
        ds_flags e AND NOT AGC_DATA_FLAG_THREAD_LOCAL \<noteq> 0 \<or>
        ds_requested_alignment e \<noteq> 0 \<and>
        ds_requested_alignment e AND (ds_requested_alignment e - 1) \<noteq> 0))"

definition parse_data_signature_entry ::
  "u32 \<Rightarrow> rd_t \<Rightarrow> (data_signature_t \<times> rd_t) outcome" where
  "parse_data_signature_entry version sec =
    outcome_bind (rd_str_dup sec) (\<lambda>(name, s1).
      outcome_bind (rd_str_dup s1) (\<lambda>(c_signature, s2).
        outcome_bind (rd_str_dup s2) (\<lambda>(layout_signature, s3).
          outcome_bind
            (if version \<ge> 2
             then outcome_bind (rd_uleb s3) (\<lambda>(flags, s4).
                    outcome_bind (rd_uleb s4) (\<lambda>(alignment, s5).
                      Value ((flags, alignment, True), s5)))
             else Value ((0, 0, False), s3))
            (\<lambda>((flags, alignment, props), s5).
              let e = \<lparr>ds_name = Some name, ds_c_signature = Some c_signature,
                       ds_layout_signature = Some layout_signature, ds_flags = flags,
                       ds_requested_alignment = alignment, ds_has_object_properties = props\<rparr>
              in if data_signature_valid e then Value (e, s5) else Refused))))"

definition parse_data_signature_step ::
  "u32 \<Rightarrow> nat \<Rightarrow> object_t \<times> rd_t \<Rightarrow> (object_t \<times> rd_t) outcome" where
  "parse_data_signature_step version i = (\<lambda>(o1, sec).
    outcome_bind (parse_data_signature_entry version sec) (\<lambda>(e, s1).
      if list_ex (\<lambda>prev. str_eq (ds_name prev) (ds_name e)) (lo_data_signatures o1) then Refused
      else Value (o1\<lparr>lo_data_signatures := lo_data_signatures o1 @ [e]\<rparr>, s1)))"

definition parse_data_signature_section :: "object_t \<Rightarrow> rd_t \<Rightarrow> object_t outcome" where
  "parse_data_signature_section o1 sec =
    (if lo_has_data_signature_section o1 then Refused
     else outcome_bind (rd_uleb sec) (\<lambda>(version, s1).
       if version \<noteq> 1 \<and> version \<noteq> 2 \<and> version \<noteq> 3 \<and> version \<noteq> 4 then Refused
       else outcome_bind (rd_uleb s1) (\<lambda>(layout_version, s2).
         if layout_version \<noteq> 3 then Refused
         else outcome_bind (counted (parse_data_signature_step version) o1 s2) (\<lambda>r.
           outcome_bind (at_end r) (\<lambda>o2.
             Value (o2\<lparr>lo_has_data_signature_section := True,
                       lo_data_signature_version := version,
                       lo_data_layout_version := layout_version\<rparr>))))))"

definition parse_function_flags_entry :: "rd_t \<Rightarrow> (function_flags_t \<times> rd_t) outcome" where
  "parse_function_flags_entry sec =
    outcome_bind (rd_str_dup sec) (\<lambda>(name, s1).
      outcome_bind (rd_uleb s1) (\<lambda>(flags, s2).
        if str_empty (Some name) \<or> flags = 0 \<or>
           flags AND NOT AGC_FUNCTION_FLAG_PARAMETERS_UNSPECIFIED \<noteq> 0
        then Refused
        else Value (\<lparr>ff_name = Some name, ff_flags = flags\<rparr>, s2)))"

definition parse_function_flags_step ::
  "nat \<Rightarrow> object_t \<times> rd_t \<Rightarrow> (object_t \<times> rd_t) outcome" where
  "parse_function_flags_step i = (\<lambda>(o1, sec).
    outcome_bind (parse_function_flags_entry sec) (\<lambda>(e, s1).
      if list_ex (\<lambda>prev. str_eq (ff_name prev) (ff_name e)) (lo_function_flags o1) then Refused
      else Value (o1\<lparr>lo_function_flags := lo_function_flags o1 @ [e]\<rparr>, s1)))"

definition parse_function_flags_section :: "object_t \<Rightarrow> rd_t \<Rightarrow> object_t outcome" where
  "parse_function_flags_section o1 sec =
    (if lo_has_function_flags o1 then Refused
     else outcome_bind (rd_uleb sec) (\<lambda>(version, s1).
       if version \<noteq> 1 then Refused
       else outcome_bind (counted parse_function_flags_step o1 s1) (\<lambda>r.
         outcome_bind (at_end r) (\<lambda>o2. Value (o2\<lparr>lo_has_function_flags := True\<rparr>)))))"

text \<open>\<open>n\<close> strings in a row.\<close>

primrec rd_strings :: "nat \<Rightarrow> rd_t \<Rightarrow> (str_t list \<times> rd_t) outcome" where
  "rd_strings 0 sec = Value ([], sec)"
| "rd_strings (Suc n) sec =
    outcome_bind (rd_str_dup sec) (\<lambda>(s, s1).
      outcome_bind (rd_strings n s1) (\<lambda>(ss, s2). Value (Some s # ss, s2)))"

definition parse_continuation_section :: "object_t \<Rightarrow> rd_t \<Rightarrow> object_t outcome" where
  "parse_continuation_section o1 sec =
    (if lo_has_continuation o1 then Refused
     else outcome_bind (rd_uleb sec) (\<lambda>(version, s1).
       if version \<noteq> 1 then Refused
       else outcome_bind (rd_strings 7 s1) (\<lambda>(names, s2).
         if list_ex str_empty names then Refused
         else if rd_pos s2 \<noteq> length (rd_p s2) then Refused
         else Value (o1\<lparr>lo_continuation := names, lo_has_continuation := True\<rparr>))))"

section \<open>Validation of the metadata\<close>

definition has_function :: "object_t \<Rightarrow> str_t \<Rightarrow> bool" where
  "has_function o1 name = list_ex (\<lambda>f. str_eq (lf_name f) name) (lo_funcs o1)"

definition has_c_signature :: "object_t \<Rightarrow> str_t \<Rightarrow> bool" where
  "has_c_signature o1 name = list_ex (\<lambda>c. str_eq (cs_name c) name) (lo_c_signatures o1)"

definition validate_function_flags_metadata :: "object_t \<Rightarrow> bool" where
  "validate_function_flags_metadata o1 =
    list_all (\<lambda>e. has_function o1 (ff_name e) \<and> has_c_signature o1 (ff_name e)) (lo_function_flags o1)"

definition validate_abi_layout_metadata :: "object_t \<Rightarrow> bool" where
  "validate_abi_layout_metadata o1 =
    list_all (\<lambda>e. has_function o1 (cs_name e) \<and> has_c_signature o1 (cs_name e))
      (lo_abi_layout_signatures o1)"

definition validate_data_signature_metadata :: "object_t \<Rightarrow> bool" where
  "validate_data_signature_metadata o1 =
    list_all
      (\<lambda>e. list_ex (\<lambda>s. ls_kind s = SYM_DATA \<and> \<not> sym_local s \<and> str_eq (ls_name s) (ds_name e))
             (lo_symbols o1))
      (lo_data_signatures o1)"

section \<open>The object reader\<close>

definition parse_custom_section :: "object_t \<Rightarrow> rd_t \<Rightarrow> object_t outcome" where
  "parse_custom_section o1 sec =
    outcome_bind (rd_str_dup sec) (\<lambda>(name, s1).
      if name = lit ''linking'' then parse_linking_section o1 s1
      else if name = lit ''reloc.CODE'' then parse_reloc_section o1 s1 True
      else if name = lit ''reloc.DATA'' then parse_reloc_section o1 s1 False
      else if name = lit ''agc.c_signature'' then parse_c_signature_section o1 s1
      else if name = lit ''agc.abi_layout'' then parse_abi_layout_section o1 s1
      else if name = lit ''agc.data_signature'' then parse_data_signature_section o1 s1
      else if name = lit ''agc.function_flags'' then parse_function_flags_section o1 s1
      else if name = lit ''agc.continuation'' then parse_continuation_section o1 s1
      else Value o1)"

definition parse_section :: "u8 \<Rightarrow> u8 list \<Rightarrow> int \<Rightarrow> object_t \<Rightarrow> object_t outcome" where
  "parse_section id1 bytes section_index o1 =
    (let sec = \<lparr>rd_p = bytes, rd_pos = 0\<rparr>
     in if id1 = SEC_TYPE then parse_type_section o1 sec
        else if id1 = SEC_IMPORT then parse_import_section o1 sec
        else if id1 = SEC_FUNCTION then parse_function_section o1 sec
        else if id1 = SEC_CODE then parse_code_section o1 sec section_index
        else if id1 = SEC_DATA then parse_data_section o1 sec section_index
        else if id1 = SEC_CUSTOM then parse_custom_section o1 sec
        else Value o1)"

function parse_sections :: "object_t \<Rightarrow> int \<Rightarrow> rd_t \<Rightarrow> object_t outcome" where
  "parse_sections o1 noncustom_index r =
    (if rd_pos r < length (rd_p r) then
       (case next_part r of
          Refused \<Rightarrow> Refused
        | Undefined \<Rightarrow> Undefined
        | Value (id1, bytes, r1) \<Rightarrow>
            outcome_bind (parse_section id1 bytes noncustom_index o1) (\<lambda>o2.
              parse_sections o2
                (if id1 \<noteq> SEC_CUSTOM then noncustom_index + 1 else noncustom_index) r1))
     else Value o1)"
  by pat_completeness auto
termination
  by (relation "measure (\<lambda>(o1, i, r). length (rd_p r) - rd_pos r)")
     (auto dest: next_part_less)

declare parse_sections.simps [simp del]

definition parse_object_bytes :: "u8 list \<Rightarrow> object_t outcome" where
  "parse_object_bytes file =
    (if length file < 8 \<or> take 4 file \<noteq> [0, 0x61, 0x73, 0x6d] then Refused
     else outcome_bind (parse_sections zero_object 0 \<lparr>rd_p = file, rd_pos = 8\<rparr>) (\<lambda>o1.
       if validate_function_flags_metadata o1 \<and> validate_abi_layout_metadata o1 \<and>
          validate_data_signature_metadata o1
       then Value o1 else Refused))"

section \<open>The metadata of an object\<close>

text \<open>No table of the metadata has two entries for a name, and no name is empty.\<close>

definition names_ok :: "str_t list \<Rightarrow> bool" where
  "names_ok names \<longleftrightarrow> distinct names \<and> (\<forall>n \<in> set names. \<not> str_empty n)"

definition metadata_ok :: "object_t \<Rightarrow> bool" where
  "metadata_ok o1 \<longleftrightarrow>
     names_ok (map cs_name (lo_c_signatures o1)) \<and> names_ok (map cs_name (lo_abi_layout_signatures o1)) \<and>
     names_ok (map ds_name (lo_data_signatures o1)) \<and> names_ok (map ff_name (lo_function_flags o1))"

definition metadata :: "object_t \<Rightarrow>
    c_signature_t list \<times> c_signature_t list \<times> data_signature_t list \<times> function_flags_t list" where
  "metadata o1 = (lo_c_signatures o1, lo_abi_layout_signatures o1, lo_data_signatures o1,
     lo_function_flags o1)"

lemma metadata_ok_same: "metadata b = metadata a \<Longrightarrow> metadata_ok a \<Longrightarrow> metadata_ok b"
  by (simp add: metadata_def metadata_ok_def)

text \<open>A counted loop whose step keeps a property of the object keeps it.\<close>

lemma counted_keeps:
  assumes "counted step o1 sec = Value (o2, sec2)" "P o1"
    and "\<And>i a s b t. P a \<Longrightarrow> step i (a, s) = Value (b, t) \<Longrightarrow> P b"
  shows "P o2"
proof -
  obtain n s where "for_from 0 n step (o1, s) = Value (o2, sec2)"
    using assms(1) by (auto simp: counted_def elim!: outcome_bind_ValueE)
  then show ?thesis
    using for_from_invariant [of 0 n step "(o1, s)" "(o2, sec2)" "\<lambda>(a, _). P a"] assms(2,3)
    by fastforce
qed

text \<open>The steps that do not touch the metadata.\<close>

lemma metadata_updates [simp]:
  "metadata (o1\<lparr>lo_types := a\<rparr>) = metadata o1" "metadata (o1\<lparr>lo_funcs := f\<rparr>) = metadata o1"
  "metadata (o1\<lparr>lo_data := d\<rparr>) = metadata o1" "metadata (o1\<lparr>lo_globals := g\<rparr>) = metadata o1"
  "metadata (o1\<lparr>lo_symbols := s\<rparr>) = metadata o1" "metadata (o1\<lparr>lo_relocs := r\<rparr>) = metadata o1"
  "metadata (o1\<lparr>lo_imports_table := b\<rparr>) = metadata o1"
  "metadata (o1\<lparr>lo_code_section_index := i\<rparr>) = metadata o1"
  "metadata (o1\<lparr>lo_data_section_index := i\<rparr>) = metadata o1"
  "metadata (o1\<lparr>lo_continuation := n, lo_has_continuation := b\<rparr>) = metadata o1"
  by (simp_all add: metadata_def)

lemma metadata_helpers [simp]:
  "metadata (name_func j n o1) = metadata o1" "metadata (name_data j n o1) = metadata o1"
  "metadata (name_global j n o1) = metadata o1" "metadata (grow_alloc j m o1) = metadata o1"
  "metadata (push_symbol y o1) = metadata o1"
  by (simp_all add: name_func_def name_data_def name_global_def grow_alloc_def push_symbol_def)

lemma plain_steps:
  "parse_type_step i (a, s) = Value (b, t) \<Longrightarrow> metadata b = metadata a"
  "parse_import_step i (a, s) = Value (b, t) \<Longrightarrow> metadata b = metadata a"
  "parse_function_step i (a, s) = Value (b, t) \<Longrightarrow> metadata b = metadata a"
  "parse_code_step k i (a, s) = Value (b, t) \<Longrightarrow> metadata b = metadata a"
  "parse_data_step i (a, s) = Value (b, t) \<Longrightarrow> metadata b = metadata a"
  "parse_segment_info_step i (a, s) = Value (b, t) \<Longrightarrow> metadata b = metadata a"
  "parse_reloc_step c i (a, s) = Value (b, t) \<Longrightarrow> metadata b = metadata a"
  "parse_data_symbol y a s = Value (b, t) \<Longrightarrow> metadata b = metadata a"
  by (auto simp: parse_type_step_def parse_import_step_def parse_function_step_def parse_code_step_def
      parse_data_step_def parse_segment_info_step_def parse_reloc_step_def parse_data_symbol_def Let_def
      elim!: outcome_bind_ValueE split: if_splits)

lemma parse_symbol_step_metadata:
  "parse_symbol_step i (a, s) = Value (b, t) \<Longrightarrow> metadata b = metadata a"
  by (auto simp: parse_symbol_step_def Let_def elim!: outcome_bind_ValueE split: if_splits
      dest: plain_steps(8))

lemma counted_metadata:
  assumes "counted step o1 sec = Value (o2, sec2)"
    and "\<And>i a s b t. step i (a, s) = Value (b, t) \<Longrightarrow> metadata b = metadata a"
  shows "metadata o2 = metadata o1"
  by (rule counted_keeps [OF assms(1)]) (auto dest: assms(2))

lemma counted_plain:
  "counted parse_type_step o1 s = Value (o2, t) \<Longrightarrow> metadata o2 = metadata o1"
  "counted parse_import_step o1 s = Value (o2, t) \<Longrightarrow> metadata o2 = metadata o1"
  "counted parse_function_step o1 s = Value (o2, t) \<Longrightarrow> metadata o2 = metadata o1"
  "counted (parse_code_step k) o1 s = Value (o2, t) \<Longrightarrow> metadata o2 = metadata o1"
  "counted parse_data_step o1 s = Value (o2, t) \<Longrightarrow> metadata o2 = metadata o1"
  "counted parse_segment_info_step o1 s = Value (o2, t) \<Longrightarrow> metadata o2 = metadata o1"
  "counted (parse_reloc_step c) o1 s = Value (o2, t) \<Longrightarrow> metadata o2 = metadata o1"
  "counted parse_symbol_step o1 s = Value (o2, t) \<Longrightarrow> metadata o2 = metadata o1"
  by (erule counted_metadata, erule plain_steps parse_symbol_step_metadata)+

lemma parse_linking_loop_metadata:
  "parse_linking_loop o1 sec = Value o2 \<Longrightarrow> metadata o2 = metadata o1"
proof (induction o1 sec rule: parse_linking_loop.induct)
  case (1 o1 sec)
  show ?case
  proof (cases "rd_pos sec < length (rd_p sec)")
    case False
    then show ?thesis using "1.prems" by (simp add: parse_linking_loop.simps)
  next
    case True
    then obtain sub bytes sec1 o3 where n: "next_part sec = Value (sub, bytes, sec1)"
        and p: "parse_linking_subsection sub bytes o1 = Value o3" "parse_linking_loop o3 sec1 = Value o2"
      using "1.prems" by (subst (asm) parse_linking_loop.simps)
        (auto split: outcome.splits elim!: outcome_bind_ValueE)
    have "metadata o3 = metadata o1"
      using p(1) by (auto simp: parse_linking_subsection_def Let_def elim!: outcome_bind_ValueE
          split: if_splits dest: counted_plain)
    then show ?thesis using "1.IH" [OF True n refl refl p(2)] by simp
  qed
qed

text \<open>The steps that add an entry.\<close>

lemma names_ok_snoc:
  "names_ok (map f xs) \<Longrightarrow> \<not> str_empty (f x) \<Longrightarrow> \<not> list_ex (\<lambda>p. str_eq (f p) (f x)) xs \<Longrightarrow>
   names_ok (map f (xs @ [x]))"
  by (auto simp: names_ok_def list_ex_iff str_eq_def str_empty_def split: option.splits)

lemma entry_names:
  "parse_c_signature_entry s = Value (e, t) \<Longrightarrow> \<not> str_empty (cs_name e)"
  "parse_data_signature_entry v s = Value (d, t) \<Longrightarrow> \<not> str_empty (ds_name d)"
  "parse_function_flags_entry s = Value (g, t) \<Longrightarrow> \<not> str_empty (ff_name g)"
  by (auto simp: parse_c_signature_entry_def parse_data_signature_entry_def parse_function_flags_entry_def
      data_signature_valid_def Let_def elim!: outcome_bind_ValueE split: if_splits)

lemma metadata_steps:
  "metadata_ok a \<Longrightarrow> parse_c_signature_step i (a, s) = Value (b, t) \<Longrightarrow> metadata_ok b"
  "metadata_ok a \<Longrightarrow> parse_abi_layout_step i (a, s) = Value (b, t) \<Longrightarrow> metadata_ok b"
  "metadata_ok a \<Longrightarrow> parse_data_signature_step v i (a, s) = Value (b, t) \<Longrightarrow> metadata_ok b"
  "metadata_ok a \<Longrightarrow> parse_function_flags_step i (a, s) = Value (b, t) \<Longrightarrow> metadata_ok b"
proof -
  assume ok: "metadata_ok a"
  show "parse_c_signature_step i (a, s) = Value (b, t) \<Longrightarrow> metadata_ok b"
    using ok names_ok_snoc [of cs_name "lo_c_signatures a"] entry_names(1)
    by (auto simp: parse_c_signature_step_def metadata_ok_def elim!: outcome_bind_ValueE split: if_splits)
  show "parse_abi_layout_step i (a, s) = Value (b, t) \<Longrightarrow> metadata_ok b"
    using ok names_ok_snoc [of cs_name "lo_abi_layout_signatures a"] entry_names(1)
    by (auto simp: parse_abi_layout_step_def metadata_ok_def elim!: outcome_bind_ValueE split: if_splits)
  show "parse_data_signature_step v i (a, s) = Value (b, t) \<Longrightarrow> metadata_ok b"
    using ok names_ok_snoc [of ds_name "lo_data_signatures a"] entry_names(2)
    by (auto simp: parse_data_signature_step_def metadata_ok_def elim!: outcome_bind_ValueE split: if_splits)
  show "parse_function_flags_step i (a, s) = Value (b, t) \<Longrightarrow> metadata_ok b"
    using ok names_ok_snoc [of ff_name "lo_function_flags a"] entry_names(3)
    by (auto simp: parse_function_flags_step_def metadata_ok_def elim!: outcome_bind_ValueE split: if_splits)
qed

lemma metadata_sections:
  assumes ok: "metadata_ok a"
  shows "parse_c_signature_section a s = Value b \<Longrightarrow> metadata_ok b"
    "parse_abi_layout_section a s = Value b \<Longrightarrow> metadata_ok b"
    "parse_data_signature_section a s = Value b \<Longrightarrow> metadata_ok b"
    "parse_function_flags_section a s = Value b \<Longrightarrow> metadata_ok b"
proof -
  have flags: "metadata_ok (c\<lparr>lo_has_c_signature_section := x, lo_c_signature_version := v\<rparr>) = metadata_ok c"
    "metadata_ok (c\<lparr>lo_has_abi_layout_section := x, lo_abi_layout_version := v\<rparr>) = metadata_ok c"
    "metadata_ok (c\<lparr>lo_has_data_signature_section := x, lo_data_signature_version := v,
        lo_data_layout_version := w\<rparr>) = metadata_ok c"
    "metadata_ok (c\<lparr>lo_has_function_flags := x\<rparr>) = metadata_ok c" for c x v w
    by (simp_all add: metadata_ok_def)
  have c: "counted parse_c_signature_step a s1 = Value (c, t) \<Longrightarrow> metadata_ok c"
    "counted parse_abi_layout_step a s1 = Value (c, t) \<Longrightarrow> metadata_ok c"
    "counted (parse_data_signature_step v) a s1 = Value (c, t) \<Longrightarrow> metadata_ok c"
    "counted parse_function_flags_step a s1 = Value (c, t) \<Longrightarrow> metadata_ok c" for s1 c t v
    by (erule counted_keeps [where P = metadata_ok, OF _ ok], erule metadata_steps, assumption)+
  note defs = parse_c_signature_section_def parse_abi_layout_section_def parse_data_signature_section_def
    parse_function_flags_section_def at_end_def
  show "parse_c_signature_section a s = Value b \<Longrightarrow> metadata_ok b"
    by (auto simp: defs flags elim!: outcome_bind_ValueE split: if_splits) (use c in blast)+
  show "parse_abi_layout_section a s = Value b \<Longrightarrow> metadata_ok b"
    by (auto simp: defs flags elim!: outcome_bind_ValueE split: if_splits) (use c in blast)+
  show "parse_data_signature_section a s = Value b \<Longrightarrow> metadata_ok b"
    by (auto simp: defs flags elim!: outcome_bind_ValueE split: if_splits) (use c in blast)+
  show "parse_function_flags_section a s = Value b \<Longrightarrow> metadata_ok b"
    by (auto simp: defs flags elim!: outcome_bind_ValueE split: if_splits) (use c in blast)+
qed

lemma parse_custom_section_metadata:
  assumes ok: "metadata_ok a" and p: "parse_custom_section a s = Value b"
  shows "metadata_ok b"
proof -
  obtain name s1 where
      p: "(if name = lit ''linking'' then parse_linking_section a s1
       else if name = lit ''reloc.CODE'' then parse_reloc_section a s1 True
       else if name = lit ''reloc.DATA'' then parse_reloc_section a s1 False
       else if name = lit ''agc.c_signature'' then parse_c_signature_section a s1
       else if name = lit ''agc.abi_layout'' then parse_abi_layout_section a s1
       else if name = lit ''agc.data_signature'' then parse_data_signature_section a s1
       else if name = lit ''agc.function_flags'' then parse_function_flags_section a s1
       else if name = lit ''agc.continuation'' then parse_continuation_section a s1
       else Value a) = Value b"
    using p by (auto simp: parse_custom_section_def elim!: outcome_bind_ValueE)
  have "metadata b = metadata a" if "parse_linking_section a s1 = Value b"
    using that by (auto simp: parse_linking_section_def elim!: outcome_bind_ValueE
        dest: parse_linking_loop_metadata)
  moreover have "metadata b = metadata a" if "parse_reloc_section a s1 c = Value b" for c
    using that by (auto simp: parse_reloc_section_def Let_def elim!: outcome_bind_ValueE split: if_splits
        dest: counted_plain)
  moreover have "metadata b = metadata a" if "parse_continuation_section a s1 = Value b"
    using that by (auto simp: parse_continuation_section_def elim!: outcome_bind_ValueE split: if_splits)
  ultimately show ?thesis
    using p ok metadata_ok_same [of b a] metadata_sections [OF ok, of s1 b]
    by (auto split: if_split_asm)
qed

lemma parse_section_metadata:
  assumes ok: "metadata_ok a" and p: "parse_section k bytes i a = Value b"
  shows "metadata_ok b"
proof (cases "k = SEC_CUSTOM")
  case True
  then show ?thesis using p parse_custom_section_metadata [OF ok] by (simp add: parse_section_def)
next
  case False
  then have "metadata b = metadata a"
    using p by (auto simp: parse_section_def parse_type_section_def parse_import_section_def
        parse_function_section_def parse_code_section_def parse_data_section_def Let_def
        elim!: outcome_bind_ValueE split: if_split_asm
        dest!: counted_plain)
  then show ?thesis using ok by (rule metadata_ok_same)
qed

lemma parse_sections_metadata:
  "parse_sections o1 i r = Value o2 \<Longrightarrow> metadata_ok o1 \<Longrightarrow> metadata_ok o2"
proof (induction o1 i r rule: parse_sections.induct)
  case (1 o1 i r)
  show ?case
  proof (cases "rd_pos r < length (rd_p r)")
    case False
    then show ?thesis using "1.prems" by (simp add: parse_sections.simps)
  next
    case True
    then obtain k bytes r1 o3 where n: "next_part r = Value (k, bytes, r1)"
        and p: "parse_section k bytes i o1 = Value o3"
          "parse_sections o3 (if k \<noteq> SEC_CUSTOM then i + 1 else i) r1 = Value o2"
      using "1.prems"(1) by (subst (asm) parse_sections.simps)
        (auto split: outcome.splits elim!: outcome_bind_ValueE)
    show ?thesis
      using "1.IH" [OF True n refl refl p(2)] parse_section_metadata [OF "1.prems"(2) p(1)] by simp
  qed
qed

text \<open>
  C40. An object that is accepted has consistent metadata: in each table a name occurs once and is not
  empty; a function with flags or an ABI layout exists and has a C signature; a data signature
  belongs to a global data symbol.
\<close>

theorem object_metadata_consistent:
  assumes "parse_object_bytes file = Value o1"
  shows "metadata_ok o1 \<and>
    list_all (\<lambda>e. has_function o1 (ff_name e) \<and> has_c_signature o1 (ff_name e)) (lo_function_flags o1) \<and>
    list_all (\<lambda>e. has_function o1 (cs_name e) \<and> has_c_signature o1 (cs_name e))
      (lo_abi_layout_signatures o1) \<and>
    list_all (\<lambda>e. list_ex (\<lambda>s. ls_kind s = SYM_DATA \<and> \<not> sym_local s \<and> ls_name s = ds_name e)
      (lo_symbols o1)) (lo_data_signatures o1)"
proof -
  have p: "parse_sections zero_object 0 \<lparr>rd_p = file, rd_pos = 8\<rparr> = Value o1"
    and v: "validate_function_flags_metadata o1" "validate_abi_layout_metadata o1"
      "validate_data_signature_metadata o1"
    using assms by (auto simp: parse_object_bytes_def elim!: outcome_bind_ValueE split: if_splits)
  have "metadata_ok zero_object" by (simp add: metadata_ok_def zero_object_def names_ok_def)
  then have "metadata_ok o1" by (rule parse_sections_metadata [OF p])
  moreover have "str_eq a b \<Longrightarrow> a = b" for a b by (auto simp: str_eq_def split: option.splits)
  ultimately show ?thesis
    using v unfolding validate_function_flags_metadata_def validate_abi_layout_metadata_def
      validate_data_signature_metadata_def
    by (simp add: list_all_iff list_ex_iff) blast
qed

text \<open>An object with an imported function, its C signature and its flags.\<close>

definition sample_file :: "u8 list" where
  "sample_file =
     [0, 0x61, 0x73, 0x6d, 1, 0, 0, 0] @
     [1, 4, 1, 0x60, 0, 0] @
     [2, 9, 1, 3, 101, 110, 118, 1, 102, 0, 0] @
     [0, 22, 15] @ lit ''agc.c_signature'' @ [3, 1, 1, 102, 1, 105] @
     [0, 24, 18] @ lit ''agc.function_flags'' @ [1, 1, 1, 102, 1]"

lemma object_metadata_consistent_witness:
  "case parse_object_bytes sample_file of
     Value o1 \<Rightarrow> has_c_signature o1 (ff_name (lo_function_flags o1 ! 0)) | _ \<Rightarrow> False"
proof -
  have v: "case parse_object_bytes sample_file of Value o1 \<Rightarrow> length (lo_function_flags o1) = 1 | _ \<Rightarrow> False"
    by code_simp
  then obtain o1 where o1: "parse_object_bytes sample_file = Value o1" "length (lo_function_flags o1) = 1"
    by (auto split: outcome.splits)
  from object_metadata_consistent [OF o1(1)] o1(2) show ?thesis
    by (simp add: o1(1) list_all_length)
qed

end
