(* ===== verification/LinkModule.thy ===== *)
theory LinkModule
  imports LinkObject
begin

text \<open>
  Linking, \<^verbatim>\<open>tools/wasm_obj_linker/ag_wasm_link.c\<close>: the shared function types, the resolution of
  symbols, the imports, the layout of the linear memory, the function table and the patching of
  relocations. A pointer to an object is its position in the list of objects, a pointer to a
  function or data segment the pair of the positions of its object and of itself.
\<close>

section \<open>Function types\<close>

definition type_equal :: "type_t \<Rightarrow> type_t \<Rightarrow> bool" where
  "type_equal a b = (length a = length b \<and> a = b)"

definition intern_type :: "type_t list \<Rightarrow> type_t \<Rightarrow> int \<times> type_t list" where
  "intern_type types t =
    (case find_position (\<lambda>u. type_equal u t) 0 types of
       Some i \<Rightarrow> (int i, types)
     | None \<Rightarrow> (int (length types), types @ [t]))"

fun intern_types :: "type_t list \<Rightarrow> type_t list \<Rightarrow> int list \<times> type_t list" where
  "intern_types types [] = ([], types)"
| "intern_types types (t # ts) =
    (let (i, types1) = intern_type types t; (is, types2) = intern_types types1 ts
     in (i # is, types2))"

definition build_object_type_map :: "object_t \<Rightarrow> type_t list \<Rightarrow> object_t \<times> type_t list" where
  "build_object_type_map o1 types =
    (if lo_type_map o1 \<noteq> None then (o1, types)
     else let (type_map, types1) = intern_types types (lo_types o1)
          in (o1\<lparr>lo_type_map := Some type_map\<rparr>, types1))"

text \<open>The shared types as a registry: looking a type up and adding it.\<close>

definition type_position :: "type_t list \<Rightarrow> type_t \<Rightarrow> nat option" where
  "type_position types t = find_position (\<lambda>u. type_equal u t) 0 types"

definition type_added :: "type_t list \<Rightarrow> type_t \<Rightarrow> type_t list" where
  "type_added types t = snd (intern_type types t)"

lemma type_equal_iff [simp]: "type_equal a b \<longleftrightarrow> a = b"
  by (auto simp: type_equal_def)

lemma intern_type_position: "intern_type types t = (i, types1) \<Longrightarrow> type_position types1 t = Some (nat i)"
  by (auto simp: intern_type_def type_position_def find_position_append split: option.splits)

interpretation link_types: injective_registry type_position type_added "\<lambda>_. True"
proof
  fix m k k' p
  show "type_position (type_added m k) k \<noteq> None"
    by (auto simp: type_position_def type_added_def intern_type_def find_position_None
        split: option.splits dest: find_position_0)
  show "type_position m k' = Some p \<Longrightarrow> type_position (type_added m k) k' = Some p"
    by (auto simp: type_position_def type_added_def intern_type_def find_position_append
        split: option.splits)
  show "type_position (type_added m k) k' = Some p \<Longrightarrow>
        type_position m k' = Some p \<or> k' = k \<and> True"
    by (auto simp: type_position_def type_added_def intern_type_def find_position_append
        split: option.splits if_splits)
  show "type_position m k \<noteq> None \<Longrightarrow> type_added m k = m"
    by (auto simp: type_position_def type_added_def intern_type_def)
  show "\<not> True \<Longrightarrow> type_added m k = m" by simp
  show "type_position m k = Some p \<Longrightarrow> type_position m k' = Some p \<Longrightarrow> k = k'"
    by (auto simp: type_position_def dest: find_position_0)
qed

section \<open>Resolution of symbols\<close>

text \<open>The first result along a list, with the position of the element.\<close>

fun first_some :: "(nat \<Rightarrow> 'a \<Rightarrow> 'b option) \<Rightarrow> nat \<Rightarrow> 'a list \<Rightarrow> 'b option" where
  "first_some f i [] = None"
| "first_some f i (x # xs) = (case f i x of Some y \<Rightarrow> Some y | None \<Rightarrow> first_some f (Suc i) xs)"

lemma first_some_Some:
  "first_some f i xs = Some y \<Longrightarrow> \<exists>j. i \<le> j \<and> j < i + length xs \<and> f j (xs ! (j - i)) = Some y"
proof (induction xs arbitrary: i)
  case Nil
  then show ?case by simp
next
  case (Cons x xs)
  show ?case
  proof (cases "f i x")
    case None
    then obtain j where "Suc i \<le> j" "j < Suc i + length xs" "f j (xs ! (j - Suc i)) = Some y"
      using Cons.IH [of "Suc i"] Cons.prems by auto
    then show ?thesis by (intro exI [of _ j]) (simp add: nth_Cons')
  next
    case (Some z)
    then show ?thesis using Cons.prems by (intro exI [of _ i]) simp
  qed
qed

lemma first_some_None:
  "first_some f i xs = None \<longleftrightarrow> (\<forall>j < length xs. f (i + j) (xs ! j) = None)"
  by (induction xs arbitrary: i) (auto simp: nth_Cons less_Suc_eq_0_disj split: option.splits nat.splits)

text \<open>The symbol of a function is the first one with its index.\<close>

definition function_symbol :: "object_t \<Rightarrow> nat \<Rightarrow> symbol_t option" where
  "function_symbol o1 fi =
    List.find (\<lambda>s. ls_kind s = SYM_FUNCTION \<and> ls_index s = int fi) (lo_symbols o1)"

definition defines_func :: "str_t \<Rightarrow> object_t \<Rightarrow> nat \<Rightarrow> func_t \<Rightarrow> bool" where
  "defines_func name o1 fi f =
    (case function_symbol o1 fi of
       None \<Rightarrow> False
     | Some s \<Rightarrow> lf_defined f \<and> \<not> sym_local s \<and> str_eq (ls_name s) name)"

definition find_defined_func :: "object_t list \<Rightarrow> str_t \<Rightarrow> (nat \<times> nat) option" where
  "find_defined_func objs name =
    first_some
      (\<lambda>oi o1. first_some (\<lambda>fi f. if defines_func name o1 fi f then Some (oi, fi) else None)
                0 (lo_funcs o1))
      0 objs"

definition defines_data :: "str_t \<Rightarrow> symbol_t \<Rightarrow> bool" where
  "defines_data name s =
    (ls_kind s = SYM_DATA \<and> \<not> (ls_flags s AND (SYM_UNDEFINED OR SYM_BINDING_LOCAL) \<noteq> 0) \<and>
     str_eq (ls_name s) name)"

definition find_defined_data :: "object_t list \<Rightarrow> str_t \<Rightarrow> (nat \<times> int \<times> u32) option" where
  "find_defined_data objs name =
    first_some
      (\<lambda>oi o1. first_some
        (\<lambda>si s. if defines_data name s then Some (oi, ls_index s, ls_data_offset s) else None)
        0 (lo_symbols o1))
      0 objs"

text \<open>A symbol that competes for its name: global, defined, named, a function or data.\<close>

definition global_definition :: "symbol_t \<Rightarrow> bool" where
  "global_definition s =
    ((ls_kind s = SYM_FUNCTION \<or> ls_kind s = SYM_DATA) \<and>
     \<not> (ls_flags s AND (SYM_UNDEFINED OR SYM_BINDING_LOCAL) \<noteq> 0) \<and> \<not> str_empty (ls_name s))"

definition duplicate_symbol :: "symbol_t \<Rightarrow> symbol_t \<Rightarrow> bool" where
  "duplicate_symbol a b =
    (global_definition a \<and> ls_kind b = ls_kind a \<and>
     \<not> (ls_flags b AND (SYM_UNDEFINED OR SYM_BINDING_LOCAL) \<noteq> 0) \<and> \<not> str_empty (ls_name b) \<and>
     str_eq (ls_name a) (ls_name b))"

text \<open>
  No two entries of a list are in conflict. The loops over the symbols of all objects visit
  the pairs of the concatenated symbol tables in this order.
\<close>

fun no_conflict :: "('a \<Rightarrow> 'a \<Rightarrow> bool) \<Rightarrow> 'a list \<Rightarrow> bool" where
  "no_conflict R [] = True"
| "no_conflict R (a # bs) = (\<not> list_ex (R a) bs \<and> no_conflict R bs)"

definition duplicate_continuation :: "object_t \<Rightarrow> object_t \<Rightarrow> bool" where
  "duplicate_continuation a b =
    (lo_has_continuation a \<and> lo_has_continuation b \<and>
     str_eq (lo_continuation a ! 0) (lo_continuation b ! 0))"

definition check_duplicate_definitions :: "object_t list \<Rightarrow> bool" where
  "check_duplicate_definitions objs =
    (no_conflict duplicate_continuation objs \<and>
     no_conflict duplicate_symbol (concat (map lo_symbols objs)))"

lemma no_conflict_nth:
  "no_conflict R xs \<Longrightarrow> i < j \<Longrightarrow> j < length xs \<Longrightarrow> \<not> R (xs ! i) (xs ! j)"
proof (induction xs arbitrary: i j)
  case Nil
  then show ?case by simp
next
  case (Cons x xs)
  obtain k where k: "j = Suc k" "k < length xs" using Cons.prems by (cases j) auto
  show ?case
  proof (cases i)
    case 0
    then show ?thesis using Cons.prems k by (auto simp: list_ex_iff)
  next
    case (Suc l)
    then show ?thesis using Cons.IH [of l k] Cons.prems k by simp
  qed
qed

text \<open>The metadata of the exported continuation.\<close>

definition find_symbol_kind :: "object_t list \<Rightarrow> str_t \<Rightarrow> u8 \<Rightarrow> bool option \<Rightarrow> bool" where
  "find_symbol_kind objs name kind require_undefined =
    list_ex (\<lambda>o1. list_ex (\<lambda>s. ls_kind s = kind \<and> str_eq (ls_name s) name \<and>
        (case require_undefined of None \<Rightarrow> True | Some u \<Rightarrow> sym_undefined s = u)) (lo_symbols o1)) objs"

definition validate_continuation_metadata :: "object_t list \<Rightarrow> bool" where
  "validate_continuation_metadata objs =
    (case filter lo_has_continuation objs of
       [] \<Rightarrow> True
     | [owner] \<Rightarrow>
         list_all (\<lambda>n. find_defined_func objs n \<noteq> None) (drop 2 (lo_continuation owner)) \<and>
         list_all (\<lambda>o1. list_all (\<lambda>s. \<not> (ls_kind s = SYM_FUNCTION \<and> sym_undefined s \<and>
             (str_eq (ls_name s) (lo_continuation owner ! 1) \<or>
              str_eq (ls_name s) (lo_continuation owner ! 0)))) (lo_symbols o1)) objs
     | _ \<Rightarrow> False)"

lemma no_conflict_append:
  "no_conflict R (xs @ ys) \<longleftrightarrow>
   no_conflict R xs \<and> no_conflict R ys \<and> (\<forall>x \<in> set xs. \<forall>y \<in> set ys. \<not> R x y)"
  by (induction xs) (auto simp: list_ex_iff)

lemma no_conflict_concat:
  "no_conflict R (concat xss) \<Longrightarrow> i < j \<Longrightarrow> j < length xss \<Longrightarrow>
   x \<in> set (xss ! i) \<Longrightarrow> y \<in> set (xss ! j) \<Longrightarrow> \<not> R x y"
proof (induction xss arbitrary: i j)
  case Nil
  then show ?case by simp
next
  case (Cons xs xss)
  obtain k where k: "j = Suc k" "k < length xss" using Cons.prems by (cases j) auto
  show ?case
  proof (cases i)
    case 0
    have "y \<in> set (concat xss)" using Cons.prems k by (auto intro: nth_mem)
    then show ?thesis using Cons.prems 0 by (auto simp: no_conflict_append)
  next
    case (Suc l)
    then show ?thesis using Cons.IH [of l k] Cons.prems k by (simp add: no_conflict_append)
  qed
qed

lemma no_conflict_concat_part: "no_conflict R (concat xss) \<Longrightarrow> xs \<in> set xss \<Longrightarrow> no_conflict R xs"
  by (induction xss) (auto simp: no_conflict_append)

lemma str_eq_iff: "str_eq a b \<longleftrightarrow> a = b \<and> a \<noteq> None"
  by (cases a; cases b) (auto simp: str_eq_def)

lemma duplicate_symbol_iff:
  "duplicate_symbol a b \<longleftrightarrow>
   global_definition a \<and> global_definition b \<and> ls_kind a = ls_kind b \<and> ls_name a = ls_name b"
  by (auto simp: duplicate_symbol_def global_definition_def str_eq_iff str_empty_def split: option.splits)

text \<open>Two symbols that define the same name stand at the same place.\<close>

lemma definition_place_unique:
  assumes c: "check_duplicate_definitions objs"
    and i: "i < length objs" "m < length (lo_symbols (objs ! i))"
    and j: "j < length objs" "n < length (lo_symbols (objs ! j))"
    and d: "duplicate_symbol (lo_symbols (objs ! i) ! m) (lo_symbols (objs ! j) ! n)"
  shows "i = j \<and> m = n"
proof -
  let ?xss = "map lo_symbols objs"
  have nc: "no_conflict duplicate_symbol (concat ?xss)"
    using c by (simp add: check_duplicate_definitions_def)
  have d': "duplicate_symbol (lo_symbols (objs ! j) ! n) (lo_symbols (objs ! i) ! m)"
    using d by (auto simp: duplicate_symbol_iff)
  have "i = j"
  proof (rule ccontr)
    assume "i \<noteq> j"
    then consider "i < j" | "j < i" by linarith
    then show False
    proof cases
      case 1
      then show False using no_conflict_concat [OF nc 1] i j d by simp
    next
      case 2
      then show False using no_conflict_concat [OF nc 2] i j d' by simp
    qed
  qed
  moreover have "no_conflict duplicate_symbol (lo_symbols (objs ! i))"
    using no_conflict_concat_part [OF nc] i by simp
  ultimately show ?thesis
    using no_conflict_nth [of duplicate_symbol "lo_symbols (objs ! i)"] i j d d'
    by (metis linorder_neqE_nat)
qed

text \<open>
  What the compiler promises of a symbol table: the symbol of a function says whether the object
  defines the function.
\<close>

definition symbols_consistent :: "object_t \<Rightarrow> bool" where
  "symbols_consistent o1 =
    list_all (\<lambda>s. ls_kind s = SYM_FUNCTION \<longrightarrow> index_in (ls_index s) (lo_funcs o1) \<and>
        sym_undefined s = (\<not> lf_defined (lo_funcs o1 ! nat (ls_index s)))) (lo_symbols o1)"

lemma List_find_nth: "List.find P xs = Some x \<Longrightarrow> \<exists>i < length xs. x = xs ! i \<and> P x"
  by (auto simp: find_Some_iff)

lemma flags_clear:
  "\<not> (f AND (SYM_UNDEFINED OR SYM_BINDING_LOCAL) \<noteq> 0) \<longleftrightarrow>
   f AND SYM_UNDEFINED = 0 \<and> f AND SYM_BINDING_LOCAL = 0" for f :: u32
  by (simp only: bit.conj_disj_distrib or_eq_0_iff not_not)

lemma defines_func_symbol:
  assumes "defines_func name o1 fi f" "f = lo_funcs o1 ! fi" "symbols_consistent o1"
  obtains n where "n < length (lo_symbols o1)" "global_definition (lo_symbols o1 ! n) \<or> name = Some []"
    "ls_kind (lo_symbols o1 ! n) = SYM_FUNCTION" "ls_index (lo_symbols o1 ! n) = int fi"
    "ls_name (lo_symbols o1 ! n) = name"
proof -
  obtain s where s: "function_symbol o1 fi = Some s" "lf_defined f" "\<not> sym_local s" "str_eq (ls_name s) name"
    using assms(1) by (auto simp: defines_func_def split: option.splits)
  obtain n where n: "n < length (lo_symbols o1)" "s = lo_symbols o1 ! n" "ls_kind s = SYM_FUNCTION"
      "ls_index s = int fi"
    using List_find_nth [OF s(1) [unfolded function_symbol_def]] by auto
  have "\<not> sym_undefined s"
    using assms(2,3) s(2) n by (auto simp: symbols_consistent_def list_all_length)
  then have "global_definition s \<or> name = Some []"
    using s n(3) unfolding global_definition_def flags_clear
    by (auto simp: sym_undefined_def sym_local_def str_eq_iff str_empty_def split: option.splits)
  then show thesis using that [of n] n s by (auto simp: str_eq_iff)
qed

lemma defines_func_unique:
  assumes "check_duplicate_definitions objs" "list_all symbols_consistent objs" "name \<noteq> Some []"
    and i: "i < length objs" "defines_func name (objs ! i) m (lo_funcs (objs ! i) ! m)"
    and j: "j < length objs" "defines_func name (objs ! j) n (lo_funcs (objs ! j) ! n)"
  shows "i = j \<and> m = n"
proof -
  have "symbols_consistent (objs ! i)" "symbols_consistent (objs ! j)"
    using assms(2) i j by (simp_all add: list_all_length)
  then obtain a b where
      a: "a < length (lo_symbols (objs ! i))" "global_definition (lo_symbols (objs ! i) ! a)"
        "ls_kind (lo_symbols (objs ! i) ! a) = SYM_FUNCTION"
        "ls_index (lo_symbols (objs ! i) ! a) = int m" "ls_name (lo_symbols (objs ! i) ! a) = name"
    and b: "b < length (lo_symbols (objs ! j))" "global_definition (lo_symbols (objs ! j) ! b)"
        "ls_kind (lo_symbols (objs ! j) ! b) = SYM_FUNCTION"
        "ls_index (lo_symbols (objs ! j) ! b) = int n" "ls_name (lo_symbols (objs ! j) ! b) = name"
    using defines_func_symbol [OF i(2) refl] defines_func_symbol [OF j(2) refl] assms(3) by metis
  have "duplicate_symbol (lo_symbols (objs ! i) ! a) (lo_symbols (objs ! j) ! b)"
    using a b by (simp add: duplicate_symbol_iff)
  then have "i = j \<and> a = b"
    using definition_place_unique [OF assms(1)] i(1) j(1) a(1) b(1) by blast
  then show ?thesis using a(4) b(4) by simp
qed

lemma find_defined_func_Some:
  assumes "find_defined_func objs name = Some (oi, fi)"
  shows "oi < length objs" "fi < length (lo_funcs (objs ! oi))"
    "defines_func name (objs ! oi) fi (lo_funcs (objs ! oi) ! fi)"
proof -
  obtain i where "i < length objs"
      "first_some (\<lambda>fi f. if defines_func name (objs ! i) fi f then Some (i, fi) else None)
        0 (lo_funcs (objs ! i)) = Some (oi, fi)"
    using first_some_Some [OF assms [unfolded find_defined_func_def]] by auto
  then show "oi < length objs" "fi < length (lo_funcs (objs ! oi))"
      "defines_func name (objs ! oi) fi (lo_funcs (objs ! oi) ! fi)"
    by (auto dest!: first_some_Some split: if_splits)
qed

lemma find_defined_func_finds:
  assumes "i < length objs" "m < length (lo_funcs (objs ! i))"
    "defines_func name (objs ! i) m (lo_funcs (objs ! i) ! m)"
  shows "find_defined_func objs name \<noteq> None"
proof
  assume "find_defined_func objs name = None"
  then have "first_some (\<lambda>fi f. if defines_func name (objs ! i) fi f then Some (i, fi) else None)
        0 (lo_funcs (objs ! i)) = None"
    using assms(1) by (auto simp: find_defined_func_def first_some_None split: if_splits)
  then show False using assms(2,3) by (simp add: first_some_None split: if_splits)
qed

text \<open>
  C38. When the check for duplicates passed, a name has one definition and the search returns it: which
  definition a reference gets does not depend on the order of the objects.
\<close>

theorem resolution_unique:
  assumes "check_duplicate_definitions objs" "list_all symbols_consistent objs" "name \<noteq> Some []"
  shows "find_defined_func objs name = Some (oi, fi) \<longleftrightarrow>
    oi < length objs \<and> fi < length (lo_funcs (objs ! oi)) \<and>
    defines_func name (objs ! oi) fi (lo_funcs (objs ! oi) ! fi)"
proof
  assume "find_defined_func objs name = Some (oi, fi)"
  then show "oi < length objs \<and> fi < length (lo_funcs (objs ! oi)) \<and>
      defines_func name (objs ! oi) fi (lo_funcs (objs ! oi) ! fi)"
    by (blast dest: find_defined_func_Some)
next
  assume d: "oi < length objs \<and> fi < length (lo_funcs (objs ! oi)) \<and>
      defines_func name (objs ! oi) fi (lo_funcs (objs ! oi) ! fi)"
  then obtain i m where im: "find_defined_func objs name = Some (i, m)"
    using find_defined_func_finds [of oi objs fi name] by auto
  then show "find_defined_func objs name = Some (oi, fi)"
    using defines_func_unique [OF assms, of i m oi fi] find_defined_func_Some [OF im] d by auto
qed

lemma resolution_unique_witness:
  "find_defined_func
    [zero_object\<lparr>lo_funcs := [zero_func],
       lo_symbols := [zero_symbol\<lparr>ls_flags := 0x10, ls_name := Some [102]\<rparr>]\<rparr>,
     zero_object\<lparr>lo_funcs := [zero_func\<lparr>lf_defined := True\<rparr>],
       lo_symbols := [zero_symbol\<lparr>ls_name := Some [102]\<rparr>]\<rparr>] (Some [102]) = Some (1, 0)"
  (is "find_defined_func ?objs _ = _")
proof -
  have "check_duplicate_definitions ?objs" by code_simp
  moreover have "list_all symbols_consistent ?objs" by code_simp
  moreover have "1 < length ?objs \<and> 0 < length (lo_funcs (?objs ! 1)) \<and>
      defines_func (Some [102]) (?objs ! 1) 0 (lo_funcs (?objs ! 1) ! 0)"
    by code_simp
  ultimately show ?thesis using resolution_unique [of ?objs "Some [102]" 1 0] by simp
qed

section \<open>Imports and final indices\<close>

record final_import_t =
  fi_obj :: nat
  fi_func_index :: int
  fi_name :: str_t
  fi_type_index :: int
  fi_final_index :: int

record final_table_func_t =
  ft_obj :: nat
  ft_func_index :: int
  ft_final_func_index :: int
  ft_table_index :: int

record final_global_t =
  fg_name :: str_t
  fg_final_index :: int
  fg_init_value :: u32

definition find_import :: "final_import_t list \<Rightarrow> str_t \<Rightarrow> int \<Rightarrow> nat option" where
  "find_import imports name type_index =
    find_position (\<lambda>i. fi_type_index i = type_index \<and> str_eq (fi_name i) name) 0 imports"

definition find_import_by_name :: "final_import_t list \<Rightarrow> str_t \<Rightarrow> nat option" where
  "find_import_by_name imports name = find_position (\<lambda>i. str_eq (fi_name i) name) 0 imports"

text \<open>
  The comparison of the C signatures of a reference and its definition (\<^verbatim>\<open>func_signature_matches\<close>)
  is a parameter: two objects, and in each the index of the function.
\<close>

type_synonym signature_check = "object_t \<Rightarrow> int \<Rightarrow> object_t \<Rightarrow> int \<Rightarrow> bool"

definition new_import :: "nat \<Rightarrow> symbol_t \<Rightarrow> int \<Rightarrow> final_import_t list \<Rightarrow> final_import_t" where
  "new_import oi s final_type imports =
    \<lparr>fi_obj = oi, fi_func_index = ls_index s, fi_name = ls_name s, fi_type_index = final_type,
     fi_final_index = int (length imports)\<rparr>"

definition import_symbol ::
  "signature_check \<Rightarrow> object_t list \<Rightarrow> nat \<Rightarrow> symbol_t \<Rightarrow> final_import_t list \<times> type_t list \<Rightarrow>
   (final_import_t list \<times> type_t list) outcome" where
  "import_symbol sigm objs oi s = (\<lambda>(imports, types).
    let o1 = objs ! oi; ti = lf_type_index (lo_funcs o1 ! nat (ls_index s))
    in if \<not> index_in ti (lo_types o1) then Undefined
       else let (final_type, types1) = intern_type types (lo_types o1 ! nat ti)
       in case find_import imports (ls_name s) final_type of
            Some e \<Rightarrow>
              if sigm o1 (ls_index s) (objs ! fi_obj (imports ! e)) (fi_func_index (imports ! e))
              then Value (imports, types1) else Refused
          | None \<Rightarrow>
              (case find_import_by_name imports (ls_name s) of
                 Some e \<Rightarrow>
                   if fi_type_index (imports ! e) \<noteq> final_type then Refused
                   else Value (imports @ [new_import oi s final_type imports], types1)
               | None \<Rightarrow> Value (imports @ [new_import oi s final_type imports], types1)))"

definition add_unresolved_symbol ::
  "signature_check \<Rightarrow> object_t list \<Rightarrow> nat \<Rightarrow> symbol_t \<Rightarrow> final_import_t list \<times> type_t list \<Rightarrow>
   (final_import_t list \<times> type_t list) outcome" where
  "add_unresolved_symbol sigm objs oi s st =
    (if ls_kind s \<noteq> SYM_FUNCTION \<or> \<not> sym_undefined s then Value st
     else if \<not> index_in (ls_index s) (lo_funcs (objs ! oi)) then Refused
     else case find_defined_func objs (ls_name s) of
            Some (di, df) \<Rightarrow>
              if sigm (objs ! oi) (ls_index s) (objs ! di) (int df) then Value st else Refused
          | None \<Rightarrow> import_symbol sigm objs oi s st)"

text \<open>A loop over a list, left at the first diagnostic.\<close>

primrec for_each :: "('a \<Rightarrow> 's \<Rightarrow> 's outcome) \<Rightarrow> 'a list \<Rightarrow> 's \<Rightarrow> 's outcome" where
  "for_each f [] s = Value s"
| "for_each f (x # xs) s = outcome_bind (f x s) (for_each f xs)"

text \<open>The symbols of all objects with the position of their object, in the order of the loops.\<close>

definition all_symbols :: "object_t list \<Rightarrow> (nat \<times> symbol_t) list" where
  "all_symbols objs =
    concat (map (\<lambda>oi. map (\<lambda>s. (oi, s)) (lo_symbols (objs ! oi))) [0..<length objs])"

definition add_unresolved_function_imports ::
  "signature_check \<Rightarrow> object_t list \<Rightarrow> final_import_t list \<times> type_t list \<Rightarrow>
   (final_import_t list \<times> type_t list) outcome" where
  "add_unresolved_function_imports sigm objs =
    for_each (\<lambda>(oi, s). add_unresolved_symbol sigm objs oi s) (all_symbols objs)"

text \<open>
  The first loop of \<^verbatim>\<open>build_module_into\<close>: the type maps, the final types of the functions, and
  the lists of the defined functions and data segments.
\<close>

definition final_types :: "object_t \<Rightarrow> int list \<Rightarrow> object_t option" where
  "final_types o1 type_map =
    (if list_all (\<lambda>f. index_in (lf_type_index f) (lo_types o1)) (lo_funcs o1)
     then Some (o1\<lparr>lo_funcs :=
       map (\<lambda>f. f\<lparr>lf_final_type := type_map ! nat (lf_type_index f)\<rparr>) (lo_funcs o1)\<rparr>)
     else None)"

fun collect_types :: "object_t list \<Rightarrow> type_t list \<Rightarrow> (object_t list \<times> type_t list) outcome" where
  "collect_types [] types = Value ([], types)"
| "collect_types (o1 # objs) types =
    (let (o2, types1) = build_object_type_map o1 types
     in case final_types o2 (the (lo_type_map o2)) of
          None \<Rightarrow> Refused
        | Some o3 \<Rightarrow> outcome_bind (collect_types objs types1) (\<lambda>(os, types2). Value (o3 # os, types2)))"

definition defined_funcs :: "object_t list \<Rightarrow> (nat \<times> nat) list" where
  "defined_funcs objs =
    concat (map (\<lambda>oi. map (\<lambda>fi. (oi, fi))
        (filter (\<lambda>fi. lf_defined (lo_funcs (objs ! oi) ! fi)) [0..<length (lo_funcs (objs ! oi))]))
      [0..<length objs])"

definition defined_data :: "object_t list \<Rightarrow> (nat \<times> nat) list" where
  "defined_data objs =
    concat (map (\<lambda>oi. map (\<lambda>di. (oi, di))
        (filter (\<lambda>di. ld_defined (lo_data (objs ! oi) ! di)) [0..<length (lo_data (objs ! oi))]))
      [0..<length objs])"

text \<open>Access through the pair of positions.\<close>

definition func_at :: "object_t list \<Rightarrow> nat \<times> nat \<Rightarrow> func_t" where
  "func_at objs = (\<lambda>(oi, fi). lo_funcs (objs ! oi) ! fi)"

definition data_at :: "object_t list \<Rightarrow> nat \<times> nat \<Rightarrow> data_seg_t" where
  "data_at objs = (\<lambda>(oi, di). lo_data (objs ! oi) ! di)"

definition set_func :: "nat \<times> nat \<Rightarrow> func_t \<Rightarrow> object_t list \<Rightarrow> object_t list" where
  "set_func = (\<lambda>(oi, fi) f objs.
    objs[oi := (objs ! oi)\<lparr>lo_funcs := (lo_funcs (objs ! oi))[fi := f]\<rparr>])"

definition set_data :: "nat \<times> nat \<Rightarrow> data_seg_t \<Rightarrow> object_t list \<Rightarrow> object_t list" where
  "set_data = (\<lambda>(oi, di) d objs.
    objs[oi := (objs ! oi)\<lparr>lo_data := (lo_data (objs ! oi))[di := d]\<rparr>])"

definition data_in :: "object_t list \<Rightarrow> nat \<times> nat \<Rightarrow> bool" where
  "data_in objs = (\<lambda>(oi, di). oi < length objs \<and> di < length (lo_data (objs ! oi)))"

definition func_in :: "object_t list \<Rightarrow> nat \<times> nat \<Rightarrow> bool" where
  "func_in objs = (\<lambda>(oi, fi). oi < length objs \<and> fi < length (lo_funcs (objs ! oi)))"

definition number_funcs :: "nat \<Rightarrow> (nat \<times> nat) list \<Rightarrow> object_t list \<Rightarrow> object_t list" where
  "number_funcs import_count defs objs =
    fold (\<lambda>(i, p) objs. set_func p ((func_at objs p)\<lparr>lf_final_index := int (import_count + i)\<rparr>) objs)
      (zip [0..<length defs] defs) objs"

section \<open>Layout of the linear memory\<close>

definition checked_add_u32 :: "u32 \<Rightarrow> u32 \<Rightarrow> u32 option" where
  "checked_add_u32 a b = (if b > - 1 - a then None else Some (a + b))"

text \<open>The second operand is an \<^verbatim>\<open>int32_t\<close>.\<close>

definition checked_add_i32 :: "u32 \<Rightarrow> u32 \<Rightarrow> u32 option" where
  "checked_add_i32 a b =
    (if sint b < 0 then
       let neg = word_of_int (- sint b)
       in if a < neg then None else Some (a - neg)
     else checked_add_u32 a b)"

definition align_to_u32_checked :: "u32 \<Rightarrow> u32 \<Rightarrow> u32 option" where
  "align_to_u32_checked v a =
    (if a \<le> 1 then Some v
     else let rem = v mod a in if rem = 0 then Some v else checked_add_u32 v (a - rem))"

definition segment_alignment :: "data_seg_t \<Rightarrow> u32" where
  "segment_alignment d =
    (if ld_align_log2 d > 0 \<and> ld_align_log2 d < 31 then push_bit (nat (ld_align_log2 d)) 1 else 1)"

definition segment_size :: "data_seg_t \<Rightarrow> nat" where
  "segment_size d =
    (if ld_alloc_size d > length (ld_bytes d) then ld_alloc_size d else length (ld_bytes d))"

definition place_segment :: "nat \<times> nat \<Rightarrow> u32 \<times> object_t list \<Rightarrow> (u32 \<times> object_t list) outcome" where
  "place_segment p = (\<lambda>(mem, objs).
    let d = data_at objs p
    in outcome_bind (or_refuse (align_to_u32_checked mem (segment_alignment d))) (\<lambda>addr.
         if segment_size d > UINT32_MAX then Refused
         else outcome_bind (or_refuse (checked_add_u32 addr (of_nat (segment_size d)))) (\<lambda>mem1.
           Value (mem1, set_data p (d\<lparr>ld_final_addr := addr\<rparr>) objs))))"

definition layout_data :: "(nat \<times> nat) list \<Rightarrow> object_t list \<Rightarrow> (u32 \<times> object_t list) outcome" where
  "layout_data datas objs = for_each place_segment datas (1024, objs)"

text \<open>What the options ask for, and the plan of the memory behind the data.\<close>

record linker_options_t =
  op_flags :: u32
  op_initial_memory_pages :: u32
  op_maximum_memory_pages :: u32
  op_stack_size :: u32
  op_maximum_table_elements :: u32
  op_stdio_write_import_module :: "u8 list option"
  op_stdio_write_import_name :: "u8 list option"

abbreviation (input) LINK_OPT_MAX_MEMORY :: u32 where "LINK_OPT_MAX_MEMORY \<equiv> 1"
abbreviation (input) LINK_OPT_MAX_TABLE :: u32 where "LINK_OPT_MAX_TABLE \<equiv> 2"
abbreviation (input) LINK_OPT_STDIO_WRITE_IMPORT :: u32 where "LINK_OPT_STDIO_WRITE_IMPORT \<equiv> 4"

definition has_option :: "linker_options_t \<Rightarrow> u32 \<Rightarrow> bool" where
  "has_option options flag = (op_flags options AND flag \<noteq> 0)"

definition default_linker_options :: linker_options_t where
  "default_linker_options =
    \<lparr>op_flags = 0, op_initial_memory_pages = 1024, op_maximum_memory_pages = 0, op_stack_size = 0,
     op_maximum_table_elements = 0, op_stdio_write_import_module = None,
     op_stdio_write_import_name = None\<rparr>"

record memory_plan_t =
  mp_memory_pages :: u32
  mp_stack_top :: u32
  mp_heap_base :: u32
  mp_heap_limit :: u32

definition heap_data_end :: "u32 \<Rightarrow> bool \<Rightarrow> u32" where
  "heap_data_end mem has_heap = (if has_heap \<and> mem < 8 * 1024 * 1024 then 8 * 1024 * 1024 else mem)"

definition required_pages :: "nat \<Rightarrow> nat" where
  "required_pages required_bytes = (required_bytes + 65535) div 65536"

definition memory_pages_needed :: "linker_options_t \<Rightarrow> nat \<Rightarrow> u32" where
  "memory_pages_needed options required_bytes =
    (let required = of_nat (required_pages required_bytes)
     in if required > op_initial_memory_pages options then required
        else op_initial_memory_pages options)"

definition plan_memory :: "linker_options_t \<Rightarrow> u32 \<Rightarrow> bool \<Rightarrow> memory_plan_t outcome" where
  "plan_memory options mem has_heap =
    (let data_end = heap_data_end mem has_heap;
         required_bytes = unat data_end + unat (op_stack_size options)
     in if required_bytes > UINT32_MAX then Refused
        else
          let pages = memory_pages_needed options required_bytes
          in if pages > 65535 then Refused
             else if has_option options LINK_OPT_MAX_MEMORY \<and> pages > op_maximum_memory_pages options
             then Refused
             else
               let stack_top = pages * 65536
               in outcome_bind (or_refuse (align_to_u32_checked data_end 16)) (\<lambda>heap_base.
                    let heap_limit = stack_top - op_stack_size options
                    in if heap_base > heap_limit then Refused
                       else Value \<lparr>mp_memory_pages = pages, mp_stack_top = stack_top,
                                   mp_heap_base = heap_base, mp_heap_limit = heap_limit\<rparr>))"

text \<open>The values the linker writes into the data of the runtime, eight bytes little-endian.\<close>

definition has_runtime_layout_value :: "(nat \<times> nat) list \<Rightarrow> object_t list \<Rightarrow> u8 list \<Rightarrow> bool" where
  "has_runtime_layout_value datas objs name =
    list_ex (\<lambda>p. ld_name (data_at objs p) = Some name) datas"

definition u64le :: "u32 \<Rightarrow> u8 list" where
  "u64le v = map (\<lambda>byte. ucast (drop_bit (8 * byte) (ucast v :: i64))) [0..<8]"

definition patch_runtime_layout_value ::
  "(nat \<times> nat) list \<Rightarrow> u8 list \<Rightarrow> u32 \<Rightarrow> object_t list \<Rightarrow> object_t list outcome" where
  "patch_runtime_layout_value datas name v objs =
    (case List.find (\<lambda>p. ld_name (data_at objs p) = Some name) datas of
       None \<Rightarrow> Value objs
     | Some p \<Rightarrow>
         let d = data_at objs p
         in if length (ld_bytes d) < 8 then Refused
            else Value (set_data p (d\<lparr>ld_bytes := u64le v @ drop 8 (ld_bytes d)\<rparr>) objs))"

section \<open>The layout is sound\<close>

lemma checked_add_u32_Some:
  "checked_add_u32 a b = Some c \<Longrightarrow> unat c = unat a + unat b"
proof -
  assume h: "checked_add_u32 a b = Some c"
  then have b: "b \<le> - 1 - a" and c: "c = a + b"
    by (auto simp: checked_add_u32_def split: if_splits)
  have "unat (- 1 :: u32) = 4294967295"
    by (simp add: unsigned_minus_1_eq_mask mask_eq_exp_minus_1)
  then have "unat (- 1 - a) = 4294967295 - unat a"
    using unat_sub [of a "- 1"] by (simp add: word_order.extremum)
  then have "unat a + unat b < 2 ^ 32"
    using b unsigned_less [of a, where ?'a = nat] by (simp add: word_le_nat_alt)
  then show "unat c = unat a + unat b" using c by (simp add: unat_add_lem [symmetric])
qed

lemma align_to_u32_checked_Some:
  assumes "align_to_u32_checked v a = Some w" "0 < a"
  shows "unat v \<le> unat w" "unat a dvd unat w" "unat w < unat v + unat a"
proof -
  have *: "unat v \<le> unat w \<and> unat a dvd unat w \<and> unat w < unat v + unat a"
  proof (cases "a \<le> 1")
    case True
    then have "a = 1" using assms(2) by (metis word_le_less_eq word_less_1 less_irrefl)
    then show ?thesis using assms(1) by (simp add: align_to_u32_checked_def)
  next
    case False
    let ?r = "unat v mod unat a"
    have a: "0 < unat a" using assms(2) by (simp add: word_less_nat_alt)
    have r: "unat (v mod a) = ?r" by (simp add: unat_mod_distrib)
    show ?thesis
    proof (cases "v mod a = 0")
      case True
      then have "unat a dvd unat v" using r by (simp add: dvd_eq_mod_eq_0)
      then show ?thesis using assms(1) False True a by (simp add: align_to_u32_checked_def)
    next
      case rem: False
      have "v mod a \<le> a"
        using r mod_less_divisor [OF a, of "unat v"] by (simp add: word_le_nat_alt)
      then have "unat (a - v mod a) = unat a - ?r" using r by (simp add: unat_sub)
      moreover have "checked_add_u32 v (a - v mod a) = Some w"
        using assms(1) False rem by (simp add: align_to_u32_checked_def Let_def)
      ultimately have w: "unat w = unat v + (unat a - ?r)" using checked_add_u32_Some by metis
      have "?r < unat a" using a by simp
      moreover have "0 < ?r" using rem r by (metis gr0I unat_eq_zero)
      moreover have "unat w = unat v - ?r + unat a" using w \<open>?r < unat a\<close> by simp
      moreover have "unat a dvd unat v - ?r" by (simp add: dvd_minus_mod)
      ultimately show ?thesis using w by (metis dvd_add dvd_refl le_add1 add_strict_left_mono diff_less a)
    qed
  qed
  then show "unat v \<le> unat w" "unat a dvd unat w" "unat w < unat v + unat a" by auto
qed

lemma segment_alignment_pos: "0 < segment_alignment d"
proof -
  have "n < 31 \<Longrightarrow> (0 :: u32) < push_bit n 1" for n :: nat
    by (simp add: word_neq_0_conv [symmetric] push_bit_eq_0_iff flip: take_bit_eq_mod)
  then show ?thesis by (auto simp: segment_alignment_def nat_less_iff)
qed

text \<open>
  The memory between the bounds and behind the data: the stack ends at the end of the memory, the
  heap lies between the data and the stack, and none of the 32-bit computations wraps.
\<close>

lemma memory_plan_sound:
  assumes "plan_memory options mem has_heap = Value p"
  shows "unat (mp_stack_top p) = 65536 * unat (mp_memory_pages p) \<and>
    unat (mp_heap_limit p) + unat (op_stack_size options) = unat (mp_stack_top p) \<and>
    unat mem \<le> unat (mp_heap_base p) \<and> 16 dvd unat (mp_heap_base p) \<and>
    unat (mp_heap_base p) \<le> unat (mp_heap_limit p) \<and>
    op_initial_memory_pages options \<le> mp_memory_pages p \<and>
    (if has_option options LINK_OPT_MAX_MEMORY
     then mp_memory_pages p \<le> op_maximum_memory_pages options else True)"
proof -
  let ?e = "heap_data_end mem has_heap"
  let ?r = "unat ?e + unat (op_stack_size options)"
  let ?p = "memory_pages_needed options ?r"
  have r: "?r \<le> UINT32_MAX" and pages: "?p \<le> 65535" "mp_memory_pages p = ?p"
    and opt: "\<not> (has_option options LINK_OPT_MAX_MEMORY \<and> ?p > op_maximum_memory_pages options)"
    and top: "mp_stack_top p = ?p * 65536"
    and base: "align_to_u32_checked ?e 16 = Some (mp_heap_base p)"
    and limit: "mp_heap_limit p = mp_stack_top p - op_stack_size options"
    and le: "mp_heap_base p \<le> mp_heap_limit p"
    using assms unfolding plan_memory_def Let_def
    by (auto elim!: outcome_bind_ValueE split: if_splits option.splits simp: or_refuse_def)
  have "required_pages ?r \<le> 65536" using r by (simp add: required_pages_def)
  then have "unat (of_nat (required_pages ?r) :: u32) = required_pages ?r"
    by (simp add: unsigned_of_nat take_bit_nat_eq_self)
  moreover have "of_nat (required_pages ?r) \<le> ?p" by (auto simp: memory_pages_needed_def Let_def)
  ultimately have "required_pages ?r \<le> unat ?p" by (metis word_le_nat_alt)
  moreover have "?r \<le> 65536 * required_pages ?r"
    using div_mult_mod_eq [of "?r + 65535" 65536] mod_less_divisor [of 65536 "?r + 65535"]
    unfolding required_pages_def by linarith
  ultimately have fits: "?r \<le> 65536 * unat ?p" by linarith
  have "unat ?p \<le> 65535" using pages(1) by (simp add: word_le_nat_alt)
  then have S: "unat (mp_stack_top p) = 65536 * unat ?p"
    unfolding top by (simp add: unat_word_ariths)
  have "unat (mp_heap_limit p) + unat (op_stack_size options) = unat (mp_stack_top p)"
    using fits S unfolding limit by (simp add: unat_sub word_le_nat_alt)
  moreover have "unat ?e \<le> unat (mp_heap_base p)" "16 dvd unat (mp_heap_base p)"
    using align_to_u32_checked_Some [OF base] by simp_all
  moreover have "mem \<le> ?e" by (auto simp: heap_data_end_def)
  moreover have "op_initial_memory_pages options \<le> ?p"
    by (auto simp: memory_pages_needed_def Let_def)
  ultimately show ?thesis
    using S le opt by (auto simp: pages(2) word_le_nat_alt not_less)
qed

lemma data_at_set_data:
  "data_in objs p \<Longrightarrow> data_at (set_data p d objs) q = (if q = p then d else data_at objs q)"
  by (cases p; cases q) (auto simp: data_in_def data_at_def set_data_def nth_list_update)

lemma data_in_set_data [simp]: "data_in (set_data p d objs) q = data_in objs q"
  by (cases p; cases q; cases "fst p < length objs"; cases "fst p = fst q")
     (simp_all add: data_in_def set_data_def)

lemma place_segment_Value:
  assumes "place_segment p (mem, objs) = Value (mem1, objs1)"
  obtains addr where
    "objs1 = set_data p ((data_at objs p)\<lparr>ld_final_addr := addr\<rparr>) objs"
    "unat mem \<le> unat addr" "unat (segment_alignment (data_at objs p)) dvd unat addr"
    "unat mem1 = unat addr + segment_size (data_at objs p)"
proof -
  obtain addr where
      a: "align_to_u32_checked mem (segment_alignment (data_at objs p)) = Some addr"
    and s: "segment_size (data_at objs p) \<le> UINT32_MAX"
    and m: "checked_add_u32 addr (of_nat (segment_size (data_at objs p))) = Some mem1"
    and o: "objs1 = set_data p ((data_at objs p)\<lparr>ld_final_addr := addr\<rparr>) objs"
    using assms unfolding place_segment_def Let_def
    by (auto elim!: outcome_bind_ValueE split: if_splits option.splits simp: or_refuse_def)
  have "unat (of_nat (segment_size (data_at objs p)) :: u32) = segment_size (data_at objs p)"
    using s by (simp add: unsigned_of_nat take_bit_nat_eq_self)
  then show thesis
    using that [OF o] align_to_u32_checked_Some [OF a segment_alignment_pos] checked_add_u32_Some [OF m]
    by simp
qed

lemma segment_size_final [simp]: "segment_size (d\<lparr>ld_final_addr := a\<rparr>) = segment_size d"
  by (simp add: segment_size_def)

lemma segment_alignment_final [simp]:
  "segment_alignment (d\<lparr>ld_final_addr := a\<rparr>) = segment_alignment d"
  by (simp add: segment_alignment_def)

definition segment_end :: "data_seg_t \<Rightarrow> nat" where
  "segment_end d = unat (ld_final_addr d) + segment_size d"

text \<open>A segment that was placed at or above \<open>low\<close> and ends at or below \<open>high\<close>.\<close>

definition placed :: "nat \<Rightarrow> nat \<Rightarrow> data_seg_t \<Rightarrow> data_seg_t \<Rightarrow> bool" where
  "placed low high d0 d \<longleftrightarrow>
     d = d0\<lparr>ld_final_addr := ld_final_addr d\<rparr> \<and> low \<le> unat (ld_final_addr d) \<and>
     unat (segment_alignment d) dvd unat (ld_final_addr d) \<and> segment_end d \<le> high"

lemma placed_weaken: "placed l h d0 d \<Longrightarrow> l' \<le> l \<Longrightarrow> h \<le> h' \<Longrightarrow> placed l' h' d0 d"
  by (auto simp: placed_def)

lemma layout_steps:
  assumes "for_each place_segment ds (mem, objs) = Value (mem1, objs1)" "distinct ds"
    "\<forall>p \<in> set ds. data_in objs p"
  shows "unat mem \<le> unat mem1 \<and> (\<forall>q. q \<notin> set ds \<longrightarrow> data_at objs1 q = data_at objs q) \<and>
    (\<forall>p \<in> set ds. placed (unat mem) (unat mem1) (data_at objs p) (data_at objs1 p)) \<and>
    (\<forall>p \<in> set ds. \<forall>q \<in> set ds. p \<noteq> q \<longrightarrow>
       segment_end (data_at objs1 p) \<le> unat (ld_final_addr (data_at objs1 q)) \<or>
       segment_end (data_at objs1 q) \<le> unat (ld_final_addr (data_at objs1 p)))"
  using assms
proof (induction ds arbitrary: mem objs)
  case Nil
  then show ?case by simp
next
  case (Cons p ds)
  obtain mem2 objs2 where
      first: "place_segment p (mem, objs) = Value (mem2, objs2)"
    and rest: "for_each place_segment ds (mem2, objs2) = Value (mem1, objs1)"
    using Cons.prems(1) by (auto elim!: outcome_bind_ValueE)
  obtain addr where
      o2: "objs2 = set_data p ((data_at objs p)\<lparr>ld_final_addr := addr\<rparr>) objs"
    and addr: "unat mem \<le> unat addr" "unat (segment_alignment (data_at objs p)) dvd unat addr"
      "unat mem2 = unat addr + segment_size (data_at objs p)"
    by (rule place_segment_Value [OF first])
  have p: "data_in objs p" "p \<notin> set ds" using Cons.prems by simp_all
  have d2: "data_at objs2 q =
      (if q = p then (data_at objs p)\<lparr>ld_final_addr := addr\<rparr> else data_at objs q)" for q
    by (simp add: o2 data_at_set_data [OF p(1)])
  note IH = Cons.IH [OF rest]
  have ih: "unat mem2 \<le> unat mem1" "\<And>q. q \<notin> set ds \<Longrightarrow> data_at objs1 q = data_at objs2 q"
    "\<And>q. q \<in> set ds \<Longrightarrow> placed (unat mem2) (unat mem1) (data_at objs q) (data_at objs1 q)"
    "\<And>q r. q \<in> set ds \<Longrightarrow> r \<in> set ds \<Longrightarrow> q \<noteq> r \<Longrightarrow>
       segment_end (data_at objs1 q) \<le> unat (ld_final_addr (data_at objs1 r)) \<or>
       segment_end (data_at objs1 r) \<le> unat (ld_final_addr (data_at objs1 q))"
    using IH Cons.prems(2,3) p(2) by (auto simp: o2 d2 [unfolded o2] split: if_splits)
  have dp: "data_at objs1 p = (data_at objs p)\<lparr>ld_final_addr := addr\<rparr>"
    using ih(2) [OF p(2)] by (simp add: d2)
  then have ep: "segment_end (data_at objs1 p) = unat mem2"
    by (simp add: segment_end_def addr(3))
  have "placed (unat mem) (unat mem1) (data_at objs p) (data_at objs1 p)"
    using addr ih(1) ep by (simp add: placed_def dp)
  moreover have "unat mem2 \<le> unat (ld_final_addr (data_at objs1 q))" if "q \<in> set ds" for q
    using ih(3) [OF that] by (simp add: placed_def)
  moreover have mem: "unat mem \<le> unat mem2" using addr by simp
  moreover have "placed (unat mem) (unat mem1) (data_at objs q) (data_at objs1 q)" if "q \<in> set ds" for q
    using placed_weaken [OF ih(3) [OF that] mem order_refl] .
  moreover have "data_at objs1 q = data_at objs q" if "q \<notin> set (p # ds)" for q
    using that ih(2) d2 by simp
  ultimately show ?case using ih(1,4) ep by (auto simp: le_trans)
qed

lemma distinct_pairs:
  "distinct is \<Longrightarrow> (\<And>i. distinct (f i)) \<Longrightarrow> distinct (concat (map (\<lambda>i. map (\<lambda>j. (i, j)) (f i)) is))"
  by (induction "is") (auto simp: distinct_map inj_on_def)

lemma defined_data_distinct: "distinct (defined_data objs)"
  unfolding defined_data_def by (rule distinct_pairs) simp_all

lemma defined_data_in: "p \<in> set (defined_data objs) \<Longrightarrow> data_in objs p"
  by (auto simp: defined_data_def data_in_def)

text \<open>
  When the layout succeeds, every defined segment keeps its contents, starts at a multiple of its
  alignment at or above 1024 and ends at or below the end of the data, and no two segments overlap,
  counting the zero-initialised bytes behind their contents.
\<close>

lemma data_layout_disjoint:
  assumes "layout_data (defined_data objs) objs = Value (mem, objs1)"
    and "p \<in> set (defined_data objs)" "q \<in> set (defined_data objs)" "p \<noteq> q"
  shows "placed 1024 (unat mem) (data_at objs p) (data_at objs1 p) \<and>
    (segment_end (data_at objs1 p) \<le> unat (ld_final_addr (data_at objs1 q)) \<or>
     segment_end (data_at objs1 q) \<le> unat (ld_final_addr (data_at objs1 p)))"
proof -
  have "\<forall>r \<in> set (defined_data objs). data_in objs r" by (blast dest: defined_data_in)
  from layout_steps [OF assms(1) [unfolded layout_data_def] defined_data_distinct this]
  show ?thesis using assms(2-4) by auto
qed

section \<open>Values of relocations\<close>

text \<open>
  The comparisons of C signatures and the table of runtime data symbols are parameters of the
  linker, as is the signature check of functions above.
\<close>

record link_env =
  le_func_signature_matches :: signature_check
  le_data_signatures_compatible ::
    "data_signature_t option \<Rightarrow> u32 \<Rightarrow> u32 \<Rightarrow> data_signature_t option \<Rightarrow> u32 \<Rightarrow> u32 \<Rightarrow> bool"
  le_is_runtime_data_symbol :: "str_t \<Rightarrow> bool"

text \<open>The state of the linker while it patches.\<close>

record link_t =
  lk_objs :: "object_t list"
  lk_types :: "type_t list"
  lk_imports :: "final_import_t list"
  lk_globals :: "final_global_t list"
  lk_tables :: "final_table_func_t list"

definition find_data_signature :: "object_t \<Rightarrow> str_t \<Rightarrow> data_signature_t option" where
  "find_data_signature o1 name = List.find (\<lambda>d. str_eq (ds_name d) name) (lo_data_signatures o1)"

definition find_final_global :: "final_global_t list \<Rightarrow> str_t \<Rightarrow> nat option" where
  "find_final_global globals name = find_position (\<lambda>g. str_eq (fg_name g) name) 0 globals"

definition is_stack_pointer_name :: "str_t \<Rightarrow> bool" where
  "is_stack_pointer_name name = (name = Some (lit ''__stack_pointer''))"

definition default_global_init :: "str_t \<Rightarrow> u32" where
  "default_global_init name = (if name = Some (lit ''__stack_pointer'') then 65536 else 0)"

definition reloc_symbol :: "object_t \<Rightarrow> reloc_t \<Rightarrow> symbol_t option" where
  "reloc_symbol o1 r =
    (if unat (lr_symbol r) \<ge> length (lo_symbols o1) then None
     else Some (lo_symbols o1 ! unat (lr_symbol r)))"

text \<open>The first undefined function of a name, over all objects.\<close>

definition find_undefined_func :: "object_t list \<Rightarrow> str_t \<Rightarrow> (nat \<times> nat) option" where
  "find_undefined_func objs name =
    first_some
      (\<lambda>oi o1. first_some
        (\<lambda>fi f. if \<not> lf_defined f \<and> str_eq (lf_name f) name then Some (oi, fi) else None)
        0 (lo_funcs o1))
      0 objs"

definition final_func_index_for_symbol ::
  "link_env \<Rightarrow> nat \<Rightarrow> symbol_t \<Rightarrow> link_t \<Rightarrow> (int \<times> link_t) outcome" where
  "final_func_index_for_symbol env cur s st =
    (let objs = lk_objs st
     in if ls_kind s \<noteq> SYM_FUNCTION then Refused
        else if \<not> sym_undefined s then Refused
        else if \<not> index_in (ls_index s) (lo_funcs (objs ! cur)) then Refused
        else case find_defined_func objs (ls_name s) of
               Some (di, df) \<Rightarrow>
                 if le_func_signature_matches env (objs ! cur) (ls_index s) (objs ! di) (int df)
                 then Value (lf_final_index (func_at objs (di, df)), st) else Refused
             | None \<Rightarrow>
                 (case find_undefined_func objs (ls_name s) of
                    None \<Rightarrow> Refused
                  | Some (ui, uf) \<Rightarrow>
                      let ti = lf_type_index (func_at objs (ui, uf))
                      in if \<not> index_in ti (lo_types (objs ! ui)) then Undefined
                         else let (obj_type, types1) =
                                intern_type (lk_types st) (lo_types (objs ! ui) ! nat ti)
                         in case find_import (lk_imports st) (ls_name s) obj_type of
                              Some e \<Rightarrow> Value (fi_final_index (lk_imports st ! e),
                                               st\<lparr>lk_types := types1\<rparr>)
                            | None \<Rightarrow> Refused))"

definition final_func_index_for_reloc_symbol ::
  "link_env \<Rightarrow> nat \<Rightarrow> symbol_t \<Rightarrow> link_t \<Rightarrow> (int \<times> link_t) outcome" where
  "final_func_index_for_reloc_symbol env cur s st =
    (if ls_kind s \<noteq> SYM_FUNCTION then Refused
     else if sym_undefined s then final_func_index_for_symbol env cur s st
     else if \<not> index_in (ls_index s) (lo_funcs (lk_objs st ! cur)) then Refused
     else Value (lf_final_index (func_at (lk_objs st) (cur, nat (ls_index s))), st))"

definition func_for_reloc_symbol :: "object_t list \<Rightarrow> nat \<Rightarrow> symbol_t \<Rightarrow> (nat \<times> nat) outcome" where
  "func_for_reloc_symbol objs cur s =
    (if ls_kind s \<noteq> SYM_FUNCTION then Refused
     else case (if sym_undefined s then find_defined_func objs (ls_name s) else None) of
            Some p \<Rightarrow> Value p
          | None \<Rightarrow>
              if \<not> index_in (ls_index s) (lo_funcs (objs ! cur)) then Refused
              else Value (cur, nat (ls_index s)))"

definition final_data_addr_for_symbol ::
  "link_env \<Rightarrow> object_t list \<Rightarrow> nat \<Rightarrow> symbol_t \<Rightarrow> u32 \<Rightarrow> u32 outcome" where
  "final_data_addr_for_symbol env objs cur s addend =
    (if ls_kind s \<noteq> SYM_DATA then Refused
     else outcome_bind
       (if sym_undefined s then
          (case find_defined_data objs (ls_name s) of
             None \<Rightarrow> Refused
           | Some (di, ix, off) \<Rightarrow>
               if off = 0 \<and> \<not> le_is_runtime_data_symbol env (ls_name s) \<and>
                  \<not> le_data_signatures_compatible env
                      (find_data_signature (objs ! cur) (ls_name s))
                      (lo_data_signature_version (objs ! cur)) (lo_data_layout_version (objs ! cur))
                      (find_data_signature (objs ! di) (ls_name s))
                      (lo_data_signature_version (objs ! di)) (lo_data_layout_version (objs ! di))
               then Refused else Value (di, ix, off))
        else Value (cur, ls_index s, ls_data_offset s))
       (\<lambda>(di, ix, off).
         if \<not> index_in ix (lo_data (objs ! di)) \<or> \<not> ld_defined (lo_data (objs ! di) ! nat ix) then Refused
         else outcome_bind (or_refuse (checked_add_u32 (ld_final_addr (lo_data (objs ! di) ! nat ix)) off))
           (\<lambda>addr. or_refuse (checked_add_i32 addr addend))))"

text \<open>A slot of the function table, numbered from 2 on.\<close>

definition intern_table_func :: "nat \<times> nat \<Rightarrow> int \<Rightarrow> link_t \<Rightarrow> int \<times> link_t" where
  "intern_table_func p final_func_index st =
    (let f = func_at (lk_objs st) p
     in if lf_final_table_index f > 0 then (lf_final_table_index f, st)
        else case find_position (\<lambda>t. ft_final_func_index t = final_func_index) 0 (lk_tables st) of
               Some i \<Rightarrow>
                 let slot = ft_table_index (lk_tables st ! i)
                 in (slot, st\<lparr>lk_objs := set_func p (f\<lparr>lf_final_table_index := slot\<rparr>) (lk_objs st)\<rparr>)
             | None \<Rightarrow>
                 let slot = int (length (lk_tables st)) + 2
                 in (slot, st\<lparr>lk_objs := set_func p (f\<lparr>lf_final_table_index := slot\<rparr>) (lk_objs st),
                              lk_tables := lk_tables st @
                                [\<lparr>ft_obj = fst p, ft_func_index = int (snd p),
                                  ft_final_func_index = final_func_index,
                                  ft_table_index = slot\<rparr>]\<rparr>))"

definition table_index_for_symbol ::
  "link_env \<Rightarrow> nat \<Rightarrow> symbol_t \<Rightarrow> link_t \<Rightarrow> (int \<times> link_t) outcome" where
  "table_index_for_symbol env cur s st =
    outcome_bind (final_func_index_for_reloc_symbol env cur s st) (\<lambda>(final_func_index, st1).
      outcome_bind (func_for_reloc_symbol (lk_objs st1) cur s) (\<lambda>p.
        Value (intern_table_func p final_func_index st1)))"

definition global_index_for_symbol :: "symbol_t \<Rightarrow> link_t \<Rightarrow> (nat \<times> link_t) outcome" where
  "global_index_for_symbol s st =
    (if ls_kind s \<noteq> SYM_GLOBAL then Refused
     else case find_final_global (lk_globals st) (ls_name s) of
            Some gi \<Rightarrow> Value (gi, st)
          | None \<Rightarrow>
              Value (length (lk_globals st), st\<lparr>lk_globals := lk_globals st @
                [\<lparr>fg_name = ls_name s, fg_final_index = int (length (lk_globals st)),
                  fg_init_value = default_global_init (ls_name s)\<rparr>]\<rparr>))"

text \<open>The symbol of a relocation and an index computed from it, as the 32 bits to be written.\<close>

definition symbol_index ::
  "(symbol_t \<Rightarrow> link_t \<Rightarrow> (int \<times> link_t) outcome) \<Rightarrow> object_t \<Rightarrow> reloc_t \<Rightarrow> link_t \<Rightarrow>
   (u32 \<times> link_t) outcome" where
  "symbol_index f o1 r st =
    outcome_bind (or_refuse (reloc_symbol o1 r)) (\<lambda>s.
      outcome_bind (f s st) (\<lambda>(i, st1). Value (word_of_int i, st1)))"

definition function_reloc_index ::
  "link_env \<Rightarrow> nat \<Rightarrow> symbol_t \<Rightarrow> link_t \<Rightarrow> (int \<times> link_t) outcome" where
  "function_reloc_index env cur s st =
    (if sym_undefined s then final_func_index_for_symbol env cur s st
     else if \<not> index_in (ls_index s) (lo_funcs (lk_objs st ! cur)) then Refused
     else Value (lf_final_index (func_at (lk_objs st) (cur, nat (ls_index s))), st))"

definition memory_reloc_value ::
  "link_env \<Rightarrow> nat \<Rightarrow> reloc_t \<Rightarrow> link_t \<Rightarrow> (u32 \<times> link_t) outcome" where
  "memory_reloc_value env cur r st =
    outcome_bind (or_refuse (reloc_symbol (lk_objs st ! cur) r)) (\<lambda>s.
      outcome_bind (final_data_addr_for_symbol env (lk_objs st) cur s (lr_addend r)) (\<lambda>addr.
        Value (addr, st)))"

definition code_reloc_value ::
  "link_env \<Rightarrow> nat \<Rightarrow> reloc_t \<Rightarrow> link_t \<Rightarrow> (u32 \<times> link_t) outcome" where
  "code_reloc_value env cur r st =
    (let o1 = lk_objs st ! cur
     in if lr_type r = R_WASM_TYPE_INDEX_LEB then
          if unat (lr_symbol r) \<ge> length (lo_types o1) then Refused
          else Value (word_of_int (the (lo_type_map o1) ! unat (lr_symbol r)), st)
        else if lr_type r = R_WASM_FUNCTION_INDEX_LEB then
          symbol_index (function_reloc_index env cur) o1 r st
        else if lr_type r = R_WASM_TABLE_INDEX_SLEB then
          symbol_index (table_index_for_symbol env cur) o1 r st
        else if lr_type r = R_WASM_MEMORY_ADDR_LEB then memory_reloc_value env cur r st
        else if lr_type r = R_WASM_GLOBAL_INDEX_LEB then
          symbol_index (\<lambda>s st1. outcome_bind (global_index_for_symbol s st1)
            (\<lambda>(gi, st2). Value (int gi, st2))) o1 r st
        else Refused)"

definition data_reloc_value ::
  "link_env \<Rightarrow> nat \<Rightarrow> reloc_t \<Rightarrow> link_t \<Rightarrow> (u32 \<times> link_t) outcome" where
  "data_reloc_value env cur r st =
    (if lr_type r = R_WASM_MEMORY_ADDR_I32 then memory_reloc_value env cur r st
     else if lr_type r = R_WASM_TABLE_INDEX_I32 then
       symbol_index (table_index_for_symbol env cur) (lk_objs st ! cur) r st
     else Refused)"

section \<open>Patching\<close>

text \<open>
  The function body or segment a relocation points into, with the offset in it. A field of the
  code is five bytes long, one of the data four.
\<close>

definition in_span :: "u32 \<Rightarrow> nat \<Rightarrow> nat \<Rightarrow> bool" where
  "in_span offset start n = (unat offset \<ge> start \<and> unat offset < start + n)"

definition code_site :: "object_t \<Rightarrow> reloc_t \<Rightarrow> (nat \<times> nat) option" where
  "code_site o1 r =
    (case find_position
        (\<lambda>f. lf_defined f \<and> in_span (lr_offset r) (lf_code_payload_off f) (length (lf_body f)))
        0 (lo_funcs o1) of
       None \<Rightarrow> None
     | Some fi \<Rightarrow>
         let fn = lo_funcs o1 ! fi; body_off = unat (lr_offset r) - lf_code_payload_off fn
         in if body_off + 5 > length (lf_body fn) then None else Some (fi, body_off))"

definition data_site :: "object_t \<Rightarrow> reloc_t \<Rightarrow> (nat \<times> nat) option" where
  "data_site o1 r =
    (case find_position
        (\<lambda>d. ld_defined d \<and> in_span (lr_offset r) (ld_data_payload_off d) (length (ld_bytes d)))
        0 (lo_data o1) of
       None \<Rightarrow> None
     | Some di \<Rightarrow>
         let seg = lo_data o1 ! di; data_off = unat (lr_offset r) - ld_data_payload_off seg
         in if data_off + 4 > length (ld_bytes seg) then None else Some (di, data_off))"

text \<open>The bytes \<open>bs\<close> written over \<open>p\<close> from \<open>off\<close> on.\<close>

definition patch_uleb5 :: "u8 list \<Rightarrow> nat \<Rightarrow> u32 \<Rightarrow> u8 list" where
  "patch_uleb5 p off v = fold (\<lambda>i q. q[off + i := ucast (uleb5_byte v i)]) [0..<5] p"

definition patch_code :: "nat \<times> nat \<Rightarrow> nat \<Rightarrow> u32 \<Rightarrow> link_t \<Rightarrow> link_t" where
  "patch_code p off v st =
    (let f = func_at (lk_objs st) p
     in st\<lparr>lk_objs := set_func p (f\<lparr>lf_body := patch_uleb5 (lf_body f) off v\<rparr>) (lk_objs st)\<rparr>)"

definition patch_data :: "nat \<times> nat \<Rightarrow> nat \<Rightarrow> u32 \<Rightarrow> link_t \<Rightarrow> link_t" where
  "patch_data p off v st =
    (let d = data_at (lk_objs st) p
     in st\<lparr>lk_objs := set_data p (d\<lparr>ld_bytes := patch_u32le (ld_bytes d) off v\<rparr>) (lk_objs st)\<rparr>)"

definition patch_reloc :: "link_env \<Rightarrow> nat \<times> reloc_t \<Rightarrow> link_t \<Rightarrow> link_t outcome" where
  "patch_reloc env = (\<lambda>(oi, r) st.
    if lr_is_code r then
      (case code_site (lk_objs st ! oi) r of
         None \<Rightarrow> Refused
       | Some (fi, off) \<Rightarrow>
           outcome_bind (code_reloc_value env oi r st) (\<lambda>(v, st1).
             Value (patch_code (oi, fi) off v st1)))
    else
      (case data_site (lk_objs st ! oi) r of
         None \<Rightarrow> Refused
       | Some (di, off) \<Rightarrow>
           outcome_bind (data_reloc_value env oi r st) (\<lambda>(v, st1).
             Value (patch_data (oi, di) off v st1))))"

definition all_relocs :: "object_t list \<Rightarrow> (nat \<times> reloc_t) list" where
  "all_relocs objs =
    concat (map (\<lambda>oi. map (\<lambda>r. (oi, r)) (lo_relocs (objs ! oi))) [0..<length objs])"

definition patch_object_relocations :: "link_env \<Rightarrow> link_t \<Rightarrow> link_t outcome" where
  "patch_object_relocations env st = for_each (patch_reloc env) (all_relocs (lk_objs st)) st"

section \<open>What patching keeps\<close>

text \<open>
  Patching changes bytes, never a length or anything the resolution of symbols looks at; the
  globals and the function table only grow.
\<close>

definition func_mask :: "func_t \<Rightarrow> func_t" where
  "func_mask f = f\<lparr>lf_body := replicate (length (lf_body f)) 0, lf_final_table_index := 0\<rparr>"

definition data_mask :: "data_seg_t \<Rightarrow> data_seg_t" where
  "data_mask d = d\<lparr>ld_bytes := replicate (length (ld_bytes d)) 0\<rparr>"

definition obj_mask :: "object_t \<Rightarrow> object_t" where
  "obj_mask o1 = o1\<lparr>lo_funcs := map func_mask (lo_funcs o1), lo_data := map data_mask (lo_data o1)\<rparr>"

definition func_same :: "func_t \<Rightarrow> func_t \<Rightarrow> bool" where
  "func_same f g \<longleftrightarrow> func_mask f = func_mask g"

definition data_same :: "data_seg_t \<Rightarrow> data_seg_t \<Rightarrow> bool" where
  "data_same d e \<longleftrightarrow> data_mask d = data_mask e"

definition obj_same :: "object_t \<Rightarrow> object_t \<Rightarrow> bool" where
  "obj_same a b \<longleftrightarrow> obj_mask a = obj_mask b"

definition link_extends :: "link_t \<Rightarrow> link_t \<Rightarrow> bool" where
  "link_extends st st1 \<longleftrightarrow>
     list_all2 obj_same (lk_objs st) (lk_objs st1) \<and> lk_imports st1 = lk_imports st \<and>
     (\<exists>gs. lk_globals st1 = lk_globals st @ gs) \<and> (\<exists>ts. lk_tables st1 = lk_tables st @ ts)"

lemma same_refl [simp]: "func_same f f" "data_same d d" "obj_same a a"
  by (simp_all add: func_same_def data_same_def obj_same_def)

lemma obj_same_trans: "obj_same a b \<Longrightarrow> obj_same b c \<Longrightarrow> obj_same a c"
  by (simp add: obj_same_def)

lemma link_extends_refl [simp]: "link_extends st st"
  by (simp add: link_extends_def list_all2_refl)

lemma link_extends_trans: "link_extends a b \<Longrightarrow> link_extends b c \<Longrightarrow> link_extends a c"
  by (auto simp: link_extends_def intro: list_all2_trans [OF obj_same_trans])

text \<open>Fields of objects that are the same.\<close>

lemma func_same_fields:
  assumes "func_same f g"
  shows "lf_name g = lf_name f" "lf_type_index g = lf_type_index f" "lf_defined g = lf_defined f"
    "lf_code_payload_off g = lf_code_payload_off f" "lf_final_index g = lf_final_index f"
    "length (lf_body g) = length (lf_body f)"
proof -
  have *: "h (func_mask g) = h (func_mask f)" for h :: "func_t \<Rightarrow> 'a"
    using assms by (simp add: func_same_def)
  show "lf_name g = lf_name f" "lf_type_index g = lf_type_index f" "lf_defined g = lf_defined f"
      "lf_code_payload_off g = lf_code_payload_off f" "lf_final_index g = lf_final_index f"
      "length (lf_body g) = length (lf_body f)"
    using * [of lf_name] * [of lf_type_index] * [of lf_defined] * [of lf_code_payload_off]
      * [of lf_final_index] * [of "\<lambda>f. length (lf_body f)"]
    by (simp_all add: func_mask_def)
qed

lemma data_same_fields:
  assumes "data_same d e"
  shows "ld_defined e = ld_defined d" "ld_data_payload_off e = ld_data_payload_off d"
    "ld_final_addr e = ld_final_addr d" "length (ld_bytes e) = length (ld_bytes d)"
proof -
  have *: "h (data_mask e) = h (data_mask d)" for h :: "data_seg_t \<Rightarrow> 'a"
    using assms by (simp add: data_same_def)
  show "ld_defined e = ld_defined d" "ld_data_payload_off e = ld_data_payload_off d"
      "ld_final_addr e = ld_final_addr d" "length (ld_bytes e) = length (ld_bytes d)"
    using * [of ld_defined] * [of ld_data_payload_off] * [of ld_final_addr]
      * [of "\<lambda>d. length (ld_bytes d)"]
    by (simp_all add: data_mask_def)
qed

lemma map_eq_all2: "list_all2 (\<lambda>x y. f x = f y) xs ys \<longleftrightarrow> map f xs = map f ys"
  by (auto simp: list_all2_conv_all_nth list_eq_iff_nth_eq)

lemma obj_same_fields:
  assumes "obj_same a b"
  shows "lo_symbols b = lo_symbols a" "lo_types b = lo_types a" "lo_type_map b = lo_type_map a"
    "lo_relocs b = lo_relocs a" "list_all2 func_same (lo_funcs a) (lo_funcs b)"
    "list_all2 data_same (lo_data a) (lo_data b)"
proof -
  have *: "h (obj_mask b) = h (obj_mask a)" for h :: "object_t \<Rightarrow> 'a"
    using assms by (simp add: obj_same_def)
  show "lo_symbols b = lo_symbols a" "lo_types b = lo_types a" "lo_type_map b = lo_type_map a"
      "lo_relocs b = lo_relocs a"
    using * [of lo_symbols] * [of lo_types] * [of lo_type_map] * [of lo_relocs]
    by (simp_all add: obj_mask_def)
  show "list_all2 func_same (lo_funcs a) (lo_funcs b)" "list_all2 data_same (lo_data a) (lo_data b)"
    using * [of lo_funcs] * [of lo_data]
    by (simp_all add: obj_mask_def func_same_def [abs_def] data_same_def [abs_def] map_eq_all2)
qed

lemma obj_same_lengths:
  assumes "obj_same a b"
  shows "length (lo_funcs b) = length (lo_funcs a)" "length (lo_data b) = length (lo_data a)"
  using obj_same_fields(5,6) [OF assms] by (simp_all add: list_all2_lengthD)

lemma obj_same_func: "obj_same a b \<Longrightarrow> i < length (lo_funcs a) \<Longrightarrow> func_same (lo_funcs a ! i) (lo_funcs b ! i)"
  by (blast dest: obj_same_fields list_all2_nthD)

lemma obj_same_data: "obj_same a b \<Longrightarrow> i < length (lo_data a) \<Longrightarrow> data_same (lo_data a ! i) (lo_data b ! i)"
  by (blast dest: obj_same_fields list_all2_nthD)

lemma find_position_same:
  "list_all2 R xs ys \<Longrightarrow> (\<And>x y. R x y \<Longrightarrow> P x = Q y) \<Longrightarrow> find_position P n xs = find_position Q n ys"
  by (induction xs ys arbitrary: n rule: list_all2_induct) auto

lemma first_some_same:
  "list_all2 R xs ys \<Longrightarrow> (\<And>i x y. R x y \<Longrightarrow> f i x = g i y) \<Longrightarrow> first_some f n xs = first_some g n ys"
  by (induction xs ys arbitrary: n rule: list_all2_induct) (auto split: option.splits)

lemma find_defined_func_same:
  assumes "list_all2 obj_same objs objs1"
  shows "find_defined_func objs1 name = find_defined_func objs name"
  unfolding find_defined_func_def
proof (rule first_some_same [symmetric, OF assms], rule first_some_same [where R = func_same])
  fix i a b j f g
  assume "obj_same a b"
  then show "list_all2 func_same (lo_funcs a) (lo_funcs b)" by (rule obj_same_fields)
  assume "func_same f g"
  then show "(if defines_func name a j f then Some (i, j) else None) =
      (if defines_func name b j g then Some (i, j) else None)"
    using \<open>obj_same a b\<close> func_same_fields [OF \<open>func_same f g\<close>]
    by (simp add: defines_func_def function_symbol_def obj_same_fields split: option.split)
qed

lemma find_defined_data_same:
  assumes "list_all2 obj_same objs objs1"
  shows "find_defined_data objs1 name = find_defined_data objs name"
  unfolding find_defined_data_def
  by (rule first_some_same [symmetric, OF assms]) (simp add: obj_same_fields)

lemma code_site_same: "obj_same a b \<Longrightarrow> code_site b r = code_site a r"
proof -
  assume ab: "obj_same a b"
  have "find_position (\<lambda>f. lf_defined f \<and> in_span (lr_offset r) (lf_code_payload_off f) (length (lf_body f)))
      0 (lo_funcs a) =
    find_position (\<lambda>f. lf_defined f \<and> in_span (lr_offset r) (lf_code_payload_off f) (length (lf_body f)))
      0 (lo_funcs b)"
    using ab by (intro find_position_same [where R = func_same])
      (auto simp: func_same_fields intro: obj_same_fields)
  then show ?thesis
    using ab unfolding code_site_def
    by (auto simp: Let_def func_same_fields [OF obj_same_func [OF ab]] obj_same_lengths [OF ab]
        dest!: find_position_0 split: option.splits)
qed

lemma data_site_same: "obj_same a b \<Longrightarrow> data_site b r = data_site a r"
proof -
  assume ab: "obj_same a b"
  have "find_position (\<lambda>d. ld_defined d \<and> in_span (lr_offset r) (ld_data_payload_off d) (length (ld_bytes d)))
      0 (lo_data a) =
    find_position (\<lambda>d. ld_defined d \<and> in_span (lr_offset r) (ld_data_payload_off d) (length (ld_bytes d)))
      0 (lo_data b)"
    using ab by (intro find_position_same [where R = data_same])
      (auto simp: data_same_fields intro: obj_same_fields)
  then show ?thesis
    using ab unfolding data_site_def
    by (auto simp: Let_def data_same_fields [OF obj_same_data [OF ab]] obj_same_lengths [OF ab]
        dest!: find_position_0 split: option.splits)
qed

section \<open>Imports are complete\<close>

lemma for_each_reaches:
  assumes run: "for_each f xs s = Value t" and inv: "Inv s"
    and step: "\<And>x s t. x \<in> set xs \<Longrightarrow> Inv s \<Longrightarrow> f x s = Value t \<Longrightarrow> Inv t \<and> R s t \<and> Q x t"
    and refl: "\<And>s. R s s" and trans: "\<And>s t u. R s t \<Longrightarrow> R t u \<Longrightarrow> R s u"
    and stable: "\<And>x s t. Q x s \<Longrightarrow> R s t \<Longrightarrow> Q x t"
  shows "Inv t \<and> R s t \<and> (\<forall>x \<in> set xs. Q x t)"
  using run inv step
proof (induction xs arbitrary: s)
  case Nil
  then show ?case using refl by simp
next
  case (Cons x xs)
  obtain u where u: "f x s = Value u" "for_each f xs u = Value t"
    using Cons.prems(1) by (auto elim!: outcome_bind_ValueE)
  have x: "Inv u \<and> R s u \<and> Q x u" using Cons.prems(3) [OF _ Cons.prems(2) u(1)] by simp
  have "Inv t \<and> R u t \<and> (\<forall>y \<in> set xs. Q y t)"
  proof (rule Cons.IH [OF u(2)])
    show "Inv u" using x by blast
    show "Inv w \<and> R v w \<and> Q y w" if "y \<in> set xs" "Inv v" "f y v = Value w" for y v w
      using Cons.prems(3) [OF _ that(2,3)] that(1) by simp
  qed
  then show ?case using x trans stable by auto
qed

lemma intern_type_extends:
  assumes "intern_type types t = (i, types1)"
  obtains ts where "types1 = types @ ts" "0 \<le> i" "nat i < length types1" "types1 ! nat i = t"
proof (cases "find_position (\<lambda>u. type_equal u t) 0 types")
  case None
  then show thesis using assms that [of "[t]"] by (auto simp: intern_type_def)
next
  case (Some k)
  then show thesis using assms that [of "[]"] find_position_0 [OF Some] by (auto simp: intern_type_def)
qed

text \<open>
  The imports collected so far: one for each name, numbered in order, each with a shared type.
\<close>

definition imports_ok :: "final_import_t list \<times> type_t list \<Rightarrow> bool" where
  "imports_ok = (\<lambda>(imports, types).
     distinct (map fi_name imports) \<and>
     (\<forall>e < length imports. fi_name (imports ! e) \<noteq> None \<and> fi_final_index (imports ! e) = int e \<and>
        0 \<le> fi_type_index (imports ! e) \<and> nat (fi_type_index (imports ! e)) < length types))"

definition imports_grow ::
  "final_import_t list \<times> type_t list \<Rightarrow> final_import_t list \<times> type_t list \<Rightarrow> bool" where
  "imports_grow s t \<longleftrightarrow> (\<exists>is ts. t = (fst s @ is, snd s @ ts))"

text \<open>A name is among the imports, at the given function type.\<close>

definition imported :: "str_t \<Rightarrow> type_t \<Rightarrow> final_import_t list \<times> type_t list \<Rightarrow> bool" where
  "imported name t = (\<lambda>(imports, types).
     \<exists>e < length imports. fi_name (imports ! e) = name \<and>
       0 \<le> fi_type_index (imports ! e) \<and> nat (fi_type_index (imports ! e)) < length types \<and>
       types ! nat (fi_type_index (imports ! e)) = t)"

lemma imports_grow_refl: "imports_grow s s"
  by (cases s) (auto simp: imports_grow_def intro!: exI [of _ "[]"])

lemma imports_grow_trans: "imports_grow s t \<Longrightarrow> imports_grow t u \<Longrightarrow> imports_grow s u"
  by (auto simp: imports_grow_def)

lemma imported_grow: "imported name t s \<Longrightarrow> imports_grow s u \<Longrightarrow> imported name t u"
  by (cases s) (fastforce simp: imported_def imports_grow_def nth_append)

lemma import_symbol_step:
  assumes v: "import_symbol sigm objs oi s (imports, types) = Value (imports1, types1)"
    and ok: "imports_ok (imports, types)" and name: "ls_name s \<noteq> None"
  shows "imports_ok (imports1, types1)" "imports_grow (imports, types) (imports1, types1)"
    "imported (ls_name s) (lo_types (objs ! oi) ! nat (lf_type_index (lo_funcs (objs ! oi) ! nat (ls_index s))))
       (imports1, types1)"
proof -
  let ?ti = "lf_type_index (lo_funcs (objs ! oi) ! nat (ls_index s))"
  let ?t = "lo_types (objs ! oi) ! nat ?ti"
  obtain i where it: "intern_type types ?t = (i, types1)"
    using v by (auto simp: import_symbol_def Let_def split: if_splits prod.splits option.splits)
  obtain ts where ts: "types1 = types @ ts" and i: "0 \<le> i" "nat i < length types1" "types1 ! nat i = ?t"
    by (rule intern_type_extends [OF it])
  have old: "imports_ok (imports, types1)" using ok ts by (auto simp: imports_ok_def)
  have *: "imports_ok (imports1, types1) \<and> imports_grow (imports, types) (imports1, types1) \<and>
      imported (ls_name s) ?t (imports1, types1)"
  proof (cases "find_import imports (ls_name s) i")
    case (Some e)
    have e: "e < length imports" "fi_type_index (imports ! e) = i" "fi_name (imports ! e) = ls_name s"
      using Some by (auto simp: find_import_def str_eq_iff dest!: find_position_0)
    have "imports1 = imports"
      using v it Some by (auto simp: import_symbol_def Let_def split: if_splits)
    then show ?thesis
      using old e i ts by (auto simp: imports_grow_def imported_def)
  next
    case None
    have no: "find_import_by_name imports (ls_name s) = None"
    proof (rule ccontr)
      assume "find_import_by_name imports (ls_name s) \<noteq> None"
      then obtain e where e: "find_import_by_name imports (ls_name s) = Some e" by auto
      then have "e < length imports" "str_eq (fi_name (imports ! e)) (ls_name s)"
        by (auto simp: find_import_by_name_def dest!: find_position_0)
      moreover have "fi_type_index (imports ! e) = i"
        using v it None e by (auto simp: import_symbol_def Let_def split: if_splits)
      ultimately show False
        using None by (auto simp: find_import_def find_position_None)
    qed
    let ?n = "new_import oi s i imports"
    have 1: "imports1 = imports @ [?n]"
      using v it None no by (auto simp: import_symbol_def Let_def split: if_splits)
    have "ls_name s \<notin> set (map fi_name imports)"
      using no name by (auto simp: find_import_by_name_def find_position_None str_eq_iff)
    then have "imports_ok (imports1, types1)"
      using old name i by (auto simp: imports_ok_def 1 nth_append new_import_def less_Suc_eq)
    moreover have "imported (ls_name s) ?t (imports1, types1)"
      using i by (auto simp: imported_def 1 new_import_def intro!: exI [of _ "length imports"])
    moreover have "imports_grow (imports, types) (imports1, types1)"
      using 1 ts by (auto simp: imports_grow_def)
    ultimately show ?thesis by simp
  qed
  then show "imports_ok (imports1, types1)" "imports_grow (imports, types) (imports1, types1)"
    "imported (ls_name s) ?t (imports1, types1)" by auto
qed

text \<open>A reference that no object defines.\<close>

definition needs_import :: "object_t list \<Rightarrow> nat \<times> symbol_t \<Rightarrow> bool" where
  "needs_import objs = (\<lambda>(oi, s).
     ls_kind s = SYM_FUNCTION \<and> sym_undefined s \<and> find_defined_func objs (ls_name s) = None)"

definition referenced_type :: "object_t list \<Rightarrow> nat \<times> symbol_t \<Rightarrow> type_t" where
  "referenced_type objs = (\<lambda>(oi, s).
     lo_types (objs ! oi) ! nat (lf_type_index (lo_funcs (objs ! oi) ! nat (ls_index s))))"

lemma imports_collected:
  assumes run: "add_unresolved_function_imports sigm objs ([], types) = Value (imports, types1)"
    and named: "\<forall>x \<in> set (all_symbols objs). ls_name (snd x) \<noteq> None"
  shows "imports_ok (imports, types1) \<and> imports_grow ([], types) (imports, types1) \<and>
    (\<forall>x \<in> set (all_symbols objs). needs_import objs x \<longrightarrow>
       imported (ls_name (snd x)) (referenced_type objs x) (imports, types1))"
proof -
  let ?Q = "\<lambda>x t. needs_import objs x \<longrightarrow> imported (ls_name (snd x)) (referenced_type objs x) t"
  have step: "imports_ok t \<and> imports_grow s t \<and> ?Q x t"
    if x: "x \<in> set (all_symbols objs)" and ok: "imports_ok s"
      and f: "(\<lambda>(oi, s). add_unresolved_symbol sigm objs oi s) x s = Value t" for x s t
  proof -
    obtain oi sy where xs: "x = (oi, sy)" by (cases x)
    obtain a b where s: "s = (a, b)" by (cases s)
    obtain c d where t: "t = (c, d)" by (cases t)
    have "t = s \<and> \<not> needs_import objs x \<or> import_symbol sigm objs oi sy s = Value t"
      using f by (auto simp: add_unresolved_symbol_def needs_import_def xs split: if_splits option.splits)
    then show ?thesis
      using import_symbol_step [of sigm objs oi sy a b c d] ok named x imports_grow_refl
      by (auto simp: xs s t referenced_type_def)
  qed
  show ?thesis
  proof (rule for_each_reaches [OF run [unfolded add_unresolved_function_imports_def]])
    show "imports_ok ([], types)" by (simp add: imports_ok_def)
  qed (use step imports_grow_refl imports_grow_trans imported_grow in \<open>blast+\<close>)
qed

text \<open>
  C39. When the imports are collected, every function that is used and not defined is imported once, at
  the type its user declares; two objects that declare different types are refused.
\<close>

theorem imports_complete:
  assumes run: "add_unresolved_function_imports sigm objs ([], types) = Value (imports, types1)"
    and named: "\<forall>x \<in> set (all_symbols objs). ls_name (snd x) \<noteq> None"
    and x: "x \<in> set (all_symbols objs)" "needs_import objs x"
  shows "distinct (map fi_name imports) \<and> imported (ls_name (snd x)) (referenced_type objs x) (imports, types1)"
  using imports_collected [OF run named] x by (simp add: imports_ok_def)

lemma imports_complete_witness:
  "imported (Some [102]) [0x60, 0, 0]
    ([\<lparr>fi_obj = 0, fi_func_index = 0, fi_name = Some [102], fi_type_index = 0, fi_final_index = 0\<rparr>],
     [[0x60, 0, 0]])"
proof -
  let ?s = "zero_symbol\<lparr>ls_flags := 0x10, ls_name := Some [102]\<rparr>"
  let ?objs = "[zero_object\<lparr>lo_types := [[0x60, 0, 0]], lo_funcs := [zero_func], lo_symbols := [?s]\<rparr>]"
  have "add_unresolved_function_imports (\<lambda>_ _ _ _. True) ?objs ([], []) =
      Value ([\<lparr>fi_obj = 0, fi_func_index = 0, fi_name = Some [102], fi_type_index = 0,
        fi_final_index = 0\<rparr>], [[0x60, 0, 0]])"
    by code_simp
  moreover have a: "all_symbols ?objs = [(0, ?s)]" by code_simp
  moreover have "needs_import ?objs (0, ?s)" by code_simp
  ultimately show ?thesis
    using imports_complete [of "\<lambda>_ _ _ _. True" ?objs "[]" _ _ "(0, ?s)"]
    by (simp add: referenced_type_def) (simp add: zero_object_def zero_func_def zero_symbol_def)
qed

end
