(* ===== verification/LinkReloc.thy ===== *)
theory LinkReloc
  imports LinkModule
begin

text \<open>
  The relocations of the Wasm linker, \<^verbatim>\<open>tools/wasm_obj_linker/ag_wasm_link.c\<close>: what the field of a
  relocation denotes in the linked module, and that patching (\<^verbatim>\<open>patch_object_relocations\<close>) makes
  every field read back as what it denotes.
\<close>

section \<open>What a relocation denotes\<close>

text \<open>
  The function a symbol refers to, its index in the linked module, and the slots of the function
  table. A function that no object defines is named by its import.
\<close>

definition func_final :: "link_t \<Rightarrow> nat \<times> nat \<Rightarrow> int" where
  "func_final st p =
    (let f = func_at (lk_objs st) p
     in if lf_defined f then lf_final_index f
        else case find_import_by_name (lk_imports st) (lf_name f) of
               Some e \<Rightarrow> fi_final_index (lk_imports st ! e)
             | None \<Rightarrow> 0)"

definition symbol_func :: "link_t \<Rightarrow> nat \<Rightarrow> reloc_t \<Rightarrow> nat \<times> nat \<Rightarrow> bool" where
  "symbol_func st oi r p \<longleftrightarrow>
     (\<exists>s. reloc_symbol (lk_objs st ! oi) r = Some s \<and>
          func_for_reloc_symbol (lk_objs st) oi s = Value p)"

text \<open>
  The slot of a function: the \<^verbatim>\<open>table_index\<close> of its entry, which is also the place the element
  section, whose first slot is 2, gives the entry.
\<close>

definition table_slot :: "link_t \<Rightarrow> int \<Rightarrow> int \<Rightarrow> bool" where
  "table_slot st slot i \<longleftrightarrow>
     (\<exists>k < length (lk_tables st). slot = int k + 2 \<and> ft_table_index (lk_tables st ! k) = slot \<and>
        ft_final_func_index (lk_tables st ! k) = i)"

text \<open>The address of a data symbol with an addend, as a number.\<close>

definition data_place :: "object_t list \<Rightarrow> nat \<Rightarrow> symbol_t \<Rightarrow> (nat \<times> int \<times> u32) option" where
  "data_place objs oi s =
    (if sym_undefined s then find_defined_data objs (ls_name s)
     else Some (oi, ls_index s, ls_data_offset s))"

definition data_address :: "object_t list \<Rightarrow> nat \<Rightarrow> symbol_t \<Rightarrow> u32 \<Rightarrow> int \<Rightarrow> bool" where
  "data_address objs oi s addend a \<longleftrightarrow>
     (\<exists>di ix off. data_place objs oi s = Some (di, ix, off) \<and> index_in ix (lo_data (objs ! di)) \<and>
        a = int (unat (ld_final_addr (lo_data (objs ! di) ! nat ix))) + int (unat off) + sint addend)"

definition reloc_denotes :: "link_t \<Rightarrow> nat \<Rightarrow> reloc_t \<Rightarrow> u32 \<Rightarrow> bool" where
  "reloc_denotes st oi r v \<longleftrightarrow>
     (let o1 = lk_objs st ! oi; t = lr_type r
      in if t = R_WASM_TYPE_INDEX_LEB then
           v = word_of_int (the (lo_type_map o1) ! unat (lr_symbol r))
         else if t = R_WASM_FUNCTION_INDEX_LEB then
           \<exists>p. symbol_func st oi r p \<and> v = word_of_int (func_final st p)
         else if t = R_WASM_TABLE_INDEX_SLEB \<or> t = R_WASM_TABLE_INDEX_I32 then
           \<exists>p slot. symbol_func st oi r p \<and> table_slot st slot (func_final st p) \<and>
             v = word_of_int slot
         else if t = R_WASM_MEMORY_ADDR_LEB \<or> t = R_WASM_MEMORY_ADDR_I32 then
           \<exists>s. reloc_symbol o1 r = Some s \<and>
             data_address (lk_objs st) oi s (lr_addend r) (int (unat v))
         else
           \<exists>s k. reloc_symbol o1 r = Some s \<and> k < length (lk_globals st) \<and>
             fg_name (lk_globals st ! k) = ls_name s \<and> v = word_of_int (int k))"

text \<open>
  What the compiler promises of its objects: the symbol table agrees with the functions, imported
  functions carry the names of their symbols, and a function index is asked of a function symbol
  only, which the linker does not check for symbols that are defined.
\<close>

definition import_names_ok :: "object_t \<Rightarrow> bool" where
  "import_names_ok o1 =
    list_all (\<lambda>s. ls_kind s = SYM_FUNCTION \<and> sym_undefined s \<longrightarrow>
        ls_name s = lf_name (lo_funcs o1 ! nat (ls_index s))) (lo_symbols o1)"

definition function_relocs_ok :: "object_t \<Rightarrow> bool" where
  "function_relocs_ok o1 =
    list_all (\<lambda>r. lr_type r = R_WASM_FUNCTION_INDEX_LEB \<longrightarrow>
        (case reloc_symbol o1 r of None \<Rightarrow> True | Some s \<Rightarrow> ls_kind s = SYM_FUNCTION)) (lo_relocs o1)"

definition object_ok :: "object_t \<Rightarrow> bool" where
  "object_ok o1 = (symbols_consistent o1 \<and> import_names_ok o1 \<and> function_relocs_ok o1)"

text \<open>
  The invariant of the table: slots are numbered from 2 on, no function has two of them, and
  the slot a function remembers is its own.
\<close>

definition tables_ok :: "link_t \<Rightarrow> bool" where
  "tables_ok st \<longleftrightarrow>
     (\<forall>k < length (lk_tables st). ft_table_index (lk_tables st ! k) = int k + 2) \<and>
     distinct (map ft_final_func_index (lk_tables st)) \<and>
     (\<forall>p. func_in (lk_objs st) p \<longrightarrow> lf_final_table_index (func_at (lk_objs st) p) > 0 \<longrightarrow>
        table_slot st (lf_final_table_index (func_at (lk_objs st) p)) (func_final st p))"

definition link_ok :: "link_t \<Rightarrow> bool" where
  "link_ok st \<longleftrightarrow>
     list_all object_ok (lk_objs st) \<and> distinct (map fi_name (lk_imports st)) \<and> tables_ok st"

section \<open>Denotations do not change\<close>

lemma link_extends_objs:
  "link_extends st st1 \<Longrightarrow> list_all2 obj_same (lk_objs st) (lk_objs st1)"
  by (simp add: link_extends_def)

lemma link_extends_obj:
  "link_extends st st1 \<Longrightarrow> oi < length (lk_objs st) \<Longrightarrow> obj_same (lk_objs st ! oi) (lk_objs st1 ! oi)"
  by (simp add: link_extends_def list_all2_nthD)

lemma link_extends_length: "link_extends st st1 \<Longrightarrow> length (lk_objs st1) = length (lk_objs st)"
  by (auto simp: link_extends_def dest: list_all2_lengthD)

lemma link_extends_func:
  "link_extends st st1 \<Longrightarrow> func_in (lk_objs st) p \<Longrightarrow>
   func_same (func_at (lk_objs st) p) (func_at (lk_objs st1) p)"
  by (cases p) (auto simp: func_in_def func_at_def intro: obj_same_func link_extends_obj)

lemma func_in_same: "link_extends st st1 \<Longrightarrow> func_in (lk_objs st1) p = func_in (lk_objs st) p"
  by (cases p) (auto simp: func_in_def link_extends_length obj_same_lengths [OF link_extends_obj])

lemma func_final_same:
  assumes "link_extends st st1" "func_in (lk_objs st) p"
  shows "func_final st1 p = func_final st p"
  using func_same_fields [OF link_extends_func [OF assms]] assms(1)
  by (simp add: func_final_def link_extends_def Let_def split: option.split)

lemma func_for_reloc_symbol_same:
  assumes "list_all2 obj_same objs objs1" "oi < length objs"
  shows "func_for_reloc_symbol objs1 oi s = func_for_reloc_symbol objs oi s"
  using obj_same_lengths [OF list_all2_nthD [OF assms]]
  by (auto simp: func_for_reloc_symbol_def find_defined_func_same [OF assms(1)] index_in_def
      split: option.split)

lemma func_for_reloc_symbol_in:
  assumes "func_for_reloc_symbol objs oi s = Value p" "oi < length objs"
  shows "func_in objs p"
  using assms
  by (auto simp: func_for_reloc_symbol_def func_in_def index_in_def
      dest: find_defined_func_Some split: if_splits option.splits)

lemma symbol_func_same:
  assumes "link_extends st st1" "oi < length (lk_objs st)"
  shows "symbol_func st1 oi r p = symbol_func st oi r p"
  using obj_same_fields(1) [OF link_extends_obj [OF assms]]
    func_for_reloc_symbol_same [OF link_extends_objs [OF assms(1)] assms(2)]
  by (simp add: symbol_func_def reloc_symbol_def)

lemma symbol_func_in: "symbol_func st oi r p \<Longrightarrow> oi < length (lk_objs st) \<Longrightarrow> func_in (lk_objs st) p"
  by (auto simp: symbol_func_def intro: func_for_reloc_symbol_in)

lemma table_slot_extends: "link_extends st st1 \<Longrightarrow> table_slot st slot i \<Longrightarrow> table_slot st1 slot i"
  by (auto simp: link_extends_def table_slot_def nth_append intro: exI)

lemma find_defined_data_in:
  assumes "find_defined_data objs name = Some (di, ix, off)"
  shows "di < length objs"
  using first_some_Some [OF assms [unfolded find_defined_data_def]]
  by (auto dest!: first_some_Some split: if_splits)

lemma data_address_same:
  assumes "list_all2 obj_same objs objs1" "oi < length objs" "data_address objs oi s addend a"
  shows "data_address objs1 oi s addend a"
proof -
  obtain di ix off where
      p: "data_place objs oi s = Some (di, ix, off)" and ix: "index_in ix (lo_data (objs ! di))"
    and a: "a = int (unat (ld_final_addr (lo_data (objs ! di) ! nat ix))) + int (unat off) + sint addend"
    using assms(3) by (auto simp: data_address_def)
  have di: "di < length objs"
    using p assms(2) find_defined_data_in by (auto simp: data_place_def split: if_splits)
  have s: "obj_same (objs ! di) (objs1 ! di)" using assms(1) di by (rule list_all2_nthD)
  have "nat ix < length (lo_data (objs ! di))" using ix by (auto simp: index_in_def)
  then have "ld_final_addr (lo_data (objs1 ! di) ! nat ix) = ld_final_addr (lo_data (objs ! di) ! nat ix)"
    using obj_same_data [OF s] data_same_fields(3) by blast
  moreover have "data_place objs1 oi s = Some (di, ix, off)"
    using p unfolding data_place_def find_defined_data_same [OF assms(1)] .
  moreover have "index_in ix (lo_data (objs1 ! di))"
    using ix obj_same_lengths [OF s] by (simp add: index_in_def)
  ultimately show ?thesis using a by (auto simp: data_address_def)
qed

lemma reloc_denotes_extends:
  assumes e: "link_extends st st1" and oi: "oi < length (lk_objs st)" and d: "reloc_denotes st oi r v"
  shows "reloc_denotes st1 oi r v"
proof -
  note f = obj_same_fields [OF link_extends_obj [OF e oi]]
  have sym1: "reloc_symbol (lk_objs st1 ! oi) r = reloc_symbol (lk_objs st ! oi) r"
    using f by (simp add: reloc_symbol_def)
  have fn: "symbol_func st1 oi r p \<and> func_final st1 p = func_final st p" if "symbol_func st oi r p" for p
    using that e oi by (simp add: symbol_func_same func_final_same symbol_func_in)
  have slot: "table_slot st1 slot (func_final st1 p)"
    if "symbol_func st oi r p" "table_slot st slot (func_final st p)" for p slot
    using that fn table_slot_extends [OF e] by simp
  have data: "data_address (lk_objs st1) oi s a x" if "data_address (lk_objs st) oi s a x" for s a x
    using data_address_same [OF link_extends_objs [OF e] oi that] .
  obtain gs where gs: "lk_globals st1 = lk_globals st @ gs" using e by (auto simp: link_extends_def)
  have glob: "k < length (lk_globals st1) \<and> fg_name (lk_globals st1 ! k) = fg_name (lk_globals st ! k)"
    if "k < length (lk_globals st)" for k
    using that gs by (simp add: nth_append)
  show ?thesis
    using d unfolding reloc_denotes_def Let_def f(3) sym1
    by (auto split: if_splits dest: fn intro: slot data) (use fn slot glob data in \<open>metis+\<close>)
qed

section \<open>Values denote\<close>

lemma func_at_set_func:
  "func_in objs p \<Longrightarrow> func_at (set_func p f objs) q = (if q = p then f else func_at objs q)"
  by (cases p; cases q) (auto simp: func_in_def func_at_def set_func_def nth_list_update)

lemma func_in_set_func [simp]: "func_in (set_func p f objs) q = func_in objs q"
  by (cases p; cases q; cases "fst p < length objs"; cases "fst p = fst q")
     (simp_all add: func_in_def set_func_def)

lemma data_at_set_func [simp]: "data_at (set_func p f objs) q = data_at objs q"
  by (cases p; cases q; cases "fst p < length objs"; cases "fst p = fst q")
     (simp_all add: data_at_def set_func_def not_less list_update_beyond)

lemma func_at_set_data [simp]: "func_at (set_data p d objs) q = func_at objs q"
  by (cases p; cases q; cases "fst p < length objs"; cases "fst p = fst q")
     (simp_all add: func_at_def set_data_def not_less list_update_beyond)

lemma map_update_same: "i < length xs \<Longrightarrow> f y = f (xs ! i) \<Longrightarrow> map f (xs[i := y]) = map f xs"
  by (metis list_update_id map_update)

lemma set_func_same:
  "func_in objs p \<Longrightarrow> func_same (func_at objs p) f \<Longrightarrow> list_all2 obj_same objs (set_func p f objs)"
  by (cases p)
     (auto simp: func_in_def func_at_def set_func_def list_all2_conv_all_nth nth_list_update obj_same_def
        obj_mask_def func_same_def map_update_same)

lemma set_data_same:
  "data_in objs p \<Longrightarrow> data_same (data_at objs p) d \<Longrightarrow> list_all2 obj_same objs (set_data p d objs)"
  by (cases p)
     (auto simp: data_in_def data_at_def set_data_def list_all2_conv_all_nth nth_list_update obj_same_def
        obj_mask_def data_same_def map_update_same)

text \<open>Two states hold the same bytes.\<close>

definition bytes_same :: "link_t \<Rightarrow> link_t \<Rightarrow> bool" where
  "bytes_same st st1 \<longleftrightarrow>
     (\<forall>p. lf_body (func_at (lk_objs st1) p) = lf_body (func_at (lk_objs st) p)) \<and>
     (\<forall>p. data_at (lk_objs st1) p = data_at (lk_objs st) p)"

text \<open>The names of the imports identify them.\<close>

lemma find_import_by_name_distinct:
  assumes "distinct (map fi_name imports)" "e < length imports" "str_eq (fi_name (imports ! e)) name"
  shows "find_import_by_name imports name = Some e"
proof (cases "find_import_by_name imports name")
  case None
  then show ?thesis using assms by (auto simp: find_import_by_name_def find_position_None)
next
  case (Some d)
  then have "d < length imports" "str_eq (fi_name (imports ! d)) name"
    by (auto simp: find_import_by_name_def dest: find_position_0)
  then have "d = e" using assms by (auto simp: str_eq_iff distinct_conv_nth)
  then show ?thesis using Some by simp
qed

lemma object_okD:
  assumes "object_ok o1" "s \<in> set (lo_symbols o1)" "ls_kind s = SYM_FUNCTION"
  shows "lf_defined (lo_funcs o1 ! nat (ls_index s)) = (\<not> sym_undefined s)"
    "sym_undefined s \<Longrightarrow> lf_name (lo_funcs o1 ! nat (ls_index s)) = ls_name s"
  using assms by (auto simp: object_ok_def symbols_consistent_def import_names_ok_def list_all_iff)

text \<open>The index of an undefined function symbol is the one of the function it refers to.\<close>

lemma undefined_symbol_index:
  assumes v: "final_func_index_for_symbol env oi s st = Value (i, st1)"
    and ok: "link_ok st" "oi < length (lk_objs st)" "s \<in> set (lo_symbols (lk_objs st ! oi))"
  shows "\<exists>p. func_for_reloc_symbol (lk_objs st) oi s = Value p \<and> i = func_final st p"
    "st1 = st\<lparr>lk_types := lk_types st1\<rparr>"
proof -
  have k: "ls_kind s = SYM_FUNCTION" "sym_undefined s"
    and ix: "index_in (ls_index s) (lo_funcs (lk_objs st ! oi))"
    using v by (auto simp: final_func_index_for_symbol_def Let_def split: if_splits)
  have "object_ok (lk_objs st ! oi)" using ok by (simp add: link_ok_def list_all_length)
  note s = object_okD [OF this ok(3) k(1)]
  have *: "(\<exists>p. func_for_reloc_symbol (lk_objs st) oi s = Value p \<and> i = func_final st p) \<and>
      st1 = st\<lparr>lk_types := lk_types st1\<rparr>"
  proof (cases "find_defined_func (lk_objs st) (ls_name s)")
    case (Some p)
    obtain di df where p: "p = (di, df)" by (cases p)
    have "lf_defined (func_at (lk_objs st) p)"
      using find_defined_func_Some(3) [OF Some [unfolded p]]
      by (auto simp: func_at_def p defines_func_def split: option.splits)
    then show ?thesis
      using v Some k ix
      by (auto simp: final_func_index_for_symbol_def func_for_reloc_symbol_def func_final_def Let_def p
          split: if_splits)
  next
    case None
    obtain types1 ty e where
        e: "find_import (lk_imports st) (ls_name s) ty = Some e"
      and i: "i = fi_final_index (lk_imports st ! e)" "st1 = st\<lparr>lk_types := types1\<rparr>"
      using v None k ix
      by (auto simp: final_func_index_for_symbol_def Let_def split: if_splits option.splits prod.splits)
    have "e < length (lk_imports st)" "str_eq (fi_name (lk_imports st ! e)) (ls_name s)"
      using e by (auto simp: find_import_def dest: find_position_0)
    then have "find_import_by_name (lk_imports st) (ls_name s) = Some e"
      using ok(1) by (auto simp: link_ok_def intro: find_import_by_name_distinct)
    then show ?thesis
      using None k ix s i by (simp add: func_for_reloc_symbol_def func_final_def Let_def func_at_def)
  qed
  then show "\<exists>p. func_for_reloc_symbol (lk_objs st) oi s = Value p \<and> i = func_final st p"
    "st1 = st\<lparr>lk_types := lk_types st1\<rparr>"
    by auto
qed

lemma reloc_symbol_index:
  assumes v: "final_func_index_for_reloc_symbol env oi s st = Value (i, st1)"
    and ok: "link_ok st" "oi < length (lk_objs st)" "s \<in> set (lo_symbols (lk_objs st ! oi))"
  shows "\<exists>p. func_for_reloc_symbol (lk_objs st) oi s = Value p \<and> i = func_final st p"
    "st1 = st\<lparr>lk_types := lk_types st1\<rparr>"
proof -
  have *: "(\<exists>p. func_for_reloc_symbol (lk_objs st) oi s = Value p \<and> i = func_final st p) \<and>
      st1 = st\<lparr>lk_types := lk_types st1\<rparr>"
  proof (cases "sym_undefined s")
    case True
    then have "final_func_index_for_symbol env oi s st = Value (i, st1)"
      using v by (auto simp: final_func_index_for_reloc_symbol_def split: if_splits)
    from undefined_symbol_index [OF this ok] show ?thesis by simp
  next
    case False
    have k: "ls_kind s = SYM_FUNCTION" "index_in (ls_index s) (lo_funcs (lk_objs st ! oi))"
      "i = lf_final_index (func_at (lk_objs st) (oi, nat (ls_index s)))" "st1 = st"
      using v False by (auto simp: final_func_index_for_reloc_symbol_def split: if_splits)
    have "object_ok (lk_objs st ! oi)" using ok by (simp add: link_ok_def list_all_length)
    from object_okD(1) [OF this ok(3) k(1)] show ?thesis
      using k False by (simp add: func_for_reloc_symbol_def func_final_def Let_def func_at_def)
  qed
  then show "\<exists>p. func_for_reloc_symbol (lk_objs st) oi s = Value p \<and> i = func_final st p"
    "st1 = st\<lparr>lk_types := lk_types st1\<rparr>"
    by auto
qed

lemma tables_okD:
  assumes "tables_ok st"
  shows "k < length (lk_tables st) \<Longrightarrow> ft_table_index (lk_tables st ! k) = int k + 2"
    and "distinct (map ft_final_func_index (lk_tables st))"
    and "func_in (lk_objs st) p \<Longrightarrow> lf_final_table_index (func_at (lk_objs st) p) > 0 \<Longrightarrow>
         table_slot st (lf_final_table_index (func_at (lk_objs st) p)) (func_final st p)"
  using assms unfolding tables_ok_def by blast+

text \<open>A state that differs from an earlier one in one remembered slot and perhaps a new entry.\<close>

lemma func_same_slot: "func_same f (f\<lparr>lf_final_table_index := i\<rparr>)"
  by (simp add: func_same_def func_mask_def)

lemma slot_remembered:
  assumes ok: "tables_ok st" and p: "func_in (lk_objs st) p"
    and st1: "st1 = st\<lparr>lk_objs := set_func p ((func_at (lk_objs st) p)\<lparr>lf_final_table_index := slot\<rparr>)
        (lk_objs st), lk_tables := lk_tables st @ ts\<rparr>"
    and ts: "\<And>k. k < length (lk_tables st1) \<Longrightarrow> ft_table_index (lk_tables st1 ! k) = int k + 2"
      "distinct (map ft_final_func_index (lk_tables st1))"
    and slot: "table_slot st1 slot (func_final st p)"
  shows "link_extends st st1" "tables_ok st1" "bytes_same st st1" "func_final st1 p = func_final st p"
proof -
  have o1: "list_all2 obj_same (lk_objs st) (lk_objs st1)"
    using set_func_same [OF p func_same_slot] by (simp add: st1)
  then show e: "link_extends st st1" by (simp add: link_extends_def st1)
  show "bytes_same st st1" by (simp add: bytes_same_def st1 func_at_set_func [OF p])
  have ff: "func_final st1 q = func_final st q" if "func_in (lk_objs st) q" for q
    using func_final_same [OF e that] .
  then show "func_final st1 p = func_final st p" using p by simp
  have "table_slot st1 (lf_final_table_index (func_at (lk_objs st1) q)) (func_final st1 q)"
    if q: "func_in (lk_objs st1) q" "lf_final_table_index (func_at (lk_objs st1) q) > 0" for q
  proof (cases "q = p")
    case True
    then show ?thesis using slot ff [OF p] by (simp add: st1 func_at_set_func [OF p])
  next
    case False
    have "func_in (lk_objs st) q" using q(1) by (simp add: st1)
    then show ?thesis
      using tables_okD(3) [OF ok, of q] table_slot_extends [OF e] ff q(2) False
      by (simp add: st1 func_at_set_func [OF p])
  qed
  then show "tables_ok st1" using ts by (simp add: tables_ok_def)
qed

text \<open>Looking up or adding a slot keeps the table in order and yields the slot of the function.\<close>

lemma intern_table_func_slot:
  assumes ok: "tables_ok st" and p: "func_in (lk_objs st) p"
    and v: "intern_table_func p (func_final st p) st = (slot, st1)"
  shows "link_extends st st1 \<and> tables_ok st1 \<and> bytes_same st st1 \<and> table_slot st1 slot (func_final st1 p)"
proof (cases "lf_final_table_index (func_at (lk_objs st) p) > 0")
  case True
  then show ?thesis
    using v ok tables_okD(3) [OF ok p] by (auto simp: intern_table_func_def Let_def bytes_same_def)
next
  case new: False
  let ?P = "\<lambda>t. ft_final_func_index t = func_final st p"
  show ?thesis
  proof (cases "find_position ?P 0 (lk_tables st)")
    case (Some k)
    have k: "k < length (lk_tables st)" "ft_final_func_index (lk_tables st ! k) = func_final st p"
      using find_position_0 [OF Some] by auto
    have "table_slot st slot (func_final st p)"
      using v new Some k tables_okD(1) [OF ok] by (auto simp: intern_table_func_def Let_def table_slot_def)
    then have s: "table_slot st1 slot (func_final st p)"
      using v new Some by (auto simp: intern_table_func_def Let_def table_slot_def)
    have st1: "st1 = st\<lparr>lk_objs := set_func p ((func_at (lk_objs st) p)\<lparr>lf_final_table_index := slot\<rparr>)
        (lk_objs st), lk_tables := lk_tables st @ []\<rparr>"
      using v new Some by (auto simp: intern_table_func_def Let_def)
    have "lk_tables st1 = lk_tables st" by (simp add: st1)
    then show ?thesis
      using slot_remembered [OF ok p st1 _ _ s] tables_okD(1,2) [OF ok] s by simp
  next
    case None
    let ?t = "\<lparr>ft_obj = fst p, ft_func_index = int (snd p), ft_final_func_index = func_final st p,
        ft_table_index = slot\<rparr>"
    have slot: "slot = int (length (lk_tables st)) + 2"
      using v new None by (auto simp: intern_table_func_def Let_def)
    have st1: "st1 = st\<lparr>lk_objs := set_func p ((func_at (lk_objs st) p)\<lparr>lf_final_table_index := slot\<rparr>)
        (lk_objs st), lk_tables := lk_tables st @ [?t]\<rparr>"
      using v new None by (auto simp: intern_table_func_def Let_def)
    have t: "lk_tables st1 = lk_tables st @ [?t]" by (simp add: st1)
    have s: "table_slot st1 slot (func_final st p)"
      using slot by (auto simp: table_slot_def t intro!: exI [of _ "length (lk_tables st)"])
    have "distinct (map ft_final_func_index (lk_tables st1))"
      using None tables_okD(2) [OF ok] by (auto simp: t find_position_None)
    moreover have "ft_table_index (lk_tables st1 ! k) = int k + 2" if "k < length (lk_tables st1)" for k
      using that tables_okD(1) [OF ok, of k] slot by (auto simp: t nth_append less_Suc_eq)
    ultimately show ?thesis
      using slot_remembered [OF ok p st1 _ _ s] s by simp
  qed
qed

lemma link_ok_extends:
  assumes "link_ok st" "link_extends st st1" "tables_ok st1"
  shows "link_ok st1"
proof -
  have "object_ok (lk_objs st1 ! oi)" if "oi < length (lk_objs st1)" for oi
  proof -
    have oi: "oi < length (lk_objs st)" using that link_extends_length [OF assms(2)] by simp
    have o: "object_ok (lk_objs st ! oi)" using assms(1) oi by (simp add: link_ok_def list_all_length)
    have same: "obj_same (lk_objs st ! oi) (lk_objs st1 ! oi)" by (rule link_extends_obj [OF assms(2) oi])
    note f = obj_same_fields [OF same] obj_same_lengths [OF same]
    have g: "lf_name (lo_funcs (lk_objs st1 ! oi) ! i) = lf_name (lo_funcs (lk_objs st ! oi) ! i)"
      "lf_defined (lo_funcs (lk_objs st1 ! oi) ! i) = lf_defined (lo_funcs (lk_objs st ! oi) ! i)"
      if "i < length (lo_funcs (lk_objs st ! oi))" for i
      using func_same_fields [OF obj_same_func [OF same that]] by auto
    show ?thesis
      using o g
      by (auto simp: object_ok_def symbols_consistent_def import_names_ok_def function_relocs_ok_def
          list_all_iff f index_in_def reloc_symbol_def)
  qed
  then show ?thesis using assms by (auto simp: link_ok_def list_all_length link_extends_def)
qed

text \<open>Only the list of shared types changes.\<close>

lemma types_only:
  assumes "st1 = st\<lparr>lk_types := ts\<rparr>"
  shows "link_extends st st1" "bytes_same st st1" "tables_ok st1 = tables_ok st"
    "func_final st1 p = func_final st p"
proof -
  show "link_extends st st1" "bytes_same st st1"
    by (simp_all add: assms link_extends_def bytes_same_def list_all2_refl)
  have f: "func_final st1 q = func_final st q" for q
    by (simp add: assms func_final_def Let_def split: option.split)
  then show "func_final st1 p = func_final st p" .
  show "tables_ok st1 = tables_ok st"
    unfolding tables_ok_def table_slot_def f by (simp add: assms)
qed

lemma reloc_symbol_in: "reloc_symbol o1 r = Some s \<Longrightarrow> s \<in> set (lo_symbols o1)"
  by (auto simp: reloc_symbol_def split: if_splits)

text \<open>The value of every kind of relocation denotes what it should, and leaves the bytes alone.\<close>

definition value_ok :: "link_t \<Rightarrow> nat \<Rightarrow> reloc_t \<Rightarrow> u32 \<Rightarrow> link_t \<Rightarrow> bool" where
  "value_ok st oi r v st1 \<longleftrightarrow>
     link_extends st st1 \<and> tables_ok st1 \<and> bytes_same st st1 \<and> reloc_denotes st1 oi r v"

lemma table_value_ok:
  assumes v: "symbol_index (table_index_for_symbol env oi) (lk_objs st ! oi) r st = Value (v, st2)"
    and ok: "link_ok st" "oi < length (lk_objs st)"
    and t: "lr_type r = R_WASM_TABLE_INDEX_SLEB \<or> lr_type r = R_WASM_TABLE_INDEX_I32"
  shows "value_ok st oi r v st2"
proof -
  obtain s i where s: "reloc_symbol (lk_objs st ! oi) r = Some s"
    and i: "table_index_for_symbol env oi s st = Value (i, st2)" and v: "v = word_of_int i"
    using v by (auto simp: symbol_index_def or_refuse_def elim!: outcome_bind_ValueE split: option.splits)
  obtain ff st1 p where
      ff: "final_func_index_for_reloc_symbol env oi s st = Value (ff, st1)"
    and p: "func_for_reloc_symbol (lk_objs st1) oi s = Value p"
    and it: "intern_table_func p ff st1 = (i, st2)"
    using i by (auto simp: table_index_for_symbol_def elim!: outcome_bind_ValueE)
  have st1: "st1 = st\<lparr>lk_types := lk_types st1\<rparr>"
    and q: "\<exists>q. func_for_reloc_symbol (lk_objs st) oi s = Value q \<and> ff = func_final st q"
    using reloc_symbol_index [OF ff ok reloc_symbol_in [OF s]] by auto
  have objs1: "lk_objs st1 = lk_objs st" by (subst st1) simp
  have pf: "func_for_reloc_symbol (lk_objs st) oi s = Value p" "ff = func_final st p"
    using p q by (auto simp: objs1)
  have pin: "func_in (lk_objs st) p" using func_for_reloc_symbol_in [OF pf(1) ok(2)] .
  note t1 = types_only [OF st1]
  have "link_extends st1 st2 \<and> tables_ok st2 \<and> bytes_same st1 st2 \<and> table_slot st2 i (func_final st2 p)"
    using intern_table_func_slot [of st1 p i st2] it pf pin t1 ok(1) by (simp add: objs1 link_ok_def)
  then have e: "link_extends st st2" "tables_ok st2" "bytes_same st st2" "table_slot st2 i (func_final st2 p)"
    using t1 by (auto simp: bytes_same_def intro: link_extends_trans)
  have "symbol_func st2 oi r p"
    using s pf symbol_func_same [OF e(1) ok(2)] by (auto simp: symbol_func_def)
  then have "\<exists>p slot. symbol_func st2 oi r p \<and> table_slot st2 slot (func_final st2 p) \<and>
      v = word_of_int slot"
    using e(4) v by blast
  then have "reloc_denotes st2 oi r v"
    using t by (elim disjE) (simp_all only: reloc_denotes_def Let_def, simp_all)
  then show ?thesis using e by (simp add: value_ok_def)
qed

lemma checked_add_i32_Some:
  assumes "checked_add_i32 a b = Some c"
  shows "int (unat c) = int (unat a) + sint b"
proof (cases "sint b < 0")
  case True
  have b: "- sint b < 2 ^ 32" using sint_ge [of b] by simp
  have *: "0 \<le> n \<Longrightarrow> n < 2 ^ 32 \<Longrightarrow> int (unat (word_of_int n :: u32)) = n" for n
    by (simp add: unsigned_of_int take_bit_int_eq_self)
  have u: "int (unat (word_of_int (- sint b) :: u32)) = - sint b"
    using True b by (intro *) linarith+
  have "word_of_int (- sint b) \<le> a \<and> c = a - word_of_int (- sint b)"
    using assms True unfolding checked_add_i32_def Let_def
    by (auto simp only: if_True not_less option.inject option.distinct simp_thms split: if_splits)
  moreover obtain n :: u32 where n: "n = word_of_int (- sint b)" by blast
  ultimately have "n \<le> a" "c = a - n" by simp_all
  moreover have "int (unat n) = - sint b" using u n by simp
  ultimately show ?thesis by (simp add: unat_sub word_le_nat_alt of_nat_diff)
next
  case False
  have "unat c = unat a + unat b"
    using assms False checked_add_u32_Some by (simp add: checked_add_i32_def)
  moreover have "int (unat b) = sint b"
    using False sint_lt [of b] unfolding uint_nat [symmetric] uint_sint
    by (intro take_bit_int_eq_self) simp_all
  ultimately show ?thesis by simp
qed

lemma same_state_ok: "link_ok st \<Longrightarrow> reloc_denotes st oi r v \<Longrightarrow> value_ok st oi r v st"
  by (simp add: value_ok_def link_ok_def bytes_same_def)

lemma memory_value_ok:
  assumes v: "memory_reloc_value env oi r st = Value (v, st1)" and ok: "link_ok st"
    and t: "lr_type r = R_WASM_MEMORY_ADDR_LEB \<or> lr_type r = R_WASM_MEMORY_ADDR_I32"
  shows "value_ok st oi r v st1"
proof -
  obtain s where s: "reloc_symbol (lk_objs st ! oi) r = Some s" and st1: "st1 = st"
    and a: "final_data_addr_for_symbol env (lk_objs st) oi s (lr_addend r) = Value v"
    using v by (auto simp: memory_reloc_value_def or_refuse_def elim!: outcome_bind_ValueE split: option.splits)
  obtain di ix off b where
      p: "data_place (lk_objs st) oi s = Some (di, ix, off)"
    and ix: "index_in ix (lo_data (lk_objs st ! di))"
    and b: "checked_add_u32 (ld_final_addr (lo_data (lk_objs st ! di) ! nat ix)) off = Some b"
    and v': "checked_add_i32 b (lr_addend r) = Some v"
    using a by (auto simp: final_data_addr_for_symbol_def data_place_def or_refuse_def
        elim!: outcome_bind_ValueE split: if_splits option.splits)
  have "data_address (lk_objs st) oi s (lr_addend r) (int (unat v))"
    using p ix checked_add_i32_Some [OF v'] checked_add_u32_Some [OF b] by (auto simp: data_address_def)
  then have "\<exists>s. reloc_symbol (lk_objs st ! oi) r = Some s \<and>
      data_address (lk_objs st) oi s (lr_addend r) (int (unat v))"
    using s by blast
  then have "reloc_denotes st oi r v"
    using t by (elim disjE) (simp_all only: reloc_denotes_def Let_def, simp_all)
  then show ?thesis using ok st1 same_state_ok by simp
qed

lemma function_value_ok:
  assumes v: "symbol_index (function_reloc_index env oi) (lk_objs st ! oi) r st = Value (v, st1)"
    and ok: "link_ok st" "oi < length (lk_objs st)" "r \<in> set (lo_relocs (lk_objs st ! oi))"
    and t: "lr_type r = R_WASM_FUNCTION_INDEX_LEB"
  shows "value_ok st oi r v st1"
proof -
  obtain s i where s: "reloc_symbol (lk_objs st ! oi) r = Some s"
    and i: "function_reloc_index env oi s st = Value (i, st1)" and v: "v = word_of_int i"
    using v by (auto simp: symbol_index_def or_refuse_def elim!: outcome_bind_ValueE split: option.splits)
  have "object_ok (lk_objs st ! oi)" using ok by (simp add: link_ok_def list_all_length)
  then have "ls_kind s = SYM_FUNCTION"
    using ok(3) s t by (auto simp: object_ok_def function_relocs_ok_def list_all_iff)
  then have "final_func_index_for_reloc_symbol env oi s st = Value (i, st1)"
    using i by (simp add: function_reloc_index_def final_func_index_for_reloc_symbol_def)
  from reloc_symbol_index [OF this ok(1,2) reloc_symbol_in [OF s]] obtain p where
      p: "func_for_reloc_symbol (lk_objs st) oi s = Value p" "i = func_final st p"
    and st1: "st1 = st\<lparr>lk_types := lk_types st1\<rparr>" by blast
  note t1 = types_only [OF st1]
  have "symbol_func st1 oi r p"
    using s p symbol_func_same [OF t1(1) ok(2)] by (auto simp: symbol_func_def)
  then have "\<exists>p. symbol_func st1 oi r p \<and> v = word_of_int (func_final st1 p)"
    using p(2) v t1(4) by metis
  then have "reloc_denotes st1 oi r v"
    using t by (simp_all only: reloc_denotes_def Let_def, simp_all)
  then show ?thesis using t1 ok by (simp add: value_ok_def link_ok_def)
qed

lemma global_value_ok:
  assumes v: "symbol_index (\<lambda>s st1. outcome_bind (global_index_for_symbol s st1)
      (\<lambda>(gi, st2). Value (int gi, st2))) (lk_objs st ! oi) r st = Value (v, st1)"
    and ok: "link_ok st" "oi < length (lk_objs st)" and t: "lr_type r = R_WASM_GLOBAL_INDEX_LEB"
  shows "value_ok st oi r v st1"
proof -
  obtain s k where s: "reloc_symbol (lk_objs st ! oi) r = Some s"
    and k: "global_index_for_symbol s st = Value (k, st1)" and v: "v = word_of_int (int k)"
    using v by (auto simp: symbol_index_def or_refuse_def elim!: outcome_bind_ValueE split: option.splits)
  have "ls_kind s = SYM_GLOBAL" using k by (auto simp: global_index_for_symbol_def split: if_splits)
  then have "(\<exists>gs. st1 = st\<lparr>lk_globals := lk_globals st @ gs\<rparr>) \<and>
      k < length (lk_globals st1) \<and> fg_name (lk_globals st1 ! k) = ls_name s"
  proof (cases "find_final_global (lk_globals st) (ls_name s)")
    case None
    let ?g = "\<lparr>fg_name = ls_name s, fg_final_index = int (length (lk_globals st)),
        fg_init_value = default_global_init (ls_name s)\<rparr>"
    have "k = length (lk_globals st)" "st1 = st\<lparr>lk_globals := lk_globals st @ [?g]\<rparr>"
      using k None \<open>ls_kind s = SYM_GLOBAL\<close> by (auto simp: global_index_for_symbol_def)
    moreover from this(2) have "\<exists>gs. st1 = st\<lparr>lk_globals := lk_globals st @ gs\<rparr>" by blast
    ultimately show ?thesis by simp
  next
    case (Some i)
    then have "i < length (lk_globals st)" "fg_name (lk_globals st ! i) = ls_name s"
      by (auto simp: find_final_global_def str_eq_iff dest!: find_position_0)
    then show ?thesis using k Some \<open>ls_kind s = SYM_GLOBAL\<close>
      by (auto simp: global_index_for_symbol_def intro!: exI [of _ "[]"])
  qed
  then obtain gs where st1: "st1 = st\<lparr>lk_globals := lk_globals st @ gs\<rparr>"
    and g: "k < length (lk_globals st1)" "fg_name (lk_globals st1 ! k) = ls_name s"
    by blast
  have objs: "lk_objs st1 = lk_objs st" "lk_tables st1 = lk_tables st" "lk_imports st1 = lk_imports st"
    by (simp_all add: st1)
  have e: "link_extends st st1" using st1 objs by (simp add: link_extends_def list_all2_refl)
  have f: "func_final st1 p = func_final st p" for p
    by (simp add: func_final_def objs Let_def split: option.split)
  have "tables_ok st1"
    using ok(1) unfolding link_ok_def tables_ok_def table_slot_def f objs by blast
  moreover have "bytes_same st st1" by (simp add: bytes_same_def objs)
  moreover have "reloc_denotes st1 oi r v"
    using s g t v objs by (auto simp: reloc_denotes_def Let_def)
  ultimately show ?thesis using e by (simp add: value_ok_def)
qed

lemma code_reloc_value_ok:
  assumes v: "code_reloc_value env oi r st = Value (v, st1)"
    and ok: "link_ok st" "oi < length (lk_objs st)" "r \<in> set (lo_relocs (lk_objs st ! oi))"
  shows "value_ok st oi r v st1"
proof -
  consider "lr_type r = R_WASM_TYPE_INDEX_LEB" | "lr_type r = R_WASM_FUNCTION_INDEX_LEB"
    | "lr_type r = R_WASM_TABLE_INDEX_SLEB" | "lr_type r = R_WASM_MEMORY_ADDR_LEB"
    | "lr_type r = R_WASM_GLOBAL_INDEX_LEB"
    using v by (auto simp: code_reloc_value_def Let_def split: if_splits)
  then show ?thesis
  proof cases
    case 1
    then have "st1 = st" "reloc_denotes st oi r v"
      using v by (auto simp: code_reloc_value_def reloc_denotes_def Let_def split: if_splits)
    then show ?thesis using same_state_ok ok by simp
  next
    case 2
    then show ?thesis using v ok function_value_ok by (simp add: code_reloc_value_def)
  next
    case 3
    then show ?thesis using v ok table_value_ok by (simp add: code_reloc_value_def)
  next
    case 4
    then show ?thesis using v ok memory_value_ok by (simp add: code_reloc_value_def)
  next
    case 5
    then show ?thesis using v ok global_value_ok by (simp add: code_reloc_value_def)
  qed
qed

lemma data_reloc_value_ok:
  assumes v: "data_reloc_value env oi r st = Value (v, st1)"
    and ok: "link_ok st" "oi < length (lk_objs st)"
  shows "value_ok st oi r v st1"
proof -
  consider "lr_type r = R_WASM_MEMORY_ADDR_I32" | "lr_type r = R_WASM_TABLE_INDEX_I32"
    using v by (auto simp: data_reloc_value_def split: if_splits)
  then show ?thesis
  proof cases
    case 1
    then show ?thesis using v ok memory_value_ok by (simp add: data_reloc_value_def)
  next
    case 2
    then show ?thesis using v ok table_value_ok by (simp add: data_reloc_value_def)
  qed
qed

section \<open>Patched fields read back\<close>

text \<open>The four bytes of a data field as a number.\<close>

definition u32le_at :: "u8 list \<Rightarrow> nat \<Rightarrow> u32" where
  "u32le_at p off =
    ucast (p ! off) OR push_bit 8 (ucast (p ! (off + 1))) OR push_bit 16 (ucast (p ! (off + 2))) OR
    push_bit 24 (ucast (p ! (off + 3)))"

definition u32le_bytes :: "u32 \<Rightarrow> u8 list" where
  "u32le_bytes v = map (\<lambda>i. ucast (drop_bit (8 * i) v AND 0xff)) [0..<4]"

lemma and_0xff: "x AND 0xff = take_bit 8 (x :: u32)"
  by (simp add: take_bit_eq_mask mask_eq_exp_minus_1)

lemma ucast_low8: "ucast (ucast (take_bit 8 x) :: u8) = (take_bit 8 x :: u32)"
  by (rule bit_eqI) (auto simp: bit_unsigned_iff bit_take_bit_iff)

lemma word_of_bytes:
  "take_bit 8 v OR (push_bit 8 (take_bit 8 (drop_bit 8 v)) OR
    (push_bit 16 (take_bit 8 (drop_bit 16 v)) OR push_bit 24 (take_bit 8 (drop_bit 24 v)))) = (v :: u32)"
proof (rule bit_eqI)
  fix k assume "possible_bit TYPE(u32) k"
  then have k: "k < 32" by simp
  consider "k < 8" | "8 \<le> k \<and> k < 16" | "16 \<le> k \<and> k < 24" | "24 \<le> k" by linarith
  then show "bit (take_bit 8 v OR (push_bit 8 (take_bit 8 (drop_bit 8 v)) OR
      (push_bit 16 (take_bit 8 (drop_bit 16 v)) OR push_bit 24 (take_bit 8 (drop_bit 24 v))))) k = bit v k"
    by cases (use k in \<open>auto simp: bit_or_iff bit_take_bit_iff bit_push_bit_iff bit_drop_bit_eq\<close>)
qed

lemma u32le_bytes_at:
  assumes "take 4 (drop off p) = u32le_bytes v"
  shows "u32le_at p off = v"
proof -
  have n: "p ! (off + i) = ucast (drop_bit (8 * i) v AND 0xff)" if "i < 4" for i
  proof -
    have "take 4 (drop off p) ! i = u32le_bytes v ! i" by (simp add: assms)
    moreover have "length (take 4 (drop off p)) = 4" by (simp add: assms u32le_bytes_def)
    then have "off + i < length p" using that by simp
    ultimately show ?thesis using that by (simp add: u32le_bytes_def)
  qed
  have "p ! off = ucast (take_bit 8 v)" "p ! (off + 1) = ucast (take_bit 8 (drop_bit 8 v))"
    "p ! (off + 2) = ucast (take_bit 8 (drop_bit 16 v))"
    "p ! (off + 3) = ucast (take_bit 8 (drop_bit 24 v))"
    using n [of 0] n [of 1] n [of 2] n [of 3] unfolding and_0xff by simp_all
  then show ?thesis by (simp only: u32le_at_def ucast_low8 or.assoc word_of_bytes)
qed

lemma fold_update_span:
  "off + n \<le> length p \<Longrightarrow>
   fold (\<lambda>i d. d[off + i := f i]) [0..<n] p = take off p @ map f [0..<n] @ drop (off + n) p"
proof (induction n)
  case 0
  then show ?case by simp
next
  case (Suc n)
  have "drop (off + n) p = p ! (off + n) # drop (off + Suc n) p"
    using Suc.prems by (simp add: Cons_nth_drop_Suc)
  then show ?case using Suc by (simp add: list_update_append min_def)
qed

lemma patch_uleb5_span:
  "off + 5 \<le> length p \<Longrightarrow> patch_uleb5 p off v = take off p @ uleb5_bytes v @ drop (off + 5) p"
  unfolding patch_uleb5_def uleb5_bytes_def by (rule fold_update_span)

lemma patch_u32le_span:
  "off + 4 \<le> length p \<Longrightarrow> patch_u32le p off v = take off p @ u32le_bytes v @ drop (off + 4) p"
  unfolding patch_u32le_def u32le_bytes_def by (rule fold_update_span)

lemma uleb5_length [simp]: "length (uleb5_bytes v) = 5" by (simp add: uleb5_bytes_def)
lemma u32le_length [simp]: "length (u32le_bytes v) = 4" by (simp add: u32le_bytes_def)

lemma span_written:
  "off + length bs \<le> length p \<Longrightarrow>
   take (length bs) (drop off (take off p @ bs @ drop (off + length bs) p)) = bs"
  by simp

lemma span_kept:
  assumes "off + length bs \<le> length p" "off + length bs \<le> b \<or> b + n \<le> off" "b + n \<le> length p"
  shows "take n (drop b (take off p @ bs @ drop (off + length bs) p)) = take n (drop b p)"
proof (cases "off + length bs \<le> b")
  case True
  then show ?thesis using assms(1) by (simp add: min_def)
next
  case False
  then have "b + n \<le> off" using assms(2) by simp
  then show ?thesis using assms(1) unfolding take_drop by (simp add: min_def)
qed

text \<open>A five-byte field of the code reads back through the reader of the linker.\<close>

lemma uleb5_reads:
  assumes "take 5 (drop off p) = uleb5_bytes v"
  shows "rd_uleb \<lparr>rd_p = p, rd_pos = off\<rparr> = Value (v, \<lparr>rd_p = p, rd_pos = off + 5\<rparr>)"
proof -
  have "off + 5 \<le> length p"
    using arg_cong [OF assms, of length] by (simp split: if_splits)
  then have p: "p = take off p @ uleb5_bytes v @ drop (off + 5) p" "length (take off p) = off"
    using assms by (metis append_take_drop_id drop_drop add.commute, simp)
  then show ?thesis
    using uleb5.decode_encode [where v = v and pre = "take off p" and rest = "drop (off + 5) p"] by simp
qed

definition field_is :: "link_t \<Rightarrow> nat \<Rightarrow> reloc_t \<Rightarrow> u32 \<Rightarrow> bool" where
  "field_is st oi r v \<longleftrightarrow>
     (if lr_is_code r
      then \<exists>fi off. code_site (lk_objs st ! oi) r = Some (fi, off) \<and>
             take 5 (drop off (lf_body (func_at (lk_objs st) (oi, fi)))) = uleb5_bytes v
      else \<exists>di off. data_site (lk_objs st ! oi) r = Some (di, off) \<and>
             take 4 (drop off (ld_bytes (data_at (lk_objs st) (oi, di)))) = u32le_bytes v)"

text \<open>The number in the field of a relocation, as a reader of the linked module sees it.\<close>

definition reloc_field :: "link_t \<Rightarrow> nat \<Rightarrow> reloc_t \<Rightarrow> u32 option" where
  "reloc_field st oi r =
    (if lr_is_code r then
       (case code_site (lk_objs st ! oi) r of
          None \<Rightarrow> None
        | Some (fi, off) \<Rightarrow>
            (case rd_uleb \<lparr>rd_p = lf_body (func_at (lk_objs st) (oi, fi)), rd_pos = off\<rparr> of
               Value (v, _) \<Rightarrow> Some v
             | _ \<Rightarrow> None))
     else
       (case data_site (lk_objs st ! oi) r of
          None \<Rightarrow> None
        | Some (di, off) \<Rightarrow> Some (u32le_at (ld_bytes (data_at (lk_objs st) (oi, di))) off)))"

lemma field_is_reads: "field_is st oi r v \<Longrightarrow> reloc_field st oi r = Some v"
  by (auto simp: field_is_def reloc_field_def uleb5_reads u32le_bytes_at split: if_splits)

text \<open>The fields of two relocations of an object do not overlap.\<close>

definition reloc_width :: "reloc_t \<Rightarrow> nat" where
  "reloc_width r = (if lr_is_code r then 5 else 4)"

definition reloc_overlap :: "nat \<times> reloc_t \<Rightarrow> nat \<times> reloc_t \<Rightarrow> bool" where
  "reloc_overlap = (\<lambda>(oi, r) (oj, q).
     oi = oj \<and> lr_is_code r = lr_is_code q \<and>
     \<not> (unat (lr_offset r) + reloc_width r \<le> unat (lr_offset q) \<or>
         unat (lr_offset q) + reloc_width q \<le> unat (lr_offset r)))"

lemma reloc_overlap_sym: "reloc_overlap a b \<Longrightarrow> reloc_overlap b a"
  by (auto simp: reloc_overlap_def)

lemma code_siteD:
  assumes "code_site o1 r = Some (fi, off)"
  shows "fi < length (lo_funcs o1)" "off + 5 \<le> length (lf_body (lo_funcs o1 ! fi))"
    "unat (lr_offset r) = lf_code_payload_off (lo_funcs o1 ! fi) + off"
  using assms by (auto simp: code_site_def in_span_def Let_def dest!: find_position_0
      split: option.splits if_splits)

lemma data_siteD:
  assumes "data_site o1 r = Some (di, off)"
  shows "di < length (lo_data o1)" "off + 4 \<le> length (ld_bytes (lo_data o1 ! di))"
    "unat (lr_offset r) = ld_data_payload_off (lo_data o1 ! di) + off"
  using assms by (auto simp: data_site_def in_span_def Let_def dest!: find_position_0
      split: option.splits if_splits)

lemma tables_ok_objs:
  assumes ok: "tables_ok st" and e: "link_extends st st1" and t: "lk_tables st1 = lk_tables st"
    and same: "\<And>p. lf_final_table_index (func_at (lk_objs st1) p) = lf_final_table_index (func_at (lk_objs st) p)"
  shows "tables_ok st1"
  using ok unfolding tables_ok_def table_slot_def t same func_in_same [OF e]
  by (metis func_final_same [OF e])

lemma patch_code_ok:
  assumes p: "func_in (lk_objs st) p" and off: "off + 5 \<le> length (lf_body (func_at (lk_objs st) p))"
    and ok: "tables_ok st"
  shows "link_extends st (patch_code p off v st)" "tables_ok (patch_code p off v st)"
proof -
  let ?f = "func_at (lk_objs st) p"
  have "func_same ?f (?f\<lparr>lf_body := patch_uleb5 (lf_body ?f) off v\<rparr>)"
    using off by (simp add: func_same_def func_mask_def patch_uleb5_span)
  from set_func_same [OF p this] show e: "link_extends st (patch_code p off v st)"
    by (simp add: link_extends_def patch_code_def Let_def)
  show "tables_ok (patch_code p off v st)"
    by (rule tables_ok_objs [OF ok e]) (auto simp: patch_code_def Let_def func_at_set_func [OF p])
qed

lemma patch_data_ok:
  assumes p: "data_in (lk_objs st) p" and off: "off + 4 \<le> length (ld_bytes (data_at (lk_objs st) p))"
    and ok: "tables_ok st"
  shows "link_extends st (patch_data p off v st)" "tables_ok (patch_data p off v st)"
proof -
  let ?d = "data_at (lk_objs st) p"
  have "data_same ?d (?d\<lparr>ld_bytes := patch_u32le (ld_bytes ?d) off v\<rparr>)"
    using off by (simp add: data_same_def data_mask_def patch_u32le_span)
  from set_data_same [OF p this] show e: "link_extends st (patch_data p off v st)"
    by (simp add: link_extends_def patch_data_def Let_def)
  show "tables_ok (patch_data p off v st)"
    by (rule tables_ok_objs [OF ok e]) (auto simp: patch_data_def Let_def)
qed

text \<open>Fields in a state with the same bytes and sites.\<close>

lemma field_is_bytes_same:
  assumes "link_extends st st1" "bytes_same st st1" "oi < length (lk_objs st)"
  shows "field_is st1 oi r v = field_is st oi r v"
  using assms(2) code_site_same [OF link_extends_obj [OF assms(1,3)]]
    data_site_same [OF link_extends_obj [OF assms(1,3)]]
  by (simp add: field_is_def bytes_same_def)

lemma patch_code_field:
  assumes s: "code_site (lk_objs st ! oi) r = Some (fi, off)" and oi: "oi < length (lk_objs st)"
    and ok: "tables_ok st" and c: "lr_is_code r"
  shows "field_is (patch_code (oi, fi) off v st) oi r v"
    and "oj < length (lk_objs st) \<Longrightarrow> field_is st oj q w \<Longrightarrow> \<not> reloc_overlap (oi, r) (oj, q) \<Longrightarrow>
      field_is (patch_code (oi, fi) off v st) oj q w"
proof -
  let ?st1 = "patch_code (oi, fi) off v st"
  note site = code_siteD [OF s]
  have p: "func_in (lk_objs st) (oi, fi)" using site oi by (simp add: func_in_def)
  have off: "off + 5 \<le> length (lf_body (func_at (lk_objs st) (oi, fi)))"
    using site by (simp add: func_at_def)
  have e: "link_extends st ?st1" by (rule patch_code_ok [OF p off ok])
  let ?p = "lf_body (func_at (lk_objs st) (oi, fi))"
  have body: "lf_body (func_at (lk_objs ?st1) x) =
      (if x = (oi, fi) then take off ?p @ uleb5_bytes v @ drop (off + 5) ?p
       else lf_body (func_at (lk_objs st) x))" for x
    using off by (simp add: patch_code_def Let_def func_at_set_func [OF p] patch_uleb5_span)
  have data: "data_at (lk_objs ?st1) x = data_at (lk_objs st) x" for x
    by (simp add: patch_code_def Let_def)
  show "field_is ?st1 oi r v"
    using c s code_site_same [OF link_extends_obj [OF e oi]] off by (simp add: field_is_def body)
  assume oj: "oj < length (lk_objs st)" and f: "field_is st oj q w" and n: "\<not> reloc_overlap (oi, r) (oj, q)"
  have sites: "code_site (lk_objs ?st1 ! oj) q = code_site (lk_objs st ! oj) q"
    "data_site (lk_objs ?st1 ! oj) q = data_site (lk_objs st ! oj) q"
    using code_site_same data_site_same link_extends_obj [OF e oj] by blast+
  show "field_is ?st1 oj q w"
  proof (cases "lr_is_code q")
    case False
    then show ?thesis using f by (simp add: field_is_def sites data)
  next
    case True
    then obtain fj o2 where q: "code_site (lk_objs st ! oj) q = Some (fj, o2)"
        "take 5 (drop o2 (lf_body (func_at (lk_objs st) (oj, fj)))) = uleb5_bytes w"
      using f by (auto simp: field_is_def)
    have "take 5 (drop o2 (lf_body (func_at (lk_objs ?st1) (oj, fj)))) = uleb5_bytes w"
    proof (cases "(oj, fj) = (oi, fi)")
      case eq: True
      then have "off + 5 \<le> o2 \<or> o2 + 5 \<le> off" "o2 + 5 \<le> length ?p"
        using n c True site(3) code_siteD [OF q(1)]
        by (auto simp: reloc_overlap_def reloc_width_def func_at_def)
      then show ?thesis
        using span_kept [of off "uleb5_bytes v" ?p o2 5] off q(2) eq by (simp add: body)
    next
      case False
      then show ?thesis using q(2) by (simp only: body False if_False)
    qed
    then show ?thesis using True q(1) by (auto simp: field_is_def sites)
  qed
qed

lemma patch_data_field:
  assumes s: "data_site (lk_objs st ! oi) r = Some (di, off)" and oi: "oi < length (lk_objs st)"
    and ok: "tables_ok st" and c: "\<not> lr_is_code r"
  shows "field_is (patch_data (oi, di) off v st) oi r v"
    and "oj < length (lk_objs st) \<Longrightarrow> field_is st oj q w \<Longrightarrow> \<not> reloc_overlap (oi, r) (oj, q) \<Longrightarrow>
      field_is (patch_data (oi, di) off v st) oj q w"
proof -
  let ?st1 = "patch_data (oi, di) off v st"
  note site = data_siteD [OF s]
  have p: "data_in (lk_objs st) (oi, di)" using site oi by (simp add: data_in_def)
  have off: "off + 4 \<le> length (ld_bytes (data_at (lk_objs st) (oi, di)))"
    using site by (simp add: data_at_def)
  have e: "link_extends st ?st1" by (rule patch_data_ok [OF p off ok])
  let ?p = "ld_bytes (data_at (lk_objs st) (oi, di))"
  have bytes: "ld_bytes (data_at (lk_objs ?st1) x) =
      (if x = (oi, di) then take off ?p @ u32le_bytes v @ drop (off + 4) ?p
       else ld_bytes (data_at (lk_objs st) x))" for x
    using off by (simp add: patch_data_def Let_def data_at_set_data [OF p] patch_u32le_span)
  have func: "func_at (lk_objs ?st1) x = func_at (lk_objs st) x" for x
    by (simp add: patch_data_def Let_def)
  show "field_is ?st1 oi r v"
    using c s data_site_same [OF link_extends_obj [OF e oi]] off by (simp add: field_is_def bytes)
  assume oj: "oj < length (lk_objs st)" and f: "field_is st oj q w" and n: "\<not> reloc_overlap (oi, r) (oj, q)"
  have sites: "code_site (lk_objs ?st1 ! oj) q = code_site (lk_objs st ! oj) q"
    "data_site (lk_objs ?st1 ! oj) q = data_site (lk_objs st ! oj) q"
    using code_site_same data_site_same link_extends_obj [OF e oj] by blast+
  show "field_is ?st1 oj q w"
  proof (cases "lr_is_code q")
    case True
    then show ?thesis using f by (simp add: field_is_def sites func)
  next
    case False
    then obtain dj o2 where q: "data_site (lk_objs st ! oj) q = Some (dj, o2)"
        "take 4 (drop o2 (ld_bytes (data_at (lk_objs st) (oj, dj)))) = u32le_bytes w"
      using f by (auto simp: field_is_def)
    have "take 4 (drop o2 (ld_bytes (data_at (lk_objs ?st1) (oj, dj)))) = u32le_bytes w"
    proof (cases "(oj, dj) = (oi, di)")
      case eq: True
      then have "off + 4 \<le> o2 \<or> o2 + 4 \<le> off" "o2 + 4 \<le> length ?p"
        using n c False site(3) data_siteD [OF q(1)]
        by (auto simp: reloc_overlap_def reloc_width_def data_at_def)
      then show ?thesis
        using span_kept [of off "u32le_bytes v" ?p o2 4] off q(2) eq by (simp add: bytes)
    next
      case False
      then show ?thesis using q(2) by (simp only: bytes False if_False)
    qed
    then show ?thesis using False q(1) by (auto simp: field_is_def sites)
  qed
qed

text \<open>One relocation: its field holds what it denotes, and the other fields are as before.\<close>

definition patched :: "link_t \<Rightarrow> link_t \<Rightarrow> nat \<times> reloc_t \<Rightarrow> bool" where
  "patched st st1 x \<longleftrightarrow>
     (\<exists>v. field_is st1 (fst x) (snd x) v \<and> reloc_denotes st1 (fst x) (snd x) v) \<and>
     (\<forall>oj q w. oj < length (lk_objs st) \<longrightarrow> field_is st oj q w \<longrightarrow> \<not> reloc_overlap x (oj, q) \<longrightarrow>
        field_is st1 oj q w)"

lemma patch_after_value:
  assumes val: "value_ok st oi r v st1" and oi: "oi < length (lk_objs st)"
    and e2: "link_extends st1 st2" "tables_ok st2" and ok: "link_ok st"
    and new: "field_is st2 oi r v"
    and keep: "\<And>oj q w. oj < length (lk_objs st1) \<Longrightarrow> field_is st1 oj q w \<Longrightarrow>
      \<not> reloc_overlap (oi, r) (oj, q) \<Longrightarrow> field_is st2 oj q w"
  shows "link_extends st st2 \<and> link_ok st2 \<and> patched st st2 (oi, r)"
proof -
  have e1: "link_extends st st1" and b: "bytes_same st st1" and d: "reloc_denotes st1 oi r v"
    using val by (simp_all add: value_ok_def)
  have e: "link_extends st st2" by (rule link_extends_trans [OF e1 e2(1)])
  have "reloc_denotes st2 oi r v"
    using reloc_denotes_extends [OF e2(1) _ d] oi link_extends_length [OF e1] by simp
  moreover have "field_is st2 oj q w"
    if "oj < length (lk_objs st)" "field_is st oj q w" "\<not> reloc_overlap (oi, r) (oj, q)" for oj q w
    using that keep [of oj q w] field_is_bytes_same [OF e1 b that(1)] link_extends_length [OF e1] by simp
  ultimately have "patched st st2 (oi, r)" using new by (auto simp: patched_def)
  then show ?thesis using e link_ok_extends [OF ok e e2(2)] by simp
qed

lemma patch_reloc_step:
  assumes p: "patch_reloc env (oi, r) st = Value st2" and ok: "link_ok st"
    and oi: "oi < length (lk_objs st)" and r: "r \<in> set (lo_relocs (lk_objs st ! oi))"
  shows "link_extends st st2 \<and> link_ok st2 \<and> patched st st2 (oi, r)"
proof (cases "lr_is_code r")
  case True
  then obtain fi off v st1 where s: "code_site (lk_objs st ! oi) r = Some (fi, off)"
      and v: "code_reloc_value env oi r st = Value (v, st1)" and st2: "st2 = patch_code (oi, fi) off v st1"
    using p by (auto simp: patch_reloc_def elim!: outcome_bind_ValueE split: option.splits)
  have val: "value_ok st oi r v st1" by (rule code_reloc_value_ok [OF v ok oi r])
  then have e1: "link_extends st st1" and t1: "tables_ok st1" by (simp_all add: value_ok_def)
  have oi1: "oi < length (lk_objs st1)" using oi link_extends_length [OF e1] by simp
  have s1: "code_site (lk_objs st1 ! oi) r = Some (fi, off)"
    using s code_site_same [OF link_extends_obj [OF e1 oi]] by simp
  have "func_in (lk_objs st1) (oi, fi)" "off + 5 \<le> length (lf_body (func_at (lk_objs st1) (oi, fi)))"
    using code_siteD [OF s1] oi1 by (simp_all add: func_in_def func_at_def)
  note e2 = patch_code_ok [OF this t1, of v]
  show ?thesis
    using patch_after_value [OF val oi _ _ ok, of st2] e2 patch_code_field [where v = v, OF s1 oi1 t1 True]
    unfolding st2 by blast
next
  case False
  then obtain di off v st1 where s: "data_site (lk_objs st ! oi) r = Some (di, off)"
      and v: "data_reloc_value env oi r st = Value (v, st1)" and st2: "st2 = patch_data (oi, di) off v st1"
    using p by (auto simp: patch_reloc_def elim!: outcome_bind_ValueE split: option.splits)
  have val: "value_ok st oi r v st1" by (rule data_reloc_value_ok [OF v ok oi])
  then have e1: "link_extends st st1" and t1: "tables_ok st1" by (simp_all add: value_ok_def)
  have oi1: "oi < length (lk_objs st1)" using oi link_extends_length [OF e1] by simp
  have s1: "data_site (lk_objs st1 ! oi) r = Some (di, off)"
    using s data_site_same [OF link_extends_obj [OF e1 oi]] by simp
  have "data_in (lk_objs st1) (oi, di)" "off + 4 \<le> length (ld_bytes (data_at (lk_objs st1) (oi, di)))"
    using data_siteD [OF s1] oi1 by (simp_all add: data_in_def data_at_def)
  note e2 = patch_data_ok [OF this t1, of v]
  show ?thesis
    using patch_after_value [OF val oi _ _ ok, of st2] e2 patch_data_field [where v = v, OF s1 oi1 t1 False]
    unfolding st2 by blast
qed

definition reloc_of :: "object_t list \<Rightarrow> nat \<times> reloc_t \<Rightarrow> bool" where
  "reloc_of objs x \<longleftrightarrow> fst x < length objs \<and> snd x \<in> set (lo_relocs (objs ! fst x))"

lemma reloc_of_same:
  assumes "link_extends st st1"
  shows "reloc_of (lk_objs st1) x = reloc_of (lk_objs st) x"
  using obj_same_fields(4) [OF link_extends_obj [OF assms]] link_extends_length [OF assms]
  by (auto simp: reloc_of_def)

lemma patch_relocs:
  assumes "for_each (patch_reloc env) xs st = Value st1" "link_ok st"
    "\<forall>x \<in> set xs. reloc_of (lk_objs st) x" "no_conflict reloc_overlap xs"
  shows "link_extends st st1 \<and> link_ok st1 \<and>
    (\<forall>x \<in> set xs. \<exists>v. field_is st1 (fst x) (snd x) v \<and> reloc_denotes st1 (fst x) (snd x) v) \<and>
    (\<forall>oj q w. oj < length (lk_objs st) \<longrightarrow> field_is st oj q w \<longrightarrow>
       (\<forall>x \<in> set xs. \<not> reloc_overlap x (oj, q)) \<longrightarrow> field_is st1 oj q w)"
  using assms
proof (induction xs arbitrary: st)
  case Nil
  then show ?case by simp
next
  case (Cons x xs)
  obtain st2 where
      one: "patch_reloc env x st = Value st2" and rest: "for_each (patch_reloc env) xs st2 = Value st1"
    using Cons.prems(1) by (auto elim!: outcome_bind_ValueE)
  have x: "fst x < length (lk_objs st)" "snd x \<in> set (lo_relocs (lk_objs st ! fst x))"
    using Cons.prems(3) by (simp_all add: reloc_of_def)
  have s: "link_extends st st2" "link_ok st2" "patched st st2 x"
    using patch_reloc_step [of env "fst x" "snd x" st st2] one Cons.prems(2) x by simp_all
  have rel: "\<forall>y \<in> set xs. reloc_of (lk_objs st2) y"
    using Cons.prems(3) by (simp add: reloc_of_same [OF s(1)])
  have nc: "no_conflict reloc_overlap xs" "\<forall>y \<in> set xs. \<not> reloc_overlap x y"
    using Cons.prems(4) by (auto simp: list_ex_iff)
  note IH = Cons.IH [OF rest s(2) rel nc(1)]
  have len: "length (lk_objs st2) = length (lk_objs st)" by (rule link_extends_length [OF s(1)])
  obtain v where v: "field_is st2 (fst x) (snd x) v" "reloc_denotes st2 (fst x) (snd x) v"
    using s(3) by (auto simp: patched_def)
  have "\<forall>y \<in> set xs. \<not> reloc_overlap y x" using nc(2) reloc_overlap_sym by blast
  then have "field_is st1 (fst x) (snd x) v" using IH v(1) x(1) len by simp
  moreover have "reloc_denotes st1 (fst x) (snd x) v"
    using reloc_denotes_extends [OF _ _ v(2)] IH x(1) len by simp
  moreover have "field_is st1 oj q w"
    if "oj < length (lk_objs st)" "field_is st oj q w" "\<forall>y \<in> set (x # xs). \<not> reloc_overlap y (oj, q)"
    for oj q w
    using that s(3) IH len by (auto simp: patched_def)
  ultimately show ?case
    using IH link_extends_trans [OF s(1)] by auto
qed

lemma patch_relocs_ok:
  "for_each (patch_reloc env) xs st = Value st1 \<Longrightarrow> link_ok st \<Longrightarrow>
   \<forall>x \<in> set xs. reloc_of (lk_objs st) x \<Longrightarrow> link_extends st st1 \<and> link_ok st1"
proof (induction xs arbitrary: st)
  case Nil
  then show ?case by simp
next
  case (Cons x xs)
  obtain st2 where
      one: "patch_reloc env x st = Value st2" and rest: "for_each (patch_reloc env) xs st2 = Value st1"
    using Cons.prems(1) by (auto elim!: outcome_bind_ValueE)
  have "link_extends st st2" "link_ok st2"
    using patch_reloc_step [of env "fst x" "snd x" st st2] one Cons.prems(2,3)
    by (simp_all add: reloc_of_def)
  then show ?case
    using Cons.IH [OF rest] Cons.prems(3) link_extends_trans by (auto simp: reloc_of_same)
qed

lemma patch_object_relocations_ok:
  assumes "patch_object_relocations env st = Value st1" "link_ok st"
  shows "link_extends st st1" "link_ok st1"
proof -
  have "\<forall>x \<in> set (all_relocs (lk_objs st)). reloc_of (lk_objs st) x"
    by (auto simp: all_relocs_def reloc_of_def)
  from patch_relocs_ok [OF assms(1) [unfolded patch_object_relocations_def] assms(2) this]
  show "link_extends st st1" "link_ok st1" by simp_all
qed

lemma all_relocs_of: "x \<in> set (all_relocs objs) \<Longrightarrow> reloc_of objs x"
  by (auto simp: all_relocs_def reloc_of_def)

text \<open>
  After patching, the field of every relocation of every object holds what the relocation denotes:
  the shared type, the index of the function, the slot of the function table, the address of the
  datum (computed without wrapping), the index of the global.
\<close>

lemma relocations_patched:
  assumes "patch_object_relocations env st = Value st1" "link_ok st"
    and "no_conflict reloc_overlap (all_relocs (lk_objs st))"
    and "(oi, r) \<in> set (all_relocs (lk_objs st))"
  shows "\<exists>v. field_is st1 oi r v \<and> reloc_denotes st1 oi r v"
proof -
  have "\<forall>x \<in> set (all_relocs (lk_objs st)). reloc_of (lk_objs st) x" by (blast dest: all_relocs_of)
  from patch_relocs [OF assms(1) [unfolded patch_object_relocations_def] assms(2) this assms(3)]
  show ?thesis using assms(4) by force
qed

text \<open>No function of the objects has a slot yet: the state in which the relocations start.\<close>

definition no_slots :: "object_t list \<Rightarrow> bool" where
  "no_slots objs = list_all (\<lambda>o1. list_all (\<lambda>f. lf_final_table_index f = 0) (lo_funcs o1)) objs"

lemma no_slots_func:
  assumes "no_slots objs" "func_in objs p"
  shows "lf_final_table_index (func_at objs p) = 0"
proof (cases p)
  case (Pair oi fi)
  then show ?thesis
    using assms by (simp add: no_slots_def func_in_def func_at_def list_all_length)
qed

text \<open>
  C37. Applying the relocations builds the function table in order, from an empty one: entry \<open>k\<close> gets
  the \<^verbatim>\<open>table_index\<close> \<open>k + 2\<close>, no function has two entries, and the slot every function remembers is
  the one of its own entry, so that two functions have the same slot exactly when they are the same
  function of the linked module.
\<close>

theorem function_table_slots:
  assumes "patch_object_relocations env st = Value st1"
    and "list_all object_ok (lk_objs st)" "distinct (map fi_name (lk_imports st))"
    and "lk_tables st = []" "no_slots (lk_objs st)"
  shows "map ft_table_index (lk_tables st1) = map (\<lambda>k. int k + 2) [0..<length (lk_tables st1)] \<and>
    distinct (map ft_final_func_index (lk_tables st1)) \<and>
    (\<forall>p. func_in (lk_objs st1) p \<and> lf_final_table_index (func_at (lk_objs st1) p) > 0 \<longrightarrow>
       (\<exists>e \<in> set (lk_tables st1). ft_final_func_index e = func_final st1 p \<and>
          ft_table_index e = lf_final_table_index (func_at (lk_objs st1) p))) \<and>
    (\<forall>p q. func_in (lk_objs st1) p \<and> lf_final_table_index (func_at (lk_objs st1) p) > 0 \<and>
       func_in (lk_objs st1) q \<and> lf_final_table_index (func_at (lk_objs st1) q) > 0 \<longrightarrow>
       (lf_final_table_index (func_at (lk_objs st1) p) = lf_final_table_index (func_at (lk_objs st1) q)
        \<longleftrightarrow> func_final st1 p = func_final st1 q))"
proof -
  have "link_ok st"
    using assms(2-4) no_slots_func [OF assms(5)] by (simp add: link_ok_def tables_ok_def)
  then have ok: "tables_ok st1"
    using patch_object_relocations_ok(2) [OF assms(1)] by (simp add: link_ok_def)
  note idx = tables_okD(1) [OF ok] and dist = tables_okD(2) [OF ok] and own = tables_okD(3) [OF ok]
  have own': "\<exists>k < length (lk_tables st1). lf_final_table_index (func_at (lk_objs st1) p) = int k + 2 \<and>
      ft_table_index (lk_tables st1 ! k) = int k + 2 \<and>
      ft_final_func_index (lk_tables st1 ! k) = func_final st1 p"
    if "func_in (lk_objs st1) p" "lf_final_table_index (func_at (lk_objs st1) p) > 0" for p
    using own [OF that] by (auto simp: table_slot_def)
  have "map ft_table_index (lk_tables st1) = map (\<lambda>k. int k + 2) [0..<length (lk_tables st1)]"
    by (rule nth_equalityI) (simp_all add: idx)
  moreover have "\<exists>e \<in> set (lk_tables st1). ft_final_func_index e = func_final st1 p \<and>
          ft_table_index e = lf_final_table_index (func_at (lk_objs st1) p)"
    if "func_in (lk_objs st1) p \<and> lf_final_table_index (func_at (lk_objs st1) p) > 0" for p
    using own' [of p] that by (metis nth_mem)
  moreover have "lf_final_table_index (func_at (lk_objs st1) p) = lf_final_table_index (func_at (lk_objs st1) q)
        \<longleftrightarrow> func_final st1 p = func_final st1 q"
    if pq: "func_in (lk_objs st1) p \<and> lf_final_table_index (func_at (lk_objs st1) p) > 0 \<and>
       func_in (lk_objs st1) q \<and> lf_final_table_index (func_at (lk_objs st1) q) > 0" for p q
  proof -
    obtain k where k: "k < length (lk_tables st1)"
        "lf_final_table_index (func_at (lk_objs st1) p) = int k + 2"
        "ft_final_func_index (lk_tables st1 ! k) = func_final st1 p"
      using own' [of p] pq by blast
    obtain l where l: "l < length (lk_tables st1)"
        "lf_final_table_index (func_at (lk_objs st1) q) = int l + 2"
        "ft_final_func_index (lk_tables st1 ! l) = func_final st1 q"
      using own' [of q] pq by blast
    have "k = l \<longleftrightarrow> func_final st1 p = func_final st1 q"
      using k(1,3) l(1,3) dist nth_eq_iff_index_eq [OF dist] by fastforce
    then show ?thesis using k(2) l(2) by simp
  qed
  ultimately show ?thesis using dist by blast
qed

text \<open>
  Two objects: the first calls an imported function, takes its address in a data segment and loads
  the address of that segment; the second defines the function and a segment of its own.
\<close>

definition sample_caller :: object_t where
  "sample_caller = zero_object\<lparr>
     lo_types := [[0x60, 0, 0]], lo_type_map := Some [0],
     lo_funcs := [zero_func\<lparr>lf_name := Some [102]\<rparr>,
                  zero_func\<lparr>lf_name := Some [109], lf_defined := True, lf_body := replicate 14 0,
                             lf_code_payload_off := 2, lf_final_index := 0\<rparr>],
     lo_data := [zero_data\<lparr>ld_name := Some [100], ld_bytes := replicate 4 0, ld_defined := True,
                             ld_data_payload_off := 6, ld_final_addr := 1024\<rparr>],
     lo_symbols := [zero_symbol\<lparr>ls_flags := 0x10, ls_name := Some [102]\<rparr>,
                    zero_symbol\<lparr>ls_name := Some [109], ls_index := 1\<rparr>,
                    zero_symbol\<lparr>ls_kind := 1, ls_name := Some [100], ls_data_size := 4\<rparr>],
     lo_relocs := [\<lparr>lr_type = 0, lr_offset = 3, lr_symbol = 0, lr_addend = 0, lr_is_code = True\<rparr>,
                   \<lparr>lr_type = 3, lr_offset = 9, lr_symbol = 2, lr_addend = 4, lr_is_code = True\<rparr>,
                   \<lparr>lr_type = 2, lr_offset = 6, lr_symbol = 0, lr_addend = 0, lr_is_code = False\<rparr>]\<rparr>"

definition sample_callee :: object_t where
  "sample_callee = zero_object\<lparr>
     lo_types := [[0x60, 0, 0]], lo_type_map := Some [0],
     lo_funcs := [zero_func\<lparr>lf_name := Some [102], lf_defined := True, lf_body := [0, 0x0b],
                             lf_code_payload_off := 2, lf_final_index := 1\<rparr>],
     lo_data := [zero_data\<lparr>ld_name := Some [101], ld_bytes := [7], ld_align_log2 := 3, ld_defined := True,
                             ld_final_addr := 1032\<rparr>],
     lo_symbols := [zero_symbol\<lparr>ls_name := Some [102]\<rparr>]\<rparr>"

definition sample_link :: link_t where
  "sample_link = \<lparr>lk_objs = [sample_caller, sample_callee], lk_types = [[0x60, 0, 0]],
     lk_imports = [], lk_globals = [], lk_tables = []\<rparr>"

definition sample_env :: link_env where
  "sample_env = \<lparr>le_func_signature_matches = (\<lambda>_ _ _ _. True),
     le_data_signatures_compatible = (\<lambda>_ _ _ _ _ _. True),
     le_is_runtime_data_symbol = (\<lambda>_. False)\<rparr>"

lemma sample_link_start:
  "list_all object_ok (lk_objs sample_link)" "distinct (map fi_name (lk_imports sample_link))"
  "lk_tables sample_link = []" "no_slots (lk_objs sample_link)"
  by code_simp+

lemma sample_link_ok: "link_ok sample_link"
  using sample_link_start no_slots_func [OF sample_link_start(4)] by (simp add: link_ok_def tables_ok_def)

definition sample_linked :: link_t where
  "sample_linked =
    (case patch_object_relocations sample_env sample_link of Value st \<Rightarrow> st | _ \<Rightarrow> sample_link)"

lemma sample_patches: "patch_object_relocations sample_env sample_link = Value sample_linked"
proof -
  have "case patch_object_relocations sample_env sample_link of Value st \<Rightarrow> True | _ \<Rightarrow> False"
    by code_simp
  then show ?thesis by (auto simp: sample_linked_def split: outcome.splits)
qed

lemma function_table_slots_witness:
  "map ft_table_index (lk_tables sample_linked) = [2] \<and>
   lf_final_table_index (func_at (lk_objs sample_linked) (1, 0)) = 2 \<and>
   (\<exists>e \<in> set (lk_tables sample_linked). ft_final_func_index e = func_final sample_linked (1, 0) \<and>
      ft_table_index e = 2)"
proof -
  have n: "length (lk_tables sample_linked) = 1" by code_simp
  have p: "func_in (lk_objs sample_linked) (1, 0)"
      "lf_final_table_index (func_at (lk_objs sample_linked) (1, 0)) = 2"
    by code_simp+
  from function_table_slots [OF sample_patches sample_link_start]
  have "map ft_table_index (lk_tables sample_linked) = map (\<lambda>k. int k + 2) [0..<1]"
      "\<exists>e \<in> set (lk_tables sample_linked). ft_final_func_index e = func_final sample_linked (1, 0) \<and>
      ft_table_index e = lf_final_table_index (func_at (lk_objs sample_linked) (1, 0))"
    using p unfolding n by auto
  then show ?thesis using p(2) by simp
qed

end
