(* ===== verification/LinkOutput.thy ===== *)
theory LinkOutput
  imports LinkReloc
begin

text \<open>
  The linked module, \<^verbatim>\<open>build_module_into\<close> of \<^verbatim>\<open>tools/wasm_obj_linker/ag_wasm_link.c\<close>: the steps of
  linking in their order, the exports, the wrapper of \<^verbatim>\<open>main\<close> and the bytes of the module, which
  the reader of the linker reads back. The object of the built-in runtime functions
  (\<^verbatim>\<open>synthesize_runtime_object\<close>) is a parameter.
\<close>


section \<open>Function types, read again\<close>

text \<open>
  The accessors of the parts of a function type. They read the bytes of the type, which the reader
  of objects or the linker itself built.
\<close>

definition type_reader :: "type_t \<Rightarrow> rd_t outcome" where
  "type_reader t =
    outcome_bind (rd_byte \<lparr>rd_p = t, rd_pos = 0\<rparr>) (\<lambda>(c, r).
      if c \<noteq> 0x60 then Refused else Value r)"

definition wasm_type_result_valtype :: "type_t \<Rightarrow> u8 outcome" where
  "wasm_type_result_valtype t =
    outcome_bind (type_reader t) (\<lambda>r.
      outcome_bind (rd_uleb r) (\<lambda>(np, r1).
        outcome_bind (rd_skip r1 (unat np)) (\<lambda>r2.
          outcome_bind (rd_uleb r2) (\<lambda>(nr, r3).
            if nr = 0 then Value 0
            else if nr \<noteq> 1 then Refused
            else outcome_bind (rd_byte r3) (\<lambda>(ty, _). Value ty)))))"

definition wasm_type_param_count :: "type_t \<Rightarrow> u32 outcome" where
  "wasm_type_param_count t =
    outcome_bind (type_reader t) (\<lambda>r. outcome_bind (rd_uleb r) (\<lambda>(np, _). Value np))"

text \<open>The loop that reads the parameter types up to \<open>idx\<close>, which is one of the \<open>n\<close> left.\<close>

primrec param_valtype_loop :: "nat \<Rightarrow> nat \<Rightarrow> rd_t \<Rightarrow> u8 outcome" where
  "param_valtype_loop 0 idx r = Refused"
| "param_valtype_loop (Suc n) idx r =
    outcome_bind (rd_byte r) (\<lambda>(ty, r1).
      if idx = 0 then Value ty else param_valtype_loop n (idx - 1) r1)"

definition wasm_type_param_valtype :: "type_t \<Rightarrow> u32 \<Rightarrow> u8 outcome" where
  "wasm_type_param_valtype t idx =
    outcome_bind (type_reader t) (\<lambda>r.
      outcome_bind (rd_uleb r) (\<lambda>(np, r1).
        if idx \<ge> np then Refused else param_valtype_loop (unat np) (unat idx) r1))"

section \<open>Signed LEB128 of 32 bits\<close>

definition sleb32_next :: "u32 \<Rightarrow> u32" where
  "sleb32_next v =
    (let shifted = drop_bit 7 v
     in if sint v < 0 then shifted OR push_bit 25 (- 1) else shifted)"

definition sleb32_done :: "u32 \<Rightarrow> bool" where
  "sleb32_done v =
    (let sign = v AND 0x40; v1 = sleb32_next v
     in (v1 = 0 \<and> sign = 0) \<or> (v1 = - 1 \<and> sign \<noteq> 0))"

lemma sleb32_next_eq: "sleb32_next v = signed_drop_bit 7 v"
  unfolding sleb32_next_def Let_def
  by (rule bit_word_eqI)
     (auto simp: bit_simps bit_last_iff [symmetric] not_le dest: bit_imp_le_length)

lemma sint_scast64 [simp]: "sint (scast (v :: u32) :: i64) = sint v"
  by (simp add: sint_up_scast is_up)

lemma sleb32_next_scast: "(scast (sleb32_next v) :: i64) = sleb_next (scast v)"
proof -
  have "sint (scast (sleb32_next v) :: i64) = sint (sleb_next (scast v))"
    unfolding sint_sleb_next sint_scast64
    by (simp add: sleb32_next_eq sint_signed_drop_bit_eq drop_bit_eq_div)
  then show ?thesis by (rule signed_word_eqI)
qed

lemma scast64_eq_iff: "(scast (v :: u32) :: i64) = scast w \<longleftrightarrow> v = w"
  by (metis sint_scast64 signed_word_eqI)

lemma scast64_and: "(scast (v :: u32) :: i64) AND scast w = scast (v AND w)"
  by (rule bit_word_eqI) (auto simp: bit_simps)

lemma sleb32_done_scast: "sleb32_done v = sleb_done (scast v)"
proof -
  have a: "(scast v AND 0x40 = (0 :: i64)) = (v AND 0x40 = 0)"
    using scast64_and [where v = v and w = "0x40"] scast64_eq_iff [of "v AND 0x40" 0] by simp
  have b: "(sleb_next (scast v) = 0) = (sleb32_next v = 0)"
    "(sleb_next (scast v) = - 1) = (sleb32_next v = - 1)"
    using scast64_eq_iff [of "sleb32_next v" 0] scast64_eq_iff [of "sleb32_next v" "- 1"]
    by (simp_all add: sleb32_next_scast)
  show ?thesis by (simp add: sleb32_done_def sleb_done_def a b Let_def)
qed

function buf_sleb_i32 :: "u32 \<Rightarrow> buf_t \<Rightarrow> buf_t option" where
  "buf_sleb_i32 v b =
    (let c = v AND 0x7f
     in if sleb32_done v then buf_u8 c b
        else Option.bind (buf_u8 (c OR 0x80) b) (buf_sleb_i32 (sleb32_next v)))"
  by pat_completeness auto
termination
  by (relation "measure (\<lambda>(v, b). sleb_size (scast v))")
     (auto simp: sleb32_done_scast sleb32_next_scast intro: sleb_next_less)

declare buf_sleb_i32.simps [simp del]

lemma ucast_scast_low7: "(ucast ((scast (v :: u32) :: i64) AND 0x7f) :: u32) = v AND 0x7f"
  by (rule bit_word_eqI) (auto simp: bit_simps)

lemma sleb32_induct [case_names 1]:
  assumes "\<And>v. (\<not> sleb32_done v \<Longrightarrow> P (sleb32_next v)) \<Longrightarrow> P v"
  shows "P (v :: u32)"
proof (induction v rule: measure_induct_rule [where f = "\<lambda>v. sleb_size (scast v)"])
  case (less v)
  then show ?case
    using assms sleb_next_less [of "scast v"] by (simp add: sleb32_done_scast sleb32_next_scast)
qed

section \<open>Sequences of writes\<close>

primrec emit_all :: "(buf_t \<Rightarrow> buf_t option) list \<Rightarrow> buf_t \<Rightarrow> buf_t option" where
  "emit_all [] b = Some b"
| "emit_all (f # fs) b = Option.bind (f b) (emit_all fs)"

text \<open>\<^verbatim>\<open>buf_t b = {0}\<close>, and the new output with a limit.\<close>

definition new_buf :: "nat \<Rightarrow> buf_t" where
  "new_buf max_len = \<lparr>lb_data = [], lb_cap = 0, lb_max_len = max_len\<rparr>"

text \<open>
  The bytes a writer appends, whatever the buffer. It is fatal only when the bytes do not fit into
  the address space or under the limit of the buffer.
\<close>

definition too_long :: "buf_t \<Rightarrow> nat \<Rightarrow> bool" where
  "too_long b n =
    (length (lb_data b) + n > SIZE_MAX \<or> lb_max_len b \<noteq> 0 \<and> length (lb_data b) + n > lb_max_len b)"

definition writes :: "(buf_t \<Rightarrow> buf_t option) \<Rightarrow> u8 list \<Rightarrow> bool" where
  "writes f bs \<longleftrightarrow>
     (\<forall>b. case f b of Some b1 \<Rightarrow> buf_appended b bs b1 | None \<Rightarrow> too_long b (length bs))"

lemma writesD:
  assumes "writes f bs"
  shows "f b = Some b1 \<Longrightarrow> buf_appended b bs b1" "f b = None \<Longrightarrow> too_long b (length bs)"
  using assms by (auto simp: writes_def dest: spec [of _ b] split: option.splits)

lemma writesI:
  assumes "\<And>b b1. f b = Some b1 \<Longrightarrow> buf_appended b bs b1" "\<And>b. f b = None \<Longrightarrow> too_long b (length bs)"
  shows "writes f bs"
  using assms by (simp add: writes_def split: option.split)

lemma too_long_more: "too_long b n \<Longrightarrow> n \<le> m \<Longrightarrow> too_long b m"
  by (auto simp: too_long_def)

lemma too_long_appended: "buf_appended b xs b1 \<Longrightarrow> too_long b1 n \<Longrightarrow> too_long b (length xs + n)"
  by (auto simp: too_long_def buf_appended_def add.assoc)

lemma buf_reserve_None: "buf_reserve b n = None \<Longrightarrow> too_long b n"
  by (auto simp: buf_reserve_def too_long_def Let_def split: if_splits)

lemma writes_u8: "writes (buf_u8 v) [ucast v]"
  by (rule writesI) (auto simp: buf_u8_appended buf_u8_def intro: buf_reserve_None)

lemma writes_bytes: "writes (buf_bytes p) p"
  by (rule writesI) (auto simp: buf_bytes_appended buf_bytes_def intro: buf_reserve_None split: if_splits)

lemma writes_bind:
  assumes "writes f xs" "writes g ys"
  shows "writes (\<lambda>b. Option.bind (f b) g) (xs @ ys)"
proof (rule writesI)
  fix b b1 assume "Option.bind (f b) g = Some b1"
  then show "buf_appended b (xs @ ys) b1"
    using assms by (auto simp: bind_eq_Some_conv intro: buf_appended_trans dest: writesD)
next
  fix b assume n: "Option.bind (f b) g = None"
  show "too_long b (length (xs @ ys))"
  proof (cases "f b")
    case None
    then have "too_long b (length xs)" using assms(1) by (blast dest: writesD)
    then show ?thesis by (rule too_long_more) simp
  next
    case (Some b1)
    then have "buf_appended b xs b1" "too_long b1 (length ys)" using n assms by (auto dest: writesD)
    from too_long_appended [OF this] show ?thesis by simp
  qed
qed

lemma writes_uleb: "writes (buf_uleb v) (uleb_bytes v)"
proof (induction v rule: uleb_bytes.induct)
  case (1 v)
  show ?case
  proof (cases "drop_bit 7 v = 0")
    case True
    then have "buf_uleb v = buf_u8 (low7 v)" by (intro ext) (simp add: buf_uleb.simps [of v] Let_def)
    then show ?thesis using True writes_u8 [of "low7 v"] by (simp add: uleb_bytes.simps [of v])
  next
    case False
    then have "buf_uleb v = (\<lambda>b. Option.bind (buf_u8 (low7 v OR 0x80) b) (buf_uleb (drop_bit 7 v)))"
      by (intro ext) (simp add: buf_uleb.simps [of v] Let_def)
    then show ?thesis
      using False writes_bind [OF writes_u8 "1.IH" [OF False], of "low7 v OR 0x80"]
      by (simp add: uleb_bytes.simps [of v])
  qed
qed

lemma writes_sleb: "writes (buf_sleb_i32 v) (sleb_bytes (scast v))"
proof (induction v rule: sleb32_induct)
  case (1 v)
  show ?case
  proof (cases "sleb32_done v")
    case True
    then have "buf_sleb_i32 v = buf_u8 (v AND 0x7f)" by (intro ext) (simp add: buf_sleb_i32.simps [of v] Let_def)
    then show ?thesis
      using True writes_u8 [of "v AND 0x7f"]
      by (simp add: sleb_bytes.simps [of "scast v"] ucast_scast_low7 flip: sleb32_done_scast)
  next
    case False
    then have "buf_sleb_i32 v =
        (\<lambda>b. Option.bind (buf_u8 (v AND 0x7f OR 0x80) b) (buf_sleb_i32 (sleb32_next v)))"
      by (intro ext) (simp add: buf_sleb_i32.simps [of v] Let_def)
    then show ?thesis
      using False writes_bind [OF writes_u8 "1.IH" [OF False], of "v AND 0x7f OR 0x80"]
      by (simp add: sleb_bytes.simps [of "scast v"] ucast_scast_low7 sleb32_next_scast
          flip: sleb32_done_scast)
  qed
qed

lemma writes_str: "writes (buf_str s) (str_bytes s)"
proof -
  have "buf_str s = (\<lambda>b. Option.bind (buf_uleb (of_nat (length s)) b) (buf_bytes s))"
    by (rule ext) (simp add: buf_str_def)
  then show ?thesis using writes_bind [OF writes_uleb writes_bytes] by (simp add: str_bytes_def)
qed

lemma writes_nothing: "writes Some []"
  by (rule writesI) (simp_all add: buf_appended_def)

lemma emit_all_writes: "list_all2 writes fs bss \<Longrightarrow> writes (emit_all fs) (concat bss)"
proof (induction fs bss rule: list_all2_induct)
  case Nil
  have "emit_all [] = Some" by (rule ext) simp
  then show ?case using writes_nothing by simp
next
  case (Cons f fs bs bss)
  have "emit_all (f # fs) = (\<lambda>b. Option.bind (f b) (emit_all fs))" by (rule ext) simp
  then show ?case using writes_bind [OF Cons.hyps(1) Cons.IH] by simp
qed

text \<open>A section: its payload is written to a buffer of its own.\<close>

definition write_section :: "u32 \<Rightarrow> (buf_t \<Rightarrow> buf_t option) list \<Rightarrow> buf_t \<Rightarrow> buf_t option" where
  "write_section k fs out =
    Option.bind (emit_all fs (new_buf 0)) (\<lambda>sec. emit_section k (lb_data sec) out)"

definition section_bytes :: "u32 \<Rightarrow> u8 list \<Rightarrow> u8 list" where
  "section_bytes k payload = ucast k # uleb_bytes (of_nat (length payload)) @ payload"

lemma writes_section:
  assumes "list_all2 writes fs bss"
  shows "writes (write_section k fs) (section_bytes k (concat bss))"
proof -
  have e: "writes (emit_section k p) (section_bytes k p)" for p
  proof -
    have "emit_section k p = (\<lambda>b. Option.bind ((\<lambda>b. Option.bind (buf_u8 k b) (buf_uleb (of_nat (length p)))) b)
        (buf_bytes p))"
      by (rule ext) (simp add: emit_section_def)
    then show ?thesis
      using writes_bind [OF writes_bind [OF writes_u8 writes_uleb] writes_bytes]
      by (simp add: section_bytes_def)
  qed
  note p = writesD [OF emit_all_writes [OF assms], of "new_buf 0"]
  show ?thesis
  proof (cases "emit_all fs (new_buf 0)")
    case None
    then have "SIZE_MAX < length (concat bss)" using p(2) by (simp add: too_long_def new_buf_def)
    then have "too_long b (length (section_bytes k (concat bss)))" for b
      by (auto simp: too_long_def section_bytes_def)
    then show ?thesis using None by (intro writesI) (simp_all add: write_section_def)
  next
    case (Some sec)
    then have "lb_data sec = concat bss" using p(1) by (simp add: buf_appended_def new_buf_def)
    then have "write_section k fs = emit_section k (concat bss)"
      using Some by (intro ext) (simp add: write_section_def)
    then show ?thesis using e by simp
  qed
qed

section \<open>The wrapper of main\<close>

text \<open>The zero arguments the wrapper passes, one for each parameter.\<close>

definition wrapper_argument :: "u8 \<Rightarrow> (buf_t \<Rightarrow> buf_t option) list outcome" where
  "wrapper_argument ty =
    (if ty = 0x7e then Value [buf_u8 0x42, buf_sleb_i32 0]
     else if ty = 0x7f then Value [buf_u8 0x41, buf_sleb_i32 0]
     else Refused)"

primrec wrapper_arguments :: "type_t \<Rightarrow> nat \<Rightarrow> nat \<Rightarrow> (buf_t \<Rightarrow> buf_t option) list outcome" where
  "wrapper_arguments t i 0 = Value []"
| "wrapper_arguments t i (Suc n) =
    outcome_bind (wasm_type_param_valtype t (of_nat i)) (\<lambda>ty.
      outcome_bind (wrapper_argument ty) (\<lambda>ws.
        outcome_bind (wrapper_arguments t (Suc i) n) (\<lambda>rest. Value (ws @ rest))))"

definition fill_main_wrapper_body :: "type_t \<Rightarrow> int \<Rightarrow> u8 list outcome" where
  "fill_main_wrapper_body main_type main_final_index =
    outcome_bind (wasm_type_param_count main_type) (\<lambda>params.
      outcome_bind (wrapper_arguments main_type 0 (unat params)) (\<lambda>args.
        outcome_bind
          (or_refuse (emit_all ([buf_uleb 0] @ args @
             [buf_u8 0x10, buf_uleb (word_of_int main_final_index), buf_u8 0x0b]) (new_buf 0)))
          (\<lambda>b. Value (lb_data b))))"

definition maybe_add_main_wrapper ::
  "object_t list \<Rightarrow> bool \<Rightarrow> object_t \<Rightarrow> (object_t \<times> nat option) outcome" where
  "maybe_add_main_wrapper objs exports_main runtime =
    (if \<not> exports_main then Value (runtime, None)
     else case find_defined_func objs (Some (lit ''main'')) of
            None \<Rightarrow> Value (runtime, None)
          | Some (mo, mf) \<Rightarrow>
              let ti = lf_type_index (func_at objs (mo, mf)); main_obj = objs ! mo
              in if \<not> index_in ti (lo_types main_obj) then Refused
                 else let main_type = lo_types main_obj ! nat ti
                 in outcome_bind (wasm_type_param_count main_type) (\<lambda>params.
                      if params = 0 then Value (runtime, None)
                      else outcome_bind (wasm_type_result_valtype main_type) (\<lambda>result.
                        if result \<noteq> 0x7f then Value (runtime, None)
                        else Value
                          (runtime\<lparr>lo_types := lo_types runtime @ [[0x60, 0x00, 0x01, 0x7f]],
                             lo_funcs := lo_funcs runtime @
                               [zero_func\<lparr>lf_name := Some (lit ''main''),
                                          lf_type_index := int (length (lo_types runtime)),
                                          lf_defined := True\<rparr>]\<rparr>,
                           Some (length (lo_funcs runtime))))))"

text \<open>The function the wrapper calls: the last one with the name, other than the wrapper.\<close>

definition wrapper_target :: "object_t list \<Rightarrow> (nat \<times> nat) list \<Rightarrow> nat \<times> nat \<Rightarrow> (nat \<times> nat) option" where
  "wrapper_target objs defs wrapper =
    List.find (\<lambda>p. p \<noteq> wrapper \<and> lf_name (func_at objs p) = Some (lit ''main'')) (rev defs)"

definition fill_main_wrapper ::
  "(nat \<times> nat) option \<Rightarrow> (nat \<times> nat) list \<Rightarrow> object_t list \<Rightarrow> object_t list outcome" where
  "fill_main_wrapper wrapper defs objs =
    (case wrapper of
       None \<Rightarrow> Value objs
     | Some w \<Rightarrow>
         (case wrapper_target objs defs w of
            None \<Rightarrow> Refused
          | Some p \<Rightarrow>
              let f = func_at objs p
              in if lf_final_index f < 0 then Refused
                 else outcome_bind
                   (fill_main_wrapper_body (lo_types (objs ! fst p) ! nat (lf_type_index f))
                     (lf_final_index f))
                   (\<lambda>body. Value (set_func w ((func_at objs w)\<lparr>lf_body := body\<rparr>) objs))))"

section \<open>Exports\<close>

record export_spec_t =
  ex_name :: "u8 list"
  ex_signature :: "u8 list option"

definition export_list_contains :: "export_spec_t list \<Rightarrow> u8 list \<Rightarrow> bool" where
  "export_list_contains exports name = list_ex (\<lambda>e. ex_name e = name) exports"

definition find_c_signature :: "object_t \<Rightarrow> str_t \<Rightarrow> c_signature_t option" where
  "find_c_signature o1 name = List.find (\<lambda>c. str_eq (cs_name c) name) (lo_c_signatures o1)"

text \<open>Every way to fail is fatal; the source distinguishes them in the message only.\<close>

definition validate_export_c_signature :: "object_t list \<Rightarrow> export_spec_t \<Rightarrow> bool" where
  "validate_export_c_signature objs e =
    (case ex_signature e of
       None \<Rightarrow> True
     | Some signature \<Rightarrow>
         (case find_defined_func objs (Some (ex_name e)) of
            None \<Rightarrow> False
          | Some (di, df) \<Rightarrow>
              (case find_c_signature (objs ! di) (Some (ex_name e)) of
                 None \<Rightarrow> False
               | Some actual \<Rightarrow> cs_signature actual = Some signature)))"

text \<open>The index of an export: of the last defined function with the name, local ones included.\<close>

definition export_index :: "object_t list \<Rightarrow> (nat \<times> nat) list \<Rightarrow> u8 list \<Rightarrow> int" where
  "export_index objs defs name =
    fold (\<lambda>p i. if str_eq (lf_name (func_at objs p)) (Some name)
                then lf_final_index (func_at objs p) else i) defs (-1)"

fun resolve_exports ::
  "object_t list \<Rightarrow> (nat \<times> nat) list \<Rightarrow> export_spec_t list \<Rightarrow> u8 list list \<Rightarrow>
   (u8 list \<times> int) list outcome" where
  "resolve_exports objs defs [] seen = Value []"
| "resolve_exports objs defs (e # es) seen =
    (if ex_name e \<in> set seen then Refused
     else let i = export_index objs defs (ex_name e)
          in if i < 0 then Refused
             else outcome_bind (resolve_exports objs defs es (ex_name e # seen)) (\<lambda>rest.
               Value ((ex_name e, i) # rest)))"


section \<open>Linking\<close>

record linked_t =
  ln_objs :: "object_t list"
  ln_types :: "type_t list"
  ln_imports :: "final_import_t list"
  ln_defs :: "(nat \<times> nat) list"
  ln_datas :: "(nat \<times> nat) list"
  ln_tables :: "final_table_func_t list"
  ln_globals :: "final_global_t list"
  ln_memory_pages :: u32
  ln_needs_table :: bool
  ln_exports :: "(u8 list \<times> int) list"

text \<open>The objects with the runtime and the wrapper of main, which is in the last object.\<close>

definition with_runtime ::
  "(object_t list \<Rightarrow> bool \<Rightarrow> object_t outcome) \<Rightarrow> linker_options_t \<Rightarrow> export_spec_t list \<Rightarrow> bool \<Rightarrow>
   object_t list \<Rightarrow> (object_t list \<times> (nat \<times> nat) option) outcome" where
  "with_runtime synthesize options exports use_stdlib objs =
    outcome_bind
      (if use_stdlib then synthesize objs (\<not> has_option options LINK_OPT_STDIO_WRITE_IMPORT)
       else Value (zero_object\<lparr>lo_code_section_index := 0, lo_data_section_index := 0\<rparr>))
      (\<lambda>runtime.
        outcome_bind
          (maybe_add_main_wrapper objs (export_list_contains exports (lit ''main'')) runtime)
          (\<lambda>(runtime1, wrapper).
            Value
              (if lo_funcs runtime1 \<noteq> [] \<or> lo_data runtime1 \<noteq> [] then objs @ [runtime1] else objs,
               map_option (\<lambda>w. (length objs, w)) wrapper)))"

text \<open>The stack pointer starts at the top of the memory.\<close>

definition set_stack_pointer :: "u32 \<Rightarrow> final_global_t \<Rightarrow> final_global_t" where
  "set_stack_pointer stack_top g =
    (if is_stack_pointer_name (fg_name g) then g\<lparr>fg_init_value := stack_top\<rparr> else g)"

definition table_refused :: "linker_options_t \<Rightarrow> bool \<Rightarrow> final_table_func_t list \<Rightarrow> bool" where
  "table_refused options needs_table tables =
    ((needs_table \<or> tables \<noteq> []) \<and> has_option options LINK_OPT_MAX_TABLE \<and>
     of_nat (length tables) + 2 > op_maximum_table_elements options)"

text \<open>
  Everything up to the bytes, for the objects with the runtime. The names of the exports are looked
  up before anything is written; the source does it between two sections.
\<close>

definition resolve_module ::
  "link_env \<Rightarrow> object_t list \<Rightarrow> (nat \<times> nat) option \<Rightarrow>
   (link_t \<times> (nat \<times> nat) list \<times> (nat \<times> nat) list \<times> u32) outcome" where
  "resolve_module env objs wrapper =
    outcome_bind (collect_types objs []) (\<lambda>(objs1, types).
      let defs = defined_funcs objs1; datas = defined_data objs1
      in outcome_bind
           (add_unresolved_function_imports (le_func_signature_matches env) objs1 ([], types))
           (\<lambda>(imports, types1).
             let objs2 = number_funcs (length imports) defs objs1
             in outcome_bind (fill_main_wrapper wrapper defs objs2) (\<lambda>objs3.
                  outcome_bind (layout_data datas objs3) (\<lambda>(mem, objs4).
                    outcome_bind
                      (patch_object_relocations env
                        \<lparr>lk_objs = objs4, lk_types = types1, lk_imports = imports,
                         lk_globals = [], lk_tables = []\<rparr>)
                      (\<lambda>st. Value (st, defs, datas, mem))))))"

definition finish_module ::
  "linker_options_t \<Rightarrow> export_spec_t list \<Rightarrow> bool \<Rightarrow>
   link_t \<times> (nat \<times> nat) list \<times> (nat \<times> nat) list \<times> u32 \<Rightarrow> linked_t outcome" where
  "finish_module options exports needs_table = (\<lambda>(st, defs, datas, mem).
    outcome_bind
      (plan_memory options mem (has_runtime_layout_value datas (lk_objs st) (lit ''ag_rt_heap'')))
      (\<lambda>plan.
        if table_refused options needs_table (lk_tables st) then Refused
        else outcome_bind
          (patch_runtime_layout_value datas (lit ''ag_rt_heap'') (mp_heap_base plan) (lk_objs st))
          (\<lambda>objs1.
            outcome_bind
              (patch_runtime_layout_value datas (lit ''ag_rt_memory_limit_bytes'')
                (mp_heap_limit plan) objs1)
              (\<lambda>objs2.
                outcome_bind (resolve_exports objs2 defs exports []) (\<lambda>export_funcs.
                  Value \<lparr>ln_objs = objs2, ln_types = lk_types st, ln_imports = lk_imports st,
                    ln_defs = defs, ln_datas = datas, ln_tables = lk_tables st,
                    ln_globals = map (set_stack_pointer (mp_stack_top plan)) (lk_globals st),
                    ln_memory_pages = mp_memory_pages plan, ln_needs_table = needs_table,
                    ln_exports = export_funcs\<rparr>)))))"

definition link_objects ::
  "(object_t list \<Rightarrow> bool \<Rightarrow> object_t outcome) \<Rightarrow> link_env \<Rightarrow> linker_options_t \<Rightarrow>
   export_spec_t list \<Rightarrow> bool \<Rightarrow> object_t list \<Rightarrow> linked_t outcome" where
  "link_objects synthesize env options exports use_stdlib objs =
    (if has_option options LINK_OPT_MAX_MEMORY \<and>
        op_initial_memory_pages options > op_maximum_memory_pages options then Refused
     else if \<not> check_duplicate_definitions objs then Refused
     else if \<not> validate_continuation_metadata objs then Refused
     else outcome_bind (with_runtime synthesize options exports use_stdlib objs)
       (\<lambda>(objs1, wrapper).
         if \<not> list_all (validate_export_c_signature objs1) exports then Refused
         else outcome_bind (resolve_module env objs1 wrapper)
           (finish_module options exports (list_ex lo_imports_table objs1))))"

section \<open>Writing\<close>

text \<open>The module and name under which a function is imported.\<close>

definition import_name ::
  "linker_options_t \<Rightarrow> str_t \<Rightarrow> (u8 list \<times> u8 list) option" where
  "import_name options name =
    (if has_option options LINK_OPT_STDIO_WRITE_IMPORT \<and> name = Some (lit ''__agc_host_write'') then
       (case (op_stdio_write_import_module options, op_stdio_write_import_name options) of
          (Some m, Some n) \<Rightarrow> if m = [] \<or> n = [] then None else Some (m, n)
        | _ \<Rightarrow> None)
     else Some (lit ''env'', case name of None \<Rightarrow> [] | Some n \<Rightarrow> n))"

definition import_writers ::
  "linker_options_t \<Rightarrow> final_import_t \<Rightarrow> (buf_t \<Rightarrow> buf_t option) list" where
  "import_writers options i =
    (case import_name options (fi_name i) of
       None \<Rightarrow> [\<lambda>_. None]
     | Some (m, n) \<Rightarrow>
         [buf_str m, buf_str n, buf_u8 0, buf_uleb (word_of_int (fi_type_index i))])"

definition count_writer :: "'a list \<Rightarrow> buf_t \<Rightarrow> buf_t option" where
  "count_writer xs = buf_uleb (of_nat (length xs))"

definition global_writers :: "final_global_t \<Rightarrow> (buf_t \<Rightarrow> buf_t option) list" where
  "global_writers g =
    [buf_u8 0x7f, buf_u8 1, buf_u8 0x41, buf_sleb_i32 (fg_init_value g), buf_u8 0x0b]"

definition export_writers :: "u8 list \<times> int \<Rightarrow> (buf_t \<Rightarrow> buf_t option) list" where
  "export_writers = (\<lambda>(name, i). [buf_str name, buf_u8 0, buf_uleb (word_of_int i)])"

definition code_writers :: "func_t \<Rightarrow> (buf_t \<Rightarrow> buf_t option) list" where
  "code_writers f = [count_writer (lf_body f), buf_bytes (lf_body f)]"

definition data_writers :: "data_seg_t \<Rightarrow> (buf_t \<Rightarrow> buf_t option) list" where
  "data_writers d =
    [buf_u8 0, buf_u8 0x41, buf_sleb_i32 (ld_final_addr d), buf_u8 0x0b, count_writer (ld_bytes d),
     buf_bytes (ld_bytes d)]"

text \<open>A section that is left out when it would be empty.\<close>

definition optional :: "bool \<Rightarrow> u32 \<Rightarrow> (buf_t \<Rightarrow> buf_t option) list \<Rightarrow> (buf_t \<Rightarrow> buf_t option) list" where
  "optional present k fs = (if present then [write_section k fs] else [])"

definition table_writers :: "linker_options_t \<Rightarrow> final_table_func_t list \<Rightarrow> (buf_t \<Rightarrow> buf_t option) list" where
  "table_writers options tables =
    [buf_uleb 1, buf_u8 0x70, buf_u8 (if has_option options LINK_OPT_MAX_TABLE then 1 else 0),
     buf_uleb (of_nat (length tables) + 2)] @
    (if has_option options LINK_OPT_MAX_TABLE
     then [buf_uleb (op_maximum_table_elements options)] else [])"

definition memory_writers :: "linker_options_t \<Rightarrow> u32 \<Rightarrow> (buf_t \<Rightarrow> buf_t option) list" where
  "memory_writers options pages =
    [buf_uleb 1, buf_u8 (if has_option options LINK_OPT_MAX_MEMORY then 1 else 0), buf_uleb pages] @
    (if has_option options LINK_OPT_MAX_MEMORY
     then [buf_uleb (op_maximum_memory_pages options)] else [])"

definition module_writers :: "linker_options_t \<Rightarrow> linked_t \<Rightarrow> (buf_t \<Rightarrow> buf_t option) list" where
  "module_writers options m =
    (let objs = ln_objs m; funcs = map (func_at objs) (ln_defs m); segs = map (data_at objs) (ln_datas m);
         tables = ln_tables m
     in [buf_u32le 0x6d736100, buf_u32le 1] @
        [write_section 1 (count_writer (ln_types m) # map buf_bytes (ln_types m))] @
        optional (ln_imports m \<noteq> []) 2
          (count_writer (ln_imports m) # concat (map (import_writers options) (ln_imports m))) @
        optional (funcs \<noteq> []) 3
          (count_writer funcs # map (\<lambda>f. buf_uleb (word_of_int (lf_final_type f))) funcs) @
        optional (ln_needs_table m \<or> tables \<noteq> []) 4 (table_writers options tables) @
        [write_section 5 (memory_writers options (ln_memory_pages m))] @
        optional (ln_globals m \<noteq> []) 6
          (count_writer (ln_globals m) # concat (map global_writers (ln_globals m))) @
        [write_section 7
           ([buf_uleb (1 + of_nat (length (ln_exports m))), buf_str (lit ''memory''), buf_u8 2, buf_uleb 0] @
            concat (map export_writers (ln_exports m)))] @
        optional (tables \<noteq> []) 9
          ([buf_uleb 1, buf_u8 0, buf_u8 0x41, buf_sleb_i32 2, buf_u8 0x0b, count_writer tables] @
           map (\<lambda>t. buf_uleb (word_of_int (ft_final_func_index t))) tables) @
        optional (funcs \<noteq> []) 10 (count_writer funcs # concat (map code_writers funcs)) @
        optional (segs \<noteq> []) 11 (count_writer segs # concat (map data_writers segs)))"

definition build_module_into ::
  "(object_t list \<Rightarrow> bool \<Rightarrow> object_t outcome) \<Rightarrow> link_env \<Rightarrow> linker_options_t option \<Rightarrow>
   export_spec_t list \<Rightarrow> bool \<Rightarrow> nat \<Rightarrow> object_t list \<Rightarrow> buf_t outcome" where
  "build_module_into synthesize env requested_options exports use_stdlib max_output_bytes objs =
    (let options = (case requested_options of Some opts \<Rightarrow> opts | None \<Rightarrow> default_linker_options)
     in outcome_bind (link_objects synthesize env options exports use_stdlib objs) (\<lambda>m.
          or_refuse (emit_all (module_writers options m) (new_buf max_output_bytes))))"


end
