(* ===== verification/LinkSound.thy ===== *)
theory LinkSound
  imports LinkOutput
begin

text \<open>
  What a successful link guarantees. The stages of \<^verbatim>\<open>build_module_into\<close> (shared types, imports,
  numbering, layout, relocation, runtime values) each keep what the earlier ones established, so
  that in the linked module the functions are numbered the way they are written, the segments lie
  in the declared memory and the fields of the relocations hold what they denote.
\<close>

section \<open>The stages before the relocations\<close>

text \<open>What numbering, the wrapper and the layout do not change.\<close>

definition func_view :: "func_t \<Rightarrow> str_t \<times> int \<times> bool \<times> int \<times> int" where
  "func_view f = (lf_name f, lf_type_index f, lf_defined f, lf_final_type f, lf_final_table_index f)"

definition obj_view ::
  "object_t \<Rightarrow> symbol_t list \<times> reloc_t list \<times> type_t list \<times> (str_t \<times> int \<times> bool \<times> int \<times> int) list \<times> nat"
  where
  "obj_view o1 =
    (lo_symbols o1, lo_relocs o1, lo_types o1, map func_view (lo_funcs o1), length (lo_data o1))"

definition same_view :: "object_t list \<Rightarrow> object_t list \<Rightarrow> bool" where
  "same_view objs objs1 \<longleftrightarrow> map obj_view objs1 = map obj_view objs"

lemma same_view_refl [simp]: "same_view objs objs"
  by (simp add: same_view_def)

lemma same_view_trans: "same_view a b \<Longrightarrow> same_view b c \<Longrightarrow> same_view a c"
  by (simp add: same_view_def)

lemma same_view_set_data [simp]: "same_view objs (set_data p d objs)"
  by (cases p; cases "fst p < length objs")
     (simp_all add: same_view_def set_data_def map_update_same not_less list_update_beyond obj_view_def)

lemma same_view_set_func:
  "func_in objs p \<Longrightarrow> func_view f = func_view (func_at objs p) \<Longrightarrow> same_view objs (set_func p f objs)"
  by (cases p)
     (simp add: same_view_def set_func_def func_in_def func_at_def obj_view_def map_update_same)

lemma same_view_length: "same_view a b \<Longrightarrow> length b = length a"
  by (metis length_map same_view_def)

lemma same_view_nth:
  assumes "same_view a b" "i < length a"
  shows "obj_view (b ! i) = obj_view (a ! i)"
proof -
  have "map obj_view b ! i = map obj_view a ! i" using assms(1) by (simp add: same_view_def)
  then show ?thesis using assms same_view_length [OF assms(1)] by simp
qed

lemma obj_view_funcs:
  assumes "obj_view b = obj_view a"
  shows "length (lo_funcs b) = length (lo_funcs a)" "length (lo_data b) = length (lo_data a)"
    "i < length (lo_funcs a) \<Longrightarrow> func_view (lo_funcs b ! i) = func_view (lo_funcs a ! i)"
proof -
  have *: "map func_view (lo_funcs b) = map func_view (lo_funcs a)" using assms by (simp add: obj_view_def)
  then show l: "length (lo_funcs b) = length (lo_funcs a)" by (metis length_map)
  show "length (lo_data b) = length (lo_data a)" using assms by (simp add: obj_view_def)
  show "func_view (lo_funcs b ! i) = func_view (lo_funcs a ! i)" if "i < length (lo_funcs a)"
    using * that l by (metis nth_map)
qed

lemma same_view_in:
  assumes "same_view a b"
  shows "func_in b p = func_in a p" "data_in b p = data_in a p"
    "func_in a p \<Longrightarrow> func_view (func_at b p) = func_view (func_at a p)"
  using same_view_length [OF assms] obj_view_funcs [OF same_view_nth [OF assms, of "fst p"]]
  by (cases p; auto simp: func_in_def data_in_def func_at_def)+

text \<open>Numbering the functions.\<close>

definition numbered_from :: "nat \<Rightarrow> nat \<Rightarrow> (nat \<times> nat) list \<Rightarrow> object_t list \<Rightarrow> object_t list" where
  "numbered_from import_count n defs objs =
    fold (\<lambda>(i, p) objs. set_func p ((func_at objs p)\<lparr>lf_final_index := int (import_count + i)\<rparr>) objs)
      (zip [n..<n + length defs] defs) objs"

lemma numbered_from_Nil [simp]: "numbered_from c n [] objs = objs"
  by (simp add: numbered_from_def)

lemma numbered_from_Cons [simp]:
  "numbered_from c n (d # defs) objs =
   numbered_from c (Suc n) defs (set_func d ((func_at objs d)\<lparr>lf_final_index := int (c + n)\<rparr>) objs)"
  by (simp add: numbered_from_def upt_conv_Cons del: upt_Suc)

lemma numbered_from_other:
  "p \<notin> set defs \<Longrightarrow> \<forall>d \<in> set defs. func_in objs d \<Longrightarrow> func_at (numbered_from c n defs objs) p = func_at objs p"
  by (induction defs arbitrary: objs n) (simp_all add: func_at_set_func)

lemma numbered_from_keeps:
  "\<forall>d \<in> set defs. func_in objs d \<Longrightarrow>
   same_view objs (numbered_from c n defs objs) \<and> data_at (numbered_from c n defs objs) q = data_at objs q"
proof (induction defs arbitrary: objs n)
  case Nil
  then show ?case by simp
next
  case (Cons d defs)
  let ?objs = "set_func d ((func_at objs d)\<lparr>lf_final_index := int (c + n)\<rparr>) objs"
  have "same_view objs ?objs"
    using Cons.prems by (intro same_view_set_func) (simp_all add: func_view_def)
  then show ?case
    using Cons.IH [of ?objs "Suc n"] Cons.prems same_view_trans by auto
qed

lemma numbered_from_index:
  "distinct defs \<Longrightarrow> \<forall>d \<in> set defs. func_in objs d \<Longrightarrow> k < length defs \<Longrightarrow>
   lf_final_index (func_at (numbered_from c n defs objs) (defs ! k)) = int (c + n + k)"
proof (induction defs arbitrary: objs n k)
  case Nil
  then show ?case by simp
next
  case (Cons d defs)
  then show ?case
    by (cases k) (simp_all add: numbered_from_other func_at_set_func)
qed

lemma number_funcs_numbered:
  assumes "distinct defs" "\<forall>p \<in> set defs. func_in objs p"
  shows "same_view objs (number_funcs n defs objs)"
    "data_at (number_funcs n defs objs) q = data_at objs q"
    "k < length defs \<Longrightarrow> lf_final_index (func_at (number_funcs n defs objs) (defs ! k)) = int (n + k)"
proof -
  have "number_funcs n defs objs = numbered_from n 0 defs objs"
    by (simp add: number_funcs_def numbered_from_def)
  then show "same_view objs (number_funcs n defs objs)"
    "data_at (number_funcs n defs objs) q = data_at objs q"
    "k < length defs \<Longrightarrow> lf_final_index (func_at (number_funcs n defs objs) (defs ! k)) = int (n + k)"
    using numbered_from_keeps [OF assms(2)] numbered_from_index [OF assms] by simp_all
qed

lemma defined_funcs_distinct: "distinct (defined_funcs objs)"
  unfolding defined_funcs_def by (rule distinct_pairs) simp_all

lemma defined_funcs_in: "p \<in> set (defined_funcs objs) \<longleftrightarrow> func_in objs p \<and> lf_defined (func_at objs p)"
  by (cases p) (auto simp: defined_funcs_def func_in_def func_at_def)

text \<open>The wrapper of main gets a body and nothing else.\<close>

lemma fill_main_wrapper_keeps:
  assumes "fill_main_wrapper wrapper defs objs = Value objs1" "\<And>w. wrapper = Some w \<Longrightarrow> func_in objs w"
  shows "same_view objs objs1" "data_at objs1 q = data_at objs q"
    "lf_final_index (func_at objs1 p) = lf_final_index (func_at objs p)"
proof -
  have "objs1 = objs \<or> (\<exists>w b. func_in objs w \<and> objs1 = set_func w ((func_at objs w)\<lparr>lf_body := b\<rparr>) objs)"
    using assms by (fastforce simp: fill_main_wrapper_def Let_def elim!: outcome_bind_ValueE
        split: option.splits if_splits)
  then show "same_view objs objs1" "data_at objs1 q = data_at objs q"
    "lf_final_index (func_at objs1 p) = lf_final_index (func_at objs p)"
    by (auto simp: func_at_set_func func_view_def intro!: same_view_set_func)
qed

text \<open>The layout places segments and leaves everything else alone.\<close>

lemma layout_data_keeps:
  "for_each place_segment ds (mem, objs) = Value (mem1, objs1) \<Longrightarrow>
   same_view objs objs1 \<and> func_at objs1 p = func_at objs p"
proof (induction ds arbitrary: mem objs)
  case Nil
  then show ?case by simp
next
  case (Cons d ds)
  obtain mem2 objs2 where
      one: "place_segment d (mem, objs) = Value (mem2, objs2)"
    and rest: "for_each place_segment ds (mem2, objs2) = Value (mem1, objs1)"
    using Cons.prems(1) by (auto elim!: outcome_bind_ValueE)
  have "same_view objs objs2" "func_at objs2 p = func_at objs p"
    using one by (auto elim!: place_segment_Value)
  then show ?case using Cons.IH [OF rest] same_view_trans [of objs objs2 objs1] by simp
qed

section \<open>The shared types\<close>

text \<open>The final type of every function is, among the shared types, the type its object declares.\<close>

definition shared_types :: "type_t list \<Rightarrow> object_t \<Rightarrow> bool" where
  "shared_types types o1 \<longleftrightarrow>
     list_all (\<lambda>f. index_in (lf_type_index f) (lo_types o1) \<and> index_in (lf_final_type f) types \<and>
       types ! nat (lf_final_type f) = lo_types o1 ! nat (lf_type_index f)) (lo_funcs o1)"

text \<open>Collecting the types of an object sets its type map and the final types of its functions.\<close>

definition collected :: "object_t \<Rightarrow> object_t \<Rightarrow> bool" where
  "collected a b \<longleftrightarrow>
     (\<exists>tm g. b = a\<lparr>lo_type_map := tm, lo_funcs := map (\<lambda>f. f\<lparr>lf_final_type := g f\<rparr>) (lo_funcs a)\<rparr>)"

lemma index_in_append: "index_in i xs \<Longrightarrow> index_in i (xs @ ys) \<and> (xs @ ys) ! nat i = xs ! nat i"
  by (auto simp: index_in_def nth_append)

lemma shared_types_append: "shared_types types o1 \<Longrightarrow> shared_types (types @ us) o1"
  by (auto simp: shared_types_def list_all_iff index_in_append)

lemma intern_type_index:
  assumes "intern_type types t = (i, types1)"
  shows "\<exists>us. types1 = types @ us" "index_in i types1" "types1 ! nat i = t"
    "distinct types \<Longrightarrow> distinct types1"
  using assms
  by (auto simp: intern_type_def index_in_def find_position_None dest!: find_position_0 split: option.splits)

lemma intern_types_index:
  "intern_types types ts = (is, types1) \<Longrightarrow>
   (\<exists>us. types1 = types @ us) \<and> length is = length ts \<and>
   (\<forall>j < length ts. index_in (is ! j) types1 \<and> types1 ! nat (is ! j) = ts ! j) \<and>
   (distinct types \<longrightarrow> distinct types1)"
proof (induction ts arbitrary: types "is")
  case Nil
  then show ?case by simp
next
  case (Cons t ts)
  obtain i types2 is2 where i: "intern_type types t = (i, types2)"
      and r: "intern_types types2 ts = (is2, types1)" and e: "is = i # is2"
    using Cons.prems by (auto split: prod.splits)
  note one = intern_type_index [OF i] and IH = Cons.IH [OF r]
  obtain us vs where u: "types2 = types @ us" "types1 = types2 @ vs" using one(1) IH by blast
  have "index_in i types1 \<and> types1 ! nat i = t"
    using index_in_append [OF one(2), of vs] one(3) u(2) by simp
  then show ?case using IH one(4) u by (auto simp: e nth_Cons split: nat.split)
qed

lemma collect_types_shared:
  "collect_types objs types = Value (objs1, types1) \<Longrightarrow> list_all (\<lambda>o1. lo_type_map o1 = None) objs \<Longrightarrow>
   (\<exists>us. types1 = types @ us) \<and> list_all2 collected objs objs1 \<and>
   list_all (shared_types types1) objs1 \<and> (distinct types \<longrightarrow> distinct types1)"
proof (induction objs arbitrary: types objs1)
  case Nil
  then show ?case by simp
next
  case (Cons a objs)
  obtain tm types2 where i: "intern_types types (lo_types a) = (tm, types2)" by fastforce
  let ?b = "a\<lparr>lo_type_map := Some tm\<rparr>"
  obtain c os where c: "final_types ?b tm = Some c" and r: "collect_types objs types2 = Value (os, types1)"
      and e: "objs1 = c # os"
    using Cons.prems i by (auto simp: build_object_type_map_def elim!: outcome_bind_ValueE split: option.splits)
  have IH: "\<exists>us. types1 = types2 @ us" "list_all2 collected objs os" "list_all (shared_types types1) os"
    "distinct types2 \<longrightarrow> distinct types1"
    using Cons.IH [OF r] Cons.prems by simp_all
  note one = intern_types_index [OF i]
  have cd: "c = ?b\<lparr>lo_funcs := map (\<lambda>f. f\<lparr>lf_final_type := tm ! nat (lf_type_index f)\<rparr>) (lo_funcs a)\<rparr>"
    and ti: "list_all (\<lambda>f. index_in (lf_type_index f) (lo_types a)) (lo_funcs a)"
    using c by (auto simp: final_types_def split: if_splits)
  have "shared_types types2 c"
    using one ti by (auto simp: cd shared_types_def list_all_iff index_in_def)
  then have "shared_types types1 c" using IH(1) shared_types_append by blast
  moreover have "collected a c"
    unfolding collected_def cd by (rule exI [of _ "Some tm"], rule exI [of _ "\<lambda>f. tm ! nat (lf_type_index f)"]) simp
  ultimately show ?case using IH one by (auto simp: e)
qed

text \<open>
  What the compiler and the reader promise of an object: consistent symbols, no type map yet, no
  function in the table yet, and names on all symbols.
\<close>

definition fresh_object :: "object_t \<Rightarrow> bool" where
  "fresh_object o1 \<longleftrightarrow>
     object_ok o1 \<and> lo_type_map o1 = None \<and> list_all (\<lambda>f. lf_final_table_index f = 0) (lo_funcs o1) \<and>
     list_all (\<lambda>s. ls_name s \<noteq> None) (lo_symbols o1)"

lemma collected_fields:
  assumes "collected a b"
  shows "lo_symbols b = lo_symbols a" "lo_relocs b = lo_relocs a" "lo_data b = lo_data a"
    "length (lo_funcs b) = length (lo_funcs a)" "lo_types b = lo_types a"
    "i < length (lo_funcs a) \<Longrightarrow> lf_defined (lo_funcs b ! i) = lf_defined (lo_funcs a ! i)"
    "i < length (lo_funcs a) \<Longrightarrow> lf_name (lo_funcs b ! i) = lf_name (lo_funcs a ! i)"
    "i < length (lo_funcs a) \<Longrightarrow> lf_final_table_index (lo_funcs b ! i) = lf_final_table_index (lo_funcs a ! i)"
  using assms by (auto simp: collected_def)

lemma object_ok_same:
  assumes ok: "object_ok a"
    and f: "lo_symbols b = lo_symbols a" "lo_relocs b = lo_relocs a"
      "length (lo_funcs b) = length (lo_funcs a)"
    and n: "\<And>i. i < length (lo_funcs a) \<Longrightarrow> lf_defined (lo_funcs b ! i) = lf_defined (lo_funcs a ! i)"
      "\<And>i. i < length (lo_funcs a) \<Longrightarrow> lf_name (lo_funcs b ! i) = lf_name (lo_funcs a ! i)"
  shows "object_ok b"
proof -
  have i: "index_in k (lo_funcs b) = index_in k (lo_funcs a)" for k
    using f(3) by (simp add: index_in_def)
  have s: "symbols_consistent a" using ok by (simp add: object_ok_def)
  then have k: "nat (ls_index s) < length (lo_funcs a)"
    if "s \<in> set (lo_symbols a)" "ls_kind s = SYM_FUNCTION" for s
    using that by (auto simp: symbols_consistent_def list_all_iff index_in_def)
  have "symbols_consistent b"
    using s k n(1) by (auto simp: symbols_consistent_def list_all_iff f i)
  moreover have "import_names_ok b"
    using ok k n(2) by (auto simp: object_ok_def import_names_ok_def list_all_iff f)
  moreover have "function_relocs_ok b"
    using ok by (simp add: object_ok_def function_relocs_ok_def reloc_symbol_def f
        cong: list.pred_cong option.case_cong if_cong)
  ultimately show ?thesis by (simp add: object_ok_def)
qed

lemma object_ok_view: "obj_view b = obj_view a \<Longrightarrow> object_ok a \<Longrightarrow> object_ok b"
proof (rule object_ok_same)
  assume v: "obj_view b = obj_view a"
  then show "lo_symbols b = lo_symbols a" "lo_relocs b = lo_relocs a" by (simp_all add: obj_view_def)
  show "length (lo_funcs b) = length (lo_funcs a)" by (rule obj_view_funcs [OF v])
  show "lf_defined (lo_funcs b ! i) = lf_defined (lo_funcs a ! i)"
    "lf_name (lo_funcs b ! i) = lf_name (lo_funcs a ! i)" if "i < length (lo_funcs a)" for i
    using obj_view_funcs(3) [OF v that] by (simp_all add: func_view_def)
qed

lemma object_ok_collected: "collected a b \<Longrightarrow> object_ok a \<Longrightarrow> object_ok b"
  by (rule object_ok_same [where a = a]) (simp_all add: collected_fields)

lemma shared_types_view:
  assumes "obj_view b = obj_view a" "shared_types types a"
  shows "shared_types types b"
proof -
  have *: "lf_type_index (lo_funcs b ! i) = lf_type_index (lo_funcs a ! i) \<and>
      lf_final_type (lo_funcs b ! i) = lf_final_type (lo_funcs a ! i)" if "i < length (lo_funcs a)" for i
    using obj_view_funcs(3) [OF assms(1) that] by (simp add: func_view_def)
  have "lo_types b = lo_types a" using assms(1) by (simp add: obj_view_def)
  then show ?thesis
    using assms(2) * obj_view_funcs(1) [OF assms(1)] by (simp add: shared_types_def list_all_length)
qed

lemma shared_types_same:
  assumes "obj_same a b" "shared_types types a"
  shows "shared_types types b"
proof -
  have "lf_final_type (lo_funcs b ! i) = lf_final_type (lo_funcs a ! i)" if "i < length (lo_funcs a)" for i
  proof -
    have "func_mask (lo_funcs a ! i) = func_mask (lo_funcs b ! i)"
      using obj_same_func [OF assms(1) that] by (simp add: func_same_def)
    then have "lf_final_type (func_mask (lo_funcs a ! i)) = lf_final_type (func_mask (lo_funcs b ! i))"
      by simp
    then show ?thesis by (simp add: func_mask_def)
  qed
  then show ?thesis
    using assms(2) obj_same_fields(2) [OF assms(1)] obj_same_lengths(1) [OF assms(1)]
      func_same_fields(2) [OF obj_same_func [OF assms(1)]]
    by (simp add: shared_types_def list_all_length)
qed

text \<open>Patching only adds to the shared types.\<close>

definition types_grow :: "link_t \<Rightarrow> link_t \<Rightarrow> bool" where
  "types_grow st st1 \<longleftrightarrow>
     (\<exists>us. lk_types st1 = lk_types st @ us) \<and> (distinct (lk_types st) \<longrightarrow> distinct (lk_types st1))"

lemma types_grow_refl [simp]: "types_grow st st"
  by (simp add: types_grow_def)

lemma types_grow_trans: "types_grow a b \<Longrightarrow> types_grow b c \<Longrightarrow> types_grow a c"
  by (auto simp: types_grow_def)

lemma types_grow_same: "lk_types st1 = lk_types st \<Longrightarrow> types_grow st st1"
  by (simp add: types_grow_def)

lemma final_func_index_types:
  "final_func_index_for_symbol env cur s st = Value (i, st1) \<Longrightarrow> types_grow st st1"
  by (auto simp: final_func_index_for_symbol_def Let_def types_grow_def
      dest: intern_type_index(1,4) split: if_splits option.splits prod.splits)

lemma function_reloc_index_types:
  "function_reloc_index env cur s st = Value (i, st1) \<Longrightarrow> types_grow st st1"
  by (auto simp: function_reloc_index_def intro: final_func_index_types split: if_splits)

lemma table_index_types:
  assumes "table_index_for_symbol env cur s st = Value (i, st1)"
  shows "types_grow st st1"
proof -
  obtain f st2 p where f: "final_func_index_for_reloc_symbol env cur s st = Value (f, st2)"
      and e: "intern_table_func p f st2 = (i, st1)"
    using assms by (auto simp: table_index_for_symbol_def elim!: outcome_bind_ValueE)
  have "types_grow st st2"
    using f by (auto simp: final_func_index_for_reloc_symbol_def intro: final_func_index_types split: if_splits)
  moreover have "lk_types st1 = lk_types st2"
    using e by (auto simp: intern_table_func_def Let_def split: if_splits option.splits)
  ultimately show ?thesis by (simp add: types_grow_def)
qed

lemma global_index_types: "global_index_for_symbol s st = Value (i, st1) \<Longrightarrow> types_grow st st1"
  by (auto simp: global_index_for_symbol_def intro: types_grow_same split: if_splits option.splits)

lemma symbol_index_types:
  assumes "symbol_index f o1 r st = Value (v, st1)"
    "\<And>s i st1. f s st = Value (i, st1) \<Longrightarrow> types_grow st st1"
  shows "types_grow st st1"
  using assms by (auto simp: symbol_index_def elim!: outcome_bind_ValueE)

lemma memory_value_types: "memory_reloc_value env cur r st = Value (v, st1) \<Longrightarrow> types_grow st st1"
  by (auto simp: memory_reloc_value_def elim!: outcome_bind_ValueE)

lemma code_value_types: "code_reloc_value env cur r st = Value (v, st1) \<Longrightarrow> types_grow st st1"
  unfolding code_reloc_value_def Let_def
  by (auto split: if_splits intro: memory_value_types function_reloc_index_types table_index_types
      global_index_types elim!: symbol_index_types outcome_bind_ValueE)

lemma data_value_types: "data_reloc_value env cur r st = Value (v, st1) \<Longrightarrow> types_grow st st1"
  unfolding data_reloc_value_def
  by (auto split: if_splits intro: memory_value_types table_index_types elim!: symbol_index_types)

lemma patch_reloc_types:
  assumes "patch_reloc env x st = Value st2"
  shows "types_grow st st2"
proof -
  have "\<exists>v st1. (code_reloc_value env (fst x) (snd x) st = Value (v, st1) \<or>
        data_reloc_value env (fst x) (snd x) st = Value (v, st1)) \<and> lk_types st2 = lk_types st1"
    using assms by (fastforce simp: patch_reloc_def patch_code_def patch_data_def Let_def
        elim!: outcome_bind_ValueE split: prod.splits if_splits option.splits)
  then show ?thesis
    using code_value_types data_value_types by (fastforce simp: types_grow_def)
qed

lemma patch_object_relocations_types:
  assumes "patch_object_relocations env st = Value st1"
  shows "types_grow st st1"
proof -
  have "for_each (patch_reloc env) xs st = Value st1 \<Longrightarrow> types_grow st st1" for xs st
    by (induction xs arbitrary: st)
       (auto elim!: outcome_bind_ValueE intro: types_grow_trans patch_reloc_types)
  then show ?thesis using assms by (simp add: patch_object_relocations_def)
qed

section \<open>The state before writing\<close>

text \<open>The segments of a module: placed, aligned, and disjoint below the end of the data.\<close>

definition segments_ok :: "(nat \<times> nat) list \<Rightarrow> object_t list \<Rightarrow> nat \<Rightarrow> bool" where
  "segments_ok datas objs high \<longleftrightarrow>
     (\<forall>p \<in> set datas. data_in objs p \<and> 1024 \<le> unat (ld_final_addr (data_at objs p)) \<and>
        unat (segment_alignment (data_at objs p)) dvd unat (ld_final_addr (data_at objs p)) \<and>
        segment_end (data_at objs p) \<le> high) \<and>
     (\<forall>p \<in> set datas. \<forall>q \<in> set datas. p \<noteq> q \<longrightarrow>
        segment_end (data_at objs p) \<le> unat (ld_final_addr (data_at objs q)) \<or>
        segment_end (data_at objs q) \<le> unat (ld_final_addr (data_at objs p)))"

lemma data_same_segment:
  assumes "data_same d e"
  shows "segment_end e = segment_end d" "segment_alignment e = segment_alignment d"
    "ld_final_addr e = ld_final_addr d" "ld_name e = ld_name d" "length (ld_bytes e) = length (ld_bytes d)"
proof -
  have m: "segment_end (data_mask d) = segment_end d" "segment_alignment (data_mask d) = segment_alignment d"
    "ld_name (data_mask d) = ld_name d" for d
    by (simp_all add: segment_end_def segment_size_def segment_alignment_def data_mask_def)
  show "segment_end e = segment_end d" "segment_alignment e = segment_alignment d" "ld_name e = ld_name d"
    using assms m [of d] m [of e] by (simp_all add: data_same_def)
  show "ld_final_addr e = ld_final_addr d" "length (ld_bytes e) = length (ld_bytes d)"
    using data_same_fields [OF assms] by simp_all
qed

lemma obj_same_data_at:
  assumes "list_all2 obj_same objs objs1"
  shows "data_in objs1 p = data_in objs p" "data_in objs p \<Longrightarrow> data_same (data_at objs p) (data_at objs1 p)"
proof -
  have l: "length objs1 = length objs" using assms by (auto dest: list_all2_lengthD)
  show "data_in objs1 p = data_in objs p" "data_in objs p \<Longrightarrow> data_same (data_at objs p) (data_at objs1 p)"
    using obj_same_lengths [OF list_all2_nthD [OF assms, of "fst p"]]
      obj_same_data [OF list_all2_nthD [OF assms, of "fst p"]]
    by (cases p; auto simp: data_in_def data_at_def l)+
qed

lemma obj_same_func_at:
  assumes "list_all2 obj_same objs objs1"
  shows "func_in objs1 p = func_in objs p" "func_in objs p \<Longrightarrow> func_same (func_at objs p) (func_at objs1 p)"
proof -
  have l: "length objs1 = length objs" using assms by (auto dest: list_all2_lengthD)
  show "func_in objs1 p = func_in objs p" "func_in objs p \<Longrightarrow> func_same (func_at objs p) (func_at objs1 p)"
    using obj_same_lengths [OF list_all2_nthD [OF assms, of "fst p"]]
      obj_same_func [OF list_all2_nthD [OF assms, of "fst p"]]
    by (cases p; auto simp: func_in_def func_at_def l)+
qed

lemma segments_ok_same:
  assumes "list_all2 obj_same objs objs1" "segments_ok datas objs high"
  shows "segments_ok datas objs1 high"
proof -
  have "data_in objs1 p \<and> segment_end (data_at objs1 p) = segment_end (data_at objs p) \<and>
      segment_alignment (data_at objs1 p) = segment_alignment (data_at objs p) \<and>
      ld_final_addr (data_at objs1 p) = ld_final_addr (data_at objs p)" if "p \<in> set datas" for p
    using that assms(2) obj_same_data_at [OF assms(1), of p] data_same_segment
    by (simp add: segments_ok_def)
  then show ?thesis using assms(2) by (simp add: segments_ok_def)
qed

lemma layout_segments_ok:
  assumes "layout_data ds objs = Value (mem, objs1)" "distinct ds" "\<forall>p \<in> set ds. data_in objs p"
  shows "segments_ok ds objs1 (unat mem)"
proof -
  note l = layout_steps [OF assms(1) [unfolded layout_data_def] assms(2,3)]
  have "same_view objs objs1"
    using layout_data_keeps [OF assms(1) [unfolded layout_data_def]] by simp
  then have "\<forall>p \<in> set ds. data_in objs1 p" using assms(3) by (simp add: same_view_in)
  then show ?thesis using l by (auto simp: segments_ok_def placed_def)
qed

text \<open>The state after the relocations.\<close>

definition resolved :: "link_t \<Rightarrow> (nat \<times> nat) list \<Rightarrow> (nat \<times> nat) list \<Rightarrow> u32 \<Rightarrow> bool" where
  "resolved st defs datas mem \<longleftrightarrow>
     link_ok st \<and> imports_ok (lk_imports st, lk_types st) \<and>
     list_all (shared_types (lk_types st)) (lk_objs st) \<and> distinct defs \<and>
     (\<forall>p. p \<in> set defs \<longleftrightarrow> func_in (lk_objs st) p \<and> lf_defined (func_at (lk_objs st) p)) \<and>
     (\<forall>k < length defs. lf_final_index (func_at (lk_objs st) (defs ! k)) = int (length (lk_imports st) + k)) \<and>
     distinct datas \<and> segments_ok datas (lk_objs st) (unat mem)"

lemma link_ok_start:
  assumes "list_all object_ok objs" "distinct (map fi_name imports)"
    "\<And>p. func_in objs p \<Longrightarrow> lf_final_table_index (func_at objs p) = 0"
  shows "link_ok \<lparr>lk_objs = objs, lk_types = types, lk_imports = imports, lk_globals = [], lk_tables = []\<rparr>"
  using assms by (simp add: link_ok_def tables_ok_def)

lemma all_symbols_in: "x \<in> set (all_symbols objs) \<Longrightarrow> fst x < length objs \<and> snd x \<in> set (lo_symbols (objs ! fst x))"
  by (auto simp: all_symbols_def)

lemma same_view_all:
  assumes "same_view a b" "list_all P a" "\<And>x y. obj_view y = obj_view x \<Longrightarrow> P x \<Longrightarrow> P y"
  shows "list_all P b"
  using assms(2,3) same_view_length [OF assms(1)] same_view_nth [OF assms(1)]
  by (auto simp: list_all_length)

text \<open>
  The state the relocations start from: the link state is in order, every shared type is in its
  place, the functions are numbered behind the imports and the segments are placed.
\<close>

lemma resolve_module_start:
  assumes r: "resolve_module env objs wrapper = Value (st, defs, datas, mem)"
    and fresh: "list_all fresh_object objs" and w: "\<And>w. wrapper = Some w \<Longrightarrow> func_in objs w"
  obtains st0 where "patch_object_relocations env st0 = Value st" "resolved st0 defs datas mem"
    "map lo_symbols (lk_objs st0) = map lo_symbols objs" "map lo_relocs (lk_objs st0) = map lo_relocs objs"
proof -
  obtain objs1 types "imports" types1 objs3 objs4 where
      collect: "collect_types objs [] = Value (objs1, types)"
    and imps: "add_unresolved_function_imports (le_func_signature_matches env) objs1 ([], types) =
        Value (imports, types1)"
    and fill: "fill_main_wrapper wrapper defs (number_funcs (length imports) defs objs1) = Value objs3"
    and layout: "layout_data datas objs3 = Value (mem, objs4)"
    and patch: "patch_object_relocations env \<lparr>lk_objs = objs4, lk_types = types1, lk_imports = imports,
        lk_globals = [], lk_tables = []\<rparr> = Value st"
    and dd: "defs = defined_funcs objs1" "datas = defined_data objs1"
    using r by (auto simp: resolve_module_def Let_def elim!: outcome_bind_ValueE)
  let ?objs2 = "number_funcs (length imports) defs objs1"
  have c: "list_all2 collected objs objs1" "list_all (shared_types types) objs1"
    using collect_types_shared [OF collect] fresh by (auto simp: fresh_object_def list_all_iff)
  have len: "length objs1 = length objs" using c(1) by (auto dest: list_all2_lengthD)
  have cn: "collected (objs ! i) (objs1 ! i)" if "i < length objs" for i
    using c(1) that by (rule list_all2_nthD)
  have ok1: "list_all object_ok objs1"
    using fresh object_ok_collected [OF cn] by (simp add: list_all_length len fresh_object_def)
  have slot1: "lf_final_table_index (func_at objs1 p) = 0" if "func_in objs1 p" for p
    using that fresh collected_fields(4,8) [OF cn [of "fst p"]]
    by (cases p) (auto simp: func_in_def func_at_def len list_all_length fresh_object_def)
  have "ls_name (snd x) \<noteq> None" if "x \<in> set (all_symbols objs1)" for x
  proof -
    have x: "fst x < length objs" "snd x \<in> set (lo_symbols (objs ! fst x))"
      using all_symbols_in [OF that] collected_fields(1) [OF cn, of "fst x"] by (auto simp: len)
    then have "fresh_object (objs ! fst x)" using fresh by (simp add: list_all_length)
    then show ?thesis using x(2) by (simp add: fresh_object_def list_all_iff)
  qed
  then have named: "\<forall>x \<in> set (all_symbols objs1). ls_name (snd x) \<noteq> None" by blast
  have im: "imports_ok (imports, types1)" "\<exists>us. types1 = types @ us"
    using imports_collected [OF imps named] by (auto simp: imports_grow_def)
  have inn: "\<forall>p \<in> set defs. func_in objs1 p" by (simp add: dd defined_funcs_in)
  note num = number_funcs_numbered [OF defined_funcs_distinct [of objs1, folded dd] inn,
      where n = "length imports"]
  have w2: "func_in ?objs2 v" if "wrapper = Some v" for v
    using w [OF that] same_view_in(1) [OF num(1)] collected_fields(4) [OF cn [of "fst v"]]
    by (cases v) (auto simp: func_in_def len)
  note fil = fill_main_wrapper_keeps [OF fill w2]
  have v3: "same_view objs1 objs3" using same_view_trans [OF num(1) fil(1)] .
  have lay: "same_view objs3 objs4" "func_at objs4 p = func_at objs3 p" for p
    using layout_data_keeps [OF layout [unfolded layout_data_def]] by simp_all
  have v4: "same_view objs1 objs4" using same_view_trans [OF v3 lay(1)] .
  have f4: "lf_final_index (func_at objs4 p) = lf_final_index (func_at ?objs2 p)" for p
    using lay(2) fil(3) by simp
  have fin: "func_in objs4 p = func_in objs1 p" for p by (rule same_view_in(1) [OF v4])
  have view: "func_view (func_at objs4 p) = func_view (func_at objs1 p)" if "func_in objs1 p" for p
    using same_view_in(3) [OF v4 that] .
  let ?st0 = "\<lparr>lk_objs = objs4, lk_types = types1, lk_imports = imports, lk_globals = [], lk_tables = []\<rparr>"
  have "link_ok ?st0"
  proof (rule link_ok_start)
    show "list_all object_ok objs4" by (rule same_view_all [OF v4 ok1 object_ok_view])
    show "distinct (map fi_name imports)" using im(1) by (simp add: imports_ok_def)
    show "lf_final_table_index (func_at objs4 p) = 0" if "func_in objs4 p" for p
      using that slot1 view fin by (simp add: func_view_def)
  qed
  moreover have "list_all (shared_types types1) objs4"
    using im(2) same_view_all [OF v4 c(2) shared_types_view] shared_types_append
    by (auto simp: list_all_iff)
  moreover have "p \<in> set defs \<longleftrightarrow> func_in objs4 p \<and> lf_defined (func_at objs4 p)" for p
    using view [of p] fin [of p] by (auto simp: dd defined_funcs_in func_view_def)
  moreover have "\<forall>k < length defs. lf_final_index (func_at objs4 (defs ! k)) = int (length imports + k)"
    using num(3) f4 by simp
  moreover have "segments_ok datas objs4 (unat mem)"
    using layout_segments_ok [OF layout] defined_data_distinct defined_data_in same_view_in(2) [OF v3]
    by (simp add: dd)
  ultimately have "resolved ?st0 defs datas mem"
    using im(1) defined_funcs_distinct defined_data_distinct by (simp add: resolved_def dd)
  moreover have "map lo_symbols objs4 = map lo_symbols objs" "map lo_relocs objs4 = map lo_relocs objs"
    using same_view_length [OF v4] same_view_nth [OF v4] collected_fields(1,2) [OF cn]
    by (auto simp: list_eq_iff_nth_eq len obj_view_def)
  ultimately show thesis using that [of ?st0] patch by simp
qed

lemma resolved_patched:
  assumes p: "patch_object_relocations env st0 = Value st" and r: "resolved st0 defs datas mem"
  shows "resolved st defs datas mem" "link_extends st0 st"
proof -
  note ok = patch_object_relocations_ok [OF p]
  have e: "link_extends st0 st" and l: "link_ok st" using ok r by (simp_all add: resolved_def)
  obtain us where us: "lk_types st = lk_types st0 @ us"
    using patch_object_relocations_types [OF p] by (auto simp: types_grow_def)
  note s = link_extends_objs [OF e]
  have i: "lk_imports st = lk_imports st0" using e by (simp add: link_extends_def)
  have fin: "func_in (lk_objs st) p = func_in (lk_objs st0) p" for p by (rule obj_same_func_at(1) [OF s])
  have ff: "lf_defined (func_at (lk_objs st) p) = lf_defined (func_at (lk_objs st0) p)"
    "lf_final_index (func_at (lk_objs st) p) = lf_final_index (func_at (lk_objs st0) p)"
    if "func_in (lk_objs st0) p" for p
    using func_same_fields [OF obj_same_func_at(2) [OF s that]] by simp_all
  have "imports_ok (lk_imports st, lk_types st)" using r by (auto simp: resolved_def imports_ok_def i us)
  moreover have "list_all (shared_types (lk_types st)) (lk_objs st)"
    using r s shared_types_same shared_types_append
    by (auto simp: resolved_def us list_all_length list_all2_conv_all_nth)
  moreover have "func_in (lk_objs st0) (defs ! k)" if "k < length defs" for k
    using r nth_mem [OF that] unfolding resolved_def by blast
  ultimately show "resolved st defs datas mem"
    using r l segments_ok_same [OF s] fin ff by (auto simp: resolved_def i)
  show "link_extends st0 st" by (rule e)
qed

section \<open>The linked module\<close>

text \<open>What is asked of the object of the built-in runtime, a parameter.\<close>

definition runtime_fresh :: "(object_t list \<Rightarrow> bool \<Rightarrow> object_t outcome) \<Rightarrow> object_t list \<Rightarrow> bool" where
  "runtime_fresh synthesize objs \<longleftrightarrow> (\<forall>b rt. synthesize objs b = Value rt \<longrightarrow> fresh_object rt)"

lemma symbols_consistentD:
  assumes "symbols_consistent o1" "s \<in> set (lo_symbols o1)" "ls_kind s = SYM_FUNCTION"
  shows "nat (ls_index s) < length (lo_funcs o1)"
  using assms by (auto simp: symbols_consistent_def list_all_iff index_in_def)

lemma fresh_object_wrapped:
  assumes "fresh_object rt" "lf_final_table_index f = 0"
  shows "fresh_object (rt\<lparr>lo_types := ts, lo_funcs := lo_funcs rt @ [f]\<rparr>)"
proof -
  have s: "symbols_consistent rt" using assms by (simp add: fresh_object_def object_ok_def)
  note i = symbols_consistentD [OF s]
  have "symbols_consistent (rt\<lparr>lo_types := ts, lo_funcs := lo_funcs rt @ [f]\<rparr>)"
    using s i by (auto simp: symbols_consistent_def list_all_iff index_in_append nth_append index_in_def)
  moreover have "import_names_ok (rt\<lparr>lo_types := ts, lo_funcs := lo_funcs rt @ [f]\<rparr>)"
    using assms i by (auto simp: fresh_object_def object_ok_def import_names_ok_def list_all_iff nth_append)
  moreover have "function_relocs_ok (rt\<lparr>lo_types := ts, lo_funcs := lo_funcs rt @ [f]\<rparr>)"
    using assms by (simp add: fresh_object_def object_ok_def function_relocs_ok_def reloc_symbol_def
        cong: list.pred_cong option.case_cong if_cong)
  ultimately show ?thesis using assms by (simp add: fresh_object_def object_ok_def)
qed

lemma zero_runtime_fresh:
  "fresh_object (zero_object\<lparr>lo_code_section_index := i, lo_data_section_index := j\<rparr>)"
  by (simp add: fresh_object_def object_ok_def zero_object_def symbols_consistent_def import_names_ok_def
      function_relocs_ok_def)

lemma maybe_add_main_wrapper_fresh:
  assumes "maybe_add_main_wrapper objs b rt = Value (rt1, w)" "fresh_object rt"
  shows "fresh_object rt1 \<and> (\<forall>k. w = Some k \<longrightarrow> k < length (lo_funcs rt1))"
proof -
  have "rt1 = rt \<and> w = None \<or>
      (\<exists>ts f. rt1 = rt\<lparr>lo_types := ts, lo_funcs := lo_funcs rt @ [f]\<rparr> \<and> lf_final_table_index f = 0 \<and>
         w = Some (length (lo_funcs rt)))"
    using assms(1)
    by (fastforce simp: maybe_add_main_wrapper_def Let_def zero_func_def elim!: outcome_bind_ValueE
        split: if_splits option.splits prod.splits)
  then show ?thesis using fresh_object_wrapped [OF assms(2)] assms(2) by auto
qed

lemma with_runtime_fresh:
  assumes "with_runtime synthesize options exports use_stdlib objs = Value (objs1, wrapper)"
    and fresh: "list_all fresh_object objs" "runtime_fresh synthesize objs"
  shows "list_all fresh_object objs1 \<and> (\<forall>w. wrapper = Some w \<longrightarrow> func_in objs1 w)"
proof -
  obtain rt rt1 w where
      rt: "(if use_stdlib then synthesize objs (\<not> has_option options LINK_OPT_STDIO_WRITE_IMPORT)
        else Value (zero_object\<lparr>lo_code_section_index := 0, lo_data_section_index := 0\<rparr>)) = Value rt"
    and wrap: "maybe_add_main_wrapper objs (export_list_contains exports (lit ''main'')) rt = Value (rt1, w)"
    and o1: "objs1 = (if lo_funcs rt1 \<noteq> [] \<or> lo_data rt1 \<noteq> [] then objs @ [rt1] else objs)"
    and w: "wrapper = map_option (\<lambda>w. (length objs, w)) w"
    using assms(1) unfolding with_runtime_def by (auto elim!: outcome_bind_ValueE)
  have "fresh_object rt"
    using rt fresh(2) zero_runtime_fresh by (auto simp: runtime_fresh_def split: if_splits)
  from maybe_add_main_wrapper_fresh [OF wrap this] show ?thesis
    using fresh(1) by (auto simp: o1 w func_in_def)
qed

text \<open>The values of the runtime change bytes of segments only.\<close>

lemma patch_runtime_layout_keeps:
  assumes "patch_runtime_layout_value datas name v objs = Value objs1" "\<forall>p \<in> set datas. data_in objs p"
  shows "list_all2 obj_same objs objs1" "func_at objs1 p = func_at objs p"
    "ld_name (data_at objs q) \<noteq> Some name \<Longrightarrow> data_at objs1 q = data_at objs q"
proof -
  have "objs1 = objs \<or> (\<exists>p bs. p \<in> set datas \<and> ld_name (data_at objs p) = Some name \<and>
      length bs = length (ld_bytes (data_at objs p)) \<and>
      objs1 = set_data p ((data_at objs p)\<lparr>ld_bytes := bs\<rparr>) objs)"
  proof (cases "List.find (\<lambda>p. ld_name (data_at objs p) = Some name) datas")
    case None
    then show ?thesis using assms(1) by (simp add: patch_runtime_layout_value_def)
  next
    case (Some p)
    then have "p \<in> set datas" "ld_name (data_at objs p) = Some name" by (auto simp: find_Some_iff)
    moreover have "8 \<le> length (ld_bytes (data_at objs p))"
      "objs1 = set_data p ((data_at objs p)\<lparr>ld_bytes := u64le v @ drop 8 (ld_bytes (data_at objs p))\<rparr>) objs"
      using assms(1) Some by (auto simp: patch_runtime_layout_value_def Let_def split: if_splits)
    moreover have "length (u64le v) = 8" by (simp add: u64le_def)
    ultimately show ?thesis
      by (intro disjI2 exI [of _ p] exI [of _ "u64le v @ drop 8 (ld_bytes (data_at objs p))"]) simp
  qed
  then show "list_all2 obj_same objs objs1" "func_at objs1 p = func_at objs p"
    "ld_name (data_at objs q) \<noteq> Some name \<Longrightarrow> data_at objs1 q = data_at objs q"
    using assms(2)
    by (auto simp: list_all2_refl data_at_set_data data_same_def data_mask_def intro!: set_data_same)
qed

abbreviation (input) heap_name :: "u8 list" where "heap_name \<equiv> lit ''ag_rt_heap''"
abbreviation (input) limit_name :: "u8 list" where "limit_name \<equiv> lit ''ag_rt_memory_limit_bytes''"

text \<open>Everything a successful link went through.\<close>

lemma link_objects_resolved:
  assumes l: "link_objects synthesize env options exports use_stdlib objs = Value m"
    and fresh: "list_all fresh_object objs" "runtime_fresh synthesize objs"
  obtains st0 st mem plan where
    "patch_object_relocations env st0 = Value st" "resolved st0 (ln_defs m) (ln_datas m) mem"
    "resolved st (ln_defs m) (ln_datas m) mem"
    "list_all2 obj_same (lk_objs st) (ln_objs m)"
    "\<And>p. func_at (ln_objs m) p = func_at (lk_objs st) p"
    "\<And>p. ld_name (data_at (lk_objs st) p) \<notin> {Some heap_name, Some limit_name} \<Longrightarrow>
       data_at (ln_objs m) p = data_at (lk_objs st) p"
    "plan_memory options mem (has_runtime_layout_value (ln_datas m) (lk_objs st) heap_name) = Value plan"
    "ln_memory_pages m = mp_memory_pages plan" "ln_types m = lk_types st" "ln_imports m = lk_imports st"
    "ln_tables m = lk_tables st" "map fg_name (ln_globals m) = map fg_name (lk_globals st)"
    "resolve_exports (ln_objs m) (ln_defs m) exports [] = Value (ln_exports m)"
proof -
  obtain objs1 wrapper st defs datas mem where
      rt: "with_runtime synthesize options exports use_stdlib objs = Value (objs1, wrapper)"
    and r: "resolve_module env objs1 wrapper = Value (st, defs, datas, mem)"
    and f: "finish_module options exports (list_ex lo_imports_table objs1) (st, defs, datas, mem) = Value m"
    using l by (auto simp: link_objects_def elim!: outcome_bind_ValueE split: if_splits)
  note fr = with_runtime_fresh [OF rt fresh]
  obtain plan objs2 objs3 ex where
      plan: "plan_memory options mem (has_runtime_layout_value datas (lk_objs st) heap_name) = Value plan"
    and heap: "patch_runtime_layout_value datas heap_name (mp_heap_base plan) (lk_objs st) = Value objs2"
    and limit: "patch_runtime_layout_value datas limit_name (mp_heap_limit plan) objs2 = Value objs3"
    and ex: "resolve_exports objs3 defs exports [] = Value ex"
    and m: "m = \<lparr>ln_objs = objs3, ln_types = lk_types st, ln_imports = lk_imports st, ln_defs = defs,
      ln_datas = datas, ln_tables = lk_tables st,
      ln_globals = map (set_stack_pointer (mp_stack_top plan)) (lk_globals st),
      ln_memory_pages = mp_memory_pages plan, ln_needs_table = list_ex lo_imports_table objs1,
      ln_exports = ex\<rparr>"
    using f by (auto simp: finish_module_def elim!: outcome_bind_ValueE split: if_splits)
  obtain st0 where p: "patch_object_relocations env st0 = Value st" "resolved st0 defs datas mem"
    using resolve_module_start [OF r] fr by blast
  have res: "resolved st defs datas mem" by (rule resolved_patched [OF p])
  then have inn: "\<forall>p \<in> set datas. data_in (lk_objs st) p" by (simp add: resolved_def segments_ok_def)
  note h = patch_runtime_layout_keeps [OF heap inn]
  have "\<forall>p \<in> set datas. data_in objs2 p" using inn obj_same_data_at(1) [OF h(1)] by simp
  note li = patch_runtime_layout_keeps [OF limit this]
  have "list_all2 obj_same (lk_objs st) objs3"
    using list_all2_trans [OF obj_same_trans h(1) li(1)] .
  moreover have "func_at objs3 p = func_at (lk_objs st) p" for p using h(2) li(2) by simp
  moreover have "data_at objs3 p = data_at (lk_objs st) p"
    if "ld_name (data_at (lk_objs st) p) \<notin> {Some heap_name, Some limit_name}" for p
    using that h(3) [of p] li(3) [of p] by simp
  moreover have "map fg_name (ln_globals m) = map fg_name (lk_globals st)"
    by (simp add: m set_stack_pointer_def)
  ultimately show thesis using that [of st0 st mem plan] p res plan ex by (simp add: m)
qed

lemma export_index_found:
  assumes "0 \<le> export_index objs defs name"
  shows "\<exists>k < length defs. lf_name (func_at objs (defs ! k)) = Some name \<and>
    export_index objs defs name = lf_final_index (func_at objs (defs ! k))"
  using assms
proof (induction defs rule: rev_induct)
  case Nil
  then show ?case by (simp add: export_index_def)
next
  case (snoc p defs)
  show ?case
  proof (cases "str_eq (lf_name (func_at objs p)) (Some name)")
    case True
    then show ?thesis
      by (intro exI [of _ "length defs"]) (simp add: export_index_def str_eq_iff)
  next
    case False
    then have "export_index objs (defs @ [p]) name = export_index objs defs name"
      by (simp add: export_index_def)
    then obtain k where "k < length defs" "lf_name (func_at objs (defs ! k)) = Some name"
        "export_index objs (defs @ [p]) name = lf_final_index (func_at objs (defs ! k))"
      using snoc by auto
    then show ?thesis by (intro exI [of _ k]) (simp add: nth_append)
  qed
qed

lemma resolve_exports_index:
  "resolve_exports objs defs es seen = Value xs \<Longrightarrow> (name, i) \<in> set xs \<Longrightarrow>
   0 \<le> i \<and> i = export_index objs defs name"
  by (induction objs defs es seen arbitrary: xs rule: resolve_exports.induct)
     (auto simp: Let_def elim!: outcome_bind_ValueE split: if_splits)

text \<open>
  C12. In a linked module the functions are numbered the way the code section lists them, behind the
  imports, and the type a function gets in the module is the one its object declares; an exported
  name has the index of a function with this name.
\<close>

theorem linked_functions_indexed:
  assumes "link_objects synthesize env options exports use_stdlib objs = Value m"
    and "list_all fresh_object objs" "runtime_fresh synthesize objs"
    and "k < length (ln_defs m)" "(name, i) \<in> set (ln_exports m)"
  shows "(let p = ln_defs m ! k; f = func_at (ln_objs m) p
     in lf_defined f \<and> lf_final_index f = int (length (ln_imports m) + k) \<and>
        index_in (lf_final_type f) (ln_types m) \<and>
        ln_types m ! nat (lf_final_type f) = lo_types (ln_objs m ! fst p) ! nat (lf_type_index f)) \<and>
    (\<exists>j < length (ln_defs m). i = int (length (ln_imports m) + j) \<and>
       lf_name (func_at (ln_objs m) (ln_defs m ! j)) = Some name)"
proof (rule link_objects_resolved [OF assms(1-3)])
  fix st0 st mem plan
  assume r: "resolved st (ln_defs m) (ln_datas m) mem"
    and same: "list_all2 obj_same (lk_objs st) (ln_objs m)"
    and f: "\<And>p. func_at (ln_objs m) p = func_at (lk_objs st) p"
    and eqs: "ln_types m = lk_types st" "ln_imports m = lk_imports st"
    and ex: "resolve_exports (ln_objs m) (ln_defs m) exports [] = Value (ln_exports m)"
  have num: "lf_final_index (func_at (ln_objs m) (ln_defs m ! j)) = int (length (ln_imports m) + j)"
    if "j < length (ln_defs m)" for j
    using r that by (simp add: resolved_def f eqs)
  have p: "func_in (lk_objs st) (ln_defs m ! k)" "lf_defined (func_at (lk_objs st) (ln_defs m ! k))"
    using r nth_mem [OF assms(4)] unfolding resolved_def by blast+
  obtain a b where ab: "ln_defs m ! k = (a, b)" by (cases "ln_defs m ! k")
  have a: "a < length (lk_objs st)" "b < length (lo_funcs (lk_objs st ! a))"
    using p(1) by (simp_all add: ab func_in_def)
  have "shared_types (lk_types st) (lk_objs st ! a)"
    using r a by (simp add: resolved_def list_all_length)
  then have "index_in (lf_final_type (func_at (lk_objs st) (a, b))) (lk_types st) \<and>
      lk_types st ! nat (lf_final_type (func_at (lk_objs st) (a, b))) =
      lo_types (lk_objs st ! a) ! nat (lf_type_index (func_at (lk_objs st) (a, b)))"
    using a by (simp add: shared_types_def list_all_length func_at_def)
  moreover have "lo_types (ln_objs m ! a) = lo_types (lk_objs st ! a)"
    using obj_same_fields(2) [OF list_all2_nthD [OF same a(1)]] .
  moreover have "\<exists>j < length (ln_defs m). i = int (length (ln_imports m) + j) \<and>
      lf_name (func_at (ln_objs m) (ln_defs m ! j)) = Some name"
    using resolve_exports_index [OF ex assms(5)] export_index_found [of "ln_objs m" "ln_defs m" name] num
    by fastforce
  ultimately show ?thesis using num [OF assms(4)] p(2) by (simp add: Let_def ab f eqs)
qed

text \<open>
  C11. In a linked module every data segment, with its zero-initialised bytes, lies at or above address
  1024 at a multiple of its alignment and below the stack, inside the initial memory of the module,
  and no two segments overlap.
\<close>

theorem linked_data_in_memory:
  assumes "link_objects synthesize env options exports use_stdlib objs = Value m"
    and "list_all fresh_object objs" "runtime_fresh synthesize objs"
    and "p \<in> set (ln_datas m)" "q \<in> set (ln_datas m)" "p \<noteq> q"
  shows "1024 \<le> unat (ld_final_addr (data_at (ln_objs m) p)) \<and>
    unat (segment_alignment (data_at (ln_objs m) p)) dvd unat (ld_final_addr (data_at (ln_objs m) p)) \<and>
    segment_end (data_at (ln_objs m) p) + unat (op_stack_size options) \<le>
      65536 * unat (ln_memory_pages m) \<and>
    (segment_end (data_at (ln_objs m) p) \<le> unat (ld_final_addr (data_at (ln_objs m) q)) \<or>
     segment_end (data_at (ln_objs m) q) \<le> unat (ld_final_addr (data_at (ln_objs m) p)))"
proof (rule link_objects_resolved [OF assms(1-3)])
  fix st0 st mem plan
  assume r: "resolved st (ln_defs m) (ln_datas m) mem"
    and same: "list_all2 obj_same (lk_objs st) (ln_objs m)"
    and plan: "plan_memory options mem (has_runtime_layout_value (ln_datas m) (lk_objs st) heap_name) = Value plan"
      "ln_memory_pages m = mp_memory_pages plan"
  have s: "segments_ok (ln_datas m) (ln_objs m) (unat mem)"
    using segments_ok_same [OF same] r by (simp add: resolved_def)
  have "unat mem + unat (op_stack_size options) \<le> 65536 * unat (ln_memory_pages m)"
    using memory_plan_sound [OF plan(1)] plan(2) by simp
  moreover have "segment_end (data_at (ln_objs m) p) \<le> unat mem"
    using s assms(4) by (simp add: segments_ok_def)
  moreover have "1024 \<le> unat (ld_final_addr (data_at (ln_objs m) p))"
      "unat (segment_alignment (data_at (ln_objs m) p)) dvd unat (ld_final_addr (data_at (ln_objs m) p))"
    using s assms(4) by (simp_all add: segments_ok_def)
  moreover have "segment_end (data_at (ln_objs m) p) \<le> unat (ld_final_addr (data_at (ln_objs m) q)) \<or>
      segment_end (data_at (ln_objs m) q) \<le> unat (ld_final_addr (data_at (ln_objs m) p))"
    using s assms(4-6) unfolding segments_ok_def by blast
  ultimately show ?thesis by simp
qed

text \<open>The linked module as a state, and the data fields that the runtime values overwrite.\<close>

definition module_state :: "linked_t \<Rightarrow> link_t" where
  "module_state m =
    \<lparr>lk_objs = ln_objs m, lk_types = ln_types m, lk_imports = ln_imports m, lk_globals = ln_globals m,
     lk_tables = ln_tables m\<rparr>"

definition runtime_cell :: "object_t list \<Rightarrow> nat \<Rightarrow> reloc_t \<Rightarrow> bool" where
  "runtime_cell objs oi r =
    (\<not> lr_is_code r \<and>
     (case data_site (objs ! oi) r of
        None \<Rightarrow> False
      | Some (di, _) \<Rightarrow> ld_name (data_at objs (oi, di)) \<in> {Some heap_name, Some limit_name}))"

lemma reloc_denotes_globals:
  assumes "reloc_denotes st oi r v" "map fg_name gs = map fg_name (lk_globals st)"
  shows "reloc_denotes (st\<lparr>lk_globals := gs\<rparr>) oi r v"
proof -
  have "length gs = length (lk_globals st)" using assms(2) by (metis length_map)
  moreover have "fg_name (gs ! k) = fg_name (lk_globals st ! k)" if "k < length gs" for k
    using that assms(2) calculation by (metis nth_map)
  moreover have "func_final (st\<lparr>lk_globals := gs\<rparr>) = func_final st"
    "symbol_func (st\<lparr>lk_globals := gs\<rparr>) = symbol_func st" "table_slot (st\<lparr>lk_globals := gs\<rparr>) = table_slot st"
    by (intro ext; simp add: func_final_def symbol_func_def table_slot_def Let_def cong: option.case_cong)+
  ultimately show ?thesis using assms(1) by (fastforce simp: reloc_denotes_def Let_def)
qed

lemma all_relocs_same:
  assumes "list_all2 obj_same objs objs1"
  shows "all_relocs objs1 = all_relocs objs"
proof -
  have "map (\<lambda>oi. map (Pair oi) (lo_relocs (objs1 ! oi))) [0..<length objs] =
      map (\<lambda>oi. map (Pair oi) (lo_relocs (objs ! oi))) [0..<length objs]"
    using obj_same_fields(4) [OF list_all2_nthD [OF assms]] by simp
  then show ?thesis unfolding all_relocs_def list_all2_lengthD [OF assms, symmetric] by (rule arg_cong)
qed

text \<open>
  C10. In a linked module the field of every relocation, read back, is what the relocation denotes: the
  shared type, the index of the function, the slot of the function table, the address of the datum
  (computed without wrapping), the index of the global. The cells of the runtime, which the linker
  overwrites with the bounds of the heap, are left out.
\<close>

theorem linked_relocations_read_back:
  assumes "link_objects synthesize env options exports use_stdlib objs = Value m"
    and "list_all fresh_object objs" "runtime_fresh synthesize objs"
    and "no_conflict reloc_overlap (all_relocs (ln_objs m))" "(oi, r) \<in> set (all_relocs (ln_objs m))"
    and "\<not> runtime_cell (ln_objs m) oi r"
  shows "\<exists>v. reloc_field (module_state m) oi r = Some v \<and> reloc_denotes (module_state m) oi r v"
proof (rule link_objects_resolved [OF assms(1-3)])
  fix st0 st mem plan
  assume patch: "patch_object_relocations env st0 = Value st"
    and r0: "resolved st0 (ln_defs m) (ln_datas m) mem"
    and same: "list_all2 obj_same (lk_objs st) (ln_objs m)"
    and f: "\<And>p. func_at (ln_objs m) p = func_at (lk_objs st) p"
    and d: "\<And>p. ld_name (data_at (lk_objs st) p) \<notin> {Some heap_name, Some limit_name} \<Longrightarrow>
       data_at (ln_objs m) p = data_at (lk_objs st) p"
    and eqs: "ln_types m = lk_types st" "ln_imports m = lk_imports st" "ln_tables m = lk_tables st"
    and g: "map fg_name (ln_globals m) = map fg_name (lk_globals st)"
  have ok: "link_ok st0" using r0 by (simp add: resolved_def)
  have e0: "link_extends st0 st" by (rule resolved_patched [OF patch r0])
  have rel: "all_relocs (lk_objs st0) = all_relocs (ln_objs m)"
    using all_relocs_same [OF same] all_relocs_same [OF link_extends_objs [OF e0]] by simp
  obtain v where v: "field_is st oi r v" "reloc_denotes st oi r v"
    using relocations_patched [OF patch ok] assms(4,5) by (auto simp: rel)
  have "reloc_of (ln_objs m) (oi, r)" by (rule all_relocs_of [OF assms(5)])
  then have oi: "oi < length (lk_objs st)"
    using list_all2_lengthD [OF same] by (simp add: reloc_of_def)
  have s: "obj_same (lk_objs st ! oi) (ln_objs m ! oi)" by (rule list_all2_nthD [OF same oi])
  let ?st = "st\<lparr>lk_objs := ln_objs m\<rparr>"
  have e: "link_extends st ?st" using same by (simp add: link_extends_def)
  have ms: "module_state m = ?st\<lparr>lk_globals := ln_globals m\<rparr>"
    by (simp add: module_state_def eqs)
  have "reloc_denotes (module_state m) oi r v"
    unfolding ms by (rule reloc_denotes_globals [OF reloc_denotes_extends [OF e oi v(2)]]) (simp add: g)
  moreover have "field_is (module_state m) oi r v"
  proof (cases "lr_is_code r")
    case True
    then show ?thesis
      using v(1) code_site_same [OF s] by (simp add: field_is_def module_state_def f)
  next
    case False
    then obtain di off where di: "data_site (lk_objs st ! oi) r = Some (di, off)"
        "take 4 (drop off (ld_bytes (data_at (lk_objs st) (oi, di)))) = u32le_bytes v"
      using v(1) by (auto simp: field_is_def)
    have in1: "data_in (lk_objs st) (oi, di)" using data_siteD [OF di(1)] oi by (simp add: data_in_def)
    have "ld_name (data_at (ln_objs m) (oi, di)) = ld_name (data_at (lk_objs st) (oi, di))"
      using data_same_segment(4) [OF obj_same_data_at(2) [OF same in1]] .
    then have "ld_name (data_at (lk_objs st) (oi, di)) \<notin> {Some heap_name, Some limit_name}"
      using assms(6) False di(1) data_site_same [OF s] by (auto simp: runtime_cell_def)
    then show ?thesis
      using False di data_site_same [OF s] d by (simp add: field_is_def module_state_def)
  qed
  ultimately show ?thesis by (blast dest: field_is_reads)
qed

section \<open>A linked example\<close>

text \<open>The two objects of the relocation example, as the reader gives them, linked with one export.\<close>

definition sample_objects :: "object_t list" where
  "sample_objects = map (\<lambda>o1. o1\<lparr>lo_type_map := None\<rparr>) [sample_caller, sample_callee]"

definition sample_module :: linked_t where
  "sample_module = \<lparr>ln_objs = lk_objs sample_linked, ln_types = [[0x60, 0, 0]], ln_imports = [],
     ln_defs = [(0, 1), (1, 0)], ln_datas = [(0, 0), (1, 0)], ln_tables = lk_tables sample_linked,
     ln_globals = [], ln_memory_pages = 1024, ln_needs_table = False, ln_exports = [([109], 0)]\<rparr>"

lemma sample_layout: "layout_data [(0, 0), (1, 0)] [sample_caller, sample_callee] = Value (1033, [sample_caller, sample_callee])"
  by (simp add: layout_data_def place_segment_def data_at_def set_data_def sample_caller_def
      sample_callee_def zero_data_def segment_alignment_def segment_size_def align_to_u32_checked_def
      checked_add_u32_def word_le_nat_alt Let_def)

lemma sample_linked_fields:
  "lk_types sample_linked = [[0x60, 0, 0]]" "lk_imports sample_linked = []" "lk_globals sample_linked = []"
  by code_simp+

lemma sample_resolved:
  "resolve_module sample_env sample_objects None =
   Value (sample_linked, [(0, 1), (1, 0)], [(0, 0), (1, 0)], 1033)"
proof -
  have c: "collect_types sample_objects [] = Value ([sample_caller, sample_callee], [[0x60, 0, 0]])"
    by code_simp
  have d: "defined_funcs [sample_caller, sample_callee] = [(0, 1), (1, 0)]"
    "defined_data [sample_caller, sample_callee] = [(0, 0), (1, 0)]"
    by code_simp+
  have i: "add_unresolved_function_imports (le_func_signature_matches sample_env)
      [sample_caller, sample_callee] ([], [[0x60, 0, 0]]) = Value ([], [[0x60, 0, 0]])"
    by code_simp
  have n: "number_funcs 0 [(0, 1), (1, 0)] [sample_caller, sample_callee] = [sample_caller, sample_callee]"
    by code_simp
  show ?thesis
    using sample_patches
    by (simp add: resolve_module_def c d i n Let_def fill_main_wrapper_def sample_layout sample_link_def
        del: One_nat_def)
qed

lemma sample_plan:
  "plan_memory default_linker_options 1033 False =
   Value \<lparr>mp_memory_pages = 1024, mp_stack_top = 67108864, mp_heap_base = 1040, mp_heap_limit = 67108864\<rparr>"
  by (simp add: plan_memory_def default_linker_options_def heap_data_end_def required_pages_def
      memory_pages_needed_def align_to_u32_checked_def checked_add_u32_def has_option_def word_le_nat_alt)

lemma sample_links:
  "link_objects (\<lambda>_ _. Refused) sample_env default_linker_options [\<lparr>ex_name = [109], ex_signature = None\<rparr>]
     False sample_objects = Value sample_module"
proof -
  have 1: "check_duplicate_definitions sample_objects" "validate_continuation_metadata sample_objects"
    by code_simp+
  have 2: "with_runtime (\<lambda>_ _. Refused) default_linker_options [\<lparr>ex_name = [109], ex_signature = None\<rparr>]
      False sample_objects = Value (sample_objects, None)"
    by code_simp
  have "\<not> has_runtime_layout_value [(0, 0), (1, 0)] (lk_objs sample_linked) heap_name"
    "List.find (\<lambda>p. ld_name (data_at (lk_objs sample_linked) p) = Some heap_name) [(0, 0), (1, 0)] = None"
    "List.find (\<lambda>p. ld_name (data_at (lk_objs sample_linked) p) = Some limit_name) [(0, 0), (1, 0)] = None"
    by code_simp+
  then have 3: "\<not> has_runtime_layout_value [(0, 0), (1, 0)] (lk_objs sample_linked) heap_name"
    "patch_runtime_layout_value [(0, 0), (1, 0)] heap_name v (lk_objs sample_linked) = Value (lk_objs sample_linked)"
    "patch_runtime_layout_value [(0, 0), (1, 0)] limit_name v (lk_objs sample_linked) = Value (lk_objs sample_linked)"
    for v
    by (simp_all only: patch_runtime_layout_value_def option.case) simp
  have 4: "resolve_exports (lk_objs sample_linked) [(0, 1), (1, 0)] [\<lparr>ex_name = [109], ex_signature = None\<rparr>] [] =
      Value [([109], 0)]"
    by code_simp
  have 5: "list_ex lo_imports_table sample_objects = False" by code_simp
  have 6: "has_option default_linker_options f = False" for f
    by (simp add: has_option_def default_linker_options_def)
  have 7: "finish_module default_linker_options [\<lparr>ex_name = [109], ex_signature = None\<rparr>] False
      (sample_linked, [(0, 1), (1, 0)], [(0, 0), (1, 0)], 1033) = Value sample_module"
    by (simp add: finish_module_def 3 sample_plan table_refused_def 4 6 sample_module_def
        sample_linked_fields del: One_nat_def resolve_exports.simps)
  show ?thesis
    by (simp add: link_objects_def 1 2 5 6 validate_export_c_signature_def sample_resolved 7 del: One_nat_def)
qed

lemma sample_fresh: "list_all fresh_object sample_objects"
proof -
  have "list_all object_ok sample_objects \<and>
      list_all (\<lambda>o1. list_all (\<lambda>f. lf_final_table_index f = 0) (lo_funcs o1)) sample_objects \<and>
      list_all (\<lambda>o1. list_all (\<lambda>s. ls_name s \<noteq> None) (lo_symbols o1)) sample_objects \<and>
      list_all (\<lambda>o1. lo_type_map o1 = None) sample_objects"
    by code_simp
  then show ?thesis by (simp add: fresh_object_def list_all_iff)
qed

lemma sample_runtime_fresh: "runtime_fresh (\<lambda>_ _. Refused) sample_objects"
  by (simp add: runtime_fresh_def)

lemma linked_functions_indexed_witness:
  "lf_final_index (func_at (ln_objs sample_module) (1, 0)) = 1"
proof -
  have "1 < length (ln_defs sample_module)" "([109], 0) \<in> set (ln_exports sample_module)"
    by (simp_all add: sample_module_def)
  from linked_functions_indexed [OF sample_links sample_fresh sample_runtime_fresh this]
  show ?thesis by (simp add: sample_module_def Let_def)
qed

lemma linked_data_in_memory_witness:
  "segment_end (data_at (ln_objs sample_module) (0, 0)) \<le>
     unat (ld_final_addr (data_at (ln_objs sample_module) (1, 0)))"
proof -
  have "(0, 0) \<in> set (ln_datas sample_module)" "(1, 0) \<in> set (ln_datas sample_module)"
    "(0, 0) \<noteq> (1 :: nat, 0 :: nat)"
    by (simp_all add: sample_module_def)
  from linked_data_in_memory [OF sample_links sample_fresh sample_runtime_fresh this]
  have "segment_end (data_at (ln_objs sample_module) (0, 0)) \<le>
        unat (ld_final_addr (data_at (ln_objs sample_module) (1, 0))) \<or>
      segment_end (data_at (ln_objs sample_module) (1, 0)) \<le>
        unat (ld_final_addr (data_at (ln_objs sample_module) (0, 0)))"
    by blast
  moreover have "ld_final_addr (data_at (ln_objs sample_module) (0, 0)) <
      ld_final_addr (data_at (ln_objs sample_module) (1, 0))"
    by code_simp
  ultimately show ?thesis by (auto simp: segment_end_def word_less_nat_alt)
qed

lemma linked_relocations_read_back_witness:
  "\<exists>v. reloc_field (module_state sample_module) 0 (lo_relocs sample_caller ! 1) = Some v \<and> v = 1028 \<and>
       reloc_denotes (module_state sample_module) 0 (lo_relocs sample_caller ! 1) v"
proof -
  have "no_conflict reloc_overlap (all_relocs (ln_objs sample_module))" by code_simp
  moreover have "(0, lo_relocs sample_caller ! 1) \<in> set (all_relocs (ln_objs sample_module))"
    by code_simp
  moreover have "\<not> runtime_cell (ln_objs sample_module) 0 (lo_relocs sample_caller ! 1)" by code_simp
  ultimately have "\<exists>v. reloc_field (module_state sample_module) 0 (lo_relocs sample_caller ! 1) = Some v \<and>
      reloc_denotes (module_state sample_module) 0 (lo_relocs sample_caller ! 1) v"
    by (rule linked_relocations_read_back [OF sample_links sample_fresh sample_runtime_fresh])
  moreover have "reloc_field (module_state sample_module) 0 (lo_relocs sample_caller ! 1) = Some 1028"
    by code_simp
  ultimately show ?thesis by auto
qed

end
