(* ===== verification/LinkRoundtrip.thy ===== *)
theory LinkRoundtrip
  imports LinkSound
begin

text \<open>
  The linked module read back. The bytes \<^verbatim>\<open>build_module_into\<close> writes are a sequence of sections;
  the reader of objects accepts them and finds the types, functions and segments that were linked.
\<close>

section \<open>Reading in any surroundings\<close>

text \<open>
  A reader consumes exactly these bytes, whatever stands before and behind them, and its result has
  the property \<open>P\<close>.
\<close>

definition reads :: "(rd_t \<Rightarrow> ('v \<times> rd_t) outcome) \<Rightarrow> u8 list \<Rightarrow> ('v \<Rightarrow> bool) \<Rightarrow> bool" where
  "reads f bs P \<longleftrightarrow>
     (\<forall>pre rest. \<exists>v. f \<lparr>rd_p = pre @ bs @ rest, rd_pos = length pre\<rparr> =
        Value (v, \<lparr>rd_p = pre @ bs @ rest, rd_pos = length pre + length bs\<rparr>) \<and> P v)"

lemma reads_return: "P v \<Longrightarrow> reads (\<lambda>r. Value (v, r)) [] P"
  by (simp add: reads_def)

lemma reads_bind:
  assumes "reads f xs P" "\<And>v. P v \<Longrightarrow> reads (g v) ys Q"
  shows "reads (\<lambda>r. outcome_bind (f r) (\<lambda>(v, r1). g v r1)) (xs @ ys) Q"
  unfolding reads_def
proof (intro allI)
  fix pre rest
  obtain v where v: "f \<lparr>rd_p = pre @ xs @ (ys @ rest), rd_pos = length pre\<rparr> =
      Value (v, \<lparr>rd_p = pre @ xs @ (ys @ rest), rd_pos = length pre + length xs\<rparr>)" "P v"
    using assms(1) unfolding reads_def by blast
  obtain w where w: "g v \<lparr>rd_p = (pre @ xs) @ ys @ rest, rd_pos = length (pre @ xs)\<rparr> =
      Value (w, \<lparr>rd_p = (pre @ xs) @ ys @ rest, rd_pos = length (pre @ xs) + length ys\<rparr>)" "Q w"
    using assms(2) [OF v(2)] unfolding reads_def by blast
  show "\<exists>v. outcome_bind (f \<lparr>rd_p = pre @ (xs @ ys) @ rest, rd_pos = length pre\<rparr>) (\<lambda>(v, r1). g v r1) =
      Value (v, \<lparr>rd_p = pre @ (xs @ ys) @ rest, rd_pos = length pre + length (xs @ ys)\<rparr>) \<and> Q v"
    using v(1) w by (simp add: add.assoc)
qed

lemma reads_map:
  assumes "reads f xs P" "\<And>v. P v \<Longrightarrow> Q (h v)"
  shows "reads (\<lambda>r. outcome_bind (f r) (\<lambda>(v, r1). Value (h v, r1))) xs Q"
  using reads_bind [OF assms(1), of "\<lambda>v r. Value (h v, r)" "[]" Q] assms(2) reads_return [of Q]
  by simp

lemma reads_weaken: "reads f xs P \<Longrightarrow> (\<And>v. P v \<Longrightarrow> Q v) \<Longrightarrow> reads f xs Q"
  unfolding reads_def by blast

lemma reads_byte: "reads rd_byte [c] (\<lambda>v. v = c)"
  by (simp add: reads_def rd_byte_at)

lemma reads_uleb: "reads rd_uleb (uleb_bytes v) (\<lambda>w. w = v)"
  by (simp add: reads_def uleb.decode_encode)

lemma reads_str: "length s < 2 ^ 31 \<Longrightarrow> reads rd_str_dup (str_bytes s) (\<lambda>t. t = s)"
  by (simp add: reads_def str.decode_encode)

lemma unat_of_length: "n < 2 ^ 32 \<Longrightarrow> unat (of_nat n :: u32) = n"
  by (simp add: unat_of_nat)

text \<open>The reader of unsigned numbers runs over a signed number of 32 bits and stops behind it.\<close>

lemma rd_uleb_loop_sleb:
  "shift \<le> 28 \<Longrightarrow> 7 dvd shift \<Longrightarrow> - (2 ^ (31 - shift)) \<le> sint v \<Longrightarrow> sint v < 2 ^ (31 - shift) \<Longrightarrow>
   \<exists>w. rd_uleb_loop \<lparr>rd_p = pre @ sleb_bytes v @ rest, rd_pos = length pre\<rparr> acc shift =
     Value (w, \<lparr>rd_p = pre @ sleb_bytes v @ rest, rd_pos = length pre + length (sleb_bytes v)\<rparr>)"
proof (induction v arbitrary: pre acc shift rule: sleb_bytes.induct)
  case (1 v)
  show ?case
  proof (cases "sleb_done v")
    case True
    let ?c = "ucast (ucast (v AND 0x7f) :: u32) :: u8"
    have e: "sleb_bytes v = [?c]" using True by (simp add: sleb_bytes.simps [of v])
    have "?c AND 0x80 = 0" by (simp add: and_bit_zero_iff sleb_byte_bits)
    then show ?thesis
      unfolding e using 1(2) rd_byte_at [of pre ?c rest] by (subst rd_uleb_loop.simps) (auto simp: Let_def)
  next
    case False
    let ?c = "ucast (ucast (v AND 0x7f) OR (0x80 :: u32)) :: u8"
    have e: "sleb_bytes v = ?c # sleb_bytes (sleb_next v)"
      using False by (simp add: sleb_bytes.simps [of v])
    have c: "?c AND 0x80 \<noteq> 0" by (simp add: and_bit_zero_iff sleb_byte_bits)
    have s: "shift \<le> 21"
    proof (rule ccontr)
      assume "\<not> shift \<le> 21"
      then have "shift = 28" using 1(2,3) by (auto elim!: dvdE)
      then have "sleb_done v" using 1(4,5) by (intro sleb_done_small) auto
      then show False using False by simp
    qed
    have p: "(2 :: int) ^ (31 - shift) = 2 ^ (31 - (shift + 7)) * 128"
    proof -
      have "31 - shift = (31 - (shift + 7)) + 7" using s by simp
      then show ?thesis by (simp only: power_add) simp
    qed
    have b: "- (2 ^ (31 - (shift + 7))) \<le> sint (sleb_next v)" "sint (sleb_next v) < 2 ^ (31 - (shift + 7))"
      using 1(4,5) unfolding sint_sleb_next p by linarith+
    have "\<exists>w. rd_uleb_loop \<lparr>rd_p = (pre @ [?c]) @ sleb_bytes (sleb_next v) @ rest,
        rd_pos = length (pre @ [?c])\<rparr> (acc OR push_bit shift (ucast (?c AND 0x7f))) (shift + 7) =
      Value (w, \<lparr>rd_p = (pre @ [?c]) @ sleb_bytes (sleb_next v) @ rest,
         rd_pos = length (pre @ [?c]) + length (sleb_bytes (sleb_next v))\<rparr>)"
      using s 1(3) b False by (intro 1(1)) auto
    then show ?thesis
      unfolding e using c s rd_byte_at [of pre ?c "sleb_bytes (sleb_next v) @ rest"]
      by (subst rd_uleb_loop.simps) simp
  qed
qed

lemma reads_over_sleb: "reads rd_uleb (sleb_bytes (scast (v :: u32))) (\<lambda>_. True)"
proof -
  have "- (2 ^ 31) \<le> sint (scast v :: i64)" "sint (scast v :: i64) < 2 ^ 31"
    using sint_ge [of v] sint_lt [of v] by simp_all
  then show ?thesis
    using rd_uleb_loop_sleb [of 0 "scast v"] by (simp add: reads_def rd_uleb_def)
qed

section \<open>The view of a module\<close>

text \<open>What the reader finds in a module: types, functions, segments, and no metadata.\<close>

type_synonym func_part = "str_t \<times> bool \<times> int \<times> u8 list"
type_synonym module_view =
  "type_t list \<times> func_part list \<times> u8 list list \<times>
   (c_signature_t list \<times> c_signature_t list \<times> data_signature_t list \<times> function_flags_t list)"

definition func_part :: "func_t \<Rightarrow> func_part" where
  "func_part f = (lf_name f, lf_defined f, lf_type_index f, lf_body f)"

definition module_view :: "object_t \<Rightarrow> module_view" where
  "module_view o1 =
    (lo_types o1, map func_part (lo_funcs o1), map ld_bytes (lo_data o1), metadata o1)"

text \<open>A step of the reader takes objects with one view to objects with another one.\<close>

definition parses ::
  "(object_t \<times> rd_t \<Rightarrow> (object_t \<times> rd_t) outcome) \<Rightarrow> u8 list \<Rightarrow> module_view \<Rightarrow> module_view \<Rightarrow> bool" where
  "parses f bs a b \<longleftrightarrow>
     (\<forall>o1. module_view o1 = a \<longrightarrow> reads (\<lambda>r. f (o1, r)) bs (\<lambda>o2. module_view o2 = b))"

lemma parses_for_from:
  "(\<And>k. k < n \<Longrightarrow> parses (step (i + k)) (bss k) (vw k) (vw (Suc k))) \<Longrightarrow>
   parses (for_from i n step) (concat (map bss [0..<n])) (vw 0) (vw n)"
proof (induction n arbitrary: i bss vw)
  case 0
  then show ?case by (simp add: parses_def reads_return)
next
  case (Suc n)
  have first: "parses (step i) (bss 0) (vw 0) (vw 1)" using Suc.prems [of 0] by simp
  have rest: "parses (for_from (Suc i) n step) (concat (map (\<lambda>k. bss (Suc k)) [0..<n])) (vw 1) (vw (Suc n))"
    using Suc.IH [of "Suc i" "\<lambda>k. bss (Suc k)" "\<lambda>k. vw (Suc k)"] Suc.prems [of "Suc _"] by simp
  have c: "concat (map bss [0..<Suc n]) = bss 0 @ concat (map (\<lambda>k. bss (Suc k)) [0..<n])"
    by (simp add: upt_conv_Cons map_Suc_upt [symmetric] comp_def del: upt_Suc)
  show ?case
    unfolding parses_def c
  proof (intro allI impI)
    fix o1 assume "module_view o1 = vw 0"
    then have "reads (\<lambda>r. step i (o1, r)) (bss 0) (\<lambda>o2. module_view o2 = vw 1)"
      using first by (simp add: parses_def)
    then have "reads (\<lambda>r. outcome_bind (step i (o1, r)) (\<lambda>(o2, r1). for_from (Suc i) n step (o2, r1)))
        (bss 0 @ concat (map (\<lambda>k. bss (Suc k)) [0..<n])) (\<lambda>o2. module_view o2 = vw (Suc n))"
      by (rule reads_bind) (use rest in \<open>simp add: parses_def\<close>)
    then show "reads (\<lambda>r. for_from i (Suc n) step (o1, r))
        (bss 0 @ concat (map (\<lambda>k. bss (Suc k)) [0..<n])) (\<lambda>o2. module_view o2 = vw (Suc n))"
      by simp
  qed
qed

text \<open>A counted section: the number of entries and the entries.\<close>

lemma counted_parses:
  assumes n: "length xs < 2 ^ 32"
    and step: "\<And>k. k < length xs \<Longrightarrow> parses (step k) (enc (xs ! k)) (vw k) (vw (Suc k))"
    and o1: "module_view o1 = vw 0"
  shows "\<exists>o2 s. counted step o1 \<lparr>rd_p = uleb_bytes (of_nat (length xs)) @ concat (map enc xs), rd_pos = 0\<rparr> =
      Value (o2, s) \<and> module_view o2 = vw (length xs)"
proof -
  have m: "map (\<lambda>k. enc (xs ! k)) [0..<length xs] = map enc xs"
    by (rule nth_equalityI) simp_all
  have "parses (for_from 0 (length xs) step) (concat (map (\<lambda>k. enc (xs ! k)) [0..<length xs])) (vw 0)
      (vw (length xs))"
    using step by (intro parses_for_from) simp
  then have l: "reads (\<lambda>r. for_from 0 (length xs) step (o1, r)) (concat (map enc xs))
      (\<lambda>o2. module_view o2 = vw (length xs))"
    unfolding m parses_def using o1 by blast
  have "reads (\<lambda>r. outcome_bind (rd_uleb r) (\<lambda>(m, r1). for_from 0 (unat m) step (o1, r1)))
      (uleb_bytes (of_nat (length xs)) @ concat (map enc xs)) (\<lambda>o2. module_view o2 = vw (length xs))"
    by (rule reads_bind [OF reads_uleb]) (use l unat_of_length [OF n] in simp)
  from this [unfolded reads_def, rule_format, of "[]" "[]"] show ?thesis
    by (auto simp: counted_def)
qed

section \<open>The sections\<close>

text \<open>A function type whose bytes say themselves where they end.\<close>

definition delimited :: "type_t \<Rightarrow> bool" where
  "delimited t \<longleftrightarrow> reads parse_type_entry t (\<lambda>u. u = t)"

lemma parse_type_step_parses:
  "delimited t \<Longrightarrow> parses (parse_type_step i) t (ts, fs, ds, md) (ts @ [t], fs, ds, md)"
  unfolding parses_def parse_type_step_def delimited_def prod.case
  by (intro allI impI reads_map) (auto simp: module_view_def)

definition import_bytes :: "u8 list \<times> u8 list \<times> u32 \<Rightarrow> u8 list" where
  "import_bytes = (\<lambda>(m, n, v). str_bytes m @ str_bytes n @ [0] @ uleb_bytes v)"

lemma parse_import_step_parses:
  assumes "length m < 2 ^ 31" "length n < 2 ^ 31"
  shows "parses (parse_import_step i) (import_bytes (m, n, v)) (ts, fs, ds, md)
    (ts, fs @ [(Some n, False, sint v, [])], ds, md)"
  unfolding parses_def parse_import_step_def import_bytes_def prod.case
proof (intro allI impI, rule reads_bind [OF reads_str [OF assms(1)]],
    rule reads_bind [OF reads_str [OF assms(2)]], rule reads_bind [OF reads_byte])
  fix o1 m1 n1 k
  assume o1: "module_view o1 = (ts, fs, ds, md)" and e: "n1 = n" "k = (0 :: u8)"
  have "reads (\<lambda>r. outcome_bind (rd_uleb r) (\<lambda>(ty, s4). Value (o1\<lparr>lo_funcs := lo_funcs o1 @
        [zero_func\<lparr>lf_name := Some n, lf_type_index := sint ty\<rparr>]\<rparr>, s4))) (uleb_bytes v)
      (\<lambda>o2. module_view o2 = (ts, fs @ [(Some n, False, sint v, [])], ds, md))"
    by (rule reads_map [OF reads_uleb]) (use o1 in \<open>auto simp: module_view_def func_part_def zero_func_def\<close>)
  then show "reads (\<lambda>s3. if k = 0 then outcome_bind (rd_uleb s3) (\<lambda>(ty, s4). Value (o1\<lparr>lo_funcs := lo_funcs o1 @
        [zero_func\<lparr>lf_name := Some n1, lf_type_index := sint ty\<rparr>]\<rparr>, s4))
      else if k = 1 then outcome_bind (rd_skip s3 1) (\<lambda>s4.
        outcome_bind (skip_limits s4) (\<lambda>s5. Value (o1\<lparr>lo_imports_table := True\<rparr>, s5)))
      else if k = 2 then outcome_bind (skip_limits s3) (\<lambda>s4. Value (o1, s4))
      else if k = 3 then outcome_bind (rd_skip s3 2) (\<lambda>s4.
        Value (o1\<lparr>lo_globals := lo_globals o1 @ [\<lparr>lg_name = Some n1, lg_final_index = -1\<rparr>]\<rparr>, s4))
      else Refused) (uleb_bytes v)
    (\<lambda>o2. module_view o2 = (ts, fs @ [(Some n, False, sint v, [])], ds, md))"
    by (simp add: e)
qed

lemma parse_function_step_parses:
  "parses (parse_function_step i) (uleb_bytes v) (ts, fs, ds, md) (ts, fs @ [(None, True, sint v, [])], ds, md)"
  unfolding parses_def parse_function_step_def prod.case
  by (intro allI impI reads_map [OF reads_uleb]) (auto simp: module_view_def func_part_def zero_func_def)

definition sized_bytes :: "u8 list \<Rightarrow> u8 list" where
  "sized_bytes p = uleb_bytes (of_nat (length p)) @ p"

definition set_body :: "u8 list \<Rightarrow> func_part \<Rightarrow> func_part" where
  "set_body body = (\<lambda>(n, d, t, _). (n, d, t, body))"

lemma parse_code_step_parses:
  assumes "length body < 2 ^ 32" "first + i < length fs"
  shows "parses (parse_code_step first i) (sized_bytes body) (ts, fs, ds, md)
    (ts, fs[first + i := set_body body (fs ! (first + i))], ds, md)"
  unfolding parses_def parse_code_step_def sized_bytes_def prod.case
proof (intro allI impI, rule reads_bind [OF reads_uleb])
  fix o1 :: object_t and sz :: u32
  assume o1: "module_view o1 = (ts, fs, ds, md)" and sz: "sz = of_nat (length body)"
  have fs: "fs = map func_part (lo_funcs o1)" using o1 by (simp add: module_view_def)
  then have l: "first + i < length (lo_funcs o1)" using assms(2) by simp
  show "reads (\<lambda>s1. let body_start = rd_pos s1; fi = first + i
      in if length (rd_p s1) < body_start + unat sz then Refused
         else if length (lo_funcs o1) \<le> fi then Refused
         else Value
           (o1\<lparr>lo_funcs := (lo_funcs o1)[fi := (lo_funcs o1 ! fi)
               \<lparr>lf_code_payload_off := body_start,
                lf_body := take (unat sz) (drop body_start (rd_p s1))\<rparr>]\<rparr>,
            s1\<lparr>rd_pos := body_start + unat sz\<rparr>)) body
    (\<lambda>o2. module_view o2 = (ts, fs[first + i := set_body body (fs ! (first + i))], ds, md))"
    using l o1 unfolding reads_def
    by (auto simp: Let_def sz unat_of_length [OF assms(1)] not_le not_less module_view_def fs map_update
        func_part_def set_body_def)
qed

definition segment_bytes :: "u32 \<times> u8 list \<Rightarrow> u8 list" where
  "segment_bytes = (\<lambda>(addr, p). [0] @ [0x41] @ sleb_bytes (scast addr) @ [0x0b] @ sized_bytes p)"

lemma parse_data_step_parses:
  assumes "length p < 2 ^ 32"
  shows "parses (parse_data_step i) (segment_bytes (addr, p)) (ts, fs, ds, md) (ts, fs, ds @ [p], md)"
  unfolding parses_def
proof (intro allI impI)
  fix o1 assume o1: "module_view o1 = (ts, fs, ds, md)"
  let ?Q = "\<lambda>o2. module_view o2 = (ts, fs, ds @ [p], md)"
  let ?push = "\<lambda>s5. \<lambda>(bytes, s6). Value (o1\<lparr>lo_data := lo_data o1 @
      [zero_data\<lparr>ld_defined := True, ld_data_payload_off := rd_pos s5, ld_bytes := bytes\<rparr>]\<rparr>, s6)"
  have "reads (\<lambda>s5. outcome_bind (rd_bytes_dup s5 (unat (of_nat (length p) :: u32))) (?push s5)) p ?Q"
    unfolding reads_def using o1
    by (auto simp: unat_of_length [OF assms] rd_bytes_dup_def module_view_def zero_data_def)
  then have 1: "reads (\<lambda>s4. outcome_bind (rd_uleb s4) (\<lambda>(sz, s5).
      outcome_bind (rd_bytes_dup s5 (unat sz)) (?push s5))) (sized_bytes p) ?Q"
    unfolding sized_bytes_def by (intro reads_bind [OF reads_uleb]) simp
  have 2: "reads (\<lambda>s3. outcome_bind (rd_byte s3) (\<lambda>(endop, s4). if endop \<noteq> 0x0b then Refused
      else outcome_bind (rd_uleb s4) (\<lambda>(sz, s5). outcome_bind (rd_bytes_dup s5 (unat sz)) (?push s5))))
      ([0x0b] @ sized_bytes p) ?Q"
    by (rule reads_bind [OF reads_byte]) (use 1 in simp)
  have 3: "reads (\<lambda>s2. outcome_bind (rd_uleb s2) (\<lambda>(_, s3). outcome_bind (rd_byte s3) (\<lambda>(endop, s4).
      if endop \<noteq> 0x0b then Refused
      else outcome_bind (rd_uleb s4) (\<lambda>(sz, s5). outcome_bind (rd_bytes_dup s5 (unat sz)) (?push s5)))))
      (sleb_bytes (scast addr) @ [0x0b] @ sized_bytes p) ?Q"
    by (rule reads_bind [OF reads_over_sleb 2])
  have 4: "reads (\<lambda>s1. outcome_bind (rd_byte s1) (\<lambda>(opcode, s2). if opcode \<noteq> 0x41 then Refused
      else outcome_bind (rd_uleb s2) (\<lambda>(_, s3). outcome_bind (rd_byte s3) (\<lambda>(endop, s4).
      if endop \<noteq> 0x0b then Refused
      else outcome_bind (rd_uleb s4) (\<lambda>(sz, s5). outcome_bind (rd_bytes_dup s5 (unat sz)) (?push s5))))))
      ([0x41] @ sleb_bytes (scast addr) @ [0x0b] @ sized_bytes p) ?Q"
    by (rule reads_bind [OF reads_byte]) (use 3 in simp)
  show "reads (\<lambda>r. parse_data_step i (o1, r)) (segment_bytes (addr, p)) ?Q"
    unfolding parse_data_step_def segment_bytes_def prod.case
    by (rule reads_bind [OF reads_byte]) (use 4 in simp)
qed

text \<open>A whole section, and what the reader makes of it.\<close>

definition section_ok :: "u32 \<Rightarrow> u8 list \<Rightarrow> module_view \<Rightarrow> module_view \<Rightarrow> bool" where
  "section_ok k payload a b \<longleftrightarrow>
     (\<forall>o1 i. module_view o1 = a \<longrightarrow>
        (\<exists>o2. parse_section (ucast k) payload i o1 = Value o2 \<and> module_view o2 = b))"

definition counted_bytes :: "('a \<Rightarrow> u8 list) \<Rightarrow> 'a list \<Rightarrow> u8 list" where
  "counted_bytes enc xs = uleb_bytes (of_nat (length xs)) @ concat (map enc xs)"

lemma type_section_ok:
  assumes "list_all delimited types" "length types < 2 ^ 32"
  shows "section_ok 1 (counted_bytes (\<lambda>t. t) types) (ts, fs, ds, md) (ts @ types, fs, ds, md)"
  unfolding section_ok_def
proof (intro allI impI)
  fix o1 i assume o1: "module_view o1 = (ts, fs, ds, md)"
  have "\<exists>o2 s. counted parse_type_step o1 \<lparr>rd_p = uleb_bytes (of_nat (length types)) @ concat (map (\<lambda>t. t) types),
      rd_pos = 0\<rparr> = Value (o2, s) \<and> module_view o2 = (ts @ take (length types) types, fs, ds, md)"
  proof (rule counted_parses [OF assms(2), where vw = "\<lambda>k. (ts @ take k types, fs, ds, md)"])
    show "parses (parse_type_step k) (types ! k) (ts @ take k types, fs, ds, md) (ts @ take (Suc k) types, fs, ds, md)"
      if "k < length types" for k
      using parse_type_step_parses [of "types ! k" k "ts @ take k types"] assms(1) that
      by (simp add: take_Suc_conv_app_nth list_all_length)
  qed (use o1 in simp)
  then show "\<exists>o2. parse_section (ucast (1 :: u32)) (counted_bytes (\<lambda>t. t) types) i o1 = Value o2 \<and>
      module_view o2 = (ts @ types, fs, ds, md)"
    by (auto simp: parse_section_def parse_type_section_def counted_bytes_def)
qed

definition import_part :: "u8 list \<times> u8 list \<times> u32 \<Rightarrow> func_part" where
  "import_part = (\<lambda>(m, n, v). (Some n, False, sint v, []))"

definition import_short :: "u8 list \<times> u8 list \<times> u32 \<Rightarrow> bool" where
  "import_short = (\<lambda>(m, n, v). length m < 2 ^ 31 \<and> length n < 2 ^ 31)"

lemma import_section_ok:
  assumes "list_all import_short xs" "length xs < 2 ^ 32"
  shows "section_ok 2 (counted_bytes import_bytes xs) (ts, fs, ds, md) (ts, fs @ map import_part xs, ds, md)"
  unfolding section_ok_def
proof (intro allI impI)
  fix o1 i assume o1: "module_view o1 = (ts, fs, ds, md)"
  have "\<exists>o2 s. counted parse_import_step o1 \<lparr>rd_p = uleb_bytes (of_nat (length xs)) @ concat (map import_bytes xs),
      rd_pos = 0\<rparr> = Value (o2, s) \<and> module_view o2 = (ts, fs @ map import_part (take (length xs) xs), ds, md)"
  proof (rule counted_parses [OF assms(2), where vw = "\<lambda>k. (ts, fs @ map import_part (take k xs), ds, md)"])
    fix k assume k: "k < length xs"
    obtain m n v where x: "xs ! k = (m, n, v)" by (cases "xs ! k")
    have "import_short (xs ! k)" using assms(1) k by (simp add: list_all_length)
    then show "parses (parse_import_step k) (import_bytes (xs ! k)) (ts, fs @ map import_part (take k xs), ds, md)
        (ts, fs @ map import_part (take (Suc k) xs), ds, md)"
      using parse_import_step_parses [of m n k v ts "fs @ map import_part (take k xs)"] k
      by (simp add: take_Suc_conv_app_nth x import_part_def import_short_def)
  qed (use o1 in simp)
  then show "\<exists>o2. parse_section (ucast (2 :: u32)) (counted_bytes import_bytes xs) i o1 = Value o2 \<and>
      module_view o2 = (ts, fs @ map import_part xs, ds, md)"
    by (auto simp: parse_section_def parse_import_section_def counted_bytes_def)
qed

definition declared_part :: "u32 \<Rightarrow> func_part" where
  "declared_part v = (None, True, sint v, [])"

lemma function_section_ok:
  assumes "length xs < 2 ^ 32"
  shows "section_ok 3 (counted_bytes uleb_bytes xs) (ts, fs, ds, md) (ts, fs @ map declared_part xs, ds, md)"
  unfolding section_ok_def
proof (intro allI impI)
  fix o1 i assume o1: "module_view o1 = (ts, fs, ds, md)"
  have "\<exists>o2 s. counted parse_function_step o1 \<lparr>rd_p = uleb_bytes (of_nat (length xs)) @ concat (map uleb_bytes xs),
      rd_pos = 0\<rparr> = Value (o2, s) \<and> module_view o2 = (ts, fs @ map declared_part (take (length xs) xs), ds, md)"
  proof (rule counted_parses [OF assms, where vw = "\<lambda>k. (ts, fs @ map declared_part (take k xs), ds, md)"])
    show "parses (parse_function_step k) (uleb_bytes (xs ! k)) (ts, fs @ map declared_part (take k xs), ds, md)
        (ts, fs @ map declared_part (take (Suc k) xs), ds, md)" if "k < length xs" for k
      using parse_function_step_parses [of k "xs ! k" ts "fs @ map declared_part (take k xs)"] that
      by (simp add: take_Suc_conv_app_nth declared_part_def)
  qed (use o1 in simp)
  then show "\<exists>o2. parse_section (ucast (3 :: u32)) (counted_bytes uleb_bytes xs) i o1 = Value o2 \<and>
      module_view o2 = (ts, fs @ map declared_part xs, ds, md)"
    by (auto simp: parse_section_def parse_function_section_def counted_bytes_def)
qed

lemma data_section_ok:
  assumes "list_all (\<lambda>(a, p). length p < 2 ^ 32) xs" "length xs < 2 ^ 32"
  shows "section_ok 11 (counted_bytes segment_bytes xs) (ts, fs, ds, md) (ts, fs, ds @ map snd xs, md)"
  unfolding section_ok_def
proof (intro allI impI)
  fix o1 i assume o1: "module_view o1 = (ts, fs, ds, md)"
  have "\<exists>o2 s. counted parse_data_step (o1\<lparr>lo_data_section_index := i\<rparr>)
      \<lparr>rd_p = uleb_bytes (of_nat (length xs)) @ concat (map segment_bytes xs), rd_pos = 0\<rparr> = Value (o2, s) \<and>
      module_view o2 = (ts, fs, ds @ map snd (take (length xs) xs), md)"
  proof (rule counted_parses [OF assms(2), where vw = "\<lambda>k. (ts, fs, ds @ map snd (take k xs), md)"])
    fix k assume k: "k < length xs"
    obtain a p where x: "xs ! k = (a, p)" by (cases "xs ! k")
    then have "length p < 2 ^ 32" using assms(1) k by (auto simp: list_all_length)
    then show "parses (parse_data_step k) (segment_bytes (xs ! k)) (ts, fs, ds @ map snd (take k xs), md)
        (ts, fs, ds @ map snd (take (Suc k) xs), md)"
      using parse_data_step_parses [of p k a ts fs "ds @ map snd (take k xs)"] k
      by (simp add: take_Suc_conv_app_nth x)
  qed (use o1 in \<open>simp add: module_view_def\<close>)
  then show "\<exists>o2. parse_section (ucast (11 :: u32)) (counted_bytes segment_bytes xs) i o1 = Value o2 \<and>
      module_view o2 = (ts, fs, ds @ map snd xs, md)"
    by (auto simp: parse_section_def parse_data_section_def counted_bytes_def)
qed

text \<open>The bodies go to the functions behind the imports, in order.\<close>

definition with_bodies :: "nat \<Rightarrow> u32 list \<Rightarrow> u8 list list \<Rightarrow> func_part list" where
  "with_bodies k tys bodies =
    map (\<lambda>j. (None, True, sint (tys ! j), if j < k then bodies ! j else [])) [0..<length tys]"

lemma with_bodies_0: "with_bodies 0 tys bodies = map declared_part tys"
  by (rule nth_equalityI) (simp_all add: with_bodies_def declared_part_def)

lemma with_bodies_Suc:
  assumes "k < length tys" "length imps = n"
  shows "(imps @ with_bodies k tys bodies)[n + k := set_body (bodies ! k) ((imps @ with_bodies k tys bodies) ! (n + k))] =
    imps @ with_bodies (Suc k) tys bodies"
proof -
  have "(with_bodies k tys bodies)[k := (None, True, sint (tys ! k), bodies ! k)] = with_bodies (Suc k) tys bodies"
    using assms(1) by (intro nth_equalityI) (auto simp: with_bodies_def nth_list_update)
  moreover have "with_bodies k tys bodies ! k = (None, True, sint (tys ! k), [])"
    using assms(1) by (simp add: with_bodies_def)
  ultimately show ?thesis
    using assms(2) by (simp add: list_update_append nth_append set_body_def)
qed

lemma first_defined_view:
  assumes "map func_part (lo_funcs o1) = map import_part imps @ map declared_part tys"
  shows "first_defined o1 = length imps"
proof -
  have d: "(\<lambda>f. \<not> fst (snd f)) \<circ> func_part = (\<lambda>f. \<not> lf_defined f)"
    by (rule ext) (simp add: func_part_def)
  have "takeWhile (\<lambda>f. \<not> fst (snd f)) (map func_part (lo_funcs o1)) = map import_part imps"
    unfolding assms by (cases tys) (auto simp: takeWhile_append import_part_def declared_part_def)
  then have "map func_part (takeWhile (\<lambda>f. \<not> lf_defined f) (lo_funcs o1)) = map import_part imps"
    by (simp only: takeWhile_map d)
  then have "length (takeWhile (\<lambda>f. \<not> lf_defined f) (lo_funcs o1)) = length imps"
    by (metis length_map)
  then show ?thesis by (simp add: first_defined_def)
qed

lemma code_section_ok:
  assumes "list_all (\<lambda>b. length b < 2 ^ 32) bodies" "length bodies < 2 ^ 32" "length bodies = length tys"
  shows "section_ok 10 (counted_bytes sized_bytes bodies) (ts, map import_part imps @ map declared_part tys, ds, md)
    (ts, map import_part imps @ with_bodies (length tys) tys bodies, ds, md)"
  unfolding section_ok_def
proof (intro allI impI)
  fix o1 i assume o1: "module_view o1 = (ts, map import_part imps @ map declared_part tys, ds, md)"
  then have first: "first_defined o1 = length imps" by (intro first_defined_view) (simp add: module_view_def)
  have "\<exists>o2 s. counted (parse_code_step (length imps)) (o1\<lparr>lo_code_section_index := i\<rparr>)
      \<lparr>rd_p = uleb_bytes (of_nat (length bodies)) @ concat (map sized_bytes bodies), rd_pos = 0\<rparr> = Value (o2, s) \<and>
      module_view o2 = (ts, map import_part imps @ with_bodies (length bodies) tys bodies, ds, md)"
  proof (rule counted_parses [OF assms(2),
        where vw = "\<lambda>k. (ts, map import_part imps @ with_bodies k tys bodies, ds, md)"])
    fix k assume k: "k < length bodies"
    then have l: "length (bodies ! k) < 2 ^ 32" using assms(1) by (simp add: list_all_length)
    show "parses (parse_code_step (length imps) k) (sized_bytes (bodies ! k))
        (ts, map import_part imps @ with_bodies k tys bodies, ds, md)
        (ts, map import_part imps @ with_bodies (Suc k) tys bodies, ds, md)"
      using parse_code_step_parses [OF l, of "length imps" k "map import_part imps @ with_bodies k tys bodies" ts ds md]
        with_bodies_Suc [of k tys "map import_part imps" "length imps" bodies] k assms(3)
      by (simp add: with_bodies_def)
  qed (use o1 in \<open>simp add: module_view_def with_bodies_0\<close>)
  then show "\<exists>o2. parse_section (ucast (10 :: u32)) (counted_bytes sized_bytes bodies) i o1 = Value o2 \<and>
      module_view o2 = (ts, map import_part imps @ with_bodies (length tys) tys bodies, ds, md)"
    by (auto simp: parse_section_def parse_code_section_def counted_bytes_def first assms(3))
qed

text \<open>The sections the reader passes over.\<close>

lemma other_section_ok:
  assumes "k \<in> {4, 5, 6, 7, 9}"
  shows "section_ok k payload a a"
  using assms by (auto simp: section_ok_def parse_section_def)

section \<open>A sequence of sections\<close>

primrec sections_ok :: "(u32 \<times> u8 list) list \<Rightarrow> module_view \<Rightarrow> module_view \<Rightarrow> bool" where
  "sections_ok [] a b = (a = b)"
| "sections_ok (s # ss) a b =
    (\<exists>c. length (snd s) < 2 ^ 32 \<and> section_ok (fst s) (snd s) a c \<and> sections_ok ss c b)"

lemma sections_ok_append: "sections_ok xs a b \<Longrightarrow> sections_ok ys b c \<Longrightarrow> sections_ok (xs @ ys) a c"
proof (induction xs arbitrary: a)
  case Nil
  then show ?case by simp
next
  case (Cons s ss)
  obtain d where "length (snd s) < 2 ^ 32" "section_ok (fst s) (snd s) a d" "sections_ok ss d b"
    using Cons.prems(1) unfolding sections_ok.simps by blast
  then show ?case unfolding append_Cons sections_ok.simps using Cons.IH Cons.prems(2) by blast
qed

definition sections_bytes :: "(u32 \<times> u8 list) list \<Rightarrow> u8 list" where
  "sections_bytes ss = concat (map (\<lambda>(k, p). section_bytes k p) ss)"

lemma next_part_section:
  assumes "length p < 2 ^ 32"
  shows "next_part \<lparr>rd_p = pre @ section_bytes k p @ rest, rd_pos = length pre\<rparr> =
    Value (ucast k, p, \<lparr>rd_p = pre @ section_bytes k p @ rest,
                        rd_pos = length pre + length (section_bytes k p)\<rparr>)"
  using rd_byte_at [of pre "ucast k" "uleb_bytes (of_nat (length p)) @ p @ rest"]
    uleb.decode_encode [where v = "of_nat (length p)" and pre = "pre @ [ucast k]" and rest = "p @ rest"]
  by (simp add: next_part_def section_bytes_def unat_of_length [OF assms])

lemma parse_sections_chain:
  "sections_ok ss a b \<Longrightarrow> module_view o1 = a \<Longrightarrow>
   \<exists>o2. parse_sections o1 i \<lparr>rd_p = pre @ sections_bytes ss, rd_pos = length pre\<rparr> = Value o2 \<and>
     module_view o2 = b"
proof (induction ss arbitrary: a o1 i pre)
  case Nil
  then show ?case by (simp add: parse_sections.simps sections_bytes_def)
next
  case (Cons s ss)
  obtain k p where s: "s = (k, p)" by (cases s)
  obtain c where p: "length p < 2 ^ 32" and ok: "section_ok k p a c" and rest: "sections_ok ss c b"
    using Cons.prems(1) by (auto simp: s)
  have e: "sections_bytes (s # ss) = section_bytes k p @ sections_bytes ss" by (simp add: s sections_bytes_def)
  obtain o3 where o3: "parse_section (ucast k) p i o1 = Value o3" "module_view o3 = c"
    using ok Cons.prems(2) by (auto simp: section_ok_def)
  let ?i = "if (ucast k :: u8) \<noteq> SEC_CUSTOM then i + 1 else i"
  have "length pre < length (pre @ section_bytes k p @ sections_bytes ss)"
    by (simp add: section_bytes_def)
  then have "parse_sections o1 i \<lparr>rd_p = pre @ sections_bytes (s # ss), rd_pos = length pre\<rparr> =
      parse_sections o3 ?i \<lparr>rd_p = (pre @ section_bytes k p) @ sections_bytes ss,
        rd_pos = length (pre @ section_bytes k p)\<rparr>"
    unfolding e by (subst parse_sections.simps) (simp add: next_part_section [OF p] o3)
  then show ?case
    using Cons.IH [OF rest o3(2), of ?i "pre @ section_bytes k p"] by simp
qed

definition module_header :: "u8 list" where
  "module_header = [0, 0x61, 0x73, 0x6d, 1, 0, 0, 0]"

lemma parse_module:
  assumes "sections_ok ss ([], [], [], [], [], [], []) (ts, fs, ds, [], [], [], [])"
  shows "\<exists>o1. parse_object_bytes (module_header @ sections_bytes ss) = Value o1 \<and>
    lo_types o1 = ts \<and> map func_part (lo_funcs o1) = fs \<and> map ld_bytes (lo_data o1) = ds"
proof -
  have "module_view zero_object = ([], [], [], [], [], [], [])"
    by (simp add: module_view_def zero_object_def metadata_def)
  moreover have "length module_header = 8" by (simp add: module_header_def)
  ultimately obtain o1 where
      p: "parse_sections zero_object 0 \<lparr>rd_p = module_header @ sections_bytes ss, rd_pos = 8\<rparr> = Value o1"
    and v: "module_view o1 = (ts, fs, ds, [], [], [], [])"
    using parse_sections_chain [OF assms, of zero_object 0 module_header] by auto
  have "lo_c_signatures o1 = []" "lo_abi_layout_signatures o1 = []" "lo_data_signatures o1 = []"
    "lo_function_flags o1 = []"
    using v by (simp_all add: module_view_def metadata_def)
  then have "parse_object_bytes (module_header @ sections_bytes ss) = Value o1"
    using p by (simp add: parse_object_bytes_def module_header_def validate_function_flags_metadata_def
        validate_abi_layout_metadata_def validate_data_signature_metadata_def)
  then show ?thesis using v by (simp add: module_view_def)
qed

section \<open>What the linker writes\<close>

text \<open>A list of writers that writes these sections.\<close>

definition writes_sections :: "(buf_t \<Rightarrow> buf_t option) list \<Rightarrow> (u32 \<times> u8 list) list \<Rightarrow> bool" where
  "writes_sections fs ss \<longleftrightarrow> list_all2 writes fs (map (\<lambda>(k, p). section_bytes k p) ss)"

lemma writes_sections_append:
  "writes_sections fs ss \<Longrightarrow> writes_sections gs ts \<Longrightarrow> writes_sections (fs @ gs) (ss @ ts)"
  by (simp add: writes_sections_def list_all2_appendI)

definition section_if :: "bool \<Rightarrow> u32 \<Rightarrow> u8 list \<Rightarrow> (u32 \<times> u8 list) list" where
  "section_if present k p = (if present then [(k, p)] else [])"

lemma writes_optional:
  "list_all2 writes fs bss \<Longrightarrow> writes_sections (optional present k fs) (section_if present k (concat bss))"
  by (simp add: writes_sections_def optional_def section_if_def writes_section)

lemma writes_mandatory: "list_all2 writes fs bss \<Longrightarrow> writes_sections [write_section k fs] [(k, concat bss)]"
  by (simp add: writes_sections_def writes_section)

text \<open>A count and the entries one after the other.\<close>

lemma writes_counted:
  assumes "\<And>x. x \<in> set xs \<Longrightarrow> \<exists>bss. list_all2 writes (wr x) bss \<and> concat bss = enc x"
  shows "\<exists>bss. list_all2 writes (count_writer xs # concat (map wr xs)) bss \<and> concat bss = counted_bytes enc xs"
proof -
  have "\<exists>bss. list_all2 writes (concat (map wr xs)) bss \<and> concat bss = concat (map enc xs)"
    using assms
  proof (induction xs)
    case Nil
    then show ?case by simp
  next
    case (Cons x xs)
    obtain as bss where "list_all2 writes (wr x) as" "concat as = enc x"
        "list_all2 writes (concat (map wr xs)) bss" "concat bss = concat (map enc xs)"
      using Cons.IH Cons.prems by fastforce
    then show ?case by (intro exI [of _ "as @ bss"]) (simp add: list_all2_appendI)
  qed
  then obtain bss where b: "list_all2 writes (concat (map wr xs)) bss" "concat bss = concat (map enc xs)"
    by blast
  have "writes (count_writer xs) (uleb_bytes (of_nat (length xs)))"
    unfolding count_writer_def by (rule writes_uleb)
  then show ?thesis
    using b by (intro exI [of _ "uleb_bytes (of_nat (length xs)) # bss"]) (simp add: counted_bytes_def)
qed

lemma concat_singletons: "concat (map (\<lambda>x. [f x]) xs) = map f xs"
  by (induction xs) simp_all

text \<open>The entry of an import.\<close>

definition import_entry :: "linker_options_t \<Rightarrow> final_import_t \<Rightarrow> u8 list \<times> u8 list \<times> u32" where
  "import_entry options i =
    (case import_name options (fi_name i) of
       None \<Rightarrow> ([], [], 0)
     | Some (m, n) \<Rightarrow> (m, n, word_of_int (fi_type_index i)))"

lemma writes_byte: "writes (buf_u8 v) [ucast v]" "writes (buf_u8 0) [0]" "writes (buf_u8 1) [1]"
  "writes (buf_u8 2) [2]" "writes (buf_u8 0x0b) [0x0b]" "writes (buf_u8 0x41) [0x41]"
  "writes (buf_u8 0x70) [0x70]" "writes (buf_u8 0x7f) [0x7f]"
  using writes_u8 [of v] writes_u8 [of 0] writes_u8 [of 1] writes_u8 [of 2] writes_u8 [of "0x0b"]
    writes_u8 [of "0x41"] writes_u8 [of "0x70"] writes_u8 [of "0x7f"]
  by simp_all

lemma writes_count: "writes (count_writer xs) (uleb_bytes (of_nat (length xs)))"
  unfolding count_writer_def by (rule writes_uleb)

lemmas writes_basic = writes_byte writes_bytes writes_uleb writes_sleb writes_str writes_count

lemma import_writers_bytes:
  assumes "import_name options (fi_name i) \<noteq> None"
  shows "\<exists>bss. list_all2 writes (import_writers options i) bss \<and> concat bss = import_bytes (import_entry options i)"
proof -
  obtain m n where mn: "import_name options (fi_name i) = Some (m, n)" using assms by auto
  then show ?thesis
    by (intro exI [of _ "[str_bytes m, str_bytes n, [0], uleb_bytes (word_of_int (fi_type_index i))]"])
       (simp add: import_writers_def import_entry_def import_bytes_def writes_basic)
qed

lemma data_writers_bytes:
  "\<exists>bss. list_all2 writes (data_writers d) bss \<and> concat bss = segment_bytes (ld_final_addr d, ld_bytes d)"
  by (intro exI [of _ "[[0], [0x41], sleb_bytes (scast (ld_final_addr d)), [0x0b],
        uleb_bytes (of_nat (length (ld_bytes d))), ld_bytes d]"])
     (simp add: data_writers_def segment_bytes_def sized_bytes_def writes_basic)

lemma code_writers_bytes:
  "\<exists>bss. list_all2 writes (code_writers f) bss \<and> concat bss = sized_bytes (lf_body f)"
  by (intro exI [of _ "[uleb_bytes (of_nat (length (lf_body f))), lf_body f]"])
     (simp add: code_writers_def sized_bytes_def writes_basic)

text \<open>The sections the reader passes over.\<close>

definition global_bytes :: "final_global_t \<Rightarrow> u8 list" where
  "global_bytes g = [0x7f, 1, 0x41] @ sleb_bytes (scast (fg_init_value g)) @ [0x0b]"

lemma global_writers_bytes: "\<exists>bss. list_all2 writes (global_writers g) bss \<and> concat bss = global_bytes g"
  by (intro exI [of _ "[[0x7f], [1], [0x41], sleb_bytes (scast (fg_init_value g)), [0x0b]]"])
     (simp add: global_writers_def global_bytes_def writes_basic)

definition export_bytes :: "u8 list \<times> int \<Rightarrow> u8 list" where
  "export_bytes = (\<lambda>(name, i). str_bytes name @ [0] @ uleb_bytes (word_of_int i))"

lemma export_writers_bytes: "\<exists>bss. list_all2 writes (export_writers e) bss \<and> concat bss = export_bytes e"
  by (cases e; intro exI [of _ "[str_bytes (fst e), [0], uleb_bytes (word_of_int (snd e))]"])
     (simp add: export_writers_def export_bytes_def writes_basic)

definition limits_bytes :: "linker_options_t \<Rightarrow> u32 \<Rightarrow> u32 \<Rightarrow> u32 \<Rightarrow> u8 list" where
  "limits_bytes options flag least most =
    (if has_option options flag then [1] @ uleb_bytes least @ uleb_bytes most else [0] @ uleb_bytes least)"

definition table_bytes :: "linker_options_t \<Rightarrow> final_table_func_t list \<Rightarrow> u8 list" where
  "table_bytes options tables =
    uleb_bytes 1 @ [0x70] @
    limits_bytes options LINK_OPT_MAX_TABLE (of_nat (length tables) + 2) (op_maximum_table_elements options)"

lemma table_writers_bytes:
  "\<exists>bss. list_all2 writes (table_writers options tables) bss \<and> concat bss = table_bytes options tables"
  by (intro exI [of _ "[uleb_bytes 1, [0x70], [if has_option options LINK_OPT_MAX_TABLE then 1 else 0],
        uleb_bytes (of_nat (length tables) + 2)] @
        (if has_option options LINK_OPT_MAX_TABLE then [uleb_bytes (op_maximum_table_elements options)] else [])"])
     (simp add: table_writers_def table_bytes_def limits_bytes_def writes_basic)

definition memory_bytes :: "linker_options_t \<Rightarrow> u32 \<Rightarrow> u8 list" where
  "memory_bytes options pages =
    uleb_bytes 1 @ limits_bytes options LINK_OPT_MAX_MEMORY pages (op_maximum_memory_pages options)"

lemma memory_writers_bytes:
  "\<exists>bss. list_all2 writes (memory_writers options pages) bss \<and> concat bss = memory_bytes options pages"
  by (intro exI [of _ "[uleb_bytes 1, [if has_option options LINK_OPT_MAX_MEMORY then 1 else 0],
        uleb_bytes pages] @
        (if has_option options LINK_OPT_MAX_MEMORY then [uleb_bytes (op_maximum_memory_pages options)] else [])"])
     (simp add: memory_writers_def memory_bytes_def limits_bytes_def writes_basic)

section \<open>The module as sections\<close>

lemma buf_u8s_Cons: "buf_u8s (v # vs) b = Option.bind (buf_u8 v b) (buf_u8s vs)"
proof (cases "buf_u8 v b")
  case None
  have "fold (\<lambda>v m. Option.bind m (buf_u8 v)) vs None = None" by (induction vs) simp_all
  then show ?thesis using None by (simp add: buf_u8s_def)
next
  case (Some b1)
  then show ?thesis by (simp add: buf_u8s_def)
qed

lemma writes_u8s: "writes (buf_u8s vs) (map ucast vs)"
proof (induction vs)
  case Nil
  then show ?case by (simp add: writes_def buf_u8s_def buf_appended_def)
next
  case (Cons v vs)
  have e: "buf_u8s (v # vs) = (\<lambda>b. Option.bind (buf_u8 v b) (buf_u8s vs))"
    by (rule ext) (rule buf_u8s_Cons)
  show ?case unfolding e using writes_bind [OF writes_u8 Cons.IH] by simp
qed

lemma writes_header:
  "list_all2 writes [buf_u32le 0x6d736100, buf_u32le 1] [[0, 0x61, 0x73, 0x6d], [1, 0, 0, 0]]"
  using writes_u8s [of "[0x6d736100 AND 0xff, drop_bit 8 0x6d736100 AND 0xff,
      drop_bit 16 0x6d736100 AND 0xff, drop_bit 24 0x6d736100 AND 0xff]"]
    writes_u8s [of "[1 AND 0xff, drop_bit 8 1 AND 0xff, drop_bit 16 1 AND 0xff, drop_bit 24 1 AND 0xff]"]
  by (simp add: buf_u32le_def drop_bit_eq_div)

text \<open>The functions and segments of a module, in the order they are written.\<close>

definition module_funcs :: "linked_t \<Rightarrow> func_t list" where
  "module_funcs m = map (func_at (ln_objs m)) (ln_defs m)"

definition module_segments :: "linked_t \<Rightarrow> data_seg_t list" where
  "module_segments m = map (data_at (ln_objs m)) (ln_datas m)"

definition final_type_words :: "linked_t \<Rightarrow> u32 list" where
  "final_type_words m = map (\<lambda>f. word_of_int (lf_final_type f)) (module_funcs m)"

definition segment_parts :: "linked_t \<Rightarrow> (u32 \<times> u8 list) list" where
  "segment_parts m = map (\<lambda>d. (ld_final_addr d, ld_bytes d)) (module_segments m)"

lemma writes_counted_section:
  assumes "\<And>x. x \<in> set xs \<Longrightarrow> \<exists>bss. list_all2 writes (wr x) bss \<and> concat bss = enc (h x)"
  shows "writes_sections (optional present k (count_writer xs # concat (map wr xs)))
    (section_if present k (counted_bytes enc (map h xs)))"
proof -
  obtain bss where "list_all2 writes (count_writer xs # concat (map wr xs)) bss"
      "concat bss = counted_bytes (\<lambda>x. enc (h x)) xs"
    using writes_counted [of xs wr "\<lambda>x. enc (h x)"] assms by blast
  moreover have "counted_bytes (\<lambda>x. enc (h x)) xs = counted_bytes enc (map h xs)"
    by (simp add: counted_bytes_def comp_def)
  ultimately show ?thesis using writes_optional [of _ bss present k] by metis
qed

lemma writes_counted_single:
  assumes "\<And>x. writes (wr x) (enc (h x))"
  shows "writes_sections (optional present k (count_writer xs # map wr xs))
    (section_if present k (counted_bytes enc (map h xs)))"
proof -
  have "\<exists>bss. list_all2 writes [wr x] bss \<and> concat bss = enc (h x)" for x
    using assms by (intro exI [of _ "[enc (h x)]"]) simp
  then show ?thesis
    using writes_counted_section [of xs "\<lambda>x. [wr x]" enc h present k] by (simp add: concat_singletons)
qed

definition export_section_bytes :: "(u8 list \<times> int) list \<Rightarrow> u8 list" where
  "export_section_bytes exports =
    uleb_bytes (1 + of_nat (length exports)) @ str_bytes (lit ''memory'') @ [2] @ uleb_bytes 0 @
    concat (map export_bytes exports)"

definition table_index_bytes :: "final_table_func_t \<Rightarrow> u8 list" where
  "table_index_bytes t = uleb_bytes (word_of_int (ft_final_func_index t))"

definition element_section_bytes :: "final_table_func_t list \<Rightarrow> u8 list" where
  "element_section_bytes tables =
    uleb_bytes 1 @ [0, 0x41] @ sleb_bytes (scast (2 :: u32)) @ [0x0b] @ counted_bytes table_index_bytes tables"

text \<open>The sections of a module in their order, and its bytes.\<close>

definition module_sections :: "linker_options_t \<Rightarrow> linked_t \<Rightarrow> (u32 \<times> u8 list) list" where
  "module_sections options m =
    [(1, counted_bytes (\<lambda>t. t) (ln_types m))] @
    section_if (ln_imports m \<noteq> []) 2 (counted_bytes import_bytes (map (import_entry options) (ln_imports m))) @
    section_if (module_funcs m \<noteq> []) 3 (counted_bytes uleb_bytes (final_type_words m)) @
    section_if (ln_needs_table m \<or> ln_tables m \<noteq> []) 4 (table_bytes options (ln_tables m)) @
    [(5, memory_bytes options (ln_memory_pages m))] @
    section_if (ln_globals m \<noteq> []) 6 (counted_bytes global_bytes (ln_globals m)) @
    [(7, export_section_bytes (ln_exports m))] @
    section_if (ln_tables m \<noteq> []) 9 (element_section_bytes (ln_tables m)) @
    section_if (module_funcs m \<noteq> []) 10 (counted_bytes sized_bytes (map lf_body (module_funcs m))) @
    section_if (module_segments m \<noteq> []) 11 (counted_bytes segment_bytes (segment_parts m))"

definition module_bytes :: "linker_options_t \<Rightarrow> linked_t \<Rightarrow> u8 list" where
  "module_bytes options m = module_header @ sections_bytes (module_sections options m)"

lemma writes_entries:
  assumes "\<And>x. x \<in> set xs \<Longrightarrow> \<exists>bss. list_all2 writes (wr x) bss \<and> concat bss = enc x"
  shows "\<exists>bss. list_all2 writes (concat (map wr xs)) bss \<and> concat bss = concat (map enc xs)"
  using assms
proof (induction xs)
  case Nil
  then show ?case by simp
next
  case (Cons x xs)
  obtain as bss where "list_all2 writes (wr x) as" "concat as = enc x"
      "list_all2 writes (concat (map wr xs)) bss" "concat bss = concat (map enc xs)"
    using Cons.IH Cons.prems by fastforce
  then show ?case by (intro exI [of _ "as @ bss"]) (simp add: list_all2_appendI)
qed

lemma export_section_writes:
  "writes_sections [write_section 7
     ([buf_uleb (1 + of_nat (length exports)), buf_str (lit ''memory''), buf_u8 2, buf_uleb 0] @
      concat (map export_writers exports))] [(7, export_section_bytes exports)]"
proof -
  obtain bss where b: "list_all2 writes (concat (map export_writers exports)) bss"
      "concat bss = concat (map export_bytes exports)"
    using writes_entries [of exports export_writers export_bytes] export_writers_bytes by blast
  have "list_all2 writes ([buf_uleb (1 + of_nat (length exports)), buf_str (lit ''memory''), buf_u8 2, buf_uleb 0] @
      concat (map export_writers exports))
      ([uleb_bytes (1 + of_nat (length exports)), str_bytes (lit ''memory''), [2], uleb_bytes 0] @ bss)"
    by (rule list_all2_appendI) (simp_all add: writes_basic b)
  from writes_mandatory [OF this, of 7] show ?thesis by (simp add: export_section_bytes_def b)
qed

lemma element_section_writes:
  "writes_sections (optional present 9
     ([buf_uleb 1, buf_u8 0, buf_u8 0x41, buf_sleb_i32 2, buf_u8 0x0b, count_writer tables] @
      map (\<lambda>t. buf_uleb (word_of_int (ft_final_func_index t))) tables))
   (section_if present 9 (element_section_bytes tables))"
proof -
  have "list_all2 writes ([buf_uleb 1, buf_u8 0, buf_u8 0x41, buf_sleb_i32 2, buf_u8 0x0b, count_writer tables] @
      map (\<lambda>t. buf_uleb (word_of_int (ft_final_func_index t))) tables)
      ([uleb_bytes 1, [0], [0x41], sleb_bytes (scast (2 :: u32)), [0x0b], uleb_bytes (of_nat (length tables))] @
       map table_index_bytes tables)"
  proof (rule list_all2_appendI)
    show "list_all2 writes (map (\<lambda>t. buf_uleb (word_of_int (ft_final_func_index t))) tables)
        (map table_index_bytes tables)"
      by (simp add: list_all2_conv_all_nth table_index_bytes_def writes_uleb)
  qed (use writes_sleb [of 2] in \<open>simp add: writes_basic\<close>)
  from writes_optional [OF this, of present 9] show ?thesis
    by (simp add: element_section_bytes_def counted_bytes_def)
qed

lemma module_writers_writes:
  assumes "list_all (\<lambda>i. import_name options (fi_name i) \<noteq> None) (ln_imports m)"
  shows "writes (emit_all (module_writers options m)) (module_bytes options m)"
proof -
  have 1: "writes_sections [write_section 1 (count_writer (ln_types m) # map buf_bytes (ln_types m))]
      [(1, counted_bytes (\<lambda>t. t) (ln_types m))]"
    using writes_counted_single [of buf_bytes "\<lambda>t. t" "\<lambda>t. t" True 1 "ln_types m"] writes_bytes
    by (simp add: optional_def section_if_def)
  have 2: "writes_sections (optional (ln_imports m \<noteq> []) 2
      (count_writer (ln_imports m) # concat (map (import_writers options) (ln_imports m))))
      (section_if (ln_imports m \<noteq> []) 2 (counted_bytes import_bytes (map (import_entry options) (ln_imports m))))"
    using assms by (intro writes_counted_section import_writers_bytes) (simp add: list_all_iff)
  have 3: "writes_sections (optional (module_funcs m \<noteq> []) 3
      (count_writer (module_funcs m) # map (\<lambda>f. buf_uleb (word_of_int (lf_final_type f))) (module_funcs m)))
      (section_if (module_funcs m \<noteq> []) 3 (counted_bytes uleb_bytes (final_type_words m)))"
    unfolding final_type_words_def by (rule writes_counted_single) (rule writes_uleb)
  have 4: "writes_sections (optional (ln_needs_table m \<or> ln_tables m \<noteq> []) 4
      (table_writers options (ln_tables m)))
      (section_if (ln_needs_table m \<or> ln_tables m \<noteq> []) 4 (table_bytes options (ln_tables m)))"
    using table_writers_bytes [of options "ln_tables m"] writes_optional by metis
  have 5: "writes_sections [write_section 5 (memory_writers options (ln_memory_pages m))]
      [(5, memory_bytes options (ln_memory_pages m))]"
    using memory_writers_bytes [of options "ln_memory_pages m"] writes_mandatory by metis
  have 6: "writes_sections (optional (ln_globals m \<noteq> []) 6
      (count_writer (ln_globals m) # concat (map global_writers (ln_globals m))))
      (section_if (ln_globals m \<noteq> []) 6 (counted_bytes global_bytes (ln_globals m)))"
    using writes_counted_section [of "ln_globals m" global_writers global_bytes "\<lambda>g. g"] global_writers_bytes
    by simp
  note 7 = export_section_writes [of "ln_exports m"]
  note 9 = element_section_writes [of "ln_tables m \<noteq> []" "ln_tables m"]
  have 10: "writes_sections (optional (module_funcs m \<noteq> []) 10
      (count_writer (module_funcs m) # concat (map code_writers (module_funcs m))))
      (section_if (module_funcs m \<noteq> []) 10 (counted_bytes sized_bytes (map lf_body (module_funcs m))))"
    by (rule writes_counted_section) (rule code_writers_bytes)
  have 11: "writes_sections (optional (module_segments m \<noteq> []) 11
      (count_writer (module_segments m) # concat (map data_writers (module_segments m))))
      (section_if (module_segments m \<noteq> []) 11 (counted_bytes segment_bytes (segment_parts m)))"
    unfolding segment_parts_def by (rule writes_counted_section) (rule data_writers_bytes)
  note all = writes_sections_append [OF 1 writes_sections_append [OF 2 writes_sections_append [OF 3
    writes_sections_append [OF 4 writes_sections_append [OF 5 writes_sections_append [OF 6
    writes_sections_append [OF 7 writes_sections_append [OF 9 writes_sections_append [OF 10 11]]]]]]]]]
  have "list_all2 writes (module_writers options m)
      ([[0, 0x61, 0x73, 0x6d], [1, 0, 0, 0]] @
       map (\<lambda>(k, p). section_bytes k p) (module_sections options m))"
    unfolding module_writers_def Let_def module_sections_def
      module_funcs_def [symmetric] module_segments_def [symmetric]
    by (rule list_all2_appendI [OF writes_header all [unfolded writes_sections_def]])
  from emit_all_writes [OF this] show ?thesis
    by (simp add: module_bytes_def module_header_def sections_bytes_def)
qed

section \<open>The module read back\<close>

lemma uleb_bytes_nonempty [simp]: "uleb_bytes v \<noteq> []"
  by (simp add: uleb_bytes.simps [of v])

lemma delimited_nonempty:
  assumes "delimited t"
  shows "t \<noteq> []"
proof
  assume "t = []"
  then obtain v r where "parse_type_entry \<lparr>rd_p = [], rd_pos = 0\<rparr> = Value (v, r)"
    using assms [unfolded delimited_def reads_def, rule_format, of "[]" "[]"] by auto
  then show False by (simp add: parse_type_entry_def rd_byte_def)
qed

lemma counted_bytes_entry:
  assumes "x \<in> set xs"
  shows "length (enc x) \<le> length (counted_bytes enc xs)"
proof -
  have "length (enc x) \<le> length (concat (map enc xs))" using assms by (induction xs) auto
  then show ?thesis by (simp add: counted_bytes_def)
qed

lemma counted_bytes_count:
  assumes "\<And>x. x \<in> set xs \<Longrightarrow> enc x \<noteq> []"
  shows "length xs \<le> length (counted_bytes enc xs)"
proof -
  have "length xs \<le> length (concat (map enc xs))"
    using assms
  proof (induction xs)
    case Nil
    then show ?case by simp
  next
    case (Cons x xs)
    then have "enc x \<noteq> []" "length xs \<le> length (concat (map enc xs))" by simp_all
    then show ?case by (cases "enc x") simp_all
  qed
  then show ?thesis by (simp add: counted_bytes_def)
qed

text \<open>A counted section that is not too long has few and short entries.\<close>

lemma counted_small:
  assumes "length (counted_bytes enc xs) < 2 ^ 31" "\<And>x. x \<in> set xs \<Longrightarrow> enc x \<noteq> []"
  shows "length xs < 2 ^ 31" "x \<in> set xs \<Longrightarrow> length (enc x) < 2 ^ 31" "length xs < 2 ^ 32"
    "length (counted_bytes enc xs) < 2 ^ 32"
  using assms(1) counted_bytes_count [of xs enc, OF assms(2)] counted_bytes_entry [of x xs enc] by simp_all

definition fits_section :: "u32 \<Rightarrow> u8 list \<Rightarrow> module_view \<Rightarrow> module_view \<Rightarrow> bool" where
  "fits_section k p a b \<longleftrightarrow> length p < 2 ^ 32 \<and> section_ok k p a b"

lemma types_fit:
  assumes "length (counted_bytes (\<lambda>t. t) types) < 2 ^ 31" "list_all delimited types"
  shows "fits_section 1 (counted_bytes (\<lambda>t. t) types) ([], fs, ds, md) (types, fs, ds, md)"
proof -
  have "t \<noteq> []" if "t \<in> set types" for t
    using that assms(2) by (auto simp: list_all_iff delimited_nonempty)
  note c = counted_small [OF assms(1) this]
  show ?thesis using type_section_ok [OF assms(2) c(3), of "[]"] c(4) by (simp add: fits_section_def)
qed

lemma imports_fit:
  assumes "length (counted_bytes import_bytes xs) < 2 ^ 31"
  shows "fits_section 2 (counted_bytes import_bytes xs) (ts, fs, ds, md) (ts, fs @ map import_part xs, ds, md)"
proof -
  have "import_bytes x \<noteq> []" for x by (cases x) (simp add: import_bytes_def)
  note c = counted_small [OF assms this]
  have "import_short x" if "x \<in> set xs" for x
    using c(2) [OF that] by (cases x) (simp add: import_bytes_def import_short_def str_bytes_def)
  then show ?thesis using import_section_ok [of xs] c(3,4) by (simp add: fits_section_def list_all_iff)
qed

lemma functions_fit:
  assumes "length (counted_bytes uleb_bytes xs) < 2 ^ 31"
  shows "fits_section 3 (counted_bytes uleb_bytes xs) (ts, fs, ds, md) (ts, fs @ map declared_part xs, ds, md)"
  using counted_small [OF assms] function_section_ok [of xs] by (simp add: fits_section_def)

lemma bodies_fit:
  assumes "length (counted_bytes sized_bytes bodies) < 2 ^ 31" "length bodies = length tys"
  shows "fits_section 10 (counted_bytes sized_bytes bodies) (ts, map import_part imps @ map declared_part tys, ds, md)
    (ts, map import_part imps @ with_bodies (length tys) tys bodies, ds, md)"
proof -
  have "sized_bytes x \<noteq> []" for x by (simp add: sized_bytes_def)
  note c = counted_small [OF assms(1) this]
  have "length x < 2 ^ 32" if "x \<in> set bodies" for x
    using c(2) [OF that] by (simp add: sized_bytes_def)
  then show ?thesis
    using code_section_ok [of bodies tys ts imps] c(3,4) assms(2) by (simp add: fits_section_def list_all_iff)
qed

lemma segments_fit:
  assumes "length (counted_bytes segment_bytes xs) < 2 ^ 31"
  shows "fits_section 11 (counted_bytes segment_bytes xs) (ts, fs, ds, md) (ts, fs, ds @ map snd xs, md)"
proof -
  have "segment_bytes x \<noteq> []" for x by (cases x) (simp add: segment_bytes_def)
  note c = counted_small [OF assms this]
  have "case x of (a, p) \<Rightarrow> length p < 2 ^ 32" if "x \<in> set xs" for x
    using c(2) [OF that] by (cases x) (simp add: segment_bytes_def sized_bytes_def)
  then show ?thesis using data_section_ok [of xs] c(3,4) by (simp add: fits_section_def list_all_iff)
qed

lemma others_fit: "length p < 2 ^ 31 \<Longrightarrow> k \<in> {4, 5, 6, 7, 9} \<Longrightarrow> fits_section k p a a"
  using other_section_ok [of k p a] by (simp add: fits_section_def)

lemma section_payload_length: "(k, p) \<in> set ss \<Longrightarrow> length p \<le> length (sections_bytes ss)"
  by (induction ss) (auto simp: sections_bytes_def section_bytes_def)

lemma sections_ok_if:
  assumes "present \<Longrightarrow> fits_section k p a b" "\<not> present \<Longrightarrow> a = b"
  shows "sections_ok (section_if present k p) a b"
proof (cases present)
  case True
  then show ?thesis
    using assms(1) unfolding section_if_def fits_section_def
    by (simp only: if_True sections_ok.simps fst_conv snd_conv) blast
next
  case False
  then show ?thesis using assms(2) by (simp add: section_if_def)
qed

lemma sections_ok_one: "fits_section k p a b \<Longrightarrow> sections_ok [(k, p)] a b"
  using sections_ok_if [of True k p a b] by (simp add: section_if_def)

lemma sint_index:
  assumes "index_in i xs" "length xs < 2 ^ 31"
  shows "sint (word_of_int i :: u32) = i"
  using assms by (auto simp: index_in_def signed_of_int signed_take_bit_int_eq_self)

lemma list_all_section_if [simp]: "list_all P (section_if present k p) \<longleftrightarrow> (present \<longrightarrow> P (k, p))"
  by (simp add: section_if_def)

definition short_sections :: "linker_options_t \<Rightarrow> linked_t \<Rightarrow> bool" where
  "short_sections options m \<longleftrightarrow> list_all (\<lambda>s. length (snd s) < 2 ^ 31) (module_sections options m)"

lemma short_parts:
  assumes "short_sections options m"
  shows "length (counted_bytes (\<lambda>t. t) (ln_types m)) < 2 ^ 31"
    "ln_imports m \<noteq> [] \<Longrightarrow>
       length (counted_bytes import_bytes (map (import_entry options) (ln_imports m))) < 2 ^ 31"
    "module_funcs m \<noteq> [] \<Longrightarrow> length (counted_bytes uleb_bytes (final_type_words m)) < 2 ^ 31"
    "ln_needs_table m \<or> ln_tables m \<noteq> [] \<Longrightarrow> length (table_bytes options (ln_tables m)) < 2 ^ 31"
    "length (memory_bytes options (ln_memory_pages m)) < 2 ^ 31"
    "ln_globals m \<noteq> [] \<Longrightarrow> length (counted_bytes global_bytes (ln_globals m)) < 2 ^ 31"
    "length (export_section_bytes (ln_exports m)) < 2 ^ 31"
    "ln_tables m \<noteq> [] \<Longrightarrow> length (element_section_bytes (ln_tables m)) < 2 ^ 31"
    "module_funcs m \<noteq> [] \<Longrightarrow>
       length (counted_bytes sized_bytes (map lf_body (module_funcs m))) < 2 ^ 31"
    "module_segments m \<noteq> [] \<Longrightarrow> length (counted_bytes segment_bytes (segment_parts m)) < 2 ^ 31"
  using assms by (simp_all add: short_sections_def module_sections_def)

text \<open>The reader takes the sections of a module one after the other.\<close>

lemma module_sections_ok:
  assumes "short_sections options m" and types: "list_all delimited (ln_types m)"
  shows "sections_ok (module_sections options m) ([], [], [], [], [], [], [])
    (ln_types m, map import_part (map (import_entry options) (ln_imports m)) @
       with_bodies (length (final_type_words m)) (final_type_words m) (map lf_body (module_funcs m)),
     map snd (segment_parts m), [], [], [], [])"
proof -
  let ?entries = "map (import_entry options) (ln_imports m)"
  let ?tys = "final_type_words m"
  have tys: "(?tys = []) = (module_funcs m = [])" "(segment_parts m = []) = (module_segments m = [])"
    "length ?tys = length (module_funcs m)"
    by (simp_all add: final_type_words_def segment_parts_def)
  note short = short_parts [OF assms(1)]
  have 1: "sections_ok [(1, counted_bytes (\<lambda>t. t) (ln_types m))] ([], [], [], [], [], [], [])
      (ln_types m, [], [], [], [], [], [])"
    by (rule sections_ok_one [OF types_fit [OF short(1) types]])
  have 2: "sections_ok (section_if (ln_imports m \<noteq> []) 2 (counted_bytes import_bytes ?entries))
      (ln_types m, [], ds, md) (ln_types m, map import_part ?entries, ds, md)" for ds md
    using imports_fit [OF short(2), of "ln_types m" "[]"] by (intro sections_ok_if) simp_all
  have 3: "sections_ok (section_if (module_funcs m \<noteq> []) 3 (counted_bytes uleb_bytes ?tys))
      (ln_types m, fs, ds, md) (ln_types m, fs @ map declared_part ?tys, ds, md)" for fs ds md
    using functions_fit [OF short(3)] tys by (intro sections_ok_if) simp_all
  have 4: "sections_ok (section_if (ln_needs_table m \<or> ln_tables m \<noteq> []) 4 (table_bytes options (ln_tables m))) a a" for a
    using short(4) by (intro sections_ok_if others_fit) simp_all
  have 5: "sections_ok [(5, memory_bytes options (ln_memory_pages m))] a a" for a
    using short(5) by (intro sections_ok_one others_fit) simp_all
  have 6: "sections_ok (section_if (ln_globals m \<noteq> []) 6 (counted_bytes global_bytes (ln_globals m))) a a" for a
    using short(6) by (intro sections_ok_if others_fit) simp_all
  have 7: "sections_ok [(7, export_section_bytes (ln_exports m))] a a" for a
    using short(7) by (intro sections_ok_one others_fit) simp_all
  have 9: "sections_ok (section_if (ln_tables m \<noteq> []) 9 (element_section_bytes (ln_tables m))) a a" for a
    using short(8) by (intro sections_ok_if others_fit) simp_all
  have 10: "sections_ok (section_if (module_funcs m \<noteq> []) 10 (counted_bytes sized_bytes (map lf_body (module_funcs m))))
      (ln_types m, map import_part ?entries @ map declared_part ?tys, ds, md)
      (ln_types m, map import_part ?entries @ with_bodies (length ?tys) ?tys (map lf_body (module_funcs m)), ds, md)"
    for ds md
    using bodies_fit [OF short(9), where tys = ?tys and imps = ?entries and ts = "ln_types m"] tys
    by (intro sections_ok_if) (simp_all add: with_bodies_def)
  have 11: "sections_ok (section_if (module_segments m \<noteq> []) 11 (counted_bytes segment_bytes (segment_parts m)))
      (ts, fs, [], md) (ts, fs, map snd (segment_parts m), md)" for ts fs md
    using segments_fit [OF short(10), of ts fs "[]"] tys by (intro sections_ok_if) simp_all
  show ?thesis
    unfolding module_sections_def
    by (rule sections_ok_append [OF 1 sections_ok_append [OF 2 sections_ok_append [OF 3
          sections_ok_append [OF 4 sections_ok_append [OF 5 sections_ok_append [OF 6
          sections_ok_append [OF 7 sections_ok_append [OF 9 sections_ok_append [OF 10 11]]]]]]]]])
qed

section \<open>The module comes back\<close>

lemma module_part_length:
  assumes "length (module_bytes options m) < 2 ^ 31"
  shows "short_sections options m"
proof -
  have "length p < 2 ^ 31" if "(k, p) \<in> set (module_sections options m)" for k p
    using section_payload_length [OF that] assms by (simp add: module_bytes_def)
  then show ?thesis by (auto simp: short_sections_def list_all_iff)
qed

text \<open>The functions the reader finds are the imports and the functions of the code section.\<close>

definition imported_part :: "linker_options_t \<Rightarrow> final_import_t \<Rightarrow> func_part" where
  "imported_part options i =
    (Some (snd (the (import_name options (fi_name i)))), False, fi_type_index i, [])"

definition defined_part :: "func_t \<Rightarrow> func_part" where
  "defined_part f = (None, True, lf_final_type f, lf_body f)"

lemma import_part_entry:
  assumes "import_name options (fi_name i) \<noteq> None" "index_in (fi_type_index i) ts" "length ts < 2 ^ 31"
  shows "import_part (import_entry options i) = imported_part options i"
  using assms sint_index [OF assms(2,3)]
  by (auto simp: import_part_def import_entry_def imported_part_def)

lemma with_bodies_defined:
  assumes "list_all (\<lambda>f. index_in (lf_final_type f) ts) fs" "length ts < 2 ^ 31"
  shows "with_bodies (length fs) (map (\<lambda>f. word_of_int (lf_final_type f)) fs) (map lf_body fs) =
    map defined_part fs"
proof (rule nth_equalityI)
  show "with_bodies (length fs) (map (\<lambda>f. word_of_int (lf_final_type f)) fs) (map lf_body fs) ! j =
      map defined_part fs ! j" if "j < length (with_bodies (length fs)
        (map (\<lambda>f. word_of_int (lf_final_type f)) fs) (map lf_body fs))" for j
  proof -
    have j: "j < length fs" using that by (simp add: with_bodies_def)
    then have "sint (word_of_int (lf_final_type (fs ! j)) :: u32) = lf_final_type (fs ! j)"
      using assms by (intro sint_index) (simp_all add: list_all_length)
    then show ?thesis using j by (simp add: with_bodies_def defined_part_def)
  qed
qed (simp add: with_bodies_def)

text \<open>The types of the imports and functions of a linked module are types of the module.\<close>

lemma linked_type_indices:
  assumes "link_objects synthesize env options exports use_stdlib objs = Value m"
    and "list_all fresh_object objs" "runtime_fresh synthesize objs"
  shows "list_all (\<lambda>i. index_in (fi_type_index i) (ln_types m)) (ln_imports m)"
    "list_all (\<lambda>f. index_in (lf_final_type f) (ln_types m)) (module_funcs m)"
proof -
  obtain st mem where r: "resolved st (ln_defs m) (ln_datas m) mem"
    and f: "\<And>p. func_at (ln_objs m) p = func_at (lk_objs st) p"
    and eqs: "ln_types m = lk_types st" "ln_imports m = lk_imports st"
    by (rule link_objects_resolved [OF assms]) (rule that)
  have imps: "imports_ok (lk_imports st, lk_types st)" and types: "list_all (shared_types (lk_types st)) (lk_objs st)"
    and defs: "\<And>p. p \<in> set (ln_defs m) \<Longrightarrow> func_in (lk_objs st) p"
    using r unfolding resolved_def by blast+
  show "list_all (\<lambda>i. index_in (fi_type_index i) (ln_types m)) (ln_imports m)"
    using imps by (auto simp: imports_ok_def eqs list_all_length index_in_def)
  have "index_in (lf_final_type (func_at (lk_objs st) p)) (lk_types st)" if "p \<in> set (ln_defs m)" for p
    using types defs [OF that]
    by (cases p) (auto simp: list_all_length shared_types_def func_in_def func_at_def)
  then show "list_all (\<lambda>f. index_in (lf_final_type f) (ln_types m)) (module_funcs m)"
    by (auto simp: module_funcs_def list_all_iff f eqs)
qed

lemma linked_types_few:
  assumes "length (module_bytes options m) < 2 ^ 31" "list_all delimited (ln_types m)"
  shows "length (ln_types m) < 2 ^ 31"
proof -
  have "t \<noteq> []" if "t \<in> set (ln_types m)" for t
    using that assms(2) by (auto simp: list_all_iff delimited_nonempty)
  from counted_small(1) [OF short_parts(1) [OF module_part_length [OF assms(1)]] this] show ?thesis .
qed

lemma build_module_writes:
  assumes "link_objects synthesize env options exports use_stdlib objs = Value m"
    and "list_all (\<lambda>i. import_name options (fi_name i) \<noteq> None) (ln_imports m)"
    and "length (module_bytes options m) < 2 ^ 31"
  shows "(case build_module_into synthesize env (Some options) exports use_stdlib max_len objs of
      Value b \<Rightarrow> lb_data b = module_bytes options m
    | Refused \<Rightarrow> max_len \<noteq> 0 \<and> max_len < length (module_bytes options m)
    | Undefined \<Rightarrow> False)"
proof -
  have s: "\<not> SIZE_MAX < length (module_bytes options m)" using assms(3) by simp
  note w = writesD [OF module_writers_writes [OF assms(2)], of "new_buf max_len"]
  show ?thesis
  proof (cases "emit_all (module_writers options m) (new_buf max_len)")
    case None
    then show ?thesis
      using w(2) s assms(1) by (simp add: build_module_into_def or_refuse_def too_long_def new_buf_def)
  next
    case (Some b)
    then show ?thesis
      using w(1) assms(1) by (simp add: build_module_into_def or_refuse_def buf_appended_def new_buf_def)
  qed
qed

text \<open>
  C9. The module the linker writes is the one it linked: the output holds exactly its bytes, the
  output is refused only when they exceed the limit, and the linker's own reader of objects accepts
  them and finds the types, the imported and defined functions with their types and bodies, and
  the bytes of the data segments.
\<close>

theorem linked_module_reparses:
  assumes "link_objects synthesize env options exports use_stdlib objs = Value m"
    and "list_all fresh_object objs" "runtime_fresh synthesize objs"
    and "list_all delimited (ln_types m)"
    and "list_all (\<lambda>i. import_name options (fi_name i) \<noteq> None) (ln_imports m)"
    and "length (module_bytes options m) < 2 ^ 31"
  shows "(case build_module_into synthesize env (Some options) exports use_stdlib max_len objs of
       Value b \<Rightarrow> lb_data b = module_bytes options m
     | Refused \<Rightarrow> max_len \<noteq> 0 \<and> max_len < length (module_bytes options m)
     | Undefined \<Rightarrow> False) \<and>
    (\<exists>o1. parse_object_bytes (module_bytes options m) = Value o1 \<and> lo_types o1 = ln_types m \<and>
       map func_part (lo_funcs o1) =
         map (imported_part options) (ln_imports m) @ map defined_part (module_funcs m) \<and>
       map ld_bytes (lo_data o1) = map ld_bytes (module_segments m))"
proof -
  note few = linked_types_few [OF assms(6,4)]
  note index = linked_type_indices [OF assms(1-3)]
  have imps: "map import_part (map (import_entry options) (ln_imports m)) =
      map (imported_part options) (ln_imports m)"
    using index(1) assms(5) import_part_entry [OF _ _ few] by (simp add: list_all_iff)
  have defs: "with_bodies (length (final_type_words m)) (final_type_words m) (map lf_body (module_funcs m)) =
      map defined_part (module_funcs m)"
    using with_bodies_defined [OF index(2) few] by (simp add: final_type_words_def)
  have segs: "map snd (segment_parts m) = map ld_bytes (module_segments m)"
    by (simp add: segment_parts_def)
  note parse_module [OF module_sections_ok [OF module_part_length [OF assms(6)] assms(4),
      unfolded imps defs segs], folded module_bytes_def]
  with build_module_writes [OF assms(1,5,6)] show ?thesis by blast
qed

text \<open>A function type with its parameters and results, in the encoding of the format, is delimited.\<close>

lemma function_type_delimited:
  assumes "length ps < 2 ^ 32" "length rs < 2 ^ 32"
  shows "delimited ([0x60] @ uleb_bytes (of_nat (length ps)) @ ps @ uleb_bytes (of_nat (length rs)) @ rs)"
  unfolding delimited_def reads_def
proof (intro allI)
  fix pre rest :: "u8 list"
  let ?np = "uleb_bytes (of_nat (length ps))" and ?nr = "uleb_bytes (of_nat (length rs))"
  let ?t = "[0x60] @ ?np @ ps @ ?nr @ rs"
  have "rd_byte \<lparr>rd_p = pre @ ?t @ rest, rd_pos = length pre\<rparr> =
      Value (0x60, \<lparr>rd_p = pre @ ?t @ rest, rd_pos = length pre + 1\<rparr>)"
    using rd_byte_at [of pre "0x60" "?np @ ps @ ?nr @ rs @ rest"] by simp
  moreover have "rd_uleb \<lparr>rd_p = pre @ ?t @ rest, rd_pos = length pre + 1\<rparr> =
      Value (of_nat (length ps), \<lparr>rd_p = pre @ ?t @ rest, rd_pos = length pre + 1 + length ?np\<rparr>)"
    using uleb.decode_encode [where pre = "pre @ [0x60]" and rest = "ps @ ?nr @ rs @ rest" and v = "of_nat (length ps)"]
    by simp
  moreover have "rd_uleb \<lparr>rd_p = pre @ ?t @ rest, rd_pos = length pre + 1 + length ?np + length ps\<rparr> =
      Value (of_nat (length rs), \<lparr>rd_p = pre @ ?t @ rest,
        rd_pos = length pre + 1 + length ?np + length ps + length ?nr\<rparr>)"
    using uleb.decode_encode [where pre = "pre @ [0x60] @ ?np @ ps" and rest = "rs @ rest" and v = "of_nat (length rs)"]
    by (simp add: add.assoc)
  ultimately show "\<exists>v. parse_type_entry \<lparr>rd_p = pre @ ?t @ rest, rd_pos = length pre\<rparr> =
      Value (v, \<lparr>rd_p = pre @ ?t @ rest, rd_pos = length pre + length ?t\<rparr>) \<and> v = ?t"
    by (simp add: parse_type_entry_def rd_skip_def unat_of_length [OF assms(1)] unat_of_length [OF assms(2)])
qed

lemma sample_delimited: "delimited [0x60, 0, 0]"
proof -
  have "uleb_bytes 0 = [0]" by code_simp
  with function_type_delimited [of "[]" "[]"] show ?thesis by simp
qed

lemma sample_module_length: "length (module_bytes default_linker_options sample_module) < 2 ^ 31"
proof -
  have "length (module_bytes default_linker_options sample_module) < 250" by code_simp
  then show ?thesis by simp
qed

lemma linked_module_reparses_witness:
  "\<exists>o1. parse_object_bytes (module_bytes default_linker_options sample_module) = Value o1 \<and>
     lo_types o1 = [[0x60, 0, 0]] \<and> length (lo_funcs o1) = 2"
proof -
  have "list_all delimited (ln_types sample_module)"
    "list_all (\<lambda>i. import_name default_linker_options (fi_name i) \<noteq> None) (ln_imports sample_module)"
    "ln_types sample_module = [[0x60, 0, 0]]" "length (module_funcs sample_module) = 2"
    "ln_imports sample_module = []"
    using sample_delimited by (simp_all add: sample_module_def module_funcs_def)
  with linked_module_reparses [OF sample_links sample_fresh sample_runtime_fresh, OF this(1,2)
      sample_module_length]
  show ?thesis by (metis length_map append_Nil list.map(1))
qed

end
