(* ===== verification/TokenKind.thy ===== *)
theory TokenKind
  imports Prelude
begin

text \<open>
  The vocabulary of the tokenizer: character classes (\<^verbatim>\<open>tokenizer/charclass.h\<close>), token kinds
  and their display names (\<^verbatim>\<open>token.h\<close>, \<^verbatim>\<open>token_kind.c\<close>), the punctuator tables
  (\<^verbatim>\<open>punctuator.c\<close>) and the keyword table (\<^verbatim>\<open>keywords.c\<close>). A \<^verbatim>\<open>char *\<close> cursor is the list
  of the bytes from the cursor to the terminating NUL, read with \<open>at\<close>.
\<close>

section \<open>Characters\<close>

abbreviation (input) NUL :: char where "NUL \<equiv> CHR 0x00"
abbreviation (input) LF :: char where "LF \<equiv> CHR 0x0a"
abbreviation (input) DQ :: char where "DQ \<equiv> CHR 0x22"
abbreviation (input) SQ :: char where "SQ \<equiv> CHR 0x27"
abbreviation (input) BSL :: char where "BSL \<equiv> CHR 0x5c"

text \<open>The classes of \<^verbatim>\<open>ctype.h\<close> in the C locale, the one the compiler runs in.\<close>

definition tk_is_space :: "char \<Rightarrow> bool" where
  "tk_is_space c \<longleftrightarrow> byte c = 32 \<or> 9 \<le> byte c \<and> byte c \<le> (13 :: nat)"

definition tk_is_digit :: "char \<Rightarrow> bool" where
  "tk_is_digit c \<longleftrightarrow> 48 \<le> byte c \<and> byte c \<le> (57 :: nat)"

definition tk_is_alpha :: "char \<Rightarrow> bool" where
  "tk_is_alpha c \<longleftrightarrow> 65 \<le> byte c \<and> byte c \<le> (90 :: nat) \<or> 97 \<le> byte c \<and> byte c \<le> (122 :: nat)"

definition tk_is_alnum :: "char \<Rightarrow> bool" where
  "tk_is_alnum c \<longleftrightarrow> tk_is_alpha c \<or> tk_is_digit c"

definition tk_is_xdigit :: "char \<Rightarrow> bool" where
  "tk_is_xdigit c \<longleftrightarrow>
    tk_is_digit c \<or> 65 \<le> byte c \<and> byte c \<le> (70 :: nat) \<or> 97 \<le> byte c \<and> byte c \<le> (102 :: nat)"

definition tk_is_octal_digit :: "char \<Rightarrow> bool" where
  "tk_is_octal_digit c \<longleftrightarrow> 48 \<le> byte c \<and> byte c \<le> (55 :: nat)"

definition tk_is_ident_start_byte :: "char \<Rightarrow> bool" where
  "tk_is_ident_start_byte c \<longleftrightarrow> tk_is_alpha c \<or> c = CHR ''_''"

definition tk_is_ident_continue_byte :: "char \<Rightarrow> bool" where
  "tk_is_ident_continue_byte c \<longleftrightarrow> tk_is_alnum c \<or> c = CHR ''_''"

definition tk_is_punctuator1 :: "char \<Rightarrow> bool" where
  "tk_is_punctuator1 c \<longleftrightarrow> c \<in> set ''+-*/%()<>;={},&[]#.!~|^?:''"

lemmas char_class_defs =
  tk_is_space_def tk_is_digit_def tk_is_alpha_def tk_is_alnum_def tk_is_xdigit_def
  tk_is_octal_digit_def tk_is_ident_start_byte_def tk_is_ident_continue_byte_def

section \<open>Token kinds\<close>

text \<open>
  The enumeration has three groups, which its comments name: keywords, punctuators and the rest.
  The first two are datatypes of their own, so that the tables below range over them.
\<close>

datatype (plugins only: size code) keyword =
  TK_IF | TK_ELSE | TK_WHILE | TK_FOR | TK_RETURN | TK_AUTO | TK_BREAK | TK_CASE | TK_CONST
  | TK_CONTINUE | TK_DEFAULT | TK_DO | TK_ENUM | TK_EXTERN | TK_GOTO | TK_INLINE | TK_INT
  | TK_REGISTER | TK_RESTRICT | TK_SIGNED | TK_SIZEOF | TK_STATIC | TK_STRUCT | TK_SWITCH
  | TK_TYPEDEF | TK_UNION | TK_UNSIGNED | TK_VOLATILE | TK_CHAR | TK_VOID | TK_SHORT | TK_LONG
  | TK_FLOAT | TK_DOUBLE | TK_ALIGNAS | TK_ALIGNOF | TK_ATOMIC | TK_BOOL | TK_COMPLEX
  | TK_GENERIC | TK_IMAGINARY | TK_NORETURN | TK_STATIC_ASSERT | TK_THREAD_LOCAL

datatype (plugins only: size code) punctuator =
  TK_LPAREN | TK_RPAREN | TK_LBRACE | TK_RBRACE | TK_LBRACKET | TK_RBRACKET | TK_COMMA | TK_SEMI
  | TK_ASSIGN | TK_PLUS | TK_MINUS | TK_MUL | TK_DIV | TK_MOD | TK_BANG | TK_TILDE | TK_LT
  | TK_LE | TK_GT | TK_GE | TK_EQEQ | TK_NEQ | TK_ANDAND | TK_OROR | TK_AMP | TK_PIPE | TK_CARET
  | TK_QUESTION | TK_COLON | TK_INC | TK_DEC | TK_SHL | TK_SHR | TK_ARROW | TK_PLUSEQ
  | TK_MINUSEQ | TK_MULEQ | TK_DIVEQ | TK_MODEQ | TK_SHLEQ | TK_SHREQ | TK_ANDEQ | TK_XOREQ
  | TK_OREQ | TK_ELLIPSIS | TK_HASH | TK_HASHHASH | TK_DOT

datatype (plugins only: size code) token_kind_t =
  TK_EOF | TK_UNKNOWN | TK_IDENT | TK_NUM | TK_STRING | Keyword keyword | Punctuator punctuator
| TK_PRAGMA_PACK_PUSH | TK_PRAGMA_PACK_POP | TK_PRAGMA_PACK_SET | TK_PRAGMA_PACK_RESET

text \<open>The display names of \<^verbatim>\<open>tk_token_kind_str\<close>; \<open>None\<close> is its NULL.\<close>

primrec keyword_str :: "keyword \<Rightarrow> string" where
  "keyword_str TK_IF = ''if''"
| "keyword_str TK_ELSE = ''else''"
| "keyword_str TK_WHILE = ''while''"
| "keyword_str TK_FOR = ''for''"
| "keyword_str TK_RETURN = ''return''"
| "keyword_str TK_AUTO = ''auto''"
| "keyword_str TK_BREAK = ''break''"
| "keyword_str TK_CASE = ''case''"
| "keyword_str TK_CONST = ''const''"
| "keyword_str TK_CONTINUE = ''continue''"
| "keyword_str TK_DEFAULT = ''default''"
| "keyword_str TK_DO = ''do''"
| "keyword_str TK_ENUM = ''enum''"
| "keyword_str TK_EXTERN = ''extern''"
| "keyword_str TK_GOTO = ''goto''"
| "keyword_str TK_INLINE = ''inline''"
| "keyword_str TK_INT = ''int''"
| "keyword_str TK_REGISTER = ''register''"
| "keyword_str TK_RESTRICT = ''restrict''"
| "keyword_str TK_SIGNED = ''signed''"
| "keyword_str TK_SIZEOF = ''sizeof''"
| "keyword_str TK_STATIC = ''static''"
| "keyword_str TK_STRUCT = ''struct''"
| "keyword_str TK_SWITCH = ''switch''"
| "keyword_str TK_TYPEDEF = ''typedef''"
| "keyword_str TK_UNION = ''union''"
| "keyword_str TK_UNSIGNED = ''unsigned''"
| "keyword_str TK_VOLATILE = ''volatile''"
| "keyword_str TK_CHAR = ''char''"
| "keyword_str TK_VOID = ''void''"
| "keyword_str TK_SHORT = ''short''"
| "keyword_str TK_LONG = ''long''"
| "keyword_str TK_FLOAT = ''float''"
| "keyword_str TK_DOUBLE = ''double''"
| "keyword_str TK_ALIGNAS = ''_Alignas''"
| "keyword_str TK_ALIGNOF = ''_Alignof''"
| "keyword_str TK_ATOMIC = ''_Atomic''"
| "keyword_str TK_BOOL = ''_Bool''"
| "keyword_str TK_COMPLEX = ''_Complex''"
| "keyword_str TK_GENERIC = ''_Generic''"
| "keyword_str TK_IMAGINARY = ''_Imaginary''"
| "keyword_str TK_NORETURN = ''_Noreturn''"
| "keyword_str TK_STATIC_ASSERT = ''_Static_assert''"
| "keyword_str TK_THREAD_LOCAL = ''_Thread_local''"

primrec punctuator_str :: "punctuator \<Rightarrow> string" where
  "punctuator_str TK_LPAREN = ''(''"
| "punctuator_str TK_RPAREN = '')''"
| "punctuator_str TK_LBRACE = ''{''"
| "punctuator_str TK_RBRACE = ''}''"
| "punctuator_str TK_LBRACKET = ''[''"
| "punctuator_str TK_RBRACKET = '']''"
| "punctuator_str TK_COMMA = '',''"
| "punctuator_str TK_SEMI = '';''"
| "punctuator_str TK_ASSIGN = ''=''"
| "punctuator_str TK_PLUS = ''+''"
| "punctuator_str TK_MINUS = ''-''"
| "punctuator_str TK_MUL = ''*''"
| "punctuator_str TK_DIV = ''/''"
| "punctuator_str TK_MOD = ''%''"
| "punctuator_str TK_BANG = ''!''"
| "punctuator_str TK_TILDE = ''~''"
| "punctuator_str TK_LT = ''<''"
| "punctuator_str TK_LE = ''<=''"
| "punctuator_str TK_GT = ''>''"
| "punctuator_str TK_GE = ''>=''"
| "punctuator_str TK_EQEQ = ''==''"
| "punctuator_str TK_NEQ = ''!=''"
| "punctuator_str TK_ANDAND = ''&&''"
| "punctuator_str TK_OROR = ''||''"
| "punctuator_str TK_AMP = ''&''"
| "punctuator_str TK_PIPE = ''|''"
| "punctuator_str TK_CARET = ''^''"
| "punctuator_str TK_QUESTION = ''?''"
| "punctuator_str TK_COLON = '':''"
| "punctuator_str TK_INC = ''++''"
| "punctuator_str TK_DEC = ''--''"
| "punctuator_str TK_SHL = ''<<''"
| "punctuator_str TK_SHR = ''>>''"
| "punctuator_str TK_ARROW = ''->''"
| "punctuator_str TK_PLUSEQ = ''+=''"
| "punctuator_str TK_MINUSEQ = ''-=''"
| "punctuator_str TK_MULEQ = ''*=''"
| "punctuator_str TK_DIVEQ = ''/=''"
| "punctuator_str TK_MODEQ = ''%=''"
| "punctuator_str TK_SHLEQ = ''<<=''"
| "punctuator_str TK_SHREQ = ''>>=''"
| "punctuator_str TK_ANDEQ = ''&=''"
| "punctuator_str TK_XOREQ = ''^=''"
| "punctuator_str TK_OREQ = ''|=''"
| "punctuator_str TK_ELLIPSIS = ''...''"
| "punctuator_str TK_HASH = ''#''"
| "punctuator_str TK_HASHHASH = ''##''"
| "punctuator_str TK_DOT = ''.''"

definition tk_token_kind_str :: "token_kind_t \<Rightarrow> string option" where
  "tk_token_kind_str kind =
    (case kind of
       Keyword k \<Rightarrow> Some (keyword_str k)
     | Punctuator k \<Rightarrow> Some (punctuator_str k)
     | TK_EOF \<Rightarrow> Some ''EOF''
     | TK_UNKNOWN \<Rightarrow> Some ''<unknown>''
     | _ \<Rightarrow> None)"

section \<open>Punctuators\<close>

text \<open>A \<^verbatim>\<open>switch\<close> on a character whose cases return kinds and whose default is \<^verbatim>\<open>TK_EOF\<close>.\<close>

definition switch_char :: "(char \<times> punctuator) list \<Rightarrow> char \<Rightarrow> token_kind_t" where
  "switch_char cases c = (case map_of cases c of None \<Rightarrow> TK_EOF | Some k \<Rightarrow> Punctuator k)"

definition punctuator_kind_for_char :: "char \<Rightarrow> token_kind_t" where
  "punctuator_kind_for_char =
    switch_char
     [(CHR ''<'', TK_LT), (CHR ''>'', TK_GT), (CHR ''+'', TK_PLUS), (CHR ''-'', TK_MINUS),
      (CHR ''*'', TK_MUL), (CHR ''/'', TK_DIV), (CHR ''%'', TK_MOD), (CHR ''!'', TK_BANG),
      (CHR ''~'', TK_TILDE), (CHR ''='', TK_ASSIGN), (CHR ''('', TK_LPAREN), (CHR '')'', TK_RPAREN),
      (CHR ''{'', TK_LBRACE), (CHR ''}'', TK_RBRACE), (CHR ''['', TK_LBRACKET), (CHR '']'', TK_RBRACKET),
      (CHR '','', TK_COMMA), (CHR '';'', TK_SEMI), (CHR ''&'', TK_AMP), (CHR ''|'', TK_PIPE),
      (CHR ''^'', TK_CARET), (CHR ''?'', TK_QUESTION), (CHR '':'', TK_COLON), (CHR ''#'', TK_HASH),
      (CHR ''.'', TK_DOT)]"

definition two_char_cases :: "(char \<times> (char \<times> punctuator) list) list" where
  "two_char_cases =
    [(CHR ''!'', [(CHR ''='', TK_NEQ)]),
     (CHR ''#'', [(CHR ''#'', TK_HASHHASH)]),
     (CHR ''%'', [(CHR ''='', TK_MODEQ), (CHR '':'', TK_HASH), (CHR ''>'', TK_RBRACE)]),
     (CHR ''&'', [(CHR ''&'', TK_ANDAND), (CHR ''='', TK_ANDEQ)]),
     (CHR ''+'', [(CHR ''+'', TK_INC), (CHR ''='', TK_PLUSEQ)]),
     (CHR ''-'', [(CHR ''-'', TK_DEC), (CHR ''='', TK_MINUSEQ), (CHR ''>'', TK_ARROW)]),
     (CHR ''*'', [(CHR ''='', TK_MULEQ)]),
     (CHR ''/'', [(CHR ''='', TK_DIVEQ)]),
     (CHR '':'', [(CHR ''>'', TK_RBRACKET)]),
     (CHR ''<'', [(CHR ''%'', TK_LBRACE), (CHR '':'', TK_LBRACKET), (CHR ''<'', TK_SHL), (CHR ''='', TK_LE)]),
     (CHR ''='', [(CHR ''='', TK_EQEQ)]),
     (CHR ''>'', [(CHR ''='', TK_GE), (CHR ''>'', TK_SHR)]),
     (CHR ''^'', [(CHR ''='', TK_XOREQ)]),
     (CHR ''|'', [(CHR ''='', TK_OREQ), (CHR ''|'', TK_OROR)])]"

definition punctuator_kind_for_2chars :: "char \<Rightarrow> char \<Rightarrow> token_kind_t" where
  "punctuator_kind_for_2chars c0 c1 =
    (case map_of two_char_cases c0 of
       None \<Rightarrow> TK_EOF
     | Some cases \<Rightarrow> switch_char cases c1)"

definition punctuator_kind_for_str :: "string \<Rightarrow> token_kind_t" where
  "punctuator_kind_for_str op1 =
    (let len = length op1 in
     if len = 1 then punctuator_kind_for_char (op1 ! 0)
     else if len = 2 then punctuator_kind_for_2chars (op1 ! 0) (op1 ! 1)
     else if len = 3 then
       (if op1 ! 0 = CHR ''<'' \<and> op1 ! 1 = CHR ''<'' \<and> op1 ! 2 = CHR ''='' then Punctuator TK_SHLEQ
        else if op1 ! 0 = CHR ''>'' \<and> op1 ! 1 = CHR ''>'' \<and> op1 ! 2 = CHR ''='' then Punctuator TK_SHREQ
        else if op1 ! 0 = CHR ''.'' \<and> op1 ! 1 = CHR ''.'' \<and> op1 ! 2 = CHR ''.'' then Punctuator TK_ELLIPSIS
        else TK_EOF)
     else if len = 4 \<and> op1 ! 0 = CHR ''%'' \<and> op1 ! 1 = CHR '':'' \<and> op1 ! 2 = CHR ''%'' \<and> op1 ! 3 = CHR '':''
       then Punctuator TK_HASHHASH
     else TK_EOF)"

text \<open>The kind and the length of the longest punctuator of two to four characters at \<open>p\<close>.\<close>

definition match_punctuator :: "string \<Rightarrow> (token_kind_t \<times> nat) option" where
  "match_punctuator p =
    (if at p 0 = CHR ''%'' \<and> at p 1 = CHR '':'' \<and> at p 2 = CHR ''%'' \<and> at p 3 = CHR '':''
       then Some (Punctuator TK_HASHHASH, 4)
     else if at p 0 = CHR ''.'' \<and> at p 1 = CHR ''.'' \<and> at p 2 = CHR ''.''
       then Some (Punctuator TK_ELLIPSIS, 3)
     else if at p 0 = CHR ''<'' \<and> at p 1 = CHR ''<'' \<and> at p 2 = CHR ''=''
       then Some (Punctuator TK_SHLEQ, 3)
     else if at p 0 = CHR ''>'' \<and> at p 1 = CHR ''>'' \<and> at p 2 = CHR ''=''
       then Some (Punctuator TK_SHREQ, 3)
     else let two = punctuator_kind_for_2chars (at p 0) (at p 1)
          in if two \<noteq> TK_EOF then Some (two, 2) else None)"

section \<open>Keywords\<close>

text \<open>The comparisons \<^verbatim>\<open>eq2\<close> to \<^verbatim>\<open>eq14\<close>: the first characters of \<open>s\<close> are those of the literal.\<close>

definition eq_chars :: "string \<Rightarrow> string \<Rightarrow> bool" where
  "eq_chars s lit \<longleftrightarrow> (\<forall>i < length lit. at s i = lit ! i)"

definition first_keyword :: "string \<Rightarrow> (string \<times> keyword) list \<Rightarrow> token_kind_t" where
  "first_keyword s cases =
    (case find (\<lambda>(lit, k). eq_chars s lit) cases of
       None \<Rightarrow> TK_EOF | Some (lit, k) \<Rightarrow> Keyword k)"

definition lookup_keyword :: "string \<Rightarrow> nat \<Rightarrow> token_kind_t" where
  "lookup_keyword s len =
    (if len = 2 then first_keyword s
        [(''if'', TK_IF), (''do'', TK_DO)]
     else if len = 3 then first_keyword s
        [(''int'', TK_INT), (''for'', TK_FOR)]
     else if len = 4 then first_keyword s
        [(''else'', TK_ELSE), (''auto'', TK_AUTO), (''case'', TK_CASE),
         (''char'', TK_CHAR), (''enum'', TK_ENUM), (''goto'', TK_GOTO),
         (''long'', TK_LONG), (''void'', TK_VOID)]
     else if len = 5 then first_keyword s
        [(''while'', TK_WHILE), (''break'', TK_BREAK), (''const'', TK_CONST),
         (''float'', TK_FLOAT), (''short'', TK_SHORT), (''union'', TK_UNION),
         (''_Bool'', TK_BOOL)]
     else if len = 6 then first_keyword s
        [(''return'', TK_RETURN), (''static'', TK_STATIC), (''sizeof'', TK_SIZEOF),
         (''signed'', TK_SIGNED), (''switch'', TK_SWITCH), (''struct'', TK_STRUCT),
         (''extern'', TK_EXTERN), (''inline'', TK_INLINE), (''double'', TK_DOUBLE)]
     else if len = 7 then first_keyword s
        [(''default'', TK_DEFAULT), (''typedef'', TK_TYPEDEF), (''_Atomic'', TK_ATOMIC)]
     else if len = 8 then first_keyword s
        [(''continue'', TK_CONTINUE), (''register'', TK_REGISTER), (''restrict'', TK_RESTRICT),
         (''unsigned'', TK_UNSIGNED), (''volatile'', TK_VOLATILE), (''_Alignas'', TK_ALIGNAS),
         (''_Alignof'', TK_ALIGNOF), (''_Complex'', TK_COMPLEX), (''_Generic'', TK_GENERIC)]
     else if len = 9 then first_keyword s
        [(''_Noreturn'', TK_NORETURN)]
     else if len = 10 then first_keyword s
        [(''_Imaginary'', TK_IMAGINARY)]
     else if len = 13 then first_keyword s
        [(''_Thread_local'', TK_THREAD_LOCAL)]
     else if len = 14 then first_keyword s
        [(''_Static_assert'', TK_STATIC_ASSERT)]
     else TK_EOF)"

section \<open>Properties\<close>

lemma switch_char_Punctuator [simp]:
  "switch_char cases c = Punctuator k \<longleftrightarrow> map_of cases c = Some k"
  by (simp add: switch_char_def split: option.splits)

lemma two_chars_NUL: "punctuator_kind_for_2chars c NUL = TK_EOF"
proof -
  have "map_of cases NUL = None" if "map_of two_char_cases c = Some cases" for cases
    using map_of_SomeD [OF that] unfolding two_char_cases_def list.set insert_iff prod.inject
    by (elim disjE conjE) simp_all
  then show ?thesis
    by (simp add: punctuator_kind_for_2chars_def switch_char_def split: option.splits)
qed

text \<open>
  C21. The matcher finds the longest punctuator: its result is the longest prefix of two to four
  characters that the table of whole spellings knows, with the kind that table gives it, and it
  fails exactly when there is no such prefix.
\<close>

theorem match_punctuator_longest:
  "match_punctuator p =
    map_option (\<lambda>n. (punctuator_kind_for_str (take n p), n))
      (find (\<lambda>n. n \<le> length p \<and> punctuator_kind_for_str (take n p) \<noteq> TK_EOF) [4, 3, 2])"
proof -
  have k4: "punctuator_kind_for_str [a, b, c, d] =
    (if a = CHR ''%'' \<and> b = CHR '':'' \<and> c = CHR ''%'' \<and> d = CHR '':'' then Punctuator TK_HASHHASH
     else TK_EOF)" for a b c d
    by (simp add: punctuator_kind_for_str_def)
  have k3: "punctuator_kind_for_str [a, b, c] =
    (if a = CHR ''.'' \<and> b = CHR ''.'' \<and> c = CHR ''.'' then Punctuator TK_ELLIPSIS
     else if a = CHR ''<'' \<and> b = CHR ''<'' \<and> c = CHR ''='' then Punctuator TK_SHLEQ
     else if a = CHR ''>'' \<and> b = CHR ''>'' \<and> c = CHR ''='' then Punctuator TK_SHREQ
     else TK_EOF)" for a b c
    by (auto simp: punctuator_kind_for_str_def)
  have k2: "punctuator_kind_for_str [a, b] = punctuator_kind_for_2chars a b" for a b
    by (simp add: punctuator_kind_for_str_def)
  consider (0) "p = []" | (1) a where "p = [a]" | (2) a b where "p = [a, b]"
    | (3) a b c where "p = [a, b, c]" | (4) a b c d r where "p = a # b # c # d # r"
    by (metis neq_Nil_conv)
  then show ?thesis
  proof cases
    case 0
    then show ?thesis by (simp add: match_punctuator_def two_chars_NUL)
  next
    case 1
    then show ?thesis by (simp add: match_punctuator_def two_chars_NUL)
  next
    case 2
    then show ?thesis by (simp add: match_punctuator_def k2 Let_def)
  next
    case 3
    then show ?thesis by (simp add: match_punctuator_def k3 k2 Let_def)
  next
    case 4
    then show ?thesis by (simp add: match_punctuator_def k4 k3 k2 Let_def)
  qed
qed

lemma eq_chars_iff:
  assumes "NUL \<notin> set lit"
  shows "eq_chars s lit \<longleftrightarrow> take (length lit) s = lit"
proof -
  have n: "lit ! i \<noteq> NUL" if "i < length lit" for i
    using assms nth_mem [OF that] by auto
  show ?thesis
  proof
    assume "eq_chars s lit"
    then have a: "at s i = lit ! i" if "i < length lit" for i
      using that by (simp add: eq_chars_def)
    then have "length lit \<le> length s"
      using n at_nonzero_length by (metis linorder_not_le less_irrefl)
    then show "take (length lit) s = lit"
      using a by (intro nth_equalityI) (simp_all add: at_def)
  next
    assume t: "take (length lit) s = lit"
    then have l: "length lit \<le> length s" by (metis length_take min.cobounded1)
    show "eq_chars s lit"
      unfolding eq_chars_def
    proof (intro allI impI)
      fix i assume i: "i < length lit"
      have "lit ! i = s ! i" using nth_take [OF i, of s] unfolding t .
      then show "at s i = lit ! i" using i l by (simp add: at_def)
    qed
  qed
qed

lemma lookup_keyword_iff:
  "lookup_keyword s len = Keyword kw \<longleftrightarrow>
   len = length (keyword_str kw) \<and> take len s = keyword_str kw"
proof
  show "lookup_keyword s len = Keyword kw \<Longrightarrow>
    len = length (keyword_str kw) \<and> take len s = keyword_str kw"
    unfolding lookup_keyword_def first_keyword_def
    by (auto simp: eq_chars_iff numeral_eq_Suc split: if_splits option.splits)
next
  assume "len = length (keyword_str kw) \<and> take len s = keyword_str kw"
  then have len: "len = length (keyword_str kw)" and "take (length (keyword_str kw)) s = keyword_str kw"
    by (auto simp del: take_all_iff)
  from this(2) show "lookup_keyword s len = Keyword kw"
    unfolding len
    by (cases kw) (simp_all add: lookup_keyword_def first_keyword_def eq_chars_iff numeral_eq_Suc)
qed

text \<open>
  The keyword table is exact: a word of \<open>len\<close> characters is recognised as a keyword precisely
  when it is that keyword's display name. So every keyword is found, nothing else is, and names
  and keywords correspond one to one.
\<close>

theorem keyword_lookup_exact:
  "lookup_keyword s len = Keyword kw \<longleftrightarrow>
   len = length (keyword_str kw) \<and> take len s = keyword_str kw"
  by (rule lookup_keyword_iff)

lemma two_chars_table:
  assumes "punctuator_kind_for_2chars a b = Punctuator k"
  shows "punctuator_str k = [a, b] \<or>
    ([a, b], k) \<in> {(''<%'', TK_LBRACE), (''%>'', TK_RBRACE), (''<:'', TK_LBRACKET),
                    ('':>'', TK_RBRACKET), (''%:'', TK_HASH)}"
proof -
  obtain cases where c: "map_of two_char_cases a = Some cases" "map_of cases b = Some k"
    using assms by (auto simp: punctuator_kind_for_2chars_def split: option.splits)
  from map_of_SomeD [OF c(1)] map_of_SomeD [OF c(2)] show ?thesis
    unfolding two_char_cases_def list.set insert_iff prod.inject empty_iff
    by (elim disjE conjE FalseE) auto
qed

text \<open>
  Display names lex back: the display name of every punctuator is one whole spelling of it in
  the punctuator table, so the names are pairwise different, and the alternative spellings
  (digraphs) are the only other ones.
\<close>

theorem punctuator_spelling:
  "punctuator_kind_for_str s = Punctuator k \<longleftrightarrow>
   s = punctuator_str k \<or>
   (s, k) \<in> {(''<%'', TK_LBRACE), (''%>'', TK_RBRACE), (''<:'', TK_LBRACKET), ('':>'', TK_RBRACKET),
             (''%:'', TK_HASH), (''%:%:'', TK_HASHHASH)}" (is "_ \<longleftrightarrow> ?names \<or> ?digraph")
proof
  assume k: "punctuator_kind_for_str s = Punctuator k"
  then have "length s = 1 \<or> length s = 2 \<or> length s = 3 \<or> length s = 4"
    by (auto simp: punctuator_kind_for_str_def Let_def split: if_splits)
  then consider (1) a where "s = [a]" | (2) a b where "s = [a, b]" | (3) a b c where "s = [a, b, c]"
    | (4) a b c d where "s = [a, b, c, d]"
    by (auto simp: length_Suc_conv numeral_eq_Suc)
  then show "?names \<or> ?digraph"
  proof cases
    case 1
    with k show ?thesis
      by (auto simp: punctuator_kind_for_str_def punctuator_kind_for_char_def
          simp del: map_of.simps dest!: map_of_SomeD)
  next
    case 2
    with k have k: "punctuator_kind_for_2chars a b = Punctuator k"
      by (simp add: punctuator_kind_for_str_def)
    show ?thesis
      using two_chars_table [OF k] 2 by auto
  next
    case 3
    with k show ?thesis by (auto simp: punctuator_kind_for_str_def split: if_splits)
  next
    case 4
    with k show ?thesis by (auto simp: punctuator_kind_for_str_def split: if_splits)
  qed
next
  assume "?names \<or> ?digraph"
  then show "punctuator_kind_for_str s = Punctuator k"
  proof
    assume ?names
    then show ?thesis
      by (cases k) (simp_all add: punctuator_kind_for_str_def punctuator_kind_for_char_def
          punctuator_kind_for_2chars_def two_char_cases_def)
  next
    assume ?digraph
    then show ?thesis
      by (auto simp: punctuator_kind_for_str_def punctuator_kind_for_2chars_def two_char_cases_def)
  qed
qed

end
