(* ===== verification/Literals.thy ===== *)
theory Literals
  imports TokenKind
begin

text \<open>
  Escape sequences (\<^verbatim>\<open>tokenizer/escape.c\<close>), universal character names, UTF-8 and the expansion of
  string literals into code units and data bytes (\<^verbatim>\<open>tokenizer/literals.c\<close>). A pair of buffer and
  index is the list of the characters from the index to the end of the slice; advancing the index
  is dropping from the list. A diagnostic ends the compilation: it is \<open>Refused\<close>. A read past the
  end of the slice is \<open>None\<close>.
\<close>

abbreviation chr_val :: "char \<Rightarrow> u32" where
  "chr_val c \<equiv> of_nat (byte c)"

section \<open>Escape values\<close>

definition hex_digit_value :: "char \<Rightarrow> nat option" where
  "hex_digit_value ch =
    (if 48 \<le> byte ch \<and> byte ch \<le> (57 :: nat) then Some (byte ch - 48)
     else if 97 \<le> byte ch \<and> byte ch \<le> (102 :: nat) then Some (byte ch - 97 + 10)
     else if 65 \<le> byte ch \<and> byte ch \<le> (70 :: nat) then Some (byte ch - 65 + 10)
     else None)"

text \<open>The digit loops of the hexadecimal, universal and octal escapes: value and rest.\<close>

fun hex_escape :: "u32 \<Rightarrow> string \<Rightarrow> u32 \<times> string" where
  "hex_escape val [] = (val, [])"
| "hex_escape val (c # s) =
    (case hex_digit_value c of
       None \<Rightarrow> (val, c # s)
     | Some digit \<Rightarrow> hex_escape (push_bit 4 val OR of_nat digit) s)"

fun ucn_escape :: "nat \<Rightarrow> u32 \<Rightarrow> string \<Rightarrow> u32 \<times> string" where
  "ucn_escape (Suc k) val (c # s) =
    (case hex_digit_value c of
       None \<Rightarrow> (val, c # s)
     | Some digit \<Rightarrow> ucn_escape k (push_bit 4 val OR of_nat digit) s)"
| "ucn_escape k val s = (val, s)"

fun octal_escape :: "nat \<Rightarrow> u32 \<Rightarrow> string \<Rightarrow> u32 \<times> string" where
  "octal_escape (Suc k) val (c # s) =
    (if tk_is_octal_digit c then octal_escape k (val * 8 + (chr_val c - 48)) s else (val, c # s))"
| "octal_escape k val s = (val, s)"

definition simple_escapes :: "(char \<times> u32) list" where
  "simple_escapes =
    [(CHR ''a'', 7), (CHR ''b'', 8), (CHR ''f'', 12), (CHR ''n'', 10), (CHR ''r'', 13),
     (CHR ''t'', 9), (CHR ''v'', 11), (BSL, 0x5c), (SQ, 0x27), (DQ, 0x22), (CHR ''?'', 0x3f)]"

text \<open>The decoded value, absent on failure, and the characters after the index.\<close>

definition tk_parse_escape_value :: "string \<Rightarrow> u32 option \<times> string" where
  "tk_parse_escape_value s =
    (if s = [] \<or> hd s \<noteq> BSL then (None, s)
     else let s1 = tl s in
       if s1 = [] then (None, s1)
       else let esc = hd s1; s2 = tl s1 in
         case map_of simple_escapes esc of
           Some v \<Rightarrow> (Some v, s2)
         | None \<Rightarrow>
             if esc = CHR ''x'' then apfst Some (hex_escape 0 s2)
             else if esc = CHR ''u'' \<or> esc = CHR ''U''
               then apfst Some (ucn_escape (if esc = CHR ''u'' then 4 else 8) 0 s2)
             else if tk_is_octal_digit esc then apfst Some (octal_escape 3 0 s1)
             else (Some (chr_val esc), s2))"

section \<open>Universal character names\<close>

definition hexval :: "char \<Rightarrow> u32" where
  "hexval c =
    (if 48 \<le> byte c \<and> byte c \<le> (57 :: nat) then chr_val c - 48
     else if 97 \<le> byte c \<and> byte c \<le> (102 :: nat) then chr_val c - 97 + 10
     else chr_val c - 65 + 10)"

definition ucn_digit_count :: "string \<Rightarrow> nat" where
  "ucn_digit_count p = (if at p 1 = CHR ''u'' then 4 else 8)"

definition tk_starts_with_ucn :: "string \<Rightarrow> nat option" where
  "tk_starts_with_ucn p =
    (if at p 0 \<noteq> BSL \<or> at p 1 \<noteq> CHR ''u'' \<and> at p 1 \<noteq> CHR ''U'' then None
     else let digits = ucn_digit_count p
       in if list_all (\<lambda>i. tk_is_xdigit (at p (2 + i))) [0..<digits] then Some (2 + digits)
          else None)"

text \<open>Code point and number of characters consumed.\<close>

definition tk_parse_ucn_codepoint :: "string \<Rightarrow> (u32 \<times> nat) option" where
  "tk_parse_ucn_codepoint p =
    map_option (\<lambda>len.
        (foldl (\<lambda>cp i. push_bit 4 cp OR hexval (at p (2 + i))) 0 [0..<ucn_digit_count p], len))
      (tk_starts_with_ucn p)"

definition tk_is_valid_ucn_codepoint :: "u32 \<Rightarrow> bool" where
  "tk_is_valid_ucn_codepoint cp =
    (if cp > 0x10FFFF then False
     else if 0xD800 \<le> cp \<and> cp \<le> 0xDFFF then False
     else if cp < 0xA0 \<and> cp \<noteq> 0x24 \<and> cp \<noteq> 0x40 \<and> cp \<noteq> 0x60 then False
     else if cp = 0x200E \<or> cp = 0x200F \<or> cp = 0x061C then False
     else if 0x202A \<le> cp \<and> cp \<le> 0x202E then False
     else if 0x2066 \<le> cp \<and> cp \<le> 0x2069 then False
     else if cp = 0x200C \<or> cp = 0x200D then False
     else True)"

section \<open>UTF-8\<close>

definition tk_encode_utf8 :: "u32 \<Rightarrow> u8 list" where
  "tk_encode_utf8 cp =
    (if cp \<le> 0x7F then [ucast cp]
     else if cp \<le> 0x7FF
       then [ucast (0xC0 OR drop_bit 6 cp), ucast (0x80 OR (cp AND 0x3F))]
     else if cp \<le> 0xFFFF
       then [ucast (0xE0 OR drop_bit 12 cp), ucast (0x80 OR (drop_bit 6 cp AND 0x3F)),
             ucast (0x80 OR (cp AND 0x3F))]
     else [ucast (0xF0 OR drop_bit 18 cp), ucast (0x80 OR (drop_bit 12 cp AND 0x3F)),
           ucast (0x80 OR (drop_bit 6 cp AND 0x3F)), ucast (0x80 OR (cp AND 0x3F))])"

fun utf8_tail :: "nat \<Rightarrow> u32 \<Rightarrow> string \<Rightarrow> (u32 \<times> string) option" where
  "utf8_tail 0 cp s = Some (cp, s)"
| "utf8_tail (Suc k) cp [] = None"
| "utf8_tail (Suc k) cp (c # s) =
    (if chr_val c AND 0xC0 \<noteq> 0x80 then None
     else utf8_tail k (push_bit 6 cp OR (chr_val c AND 0x3F)) s)"

text \<open>An invalid or incomplete sequence is its first byte.\<close>

definition tk_decode_utf8 :: "string \<Rightarrow> u32 \<times> string" where
  "tk_decode_utf8 s =
    (let c0 = chr_val (hd s);
         decode = (\<lambda>n cp. case utf8_tail n cp (tl s) of None \<Rightarrow> (c0, tl s) | Some r \<Rightarrow> r)
     in if c0 < 0x80 then (c0, tl s)
        else if c0 AND 0xE0 = 0xC0 then decode 1 (c0 AND 0x1F)
        else if c0 AND 0xF0 = 0xE0 then decode 2 (c0 AND 0x0F)
        else if c0 AND 0xF8 = 0xF0 then decode 3 (c0 AND 0x07)
        else (c0, tl s))"

section \<open>String literals\<close>

text \<open>
  The code units of the next character of a literal and the rest. When the slice ends in a lone
  backslash the C code reads the character after the slice: that is \<open>None\<close>.
\<close>

definition next_string_value :: "string \<Rightarrow> nat \<Rightarrow> (u32 \<times> string) option" where
  "next_string_value s char_width =
    (if hd s = BSL then
       (case tk_parse_escape_value s of (None, q) \<Rightarrow> None | (Some v, q) \<Rightarrow> Some (v, q))
     else if char_width \<ge> 2 then Some (tk_decode_utf8 s)
     else Some (chr_val (hd s), tl s))"

definition is_ucn_escape :: "string \<Rightarrow> bool" where
  "is_ucn_escape s \<longleftrightarrow>
    hd s = BSL \<and> 1 < length s \<and> (s ! 1 = CHR ''u'' \<or> s ! 1 = CHR ''U'')"

definition tk_next_string_code_units :: "string \<Rightarrow> nat \<Rightarrow> (u32 list \<times> string) option" where
  "tk_next_string_code_units s char_width =
    map_option (\<lambda>(v, q).
      if char_width = 1 \<and> is_ucn_escape s then (map ucast (tk_encode_utf8 v), q)
      else if char_width = 2 \<and> v \<ge> 0x10000
        then let u = v - 0x10000
             in ([0xD800 OR (drop_bit 10 u AND 0x3FF), 0xDC00 OR (u AND 0x3FF)], q)
      else ([v], q))
    (next_string_value s char_width)"

text \<open>Every escape and every character consumes at least one character.\<close>

lemma hex_digit_value_None: "hex_digit_value c = None \<longleftrightarrow> \<not> tk_is_xdigit c"
  by (auto simp: hex_digit_value_def tk_is_xdigit_def tk_is_digit_def)

lemma hex_digit_value_Some: "hex_digit_value c = Some d \<Longrightarrow> tk_is_xdigit c"
  using hex_digit_value_None [of c] by auto

lemma snd_hex_escape: "snd (hex_escape v s) = dropWhile tk_is_xdigit s"
  by (induction v s rule: hex_escape.induct)
     (auto split: option.splits simp: hex_digit_value_None dest: hex_digit_value_Some)

lemma snd_ucn_escape:
  "snd (ucn_escape k v s) = drop (length (takeWhile tk_is_xdigit (take k s))) s"
  by (induction k v s rule: ucn_escape.induct)
     (auto split: option.splits simp: hex_digit_value_None dest: hex_digit_value_Some)

lemma snd_octal_escape:
  "snd (octal_escape k v s) = drop (length (takeWhile tk_is_octal_digit (take k s))) s"
  by (induction k v s rule: octal_escape.induct) auto

lemma parse_escape_shorter:
  "tk_parse_escape_value s = (Some v, q) \<Longrightarrow> length q < length s"
proof -
  assume a: "tk_parse_escape_value s = (Some v, q)"
  then obtain e r where s: "s = BSL # e # r"
    unfolding tk_parse_escape_value_def Let_def
    by (cases s; cases "tl s") (auto split: if_splits)
  have l: "length (snd (hex_escape w r)) \<le> length r" "length (snd (ucn_escape k w r)) \<le> length r"
      "length (snd (octal_escape k w (e # r))) \<le> length (e # r)" for w k
    unfolding snd_hex_escape snd_ucn_escape snd_octal_escape
    by (simp_all add: length_dropWhile_le)
  show ?thesis
    using a l(1) [of 0] l(2) [of 4 0] l(2) [of 8 0] l(3) [of 3 0]
    unfolding s tk_parse_escape_value_def Let_def
    by (auto split: option.splits if_splits simp: apfst_def map_prod_def split_def)
qed

lemma utf8_tail_length:
  "utf8_tail k cp s = Some (v, q) \<Longrightarrow> length s = length q + k"
  by (induction k cp s rule: utf8_tail.induct) (auto split: if_splits)

lemma decode_utf8_shorter: "s \<noteq> [] \<Longrightarrow> length (snd (tk_decode_utf8 s)) < length s"
  by (cases s) (auto simp: tk_decode_utf8_def Let_def split: option.splits dest!: utf8_tail_length)

lemma next_units_shorter:
  "tk_next_string_code_units s cw = Some (us, q) \<Longrightarrow> s \<noteq> [] \<Longrightarrow> length q < length s"
  using decode_utf8_shorter [of s]
  by (auto simp: tk_next_string_code_units_def next_string_value_def Let_def
      split: if_splits prod.splits option.splits dest: parse_escape_shorter)

text \<open>
  The units handed to the callback: at most \<open>max_units\<close> of them if that is positive. The number
  returned is the length of the list.
\<close>

function emit_units :: "nat \<Rightarrow> nat \<Rightarrow> nat \<Rightarrow> string \<Rightarrow> u32 list option" where
  "emit_units cw max_units count s =
    (if s \<noteq> [] \<and> (max_units = 0 \<or> count < max_units) then
       (case tk_next_string_code_units s cw of
          None \<Rightarrow> None
        | Some (units, q) \<Rightarrow>
            let emitted = (if max_units = 0 then units else take (max_units - count) units)
            in map_option ((@) emitted) (emit_units cw max_units (count + length emitted) q))
     else Some [])"
  by pat_completeness auto
termination
  by (relation "measure (\<lambda>(cw, max_units, count, s). length s)") (auto dest: next_units_shorter)

declare emit_units.simps [simp del]

definition tk_emit_string_code_units :: "string \<Rightarrow> nat \<Rightarrow> nat \<Rightarrow> u32 list option" where
  "tk_emit_string_code_units s char_width max_units =
    emit_units (if char_width > 0 then char_width else 1) max_units 0 s"

definition tk_count_string_code_units :: "string \<Rightarrow> nat \<Rightarrow> nat option" where
  "tk_count_string_code_units s char_width =
    map_option length (tk_emit_string_code_units s char_width 0)"

definition tk_next_narrow_string_code_unit :: "string \<Rightarrow> (u32 \<times> string) option" where
  "tk_next_narrow_string_code_unit s =
    (if s = [] then Some (0, s)
     else if hd s = BSL then
       (case tk_parse_escape_value s of (Some v, q) \<Rightarrow> Some (v, q) | (None, q) \<Rightarrow> None)
     else Some (chr_val (hd s), tl s))"

text \<open>The data bytes of a literal: the narrow loop, the loop of the wide ones, the terminator.\<close>

function narrow_bytes :: "string \<Rightarrow> u8 list option" where
  "narrow_bytes s =
    (if s = [] then Some []
     else if hd s = BSL then
       (case tk_parse_escape_value s of
          (Some v, q) \<Rightarrow> map_option ((@) (tk_encode_utf8 v)) (narrow_bytes q)
        | (None, q) \<Rightarrow> None)
     else map_option ((#) (of_nat (byte (hd s)))) (narrow_bytes (tl s)))"
  by pat_completeness auto
termination
  by (relation "measure length") (auto dest: sym dest!: parse_escape_shorter)

declare narrow_bytes.simps [simp del]

definition unit_bytes :: "nat \<Rightarrow> u32 \<Rightarrow> u8 list" where
  "unit_bytes cw u = map (\<lambda>b. ucast (drop_bit (8 * b) u)) [0..<cw]"

function wide_bytes :: "nat \<Rightarrow> string \<Rightarrow> u8 list option" where
  "wide_bytes cw s =
    (if s = [] then Some []
     else case tk_next_string_code_units s cw of
       None \<Rightarrow> None
     | Some (units, q) \<Rightarrow> map_option ((@) (concat (map (unit_bytes cw) units))) (wide_bytes cw q))"
  by pat_completeness auto
termination
  by (relation "measure (\<lambda>(cw, s). length s)") (auto dest: next_units_shorter)

declare wide_bytes.simps [simp del]

definition tk_emit_string_literal_bytes :: "string \<Rightarrow> nat \<Rightarrow> bool \<Rightarrow> u8 list option" where
  "tk_emit_string_literal_bytes s char_width include_nul =
    (let cw = (if char_width > 0 then char_width else 1)
     in map_option (\<lambda>bytes. bytes @ (if include_nul then replicate cw 0 else []))
          (if cw = 1 then narrow_bytes s else wide_bytes cw s))"

section \<open>Escapes in the source text\<close>

text \<open>
  The cursor is behind the backslash, which both functions reach again with \<^verbatim>\<open>p - 1\<close>: it is put
  back in front of the rest. The diagnostics of the two functions are the same.
\<close>

definition escape_ok :: "string \<Rightarrow> bool" where
  "escape_ok p \<longleftrightarrow>
    \<not> (at p 0 = CHR ''x'' \<and> \<not> tk_is_xdigit (at p 1)) \<and>
    (at p 0 = CHR ''u'' \<or> at p 0 = CHR ''U'' \<longrightarrow>
       (case tk_parse_ucn_codepoint (BSL # p) of
          None \<Rightarrow> False
        | Some (cp, consumed) \<Rightarrow> tk_is_valid_ucn_codepoint cp)) \<and>
    (at p 0 \<in> set (BSL # SQ # DQ # ''abfnrtv?'') \<or> at p 0 \<in> set ''xuU'' \<or>
     at p 0 \<in> set ''01234567'')"

definition tk_read_escape_char_ctx :: "string \<Rightarrow> (u32 \<times> string) outcome" where
  "tk_read_escape_char_ctx p =
    (if \<not> escape_ok p then Refused
     else case tk_parse_escape_value (BSL # p) of
       (None, q) \<Rightarrow> Refused
     | (Some v, q) \<Rightarrow> Value (v, q))"

fun skip_octal :: "nat \<Rightarrow> string \<Rightarrow> string" where
  "skip_octal (Suc k) (c # p) = (if tk_is_octal_digit c then skip_octal k p else c # p)"
| "skip_octal k p = p"

definition tk_skip_escape_in_literal_ctx :: "string \<Rightarrow> string outcome" where
  "tk_skip_escape_in_literal_ctx p =
    (if \<not> escape_ok p then Refused
     else if at p 0 = CHR ''x'' then Value (dropWhile tk_is_xdigit (drop 1 p))
     else if at p 0 = CHR ''u'' \<or> at p 0 = CHR ''U''
       then Value (drop (if at p 0 = CHR ''u'' then 5 else 9) p)
     else if tk_is_octal_digit (at p 0) then Value (skip_octal 3 p)
     else Value (drop 1 p))"

section \<open>Prefixes and identifiers\<close>

datatype tk_char_width_t = TK_CHAR_WIDTH_CHAR | TK_CHAR_WIDTH_CHAR16 | TK_CHAR_WIDTH_CHAR32

primrec char_width_value :: "tk_char_width_t \<Rightarrow> nat" where
  "char_width_value TK_CHAR_WIDTH_CHAR = 1"
| "char_width_value TK_CHAR_WIDTH_CHAR16 = 2"
| "char_width_value TK_CHAR_WIDTH_CHAR32 = 4"

datatype tk_string_prefix_kind_t =
  TK_STR_PREFIX_NONE | TK_STR_PREFIX_L | TK_STR_PREFIX_u | TK_STR_PREFIX_U | TK_STR_PREFIX_u8

datatype tk_char_prefix_kind_t =
  TK_CHAR_PREFIX_NONE | TK_CHAR_PREFIX_L | TK_CHAR_PREFIX_u | TK_CHAR_PREFIX_U

definition tk_parse_string_prefix :: "string \<Rightarrow> nat \<times> tk_string_prefix_kind_t \<times> tk_char_width_t" where
  "tk_parse_string_prefix p =
    (if at p 0 = CHR ''u'' \<and> at p 1 = CHR ''8'' \<and> at p 2 = DQ
       then (2, TK_STR_PREFIX_u8, TK_CHAR_WIDTH_CHAR)
     else if at p 0 = CHR ''L'' \<and> at p 1 = DQ then (1, TK_STR_PREFIX_L, TK_CHAR_WIDTH_CHAR32)
     else if at p 0 = CHR ''u'' \<and> at p 1 = DQ then (1, TK_STR_PREFIX_u, TK_CHAR_WIDTH_CHAR16)
     else if at p 0 = CHR ''U'' \<and> at p 1 = DQ then (1, TK_STR_PREFIX_U, TK_CHAR_WIDTH_CHAR32)
     else (0, TK_STR_PREFIX_NONE, TK_CHAR_WIDTH_CHAR))"

definition tk_parse_char_prefix :: "string \<Rightarrow> nat \<times> tk_char_prefix_kind_t \<times> tk_char_width_t" where
  "tk_parse_char_prefix p =
    (if at p 0 = CHR ''L'' \<and> at p 1 = SQ then (1, TK_CHAR_PREFIX_L, TK_CHAR_WIDTH_CHAR32)
     else if at p 0 = CHR ''u'' \<and> at p 1 = SQ then (1, TK_CHAR_PREFIX_u, TK_CHAR_WIDTH_CHAR16)
     else if at p 0 = CHR ''U'' \<and> at p 1 = SQ then (1, TK_CHAR_PREFIX_U, TK_CHAR_WIDTH_CHAR32)
     else (0, TK_CHAR_PREFIX_NONE, TK_CHAR_WIDTH_CHAR))"

definition byte_char :: "u8 \<Rightarrow> char" where
  "byte_char b = char_of (unat b)"

lemma ucn_digits:
  assumes "tk_starts_with_ucn p = Some n" "i < ucn_digit_count p"
  shows "2 + i < length p" "tk_is_xdigit (p ! (2 + i))"
proof -
  have "tk_is_xdigit (at p (2 + i))"
    using assms by (auto simp: tk_starts_with_ucn_def Let_def list_all_iff split: if_splits)
  moreover have "\<not> tk_is_xdigit NUL" by (simp add: tk_is_xdigit_def tk_is_digit_def)
  ultimately show "2 + i < length p" by (metis at_nonzero_length)
  with \<open>tk_is_xdigit (at p (2 + i))\<close> show "tk_is_xdigit (p ! (2 + i))" by (simp add: at_def)
qed

lemma ucn_consumed:
  "tk_parse_ucn_codepoint p = Some (cp, consumed) \<Longrightarrow>
   consumed = 2 + ucn_digit_count p \<and> 6 \<le> consumed \<and> consumed \<le> length p"
  using ucn_digits [of p consumed "ucn_digit_count p - 1"]
  by (auto simp: tk_parse_ucn_codepoint_def tk_starts_with_ucn_def ucn_digit_count_def Let_def
      split: if_splits)

text \<open>
  An identifier of \<open>len\<close> characters at \<open>p\<close> with its universal character names expanded, and
  whether there was one.
\<close>

function tk_decode_identifier_ucn :: "string \<Rightarrow> nat \<Rightarrow> (string \<times> bool) outcome" where
  "tk_decode_identifier_ucn p len =
    (if len = 0 then Value ([], False)
     else case tk_parse_ucn_codepoint p of
       Some (cp, consumed) \<Rightarrow>
         if \<not> tk_is_valid_ucn_codepoint cp then Refused
         else outcome_bind (tk_decode_identifier_ucn (drop consumed p) (len - consumed))
           (\<lambda>(str, has_ucn). Value (map byte_char (tk_encode_utf8 cp) @ str, True))
     | None \<Rightarrow>
         outcome_bind (tk_decode_identifier_ucn (drop 1 p) (len - 1))
           (\<lambda>(str, has_ucn). Value (at p 0 # str, has_ucn)))"
  by pat_completeness auto
termination
  by (relation "measure (\<lambda>(p, len). len)") (auto dest!: ucn_consumed)

declare tk_decode_identifier_ucn.simps [simp del]

section \<open>Properties of the escapes\<close>

lemma skip_octal_eq: "skip_octal k p = drop (length (takeWhile tk_is_octal_digit (take k p))) p"
  by (induction k p rule: skip_octal.induct) auto

lemma skip_escape_eq_read:
  "tk_skip_escape_in_literal_ctx p = map_outcome snd (tk_read_escape_char_ctx p)"
proof (cases "escape_ok p")
  case False
  then show ?thesis by (simp add: tk_skip_escape_in_literal_ctx_def tk_read_escape_char_ctx_def)
next
  case True
  then have m: "at p 0 \<in> set (BSL # SQ # DQ # ''abfnrtv?'') \<or> at p 0 \<in> set ''xuU'' \<or>
      at p 0 \<in> set ''01234567''"
    unfolding escape_ok_def by (elim conjE)
  then obtain c r where p: "p = c # r" by (cases p) simp_all
  have "c \<in> set ''xuU'' \<Longrightarrow> c = CHR ''x'' \<or> c = CHR ''u'' \<or> c = CHR ''U''" by simp
  with m consider (x) "c = CHR ''x''" | (u) "c = CHR ''u'' \<or> c = CHR ''U''"
    | (octal) "c \<in> set ''01234567''" | (simple) "c \<in> set (BSL # SQ # DQ # ''abfnrtv?'')"
    unfolding p at_Cons_0 by blast
  then show ?thesis
  proof cases
    case x
    then show ?thesis
      using True snd_hex_escape [of 0 r]
      by (simp add: p tk_skip_escape_in_literal_ctx_def tk_read_escape_char_ctx_def
          tk_parse_escape_value_def simple_escapes_def apfst_def map_prod_def split_def)
  next
    case u
    then obtain cp n where n: "tk_parse_ucn_codepoint (BSL # p) = Some (cp, n)"
      using True p by (auto simp: escape_ok_def split: option.splits)
    then have s: "tk_starts_with_ucn (BSL # p) = Some n"
      by (auto simp: tk_parse_ucn_codepoint_def)
    let ?k = "ucn_digit_count (BSL # p)"
    have k: "?k = (if c = CHR ''u'' then 4 else 8)" by (simp add: ucn_digit_count_def p)
    have l: "?k \<le> length r" using ucn_consumed [OF n] p by simp
    have "tk_is_xdigit (r ! i)" if "i < ?k" for i
      using ucn_digits [OF s that] p by simp
    then have "takeWhile tk_is_xdigit (take ?k r) = take ?k r"
      using l by (auto simp: takeWhile_eq_all_conv in_set_conv_nth)
    then have r: "snd (ucn_escape ?k 0 r) = drop ?k r" using l by (simp only: snd_ucn_escape) simp
    have "tk_skip_escape_in_literal_ctx p = Value (drop ?k r)"
      using True u unfolding k
      by (elim disjE) (simp_all add: p tk_skip_escape_in_literal_ctx_def)
    moreover have "tk_parse_escape_value (BSL # p) = apfst Some (ucn_escape ?k 0 r)"
      using u unfolding k
      by (elim disjE) (simp_all add: p tk_parse_escape_value_def simple_escapes_def)
    ultimately show ?thesis
      using True r by (simp add: tk_read_escape_char_ctx_def apfst_def map_prod_def split_def)
  next
    case octal
    then have "tk_is_octal_digit c" "map_of simple_escapes c = None" "c \<noteq> CHR ''x''" "c \<noteq> CHR ''u''"
        "c \<noteq> CHR ''U''"
      by (auto simp: tk_is_octal_digit_def simple_escapes_def)
    then show ?thesis
      using True snd_octal_escape [of 3 0 p]
      by (simp add: p tk_skip_escape_in_literal_ctx_def tk_read_escape_char_ctx_def skip_octal_eq
          tk_parse_escape_value_def apfst_def map_prod_def split_def)
  next
    case simple
    then have "map_of simple_escapes c \<noteq> None" "\<not> tk_is_octal_digit c" "c \<noteq> CHR ''x''"
        "c \<noteq> CHR ''u''" "c \<noteq> CHR ''U''"
      by (auto simp: tk_is_octal_digit_def simple_escapes_def)
    then show ?thesis
      using True
      by (auto simp: p tk_skip_escape_in_literal_ctx_def tk_read_escape_char_ctx_def
          tk_parse_escape_value_def)
  qed
qed

text \<open>
  Skipping an escape and reading it agree: for every text behind a backslash the skipper, which
  the string scanner uses, and the reader, which character constants use, accept the same escapes
  and leave the cursor at the same place.
\<close>

theorem skip_escape_agrees_with_read:
  "tk_skip_escape_in_literal_ctx p = map_outcome snd (tk_read_escape_char_ctx p)"
  by (rule skip_escape_eq_read)

section \<open>Properties of UTF-8\<close>

lemma chr_val_byte_char: "chr_val (byte_char b) = ucast b"
proof -
  have "byte (byte_char b) = unat b"
    unfolding byte_char_def by (simp add: unsigned_less [where 'a = nat, of b, simplified])
  then show ?thesis by (simp add: unsigned_ucast_eq of_nat_unat)
qed

lemma split6: "push_bit 6 (drop_bit 6 a) OR (a AND 0x3F) = (a :: u32)"
proof -
  have "(a AND 0x3F) = take_bit 6 a"
    by (simp add: take_bit_eq_mask mask_eq_exp_minus_1)
  then show ?thesis by (auto intro!: bit_word_eqI simp: bit_simps)
qed

text \<open>A value below a power of two is its own low bits.\<close>

lemma low_bits:
  fixes x :: u32
  shows "x < 0x80 \<Longrightarrow> x AND 0x7F = x" "x < 0x20 \<Longrightarrow> x AND 0x1F = x" "x < 0x10 \<Longrightarrow> x AND 0x0F = x"
    "x < 0x08 \<Longrightarrow> x AND 0x07 = x"
  using less_mask_eq [of x 7] less_mask_eq [of x 5] less_mask_eq [of x 4] less_mask_eq [of x 3]
  by (simp_all add: mask_eq_exp_minus_1)

lemma drop_bit_less:
  "cp \<le> 0x7FF \<Longrightarrow> drop_bit 6 cp < (0x20 :: u32)" "cp \<le> 0xFFFF \<Longrightarrow> drop_bit 12 cp < (0x10 :: u32)"
  "cp \<le> 0x1FFFFF \<Longrightarrow> drop_bit 18 cp < (0x08 :: u32)"
  by (simp_all add: drop_bit_eq_div word_less_nat_alt word_le_nat_alt unat_div)

lemma byte_u32: "ucast (ucast (w :: u32) :: u8) = w AND (0xFF :: u32)"
proof -
  have "w AND 0xFF = take_bit 8 w" by (simp add: take_bit_eq_mask mask_eq_exp_minus_1)
  then show ?thesis by (auto intro!: bit_word_eqI simp: bit_simps)
qed

lemma continuation_byte:
  fixes w :: u32
  shows "((0x80 OR w AND 0x3F) AND 0xFF) AND 0xC0 = 0x80"
    "((0x80 OR w AND 0x3F) AND 0xFF) AND 0x3F = w AND 0x3F"
  by (simp_all add: bit.conj_disj_distrib2 and.assoc)

lemma utf8_tail_numeral:
  "utf8_tail 1 cp (c # s) =
    (if chr_val c AND 0xC0 \<noteq> 0x80 then None
     else Some (push_bit 6 cp OR (chr_val c AND 0x3F), s))"
  "utf8_tail 2 cp (c # s) =
    (if chr_val c AND 0xC0 \<noteq> 0x80 then None
     else utf8_tail 1 (push_bit 6 cp OR (chr_val c AND 0x3F)) s)"
  "utf8_tail 3 cp (c # s) =
    (if chr_val c AND 0xC0 \<noteq> 0x80 then None
     else utf8_tail 2 (push_bit 6 cp OR (chr_val c AND 0x3F)) s)"
  unfolding One_nat_def numeral_2_eq_2 numeral_3_eq_3 by simp_all

lemma not_ascii: "w AND 0x80 = 0x80 \<Longrightarrow> \<not> w < (0x80 :: u32)"
proof
  assume w: "w AND 0x80 = 0x80" "w < 0x80"
  have "(w AND 0x7F) AND 0x80 = 0" by (simp add: and.assoc)
  with w low_bits(1) [OF w(2)] show False by simp
qed

lemma lead_bytes:
  fixes y :: u32
  shows "(0xC0 OR y AND 0x1F) AND 0xFF = 0xC0 OR y AND 0x1F" "(0xC0 OR y AND 0x1F) AND 0xE0 = 0xC0"
    "(0xC0 OR y AND 0x1F) AND 0x1F = y AND 0x1F" "\<not> 0xC0 OR y AND 0x1F < 0x80"
    "(0xE0 OR y AND 0x0F) AND 0xFF = 0xE0 OR y AND 0x0F" "(0xE0 OR y AND 0x0F) AND 0xE0 = 0xE0"
    "(0xE0 OR y AND 0x0F) AND 0xF0 = 0xE0" "(0xE0 OR y AND 0x0F) AND 0x0F = y AND 0x0F"
    "\<not> 0xE0 OR y AND 0x0F < 0x80"
    "(0xF0 OR y AND 0x07) AND 0xFF = 0xF0 OR y AND 0x07" "(0xF0 OR y AND 0x07) AND 0xE0 = 0xE0"
    "(0xF0 OR y AND 0x07) AND 0xF0 = 0xF0" "(0xF0 OR y AND 0x07) AND 0xF8 = 0xF0"
    "(0xF0 OR y AND 0x07) AND 0x07 = y AND 0x07" "\<not> 0xF0 OR y AND 0x07 < 0x80"
  by (simp_all add: bit.conj_disj_distrib2 and.assoc not_ascii)

text \<open>
  C25. UTF-8 round trip: a code point of up to 21 bits, encoded and placed before any other text, is
  decoded to itself with exactly its bytes consumed.
\<close>

theorem utf8_roundtrip:
  assumes "cp \<le> 0x1FFFFF"
  shows "tk_decode_utf8 (map byte_char (tk_encode_utf8 cp) @ rest) = (cp, rest)"
proof -
  have dd: "drop_bit 6 (drop_bit 6 cp) = drop_bit 12 cp" "drop_bit 6 (drop_bit 12 cp) = drop_bit 18 cp"
    by (simp_all add: drop_bit_drop_bit)
  have join: "push_bit 6 (drop_bit 6 cp) OR (cp AND 0x3F) = cp"
    "push_bit 6 (drop_bit 12 cp) OR (drop_bit 6 cp AND 0x3F) = drop_bit 6 cp"
    "push_bit 6 (drop_bit 18 cp) OR (drop_bit 12 cp AND 0x3F) = drop_bit 12 cp"
    using split6 [of cp] split6 [of "drop_bit 6 cp"] split6 [of "drop_bit 12 cp"] by (simp_all add: dd)
  note simps = tk_encode_utf8_def tk_decode_utf8_def Let_def chr_val_byte_char byte_u32
    continuation_byte utf8_tail_numeral
  consider (1) "cp \<le> 0x7F" | (2) "\<not> cp \<le> 0x7F" "cp \<le> 0x7FF"
    | (3) "\<not> cp \<le> 0x7F" "\<not> cp \<le> 0x7FF" "cp \<le> 0xFFFF"
    | (4) "\<not> cp \<le> 0x7F" "\<not> cp \<le> 0x7FF" "\<not> cp \<le> 0xFFFF" by blast
  then show ?thesis
  proof cases
    case 1
    then have l: "cp < 0x80" by (simp add: word_le_nat_alt word_less_nat_alt)
    have "(cp AND 0x7F) AND 0xFF = cp AND 0x7F" by (simp add: and.assoc)
    then have "cp AND 0xFF = cp" unfolding low_bits(1) [OF l] .
    then show ?thesis using 1 l by (simp add: simps)
  next
    case 2
    define x where "x = drop_bit 6 cp"
    have x: "x AND 0x1F = x" using drop_bit_less(1) [OF 2(2)] low_bits(2) by (simp add: x_def)
    note l = lead_bytes(1-4) [of x, unfolded x]
    show ?thesis using 2 by (simp add: simps x_def [symmetric] l join [folded x_def])
  next
    case 3
    define x where "x = drop_bit 12 cp"
    have x: "x AND 0x0F = x" using drop_bit_less(2) [OF 3(3)] low_bits(3) by (simp add: x_def)
    note l = lead_bytes(5-9) [of x, unfolded x]
    show ?thesis using 3 by (simp add: simps x_def [symmetric] l join [folded x_def])
  next
    case 4
    define x where "x = drop_bit 18 cp"
    have x: "x AND 0x07 = x" using drop_bit_less(3) [OF assms] low_bits(4) by (simp add: x_def)
    note l = lead_bytes(10-15) [of x, unfolded x]
    show ?thesis using 4 by (simp add: simps x_def [symmetric] l join [folded x_def])
  qed
qed

text \<open>
  UTF-16 units: a character beyond the basic plane becomes a high and a low surrogate from
  which the code point is recovered; no other value yields more than one unit.
\<close>

theorem utf16_surrogates:
  assumes "next_string_value s 2 = Some (v, q)" "v \<le> 0x10FFFF"
  shows "if v < 0x10000 then tk_next_string_code_units s 2 = Some ([v], q)
    else \<exists>hi lo. tk_next_string_code_units s 2 = Some ([hi, lo], q) \<and>
      0xD800 \<le> hi \<and> hi \<le> 0xDBFF \<and> 0xDC00 \<le> lo \<and> lo \<le> 0xDFFF \<and>
      v = 0x10000 + push_bit 10 (hi - 0xD800) + (lo - 0xDC00)"
proof (cases "v < 0x10000")
  case True
  then show ?thesis using assms(1) by (simp add: tk_next_string_code_units_def linorder_not_le [symmetric])
next
  case False
  define u where "u = v - 0x10000"
  have u: "u < 0x100000" "v = 0x10000 + u"
    using False assms(2) by (auto simp: u_def word_less_nat_alt word_le_nat_alt unat_sub)
  define h l where "h = drop_bit 10 u" and "l = u AND 0x3FF"
  have h: "h < 0x400" using u(1) by (simp add: h_def drop_bit_eq_div word_less_nat_alt unat_div)
  have m: "x AND 0x3FF = take_bit 10 x" for x :: u32
    by (simp add: take_bit_eq_mask mask_eq_exp_minus_1)
  have l: "l < 0x400" unfolding l_def m by (simp add: take_bit_eq_mod word_less_nat_alt unat_mod)
  have hl: "h AND 0x3FF = h" "l AND 0x3FF = l"
    using less_mask_eq [of h 10] less_mask_eq [of l 10] h l by (simp_all add: mask_eq_exp_minus_1)
  have sum: "push_bit 10 h + l = u" unfolding h_def l_def m by (rule bits_ident)
  have disj: "a OR x = a + x" if "a AND 0x3FF = 0" "x AND 0x3FF = x" for a x :: u32
  proof -
    have "a AND x = (a AND 0x3FF) AND x" by (subst that(2) [symmetric]) (simp only: ac_simps)
    then show ?thesis using that(1) word_plus_and_or [of a x] by simp
  qed
  have s: "0xD800 OR h = 0xD800 + h" "0xDC00 OR l = 0xDC00 + l"
    using disj [of "0xD800" h] disj [of "0xDC00" l] hl by simp_all
  have "tk_next_string_code_units s 2 = Some ([0xD800 + h, 0xDC00 + l], q)"
    using assms(1) False s hl
    by (simp add: tk_next_string_code_units_def linorder_not_le [symmetric] u_def [symmetric] h_def [symmetric]
      l_def [symmetric])
  moreover have "0xD800 \<le> 0xD800 + h" "0xD800 + h \<le> 0xDBFF" "0xDC00 \<le> 0xDC00 + l" "0xDC00 + l \<le> 0xDFFF"
    using h l by (simp_all add: word_less_nat_alt word_le_nat_alt unat_word_ariths)
  ultimately show ?thesis using False u(2) sum by (simp add: add.assoc)
qed

lemma utf8_roundtrip_witness:
  "tk_decode_utf8 (map byte_char [0xE2, 0x82, 0xAC] @ ''x'') = (0x20AC, ''x'')"
proof -
  have "tk_encode_utf8 0x20AC = [0xE2, 0x82, 0xAC]" by code_simp
  then show ?thesis using utf8_roundtrip [of "0x20AC" "''x''"] by simp
qed

lemma utf16_surrogates_witness:
  "\<exists>hi lo. tk_next_string_code_units (BSL # ''U0001F600'') 2 = Some ([hi, lo], []) \<and>
    0xD800 \<le> hi \<and> hi \<le> 0xDBFF \<and> 0xDC00 \<le> lo \<and> lo \<le> 0xDFFF \<and>
    0x1F600 = 0x10000 + push_bit 10 (hi - 0xD800) + (lo - 0xDC00)"
proof -
  have "next_string_value (BSL # ''U0001F600'') 2 = Some (0x1F600, [])" by code_simp
  from utf16_surrogates [OF this] show ?thesis by simp
qed

section \<open>Data bytes and code units\<close>

text \<open>Every escape that is not a universal character name has an ASCII value.\<close>

function ascii_escapes :: "string \<Rightarrow> bool" where
  "ascii_escapes s =
    (if s = [] then True
     else if hd s = BSL then
       (case tk_parse_escape_value s of
          (None, q) \<Rightarrow> True
        | (Some v, q) \<Rightarrow> (is_ucn_escape s \<or> v < 0x80) \<and> ascii_escapes q)
     else ascii_escapes (tl s))"
  by pat_completeness auto
termination
  by (relation "measure length") (auto dest: sym dest!: parse_escape_shorter)

declare ascii_escapes.simps [simp del]

lemma encode_ascii: "v < 0x80 \<Longrightarrow> tk_encode_utf8 v = [ucast v]"
  by (simp add: tk_encode_utf8_def word_less_nat_alt word_le_nat_alt)

lemma ucast_chr_val: "(ucast (chr_val c) :: u8) = of_nat (byte c)"
proof -
  have "byte c < (2 ^ LENGTH(32) :: nat)"
    by (rule order.strict_trans [OF byte_less]) simp
  then have "unat (chr_val c) = byte c" unfolding unat_of_nat by (rule mod_less)
  then show ?thesis by (metis of_nat_unat)
qed

lemma ucast_back: "ucast (ucast (w :: u8) :: u32) = w"
  by (auto intro!: bit_word_eqI simp: bit_simps)

lemma narrow_units:
  "ascii_escapes s \<Longrightarrow> narrow_bytes s = map_option (map ucast) (emit_units 1 0 n s)"
proof (induction s arbitrary: n rule: narrow_bytes.induct)
  case (1 s)
  show ?case
  proof (cases "s = []")
    case True
    then show ?thesis by (simp add: narrow_bytes.simps [of "[]"] emit_units.simps [of "Suc 0" 0 n "[]"])
  next
    case s: False
    show ?thesis
    proof (cases "hd s = BSL")
      case False
      then have "ascii_escapes (tl s)" using "1.prems" s by (simp add: ascii_escapes.simps [of s])
      then have "narrow_bytes (tl s) = map_option (map ucast) (emit_units 1 0 (Suc n) (tl s))"
        using "1.IH"(2) [OF s False] by simp
      then show ?thesis
        using s False
        by (simp add: narrow_bytes.simps [of s] emit_units.simps [of "Suc 0" 0 n s] next_string_value_def
            tk_next_string_code_units_def is_ucn_escape_def option.map_comp comp_def ucast_chr_val)
    next
      case True
      obtain r q where e: "tk_parse_escape_value s = (r, q)" by fastforce
      show ?thesis
      proof (cases r)
        case None
        then show ?thesis
          using s True e
          by (simp add: narrow_bytes.simps [of s] emit_units.simps [of "Suc 0" 0 n s] next_string_value_def
              tk_next_string_code_units_def)
      next
        case (Some v)
        have p: "is_ucn_escape s \<or> v < 0x80" "ascii_escapes q"
          using "1.prems" s True e Some by (simp_all add: ascii_escapes.simps [of s])
        have ih: "narrow_bytes q = map_option (map ucast) (emit_units (Suc 0) 0 m q)" for m
          using "1.IH"(1) [OF s True] e Some p(2) by simp
        note simps = narrow_bytes.simps [of s] emit_units.simps [of "Suc 0" 0 n s]
          next_string_value_def tk_next_string_code_units_def option.map_comp comp_def
        show ?thesis
        proof (cases "is_ucn_escape s")
          case True
          then show ?thesis
            using s \<open>hd s = BSL\<close> e Some
            by (simp add: simps ih [of "n + length (tk_encode_utf8 v)"] ucast_back)
        next
          case False
          then show ?thesis
            using s \<open>hd s = BSL\<close> e Some p(1)
            by (simp add: simps ih [of "Suc n"] encode_ascii)
        qed
      qed
    qed
  qed
qed

text \<open>
  Data bytes are code units, where escapes are ASCII: if every escape of a narrow literal that
  is not a universal character name has a value below 128, then the bytes emitted for its data are
  exactly its code units, the ones its length and its initialiser are computed from.
\<close>

theorem narrow_bytes_are_units:
  assumes "ascii_escapes s"
  shows "tk_emit_string_literal_bytes s 1 False =
    map_option (map ucast) (tk_emit_string_code_units s 1 0)"
  by (simp add: tk_emit_string_literal_bytes_def tk_emit_string_code_units_def
      narrow_units [OF assms, of 0] option.map_comp comp_def)

lemma narrow_bytes_are_units_witness:
  "tk_emit_string_literal_bytes (BSL # ''u00e9'' @ [BSL] @ ''n'') 1 False = Some [0xC3, 0xA9, 10] \<and>
   tk_count_string_code_units (BSL # ''u00e9'' @ [BSL] @ ''n'') 1 = Some 3"
proof -
  have a: "ascii_escapes (BSL # ''u00e9'' @ [BSL] @ ''n'')"
    and u: "tk_emit_string_code_units (BSL # ''u00e9'' @ [BSL] @ ''n'') 1 0 = Some [0xC3, 0xA9, 10]"
    by code_simp+
  show ?thesis
    unfolding tk_count_string_code_units_def narrow_bytes_are_units [OF a] u by simp
qed

text \<open>
  They differ for larger escapes: a literal that is one octal or hexadecimal escape of value at
  least 128 has one code unit, but at least two data bytes, because the data path encodes the
  value in UTF-8.
\<close>

theorem large_escape_bytes_differ:
  assumes "s \<noteq> []" "hd s = BSL" "tk_parse_escape_value s = (Some v, [])" "\<not> is_ucn_escape s" "0x80 \<le> v"
  shows "tk_count_string_code_units s 1 = Some 1 \<and>
    (\<exists>bytes. tk_emit_string_literal_bytes s 1 False = Some bytes \<and> 2 \<le> length bytes)"
proof -
  have "2 \<le> length (tk_encode_utf8 v)"
    using assms(5) by (simp add: tk_encode_utf8_def word_le_nat_alt)
  then show ?thesis
    using assms
    by (simp add: tk_count_string_code_units_def tk_emit_string_code_units_def
        tk_emit_string_literal_bytes_def emit_units.simps [of "Suc 0" 0 0 s] emit_units.simps [of "Suc 0" 0 _ "[]"]
        narrow_bytes.simps [of s] narrow_bytes.simps [of "[]"] tk_next_string_code_units_def
        next_string_value_def)
qed

lemma large_escape_bytes_differ_witness:
  "tk_count_string_code_units (BSL # ''xA9'') 1 = Some 1 \<and>
   (\<exists>bytes. tk_emit_string_literal_bytes (BSL # ''xA9'') 1 False = Some bytes \<and> 2 \<le> length bytes)"
proof -
  have "tk_parse_escape_value (BSL # ''xA9'') = (Some 0xA9, [])" by code_simp
  then show ?thesis
    using large_escape_bytes_differ [of "BSL # ''xA9''" "0xA9"] by (simp add: is_ucn_escape_def)
qed

end
