(* ===== verification/Normalize.thy ===== *)
theory Normalize
  imports TokenKind
begin

text \<open>
  Translation phases 1 and 2 of the tokenizer: trigraph replacement (\<^verbatim>\<open>tokenizer/trigraph.c\<close>)
  and the removal of line splices (\<^verbatim>\<open>tokenizer.c\<close>), with the execution context that switches them
  (\<^verbatim>\<open>tokenizer.h\<close>, \<^verbatim>\<open>config_runtime.c\<close>). Allocation is not modelled: the normalised text is a new
  list.
\<close>

section \<open>The execution context\<close>

text \<open>
  The context record without the pointers to its services (allocator, diagnostics, source manager,
  hooks, jump target) and without the statistics.
\<close>

record tokenizer_context_t =
  tc_strict_c11_mode :: bool
  tc_enable_trigraphs :: bool
  tc_enable_binary_literals :: bool
  tc_enable_c11_audit_extensions :: bool
  tc_tolerate_untokenizable :: bool
  tc_max_token_len_for_test :: int

definition init_context :: tokenizer_context_t where
  "init_context =
    \<lparr>tc_strict_c11_mode = False, tc_enable_trigraphs = True, tc_enable_binary_literals = True,
     tc_enable_c11_audit_extensions = False, tc_tolerate_untokenizable = False,
     tc_max_token_len_for_test = INT_MAX\<rparr>"

definition tk_set_max_token_len_limit_for_test_ctx ::
    "tokenizer_context_t \<Rightarrow> int \<Rightarrow> tokenizer_context_t" where
  "tk_set_max_token_len_limit_for_test_ctx ctx max_len =
    ctx\<lparr>tc_max_token_len_for_test := if max_len = 0 then INT_MAX else max_len\<rparr>"

section \<open>Trigraphs\<close>

definition trigraphs :: "(char \<times> char) list" where
  "trigraphs =
    [(CHR ''='', CHR ''#''), (CHR ''('', CHR ''[''), (CHR ''/'', BSL), (CHR '')'', CHR '']''),
     (SQ, CHR ''^''), (CHR ''<'', CHR ''{''), (CHR ''>'', CHR ''}''), (CHR ''!'', CHR ''|''),
     (CHR ''-'', CHR ''~'')]"

definition trigraph_to_char :: "char \<Rightarrow> char" where
  "trigraph_to_char c = (case map_of trigraphs c of None \<Rightarrow> NUL | Some m \<Rightarrow> m)"

text \<open>The test of both loops: the replacement of a trigraph at \<open>p\<close>, NUL if there is none.\<close>

definition trigraph_here :: "string \<Rightarrow> char" where
  "trigraph_here p =
    (if 2 < length p \<and> at p 0 = CHR ''?'' \<and> at p 1 = CHR ''?'' then trigraph_to_char (at p 2)
     else NUL)"

primrec has_trigraph :: "string \<Rightarrow> bool" where
  "has_trigraph [] = False"
| "has_trigraph (c # p) = (trigraph_here (c # p) \<noteq> NUL \<or> has_trigraph p)"

fun replace_trigraphs :: "string \<Rightarrow> string" where
  "replace_trigraphs [] = []"
| "replace_trigraphs (c # p) =
    (let mapped = trigraph_here (c # p)
     in if mapped \<noteq> NUL then mapped # replace_trigraphs (drop 2 p) else c # replace_trigraphs p)"

definition tk_replace_trigraphs :: "tokenizer_context_t \<Rightarrow> string \<Rightarrow> string" where
  "tk_replace_trigraphs ctx s =
    (if \<not> tc_enable_trigraphs ctx then s
     else if \<not> has_trigraph s then s
     else replace_trigraphs s)"

section \<open>Line splices\<close>

definition line_splice_byte_count :: "string \<Rightarrow> nat" where
  "line_splice_byte_count p =
    (if at p 0 \<noteq> BSL then 0
     else if at p 1 = LF then 2
     else if at p 1 = CHR 0x0d \<and> at p 2 = LF then 3
     else 0)"

fun splice_count :: "string \<Rightarrow> nat" where
  "splice_count [] = 0"
| "splice_count (c # p) =
    (let splice_bytes = line_splice_byte_count (c # p)
     in if splice_bytes \<noteq> 0 then splice_count (drop (splice_bytes - 1) p) + 1
        else splice_count p)"

text \<open>
  The second loop, from output position \<open>j\<close>: the text without splices and, for each splice, the
  output position it was removed from.
\<close>

fun splice_loop :: "nat \<Rightarrow> string \<Rightarrow> string \<times> nat list" where
  "splice_loop j [] = ([], [])"
| "splice_loop j (c # p) =
    (let splice_bytes = line_splice_byte_count (c # p)
     in if splice_bytes \<noteq> 0
        then (let (out, offsets) = splice_loop j (drop (splice_bytes - 1) p) in (out, j # offsets))
        else (let (out, offsets) = splice_loop (j + 1) p in (c # out, offsets)))"

definition remove_line_splices :: "string \<Rightarrow> string \<times> nat list" where
  "remove_line_splices s = (if splice_count s = 0 then (s, []) else splice_loop 0 s)"

definition tokenize_prepare_input :: "tokenizer_context_t \<Rightarrow> string \<Rightarrow> string \<times> nat list" where
  "tokenize_prepare_input ctx s = remove_line_splices (tk_replace_trigraphs ctx s)"

section \<open>Trigraph replacement\<close>

abbreviation newlines :: "string \<Rightarrow> nat" where
  "newlines s \<equiv> count_list s LF"

lemma trigraph_to_char_cases:
  assumes "trigraph_to_char c \<noteq> NUL"
  shows "trigraph_to_char c \<in> set (BSL # ''#[]^{}|~'')"
proof -
  obtain m where m: "trigraph_to_char c = m" "map_of trigraphs c = Some m"
    using assms by (auto simp: trigraph_to_char_def split: option.splits)
  from map_of_SomeD [OF m(2)] show ?thesis
    unfolding m(1) trigraphs_def list.set insert_iff prod.inject by (elim disjE conjE) simp_all
qed

lemma trigraph_to_char_plain [simp]: "trigraph_to_char (CHR ''?'') = NUL" "trigraph_to_char LF = NUL"
  by (simp_all add: trigraph_to_char_def trigraphs_def)

lemma trigraph_here_Some:
  "trigraph_here p \<noteq> NUL \<Longrightarrow> \<exists>t r. p = CHR ''?'' # CHR ''?'' # t # r \<and> trigraph_here p = trigraph_to_char t"
  by (cases p; cases "tl p"; cases "tl (tl p)") (auto simp: trigraph_here_def split: if_splits)

lemma trigraph_here_three [simp]:
  "trigraph_here (CHR ''?'' # CHR ''?'' # t # r) = trigraph_to_char t"
  by (simp add: trigraph_here_def)

text \<open>The output keeps a pair of question marks only together with the character after it.\<close>

lemma replace_trigraphs_mapped:
  "trigraph_here p \<noteq> NUL \<Longrightarrow>
   \<exists>t r. p = CHR ''?'' # CHR ''?'' # t # r \<and> replace_trigraphs p = trigraph_to_char t # replace_trigraphs r \<and>
         trigraph_to_char t \<noteq> NUL"
  by (frule trigraph_here_Some) auto

lemma replace_trigraphs_newlines: "newlines (replace_trigraphs p) = newlines p"
proof (induction p rule: replace_trigraphs.induct)
  case (2 c p)
  show ?case
  proof (cases "trigraph_here (c # p) = NUL")
    case True
    then show ?thesis using 2 by simp
  next
    case False
    then obtain t r where p: "c = CHR ''?''" "p = CHR ''?'' # t # r" "trigraph_to_char t \<noteq> NUL"
      using trigraph_here_Some [OF False] by auto
    then have "trigraph_to_char t \<noteq> LF" "t \<noteq> LF" using trigraph_to_char_cases [of t] by auto
    then show ?thesis using "2.IH"(1) [OF refl False] p by simp
  qed
qed simp

lemma trigraph_to_char_mapped:
  assumes "trigraph_to_char c \<noteq> NUL"
  shows "trigraph_to_char (trigraph_to_char c) = NUL" "trigraph_to_char c \<noteq> CHR ''?''"
  using trigraph_to_char_cases [OF assms]
  unfolding list.set insert_iff empty_iff
  by (elim disjE FalseE; simp add: trigraph_to_char_def trigraphs_def)+

text \<open>A character of the output that could belong to a trigraph was already there.\<close>

lemma replace_trigraphs_hd:
  assumes "at (replace_trigraphs p) 0 = x" "x = CHR ''?'' \<or> trigraph_to_char x \<noteq> NUL"
  shows "\<exists>p'. p = x # p' \<and> replace_trigraphs p = x # replace_trigraphs p'"
proof (cases p)
  case Nil
  then show ?thesis using assms by (auto simp: trigraph_to_char_def trigraphs_def)
next
  case (Cons c p')
  show ?thesis
  proof (cases "trigraph_here (c # p') = NUL")
    case True
    then show ?thesis using Cons assms(1) by (simp add: Let_def)
  next
    case False
    then obtain t where "x = trigraph_to_char t" "trigraph_to_char t \<noteq> NUL"
      using replace_trigraphs_mapped [OF False] Cons assms(1) by auto
    then show ?thesis using trigraph_to_char_mapped [of t] assms(2) by auto
  qed
qed

lemma replace_trigraphs_clean: "\<not> has_trigraph (replace_trigraphs p)"
proof (induction p rule: replace_trigraphs.induct)
  case (2 c p)
  show ?case
  proof (cases "trigraph_here (c # p) = NUL")
    case True
    have "trigraph_here (c # replace_trigraphs p) = NUL"
    proof (rule ccontr)
      assume n: "trigraph_here (c # replace_trigraphs p) \<noteq> NUL"
      then obtain t r where q: "c = CHR ''?''" "replace_trigraphs p = CHR ''?'' # t # r"
          "trigraph_to_char t \<noteq> NUL"
        using trigraph_here_Some [OF n] by auto
      then obtain p1 where p1: "p = CHR ''?'' # p1" "replace_trigraphs p1 = t # r"
        using replace_trigraphs_hd [of p "CHR ''?''"] by auto
      then obtain p2 where "p1 = t # p2" using replace_trigraphs_hd [of p1 t] q(3) by auto
      then show False using True q p1 by simp
    qed
    then show ?thesis using 2 True by (simp add: Let_def)
  next
    case False
    then obtain t r where p: "p = CHR ''?'' # t # r" "trigraph_here (c # p) = trigraph_to_char t"
        "trigraph_to_char t \<noteq> NUL"
      using trigraph_here_Some [OF False] by auto
    have "trigraph_here (trigraph_to_char t # q) = NUL" for q
      using trigraph_to_char_mapped(2) [OF p(3)] by (simp add: trigraph_here_def)
    then show ?thesis using "2.IH"(1) [OF refl False] p False by (simp add: Let_def)
  qed
qed simp

lemma replace_trigraphs_id: "\<not> has_trigraph p \<Longrightarrow> replace_trigraphs p = p"
  by (induction p) auto

text \<open>
  Trigraph replacement is complete and keeps lines: when it is enabled its result holds no
  trigraph, when it is disabled or there is none the text is unchanged, and in every case the
  number of newlines, hence every later line number, is that of the source.
\<close>

theorem trigraphs_replaced:
  "(has_trigraph (tk_replace_trigraphs ctx s) \<longleftrightarrow> \<not> tc_enable_trigraphs ctx \<and> has_trigraph s) \<and>
   newlines (tk_replace_trigraphs ctx s) = newlines s \<and>
   tk_replace_trigraphs ctx (tk_replace_trigraphs ctx s) = tk_replace_trigraphs ctx s"
  by (auto simp: tk_replace_trigraphs_def replace_trigraphs_newlines replace_trigraphs_clean)

section \<open>Splice removal\<close>

lemma splice_loop_shift:
  "splice_loop (i + j) p = (fst (splice_loop j p), map ((+) i) (snd (splice_loop j p)))"
  by (induction j p rule: splice_loop.induct) (auto simp: Let_def split_def add.assoc)

lemma splice_count_length: "length (snd (splice_loop j p)) = splice_count p"
  by (induction j p rule: splice_loop.induct) (auto simp: Let_def split_def)

lemma no_splice: "splice_count p = 0 \<Longrightarrow> splice_loop j p = (p, [])"
  by (induction j p rule: splice_loop.induct) (auto simp: Let_def split: if_splits)

lemma remove_line_splices_loop: "remove_line_splices s = splice_loop 0 s"
  by (simp add: remove_line_splices_def no_splice)

lemma splice_cases:
  "line_splice_byte_count p = 0 \<or> (\<exists>q. p = BSL # LF # q) \<or> (\<exists>q. p = BSL # CHR 0x0d # LF # q)"
  by (cases p; cases "tl p"; cases "tl (tl p)") (auto simp: line_splice_byte_count_def)

lemma splice_loop_splice [simp]:
  "splice_loop j (BSL # LF # q) = (fst (splice_loop j q), j # snd (splice_loop j q))"
  "splice_loop j (BSL # CHR 0x0d # LF # q) = (fst (splice_loop j q), j # snd (splice_loop j q))"
  by (simp_all add: line_splice_byte_count_def split_def Let_def)

lemma splice_loop_keep:
  "line_splice_byte_count (c # p) = 0 \<Longrightarrow>
   splice_loop j (c # p) = (c # fst (splice_loop (j + 1) p), snd (splice_loop (j + 1) p))"
  by (simp add: split_def Let_def)

declare splice_loop.simps(2) [simp del]

lemma splice_prefix: "line_splice_byte_count (p @ q) = 0 \<Longrightarrow> line_splice_byte_count p = 0"
  using splice_cases [of p] by (auto simp: line_splice_byte_count_def)

lemma splice_offsets_ge: "i \<in> set (snd (splice_loop j p)) \<Longrightarrow> j \<le> i"
  by (induction j p rule: splice_loop.induct)
     (auto simp: splice_loop.simps(2) Let_def split_def split: if_splits dest: Suc_leD)

lemma splice_split:
  assumes "k \<le> length (fst (splice_loop j p))"
  shows "\<exists>a b. p = a @ b \<and> fst (splice_loop j a) = take k (fst (splice_loop j p)) \<and>
    (if k < length (fst (splice_loop j p))
     then b \<noteq> [] \<and> hd b = fst (splice_loop j p) ! k \<and> line_splice_byte_count b = 0 else b = []) \<and>
    newlines a = newlines (take k (fst (splice_loop j p))) +
      length (filter (\<lambda>i. i \<le> j + k) (snd (splice_loop j p)))"
  using assms
proof (induction j p arbitrary: k rule: splice_loop.induct)
  case (1 j)
  then show ?case by simp
next
  case (2 j c p)
  consider (keep) "line_splice_byte_count (c # p) = 0"
    | (splice) sp q where "c # p = sp @ q" "sp = [BSL, LF] \<or> sp = [BSL, CHR 0x0d, LF]"
    using splice_cases [of "c # p"] by (metis append_Cons append_Nil)
  then show ?case
  proof cases
    case splice
    have n: "line_splice_byte_count (c # p) \<noteq> 0" "drop (line_splice_byte_count (c # p) - 1) p = q"
      using splice by (auto simp: line_splice_byte_count_def)
    have l: "fst (splice_loop j (sp @ x)) = fst (splice_loop j x)"
      "snd (splice_loop j (sp @ x)) = j # snd (splice_loop j x)" "newlines sp = 1" for x
      using splice(2) by auto
    obtain a b where "q = a @ b" "fst (splice_loop j a) = take k (fst (splice_loop j q))"
      "if k < length (fst (splice_loop j q))
       then b \<noteq> [] \<and> hd b = fst (splice_loop j q) ! k \<and> line_splice_byte_count b = 0 else b = []"
      "newlines a = newlines (take k (fst (splice_loop j q))) +
        length (filter (\<lambda>i. i \<le> j + k) (snd (splice_loop j q)))"
      using "2.IH"(1) [OF refl n(1)] "2.prems" n(2) l splice(1) by metis
    then show ?thesis
      unfolding splice(1) by - (rule exI [of _ "sp @ a"], rule exI [of _ b], simp add: l)
  next
    case keep
    note k = splice_loop_keep [OF keep]
    show ?thesis
    proof (cases k)
      case 0
      then show ?thesis
        using keep splice_offsets_ge [of _ "j + 1" p]
        by - (rule exI [of _ "[]"], rule exI [of _ "c # p"], force simp: k filter_empty_conv)
    next
      case (Suc m)
      then have m: "m \<le> length (fst (splice_loop (j + 1) p))" using "2.prems" k by simp
      obtain a b where ab: "p = a @ b"
        "fst (splice_loop (j + 1) a) = take m (fst (splice_loop (j + 1) p))"
        "if m < length (fst (splice_loop (j + 1) p))
         then b \<noteq> [] \<and> hd b = fst (splice_loop (j + 1) p) ! m \<and> line_splice_byte_count b = 0
         else b = []"
        "newlines a = newlines (take m (fst (splice_loop (j + 1) p))) +
          length (filter (\<lambda>i. i \<le> j + 1 + m) (snd (splice_loop (j + 1) p)))"
        using "2.IH"(2) [OF refl _ m] keep by auto
      have "line_splice_byte_count (c # a) = 0" using keep ab(1) splice_prefix [of "c # a" b] by simp
      note a = splice_loop_keep [OF this]
      show ?thesis
        using ab(2-4) unfolding k Suc
        by - (rule exI [of _ "c # a"], rule exI [of _ b], simp add: a ab(1) [symmetric])
    qed
  qed
qed

text \<open>
  Every character kept by splice removal knows its physical line: for each position \<open>k\<close> of the
  normalised text the source splits in front of the character at \<open>k\<close>, the first part normalises to
  the first \<open>k\<close> characters, and its newlines are those \<open>k\<close> characters' newlines and the splices
  recorded at or before \<open>k\<close>.
\<close>

theorem splices_keep_lines:
  fixes s out :: string
  assumes "remove_line_splices s = (out, offsets)" and "k \<le> length out"
  shows "\<exists>a b. s = a @ b \<and> fst (remove_line_splices a) = take k out \<and>
    (if k < length out then b \<noteq> [] \<and> hd b = out ! k \<and> line_splice_byte_count b = 0 else b = []) \<and>
    newlines a = newlines (take k out) + length (filter (\<lambda>i. i \<le> k) offsets)"
proof -
  have l: "fst (splice_loop 0 s) = out" "snd (splice_loop 0 s) = offsets"
    using assms(1) by (simp_all add: remove_line_splices_loop)
  show ?thesis
    unfolding remove_line_splices_loop
    using splice_split [of k 0 s, unfolded l add_0] assms(2) by blast
qed

text \<open>Two splices, one of them with a carriage return, inside a word.\<close>

lemma splices_keep_lines_witness:
  "\<exists>a b. ''in'' @ [BSL, LF] @ ''t'' @ [BSL, CHR 0x0d, LF] @ ''x'' = a @ b \<and>
    fst (remove_line_splices a) = ''int'' \<and> b \<noteq> [] \<and> hd b = CHR ''x'' \<and> newlines a = 2"
proof -
  have "remove_line_splices (''in'' @ [BSL, LF] @ ''t'' @ [BSL, CHR 0x0d, LF] @ ''x'') =
    (''intx'', [2, 3])" by code_simp
  from splices_keep_lines [OF this, of 3] show ?thesis by (simp add: numeral_eq_Suc) blast
qed

end
