(* ===== verification/Scanner.thy ===== *)
theory Scanner
  imports Literals Normalize
begin

text \<open>
  The scanner of ignored text and identifiers, \<^verbatim>\<open>tokenizer/scanner.c\<close>. The cursor and the
  out-parameters of \<^verbatim>\<open>tk_skip_ignored_ctx\<close> are one record.
\<close>

section \<open>White space and comments\<close>

record skip_t =
  sk_p :: string
  sk_at_bol :: bool
  sk_has_space :: bool
  sk_line_no :: int

definition tk_is_space_fast :: "char \<Rightarrow> bool" where
  "tk_is_space_fast c \<longleftrightarrow>
    c = CHR 0x20 \<or> c = CHR 0x09 \<or> c = LF \<or> c = CHR 0x0d \<or> c = CHR 0x0c \<or> c = CHR 0x0b"

text \<open>The loop of the block comment behind its opening: cursor, line start flag and line.\<close>

fun block_comment :: "string \<Rightarrow> bool \<Rightarrow> int \<Rightarrow> (string \<times> bool \<times> int) option" where
  "block_comment [] at_bol line_no = None"
| "block_comment (c # p) at_bol line_no =
    (let at_bol1 = (if c = LF then True else at_bol); line_no1 = (if c = LF then line_no + 1 else line_no)
     in if c = CHR ''*'' \<and> at p 0 = CHR ''/'' then Some (drop 1 p, at_bol1, line_no1)
        else block_comment p at_bol1 line_no1)"

definition tk_skip_ignored_fallback :: "skip_t \<Rightarrow> skip_t outcome" where
  "tk_skip_ignored_fallback st =
    (let p = sk_p st in
     if at p 0 = BSL \<and> at p 1 = LF
       then Value (st\<lparr>sk_p := drop 2 p, sk_line_no := sk_line_no st + 1\<rparr>)
     else if at p 0 = CHR ''/'' \<and> at p 1 = CHR ''/'' then
       (let q = dropWhile (\<lambda>c. c \<noteq> LF) (drop 2 p); st1 = st\<lparr>sk_has_space := True\<rparr>
        in if at q 0 = LF
           then Value (st1\<lparr>sk_p := drop 1 q, sk_at_bol := True, sk_line_no := sk_line_no st + 1\<rparr>)
           else Value (st1\<lparr>sk_p := q\<rparr>))
     else if at p 0 = CHR ''/'' \<and> at p 1 = CHR ''*'' then
       (case block_comment (drop 2 p) (sk_at_bol st) (sk_line_no st) of
          None \<Rightarrow> Refused
        | Some (q, at_bol, line_no) \<Rightarrow>
            Value (st\<lparr>sk_p := q, sk_at_bol := at_bol, sk_has_space := True, sk_line_no := line_no\<rparr>))
     else Value st)"

text \<open>The inner loop over ASCII white space.\<close>

fun skip_spaces :: "string \<Rightarrow> bool \<Rightarrow> bool \<Rightarrow> int \<Rightarrow> skip_t" where
  "skip_spaces (c # p) at_bol has_space line_no =
    (if tk_is_space_fast c
     then skip_spaces p (if c = LF then True else at_bol) True (if c = LF then line_no + 1 else line_no)
     else \<lparr>sk_p = c # p, sk_at_bol = at_bol, sk_has_space = has_space, sk_line_no = line_no\<rparr>)"
| "skip_spaces [] at_bol has_space line_no =
    \<lparr>sk_p = [], sk_at_bol = at_bol, sk_has_space = has_space, sk_line_no = line_no\<rparr>"

text \<open>What a skip leaves behind: consumed text and the lines in it.\<close>

definition skipped :: "skip_t \<Rightarrow> skip_t \<Rightarrow> bool" where
  "skipped st st' \<longleftrightarrow>
    (\<exists>b. sk_p st = b @ sk_p st' \<and> sk_line_no st' = sk_line_no st + int (newlines b))"

lemma skipped_refl [simp]: "skipped st st"
  by (simp add: skipped_def)

lemma skipped_trans: "skipped a b \<Longrightarrow> skipped b c \<Longrightarrow> skipped a c"
  by (fastforce simp: skipped_def)

lemma skipped_length: "skipped st st' \<Longrightarrow> length (sk_p st') \<le> length (sk_p st)"
  by (auto simp: skipped_def)

lemma block_comment_skipped:
  "block_comment p bol n = Some (q, bol', n') \<Longrightarrow> \<exists>b. p = b @ q \<and> b \<noteq> [] \<and> n' = n + int (newlines b)"
proof (induction p bol n rule: block_comment.induct)
  case (2 c p bol n)
  show ?case
  proof (cases "c = CHR ''*'' \<and> at p 0 = CHR ''/''")
    case True
    then obtain r where "p = CHR ''/'' # r" by (cases p) auto
    then show ?thesis using "2.prems" True by (intro exI [of _ "''*/''"]) auto
  next
    case False
    then obtain b where "p = b @ q" "n' = (if c = LF then n + 1 else n) + int (newlines b)"
      using "2.IH" [OF refl refl False] "2.prems" by (auto simp: Let_def)
    then show ?thesis by (intro exI [of _ "c # b"]) auto
  qed
qed simp

lemma skip_spaces_skipped:
  "\<exists>b. p = b @ sk_p (skip_spaces p bol sp n) \<and> sk_line_no (skip_spaces p bol sp n) = n + int (newlines b)"
proof (induction p bol sp n rule: skip_spaces.induct)
  case (1 c p bol sp n)
  show ?case
  proof (cases "tk_is_space_fast c")
    case True
    with 1 obtain b where
      "p = b @ sk_p (skip_spaces p (if c = LF then True else bol) True (if c = LF then n + 1 else n))"
      "sk_line_no (skip_spaces p (if c = LF then True else bol) True (if c = LF then n + 1 else n)) =
       (if c = LF then n + 1 else n) + int (newlines b)" by blast
    with True show ?thesis by (intro exI [of _ "c # b"]) auto
  qed simp
qed simp

lemma newlines_dropWhile: "newlines (takeWhile (\<lambda>c. c \<noteq> LF) p) = 0"
  by (induction p) auto

lemma at_0_nonempty: "at p 0 = c \<Longrightarrow> c \<noteq> NUL \<Longrightarrow> p = c # tl p"
  by (cases p) auto

lemma fallback_line:
  assumes "sk_p st = CHR ''/'' # CHR ''/'' # r"
  shows "tk_skip_ignored_fallback st =
    (case dropWhile (\<lambda>c. c \<noteq> LF) r of
       [] \<Rightarrow> Value (st\<lparr>sk_p := [], sk_has_space := True\<rparr>)
     | x # d \<Rightarrow> Value (st\<lparr>sk_p := d, sk_at_bol := True, sk_has_space := True,
                         sk_line_no := sk_line_no st + 1\<rparr>))"
proof (cases "dropWhile (\<lambda>c. c \<noteq> LF) r")
  case Nil
  show ?thesis unfolding tk_skip_ignored_fallback_def Let_def assms by (simp del: dropWhile_eq_Nil_conv add: Nil)
next
  case (Cons x d)
  then have "x = LF" by (metis (full_types) dropWhile_eq_Cons_conv)
  then show ?thesis unfolding tk_skip_ignored_fallback_def Let_def assms by (simp add: Cons)
qed

lemma fallback_skipped:
  assumes f: "tk_skip_ignored_fallback st = Value st'"
  shows "skipped st st' \<and> (sk_p st' = sk_p st \<longrightarrow> st' = st)"
proof -
  let ?p = "sk_p st" and ?q = "dropWhile (\<lambda>c. c \<noteq> LF) (drop 2 (sk_p st))"
  consider (splice) r where "?p = BSL # LF # r"
    | (line) r where "?p = CHR ''/'' # CHR ''/'' # r" | (block) r where "?p = CHR ''/'' # CHR ''*'' # r"
    | (other) "st' = st"
    using f by (cases ?p; cases "tl ?p") (auto simp: tk_skip_ignored_fallback_def Let_def split: if_splits)
  then show ?thesis
  proof cases
    case splice
    then show ?thesis
      using f by (auto simp: tk_skip_ignored_fallback_def skipped_def intro!: exI [of _ "[BSL, LF]"])
  next
    case (line r)
    let ?t = "takeWhile (\<lambda>c. c \<noteq> LF) r" and ?d = "dropWhile (\<lambda>c. c \<noteq> LF) r"
    have p: "?p = (''//'' @ ?t) @ ?d" using line by simp
    have n: "newlines (''//'' @ ?t) = 0" by (simp add: newlines_dropWhile)
    note l = f [unfolded fallback_line [OF line]]
    show ?thesis
    proof (cases ?d)
      case Nil
      from l [unfolded Nil] have "sk_p st' = []" "sk_line_no st' = sk_line_no st" by auto
      with p [unfolded Nil] n show ?thesis unfolding skipped_def by auto
    next
      case (Cons x d)
      then have "x = LF" by (metis (full_types) dropWhile_eq_Cons_conv)
      moreover from l [unfolded Cons] have "sk_p st' = d" "sk_line_no st' = sk_line_no st + 1" by auto
      ultimately have "?p = ((''//'' @ ?t) @ [LF]) @ sk_p st'"
          "sk_line_no st' = sk_line_no st + int (newlines ((''//'' @ ?t) @ [LF]))"
        using p [unfolded Cons] n by (simp_all del: append_Cons append_assoc)
      then show ?thesis unfolding skipped_def using p [unfolded Cons] by (metis append_eq_append_conv2 self_append_conv2 append_is_Nil_conv not_Cons_self2)
    qed
  next
    case (block r)
    then obtain q bol n where q: "block_comment r (sk_at_bol st) (sk_line_no st) = Some (q, bol, n)"
        "sk_p st' = q" "sk_line_no st' = n"
      using f by (auto simp: tk_skip_ignored_fallback_def split: option.splits)
    from block_comment_skipped [OF q(1)] show ?thesis
      using block q(2,3) by (auto simp: skipped_def intro!: exI [of _ "CHR ''/'' # CHR ''*'' # b" for b])
  next
    case other
    then show ?thesis by simp
  qed
qed

function tk_skip_ignored_ctx :: "skip_t \<Rightarrow> skip_t outcome" where
  "tk_skip_ignored_ctx st0 =
    (let st = skip_spaces (sk_p st0) (sk_at_bol st0) (sk_has_space st0) (sk_line_no st0);
         c = at (sk_p st) 0
     in if c = CHR ''/'' \<or> c = BSL then
          (case tk_skip_ignored_fallback st of
             Value next_st \<Rightarrow>
               if sk_p next_st = sk_p st then Value st else tk_skip_ignored_ctx next_st
           | Refused \<Rightarrow> Refused
           | Undefined \<Rightarrow> Undefined)
        else if 0x80 \<le> byte c \<and> tk_is_space c
          then tk_skip_ignored_ctx (st\<lparr>sk_p := drop 1 (sk_p st), sk_has_space := True\<rparr>)
        else Value st)"
  by pat_completeness auto
termination
proof (relation "measure (\<lambda>st. length (sk_p st))", goal_cases)
  case 1
  then show ?case by simp
next
  case (2 st0 st c next_st)
  have s: "skipped st0 st"
    using skip_spaces_skipped [of "sk_p st0"] 2(1) by (force simp: skipped_def)
  have "skipped st next_st" using fallback_skipped [OF 2(4)] by simp
  then have "length (sk_p next_st) < length (sk_p st)"
    using 2(5) by (auto simp: skipped_def)
  with skipped_length [OF s] show ?case by simp
next
  case (3 st0 st c)
  have s: "skipped st0 st"
    using skip_spaces_skipped [of "sk_p st0"] 3(1) by (force simp: skipped_def)
  have "sk_p st \<noteq> []" using 3(2,4) by auto
  then show ?case using skipped_length [OF s] by (cases "sk_p st") auto
qed

declare tk_skip_ignored_ctx.simps [simp del]

section \<open>Identifiers\<close>

text \<open>
  The length of a UTF-8 identifier character. The loop over the continuation bytes is that of the
  decoder, \<open>utf8_tail\<close>; the terminating NUL is no continuation byte.
\<close>

definition tk_scan_utf8_identifier_char :: "string \<Rightarrow> nat option" where
  "tk_scan_utf8_identifier_char p =
    (let c0 = chr_val (at p 0); c1 = chr_val (at p 1);
         lead = (if 0xC2 \<le> c0 \<and> c0 \<le> 0xDF then Some (2, c0 AND 0x1F)
                 else if 0xE0 \<le> c0 \<and> c0 \<le> 0xEF then Some (3, c0 AND 0x0F)
                 else if 0xF0 \<le> c0 \<and> c0 \<le> 0xF4 then Some (4, c0 AND 0x07)
                 else None)
     in case lead of
          None \<Rightarrow> None
        | Some (len, first) \<Rightarrow>
            (case utf8_tail (len - 1) first (drop 1 p) of
               None \<Rightarrow> None
             | Some (codepoint, rest) \<Rightarrow>
                 if len = 3 \<and> c0 = 0xE0 \<and> c1 < 0xA0 \<or> len = 3 \<and> c0 = 0xED \<and> 0xA0 \<le> c1 \<or>
                    len = 4 \<and> c0 = 0xF0 \<and> c1 < 0x90 \<or> len = 4 \<and> c0 = 0xF4 \<and> 0x90 \<le> c1 \<or>
                    \<not> tk_is_valid_ucn_codepoint codepoint
                 then None
                 else Some len))"

definition tk_scan_ident_start :: "string \<Rightarrow> nat option" where
  "tk_scan_ident_start p =
    (if tk_is_ident_start_byte (at p 0) then Some 1
     else case (if at p 0 = BSL then tk_starts_with_ucn p else None) of
       Some ucn_len \<Rightarrow> Some ucn_len
     | None \<Rightarrow> tk_scan_utf8_identifier_char p)"

definition tk_scan_ident_continue :: "string \<Rightarrow> nat option" where
  "tk_scan_ident_continue p =
    (if tk_is_ident_continue_byte (at p 0) then Some 1
     else case (if at p 0 = BSL then tk_starts_with_ucn p else None) of
       Some ucn_len \<Rightarrow> Some ucn_len
     | None \<Rightarrow> tk_scan_utf8_identifier_char p)"

section \<open>Properties\<close>

lemma byte_eq: "(byte c = n) = (c = char_of n)" if "n < (256 :: nat)"
  using that by (metis char_of_char of_char_of mod_less)

lemma tk_is_space_iff: "tk_is_space c = tk_is_space_fast c"
proof -
  have "tk_is_space c \<longleftrightarrow> byte c \<in> {32, 9, 10, 13, 12, 11 :: nat}"
    by (auto simp: tk_is_space_def)
  also have "\<dots> = tk_is_space_fast c"
    by (simp add: byte_eq tk_is_space_fast_def char_of_def bit_0)
  finally show ?thesis .
qed

lemma skip_spaces_stop: "\<not> tk_is_space_fast (at (sk_p (skip_spaces p bol sp n)) 0)"
  by (induction p bol sp n rule: skip_spaces.induct) (auto simp: tk_is_space_fast_def)

lemma skip_spaces_id:
  "\<not> tk_is_space_fast (at (sk_p st) 0) \<Longrightarrow>
   skip_spaces (sk_p st) (sk_at_bol st) (sk_has_space st) (sk_line_no st) = st"
  by (cases "sk_p st") auto

text \<open>Where the skipper stops, it stays.\<close>

definition settled :: "skip_t \<Rightarrow> bool" where
  "settled st \<longleftrightarrow>
    \<not> tk_is_space_fast (at (sk_p st) 0) \<and>
    (at (sk_p st) 0 = CHR ''/'' \<longrightarrow> at (sk_p st) 1 \<notin> {CHR ''/'', CHR ''*''}) \<and>
    (at (sk_p st) 0 = BSL \<longrightarrow> at (sk_p st) 1 \<noteq> LF)"

lemma settled_fallback: "settled st \<Longrightarrow> tk_skip_ignored_fallback st = Value st"
  by (auto simp: settled_def tk_skip_ignored_fallback_def)

lemma settled_skip: "settled st \<Longrightarrow> tk_skip_ignored_ctx st = Value st"
  using settled_fallback [of st] skip_spaces_id [of st]
  by (auto simp: tk_skip_ignored_ctx.simps [of st] settled_def tk_is_space_iff Let_def)

lemma fallback_settles:
  assumes f: "tk_skip_ignored_fallback st = Value st'" "sk_p st' = sk_p st"
    and s: "\<not> tk_is_space_fast (at (sk_p st) 0)"
  shows "settled st"
proof (rule ccontr)
  assume "\<not> settled st"
  then consider (splice) r where "sk_p st = BSL # LF # r"
    | (line) r where "sk_p st = CHR ''/'' # CHR ''/'' # r"
    | (block) r where "sk_p st = CHR ''/'' # CHR ''*'' # r"
    using s by (cases "sk_p st"; cases "tl (sk_p st)") (auto simp: settled_def)
  then have "length (sk_p st') < length (sk_p st)"
  proof cases
    case splice
    then show ?thesis using f(1) by (auto simp: tk_skip_ignored_fallback_def)
  next
    case (line r)
    have "length (dropWhile (\<lambda>c. c \<noteq> LF) r) \<le> length r" by (rule length_dropWhile_le)
    with f(1) [unfolded fallback_line [OF line]] show ?thesis
      using line by (auto simp del: dropWhile_eq_Nil_conv split: list.splits)
  next
    case (block r)
    then obtain q bol n where q: "block_comment r (sk_at_bol st) (sk_line_no st) = Some (q, bol, n)"
        "sk_p st' = q"
      using f by (auto simp: tk_skip_ignored_fallback_def split: option.splits)
    from block_comment_skipped [OF q(1)] show ?thesis using block q(2) by auto
  qed
  with f(2) show False by simp
qed

lemma skip_ignored_settled:
  "tk_skip_ignored_ctx st = Value st' \<Longrightarrow> skipped st st' \<and> settled st'"
proof (induction st arbitrary: st' rule: tk_skip_ignored_ctx.induct)
  case (1 st0)
  define st where "st = skip_spaces (sk_p st0) (sk_at_bol st0) (sk_has_space st0) (sk_line_no st0)"
  have s: "skipped st0 st"
    using skip_spaces_skipped [of "sk_p st0"] by (force simp: skipped_def st_def)
  have n: "\<not> tk_is_space_fast (at (sk_p st) 0)" using skip_spaces_stop by (simp add: st_def)
  note r = "1.prems" [unfolded tk_skip_ignored_ctx.simps [of st0] Let_def, folded st_def]
  show ?case
  proof (cases "at (sk_p st) 0 = CHR ''/'' \<or> at (sk_p st) 0 = BSL")
    case True
    then obtain st1 where f: "tk_skip_ignored_fallback st = Value st1"
      using r by (auto split: outcome.splits)
    show ?thesis
    proof (cases "sk_p st1 = sk_p st")
      case eq: True
      then show ?thesis using r True f s fallback_settles [OF f eq n] by auto
    next
      case False
      have "skipped st1 st' \<and> settled st'"
        using "1.IH"(1) [OF st_def refl True f False] r True f False by auto
      then show ?thesis
        using s fallback_skipped [OF f] by (blast intro: skipped_trans)
    qed
  next
    case False
    then have "st' = st" using r n by (auto simp: tk_is_space_iff)
    then show ?thesis using s n False by (auto simp: settled_def)
  qed
qed

text \<open>
  Ignored text is skipped to the start of a token with an exact line count: whatever the skipper
  accepts is a piece of the text in front of the new cursor, the line number grows by the newlines
  in that piece, and what follows is the end or neither white space, a comment nor a splice, so
  that skipping again changes nothing.
\<close>

theorem skip_ignored_exact:
  assumes "tk_skip_ignored_ctx st = Value st'"
  shows "(\<exists>b. sk_p st = b @ sk_p st' \<and> sk_line_no st' = sk_line_no st + int (newlines b)) \<and>
    \<not> tk_is_space (at (sk_p st') 0) \<and>
    (at (sk_p st') 0 = CHR ''/'' \<longrightarrow> at (sk_p st') 1 \<notin> {CHR ''/'', CHR ''*''}) \<and>
    line_splice_byte_count (sk_p st') \<noteq> 2 \<and>
    tk_skip_ignored_ctx st' = Value st'"
  using skip_ignored_settled [OF assms] settled_skip [of st']
  by (auto simp: skipped_def settled_def tk_is_space_iff line_splice_byte_count_def)

lemma skip_ignored_exact_witness:
  "\<exists>b st'. tk_skip_ignored_ctx \<lparr>sk_p = [LF] @ ''/* x'' @ [LF] @ ''*/ int'', sk_at_bol = False,
      sk_has_space = False, sk_line_no = 1\<rparr> = Value st' \<and>
    [LF] @ ''/* x'' @ [LF] @ ''*/ int'' = b @ sk_p st' \<and> sk_p st' = ''int'' \<and> sk_line_no st' = 3"
proof -
  have "tk_skip_ignored_ctx \<lparr>sk_p = [LF] @ ''/* x'' @ [LF] @ ''*/ int'', sk_at_bol = False,
      sk_has_space = False, sk_line_no = 1\<rparr> =
    Value \<lparr>sk_p = ''int'', sk_at_bol = True, sk_has_space = True, sk_line_no = 3\<rparr>"
    by code_simp
  from skip_ignored_exact [OF this] this show ?thesis by auto
qed

text \<open>Code points as numbers.\<close>

lemma unat_chr_val: "unat (chr_val c) = byte c"
proof -
  have "byte c < (2 ^ LENGTH(32) :: nat)"
    by (rule order.strict_trans [OF byte_less]) simp
  then show ?thesis unfolding unat_of_nat by (rule mod_less)
qed

lemma or_add:
  fixes a x m :: u32
  assumes "a AND m = 0" "x AND m = x"
  shows "a OR x = a + x"
proof -
  have "a AND x = (a AND m) AND x" by (subst assms(2) [symmetric]) (simp only: ac_simps)
  then show ?thesis using assms(1) word_plus_and_or [of a x] by simp
qed

lemma and_63: "(w AND 0x3F) = take_bit 6 (w :: u32)" "unat (w AND 0x3F) < 64"
proof -
  show e: "(w AND 0x3F) = take_bit 6 w" by (simp add: take_bit_eq_mask mask_eq_exp_minus_1)
  show "unat (w AND 0x3F) < 64" unfolding e by (simp add: take_bit_eq_mod unat_mod)
qed

lemma unat_join:
  assumes "unat (y :: u32) < 2 ^ 20"
  shows "unat (push_bit 6 y OR (w AND 0x3F)) = unat y * 64 + unat (w AND 0x3F)"
proof -
  have "push_bit 6 y AND 0x3F = 0" unfolding and_63 by (rule bit_word_eqI) (auto simp: bit_simps)
  then have "push_bit 6 y OR (w AND 0x3F) = push_bit 6 y + (w AND 0x3F)"
    by (rule or_add) (simp add: and.assoc)
  moreover have "push_bit 6 y = y * 64" by (simp add: push_bit_eq_mult)
  ultimately show ?thesis
    using assms and_63(2) [of w] by (simp add: unat_word_ariths)
qed

lemma continuation_value:
  assumes "chr_val c AND 0xC0 = 0x80"
  shows "unat (chr_val c) = 128 + unat (chr_val c AND 0x3F)"
proof -
  have f: "chr_val c AND 0xFF = chr_val c"
    using less_mask_eq [of "chr_val c" 8] by (simp add: mask_eq_exp_minus_1 word_less_nat_alt unat_chr_val)
  have "(chr_val c AND 0xC0) OR (chr_val c AND 0x3F) = chr_val c AND 0xFF"
    by (simp flip: bit.conj_disj_distrib)
  also have "(chr_val c AND 0xC0) OR (chr_val c AND 0x3F) = (chr_val c AND 0xC0) + (chr_val c AND 0x3F)"
    by (rule or_add [where m = "0x3F"]) (simp_all add: and.assoc)
  finally have "chr_val c = 0x80 + (chr_val c AND 0x3F)" unfolding f assms ..
  then have "unat (chr_val c) = unat (0x80 + (chr_val c AND 0x3F))" by (rule arg_cong)
  then show ?thesis using and_63(2) [of "chr_val c"] by (simp add: unat_word_ariths del: of_nat_unat)
qed

lemma utf8_tail_Nil: "0 < k \<Longrightarrow> utf8_tail k cp [] = None"
  by (cases k) auto

lemma lead_value:
  fixes c0 :: u32
  shows "0xC2 \<le> c0 \<Longrightarrow> c0 \<le> 0xDF \<Longrightarrow>
      \<not> c0 < 0x80 \<and> c0 AND 0xE0 = 0xC0 \<and> unat (c0 AND 0x1F) = unat c0 - 0xC0"
    and "0xE0 \<le> c0 \<Longrightarrow> c0 \<le> 0xEF \<Longrightarrow>
      \<not> c0 < 0x80 \<and> c0 AND 0xE0 = 0xE0 \<and> c0 AND 0xF0 = 0xE0 \<and> unat (c0 AND 0x0F) = unat c0 - 0xE0"
    and "0xF0 \<le> c0 \<Longrightarrow> c0 \<le> 0xF4 \<Longrightarrow>
      \<not> c0 < 0x80 \<and> c0 AND 0xE0 = 0xE0 \<and> c0 AND 0xF0 = 0xF0 \<and> c0 AND 0xF8 = 0xF0 \<and>
      unat (c0 AND 0x07) = unat c0 - 0xF0"
proof -
  have u: "unat (c0 - k) = unat c0 - unat k" if "k \<le> c0" for k
    using that by (simp add: unat_sub)
  have s: "k OR (c0 - k) = c0" if "k AND m = 0" "(c0 - k) AND m = c0 - k" for k m
    using or_add [OF that] by simp
  {
    assume r: "0xC2 \<le> c0" "c0 \<le> 0xDF"
    then have "0xC0 \<le> c0" by (simp add: word_le_nat_alt)
    then have m: "(c0 - 0xC0) AND 0x1F = c0 - 0xC0"
      using r u [of "0xC0"] low_bits(2) by (simp add: word_le_nat_alt word_less_nat_alt)
    show "\<not> c0 < 0x80 \<and> c0 AND 0xE0 = 0xC0 \<and> unat (c0 AND 0x1F) = unat c0 - 0xC0"
      using lead_bytes(2-4) [of "c0 - 0xC0", unfolded m] s [of "0xC0" "0x1F"] m
        u [OF \<open>0xC0 \<le> c0\<close>] by simp
  next
    assume r: "0xE0 \<le> c0" "c0 \<le> 0xEF"
    then have m: "(c0 - 0xE0) AND 0x0F = c0 - 0xE0"
      using u [of "0xE0"] low_bits(3) by (simp add: word_le_nat_alt word_less_nat_alt)
    show "\<not> c0 < 0x80 \<and> c0 AND 0xE0 = 0xE0 \<and> c0 AND 0xF0 = 0xE0 \<and> unat (c0 AND 0x0F) = unat c0 - 0xE0"
      using lead_bytes(6-9) [of "c0 - 0xE0", unfolded m] s [of "0xE0" "0x0F"] m u [OF r(1)] by simp
  next
    assume r: "0xF0 \<le> c0" "c0 \<le> 0xF4"
    then have m: "(c0 - 0xF0) AND 0x07 = c0 - 0xF0"
      using u [of "0xF0"] low_bits(4) by (simp add: word_le_nat_alt word_less_nat_alt)
    show "\<not> c0 < 0x80 \<and> c0 AND 0xE0 = 0xE0 \<and> c0 AND 0xF0 = 0xF0 \<and> c0 AND 0xF8 = 0xF0 \<and>
        unat (c0 AND 0x07) = unat c0 - 0xF0"
      using lead_bytes(11-15) [of "c0 - 0xF0", unfolded m] s [of "0xF0" "0x07"] m u [OF r(1)] by simp
  }
qed

lemma encode_length:
  "length (tk_encode_utf8 cp) =
    (if unat cp < 0x80 then 1 else if unat cp < 0x800 then 2 else if unat cp < 0x10000 then 3 else 4)"
  by (simp add: tk_encode_utf8_def word_le_nat_alt)

text \<open>
  A UTF-8 character in an identifier is well formed: what the scanner accepts decodes to a code
  point that the rules for universal character names allow, and takes exactly the bytes of its
  shortest encoding.
\<close>

theorem utf8_identifier_char_wf:
  assumes "tk_scan_utf8_identifier_char p = Some n"
  shows "\<exists>cp. tk_decode_utf8 p = (cp, drop n p) \<and> tk_is_valid_ucn_codepoint cp \<and>
    n = length (tk_encode_utf8 cp) \<and> n \<le> length p"
proof -
  obtain a q where p: "p = a # q"
    using assms by (cases p) (auto simp: tk_scan_utf8_identifier_char_def)
  note scan = assms [unfolded p tk_scan_utf8_identifier_char_def at_Cons_0 at_Cons_1 Let_def]
  consider (2) "0xC2 \<le> chr_val a" "chr_val a \<le> 0xDF"
    | (3) "0xE0 \<le> chr_val a" "chr_val a \<le> 0xEF" | (4) "0xF0 \<le> chr_val a" "chr_val a \<le> 0xF4"
    using scan by (auto split: if_splits)
  then show ?thesis
  proof cases
    case 2
    note l = lead_value(1) [OF 2]
    from 2 scan obtain cp r where t: "utf8_tail 1 (chr_val a AND 0x1F) q = Some (cp, r)"
        and n: "n = 2" and v: "tk_is_valid_ucn_codepoint cp"
      by (auto split: option.splits if_splits)
    from t obtain b where q: "q = b # r" and b: "chr_val b AND 0xC0 = 0x80"
        and cp: "cp = push_bit 6 (chr_val a AND 0x1F) OR (chr_val b AND 0x3F)"
      by (cases q) (auto simp: utf8_tail_numeral split: if_splits)
    have "unat cp = (unat (chr_val a) - 0xC0) * 64 + unat (chr_val b AND 0x3F)"
      using l 2 unat_join [of "chr_val a AND 0x1F" "chr_val b"] by (simp add: cp word_le_nat_alt)
    with 2 and_63(2) [of "chr_val b"] have "128 \<le> unat cp \<and> unat cp < 2048"
      unfolding word_le_nat_alt by simp linarith
    then have "length (tk_encode_utf8 cp) = 2" by (simp add: encode_length)
    moreover have "tk_decode_utf8 p = (cp, r)" using l t by (simp add: p tk_decode_utf8_def)
    ultimately show ?thesis using v n p q by simp
  next
    case 3
    note l = lead_value(2) [OF 3]
    have "\<not> chr_val a \<le> 0xDF" using 3 by (simp add: word_le_nat_alt)
    with 3 scan obtain cp r where t: "utf8_tail 2 (chr_val a AND 0x0F) q = Some (cp, r)"
        and n: "n = 3" and v: "tk_is_valid_ucn_codepoint cp"
        and e0: "chr_val a = 0xE0 \<longrightarrow> 0xA0 \<le> chr_val (at q 0)"
      by (auto simp: linorder_not_less split: option.splits if_splits)
    from t obtain b c where q: "q = b # c # r" and b: "chr_val b AND 0xC0 = 0x80"
        and cp: "cp = push_bit 6 (push_bit 6 (chr_val a AND 0x0F) OR (chr_val b AND 0x3F)) OR
          (chr_val c AND 0x3F)"
      by (cases q; cases "tl q") (auto simp: utf8_tail_numeral utf8_tail_Nil split: if_splits)
    have u: "unat cp = ((unat (chr_val a) - 0xE0) * 64 + unat (chr_val b AND 0x3F)) * 64 +
        unat (chr_val c AND 0x3F)"
      using l 3 unat_join [of "chr_val a AND 0x0F" "chr_val b"] and_63(2) [of "chr_val b"]
        unat_join [of "push_bit 6 (chr_val a AND 0x0F) OR (chr_val b AND 0x3F)" "chr_val c"]
      by (simp add: cp word_le_nat_alt)
    have "unat (chr_val a) = 0xE0 \<Longrightarrow> 0x20 \<le> unat (chr_val b AND 0x3F)"
      using e0 continuation_value [OF b] by (simp add: q word_le_nat_alt word_unat_eq_iff)
    with u 3 and_63(2) [of "chr_val b"] and_63(2) [of "chr_val c"]
    have "2048 \<le> unat cp \<and> unat cp < 65536"
      unfolding word_le_nat_alt by (cases "unat (chr_val a) = 0xE0") (simp_all, linarith)
    then have "length (tk_encode_utf8 cp) = 3" by (simp add: encode_length)
    moreover have "tk_decode_utf8 p = (cp, r)" using l t by (simp add: p tk_decode_utf8_def)
    ultimately show ?thesis using v n p q by simp
  next
    case 4
    note l = lead_value(3) [OF 4]
    have "\<not> chr_val a \<le> 0xDF" "\<not> chr_val a \<le> 0xEF" using 4 by (simp_all add: word_le_nat_alt)
    with 4 scan obtain cp r where t: "utf8_tail 3 (chr_val a AND 0x07) q = Some (cp, r)"
        and n: "n = 4" and v: "tk_is_valid_ucn_codepoint cp"
        and f0: "chr_val a = 0xF0 \<longrightarrow> 0x90 \<le> chr_val (at q 0)"
      by (auto simp: linorder_not_less split: option.splits if_splits)
    from t obtain b c d where q: "q = b # c # d # r" and b: "chr_val b AND 0xC0 = 0x80"
        and cp: "cp = push_bit 6 (push_bit 6 (push_bit 6 (chr_val a AND 0x07) OR
          (chr_val b AND 0x3F)) OR (chr_val c AND 0x3F)) OR (chr_val d AND 0x3F)"
      by (cases q; cases "tl q"; cases "tl (tl q)")
         (auto simp: utf8_tail_numeral utf8_tail_Nil split: if_splits)
    have u: "unat cp = (((unat (chr_val a) - 0xF0) * 64 + unat (chr_val b AND 0x3F)) * 64 +
        unat (chr_val c AND 0x3F)) * 64 + unat (chr_val d AND 0x3F)"
      using l 4 unat_join [of "chr_val a AND 0x07" "chr_val b"] and_63(2) [of "chr_val b"]
        unat_join [of "push_bit 6 (chr_val a AND 0x07) OR (chr_val b AND 0x3F)" "chr_val c"]
        and_63(2) [of "chr_val c"]
        unat_join [of "push_bit 6 (push_bit 6 (chr_val a AND 0x07) OR (chr_val b AND 0x3F)) OR
          (chr_val c AND 0x3F)" "chr_val d"]
      by (simp add: cp word_le_nat_alt)
    have "unat (chr_val a) = 0xF0 \<Longrightarrow> 0x10 \<le> unat (chr_val b AND 0x3F)"
      using f0 continuation_value [OF b] by (simp add: q word_le_nat_alt word_unat_eq_iff)
    with u 4 have "65536 \<le> unat cp"
      unfolding word_le_nat_alt by (cases "unat (chr_val a) = 0xF0") simp_all
    then have "length (tk_encode_utf8 cp) = 4" by (simp add: encode_length)
    moreover have "tk_decode_utf8 p = (cp, r)" using l t by (simp add: p tk_decode_utf8_def)
    ultimately show ?thesis using v n p q by simp
  qed
qed

lemma utf8_identifier_char_wf_witness:
  "\<exists>cp. tk_decode_utf8 (map byte_char [0xC3, 0xA9] @ ''x'') = (cp, ''x'') \<and>
    tk_is_valid_ucn_codepoint cp \<and> 2 = length (tk_encode_utf8 cp)"
proof -
  have "tk_scan_utf8_identifier_char (map byte_char [0xC3, 0xA9] @ ''x'') = Some 2" by code_simp
  from utf8_identifier_char_wf [OF this] show ?thesis by simp
qed

end
