(* ===== verification/Numbers.thy ===== *)
theory Numbers
  imports Scanner
begin

text \<open>
  Numeric literals, \<^verbatim>\<open>tokenizer/number.c\<close>. A diagnostic is \<open>Refused\<close>. The conversion of the
  digits of a floating literal is the \<^verbatim>\<open>strtod\<close> of the host: a parameter that maps the text at the
  cursor to the bits of the \<^verbatim>\<open>double\<close> and the number of characters consumed. The audit message for
  binary literals is printed and nothing else; it is left out.
\<close>

datatype tk_float_kind_t =
  TK_FLOAT_KIND_NONE | TK_FLOAT_KIND_FLOAT | TK_FLOAT_KIND_DOUBLE | TK_FLOAT_KIND_LONG_DOUBLE

datatype tk_float_suffix_kind_t = TK_FLOAT_SUFFIX_NONE | TK_FLOAT_SUFFIX_F | TK_FLOAT_SUFFIX_L

datatype tk_int_size_t = TK_INT_SIZE_INT | TK_INT_SIZE_LONG | TK_INT_SIZE_LONG_LONG

type_synonym strtod_t = "string \<Rightarrow> i64 \<times> nat"

record parsed_num_t =
  pn_val :: int
  pn_uval :: i64
  pn_fval :: i64
  pn_fp_kind :: tk_float_kind_t
  pn_float_suffix_kind :: tk_float_suffix_kind_t
  pn_int_size :: tk_int_size_t
  pn_char_width :: nat
  pn_char_prefix_kind :: tk_char_prefix_kind_t
  pn_is_unsigned :: bool
  pn_int_base :: nat

text \<open>The zero-initialised record.\<close>

definition parsed_zero :: parsed_num_t where
  "parsed_zero =
    \<lparr>pn_val = 0, pn_uval = 0, pn_fval = 0, pn_fp_kind = TK_FLOAT_KIND_NONE,
     pn_float_suffix_kind = TK_FLOAT_SUFFIX_NONE, pn_int_size = TK_INT_SIZE_INT, pn_char_width = 0,
     pn_char_prefix_kind = TK_CHAR_PREFIX_NONE, pn_is_unsigned = False, pn_int_base = 0\<rparr>"

section \<open>The type of an integer literal\<close>

definition tk_is_binary_literal_enabled_in_ctx :: "tokenizer_context_t \<Rightarrow> bool" where
  "tk_is_binary_literal_enabled_in_ctx ctx \<longleftrightarrow>
    \<not> tc_strict_c11_mode ctx \<and> tc_enable_binary_literals ctx"

text \<open>A chain of tests of \<open>val\<close> against limits, each of which sets signedness and size.\<close>

definition first_fit ::
    "(int \<times> bool \<times> tk_int_size_t) list \<Rightarrow> i64 \<Rightarrow> parsed_num_t \<Rightarrow> parsed_num_t outcome" where
  "first_fit limits val num =
    (case find (\<lambda>(limit, is_unsigned, int_size). uint val \<le> limit) limits of
       None \<Rightarrow> Refused
     | Some (limit, is_unsigned, int_size) \<Rightarrow>
         Value (num\<lparr>pn_is_unsigned := is_unsigned, pn_int_size := int_size\<rparr>))"

definition choose_int_type ::
    "parsed_num_t \<Rightarrow> i64 \<Rightarrow> bool \<Rightarrow> bool \<Rightarrow> nat \<Rightarrow> parsed_num_t outcome" where
  "choose_int_type num val is_decimal has_u long_cnt =
    (if \<not> has_u \<and> long_cnt = 0 then
       first_fit
         (if is_decimal then
            [(INT_MAX, False, TK_INT_SIZE_INT), (LONG_MAX, False, TK_INT_SIZE_LONG),
             (LLONG_MAX, False, TK_INT_SIZE_LONG_LONG)]
          else
            [(INT_MAX, False, TK_INT_SIZE_INT), (UINT_MAX, True, TK_INT_SIZE_INT),
             (LONG_MAX, False, TK_INT_SIZE_LONG), (ULONG_MAX, True, TK_INT_SIZE_LONG),
             (LLONG_MAX, False, TK_INT_SIZE_LONG_LONG), (ULLONG_MAX, True, TK_INT_SIZE_LONG_LONG)])
         val num
     else if has_u \<and> long_cnt = 0 then
       first_fit
         [(UINT_MAX, True, TK_INT_SIZE_INT), (ULONG_MAX, True, TK_INT_SIZE_LONG),
          (ULLONG_MAX, True, TK_INT_SIZE_LONG_LONG)] val num
     else if \<not> has_u \<and> long_cnt = 1 then
       first_fit
         (if is_decimal then
            [(LONG_MAX, False, TK_INT_SIZE_LONG), (LLONG_MAX, False, TK_INT_SIZE_LONG_LONG)]
          else
            [(LONG_MAX, False, TK_INT_SIZE_LONG), (ULONG_MAX, True, TK_INT_SIZE_LONG),
             (LLONG_MAX, False, TK_INT_SIZE_LONG_LONG), (ULLONG_MAX, True, TK_INT_SIZE_LONG_LONG)])
         val num
     else if has_u \<and> long_cnt = 1 then
       first_fit
         [(ULONG_MAX, True, TK_INT_SIZE_LONG), (ULLONG_MAX, True, TK_INT_SIZE_LONG_LONG)] val num
     else if \<not> has_u \<and> long_cnt = 2 then
       first_fit
         (if is_decimal then [(LLONG_MAX, False, TK_INT_SIZE_LONG_LONG)]
          else
            [(LLONG_MAX, False, TK_INT_SIZE_LONG_LONG), (ULLONG_MAX, True, TK_INT_SIZE_LONG_LONG)])
         val num
     else if has_u \<and> long_cnt = 2 then
       first_fit [(ULLONG_MAX, True, TK_INT_SIZE_LONG_LONG)] val num
     else Value num)"

lemma at_0_shorter: "at p 0 = c \<Longrightarrow> c \<noteq> NUL \<Longrightarrow> 0 < k \<Longrightarrow> length p - k < length p"
  by (cases p) auto

text \<open>The suffix loop: the rest, whether \<open>u\<close> was seen, the number of \<open>l\<close>.\<close>

function int_suffix :: "string \<Rightarrow> bool \<Rightarrow> nat \<Rightarrow> (string \<times> bool \<times> nat) outcome" where
  "int_suffix p seen_u long_cnt =
    (if at p 0 = CHR ''u'' \<or> at p 0 = CHR ''U'' then
       (if seen_u then Refused else int_suffix (drop 1 p) True long_cnt)
     else if at p 0 = CHR ''l'' \<or> at p 0 = CHR ''L'' then
       (if at p 1 = CHR ''l'' \<or> at p 1 = CHR ''L'' then
          (if long_cnt = 2 then Refused else int_suffix (drop 2 p) seen_u 2)
        else (if long_cnt = 2 then Refused else int_suffix (drop 1 p) seen_u 1))
     else Value (p, seen_u, long_cnt))"
  by pat_completeness auto
termination
  by (relation "measure (\<lambda>(p, seen_u, long_cnt). length p)") (auto intro: at_0_shorter)

declare int_suffix.simps [simp del]

definition parse_int_suffix ::
    "parsed_num_t \<Rightarrow> string \<Rightarrow> i64 \<Rightarrow> bool \<Rightarrow> (parsed_num_t \<times> string) outcome" where
  "parse_int_suffix num p0 val is_decimal =
    outcome_bind (int_suffix p0 False 0) (\<lambda>(p, seen_u, long_cnt).
      if tk_is_ident_start_byte (at p 0) then Refused
      else map_outcome (\<lambda>num1. (num1, p)) (choose_int_type num val is_decimal seen_u long_cnt))"

section \<open>Digits\<close>

definition digit_value :: "char \<Rightarrow> nat option" where
  "digit_value c =
    (if 48 \<le> byte c \<and> byte c \<le> (57 :: nat) then Some (byte c - 48)
     else if 97 \<le> byte c \<and> byte c \<le> (102 :: nat) then Some (byte c - 97 + 10)
     else if 65 \<le> byte c \<and> byte c \<le> (70 :: nat) then Some (byte c - 65 + 10)
     else None)"

definition digit_overflows :: "i64 \<Rightarrow> nat \<Rightarrow> nat \<Rightarrow> bool" where
  "digit_overflows val digit base \<longleftrightarrow> val > (0xFFFFFFFFFFFFFFFF - of_nat digit) div of_nat base"

fun digit_loop :: "nat \<Rightarrow> i64 \<Rightarrow> bool \<Rightarrow> string \<Rightarrow> (i64 \<times> bool \<times> string) outcome" where
  "digit_loop base val has_digit [] = Value (val, has_digit, [])"
| "digit_loop base val has_digit (c # p) =
    (case digit_value c of
       None \<Rightarrow> Value (val, has_digit, c # p)
     | Some digit \<Rightarrow>
         if digit \<ge> base then Value (val, has_digit, c # p)
         else if digit_overflows val digit base then Refused
         else digit_loop base (val * of_nat base + of_nat digit) True p)"

definition parse_digits :: "string \<Rightarrow> nat \<Rightarrow> (i64 \<times> string) outcome" where
  "parse_digits p base =
    outcome_bind (digit_loop base 0 False p) (\<lambda>(val, has_digit, q).
      if \<not> has_digit then Refused else Value (val, q))"

definition token_signed_from_u64 :: "i64 \<Rightarrow> int" where
  "token_signed_from_u64 uval =
    (if uint uval \<le> LLONG_MAX then uint uval
     else uint (uval - word_of_int LLONG_MAX - 1) + LLONG_MIN)"

text \<open>The decimal loop; \<open>None\<close> is its overflow exit.\<close>

fun fast_digits :: "i64 \<Rightarrow> string \<Rightarrow> (i64 \<times> string) option" where
  "fast_digits val [] = Some (val, [])"
| "fast_digits val (c # p) =
    (if tk_is_digit c then
       (let digit = byte c - 48
        in if digit_overflows val digit 10 then None
           else fast_digits (val * 10 + of_nat digit) p)
     else Some (val, c # p))"

definition int_result :: "parsed_num_t \<Rightarrow> i64 \<Rightarrow> nat \<Rightarrow> parsed_num_t" where
  "int_result num val base =
    num\<lparr>pn_uval := val, pn_val := token_signed_from_u64 val, pn_fp_kind := TK_FLOAT_KIND_NONE,
        pn_float_suffix_kind := TK_FLOAT_SUFFIX_NONE, pn_int_base := base\<rparr>"

definition ends_number :: "string \<Rightarrow> bool" where
  "ends_number p \<longleftrightarrow> \<not> (at p 0 = CHR ''.'' \<or> tk_scan_ident_continue p \<noteq> None)"

definition try_parse_decimal_int_fast ::
    "string \<Rightarrow> parsed_num_t \<Rightarrow> (parsed_num_t \<times> string) option outcome" where
  "try_parse_decimal_int_fast p0 num =
    (if \<not> tk_is_digit (at p0 0) then Value None
     else case fast_digits 0 p0 of
       None \<Rightarrow> Value None
     | Some (val, p) \<Rightarrow>
         if at p 0 = CHR ''.'' \<or> at p 0 = CHR ''e'' \<or> at p 0 = CHR ''E'' then Value None
         else
           outcome_bind
             (if at p 0 \<in> set ''uUlL'' then parse_int_suffix (int_result num val 10) p val True
              else map_outcome (\<lambda>num1. (num1, p))
                (choose_int_type (int_result num val 10) val True False 0))
             (\<lambda>(num1, p1). if \<not> ends_number p1 then Refused else Value (Some (num1, p1))))"

section \<open>Floating literals\<close>

definition has_decimal_float_marker :: "string \<Rightarrow> bool" where
  "has_decimal_float_marker p \<longleftrightarrow>
    at p 0 = CHR ''.'' \<or>
    (let q = dropWhile tk_is_digit p
     in at q 0 = CHR ''.'' \<or> at q 0 = CHR ''e'' \<or> at q 0 = CHR ''E'')"

fun hex_float_marker :: "string \<Rightarrow> bool" where
  "hex_float_marker [] = False"
| "hex_float_marker (c # q) =
    (if c = CHR ''.'' \<or> c = CHR ''p'' \<or> c = CHR ''P'' then True
     else if \<not> tk_is_xdigit c then False
     else hex_float_marker q)"

definition has_hex_float_marker :: "string \<Rightarrow> bool" where
  "has_hex_float_marker p = hex_float_marker (drop 2 p)"

definition parse_float_suffix :: "parsed_num_t \<Rightarrow> string \<Rightarrow> (parsed_num_t \<times> string) outcome" where
  "parse_float_suffix num p =
    (let (num1, q) =
       (if at p 0 = CHR ''f'' \<or> at p 0 = CHR ''F''
          then (num\<lparr>pn_fp_kind := TK_FLOAT_KIND_FLOAT, pn_float_suffix_kind := TK_FLOAT_SUFFIX_F\<rparr>, drop 1 p)
        else if at p 0 = CHR ''l'' \<or> at p 0 = CHR ''L''
          then (num\<lparr>pn_fp_kind := TK_FLOAT_KIND_LONG_DOUBLE, pn_float_suffix_kind := TK_FLOAT_SUFFIX_L\<rparr>,
                drop 1 p)
        else (num\<lparr>pn_fp_kind := TK_FLOAT_KIND_DOUBLE, pn_float_suffix_kind := TK_FLOAT_SUFFIX_NONE\<rparr>, p))
     in if tk_is_ident_start_byte (at q 0) then Refused else Value (num1, q))"

definition parse_float_literal ::
    "strtod_t \<Rightarrow> parsed_num_t \<Rightarrow> string \<Rightarrow> bool \<Rightarrow> (parsed_num_t \<times> string) outcome" where
  "parse_float_literal strtod num p is_hex =
    (let (fval, consumed) = strtod p
     in if is_hex \<and> consumed = 0 then Refused
        else parse_float_suffix (num\<lparr>pn_fval := fval\<rparr>) (drop consumed p))"

section \<open>Numbers\<close>

definition parse_integer_literal_with_base ::
    "parsed_num_t \<Rightarrow> string \<Rightarrow> nat \<Rightarrow> bool \<Rightarrow> (parsed_num_t \<times> string) outcome" where
  "parse_integer_literal_with_base num p base is_decimal =
    outcome_bind (parse_digits p base) (\<lambda>(val, q).
      parse_int_suffix (int_result num val base) q val is_decimal)"

text \<open>\<open>Value None\<close>: the text does not start with a prefixed zero.\<close>

definition parse_zero_prefixed_number ::
    "strtod_t \<Rightarrow> tokenizer_context_t \<Rightarrow> parsed_num_t \<Rightarrow> string \<Rightarrow>
     (parsed_num_t \<times> string) option outcome" where
  "parse_zero_prefixed_number strtod ctx num p =
    (if at p 0 \<noteq> CHR ''0'' then Value None
     else if at p 1 = CHR ''x'' \<or> at p 1 = CHR ''X'' then
       (if has_hex_float_marker p then map_outcome Some (parse_float_literal strtod num p True)
        else if \<not> tk_is_xdigit (at p 2) then Refused
        else map_outcome Some (parse_integer_literal_with_base num (drop 2 p) 16 False))
     else if at p 1 = CHR ''b'' \<or> at p 1 = CHR ''B'' then
       (if \<not> tk_is_binary_literal_enabled_in_ctx ctx then Refused
        else if at p 2 \<noteq> CHR ''0'' \<and> at p 2 \<noteq> CHR ''1'' then Refused
        else map_outcome Some (parse_integer_literal_with_base num (drop 2 p) 2 False))
     else if tk_is_digit (at p 1) then
       (if at p 1 = CHR ''8'' \<or> at p 1 = CHR ''9'' then Refused
        else if tk_is_octal_digit (at p 1)
          then map_outcome Some (parse_integer_literal_with_base num p 8 False)
        else map_outcome Some (parse_int_suffix (int_result num 0 8) (drop 1 p) 0 False))
     else Value None)"

definition tk_parse_number_literal_ctx ::
    "strtod_t \<Rightarrow> tokenizer_context_t \<Rightarrow> string \<Rightarrow> parsed_num_t \<Rightarrow> (parsed_num_t \<times> string) outcome" where
  "tk_parse_number_literal_ctx strtod ctx p num =
    outcome_bind (parse_zero_prefixed_number strtod ctx num p) (\<lambda>zero_prefixed.
      case zero_prefixed of
        Some r \<Rightarrow> Value r
      | None \<Rightarrow>
          outcome_bind (try_parse_decimal_int_fast p num) (\<lambda>fast.
            case fast of
              Some r \<Rightarrow> Value r
            | None \<Rightarrow>
                outcome_bind
                  (if has_decimal_float_marker p then parse_float_literal strtod num p False
                   else parse_integer_literal_with_base num p 10 True)
                  (\<lambda>(num1, q). if \<not> ends_number q then Refused else Value (num1, q))))"

section \<open>Values of digit sequences\<close>

definition is_digit_of :: "nat \<Rightarrow> char \<Rightarrow> bool" where
  "is_digit_of base c = (case digit_value c of None \<Rightarrow> False | Some d \<Rightarrow> d < base)"

definition digits_value :: "nat \<Rightarrow> nat \<Rightarrow> string \<Rightarrow> nat" where
  "digits_value base acc ds = foldl (\<lambda>acc c. acc * base + the (digit_value c)) acc ds"

lemma digits_value_simps [simp]:
  "digits_value base acc [] = acc"
  "digits_value base acc (c # ds) = digits_value base (acc * base + the (digit_value c)) ds"
  by (simp_all add: digits_value_def)

lemma digits_value_mono: "0 < base \<Longrightarrow> acc \<le> digits_value base acc ds"
proof (induction ds arbitrary: acc)
  case (Cons c ds)
  have "acc \<le> acc * base + the (digit_value c)" using Cons.prems by (simp add: trans_le_add1)
  also have "\<dots> \<le> digits_value base (acc * base + the (digit_value c)) ds" using Cons by simp
  finally show ?case by simp
qed simp

lemma digit_overflows_iff:
  assumes "0 < base" "base \<le> 16" "d < base"
  shows "digit_overflows val d base \<longleftrightarrow> nat ULLONG_MAX < unat val * base + d"
proof -
  let ?m = "18446744073709551615 :: nat"
  have b: "unat (of_nat base :: i64) = base" "unat (of_nat d :: i64) = d"
    using assms by (simp_all add: unat_of_nat)
  have "unat (0xFFFFFFFFFFFFFFFF - of_nat d :: i64) = ?m - d"
    using assms b(2) by (subst unat_sub) (simp_all add: word_le_nat_alt)
  then have "digit_overflows val d base \<longleftrightarrow> (?m - d) div base < unat val"
    by (simp add: digit_overflows_def word_less_nat_alt unat_div b(1))
  also have "\<dots> \<longleftrightarrow> \<not> unat val * base \<le> ?m - d"
    using assms(1) by (metis less_eq_div_iff_mult_less_eq linorder_not_le)
  also have "\<dots> \<longleftrightarrow> ?m < unat val * base + d" using assms by auto
  finally show ?thesis by (simp add: ULLONG_MAX_def)
qed

lemma digit_step:
  assumes "\<not> nat ULLONG_MAX < unat val * base + d"
  shows "unat (val * of_nat base + of_nat d :: i64) = unat val * base + d"
proof -
  have "(val * of_nat base + of_nat d :: i64) = of_nat (unat val * base + d)" by simp
  moreover have "unat val * base + d < 2 ^ LENGTH(64)" using assms by (simp add: ULLONG_MAX_def)
  ultimately show ?thesis unfolding unat_of_nat [symmetric] by (simp add: unat_of_nat del: of_nat_add of_nat_mult)
qed

lemma digit_loop_value:
  assumes "0 < base" "base \<le> 16"
  defines "ds \<equiv> takeWhile (is_digit_of base)"
  shows "digit_loop base val h p =
    (if nat ULLONG_MAX < digits_value base (unat val) (ds p) then Refused
     else Value (of_nat (digits_value base (unat val) (ds p)), h \<or> ds p \<noteq> [], drop (length (ds p)) p))"
proof (induction p arbitrary: val h)
  case Nil
  have "unat val < 2 ^ LENGTH(64)" by (rule unsigned_less)
  then show ?case by (simp add: ds_def ULLONG_MAX_def)
next
  case (Cons c p)
  have v: "\<not> nat ULLONG_MAX < unat val"
    using unsigned_less [where 'a = nat, of val] by (simp add: ULLONG_MAX_def)
  show ?case
  proof (cases "is_digit_of base c")
    case False
    then have "digit_loop base val h (c # p) = Value (val, h, c # p)"
      by (auto simp: is_digit_of_def split: option.splits)
    with False v show ?thesis by (simp add: ds_def)
  next
    case True
    then obtain d where d: "digit_value c = Some d" "d < base"
      by (auto simp: is_digit_of_def split: option.splits)
    have s: "ds (c # p) = c # ds p" using True by (simp add: ds_def)
    show ?thesis
    proof (cases "digit_overflows val d base")
      case o: True
      have "nat ULLONG_MAX < unat val * base + d"
        using o d assms digit_overflows_iff by simp
      also have "\<dots> \<le> digits_value base (unat val * base + d) (ds p)"
        using assms(1) by (rule digits_value_mono)
      finally show ?thesis using o d s by simp
    next
      case False
      then have "\<not> nat ULLONG_MAX < unat val * base + d"
        using d assms digit_overflows_iff by simp
      from digit_step [OF this] show ?thesis
        using False d s Cons.IH [of "val * of_nat base + of_nat d" True] by simp
    qed
  qed
qed

lemma parse_digits_value:
  assumes "2 \<le> base" "base \<le> 16"
  shows "parse_digits p base =
    (let ds = takeWhile (is_digit_of base) p; n = digits_value base 0 ds
     in if ds = [] \<or> nat ULLONG_MAX < n then Refused else Value (of_nat n, drop (length ds) p))"
  using digit_loop_value [of base 0 False p] assms by (simp add: parse_digits_def Let_def)

text \<open>
  Digit sequences are read exactly: in every base up to 16 the longest sequence of digits of that
  base is consumed, its value is the positional value, and the literal is refused precisely when
  there is no digit or the value exceeds 64 bits.
\<close>

theorem parse_digits_exact:
  assumes "2 \<le> base" "base \<le> 16"
  shows "parse_digits p base =
    (let ds = takeWhile (is_digit_of base) p; n = digits_value base 0 ds
     in if ds = [] \<or> nat ULLONG_MAX < n then Refused else Value (of_nat n, drop (length ds) p))"
  using assms by (rule parse_digits_value)

lemma parse_digits_exact_witness:
  "parse_digits ''fFg'' 16 = Value (0xFF, ''g'')"
  using parse_digits_exact [of 16 "''fFg''"]
  by (simp add: is_digit_of_def digit_value_def ULLONG_MAX_def)

section \<open>Types of literals\<close>

text \<open>C11 6.4.4.1: the types a literal may have, in order, for the LP64 host, and their maxima.\<close>

definition c11_candidates :: "bool \<Rightarrow> bool \<Rightarrow> nat \<Rightarrow> (bool \<times> tk_int_size_t) list" where
  "c11_candidates is_decimal has_u long_cnt =
    concat (map (\<lambda>sz. if has_u then [(True, sz)]
                      else if is_decimal then [(False, sz)]
                      else [(False, sz), (True, sz)])
      (drop long_cnt [TK_INT_SIZE_INT, TK_INT_SIZE_LONG, TK_INT_SIZE_LONG_LONG]))"

fun type_max :: "bool \<times> tk_int_size_t \<Rightarrow> int" where
  "type_max (is_unsigned, TK_INT_SIZE_INT) = (if is_unsigned then UINT_MAX else INT_MAX)"
| "type_max (is_unsigned, _) = (if is_unsigned then ULLONG_MAX else LLONG_MAX)"

text \<open>
  C22. A literal has the first type of the C11 list that represents its value, for each suffix and
  base, and is refused when none does.
\<close>

theorem choose_int_type_c11:
  assumes "long_cnt \<le> 2"
  shows "choose_int_type num val is_decimal has_u long_cnt =
    (case find (\<lambda>t. uint val \<le> type_max t) (c11_candidates is_decimal has_u long_cnt) of
       None \<Rightarrow> Refused
     | Some (is_unsigned, sz) \<Rightarrow>
         Value (num\<lparr>pn_is_unsigned := is_unsigned, pn_int_size := sz\<rparr>))"
proof -
  consider "long_cnt = 0" | "long_cnt = 1" | "long_cnt = 2" using assms by linarith
  then show ?thesis
    by cases (cases is_decimal; cases has_u;
      simp add: choose_int_type_def first_fit_def c11_candidates_def numeral_2_eq_2)+
qed

lemma choose_int_type_c11_witness:
  "choose_int_type parsed_zero 0xFFFFFFFF False False 0 =
     Value (parsed_zero\<lparr>pn_is_unsigned := True, pn_int_size := TK_INT_SIZE_INT\<rparr>) \<and>
   choose_int_type parsed_zero 0xFFFFFFFF True False 0 =
     Value (parsed_zero\<lparr>pn_is_unsigned := False, pn_int_size := TK_INT_SIZE_LONG\<rparr>)"
  using choose_int_type_c11 [of 0 parsed_zero "0xFFFFFFFF" False False]
    choose_int_type_c11 [of 0 parsed_zero "0xFFFFFFFF" True False]
  by (simp add: c11_candidates_def limit_defs)

lemma uint_sint_i64: "uint (w :: i64) = (if sint w < 0 then sint w + 18446744073709551616 else sint w)"
proof (cases "sint w < 0")
  case True
  have "uint w = (sint w + 18446744073709551616) mod 18446744073709551616"
    by (simp add: uint_sint take_bit_eq_mod)
  also have "\<dots> = sint w + 18446744073709551616"
    using True sint_i64_bounds [of w] by (intro mod_pos_pos_trivial) (simp_all add: limit_defs)
  finally show ?thesis using True by simp
next
  case False
  then show ?thesis
    using sint_i64_bounds [of w] by (simp add: uint_sint take_bit_eq_mod limit_defs)
qed

text \<open>
  The signed view of a literal is the reinterpretation of its bits: the arithmetic the code uses
  to avoid an out-of-range conversion stays inside \<^verbatim>\<open>long long\<close> and yields the two's complement
  value for every 64-bit pattern.
\<close>

theorem token_signed_from_u64_sint: "token_signed_from_u64 uval = sint uval"
proof (cases "uint uval \<le> LLONG_MAX")
  case True
  then show ?thesis
    using sint_i64_bounds [of uval] uint_sint_i64 [of uval]
    by (auto simp: token_signed_from_u64_def limit_defs split: if_splits)
next
  case False
  then have g: "(word_of_int LLONG_MAX :: i64) + 1 \<le> uval"
    by (simp add: word_le_def limit_defs)
  have "uval - word_of_int LLONG_MAX - 1 = uval - (word_of_int LLONG_MAX + 1)" by simp
  then have "uint (uval - word_of_int LLONG_MAX - 1) = uint uval - 9223372036854775808"
    using g by (simp add: uint_minus_simple_iff [symmetric] uint_minus_simple_alt limit_defs)
  then show ?thesis
    using False sint_i64_bounds [of uval] uint_sint_i64 [of uval]
    by (auto simp: token_signed_from_u64_def limit_defs split: if_splits)
qed

section \<open>The fast path\<close>

lemma digit_of_10: "is_digit_of 10 = tk_is_digit"
  by (rule ext) (auto simp: is_digit_of_def digit_value_def tk_is_digit_def)

lemma fast_digits_loop:
  "fast_digits val p =
    (case digit_loop 10 val h p of Value (v, has, q) \<Rightarrow> Some (v, q) | _ \<Rightarrow> None)"
proof (induction p arbitrary: val h)
  case (Cons c p)
  show ?case
  proof (cases "tk_is_digit c")
    case True
    then have "digit_value c = Some (byte c - 48)" "byte c - 48 < (10 :: nat)"
      by (auto simp: tk_is_digit_def digit_value_def)
    then show ?thesis using True Cons.IH [of _ True] by (simp add: Let_def)
  next
    case False
    then have "\<not> is_digit_of 10 c" by (simp add: digit_of_10)
    then show ?thesis using False by (auto simp: is_digit_of_def split: option.splits)
  qed
qed simp

text \<open>
  The general path for a number without a prefix: a floating literal when a marker follows the
  digits, an integer otherwise, and the check of what comes behind it.
\<close>

definition decimal_slow ::
    "strtod_t \<Rightarrow> string \<Rightarrow> parsed_num_t \<Rightarrow> (parsed_num_t \<times> string) outcome" where
  "decimal_slow strtod p num =
    outcome_bind
      (if has_decimal_float_marker p then parse_float_literal strtod num p False
       else parse_integer_literal_with_base num p 10 True)
      (\<lambda>(num1, q). if \<not> ends_number q then Refused else Value (num1, q))"

lemma choose_int_type_defined: "choose_int_type num val is_decimal has_u long_cnt \<noteq> Undefined"
  by (auto simp: choose_int_type_def first_fit_def split: option.splits)

lemma ident_start_not_end: "tk_is_ident_start_byte (at p 0) \<Longrightarrow> \<not> ends_number p"
  by (auto simp: ends_number_def tk_scan_ident_continue_def tk_is_ident_start_byte_def
      tk_is_ident_continue_byte_def tk_is_alnum_def)

lemma no_suffix:
  "at p 0 \<notin> set ''uUlL'' \<Longrightarrow>
   parse_int_suffix num p val is_decimal =
    (if tk_is_ident_start_byte (at p 0) then Refused
     else map_outcome (\<lambda>num1. (num1, p)) (choose_int_type num val is_decimal False 0))"
  by (simp add: parse_int_suffix_def int_suffix.simps [of p])

lemma fast_digits_stop: "fast_digits val p = Some (v, q) \<Longrightarrow> q = dropWhile tk_is_digit p"
  by (induction p arbitrary: val) (auto simp: Let_def split: if_splits)

text \<open>Whenever the fast path answers, with a value or a diagnostic, the general path answers the same.\<close>

lemma fast_path_slow:
  assumes "try_parse_decimal_int_fast p num \<noteq> Value None"
  shows "try_parse_decimal_int_fast p num = map_outcome Some (decimal_slow strtod p num)"
proof -
  from assms obtain val q where d: "tk_is_digit (at p 0)" "fast_digits 0 p = Some (val, q)"
      and m: "at q 0 \<noteq> CHR ''.''" "at q 0 \<noteq> CHR ''e''" "at q 0 \<noteq> CHR ''E''"
    by (auto simp: try_parse_decimal_int_fast_def split: if_splits option.splits)
  obtain c r where p: "p = c # r" using d(1) by (cases p) (auto simp: tk_is_digit_def)
  have "digit_loop 10 0 False p = Value (val, True, q)"
  proof -
    have "tk_is_digit c" using d(1) p by simp
    then have v: "digit_value c = Some (byte c - 48)" "byte c - 48 < (10 :: nat)"
      by (auto simp: tk_is_digit_def digit_value_def)
    obtain has where h: "digit_loop 10 0 False p = Value (val, has, q)"
      using d(2) unfolding fast_digits_loop [of 0 p False] by (auto split: outcome.splits)
    have "has" using h digit_loop_value [of 10 0 False p] \<open>tk_is_digit c\<close>
      by (auto simp: p digit_of_10 split: if_splits)
    with h show ?thesis by simp
  qed
  moreover have "\<not> has_decimal_float_marker p"
    using d m fast_digits_stop [OF d(2)] by (auto simp: has_decimal_float_marker_def tk_is_digit_def)
  ultimately have slow: "decimal_slow strtod p num =
      outcome_bind (parse_int_suffix (int_result num val 10) q val True)
        (\<lambda>(num1, q). if \<not> ends_number q then Refused else Value (num1, q))"
    by (simp add: decimal_slow_def parse_integer_literal_with_base_def parse_digits_def)
  have fast: "try_parse_decimal_int_fast p num =
     outcome_bind
       (if at q 0 \<in> set ''uUlL'' then parse_int_suffix (int_result num val 10) q val True
        else map_outcome (\<lambda>num1. (num1, q)) (choose_int_type (int_result num val 10) val True False 0))
       (\<lambda>(num1, p1). if \<not> ends_number p1 then Refused else Value (Some (num1, p1)))"
    using d m by (simp add: try_parse_decimal_int_fast_def)
  have f: "(if \<not> ends_number r then Refused else Value (Some (x, r))) =
      map_outcome Some (if \<not> ends_number r then Refused else Value (x, r))" for x r by simp
  have b: "map_outcome Some (outcome_bind n g) = outcome_bind n (\<lambda>x. map_outcome Some (g x))" for n g
    by (cases n) simp_all
  show ?thesis
  proof (cases "at q 0 \<in> set ''uUlL''")
    case True
    then show ?thesis unfolding fast slow b by (simp add: split_def f)
  next
    case False
    then show ?thesis
      unfolding fast slow b no_suffix [OF False] using ident_start_not_end [of q]
        choose_int_type_defined [of "int_result num val 10" val True False 0]
      by (cases "choose_int_type (int_result num val 10) val True False 0") auto
  qed
qed

text \<open>
  C24. The fast path for decimal integers is an optimisation and no more: on every text the
  literal parser gives the answer, value or diagnostic, that the prefixed forms and the general
  path give without it. In particular a floating literal such as \<^verbatim>\<open>1.5\<close> or \<^verbatim>\<open>1e5\<close> is left to the
  general path, whatever the host's \<^verbatim>\<open>strtod\<close> makes of it.
\<close>

theorem fast_path_agrees:
  "tk_parse_number_literal_ctx strtod ctx p num =
    outcome_bind (parse_zero_prefixed_number strtod ctx num p) (\<lambda>zero_prefixed.
      case zero_prefixed of
        Some r \<Rightarrow> Value r
      | None \<Rightarrow> decimal_slow strtod p num)"
proof -
  have "outcome_bind (try_parse_decimal_int_fast p num) (\<lambda>fast.
      case fast of Some r \<Rightarrow> Value r | None \<Rightarrow> decimal_slow strtod p num) = decimal_slow strtod p num"
  proof (cases "try_parse_decimal_int_fast p num = Value None")
    case False
    show ?thesis
      unfolding fast_path_slow [OF False, of strtod] by (cases "decimal_slow strtod p num") simp_all
  qed simp
  then show ?thesis
    by (simp only: tk_parse_number_literal_ctx_def decimal_slow_def)
qed

text \<open>
  C23. Plain decimal literals are exact: a digit sequence that is not octal, followed by text that
  does not continue a number, is an \<^verbatim>\<open>int\<close> or, beyond its range, a \<^verbatim>\<open>long\<close> of exactly its value,
  and is refused above the range of \<^verbatim>\<open>long\<close>.
\<close>

theorem decimal_literal_exact:
  fixes ds rest :: string
  defines "n \<equiv> digits_value 10 0 ds"
  assumes "ds \<noteq> []" "list_all tk_is_digit ds" "hd ds \<noteq> CHR ''0'' \<or> ds = ''0''" "ends_number rest"
  shows "tk_parse_number_literal_ctx strtod ctx (ds @ rest) num =
    (if int n \<le> LLONG_MAX
     then Value (num\<lparr>pn_uval := of_nat n, pn_val := int n, pn_fp_kind := TK_FLOAT_KIND_NONE,
       pn_float_suffix_kind := TK_FLOAT_SUFFIX_NONE, pn_int_base := 10, pn_is_unsigned := False,
       pn_int_size := if int n \<le> INT_MAX then TK_INT_SIZE_INT else TK_INT_SIZE_LONG\<rparr>, rest)
     else Refused)"
proof -
  let ?p = "ds @ rest"
  obtain c ds' where ds: "ds = c # ds'" "tk_is_digit c" using assms(2,3) by (cases ds) auto
  have e: "at rest 0 \<noteq> CHR ''.''" "\<not> tk_is_ident_continue_byte (at rest 0)"
    using assms(5) by (auto simp: ends_number_def tk_scan_ident_continue_def split: if_splits)
  then have r: "\<not> tk_is_digit (at rest 0)" "at rest 0 \<notin> set ''eEuUlLxXbB''"
      "\<not> tk_is_ident_start_byte (at rest 0)"
    by (auto simp: tk_is_ident_continue_byte_def tk_is_alnum_def tk_is_alpha_def
        tk_is_ident_start_byte_def)
  have d: "takeWhile tk_is_digit ?p = ds" "dropWhile tk_is_digit ?p = rest"
    using assms(3) r(1) by (cases rest; force simp: list_all_iff takeWhile_append dropWhile_append)+
  have z: "parse_zero_prefixed_number strtod ctx num ?p = Value None"
  proof (cases "c = CHR ''0''")
    case True
    then have "?p = CHR ''0'' # rest" using assms(4) ds by simp
    then show ?thesis using r by (simp add: parse_zero_prefixed_number_def)
  next
    case False
    then show ?thesis by (simp add: ds parse_zero_prefixed_number_def)
  qed
  note loop = digit_loop_value [of 10 0 False ?p, unfolded digit_of_10 d(1)]
  have c: "c \<noteq> CHR ''.''" using ds(2) by (auto simp: tk_is_digit_def)
  show ?thesis
  proof (cases "nat ULLONG_MAX < n")
    case True
    then have "try_parse_decimal_int_fast ?p num = Value None"
      using loop fast_digits_loop [of 0 ?p False]
      by (simp add: try_parse_decimal_int_fast_def n_def)
    moreover have "parse_integer_literal_with_base num ?p 10 True = Refused"
      using True loop by (simp add: parse_integer_literal_with_base_def parse_digits_def n_def)
    moreover have "\<not> has_decimal_float_marker ?p"
      unfolding has_decimal_float_marker_def d(2) Let_def using e r c by (simp add: ds(1))
    moreover have "\<not> int n \<le> LLONG_MAX" using True by (simp add: limit_defs)
    ultimately show ?thesis using z by (simp add: tk_parse_number_literal_ctx_def)
  next
    case False
    then have u: "uint (of_nat n :: i64) = int n"
      by (simp add: limit_defs uint_nat unat_of_nat)
    have "fast_digits 0 ?p = Some (of_nat n, rest)"
      using False loop fast_digits_loop [of 0 ?p False] by (simp add: n_def)
    moreover have "tk_is_digit (at ?p 0)" using ds by simp
    ultimately have "try_parse_decimal_int_fast ?p num =
        outcome_bind (map_outcome (\<lambda>num1. (num1, rest))
            (choose_int_type (int_result num (of_nat n) 10) (of_nat n) True False 0))
          (\<lambda>(num1, p1). if \<not> ends_number p1 then Refused else Value (Some (num1, p1)))"
      using e r by (simp add: try_parse_decimal_int_fast_def)
    moreover have "token_signed_from_u64 (of_nat n) = int n" if "int n \<le> LLONG_MAX"
      using that u by (simp add: token_signed_from_u64_def)
    ultimately show ?thesis
      using z assms(5) u
      by (simp add: tk_parse_number_literal_ctx_def choose_int_type_def first_fit_def int_result_def
          limit_defs)
  qed
qed

lemma decimal_literal_exact_witness:
  "\<exists>num1. tk_parse_number_literal_ctx (\<lambda>p. (0, 0)) init_context ''2147483648;'' parsed_zero =
    Value (num1, '';'') \<and> pn_val num1 = 2147483648 \<and> pn_int_size num1 = TK_INT_SIZE_LONG"
proof -
  have v: "digits_value 10 0 ''2147483648'' = 2147483648" by (simp add: digit_value_def)
  have e: "ends_number '';''" by code_simp
  show ?thesis
    using decimal_literal_exact [of "''2147483648''" "'';''" "\<lambda>p. (0, 0)" init_context parsed_zero] v e
    by (simp add: tk_is_digit_def limit_defs)
qed

text \<open>
  Octal literals are not checked for digits behind them: text that starts with an octal literal of
  two digits and goes on with 8 or 9 is accepted and split there, although it is one invalid
  preprocessing number.
\<close>

theorem octal_literal_split:
  assumes "tk_is_octal_digit d" "e = CHR ''8'' \<or> e = CHR ''9''"
  shows "\<exists>num1. tk_parse_number_literal_ctx strtod ctx (CHR ''0'' # d # e # rest) num =
    Value (num1, e # rest) \<and> pn_uval num1 = of_nat (byte d - 48)"
proof -
  let ?p = "CHR ''0'' # d # e # rest" and ?n = "byte d - 48"
  have d: "digit_value d = Some ?n" "?n < 8" "tk_is_digit d" "d \<noteq> CHR ''8''" "d \<noteq> CHR ''9''"
    using assms(1) by (auto simp: tk_is_octal_digit_def digit_value_def tk_is_digit_def)
  have x: "d \<noteq> CHR ''x''" "d \<noteq> CHR ''X''" "d \<noteq> CHR ''b''" "d \<noteq> CHR ''B''"
    using assms(1) by (auto simp: tk_is_octal_digit_def)
  have t: "takeWhile (is_digit_of 8) ?p = [CHR ''0'', d]"
    using d assms(2) by (auto simp: is_digit_of_def digit_value_def)
  have "parse_digits ?p 8 = Value (of_nat ?n, e # rest)"
    using parse_digits_value [of 8 ?p] d(1,2) unfolding t by (simp add: digit_value_def limit_defs)
  moreover have "at (e # rest) 0 \<notin> set ''uUlL''" "\<not> tk_is_ident_start_byte (at (e # rest) 0)"
    using assms(2) by (auto simp: tk_is_ident_start_byte_def tk_is_alpha_def)
  moreover have "uint (of_nat ?n :: i64) \<le> INT_MAX"
    using d(2) by (simp add: uint_nat unat_of_nat limit_defs)
  ultimately have "parse_integer_literal_with_base num ?p 8 False =
      Value ((int_result num (of_nat ?n) 8)\<lparr>pn_is_unsigned := False, pn_int_size := TK_INT_SIZE_INT\<rparr>,
        e # rest)"
    by (simp add: parse_integer_literal_with_base_def no_suffix choose_int_type_def first_fit_def)
  then show ?thesis
    using assms(1) d x
    by (simp add: tk_parse_number_literal_ctx_def parse_zero_prefixed_number_def int_result_def)
qed

lemma octal_literal_split_witness:
  "\<exists>num1. tk_parse_number_literal_ctx (\<lambda>p. (0, 0)) init_context ''018'' parsed_zero =
    Value (num1, ''8'') \<and> pn_uval num1 = 1"
  using octal_literal_split [of "CHR ''1''" "CHR ''8''" "\<lambda>p. (0, 0)" init_context "[]" parsed_zero]
  by (simp add: tk_is_octal_digit_def)

end
