(* ===== verification/Tokenizer.thy ===== *)
theory Tokenizer
  imports Numbers
begin

text \<open>
  Tokens and the functions that scan one token, \<^verbatim>\<open>tokenizer/tokenizer.c\<close> with the token types of
  \<^verbatim>\<open>token.h\<close>. A token function takes the cursor and returns the token and the cursor behind it;
  \<open>Value None\<close> is its result \<^verbatim>\<open>false\<close>, \<open>Refused\<close> its diagnostic. Tokens are returned instead of
  being linked behind \<^verbatim>\<open>cur_io\<close>; their file name and hide set, which the tokenizer only copies, are
  left out. The contract every token function keeps is the locale \<open>token_function\<close>.
\<close>

section \<open>Tokens\<close>

record token_num_int_t =
  ni_str :: string
  ni_val :: int
  ni_uval :: i64
  ni_int_size :: tk_int_size_t
  ni_char_width :: nat
  ni_char_prefix_kind :: tk_char_prefix_kind_t
  ni_is_unsigned :: bool
  ni_int_base :: nat

record token_num_float_t =
  nf_str :: string
  nf_fval :: i64
  nf_fp_kind :: tk_float_kind_t
  nf_float_suffix_kind :: tk_float_suffix_kind_t

record token_string_t =
  ts_str :: string
  ts_char_width :: tk_char_width_t
  ts_str_prefix_kind :: tk_string_prefix_kind_t

datatype token_data =
  Plain | Ident string | Str token_string_t | Num_int token_num_int_t | Num_float token_num_float_t

record token_t =
  tok_kind :: token_kind_t
  tok_line_no :: int
  tok_byte_offset :: int
  tok_byte_length :: nat
  tok_at_bol :: bool
  tok_has_space :: bool
  tok_data :: token_data

text \<open>What every token function is told: the text, the line and the two flags.\<close>

record lex_env =
  le_input :: string
  le_line_no :: int
  le_at_bol :: bool
  le_has_space :: bool

definition span :: "string \<Rightarrow> string \<Rightarrow> nat" where
  "span start finish = length start - length finish"

definition checked_span_len :: "tokenizer_context_t \<Rightarrow> string \<Rightarrow> string \<Rightarrow> nat outcome" where
  "checked_span_len ctx start finish =
    (let diff = span start finish
     in if int diff > tc_max_token_len_for_test ctx \<or> int diff > INT_MAX then Refused else Value diff)"

definition init_token_base ::
    "lex_env \<Rightarrow> token_kind_t \<Rightarrow> string \<Rightarrow> nat \<Rightarrow> token_data \<Rightarrow> token_t" where
  "init_token_base env kind loc byte_length data =
    (let offset = int (span (le_input env) loc)
     in \<lparr>tok_kind = kind, tok_line_no = le_line_no env,
         tok_byte_offset = (if offset \<le> INT_MAX then offset else - 1),
         tok_byte_length = byte_length, tok_at_bol = le_at_bol env, tok_has_space = le_has_space env,
         tok_data = data\<rparr>)"

section \<open>String literals\<close>

text \<open>Moving the cursor over text that holds no newline.\<close>

definition consumes :: "string \<Rightarrow> string \<Rightarrow> bool" where
  "consumes p q \<longleftrightarrow> (\<exists>b. p = b @ q \<and> LF \<notin> set b)"

named_theorems consume_intros \<open>cursor moves that cross no newline\<close>

lemma consumes_refl [simp, consume_intros]: "consumes p p"
  by (simp add: consumes_def)

lemma consumes_trans: "consumes p q \<Longrightarrow> consumes q r \<Longrightarrow> consumes p r"
  unfolding consumes_def by (metis UnE append_assoc set_append)

lemma consumes_length: "consumes p q \<Longrightarrow> length q \<le> length p"
  by (auto simp: consumes_def)

lemma consumes_drop: "LF \<notin> set (take n p) \<Longrightarrow> consumes p (drop n p)"
  unfolding consumes_def by (metis append_take_drop_id)

lemma consumes_Cons: "consumes p q \<Longrightarrow> c \<noteq> LF \<Longrightarrow> consumes (c # p) q"
  unfolding consumes_def by (metis append_Cons set_ConsD)

lemma consumes_drop1 [consume_intros]: "at p 0 \<noteq> LF \<Longrightarrow> consumes p (drop 1 p)"
  by (cases p) (auto intro: consumes_Cons)

lemma consumes_drop2: "at p 0 \<noteq> LF \<Longrightarrow> at p 1 \<noteq> LF \<Longrightarrow> consumes p (drop 2 p)"
  by (cases p; cases "tl p") (auto intro: consumes_Cons consumes_Cons [OF consumes_Cons])

lemma consumes_dropWhile [consume_intros]:
  "\<not> P LF \<Longrightarrow> consumes p (dropWhile P p)"
  unfolding consumes_def
  by (metis takeWhile_dropWhile_id set_takeWhileD)

lemma LF_classes [simp]:
  "\<not> tk_is_digit LF" "\<not> tk_is_xdigit LF" "\<not> tk_is_octal_digit LF" "\<not> tk_is_ident_start_byte LF"
  "\<not> tk_is_ident_continue_byte LF"
  by (simp_all add: char_class_defs)

lemma xdigits_no_LF:
  assumes "tk_starts_with_ucn p = Some n"
  shows "LF \<notin> set (take n p)" "6 \<le> n" "n \<le> length p"
proof -
  let ?k = "ucn_digit_count p"
  have n: "n = 2 + ?k" "at p 0 = BSL" "at p 1 = CHR ''u'' \<or> at p 1 = CHR ''U''"
    using assms by (auto simp: tk_starts_with_ucn_def Let_def split: if_splits)
  have k: "?k = 4 \<or> ?k = 8" by (simp add: ucn_digit_count_def)
  show "6 \<le> n" using n(1) k by auto
  have "2 + (?k - 1) < length p" using ucn_digits(1) [OF assms, of "?k - 1"] k by auto
  then show l: "n \<le> length p" using n(1) k by auto
  show "LF \<notin> set (take n p)"
  proof
    assume "LF \<in> set (take n p)"
    then obtain i where i: "i < n" "p ! i = LF" using l by (auto simp: in_set_conv_nth)
    then have a: "at p i = LF" using l by (simp add: at_def)
    have "i = 0 \<or> i = 1 \<or> i = 2 + (i - 2) \<and> i - 2 < ?k" using i(1) n(1) by linarith
    then consider "i = 0" | "i = 1" | j where "i = 2 + j" "j < ?k" by blast
    then show False
    proof cases
      case 3
      then show False using ucn_digits(2) [OF assms, of j] i(2) by simp
    qed (use n a in auto)
  qed
qed

lemma octal_take: "LF \<notin> set (take (length (takeWhile tk_is_octal_digit (take k p))) p)"
proof -
  have "take (length (takeWhile tk_is_octal_digit (take k p))) p = takeWhile tk_is_octal_digit (take k p)"
    by (metis take_take takeWhile_eq_take min.absorb1 length_takeWhile_le length_take min.bounded_iff)
  then show ?thesis by (metis LF_classes(3) set_takeWhileD)
qed

lemma skip_escape_consumes:
  assumes "tk_skip_escape_in_literal_ctx p = Value q"
  shows "consumes p q" "length q < length p"
proof -
  have ok: "escape_ok p" using assms by (auto simp: tk_skip_escape_in_literal_ctx_def split: if_splits)
  then have n: "at p 0 \<noteq> LF" "at p 0 \<noteq> NUL" by (auto simp: escape_ok_def)
  then obtain c r where p: "p = c # r" "c \<noteq> LF" by (cases p) auto
  consider (x) "q = dropWhile tk_is_xdigit r" | (u) "q = drop (if c = CHR ''u'' then 5 else 9) p" "c \<in> set ''uU''"
    | (octal) "q = skip_octal 3 p" "tk_is_octal_digit c" | (simple) "q = r"
    using assms p by (auto simp: tk_skip_escape_in_literal_ctx_def split: if_splits)
  then have "consumes p q \<and> length q < length p"
  proof cases
    case x
    then show ?thesis
      using p consumes_dropWhile [of tk_is_xdigit r] length_dropWhile_le [of tk_is_xdigit r]
      by (auto intro: consumes_Cons)
  next
    case u
    then obtain v n where "tk_parse_ucn_codepoint (BSL # p) = Some (v, n)"
      using ok p by (auto simp: escape_ok_def split: option.splits)
    then have s: "tk_starts_with_ucn (BSL # p) = Some n" by (auto simp: tk_parse_ucn_codepoint_def)
    then have k: "n = (if c = CHR ''u'' then 6 else 10)"
      using p by (auto simp: tk_starts_with_ucn_def ucn_digit_count_def Let_def split: if_splits)
    then have "take n (BSL # p) = BSL # take (if c = CHR ''u'' then 5 else 9) p" by simp
    then have "LF \<notin> set (take (if c = CHR ''u'' then 5 else 9) p)"
      using xdigits_no_LF(1) [OF s] by simp
    from consumes_drop [OF this] show ?thesis using u(1) p by simp
  next
    case octal
    have "0 < length (takeWhile tk_is_octal_digit (take 3 p))" using p octal(2) by simp
    moreover have "q = drop (length (takeWhile tk_is_octal_digit (take 3 p))) p"
      using octal(1) by (simp only: skip_octal_eq)
    ultimately show ?thesis
      using consumes_drop [OF octal_take [of 3 p]] p by (metis diff_less length_drop list.size(3) length_greater_0_conv list.distinct(1))
  next
    case simple
    then show ?thesis using p by (auto intro: consumes_Cons)
  qed
  then show "consumes p q" "length q < length p" by simp_all
qed

lemma continuation_not_LF: "chr_val c AND 0xC0 = 0x80 \<Longrightarrow> c \<noteq> LF \<and> c \<noteq> NUL"
  using continuation_value [of c] unat_chr_val [of c] by auto

lemma utf8_tail_split:
  "utf8_tail k cp s = Some (v, q) \<Longrightarrow> \<exists>b. s = b @ q \<and> length b = k \<and> LF \<notin> set b"
proof (induction k cp s rule: utf8_tail.induct)
  case (3 k cp c s)
  then have c: "chr_val c AND 0xC0 = 0x80" by (auto split: if_splits)
  with 3 obtain b where "s = b @ q" "length b = k" "LF \<notin> set b" by auto
  with continuation_not_LF [OF c] show ?case by (intro exI [of _ "c # b"]) auto
qed auto

lemma utf8_char_advances:
  assumes "tk_scan_utf8_identifier_char p = Some n"
  shows "0 < n \<and> n \<le> length p \<and> LF \<notin> set (take n p)"
proof (cases p)
  case Nil
  then show ?thesis using assms by (simp add: tk_scan_utf8_identifier_char_def)
next
  case (Cons c q)
  then have big: "0xC2 \<le> chr_val c" and
    "\<exists>k cp v r. utf8_tail k cp q = Some (v, r) \<and> n = Suc k"
    using assms
    by (auto simp: tk_scan_utf8_identifier_char_def Let_def word_le_nat_alt
        split: if_splits option.splits) blast+
  then obtain k cp v r where "utf8_tail k cp q = Some (v, r)" "n = Suc k" by blast
  moreover have "c \<noteq> LF" using big by auto
  ultimately show ?thesis using utf8_tail_split [of k cp q v r] Cons by auto
qed

lemma ident_char_advances:
  "tk_starts_with_ucn p = Some n \<or> tk_scan_utf8_identifier_char p = Some n \<Longrightarrow>
   0 < n \<and> n \<le> length p \<and> LF \<notin> set (take n p)"
  using xdigits_no_LF [of p n] utf8_char_advances [of p n] by auto

text \<open>From the opening quote: the cursor at the closing quote.\<close>

function string_body :: "string \<Rightarrow> string outcome" where
  "string_body p =
    (if at p 0 = NUL \<or> at p 0 = LF then Refused
     else if at p 0 = DQ then Value p
     else if at p 0 = BSL then
       (case tk_skip_escape_in_literal_ctx (drop 1 p) of
          Value q \<Rightarrow> string_body q
        | Refused \<Rightarrow> Refused
        | Undefined \<Rightarrow> Undefined)
     else string_body (drop 1 p))"
  by pat_completeness auto
termination
proof (relation "measure length", goal_cases)
  case (2 p q)
  then show ?case using skip_escape_consumes(2) [of "drop 1 p" q] by simp
next
  case (3 p)
  then show ?case by (cases p) auto
qed simp

declare string_body.simps [simp del]

definition tokenize_string_literal ::
    "tokenizer_context_t \<Rightarrow> lex_env \<Rightarrow> string \<Rightarrow> (token_t \<times> string) option outcome" where
  "tokenize_string_literal ctx env token_start =
    (let (prefix0, prefix_kind0, width0) = tk_parse_string_prefix token_start
     in if \<not> (at token_start 0 = DQ \<or> prefix0 > 0) then Value None
        else
          let (str_prefix, str_prefix_kind, str_char_width) =
                (if at token_start 0 = DQ then (0, TK_STR_PREFIX_NONE, TK_CHAR_WIDTH_CHAR)
                 else (prefix0, prefix_kind0, width0));
              start = drop (str_prefix + 1) token_start
          in outcome_bind (string_body start) (\<lambda>p.
             outcome_bind (checked_span_len ctx start p) (\<lambda>len.
             let q = drop 1 p
             in outcome_bind (checked_span_len ctx token_start q) (\<lambda>byte_length.
                Value (Some (init_token_base env TK_STRING token_start byte_length
                  (Str \<lparr>ts_str = take len start, ts_char_width = str_char_width,
                        ts_str_prefix_kind = str_prefix_kind\<rparr>), q))))))"

section \<open>Character constants\<close>

text \<open>The value of the next character of a constant and the cursor behind it.\<close>

definition char_literal_value :: "tk_char_prefix_kind_t \<Rightarrow> string \<Rightarrow> (u32 \<times> string) outcome" where
  "char_literal_value prefix_kind p =
    (if at p 0 = BSL then tk_read_escape_char_ctx (drop 1 p)
     else if at p 0 = LF then Refused
     else if prefix_kind \<noteq> TK_CHAR_PREFIX_NONE \<and> 0x80 \<le> byte (at p 0) then
       (let remaining = takeWhile (\<lambda>c. c \<noteq> NUL \<and> c \<noteq> SQ \<and> c \<noteq> LF) p;
            (one, rest) = tk_decode_utf8 remaining
        in Value (one, drop (span remaining rest) p))
     else Value (chr_val (at p 0), drop 1 p))"

lemma decode_utf8_split:
  assumes "tk_decode_utf8 (c # s) = (v, q)" "LF \<notin> set (c # s)"
  shows "\<exists>b. c # s = b @ q \<and> b \<noteq> []"
proof -
  have "q = s \<or> (\<exists>k cp. utf8_tail k cp s = Some (v, q))"
    using assms(1) by (auto simp: tk_decode_utf8_def Let_def split: if_splits option.splits)
  then show ?thesis
  proof
    assume "q = s"
    then show ?thesis by (intro exI [of _ "[c]"]) simp
  next
    assume "\<exists>k cp. utf8_tail k cp s = Some (v, q)"
    then obtain b where "s = b @ q" using utf8_tail_split by blast
    then show ?thesis by (intro exI [of _ "c # b"]) simp
  qed
qed

lemma char_literal_value_consumes:
  assumes v: "char_literal_value k p = Value (v, q)" and ne: "at p 0 \<noteq> NUL" "at p 0 \<noteq> SQ"
  shows "consumes p q \<and> length q < length p"
proof -
  obtain c r where p: "p = c # r" using ne by (cases p) auto
  consider (esc) "c = BSL" "tk_read_escape_char_ctx r = Value (v, q)"
    | (utf8) "c \<noteq> LF" "c \<noteq> BSL" "q = drop (span (takeWhile (\<lambda>c. c \<noteq> NUL \<and> c \<noteq> SQ \<and> c \<noteq> LF) p)
        (snd (tk_decode_utf8 (takeWhile (\<lambda>c. c \<noteq> NUL \<and> c \<noteq> SQ \<and> c \<noteq> LF) p)))) p"
    | (byte) "c \<noteq> LF" "q = r"
    using v p by (auto simp: char_literal_value_def Let_def split: if_splits prod.splits)
  then show ?thesis
  proof cases
    case esc
    then have "tk_skip_escape_in_literal_ctx r = Value q" by (simp add: skip_escape_eq_read)
    from skip_escape_consumes [OF this] show ?thesis using p esc(1) by (auto intro: consumes_Cons)
  next
    case utf8
    define rem where "rem = takeWhile (\<lambda>c. c \<noteq> NUL \<and> c \<noteq> SQ \<and> c \<noteq> LF) p"
    have rem: "rem = c # tl rem" "LF \<notin> set rem" "rem = take (length rem) p"
      using p ne utf8(1) by (auto simp: rem_def dest: set_takeWhileD simp flip: takeWhile_eq_take)
    obtain w s where "tk_decode_utf8 rem = (w, s)" by (cases "tk_decode_utf8 rem")
    moreover from this rem(1,2) obtain b where b: "rem = b @ s" "b \<noteq> []"
      using decode_utf8_split [of c "tl rem" w s] by metis
    ultimately have q: "q = drop (length b) p"
      using utf8(3) by (simp add: span_def rem_def [symmetric])
    have "take (length b) p = b" using rem(3) b(1) by (metis append_eq_conv_conj le_add1 length_append min.absorb1 take_take)
    then show ?thesis using consumes_drop [of "length b" p] rem(2) b p q by auto
  next
    case byte
    then show ?thesis using p by (auto intro: consumes_Cons)
  qed
qed

function char_body ::
    "tk_char_prefix_kind_t \<Rightarrow> i64 \<Rightarrow> nat \<Rightarrow> string \<Rightarrow> (i64 \<times> nat \<times> string) outcome" where
  "char_body prefix_kind ch nchar p =
    (if at p 0 = NUL \<or> at p 0 = SQ then Value (ch, nchar, p)
     else case char_literal_value prefix_kind p of
       Refused \<Rightarrow> Refused
     | Undefined \<Rightarrow> Undefined
     | Value (one, q) \<Rightarrow>
         if prefix_kind = TK_CHAR_PREFIX_u \<and> one > 0xFFFF then Refused
         else
           let encoded = (if prefix_kind = TK_CHAR_PREFIX_NONE then ucast (one AND 0xFF) else ucast one)
           in char_body prefix_kind ((push_bit 8 ch OR encoded) AND 0xFFFFFFFF) (nchar + 1) q)"
  by pat_completeness auto
termination
  by (relation "measure (\<lambda>(_, _, _, p). length p)") (auto dest!: char_literal_value_consumes)

declare char_body.simps [simp del]

definition tokenize_char_literal ::
    "tokenizer_context_t \<Rightarrow> lex_env \<Rightarrow> string \<Rightarrow> (token_t \<times> string) option outcome" where
  "tokenize_char_literal ctx env start =
    (let (chr_prefix, chr_prefix_kind, chr_char_width) = tk_parse_char_prefix start
     in if \<not> (at start 0 = SQ \<or> chr_prefix > 0) then Value None
        else
          let p = drop (chr_prefix + 1) start
          in if at p 0 = NUL \<or> at p 0 = LF then Refused
             else if at p 0 = SQ then Refused
             else outcome_bind (char_body chr_prefix_kind 0 0 p) (\<lambda>(ch, nchar, q).
               if nchar = 0 \<or> at q 0 \<noteq> SQ then Refused
               else
                 let r = drop 1 q
                 in outcome_bind (checked_span_len ctx start r) (\<lambda>len.
                    Value (Some (init_token_base env TK_NUM start len
                      (Num_int \<lparr>ni_str = take len start, ni_val = uint ch, ni_uval = ch,
                        ni_int_size = TK_INT_SIZE_INT, ni_char_width = char_width_value chr_char_width,
                        ni_char_prefix_kind = chr_prefix_kind, ni_is_unsigned = False,
                        ni_int_base = 10\<rparr>), r)))))"

section \<open>Punctuators, identifiers and numbers\<close>

definition tokenize_punctuator :: "lex_env \<Rightarrow> string \<Rightarrow> (token_t \<times> string) option" where
  "tokenize_punctuator env p =
    (case match_punctuator p of
       Some (matched_kind, matched_len) \<Rightarrow>
         Some (init_token_base env matched_kind p matched_len Plain, drop matched_len p)
     | None \<Rightarrow>
         if tk_is_punctuator1 (at p 0) \<or> at p 0 = CHR ''.'' \<and> \<not> tk_is_digit (at p 1)
         then Some (init_token_base env (punctuator_kind_for_char (at p 0)) p 1 Plain, drop 1 p)
         else None)"

lemma ident_byte_advances:
  "tk_is_ident_continue_byte (at p 0) \<Longrightarrow> 1 \<le> length p \<and> LF \<notin> set (take 1 p)"
  by (cases p) (auto simp: char_class_defs)

lemma ident_continue_advances:
  assumes "tk_scan_ident_continue p = Some n"
  shows "0 < n \<and> n \<le> length p \<and> LF \<notin> set (take n p)"
proof (cases "tk_is_ident_continue_byte (at p 0)")
  case True
  then have "n = 1" using assms by (simp add: tk_scan_ident_continue_def)
  then show ?thesis using ident_byte_advances [OF True] by simp
next
  case False
  then show ?thesis using assms ident_char_advances [of p n]
    by (auto simp: tk_scan_ident_continue_def split: option.splits if_splits)
qed

lemma ident_start_advances:
  assumes "tk_scan_ident_start p = Some n"
  shows "0 < n \<and> n \<le> length p \<and> LF \<notin> set (take n p)"
proof (cases "tk_is_ident_start_byte (at p 0)")
  case True
  then have "n = 1" using assms by (simp add: tk_scan_ident_start_def)
  moreover have "tk_is_ident_continue_byte (at p 0)" using True by (auto simp: char_class_defs)
  ultimately show ?thesis using ident_byte_advances by simp
next
  case False
  then show ?thesis using assms ident_char_advances [of p n]
    by (auto simp: tk_scan_ident_start_def split: option.splits if_splits)
qed

text \<open>The rest behind the identifier and whether a universal character name was seen.\<close>

function ident_body :: "string \<Rightarrow> bool \<Rightarrow> string \<times> bool" where
  "ident_body p has_ucn_escape =
    (case tk_scan_ident_continue p of
       None \<Rightarrow> (p, has_ucn_escape)
     | Some adv \<Rightarrow> ident_body (drop adv p) (has_ucn_escape \<or> at p 0 = BSL \<and> adv > 1))"
  by pat_completeness auto
termination
  by (relation "measure (\<lambda>(p, _). length p)") (use ident_continue_advances in \<open>fastforce+\<close>)

declare ident_body.simps [simp del]

definition tokenize_ident_or_keyword ::
    "tokenizer_context_t \<Rightarrow> lex_env \<Rightarrow> string \<Rightarrow> (token_t \<times> string) option outcome" where
  "tokenize_ident_or_keyword ctx env start =
    (case tk_scan_ident_start start of
       None \<Rightarrow> Value None
     | Some adv \<Rightarrow>
         let (p, has_ucn_escape) = ident_body (drop adv start) (at start 0 = BSL \<and> adv > 1)
         in outcome_bind (checked_span_len ctx start p) (\<lambda>len.
            outcome_bind
              (if has_ucn_escape then tk_decode_identifier_ucn start len
               else Value (take len start, False))
              (\<lambda>(id_str, has_ucn).
                let kw_kind = (if \<not> has_ucn then lookup_keyword start len else TK_EOF)
                in Value (Some (if kw_kind \<noteq> TK_EOF then init_token_base env kw_kind start len Plain
                                else init_token_base env TK_IDENT start len (Ident id_str), p)))))"

definition tokenize_number_literal ::
    "strtod_t \<Rightarrow> tokenizer_context_t \<Rightarrow> lex_env \<Rightarrow> string \<Rightarrow> (token_t \<times> string) option outcome" where
  "tokenize_number_literal strtod ctx env start =
    (if \<not> (tk_is_digit (at start 0) \<or> at start 0 = CHR ''.'' \<and> tk_is_digit (at start 1)) then Value None
     else outcome_bind (tk_parse_number_literal_ctx strtod ctx start parsed_zero) (\<lambda>(parsed, p).
       outcome_bind (checked_span_len ctx start p) (\<lambda>len.
         Value (Some (init_token_base env TK_NUM start len
           (if pn_fp_kind parsed = TK_FLOAT_KIND_NONE
            then Num_int \<lparr>ni_str = take len start, ni_val = pn_val parsed, ni_uval = pn_uval parsed,
              ni_int_size = pn_int_size parsed, ni_char_width = pn_char_width parsed,
              ni_char_prefix_kind = pn_char_prefix_kind parsed,
              ni_is_unsigned = pn_is_unsigned parsed, ni_int_base = pn_int_base parsed\<rparr>
            else Num_float \<lparr>nf_str = take len start, nf_fval = pn_fval parsed,
              nf_fp_kind = pn_fp_kind parsed,
              nf_float_suffix_kind = pn_float_suffix_kind parsed\<rparr>), p)))))"

text \<open>A token function that answers \<^verbatim>\<open>false\<close> passes the cursor on to the next.\<close>

definition or_else :: "'a option outcome \<Rightarrow> 'a option outcome \<Rightarrow> 'a option outcome" where
  "or_else a b = outcome_bind a (\<lambda>r. case r of None \<Rightarrow> b | Some x \<Rightarrow> Value (Some x))"

definition tokenize_one ::
    "strtod_t \<Rightarrow> tokenizer_context_t \<Rightarrow> lex_env \<Rightarrow> string \<Rightarrow> (token_t \<times> string) option outcome" where
  "tokenize_one strtod ctx env p =
    or_else (Value (tokenize_punctuator env p))
      (or_else (tokenize_string_literal ctx env p)
        (or_else (tokenize_char_literal ctx env p)
          (or_else (tokenize_ident_or_keyword ctx env p)
            (tokenize_number_literal strtod ctx env p))))"

section \<open>What a token function consumes\<close>

definition number_start :: "string \<Rightarrow> bool" where
  "number_start p \<longleftrightarrow> tk_is_digit (at p 0) \<or> at p 0 = CHR ''.'' \<and> tk_is_digit (at p 1)"

text \<open>Moving the cursor; newlines are crossed only if \<open>nl\<close> allows it.\<close>

definition moves :: "bool \<Rightarrow> string \<Rightarrow> string \<Rightarrow> bool" where
  "moves nl p q \<longleftrightarrow> (\<exists>b. p = b @ q \<and> (LF \<in> set b \<longrightarrow> nl))"

lemma consumes_moves: "consumes p q \<Longrightarrow> moves nl p q"
  by (auto simp: consumes_def moves_def)

lemma moves_False [simp]: "moves False = consumes"
  by (auto simp: consumes_def moves_def fun_eq_iff)

lemma moves_trans: "moves nl p q \<Longrightarrow> moves nl q r \<Longrightarrow> moves nl p r"
  unfolding moves_def by (metis UnE append_assoc set_append)

lemma moves_drop: "moves True p (drop n p)"
  unfolding moves_def by (metis append_take_drop_id)

lemma moves_length: "moves nl p q \<Longrightarrow> length q \<le> length p"
  by (auto simp: moves_def)

lemma map_outcome_Value_iff: "map_outcome f m = Value y \<longleftrightarrow> (\<exists>x. m = Value x \<and> y = f x)"
  by (cases m) auto

lemma int_suffix_consumes: "int_suffix p u k = Value (q, u', k') \<Longrightarrow> consumes p q"
proof (induction p u k rule: int_suffix.induct)
  case (1 p u k)
  note step = "1.prems" [unfolded int_suffix.simps [of p u k]]
  have 1: "consumes p (drop 1 p)" if "at p 0 \<in> set ''uUlL''"
    using that by (intro consumes_drop1) auto
  have 2: "consumes p (drop 2 p)" if "at p 0 \<in> set ''lL''" "at p 1 \<in> set ''lL''"
    using that by (intro consumes_drop2) auto
  show ?case using step "1.IH" 1 2 by (auto split: if_splits intro: consumes_trans)
qed

lemma parse_int_suffix_consumes:
  "parse_int_suffix num p val d = Value (num1, q) \<Longrightarrow> consumes p q"
  by (cases "int_suffix p False 0")
    (auto simp: parse_int_suffix_def map_outcome_Value_iff split: if_splits dest: int_suffix_consumes)

lemma fast_digits_rest: "fast_digits v p = Some (w, q) \<Longrightarrow> q = dropWhile tk_is_digit p"
  by (induction v p rule: fast_digits.induct) (auto simp: Let_def split: if_splits)

lemma is_digit_of_LF [simp]: "\<not> is_digit_of base LF"
  by (simp add: is_digit_of_def digit_value_def)

lemma parse_digits_consumes:
  assumes "parse_digits p base = Value (v, q)" "2 \<le> base" "base \<le> 16"
  shows "consumes p q \<and> length q < length p"
proof -
  let ?ds = "takeWhile (is_digit_of base) p"
  have q: "q = dropWhile (is_digit_of base) p" "?ds \<noteq> []"
    using assms parse_digits_value [of base p] by (auto simp: Let_def dropWhile_eq_drop split: if_splits)
  have "length q < length p"
    using q(2) arg_cong [OF takeWhile_dropWhile_id [of "is_digit_of base" p], of length]
    by (simp add: q(1) del: takeWhile_dropWhile_id takeWhile_eq_Nil_iff)
      (metis length_greater_0_conv less_add_same_cancel2 takeWhile.simps(1))
  then show ?thesis using q(1) consumes_dropWhile [of "is_digit_of base" p] by simp
qed

lemma integer_literal_consumes:
  assumes "parse_integer_literal_with_base num p base d = Value (num1, q)" "2 \<le> base" "base \<le> 16"
  shows "consumes p q \<and> length q < length p"
proof -
  obtain v r where d: "parse_digits p base = Value (v, r)"
      and s: "parse_int_suffix (int_result num v base) r v d = Value (num1, q)"
    using assms(1) unfolding parse_integer_literal_with_base_def by (auto elim!: outcome_bind_ValueE)
  note c = parse_digits_consumes [OF d assms(2,3)] and i = parse_int_suffix_consumes [OF s]
  show ?thesis using c i consumes_trans consumes_length [OF i] by auto
qed

lemma float_suffix_consumes: "parse_float_suffix num p = Value (num1, q) \<Longrightarrow> consumes p q"
  using consumes_drop1 [of p] by (auto simp: parse_float_suffix_def Let_def split: if_splits)

lemma float_literal_moves:
  assumes "parse_float_literal strtod num p h = Value (num1, q)"
    and "moves nl p (drop (snd (strtod p)) p)"
  shows "moves nl p q"
  using assms float_suffix_consumes
  by (auto simp: parse_float_literal_def intro: moves_trans [OF _ consumes_moves] split: if_splits prod.splits)

lemma float_literal_shorter:
  assumes "parse_float_literal strtod num p h = Value (num1, q)" "number_start p"
  shows "length q < length p \<or> \<not> h \<and> q = p"
proof -
  obtain v k where k: "strtod p = (v, k)" by (cases "strtod p")
  have p: "p \<noteq> []" using assms(2) by (auto simp: number_start_def tk_is_digit_def)
  have f: "at p 0 \<notin> set ''fFlL''" using assms(2) by (auto simp: number_start_def tk_is_digit_def)
  note v = assms(1) [unfolded parse_float_literal_def k, simplified]
  show ?thesis
  proof (cases "k = 0")
    case True
    then show ?thesis using v f by (auto simp: parse_float_suffix_def Let_def split: if_splits)
  next
    case False
    then have "consumes (drop k p) q" using v float_suffix_consumes by (auto split: if_splits)
    then have "length q \<le> length p - k" using consumes_length by fastforce
    then show ?thesis using False p by (cases p) auto
  qed
qed

lemma number_start_continues: "number_start p \<Longrightarrow> \<not> ends_number p"
  by (auto simp: number_start_def ends_number_def tk_scan_ident_continue_def char_class_defs)

lemma zero_prefixed_consumes:
  assumes z: "parse_zero_prefixed_number strtod ctx num p = Value (Some (num1, q))"
    and m: "moves nl p (drop (snd (strtod p)) p)"
  shows "moves nl p q \<and> length q < length p"
proof -
  have 0: "at p 0 = CHR ''0''" using z by (auto simp: parse_zero_prefixed_number_def split: if_splits)
  then have start: "number_start p" by (simp add: number_start_def tk_is_digit_def)
  have int: "moves nl p q \<and> length q < length p"
    if "parse_integer_literal_with_base num (drop k p) base False = Value (num1, q)"
      "consumes p (drop k p)" "2 \<le> base" "base \<le> 16" for k base
    using integer_literal_consumes [OF that(1,3,4)] consumes_trans [OF that(2)] consumes_moves
      consumes_length [OF that(2)] by fastforce
  have c2: "consumes p (drop 2 p)" if "at p 1 \<noteq> LF" using 0 that by (intro consumes_drop2) auto
  consider (float) "parse_float_literal strtod num p True = Value (num1, q)"
    | (hex) "parse_integer_literal_with_base num (drop 2 p) 16 False = Value (num1, q)" "at p 1 \<noteq> LF"
    | (bin) "parse_integer_literal_with_base num (drop 2 p) 2 False = Value (num1, q)" "at p 1 \<noteq> LF"
    | (oct) "parse_integer_literal_with_base num (drop 0 p) 8 False = Value (num1, q)"
    | (zero) "parse_int_suffix (int_result num 0 8) (drop 1 p) 0 False = Value (num1, q)"
    using z by (auto simp: parse_zero_prefixed_number_def map_outcome_Value_iff split: if_splits)
  then show ?thesis
  proof cases
    case float
    then show ?thesis using float_literal_moves [OF float m] float_literal_shorter [OF float start] by simp
  next
    case zero
    have "consumes p (drop 1 p)" using 0 by (intro consumes_drop1) simp
    moreover have "consumes (drop 1 p) q" using parse_int_suffix_consumes [OF zero] .
    moreover have "length (drop 1 p) < length p" using 0 by (cases p) auto
    ultimately show ?thesis using consumes_trans consumes_moves consumes_length by fastforce
  next
    case hex
    then show ?thesis using int [OF hex(1) c2 [OF hex(2)]] by simp
  next
    case bin
    then show ?thesis using int [OF bin(1) c2 [OF bin(2)]] by simp
  next
    case oct
    then show ?thesis using int [OF oct] by simp
  qed
qed

lemma fast_consumes:
  assumes "try_parse_decimal_int_fast p num = Value (Some (num1, q))"
  shows "consumes p q \<and> length q < length p"
proof -
  obtain v r num0 where d: "tk_is_digit (at p 0)" "fast_digits 0 p = Some (v, r)"
    and q: "q = r \<or> parse_int_suffix num0 r v True = Value (num1, q)"
  proof -
    obtain v r where f: "tk_is_digit (at p 0)" "fast_digits 0 p = Some (v, r)"
      using assms by (auto simp: try_parse_decimal_int_fast_def split: if_splits option.splits)
    then have "q = r \<or> parse_int_suffix (int_result num v 10) r v True = Value (num1, q)"
      using assms
      by (auto simp: try_parse_decimal_int_fast_def map_outcome_Value_iff elim!: outcome_bind_ValueE
          split: if_splits)
    with f that show ?thesis by blast
  qed
  have r: "r = dropWhile tk_is_digit p" using fast_digits_rest [OF d(2)] .
  have "consumes r q" using q parse_int_suffix_consumes by auto
  moreover have "consumes p r" unfolding r by (rule consumes_dropWhile) simp
  moreover have "length r < length p"
    using d(1) length_dropWhile_le [of tk_is_digit "tl p"] unfolding r by (cases p) (auto simp: tk_is_digit_def)
  ultimately show ?thesis using consumes_trans consumes_length by fastforce
qed

lemma number_consumes:
  assumes n: "tk_parse_number_literal_ctx strtod ctx p num = Value (num1, q)"
    and start: "number_start p" and m: "moves nl p (drop (snd (strtod p)) p)"
  shows "moves nl p q \<and> length q < length p"
proof -
  consider (zero) "parse_zero_prefixed_number strtod ctx num p = Value (Some (num1, q))"
    | (fast) "try_parse_decimal_int_fast p num = Value (Some (num1, q))"
    | (float) "parse_float_literal strtod num p False = Value (num1, q)" "ends_number q"
    | (int) "parse_integer_literal_with_base num p 10 True = Value (num1, q)"
    using n
    by (auto simp: tk_parse_number_literal_ctx_def elim!: outcome_bind_ValueE
        split: option.splits if_splits)
  then show ?thesis
  proof cases
    case zero
    from zero_prefixed_consumes [OF this m] show ?thesis .
  next
    case fast
    from fast_consumes [OF this] show ?thesis by (simp add: consumes_moves)
  next
    case float
    then have "q \<noteq> p" using number_start_continues [OF start] by auto
    then show ?thesis
      using float_literal_moves [OF float(1) m] float_literal_shorter [OF float(1) start] by simp
  next
    case int
    from integer_literal_consumes [OF this] show ?thesis by (simp add: consumes_moves)
  qed
qed

section \<open>The contract of a token function\<close>

text \<open>
  \<open>covers nl env p t q\<close>: the token \<open>t\<close>, found at \<open>p\<close> with the cursor left at \<open>q\<close>, covers a piece
  that is not empty, carries the line and flags it was given and its place in the input, and
  holds a newline only if \<open>nl\<close>.
\<close>

definition covers :: "bool \<Rightarrow> lex_env \<Rightarrow> string \<Rightarrow> token_t \<Rightarrow> string \<Rightarrow> bool" where
  "covers nl env p t q \<longleftrightarrow>
    moves nl p q \<and> length q < length p \<and> tok_kind t \<noteq> TK_EOF \<and> tok_kind t \<noteq> TK_UNKNOWN \<and>
    t = init_token_base env (tok_kind t) p (length p - length q) (tok_data t)"

definition strtod_ok :: "strtod_t \<Rightarrow> bool" where
  "strtod_ok strtod \<longleftrightarrow>
    (\<forall>p. number_start p \<longrightarrow> list_all (\<lambda>c. tk_is_xdigit c \<or> c \<in> set ''.pPxX+-'')
      (take (snd (strtod p)) p))"

lemma strtod_ok_moves:
  assumes "strtod_ok strtod" "number_start p"
  shows "moves False p (drop (snd (strtod p)) p)"
proof -
  have "\<forall>c \<in> set (take (snd (strtod p)) p). tk_is_xdigit c \<or> c \<in> set ''.pPxX+-''"
    using assms by (simp add: strtod_ok_def list_all_iff)
  moreover have "\<not> (tk_is_xdigit LF \<or> LF \<in> set ''.pPxX+-'')" by simp
  ultimately have "LF \<notin> set (take (snd (strtod p)) p)" by blast
  then show ?thesis by (simp add: consumes_drop)
qed

locale token_function =
  fixes lex :: "lex_env \<Rightarrow> string \<Rightarrow> (token_t \<times> string) option outcome"
    and nl :: bool
  assumes token_covers: "lex env p = Value (Some (t, q)) \<Longrightarrow> covers nl env p t q"
begin

lemma progress: "lex env p = Value (Some (t, q)) \<Longrightarrow> length q < length p"
  using token_covers by (simp add: covers_def)

lemma suffix: "lex env p = Value (Some (t, q)) \<Longrightarrow> \<exists>b. p = b @ q \<and> b \<noteq> [] \<and> (LF \<in> set b \<longrightarrow> nl)"
  using token_covers by (fastforce simp: covers_def moves_def)

lemma fields:
  assumes "lex env p = Value (Some (t, q))"
  shows "tok_kind t \<noteq> TK_EOF" "tok_kind t \<noteq> TK_UNKNOWN" "tok_line_no t = le_line_no env"
    "tok_byte_offset t = (let k = int (span (le_input env) p) in if k \<le> INT_MAX then k else - 1)"
    "tok_byte_length t = length p - length q"
    "tok_at_bol t = le_at_bol env" "tok_has_space t = le_has_space env"
proof -
  have t: "tok_kind t \<noteq> TK_EOF" "tok_kind t \<noteq> TK_UNKNOWN" "t = init_token_base env (tok_kind t) p (length p - length q) (tok_data t)"
    using token_covers [OF assms] unfolding covers_def by auto
  show "tok_kind t \<noteq> TK_EOF" "tok_kind t \<noteq> TK_UNKNOWN" by (rule t)+
  show "tok_line_no t = le_line_no env"
    "tok_byte_offset t = (let k = int (span (le_input env) p) in if k \<le> INT_MAX then k else - 1)"
    "tok_byte_length t = length p - length q"
    "tok_at_bol t = le_at_bol env" "tok_has_space t = le_has_space env"
    by (subst t(3), simp add: init_token_base_def Let_def)+
qed

end

lemma two_chars_LF:
  assumes "punctuator_kind_for_2chars a b \<noteq> TK_EOF"
  shows "a \<noteq> LF \<and> b \<noteq> LF \<and> a \<noteq> NUL \<and> b \<noteq> NUL"
proof -
  obtain cases k where c: "map_of two_char_cases a = Some cases" "map_of cases b = Some k"
    using assms by (auto simp: punctuator_kind_for_2chars_def switch_char_def split: option.splits)
  from map_of_SomeD [OF c(1)] map_of_SomeD [OF c(2)] show ?thesis
    unfolding two_char_cases_def list.set insert_iff prod.inject
    by (elim disjE conjE) (simp_all, (elim disjE conjE; simp)+)
qed

lemma at_taken:
  assumes "\<forall>i < n. at p i \<noteq> NUL \<and> at p i \<noteq> LF"
  shows "n \<le> length p \<and> LF \<notin> set (take n p)"
proof -
  have "n \<le> length p"
  proof (rule ccontr)
    assume "\<not> n \<le> length p"
    then have "at p (length p) \<noteq> NUL" using assms by auto
    then show False by (simp add: at_def)
  qed
  moreover from this have "\<forall>i < n. p ! i \<noteq> LF" using assms by (auto simp: at_def)
  ultimately show ?thesis by (auto simp: in_set_conv_nth)
qed

lemma switch_char_known [simp]:
  "switch_char cases c \<noteq> TK_UNKNOWN" "punctuator_kind_for_char c \<noteq> TK_UNKNOWN"
  "punctuator_kind_for_2chars c c' \<noteq> TK_UNKNOWN"
  by (simp_all add: switch_char_def punctuator_kind_for_char_def punctuator_kind_for_2chars_def
      split: option.splits)

lemma lookup_keyword_kinds: "lookup_keyword s n = TK_EOF \<or> (\<exists>k. lookup_keyword s n = Keyword k)"
proof -
  have "first_keyword s cases = TK_EOF \<or> (\<exists>k. first_keyword s cases = Keyword k)" for cases
    by (auto simp: first_keyword_def split: option.splits)
  then show ?thesis by (simp add: lookup_keyword_def)
qed

lemma lookup_keyword_known [simp]: "lookup_keyword s n \<noteq> TK_UNKNOWN"
  using lookup_keyword_kinds [of s n] by auto

lemma match_punctuator_taken:
  assumes "match_punctuator p = Some (k, n)"
  shows "k \<noteq> TK_EOF \<and> k \<noteq> TK_UNKNOWN \<and> 0 < n \<and> n \<le> length p \<and> LF \<notin> set (take n p)"
proof -
  have "k \<noteq> TK_UNKNOWN"
    using assms by (auto simp: match_punctuator_def Let_def split: if_splits)
  moreover have "k \<noteq> TK_EOF \<and> 0 < n \<and> (\<forall>i < n. at p i \<noteq> NUL \<and> at p i \<noteq> LF)"
    using assms two_chars_LF [of "at p 0" "at p 1"]
    by (auto simp: match_punctuator_def Let_def numeral_eq_Suc less_Suc_eq split: if_splits)
  ultimately show ?thesis using at_taken [of n p] by blast
qed

lemma punctuator1_kind: "tk_is_punctuator1 c \<Longrightarrow> punctuator_kind_for_char c \<noteq> TK_EOF"
  unfolding tk_is_punctuator1_def list.set insert_iff empty_iff
  by (elim disjE) (simp_all add: punctuator_kind_for_char_def switch_char_def)

lemma coversI:
  assumes "moves nl p q" "length q < length p" "kind \<noteq> TK_EOF" "kind \<noteq> TK_UNKNOWN" "n = length p - length q"
  shows "covers nl env p (init_token_base env kind p n d) q"
  using assms by (simp add: covers_def init_token_base_def Let_def)

lemma consumes_taken:
  "0 < n \<and> n \<le> length p \<and> LF \<notin> set (take n p) \<Longrightarrow>
   consumes p (drop n p) \<and> length (drop n p) < length p"
  using consumes_drop [of n p] by auto

interpretation punct: token_function "\<lambda>env p. Value (tokenize_punctuator env p)" False
proof
  fix env p t q
  assume t: "Value (tokenize_punctuator env p) = Value (Some (t, q))"
  show "covers False env p t q"
  proof (cases "match_punctuator p")
    case None
    let ?c = "at p 0"
    have c: "tk_is_punctuator1 ?c" and q: "q = drop 1 p"
      and t: "t = init_token_base env (punctuator_kind_for_char ?c) p 1 Plain"
      using t None by (auto simp: tokenize_punctuator_def tk_is_punctuator1_def split: if_splits)
    have taken: "0 < (1 :: nat) \<and> 1 \<le> length p \<and> LF \<notin> set (take 1 p)"
      using c by (cases p) (auto simp: tk_is_punctuator1_def)
    show ?thesis unfolding t q using taken consumes_taken [OF taken] punctuator1_kind [OF c]
      by (intro coversI) auto
  next
    case (Some kn)
    then obtain k n where m: "match_punctuator p = Some (k, n)" by (cases kn) auto
    note taken = match_punctuator_taken [OF m]
    have t: "t = init_token_base env k p n Plain" and q: "q = drop n p"
      using t m by (auto simp: tokenize_punctuator_def)
    show ?thesis unfolding t q using taken consumes_taken [of n p] by (intro coversI) auto
  qed
qed

lemma checked_span_len_Value: "checked_span_len ctx a b = Value n \<Longrightarrow> n = length a - length b"
  by (auto simp: checked_span_len_def span_def Let_def split: if_splits)

lemma string_body_consumes: "string_body p = Value q \<Longrightarrow> consumes p q \<and> at q 0 = DQ"
proof (induction p rule: string_body.induct)
  case (1 p)
  note step = "1.prems" [unfolded string_body.simps [of p]]
  show ?case
  proof (cases "at p 0 = DQ")
    case True
    then show ?thesis using step by auto
  next
    case False
    then have ne: "at p 0 \<noteq> NUL" "at p 0 \<noteq> LF" using step by (auto split: if_splits)
    have 1: "consumes p (drop 1 p)" using ne(2) by (rule consumes_drop1)
    show ?thesis
    proof (cases "at p 0 = BSL")
      case True
      then obtain r where r: "tk_skip_escape_in_literal_ctx (drop 1 p) = Value r" "string_body r = Value q"
        using step ne False by (auto split: outcome.splits)
      show ?thesis
        using "1.IH"(1) [OF _ False True r] ne consumes_trans [OF 1 skip_escape_consumes(1) [OF r(1)]]
        by (auto intro: consumes_trans)
    next
      case bsl: False
      then show ?thesis using "1.IH"(2) step ne False 1 by (auto intro: consumes_trans)
    qed
  qed
qed

lemma string_prefix_chars:
  assumes "tk_parse_string_prefix p = (n, k, w)" "0 < n"
  shows "n < length p \<and> LF \<notin> set (take n p) \<and> at p n = DQ"
proof -
  have "\<forall>i < n. at p i \<noteq> NUL \<and> at p i \<noteq> LF" "at p n = DQ"
    using assms by (auto simp: tk_parse_string_prefix_def less_Suc_eq numeral_eq_Suc split: if_splits)
  then show ?thesis using at_taken [of n p] at_nonzero_length [of p n] by auto
qed

lemma char_prefix_chars:
  assumes "tk_parse_char_prefix p = (n, k, w)" "0 < n"
  shows "n < length p \<and> LF \<notin> set (take n p) \<and> at p n = SQ"
proof -
  have "\<forall>i < n. at p i \<noteq> NUL \<and> at p i \<noteq> LF" "at p n = SQ"
    using assms by (auto simp: tk_parse_char_prefix_def less_Suc_eq split: if_splits)
  then show ?thesis using at_taken [of n p] at_nonzero_length [of p n] by auto
qed

lemma consumes_prefix:
  assumes "n < length p" "LF \<notin> set (take n p)" "at p n \<noteq> LF"
  shows "consumes p (drop (Suc n) p) \<and> length (drop (Suc n) p) < length p"
proof -
  have "take (Suc n) p = take n p @ [at p n]" using assms(1) by (simp add: take_Suc_conv_app_nth at_def)
  then have "LF \<notin> set (take (Suc n) p)" using assms by auto
  then show ?thesis using consumes_drop assms(1) by auto
qed

interpretation strings: token_function "tokenize_string_literal ctx" False for ctx
proof
  fix env p t q
  assume t: "tokenize_string_literal ctx env p = Value (Some (t, q))"
  obtain n0 k0 w0 where pre: "tk_parse_string_prefix p = (n0, k0, w0)"
    by (cases "tk_parse_string_prefix p")
  define n where "n = (if at p 0 = DQ then 0 else n0)"
  have n: "n < length p" "LF \<notin> set (take n p)" "at p n = DQ"
    using t string_prefix_chars [OF pre] at_nonzero_length [of p 0]
    by (auto simp: tokenize_string_literal_def pre n_def split: if_splits)
  obtain r d where body: "string_body (drop (Suc n) p) = Value r" and q: "q = drop 1 r"
      and t: "t = init_token_base env TK_STRING p (length p - length q) d"
    using t
    by (auto simp: tokenize_string_literal_def pre n_def Let_def elim!: outcome_bind_ValueE
        dest!: checked_span_len_Value split: if_splits)
  have 1: "consumes p (drop (Suc n) p)" "length (drop (Suc n) p) < length p"
    using consumes_prefix [of n p] n by auto
  have 2: "consumes (drop (Suc n) p) r" "at r 0 = DQ" using string_body_consumes [OF body] by auto
  have "consumes r q" unfolding q by (rule consumes_drop1) (simp add: 2(2))
  with 1 2 have "consumes p q" "length q < length p"
    using consumes_trans consumes_length by (blast, fastforce)
  then show "covers False env p t q" unfolding t by (intro coversI) auto
qed

lemma char_body_consumes: "char_body k ch n p = Value (ch', n', q) \<Longrightarrow> consumes p q"
proof (induction k ch n p rule: char_body.induct)
  case (1 k ch n p)
  note step = "1.prems" [unfolded char_body.simps [of k ch n p]]
  show ?case
  proof (cases "at p 0 = NUL \<or> at p 0 = SQ")
    case True
    then show ?thesis using step by auto
  next
    case False
    then obtain one r where v: "char_literal_value k p = Value (one, r)"
      using step by (auto split: outcome.splits)
    then have "consumes r q" using "1.IH" [OF False v refl] step False
      by (auto simp: Let_def split: if_splits)
    then show ?thesis using char_literal_value_consumes [OF v] False consumes_trans by blast
  qed
qed

interpretation chars: token_function "tokenize_char_literal ctx" False for ctx
proof
  fix env p t q
  assume t: "tokenize_char_literal ctx env p = Value (Some (t, q))"
  obtain n k w where pre: "tk_parse_char_prefix p = (n, k, w)" by (cases "tk_parse_char_prefix p")
  have n: "n < length p" "LF \<notin> set (take n p)" "at p n = SQ"
    using t char_prefix_chars [OF pre] at_nonzero_length [of p 0]
    by (cases "n = 0"; auto simp: tokenize_char_literal_def pre split: if_splits)+
  obtain ch m r d where body: "char_body k 0 0 (drop (Suc n) p) = Value (ch, m, r)"
      and r: "at r 0 = SQ" and q: "q = drop 1 r"
      and t: "t = init_token_base env TK_NUM p (length p - length q) d"
    using t
    by (auto simp: tokenize_char_literal_def pre Let_def elim!: outcome_bind_ValueE
        dest!: checked_span_len_Value split: if_splits)
  have 1: "consumes p (drop (Suc n) p)" "length (drop (Suc n) p) < length p"
    using consumes_prefix [of n p] n by auto
  have "consumes r q" unfolding q by (rule consumes_drop1) (simp add: r)
  with 1 char_body_consumes [OF body] have "consumes p q" "length q < length p"
    using consumes_trans consumes_length by (blast, fastforce)
  then show "covers False env p t q" unfolding t by (intro coversI) auto
qed

lemma ident_body_consumes: "ident_body p u = (q, u') \<Longrightarrow> consumes p q"
proof (induction p u rule: ident_body.induct)
  case (1 p u)
  show ?case
  proof (cases "tk_scan_ident_continue p")
    case None
    then show ?thesis using "1.prems" by (simp add: ident_body.simps [of p u])
  next
    case (Some n)
    then show ?thesis
      using "1.IH" "1.prems" consumes_taken [OF ident_continue_advances [OF Some]]
      by (auto simp: ident_body.simps [of p u] intro: consumes_trans)
  qed
qed

interpretation idents: token_function "tokenize_ident_or_keyword ctx" False for ctx
proof
  fix env p t q
  assume t: "tokenize_ident_or_keyword ctx env p = Value (Some (t, q))"
  obtain n k d u u' where start: "tk_scan_ident_start p = Some n"
      and body: "ident_body (drop n p) u = (q, u')"
      and t: "t = init_token_base env k p (length p - length q) d" "k \<noteq> TK_EOF" "k \<noteq> TK_UNKNOWN"
    using t
    by (auto simp: tokenize_ident_or_keyword_def Let_def elim!: outcome_bind_ValueE
        dest!: checked_span_len_Value split: option.splits if_splits prod.splits)
  have 1: "consumes p (drop n p)" "length (drop n p) < length p"
    using consumes_taken [OF ident_start_advances [OF start]] by auto
  with ident_body_consumes [OF body] have "consumes p q" "length q < length p"
    using consumes_trans consumes_length by (blast, fastforce)
  then show "covers False env p t q" unfolding t(1) using t(2,3) by (intro coversI) auto
qed

lemma number_token:
  assumes t: "tokenize_number_literal strtod ctx env p = Value (Some (t, q))"
    and m: "moves nl p (drop (snd (strtod p)) p)"
  shows "covers nl env p t q"
proof -
  have start: "number_start p"
    using t by (auto simp: tokenize_number_literal_def number_start_def split: if_splits)
  obtain num d where n: "tk_parse_number_literal_ctx strtod ctx p parsed_zero = Value (num, q)"
      and t: "t = init_token_base env TK_NUM p (length p - length q) d"
    using t
    by (auto simp: tokenize_number_literal_def Let_def elim!: outcome_bind_ValueE
        dest!: checked_span_len_Value split: if_splits)
  show ?thesis unfolding t using number_consumes [OF n start m] by (intro coversI) auto
qed

interpretation numbers: token_function "tokenize_number_literal strtod ctx" True for strtod ctx
  by unfold_locales (rule number_token [OF _ moves_drop])

lemma token_function_or_else:
  assumes "token_function (\<lambda>env p. f env p) nl" "token_function (\<lambda>env p. g env p) nl"
  shows "token_function (\<lambda>env p. or_else (f env p) (g env p)) nl"
  using assms unfolding token_function_def or_else_def
  by (auto elim!: outcome_bind_ValueE split: option.splits)

lemma token_function_mono: "token_function f False \<Longrightarrow> token_function f nl"
  by (auto simp: token_function_def covers_def intro: consumes_moves)

lemma tokenize_one_function:
  assumes "token_function (tokenize_number_literal strtod ctx) nl"
  shows "token_function (tokenize_one strtod ctx) nl"
  unfolding tokenize_one_def [abs_def]
  by (intro token_function_or_else)
    (auto intro: assms token_function_mono punct.token_function_axioms strings.token_function_axioms
      chars.token_function_axioms idents.token_function_axioms)

interpretation tokens: token_function "tokenize_one strtod ctx" True for strtod ctx
  by (rule tokenize_one_function) (rule numbers.token_function_axioms)

lemma number_function_ok:
  "strtod_ok strtod \<Longrightarrow> token_function (tokenize_number_literal strtod ctx) False"
  by unfold_locales
    (rule number_token, assumption, rule strtod_ok_moves,
     auto simp: tokenize_number_literal_def number_start_def split: if_splits)

lemma tokenize_one_tolerance:
  "tokenize_one strtod (ctx\<lparr>tc_tolerate_untokenizable := b\<rparr>) = tokenize_one strtod ctx"
proof -
  let ?ctx = "ctx\<lparr>tc_tolerate_untokenizable := b\<rparr>"
  have c: "checked_span_len ?ctx = checked_span_len ctx"
    by (simp add: checked_span_len_def fun_eq_iff)
  have n: "tk_parse_number_literal_ctx strtod ?ctx = tk_parse_number_literal_ctx strtod ctx"
    by (simp add: tk_parse_number_literal_ctx_def parse_zero_prefixed_number_def
        tk_is_binary_literal_enabled_in_ctx_def fun_eq_iff)
  show ?thesis
    by (intro ext) (simp only: tokenize_one_def tokenize_string_literal_def tokenize_char_literal_def
        tokenize_ident_or_keyword_def tokenize_number_literal_def c n)
qed

section \<open>Properties\<close>

text \<open>
  A floating literal that starts with its point is split: the point becomes a token of its own
  and the digits are left for the next one, because the punctuators, which are tried first,
  contain the point unconditionally.
\<close>

theorem leading_point_split:
  assumes "tk_is_digit d"
  shows "\<exists>t. tokenize_one strtod ctx env (CHR ''.'' # d # rest) = Value (Some (t, d # rest)) \<and>
    tok_kind t = Punctuator TK_DOT \<and> tok_byte_length t = 1"
proof -
  have "d \<noteq> CHR ''.''" using assms by (auto simp: tk_is_digit_def)
  then have "match_punctuator (CHR ''.'' # d # rest) = None"
    by (simp add: match_punctuator_def punctuator_kind_for_2chars_def two_char_cases_def)
  then show ?thesis
    by (simp add: tokenize_one_def or_else_def tokenize_punctuator_def tk_is_punctuator1_def
        punctuator_kind_for_char_def switch_char_def init_token_base_def Let_def)
qed

text \<open>The literal \<^verbatim>\<open>.5f\<close>.\<close>

lemma leading_point_split_witness:
  "\<exists>t. tokenize_one (\<lambda>p. (0, 2)) init_context \<lparr>le_input = ''.5f'', le_line_no = 1, le_at_bol = True,
      le_has_space = False\<rparr> ''.5f'' = Value (Some (t, ''5f'')) \<and>
    tok_kind t = Punctuator TK_DOT \<and> tok_byte_length t = 1"
  by (rule leading_point_split) (simp add: tk_is_digit_def)

lemma ident_body_ends: "ident_body p u = (q, u') \<Longrightarrow> tk_scan_ident_continue q = None"
proof (induction p u rule: ident_body.induct)
  case (1 p u)
  then show ?case by (cases "tk_scan_ident_continue p") (simp_all add: ident_body.simps [of p u])
qed

lemma ident_body_ucn:
  "ident_body p u = (q, u') \<Longrightarrow> u' \<Longrightarrow> u \<or> BSL \<in> set (take (length p - length q) p)"
proof (induction p u rule: ident_body.induct)
  case (1 p u)
  show ?case
  proof (cases "tk_scan_ident_continue p")
    case None
    then show ?thesis using "1.prems" by (simp add: ident_body.simps [of p u])
  next
    case (Some n)
    note n = ident_continue_advances [OF Some]
    let ?u = "u \<or> at p 0 = BSL \<and> n > 1"
    have body: "ident_body (drop n p) ?u = (q, u')"
      using "1.prems"(1) Some by (simp add: ident_body.simps [of p u])
    obtain b where b: "drop n p = b @ q" using ident_body_consumes [OF body] by (auto simp: consumes_def)
    then have p: "p = take n p @ b @ q" by (metis append_take_drop_id)
    then have k: "take (length p - length q) p = take n p @ b"
      by (metis append.assoc append_eq_conv_conj diff_add_inverse2 length_append)
    have "u \<or> at p 0 = BSL \<or> BSL \<in> set b"
      using "1.IH" [OF Some body "1.prems"(2)] b by auto
    moreover have "at p 0 = BSL \<Longrightarrow> BSL \<in> set (take n p)" using n by (cases p; cases n) auto
    ultimately show ?thesis unfolding k by auto
  qed
qed

lemma keyword_str_no_backslash: "BSL \<notin> set (keyword_str kw)"
  by (cases kw) simp_all

text \<open>
  Words are scanned to their end and classified by spelling: behind an identifier or keyword
  token no character continues a word, and the token is a given keyword exactly when its text is
  that keyword's display name; every other word is an identifier.
\<close>

theorem word_token:
  assumes "tokenize_ident_or_keyword ctx env p = Value (Some (t, q))"
  shows "tk_scan_ident_continue q = None \<and>
    (tok_kind t = Keyword kw \<longleftrightarrow> take (length p - length q) p = keyword_str kw) \<and>
    (tok_kind t = TK_IDENT \<or> (\<exists>kw. tok_kind t = Keyword kw))"
proof -
  let ?len = "length p - length q"
  obtain n where start: "tk_scan_ident_start p = Some n"
    using assms by (auto simp: tokenize_ident_or_keyword_def split: option.splits)
  obtain r u' where body': "ident_body (drop n p) (at p 0 = BSL \<and> n > 1) = (r, u')"
    by (cases "ident_body (drop n p) (at p 0 = BSL \<and> n > 1)")
  obtain len id_str has_ucn where len: "checked_span_len ctx p r = Value len"
      and name: "(if u' then tk_decode_identifier_ucn p len else Value (take len p, False)) =
        Value (id_str, has_ucn)"
      and tok: "Some (t, q) = Some (if (if \<not> has_ucn then lookup_keyword p len else TK_EOF) \<noteq> TK_EOF
        then init_token_base env (if \<not> has_ucn then lookup_keyword p len else TK_EOF) p len Plain
        else init_token_base env TK_IDENT p len (Ident id_str), r)"
    using assms
    by (simp only: tokenize_ident_or_keyword_def start body' option.case Let_def prod.case)
      (auto elim!: outcome_bind_ValueE)
  have body: "ident_body (drop n p) (at p 0 = BSL \<and> n > 1) = (q, u')" and "len = ?len"
    using body' tok checked_span_len_Value [OF len] by simp_all
  then have kind: "tok_kind t = (if \<not> has_ucn \<and> lookup_keyword p ?len \<noteq> TK_EOF
        then lookup_keyword p ?len else TK_IDENT)"
    using tok by (simp add: init_token_base_def Let_def)
  have ucn: "has_ucn \<Longrightarrow> u'" using name by (auto split: if_splits)
  note n = ident_start_advances [OF start]
  have "BSL \<in> set (take ?len p)" if u': "u'"
  proof -
    obtain b where b: "drop n p = b @ q" using ident_body_consumes [OF body] by (auto simp: consumes_def)
    then have "p = take n p @ b @ q" by (metis append_take_drop_id)
    then have k: "take ?len p = take n p @ b"
      by (metis append.assoc append_eq_conv_conj diff_add_inverse2 length_append)
    have "at p 0 = BSL \<Longrightarrow> BSL \<in> set (take n p)" using n by (cases p; cases n) auto
    then show ?thesis using ident_body_ucn [OF body u'] b unfolding k by auto
  qed
  then have plain: "take ?len p = keyword_str kw \<Longrightarrow> \<not> has_ucn"
    using ucn keyword_str_no_backslash [of kw] by auto
  have spelled: "lookup_keyword p ?len = Keyword kw \<longleftrightarrow> take ?len p = keyword_str kw"
    unfolding lookup_keyword_iff by (auto simp: min_def) (metis diff_le_self length_take min.absorb2)
  have "tok_kind t = Keyword kw \<longleftrightarrow> take ?len p = keyword_str kw"
    unfolding kind using plain spelled by (cases has_ucn) auto
  then show ?thesis using ident_body_ends [OF body] kind lookup_keyword_kinds [of p ?len] by auto
qed

text \<open>The word \<^verbatim>\<open>int\<close>, and the identifier \<^verbatim>\<open>int8\<close>.\<close>

lemma word_token_witness:
  "\<exists>t. tokenize_ident_or_keyword init_context \<lparr>le_input = ''int x'', le_line_no = 1, le_at_bol = True,
      le_has_space = False\<rparr> ''int x'' = Value (Some (t, '' x'')) \<and> tok_kind t = Keyword TK_INT"
proof -
  let ?t = "\<lparr>tok_kind = Keyword TK_INT, tok_line_no = 1, tok_byte_offset = 0, tok_byte_length = 3,
    tok_at_bol = True, tok_has_space = False, tok_data = Plain\<rparr>"
  have t: "tokenize_ident_or_keyword init_context \<lparr>le_input = ''int x'', le_line_no = 1,
      le_at_bol = True, le_has_space = False\<rparr> ''int x'' = Value (Some (?t, '' x''))"
    by code_simp
  show ?thesis using word_token [OF t, of TK_INT] t by (intro exI [of _ ?t]) simp
qed

end
