(* ===== verification/TokenStream.thy ===== *)
theory TokenStream
  imports Tokenizer
begin

text \<open>
  The pull tokenizer, \<^verbatim>\<open>tk_token_stream\<close> of \<^verbatim>\<open>tokenizer/tokenizer.c\<close>: the stream's state, its
  operations, and the batch loop on top of it. This is the host build, where the tolerant mode
  catches the diagnostics of a token with \<^verbatim>\<open>setjmp\<close>. Line numbers are unbounded here, an \<^verbatim>\<open>int\<close> in
  the code.
\<close>

section \<open>The stream\<close>

record tk_token_stream =
  ss_input_start :: string
  ss_p :: string
  ss_splice_offsets :: "nat list"
  ss_next_splice :: nat
  ss_at_bol :: bool
  ss_has_space :: bool
  ss_line_no :: int
  ss_done :: bool

definition tk_stream_open :: "tokenizer_context_t \<Rightarrow> string \<Rightarrow> tk_token_stream" where
  "tk_stream_open ctx text =
    (let (normalized, offsets) = tokenize_prepare_input ctx text
     in \<lparr>ss_input_start = normalized, ss_p = normalized, ss_splice_offsets = offsets,
         ss_next_splice = 0, ss_at_bol = True, ss_has_space = False, ss_line_no = 1,
         ss_done = False\<rparr>)"

function account_removed_newlines :: "tk_token_stream \<Rightarrow> tk_token_stream" where
  "account_removed_newlines s =
    (let current_offset = span (ss_input_start s) (ss_p s)
     in if ss_next_splice s < length (ss_splice_offsets s) \<and>
           ss_splice_offsets s ! ss_next_splice s \<le> current_offset
        then account_removed_newlines
          (s\<lparr>ss_line_no := ss_line_no s + 1, ss_next_splice := ss_next_splice s + 1\<rparr>)
        else s)"
  by pat_completeness auto
termination
  by (relation "measure (\<lambda>s. length (ss_splice_offsets s) - ss_next_splice s)") auto

declare account_removed_newlines.simps [simp del]

definition skip_to_token :: "tk_token_stream \<Rightarrow> tk_token_stream outcome" where
  "skip_to_token s =
    outcome_bind
      (tk_skip_ignored_ctx \<lparr>sk_p = ss_p s, sk_at_bol = ss_at_bol s, sk_has_space = ss_has_space s,
                            sk_line_no = ss_line_no s\<rparr>)
      (\<lambda>k. Value (account_removed_newlines
        (s\<lparr>ss_p := sk_p k, ss_at_bol := sk_at_bol k, ss_has_space := sk_has_space k,
           ss_line_no := sk_line_no k\<rparr>)))"

text \<open>The next token, \<open>None\<close> behind the end of the stream.\<close>

definition tk_stream_next ::
    "strtod_t \<Rightarrow> tokenizer_context_t \<Rightarrow> tk_token_stream \<Rightarrow> (token_t option \<times> tk_token_stream) outcome" where
  "tk_stream_next strtod ctx s0 =
    (if ss_done s0 then Value (None, s0)
     else outcome_bind (skip_to_token s0) (\<lambda>s.
       let env = \<lparr>le_input = ss_input_start s, le_line_no = ss_line_no s,
                  le_at_bol = ss_at_bol s, le_has_space = ss_has_space s\<rparr>
       in if at (ss_p s) 0 = NUL
          then Value (Some (init_token_base (env\<lparr>le_at_bol := False, le_has_space := False\<rparr>)
                        TK_EOF (ss_p s) 0 Plain), s\<lparr>ss_done := True\<rparr>)
          else
            let s1 = s\<lparr>ss_at_bol := False, ss_has_space := False\<rparr>;
                unknown = (init_token_base env TK_UNKNOWN (ss_p s) 1 Plain, drop 1 (ss_p s))
            in case tokenize_one strtod ctx env (ss_p s) of
                 Value (Some (tok, q)) \<Rightarrow> Value (Some tok, s1\<lparr>ss_p := q\<rparr>)
               | Value None \<Rightarrow>
                   if tc_tolerate_untokenizable ctx
                   then Value (Some (fst unknown), s1\<lparr>ss_p := snd unknown\<rparr>) else Refused
               | Refused \<Rightarrow>
                   if tc_tolerate_untokenizable ctx
                   then Value (Some (fst unknown), s1\<lparr>ss_p := snd unknown\<rparr>) else Refused
               | Undefined \<Rightarrow> Undefined))"

section \<open>Progress of the stream\<close>

lemma account_fields [simp]:
  "ss_p (account_removed_newlines s) = ss_p s"
  "ss_input_start (account_removed_newlines s) = ss_input_start s"
  "ss_splice_offsets (account_removed_newlines s) = ss_splice_offsets s"
  "ss_done (account_removed_newlines s) = ss_done s"
  by (induction s rule: account_removed_newlines.induct; subst account_removed_newlines.simps;
      simp add: Let_def)+

lemma skip_to_token_Value:
  assumes "skip_to_token s = Value s'"
  shows "ss_input_start s' = ss_input_start s" "ss_splice_offsets s' = ss_splice_offsets s"
    "ss_done s' = ss_done s" "length (ss_p s') \<le> length (ss_p s)" "at (ss_p s') 0 \<noteq> LF"
proof -
  obtain k where k: "tk_skip_ignored_ctx \<lparr>sk_p = ss_p s, sk_at_bol = ss_at_bol s,
      sk_has_space = ss_has_space s, sk_line_no = ss_line_no s\<rparr> = Value k"
    and s': "s' = account_removed_newlines (s\<lparr>ss_p := sk_p k, ss_at_bol := sk_at_bol k,
      ss_has_space := sk_has_space k, ss_line_no := sk_line_no k\<rparr>)"
    using assms by (auto simp: skip_to_token_def elim!: outcome_bind_ValueE)
  note st = skip_ignored_settled [OF k]
  show "length (ss_p s') \<le> length (ss_p s)" using st skipped_length by (fastforce simp: s')
  show "at (ss_p s') 0 \<noteq> LF" using st by (auto simp: s' settled_def tk_is_space_fast_def)
qed (use assms in \<open>auto simp: skip_to_token_def elim!: outcome_bind_ValueE\<close>)

text \<open>The three ways a stream that is not done hands out a token.\<close>

lemma stream_next_cases:
  assumes "tk_stream_next strtod ctx s0 = Value (Some t, s')"
  obtains (eof) s where "skip_to_token s0 = Value s" "at (ss_p s) 0 = NUL" "s' = s\<lparr>ss_done := True\<rparr>"
      "t = init_token_base \<lparr>le_input = ss_input_start s, le_line_no = ss_line_no s, le_at_bol = False,
        le_has_space = False\<rparr> TK_EOF (ss_p s) 0 Plain" "\<not> ss_done s0"
    | (token) s env q where "skip_to_token s0 = Value s" "at (ss_p s) 0 \<noteq> NUL"
      "env = \<lparr>le_input = ss_input_start s, le_line_no = ss_line_no s, le_at_bol = ss_at_bol s,
        le_has_space = ss_has_space s\<rparr>"
      "tokenize_one strtod ctx env (ss_p s) = Value (Some (t, q))"
      "s' = s\<lparr>ss_at_bol := False, ss_has_space := False, ss_p := q\<rparr>" "\<not> ss_done s0"
    | (unknown) s env where "skip_to_token s0 = Value s" "at (ss_p s) 0 \<noteq> NUL"
      "env = \<lparr>le_input = ss_input_start s, le_line_no = ss_line_no s, le_at_bol = ss_at_bol s,
        le_has_space = ss_has_space s\<rparr>"
      "tc_tolerate_untokenizable ctx" "t = init_token_base env TK_UNKNOWN (ss_p s) 1 Plain"
      "s' = s\<lparr>ss_at_bol := False, ss_has_space := False, ss_p := drop 1 (ss_p s)\<rparr>" "\<not> ss_done s0"
proof -
  obtain s where nd: "\<not> ss_done s0" and s: "skip_to_token s0 = Value s"
    using assms by (auto simp: tk_stream_next_def elim!: outcome_bind_ValueE split: if_splits)
  define env where "env = \<lparr>le_input = ss_input_start s, le_line_no = ss_line_no s,
    le_at_bol = ss_at_bol s, le_has_space = ss_has_space s\<rparr>"
  note nxt = assms [unfolded tk_stream_next_def s, simplified nd Let_def, simplified, folded env_def]
  show thesis
  proof (cases "at (ss_p s) 0 = NUL")
    case True
    then show thesis using nxt by (intro eof [OF s]) (auto simp: env_def nd)
  next
    case False
    consider (tok) q where "tokenize_one strtod ctx env (ss_p s) = Value (Some (t, q))"
        "s' = s\<lparr>ss_at_bol := False, ss_has_space := False, ss_p := q\<rparr>"
      | (unk) "tc_tolerate_untokenizable ctx" "t = init_token_base env TK_UNKNOWN (ss_p s) 1 Plain"
        "s' = s\<lparr>ss_at_bol := False, ss_has_space := False, ss_p := drop 1 (ss_p s)\<rparr>"
      using nxt False by (auto split: if_splits outcome.splits option.splits)
    then show thesis
    proof cases
      case tok
      then show thesis by (intro token [OF s False env_def] nd)
    next
      case unk
      then show thesis by (intro unknown [OF s False env_def] nd)
    qed
  qed
qed

lemma stream_next_progress:
  assumes "tk_stream_next strtod ctx s = Value (Some t, s')"
  shows "\<not> ss_done s \<and> (ss_done s' \<or> \<not> ss_done s' \<and> length (ss_p s') < length (ss_p s))"
  using assms
proof (cases rule: stream_next_cases)
  case (token s1 env q)
  then show ?thesis using skip_to_token_Value [OF token(1)] tokens.progress [OF token(4)] by simp
next
  case (unknown s1 env)
  then have "ss_p s1 \<noteq> []" by auto
  then have "length (drop 1 (ss_p s1)) < length (ss_p s1)" by (cases "ss_p s1") auto
  then show ?thesis using skip_to_token_Value [OF unknown(1)] unknown by simp
qed simp

section \<open>Tokenizing a whole text\<close>

text \<open>The loop of \<^verbatim>\<open>tk_tokenize_ctx\<close>.\<close>

function stream_tokens ::
    "strtod_t \<Rightarrow> tokenizer_context_t \<Rightarrow> tk_token_stream \<Rightarrow> token_t list outcome" where
  "stream_tokens strtod ctx s =
    (case tk_stream_next strtod ctx s of
       Refused \<Rightarrow> Refused
     | Undefined \<Rightarrow> Undefined
     | Value (None, s') \<Rightarrow> Value []
     | Value (Some t, s') \<Rightarrow> map_outcome (Cons t) (stream_tokens strtod ctx s'))"
  by pat_completeness auto
termination
  by (relation "measure (\<lambda>(_, _, s). if ss_done s then 0 else 1 + length (ss_p s))")
    (auto dest: stream_next_progress)

declare stream_tokens.simps [simp del]

definition tk_tokenize_ctx :: "strtod_t \<Rightarrow> tokenizer_context_t \<Rightarrow> string \<Rightarrow> token_t list outcome" where
  "tk_tokenize_ctx strtod ctx source = stream_tokens strtod ctx (tk_stream_open ctx source)"

section \<open>Reachable streams\<close>

inductive reachable :: "strtod_t \<Rightarrow> tokenizer_context_t \<Rightarrow> string \<Rightarrow> tk_token_stream \<Rightarrow> bool"
  for strtod :: strtod_t and ctx :: tokenizer_context_t and source :: string where
  opened: "reachable strtod ctx source (tk_stream_open ctx source)"
| pulled: "reachable strtod ctx source s \<Longrightarrow> tk_stream_next strtod ctx s = Value (r, s') \<Longrightarrow>
    reachable strtod ctx source s'"

text \<open>The line is that of the cursor but for splices removed since the last token.\<close>

definition stream_ok :: "tk_token_stream \<Rightarrow> bool" where
  "stream_ok s \<longleftrightarrow>
    (\<exists>pre. ss_input_start s = pre @ ss_p s \<and>
      ss_line_no s = 1 + int (newlines pre) + int (ss_next_splice s) \<and>
      ss_next_splice s \<le> length (ss_splice_offsets s) \<and>
      (\<forall>i < ss_next_splice s. ss_splice_offsets s ! i \<le> length pre))"

definition accounted :: "tk_token_stream \<Rightarrow> bool" where
  "accounted s \<longleftrightarrow>
    ss_next_splice s = length (filter (\<lambda>i. i \<le> span (ss_input_start s) (ss_p s)) (ss_splice_offsets s))"

lemma account_ok: "stream_ok s \<Longrightarrow> stream_ok (account_removed_newlines s)"
proof (induction s rule: account_removed_newlines.induct)
  case (1 s)
  show ?case
  proof (cases "ss_next_splice s < length (ss_splice_offsets s) \<and>
      ss_splice_offsets s ! ss_next_splice s \<le> span (ss_input_start s) (ss_p s)")
    case True
    let ?s = "s\<lparr>ss_line_no := ss_line_no s + 1, ss_next_splice := ss_next_splice s + 1\<rparr>"
    have "stream_ok ?s" using "1.prems" True by (auto simp: stream_ok_def span_def less_Suc_eq)
    then show ?thesis using "1.IH" [OF refl True]
      by (subst account_removed_newlines.simps) (use True in \<open>simp add: Let_def\<close>)
  next
    case False
    then show ?thesis using "1.prems" by (subst account_removed_newlines.simps) (auto simp: Let_def)
  qed
qed

lemma account_stops:
  "let s' = account_removed_newlines s in
    ss_next_splice s' < length (ss_splice_offsets s') \<longrightarrow>
    span (ss_input_start s') (ss_p s') < ss_splice_offsets s' ! ss_next_splice s'"
proof (induction s rule: account_removed_newlines.induct)
  case (1 s)
  show ?case
  proof (cases "ss_next_splice s < length (ss_splice_offsets s) \<and>
      ss_splice_offsets s ! ss_next_splice s \<le> span (ss_input_start s) (ss_p s)")
    case True
    then have "account_removed_newlines s = account_removed_newlines
        (s\<lparr>ss_line_no := ss_line_no s + 1, ss_next_splice := ss_next_splice s + 1\<rparr>)"
      by (subst account_removed_newlines.simps) (simp add: Let_def)
    then show ?thesis using "1.IH" [OF refl True] by simp
  next
    case False
    then have "account_removed_newlines s = s"
      by (subst account_removed_newlines.simps) (auto simp: Let_def)
    then show ?thesis using False by auto
  qed
qed

lemma sorted_filter_prefix:
  fixes xs :: "nat list"
  assumes "sorted xs" "n \<le> length xs" "\<forall>i < n. xs ! i \<le> k" "n < length xs \<longrightarrow> k < xs ! n"
  shows "length (filter (\<lambda>i. i \<le> k) xs) = n"
proof -
  have "\<forall>x \<in> set (take n xs). x \<le> k" using assms(2,3) by (auto simp: in_set_conv_nth)
  moreover have "\<forall>x \<in> set (drop n xs). \<not> x \<le> k"
  proof
    fix x assume "x \<in> set (drop n xs)"
    then obtain i where "i < length (drop n xs)" "x = drop n xs ! i" unfolding in_set_conv_nth by blast
    then have i: "n + i < length xs" "x = xs ! (n + i)" using assms(2) by auto
    moreover from this have "xs ! n \<le> xs ! (n + i)" using assms(1) by (intro sorted_nth_mono) auto
    ultimately show "\<not> x \<le> k" using assms(4) by auto
  qed
  moreover have "filter (\<lambda>i. i \<le> k) xs = filter (\<lambda>i. i \<le> k) (take n xs) @ filter (\<lambda>i. i \<le> k) (drop n xs)"
    by (metis append_take_drop_id filter_append)
  ultimately show ?thesis using assms(2) by (simp add: filter_True filter_False)
qed

lemma account_accounted:
  assumes "stream_ok s" "sorted (ss_splice_offsets s)"
  shows "accounted (account_removed_newlines s)"
proof -
  let ?s = "account_removed_newlines s"
  obtain pre where pre: "ss_input_start ?s = pre @ ss_p ?s"
      "ss_next_splice ?s \<le> length (ss_splice_offsets ?s)"
      "\<forall>i < ss_next_splice ?s. ss_splice_offsets ?s ! i \<le> length pre"
    using account_ok [OF assms(1)] unfolding stream_ok_def by blast
  have "span (ss_input_start ?s) (ss_p ?s) = length pre" using pre(1) by (simp add: span_def)
  then show ?thesis
    using sorted_filter_prefix [of "ss_splice_offsets ?s" "ss_next_splice ?s" "length pre"]
      pre account_stops [of s] assms(2)
    by (simp add: accounted_def Let_def)
qed

lemma splice_offsets_sorted: "sorted (snd (splice_loop j p))"
proof (induction j p rule: splice_loop.induct)
  case (2 j c p)
  then show ?case
    using splice_offsets_ge by (auto simp: splice_loop.simps(2) Let_def split_def)
qed simp

lemma stream_ok_moves:
  assumes ok: "stream_ok s" and m: "moves False (ss_p s) q"
    and s': "ss_input_start s' = ss_input_start s" "ss_splice_offsets s' = ss_splice_offsets s"
      "ss_line_no s' = ss_line_no s" "ss_next_splice s' = ss_next_splice s" "ss_p s' = q"
  shows "stream_ok s'"
proof -
  obtain pre where pre: "ss_input_start s = pre @ ss_p s"
      "ss_line_no s = 1 + int (newlines pre) + int (ss_next_splice s)"
      "ss_next_splice s \<le> length (ss_splice_offsets s)"
      "\<forall>i < ss_next_splice s. ss_splice_offsets s ! i \<le> length pre"
    using ok unfolding stream_ok_def by blast
  obtain b where b: "ss_p s = b @ q" "LF \<notin> set b" using m by (auto simp: moves_def consumes_def)
  then have "newlines b = 0" by (simp add: count_list_0_iff)
  then show ?thesis unfolding stream_ok_def s' using pre b(1)
    by (intro exI [of _ "pre @ b"]) auto
qed

lemma skip_to_token_ok:
  assumes "skip_to_token s = Value s'" "stream_ok s" "sorted (ss_splice_offsets s)"
  shows "stream_ok s' \<and> accounted s'"
proof -
  obtain k where k: "tk_skip_ignored_ctx \<lparr>sk_p = ss_p s, sk_at_bol = ss_at_bol s,
      sk_has_space = ss_has_space s, sk_line_no = ss_line_no s\<rparr> = Value k"
    and s': "s' = account_removed_newlines (s\<lparr>ss_p := sk_p k, ss_at_bol := sk_at_bol k,
      ss_has_space := sk_has_space k, ss_line_no := sk_line_no k\<rparr>)" (is "_ = account_removed_newlines ?s")
    using assms(1) by (auto simp: skip_to_token_def elim!: outcome_bind_ValueE)
  obtain b where b: "ss_p s = b @ sk_p k" "sk_line_no k = ss_line_no s + int (newlines b)"
    using skip_ignored_settled [OF k] by (auto simp: skipped_def)
  obtain pre where "ss_input_start s = pre @ ss_p s"
      "ss_line_no s = 1 + int (newlines pre) + int (ss_next_splice s)"
      "ss_next_splice s \<le> length (ss_splice_offsets s)"
      "\<forall>i < ss_next_splice s. ss_splice_offsets s ! i \<le> length pre"
    using assms(2) unfolding stream_ok_def by blast
  then have "stream_ok ?s" unfolding stream_ok_def using b by (intro exI [of _ "pre @ b"]) auto
  then show ?thesis using account_ok account_accounted [of ?s] assms(3) by (simp add: s')
qed

lemma stream_next_ok:
  assumes n: "tk_stream_next strtod ctx s0 = Value (r, s')"
    and ok: "stream_ok s0" "sorted (ss_splice_offsets s0)"
    and f: "token_function (tokenize_one strtod ctx) False"
  shows "stream_ok s'"
proof (cases r)
  case None
  then have "s' = s0"
    using n by (auto simp: tk_stream_next_def Let_def elim!: outcome_bind_ValueE
        split: if_splits outcome.splits option.splits)
  then show ?thesis using ok by simp
next
  case (Some t)
  show ?thesis using n [unfolded Some]
  proof (cases rule: stream_next_cases)
    case (eof s)
    then show ?thesis using skip_to_token_ok [OF eof(1) ok] by (simp add: stream_ok_def)
  next
    case (token s env q)
    have "moves False (ss_p s) q"
      using token_function.token_covers [OF f token(4)] by (simp add: covers_def)
    then show ?thesis using skip_to_token_ok [OF token(1) ok] token(5)
      by (intro stream_ok_moves [of s q s']) auto
  next
    case (unknown s env)
    have "moves False (ss_p s) (drop 1 (ss_p s))"
      using consumes_drop1 skip_to_token_Value(5) [OF unknown(1)] by simp
    then show ?thesis using skip_to_token_ok [OF unknown(1) ok] unknown(6)
      by (intro stream_ok_moves [of s _ s']) auto
  qed
qed

lemma stream_next_fields:
  assumes "tk_stream_next strtod ctx s0 = Value (r, s')"
  shows "ss_input_start s' = ss_input_start s0" "ss_splice_offsets s' = ss_splice_offsets s0"
proof -
  have "ss_input_start s' = ss_input_start s0 \<and> ss_splice_offsets s' = ss_splice_offsets s0"
  proof (cases r)
    case None
    then have "s' = s0"
      using assms by (auto simp: tk_stream_next_def Let_def elim!: outcome_bind_ValueE
          split: if_splits outcome.splits option.splits)
    then show ?thesis by simp
  next
    case (Some t)
    show ?thesis using assms [unfolded Some]
      by (cases rule: stream_next_cases) (simp_all add: skip_to_token_Value)
  qed
  then show "ss_input_start s' = ss_input_start s0" "ss_splice_offsets s' = ss_splice_offsets s0"
    by simp_all
qed

lemma reachable_text:
  "reachable strtod ctx source s \<Longrightarrow>
   (ss_input_start s, ss_splice_offsets s) = tokenize_prepare_input ctx source"
  by (induction rule: reachable.induct)
    (auto simp: tk_stream_open_def split_def Let_def stream_next_fields)

lemma reachable_sorted: "reachable strtod ctx source s \<Longrightarrow> sorted (ss_splice_offsets s)"
  using reachable_text [of strtod ctx source s] splice_offsets_sorted [of 0]
  by (metis remove_line_splices_loop snd_conv tokenize_prepare_input_def)

lemma stream_reachable_ok:
  assumes "reachable strtod ctx source s" "strtod_ok strtod"
  shows "stream_ok s"
  using assms(1)
proof induction
  case opened
  then show ?case
    by (auto simp: tk_stream_open_def stream_ok_def split_def Let_def)
next
  case (pulled s r s')
  have "token_function (tokenize_one strtod ctx) False"
    by (rule tokenize_one_function, rule number_function_ok, rule assms(2))
  then show ?case using stream_next_ok [OF pulled(2,3)] reachable_sorted [OF pulled(1)] by blast
qed

lemma token_line:
  assumes n: "tk_stream_next strtod ctx s0 = Value (Some t, s')"
    and ok: "stream_ok s0" "sorted (ss_splice_offsets s0)"
    and k: "tok_byte_offset t = int k"
  shows "k \<le> length (ss_input_start s0) \<and> tok_line_no t =
    1 + int (newlines (take k (ss_input_start s0))) +
    int (length (filter (\<lambda>i. i \<le> k) (ss_splice_offsets s0)))"
proof -
  obtain s env kd m d where s: "skip_to_token s0 = Value s"
      and t: "t = init_token_base env kd (ss_p s) m d" "le_input env = ss_input_start s"
        "le_line_no env = ss_line_no s"
    using n
  proof (cases rule: stream_next_cases)
    case (eof s)
    then show thesis by (intro that [OF eof(1,4)]) simp_all
  next
    case (token s env q)
    have "t = init_token_base env (tok_kind t) (ss_p s) (length (ss_p s) - length q) (tok_data t)"
      using tokens.token_covers [OF token(4)] unfolding covers_def by blast
    from that [OF token(1) this] show thesis using token(3) by simp
  next
    case (unknown s env)
    then show thesis by (intro that [OF unknown(1,5)]) simp_all
  qed
  obtain pre where pre: "ss_input_start s = pre @ ss_p s"
      "ss_line_no s = 1 + int (newlines pre) + int (ss_next_splice s)"
      and acc: "accounted s"
    using skip_to_token_ok [OF s ok] unfolding stream_ok_def by blast
  have "int (span (ss_input_start s) (ss_p s)) = int k"
    using k unfolding t(1) by (simp add: init_token_base_def t(2) Let_def split: if_splits)
  then have "k = length pre" using pre(1) by (simp add: span_def)
  moreover have "tok_line_no t = ss_line_no s" unfolding t(1) by (simp add: init_token_base_def t(3) Let_def)
  ultimately show ?thesis
    using pre acc skip_to_token_Value(1,2) [OF s] by (simp add: accounted_def span_def)
qed

section \<open>Properties\<close>

text \<open>
  C18. Every token carries its physical line: if \<^verbatim>\<open>strtod\<close> consumes only characters of a floating
  literal, then for each token handed out by the stream, the source (after trigraph replacement)
  splits in front of the token, and the line number is one more than the newlines of the first
  part, those inside comments and line splices included.
\<close>

theorem tokens_on_physical_lines:
  assumes "strtod_ok strtod" "reachable strtod ctx source s"
    and "tk_stream_next strtod ctx s = Value (Some t, s')" "0 \<le> tok_byte_offset t"
  shows "\<exists>a b. tk_replace_trigraphs ctx source = a @ b \<and> line_splice_byte_count b = 0 \<and>
    fst (remove_line_splices a) = take (nat (tok_byte_offset t)) (ss_input_start s) \<and>
    tok_line_no t = 1 + int (newlines a)"
proof -
  let ?n = "tk_replace_trigraphs ctx source"
  define k where "k = nat (tok_byte_offset t)"
  have l: "k \<le> length (ss_input_start s)" "tok_line_no t =
      1 + int (newlines (take k (ss_input_start s))) +
      int (length (filter (\<lambda>i. i \<le> k) (ss_splice_offsets s)))"
    using token_line [OF assms(3) stream_reachable_ok [OF assms(2,1)] reachable_sorted [OF assms(2)], of k]
      assms(4) by (auto simp: k_def)
  have r: "splice_loop 0 ?n = (ss_input_start s, ss_splice_offsets s)"
    using reachable_text [OF assms(2)] by (simp add: tokenize_prepare_input_def remove_line_splices_loop)
  obtain a b where ab: "?n = a @ b" "fst (splice_loop 0 a) = take k (ss_input_start s)"
      "if k < length (ss_input_start s)
       then b \<noteq> [] \<and> hd b = ss_input_start s ! k \<and> line_splice_byte_count b = 0 else b = []"
      "newlines a = newlines (take k (ss_input_start s)) +
        length (filter (\<lambda>i. i \<le> k) (ss_splice_offsets s))"
    using splice_split [of k 0 ?n] l(1) unfolding r fst_conv snd_conv add_0 by blast
  then have "line_splice_byte_count b = 0" by (auto simp: line_splice_byte_count_def split: if_splits)
  with ab l(2) show ?thesis
    unfolding k_def [symmetric] remove_line_splices_loop
    by - (rule exI [of _ a], rule exI [of _ b], simp)
qed

text \<open>A \<^verbatim>\<open>strtod\<close> that reads digits, for the examples.\<close>

definition digits_strtod :: strtod_t where
  "digits_strtod p = (0, length (takeWhile tk_is_digit p))"

lemma digits_strtod_ok: "strtod_ok digits_strtod"
proof -
  have "take (length (takeWhile tk_is_digit p)) p = takeWhile tk_is_digit p" for p
    by (metis takeWhile_eq_take)
  moreover have "tk_is_digit c \<Longrightarrow> tk_is_xdigit c" for c by (simp add: char_class_defs)
  ultimately show ?thesis
    by (auto simp: strtod_ok_def digits_strtod_def list_all_iff dest: set_takeWhileD)
qed

text \<open>The word behind a comment with a newline and a splice is on line 3.\<close>

lemma tokens_on_physical_lines_witness:
  "\<exists>a b. ''a/*'' @ [LF] @ ''*/'' @ [BSL, LF] @ ''b'' = a @ b \<and> line_splice_byte_count b = 0 \<and>
    fst (remove_line_splices a) = ''a/*'' @ [LF] @ ''*/'' \<and> newlines a = 2"
proof -
  let ?n = "''a/*'' @ [LF] @ ''*/b''" and ?src = "''a/*'' @ [LF] @ ''*/'' @ [BSL, LF] @ ''b''"
  let ?s = "\<lparr>ss_input_start = ?n, ss_p = ''/*'' @ [LF] @ ''*/b'', ss_splice_offsets = [6],
    ss_next_splice = 0, ss_at_bol = False, ss_has_space = False, ss_line_no = 1, ss_done = False\<rparr>"
  let ?s' = "\<lparr>ss_input_start = ?n, ss_p = [], ss_splice_offsets = [6], ss_next_splice = 1,
    ss_at_bol = False, ss_has_space = False, ss_line_no = 3, ss_done = False\<rparr>"
  let ?t = "\<lparr>tok_kind = TK_IDENT, tok_line_no = 1, tok_byte_offset = 0, tok_byte_length = 1,
    tok_at_bol = True, tok_has_space = False, tok_data = Ident ''a''\<rparr>"
  let ?u = "\<lparr>tok_kind = TK_IDENT, tok_line_no = 3, tok_byte_offset = 6, tok_byte_length = 1,
    tok_at_bol = True, tok_has_space = True, tok_data = Ident ''b''\<rparr>"
  have "tk_stream_next digits_strtod init_context (tk_stream_open init_context ?src) = Value (Some ?t, ?s)"
    by code_simp
  then have r: "reachable digits_strtod init_context ?src ?s" by (rule pulled [OF opened])
  have u: "tk_stream_next digits_strtod init_context ?s = Value (Some ?u, ?s')" by code_simp
  have "tk_replace_trigraphs init_context ?src = ?src" by code_simp
  with tokens_on_physical_lines [OF digits_strtod_ok r u] show ?thesis by simp
qed

text \<open>Pulling \<open>n\<close> times.\<close>

fun pulls :: "nat \<Rightarrow> strtod_t \<Rightarrow> tokenizer_context_t \<Rightarrow> tk_token_stream \<Rightarrow> tk_token_stream outcome" where
  "pulls 0 strtod ctx s = Value s"
| "pulls (Suc n) strtod ctx s = outcome_bind (tk_stream_next strtod ctx s) (\<lambda>(t, s'). pulls n strtod ctx s')"

lemma pulls_done: "ss_done s \<Longrightarrow> pulls n strtod ctx s = Value s"
  by (induction n) (simp_all add: tk_stream_next_def)

lemma stream_next_None: "tk_stream_next strtod ctx s = Value (None, s') \<Longrightarrow> ss_done s \<and> s' = s"
  by (auto simp: tk_stream_next_def Let_def elim!: outcome_bind_ValueE
      split: if_splits outcome.splits option.splits)

text \<open>
  C20. The stream ends: whatever the text and whatever \<^verbatim>\<open>strtod\<close> consumes, after at most one pull
  per remaining character and one more the stream is done, unless a diagnostic ended it before.
\<close>

theorem stream_ends:
  assumes "pulls n strtod ctx s = Value s'" "length (ss_p s) < n"
  shows "ss_done s'"
  using assms
proof (induction n arbitrary: s)
  case (Suc n)
  then obtain r s1 where n: "tk_stream_next strtod ctx s = Value (r, s1)" "pulls n strtod ctx s1 = Value s'"
    by (auto elim!: outcome_bind_ValueE)
  have "ss_done s1 \<or> length (ss_p s1) < length (ss_p s)"
    using n(1) stream_next_None stream_next_progress by (cases r) blast+
  then show ?case
  proof
    assume "ss_done s1"
    then show ?thesis using pulls_done n(2) by simp
  next
    assume "length (ss_p s1) < length (ss_p s)"
    then show ?thesis using Suc.IH [OF n(2)] Suc.prems(2) by simp
  qed
qed simp

text \<open>Four pulls for the text \<^verbatim>\<open>a;b\<close>.\<close>

lemma stream_ends_witness:
  "case pulls 4 digits_strtod init_context (tk_stream_open init_context ''a;b'') of
     Value s' \<Rightarrow> ss_done s' | _ \<Rightarrow> False"
proof -
  let ?s = "\<lparr>ss_input_start = ''a;b'', ss_p = [], ss_splice_offsets = [], ss_next_splice = 0,
    ss_at_bol = False, ss_has_space = False, ss_line_no = 1, ss_done = True\<rparr>"
  have p: "pulls 4 digits_strtod init_context (tk_stream_open init_context ''a;b'') = Value ?s"
    by code_simp
  have "length (ss_p (tk_stream_open init_context ''a;b'')) < 4" by code_simp
  from stream_ends [OF p this] p show ?thesis by simp
qed

text \<open>The place of one token.\<close>

definition inside :: "tk_token_stream \<Rightarrow> bool" where
  "inside s \<longleftrightarrow> (\<exists>pre. ss_input_start s = pre @ ss_p s) \<and> int (length (ss_input_start s)) \<le> INT_MAX"

definition cursor_of :: "tk_token_stream \<Rightarrow> int" where
  "cursor_of s = int (span (ss_input_start s) (ss_p s))"

lemma skip_to_token_inside:
  assumes "skip_to_token s0 = Value s" "inside s0"
  shows "inside s \<and> cursor_of s0 \<le> cursor_of s"
proof -
  obtain k where k: "tk_skip_ignored_ctx \<lparr>sk_p = ss_p s0, sk_at_bol = ss_at_bol s0,
      sk_has_space = ss_has_space s0, sk_line_no = ss_line_no s0\<rparr> = Value k" and p: "ss_p s = sk_p k"
    using assms(1) by (auto simp: skip_to_token_def elim!: outcome_bind_ValueE)
  obtain b where "ss_p s0 = b @ ss_p s" using skip_ignored_settled [OF k] p by (auto simp: skipped_def)
  then show ?thesis using assms(2) skip_to_token_Value(1) [OF assms(1)]
    by (auto simp: inside_def cursor_of_def span_def)
qed

lemma token_offset:
  assumes "inside s" "le_input env = ss_input_start s"
  shows "tok_byte_offset (init_token_base env kd (ss_p s) m d) = cursor_of s"
proof -
  have "cursor_of s \<le> INT_MAX"
    using assms(1) by (auto simp: inside_def cursor_of_def span_def)
  then show ?thesis using assms(2) by (simp add: init_token_base_def Let_def cursor_of_def)
qed

lemma stream_next_place:
  assumes n: "tk_stream_next strtod ctx s0 = Value (Some t, s')" and i: "inside s0"
  shows "inside s' \<and> cursor_of s0 \<le> tok_byte_offset t \<and>
    tok_byte_offset t + int (tok_byte_length t) \<le> cursor_of s' \<and>
    (tok_kind t = TK_EOF \<longleftrightarrow> ss_done s') \<and> (0 < tok_byte_length t \<longleftrightarrow> \<not> ss_done s')"
  using n
proof (cases rule: stream_next_cases)
  case (eof s)
  note s = skip_to_token_inside [OF eof(1) i]
  have "tok_byte_offset t = cursor_of s" unfolding eof(4) using s by (intro token_offset) auto
  moreover have "tok_kind t = TK_EOF" "tok_byte_length t = 0"
    by (simp_all add: eof(4) init_token_base_def Let_def)
  ultimately show ?thesis using s eof(3) by (auto simp: inside_def cursor_of_def)
next
  case (token s env q)
  note s = skip_to_token_inside [OF token(1) i]
  have t: "tok_kind t \<noteq> TK_EOF" "tok_byte_length t = length (ss_p s) - length q" "length q < length (ss_p s)"
    using tokens.fields [OF token(4)] tokens.progress [OF token(4)] by auto
  obtain b where b: "ss_p s = b @ q" using tokens.suffix [OF token(4)] by blast
  have "tok_byte_offset t = cursor_of s"
    using tokens.fields(4) [OF token(4)] token_offset [of s env undefined undefined undefined] s token(3)
    by (auto simp: init_token_base_def Let_def)
  then show ?thesis
    using t b s token(5) skip_to_token_Value(3) [OF token(1)] token(6)
    by (auto simp: inside_def cursor_of_def span_def)
next
  case (unknown s env)
  note s = skip_to_token_inside [OF unknown(1) i]
  obtain c r where p: "ss_p s = c # r" using unknown(2) by (cases "ss_p s") auto
  have "tok_byte_offset t = cursor_of s"
    unfolding unknown(5) using s unknown(3) by (intro token_offset) auto
  moreover have "tok_kind t = TK_UNKNOWN" "tok_byte_length t = 1"
    by (simp_all add: unknown(5) init_token_base_def Let_def)
  ultimately show ?thesis
    using s unknown(6,7) p skip_to_token_Value(3) [OF unknown(1)]
    by (auto simp: inside_def cursor_of_def span_def)
qed

definition before :: "token_t \<Rightarrow> token_t \<Rightarrow> bool" where
  "before t u \<longleftrightarrow> tok_byte_offset t + int (tok_byte_length t) \<le> tok_byte_offset u"

lemma stream_tokens_in_order:
  assumes "stream_tokens strtod ctx s = Value toks" "inside s" "\<not> ss_done s"
  shows "(\<exists>init eof. toks = init @ [eof] \<and> tok_kind eof = TK_EOF \<and> tok_byte_length eof = 0 \<and>
      (\<forall>t \<in> set init. tok_kind t \<noteq> TK_EOF \<and> 0 < tok_byte_length t)) \<and>
    sorted_wrt before toks \<and>
    (\<forall>t \<in> set toks. cursor_of s \<le> tok_byte_offset t \<and>
      tok_byte_offset t + int (tok_byte_length t) \<le> int (length (ss_input_start s)))"
  using assms
proof (induction strtod ctx s arbitrary: toks rule: stream_tokens.induct)
  case (1 strtod ctx s)
  obtain t s' ts where n: "tk_stream_next strtod ctx s = Value (Some t, s')"
      and ts: "stream_tokens strtod ctx s' = Value ts" "toks = t # ts"
    using "1.prems" stream_next_None
    by (subst (asm) stream_tokens.simps)
      (fastforce simp: map_outcome_Value_iff split: outcome.splits option.splits)
  note p = stream_next_place [OF n "1.prems"(2)]
  have fin: "cursor_of s' \<le> int (length (ss_input_start s))"
    using stream_next_fields(1) [OF n] by (simp add: cursor_of_def span_def)
  show ?case
  proof (cases "ss_done s'")
    case True
    then have "tk_stream_next strtod ctx s' = Value (None, s')" by (simp add: tk_stream_next_def)
    then have "ts = []" using ts(1) by (simp add: stream_tokens.simps)
    then show ?thesis using p True ts(2) fin by auto
  next
    case False
    note ih = "1.IH" [OF n refl refl ts(1) _ False]
    have "inside s'" using p by blast
    note ih = ih [OF this]
    then obtain init eof where ie: "ts = init @ [eof]" "tok_kind eof = TK_EOF" "tok_byte_length eof = 0"
        "\<forall>t \<in> set init. tok_kind t \<noteq> TK_EOF \<and> 0 < tok_byte_length t" by blast
    have "\<forall>u \<in> set ts. before t u" using ih p by (force simp: before_def)
    moreover have "\<exists>init eof. toks = init @ [eof] \<and> tok_kind eof = TK_EOF \<and> tok_byte_length eof = 0 \<and>
      (\<forall>t \<in> set init. tok_kind t \<noteq> TK_EOF \<and> 0 < tok_byte_length t)"
      using ie p False ts(2) by (intro exI [of _ "t # init"] exI [of _ eof]) simp
    moreover have "\<forall>u \<in> set ts. cursor_of s \<le> tok_byte_offset u \<and>
      tok_byte_offset u + int (tok_byte_length u) \<le> int (length (ss_input_start s))"
      using ih p stream_next_fields(1) [OF n] by fastforce
    ultimately show ?thesis using ih p fin ts(2) by auto
  qed
qed

text \<open>
  C19. Tokens come in order and end with one end token: a text that is tokenized gives tokens that
  lie inside the normalised text, each behind the one before it, none of them empty, and then
  exactly one end-of-file token.
\<close>

theorem tokens_in_order:
  assumes "tk_tokenize_ctx strtod ctx source = Value toks"
    and "int (length (fst (tokenize_prepare_input ctx source))) \<le> INT_MAX"
  shows "(\<exists>init eof. toks = init @ [eof] \<and> tok_kind eof = TK_EOF \<and> tok_byte_length eof = 0 \<and>
      (\<forall>t \<in> set init. tok_kind t \<noteq> TK_EOF \<and> 0 < tok_byte_length t)) \<and>
    sorted_wrt before toks \<and>
    (\<forall>t \<in> set toks. 0 \<le> tok_byte_offset t \<and> tok_byte_offset t + int (tok_byte_length t) \<le>
      int (length (fst (tokenize_prepare_input ctx source))))"
proof -
  let ?s = "tk_stream_open ctx source"
  have s: "ss_input_start ?s = fst (tokenize_prepare_input ctx source)" "cursor_of ?s = 0" "\<not> ss_done ?s"
      "inside ?s"
    using assms(2) by (simp_all add: tk_stream_open_def split_def Let_def cursor_of_def span_def inside_def)
  show ?thesis
    using stream_tokens_in_order [OF assms(1) [unfolded tk_tokenize_ctx_def] s(4,3)] unfolding s(1,2)
    by simp
qed

lemma tokens_in_order_witness:
  "case tk_tokenize_ctx digits_strtod init_context ''a;'' of Value toks \<Rightarrow> sorted_wrt before toks | _ \<Rightarrow> False"
proof -
  let ?toks = "[\<lparr>tok_kind = TK_IDENT, tok_line_no = 1, tok_byte_offset = 0, tok_byte_length = 1,
      tok_at_bol = True, tok_has_space = False, tok_data = Ident ''a''\<rparr>,
    \<lparr>tok_kind = Punctuator TK_SEMI, tok_line_no = 1, tok_byte_offset = 1, tok_byte_length = 1,
      tok_at_bol = False, tok_has_space = False, tok_data = Plain\<rparr>,
    \<lparr>tok_kind = TK_EOF, tok_line_no = 1, tok_byte_offset = 2, tok_byte_length = 0,
      tok_at_bol = False, tok_has_space = False, tok_data = Plain\<rparr>]"
  have t: "tk_tokenize_ctx digits_strtod init_context ''a;'' = Value ?toks" by code_simp
  have "int (length (fst (tokenize_prepare_input init_context ''a;''))) \<le> INT_MAX" by code_simp
  from tokens_in_order [OF t this] t show ?thesis by simp
qed

text \<open>
  The tolerant mode keeps its promise: while it is on, no token is fatal. The next pull can be
  refused only because a block comment in front of the token does not end; any other text gives
  a token, and an unknown token is one character that the strict mode refuses.
\<close>

theorem tolerant_next:
  assumes "tc_tolerate_untokenizable ctx" "skip_to_token s = Value s1"
  shows "tk_stream_next strtod ctx s \<noteq> Refused \<and>
    (\<forall>t s'. tk_stream_next strtod ctx s = Value (Some t, s') \<and> tok_kind t = TK_UNKNOWN \<longrightarrow>
      tk_stream_next strtod (ctx\<lparr>tc_tolerate_untokenizable := False\<rparr>) s = Refused \<and>
      ss_p s' = drop 1 (ss_p s1) \<and> tok_byte_length t = 1)"
proof (rule conjI, goal_cases refuse unknown)
  case refuse
  show "tk_stream_next strtod ctx s \<noteq> Refused"
    using assms by (auto simp: tk_stream_next_def Let_def split: outcome.splits option.splits)
next
  case unknown
  show ?case
  proof (intro allI impI)
    fix t s'
    assume n: "tk_stream_next strtod ctx s = Value (Some t, s') \<and> tok_kind t = TK_UNKNOWN"
    let ?env = "\<lparr>le_input = ss_input_start s1, le_line_no = ss_line_no s1, le_at_bol = ss_at_bol s1,
      le_has_space = ss_has_space s1\<rparr>"
    have nd: "\<not> ss_done s" using n stream_next_progress by blast
    have ne: "at (ss_p s1) 0 \<noteq> NUL"
      using n nd assms(2) by (auto simp: tk_stream_next_def init_token_base_def Let_def)
    have step: "(case tokenize_one strtod ctx ?env (ss_p s1) of
          Value None \<Rightarrow> Value (Some (init_token_base ?env TK_UNKNOWN (ss_p s1) 1 Plain),
            s1\<lparr>ss_at_bol := False, ss_has_space := False, ss_p := drop 1 (ss_p s1)\<rparr>)
        | Value (Some (tok, q)) \<Rightarrow> Value (Some tok, s1\<lparr>ss_at_bol := False, ss_has_space := False, ss_p := q\<rparr>)
        | Refused \<Rightarrow> Value (Some (init_token_base ?env TK_UNKNOWN (ss_p s1) 1 Plain),
            s1\<lparr>ss_at_bol := False, ss_has_space := False, ss_p := drop 1 (ss_p s1)\<rparr>)
        | Undefined \<Rightarrow> Undefined) = Value (Some t, s')"
      using n nd ne assms
      by (simp add: tk_stream_next_def Let_def cong: outcome.case_cong option.case_cong)
    have no: "tokenize_one strtod ctx ?env (ss_p s1) \<noteq> Value (Some r)" for r
    proof
      assume r: "tokenize_one strtod ctx ?env (ss_p s1) = Value (Some r)"
      obtain u q where u: "r = (u, q)" by (cases r)
      have "u = t" using step r u by simp
      then show False using tokens.fields(2) [OF r [unfolded u]] n by simp
    qed
    have one: "tokenize_one strtod ctx ?env (ss_p s1) = Refused \<or>
        tokenize_one strtod ctx ?env (ss_p s1) = Value None"
    proof (cases "tokenize_one strtod ctx ?env (ss_p s1)")
      case (Value x)
      then show ?thesis using no [of "the x"] by (cases x) simp_all
    qed (use step in simp_all)
    then have "ss_p s' = drop 1 (ss_p s1)" "t = init_token_base ?env TK_UNKNOWN (ss_p s1) 1 Plain"
      using step by auto
    then show "tk_stream_next strtod (ctx\<lparr>tc_tolerate_untokenizable := False\<rparr>) s = Refused \<and>
        ss_p s' = drop 1 (ss_p s1) \<and> tok_byte_length t = 1"
      using one nd ne assms(2)
      by (auto simp: tk_stream_next_def Let_def tokenize_one_tolerance init_token_base_def)
  qed
qed

text \<open>The text \<^verbatim>\<open>@\<close>, which is no token.\<close>

lemma tolerant_next_witness:
  "tk_stream_next digits_strtod init_context (tk_stream_open init_context ''@'') = Refused \<and>
   tk_stream_next digits_strtod (init_context\<lparr>tc_tolerate_untokenizable := True\<rparr>)
     (tk_stream_open init_context ''@'') \<noteq> Refused"
proof -
  let ?s = "tk_stream_open init_context ''@''" and ?ctx = "init_context\<lparr>tc_tolerate_untokenizable := True\<rparr>"
  let ?s' = "\<lparr>ss_input_start = ''@'', ss_p = [], ss_splice_offsets = [], ss_next_splice = 0,
    ss_at_bol = False, ss_has_space = False, ss_line_no = 1, ss_done = False\<rparr>"
  let ?t = "\<lparr>tok_kind = TK_UNKNOWN, tok_line_no = 1, tok_byte_offset = 0, tok_byte_length = 1,
      tok_at_bol = True, tok_has_space = False, tok_data = Plain\<rparr>"
  have tol: "tc_tolerate_untokenizable ?ctx" and strict: "?ctx\<lparr>tc_tolerate_untokenizable := False\<rparr> = init_context"
    by (simp_all add: init_context_def)
  have skip: "skip_to_token ?s = Value ?s" by code_simp
  have n: "tk_stream_next digits_strtod ?ctx ?s = Value (Some ?t, ?s')" by code_simp
  from tolerant_next [OF tol skip, of digits_strtod] n strict show ?thesis by auto
qed

end
