(* ===== verification/TolerantWasm.thy ===== *)
theory TolerantWasm
  imports Tokenizer
begin

text \<open>
  The tolerant mode of the WebAssembly build, \<^verbatim>\<open>tokenizer/tokenizer.c\<close>. There is no \<^verbatim>\<open>setjmp\<close>, so a
  token is scanned only after a check, without diagnostics, that it is well formed; otherwise its
  first character becomes an unknown token. The checks' cursors are returned as \<open>option\<close>.
\<close>

section \<open>Escapes\<close>

fun tolerant_ucn :: "nat \<Rightarrow> u32 \<Rightarrow> string \<Rightarrow> u32 option" where
  "tolerant_ucn 0 cp q = Some cp"
| "tolerant_ucn (Suc k) cp q =
    (let c = at q 0
     in if \<not> tk_is_xdigit c then None
        else tolerant_ucn k (push_bit 4 cp OR
          (if 48 \<le> byte c \<and> byte c \<le> (57 :: nat) then chr_val c - 48
           else if 97 \<le> byte c \<and> byte c \<le> (102 :: nat) then chr_val c - 97 + 10
           else chr_val c - 65 + 10)) (drop 1 q))"

definition tolerant_skip_escape :: "string \<Rightarrow> string option" where
  "tolerant_skip_escape p =
    (if at p 0 \<in> set (BSL # SQ # DQ # ''abfnrtv?'') then Some (drop 1 p)
     else if at p 0 \<in> set ''01234567'' then Some (skip_octal 3 p)
     else if at p 0 = CHR ''x'' then
       (if \<not> tk_is_xdigit (at p 1) then None else Some (dropWhile tk_is_xdigit (drop 1 p)))
     else if at p 0 = CHR ''u'' \<or> at p 0 = CHR ''U'' then
       (let digits = (if at p 0 = CHR ''u'' then 4 else 8)
        in case tolerant_ucn digits 0 (drop 1 p) of
             None \<Rightarrow> None
           | Some cp \<Rightarrow> if \<not> tk_is_valid_ucn_codepoint cp then None else Some (drop (1 + digits) p))
     else None)"

lemma tolerant_ucn_eq:
  "tolerant_ucn k cp q =
    (if list_all (\<lambda>i. tk_is_xdigit (at q i)) [0..<k]
     then Some (foldl (\<lambda>cp i. push_bit 4 cp OR hexval (at q i)) cp [0..<k]) else None)"
proof (induction k arbitrary: cp q)
  case (Suc k)
  have u: "[0..<Suc k] = 0 # map Suc [0..<k]" by (simp add: map_Suc_upt upt_conv_Cons)
  have a: "at (drop 1 q) i = at q (Suc i)" for i by (auto simp: at_def)
  show ?case
    unfolding u tolerant_ucn.simps Let_def Suc.IH a
    by (simp add: list.pred_map comp_def foldl_map hexval_def)
qed simp

lemma octal_digit_set: "tk_is_octal_digit c \<longleftrightarrow> c \<in> set ''01234567''"
proof
  assume "tk_is_octal_digit c"
  then have "byte c \<in> {48, 49, 50, 51, 52, 53, 54, 55 :: nat}" by (auto simp: tk_is_octal_digit_def)
  then have "char_of (byte c) \<in> char_of ` {48, 49, 50, 51, 52, 53, 54, 55 :: nat}" by (rule imageI)
  then have "c \<in> set (map char_of [48, 49, 50, 51, 52, 53, 54, 55 :: nat])" by simp
  moreover have "map char_of [48, 49, 50, 51, 52, 53, 54, 55 :: nat] = ''01234567''" by code_simp
  ultimately show "c \<in> set ''01234567''" by (simp only:)
qed (auto simp: tk_is_octal_digit_def)

lemma tolerant_skip_escape_eq:
  "tolerant_skip_escape p =
    (case tk_skip_escape_in_literal_ctx p of Value q \<Rightarrow> Some q | _ \<Rightarrow> None)"
proof (cases "at p 0 = CHR ''u'' \<or> at p 0 = CHR ''U''")
  case True
  let ?k = "ucn_digit_count (BSL # p)"
  have k: "?k = (if at p 0 = CHR ''u'' then 4 else 8)" by (simp add: ucn_digit_count_def)
  have d: "at (BSL # p) (2 + i) = at (drop 1 p) i" for i
    by (auto simp: at_def)
  have "tolerant_ucn ?k 0 (drop 1 p) = map_option fst (tk_parse_ucn_codepoint (BSL # p))"
    unfolding tolerant_ucn_eq tk_parse_ucn_codepoint_def tk_starts_with_ucn_def d using True
    by (auto simp: Let_def)
  moreover have "1 + ?k = (if at p 0 = CHR ''u'' then 5 else 9)" by (simp add: k)
  ultimately have
    "tolerant_skip_escape p = (case tk_parse_ucn_codepoint (BSL # p) of
       None \<Rightarrow> None
     | Some (cp, n) \<Rightarrow> if \<not> tk_is_valid_ucn_codepoint cp then None else Some (drop (1 + ?k) p))"
    using True unfolding k
    by (elim disjE) (simp_all add: tolerant_skip_escape_def Let_def split: option.split)
  moreover have "tk_skip_escape_in_literal_ctx p = (case tk_parse_ucn_codepoint (BSL # p) of
       None \<Rightarrow> Refused
     | Some (cp, n) \<Rightarrow> if \<not> tk_is_valid_ucn_codepoint cp then Refused else Value (drop (1 + ?k) p))"
    using True unfolding k
    by (elim disjE) (simp_all add: tk_skip_escape_in_literal_ctx_def escape_ok_def split: option.split)
  ultimately show ?thesis by (simp split: option.split)
next
  case False
  have o: "tk_is_octal_digit (at p 0) \<longleftrightarrow> at p 0 \<in> set ''01234567''" by (rule octal_digit_set)
  consider (x) "at p 0 = CHR ''x''" | (octal) "at p 0 \<in> set ''01234567''"
    | (simple) "at p 0 \<in> set (BSL # SQ # DQ # ''abfnrtv?'')"
    | (other) "at p 0 \<noteq> CHR ''x''" "at p 0 \<notin> set ''01234567''"
      "at p 0 \<notin> set (BSL # SQ # DQ # ''abfnrtv?'')"
    by blast
  then show ?thesis
  proof cases
    case x
    then show ?thesis
      by (simp add: tolerant_skip_escape_def tk_skip_escape_in_literal_ctx_def escape_ok_def)
  next
    case octal
    then have "at p 0 \<notin> set (BSL # SQ # DQ # ''abfnrtv?'')" "at p 0 \<noteq> CHR ''x''" by auto
    then show ?thesis using octal False o
      unfolding tolerant_skip_escape_def tk_skip_escape_in_literal_ctx_def escape_ok_def by simp
  next
    case simple
    then have "at p 0 \<notin> set ''01234567''" "at p 0 \<noteq> CHR ''x''" by auto
    then show ?thesis using simple False o
      unfolding tolerant_skip_escape_def tk_skip_escape_in_literal_ctx_def escape_ok_def by simp
  next
    case other
    then have "\<not> escape_ok p" using False by (simp add: escape_ok_def)
    then show ?thesis using other False
      by (simp add: tolerant_skip_escape_def tk_skip_escape_in_literal_ctx_def)
  qed
qed

lemma tolerant_skip_escape_shorter:
  "tolerant_skip_escape p = Some q \<Longrightarrow> length q < length p"
  using skip_escape_consumes(2) by (auto simp: tolerant_skip_escape_eq split: outcome.splits)

section \<open>Literals\<close>

function tolerant_string_body :: "string \<Rightarrow> bool" where
  "tolerant_string_body p =
    (if at p 0 = NUL \<or> at p 0 = LF then False
     else if at p 0 = DQ then True
     else if at p 0 = BSL then
       (case tolerant_skip_escape (drop 1 p) of None \<Rightarrow> False | Some q \<Rightarrow> tolerant_string_body q)
     else tolerant_string_body (drop 1 p))"
  by pat_completeness auto
termination
proof (relation "measure length", goal_cases)
  case (2 p q)
  then show ?case using tolerant_skip_escape_shorter [of "drop 1 p" q] by simp
next
  case (3 p)
  then show ?case by (cases p) auto
qed simp

declare tolerant_string_body.simps [simp del]

definition tolerant_string_literal_is_safe :: "string \<Rightarrow> bool" where
  "tolerant_string_literal_is_safe p =
    (let str_prefix = fst (tk_parse_string_prefix p)
     in if \<not> (at p 0 = DQ \<or> str_prefix > 0) then False
        else tolerant_string_body (drop ((if at p 0 = DQ then 0 else str_prefix) + 1) p))"

function tolerant_char_body :: "nat \<Rightarrow> string \<Rightarrow> bool" where
  "tolerant_char_body nchar p =
    (if at p 0 = NUL \<or> at p 0 = LF then False
     else if at p 0 = SQ then nchar > 0
     else if at p 0 = BSL then
       (case tolerant_skip_escape (drop 1 p) of
          None \<Rightarrow> False
        | Some q \<Rightarrow> tolerant_char_body (nchar + 1) q)
     else tolerant_char_body (nchar + 1) (drop 1 p))"
  by pat_completeness auto
termination
proof (relation "measure (\<lambda>(_, p). length p)", goal_cases)
  case (2 n p q)
  then show ?case using tolerant_skip_escape_shorter [of "drop 1 p" q] by simp
next
  case (3 n p)
  then show ?case by (cases p) auto
qed simp

declare tolerant_char_body.simps [simp del]

definition tolerant_char_literal_is_safe :: "string \<Rightarrow> bool" where
  "tolerant_char_literal_is_safe p =
    (let chr_prefix = fst (tk_parse_char_prefix p)
     in if \<not> (at p 0 = SQ \<or> chr_prefix > 0) then False
        else tolerant_char_body 0 (drop (chr_prefix + 1) p))"

section \<open>Numbers\<close>

function tolerant_int_suffix :: "string \<Rightarrow> bool \<Rightarrow> nat \<Rightarrow> string option" where
  "tolerant_int_suffix p seen_u long_cnt =
    (if at p 0 = CHR ''u'' \<or> at p 0 = CHR ''U'' then
       (if seen_u then None else tolerant_int_suffix (drop 1 p) True long_cnt)
     else if at p 0 = CHR ''l'' \<or> at p 0 = CHR ''L'' then
       (if at p 1 = CHR ''l'' \<or> at p 1 = CHR ''L'' then
          (if long_cnt \<noteq> 0 then None else tolerant_int_suffix (drop 2 p) seen_u 2)
        else (if long_cnt \<noteq> 0 then None else tolerant_int_suffix (drop 1 p) seen_u 1))
     else Some p)"
  by pat_completeness auto
termination
  by (relation "measure (\<lambda>(p, seen_u, long_cnt). length p)") (auto intro: at_0_shorter)

declare tolerant_int_suffix.simps [simp del]

definition tolerant_int_suffix_is_safe :: "string \<Rightarrow> string option" where
  "tolerant_int_suffix_is_safe p0 =
    (case tolerant_int_suffix p0 False 0 of
       None \<Rightarrow> None
     | Some p \<Rightarrow> if tk_is_ident_continue_byte (at p 0) \<or> at p 0 = CHR ''.'' then None else Some p)"

definition tolerant_decimal_float_suffix_is_safe :: "string \<Rightarrow> string option" where
  "tolerant_decimal_float_suffix_is_safe p0 =
    (let p = (if at p0 0 \<in> set ''fFlL'' then drop 1 p0 else p0)
     in if tk_is_ident_continue_byte (at p 0) \<or> at p 0 = CHR ''.'' then None else Some p)"

text \<open>The digits of an exponent behind its letter; \<open>None\<close> without a digit.\<close>

definition tolerant_exponent :: "string \<Rightarrow> string option" where
  "tolerant_exponent q0 =
    (let q = (if at q0 0 = CHR ''+'' \<or> at q0 0 = CHR ''-'' then drop 1 q0 else q0)
     in if \<not> tk_is_digit (at q 0) then None else Some (dropWhile tk_is_digit q))"

definition tolerant_hex_is_safe :: "string \<Rightarrow> bool" where
  "tolerant_hex_is_safe p =
    (let whole = takeWhile tk_is_xdigit (drop 2 p);
         q1 = dropWhile tk_is_xdigit (drop 2 p);
         fraction = (if at q1 0 = CHR ''.'' then takeWhile tk_is_xdigit (drop 1 q1) else []);
         q = (if at q1 0 = CHR ''.'' then dropWhile tk_is_xdigit (drop 1 q1) else q1);
         hex_digits = length whole + length fraction
     in if hex_digits = 0 \<or> hex_digits > 16 then False
        else if at q 0 = CHR ''p'' \<or> at q 0 = CHR ''P'' then
          (case tolerant_exponent (drop 1 q) of
             None \<Rightarrow> False
           | Some r \<Rightarrow> tolerant_decimal_float_suffix_is_safe r \<noteq> None)
        else tolerant_int_suffix_is_safe q \<noteq> None)"

definition tolerant_number_literal_is_safe :: "string \<Rightarrow> bool" where
  "tolerant_number_literal_is_safe p =
    (if \<not> (tk_is_digit (at p 0) \<or> at p 0 = CHR ''.'' \<and> tk_is_digit (at p 1)) then False
     else if at p 0 = CHR ''0'' \<and> (at p 1 = CHR ''x'' \<or> at p 1 = CHR ''X'') then tolerant_hex_is_safe p
     else
       let digits = length (takeWhile tk_is_digit p);
           q1 = dropWhile tk_is_digit p;
           q2 = (if at q1 0 = CHR ''.'' then dropWhile tk_is_digit (drop 1 q1) else q1);
           exponent = at q2 0 = CHR ''e'' \<or> at q2 0 = CHR ''E'';
           is_float = at p 0 = CHR ''.'' \<or> at q1 0 = CHR ''.'' \<or> exponent
       in case if exponent then tolerant_exponent (drop 1 q2) else Some q2 of
            None \<Rightarrow> False
          | Some q \<Rightarrow>
              if digits = 0 \<or> digits > 18 then False
              else if is_float then tolerant_decimal_float_suffix_is_safe q \<noteq> None
              else if at p 0 = CHR ''0'' \<and> tk_is_digit (at p 1) \<and>
                list_ex (\<lambda>r. r = CHR ''8'' \<or> r = CHR ''9'') (take (span (drop 1 p) q) (drop 1 p))
                then False
              else tolerant_int_suffix_is_safe q \<noteq> None)"

section \<open>A token\<close>

definition guarded ::
    "bool \<Rightarrow> (token_t \<times> string) option outcome \<Rightarrow> token_t \<times> string \<Rightarrow> (token_t \<times> string) outcome" where
  "guarded safe r unknown =
    (if safe
     then outcome_bind r (\<lambda>x. case x of None \<Rightarrow> Value unknown | Some tok \<Rightarrow> Value tok)
     else Value unknown)"

definition tokenize_one_tolerant_wasm ::
    "strtod_t \<Rightarrow> tokenizer_context_t \<Rightarrow> lex_env \<Rightarrow> string \<Rightarrow> (token_t \<times> string) outcome" where
  "tokenize_one_tolerant_wasm strtod ctx env p =
    (let unknown = (init_token_base env TK_UNKNOWN p 1 Plain, drop 1 p)
     in if at p 0 = DQ \<or> fst (tk_parse_string_prefix p) > 0
          then guarded (tolerant_string_literal_is_safe p) (tokenize_string_literal ctx env p) unknown
        else if at p 0 = SQ \<or> fst (tk_parse_char_prefix p) > 0
          then guarded (tolerant_char_literal_is_safe p) (tokenize_char_literal ctx env p) unknown
        else if tk_is_digit (at p 0) \<or> at p 0 = CHR ''.'' \<and> tk_is_digit (at p 1)
          then guarded (tolerant_number_literal_is_safe p) (tokenize_number_literal strtod ctx env p) unknown
        else guarded True (tokenize_one strtod ctx env p) unknown)"

section \<open>Properties\<close>

lemma skip_escape_defined: "tk_skip_escape_in_literal_ctx p \<noteq> Undefined"
  by (simp add: tk_skip_escape_in_literal_ctx_def)

lemma tolerant_string_body_eq:
  "tolerant_string_body p \<longleftrightarrow> (\<exists>q. string_body p = Value q)"
proof (induction p rule: string_body.induct)
  case (1 p)
  show ?case
  proof (cases "at p 0 = NUL \<or> at p 0 = LF \<or> at p 0 = DQ")
    case True
    then show ?thesis by (auto simp: string_body.simps [of p] tolerant_string_body.simps [of p])
  next
    case False
    then show ?thesis
      using "1.IH" skip_escape_defined [of "drop 1 p"]
      by (auto simp: string_body.simps [of p] tolerant_string_body.simps [of p]
          tolerant_skip_escape_eq split: outcome.splits)
  qed
qed

lemma checked_span_len_ok:
  assumes "int (length a) \<le> tc_max_token_len_for_test ctx" "int (length a) \<le> INT_MAX"
  shows "checked_span_len ctx a b = Value (span a b)"
proof -
  have "int (span a b) \<le> int (length a)" by (simp add: span_def)
  then show ?thesis using assms by (simp add: checked_span_len_def Let_def)
qed

text \<open>
  C26. The check of string literals is exact: for a text within the length limits it accepts exactly
  the literals that the string scanner, which would raise a diagnostic, turns into a token.
\<close>

theorem tolerant_string_exact:
  assumes "int (length p) \<le> tc_max_token_len_for_test ctx" "int (length p) \<le> INT_MAX"
  shows "tolerant_string_literal_is_safe p \<longleftrightarrow>
    (\<exists>t q. tokenize_string_literal ctx env p = Value (Some (t, q)))"
proof -
  obtain n k w where pre: "tk_parse_string_prefix p = (n, k, w)" by (cases "tk_parse_string_prefix p")
  have len: "checked_span_len ctx (drop m p) b = Value (span (drop m p) b)"
    "checked_span_len ctx p b = Value (span p b)" for m b
    using assms by (auto intro!: checked_span_len_ok)
  show ?thesis
    unfolding tolerant_string_literal_is_safe_def tokenize_string_literal_def pre Let_def fst_conv
      tolerant_string_body_eq
    by (auto simp: len Let_def elim!: outcome_bind_ValueE)
qed

lemma tolerant_string_exact_witness:
  "tolerant_string_literal_is_safe (DQ # ''a'' @ [BSL] @ ''n'' @ [DQ] @ '';'') \<and>
   \<not> tolerant_string_literal_is_safe (DQ # ''a'' @ [BSL] @ ''q'' @ [DQ] @ '';'')"
proof -
  let ?env = "\<lparr>le_input = [], le_line_no = 1, le_at_bol = True, le_has_space = False\<rparr>"
  have "tokenize_string_literal init_context ?env (DQ # ''a'' @ [BSL] @ ''n'' @ [DQ] @ '';'') =
    Value (Some (\<lparr>tok_kind = TK_STRING, tok_line_no = 1, tok_byte_offset = 0, tok_byte_length = 5,
      tok_at_bol = True, tok_has_space = False, tok_data = Str \<lparr>ts_str = ''a'' @ [BSL] @ ''n'',
        ts_char_width = TK_CHAR_WIDTH_CHAR, ts_str_prefix_kind = TK_STR_PREFIX_NONE\<rparr>\<rparr>, '';''))"
    by code_simp
  moreover have "tokenize_string_literal init_context ?env (DQ # ''a'' @ [BSL] @ ''q'' @ [DQ] @ '';'') = Refused"
    by code_simp
  moreover have "int (length (DQ # ''a'' @ [BSL, c] @ [DQ] @ '';'')) \<le> tc_max_token_len_for_test init_context"
    "int (length (DQ # ''a'' @ [BSL, c] @ [DQ] @ '';'')) \<le> INT_MAX" for c
    by (simp_all add: init_context_def INT_MAX_def)
  ultimately show ?thesis
    using tolerant_string_exact [of _ init_context ?env] by (metis append_Cons append_Nil outcome.distinct(1))
qed

text \<open>
  The check of numbers is not: it accepts a floating literal whose integer part is written with
  a leading zero and an 8 or 9, which the number parser rejects as octal with a diagnostic. So
  text that the host build skips as unknown tokens is fatal in the WebAssembly build.
\<close>

theorem tolerant_number_gap:
  assumes "d = CHR ''8'' \<or> d = CHR ''9''" "list_all tk_is_digit ds"
  shows "tokenize_one_tolerant_wasm strtod ctx env (CHR ''0'' # d # CHR ''.'' # ds) = Refused"
proof -
  let ?p = "CHR ''0'' # d # CHR ''.'' # ds"
  have ds: "takeWhile tk_is_digit ds = ds" "dropWhile tk_is_digit ds = []"
    using assms(2) by (simp_all add: list_all_iff)
  have d: "tk_is_digit d" "\<not> tk_is_digit CHR ''.''" "tk_is_digit CHR ''0''" "d \<noteq> DQ" "d \<noteq> SQ"
      "d \<noteq> CHR ''x''" "d \<noteq> CHR ''X''" "d \<noteq> CHR ''b''" "d \<noteq> CHR ''B''"
    using assms(1) by (auto simp: tk_is_digit_def)
  have nul: "\<not> tk_is_ident_continue_byte NUL" by (simp add: char_class_defs)
  have "tolerant_number_literal_is_safe ?p"
    using d ds nul by (simp add: tolerant_number_literal_is_safe_def Let_def
        tolerant_decimal_float_suffix_is_safe_def del: dropWhile_eq_Nil_conv takeWhile_eq_all_conv)
  moreover have "tokenize_number_literal strtod ctx env ?p = Refused"
    using d assms(1) by (simp add: tokenize_number_literal_def tk_parse_number_literal_ctx_def
        parse_zero_prefixed_number_def)
  ultimately show ?thesis
    using d by (simp add: tokenize_one_tolerant_wasm_def guarded_def tk_parse_string_prefix_def
        tk_parse_char_prefix_def Let_def)
qed

lemma tolerant_number_gap_witness:
  "tokenize_one_tolerant_wasm (\<lambda>p. (0, 4)) init_context
    \<lparr>le_input = ''09.5'', le_line_no = 1, le_at_bol = True, le_has_space = False\<rparr> ''09.5'' = Refused"
  by (rule tolerant_number_gap) (simp_all add: tk_is_digit_def)

end
