(* ===== verification/Spec2Isabelle.thy ===== *)
theory Spec2Isabelle
  imports ConstantEvaluation TypeCompatibility AggregateLayout ScopeGraph IROpt RegAlloc IRData LinkRoundtrip TokenStream TolerantWasm
begin

text \<open>
  Verification library of the \<^verbatim>\<open>ag_c\<close> C11 compiler.

  The compiler reads C source, turns it into tokens (\<^verbatim>\<open>src/tokenizer\<close>), preprocesses and parses
  them (\<^verbatim>\<open>src/preprocess\<close>, \<^verbatim>\<open>src/parser\<close>), resolves types and constants (\<^verbatim>\<open>src/semantic\<close>,
  \<^verbatim>\<open>src/type_system\<close>), lowers the result to an intermediate representation (\<^verbatim>\<open>src/lowering\<close>,
  \<^verbatim>\<open>src/ir\<close>), optimises it, allocates registers and emits arm64 assembly or WebAssembly objects
  (\<^verbatim>\<open>src/arch\<close>), which \<^verbatim>\<open>tools/wasm_obj_linker\<close> links. All paths below are relative to the
  repository's \<^verbatim>\<open>src\<close> directory. The library models the two ends and the middle of this pipeline:
  the whole tokenizer, the target description, the interned types with their compatibility and
  layout, the graph of scopes, the evaluation of integer constants, the intermediate representation
  with its builder, optimiser and register allocator, the byte level of the WebAssembly writer, and
  the linker from the bytes of the objects to the bytes of the module.

  \<^bold>\<open>Conventions.\<close> A C function that returns a success flag is a function into \<open>option\<close>; one that
  raises a diagnostic or computes on host integers is a function into \<open>outcome\<close> (\<open>Value\<close>, \<open>Refused\<close>
  for a diagnostic or a failure flag, \<open>Undefined\<close> where C leaves the behaviour of the compiler itself
  undefined). A \<^verbatim>\<open>char *\<close> cursor is the list of the characters from the cursor to the terminator,
  read with \<open>at p i\<close>, which is NUL behind the end. Objects that code mutates are records passed and
  returned; integers whose wrap-around matters are words (\<open>i64\<close>, \<open>u32\<close>, \<open>u8\<close>). Allocation never
  fails in the model. Theory \<open>Prelude\<close> holds these conventions and \<open>Registry\<close> the locale of
  append-only tables with a lookup.

  \<^bold>\<open>Tokenizer.\<close> \<open>TokenKind\<close> has the character classes, token kinds, punctuators and keywords of
  \<^verbatim>\<open>charclass.h\<close>, \<^verbatim>\<open>token.h\<close>, \<^verbatim>\<open>token_kind.c\<close>, \<^verbatim>\<open>punctuator.c\<close> and \<^verbatim>\<open>keywords.c\<close>: the matcher
  finds the longest punctuator, the keyword table is exact and display names lex back. \<open>Normalize\<close>
  has trigraphs and line splices (\<^verbatim>\<open>trigraph.c\<close>, first part of \<^verbatim>\<open>tokenizer.c\<close>): each kept character
  knows its physical line. \<open>Literals\<close> has escapes, universal character names, UTF-8, the code units
  and the data bytes of string literals (\<^verbatim>\<open>escape.c\<close>, \<^verbatim>\<open>literals.c\<close>). \<open>Scanner\<close> has white space,
  comments and identifier characters (\<^verbatim>\<open>scanner.c\<close>), \<open>Numbers\<close> numeric literals (\<^verbatim>\<open>number.c\<close>) with
  their types as the first fit of the C11 list. \<open>Tokenizer\<close> has the functions that scan one token;
  each satisfies the locale \<open>token_function\<close>: the token covers a piece of text that is not empty, at
  its offset and on its line. \<open>TokenStream\<close> has the pull stream: reachable states keep the line
  invariant, tokens come in order and end with one end token, the stream ends, the tolerant mode
  never raises a diagnostic for a token. \<open>TolerantWasm\<close> has the tolerant mode of the WebAssembly
  build, whose check of string literals is exact and whose check of numbers is not.

  \<^bold>\<open>Types and constants.\<close> \<open>TargetInfo\<close> has data layouts and targets (\<^verbatim>\<open>target_info.c\<close>),
  \<open>IntegerConversion\<close> the type shapes, promotions and usual arithmetic conversions
  (\<^verbatim>\<open>type_system\<close>), with the lemmas that they preserve values; \<open>ConstantEvaluation\<close> the casts and the
  untyped and typed evaluators of \<^verbatim>\<open>semantic/integer_constant_evaluation.c\<close>: the typed one computes
  exactly what C11 defines, refuses the rest and never runs into undefined host arithmetic (shifts,
  divisions and products in C \<^verbatim>\<open>int\<close> are undefined in the model where C leaves them so), on layouts
  whose sizes fit an \<^verbatim>\<open>int\<close> when multiplied by 8.
  \<open>TypeIdentity\<close> has the table of interned types (\<^verbatim>\<open>semantic/type_identity.c\<close>): a state with
  append-only shapes and base and parameter relations, one definition per interning and query
  function. The locales \<open>interning\<close> and \<open>stable_interning\<close> state what a client needs of it; types are
  interned once, identities survive later interning, and every walk along base links returns.
  \<open>TypeCompatibility\<close> has matching, compatible and composite types (same file; a composite says all
  that either operand says),
  \<open>TypeLayout\<close> sizes, alignments, record tables and the frame
  (\<^verbatim>\<open>type_layout.c\<close>, \<^verbatim>\<open>semantic/record_layout.c\<close>, \<^verbatim>\<open>lowering/frame_layout.c\<close>), \<open>AggregateLayout\<close> the placing of
  members and bit-fields of structures and unions with packing
  (\<^verbatim>\<open>semantic/aggregate_member_resolution.c\<close>, \<^verbatim>\<open>parser/pragma_pack.c\<close>): members are disjoint unless the size
  overflows, which is stated as well, and a published record has a size that is a multiple of its
  alignment under every packing, so that every layout can be repeated in an array.

  \<^bold>\<open>Scopes.\<close> \<open>ScopeGraph\<close> is \<^verbatim>\<open>semantic/scope_graph.c\<close>: scopes, declarations, order domains, lookup
  points and checkpoints. The operations form a datatype and the reachable graphs an inductive set;
  lookup finds the innermost and latest visible declaration, a captured point keeps its meaning for
  all names but labels, a rollback restores the graph.

  \<^bold>\<open>Intermediate representation.\<close> \<open>IR\<close> is the data model of \<^verbatim>\<open>ir/ir.h\<close>, \<open>IRBuild\<close> the builder and
  the symbol tables of \<^verbatim>\<open>ir/ir_alloc.c\<close> (every function the builder reaches is well formed), \<open>IRData\<close>
  the data module (\<^verbatim>\<open>ir/ir_data.c\<close>), \<open>IROpt\<close> constant folding and dead code elimination
  (\<^verbatim>\<open>ir/ir_opt.c\<close>), both proved to preserve executions, and \<open>RegAlloc\<close> the linear scan
  (\<^verbatim>\<open>ir/ir_regalloc.c\<close>): registers do not interfere.

  \<^bold>\<open>WebAssembly bytes.\<close> \<open>WasmBuffer\<close> is \<^verbatim>\<open>arch/wasm32/wasm32_obj_buffer.c\<close>, \<open>WasmLink\<close> the reader and
  the output buffer of \<^verbatim>\<open>ag_wasm_link.c\<close>; the locale \<open>codec\<close> states that a reader inverts a writer and is
  interpreted for both LEB128 forms, the patchable form and strings.

  \<^bold>\<open>Linker.\<close> All of it is \<^verbatim>\<open>tools/wasm_obj_linker/ag_wasm_link.c\<close>. \<open>LinkObject\<close> reads an object: the
  record \<open>object_t\<close> has the C structure's fields, pointers into other tables are positions, and an
  accepted object has consistent metadata. \<open>LinkModule\<close> collects types, imports and exports, resolves
  symbols, numbers functions and lays out data and memory. \<open>LinkReloc\<close> computes and patches
  relocations: sites that do not overlap keep what was written, the function table is numbered from
  two on and has one slot for a function. \<open>LinkOutput\<close> has the steps of linking in their order and the writers of the sections; a
  writer is described by the bytes it appends. \<open>LinkSound\<close> puts the steps together: what a linked
  module says of its functions, data and relocations. \<open>LinkRoundtrip\<close> reads the written module back
  with the reader of \<open>LinkObject\<close>. The theorems of linking assume objects as the reader leaves them
  (\<open>fresh_object\<close>) and, of the synthesised runtime object, the same (\<open>runtime_fresh\<close>).

  \<^bold>\<open>Termination.\<close> No definition uses fuel. Loops are structural recursions or a \<open>function\<close> with a
  measure, in the tokenizer the length of the text behind the cursor, which needs that every escape,
  identifier character and token consumes a character, in the reader of objects the bytes left. The
  elimination loop of the optimiser terminates because each pass that changes something makes one
  more instruction a NOP. Walks along links of the type table and of the scope graph could run in a
  circle on an arbitrary table; they are \<open>partial_function (option)\<close>, and on every reachable table
  and graph they are proved to return.

  \<^bold>\<open>Parameters.\<close> The host's \<^verbatim>\<open>strtod\<close> is an argument of the number parser; where newlines matter,
  \<open>strtod_ok\<close> says that it consumes only characters of a floating literal. The machine that runs the
  intermediate representation is a parameter of the optimiser's theorems. Folding asks of it that
  the integer opcodes have on 64-bit vregs the meaning \<open>ir_integer_op\<close> gives them over the integers,
  elimination that the opcodes \<open>value_ops\<close> only change their destination; both are written from
  \<^verbatim>\<open>ir.h\<close> and share nothing with the functions of the optimiser they judge. The linker takes the
  comparison of C signatures and of data signatures, the addresses of runtime data and the
  synthesised runtime object as arguments (\<open>link_env\<close>, \<open>synthesize\<close>).

  \<^bold>\<open>Not modelled.\<close> The preprocessor, parser, semantic resolution, the typed tree and its lowering, the
  two code generators, the runtime libraries, the language analysis, diagnostics, configuration and
  the command line. They either build on syntax trees that are outside these parts or only do input
  and output. Of the linker the parser of C signature strings, the stubs of the runtime and the
  command line are left out, of the aggregate layout the checks and registration of member types. Of
  the tokenizer the allocator, the table of file names, the token cursor and the unused \<^verbatim>\<open>gperf\<close> table
  are left out.
\<close>

end
